(* ===== verification/Prelude.thy ===== *)
theory Prelude
  imports Main "HOL-Library.Word" "HOL-Library.List_Lexorder"
begin

unbundle bit_operations_syntax

section \<open>Shared types, the allocator, and the automation of the library\<close>

text \<open>
  The machine types of the code base (\<^verbatim>\<open>k_u8\<close> \dots \<^verbatim>\<open>k_u64\<close>, \<^verbatim>\<open>treap_u64\<close>,
  \<^verbatim>\<open>raft_u64\<close>), byte strings, the allocator as a script of outcomes, C's
  unsigned subtraction on lengths, and the named collections the component theories feed.
  Nothing here models a component; everything here is used by several of them.
\<close>

type_synonym u8 = "8 word"
type_synonym u16 = "16 word"
type_synonym u32 = "32 word"
type_synonym u64 = "64 word"

type_synonym bytes = "u8 list"

text \<open>A simp collection for codec round trips and one for facts about allocation.\<close>

named_theorems codec_simps
named_theorems alloc_simps

subsection \<open>The allocator\<close>

text \<open>
  \<^verbatim>\<open>malloc\<close>, \<^verbatim>\<open>calloc\<close> and \<^verbatim>\<open>realloc\<close> either succeed or return NULL, and the code
  has a branch for both. The outcomes of the allocator calls still to come are a script, one
  boolean per call; after the script is exhausted every call succeeds. A theorem that
  quantifies over the script covers every placement of finitely many failures.
\<close>

type_synonym script = "bool list"

definition alloc :: "script \<Rightarrow> bool \<times> script" where
  "alloc s = (case s of [] \<Rightarrow> (True, []) | b # bs \<Rightarrow> (b, bs))"

lemma alloc_Nil [simp, alloc_simps]: "alloc [] = (True, [])"
  by (simp add: alloc_def)

lemma alloc_Cons [simp, alloc_simps]: "alloc (b # bs) = (b, bs)"
  by (simp add: alloc_def)

subsection \<open>Unsigned 32-bit subtraction on lengths\<close>

text \<open>
  Lengths are unsigned 32-bit values. They are kept as naturals below \<open>2 ^ 32\<close>, and a
  subtraction, which wraps in C, is written with its wrap-around.
\<close>

definition usub32 :: "nat \<Rightarrow> nat \<Rightarrow> nat" where
  "usub32 a b = (if b \<le> a then a - b else a + 2 ^ 32 - b)"

lemma usub32_le [simp]: "b \<le> a \<Longrightarrow> usub32 a b = a - b"
  by (simp add: usub32_def)

lemma usub32_word: "a < 2 ^ 32 \<Longrightarrow> b < 2 ^ 32 \<Longrightarrow> usub32 a b = unat (of_nat a - of_nat b :: u32)"
  by (cases "b \<le> a") (auto simp: usub32_def unat_sub_if_size unat_of_nat word_size take_bit_nat_eq_self)

lemma unat_of_nat_less: "n < 2 ^ LENGTH('a::len) \<Longrightarrow> unat (of_nat n :: 'a word) = n"
  by (simp add: unat_of_nat take_bit_nat_eq_self)

subsection \<open>Lists\<close>

lemma nth_append_drop [simp]: "i < length xs \<Longrightarrow> (xs @ ys) ! i = xs ! i"
  by (simp add: nth_append)

lemma take_drop_append_same [simp]:
  "take (length xs) (drop n (ys @ xs @ zs)) = xs" if "n = length ys"
  using that by simp

lemma list_all_set_iff: "list_all P xs \<longleftrightarrow> (\<forall>x\<in>set xs. P x)"
  by (simp add: list_all_iff)

end
