(* ===== verification/Kbase.thy ===== *)
theory Kbase
  imports Prelude
begin

unbundle bit_operations_syntax

section \<open>kbase.h: byte primitives\<close>

text \<open>
  Little-endian integer I/O, the table-driven CRC-32, the growing output buffer \<^verbatim>\<open>k_buf\<close>
  and the bounds-checked input cursor \<^verbatim>\<open>k_reader\<close> of \<^verbatim>\<open>src/code/kbase.h\<close>.
  A pointer into a byte array is the list of bytes from that position on. A signed integer
  is the word with the same bits (C's conversion between the signed and the unsigned type of
  one width keeps the bits); \<^const>\<open>sint\<close> reads it.
\<close>

subsection \<open>Endian I/O\<close>

definition k_read_u8 :: "bytes \<Rightarrow> u8" where
  "k_read_u8 p = p ! 0"

definition k_read_u16 :: "bytes \<Rightarrow> u16" where
  "k_read_u16 p = ucast (p ! 0) OR push_bit 8 (ucast (p ! 1))"

definition k_read_u32 :: "bytes \<Rightarrow> u32" where
  "k_read_u32 p = ucast (p ! 0) OR push_bit 8 (ucast (p ! 1)) OR push_bit 16 (ucast (p ! 2))
     OR push_bit 24 (ucast (p ! 3))"

definition k_read_u64 :: "bytes \<Rightarrow> u64" where
  "k_read_u64 p = ucast (p ! 0) OR push_bit 8 (ucast (p ! 1)) OR push_bit 16 (ucast (p ! 2))
     OR push_bit 24 (ucast (p ! 3)) OR push_bit 32 (ucast (p ! 4)) OR push_bit 40 (ucast (p ! 5))
     OR push_bit 48 (ucast (p ! 6)) OR push_bit 56 (ucast (p ! 7))"

definition k_read_i32 :: "bytes \<Rightarrow> u32" where
  "k_read_i32 p = ucast (p ! 0) OR push_bit 8 (ucast (p ! 1)) OR push_bit 16 (ucast (p ! 2))
     OR push_bit 24 (ucast (p ! 3))"

definition k_read_i64 :: "bytes \<Rightarrow> u64" where
  "k_read_i64 p = ucast (p ! 0) OR push_bit 8 (ucast (p ! 1)) OR push_bit 16 (ucast (p ! 2))
     OR push_bit 24 (ucast (p ! 3)) OR push_bit 32 (ucast (p ! 4)) OR push_bit 40 (ucast (p ! 5))
     OR push_bit 48 (ucast (p ! 6)) OR push_bit 56 (ucast (p ! 7))"

text \<open>A write is the list of bytes it stores at \<^verbatim>\<open>p[0]\<close>, \<^verbatim>\<open>p[1]\<close>, \dots\<close>

definition k_write_u8 :: "u8 \<Rightarrow> bytes" where
  "k_write_u8 v = [v]"

definition k_write_u16 :: "u16 \<Rightarrow> bytes" where
  "k_write_u16 v = [ucast v, ucast (drop_bit 8 v)]"

definition k_write_u32 :: "u32 \<Rightarrow> bytes" where
  "k_write_u32 v = [ucast v, ucast (drop_bit 8 v), ucast (drop_bit 16 v), ucast (drop_bit 24 v)]"

definition k_write_u64 :: "u64 \<Rightarrow> bytes" where
  "k_write_u64 v = [ucast v, ucast (drop_bit 8 v), ucast (drop_bit 16 v), ucast (drop_bit 24 v),
     ucast (drop_bit 32 v), ucast (drop_bit 40 v), ucast (drop_bit 48 v), ucast (drop_bit 56 v)]"

definition k_write_i32 :: "u32 \<Rightarrow> bytes" where
  "k_write_i32 v = [ucast v, ucast (drop_bit 8 v), ucast (drop_bit 16 v), ucast (drop_bit 24 v)]"

definition k_write_i64 :: "u64 \<Rightarrow> bytes" where
  "k_write_i64 v = [ucast v, ucast (drop_bit 8 v), ucast (drop_bit 16 v), ucast (drop_bit 24 v),
     ucast (drop_bit 32 v), ucast (drop_bit 40 v), ucast (drop_bit 48 v), ucast (drop_bit 56 v)]"

subsection \<open>CRC-32\<close>

definition crc32_table :: "u32 list" where
  "crc32_table = [
   0x00000000, 0x77073096, 0xee0e612c, 0x990951ba, 0x076dc419, 0x706af48f, 0xe963a535, 0x9e6495a3,
   0x0edb8832, 0x79dcb8a4, 0xe0d5e91e, 0x97d2d988, 0x09b64c2b, 0x7eb17cbd, 0xe7b82d07, 0x90bf1d91,
   0x1db71064, 0x6ab020f2, 0xf3b97148, 0x84be41de, 0x1adad47d, 0x6ddde4eb, 0xf4d4b551, 0x83d385c7,
   0x136c9856, 0x646ba8c0, 0xfd62f97a, 0x8a65c9ec, 0x14015c4f, 0x63066cd9, 0xfa0f3d63, 0x8d080df5,
   0x3b6e20c8, 0x4c69105e, 0xd56041e4, 0xa2677172, 0x3c03e4d1, 0x4b04d447, 0xd20d85fd, 0xa50ab56b,
   0x35b5a8fa, 0x42b2986c, 0xdbbbc9d6, 0xacbcf940, 0x32d86ce3, 0x45df5c75, 0xdcd60dcf, 0xabd13d59,
   0x26d930ac, 0x51de003a, 0xc8d75180, 0xbfd06116, 0x21b4f4b5, 0x56b3c423, 0xcfba9599, 0xb8bda50f,
   0x2802b89e, 0x5f058808, 0xc60cd9b2, 0xb10be924, 0x2f6f7c87, 0x58684c11, 0xc1611dab, 0xb6662d3d,
   0x76dc4190, 0x01db7106, 0x98d220bc, 0xefd5102a, 0x71b18589, 0x06b6b51f, 0x9fbfe4a5, 0xe8b8d433,
   0x7807c9a2, 0x0f00f934, 0x9609a88e, 0xe10e9818, 0x7f6a0dbb, 0x086d3d2d, 0x91646c97, 0xe6635c01,
   0x6b6b51f4, 0x1c6c6162, 0x856530d8, 0xf262004e, 0x6c0695ed, 0x1b01a57b, 0x8208f4c1, 0xf50fc457,
   0x65b0d9c6, 0x12b7e950, 0x8bbeb8ea, 0xfcb9887c, 0x62dd1ddf, 0x15da2d49, 0x8cd37cf3, 0xfbd44c65,
   0x4db26158, 0x3ab551ce, 0xa3bc0074, 0xd4bb30e2, 0x4adfa541, 0x3dd895d7, 0xa4d1c46d, 0xd3d6f4fb,
   0x4369e96a, 0x346ed9fc, 0xad678846, 0xda60b8d0, 0x44042d73, 0x33031de5, 0xaa0a4c5f, 0xdd0d7cc9,
   0x5005713c, 0x270241aa, 0xbe0b1010, 0xc90c2086, 0x5768b525, 0x206f85b3, 0xb966d409, 0xce61e49f,
   0x5edef90e, 0x29d9c998, 0xb0d09822, 0xc7d7a8b4, 0x59b33d17, 0x2eb40d81, 0xb7bd5c3b, 0xc0ba6cad,
   0xedb88320, 0x9abfb3b6, 0x03b6e20c, 0x74b1d29a, 0xead54739, 0x9dd277af, 0x04db2615, 0x73dc1683,
   0xe3630b12, 0x94643b84, 0x0d6d6a3e, 0x7a6a5aa8, 0xe40ecf0b, 0x9309ff9d, 0x0a00ae27, 0x7d079eb1,
   0xf00f9344, 0x8708a3d2, 0x1e01f268, 0x6906c2fe, 0xf762575d, 0x806567cb, 0x196c3671, 0x6e6b06e7,
   0xfed41b76, 0x89d32be0, 0x10da7a5a, 0x67dd4acc, 0xf9b9df6f, 0x8ebeeff9, 0x17b7be43, 0x60b08ed5,
   0xd6d6a3e8, 0xa1d1937e, 0x38d8c2c4, 0x4fdff252, 0xd1bb67f1, 0xa6bc5767, 0x3fb506dd, 0x48b2364b,
   0xd80d2bda, 0xaf0a1b4c, 0x36034af6, 0x41047a60, 0xdf60efc3, 0xa867df55, 0x316e8eef, 0x4669be79,
   0xcb61b38c, 0xbc66831a, 0x256fd2a0, 0x5268e236, 0xcc0c7795, 0xbb0b4703, 0x220216b9, 0x5505262f,
   0xc5ba3bbe, 0xb2bd0b28, 0x2bb45a92, 0x5cb36a04, 0xc2d7ffa7, 0xb5d0cf31, 0x2cd99e8b, 0x5bdeae1d,
   0x9b64c2b0, 0xec63f226, 0x756aa39c, 0x026d930a, 0x9c0906a9, 0xeb0e363f, 0x72076785, 0x05005713,
   0x95bf4a82, 0xe2b87a14, 0x7bb12bae, 0x0cb61b38, 0x92d28e9b, 0xe5d5be0d, 0x7cdcefb7, 0x0bdbdf21,
   0x86d3d2d4, 0xf1d4e242, 0x68ddb3f8, 0x1fda836e, 0x81be16cd, 0xf6b9265b, 0x6fb077e1, 0x18b74777,
   0x88085ae6, 0xff0f6a70, 0x66063bca, 0x11010b5c, 0x8f659eff, 0xf862ae69, 0x616bffd3, 0x166ccf45,
   0xa00ae278, 0xd70dd2ee, 0x4e048354, 0x3903b3c2, 0xa7672661, 0xd06016f7, 0x4969474d, 0x3e6e77db,
   0xaed16a4a, 0xd9d65adc, 0x40df0b66, 0x37d83bf0, 0xa9bcae53, 0xdebb9ec5, 0x47b2cf7f, 0x30b5ffe9,
   0xbdbdf21c, 0xcabac28a, 0x53b39330, 0x24b4a3a6, 0xbad03605, 0xcdd70693, 0x54de5729, 0x23d967bf,
   0xb3667a2e, 0xc4614ab8, 0x5d681b02, 0x2a6f2b94, 0xb40bbe37, 0xc30c8ea1, 0x5a05df1b, 0x2d02ef8d]"

record k_crc32_ctx =
  reg :: u32

definition k_crc32_init :: "k_crc32_ctx" where
  "k_crc32_init = \<lparr>reg = 0xffffffff\<rparr>"

definition crc32_step :: "u32 \<Rightarrow> u8 \<Rightarrow> u32" where
  "crc32_step v b = drop_bit 8 v XOR crc32_table ! unat ((v XOR ucast b) AND 0xff)"

definition k_crc32_update :: "k_crc32_ctx \<Rightarrow> bytes \<Rightarrow> k_crc32_ctx" where
  "k_crc32_update ctx data = ctx\<lparr>reg := foldl crc32_step (reg ctx) data\<rparr>"

definition k_crc32_final :: "k_crc32_ctx \<Rightarrow> u32" where
  "k_crc32_final ctx = reg ctx XOR 0xffffffff"

definition k_crc32 :: "bytes \<Rightarrow> u32" where
  "k_crc32 data = k_crc32_final (k_crc32_update k_crc32_init data)"

subsection \<open>The output buffer\<close>

text \<open>
  \<^verbatim>\<open>b->data\<close> up to \<^verbatim>\<open>b->len\<close> is \<open>buf_data\<close>; its length is \<^verbatim>\<open>b->len\<close>.
  \<^verbatim>\<open>k_buf_reserve\<close> consults the allocator only when the capacity does not suffice.
\<close>

record k_buf =
  buf_data :: bytes
  buf_cap :: nat
  buf_err :: bool

definition k_buf_zero :: k_buf where
  "k_buf_zero = \<lparr>buf_data = [], buf_cap = 0, buf_err = False\<rparr>"

definition k_buf_free :: "k_buf \<Rightarrow> k_buf" where
  "k_buf_free b = k_buf_zero"

text \<open>The capacity loop: start at the old capacity or 128, double until \<open>need\<close> fits.\<close>

function k_buf_grow :: "nat \<Rightarrow> nat \<Rightarrow> nat" where
  "k_buf_grow c need =
     (let cap = (if c = 0 then 128 else c)
      in if cap < need then (if cap > 0x7fffffff then need else k_buf_grow (cap * 2) need) else cap)"
  by pat_completeness auto
termination
  by (relation "measure (\<lambda>(c, need). need - c)") (auto split: if_splits)

declare k_buf_grow.simps [simp del]

definition k_buf_reserve :: "script \<Rightarrow> k_buf \<Rightarrow> nat \<Rightarrow> bool \<times> script \<times> k_buf" where
  "k_buf_reserve s b add =
     (if buf_err b then (False, s, b)
      else if add > usub32 0xffffffff (length (buf_data b)) then (False, s, b\<lparr>buf_err := True\<rparr>)
      else let need = length (buf_data b) + add
        in if need \<le> buf_cap b then (True, s, b)
           else let cap = k_buf_grow (buf_cap b) need; (ok, s') = alloc s
             in if \<not> ok then (False, s', b\<lparr>buf_err := True\<rparr>)
                else (True, s', b\<lparr>buf_cap := cap\<rparr>))"

definition k_buf_bytes :: "script \<Rightarrow> k_buf \<Rightarrow> bytes \<Rightarrow> script \<times> k_buf" where
  "k_buf_bytes s b data =
     (if buf_err b then (s, b\<lparr>buf_err := True\<rparr>)
      else case k_buf_reserve s b (length data) of
        (False, s', b') \<Rightarrow> (s', b'\<lparr>buf_err := True\<rparr>)
      | (True, s', b') \<Rightarrow> (s', b'\<lparr>buf_data := buf_data b' @ data\<rparr>))"

text \<open>The five integer writers share one shape: reserve the width, store, advance.\<close>

definition k_buf_put :: "script \<Rightarrow> k_buf \<Rightarrow> bytes \<Rightarrow> script \<times> k_buf" where
  "k_buf_put s b w =
     (case k_buf_reserve s b (length w) of
        (False, s', b') \<Rightarrow> (s', b')
      | (True, s', b') \<Rightarrow> (s', b'\<lparr>buf_data := buf_data b' @ w\<rparr>))"

definition k_buf_u8 :: "script \<Rightarrow> k_buf \<Rightarrow> u8 \<Rightarrow> script \<times> k_buf" where
  "k_buf_u8 s b v = k_buf_put s b (k_write_u8 v)"

definition k_buf_u16 :: "script \<Rightarrow> k_buf \<Rightarrow> u16 \<Rightarrow> script \<times> k_buf" where
  "k_buf_u16 s b v = k_buf_put s b (k_write_u16 v)"

definition k_buf_u32 :: "script \<Rightarrow> k_buf \<Rightarrow> u32 \<Rightarrow> script \<times> k_buf" where
  "k_buf_u32 s b v = k_buf_put s b (k_write_u32 v)"

definition k_buf_i32 :: "script \<Rightarrow> k_buf \<Rightarrow> u32 \<Rightarrow> script \<times> k_buf" where
  "k_buf_i32 s b v = k_buf_put s b (k_write_i32 v)"

definition k_buf_i64 :: "script \<Rightarrow> k_buf \<Rightarrow> u64 \<Rightarrow> script \<times> k_buf" where
  "k_buf_i64 s b v = k_buf_put s b (k_write_i64 v)"

subsection \<open>The input cursor\<close>

record k_reader =
  rd_data :: bytes
  rd_off :: nat
  rd_err :: bool

definition k_reader_init :: "bytes \<Rightarrow> k_reader" where
  "k_reader_init data = \<lparr>rd_data = data, rd_off = 0, rd_err = False\<rparr>"

definition k_reader_need :: "k_reader \<Rightarrow> nat \<Rightarrow> bool \<times> k_reader" where
  "k_reader_need r sz =
     (if rd_err r \<or> sz > usub32 (length (rd_data r)) (rd_off r)
      then (False, r\<lparr>rd_err := True\<rparr>) else (True, r))"

text \<open>The integer readers share one shape too; a failed read yields 0 and moves nothing.\<close>

definition k_reader_get :: "k_reader \<Rightarrow> nat \<Rightarrow> (bytes \<Rightarrow> 'a::len word) \<Rightarrow> 'a word \<times> k_reader" where
  "k_reader_get r w rd =
     (case k_reader_need r w of
        (False, r') \<Rightarrow> (0, r')
      | (True, r') \<Rightarrow> (rd (drop (rd_off r') (rd_data r')), r'\<lparr>rd_off := rd_off r' + w\<rparr>))"

definition k_reader_u8 :: "k_reader \<Rightarrow> u8 \<times> k_reader" where
  "k_reader_u8 r = k_reader_get r 1 k_read_u8"

definition k_reader_u16 :: "k_reader \<Rightarrow> u16 \<times> k_reader" where
  "k_reader_u16 r = k_reader_get r 2 k_read_u16"

definition k_reader_u32 :: "k_reader \<Rightarrow> u32 \<times> k_reader" where
  "k_reader_u32 r = k_reader_get r 4 k_read_u32"

definition k_reader_i32 :: "k_reader \<Rightarrow> u32 \<times> k_reader" where
  "k_reader_i32 r = k_reader_get r 4 k_read_i32"

definition k_reader_i64 :: "k_reader \<Rightarrow> u64 \<times> k_reader" where
  "k_reader_i64 r = k_reader_get r 8 k_read_i64"

text \<open>\<^verbatim>\<open>k_reader_bytes\<close> returns a pointer into the data, NULL on failure.\<close>

definition k_reader_bytes :: "k_reader \<Rightarrow> nat \<Rightarrow> bytes option \<times> k_reader" where
  "k_reader_bytes r sz =
     (case k_reader_need r sz of
        (False, r') \<Rightarrow> (None, r')
      | (True, r') \<Rightarrow>
          (Some (take sz (drop (rd_off r') (rd_data r'))), r'\<lparr>rd_off := rd_off r' + sz\<rparr>))"

section \<open>Laws of the byte layer\<close>

subsection \<open>Fixed-width codecs\<close>

lemmas codec_defs =
  k_read_u8_def k_read_u16_def k_read_u32_def k_read_u64_def k_read_i32_def k_read_i64_def
  k_write_u8_def k_write_u16_def k_write_u32_def k_write_u64_def k_write_i32_def k_write_i64_def

text \<open>
  What the reader and the buffer rely on of an integer format: a fixed width and a decoder
  that inverts the encoder whatever follows it.
\<close>

locale byte_codec =
  fixes enc :: "'a::len word \<Rightarrow> bytes" and dec :: "bytes \<Rightarrow> 'a word" and width :: nat
  assumes dec_enc: "dec (enc v @ rest) = v"
    and length_enc: "length (enc v) = width"
begin

text \<open>The bytes not yet consumed drive a read: a codec's own bytes come back as the value.\<close>

lemma reader_get:
  assumes "drop (rd_off r) (rd_data r) = enc v @ rest" "\<not> rd_err r" "rd_off r \<le> length (rd_data r)"
  shows "k_reader_get r width dec = (v, r\<lparr>rd_off := rd_off r + width\<rparr>)"
    and "drop (rd_off r + width) (rd_data r) = rest"
    and "rd_off r + width \<le> length (rd_data r)"
proof -
  have "length (rd_data r) - rd_off r = width + length rest"
    using arg_cong [OF assms(1), of length] by (simp add: length_enc)
  then have room: "width \<le> length (rd_data r) - rd_off r" by simp
  then show "k_reader_get r width dec = (v, r\<lparr>rd_off := rd_off r + width\<rparr>)"
    using assms by (simp add: k_reader_get_def k_reader_need_def dec_enc)
  have "drop (width + rd_off r) (rd_data r) = drop width (enc v @ rest)"
    by (metis assms(1) drop_drop)
  then show "drop (rd_off r + width) (rd_data r) = rest"
    by (simp add: length_enc add.commute)
  show "rd_off r + width \<le> length (rd_data r)" using room assms(3) by simp
qed

lemma put_data:
  assumes "k_buf_put s b (enc v) = (s', b')" "\<not> buf_err b'"
  shows "buf_data b' = buf_data b @ enc v"
  using assms
  by (auto simp: k_buf_put_def k_buf_reserve_def Let_def split: if_splits prod.splits bool.splits)

end

lemma take_bit_join:
  "take_bit m v OR push_bit m (take_bit k (drop_bit m v)) = take_bit (m + k) (v :: 'a::len word)"
  by (rule bit_word_eqI) (auto simp: bit_simps)

lemma ucast_u8_u16: "(ucast (ucast v :: u8) :: u16) = take_bit 8 v"
  by (rule bit_word_eqI) (auto simp: bit_simps)

lemma ucast_u8_u32: "(ucast (ucast v :: u8) :: u32) = take_bit 8 v"
  by (rule bit_word_eqI) (auto simp: bit_simps)

lemma ucast_u8_u64: "(ucast (ucast v :: u8) :: u64) = take_bit 8 v"
  by (rule bit_word_eqI) (auto simp: bit_simps)

lemmas byte_join = take_bit_join [where m = 8 and k = 8, simplified]
  take_bit_join [where m = 16 and k = 8, simplified] take_bit_join [where m = 24 and k = 8, simplified]
  take_bit_join [where m = 32 and k = 8, simplified] take_bit_join [where m = 40 and k = 8, simplified]
  take_bit_join [where m = 48 and k = 8, simplified] take_bit_join [where m = 56 and k = 8, simplified]

lemma take_bit_full [simp]:
  "take_bit 16 (a :: u16) = a" "take_bit 32 (b :: u32) = b" "take_bit 64 (c :: u64) = c"
  by (simp_all add: take_bit_word_eq_self)

lemmas byte_codec_simps = codec_defs ucast_u8_u16 ucast_u8_u32 ucast_u8_u64

interpretation u8c: byte_codec k_write_u8 k_read_u8 1
  by unfold_locales (simp_all add: codec_defs)

interpretation u16c: byte_codec k_write_u16 k_read_u16 2
  by unfold_locales (simp_all add: byte_codec_simps byte_join)

interpretation u32c: byte_codec k_write_u32 k_read_u32 4
  by unfold_locales (simp_all add: byte_codec_simps byte_join flip: or.assoc)

interpretation i32c: byte_codec k_write_i32 k_read_i32 4
  by unfold_locales (simp_all add: byte_codec_simps byte_join flip: or.assoc)

interpretation u64c: byte_codec k_write_u64 k_read_u64 8
  by unfold_locales (simp_all add: byte_codec_simps byte_join flip: or.assoc)

interpretation i64c: byte_codec k_write_i64 k_read_i64 8
  by unfold_locales (simp_all add: byte_codec_simps byte_join flip: or.assoc)

subsection \<open>The reader\<close>

text \<open>A cursor never leaves its data, an error is sticky, and a failed read consumes nothing.\<close>

definition reader_ok :: "k_reader \<Rightarrow> bool" where
  "reader_ok r \<longleftrightarrow> rd_off r \<le> length (rd_data r)"

lemma reader_ok_init [simp]: "reader_ok (k_reader_init d)"
  by (simp add: reader_ok_def k_reader_init_def)

lemma reader_need_True:
  assumes "k_reader_need r n = (True, r')" "reader_ok r"
  shows "r' = r \<and> \<not> rd_err r \<and> rd_off r + n \<le> length (rd_data r)"
  using assms by (auto simp: k_reader_need_def reader_ok_def split: if_splits)

lemma reader_need_False:
  assumes "k_reader_need r n = (False, r')"
  shows "r' = r\<lparr>rd_err := True\<rparr>"
  using assms by (auto simp: k_reader_need_def split: if_splits)

lemma reader_get_ok:
  assumes "reader_ok r" "k_reader_get r w f = (v, r')"
  shows "reader_ok r' \<and> rd_data r' = rd_data r \<and> (rd_err r \<longrightarrow> rd_err r')
         \<and> (if rd_err r' then v = 0 \<and> rd_off r' = rd_off r else rd_off r' = rd_off r + w)"
  using assms by (auto simp: k_reader_get_def reader_ok_def
      split: prod.splits bool.splits dest!: reader_need_False reader_need_True [unfolded reader_ok_def])

lemma reader_bytes_ok:
  assumes "reader_ok r" "k_reader_bytes r n = (v, r')"
  shows "reader_ok r' \<and> rd_data r' = rd_data r \<and> (rd_err r \<longrightarrow> rd_err r')
         \<and> (case v of None \<Rightarrow> rd_err r' \<and> rd_off r' = rd_off r
                    | Some bs \<Rightarrow> \<not> rd_err r' \<and> length bs = n \<and> rd_off r' = rd_off r + n)"
  using assms by (auto simp: k_reader_bytes_def reader_ok_def
      split: prod.splits bool.splits dest!: reader_need_False reader_need_True [unfolded reader_ok_def])

lemma reader_bytes_take:
  assumes "drop (rd_off r) (rd_data r) = bs @ rest" "\<not> rd_err r" "rd_off r \<le> length (rd_data r)"
  shows "k_reader_bytes r (length bs) = (Some bs, r\<lparr>rd_off := rd_off r + length bs\<rparr>)"
    and "drop (rd_off r + length bs) (rd_data r) = rest"
    and "rd_off r + length bs \<le> length (rd_data r)"
proof -
  have len: "length (rd_data r) - rd_off r = length bs + length rest"
    using arg_cong [OF assms(1), of length] by simp
  then show "k_reader_bytes r (length bs) = (Some bs, r\<lparr>rd_off := rd_off r + length bs\<rparr>)"
    using assms by (simp add: k_reader_bytes_def k_reader_need_def)
  have "drop (length bs + rd_off r) (rd_data r) = drop (length bs) (bs @ rest)"
    by (metis assms(1) drop_drop)
  then show "drop (rd_off r + length bs) (rd_data r) = rest" by (simp add: add.commute)
  show "rd_off r + length bs \<le> length (rd_data r)" using len assms(3) by simp
qed

subsection \<open>The buffer\<close>

text \<open>
  The capacity loop ends with a capacity that holds what was asked for and still fits 32 bits.
\<close>

lemma k_buf_grow_bounds: "need \<le> k_buf_grow c need \<and> k_buf_grow c need \<le> max (max c 128) (max need 0xfffffffe)"
proof (induction c need rule: k_buf_grow.induct)
  case (1 c need)
  show ?case
    by (subst (1 2) k_buf_grow.simps) (use 1 in \<open>auto simp: Let_def max_def split: if_splits\<close>)
qed

definition buf_wf :: "k_buf \<Rightarrow> bool" where
  "buf_wf b \<longleftrightarrow> length (buf_data b) \<le> buf_cap b \<and> buf_cap b \<le> 0xffffffff"

lemma buf_wf_zero [simp]: "buf_wf k_buf_zero"
  by (simp add: buf_wf_def k_buf_zero_def)

lemma reserve_wf:
  assumes "buf_wf b" "k_buf_reserve s b n = (ok, s', b')"
  shows "buf_wf b' \<and> buf_data b' = buf_data b \<and> (ok \<longleftrightarrow> \<not> buf_err b')
         \<and> (ok \<longrightarrow> \<not> buf_err b \<and> length (buf_data b) + n \<le> buf_cap b') \<and> (buf_err b \<longrightarrow> buf_err b')"
proof -
  have "length (buf_data b) \<le> 4294967295" using assms(1) by (simp add: buf_wf_def)
  moreover note k_buf_grow_bounds [of "length (buf_data b) + n" "buf_cap b"]
  ultimately show ?thesis using assms
    by (auto simp: k_buf_reserve_def buf_wf_def Let_def split: if_splits prod.splits)
qed

lemma buf_bytes_spec:
  assumes "buf_wf b" "k_buf_bytes s b d = (s', b')"
  shows "buf_wf b' \<and> (buf_err b \<longrightarrow> buf_err b')
         \<and> buf_data b' = (if buf_err b' then buf_data b else buf_data b @ d)"
  using assms by (auto simp: k_buf_bytes_def buf_wf_def split: if_splits prod.splits bool.splits
      dest!: reserve_wf [OF assms(1)])

lemma buf_put_spec:
  assumes "buf_wf b" "k_buf_put s b w = (s', b')"
  shows "buf_wf b' \<and> (buf_err b \<longrightarrow> buf_err b')
         \<and> buf_data b' = (if buf_err b' then buf_data b else buf_data b @ w)"
  using assms by (auto simp: k_buf_put_def buf_wf_def split: if_splits prod.splits bool.splits
      dest!: reserve_wf [OF assms(1)])

text \<open>With memory and room, a write appends its bytes and leaves no error.\<close>

lemma reserve_room:
  assumes "buf_wf b" "\<not> buf_err b" "length (buf_data b) + n \<le> 0xffffffff" "s = []"
  shows "fst (k_buf_reserve s b n) \<and> fst (snd (k_buf_reserve s b n)) = []"
  using assms by (auto simp: k_buf_reserve_def buf_wf_def Let_def split: if_splits prod.splits)

lemma buf_put_room:
  assumes "buf_wf b" "\<not> buf_err b" "length (buf_data b) + length w \<le> 0xffffffff"
  shows "\<exists>b'. k_buf_put [] b w = ([], b') \<and> buf_wf b' \<and> \<not> buf_err b' \<and> buf_data b' = buf_data b @ w"
proof -
  obtain ok s' b1 where r: "k_buf_reserve [] b (length w) = (ok, s', b1)" by (metis prod_cases3)
  from reserve_room [OF assms, of "[]"] r have "ok" "s' = []" by auto
  moreover from reserve_wf [OF assms(1) r] \<open>ok\<close> have "\<not> buf_err b1" "buf_data b1 = buf_data b" by auto
  ultimately have "k_buf_put [] b w = ([], b1\<lparr>buf_data := buf_data b @ w\<rparr>)" "\<not> buf_err b1"
    using r by (auto simp: k_buf_put_def)
  with buf_put_spec [OF assms(1)] show ?thesis by fastforce
qed

lemma k_buf_bytes_put: "k_buf_bytes s b d = k_buf_put s b d"
  by (cases "k_buf_reserve s b (length d)")
     (auto simp: k_buf_bytes_def k_buf_put_def k_buf_reserve_def Let_def split: if_splits prod.splits)

lemma buf_bytes_room:
  assumes "buf_wf b" "\<not> buf_err b" "length (buf_data b) + length w \<le> 0xffffffff"
  shows "\<exists>b'. k_buf_bytes [] b w = ([], b') \<and> buf_wf b' \<and> \<not> buf_err b' \<and> buf_data b' = buf_data b @ w"
  unfolding k_buf_bytes_put by (rule buf_put_room [OF assms])

end
