(* ===== verification/Kproto.thy ===== *)
theory Kproto
  imports Kbase
begin

section \<open>kproto.h: the wire protocol shared by client and server\<close>

text \<open>
  Wire limits and constants, the frame codec (header, reassembly of the byte stream), the client
  payload codec and the cluster-spec parser of \<^verbatim>\<open>src/code/kproto.h\<close>. A C string is the list
  of its bytes without the terminator. The user callback of \<^verbatim>\<open>k_rx_feed\<close> is a parameter of
  the model: it returns its return code, whether it closed the connection (which frees this very
  receive buffer) and its own state.
\<close>

subsection \<open>Constants\<close>

abbreviation K_HOST_MAX :: nat where "K_HOST_MAX \<equiv> 64"
abbreviation K_MAX_NODES :: nat where "K_MAX_NODES \<equiv> 16"
abbreviation K_FRAME_HEADER :: nat where "K_FRAME_HEADER \<equiv> 12"
abbreviation K_FRAME_MAX :: nat where "K_FRAME_MAX \<equiv> 1048576"
abbreviation K_KEY_MAX :: nat where "K_KEY_MAX \<equiv> 65536"
abbreviation K_VALUE_MAX :: nat where "K_VALUE_MAX \<equiv> 524288"
abbreviation K_CAS_PACKED_MAX :: nat where "K_CAS_PACKED_MAX \<equiv> 2 * K_VALUE_MAX + 9"
abbreviation K_CLIENT_MAGIC :: u32 where "K_CLIENT_MAGIC \<equiv> 0x314c434b"
abbreviation K_PEER_MAGIC :: u32 where "K_PEER_MAGIC \<equiv> 0x3152504b"
abbreviation K_WIRE_VERSION :: u8 where "K_WIRE_VERSION \<equiv> 1"
abbreviation K_PEER_WIRE_VERSION :: u8 where "K_PEER_WIRE_VERSION \<equiv> 3"
abbreviation K_REQ_GET :: u8 where "K_REQ_GET \<equiv> 1"
abbreviation K_REQ_MGET :: u8 where "K_REQ_MGET \<equiv> 2"
abbreviation K_REQ_RGET :: u8 where "K_REQ_RGET \<equiv> 3"
abbreviation K_REQ_SET :: u8 where "K_REQ_SET \<equiv> 4"
abbreviation K_REQ_MSET :: u8 where "K_REQ_MSET \<equiv> 5"
abbreviation K_REQ_RSET :: u8 where "K_REQ_RSET \<equiv> 6"
abbreviation K_REQ_DEL :: u8 where "K_REQ_DEL \<equiv> 7"
abbreviation K_REQ_MDEL :: u8 where "K_REQ_MDEL \<equiv> 8"
abbreviation K_REQ_RDEL :: u8 where "K_REQ_RDEL \<equiv> 9"
abbreviation K_REQ_COUNT :: u8 where "K_REQ_COUNT \<equiv> 10"
abbreviation K_REQ_MIN :: u8 where "K_REQ_MIN \<equiv> 11"
abbreviation K_REQ_MAX :: u8 where "K_REQ_MAX \<equiv> 12"
abbreviation K_REQ_CAS :: u8 where "K_REQ_CAS \<equiv> 13"
abbreviation K_REQ_FCALL :: u8 where "K_REQ_FCALL \<equiv> 14"
abbreviation K_REQ_INFO :: u8 where "K_REQ_INFO \<equiv> 15"
abbreviation K_REQ_STATS :: u8 where "K_REQ_STATS \<equiv> 16"
abbreviation K_REQ_MEMBER :: u8 where "K_REQ_MEMBER \<equiv> 17"
abbreviation K_REQ_MEMBERS :: u8 where "K_REQ_MEMBERS \<equiv> 18"
abbreviation K_REQ_HELP :: u8 where "K_REQ_HELP \<equiv> 19"
abbreviation K_REQ_SHUTDOWN :: u8 where "K_REQ_SHUTDOWN \<equiv> 20"
abbreviation K_REQ_TOPOLOGY :: u8 where "K_REQ_TOPOLOGY \<equiv> 21"

subsection \<open>Cluster specifications\<close>

record k_node_spec =
  node_id :: nat
  node_host :: bytes
  node_client_port :: nat
  node_peer_port :: nat

type_synonym k_cluster = "k_node_spec list"

text \<open>
  \<^verbatim>\<open>strtoul\<close> in base 10 (the parts the parser can see): leading white space, an optional
  sign, the longest run of digits; out of range gives the largest \<^verbatim>\<open>unsigned long\<close>, a minus
  sign negates modulo \<open>2 ^ w\<close> where \<open>w\<close> is the width of \<^verbatim>\<open>unsigned long\<close>; with no
  digit the value is 0 and the whole text is left over. The result is the value and the rest.
\<close>

definition is_digit :: "u8 \<Rightarrow> bool" where
  "is_digit c \<longleftrightarrow> 48 \<le> unat c \<and> unat c \<le> 57"

definition is_space :: "u8 \<Rightarrow> bool" where
  "is_space c \<longleftrightarrow> unat c = 32 \<or> (9 \<le> unat c \<and> unat c \<le> 13)"

definition digits_value :: "bytes \<Rightarrow> nat" where
  "digits_value ds = foldl (\<lambda>a c. a * 10 + (unat c - 48)) 0 ds"

definition strtoul :: "nat \<Rightarrow> bytes \<Rightarrow> nat \<times> bytes" where
  "strtoul w text =
     (let t = dropWhile is_space text;
          neg = (case t of c # _ \<Rightarrow> c = 45 | [] \<Rightarrow> False);
          t' = (case t of c # cs \<Rightarrow> if c = 45 \<or> c = 43 then cs else t | [] \<Rightarrow> t);
          ds = takeWhile is_digit t'; v = digits_value ds
      in if ds = [] then (0, text)
         else (if v \<ge> 2 ^ w then 2 ^ w - 1 else if neg \<and> v > 0 then 2 ^ w - v else v,
               dropWhile is_digit t'))"

definition k_parse_uint :: "nat \<Rightarrow> bytes \<Rightarrow> nat \<Rightarrow> nat option" where
  "k_parse_uint w text max_value =
     (if text = [] then None
      else let (value, rest) = strtoul w text
        in if rest \<noteq> [] \<or> value = 0 \<or> value > max_value then None else Some value)"

fun k_cluster_index :: "k_cluster \<Rightarrow> nat \<Rightarrow> nat option" where
  "k_cluster_index [] i = None"
| "k_cluster_index (n # ns) i =
     (if node_id n = i then Some 0 else map_option Suc (k_cluster_index ns i))"

text \<open>\<^verbatim>\<open>strchr\<close>: what precedes the first occurrence of a byte and what follows it.\<close>

fun strchr :: "bytes \<Rightarrow> u8 \<Rightarrow> (bytes \<times> bytes) option" where
  "strchr [] c = None"
| "strchr (x # xs) c =
     (if x = c then Some ([], xs) else map_option (\<lambda>(a, b). (x # a, b)) (strchr xs c))"

text \<open>One item \<^verbatim>\<open>id@host:client:peer\<close>; bytes 64, 58 and 44 are \<^verbatim>\<open>@\<close>, \<^verbatim>\<open>:\<close>, \<^verbatim>\<open>,\<close>.\<close>

definition k_cluster_item :: "nat \<Rightarrow> bytes \<Rightarrow> k_node_spec option" where
  "k_cluster_item w item =
     (case strchr item 64 of None \<Rightarrow> None
      | Some (id_text, r1) \<Rightarrow>
     (case strchr r1 58 of None \<Rightarrow> None
      | Some (host_text, r2) \<Rightarrow>
     (case strchr r2 58 of None \<Rightarrow> None
      | Some (client_text, peer_text) \<Rightarrow>
          if strchr peer_text 58 \<noteq> None then None
          else if host_text = [] \<or> length host_text \<ge> K_HOST_MAX then None
          else case (k_parse_uint w id_text 2147483647, k_parse_uint w client_text 65535,
                     k_parse_uint w peer_text 65535) of
            (Some i, Some c, Some p) \<Rightarrow>
              Some \<lparr>node_id = i, node_host = host_text, node_client_port = c, node_peer_port = p\<rparr>
          | _ \<Rightarrow> None)))"

text \<open>The loop over the comma-separated items; \<open>acc\<close> is \<^verbatim>\<open>cluster->nodes[0..count)\<close>.\<close>

lemma strchr_shrinks: "strchr s c = Some (a, b) \<Longrightarrow> length b < length s"
  by (induction s arbitrary: a b) (auto split: if_splits)

function k_cluster_loop :: "nat \<Rightarrow> k_cluster \<Rightarrow> bytes \<Rightarrow> k_cluster option" where
  "k_cluster_loop w acc cursor =
     (if cursor = [] then Some acc
      else let e = strchr cursor 44; item = (case e of None \<Rightarrow> cursor | Some (a, _) \<Rightarrow> a)
        in if item = [] \<or> length item \<ge> 192 \<or> length acc \<ge> K_MAX_NODES then None
           else case k_cluster_item w item of None \<Rightarrow> None
             | Some n \<Rightarrow>
                 if node_id n \<in> set (map node_id acc) then None
                 else case e of None \<Rightarrow> Some (acc @ [n])
                   | Some (_, rest) \<Rightarrow> k_cluster_loop w (acc @ [n]) rest)"
  by pat_completeness auto
termination
  by (relation "measure (\<lambda>(w, acc, cursor). length cursor)") (auto dest: strchr_shrinks [OF sym])

declare k_cluster_loop.simps [simp del]

definition k_cluster_parse :: "nat \<Rightarrow> bytes \<Rightarrow> k_cluster option" where
  "k_cluster_parse w text =
     (if text = [] then None
      else case k_cluster_loop w [] text of None \<Rightarrow> None
        | Some c \<Rightarrow> if length c > 0 then Some c else None)"

definition k_numeric_host :: "bytes \<Rightarrow> bytes" where
  "k_numeric_host h = (if h = [108, 111, 99, 97, 108, 104, 111, 115, 116]
     then [49, 50, 55, 46, 48, 46, 48, 46, 49] else h)"

subsection \<open>Frames\<close>

definition wire_version :: "u32 \<Rightarrow> u8" where
  "wire_version magic = (if magic = K_PEER_MAGIC then K_PEER_WIRE_VERSION else K_WIRE_VERSION)"

definition k_frame_header_build :: "u32 \<Rightarrow> u8 \<Rightarrow> u32 \<Rightarrow> bytes" where
  "k_frame_header_build magic ty sz =
     k_write_u32 magic @ k_write_u8 (wire_version magic) @ k_write_u8 ty @ k_write_u16 0 @ k_write_u32 sz"

text \<open>The buffered bytes are \<open>rx_data\<close> (\<^verbatim>\<open>rx->len\<close> of them); NULL data is capacity 0.\<close>

record k_rx =
  rx_data :: bytes
  rx_cap :: nat

definition k_rx_free :: "k_rx \<Rightarrow> k_rx" where
  "k_rx_free rx = \<lparr>rx_data = [], rx_cap = 0\<rparr>"

function k_rx_grow :: "nat \<Rightarrow> nat \<Rightarrow> nat" where
  "k_rx_grow c need =
     (let cap = (if c = 0 then 2048 else c) in if cap < need then k_rx_grow (cap * 2) need else cap)"
  by pat_completeness auto
termination
  by (relation "measure (\<lambda>(c, need). need - c)") (auto split: if_splits)

declare k_rx_grow.simps [simp del]

definition k_rx_append :: "script \<Rightarrow> k_rx \<Rightarrow> bytes \<Rightarrow> script \<times> k_rx option" where
  "k_rx_append s rx data =
     (if length data > usub32 (K_FRAME_MAX + K_FRAME_HEADER) (length (rx_data rx)) then (s, None)
      else let need = length (rx_data rx) + length data
        in if need > rx_cap rx
           then let (ok, s') = alloc s
             in if \<not> ok then (s', None)
                else (s', Some \<lparr>rx_data = rx_data rx @ data, rx_cap = k_rx_grow (rx_cap rx) need\<rparr>)
           else (s, Some (rx\<lparr>rx_data := rx_data rx @ data\<rparr>)))"

text \<open>The callback: return code zero?, closed the connection?, its new state.\<close>

type_synonym 's frame_fn = "'s \<Rightarrow> u8 \<Rightarrow> bytes \<Rightarrow> bool \<times> bool \<times> 's"

function k_rx_loop :: "'s frame_fn \<Rightarrow> u32 \<Rightarrow> k_rx \<Rightarrow> 's \<Rightarrow> bool \<times> k_rx \<times> 's" where
  "k_rx_loop fn magic rx ud =
     (let d = rx_data rx
      in if length d \<ge> K_FRAME_HEADER
         then if k_read_u32 d \<noteq> magic \<or> k_read_u8 (drop 4 d) \<noteq> wire_version magic
                 \<or> k_read_u16 (drop 6 d) \<noteq> 0 then (False, rx, ud)
              else let ty = k_read_u8 (drop 5 d); payload_size = unat (k_read_u32 (drop 8 d));
                       total = K_FRAME_HEADER + payload_size
                in if payload_size > K_FRAME_MAX then (False, rx, ud)
                   else if length d < total then (True, rx, ud)
                   else case fn ud ty (take payload_size (drop K_FRAME_HEADER d)) of
                     (ok, closed, ud') \<Rightarrow>
                       let rx' = (if closed then k_rx_free rx else rx)
                       in if \<not> ok then (False, rx', ud')
                          else if rx_cap rx' = 0 \<or> length (rx_data rx') < total then (False, rx', ud')
                          else k_rx_loop fn magic (rx'\<lparr>rx_data := drop total (rx_data rx')\<rparr>) ud'
         else (True, rx, ud))"
  by pat_completeness auto
termination
  by (relation "measure (\<lambda>(fn, magic, rx, ud). length (rx_data rx))")
     (auto simp: k_rx_free_def split: if_splits)

declare k_rx_loop.simps [simp del]

definition k_rx_feed :: "script \<Rightarrow> 's frame_fn \<Rightarrow> u32 \<Rightarrow> k_rx \<Rightarrow> bytes \<Rightarrow> 's \<Rightarrow> script \<times> bool \<times> k_rx \<times> 's" where
  "k_rx_feed s fn magic rx data ud =
     (case k_rx_append s rx data of
        (s', None) \<Rightarrow> (s', False, rx, ud)
      | (s', Some rx') \<Rightarrow> (s', k_rx_loop fn magic rx' ud))"

subsection \<open>Client payloads\<close>

record k_response_data =
  resp_id :: u32
  resp_status :: u8
  resp_leader :: u32
  resp_host :: bytes
  resp_port :: u16
  resp_body :: bytes

definition k_response_decode :: "script \<Rightarrow> bytes \<Rightarrow> script \<times> k_response_data option" where
  "k_response_decode s data =
     (let r0 = k_reader_init data;
          (rid, r1) = k_reader_u32 r0;
          (st, r2) = k_reader_u8 r1;
          (lid, r3) = k_reader_i32 r2;
          (host_len, r4) = k_reader_u16 r3;
          (h, r5) = k_reader_bytes r4 (unat host_len);
          (pt, r6) = k_reader_u16 r5;
          (body_size, r7) = k_reader_u32 r6;
          (bd, r8) = k_reader_bytes r7 (unat body_size)
      in if rd_err r8 \<or> rd_off r8 \<noteq> length (rd_data r8) \<or> unat host_len \<ge> K_HOST_MAX then (s, None)
         else let resp = \<lparr>resp_id = rid, resp_status = st, resp_leader = lid, resp_host = the h,
                           resp_port = pt, resp_body = the bd\<rparr>
           in if body_size = 0 then (s, Some resp)
              else let (ok, s') = alloc s in (s', if ok then Some resp else None))"

text \<open>
  \<^verbatim>\<open>k_request_payload\<close>: an empty buffer, the request id, then one of five layouts by type.
  \<^verbatim>\<open>payload->err=1\<close> for a missing key makes every later write a no-op.
\<close>

definition set_err :: "bool \<Rightarrow> k_buf \<Rightarrow> k_buf" where
  "set_err e b = (if e then b\<lparr>buf_err := True\<rparr> else b)"

definition put_lv :: "script \<times> k_buf \<Rightarrow> bytes \<Rightarrow> script \<times> k_buf" where
  "put_lv sb d = (let (s, b) = sb; (s1, b1) = k_buf_u32 s b (of_nat (length d)) in k_buf_bytes s1 b1 d)"

definition payload_done :: "script \<times> k_buf \<Rightarrow> script \<times> bytes option" where
  "payload_done sb = (let (s, b) = sb
     in if buf_err b \<or> length (buf_data b) > K_FRAME_MAX then (s, None) else (s, Some (buf_data b)))"

definition k_request_payload :: "script \<Rightarrow> u32 \<Rightarrow> u8 \<Rightarrow> bytes \<Rightarrow> bytes \<Rightarrow> script \<times> bytes option" where
  "k_request_payload s rid ty key val =
     (if length key > K_FRAME_MAX \<or> length val > K_CAS_PACKED_MAX then (s, None)
      else let (s1, b1) = k_buf_u32 s k_buf_zero rid
        in payload_done
          (if ty \<in> {K_REQ_SET, K_REQ_FCALL, K_REQ_CAS, K_REQ_RSET}
           then put_lv (put_lv (s1, set_err (key = []) b1) key) val
           else if ty \<in> {K_REQ_RDEL, K_REQ_COUNT, K_REQ_MIN, K_REQ_MAX}
           then put_lv (put_lv (s1, b1) key) val
           else if ty \<in> {K_REQ_GET, K_REQ_DEL}
           then put_lv (s1, set_err (key = []) b1) key
           else if ty \<in> {K_REQ_MSET, K_REQ_MDEL, K_REQ_MGET}
           then k_buf_bytes s1 (set_err (key = []) b1) key
           else if ty = K_REQ_MEMBER
           then k_buf_bytes s1 (set_err (key = []) b1) key
           else (s1, set_err (ty \<notin> {K_REQ_INFO, K_REQ_SHUTDOWN, K_REQ_HELP, K_REQ_STATS,
                   K_REQ_MEMBERS, K_REQ_TOPOLOGY}) b1)))"

definition k_rget_request_payload ::
    "script \<Rightarrow> u32 \<Rightarrow> bytes \<Rightarrow> bytes \<Rightarrow> int \<Rightarrow> u32 \<Rightarrow> script \<times> bytes option" where
  "k_rget_request_payload s rid begin_key end_key direction limit =
     (if length begin_key > K_KEY_MAX \<or> length end_key > K_KEY_MAX \<or> direction \<notin> {0, 1} then (s, None)
      else let sb1 = k_buf_u32 s k_buf_zero rid;
               (s2, b2) = put_lv (put_lv sb1 begin_key) end_key;
               (s3, b3) = k_buf_u8 s2 b2 (word_of_int direction)
        in payload_done (k_buf_u32 s3 b3 limit))"

section \<open>Laws of the frame stream\<close>

lemma read_append [simp]:
  "4 \<le> length d \<Longrightarrow> k_read_u32 (d @ b) = k_read_u32 d"
  "2 \<le> length d \<Longrightarrow> k_read_u16 (d @ b) = k_read_u16 d"
  "1 \<le> length d \<Longrightarrow> k_read_u8 (d @ b) = k_read_u8 d"
  by (auto simp: codec_defs nth_append)

lemmas rx_loop_unfold = k_rx_loop.simps [unfolded Let_def]

text \<open>
  The loop does not depend on how the bytes are cut: running it on a prefix and then on what the
  prefix left over plus the rest is running it on everything. A failure in the prefix is the
  failure of the whole, with the callback's state at that point.
\<close>

lemma rx_loop_append:
  assumes "rx_cap rx \<noteq> 0" "k_rx_loop fn m rx ud = (ok, rx', ud')"
  shows "if ok then rx_cap rx' = rx_cap rx \<and>
             k_rx_loop fn m (rx\<lparr>rx_data := rx_data rx @ b\<rparr>) ud
               = k_rx_loop fn m (rx'\<lparr>rx_data := rx_data rx' @ b\<rparr>) ud'
         else \<exists>rx''. k_rx_loop fn m (rx\<lparr>rx_data := rx_data rx @ b\<rparr>) ud = (False, rx'', ud')"
  using assms
proof (induction "length (rx_data rx)" arbitrary: rx ud rule: less_induct)
  case less
  let ?d = "rx_data rx" and ?full = "rx\<lparr>rx_data := rx_data rx @ b\<rparr>"
  let ?sz = "unat (k_read_u32 (drop 8 ?d))" let ?total = "K_FRAME_HEADER + ?sz"
  let ?hdr = "\<not> (k_read_u32 ?d \<noteq> m \<or> k_read_u8 (drop 4 ?d) \<noteq> wire_version m \<or> k_read_u16 (drop 6 ?d) \<noteq> 0)"
  obtain o1 c1 u1 where f: "fn ud (k_read_u8 (drop 5 ?d)) (take ?sz (drop K_FRAME_HEADER ?d)) = (o1, c1, u1)"
    by (metis prod_cases3)
  consider (short) "length ?d < K_FRAME_HEADER" | (bad) "K_FRAME_HEADER \<le> length ?d" "\<not> ?hdr \<or> ?sz > K_FRAME_MAX"
    | (part) "K_FRAME_HEADER \<le> length ?d" "?hdr" "?sz \<le> K_FRAME_MAX" "length ?d < ?total"
    | (stop) "K_FRAME_HEADER \<le> length ?d" "?hdr" "?sz \<le> K_FRAME_MAX" "\<not> length ?d < ?total" "\<not> o1 \<or> c1"
    | (go) "K_FRAME_HEADER \<le> length ?d" "?hdr" "?sz \<le> K_FRAME_MAX" "\<not> length ?d < ?total" "o1" "\<not> c1"
    by linarith
  then show ?case
  proof cases
    case short with less.prems show ?thesis by (auto simp: rx_loop_unfold [of fn m rx ud])
  next
    case bad with less.prems show ?thesis
      by (auto simp: rx_loop_unfold [of fn m rx ud] rx_loop_unfold [of fn m ?full ud] split: if_splits)
  next
    case part with less.prems show ?thesis by (auto simp: rx_loop_unfold [of fn m rx ud])
  next
    case stop with less.prems f show ?thesis
      by (auto simp: rx_loop_unfold [of fn m rx ud] rx_loop_unfold [of fn m ?full ud] k_rx_free_def
          split: if_splits)
  next
    case go
    let ?rx1 = "rx\<lparr>rx_data := drop ?total ?d\<rparr>"
    have s: "k_rx_loop fn m rx ud = k_rx_loop fn m ?rx1 u1"
      using go f less.prems(1) by (simp add: rx_loop_unfold [of fn m rx ud])
    have l: "k_rx_loop fn m ?full ud = k_rx_loop fn m (?rx1\<lparr>rx_data := rx_data ?rx1 @ b\<rparr>) u1"
      using go f less.prems(1) by (simp add: rx_loop_unfold [of fn m ?full ud])
    have "if ok then rx_cap rx' = rx_cap ?rx1 \<and>
             k_rx_loop fn m (?rx1\<lparr>rx_data := rx_data ?rx1 @ b\<rparr>) u1
               = k_rx_loop fn m (rx'\<lparr>rx_data := rx_data rx' @ b\<rparr>) ud'
         else \<exists>rx''. k_rx_loop fn m (?rx1\<lparr>rx_data := rx_data ?rx1 @ b\<rparr>) u1 = (False, rx'', ud')"
      by (rule less.hyps) (use go less.prems s in auto)
    then show ?thesis by (simp add: l split: if_splits)
  qed
qed

lemma rx_loop_cap:
  assumes "k_rx_loop fn m rx ud = (True, rx', ud')" "rx_cap rx \<noteq> 0" "c \<noteq> 0"
  shows "k_rx_loop fn m (rx\<lparr>rx_cap := c\<rparr>) ud = (True, rx'\<lparr>rx_cap := c\<rparr>, ud')"
  using assms
proof (induction "length (rx_data rx)" arbitrary: rx ud rule: less_induct)
  case less
  let ?d = "rx_data rx" let ?sz = "unat (k_read_u32 (drop 8 ?d))" let ?total = "K_FRAME_HEADER + ?sz"
  obtain o1 c1 u1 where f: "fn ud (k_read_u8 (drop 5 ?d)) (take ?sz (drop K_FRAME_HEADER ?d)) = (o1, c1, u1)"
    by (metis prod_cases3)
  show ?case
  proof (cases "K_FRAME_HEADER \<le> length ?d \<and> ?total \<le> length ?d")
    case False
    with less.prems show ?thesis
      by (auto simp: rx_loop_unfold [of fn m rx ud] rx_loop_unfold [of fn m "rx\<lparr>rx_cap := c\<rparr>" ud]
          split: if_splits)
  next
    case True
    let ?rx1 = "rx\<lparr>rx_data := drop ?total ?d\<rparr>"
    from True less.prems(1,2) f
    have step: "k_rx_loop fn m rx ud = k_rx_loop fn m ?rx1 u1" "o1" "\<not> c1"
      and full: "k_rx_loop fn m (rx\<lparr>rx_cap := c\<rparr>) ud
                   = k_rx_loop fn m (rx\<lparr>rx_cap := c, rx_data := drop ?total ?d\<rparr>) u1"
      using less.prems(3)
      by (auto simp: rx_loop_unfold [of fn m rx ud] rx_loop_unfold [of fn m "rx\<lparr>rx_cap := c\<rparr>" ud]
          k_rx_free_def split: if_splits)
    have "k_rx_loop fn m (?rx1\<lparr>rx_cap := c\<rparr>) u1 = (True, rx'\<lparr>rx_cap := c\<rparr>, ud')"
      by (rule less.hyps) (use True less.prems step in auto)
    moreover have "?rx1\<lparr>rx_cap := c\<rparr> = rx\<lparr>rx_cap := c, rx_data := drop ?total ?d\<rparr>" by simp
    ultimately show ?thesis using full by simp
  qed
qed

text \<open>What stands at the front of the buffer: an invalid header, an incomplete frame, or a frame.\<close>

datatype peek = Bad | More | Frame u8 bytes nat

definition rx_peek :: "u32 \<Rightarrow> bytes \<Rightarrow> peek" where
  "rx_peek m d =
     (if length d < K_FRAME_HEADER then More
      else if k_read_u32 d \<noteq> m \<or> k_read_u8 (drop 4 d) \<noteq> wire_version m \<or> k_read_u16 (drop 6 d) \<noteq> 0 then Bad
      else let n = unat (k_read_u32 (drop 8 d))
        in if n > K_FRAME_MAX then Bad else if length d < K_FRAME_HEADER + n then More
           else Frame (k_read_u8 (drop 5 d)) (take n (drop K_FRAME_HEADER d)) (K_FRAME_HEADER + n))"

lemma rx_loop_peek:
  "k_rx_loop fn m rx ud =
     (case rx_peek m (rx_data rx) of Bad \<Rightarrow> (False, rx, ud) | More \<Rightarrow> (True, rx, ud)
      | Frame ty p n \<Rightarrow>
          (case fn ud ty p of (ok, closed, ud') \<Rightarrow>
             if ok \<and> \<not> closed \<and> rx_cap rx \<noteq> 0
             then k_rx_loop fn m (rx\<lparr>rx_data := drop n (rx_data rx)\<rparr>) ud'
             else (False, if closed then k_rx_free rx else rx, ud')))"
  by (subst rx_loop_unfold) (auto simp: rx_peek_def Let_def k_rx_free_def split: prod.splits)

lemma peek_Frame_bounds: "rx_peek m d = Frame ty p n \<Longrightarrow> K_FRAME_HEADER \<le> n \<and> n \<le> length d"
  by (auto simp: rx_peek_def Let_def split: if_splits)

lemma rx_loop_length:
  assumes "k_rx_loop fn m rx ud = (True, rx', ud')"
  shows "length (rx_data rx') \<le> length (rx_data rx)"
  using assms
proof (induction "length (rx_data rx)" arbitrary: rx ud rule: less_induct)
  case less
  show ?case
  proof (cases "rx_peek m (rx_data rx)")
    case (Frame ty p n)
    let ?rx1 = "rx\<lparr>rx_data := drop n (rx_data rx)\<rparr>"
    obtain o1 c1 u1 where f: "fn ud ty p = (o1, c1, u1)" by (metis prod_cases3)
    from Frame f less.prems have "k_rx_loop fn m ?rx1 u1 = (True, rx', ud')"
      by (subst (asm) rx_loop_peek) (auto split: if_splits)
    moreover have "length (rx_data ?rx1) < length (rx_data rx)"
      using peek_Frame_bounds [OF Frame] by auto
    ultimately have "length (rx_data rx') \<le> length (rx_data ?rx1)" by (metis less.hyps)
    then show ?thesis by simp
  qed (use less.prems in \<open>(subst (asm) rx_loop_peek, simp)+\<close>)
qed

text \<open>An encoded frame: header and payload, as every sender of this code base builds it.\<close>

definition frame_bytes :: "u32 \<Rightarrow> u8 \<times> bytes \<Rightarrow> bytes" where
  "frame_bytes m f = k_frame_header_build m (fst f) (of_nat (length (snd f))) @ snd f"

lemma header_length [simp]: "length (k_frame_header_build m ty n) = K_FRAME_HEADER"
  by (simp add: k_frame_header_build_def codec_defs)

lemma header_fields [simp]:
  "k_read_u32 (k_frame_header_build m ty n) = m"
  "k_read_u8 (drop 4 (k_frame_header_build m ty n)) = wire_version m"
  "k_read_u8 (drop 5 (k_frame_header_build m ty n)) = ty"
  "k_read_u16 (drop 6 (k_frame_header_build m ty n)) = 0"
  "k_read_u32 (drop 8 (k_frame_header_build m ty n)) = n"
proof -
  have e: "k_frame_header_build m ty n = k_write_u32 m @ (wire_version m # ty # k_write_u16 0 @ k_write_u32 n)"
    by (simp add: k_frame_header_build_def k_write_u8_def)
  have l: "length (k_write_u32 x) = 4" "length (k_write_u16 y) = 2" for x y
    by (simp_all add: codec_defs)
  show "k_read_u32 (k_frame_header_build m ty n) = m" unfolding e by (rule u32c.dec_enc)
  show "k_read_u8 (drop 4 (k_frame_header_build m ty n)) = wire_version m"
    unfolding e by (simp add: l k_read_u8_def)
  show "k_read_u8 (drop 5 (k_frame_header_build m ty n)) = ty"
    unfolding e by (simp add: l k_read_u8_def)
  show "k_read_u16 (drop 6 (k_frame_header_build m ty n)) = 0"
    unfolding e using u16c.dec_enc [of 0 "[]"] by (simp add: l)
  show "k_read_u32 (drop 8 (k_frame_header_build m ty n)) = n"
    unfolding e using u32c.dec_enc [of n "[]"] by (simp add: l)
qed

lemma peek_frame_bytes:
  assumes "length (snd f) \<le> K_FRAME_MAX"
  shows "rx_peek m (frame_bytes m f @ r) = Frame (fst f) (snd f) (K_FRAME_HEADER + length (snd f))"
proof -
  have "unat (of_nat (length (snd f)) :: u32) = length (snd f)"
    using assms by (simp add: unat_of_nat take_bit_nat_eq_self)
  then show ?thesis using assms by (simp add: rx_peek_def frame_bytes_def Let_def)
qed

lemma peek_frame_part:
  assumes "length (snd f) \<le> K_FRAME_MAX" "frame_bytes m f = x @ y" "y \<noteq> []"
  shows "rx_peek m x = More"
proof -
  have "unat (of_nat (length (snd f)) :: u32) = length (snd f)"
    using assms(1) by (simp add: unat_of_nat take_bit_nat_eq_self)
  moreover have "length x < K_FRAME_HEADER + length (snd f)"
    using arg_cong [OF assms(2), of length] assms(3) by (cases y) (auto simp: frame_bytes_def)
  moreover have "K_FRAME_HEADER \<le> length x \<Longrightarrow>
      \<exists>r. x = k_frame_header_build m (fst f) (of_nat (length (snd f))) @ r"
  proof -
    assume "K_FRAME_HEADER \<le> length x"
    then have "take K_FRAME_HEADER x = k_frame_header_build m (fst f) (of_nat (length (snd f)))"
      using arg_cong [OF assms(2), of "take K_FRAME_HEADER"] by (simp add: frame_bytes_def)
    then show ?thesis by (metis append_take_drop_id)
  qed
  ultimately show ?thesis using assms(1)
    by (cases "K_FRAME_HEADER \<le> length x") (auto simp: rx_peek_def Let_def)
qed

section \<open>Properties of the frame codec\<close>

text \<open>A callback that records the frames it is given.\<close>

definition record_frames :: "(u8 \<times> bytes) list frame_fn" where
  "record_frames ud ty p = (True, False, ud @ [(ty, p)])"

text \<open>The receive buffer between two feeds.\<close>

definition rx_wf :: "k_rx \<Rightarrow> bool" where
  "rx_wf rx \<longleftrightarrow> length (rx_data rx) \<le> rx_cap rx \<and> length (rx_data rx) \<le> K_FRAME_MAX + K_FRAME_HEADER"

lemma rx_grow_ge: "need \<le> k_rx_grow c need \<and> 0 < k_rx_grow c need"
proof (induction c need rule: k_rx_grow.induct)
  case (1 c need)
  then show ?case by (subst (1 2) k_rx_grow.simps) (auto simp: Let_def split: if_splits)
qed

lemma rx_append_room:
  assumes "rx_wf rx"
  shows "k_rx_append [] rx d =
     (if length (rx_data rx) + length d \<le> K_FRAME_MAX + K_FRAME_HEADER
      then ([], Some \<lparr>rx_data = rx_data rx @ d, rx_cap =
             (if length (rx_data rx) + length d \<le> rx_cap rx then rx_cap rx
              else k_rx_grow (rx_cap rx) (length (rx_data rx) + length d))\<rparr>)
      else ([], None))"
  using assms by (auto simp: k_rx_append_def rx_wf_def Let_def)

lemma rx_append_ex:
  assumes "rx_wf rx" "length (rx_data rx @ d) \<le> K_FRAME_MAX + K_FRAME_HEADER" "rx_data rx @ d \<noteq> []"
  shows "\<exists>c. c \<noteq> 0 \<and> length (rx_data rx @ d) \<le> c
           \<and> k_rx_append [] rx d = ([], Some \<lparr>rx_data = rx_data rx @ d, rx_cap = c\<rparr>)"
proof (cases "length (rx_data rx @ d) \<le> rx_cap rx")
  case True
  moreover from this assms(3) have "rx_cap rx \<noteq> 0" by (metis le_zero_eq length_0_conv)
  ultimately show ?thesis using assms by (auto simp: rx_append_room)
next
  case False
  then show ?thesis using assms rx_grow_ge [of "length (rx_data rx @ d)" "rx_cap rx"]
    by (auto simp: rx_append_room)
qed

text \<open>Feeding a chunk \<open>a @ b\<close> in one call or \<open>a\<close> and then \<open>b\<close> in two calls is
  the same: when \<^verbatim>\<open>k_rx_feed\<close> accepts the whole, it accepts both parts, the callback ends in the
  same state (it saw the same frames in the same order) and the same bytes stay buffered.\<close>

theorem rx_feed_chunking:
  assumes wf: "rx_wf rx" and feed: "k_rx_feed [] fn m rx (a @ b) ud = ([], True, rx', ud')"
  shows "\<exists>rx1 ud1 rx2. k_rx_feed [] fn m rx a ud = ([], True, rx1, ud1)
           \<and> k_rx_feed [] fn m rx1 b ud1 = ([], True, rx2, ud') \<and> rx_data rx2 = rx_data rx'"
proof (cases "rx_data rx @ a = []")
  case True
  then have "k_rx_feed [] fn m rx a ud = ([], True, rx, ud)"
    using wf by (simp add: k_rx_feed_def rx_append_room rx_loop_peek [of fn m rx] rx_peek_def rx_wf_def)
      (subst rx_loop_peek, cases rx, simp add: rx_peek_def)
  with True feed show ?thesis by fastforce
next
  case False
  let ?d = "rx_data rx @ a" and ?lim = "K_FRAME_MAX + K_FRAME_HEADER"
  from feed wf obtain cF where lim: "length ?d + length b \<le> ?lim" and cF: "cF \<noteq> 0"
    and F: "k_rx_loop fn m \<lparr>rx_data = ?d @ b, rx_cap = cF\<rparr> ud = (True, rx', ud')"
  proof -
    have "length ?d + length b \<le> ?lim"
      using feed wf by (auto simp: k_rx_feed_def rx_append_room split: if_splits)
    with rx_append_ex [OF wf, of "a @ b"] False feed that show thesis by (auto simp: k_rx_feed_def)
  qed
  obtain ok r1 u1 where R: "k_rx_loop fn m \<lparr>rx_data = ?d, rx_cap = cF\<rparr> ud = (ok, r1, u1)"
    by (metis prod_cases3)
  have "ok" and rest: "k_rx_loop fn m (r1\<lparr>rx_data := rx_data r1 @ b\<rparr>) u1 = (True, rx', ud')"
    and cap1: "rx_cap r1 = cF"
    using rx_loop_append [OF _ R, of b] cF F by (auto split: if_splits)
  obtain cA where cA: "cA \<noteq> 0" "length ?d \<le> cA"
    and A: "k_rx_append [] rx a = ([], Some \<lparr>rx_data = ?d, rx_cap = cA\<rparr>)"
    using rx_append_ex [OF wf, of a] lim False by auto
  have LA: "k_rx_loop fn m \<lparr>rx_data = ?d, rx_cap = cA\<rparr> ud = (True, r1\<lparr>rx_cap := cA\<rparr>, u1)"
    using rx_loop_cap [of fn m "\<lparr>rx_data = ?d, rx_cap = cF\<rparr>" ud r1 u1 cA] R \<open>ok\<close> cA(1) cF by simp
  let ?r1 = "r1\<lparr>rx_cap := cA\<rparr>"
  have "length (rx_data r1) \<le> length ?d" using rx_loop_length R \<open>ok\<close> by fastforce
  then have "rx_wf ?r1" "length (rx_data ?r1) + length b \<le> ?lim"
    using cA lim by (auto simp: rx_wf_def)
  then obtain cB where cB: "cB \<noteq> 0"
    and B: "k_rx_append [] ?r1 b = ([], Some \<lparr>rx_data = rx_data r1 @ b, rx_cap = cB\<rparr>)"
    using cA(1) rx_append_ex [of ?r1 b]
    by (cases "rx_data r1 @ b = []") (auto simp: rx_append_room)
  have "k_rx_loop fn m \<lparr>rx_data = rx_data r1 @ b, rx_cap = cB\<rparr> u1 = (True, rx'\<lparr>rx_cap := cB\<rparr>, ud')"
    using rx_loop_cap [OF rest _ cB] cap1 cF by (cases r1) simp
  with A LA B show ?thesis by (simp add: k_rx_feed_def)
qed

lemma rx_feed_chunking_witness:
  "\<exists>rx1 ud1 rx2. k_rx_feed [] record_frames K_CLIENT_MAGIC (k_rx_free \<lparr>rx_data = [], rx_cap = 0\<rparr>) [75, 67] [] = ([], True, rx1, ud1)
     \<and> k_rx_feed [] record_frames K_CLIENT_MAGIC rx1 [76] ud1 = ([], True, rx2, [])
     \<and> rx_data rx2 = [75, 67, 76]"
proof -
  have wf: "rx_wf (k_rx_free \<lparr>rx_data = [], rx_cap = 0\<rparr>)" by (simp add: rx_wf_def k_rx_free_def)
  have "k_rx_append [] (k_rx_free \<lparr>rx_data = [], rx_cap = 0\<rparr>) ([75, 67] @ [76]) = ([], Some \<lparr>rx_data = [75, 67, 76], rx_cap = 2048\<rparr>)"
    by (simp add: rx_append_room [OF wf]) (simp add: k_rx_free_def k_rx_grow.simps)
  then have "k_rx_feed [] record_frames K_CLIENT_MAGIC (k_rx_free \<lparr>rx_data = [], rx_cap = 0\<rparr>) ([75, 67] @ [76]) []
       = ([], True, \<lparr>rx_data = [75, 67, 76], rx_cap = 2048\<rparr>, [])"
    by (simp add: k_rx_feed_def rx_loop_peek rx_peek_def)
  from rx_feed_chunking [OF wf this] show ?thesis by simp
qed

text \<open>
  The connection's receive path: one \<^verbatim>\<open>k_rx_feed\<close> per chunk until one fails. Frames whose
  payload leaves room for one more chunk are all delivered, whole and in order, however the
  network cuts the stream.
\<close>

abbreviation frames_bytes :: "u32 \<Rightarrow> (u8 \<times> bytes) list \<Rightarrow> bytes" where
  "frames_bytes m fs \<equiv> concat (map (frame_bytes m) fs)"

fun feed_all :: "'s frame_fn \<Rightarrow> u32 \<Rightarrow> k_rx \<Rightarrow> 's \<Rightarrow> bytes list \<Rightarrow> bool \<times> k_rx \<times> 's" where
  "feed_all fn m rx ud [] = (True, rx, ud)"
| "feed_all fn m rx ud (c # cs) =
     (case k_rx_feed [] fn m rx c ud of
        (_, True, rx', ud') \<Rightarrow> feed_all fn m rx' ud' cs | (_, False, rx', ud') \<Rightarrow> (False, rx', ud'))"

text \<open>A proper prefix of the frames to come: less than the first of them, or nothing.\<close>

definition partial_frame :: "bytes \<Rightarrow> (u8 \<times> bytes) list \<Rightarrow> bool" where
  "partial_frame r fs = (case fs of [] \<Rightarrow> r = [] | f # _ \<Rightarrow> length r < K_FRAME_HEADER + length (snd f))"

lemma frame_bytes_length [simp]: "length (frame_bytes m f) = K_FRAME_HEADER + length (snd f)"
  by (simp add: frame_bytes_def)

lemma rx_loop_frames:
  assumes "\<forall>f\<in>set fs. length (snd f) \<le> K_FRAME_MAX" "c \<noteq> 0" "d @ rest = frames_bytes m fs"
  shows "\<exists>fs1 fs2 r. fs = fs1 @ fs2 \<and> r @ rest = frames_bytes m fs2 \<and> partial_frame r fs2 \<and>
     k_rx_loop record_frames m \<lparr>rx_data = d, rx_cap = c\<rparr> ud = (True, \<lparr>rx_data = r, rx_cap = c\<rparr>, ud @ fs1)"
  using assms
proof (induction fs arbitrary: d ud)
  case Nil
  then show ?case by (auto simp: partial_frame_def rx_loop_peek rx_peek_def)
next
  case (Cons f fs)
  show ?case
  proof (cases "length d < length (frame_bytes m f)")
    case True
    have "d @ rest = frame_bytes m f @ frames_bytes m fs" using Cons.prems(3) by simp
    with True obtain y where y: "frame_bytes m f = d @ y"
      using that by (auto simp: append_eq_append_conv2 eq_commute [of "d @ _"])
    with True have "y \<noteq> []" by auto
    with y have "rx_peek m d = More" using Cons.prems(1) by (auto intro: peek_frame_part)
    then show ?thesis using True Cons.prems(3)
      by (intro exI [of _ "[]"] exI [of _ "f # fs"] exI [of _ d])
         (auto simp: partial_frame_def rx_loop_peek)
  next
    case False
    have "frame_bytes m f @ frames_bytes m fs = d @ rest" using Cons.prems(3) by simp
    moreover have "length (frame_bytes m f) \<le> length d" using False by simp
    ultimately have "take (length (frame_bytes m f)) d = frame_bytes m f"
      "drop (length (frame_bytes m f)) d @ rest = frames_bytes m fs"
      by (metis append_eq_append_conv_if)+
    then obtain d' where d': "d = frame_bytes m f @ d'" "d' @ rest = frames_bytes m fs"
      by (metis append_take_drop_id)
    from Cons.IH [OF _ Cons.prems(2) d'(2), of "ud @ [f]"] Cons.prems(1)
    obtain fs1 fs2 r where "fs = fs1 @ fs2" "r @ rest = frames_bytes m fs2" "partial_frame r fs2"
      and L: "k_rx_loop record_frames m \<lparr>rx_data = d', rx_cap = c\<rparr> (ud @ [f])
           = (True, \<lparr>rx_data = r, rx_cap = c\<rparr>, (ud @ [f]) @ fs1)" by auto
    moreover have "k_rx_loop record_frames m \<lparr>rx_data = d, rx_cap = c\<rparr> ud
           = k_rx_loop record_frames m \<lparr>rx_data = d', rx_cap = c\<rparr> (ud @ [f])"
      using Cons.prems(1,2) d'(1)
      by (subst rx_loop_peek) (simp add: peek_frame_bytes record_frames_def)
    ultimately show ?thesis 
      by (intro exI [of _ "f # fs1"] exI [of _ fs2] exI [of _ r]) auto
  qed
qed

lemma feed_all_frames:
  assumes "\<forall>f\<in>set fs. length (snd f) + B \<le> K_FRAME_MAX" "\<forall>c\<in>set cs. length c \<le> B \<and> c \<noteq> []" "B \<le> K_FRAME_MAX"
    "rx_wf rx" "partial_frame (rx_data rx) fs" "rx_data rx @ concat cs = frames_bytes m fs"
  shows "\<exists>rx'. feed_all record_frames m rx ud cs = (True, rx', ud @ fs) \<and> rx_data rx' = []"
  using assms(2,4-6,1)
proof (induction cs arbitrary: rx ud fs)
  case Nil
  have "fs = []"
    using Nil.prems(3,4) by (cases fs) (auto simp: partial_frame_def dest: arg_cong [where f = length])
  with Nil.prems show ?case by (auto simp: partial_frame_def)
next
  case (Cons c cs)
  have "length (rx_data rx) + length c \<le> K_FRAME_MAX + K_FRAME_HEADER"
    using Cons.prems(1,3,5) assms(3) by (cases fs) (auto simp: partial_frame_def)
  with rx_append_ex [OF Cons.prems(2), of c] Cons.prems(1)
  obtain k where k: "k \<noteq> 0" "length (rx_data rx @ c) \<le> k"
    and A: "k_rx_append [] rx c = ([], Some \<lparr>rx_data = rx_data rx @ c, rx_cap = k\<rparr>)"
    by auto
  have "\<forall>f\<in>set fs. length (snd f) \<le> K_FRAME_MAX" using Cons.prems(5) by auto
  with rx_loop_frames [OF _ k(1), of fs "rx_data rx @ c" "concat cs" m ud] Cons.prems(4)
  obtain fs1 fs2 r where s: "fs = fs1 @ fs2" "r @ concat cs = frames_bytes m fs2" "partial_frame r fs2"
    and L: "k_rx_loop record_frames m \<lparr>rx_data = rx_data rx @ c, rx_cap = k\<rparr> ud
           = (True, \<lparr>rx_data = r, rx_cap = k\<rparr>, ud @ fs1)" by auto
  have "rx_wf \<lparr>rx_data = r, rx_cap = k\<rparr>"
    using rx_loop_length [OF L] k(2) \<open>length (rx_data rx) + length c \<le> _\<close> by (simp add: rx_wf_def)
  from Cons.IH [OF _ this, of fs2 "ud @ fs1"] Cons.prems(1,5) s A L show ?case
    by (auto simp: k_rx_feed_def)
qed

text \<open>C30. A stream of frames that leave room for a chunk is delivered exactly: when the network cuts it into any non-empty
  chunks of at most \<open>B\<close> bytes, every payload is at least \<open>B\<close> bytes below the largest one (\<open>payload + B \<le> K_FRAME_MAX\<close>),
  memory suffices and the callback accepts each frame, then the callback gets every frame, whole, in order, nothing
  else, and the receive buffer is empty at the end. Without that room a legal stream can be refused, as shown below.\<close>

theorem rx_feed_frames:
  assumes "\<forall>f\<in>set fs. length (snd f) + B \<le> K_FRAME_MAX" "\<forall>c\<in>set cs. length c \<le> B \<and> c \<noteq> []" "B \<le> K_FRAME_MAX"
    "concat cs = frames_bytes m fs"
  shows "\<exists>rx'. feed_all record_frames m (k_rx_free rx) [] cs = (True, rx', fs) \<and> rx_data rx' = []"
  using feed_all_frames [of fs B cs "k_rx_free rx" m "[]"] assms
  by (cases fs) (auto simp: rx_wf_def k_rx_free_def partial_frame_def)

lemma rx_feed_frames_witness:
  "\<exists>rx'. feed_all record_frames K_CLIENT_MAGIC (k_rx_free \<lparr>rx_data = [1], rx_cap = 1\<rparr>) []
     [[75, 67, 76], [49, 1, 1, 0, 0, 2, 0, 0, 0, 7], [8, 75, 67, 76, 49, 1, 15, 0, 0, 0, 0, 0, 0]]
     = (True, rx', [(1, [7, 8]), (15, [])]) \<and> rx_data rx' = []"
  by (rule rx_feed_frames [where B = 20])
     (simp_all add: frame_bytes_def k_frame_header_build_def codec_defs wire_version_def)

text \<open>The room is needed: a chunk that carries the end \<open>y\<close> of a frame whose beginning
  \<open>x\<close> is buffered, and then the first bytes \<open>z\<close> of the next frame, is refused as a whole
  as soon as the three exceed \<open>K_FRAME_MAX + K_FRAME_HEADER\<close>, although the frame itself is
  legal; \<^verbatim>\<open>k_rx_feed\<close> reports a protocol error and the callback never sees the frame.\<close>

theorem rx_feed_rejects_straddle:
  assumes "rx_wf rx" "rx_data rx = x" "frame_bytes m f = x @ y" "length (snd f) \<le> K_FRAME_MAX"
    "length (x @ y @ z) > K_FRAME_MAX + K_FRAME_HEADER"
  shows "k_rx_feed [] fn m rx (y @ z) ud = ([], False, rx, ud)"
  using assms by (simp add: k_rx_feed_def rx_append_room)

lemma rx_feed_rejects_straddle_witness:
  "k_rx_feed [] record_frames K_CLIENT_MAGIC
     \<lparr>rx_data = k_frame_header_build K_CLIENT_MAGIC 5 1048576, rx_cap = 2048\<rparr> (replicate K_FRAME_MAX 0 @ [75]) []
   = ([], False, \<lparr>rx_data = k_frame_header_build K_CLIENT_MAGIC 5 1048576, rx_cap = 2048\<rparr>, [])"
proof (rule rx_feed_rejects_straddle [where f = "(5, replicate K_FRAME_MAX 0)"])
  have "length (k_frame_header_build K_CLIENT_MAGIC 5 1048576) = 12" by (rule header_length)
  then show "K_FRAME_MAX + K_FRAME_HEADER
      < length (k_frame_header_build K_CLIENT_MAGIC 5 1048576 @ replicate K_FRAME_MAX 0 @ [75])"
    by (simp only: length_append length_replicate) simp
qed (simp_all add: rx_wf_def frame_bytes_def)

end
