(* ===== verification/Cluster.thy ===== *)
theory Cluster
  imports Kproto
begin

section \<open>Cluster specifications: the parser and the printer\<close>

text \<open>
  The MEMBERS body the server prints (\<^verbatim>\<open>k_server_members_build\<close> in
  \<^verbatim>\<open>src/code/kserver.h\<close>) and the parser both ends run on such a line
  (\<^verbatim>\<open>k_cluster_parse\<close>): what the parser accepts is a well-formed membership, and it
  reads back what the printer writes.
\<close>

text \<open>\<^verbatim>\<open>%d\<close> and \<^verbatim>\<open>%u\<close> on a non-negative value.\<close>

fun dec_bytes :: "nat \<Rightarrow> bytes" where
  "dec_bytes n = (if n < 10 then [of_nat (48 + n)] else dec_bytes (n div 10) @ [of_nat (48 + n mod 10)])"

declare dec_bytes.simps [simp del]

definition node_text :: "k_node_spec \<Rightarrow> bytes" where
  "node_text n = dec_bytes (node_id n) @ [64] @ node_host n @ [58] @ dec_bytes (node_client_port n)
     @ [58] @ dec_bytes (node_peer_port n)"

fun k_server_members_build :: "k_cluster \<Rightarrow> script \<times> k_buf \<Rightarrow> script \<times> k_buf" where
  "k_server_members_build [] sb = sb"
| "k_server_members_build (n # ns) sb =
     (if node_id n = 0 then k_server_members_build ns sb
      else let (s, b) = sb;
               (s1, b1) = (if length (buf_data b) \<noteq> 0 then k_buf_u8 s b 44 else (s, b))
        in k_server_members_build ns (k_buf_bytes s1 b1 (node_text n)))"

subsection \<open>Decimal numbers\<close>

lemma unat_48: "k < 10 \<Longrightarrow> unat (of_nat (48 + k) :: u8) = 48 + k"
  by (simp add: unat_of_nat take_bit_nat_eq_self del: of_nat_add)

lemma is_digit_48: "k < 10 \<Longrightarrow> is_digit (of_nat (48 + k))"
  by (simp add: is_digit_def unat_48 del: of_nat_add)

lemma digits_value_append: "digits_value (ds @ [d]) = digits_value ds * 10 + (unat d - 48)"
  by (simp add: digits_value_def)

lemma dec_bytes_digits: "list_all is_digit (dec_bytes n) \<and> dec_bytes n \<noteq> [] \<and> digits_value (dec_bytes n) = n"
proof (induction n rule: dec_bytes.induct)
  case (1 n)
  have "unat (of_nat (48 + k) :: u8) - 48 = k" if "k < 10" for k
    using that by (simp add: unat_48 del: of_nat_add)
  with 1 show ?case
    by (subst (1 2 3) dec_bytes.simps)
       (auto simp: digits_value_append is_digit_48 digits_value_def simp del: of_nat_add)
qed

lemma dec_bytes_length: "n < 10 ^ k \<Longrightarrow> 0 < k \<Longrightarrow> length (dec_bytes n) \<le> k"
proof (induction k arbitrary: n)
  case (Suc k)
  show ?case
  proof (cases "n < 10")
    case True
    then show ?thesis by (simp add: dec_bytes.simps [of n])
  next
    case False
    with Suc.prems have "k \<noteq> 0" by (cases k) auto
    with Suc False show ?thesis by (subst dec_bytes.simps) (simp add: less_mult_imp_div_less)
  qed
qed simp

lemma digits_takeWhile:
  assumes "list_all is_digit ds"
  shows "takeWhile is_digit ds = ds" "dropWhile is_digit ds = []"
  using assms by (auto simp: list_all_iff)

lemma digit_not_space: "is_digit c \<Longrightarrow> \<not> is_space c"
  by (auto simp: is_digit_def is_space_def)

lemma digit_plain: "is_digit c \<Longrightarrow> c \<noteq> 64 \<and> c \<noteq> 58 \<and> c \<noteq> 44 \<and> c \<noteq> 45 \<and> c \<noteq> 43"
  by (auto simp: is_digit_def)

lemma strtoul_dec: "n < 2 ^ w \<Longrightarrow> strtoul w (dec_bytes n) = (n, [])"
proof -
  assume n: "n < 2 ^ w"
  obtain c cs where c: "dec_bytes n = c # cs" using dec_bytes_digits [of n] by (cases "dec_bytes n") auto
  with dec_bytes_digits [of n] have d: "is_digit c" "list_all is_digit cs" by auto
  have "digits_value (c # cs) = n" using c dec_bytes_digits [of n] by simp
  then show ?thesis
    using c n d(1) digit_not_space [OF d(1)] digit_plain [OF d(1)]
    by (simp add: strtoul_def Let_def digits_takeWhile [OF d(2)])
qed

lemma k_parse_uint_dec:
  assumes "1 \<le> n" "n \<le> m" "n < 2 ^ w"
  shows "k_parse_uint w (dec_bytes n) m = Some n"
  using assms dec_bytes_digits [of n] by (simp add: k_parse_uint_def strtoul_dec)

lemma k_parse_uint_range: "k_parse_uint w t m = Some v \<Longrightarrow> 1 \<le> v \<and> v \<le> m"
  by (auto simp: k_parse_uint_def split: if_splits prod.splits)

subsection \<open>Items\<close>

lemma strchr_append: "c \<notin> set a \<Longrightarrow> strchr (a @ c # b) c = Some (a, b)"
  by (induction a) auto

lemma strchr_None: "strchr s c = None \<longleftrightarrow> c \<notin> set s"
  by (induction s) auto

lemma strchr_Some: "strchr s c = Some (a, b) \<Longrightarrow> s = a @ c # b \<and> c \<notin> set a"
  by (induction s arbitrary: a b) (auto split: if_splits)

definition node_wf :: "k_node_spec \<Rightarrow> bool" where
  "node_wf n \<longleftrightarrow> 1 \<le> node_id n \<and> node_id n \<le> 2147483647 \<and> node_host n \<noteq> [] \<and> length (node_host n) < K_HOST_MAX
     \<and> 58 \<notin> set (node_host n) \<and> 44 \<notin> set (node_host n)
     \<and> 1 \<le> node_client_port n \<and> node_client_port n \<le> 65535 \<and> 1 \<le> node_peer_port n \<and> node_peer_port n \<le> 65535"

definition cluster_wf :: "k_cluster \<Rightarrow> bool" where
  "cluster_wf c \<longleftrightarrow> 1 \<le> length c \<and> length c \<le> K_MAX_NODES \<and> distinct (map node_id c) \<and> list_all node_wf c"

lemma dec_bytes_plain: "c \<in> {64, 58, 44} \<Longrightarrow> c \<notin> set (dec_bytes n)"
  using dec_bytes_digits [of n] digit_plain by (auto simp: list_all_iff)

lemma item_of_text:
  assumes "node_wf n" "32 \<le> w"
  shows "k_cluster_item w (node_text n) = Some n"
proof -
  have "(2::nat) ^ 32 \<le> 2 ^ w" using assms(2) by (intro power_increasing) auto
  moreover have "strchr (dec_bytes (node_peer_port n)) 58 = None" by (simp add: strchr_None dec_bytes_plain)
  ultimately show ?thesis using assms(1)
    by (cases n) (auto simp: k_cluster_item_def node_text_def strchr_append dec_bytes_plain k_parse_uint_dec node_wf_def)
qed

lemma item_wf:
  assumes "k_cluster_item w t = Some n" "44 \<notin> set t"
  shows "node_wf n"
  using assms
  by (auto simp: k_cluster_item_def node_wf_def split: option.splits if_splits prod.splits
      dest!: strchr_Some k_parse_uint_range)

lemma node_text_shape:
  assumes "node_wf n"
  shows "44 \<notin> set (node_text n)" "node_text n \<noteq> []" "length (node_text n) < 192"
proof -
  have "length (dec_bytes (node_id n)) \<le> 10" "length (dec_bytes (node_client_port n)) \<le> 5"
    "length (dec_bytes (node_peer_port n)) \<le> 5"
    using assms by (auto intro!: dec_bytes_length simp: node_wf_def)
  then show "length (node_text n) < 192" using assms by (simp add: node_text_def node_wf_def)
  show "44 \<notin> set (node_text n)" using assms by (auto simp: node_text_def node_wf_def dec_bytes_plain)
  show "node_text n \<noteq> []" by (simp add: node_text_def)
qed

subsection \<open>Lines\<close>

fun members_text :: "k_cluster \<Rightarrow> bytes" where
  "members_text [] = []"
| "members_text [n] = node_text n"
| "members_text (n # ns) = node_text n @ 44 # members_text ns"

lemma cluster_loop_step:
  assumes "k_cluster_loop w acc t = Some c" "t \<noteq> []"
  shows "\<exists>item n. 44 \<notin> set item \<and> k_cluster_item w item = Some n \<and> node_id n \<notin> set (map node_id acc)
     \<and> length acc < K_MAX_NODES
     \<and> (c = acc @ [n] \<or> (\<exists>rest. length rest < length t \<and> k_cluster_loop w (acc @ [n]) rest = Some c))"
proof (cases "strchr t 44")
  case None
  with assms show ?thesis
    by (subst (asm) k_cluster_loop.simps)
       (auto simp: Let_def strchr_None split: if_splits option.splits intro!: exI [of _ t])
next
  case (Some e)
  then obtain a b where e: "strchr t 44 = Some (a, b)" by (cases e) auto
  from strchr_shrinks [OF this] strchr_Some [OF this] assms show ?thesis
    by (subst (asm) k_cluster_loop.simps)
       (rule exI [of _ a], auto simp: Let_def e strchr_append split: if_splits option.splits intro: exI [of _ b])
qed

lemma cluster_loop_wf:
  assumes "k_cluster_loop w acc t = Some c" "distinct (map node_id acc)" "list_all node_wf acc"
    "length acc \<le> K_MAX_NODES"
  shows "distinct (map node_id c) \<and> list_all node_wf c \<and> length c \<le> K_MAX_NODES"
  using assms
proof (induction "length t" arbitrary: t acc rule: less_induct)
  case less
  show ?case
  proof (cases "t = []")
    case True
    with less.prems show ?thesis by (simp add: k_cluster_loop.simps)
  next
    case False
    from cluster_loop_step [OF less.prems(1) this] obtain item n where
      i: "44 \<notin> set item" "k_cluster_item w item = Some n" "node_id n \<notin> set (map node_id acc)"
        "length acc < K_MAX_NODES"
      and c: "c = acc @ [n] \<or> (\<exists>rest. length rest < length t \<and> k_cluster_loop w (acc @ [n]) rest = Some c)"
      by blast
    have n: "distinct (map node_id (acc @ [n]))" "list_all node_wf (acc @ [n])" "length (acc @ [n]) \<le> K_MAX_NODES"
      using i less.prems item_wf [OF i(2,1)] by auto
    from c show ?thesis using less.hyps n by metis
  qed
qed

lemma cluster_loop_text:
  assumes "list_all node_wf ns" "distinct (map node_id (acc @ ns))" "length (acc @ ns) \<le> K_MAX_NODES"
    "32 \<le> w"
  shows "k_cluster_loop w acc (members_text ns) = Some (acc @ ns)"
  using assms
proof (induction ns arbitrary: acc rule: members_text.induct)
  case 1
  then show ?case by (simp add: k_cluster_loop.simps)
next
  case (2 n)
  then show ?case using node_text_shape [of n]
    by (subst k_cluster_loop.simps) (simp add: strchr_None [THEN iffD2] item_of_text)
next
  case (3 n n' ns)
  then have "k_cluster_loop w (acc @ [n]) (members_text (n' # ns)) = Some ((acc @ [n]) @ n' # ns)"
    by (intro 3) auto
  then show ?case using 3 node_text_shape [of n]
    by (subst k_cluster_loop.simps) (simp add: strchr_append item_of_text)
qed

section \<open>Properties of cluster specifications\<close>

text \<open>C33. \<^verbatim>\<open>k_cluster_parse\<close> accepts only well-formed memberships: 1 to 16 nodes, pairwise
  distinct ids in \<open>[1, 2^31 - 1]\<close>, ports in \<open>[1, 65535]\<close>, a host name of 1 to 63
  bytes without separators; on every text and for every width of \<^verbatim>\<open>unsigned long\<close>.\<close>

theorem cluster_parse_wf:
  assumes "k_cluster_parse w t = Some c"
  shows "cluster_wf c"
  using assms cluster_loop_wf [of w "[]" t c]
  by (auto simp: k_cluster_parse_def cluster_wf_def Suc_le_eq split: if_splits option.splits)

text \<open>The printer, run with memory, appends the line of the nodes it does not skip.\<close>

lemma members_build_text:
  assumes "list_all node_wf ns" "buf_wf b" "\<not> buf_err b"
    "length (buf_data b) + 192 * length ns \<le> 0xffffffff"
  shows "\<exists>b'. k_server_members_build ns ([], b) = ([], b') \<and> \<not> buf_err b'
     \<and> buf_data b' = buf_data b @ (if buf_data b = [] \<or> ns = [] then [] else [44]) @ members_text ns"
  using assms
proof (induction ns arbitrary: b)
  case (Cons n ns)
  have n: "node_wf n" "node_id n \<noteq> 0" using Cons.prems(1) by (auto simp: node_wf_def)
  have "\<exists>b1. (if length (buf_data b) \<noteq> 0 then k_buf_u8 [] b 44 else ([], b)) = ([], b1) \<and> buf_wf b1
      \<and> \<not> buf_err b1 \<and> buf_data b1 = buf_data b @ (if buf_data b = [] then [] else [44])"
    using Cons.prems buf_put_room [of b "[44]"] by (auto simp: k_buf_u8_def k_write_u8_def)
  then obtain b1 where b1: "(if length (buf_data b) \<noteq> 0 then k_buf_u8 [] b 44 else ([], b)) = ([], b1)"
    "buf_wf b1" "\<not> buf_err b1" "buf_data b1 = buf_data b @ (if buf_data b = [] then [] else [44])" by blast
  from buf_bytes_room [OF b1(2,3), of "node_text n"] node_text_shape [OF n(1)] b1(4) Cons.prems(4)
  obtain b2 where b2: "k_buf_bytes [] b1 (node_text n) = ([], b2)" "buf_wf b2" "\<not> buf_err b2"
    "buf_data b2 = buf_data b1 @ node_text n" by (auto split: if_splits)
  moreover have "length (buf_data b2) + 192 * length ns \<le> 0xffffffff"
    using b1(4) b2(4) node_text_shape [OF n(1)] Cons.prems(4) by (auto split: if_splits)
  ultimately obtain b' where "k_server_members_build ns ([], b2) = ([], b')" "\<not> buf_err b'"
    "buf_data b' = buf_data b2 @ (if buf_data b2 = [] \<or> ns = [] then [] else [44]) @ members_text ns"
    using Cons.IH [of b2] Cons.prems(1) by auto
  moreover have "k_server_members_build (n # ns) ([], b) = k_server_members_build ns ([], b2)"
    using n(2) b1(1) b2(1) by (simp split: if_splits)
  ultimately show ?case using b1(4) b2(4) node_text_shape [OF n(1)] by (cases ns) auto
qed simp

text \<open>What the server prints, the parser reads back: for every well-formed membership the
  MEMBERS line built into an empty buffer (with memory available) parses to exactly that
  membership, wherever \<^verbatim>\<open>unsigned long\<close> has at least 32 bits.\<close>

theorem cluster_members_roundtrip:
  assumes "cluster_wf c" "32 \<le> w"
  shows "\<exists>b. k_server_members_build c ([], k_buf_zero) = ([], b) \<and> \<not> buf_err b
           \<and> k_cluster_parse w (buf_data b) = Some c"
proof -
  from assms(1) members_build_text [of c k_buf_zero] obtain b where
    b: "k_server_members_build c ([], k_buf_zero) = ([], b)" "\<not> buf_err b" "buf_data b = members_text c"
    by (auto simp: cluster_wf_def k_buf_zero_def buf_wf_def)
  moreover have "members_text c \<noteq> []"
    using assms(1) node_text_shape by (cases c rule: members_text.cases) (auto simp: cluster_wf_def)
  ultimately show ?thesis
    using assms cluster_loop_text [of c "[]" w] by (auto simp: k_cluster_parse_def cluster_wf_def)
qed

definition sample_cluster :: k_cluster where
  "sample_cluster =
     [\<lparr>node_id = 1, node_host = [97], node_client_port = 7001, node_peer_port = 8001\<rparr>,
      \<lparr>node_id = 20, node_host = [98, 99], node_client_port = 65535, node_peer_port = 1\<rparr>]"

lemma sample_cluster_wf: "cluster_wf sample_cluster"
  by (simp add: sample_cluster_def cluster_wf_def node_wf_def)

lemma cluster_members_roundtrip_witness:
  "\<exists>b. k_server_members_build sample_cluster ([], k_buf_zero) = ([], b) \<and> \<not> buf_err b
     \<and> k_cluster_parse 64 (buf_data b) = Some sample_cluster"
  by (rule cluster_members_roundtrip [OF sample_cluster_wf]) simp

lemma cluster_parse_wf_witness:
  "cluster_wf [\<lparr>node_id = 1, node_host = [97], node_client_port = 7, node_peer_port = 8\<rparr>]"
proof (rule cluster_parse_wf [of 64 "[49, 64, 97, 58, 55, 58, 56]"])
  show "k_cluster_parse 64 [49, 64, 97, 58, 55, 58, 56]
      = Some [\<lparr>node_id = 1, node_host = [97], node_client_port = 7, node_peer_port = 8\<rparr>]"
    by (simp add: k_cluster_parse_def k_cluster_loop.simps k_cluster_item_def k_parse_uint_def
        strtoul_def is_space_def is_digit_def digits_value_def Let_def)
qed

text \<open>\<^verbatim>\<open>k_parse_uint\<close> relies on \<^verbatim>\<open>strtoul\<close>, which accepts a minus sign and
  negates modulo the width of \<^verbatim>\<open>unsigned long\<close>: a negative number whose complement is small
  is taken for a small positive one. With 64 bits, \<open>-18446744073709551615\<close> is node id 1.\<close>

theorem parse_uint_accepts_negative:
  "k_parse_uint 64 (45 # map (\<lambda>d. of_nat (48 + d)) [1,8,4,4,6,7,4,4,0,7,3,7,0,9,5,5,1,6,1,5]) 2147483647 = Some 1"
  by (simp add: k_parse_uint_def strtoul_def is_space_def is_digit_def digits_value_def Let_def)

end
