(* ===== verification/Crc32.thy ===== *)
theory Crc32
  imports Kbase
begin

unbundle bit_operations_syntax

section \<open>CRC-32: the table against the polynomial\<close>

text \<open>
  The table-driven update of \<^verbatim>\<open>k_crc32_update\<close> against the bit-serial definition of the
  reflected CRC with polynomial \<open>0xEDB88320\<close>, its composition over concatenated input (the
  server feeds records piecewise), and the corruption it always detects.
\<close>

definition crc_bit :: "u32 \<Rightarrow> u32" where
  "crc_bit v = (if odd v then drop_bit 1 v XOR 0xEDB88320 else drop_bit 1 v)"

definition crc_byte :: "u32 \<Rightarrow> u32" where
  "crc_byte v = crc_bit (crc_bit (crc_bit (crc_bit (crc_bit (crc_bit (crc_bit (crc_bit v)))))))"

definition crc_serial :: "u32 \<Rightarrow> u8 \<Rightarrow> u32" where
  "crc_serial v b = crc_byte (v XOR ucast b)"

subsection \<open>The bit step is linear and injective\<close>

lemma crc_bit_xor: "crc_bit (a XOR b) = crc_bit a XOR crc_bit b"
  by (simp add: crc_bit_def even_xor_iff drop_bit_xor ac_simps)

lemma crc_byte_xor: "crc_byte (a XOR b) = crc_byte a XOR crc_byte b"
  by (simp add: crc_byte_def crc_bit_xor)

lemma xor_eq_0: "a XOR b = 0 \<Longrightarrow> a = b" for a b :: u32
  by (metis xor.assoc xor.left_neutral xor.right_neutral xor_self_eq)

lemma crc_bit_eq_0: "crc_bit v = 0 \<Longrightarrow> v = 0"
proof -
  assume z: "crc_bit v = 0"
  have top: "\<not> bit (drop_bit 1 v) 31" using bit_imp_le_length [of v 32] by (auto simp: bit_simps)
  have "even v"
  proof (rule ccontr)
    assume "odd v"
    with z have "drop_bit 1 v XOR 0xEDB88320 = 0" by (simp add: crc_bit_def)
    then have "drop_bit 1 v = 0xEDB88320" by (rule xor_eq_0)
    with top show False by simp
  qed
  moreover from this z have "drop_bit 1 v = 0" by (simp add: crc_bit_def)
  ultimately show "v = 0"
    using bit_eq_rec [of v 0] by (simp add: drop_bit_eq_div)
qed

lemma crc_bit_inj: "crc_bit a = crc_bit b \<Longrightarrow> a = b"
proof -
  assume "crc_bit a = crc_bit b"
  then have "crc_bit (a XOR b) = 0" by (simp add: crc_bit_xor)
  then have "a XOR b = 0" by (rule crc_bit_eq_0)
  then show "a = b" by (rule xor_eq_0)
qed

lemma crc_byte_inj: "crc_byte a = crc_byte b \<Longrightarrow> a = b"
  by (simp add: crc_byte_def) (blast dest: crc_bit_inj)

subsection \<open>The table\<close>

lemma crc_bit_num:
  "crc_bit 0 = 0" "crc_bit 1 = 0xEDB88320"
  "crc_bit (numeral (Num.Bit0 n)) = drop_bit 1 (numeral (Num.Bit0 n))"
  "crc_bit (numeral (Num.Bit1 n)) = drop_bit 1 (numeral (Num.Bit1 n)) XOR 0xEDB88320"
  by (simp_all add: crc_bit_def)

lemma crc32_table_entries: "list_all (\<lambda>(i, x). crc_byte (of_nat i) = x) (enumerate 0 crc32_table)"
  by (simp add: crc_byte_def crc_bit_num crc32_table_def)

lemma crc32_table_length: "length crc32_table = 256"
  by (simp add: crc32_table_def)

lemma crc32_table_nth:
  assumes "i < 256"
  shows "crc32_table ! i = crc_byte (of_nat i)"
proof -
  have "(i, crc32_table ! i) \<in> set (enumerate 0 crc32_table)"
    using assms by (force simp: in_set_enumerate_eq crc32_table_length)
  with crc32_table_entries show ?thesis by (auto simp: list_all_iff)
qed

text \<open>Splitting a word in its low byte and the rest, the rest is merely shifted.\<close>

lemma crc_byte_high:
  assumes "v AND 0xff = 0"
  shows "crc_byte v = drop_bit 8 v"
proof -
  have "take_bit 8 v = 0" using assms by (simp add: take_bit_eq_mask mask_eq_exp_minus_1)
  then have z: "\<not> bit v i" if "i < 8" for i using that by (metis bit_take_bit_iff bit_0_eq bot_apply bot_bool_def)
  have ev: "even (drop_bit k v)" if "k < 8" for k
    using z [OF that] by (simp add: bit_iff_odd_drop_bit)
  have st: "crc_bit (drop_bit k v) = drop_bit (Suc k) v" if "k < 8" for k
    using ev [OF that] by (simp add: crc_bit_def drop_bit_drop_bit)
  show ?thesis
    using st [of 0] st [of 1] st [of 2] st [of 3] st [of 4] st [of 5] st [of 6] st [of 7]
    by (simp add: crc_byte_def eval_nat_numeral)
qed

lemma crc32_step_serial: "crc32_step v b = crc_serial v b"
proof -
  let ?x = "v XOR ucast b" and ?lo = "(v XOR ucast b) AND 0xff"
  let ?hi = "?x XOR ?lo"
  have "?lo \<le> 0xff" by (rule word_and_le1)
  then have lt: "unat ?lo < 256" by (simp add: word_le_nat_alt)
  have "?hi AND 0xff = 0"
    by (rule bit_word_eqI) (auto simp: bit_simps)
  then have "crc_byte ?hi = drop_bit 8 ?hi" by (rule crc_byte_high)
  also have "\<dots> = drop_bit 8 v"
    by (rule bit_word_eqI) (auto simp: bit_simps dest: bit_imp_le_length)
  finally have hi: "crc_byte ?hi = drop_bit 8 v" .
  have "crc_byte ?x = crc_byte (?hi XOR ?lo)" by (simp add: xor.assoc)
  also have "\<dots> = crc_byte ?hi XOR crc_byte ?lo" by (rule crc_byte_xor)
  also have "\<dots> = drop_bit 8 v XOR crc32_table ! unat ?lo"
    using lt by (simp only: hi crc32_table_nth of_nat_unat ucast_id)
  finally show ?thesis by (simp add: crc32_step_def crc_serial_def)
qed

lemma xor_cancel: "a XOR c = b XOR c \<Longrightarrow> a = b" for a b c :: u32
  by (rule xor_eq_0) (metis xor.assoc xor.commute xor_self_eq xor.left_neutral)

lemma crc32_step_inj: "crc32_step v b = crc32_step v' b \<Longrightarrow> v = v'"
  by (auto simp: crc32_step_serial crc_serial_def dest!: crc_byte_inj xor_cancel)

lemma ucast_u32_inj: "(ucast b :: u32) = ucast b' \<Longrightarrow> b = b'" for b b' :: u8
proof (rule bit_word_eqI)
  fix n assume eq: "(ucast b :: u32) = ucast b'" and "n < LENGTH(8)"
  have "bit (ucast b :: u32) n = bit (ucast b' :: u32) n" by (simp only: eq)
  with \<open>n < LENGTH(8)\<close> show "bit b n = bit b' n" by (simp add: bit_ucast_iff)
qed

lemma crc32_step_inj_byte: "crc32_step v b = crc32_step v b' \<Longrightarrow> b = b'"
proof -
  assume "crc32_step v b = crc32_step v b'"
  then have "ucast b XOR v = ucast b' XOR v"
    by (auto simp: crc32_step_serial crc_serial_def xor.commute [of v] dest!: crc_byte_inj)
  then show ?thesis by (rule ucast_u32_inj [OF xor_cancel])
qed

lemma crc32_fold_inj: "foldl crc32_step v bs = foldl crc32_step v' bs \<Longrightarrow> v = v'"
  by (induction bs arbitrary: v v') (auto dest: crc32_step_inj)

section \<open>Properties of CRC-32\<close>

text \<open>C32. The table-driven \<^verbatim>\<open>k_crc32\<close> computes the CRC-32 of the reflected polynomial
  \<open>0xEDB88320\<close>: on every byte string it equals the bit-serial division, one shift and conditional
  exclusive-or per bit, so every one of the 256 table constants is right.\<close>

lemma crc32_matches_polynomial:
  "k_crc32 data = foldl crc_serial 0xffffffff data XOR 0xffffffff"
proof -
  have "foldl crc32_step v data = foldl crc_serial v data" for v
    by (rule foldl_cong) (simp_all add: crc32_step_serial)
  then show ?thesis
    by (simp add: k_crc32_def k_crc32_final_def k_crc32_update_def k_crc32_init_def)
qed

text \<open>\<^verbatim>\<open>k_crc32\<close> detects the corruption of any single byte: two byte strings of any length that
  differ in exactly one byte have different checksums.\<close>

lemma crc32_detects_byte_corruption:
  assumes "b \<noteq> b'"
  shows "k_crc32 (pre @ b # post) \<noteq> k_crc32 (pre @ b' # post)"
proof
  assume "k_crc32 (pre @ b # post) = k_crc32 (pre @ b' # post)"
  then have "crc32_step (foldl crc32_step 0xffffffff pre) b = crc32_step (foldl crc32_step 0xffffffff pre) b'"
    by (auto simp: k_crc32_def k_crc32_final_def k_crc32_update_def k_crc32_init_def
        dest!: xor_cancel crc32_fold_inj)
  then have "b = b'" by (rule crc32_step_inj_byte)
  with assms show False by contradiction
qed

lemma crc32_detects_byte_corruption_witness:
  "k_crc32 ([1] @ 2 # [3]) \<noteq> k_crc32 ([1] @ 4 # [3])"
  by (rule crc32_detects_byte_corruption) simp

lemma crc32_update_append:
  "k_crc32_update (k_crc32_update ctx a) b = k_crc32_update ctx (a @ b)"
  by (simp add: k_crc32_update_def)

end
