(* ===== verification/Raft_Set.thy ===== *)
theory Raft_Set
  imports Prelude "HOL-Library.Multiset"
begin

section \<open>Sets of server ids\<close>

text \<open>
  The sorted id arrays of \<^verbatim>\<open>raft.h\<close>: \<^verbatim>\<open>raft_mask\<close> (a borrowed view) and \<^verbatim>\<open>raft_set\<close> (an owned
  copy) are both a pointer and a count, modelled by the list of the ids; the null pointer with
  count zero is the empty list. A C \<^verbatim>\<open>int\<close> id is an \<open>int\<close>. The section models the binary
  search of \<^verbatim>\<open>raft_mask_has\<close>, the insertion sort of \<^verbatim>\<open>raft_make_sorted_ids\<close> with its rejection
  of duplicate and non-positive ids, and the owned-set operations with allocation failure.
\<close>

type_synonym raft_mask = "int list"
type_synonym raft_set = "int list"

definition raft_id_valid :: "int \<Rightarrow> bool" where
  "raft_id_valid i \<longleftrightarrow> i > 0"

definition raft_mask_zero :: raft_mask where
  "raft_mask_zero = []"

definition raft_mask_any :: "raft_mask \<Rightarrow> bool" where
  "raft_mask_any m \<longleftrightarrow> length m > 0"

definition raft_mask_eq :: "raft_mask \<Rightarrow> raft_mask \<Rightarrow> bool" where
  "raft_mask_eq a b =
    (if length a \<noteq> length b then False
     else if length a = 0 then True
     else list_all2 (=) a b)"

text \<open>The binary search. The bounds are C ints that may reach \<open>-1\<close> and \<open>id_count\<close>.\<close>

function mask_search :: "raft_mask \<Rightarrow> int \<Rightarrow> int \<Rightarrow> int \<Rightarrow> bool" where
  "mask_search m i lo hi =
    (if lo \<le> hi then
       let mid = lo + (hi - lo) div 2 in
       if m ! nat mid = i then True
       else if m ! nat mid < i then mask_search m i (mid + 1) hi
       else mask_search m i lo (mid - 1)
     else False)"
  by pat_completeness auto

termination mask_search
  by (relation "measure (\<lambda>(m, i, lo, hi). nat (hi - lo + 1))") (auto simp: Let_def)

declare mask_search.simps [simp del]

definition raft_mask_has :: "raft_mask \<Rightarrow> int \<Rightarrow> bool" where
  "raft_mask_has m i =
    (if \<not> raft_id_valid i then False else mask_search m i 0 (int (length m) - 1))"

definition raft_set_clear :: "raft_set \<Rightarrow> raft_set" where
  "raft_set_clear s = []"

definition raft_set_view :: "raft_set \<Rightarrow> raft_mask" where
  "raft_set_view s = s"

text \<open>
  The insertion sort works on a copy of the array. The inner loop walks down from the end of
  the sorted prefix, so the prefix is kept reversed.
\<close>

fun sift :: "int \<Rightarrow> int list \<Rightarrow> int list" where
  "sift v [] = [v]"
| "sift v (x # xs) = (if x > v then x # sift v xs else v # x # xs)"

definition insertion_sort :: "int list \<Rightarrow> int list" where
  "insertion_sort xs = rev (foldl (\<lambda>pre v. sift v pre) [] xs)"

fun ids_ok :: "int list \<Rightarrow> bool" where
  "ids_ok [] = True"
| "ids_ok [x] = raft_id_valid x"
| "ids_ok (x # y # xs) = (raft_id_valid x \<and> x \<noteq> y \<and> ids_ok (y # xs))"

definition raft_make_sorted_ids :: "script \<Rightarrow> int list \<Rightarrow> int list option \<times> script" where
  "raft_make_sorted_ids s ids =
    (if length ids = 0 then (Some [], s)
     else let (ok, s) = alloc s in
       if \<not> ok then (None, s)
       else let copy = insertion_sort ids in
         if ids_ok copy then (Some copy, s) else (None, s))"

definition raft_set_assign :: "script \<Rightarrow> raft_set \<Rightarrow> int list \<Rightarrow> bool \<times> script \<times> raft_set" where
  "raft_set_assign s dst ids =
    (case raft_make_sorted_ids s ids of
       (None, s) \<Rightarrow> (False, s, dst)
     | (Some copy, s) \<Rightarrow> (True, s, copy))"

definition raft_set_copy :: "script \<Rightarrow> raft_set \<Rightarrow> raft_set \<Rightarrow> bool \<times> script \<times> raft_set" where
  "raft_set_copy s dst src = raft_set_assign s dst src"

fun raft_set_has :: "raft_set \<Rightarrow> int \<Rightarrow> bool" where
  "raft_set_has [] i = False"
| "raft_set_has (x # xs) i = (if x = i then True else raft_set_has xs i)"

fun raft_is_learner :: "raft_set \<Rightarrow> int \<Rightarrow> bool" where
  "raft_is_learner [] i = False"
| "raft_is_learner (x # xs) i = (if x = i then True else raft_is_learner xs i)"

subsection \<open>Laws\<close>

text \<open>A well-formed set: strictly ascending positive ids.\<close>

definition id_set :: "raft_set \<Rightarrow> bool" where
  "id_set s \<longleftrightarrow> sorted_wrt (<) s \<and> (\<forall>i\<in>set s. raft_id_valid i)"

lemma id_set_Nil [simp]: "id_set []"
  by (simp add: id_set_def)

lemma id_set_distinct: "id_set s \<Longrightarrow> distinct s"
  by (simp add: id_set_def strict_sorted_iff)

lemma id_set_sorted: "id_set s \<Longrightarrow> sorted s"
  by (simp add: id_set_def strict_sorted_iff)

lemma id_set_valid: "id_set s \<Longrightarrow> i \<in> set s \<Longrightarrow> i > 0"
  by (auto simp: id_set_def raft_id_valid_def)

lemma raft_mask_eq_iff [simp]: "raft_mask_eq a b \<longleftrightarrow> a = b"
  by (auto simp: raft_mask_eq_def list.rel_eq)

lemma raft_mask_any_iff [simp]: "raft_mask_any m \<longleftrightarrow> m \<noteq> []"
  by (simp add: raft_mask_any_def)

lemma raft_set_view_id [simp]: "raft_set_view s = s"
  by (simp add: raft_set_view_def)

lemma raft_set_clear_Nil [simp]: "raft_set_clear s = []"
  by (simp add: raft_set_clear_def)

lemma raft_mask_zero_Nil [simp]: "raft_mask_zero = []"
  by (simp add: raft_mask_zero_def)

lemma raft_set_has_iff [simp]: "raft_set_has s i \<longleftrightarrow> i \<in> set s"
  by (induction s) auto

lemma raft_is_learner_iff [simp]: "raft_is_learner s i \<longleftrightarrow> i \<in> set s"
  by (induction s) auto

text \<open>The search is confined to the window, and in a sorted array the window is enough.\<close>

lemma mask_search_iff:
  assumes "sorted m" "0 \<le> lo" "hi < int (length m)"
  shows "mask_search m i lo hi \<longleftrightarrow> (\<exists>k. lo \<le> int k \<and> int k \<le> hi \<and> m ! k = i)"
  using assms
proof (induction m i lo hi rule: mask_search.induct)
  case (1 m i lo hi)
  define mid where "mid = lo + (hi - lo) div 2"
  show ?case
  proof (cases "lo \<le> hi")
    case False
    then show ?thesis by (subst mask_search.simps) auto
  next
    case True
    have mid: "lo \<le> mid" "mid \<le> hi" "nat mid < length m"
      using True 1(5) 1(4) by (auto simp: mid_def)
    have mono: "a \<le> b \<Longrightarrow> b < length m \<Longrightarrow> m ! a \<le> m ! b" for a b
      using 1(3) by (simp add: sorted_iff_nth_mono)
    consider (eq) "m ! nat mid = i" | (lt) "m ! nat mid < i" | (gt) "m ! nat mid > i" by linarith
    then show ?thesis
    proof cases
      case eq
      then show ?thesis using True mid 1(4)
        by (subst mask_search.simps) (auto simp: mid_def[symmetric] intro!: exI[of _ "nat mid"])
    next
      case lt
      have low: "m ! k \<noteq> i" if "int k \<le> mid" for k
        using mono[of k "nat mid"] that lt mid 1(4) by (auto simp: le_nat_iff)
      have "mask_search m i (mid + 1) hi \<longleftrightarrow> (\<exists>k. mid + 1 \<le> int k \<and> int k \<le> hi \<and> m ! k = i)"
        using 1(1)[OF True mid_def] lt 1(3-5) mid by simp
      moreover have "mask_search m i lo hi = mask_search m i (mid + 1) hi"
        using True lt by (subst mask_search.simps) (simp add: mid_def[symmetric])
      moreover have "(mid + 1 \<le> int k \<and> int k \<le> hi \<and> m ! k = i) \<longleftrightarrow> (lo \<le> int k \<and> int k \<le> hi \<and> m ! k = i)" for k
        using low[of k] mid by linarith
      ultimately show ?thesis by simp
    next
      case gt
      have high: "m ! k \<noteq> i" if "mid \<le> int k" "int k \<le> hi" for k
        using mono[of "nat mid" k] that gt mid 1(5) by (auto simp: nat_le_iff)
      have "mask_search m i lo (mid - 1) \<longleftrightarrow> (\<exists>k. lo \<le> int k \<and> int k \<le> mid - 1 \<and> m ! k = i)"
        using 1(2)[OF True mid_def] gt 1(3-5) mid by simp
      moreover have "mask_search m i lo hi = mask_search m i lo (mid - 1)"
        using True gt by (subst mask_search.simps) (simp add: mid_def[symmetric])
      moreover have "(lo \<le> int k \<and> int k \<le> mid - 1 \<and> m ! k = i) \<longleftrightarrow> (lo \<le> int k \<and> int k \<le> hi \<and> m ! k = i)" for k
        using high[of k] mid by linarith
      ultimately show ?thesis by simp
    qed
  qed
qed

lemma raft_mask_has_sorted:
  assumes "sorted m"
  shows "raft_mask_has m i \<longleftrightarrow> i > 0 \<and> i \<in> set m"
proof -
  have "mask_search m i 0 (int (length m) - 1) \<longleftrightarrow> i \<in> set m"
    using mask_search_iff[OF assms, of 0 "int (length m) - 1" i]
    by (auto simp: in_set_conv_nth)
  then show ?thesis by (simp add: raft_mask_has_def raft_id_valid_def)
qed

lemma raft_mask_has_iff: "id_set m \<Longrightarrow> raft_mask_has m i \<longleftrightarrow> i \<in> set m"
  using raft_mask_has_sorted[OF id_set_sorted] id_set_valid by blast

lemma sift_set [simp]: "mset (sift v xs) = add_mset v (mset xs)"
  by (induction xs) auto

lemma sift_sorted: "sorted_wrt (\<ge>) xs \<Longrightarrow> sorted_wrt (\<ge>) (sift v xs)"
proof (induction xs)
  case (Cons x xs)
  have "set (sift v xs) = insert v (set xs)"
    using sift_set[of v xs] by (metis set_mset_add_mset_insert set_mset_mset)
  with Cons show ?case by fastforce
qed simp

lemma insertion_fold:
  assumes "sorted_wrt (\<ge>) pre"
  shows "sorted_wrt (\<ge>) (foldl (\<lambda>pre v. sift v pre) pre xs)
    \<and> mset (foldl (\<lambda>pre v. sift v pre) pre xs) = mset pre + mset xs"
  using assms by (induction xs arbitrary: pre) (auto simp: sift_sorted)

lemma insertion_sort_eq: "insertion_sort xs = sort xs"
proof -
  have s: "sorted_wrt (\<ge>) (foldl (\<lambda>pre v. sift v pre) [] xs)"
    and m: "mset (foldl (\<lambda>pre v. sift v pre) [] xs) = mset xs"
    using insertion_fold[of "[]" xs] by auto
  have "sorted (insertion_sort xs)"
    using s by (simp add: insertion_sort_def sorted_wrt_rev)
  moreover have "mset (insertion_sort xs) = mset xs"
    using m by (simp add: insertion_sort_def)
  ultimately show ?thesis by (simp add: properties_for_sort)
qed

lemma ids_ok_iff: "sorted xs \<Longrightarrow> ids_ok xs \<longleftrightarrow> distinct xs \<and> (\<forall>i\<in>set xs. raft_id_valid i)"
proof (induction xs rule: ids_ok.induct)
  case (3 x y xs)
  have "x \<notin> set (y # xs) \<longleftrightarrow> x \<noteq> y" using 3(2) by fastforce
  with 3 show ?case by auto
qed auto

lemma make_sorted_ids_law:
  "raft_make_sorted_ids s ids = (out, s') \<Longrightarrow>
    out = (if length ids = 0 \<or> fst (alloc s) \<and> distinct ids \<and> (\<forall>i\<in>set ids. raft_id_valid i)
           then Some (sort ids) else None)"
  using ids_ok_iff[of "sort ids"]
  by (auto simp: raft_make_sorted_ids_def insertion_sort_eq split: prod.splits if_splits)

lemma set_assign_ok:
  "raft_set_assign s dst ids = (True, s', dst') \<Longrightarrow> id_set dst' \<and> set dst' = set ids \<and> dst' = sort ids"
  using make_sorted_ids_law[of s ids]
  by (auto simp: raft_set_assign_def id_set_def strict_sorted_iff
      split: prod.splits option.splits if_splits)

lemma set_assign_fail: "raft_set_assign s dst ids = (False, s', dst') \<Longrightarrow> dst' = dst"
  by (auto simp: raft_set_assign_def split: prod.splits option.splits)

lemma sort_id_set: "id_set xs \<Longrightarrow> sort xs = xs"
  by (simp add: id_set_sorted sorted_sort_id)

lemma set_copy_ok: "raft_set_copy s dst src = (True, s', dst') \<Longrightarrow> id_set src \<Longrightarrow> dst' = src"
  using set_assign_ok[of s dst src s' dst'] sort_id_set by (simp add: raft_set_copy_def)

lemma set_assign_id_set: "raft_set_assign s dst ids = (b, s', dst') \<Longrightarrow> id_set dst \<Longrightarrow> id_set dst'"
  using set_assign_ok[of s dst ids] set_assign_fail[of s dst ids] by (cases b) auto

text \<open>Every set \<open>raft_set_assign\<close> builds is sorted, positive and duplicate-free, so that the
  binary search \<open>raft_mask_has\<close> on it decides membership in the ids it was built from, as the
  linear scans do; with memory it fails exactly on a duplicate or a non-positive id, and on a
  failure the destination is unchanged.\<close>

theorem raft_set_assign_search:
  "(raft_set_assign s dst ids = (True, s', dst')
      \<longrightarrow> id_set dst' \<and> (\<forall>i. raft_mask_has (raft_set_view dst') i \<longleftrightarrow> i \<in> set ids)
          \<and> (\<forall>i. raft_mask_has (raft_set_view dst') i \<longleftrightarrow> raft_set_has dst' i))
   \<and> (raft_set_assign s dst ids = (False, s', dst') \<longrightarrow> dst' = dst)
   \<and> (fst (alloc s) \<longrightarrow> (fst (raft_set_assign s dst ids)
        \<longleftrightarrow> distinct ids \<and> (\<forall>i\<in>set ids. raft_id_valid i)))"
proof (intro conjI impI)
  assume a: "raft_set_assign s dst ids = (True, s', dst')"
  show "id_set dst'" using set_assign_ok[OF a] by blast
  show "\<forall>i. raft_mask_has (raft_set_view dst') i \<longleftrightarrow> i \<in> set ids"
    and "\<forall>i. raft_mask_has (raft_set_view dst') i \<longleftrightarrow> raft_set_has dst' i"
    using set_assign_ok[OF a] raft_mask_has_iff by auto
next
  assume "raft_set_assign s dst ids = (False, s', dst')"
  then show "dst' = dst" by (rule set_assign_fail)
next
  assume "fst (alloc s)"
  then show "fst (raft_set_assign s dst ids) \<longleftrightarrow> distinct ids \<and> (\<forall>i\<in>set ids. raft_id_valid i)"
    using make_sorted_ids_law[of s ids]
    by (auto simp: raft_set_assign_def split: prod.splits option.splits if_splits)
qed

theorem raft_set_assign_search_witness:
  "raft_set_assign [] [] [3, 1, 2] = (True, [], [1, 2, 3]) \<and> raft_mask_has (raft_set_view [1, 2, 3]) 2
    \<and> \<not> fst (raft_set_assign [] [] [3, 1, 3])"
proof -
  have e: "raft_set_assign [] [] [3, 1, 2] = (True, [], [1, 2, 3])"
    by (simp add: raft_set_assign_def raft_make_sorted_ids_def insertion_sort_def raft_id_valid_def)
  show ?thesis
    using raft_set_assign_search[of "[]" "[]" "[3, 1, 2]" "[]" "[1, 2, 3]"]
      raft_set_assign_search[of "[]" "[]" "[3, 1, 3]" "[]" "[]"] e by simp
qed

end
