(* ===== verification/Raft_Log.thy ===== *)
theory Raft_Log
  imports Raft_Set
begin

section \<open>The chunked replicated log\<close>

text \<open>
  The log store of \<^verbatim>\<open>raft.h\<close> (\<^verbatim>\<open>raft_log\<close>): entries live in fixed-size chunks of parallel
  arrays, their bytes in one shared buffer addressed by per-entry offsets, and the part before
  \<^verbatim>\<open>last_included_index\<close> has been compacted away. Log positions are \<open>int\<close>s (\<^verbatim>\<open>raft_i64\<close>); an
  offset into the live part is a \<open>nat\<close>. A null array is \<open>None\<close>; \<^verbatim>\<open>num_chunks\<close> is the length of
  the chunk list; the data buffer is the list of its first \<^verbatim>\<open>data_size\<close> bytes (the bytes past
  them are never read), so lowering \<^verbatim>\<open>data_size\<close> is a \<open>take\<close>. Every allocator call takes one
  outcome from the script.
\<close>

abbreviation RAFT_ENTRY_COMMAND :: u8 where "RAFT_ENTRY_COMMAND \<equiv> 0"
abbreviation RAFT_ENTRY_NOOP :: u8 where "RAFT_ENTRY_NOOP \<equiv> 1"
abbreviation RAFT_ENTRY_CONFIG :: u8 where "RAFT_ENTRY_CONFIG \<equiv> 2"

type_synonym cookie = nat

record raft_command =
  cmd_cookie :: cookie
  cmd_command :: "bytes option"
  cmd_command_size :: nat

record raft_log_chunk =
  lc_terms :: "int list option"
  lc_kinds :: "u8 list option"
  lc_cfg_old :: "raft_mask list option"
  lc_cfg_new :: "raft_mask list option"
  lc_cfg_learners :: "raft_mask list option"
  lc_data_offsets :: "nat list option"

record raft_log =
  lg_chunks :: "raft_log_chunk list"
  lg_chunk_capacity :: nat
  lg_chunk_bits :: nat
  lg_chunk_mask :: nat
  lg_chunk_size :: nat
  lg_data :: bytes
  lg_data_capacity :: nat
  lg_count :: nat
  lg_last_included_index :: int
  lg_last_included_term :: int

abbreviation lg_num_chunks :: "raft_log \<Rightarrow> nat" where
  "lg_num_chunks l \<equiv> length (lg_chunks l)"

abbreviation lg_data_size :: "raft_log \<Rightarrow> nat" where
  "lg_data_size l \<equiv> length (lg_data l)"

definition chunk_zero :: raft_log_chunk where
  "chunk_zero = \<lparr> lc_terms = None, lc_kinds = None, lc_cfg_old = None, lc_cfg_new = None,
     lc_cfg_learners = None, lc_data_offsets = None \<rparr>"

text \<open>The chunk and the slot of an offset, and a read of one slot of a parallel array.\<close>

definition log_ci :: "raft_log \<Rightarrow> nat \<Rightarrow> nat" where
  "log_ci l off = drop_bit (lg_chunk_bits l) off"

definition log_co :: "raft_log \<Rightarrow> nat \<Rightarrow> nat" where
  "log_co l off = off AND lg_chunk_mask l"

definition slot :: "(raft_log_chunk \<Rightarrow> 'a list option) \<Rightarrow> raft_log \<Rightarrow> nat \<Rightarrow> 'a" where
  "slot f l off = the (f (lg_chunks l ! log_ci l off)) ! log_co l off"

definition raft_log_last_index :: "raft_log \<Rightarrow> int" where
  "raft_log_last_index l = lg_last_included_index l + int (lg_count l)"

definition raft_log_term_at :: "raft_log \<Rightarrow> int \<Rightarrow> int" where
  "raft_log_term_at l idx =
    (if idx \<le> lg_last_included_index l then lg_last_included_term l
     else if idx > raft_log_last_index l then 0
     else slot lc_terms l (nat (idx - lg_last_included_index l - 1)))"

definition raft_log_ensure_chunk :: "script \<Rightarrow> raft_log \<Rightarrow> nat \<Rightarrow> bool \<times> script \<times> raft_log" where
  "raft_log_ensure_chunk s l ci =
    (if ci < lg_num_chunks l then (True, s, l)
     else
       let grown =
         (if ci \<ge> lg_chunk_capacity l then
            let nc = (if lg_chunk_capacity l > 0 then lg_chunk_capacity l * 2 else 4);
                nc = (if nc \<le> ci then ci + 1 else nc);
                (ok, s) = alloc s
            in if ok then (True, s, l\<lparr>lg_chunk_capacity := nc\<rparr>) else (False, s, l)
          else (True, s, l))
       in case grown of
            (False, s, l) \<Rightarrow> (False, s, l)
          | (True, s, l) \<Rightarrow>
              (True, s, l\<lparr>lg_chunks := lg_chunks l @ replicate (ci + 1 - lg_num_chunks l) chunk_zero\<rparr>))"

definition raft_log_alloc_chunk :: "script \<Rightarrow> raft_log \<Rightarrow> nat \<Rightarrow> bool \<times> script \<times> raft_log" where
  "raft_log_alloc_chunk s l ci =
    (if lc_terms (lg_chunks l ! ci) \<noteq> None then (True, s, l)
     else
       let sz = lg_chunk_size l; (ok1, s) = alloc s; (ok2, s) = alloc s; (ok3, s) = alloc s;
           c = lg_chunks l ! ci
       in if ok1 \<and> ok2 \<and> ok3 then
            (True, s, l\<lparr>lg_chunks := (lg_chunks l)[ci := c\<lparr>lc_terms := Some (replicate sz 0),
               lc_kinds := Some (replicate sz 0), lc_data_offsets := Some (replicate sz 0)\<rparr>]\<rparr>)
          else
            (False, s, l\<lparr>lg_chunks := (lg_chunks l)[ci := c\<lparr>lc_terms := None, lc_kinds := None,
               lc_data_offsets := None\<rparr>]\<rparr>))"

definition raft_log_reserve_data :: "script \<Rightarrow> raft_log \<Rightarrow> nat \<Rightarrow> bool \<times> script \<times> raft_log" where
  "raft_log_reserve_data s l extra =
    (if extra \<le> 0 then (True, s, l)
     else let need = lg_data_size l + extra in
       if need \<le> lg_data_capacity l then (True, s, l)
       else
         let nc = (if lg_data_capacity l > 0 then lg_data_capacity l * 2 else 4096);
             nc = (if nc < need then need else nc);
             (ok, s) = alloc s
         in if ok then (True, s, l\<lparr>lg_data_capacity := nc\<rparr>) else (False, s, l))"

text \<open>
  The part of \<^verbatim>\<open>raft_log_append\<close> that stores the membership masks of a configuration entry:
  three arrays per chunk on first use, then one copy per non-empty mask. A failure restores
  \<^verbatim>\<open>data_size\<close> to the size saved before the entry's bytes were copied.
\<close>

definition set_chunk :: "raft_log \<Rightarrow> nat \<Rightarrow> raft_log_chunk \<Rightarrow> raft_log" where
  "set_chunk l ci c = l\<lparr>lg_chunks := (lg_chunks l)[ci := c]\<rparr>"

definition log_cfg_arrays :: "script \<Rightarrow> raft_log \<Rightarrow> nat \<Rightarrow> bool \<times> script \<times> raft_log" where
  "log_cfg_arrays s l ci =
    (let c = lg_chunks l ! ci in
     if lc_cfg_old c \<noteq> None then (True, s, l)
     else
       let sz = lg_chunk_size l; (ok1, s) = alloc s; (ok2, s) = alloc s; (ok3, s) = alloc s
       in if ok1 \<and> ok2 \<and> ok3 then
            (True, s, set_chunk l ci (c\<lparr>lc_cfg_old := Some (replicate sz []),
               lc_cfg_new := Some (replicate sz []), lc_cfg_learners := Some (replicate sz [])\<rparr>))
          else
            (False, s, set_chunk l ci (c\<lparr>lc_cfg_old := None, lc_cfg_new := None, lc_cfg_learners := None\<rparr>)))"

definition put_cfg :: "raft_log_chunk \<Rightarrow> nat \<Rightarrow> raft_mask \<Rightarrow> raft_mask \<Rightarrow> raft_log_chunk" where
  "put_cfg c mi co cn =
     c\<lparr>lc_cfg_old := map_option (\<lambda>xs. xs[mi := co]) (lc_cfg_old c),
       lc_cfg_new := map_option (\<lambda>xs. xs[mi := cn]) (lc_cfg_new c)\<rparr>"

definition put_learners :: "raft_log_chunk \<Rightarrow> nat \<Rightarrow> raft_mask \<Rightarrow> raft_log_chunk" where
  "put_learners c mi cl =
     c\<lparr>lc_cfg_learners := map_option (\<lambda>xs. xs[mi := cl]) (lc_cfg_learners c)\<rparr>"

definition mask_dup :: "script \<Rightarrow> raft_mask \<Rightarrow> bool \<times> script" where
  "mask_dup s m = (if length m > 0 then alloc s else (True, s))"

definition log_store_cfg :: "script \<Rightarrow> raft_log \<Rightarrow> nat \<Rightarrow> nat \<Rightarrow> nat
    \<Rightarrow> raft_mask \<Rightarrow> raft_mask \<Rightarrow> raft_mask \<Rightarrow> bool \<times> script \<times> raft_log" where
  "log_store_cfg s l ci mi saved_size co cn cl =
    (let undo = (\<lambda>l. l\<lparr>lg_data := take saved_size (lg_data l)\<rparr>) in
     case log_cfg_arrays s l ci of
       (False, s, l) \<Rightarrow> (False, s, undo l)
     | (True, s, l) \<Rightarrow>
        (let (ok, s) = mask_dup s co in
         if \<not> ok then (False, s, undo l)
         else let (ok, s) = mask_dup s cn in
         if \<not> ok then (False, s, undo l)
         else
           let l = set_chunk l ci (put_cfg (lg_chunks l ! ci) mi co cn) in
           if raft_mask_any cl then
             let (ok, s) = alloc s in
             if \<not> ok then
               (False, s, undo (set_chunk l ci (put_learners (put_cfg (lg_chunks l ! ci) mi
                   raft_mask_zero raft_mask_zero) mi raft_mask_zero)))
             else (True, s, set_chunk l ci (put_learners (lg_chunks l ! ci) mi cl))
           else (True, s, l)))"

definition put_entry :: "raft_log_chunk \<Rightarrow> nat \<Rightarrow> int \<Rightarrow> u8 \<Rightarrow> nat \<Rightarrow> raft_log_chunk" where
  "put_entry c co term kind off =
     c\<lparr>lc_terms := map_option (\<lambda>xs. xs[co := term]) (lc_terms c),
       lc_kinds := map_option (\<lambda>xs. xs[co := kind]) (lc_kinds c),
       lc_data_offsets := map_option (\<lambda>xs. xs[co := off]) (lc_data_offsets c)\<rparr>"

definition raft_log_append :: "script \<Rightarrow> raft_log \<Rightarrow> int \<Rightarrow> u8 \<Rightarrow> bytes
    \<Rightarrow> raft_mask \<Rightarrow> raft_mask \<Rightarrow> raft_mask \<Rightarrow> bool \<times> script \<times> raft_log" where
  "raft_log_append s l term kind data cfg_old cfg_new cfg_learners =
    (let idx = raft_log_last_index l + 1;
         off = nat (idx - lg_last_included_index l - 1);
         ci = log_ci l off; co = log_co l off
     in case raft_log_ensure_chunk s l ci of
          (False, s, l) \<Rightarrow> (False, s, l)
        | (True, s, l) \<Rightarrow>
     (case raft_log_alloc_chunk s l ci of
          (False, s, l) \<Rightarrow> (False, s, l)
        | (True, s, l) \<Rightarrow>
     (let l = set_chunk l ci (put_entry (lg_chunks l ! ci) co term kind (lg_data_size l));
          saved_size = lg_data_size l
      in case (if length data > 0 then
                 (case raft_log_reserve_data s l (length data) of
                    (False, s, l) \<Rightarrow> (False, s, l)
                  | (True, s, l) \<Rightarrow> (True, s, l\<lparr>lg_data := lg_data l @ data\<rparr>))
               else (True, s, l)) of
          (False, s, l) \<Rightarrow> (False, s, l)
        | (True, s, l) \<Rightarrow>
     (case (if kind = RAFT_ENTRY_CONFIG \<and> raft_mask_any cfg_old
            then log_store_cfg s l ci co saved_size cfg_old cfg_new cfg_learners
            else (True, s, l)) of
          (False, s, l) \<Rightarrow> (False, s, l)
        | (True, s, l) \<Rightarrow> (True, s, l\<lparr>lg_count := lg_count l + 1\<rparr>)))))"

text \<open>The batch append of client commands.\<close>

definition cmd_bytes :: "raft_command \<Rightarrow> bytes" where
  "cmd_bytes c = (case cmd_command c of None \<Rightarrow> [] | Some bs \<Rightarrow> take (cmd_command_size c) bs)"

fun alloc_chunks :: "script \<Rightarrow> raft_log \<Rightarrow> nat list \<Rightarrow> bool \<times> script \<times> raft_log" where
  "alloc_chunks s l [] = (True, s, l)"
| "alloc_chunks s l (ci # cis) =
    (case raft_log_alloc_chunk s l ci of
       (False, s, l) \<Rightarrow> (False, s, l)
     | (True, s, l) \<Rightarrow> alloc_chunks s l cis)"

fun write_commands :: "raft_log \<Rightarrow> int \<Rightarrow> nat \<Rightarrow> raft_command list \<Rightarrow> raft_log" where
  "write_commands l term off [] = l"
| "write_commands l term off (c # cs) =
    (let ci = log_ci l off; co = log_co l off;
         l = set_chunk l ci (put_entry (lg_chunks l ! ci) co term RAFT_ENTRY_COMMAND (lg_data_size l));
         l = l\<lparr>lg_data := lg_data l @ cmd_bytes c\<rparr>
     in write_commands l term (off + 1) cs)"

definition raft_log_append_commands :: "script \<Rightarrow> raft_log \<Rightarrow> int \<Rightarrow> raft_command list
    \<Rightarrow> bool \<times> script \<times> raft_log" where
  "raft_log_append_commands s l term commands =
    (if length commands = 0 then (True, s, l)
     else
       let total_data = sum_list (map (length \<circ> cmd_bytes) commands);
           off_first = nat (raft_log_last_index l + 1 - lg_last_included_index l - 1);
           ci_first = log_ci l off_first; ci_last = log_ci l (off_first + length commands - 1)
       in case raft_log_ensure_chunk s l ci_last of
            (False, s, l) \<Rightarrow> (False, s, l)
          | (True, s, l) \<Rightarrow>
       (case alloc_chunks s l [ci_first..<ci_last + 1] of
            (False, s, l) \<Rightarrow> (False, s, l)
          | (True, s, l) \<Rightarrow>
       (case raft_log_reserve_data s l total_data of
            (False, s, l) \<Rightarrow> (False, s, l)
          | (True, s, l) \<Rightarrow>
            (let l = write_commands l term off_first commands
             in (True, s, l\<lparr>lg_count := lg_count l + length commands\<rparr>)))))"

text \<open>
  Compaction copies the entries past \<open>idx\<close> into a fresh log; on an allocation failure the
  copy is freed and the log is untouched. The end of an entry's bytes is the next entry's
  offset, or \<^verbatim>\<open>data_size\<close> for the last entry.
\<close>

definition data_end :: "raft_log \<Rightarrow> nat \<Rightarrow> nat" where
  "data_end l off =
    (if int off + lg_last_included_index l + 1 < raft_log_last_index l then
       let nci = log_ci l off; nco = log_co l off + 1;
           (nci, nco) = (if nco \<ge> lg_chunk_size l then (nci + 1, 0) else (nci, nco))
       in the (lc_data_offsets (lg_chunks l ! nci)) ! nco
     else lg_data_size l)"

definition entry_data :: "raft_log \<Rightarrow> nat \<Rightarrow> bytes" where
  "entry_data l off =
    (let a = slot lc_data_offsets l off; e = data_end l off
     in if e > a then take (e - a) (drop a (lg_data l)) else [])"

definition slot_cfg :: "(raft_log_chunk \<Rightarrow> raft_mask list option) \<Rightarrow> raft_log \<Rightarrow> nat \<Rightarrow> raft_mask" where
  "slot_cfg f l off =
    (if slot lc_kinds l off = RAFT_ENTRY_CONFIG \<and> lc_cfg_old (lg_chunks l ! log_ci l off) \<noteq> None
     then slot f l off else raft_mask_zero)"

fun compact_loop :: "script \<Rightarrow> raft_log \<Rightarrow> raft_log \<Rightarrow> nat list \<Rightarrow> bool \<times> script \<times> raft_log" where
  "compact_loop s l nl [] = (True, s, nl)"
| "compact_loop s l nl (off # offs) =
    (case raft_log_append s nl (slot lc_terms l off) (slot lc_kinds l off) (entry_data l off)
            (slot_cfg lc_cfg_old l off) (slot_cfg lc_cfg_new l off) (slot_cfg lc_cfg_learners l off) of
       (False, s, nl) \<Rightarrow> (False, s, nl)
     | (True, s, nl) \<Rightarrow> compact_loop s l nl offs)"

definition log_fresh :: "raft_log \<Rightarrow> int \<Rightarrow> int \<Rightarrow> raft_log" where
  "log_fresh l idx term = \<lparr> lg_chunks = [], lg_chunk_capacity = 0, lg_chunk_bits = lg_chunk_bits l,
     lg_chunk_mask = lg_chunk_mask l, lg_chunk_size = lg_chunk_size l, lg_data = [], lg_data_capacity = 0,
     lg_count = 0, lg_last_included_index = idx, lg_last_included_term = term \<rparr>"

definition raft_log_compact_prefix :: "script \<Rightarrow> raft_log \<Rightarrow> int \<Rightarrow> int \<Rightarrow> bool \<times> script \<times> raft_log" where
  "raft_log_compact_prefix s l idx term =
    (if idx < lg_last_included_index l \<or> idx > raft_log_last_index l then (False, s, l)
     else case compact_loop s l (log_fresh l idx term)
                 [nat (idx - lg_last_included_index l)..<lg_count l] of
            (False, s, nl) \<Rightarrow> (False, s, l)
          | (True, s, nl) \<Rightarrow> (True, s, nl))"

function free_chunks :: "nat \<Rightarrow> raft_log_chunk list \<Rightarrow> raft_log_chunk list" where
  "free_chunks ci cs = (if length cs > ci then free_chunks ci (butlast cs) else cs)"
  by pat_completeness auto

termination free_chunks
  by (relation "measure (\<lambda>(ci, cs). length cs)") auto

declare free_chunks.simps [simp del]

definition wipe :: "nat \<Rightarrow> raft_mask list option \<Rightarrow> raft_mask list option" where
  "wipe dco = map_option (\<lambda>xs. take dco xs @ replicate (length xs - dco) [])"

definition raft_log_truncate :: "raft_log \<Rightarrow> int \<Rightarrow> int \<times> raft_log" where
  "raft_log_truncate l idx =
    (if idx < lg_last_included_index l then (-1, l)
     else if idx \<ge> raft_log_last_index l then (0, l)
     else
       let new_count = nat (idx - lg_last_included_index l);
           size = (if new_count = 0 then 0 else slot lc_data_offsets l new_count);
           l = l\<lparr>lg_data := take size (lg_data l)\<rparr>;
           ci = log_ci l (new_count + lg_chunk_size l - 1);
           l = l\<lparr>lg_count := new_count\<rparr>;
           l = l\<lparr>lg_chunks := free_chunks ci (lg_chunks l)\<rparr>;
           dco = log_co l new_count
       in if ci > 0 \<and> lc_cfg_old (lg_chunks l ! (ci - 1)) \<noteq> None \<and> dco > 0 then
            let c = lg_chunks l ! (ci - 1) in
            (0, set_chunk l (ci - 1) (c\<lparr>lc_cfg_old := wipe dco (lc_cfg_old c),
                lc_cfg_new := wipe dco (lc_cfg_new c), lc_cfg_learners := wipe dco (lc_cfg_learners c)\<rparr>))
          else (0, l))"

end
