(* ===== verification/Raft_Log_Laws.thy ===== *)
theory Raft_Log_Laws
  imports Raft_Log
begin

section \<open>The chunked log refines a list of entries\<close>

text \<open>
  The well-formedness invariant of the chunked log, its abstraction to the list of its live
  entries, and the laws of every log operation against that list: append and batch append add
  at the end or, on an allocation failure, change nothing; truncation is a prefix; compaction
  is a suffix; \<^verbatim>\<open>raft_log_term_at\<close> reads the list.
\<close>

record raft_entry =
  en_term :: int
  en_kind :: u8
  en_data :: bytes
  en_cfg_old :: raft_mask
  en_cfg_new :: raft_mask
  en_cfg_learners :: raft_mask

subsection \<open>Cells\<close>

text \<open>A cell of a parallel array by entry offset; a cell of an absent mask array is the empty mask.\<close>

definition cell :: "(raft_log_chunk \<Rightarrow> 'a list option) \<Rightarrow> nat \<Rightarrow> raft_log_chunk list \<Rightarrow> nat \<Rightarrow> 'a" where
  "cell f sz cs i = the (f (cs ! (i div sz))) ! (i mod sz)"

definition mcell :: "(raft_log_chunk \<Rightarrow> raft_mask list option) \<Rightarrow> nat \<Rightarrow> raft_log_chunk list \<Rightarrow> nat \<Rightarrow> raft_mask" where
  "mcell f sz cs i = (case f (cs ! (i div sz)) of None \<Rightarrow> [] | Some xs \<Rightarrow> xs ! (i mod sz))"

definition arr_ok :: "nat \<Rightarrow> 'a list option \<Rightarrow> bool" where
  "arr_ok sz a \<longleftrightarrow> (\<forall>xs. a = Some xs \<longrightarrow> length xs = sz)"

definition chunk_wf :: "nat \<Rightarrow> raft_log_chunk \<Rightarrow> bool" where
  "chunk_wf sz c \<longleftrightarrow>
     (lc_kinds c = None \<longleftrightarrow> lc_terms c = None) \<and> (lc_data_offsets c = None \<longleftrightarrow> lc_terms c = None)
     \<and> (lc_cfg_new c = None \<longleftrightarrow> lc_cfg_old c = None) \<and> (lc_cfg_learners c = None \<longleftrightarrow> lc_cfg_old c = None)
     \<and> arr_ok sz (lc_terms c) \<and> arr_ok sz (lc_kinds c) \<and> arr_ok sz (lc_data_offsets c)
     \<and> arr_ok sz (lc_cfg_old c) \<and> arr_ok sz (lc_cfg_new c) \<and> arr_ok sz (lc_cfg_learners c)"

definition geometry :: "raft_log \<Rightarrow> bool" where
  "geometry l \<longleftrightarrow> lg_chunk_size l = 2 ^ lg_chunk_bits l \<and> lg_chunk_mask l = lg_chunk_size l - 1"

text \<open>
  \<open>log_ok n D l\<close>: the first \<open>n\<close> offsets are live entries whose bytes lie in the first \<open>D\<close>
  bytes of the buffer; no mask is stored outside a live configuration entry.
\<close>

definition clean :: "nat \<Rightarrow> nat \<Rightarrow> raft_log_chunk list \<Rightarrow> bool" where
  "clean n sz cs \<longleftrightarrow> (\<forall>i. i div sz < length cs \<longrightarrow>
     (n \<le> i \<or> cell lc_kinds sz cs i \<noteq> RAFT_ENTRY_CONFIG \<or> mcell lc_cfg_old sz cs i = []) \<longrightarrow>
     mcell lc_cfg_old sz cs i = [] \<and> mcell lc_cfg_new sz cs i = [] \<and> mcell lc_cfg_learners sz cs i = [])"

definition chunks_ok :: "nat \<Rightarrow> nat \<Rightarrow> nat \<Rightarrow> raft_log_chunk list \<Rightarrow> bool" where
  "chunks_ok n D sz cs \<longleftrightarrow>
     (\<forall>c\<in>set cs. chunk_wf sz c)
     \<and> (\<forall>i<n. i div sz < length cs \<and> lc_terms (cs ! (i div sz)) \<noteq> None)
     \<and> (\<forall>i<n. cell lc_data_offsets sz cs i \<le> (if i + 1 < n then cell lc_data_offsets sz cs (i + 1) else D))
     \<and> clean n sz cs"

definition log_ok :: "nat \<Rightarrow> nat \<Rightarrow> raft_log \<Rightarrow> bool" where
  "log_ok n D l \<longleftrightarrow> geometry l \<and> D \<le> length (lg_data l) \<and> chunks_ok n D (lg_chunk_size l) (lg_chunks l)"

definition log_wf :: "raft_log \<Rightarrow> bool" where
  "log_wf l \<longleftrightarrow> log_ok (lg_count l) (lg_data_size l) l"

definition entry_of :: "nat \<Rightarrow> nat \<Rightarrow> raft_log \<Rightarrow> nat \<Rightarrow> raft_entry" where
  "entry_of n D l i =
    (let sz = lg_chunk_size l; cs = lg_chunks l; a = cell lc_data_offsets sz cs i;
         e = (if i + 1 < n then cell lc_data_offsets sz cs (i + 1) else D)
     in \<lparr> en_term = cell lc_terms sz cs i, en_kind = cell lc_kinds sz cs i,
          en_data = take (e - a) (drop a (lg_data l)),
          en_cfg_old = mcell lc_cfg_old sz cs i, en_cfg_new = mcell lc_cfg_new sz cs i,
          en_cfg_learners = mcell lc_cfg_learners sz cs i \<rparr>)"

definition ents :: "nat \<Rightarrow> nat \<Rightarrow> raft_log \<Rightarrow> raft_entry list" where
  "ents n D l = map (entry_of n D l) [0..<n]"

definition log_entries :: "raft_log \<Rightarrow> raft_entry list" where
  "log_entries l = ents (lg_count l) (lg_data_size l) l"

lemma log_okD: "log_ok n D l \<Longrightarrow> geometry l \<and> D \<le> length (lg_data l) \<and> chunks_ok n D (lg_chunk_size l) (lg_chunks l)"
  by (simp add: log_ok_def)

lemma length_ents [simp]: "length (ents n D l) = n"
  by (simp add: ents_def)

lemma length_log_entries [simp]: "length (log_entries l) = lg_count l"
  by (simp add: log_entries_def)

lemma geometry_pos: "geometry l \<Longrightarrow> lg_chunk_size l > 0"
  by (simp add: geometry_def)

lemma log_ci_div: "geometry l \<Longrightarrow> log_ci l i = i div lg_chunk_size l"
  by (simp add: log_ci_def geometry_def drop_bit_eq_div)

lemma log_co_mod: "geometry l \<Longrightarrow> log_co l i = i mod lg_chunk_size l"
  unfolding log_co_def geometry_def by (metis mask_eq_exp_minus_1 take_bit_eq_mask take_bit_eq_mod)

lemma slot_cell: "geometry l \<Longrightarrow> slot f l i = cell f (lg_chunk_size l) (lg_chunks l) i"
  by (simp add: slot_def cell_def log_ci_div log_co_mod)

subsection \<open>Updating one chunk\<close>

text \<open>The cells after one chunk has been replaced.\<close>

lemma cell_update:
  "ci < length cs \<Longrightarrow> cell f sz (cs[ci := c]) i = (if i div sz = ci then the (f c) ! (i mod sz) else cell f sz cs i)"
  by (auto simp: cell_def nth_list_update)

lemma mcell_update:
  "ci < length cs \<Longrightarrow> mcell f sz (cs[ci := c]) i
    = (if i div sz = ci then (case f c of None \<Rightarrow> [] | Some xs \<Rightarrow> xs ! (i mod sz)) else mcell f sz cs i)"
  by (auto simp: mcell_def nth_list_update)

lemma cell_append: "i div sz < length cs \<Longrightarrow> cell f sz (cs @ ds) i = cell f sz cs i"
  by (simp add: cell_def nth_append)

lemma mcell_append: "i div sz < length cs \<Longrightarrow> mcell f sz (cs @ ds) i = mcell f sz cs i"
  by (simp add: mcell_def nth_append)

text \<open>Two chunk lists hold the same first \<open>n\<close> rows.\<close>

definition rows_agree :: "nat \<Rightarrow> nat \<Rightarrow> raft_log_chunk list \<Rightarrow> raft_log_chunk list \<Rightarrow> bool" where
  "rows_agree n sz cs ds \<longleftrightarrow> (\<forall>i<n. cell lc_terms sz cs i = cell lc_terms sz ds i
     \<and> cell lc_kinds sz cs i = cell lc_kinds sz ds i
     \<and> cell lc_data_offsets sz cs i = cell lc_data_offsets sz ds i
     \<and> mcell lc_cfg_old sz cs i = mcell lc_cfg_old sz ds i
     \<and> mcell lc_cfg_new sz cs i = mcell lc_cfg_new sz ds i
     \<and> mcell lc_cfg_learners sz cs i = mcell lc_cfg_learners sz ds i)"

lemma rows_agree_refl [simp]: "rows_agree n sz cs cs"
  by (simp add: rows_agree_def)

lemma rows_agree_trans: "rows_agree n sz a b \<Longrightarrow> rows_agree n sz b c \<Longrightarrow> rows_agree n sz a c"
  by (simp add: rows_agree_def)

lemma chunks_ok_step:
  "chunks_ok n D sz cs \<Longrightarrow> i < n \<Longrightarrow>
    cell lc_data_offsets sz cs i \<le> (if i + 1 < n then cell lc_data_offsets sz cs (i + 1) else D)"
  by (simp add: chunks_ok_def)

lemma chunks_ok_alloc: "chunks_ok n D sz cs \<Longrightarrow> i < n \<Longrightarrow> i div sz < length cs \<and> lc_terms (cs ! (i div sz)) \<noteq> None"
  by (simp add: chunks_ok_def)

lemma chunks_ok_clean: "chunks_ok n D sz cs \<Longrightarrow> clean n sz cs"
  by (simp add: chunks_ok_def)

lemma cleanD:
  "clean n sz cs \<Longrightarrow> i div sz < length cs \<Longrightarrow>
    n \<le> i \<or> cell lc_kinds sz cs i \<noteq> RAFT_ENTRY_CONFIG \<or> mcell lc_cfg_old sz cs i = [] \<Longrightarrow>
    mcell lc_cfg_old sz cs i = [] \<and> mcell lc_cfg_new sz cs i = [] \<and> mcell lc_cfg_learners sz cs i = []"
  unfolding clean_def by blast

lemma chunks_ok_rows:
  assumes "chunks_ok n D sz cs" "rows_agree n sz cs ds" "\<forall>c\<in>set ds. chunk_wf sz c"
    "\<forall>i<n. i div sz < length ds \<and> lc_terms (ds ! (i div sz)) \<noteq> None" "clean n sz ds"
  shows "chunks_ok n D sz ds"
proof -
  have eq: "cell lc_data_offsets sz ds j = cell lc_data_offsets sz cs j" if "j < n" for j
    using assms(2) that by (simp add: rows_agree_def)
  have "cell lc_data_offsets sz ds i \<le> (if i + 1 < n then cell lc_data_offsets sz ds (i + 1) else D)"
    if i: "i < n" for i
    using chunks_ok_step[OF assms(1) i] eq[OF i] eq[of "i + 1"] by (simp split: if_splits)
  then show ?thesis using assms(3-5) unfolding chunks_ok_def by blast
qed

lemma take_drop_prefix: "take D xs = take D ys \<Longrightarrow> e \<le> D \<Longrightarrow> take (e - a) (drop a xs) = take (e - a) (drop a ys)"
  by (metis drop_take min.absorb1 take_take)

lemma offset_bound:
  "chunks_ok n D sz cs \<Longrightarrow> i < n \<Longrightarrow> (if i + 1 < n then cell lc_data_offsets sz cs (i + 1) else D) \<le> D"
proof (induction "n - i" arbitrary: i)
  case (Suc k)
  show ?case
  proof (cases "i + 1 < n")
    case True
    have "k = n - (i + 1)" using Suc.hyps(2) by simp
    then have "cell lc_data_offsets sz cs (i + 1) \<le> D"
      using chunks_ok_step[OF Suc.prems(1) True] Suc.hyps(1)[OF _ Suc.prems(1) True] by (rule_tac le_trans)
    then show ?thesis using True by simp
  qed simp
qed simp

lemma offset_le: "chunks_ok n D sz cs \<Longrightarrow> i < n \<Longrightarrow> cell lc_data_offsets sz cs i \<le> D"
  using offset_bound[of n D sz cs i] chunks_ok_step[of n D sz cs i] by simp

lemma ents_cong:
  assumes ok: "chunks_ok n D (lg_chunk_size l) (lg_chunks l)"
    and eq: "lg_chunk_size l' = lg_chunk_size l" "rows_agree n (lg_chunk_size l) (lg_chunks l) (lg_chunks l')"
    "take D (lg_data l') = take D (lg_data l)"
  shows "ents n D l' = ents n D l"
proof -
  have "entry_of n D l' i = entry_of n D l i" if i: "i < n" for i
  proof -
    have "take (e - a) (drop a (lg_data l')) = take (e - a) (drop a (lg_data l))" if "e \<le> D" for a e
      using take_drop_prefix[OF eq(3) that] .
    then show ?thesis
      using i eq(1,2) offset_bound[OF ok i] by (auto simp: entry_of_def Let_def rows_agree_def)
  qed
  then show ?thesis by (simp add: ents_def)
qed

lemma ents_Suc:
  assumes "cell lc_data_offsets (lg_chunk_size l) (lg_chunks l) n = D"
  shows "ents (Suc n) D' l = ents n D l @ [entry_of (Suc n) D' l n]"
proof -
  have "entry_of (Suc n) D' l i = entry_of n D l i" if "i < n" for i
    using that assms by (auto simp: entry_of_def Let_def Suc_lessI) (metis Suc_lessI)
  then show ?thesis by (simp add: ents_def)
qed

subsection \<open>The allocation steps leave the entries alone\<close>

text \<open>\<open>log_keep n D l l'\<close>: the same header, well-formed, and the same first \<open>n\<close> rows and \<open>D\<close> bytes.\<close>

definition same_head :: "raft_log \<Rightarrow> raft_log \<Rightarrow> bool" where
  "same_head l l' \<longleftrightarrow> lg_chunk_bits l' = lg_chunk_bits l \<and> lg_chunk_mask l' = lg_chunk_mask l
     \<and> lg_chunk_size l' = lg_chunk_size l \<and> lg_count l' = lg_count l
     \<and> lg_last_included_index l' = lg_last_included_index l
     \<and> lg_last_included_term l' = lg_last_included_term l"

definition log_keep :: "nat \<Rightarrow> nat \<Rightarrow> raft_log \<Rightarrow> raft_log \<Rightarrow> bool" where
  "log_keep n D l l' \<longleftrightarrow> same_head l l' \<and> log_ok n D l'
     \<and> rows_agree n (lg_chunk_size l) (lg_chunks l) (lg_chunks l') \<and> take D (lg_data l') = take D (lg_data l)"

lemma same_head_refl [simp]: "same_head l l"
  by (simp add: same_head_def)

lemma same_head_trans: "same_head a b \<Longrightarrow> same_head b c \<Longrightarrow> same_head a c"
  by (simp add: same_head_def)

lemma log_keep_refl: "log_ok n D l \<Longrightarrow> log_keep n D l l"
  by (simp add: log_keep_def)

lemma log_keep_trans: "log_keep n D a b \<Longrightarrow> log_keep n D b c \<Longrightarrow> log_keep n D a c"
  unfolding log_keep_def same_head_def using rows_agree_trans by metis

lemma log_keep_ents: "log_ok n D l \<Longrightarrow> log_keep n D l l' \<Longrightarrow> ents n D l' = ents n D l"
  by (rule ents_cong) (auto simp: log_ok_def log_keep_def same_head_def)

lemma chunk_zero_wf [simp]: "chunk_wf sz chunk_zero"
  by (simp add: chunk_wf_def chunk_zero_def arr_ok_def)

lemma div_slot_less: "i < n \<Longrightarrow> n div sz < m \<Longrightarrow> i div sz < (m::nat)"
  by (meson div_le_mono le_less_trans less_imp_le)

lemma ensure_keep:
  assumes ok: "log_ok n D l" and e: "raft_log_ensure_chunk s l ci = (b, s', l')"
  shows "log_keep n D l l' \<and> lg_data l' = lg_data l \<and> (b \<longrightarrow> ci < lg_num_chunks l') \<and> lg_num_chunks l \<le> lg_num_chunks l'"
proof -
  have pos: "lg_chunk_size l > 0" using ok by (auto simp: log_ok_def geometry_pos)
  have shape: "same_head l l' \<and> lg_data l' = lg_data l \<and> geometry l'
      \<and> (\<exists>k. lg_chunks l' = lg_chunks l @ replicate k chunk_zero \<and> (b \<longrightarrow> ci < lg_num_chunks l'))"
    using e ok by (auto simp: raft_log_ensure_chunk_def Let_def same_head_def log_ok_def geometry_def
        split: if_splits prod.splits intro: exI[of _ 0])
  then obtain k where k: "lg_chunks l' = lg_chunks l @ replicate k chunk_zero" by blast
  have old: "i div lg_chunk_size l < lg_num_chunks l" if "i < n" for i
    using ok that by (simp add: log_ok_def chunks_ok_def)
  have zc: "mcell f (lg_chunk_size l) (lg_chunks l') i = []"
    if "i div lg_chunk_size l < lg_num_chunks l'" "\<not> i div lg_chunk_size l < lg_num_chunks l" "f chunk_zero = None" for f i
    using that k by (auto simp: mcell_def nth_append)
  have "clean n (lg_chunk_size l) (lg_chunks l')"
    unfolding clean_def
  proof (intro allI impI)
    fix i
    assume i: "i div lg_chunk_size l < lg_num_chunks l'"
      and why: "n \<le> i \<or> cell lc_kinds (lg_chunk_size l) (lg_chunks l') i \<noteq> RAFT_ENTRY_CONFIG
        \<or> mcell lc_cfg_old (lg_chunk_size l) (lg_chunks l') i = []"
    show "mcell lc_cfg_old (lg_chunk_size l) (lg_chunks l') i = [] \<and> mcell lc_cfg_new (lg_chunk_size l) (lg_chunks l') i = []
        \<and> mcell lc_cfg_learners (lg_chunk_size l) (lg_chunks l') i = []"
    proof (cases "i div lg_chunk_size l < lg_num_chunks l")
      case True
      have c: "clean n (lg_chunk_size l) (lg_chunks l)" using ok by (auto simp: log_ok_def intro: chunks_ok_clean)
      show ?thesis using cleanD[OF c True] why by (simp only: k mcell_append[OF True] cell_append[OF True])
    next
      case False
      then show ?thesis using zc[OF i False] by (simp add: chunk_zero_def)
    qed
  qed
  moreover have rows: "rows_agree n (lg_chunk_size l) (lg_chunks l) (lg_chunks l')"
    using old k by (simp add: rows_agree_def cell_append mcell_append)
  moreover have "\<forall>i<n. i div lg_chunk_size l < lg_num_chunks l' \<and> lc_terms (lg_chunks l' ! (i div lg_chunk_size l)) \<noteq> None"
    using old k chunks_ok_alloc[of n D _ "lg_chunks l"] ok by (simp add: log_ok_def nth_append trans_less_add1)
  moreover have "\<forall>c\<in>set (lg_chunks l'). chunk_wf (lg_chunk_size l) c"
    using ok k by (auto simp: log_ok_def chunks_ok_def)
  ultimately have "chunks_ok n D (lg_chunk_size l) (lg_chunks l')"
    using chunks_ok_rows[OF conjunct2[OF conjunct2[OF log_okD[OF ok]]]] by blast
  with rows show ?thesis using shape ok k
    by (auto simp: log_keep_def log_ok_def same_head_def)
qed

text \<open>
  Replacing chunk \<open>ci\<close> by one that agrees on the live rows and keeps the free mask slots
  empty is harmless.
\<close>

lemma replace_keep:
  assumes ok: "log_ok n D l" and ci: "ci < lg_num_chunks l" and c: "chunk_wf (lg_chunk_size l) c"
    and same: "\<And>i. i < n \<Longrightarrow> i div lg_chunk_size l = ci \<Longrightarrow>
       lc_terms c \<noteq> None \<and> the (lc_terms c) ! (i mod lg_chunk_size l) = cell lc_terms (lg_chunk_size l) (lg_chunks l) i
       \<and> the (lc_kinds c) ! (i mod lg_chunk_size l) = cell lc_kinds (lg_chunk_size l) (lg_chunks l) i
       \<and> the (lc_data_offsets c) ! (i mod lg_chunk_size l) = cell lc_data_offsets (lg_chunk_size l) (lg_chunks l) i"
    and mask: "\<And>i f. f \<in> {lc_cfg_old, lc_cfg_new, lc_cfg_learners} \<Longrightarrow> i div lg_chunk_size l = ci \<Longrightarrow>
       (case f c of None \<Rightarrow> [] | Some xs \<Rightarrow> xs ! (i mod lg_chunk_size l)) = mcell f (lg_chunk_size l) (lg_chunks l) i"
  shows "log_keep n D l (set_chunk l ci c)"
proof -
  let ?sz = "lg_chunk_size l" and ?cs = "lg_chunks l" and ?ds = "(lg_chunks l)[ci := c]"
  have m: "mcell f ?sz ?ds i = mcell f ?sz ?cs i" if "f \<in> {lc_cfg_old, lc_cfg_new, lc_cfg_learners}" for f i
    using mask[OF that, of i] ci by (auto simp: mcell_update)
  have rows: "rows_agree n ?sz ?cs ?ds"
    using same m ci by (auto simp: rows_agree_def cell_update)
  have cln: "clean n ?sz ?cs" using ok by (auto simp: log_ok_def intro: chunks_ok_clean)
  have "clean n ?sz ?ds"
    unfolding clean_def
  proof (intro allI impI)
    fix i
    assume i: "i div ?sz < length ?ds"
      and why: "n \<le> i \<or> cell lc_kinds ?sz ?ds i \<noteq> RAFT_ENTRY_CONFIG \<or> mcell lc_cfg_old ?sz ?ds i = []"
    have "n \<le> i \<or> cell lc_kinds ?sz ?cs i \<noteq> RAFT_ENTRY_CONFIG \<or> mcell lc_cfg_old ?sz ?cs i = []"
      using why m rows by (cases "n \<le> i") (auto simp: rows_agree_def)
    then show "mcell lc_cfg_old ?sz ?ds i = [] \<and> mcell lc_cfg_new ?sz ?ds i = [] \<and> mcell lc_cfg_learners ?sz ?ds i = []"
      using cleanD[OF cln, of i] i m by simp
  qed
  moreover have "\<forall>i<n. i div ?sz < length ?ds \<and> lc_terms (?ds ! (i div ?sz)) \<noteq> None"
    using ok same ci by (auto simp: log_ok_def chunks_ok_def nth_list_update)
  moreover have "\<forall>x\<in>set ?ds. chunk_wf ?sz x"
    using ok c set_update_subset_insert[of ?cs ci c] by (auto simp: log_ok_def chunks_ok_def)
  ultimately have "chunks_ok n D ?sz ?ds" using chunks_ok_rows[OF conjunct2[OF conjunct2[OF log_okD[OF ok]]] rows] by blast
  then show ?thesis using ok rows
    by (simp add: log_keep_def log_ok_def set_chunk_def same_head_def geometry_def)
qed

lemma set_chunk_simps [simp]:
  "lg_data (set_chunk l ci c) = lg_data l" "lg_chunk_size (set_chunk l ci c) = lg_chunk_size l"
  "lg_chunks (set_chunk l ci c) = (lg_chunks l)[ci := c]" "lg_count (set_chunk l ci c) = lg_count l"
  "lg_last_included_index (set_chunk l ci c) = lg_last_included_index l"
  "lg_last_included_term (set_chunk l ci c) = lg_last_included_term l"
  "lg_chunk_bits (set_chunk l ci c) = lg_chunk_bits l" "lg_chunk_mask (set_chunk l ci c) = lg_chunk_mask l"
  by (simp_all add: set_chunk_def)

lemma log_ok_chunk: "log_ok n D l \<Longrightarrow> ci < lg_num_chunks l \<Longrightarrow> chunk_wf (lg_chunk_size l) (lg_chunks l ! ci)"
  by (simp add: log_ok_def chunks_ok_def)

lemma alloc_keep:
  assumes ok: "log_ok n D l" and ci: "ci < lg_num_chunks l"
    and e: "raft_log_alloc_chunk s l ci = (b, s', l')"
  shows "log_keep n D l l' \<and> lg_data l' = lg_data l \<and> lg_num_chunks l' = lg_num_chunks l
    \<and> (b \<longrightarrow> lc_terms (lg_chunks l' ! ci) \<noteq> None)
    \<and> (\<forall>cj. lc_terms (lg_chunks l ! cj) \<noteq> None \<longrightarrow> lc_terms (lg_chunks l' ! cj) \<noteq> None)"
proof (cases "lc_terms (lg_chunks l ! ci) = None")
  case False
  then show ?thesis using e ok by (auto simp: raft_log_alloc_chunk_def log_keep_refl)
next
  case True
  let ?c = "lg_chunks l ! ci" and ?sz = "lg_chunk_size l"
  obtain c where c: "l' = set_chunk l ci c" "chunk_wf ?sz c" "lc_cfg_old c = lc_cfg_old ?c"
      "lc_cfg_new c = lc_cfg_new ?c" "lc_cfg_learners c = lc_cfg_learners ?c" "b \<longrightarrow> lc_terms c \<noteq> None"
    using e True log_ok_chunk[OF ok ci]
    by (auto simp: raft_log_alloc_chunk_def Let_def set_chunk_def chunk_wf_def arr_ok_def
        split: if_splits prod.splits)
  have "log_keep n D l (set_chunk l ci c)"
  proof (rule replace_keep[OF ok ci c(2)])
    fix i assume "i < n" "i div ?sz = ci"
    then have False using ok True by (auto simp: log_ok_def chunks_ok_def)
    then show "lc_terms c \<noteq> None \<and> the (lc_terms c) ! (i mod ?sz) = cell lc_terms ?sz (lg_chunks l) i
       \<and> the (lc_kinds c) ! (i mod ?sz) = cell lc_kinds ?sz (lg_chunks l) i
       \<and> the (lc_data_offsets c) ! (i mod ?sz) = cell lc_data_offsets ?sz (lg_chunks l) i" ..
  qed (use c in \<open>auto simp: mcell_def split: option.splits\<close>)
  then show ?thesis using c ci True by (auto simp: nth_list_update)
qed

lemma reserve_shape:
  "raft_log_reserve_data s l k = (b, s', l') \<Longrightarrow> \<exists>c. l' = l\<lparr>lg_data_capacity := c\<rparr>"
  by (auto simp: raft_log_reserve_data_def Let_def split: if_splits prod.splits
      intro: exI[of _ "lg_data_capacity l"])

subsection \<open>Append\<close>

text \<open>The entry an append adds: masks are kept only for a configuration entry with an old set.\<close>

definition mk_entry :: "int \<Rightarrow> u8 \<Rightarrow> bytes \<Rightarrow> raft_mask \<Rightarrow> raft_mask \<Rightarrow> raft_mask \<Rightarrow> raft_entry" where
  "mk_entry t k d co cn cl =
    (let m = (k = RAFT_ENTRY_CONFIG \<and> co \<noteq> []) in
     \<lparr> en_term = t, en_kind = k, en_data = d, en_cfg_old = (if m then co else []),
       en_cfg_new = (if m then cn else []), en_cfg_learners = (if m then cl else []) \<rparr>)"

lemma clean_Suc: "clean n sz cs \<Longrightarrow> clean (Suc n) sz cs"
  unfolding clean_def by (meson Suc_leD not_less_eq_eq)

lemma chunks_ok_Suc:
  assumes ok: "chunks_ok n D sz cs" and rows: "rows_agree n sz cs ds" and wf: "\<forall>c\<in>set ds. chunk_wf sz c"
    and al: "\<forall>i<Suc n. i div sz < length ds \<and> lc_terms (ds ! (i div sz)) \<noteq> None"
    and cl: "clean (Suc n) sz ds" and off: "cell lc_data_offsets sz ds n = D" "D \<le> D'"
  shows "chunks_ok (Suc n) D' sz ds"
proof -
  have eq: "cell lc_data_offsets sz ds j = cell lc_data_offsets sz cs j" if "j < n" for j
    using rows that by (simp add: rows_agree_def)
  have "cell lc_data_offsets sz ds i \<le> (if i + 1 < Suc n then cell lc_data_offsets sz ds (i + 1) else D')"
    if i: "i < Suc n" for i
  proof (cases "i < n")
    case True
    then consider "i + 1 < n" | "i + 1 = n" by linarith
    then show ?thesis using chunks_ok_step[OF ok True] eq[OF True] eq[of "i + 1"] off by cases auto
  next
    case False
    then show ?thesis using i off by (simp add: less_Suc_eq)
  qed
  then show ?thesis using wf al cl unfolding chunks_ok_def by blast
qed

lemma mod_slot_neq: "i div sz = n div sz \<Longrightarrow> i \<noteq> n \<Longrightarrow> i mod sz \<noteq> n mod (sz::nat)"
  by (metis div_mult_mod_eq)

lemma put_entry_simps [simp]:
  "lc_cfg_old (put_entry c k t kd off) = lc_cfg_old c" "lc_cfg_new (put_entry c k t kd off) = lc_cfg_new c"
  "lc_cfg_learners (put_entry c k t kd off) = lc_cfg_learners c"
  by (simp_all add: put_entry_def)

lemma put_keep:
  assumes ok: "log_ok n D l" and ci: "n div lg_chunk_size l < lg_num_chunks l"
    and al: "lc_terms (lg_chunks l ! (n div lg_chunk_size l)) \<noteq> None"
    and l': "l' = set_chunk l (n div lg_chunk_size l)
        (put_entry (lg_chunks l ! (n div lg_chunk_size l)) (n mod lg_chunk_size l) t k off)"
  shows "log_keep n D l l' \<and> cell lc_terms (lg_chunk_size l) (lg_chunks l') n = t
    \<and> cell lc_kinds (lg_chunk_size l) (lg_chunks l') n = k
    \<and> cell lc_data_offsets (lg_chunk_size l) (lg_chunks l') n = off
    \<and> (\<forall>cj. lc_terms (lg_chunks l ! cj) \<noteq> None \<longrightarrow> lc_terms (lg_chunks l' ! cj) \<noteq> None)
    \<and> lg_num_chunks l' = lg_num_chunks l"
proof -
  let ?sz = "lg_chunk_size l" and ?c = "lg_chunks l ! (n div lg_chunk_size l)"
  have pos: "?sz > 0" using log_okD[OF ok] geometry_pos by blast
  obtain ts ks os where arr: "lc_terms ?c = Some ts" "lc_kinds ?c = Some ks" "lc_data_offsets ?c = Some os"
      "length ts = ?sz" "length ks = ?sz" "length os = ?sz"
    using log_ok_chunk[OF ok ci] al by (auto simp: chunk_wf_def arr_ok_def)
  let ?c' = "put_entry ?c (n mod ?sz) t k off"
  have wf: "chunk_wf ?sz ?c'"
    using log_ok_chunk[OF ok ci] by (auto simp: chunk_wf_def put_entry_def arr_ok_def)
  have "log_keep n D l (set_chunk l (n div ?sz) ?c')"
  proof (rule replace_keep[OF ok ci wf])
    fix i assume i: "i < n" "i div ?sz = n div ?sz"
    then have "i mod ?sz \<noteq> n mod ?sz" using mod_slot_neq[of i ?sz n] by simp
    then show "lc_terms ?c' \<noteq> None \<and> the (lc_terms ?c') ! (i mod ?sz) = cell lc_terms ?sz (lg_chunks l) i
       \<and> the (lc_kinds ?c') ! (i mod ?sz) = cell lc_kinds ?sz (lg_chunks l) i
       \<and> the (lc_data_offsets ?c') ! (i mod ?sz) = cell lc_data_offsets ?sz (lg_chunks l) i"
      using arr i by (simp add: put_entry_def cell_def)
  qed (auto simp: mcell_def)
  moreover have "n mod ?sz < ?sz" using pos by simp
  ultimately show ?thesis using arr ci l' by (auto simp: cell_update put_entry_def nth_list_update)
qed

lemma cfg_arrays_keep:
  assumes ok: "log_ok n D l" and ci: "ci < lg_num_chunks l" and e: "log_cfg_arrays s l ci = (b, s', l')"
  shows "log_keep n D l l' \<and> lg_data l' = lg_data l \<and> lg_num_chunks l' = lg_num_chunks l
    \<and> (b \<longrightarrow> lc_cfg_old (lg_chunks l' ! ci) \<noteq> None)
    \<and> (\<forall>cj. lc_terms (lg_chunks l' ! cj) = lc_terms (lg_chunks l ! cj)
         \<and> lc_kinds (lg_chunks l' ! cj) = lc_kinds (lg_chunks l ! cj)
         \<and> lc_data_offsets (lg_chunks l' ! cj) = lc_data_offsets (lg_chunks l ! cj))"
proof (cases "lc_cfg_old (lg_chunks l ! ci) = None")
  case False
  then show ?thesis using e ok by (auto simp: log_cfg_arrays_def Let_def log_keep_refl)
next
  case True
  let ?c = "lg_chunks l ! ci" and ?sz = "lg_chunk_size l"
  have pos: "?sz > 0" using log_okD[OF ok] geometry_pos by blast
  have none: "lc_cfg_new ?c = None" "lc_cfg_learners ?c = None"
    using log_ok_chunk[OF ok ci] True by (auto simp: chunk_wf_def)
  obtain c where c: "l' = set_chunk l ci c" "lc_terms c = lc_terms ?c" "lc_kinds c = lc_kinds ?c"
      "lc_data_offsets c = lc_data_offsets ?c" "b \<longrightarrow> lc_cfg_old c \<noteq> None"
      "\<forall>f\<in>{lc_cfg_old, lc_cfg_new, lc_cfg_learners}. f c = None \<or> f c = Some (replicate ?sz [])"
      "lc_cfg_new c = lc_cfg_old c" "lc_cfg_learners c = lc_cfg_old c"
    using e True by (auto simp: log_cfg_arrays_def Let_def split: if_splits prod.splits)
  have wf: "chunk_wf ?sz c"
    using log_ok_chunk[OF ok ci] c(2-8) by (auto simp: chunk_wf_def arr_ok_def)
  have "log_keep n D l (set_chunk l ci c)"
  proof (rule replace_keep[OF ok ci wf])
    fix i assume "i < n" "i div ?sz = ci"
    then show "lc_terms c \<noteq> None \<and> the (lc_terms c) ! (i mod ?sz) = cell lc_terms ?sz (lg_chunks l) i
       \<and> the (lc_kinds c) ! (i mod ?sz) = cell lc_kinds ?sz (lg_chunks l) i
       \<and> the (lc_data_offsets c) ! (i mod ?sz) = cell lc_data_offsets ?sz (lg_chunks l) i"
      using chunks_ok_alloc[of n D ?sz "lg_chunks l" i] log_okD[OF ok] c by (auto simp: cell_def)
  next
    fix i and f :: "raft_log_chunk \<Rightarrow> raft_mask list option"
    assume f: "f \<in> {lc_cfg_old, lc_cfg_new, lc_cfg_learners}" and i: "i div ?sz = ci"
    then have "mcell f ?sz (lg_chunks l) i = []" using True none by (auto simp: mcell_def)
    then show "(case f c of None \<Rightarrow> [] | Some xs \<Rightarrow> xs ! (i mod ?sz)) = mcell f ?sz (lg_chunks l) i"
      using c(6) f pos by (auto split: option.splits)
  qed
  then show ?thesis using c ci by (auto simp: nth_list_update)
qed

lemma put_cfg_simps [simp]:
  "lc_terms (put_cfg c k a b) = lc_terms c" "lc_kinds (put_cfg c k a b) = lc_kinds c"
  "lc_data_offsets (put_cfg c k a b) = lc_data_offsets c" "lc_cfg_learners (put_cfg c k a b) = lc_cfg_learners c"
  "lc_terms (put_learners c k a) = lc_terms c" "lc_kinds (put_learners c k a) = lc_kinds c"
  "lc_data_offsets (put_learners c k a) = lc_data_offsets c" "lc_cfg_old (put_learners c k a) = lc_cfg_old c"
  "lc_cfg_new (put_learners c k a) = lc_cfg_new c"
  by (simp_all add: put_cfg_def put_learners_def)

text \<open>Writing the masks of slot \<open>n\<close> touches that slot only.\<close>

definition masks_put :: "nat \<Rightarrow> raft_log \<Rightarrow> raft_log \<Rightarrow> raft_mask \<Rightarrow> raft_mask \<Rightarrow> raft_mask \<Rightarrow> bool" where
  "masks_put n l l' co cn cl \<longleftrightarrow> same_head l l' \<and> lg_num_chunks l' = lg_num_chunks l \<and> lg_data l' = lg_data l
     \<and> (\<forall>c\<in>set (lg_chunks l'). chunk_wf (lg_chunk_size l) c)
     \<and> (\<forall>cj. lc_terms (lg_chunks l' ! cj) = lc_terms (lg_chunks l ! cj)
         \<and> lc_kinds (lg_chunks l' ! cj) = lc_kinds (lg_chunks l ! cj)
         \<and> lc_data_offsets (lg_chunks l' ! cj) = lc_data_offsets (lg_chunks l ! cj))
     \<and> (\<forall>f\<in>{lc_cfg_old, lc_cfg_new, lc_cfg_learners}. \<forall>i. i \<noteq> n \<longrightarrow>
          mcell f (lg_chunk_size l) (lg_chunks l') i = mcell f (lg_chunk_size l) (lg_chunks l) i)
     \<and> mcell lc_cfg_old (lg_chunk_size l) (lg_chunks l') n = co
     \<and> mcell lc_cfg_new (lg_chunk_size l) (lg_chunks l') n = cn
     \<and> mcell lc_cfg_learners (lg_chunk_size l) (lg_chunks l') n = cl"

lemma masks_put_chunk:
  assumes ok: "log_ok n D l" and ci: "n div lg_chunk_size l < lg_num_chunks l"
    and al: "lc_cfg_old (lg_chunks l ! (n div lg_chunk_size l)) \<noteq> None"
    and c: "c = put_learners (put_cfg (lg_chunks l ! (n div lg_chunk_size l)) (n mod lg_chunk_size l) co cn) (n mod lg_chunk_size l) cl"
  shows "masks_put n l (set_chunk l (n div lg_chunk_size l) c) co cn cl"
proof -
  let ?sz = "lg_chunk_size l" and ?c = "lg_chunks l ! (n div lg_chunk_size l)"
  have pos: "?sz > 0" using log_okD[OF ok] geometry_pos by blast
  obtain xs ys zs where arr: "lc_cfg_old ?c = Some xs" "lc_cfg_new ?c = Some ys" "lc_cfg_learners ?c = Some zs"
      "length xs = ?sz" "length ys = ?sz" "length zs = ?sz"
    using log_ok_chunk[OF ok ci] al by (auto simp: chunk_wf_def arr_ok_def)
  have wf: "chunk_wf ?sz c"
    using log_ok_chunk[OF ok ci] arr c by (auto simp: chunk_wf_def arr_ok_def put_cfg_def put_learners_def)
  have "\<forall>x\<in>set ((lg_chunks l)[n div ?sz := c]). chunk_wf ?sz x"
    using log_okD[OF ok] wf set_update_subset_insert[of "lg_chunks l" "n div ?sz" c] by (auto simp: chunks_ok_def)
  moreover have "n mod ?sz < ?sz" using pos by simp
  moreover have "mcell f ?sz ((lg_chunks l)[n div ?sz := c]) i = mcell f ?sz (lg_chunks l) i"
    if "i \<noteq> n" "f \<in> {lc_cfg_old, lc_cfg_new, lc_cfg_learners}" for i and f :: "raft_log_chunk \<Rightarrow> raft_mask list option"
  proof (cases "i div ?sz = n div ?sz")
    case True
    then have "i mod ?sz \<noteq> n mod ?sz" using mod_slot_neq that by metis
    then show ?thesis using that(2) arr ci c True
      by (auto simp: mcell_update mcell_def put_cfg_def put_learners_def)
  qed (simp add: mcell_update ci)
  ultimately show ?thesis using arr ci c
    by (auto simp: masks_put_def same_head_def mcell_update nth_list_update put_cfg_def put_learners_def)
qed

lemma masks_put_same_cell: "masks_put n l l' co cn cl \<Longrightarrow>
    cell lc_terms (lg_chunk_size l) (lg_chunks l') i = cell lc_terms (lg_chunk_size l) (lg_chunks l) i
    \<and> cell lc_kinds (lg_chunk_size l) (lg_chunks l') i = cell lc_kinds (lg_chunk_size l) (lg_chunks l) i
    \<and> cell lc_data_offsets (lg_chunk_size l) (lg_chunks l') i = cell lc_data_offsets (lg_chunk_size l) (lg_chunks l) i"
  by (simp add: masks_put_def cell_def)

lemma masks_put_rows: "masks_put n l l' co cn cl \<Longrightarrow> rows_agree n (lg_chunk_size l) (lg_chunks l) (lg_chunks l')"
  using masks_put_same_cell[of n l l' co cn cl] by (auto simp: rows_agree_def masks_put_def)

lemma masks_put_empty_keep:
  assumes "log_ok n D l" "masks_put n l l' [] [] []"
  shows "log_keep n D l l'"
proof -
  let ?sz = "lg_chunk_size l"
  have len: "lg_num_chunks l' = lg_num_chunks l" using assms(2) by (simp add: masks_put_def)
  have "clean n ?sz (lg_chunks l')"
    unfolding clean_def
  proof (intro allI impI)
    fix i
    assume "i div ?sz < lg_num_chunks l'"
      "n \<le> i \<or> cell lc_kinds ?sz (lg_chunks l') i \<noteq> RAFT_ENTRY_CONFIG \<or> mcell lc_cfg_old ?sz (lg_chunks l') i = []"
    then show "mcell lc_cfg_old ?sz (lg_chunks l') i = [] \<and> mcell lc_cfg_new ?sz (lg_chunks l') i = []
        \<and> mcell lc_cfg_learners ?sz (lg_chunks l') i = []"
      using cleanD[of n ?sz "lg_chunks l" i] chunks_ok_clean[of n D ?sz "lg_chunks l"] log_okD[OF assms(1)]
        masks_put_same_cell[OF assms(2), of i] assms(2) len
      by (cases "i = n") (auto simp: masks_put_def)
  qed
  moreover have "\<forall>i<n. i div ?sz < lg_num_chunks l' \<and> lc_terms (lg_chunks l' ! (i div ?sz)) \<noteq> None"
    using chunks_ok_alloc[of n D ?sz "lg_chunks l"] log_okD[OF assms(1)] assms(2) by (simp add: masks_put_def)
  moreover have "\<forall>c\<in>set (lg_chunks l'). chunk_wf ?sz c" using assms(2) by (simp add: masks_put_def)
  ultimately have "chunks_ok n D ?sz (lg_chunks l')"
    using chunks_ok_rows[OF conjunct2[OF conjunct2[OF log_okD[OF assms(1)]]] masks_put_rows[OF assms(2)]] by blast
  then show ?thesis using assms masks_put_rows[OF assms(2)]
    by (auto simp: log_keep_def log_ok_def masks_put_def same_head_def geometry_def)
qed

lemma put_learners_same: "lc_cfg_learners c = Some zs \<Longrightarrow> zs ! k = cl \<Longrightarrow> put_learners c k cl = c"
  by (auto simp: put_learners_def)

lemma undo_keep: "log_keep n D l l' \<Longrightarrow> lg_data l' = lg_data l \<Longrightarrow> log_keep n D l (l'\<lparr>lg_data := take D (lg_data l')\<rparr>)"
  by (auto simp: log_keep_def log_ok_def same_head_def geometry_def)

lemma store_cfg_law:
  assumes ok: "log_ok n D l" and ci: "n div lg_chunk_size l < lg_num_chunks l"
    and e: "log_store_cfg s l (n div lg_chunk_size l) (n mod lg_chunk_size l) D co cn cl = (b, s', l')"
  shows "(b \<longrightarrow> (\<exists>l1. log_keep n D l l1 \<and> lg_data l1 = lg_data l \<and> lg_num_chunks l1 = lg_num_chunks l
        \<and> (\<forall>cj. lc_terms (lg_chunks l1 ! cj) = lc_terms (lg_chunks l ! cj)
             \<and> lc_kinds (lg_chunks l1 ! cj) = lc_kinds (lg_chunks l ! cj)
             \<and> lc_data_offsets (lg_chunks l1 ! cj) = lc_data_offsets (lg_chunks l ! cj))
        \<and> masks_put n l1 l' co cn cl))
    \<and> (\<not> b \<longrightarrow> log_keep n D l l' \<and> lg_data l' = take D (lg_data l))"
proof -
  let ?sz = "lg_chunk_size l" and ?ci = "n div lg_chunk_size l" and ?mi = "n mod lg_chunk_size l"
  obtain b1 s1 l1 where a: "log_cfg_arrays s l ?ci = (b1, s1, l1)" by (cases "log_cfg_arrays s l ?ci")
  note k = cfg_arrays_keep[OF ok ci a]
  have ok1: "log_ok n D l1" and sz1: "lg_chunk_size l1 = ?sz" and n1: "lg_num_chunks l1 = lg_num_chunks l"
    and d1: "lg_data l1 = lg_data l" and k1: "log_keep n D l l1"
    using k by (auto simp: log_keep_def same_head_def)
  have ci1: "n div lg_chunk_size l1 < lg_num_chunks l1" using ci sz1 n1 by simp
  have undo1: "log_keep n D l (l1\<lparr>lg_data := take D (lg_data l1)\<rparr>)" using undo_keep[OF k1 d1] .
  show ?thesis
  proof (cases b1)
    case False
    then show ?thesis using e a undo1 d1 by (auto simp: log_store_cfg_def)
  next
    case True
    define c where "c = lg_chunks l1 ! ?ci"
    have al: "lc_cfg_old c \<noteq> None" using k True by (simp add: c_def)
    have put: "masks_put n l1 (set_chunk l1 ?ci (put_learners (put_cfg c ?mi x y) ?mi z)) x y z" for x y z
      using masks_put_chunk[OF ok1 ci1] al sz1 by (simp add: c_def)
    obtain zs where zs: "lc_cfg_learners c = Some zs"
      using log_ok_chunk[OF ok1 ci1] al sz1 by (auto simp: chunk_wf_def c_def)
    have "mcell lc_cfg_learners ?sz (lg_chunks l1) n = []"
      using cleanD[of n ?sz "lg_chunks l1" n] chunks_ok_clean log_okD[OF ok1] sz1 ci1 by auto
    then have zn: "zs ! ?mi = []" using zs by (simp add: mcell_def c_def)
    have last: "(lg_chunks l1)[?ci := x] ! ?ci = x" for x using ci1 sz1 by simp
    have keep0: "log_keep n D l (set_chunk l1 ?ci (put_learners (put_cfg c ?mi [] []) ?mi []))"
      using log_keep_trans[OF k1 masks_put_empty_keep[OF ok1 put]] .
    have twice: "set_chunk (set_chunk l1 ?ci x) ?ci y = set_chunk l1 ?ci y" for x y
      by (simp add: set_chunk_def)
    have over: "put_cfg (put_cfg c ?mi co cn) ?mi [] [] = put_cfg c ?mi [] []"
      by (simp add: put_cfg_def option.map_comp comp_def)
    obtain ok2 s2 where d2: "mask_dup s1 co = (ok2, s2)" by (cases "mask_dup s1 co")
    obtain ok3 s3 where d3: "mask_dup s2 cn = (ok3, s3)" by (cases "mask_dup s2 cn")
    obtain ok4 s4 where d4: "alloc s3 = (ok4, s4)" by (cases "alloc s3")
    let ?bad = "l1\<lparr>lg_data := take D (lg_data l1)\<rparr>"
    let ?zero = "(set_chunk l1 ?ci (put_learners (put_cfg c ?mi [] []) ?mi []))\<lparr>lg_data := take D (lg_data l1)\<rparr>"
    have e2: "(b, l') = (if \<not> ok2 then (False, ?bad) else if \<not> ok3 then (False, ?bad)
        else if cl \<noteq> [] then if \<not> ok4 then (False, ?zero)
          else (True, set_chunk l1 ?ci (put_learners (put_cfg c ?mi co cn) ?mi cl))
        else (True, set_chunk l1 ?ci (put_cfg c ?mi co cn)))"
      using e unfolding log_store_cfg_def a Let_def
      by (auto simp: True d2 d3 d4 last twice over c_def[symmetric] split: if_splits)
    have plain: "masks_put n l1 (set_chunk l1 ?ci (put_cfg c ?mi co cn)) co cn []"
      using put[of co cn "[]"] put_learners_same[of "put_cfg c ?mi co cn" zs ?mi "[]"] zs zn by simp
    show ?thesis
    proof (cases b)
      case True
      then have "masks_put n l1 l' co cn cl"
        using e2 put[of co cn cl] plain by (auto split: if_splits)
      then show ?thesis using True k1 d1 n1 k by auto
    next
      case False
      have "log_keep n D l ((set_chunk l1 ?ci (put_learners (put_cfg c ?mi [] []) ?mi []))\<lparr>lg_data := take D (lg_data l1)\<rparr>)"
        using undo_keep[OF keep0] d1 by simp
      then show ?thesis using False e2 undo1 d1 by (auto split: if_splits)
    qed
  qed
qed

text \<open>The steps of an append before the masks: the slot is written and the bytes are in place.\<close>

lemma keep_wf: "log_keep (lg_count l) (lg_data_size l) l l' \<Longrightarrow> lg_data_size l' = lg_data_size l \<Longrightarrow> log_wf l
    \<Longrightarrow> log_wf l' \<and> log_entries l' = log_entries l"
  using log_keep_ents[of "lg_count l" "lg_data_size l" l l']
  by (auto simp: log_wf_def log_entries_def log_keep_def same_head_def)

lemma extend_wf:
  assumes ok: "log_ok n D l" and rows: "rows_agree n (lg_chunk_size l) (lg_chunks l) (lg_chunks l')"
    and head: "lg_chunk_size l' = lg_chunk_size l" "geometry l'" "lg_count l' = Suc n"
    and pre: "take D (lg_data l') = take D (lg_data l)" "D \<le> lg_data_size l'"
    and wf: "\<forall>c\<in>set (lg_chunks l'). chunk_wf (lg_chunk_size l) c"
    and al: "\<forall>i<Suc n. i div lg_chunk_size l < lg_num_chunks l' \<and> lc_terms (lg_chunks l' ! (i div lg_chunk_size l)) \<noteq> None"
    and cl: "clean (Suc n) (lg_chunk_size l) (lg_chunks l')"
    and off: "cell lc_data_offsets (lg_chunk_size l) (lg_chunks l') n = D"
  shows "log_wf l' \<and> log_entries l' = ents n D l @ [entry_of (Suc n) (lg_data_size l') l' n]"
proof -
  have okc: "chunks_ok n D (lg_chunk_size l) (lg_chunks l)" using log_okD[OF ok] by blast
  have "chunks_ok (Suc n) (lg_data_size l') (lg_chunk_size l) (lg_chunks l')"
    using chunks_ok_Suc[OF okc rows wf al cl off pre(2)] .
  then have w: "log_wf l'" using head by (simp add: log_wf_def log_ok_def)
  have "ents n D l' = ents n D l"
    by (rule ents_cong[OF okc]) (use head rows pre in auto)
  then show ?thesis using w ents_Suc[of l' n D "lg_data_size l'"] off head by (simp add: log_entries_def)
qed

lemma entry_of_last:
  assumes "cell lc_data_offsets (lg_chunk_size l) (lg_chunks l) n = D" "lg_data l = ds @ d" "length ds = D"
    "cell lc_terms (lg_chunk_size l) (lg_chunks l) n = t" "cell lc_kinds (lg_chunk_size l) (lg_chunks l) n = k"
    "mcell lc_cfg_old (lg_chunk_size l) (lg_chunks l) n = co" "mcell lc_cfg_new (lg_chunk_size l) (lg_chunks l) n = cn"
    "mcell lc_cfg_learners (lg_chunk_size l) (lg_chunks l) n = cl"
  shows "entry_of (Suc n) (lg_data_size l) l n
    = \<lparr> en_term = t, en_kind = k, en_data = d, en_cfg_old = co, en_cfg_new = cn, en_cfg_learners = cl \<rparr>"
  using assms by (simp add: entry_of_def Let_def)

text \<open>The slot is allocated and written, and the bytes of the entry are at the end of the buffer.\<close>

definition staged :: "raft_log \<Rightarrow> int \<Rightarrow> u8 \<Rightarrow> bytes \<Rightarrow> raft_log \<Rightarrow> bool" where
  "staged l t k d l' \<longleftrightarrow> log_keep (lg_count l) (lg_data_size l) l l' \<and> lg_data l' = lg_data l @ d
     \<and> lg_count l div lg_chunk_size l < lg_num_chunks l'
     \<and> lc_terms (lg_chunks l' ! (lg_count l div lg_chunk_size l)) \<noteq> None
     \<and> cell lc_terms (lg_chunk_size l) (lg_chunks l') (lg_count l) = t
     \<and> cell lc_kinds (lg_chunk_size l) (lg_chunks l') (lg_count l) = k
     \<and> cell lc_data_offsets (lg_chunk_size l) (lg_chunks l') (lg_count l) = lg_data_size l"

lemma staged_alloc: "staged l t k d l' \<Longrightarrow> i < Suc (lg_count l) \<Longrightarrow>
    i div lg_chunk_size l < lg_num_chunks l' \<and> lc_terms (lg_chunks l' ! (i div lg_chunk_size l)) \<noteq> None"
  using chunks_ok_alloc[of "lg_count l" "lg_data_size l" "lg_chunk_size l" "lg_chunks l'" i]
  by (cases "i = lg_count l") (auto simp: staged_def log_keep_def log_ok_def same_head_def)

lemma staged_plain:
  assumes wf: "log_wf l" and st: "staged l t k d l'"
  shows "log_wf (l'\<lparr>lg_count := lg_count l' + 1\<rparr>)
    \<and> log_entries (l'\<lparr>lg_count := lg_count l' + 1\<rparr>) = log_entries l @ [mk_entry t k d [] [] []]"
proof -
  let ?n = "lg_count l" and ?D = "lg_data_size l" and ?sz = "lg_chunk_size l" and ?f = "l'\<lparr>lg_count := lg_count l' + 1\<rparr>"
  have ok: "log_ok ?n ?D l" using wf by (simp add: log_wf_def)
  have ok': "log_ok ?n ?D l'" and sz: "lg_chunk_size l' = ?sz" and cnt: "lg_count l' = ?n"
    and rows: "rows_agree ?n ?sz (lg_chunks l) (lg_chunks l')" and dat: "lg_data l' = lg_data l @ d"
    using st by (auto simp: staged_def log_keep_def same_head_def)
  have cl: "clean ?n ?sz (lg_chunks l')" using chunks_ok_clean log_okD[OF ok'] sz by metis
  have m: "mcell lc_cfg_old ?sz (lg_chunks l') ?n = []" "mcell lc_cfg_new ?sz (lg_chunks l') ?n = []"
      "mcell lc_cfg_learners ?sz (lg_chunks l') ?n = []"
    using cleanD[OF cl, of ?n] staged_alloc[OF st, of ?n] by auto
  have "log_wf ?f \<and> log_entries ?f = ents ?n ?D l @ [entry_of (Suc ?n) (lg_data_size ?f) ?f ?n]"
  proof (rule extend_wf[OF ok])
    show "geometry ?f" using ok' by (simp add: log_ok_def geometry_def)
    show "\<forall>c\<in>set (lg_chunks ?f). chunk_wf ?sz c" using ok' sz by (simp add: log_ok_def chunks_ok_def)
    show "\<forall>i<Suc ?n. i div ?sz < lg_num_chunks ?f \<and> lc_terms (lg_chunks ?f ! (i div ?sz)) \<noteq> None"
      using staged_alloc[OF st] by simp
    show "clean (Suc ?n) ?sz (lg_chunks ?f)" using clean_Suc[OF cl] by simp
    show "cell lc_data_offsets ?sz (lg_chunks ?f) ?n = ?D" using st by (simp add: staged_def)
  qed (use rows sz cnt dat in simp_all)
  moreover have "entry_of (Suc ?n) (lg_data_size ?f) ?f ?n = mk_entry t k d [] [] []"
    using entry_of_last[of ?f ?n ?D "lg_data l" d t k "[]" "[]" "[]"] st sz dat m
    by (simp add: staged_def mk_entry_def)
  ultimately show ?thesis by (simp add: log_entries_def)
qed

lemma staged_masks:
  assumes wf: "log_wf l" and st: "staged l t RAFT_ENTRY_CONFIG d l'" and mp: "masks_put (lg_count l) l' l'' co cn cl" and co: "co \<noteq> []"
  shows "log_wf (l''\<lparr>lg_count := lg_count l'' + 1\<rparr>)
    \<and> log_entries (l''\<lparr>lg_count := lg_count l'' + 1\<rparr>) = log_entries l @ [mk_entry t RAFT_ENTRY_CONFIG d co cn cl]"
proof -
  let ?n = "lg_count l" and ?D = "lg_data_size l" and ?sz = "lg_chunk_size l" and ?f = "l''\<lparr>lg_count := lg_count l'' + 1\<rparr>"
  have ok: "log_ok ?n ?D l" using wf by (simp add: log_wf_def)
  have ok': "log_ok ?n ?D l'" and sz: "lg_chunk_size l' = ?sz" and cnt: "lg_count l' = ?n"
    and rows: "rows_agree ?n ?sz (lg_chunks l) (lg_chunks l')" and dat: "lg_data l' = lg_data l @ d"
    using st by (auto simp: staged_def log_keep_def same_head_def)
  have mp': "lg_data l'' = lg_data l'" "lg_count l'' = ?n" "lg_chunk_size l'' = ?sz" "geometry l''"
      "lg_num_chunks l'' = lg_num_chunks l'" "\<forall>c\<in>set (lg_chunks l''). chunk_wf ?sz c"
    using mp cnt sz ok' by (auto simp: masks_put_def same_head_def log_ok_def geometry_def)
  note same = masks_put_same_cell[OF mp, unfolded sz]
  have rows2: "rows_agree ?n ?sz (lg_chunks l) (lg_chunks l'')"
    using rows_agree_trans[OF rows] masks_put_rows[OF mp] sz by simp
  have cl0: "clean ?n ?sz (lg_chunks l')" using chunks_ok_clean log_okD[OF ok'] sz by metis
  have m: "mcell lc_cfg_old ?sz (lg_chunks l'') ?n = co" "mcell lc_cfg_new ?sz (lg_chunks l'') ?n = cn"
      "mcell lc_cfg_learners ?sz (lg_chunks l'') ?n = cl"
    and others: "\<And>i f. i \<noteq> ?n \<Longrightarrow> f \<in> {lc_cfg_old, lc_cfg_new, lc_cfg_learners} \<Longrightarrow>
        mcell f ?sz (lg_chunks l'') i = mcell f ?sz (lg_chunks l') i"
    using mp sz by (auto simp: masks_put_def)
  have "clean (Suc ?n) ?sz (lg_chunks l'')"
    unfolding clean_def
  proof (intro allI impI)
    fix i
    assume i: "i div ?sz < lg_num_chunks l''"
      and why: "Suc ?n \<le> i \<or> cell lc_kinds ?sz (lg_chunks l'') i \<noteq> RAFT_ENTRY_CONFIG \<or> mcell lc_cfg_old ?sz (lg_chunks l'') i = []"
    have "i \<noteq> ?n" using why m co same[of ?n] st by (auto simp: staged_def)
    then have o: "mcell lc_cfg_old ?sz (lg_chunks l'') i = mcell lc_cfg_old ?sz (lg_chunks l') i"
        "mcell lc_cfg_new ?sz (lg_chunks l'') i = mcell lc_cfg_new ?sz (lg_chunks l') i"
        "mcell lc_cfg_learners ?sz (lg_chunks l'') i = mcell lc_cfg_learners ?sz (lg_chunks l') i"
      using others by simp_all
    then have w: "?n \<le> i \<or> cell lc_kinds ?sz (lg_chunks l') i \<noteq> RAFT_ENTRY_CONFIG \<or> mcell lc_cfg_old ?sz (lg_chunks l') i = []"
      using why same[of i] Suc_leD by metis
    have "i div ?sz < lg_num_chunks l'" using i mp'(5) by simp
    from cleanD[OF cl0 this w] show "mcell lc_cfg_old ?sz (lg_chunks l'') i = [] \<and> mcell lc_cfg_new ?sz (lg_chunks l'') i = []
        \<and> mcell lc_cfg_learners ?sz (lg_chunks l'') i = []"
      unfolding o .
  qed
  moreover have "\<forall>i<Suc ?n. i div ?sz < lg_num_chunks l'' \<and> lc_terms (lg_chunks l'' ! (i div ?sz)) \<noteq> None"
    using staged_alloc[OF st] mp by (simp add: masks_put_def)
  ultimately have "log_wf ?f \<and> log_entries ?f = ents ?n ?D l @ [entry_of (Suc ?n) (lg_data_size ?f) ?f ?n]"
    using rows2 mp' dat st same[of ?n] by (intro extend_wf[OF ok]) (simp_all add: geometry_def staged_def)
  moreover have "entry_of (Suc ?n) (lg_data_size ?f) ?f ?n = mk_entry t RAFT_ENTRY_CONFIG d co cn cl"
    using entry_of_last[of ?f ?n ?D "lg_data l" d t RAFT_ENTRY_CONFIG co cn cl] st mp' dat m same[of ?n] co
    by (simp add: staged_def mk_entry_def)
  ultimately show ?thesis by (simp add: log_entries_def)
qed

end
