(* ===== verification/Raft_Log_Refine.thy ===== *)
theory Raft_Log_Refine
  imports Raft_Log_Laws
begin

section \<open>The log operations against the entry list\<close>

text \<open>
  The laws of append, batch append, truncation and compaction over \<open>log_entries\<close>, the interface
  they give the protocol as a locale, its interpretation on the chunked log, and the refinement
  property.
\<close>

subsection \<open>Append\<close>

lemma append_off: "nat (raft_log_last_index l + 1 - lg_last_included_index l - 1) = lg_count l"
  by (simp add: raft_log_last_index_def)

lemma log_keep_head: "log_keep n D l l' \<Longrightarrow> lg_chunk_size l' = lg_chunk_size l \<and> lg_count l' = lg_count l \<and> log_ok n D l'"
  by (simp add: log_keep_def same_head_def)

lemma same_head_count: "same_head l l' \<Longrightarrow> same_head l (l'\<lparr>lg_data := x\<rparr>) \<and> same_head l (l'\<lparr>lg_data_capacity := c\<rparr>)"
  by (simp add: same_head_def)

text \<open>The allocation and slot-writing steps, from a well-formed log.\<close>

lemma slot_stage:
  assumes wf: "log_wf l"
    and e1: "raft_log_ensure_chunk s l (log_ci l (lg_count l)) = (True, s1, l1)"
    and e2: "raft_log_alloc_chunk s1 l1 (log_ci l (lg_count l)) = (True, s2, l2)"
    and l3: "l3 = set_chunk l2 (log_ci l (lg_count l))
       (put_entry (lg_chunks l2 ! log_ci l (lg_count l)) (log_co l (lg_count l)) t k (lg_data_size l2))"
  shows "staged l t k [] l3"
proof -
  let ?n = "lg_count l" and ?D = "lg_data_size l" and ?sz = "lg_chunk_size l"
  have ok: "log_ok ?n ?D l" and g: "geometry l" using wf by (auto simp: log_wf_def log_ok_def)
  have ci: "log_ci l ?n = ?n div ?sz" "log_co l ?n = ?n mod ?sz" using g by (simp_all add: log_ci_div log_co_mod)
  note k1 = ensure_keep[OF ok e1[unfolded ci]]
  have ok1: "log_ok ?n ?D l1" using k1 log_keep_head by blast
  note k2 = alloc_keep[OF ok1 _ e2[unfolded ci]]
  have sz1: "lg_chunk_size l1 = ?sz" using k1 log_keep_head by blast
  have k2': "log_keep ?n ?D l1 l2 \<and> lg_data l2 = lg_data l1 \<and> lg_num_chunks l2 = lg_num_chunks l1
      \<and> lc_terms (lg_chunks l2 ! (?n div ?sz)) \<noteq> None" using k2 k1 by simp
  have ok2: "log_ok ?n ?D l2" and sz2: "lg_chunk_size l2 = ?sz" using k2' log_keep_head sz1 by auto
  have num: "?n div lg_chunk_size l2 < lg_num_chunks l2" using k2' k1 sz2 by simp
  have D2: "lg_data l2 = lg_data l" using k2' k1 by simp
  have "lc_terms (lg_chunks l2 ! (?n div lg_chunk_size l2)) \<noteq> None" using k2' sz2 by simp
  from put_keep[OF ok2 num this] l3 sz2 ci D2
  have p: "log_keep ?n ?D l2 l3 \<and> cell lc_terms ?sz (lg_chunks l3) ?n = t \<and> cell lc_kinds ?sz (lg_chunks l3) ?n = k
      \<and> cell lc_data_offsets ?sz (lg_chunks l3) ?n = ?D \<and> lc_terms (lg_chunks l3 ! (?n div ?sz)) \<noteq> None
      \<and> lg_num_chunks l3 = lg_num_chunks l2"
    using k2' by simp
  have "log_keep ?n ?D l l3" using log_keep_trans k1 k2' p by metis
  then show ?thesis using p k2' k1 l3 D2 by (simp add: staged_def)
qed

lemma staged_data: "staged l t k [] l' \<Longrightarrow> staged l t k d (l'\<lparr>lg_data_capacity := c, lg_data := lg_data l' @ d\<rparr>)"
  by (auto simp: staged_def log_keep_def log_ok_def same_head_def geometry_def)

lemma staged_data0: "staged l t k [] l' \<Longrightarrow> staged l t k [] (l'\<lparr>lg_data_capacity := c\<rparr>)"
  by (auto simp: staged_def log_keep_def log_ok_def same_head_def geometry_def)

lemma staged_head: "staged l t k d l' \<Longrightarrow> same_head l l'"
  by (simp add: staged_def log_keep_def)

lemma staged_fail: "log_wf l \<Longrightarrow> staged l t k [] l' \<Longrightarrow> log_wf l' \<and> log_entries l' = log_entries l \<and> same_head l l'"
  using keep_wf[of l l'] by (simp add: staged_def log_keep_def)

lemma masks_put_head: "masks_put n l l' a b c \<Longrightarrow> same_head l l'"
  by (simp add: masks_put_def)

definition grown :: "raft_log \<Rightarrow> raft_entry list \<Rightarrow> raft_log \<Rightarrow> bool" where
  "grown l es l' \<longleftrightarrow> log_wf l' \<and> log_entries l' = log_entries l @ es
     \<and> lg_last_included_index l' = lg_last_included_index l \<and> lg_last_included_term l' = lg_last_included_term l
     \<and> lg_chunk_size l' = lg_chunk_size l"

lemma grown_keep: "log_wf l' \<Longrightarrow> log_entries l' = log_entries l \<Longrightarrow> same_head l l' \<Longrightarrow> grown l [] l'"
  by (simp add: grown_def same_head_def)

lemma store_cfg_grown:
  assumes wf: "log_wf l" and st: "staged l t RAFT_ENTRY_CONFIG d l1" and co: "co \<noteq> []"
    and e: "log_store_cfg s l1 (log_ci l (lg_count l)) (log_co l (lg_count l)) (lg_data_size l) co cn cl = (b, s', l2)"
  shows "(b \<longrightarrow> grown l [mk_entry t RAFT_ENTRY_CONFIG d co cn cl] (l2\<lparr>lg_count := lg_count l2 + 1\<rparr>)) \<and> (\<not> b \<longrightarrow> grown l [] l2)"
proof -
  let ?n = "lg_count l" and ?D = "lg_data_size l" and ?sz = "lg_chunk_size l"
  have g: "geometry l" using wf by (simp add: log_wf_def log_ok_def)
  have k: "log_keep ?n ?D l l1" and sz: "lg_chunk_size l1 = ?sz" and ok: "log_ok ?n ?D l1"
    using st log_keep_head by (auto simp: staged_def)
  have num: "?n div lg_chunk_size l1 < lg_num_chunks l1" using st sz by (simp add: staged_def)
  have e': "log_store_cfg s l1 (?n div lg_chunk_size l1) (?n mod lg_chunk_size l1) ?D co cn cl = (b, s', l2)"
    using e sz by (simp add: log_ci_div[OF g] log_co_mod[OF g])
  note law = store_cfg_law[OF ok num e']
  show ?thesis
  proof (intro conjI impI)
    assume b
    then obtain m where m: "log_keep ?n ?D l1 m" "lg_data m = lg_data l1" "lg_num_chunks m = lg_num_chunks l1"
        "\<forall>cj. lc_terms (lg_chunks m ! cj) = lc_terms (lg_chunks l1 ! cj)
             \<and> lc_kinds (lg_chunks m ! cj) = lc_kinds (lg_chunks l1 ! cj)
             \<and> lc_data_offsets (lg_chunks m ! cj) = lc_data_offsets (lg_chunks l1 ! cj)"
        "masks_put ?n m l2 co cn cl" using law by blast
    have st': "staged l t RAFT_ENTRY_CONFIG d m"
      using st m log_keep_trans[OF k m(1)] by (simp add: staged_def cell_def)
    have "same_head l l2" using staged_head[OF st'] masks_put_head[OF m(5)] same_head_trans by blast
    then show "grown l [mk_entry t RAFT_ENTRY_CONFIG d co cn cl] (l2\<lparr>lg_count := lg_count l2 + 1\<rparr>)"
      using staged_masks[OF wf st' m(5) co] by (simp add: grown_def same_head_def)
  next
    assume "\<not> b"
    then have f: "log_keep ?n ?D l1 l2" "lg_data l2 = take ?D (lg_data l1)" using law by auto
    have "take ?D (lg_data l1) = lg_data l" using st by (simp add: staged_def)
    with f log_keep_trans[OF k f(1)] show "grown l [] l2"
      using keep_wf[of l l2] wf grown_keep by (metis log_keep_def)
  qed
qed

lemma append_law:
  assumes wf: "log_wf l" and e: "raft_log_append s l t k d co cn cl = (b, s', l')"
  shows "grown l (if b then [mk_entry t k d co cn cl] else []) l'"
proof -
  let ?n = "lg_count l" and ?D = "lg_data_size l"
  let ?ci = "log_ci l ?n" and ?co = "log_co l ?n"
  have ok: "log_ok ?n ?D l" using wf by (simp add: log_wf_def)
  have keepg: "grown l [] x" if "log_keep ?n ?D l x" "lg_data x = lg_data l" for x
    using keep_wf[of l x] that wf grown_keep by (metis log_keep_def)
  obtain b1 s1 l1 where e1: "raft_log_ensure_chunk s l ?ci = (b1, s1, l1)" by (cases "raft_log_ensure_chunk s l ?ci")
  note k1 = ensure_keep[OF ok e1]
  show ?thesis
  proof (cases b1)
    case False
    then show ?thesis using e e1 keepg k1 unfolding raft_log_append_def Let_def append_off by simp
  next
    case True
    obtain b2 s2 l2 where e2: "raft_log_alloc_chunk s1 l1 ?ci = (b2, s2, l2)" by (cases "raft_log_alloc_chunk s1 l1 ?ci")
    have ok1: "log_ok ?n ?D l1" using k1 log_keep_head by blast
    note k2 = alloc_keep[OF ok1 _ e2]
    have ci1: "?ci < lg_num_chunks l1" using k1 True by blast
    show ?thesis
    proof (cases b2)
      case b2: False
      have "log_keep ?n ?D l l2" "lg_data l2 = lg_data l" using k1 k2[OF ci1] log_keep_trans by (metis, simp)
      then show ?thesis using e e1 e2 True b2 keepg unfolding raft_log_append_def Let_def append_off by simp
    next
      case b2: True
      define l3 where "l3 = set_chunk l2 ?ci (put_entry (lg_chunks l2 ! ?ci) ?co t k (lg_data_size l2))"
      have st3: "staged l t k [] l3"
        using slot_stage[OF wf _ _ l3_def] e1 e2 True b2 by simp
      have sz3: "lg_data_size l3 = ?D" using st3 by (simp add: staged_def)
      define r where "r = (if length d > 0 then
                 (case raft_log_reserve_data s2 l3 (length d) of
                    (False, s, l) \<Rightarrow> (False, s, l)
                  | (True, s, l) \<Rightarrow> (True, s, l\<lparr>lg_data := lg_data l @ d\<rparr>))
               else (True, s2, l3))"
      obtain b4 s4 l4 where r4: "r = (b4, s4, l4)" by (cases r)
      have st4: "if b4 then staged l t k d l4 else staged l t k [] l4"
      proof (cases "length d > 0")
        case False
        then show ?thesis using r4 st3 by (simp add: r_def)
      next
        case True
        obtain b5 s5 l5 where e5: "raft_log_reserve_data s2 l3 (length d) = (b5, s5, l5)"
          by (cases "raft_log_reserve_data s2 l3 (length d)")
        obtain c where "l5 = l3\<lparr>lg_data_capacity := c\<rparr>" using reserve_shape[OF e5] by blast
        then show ?thesis using r4 True e5 staged_data[OF st3, of d c] staged_data0[OF st3, of c]
          by (cases b5) (auto simp: r_def)
      qed
      have e': "(case r of (False, s, l) \<Rightarrow> (False, s, l)
        | (True, s, l) \<Rightarrow>
     (case (if k = RAFT_ENTRY_CONFIG \<and> raft_mask_any co
            then log_store_cfg s l ?ci ?co (lg_data_size l3) co cn cl else (True, s, l)) of
          (False, s, l) \<Rightarrow> (False, s, l)
        | (True, s, l) \<Rightarrow> (True, s, l\<lparr>lg_count := lg_count l + 1\<rparr>))) = (b, s', l')"
        using e e1 e2 True b2 unfolding raft_log_append_def Let_def r_def l3_def append_off by simp
      show ?thesis
      proof (cases b4)
        case False
        then show ?thesis using e' r4 st4 staged_fail[OF wf] grown_keep by auto
      next
        case b4: True
        show ?thesis
        proof (cases "k = RAFT_ENTRY_CONFIG \<and> co \<noteq> []")
          case False
          then have "mk_entry t k d co cn cl = mk_entry t k d [] [] []" by (auto simp: mk_entry_def)
          then show ?thesis
            using e' r4 b4 False st4 staged_plain[OF wf, of t k d l4] staged_head[of l t k d l4]
            by (auto simp: grown_def same_head_def)
        next
          case cfg: True
          obtain b6 s6 l6 where e6: "log_store_cfg s4 l4 ?ci ?co (lg_data_size l3) co cn cl = (b6, s6, l6)"
            by (cases "log_store_cfg s4 l4 ?ci ?co (lg_data_size l3) co cn cl")
          have "staged l t RAFT_ENTRY_CONFIG d l4" using st4 b4 cfg by simp
          from store_cfg_grown[OF wf this _ e6[unfolded sz3]] cfg
          show ?thesis using e' r4 b4 e6 by (cases b6) auto
        qed
      qed
    qed
  qed
qed

subsection \<open>Truncation\<close>

lemma free_chunks_take: "free_chunks ci cs = take ci cs"
proof (induction ci cs rule: free_chunks.induct)
  case (1 ci cs)
  show ?case
  proof (cases "length cs > ci")
    case True
    then have "free_chunks ci cs = take ci (butlast cs)" using 1 by (subst free_chunks.simps) simp
    also have "\<dots> = take ci cs" using True by (simp add: take_butlast)
    finally show ?thesis .
  qed (subst free_chunks.simps, simp)
qed

lemma ceil_div: "(i::nat) div sz < (n + sz - 1) div sz \<longleftrightarrow> i div sz * sz < n" if "sz > 0"
proof -
  have "i div sz < (n + sz - 1) div sz \<longleftrightarrow> Suc (i div sz) * sz \<le> n + sz - 1"
    using that by (simp add: Suc_le_eq[symmetric] less_eq_div_iff_mult_less_eq)
  also have "\<dots> \<longleftrightarrow> i div sz * sz < n" using that by auto
  finally show ?thesis .
qed

lemma below_ceil: "sz > 0 \<Longrightarrow> i < n \<Longrightarrow> i div sz < (n + sz - 1) div (sz::nat)"
  using ceil_div[of sz i n] by (meson div_times_less_eq_dividend le_less_trans)

text \<open>Past the new end, only the tail of the last kept chunk remains.\<close>

lemma past_end:
  assumes "sz > 0" "n \<le> i" "i div sz < (n + sz - 1) div (sz::nat)"
  shows "i div sz = (n + sz - 1) div sz - 1 \<and> n mod sz \<le> i mod sz \<and> n mod sz > 0"
proof -
  have a: "i div sz * sz < n" using ceil_div[OF assms(1)] assms(3) by blast
  have "n div sz \<le> i div sz" using assms(2) by (rule div_le_mono)
  moreover have "i div sz \<le> n div sz" using a assms(1) by (simp add: less_eq_div_iff_mult_less_eq)
  ultimately have q: "i div sz = n div sz" by simp
  have m: "n mod sz > 0" using a q by (metis bot_nat_0.not_eq_extremum div_mult_mod_eq add_0_right less_irrefl)
  have "(n + sz - 1) div sz = Suc (n div sz)"
  proof -
    have "n + sz - 1 = (n div sz + 1) * sz + (n mod sz - 1)"
      using m by (metis (no_types, lifting) Nat.add_diff_assoc2 Suc_eq_plus1 Suc_leI add.commute add.left_commute diff_add_assoc div_mult_mod_eq mult_Suc One_nat_def)
    moreover have "n mod sz - 1 < sz" using assms(1) by (simp add: less_imp_diff_less)
    ultimately show ?thesis using assms(1) by (simp add: div_add1_eq)
  qed
  moreover have "n mod sz \<le> i mod sz" using assms(2) q by (metis add_le_cancel_left div_mult_mod_eq)
  ultimately show ?thesis using q m by simp
qed

lemma ents_take:
  assumes "chunks_ok n D (lg_chunk_size l) (lg_chunks l)" "m < n"
    "m > 0 \<Longrightarrow> D' = cell lc_data_offsets (lg_chunk_size l) (lg_chunks l) m"
  shows "ents m D' l = take m (ents n D l)"
proof -
  have "entry_of m D' l i = entry_of n D l i" if i: "i < m" for i
  proof -
    consider "i + 1 < m" | "i + 1 = m" using i by linarith
    then show ?thesis using assms(2,3) by cases (auto simp: entry_of_def Let_def)
  qed
  then show ?thesis using assms(2) by (simp add: ents_def take_map)
qed

lemma truncate_chunks:
  assumes ok: "chunks_ok n D sz cs" and sz: "sz > 0" and m: "m < n"
    and D': "m > 0 \<Longrightarrow> D' = cell lc_data_offsets sz cs m"
    and len: "length ds = (m + sz - 1) div sz"
    and rows: "rows_agree m sz cs ds" and wf: "\<forall>c\<in>set ds. chunk_wf sz c"
    and al: "\<And>i. i < m \<Longrightarrow> lc_terms (ds ! (i div sz)) \<noteq> None"
    and tail: "\<And>i. m \<le> i \<Longrightarrow> i div sz < length ds \<Longrightarrow> mcell lc_cfg_old sz ds i = []
        \<and> mcell lc_cfg_new sz ds i = [] \<and> mcell lc_cfg_learners sz ds i = []"
  shows "chunks_ok m D' sz ds"
proof -
  have eq: "cell lc_data_offsets sz ds j = cell lc_data_offsets sz cs j" if "j < m" for j
    using rows that by (simp add: rows_agree_def)
  have "cell lc_data_offsets sz ds i \<le> (if i + 1 < m then cell lc_data_offsets sz ds (i + 1) else D')" if i: "i < m" for i
  proof -
    have "cell lc_data_offsets sz cs i \<le> cell lc_data_offsets sz cs (i + 1)"
      using chunks_ok_step[OF ok, of i] i m by simp
    moreover have "i + 1 < m \<or> i + 1 = m" using i by linarith
    ultimately show ?thesis using eq[OF i] eq[of "i + 1"] D' i by auto
  qed
  moreover have "clean m sz ds"
    unfolding clean_def
  proof (intro allI impI)
    fix i
    assume i: "i div sz < length ds"
      and why: "m \<le> i \<or> cell lc_kinds sz ds i \<noteq> RAFT_ENTRY_CONFIG \<or> mcell lc_cfg_old sz ds i = []"
    show "mcell lc_cfg_old sz ds i = [] \<and> mcell lc_cfg_new sz ds i = [] \<and> mcell lc_cfg_learners sz ds i = []"
    proof (cases "m \<le> i")
      case True
      then show ?thesis using tail i by blast
    next
      case False
      then have r: "cell lc_kinds sz ds i = cell lc_kinds sz cs i" "mcell lc_cfg_old sz ds i = mcell lc_cfg_old sz cs i"
          "mcell lc_cfg_new sz ds i = mcell lc_cfg_new sz cs i" "mcell lc_cfg_learners sz ds i = mcell lc_cfg_learners sz cs i"
        using rows by (simp_all add: rows_agree_def)
      have "i div sz < length cs" using chunks_ok_alloc[OF ok, of i] False m by simp
      from cleanD[OF chunks_ok_clean[OF ok] this] show ?thesis using why False r by simp
    qed
  qed
  ultimately show ?thesis using wf al below_ceil[OF sz] len unfolding chunks_ok_def by simp
qed

lemma truncate_rows:
  assumes "k \<le> length cs" "\<And>i. i < m \<Longrightarrow> i div sz < k"
  shows "rows_agree m sz cs (take k cs)"
  using assms by (simp add: rows_agree_def cell_def mcell_def)

lemma wipe_cell: "a = Some xs \<Longrightarrow> j < length xs \<Longrightarrow> d \<le> length xs \<Longrightarrow>
    the (wipe d a) ! j = (if j < d then xs ! j else [])"
  by (auto simp: wipe_def nth_append)

definition wiped :: "nat \<Rightarrow> raft_log_chunk \<Rightarrow> raft_log_chunk" where
  "wiped d c = c\<lparr>lc_cfg_old := wipe d (lc_cfg_old c), lc_cfg_new := wipe d (lc_cfg_new c),
     lc_cfg_learners := wipe d (lc_cfg_learners c)\<rparr>"

lemma wiped_mask:
  assumes "chunk_wf sz c" "lc_cfg_old c \<noteq> None" "d \<le> sz" "j < sz"
    and f: "f \<in> {lc_cfg_old, lc_cfg_new, lc_cfg_learners}"
  shows "(case f (wiped d c) of None \<Rightarrow> [] | Some xs \<Rightarrow> xs ! j)
    = (if j < d then (case f c of None \<Rightarrow> [] | Some xs \<Rightarrow> xs ! j) else [])"
  using assms by (auto simp: chunk_wf_def arr_ok_def wiped_def wipe_def nth_append)

lemma wiped_wf: "chunk_wf sz c \<Longrightarrow> d \<le> sz \<Longrightarrow> chunk_wf sz (wiped d c)"
  by (auto simp: chunk_wf_def arr_ok_def wiped_def wipe_def)

lemma wiped_simps [simp]:
  "lc_terms (wiped d c) = lc_terms c" "lc_kinds (wiped d c) = lc_kinds c" "lc_data_offsets (wiped d c) = lc_data_offsets c"
  by (simp_all add: wiped_def)

lemma log_ci_update [simp]:
  "log_ci (l\<lparr>lg_data := x\<rparr>) i = log_ci l i" "log_ci (l\<lparr>lg_count := c\<rparr>) i = log_ci l i" "log_ci (l\<lparr>lg_chunks := cs\<rparr>) i = log_ci l i"
  "log_co (l\<lparr>lg_data := x\<rparr>) i = log_co l i" "log_co (l\<lparr>lg_count := c\<rparr>) i = log_co l i" "log_co (l\<lparr>lg_chunks := cs\<rparr>) i = log_co l i"
  by (simp_all add: log_ci_def log_co_def)

lemma truncate_cut:
  assumes g: "geometry l" and i: "lg_last_included_index l \<le> idx" "idx < raft_log_last_index l"
    and m: "m = nat (idx - lg_last_included_index l)" and k: "k = (m + lg_chunk_size l - 1) div lg_chunk_size l"
    and D: "D = (if m = 0 then 0 else cell lc_data_offsets (lg_chunk_size l) (lg_chunks l) m)"
    and ds: "ds = (if k > 0 \<and> lc_cfg_old (take k (lg_chunks l) ! (k - 1)) \<noteq> None \<and> m mod lg_chunk_size l > 0
       then (take k (lg_chunks l))[k - 1 := wiped (m mod lg_chunk_size l) (take k (lg_chunks l) ! (k - 1))] else take k (lg_chunks l))"
  shows "raft_log_truncate l idx = (0, l\<lparr>lg_data := take D (lg_data l), lg_count := m, lg_chunks := ds\<rparr>)"
proof -
  have k': "log_ci l (m + lg_chunk_size l - 1) = k" and d': "log_co l m = m mod lg_chunk_size l"
    and D': "(if m = 0 then 0 else slot lc_data_offsets l m) = D"
    by (simp_all add: log_ci_div[OF g] log_co_mod[OF g] slot_cell[OF g] k D)
  have "\<not> idx < lg_last_included_index l" "\<not> raft_log_last_index l \<le> idx" using i by simp_all
  then show ?thesis
    unfolding raft_log_truncate_def Let_def m[symmetric]
    by (simp add: D' k' d' free_chunks_take ds wiped_def set_chunk_def del: One_nat_def nth_take)
qed

lemma truncate_law:
  assumes wf: "log_wf l" and e: "raft_log_truncate l idx = (rc, l')"
  shows "if idx < lg_last_included_index l then rc = -1 \<and> l' = l
    else rc = 0 \<and> log_wf l' \<and> log_entries l' = take (nat (idx - lg_last_included_index l)) (log_entries l)
      \<and> lg_last_included_index l' = lg_last_included_index l \<and> lg_last_included_term l' = lg_last_included_term l
      \<and> lg_chunk_size l' = lg_chunk_size l"
proof -
  let ?n = "lg_count l" and ?D = "lg_data_size l" and ?sz = "lg_chunk_size l" and ?cs = "lg_chunks l"
  define m where "m = nat (idx - lg_last_included_index l)"
  have ok: "chunks_ok ?n ?D ?sz ?cs" and g: "geometry l" using wf by (auto simp: log_wf_def log_ok_def)
  have sz: "?sz > 0" using geometry_pos[OF g] .
  consider "idx < lg_last_included_index l" | (noop) "idx \<ge> lg_last_included_index l" "idx \<ge> raft_log_last_index l"
    | (cut) "idx \<ge> lg_last_included_index l" "idx < raft_log_last_index l" by linarith
  then show ?thesis
  proof cases
    case noop
    then have "?n \<le> m" by (auto simp: m_def raft_log_last_index_def)
    then show ?thesis using noop e wf by (auto simp: raft_log_truncate_def m_def)
  next
    case cut
    then have mn: "m < ?n" by (auto simp: m_def raft_log_last_index_def)
    define D' where "D' = (if m = 0 then 0 else cell lc_data_offsets ?sz ?cs m)"
    have D'D: "D' \<le> ?D" using offset_le[OF ok mn] by (simp add: D'_def)
    let ?k = "(m + ?sz - 1) div ?sz" and ?d = "m mod ?sz"
    have kn: "?k \<le> length ?cs"
    proof (cases "m = 0")
      case True
      then show ?thesis using sz by simp
    next
      case False
      then have "m - 1 < ?n" using mn by simp
      moreover have "?k = (m - 1) div ?sz + 1"
      proof -
        have eq: "m + ?sz - 1 = (m - 1) + ?sz" using False by simp
        show ?thesis unfolding eq using sz by (intro div_add_self2) simp
      qed
      ultimately show ?thesis using chunks_ok_alloc[OF ok, of "m - 1"] by simp
    qed
    define ds where "ds = (if ?k > 0 \<and> lc_cfg_old (take ?k ?cs ! (?k - 1)) \<noteq> None \<and> ?d > 0
       then (take ?k ?cs)[?k - 1 := wiped ?d (take ?k ?cs ! (?k - 1))] else take ?k ?cs)"
    have "(rc, l') = (0, l\<lparr>lg_data := take D' (lg_data l), lg_count := m, lg_chunks := ds\<rparr>)"
      unfolding e[symmetric] by (rule truncate_cut[OF g cut m_def refl D'_def ds_def])
    then have l': "rc = 0" "lg_chunks l' = ds" "lg_data l' = take D' (lg_data l)" "lg_count l' = m" "same_head (l\<lparr>lg_count := m\<rparr>) l'"
      by (auto simp: same_head_def)
    let ?w = "?k > 0 \<and> lc_cfg_old (?cs ! (?k - 1)) \<noteq> None \<and> ?d > 0"
    have ds: "ds = (if ?w then (take ?k ?cs)[?k - 1 := wiped ?d (?cs ! (?k - 1))] else take ?k ?cs)"
      by (auto simp: ds_def)
    have len: "length ds = ?k" using kn by (simp add: ds)
    have cwf: "chunk_wf ?sz (?cs ! j)" if "j < ?k" for j
      using ok kn that by (simp add: chunks_ok_def)
    have nth: "ds ! j = (if ?w \<and> j = ?k - 1 then wiped ?d (?cs ! j) else ?cs ! j)" if "j < ?k" for j
      using that kn by (auto simp: ds)
    have mask: "mcell f ?sz ds i = (if ?w \<and> i div ?sz = ?k - 1 \<and> ?d \<le> i mod ?sz then [] else mcell f ?sz ?cs i)"
      if "i div ?sz < ?k" "f \<in> {lc_cfg_old, lc_cfg_new, lc_cfg_learners}" for i f
    proof (cases "?w \<and> i div ?sz = ?k - 1")
      case True
      have "?d \<le> ?sz" "i mod ?sz < ?sz" using sz by (simp_all add: less_imp_le)
      then have "(case f (wiped ?d (?cs ! (i div ?sz))) of None \<Rightarrow> [] | Some xs \<Rightarrow> xs ! (i mod ?sz))
          = (if i mod ?sz < ?d then mcell f ?sz ?cs i else [])"
        using wiped_mask[OF cwf[OF that(1)] _ _ _ that(2), of ?d "i mod ?sz"] True by (simp add: mcell_def)
      then show ?thesis using True nth[OF that(1)] by (simp add: mcell_def not_less)
    next
      case False
      then have "ds ! (i div ?sz) = ?cs ! (i div ?sz)" using nth[OF that(1)] by auto
      then show ?thesis using False by (auto simp: mcell_def)
    qed
    have arr: "cell lc_terms ?sz ds i = cell lc_terms ?sz ?cs i" "cell lc_kinds ?sz ds i = cell lc_kinds ?sz ?cs i"
        "cell lc_data_offsets ?sz ds i = cell lc_data_offsets ?sz ?cs i" "lc_terms (ds ! (i div ?sz)) = lc_terms (?cs ! (i div ?sz))"
      if "i div ?sz < ?k" for i using nth[OF that] by (simp_all add: cell_def)
    have low: "\<not> (?w \<and> i div ?sz = ?k - 1 \<and> ?d \<le> i mod ?sz)" if "i < m" for i
    proof
      assume a: "?w \<and> i div ?sz = ?k - 1 \<and> ?d \<le> i mod ?sz"
      have "?k - 1 = m div ?sz" using past_end[OF sz, of m m] ceil_div[OF sz, of m m] a
        by (metis div_mult_mod_eq less_add_same_cancel1 order_refl)
      then have "m \<le> i" using a by (metis add_le_cancel_left div_mult_mod_eq)
      then show False using that by simp
    qed
    have rows: "rows_agree m ?sz ?cs ds"
      unfolding rows_agree_def
    proof (intro allI impI)
      fix i assume i: "i < m"
      note k = below_ceil[OF sz i]
      have "mcell f ?sz ds i = mcell f ?sz ?cs i" if "f \<in> {lc_cfg_old, lc_cfg_new, lc_cfg_learners}" for f
        using mask[OF k that] low[OF i] by (simp only: if_False)
      then show "cell lc_terms ?sz ?cs i = cell lc_terms ?sz ds i \<and> cell lc_kinds ?sz ?cs i = cell lc_kinds ?sz ds i
         \<and> cell lc_data_offsets ?sz ?cs i = cell lc_data_offsets ?sz ds i
         \<and> mcell lc_cfg_old ?sz ?cs i = mcell lc_cfg_old ?sz ds i \<and> mcell lc_cfg_new ?sz ?cs i = mcell lc_cfg_new ?sz ds i
         \<and> mcell lc_cfg_learners ?sz ?cs i = mcell lc_cfg_learners ?sz ds i"
        using arr[OF k] by simp
    qed
    have tail: "mcell lc_cfg_old ?sz ds i = [] \<and> mcell lc_cfg_new ?sz ds i = [] \<and> mcell lc_cfg_learners ?sz ds i = []"
      if "m \<le> i" "i div ?sz < length ds" for i
    proof -
      have k: "i div ?sz < ?k" using that(2) len by simp
      note pe = past_end[OF sz that(1) k]
      show ?thesis
      proof (cases "lc_cfg_old (?cs ! (?k - 1)) = None")
        case True
        then have "lc_cfg_new (?cs ! (?k - 1)) = None" "lc_cfg_learners (?cs ! (?k - 1)) = None"
          using cwf[OF k] pe by (auto simp: chunk_wf_def)
        then show ?thesis using mask[OF k] True pe by (simp add: mcell_def)
      next
        case False
        then show ?thesis using mask[OF k] pe k by simp
      qed
    qed
    have "\<forall>c\<in>set ds. chunk_wf ?sz c"
      using cwf nth len wiped_wf[of ?sz _ ?d] sz by (auto simp: in_set_conv_nth less_imp_le)
    then have "chunks_ok m D' ?sz ds"
      using truncate_chunks[OF ok sz mn _ len rows _ _ tail, of D'] arr(4) below_ceil[OF sz] chunks_ok_alloc[OF ok] mn
      by (auto simp: D'_def)
    moreover have "lg_data_size l' = D'" using l' D'D by simp
    ultimately have w: "log_wf l'"
      using l' g by (auto simp: log_wf_def log_ok_def same_head_def geometry_def)
    have "log_entries l' = ents m D' l'" using l' D'D by (simp add: log_entries_def)
    also have "\<dots> = ents m D' (l\<lparr>lg_chunks := ds\<rparr>)"
      using l' \<open>chunks_ok m D' ?sz ds\<close> by (intro ents_cong) (auto simp: same_head_def)
    also have "\<dots> = take m (log_entries l)"
    proof -
      have t: "ents m D' l = take m (log_entries l)"
        unfolding log_entries_def by (rule ents_take[OF ok mn]) (simp add: D'_def)
      have "entry_of m D' (l\<lparr>lg_chunks := ds\<rparr>) i = entry_of m D' l i" if "i < m" for i
        using rows that by (auto simp: entry_of_def Let_def rows_agree_def)
      then show ?thesis unfolding t[symmetric] by (simp add: ents_def)
    qed
    finally show ?thesis using w l' cut by (auto simp: m_def same_head_def)
  qed (use e in \<open>auto simp: raft_log_truncate_def\<close>)
qed

subsection \<open>Compaction\<close>

lemma next_slot:
  assumes "sz > 0"
  shows "(if i mod sz + 1 \<ge> sz then (i div sz + 1, 0) else (i div sz, i mod sz + 1)) = ((i + 1) div sz, (i + 1) mod (sz::nat))"
  using mod_less_divisor[OF assms, of i] by (auto simp: div_Suc mod_Suc)

lemma entry_data_eq:
  assumes wf: "log_wf l" and i: "i < lg_count l"
  shows "entry_data l i = en_data (log_entries l ! i)"
proof -
  have g: "geometry l" using wf by (simp add: log_wf_def log_ok_def)
  let ?sz = "lg_chunk_size l"
  have "data_end l i = (if i + 1 < lg_count l then cell lc_data_offsets ?sz (lg_chunks l) (i + 1) else lg_data_size l)"
    using next_slot[OF geometry_pos[OF g], of i] i
    by (auto simp: data_end_def Let_def log_ci_div[OF g] log_co_mod[OF g] cell_def raft_log_last_index_def
        split: if_splits)
  then show ?thesis using i
    by (auto simp: entry_data_def log_entries_def ents_def entry_of_def Let_def slot_cell[OF g])
qed

lemma slot_cfg_eq:
  assumes wf: "log_wf l" and i: "i < lg_count l" and f: "f \<in> {lc_cfg_old, lc_cfg_new, lc_cfg_learners}"
  shows "slot_cfg f l i = mcell f (lg_chunk_size l) (lg_chunks l) i"
proof -
  have g: "geometry l" and ok: "chunks_ok (lg_count l) (lg_data_size l) (lg_chunk_size l) (lg_chunks l)"
    using wf by (auto simp: log_wf_def log_ok_def)
  let ?c = "lg_chunks l ! (i div lg_chunk_size l)"
  have wfc: "chunk_wf (lg_chunk_size l) ?c" and num: "i div lg_chunk_size l < lg_num_chunks l"
    using ok chunks_ok_alloc[OF ok i] by (auto simp: chunks_ok_def)
  show ?thesis
  proof (cases "slot lc_kinds l i = RAFT_ENTRY_CONFIG \<and> lc_cfg_old ?c \<noteq> None")
    case True
    then have "\<exists>xs. f ?c = Some xs" using wfc f by (auto simp: chunk_wf_def)
    then show ?thesis using True by (auto simp: slot_cfg_def log_ci_div[OF g] log_co_mod[OF g] slot_def mcell_def)
  next
    case False
    have "mcell f (lg_chunk_size l) (lg_chunks l) i = []"
    proof (cases "slot lc_kinds l i = RAFT_ENTRY_CONFIG")
      case True
      then show ?thesis using False wfc f by (auto simp: mcell_def chunk_wf_def)
    next
      case k: False
      then show ?thesis using cleanD[OF chunks_ok_clean[OF ok] num] f by (auto simp: slot_cell[OF g])
    qed
    then show ?thesis using False by (auto simp: slot_cfg_def log_ci_div[OF g])
  qed
qed

lemma mk_entry_slots:
  assumes wf: "log_wf l" and i: "i < lg_count l"
  shows "mk_entry (slot lc_terms l i) (slot lc_kinds l i) (entry_data l i)
      (slot_cfg lc_cfg_old l i) (slot_cfg lc_cfg_new l i) (slot_cfg lc_cfg_learners l i) = log_entries l ! i"
proof -
  have g: "geometry l" and ok: "chunks_ok (lg_count l) (lg_data_size l) (lg_chunk_size l) (lg_chunks l)"
    using wf by (auto simp: log_wf_def log_ok_def)
  note c = slot_cfg_eq[OF wf i, of lc_cfg_old] slot_cfg_eq[OF wf i, of lc_cfg_new] slot_cfg_eq[OF wf i, of lc_cfg_learners]
  have e: "log_entries l ! i = entry_of (lg_count l) (lg_data_size l) l i" using i by (simp add: log_entries_def ents_def)
  have "\<not> (slot lc_kinds l i = RAFT_ENTRY_CONFIG \<and> slot_cfg lc_cfg_old l i \<noteq> []) \<Longrightarrow>
     slot_cfg lc_cfg_old l i = [] \<and> slot_cfg lc_cfg_new l i = [] \<and> slot_cfg lc_cfg_learners l i = []"
    using cleanD[OF chunks_ok_clean[OF ok], of i] chunks_ok_alloc[OF ok i] c by (simp add: slot_cell[OF g])
  then show ?thesis using c entry_data_eq[OF wf i]
    by (auto simp: mk_entry_def e entry_of_def Let_def slot_cell[OF g])
qed

lemma grown_trans: "grown a xs b \<Longrightarrow> grown b ys c \<Longrightarrow> grown a (xs @ ys) c"
  by (simp add: grown_def)

lemma compact_loop_law:
  assumes "log_wf l" "log_wf nl" "\<forall>i\<in>set offs. i < lg_count l" "compact_loop s l nl offs = (True, s', nl')"
  shows "grown nl (map ((!) (log_entries l)) offs) nl'"
  using assms
proof (induction offs arbitrary: s nl)
  case Nil
  then show ?case by (simp add: grown_def)
next
  case (Cons i offs)
  obtain b s1 n1 where a: "raft_log_append s nl (slot lc_terms l i) (slot lc_kinds l i) (entry_data l i)
      (slot_cfg lc_cfg_old l i) (slot_cfg lc_cfg_new l i) (slot_cfg lc_cfg_learners l i) = (b, s1, n1)"
    by (cases "raft_log_append s nl (slot lc_terms l i) (slot lc_kinds l i) (entry_data l i)
      (slot_cfg lc_cfg_old l i) (slot_cfg lc_cfg_new l i) (slot_cfg lc_cfg_learners l i)") auto
  have b: "b" and rest: "compact_loop s1 l n1 offs = (True, s', nl')" using Cons.prems(4) a by (auto split: bool.splits)
  have g1: "grown nl [log_entries l ! i] n1"
    using append_law[OF Cons.prems(2) a] mk_entry_slots[OF Cons.prems(1), of i] Cons.prems(3) b by simp
  then have "log_wf n1" by (simp add: grown_def)
  from Cons.IH[OF Cons.prems(1) this _ rest] Cons.prems(3) grown_trans[OF g1]
  show ?case by fastforce
qed

lemma log_fresh_wf: "geometry l \<Longrightarrow> log_wf (log_fresh l idx t) \<and> log_entries (log_fresh l idx t) = []"
  by (simp add: log_wf_def log_ok_def log_fresh_def geometry_def chunks_ok_def clean_def log_entries_def ents_def)

lemma map_nth_upt: "m \<le> length xs \<Longrightarrow> map ((!) xs) [m..<length xs] = drop m xs"
  by (simp add: list_eq_iff_nth_eq)

lemma compact_law:
  assumes wf: "log_wf l" and e: "raft_log_compact_prefix s l idx t = (b, s', l')"
  shows "(b \<longrightarrow> lg_last_included_index l \<le> idx \<and> idx \<le> raft_log_last_index l \<and> log_wf l'
       \<and> log_entries l' = drop (nat (idx - lg_last_included_index l)) (log_entries l)
       \<and> lg_last_included_index l' = idx \<and> lg_last_included_term l' = t \<and> lg_chunk_size l' = lg_chunk_size l)
    \<and> (\<not> b \<longrightarrow> l' = l)"
proof (cases "idx < lg_last_included_index l \<or> idx > raft_log_last_index l")
  case True
  then show ?thesis using e by (auto simp: raft_log_compact_prefix_def)
next
  case False
  have g: "geometry l" using wf by (simp add: log_wf_def log_ok_def)
  let ?m = "nat (idx - lg_last_included_index l)"
  obtain b1 s1 n1 where c: "compact_loop s l (log_fresh l idx t) [?m..<lg_count l] = (b1, s1, n1)"
    by (cases "compact_loop s l (log_fresh l idx t) [?m..<lg_count l]") auto
  have m: "?m \<le> lg_count l" using False by (auto simp: raft_log_last_index_def)
  show ?thesis
  proof (cases b1)
    case True
    have "grown (log_fresh l idx t) (map ((!) (log_entries l)) [?m..<lg_count l]) n1"
      using compact_loop_law[OF wf conjunct1[OF log_fresh_wf[OF g]] _ c[unfolded True[THEN eqTrueI]]] True by simp
    then have "grown (log_fresh l idx t) (drop ?m (log_entries l)) n1"
      using map_nth_upt[of ?m "log_entries l"] m by simp
    then show ?thesis using e c True False log_fresh_wf[OF g, of idx t]
      by (auto simp: raft_log_compact_prefix_def grown_def) (simp_all add: log_fresh_def)
  next
    case False
    then show ?thesis using e c \<open>\<not> (_ \<or> _)\<close> by (auto simp: raft_log_compact_prefix_def)
  qed
qed

subsection \<open>Batch append\<close>

lemma alloc_chunks_keep:
  assumes "log_ok n D l" "\<forall>ci\<in>set cis. ci < lg_num_chunks l" "alloc_chunks s l cis = (b, s', l')"
  shows "log_keep n D l l' \<and> lg_data l' = lg_data l \<and> lg_num_chunks l' = lg_num_chunks l
    \<and> (b \<longrightarrow> (\<forall>ci\<in>set cis. lc_terms (lg_chunks l' ! ci) \<noteq> None))
    \<and> (\<forall>cj. lc_terms (lg_chunks l ! cj) \<noteq> None \<longrightarrow> lc_terms (lg_chunks l' ! cj) \<noteq> None)"
  using assms
proof (induction cis arbitrary: s l)
  case Nil
  then show ?case by (simp add: log_keep_refl)
next
  case (Cons ci cis)
  obtain b1 s1 l1 where a: "raft_log_alloc_chunk s l ci = (b1, s1, l1)" by (cases "raft_log_alloc_chunk s l ci")
  have k: "log_keep n D l l1 \<and> lg_data l1 = lg_data l \<and> lg_num_chunks l1 = lg_num_chunks l
    \<and> (b1 \<longrightarrow> lc_terms (lg_chunks l1 ! ci) \<noteq> None)
    \<and> (\<forall>cj. lc_terms (lg_chunks l ! cj) \<noteq> None \<longrightarrow> lc_terms (lg_chunks l1 ! cj) \<noteq> None)"
    using alloc_keep[OF Cons.prems(1) _ a] Cons.prems(2) by simp
  have ok1: "log_ok n D l1" using k log_keep_head by blast
  show ?case
  proof (cases b1)
    case False
    then show ?thesis using Cons.prems(3) a k by auto
  next
    case True
    have r: "alloc_chunks s1 l1 cis = (b, s', l')" using Cons.prems(3) a True by simp
    have "\<forall>ci\<in>set cis. ci < lg_num_chunks l1" using Cons.prems(2) k by simp
    from Cons.IH[OF ok1 this r] show ?thesis using k True log_keep_trans[of n D l l1 l'] by auto
  qed
qed

lemma write_commands_count: "write_commands (l\<lparr>lg_count := c\<rparr>) t off cs = (write_commands l t off cs)\<lparr>lg_count := c\<rparr>"
proof (induction cs arbitrary: l off)
  case (Cons x cs)
  have "set_chunk (l\<lparr>lg_count := c\<rparr>) ci ch\<lparr>lg_data := d\<rparr> = (set_chunk l ci ch\<lparr>lg_data := d\<rparr>)\<lparr>lg_count := c\<rparr>" for ci ch d
    by (simp add: set_chunk_def)
  then show ?case using Cons by (simp add: Let_def)
qed simp

lemma write_commands_law:
  assumes "log_wf l"
    "\<forall>j<length cs. (lg_count l + j) div lg_chunk_size l < lg_num_chunks l
       \<and> lc_terms (lg_chunks l ! ((lg_count l + j) div lg_chunk_size l)) \<noteq> None"
  shows "grown l (map (\<lambda>c. mk_entry t RAFT_ENTRY_COMMAND (cmd_bytes c) [] [] []) cs)
    ((write_commands l t (lg_count l) cs)\<lparr>lg_count := lg_count l + length cs\<rparr>)"
  using assms
proof (induction cs arbitrary: l)
  case Nil
  then show ?case by (simp add: grown_def)
next
  case (Cons c cs)
  let ?n = "lg_count l" and ?sz = "lg_chunk_size l"
  have g: "geometry l" and ok: "log_ok ?n (lg_data_size l) l" using Cons.prems(1) by (auto simp: log_wf_def log_ok_def)
  define l1 where "l1 = set_chunk l (?n div ?sz) (put_entry (lg_chunks l ! (?n div ?sz)) (?n mod ?sz) t RAFT_ENTRY_COMMAND (lg_data_size l))"
  have al: "?n div ?sz < lg_num_chunks l" "lc_terms (lg_chunks l ! (?n div ?sz)) \<noteq> None"
    using Cons.prems(2) by (auto dest: spec[of _ 0])
  note p = put_keep[OF ok al l1_def]
  have "staged l t RAFT_ENTRY_COMMAND [] l1" using p al by (auto simp: staged_def l1_def)
  from staged_data[OF this, of "cmd_bytes c" "lg_data_capacity l1"]
  have st: "staged l t RAFT_ENTRY_COMMAND (cmd_bytes c) (l1\<lparr>lg_data := lg_data l1 @ cmd_bytes c\<rparr>)" by simp
  define l2 where "l2 = l1\<lparr>lg_data := lg_data l1 @ cmd_bytes c, lg_count := ?n + 1\<rparr>"
  have c1: "lg_count l1 = ?n" by (simp add: l1_def)
  have g1: "grown l [mk_entry t RAFT_ENTRY_COMMAND (cmd_bytes c) [] [] []] l2"
    using staged_plain[OF Cons.prems(1) st] staged_head[OF st] c1 by (simp add: l2_def grown_def same_head_def)
  have h2: "log_wf l2" "lg_count l2 = ?n + 1" "lg_chunk_size l2 = ?sz" using g1 by (auto simp: grown_def l2_def)
  have "\<forall>j<length cs. (lg_count l2 + j) div lg_chunk_size l2 < lg_num_chunks l2
       \<and> lc_terms (lg_chunks l2 ! ((lg_count l2 + j) div lg_chunk_size l2)) \<noteq> None"
    using Cons.prems(2) p h2 by (auto simp: l2_def dest: spec[of _ "Suc _"])
  from Cons.IH[OF h2(1) this] grown_trans[OF g1]
  have "grown l (map (\<lambda>c. mk_entry t RAFT_ENTRY_COMMAND (cmd_bytes c) [] [] []) (c # cs))
     ((write_commands l2 t (?n + 1) cs)\<lparr>lg_count := ?n + 1 + length cs\<rparr>)" using h2 by fastforce
  moreover have "write_commands l2 t (?n + 1) cs = (write_commands l t ?n (c # cs))\<lparr>lg_count := ?n + 1\<rparr>"
    using write_commands_count[where l = "l1\<lparr>lg_data := lg_data l1 @ cmd_bytes c\<rparr>" and c = "?n + 1"]
    by (simp add: l2_def l1_def Let_def log_ci_div[OF g] log_co_mod[OF g])
  ultimately show ?case by simp
qed

lemma append_commands_law:
  assumes wf: "log_wf l" and e: "raft_log_append_commands s l t cs = (b, s', l')"
  shows "grown l (if b then map (\<lambda>c. mk_entry t RAFT_ENTRY_COMMAND (cmd_bytes c) [] [] []) cs else []) l'"
proof (cases "cs = []")
  case True
  then show ?thesis using e wf by (auto simp: raft_log_append_commands_def grown_def)
next
  case ne: False
  let ?n = "lg_count l" and ?D = "lg_data_size l" and ?sz = "lg_chunk_size l" and ?last = "lg_count l + length cs - 1"
  let ?cis = "[log_ci l ?n..<log_ci l ?last + 1]"
  have g: "geometry l" and ok: "log_ok ?n ?D l" using wf by (auto simp: log_wf_def log_ok_def)
  have keepg: "grown l [] x" if "log_keep ?n ?D l x" "lg_data x = lg_data l" for x
    using keep_wf[of l x] that wf grown_keep by (metis log_keep_def)
  obtain b1 s1 l1 where e1: "raft_log_ensure_chunk s l (log_ci l ?last) = (b1, s1, l1)" by (cases "raft_log_ensure_chunk s l (log_ci l ?last)")
  obtain b2 s2 l2 where e2: "alloc_chunks s1 l1 ?cis = (b2, s2, l2)" by (cases "alloc_chunks s1 l1 ?cis")
  obtain b3 s3 l3 where e3: "raft_log_reserve_data s2 l2 (sum_list (map (length \<circ> cmd_bytes) cs)) = (b3, s3, l3)"
    by (cases "raft_log_reserve_data s2 l2 (sum_list (map (length \<circ> cmd_bytes) cs))")
  note k1 = ensure_keep[OF ok e1]
  have ok1: "log_ok ?n ?D l1" using k1 log_keep_head by blast
  obtain c3 where l3: "l3 = l2\<lparr>lg_data_capacity := c3\<rparr>" using reserve_shape[OF e3] by blast
  have E: "(if b1 then if b2 then if b3 then
      (True, s3, (write_commands l3 t ?n cs)\<lparr>lg_count := lg_count (write_commands l3 t ?n cs) + length cs\<rparr>)
      else (False, s3, l3) else (False, s2, l2) else (False, s1, l1)) = (b, s', l')"
    using e ne e1 e2 e3 unfolding raft_log_append_commands_def Let_def append_off by (simp split: bool.splits)
  show ?thesis
  proof (cases b1)
    case False
    then show ?thesis using E keepg k1 by auto
  next
    case True
    have "\<forall>ci\<in>set ?cis. ci < lg_num_chunks l1" using k1 True by auto
    note k2 = alloc_chunks_keep[OF ok1 this e2]
    have k12: "log_keep ?n ?D l l2" "lg_data l2 = lg_data l" using k1 k2 log_keep_trans by (metis, simp)
    then have k13: "log_keep ?n ?D l l3" "lg_data l3 = lg_data l"
      by (auto simp: l3 log_keep_def log_ok_def same_head_def geometry_def)
    show ?thesis
    proof (cases "b2 \<and> b3")
      case False
      then show ?thesis using E True keepg k12 k13 by (auto split: if_splits)
    next
      case b: True
      have g3: "grown l [] l3" using keepg k13 by blast
      then have w3: "log_wf l3" "lg_count l3 = ?n" "lg_chunk_size l3 = ?sz"
        using k13 by (auto simp: grown_def log_keep_def same_head_def)
      have "(?n + j) div ?sz < lg_num_chunks l3 \<and> lc_terms (lg_chunks l3 ! ((?n + j) div ?sz)) \<noteq> None" if "j < length cs" for j
      proof -
        have "?n + j \<le> ?last" using that by simp
        then have "(?n + j) div ?sz \<in> set ?cis"
          using that div_le_mono[of "?n + j" ?last ?sz] div_le_mono[of ?n "?n + j" ?sz]
          by (simp add: log_ci_div[OF g] less_Suc_eq_le del: upt_Suc)
        then show ?thesis using k1 k2 b True l3 by auto
      qed
      then have "grown l3 (map (\<lambda>c. mk_entry t RAFT_ENTRY_COMMAND (cmd_bytes c) [] [] []) cs)
          ((write_commands l3 t ?n cs)\<lparr>lg_count := ?n + length cs\<rparr>)"
        using write_commands_law[OF w3(1), of cs t] w3 by simp
      moreover have "lg_count (write_commands l3 t ?n cs) = ?n"
        using write_commands_count[where l = l3 and c = ?n] w3(2) by (metis raft_log.select_convs(8) raft_log.surjective raft_log.update_convs(8))
      ultimately show ?thesis using grown_trans[OF g3] E b True by auto
    qed
  qed
qed

subsection \<open>The log interface\<close>

text \<open>
  What the protocol relies on: an append adds the stored form of an entry at the end or changes
  nothing, a cut keeps a prefix and refuses to go below the base. The lemmas proved from these
  laws are the ones the AppendEntries handler uses to overwrite a conflicting suffix.
\<close>

locale replicated_log =
  fixes inv :: "'l \<Rightarrow> bool" and lents :: "'l \<Rightarrow> 'e list" and base :: "'l \<Rightarrow> int" and stored :: "'e \<Rightarrow> 'e"
    and app :: "'s \<Rightarrow> 'l \<Rightarrow> 'e \<Rightarrow> bool \<times> 's \<times> 'l" and cut :: "'l \<Rightarrow> int \<Rightarrow> int \<times> 'l"
  assumes app_law: "inv l \<Longrightarrow> app s l e = (b, s', l') \<Longrightarrow>
      inv l' \<and> base l' = base l \<and> lents l' = lents l @ (if b then [stored e] else [])"
    and cut_law: "inv l \<Longrightarrow> base l \<le> i \<Longrightarrow> cut l i = (rc, l') \<Longrightarrow>
      rc = 0 \<and> inv l' \<and> base l' = base l \<and> lents l' = take (nat (i - base l)) (lents l)"
begin

fun app_all :: "'s \<Rightarrow> 'l \<Rightarrow> 'e list \<Rightarrow> bool \<times> 's \<times> 'l" where
  "app_all s l [] = (True, s, l)"
| "app_all s l (e # es) = (case app s l e of (False, s, l) \<Rightarrow> (False, s, l) | (True, s, l) \<Rightarrow> app_all s l es)"

lemma app_all_law:
  assumes "inv l" "app_all s l es = (b, s', l')"
  shows "inv l' \<and> base l' = base l \<and> (\<exists>k\<le>length es. lents l' = lents l @ map stored (take k es) \<and> (b \<longrightarrow> k = length es))"
  using assms
proof (induction es arbitrary: s l)
  case Nil
  then show ?case by auto
next
  case (Cons e es)
  obtain b1 s1 l1 where a: "app s l e = (b1, s1, l1)" by (cases "app s l e")
  note law = app_law[OF Cons.prems(1) a]
  show ?case
  proof (cases b1)
    case False
    then show ?thesis using Cons.prems(2) a law by (auto intro!: exI[of _ 0])
  next
    case True
    have r: "app_all s1 l1 es = (b, s', l')" using Cons.prems(2) a True by simp
    obtain k where k: "k \<le> length es" "lents l' = lents l1 @ map stored (take k es)" "b \<longrightarrow> k = length es"
        "inv l'" "base l' = base l1"
      using Cons.IH[OF _ r] law by blast
    then show ?thesis using law True by (auto intro!: exI[of _ "Suc k"])
  qed
qed

lemma overwrite_law:
  assumes "inv l" "base l \<le> i" "cut l i = (rc, l1)" "app_all s l1 es = (b, s', l')"
  shows "inv l' \<and> base l' = base l
    \<and> (\<exists>k\<le>length es. lents l' = take (nat (i - base l)) (lents l) @ map stored (take k es) \<and> (b \<longrightarrow> k = length es))"
proof -
  have c: "inv l1 \<and> base l1 = base l \<and> lents l1 = take (nat (i - base l)) (lents l)"
    using cut_law[OF assms(1-3)] by blast
  then show ?thesis using app_all_law[OF _ assms(4)] by metis
qed

end

definition stored_entry :: "raft_entry \<Rightarrow> raft_entry" where
  "stored_entry e = mk_entry (en_term e) (en_kind e) (en_data e) (en_cfg_old e) (en_cfg_new e) (en_cfg_learners e)"

definition log_append_entry :: "script \<Rightarrow> raft_log \<Rightarrow> raft_entry \<Rightarrow> bool \<times> script \<times> raft_log" where
  "log_append_entry s l e =
     raft_log_append s l (en_term e) (en_kind e) (en_data e) (en_cfg_old e) (en_cfg_new e) (en_cfg_learners e)"

interpretation rlog: replicated_log log_wf log_entries lg_last_included_index stored_entry log_append_entry raft_log_truncate
proof unfold_locales
  fix l s e b s' l'
  assume "log_wf l" "log_append_entry s l e = (b, s', l')"
  from append_law[OF this[unfolded log_append_entry_def]]
  show "log_wf l' \<and> lg_last_included_index l' = lg_last_included_index l
      \<and> log_entries l' = log_entries l @ (if b then [stored_entry e] else [])"
    by (auto simp: grown_def stored_entry_def)
next
  fix l i rc l'
  assume "log_wf l" "lg_last_included_index l \<le> i" "raft_log_truncate l i = (rc, l')"
  then show "rc = 0 \<and> log_wf l' \<and> lg_last_included_index l' = lg_last_included_index l
      \<and> log_entries l' = take (nat (i - lg_last_included_index l)) (log_entries l)"
    using truncate_law[of l i rc l'] by simp
qed

text \<open>Reading a term through the chunks is reading it from the list.\<close>

lemma term_at_entries:
  assumes wf: "log_wf l"
  shows "raft_log_term_at l idx =
    (if idx \<le> lg_last_included_index l then lg_last_included_term l
     else if idx > raft_log_last_index l then 0
     else en_term (log_entries l ! nat (idx - lg_last_included_index l - 1)))"
proof (cases "lg_last_included_index l < idx \<and> idx \<le> raft_log_last_index l")
  case True
  then have "nat (idx - lg_last_included_index l - 1) < lg_count l" by (auto simp: raft_log_last_index_def)
  then show ?thesis using True wf
    by (auto simp: raft_log_term_at_def slot_cell log_wf_def log_ok_def log_entries_def ents_def entry_of_def Let_def)
qed (auto simp: raft_log_term_at_def)

lemma last_index_entries: "raft_log_last_index l = lg_last_included_index l + int (length (log_entries l))"
  by (simp add: raft_log_last_index_def)

text \<open>C2. The chunked log store implements a list of entries above a compaction boundary: for every
  well-formed log and every placement of allocation failures, an append or a batch append either
  adds exactly the new entries at the end or changes no entry, a truncation at or above the
  boundary keeps exactly the prefix, a compaction keeps exactly the suffix under the new boundary
  or changes nothing, every one of them keeps the store well-formed, and reading a term through
  the chunks is reading it from the list.\<close>

theorem raft_log_refines_list:
  assumes "log_wf l"
  shows "(\<forall>s t k d co cn cl b s' l'. raft_log_append s l t k d co cn cl = (b, s', l') \<longrightarrow>
      log_wf l' \<and> log_entries l' = log_entries l @ (if b then [mk_entry t k d co cn cl] else [])
      \<and> lg_last_included_index l' = lg_last_included_index l)
    \<and> (\<forall>s t cs b s' l'. raft_log_append_commands s l t cs = (b, s', l') \<longrightarrow>
      log_wf l' \<and> log_entries l' = log_entries l
          @ (if b then map (\<lambda>c. mk_entry t RAFT_ENTRY_COMMAND (cmd_bytes c) [] [] []) cs else [])
      \<and> lg_last_included_index l' = lg_last_included_index l)
    \<and> (\<forall>i rc l'. raft_log_truncate l i = (rc, l') \<longrightarrow>
      log_wf l' \<and> lg_last_included_index l' = lg_last_included_index l
      \<and> (if i < lg_last_included_index l then rc = -1 \<and> log_entries l' = log_entries l
         else rc = 0 \<and> log_entries l' = take (nat (i - lg_last_included_index l)) (log_entries l)))
    \<and> (\<forall>s i t b s' l'. raft_log_compact_prefix s l i t = (b, s', l') \<longrightarrow>
      (if b then log_wf l' \<and> log_entries l' = drop (nat (i - lg_last_included_index l)) (log_entries l)
          \<and> lg_last_included_index l' = i \<and> lg_last_included_term l' = t
          \<and> raft_log_last_index l' = raft_log_last_index l
       else l' = l))
    \<and> (\<forall>i. lg_last_included_index l < i \<and> i \<le> raft_log_last_index l \<longrightarrow>
      raft_log_term_at l i = en_term (log_entries l ! nat (i - lg_last_included_index l - 1)))"
proof (intro conjI allI impI)
  fix s i t b s' l'
  assume "raft_log_compact_prefix s l i t = (b, s', l')"
  from compact_law[OF assms this]
  show "if b then log_wf l' \<and> log_entries l' = drop (nat (i - lg_last_included_index l)) (log_entries l)
          \<and> lg_last_included_index l' = i \<and> lg_last_included_term l' = t
          \<and> raft_log_last_index l' = raft_log_last_index l else l' = l"
    by (auto simp: last_index_entries of_nat_diff)
next
  fix i rc l'
  assume e: "raft_log_truncate l i = (rc, l')"
  show "log_wf l'" "lg_last_included_index l' = lg_last_included_index l"
    "if i < lg_last_included_index l then rc = -1 \<and> log_entries l' = log_entries l
         else rc = 0 \<and> log_entries l' = take (nat (i - lg_last_included_index l)) (log_entries l)"
    using truncate_law[OF assms e] assms by (auto split: if_splits)
qed (use append_law[OF assms] append_commands_law[OF assms] term_at_entries[OF assms] in
      \<open>auto simp: grown_def\<close>)

definition sample_log :: raft_log where
  "sample_log = \<lparr> lg_chunks = [], lg_chunk_capacity = 0, lg_chunk_bits = 1, lg_chunk_mask = 1, lg_chunk_size = 2,
     lg_data = [], lg_data_capacity = 0, lg_count = 0, lg_last_included_index = 4, lg_last_included_term = 2 \<rparr>"

lemma sample_log_wf: "log_wf sample_log"
  by (simp add: log_wf_def log_ok_def sample_log_def geometry_def chunks_ok_def clean_def)

theorem raft_log_refines_list_witness:
  "\<exists>l'. raft_log_append [] sample_log 3 RAFT_ENTRY_COMMAND [7] [] [] [] = (True, [], l')
    \<and> log_entries l' = [mk_entry 3 RAFT_ENTRY_COMMAND [7] [] [] []]
    \<and> (\<exists>l''. raft_log_append [True, False] sample_log 3 RAFT_ENTRY_COMMAND [7] [] [] [] = (False, [], l'') \<and> log_entries l'' = [])"
proof -
  have ok: "fst (raft_log_append [] sample_log 3 RAFT_ENTRY_COMMAND [7] [] [] [])"
      "fst (snd (raft_log_append [] sample_log 3 RAFT_ENTRY_COMMAND [7] [] [] [])) = []"
      "\<not> fst (raft_log_append [True, False] sample_log 3 RAFT_ENTRY_COMMAND [7] [] [] [])"
      "fst (snd (raft_log_append [True, False] sample_log 3 RAFT_ENTRY_COMMAND [7] [] [] [])) = []"
    by (simp_all add: raft_log_append_def Let_def sample_log_def raft_log_last_index_def log_ci_def log_co_def
        raft_log_ensure_chunk_def raft_log_alloc_chunk_def chunk_zero_def raft_log_reserve_data_def)
  have e: "log_entries sample_log = []" by (simp add: sample_log_def log_entries_def ents_def)
  obtain l' l'' where a: "raft_log_append [] sample_log 3 RAFT_ENTRY_COMMAND [7] [] [] [] = (True, [], l')"
      "raft_log_append [True, False] sample_log 3 RAFT_ENTRY_COMMAND [7] [] [] [] = (False, [], l'')"
    using ok by (metis prod.collapse)
  show ?thesis using a raft_log_refines_list[OF sample_log_wf] e by fastforce
qed

end
