(* ===== verification/Raft_Ctx.thy ===== *)
theory Raft_Ctx
  imports Raft_Log_Refine
begin

section \<open>The raft node: data and shared helpers\<close>

text \<open>
  The data of \<^verbatim>\<open>raft.h\<close>: the message structures, the node context \<^verbatim>\<open>raft_ctx\<close>, and the helpers
  every handler uses: output buffers, result emission, the pending-configuration bookkeeping,
  the durability frontier, step-down and the election clock.

  Conventions. A 0/1 \<^verbatim>\<open>int\<close> flag is a \<open>bool\<close>; \<^verbatim>\<open>raft_i64\<close> is \<open>int\<close>; \<^verbatim>\<open>unsigned int\<close> counters
  and clocks are 32-bit words; a dynamic array with its count is a list beside its capacity; a
  cookie pointer is a \<open>nat\<close> with 0 for null; \<open>ctx_script\<close> holds the allocator outcomes still to
  come. The tagged union \<^verbatim>\<open>raft_peer_message\<close> is a datatype of message bodies. Messages of the
  Ready bundle hold the values their pointers show when they are queued.
\<close>

abbreviation RAFT_TERM_MAX :: int where "RAFT_TERM_MAX \<equiv> 9223372036854775806"
abbreviation RAFT_CATCHUP_ROUNDS :: int where "RAFT_CATCHUP_ROUNDS \<equiv> 10"

datatype raft_state = RAFT_FOLLOWER | RAFT_CANDIDATE | RAFT_LEADER

abbreviation RAFT_PHASE_READY :: nat where "RAFT_PHASE_READY \<equiv> 1"
abbreviation RAFT_PHASE_RUNNING :: nat where "RAFT_PHASE_RUNNING \<equiv> 2"
abbreviation RAFT_PHASE_STOPPING :: nat where "RAFT_PHASE_STOPPING \<equiv> 3"
abbreviation RAFT_PHASE_DRAINING :: nat where "RAFT_PHASE_DRAINING \<equiv> 4"
abbreviation RAFT_PHASE_STOPPED :: nat where "RAFT_PHASE_STOPPED \<equiv> 5"

datatype raft_client_status = RAFT_CLIENT_REDIRECT | RAFT_CLIENT_COMMITTED | RAFT_CLIENT_READY
  | RAFT_CLIENT_FAILED | RAFT_CLIENT_CATCHUP_READY | RAFT_CLIENT_CATCHUP_FAILED

subsection \<open>Messages\<close>

record raft_request_vote =
  rv_term :: int
  rv_last_log_index :: int
  rv_last_log_term :: int
  rv_candidate_id :: int
  rv_pre_vote :: bool

record raft_request_vote_result =
  rvr_term :: int
  rvr_vote_granted :: bool
  rvr_pre_vote :: bool

record raft_append_entries =
  ae_term :: int
  ae_prev_log_index :: int
  ae_prev_log_term :: int
  ae_leader_commit :: int
  ae_read_context :: u64
  ae_entry_terms :: "int list option"
  ae_entry_kinds :: "u8 list option"
  ae_entry_data :: "bytes option"
  ae_entry_data_sizes :: "nat list option"
  ae_entry_cfg_old :: "raft_mask list option"
  ae_entry_cfg_new :: "raft_mask list option"
  ae_entry_cfg_learners :: "raft_mask list option"
  ae_leader_id :: int
  ae_entry_count :: int

record raft_append_entries_result =
  aer_term :: int
  aer_rejected :: int
  aer_last_log_index :: int
  aer_conflict_term :: int
  aer_conflict_first_index :: int
  aer_read_context :: u64
  aer_success :: bool

record raft_install_snapshot =
  is_term :: int
  is_snapshot_last_index :: int
  is_snapshot_last_term :: int
  is_snapshot_offset :: int
  is_snapshot_data_size :: int
  is_snapshot_chunk_size :: int
  is_snapshot_cfg_old :: raft_mask
  is_snapshot_cfg_new :: raft_mask
  is_snapshot_cfg_learners :: raft_mask
  is_snapshot_data :: bytes
  is_snapshot_done :: bool
  is_leader_id :: int

record raft_install_snapshot_result =
  isr_term :: int
  isr_last_included_index :: int

record raft_timeout_now =
  tn_term :: int
  tn_last_log_index :: int
  tn_last_log_term :: int
  tn_leader_id :: int

record raft_read_index_req =
  ri_term :: int
  ri_context :: u64

record raft_read_index_result =
  rir_term :: int
  rir_read_index :: int
  rir_context :: u64

datatype raft_msg_body = RAFT_MSG_REQUEST_VOTE raft_request_vote
  | RAFT_MSG_REQUEST_VOTE_RESULT raft_request_vote_result
  | RAFT_MSG_APPEND raft_append_entries
  | RAFT_MSG_APPEND_RESULT raft_append_entries_result
  | RAFT_MSG_INSTALL_SNAPSHOT raft_install_snapshot
  | RAFT_MSG_INSTALL_SNAPSHOT_RESULT raft_install_snapshot_result
  | RAFT_MSG_READ_INDEX raft_read_index_req
  | RAFT_MSG_READ_INDEX_RESULT raft_read_index_result
  | RAFT_MSG_TIMEOUT_NOW raft_timeout_now
  | RAFT_MSG_OTHER int

record raft_peer_message =
  pm_from :: int
  pm_to :: int
  pm_term :: int
  pm_body :: raft_msg_body

subsection \<open>Ready bundle and configuration\<close>

record raft_apply_entry =
  ap_index :: int
  ap_term :: int
  ap_kind :: u8
  ap_command :: bytes
  ap_cookie :: cookie
  ap_cfg_old :: "raft_mask option"
  ap_cfg_new :: "raft_mask option"
  ap_cfg_learners :: "raft_mask option"

record raft_client_result =
  cr_cookie :: cookie
  cr_status :: raft_client_status
  cr_leader_id :: int

record raft_snapshot_read_req =
  sr_follower_id :: int
  sr_last_included_index :: int
  sr_byte_offset :: int
  sr_byte_count :: u32

record raft_persist_entry =
  pe_index :: int
  pe_term :: int
  pe_kind :: u8
  pe_data :: bytes
  pe_cfg_old :: raft_mask
  pe_cfg_new :: raft_mask
  pe_cfg_learners :: raft_mask

record raft_persist =
  ps_term :: int
  ps_voted_for :: int
  ps_last_included_index :: int
  ps_last_included_term :: int
  ps_snapshot_dirty :: bool
  ps_snapshot_size :: int
  ps_snapshot_cfg_old :: raft_mask
  ps_snapshot_cfg_new :: raft_mask
  ps_snapshot_cfg_learners :: raft_mask
  ps_log_entries :: "raft_persist_entry list"

record raft_peer_health =
  ph_id :: int
  ph_match_index :: int
  ph_next_index :: int
  ph_missed_rounds :: u32

record raft_config =
  cf_id :: int
  cf_peers :: "int list"
  cf_bootstrap :: bool
  cf_heartbeat_ms :: u32
  cf_election_min_ms :: u32
  cf_election_max_ms :: u32
  cf_seed :: u32
  cf_snapshot_chunk_size :: u32
  cf_log_chunk_size :: int
  cf_restore :: "raft_persist option"

subsection \<open>The node context\<close>

record raft_peer =
  pr_id :: int
  pr_is_learner :: bool
  pr_next_index :: int
  pr_match_index :: int
  pr_pending_snapshot_offset :: int
  pr_pending_snapshot_last_index :: int
  pr_vote :: bool
  pr_pre_vote_acked :: bool
  pr_in_old_config :: bool
  pr_in_new_config :: bool
  pr_read_index_acked :: bool
  pr_quorum_acked :: bool
  pr_missed_rounds :: u32
  pr_catchup_round :: int
  pr_catchup_round_start_index :: int
  pr_catchup_round_elapsed :: u32
  pr_catchup_cookie :: cookie

record raft_snapshot_meta =
  sm_last_index :: int
  sm_last_term :: int
  sm_size :: int
  sm_cfg_old :: raft_set
  sm_cfg_new :: raft_set
  sm_cfg_learners :: raft_set

record raft_read_barrier =
  rb_cookie :: cookie
  rb_target_index :: int
  rb_needs_gen :: u32

record raft_client_pending =
  cp_cookie :: cookie
  cp_log_index :: int

record raft_read_index_pending =
  rip_from :: int
  rip_index :: int
  rip_context :: u64

record raft_ctx =
  ctx_script :: script
  ctx_cfg :: raft_config
  prev_leader_state :: raft_state
  ctx_phase :: nat
  ctx_state :: raft_state
  voted_for :: int
  ctx_leader_id :: int
  ready_persist_pending :: bool
  ready_leader_change :: bool
  current_term :: int
  commit_index :: int
  last_applied :: int
  apply_offered :: int
  ctx_rng :: u32
  heartbeat_elapsed :: u32
  election_elapsed :: u32
  election_deadline :: u32
  leader_contact_elapsed :: u32
  in_pre_vote :: bool
  transfer_target :: int
  transfer_elapsed :: u32
  transfer_cookie :: cookie
  persist_needed :: bool
  ctx_peers :: "raft_peer list"
  ctx_log :: raft_log
  config_old :: raft_set
  config_new :: raft_set
  config_learners :: raft_set
  config_bootstrap :: raft_set
  config_joint :: bool
  config_pending_old :: raft_set
  config_pending_new :: raft_set
  config_pending_learners :: raft_set
  config_pending :: bool
  config_index :: int
  config_applied_index :: int
  config_apply_stale :: bool
  ctx_snapshot :: raft_snapshot_meta
  snapshot_pending :: raft_snapshot_meta
  snapshot_pending_dirty :: bool
  snapshot_data_ready_flag :: bool
  snapshot_recv :: raft_snapshot_meta
  snapshot_recv_expected_offset :: int
  snapshot_install_pending :: bool
  deferred_vote_response :: bool
  deferred_vote_to :: int
  deferred_vote_gen :: u32
  deferred_vote_request :: bool
  deferred_vote_request_gen :: u32
  deferred_append_response :: bool
  deferred_append_to :: int
  deferred_reject_pending :: bool
  deferred_reject_gen :: u32
  deferred_reject_hint :: int
  deferred_reject_to :: int
  deferred_reject_last_index :: int
  deferred_reject_conflict_term :: int
  deferred_reject_conflict_first_index :: int
  deferred_reject_read_context :: u64
  deferred_append_last_index :: int
  deferred_append_confirmed :: int
  deferred_append_read_context :: u64
  deferred_append_gen :: u32
  persist_gen :: u32
  term_dirty_gen :: u32
  durable_index :: int
  persist_synced_index :: int
  durable_confirm :: int
  read_barriers :: "raft_read_barrier list"
  read_barrier_capacity :: nat
  leadership_confirmed :: bool
  read_barrier_gen :: u32
  follower_read_pending :: "cookie list"
  follower_read_pending_capacity :: nat
  follower_read_frozen :: nat
  follower_read_waiting :: bool
  follower_read_context :: u64
  follower_read_elapsed :: u32
  follower_read_barrier_elapsed :: u32
  follower_read_barrier_last_applied :: int
  read_index_pending :: "raft_read_index_pending list"
  read_index_pending_capacity :: nat
  read_context :: u64
  read_index_heartbeat_sent :: bool
  client_pending :: "raft_client_pending list"
  client_pending_capacity :: nat
  client_pending_head :: nat
  result_dropped :: u64
  msg_buf :: "raft_peer_message list"
  msg_capacity :: nat
  apply_buf :: "raft_apply_entry list"
  apply_capacity :: nat
  peer_health_capacity :: nat
  result_buf :: "raft_client_result list"
  result_capacity :: nat
  snap_read_buf :: "raft_snapshot_read_req list"
  snap_read_capacity :: nat
  persist_entry_capacity :: nat
  entry_size_cap :: nat
  config_catchup_new :: raft_set
  config_catchup_cookie :: cookie
  config_catchup_active :: bool
  config_catchup_round :: int
  config_catchup_start_index :: int
  config_catchup_elapsed :: u32
  config_catchup_total_elapsed :: u32
  joint_elapsed :: u32

abbreviation self_id :: "raft_ctx \<Rightarrow> int" where
  "self_id r \<equiv> cf_id (ctx_cfg r)"

abbreviation last_index :: "raft_ctx \<Rightarrow> int" where
  "last_index r \<equiv> raft_log_last_index (ctx_log r)"

abbreviation term_at :: "raft_ctx \<Rightarrow> int \<Rightarrow> int" where
  "term_at r \<equiv> raft_log_term_at (ctx_log r)"

definition raft_phase_ge :: "raft_ctx \<Rightarrow> nat \<Rightarrow> bool" where
  "raft_phase_ge r p \<longleftrightarrow> ctx_phase r \<ge> p"

text \<open>The saturating clock.\<close>

definition raft_elapsed_add :: "u32 \<Rightarrow> u32 \<Rightarrow> u32" where
  "raft_elapsed_add cur add = (let next = cur + add in if next < cur then NOT 0 else next)"

subsection \<open>Output buffers\<close>

definition raft_buf_ensure :: "script \<Rightarrow> nat \<Rightarrow> nat \<Rightarrow> nat \<Rightarrow> bool \<times> script \<times> nat" where
  "raft_buf_ensure s cap need init_cap =
    (if cap \<ge> need then (True, s, cap)
     else let nc = (if cap > 0 then cap * 2 else init_cap); nc = (if nc < need then need else nc);
              (ok, s) = alloc s
          in if ok then (True, s, nc) else (False, s, cap))"

definition raft_result_ensure :: "raft_ctx \<Rightarrow> nat \<Rightarrow> bool \<times> raft_ctx" where
  "raft_result_ensure r need =
    (case raft_buf_ensure (ctx_script r) (result_capacity r) need 8 of
       (ok, s, cap) \<Rightarrow> (ok, r\<lparr>ctx_script := s, result_capacity := cap\<rparr>))"

definition raft_msg_ensure :: "raft_ctx \<Rightarrow> nat \<Rightarrow> bool \<times> raft_ctx" where
  "raft_msg_ensure r need =
    (case raft_buf_ensure (ctx_script r) (msg_capacity r) need 16 of
       (ok, s, cap) \<Rightarrow> (ok, r\<lparr>ctx_script := s, msg_capacity := cap\<rparr>))"

definition raft_apply_ensure :: "raft_ctx \<Rightarrow> nat \<Rightarrow> bool \<times> raft_ctx" where
  "raft_apply_ensure r need =
    (case raft_buf_ensure (ctx_script r) (apply_capacity r) need 8 of
       (ok, s, cap) \<Rightarrow> (ok, r\<lparr>ctx_script := s, apply_capacity := cap\<rparr>))"

definition raft_peer_health_ensure :: "raft_ctx \<Rightarrow> nat \<Rightarrow> bool \<times> raft_ctx" where
  "raft_peer_health_ensure r need =
    (case raft_buf_ensure (ctx_script r) (peer_health_capacity r) need 8 of
       (ok, s, cap) \<Rightarrow> (ok, r\<lparr>ctx_script := s, peer_health_capacity := cap\<rparr>))"

definition raft_persist_entry_ensure :: "raft_ctx \<Rightarrow> nat \<Rightarrow> bool \<times> raft_ctx" where
  "raft_persist_entry_ensure r need =
    (case raft_buf_ensure (ctx_script r) (persist_entry_capacity r) need 16 of
       (ok, s, cap) \<Rightarrow> (ok, r\<lparr>ctx_script := s, persist_entry_capacity := cap\<rparr>))"

definition raft_client_pending_ensure :: "raft_ctx \<Rightarrow> nat \<Rightarrow> bool \<times> raft_ctx" where
  "raft_client_pending_ensure r need =
    (case raft_buf_ensure (ctx_script r) (client_pending_capacity r) need 8 of
       (ok, s, cap) \<Rightarrow> (ok, r\<lparr>ctx_script := s, client_pending_capacity := cap\<rparr>))"

definition raft_read_barrier_ensure :: "raft_ctx \<Rightarrow> nat \<Rightarrow> bool \<times> raft_ctx" where
  "raft_read_barrier_ensure r need =
    (case raft_buf_ensure (ctx_script r) (read_barrier_capacity r) need 8 of
       (ok, s, cap) \<Rightarrow> (ok, r\<lparr>ctx_script := s, read_barrier_capacity := cap\<rparr>))"

definition raft_snap_read_ensure :: "raft_ctx \<Rightarrow> nat \<Rightarrow> bool \<times> raft_ctx" where
  "raft_snap_read_ensure r need =
    (case raft_buf_ensure (ctx_script r) (snap_read_capacity r) need 4 of
       (ok, s, cap) \<Rightarrow> (ok, r\<lparr>ctx_script := s, snap_read_capacity := cap\<rparr>))"

definition raft_read_index_pending_ensure :: "raft_ctx \<Rightarrow> nat \<Rightarrow> bool \<times> raft_ctx" where
  "raft_read_index_pending_ensure r need =
    (case raft_buf_ensure (ctx_script r) (read_index_pending_capacity r) need 8 of
       (ok, s, cap) \<Rightarrow> (ok, r\<lparr>ctx_script := s, read_index_pending_capacity := cap\<rparr>))"

definition raft_follower_read_ensure :: "raft_ctx \<Rightarrow> nat \<Rightarrow> bool \<times> raft_ctx" where
  "raft_follower_read_ensure r need =
    (case raft_buf_ensure (ctx_script r) (follower_read_pending_capacity r) need 8 of
       (ok, s, cap) \<Rightarrow> (ok, r\<lparr>ctx_script := s, follower_read_pending_capacity := cap\<rparr>))"

text \<open>A message written into an ensured slot, addressed from this node at its current term.\<close>

definition push_msg :: "raft_ctx \<Rightarrow> int \<Rightarrow> raft_msg_body \<Rightarrow> raft_ctx" where
  "push_msg r to body = r\<lparr>msg_buf := msg_buf r @
     [\<lparr> pm_from = self_id r, pm_to = to, pm_term = current_term r, pm_body = body \<rparr>]\<rparr>"

definition raft_result_emit :: "raft_ctx \<Rightarrow> cookie \<Rightarrow> raft_client_status \<Rightarrow> raft_ctx" where
  "raft_result_emit r cookie status =
    (let (ok, r) = (if length (result_buf r) \<ge> result_capacity r
                    then raft_result_ensure r (length (result_buf r) + 1) else (True, r))
     in if \<not> ok then r\<lparr>result_dropped := result_dropped r + 1\<rparr>
        else r\<lparr>result_buf := result_buf r @ [\<lparr> cr_cookie = cookie, cr_status = status,
               cr_leader_id = (if ctx_state r = RAFT_LEADER then self_id r else ctx_leader_id r) \<rparr>]\<rparr>)"

definition emit_all :: "raft_ctx \<Rightarrow> cookie list \<Rightarrow> raft_client_status \<Rightarrow> raft_ctx" where
  "emit_all r cookies status = foldl (\<lambda>r c. raft_result_emit r c status) r cookies"

definition raft_client_pending_compact :: "raft_ctx \<Rightarrow> raft_ctx" where
  "raft_client_pending_compact r =
    (if client_pending_head r = 0 then r
     else if client_pending_head r < 64 \<and> client_pending_head r < length (client_pending r) then r
     else r\<lparr>client_pending_head := 0\<rparr>)"

subsection \<open>Peers and quorums\<close>

fun raft_find_peer_in :: "raft_peer list \<Rightarrow> int \<Rightarrow> nat option" where
  "raft_find_peer_in [] i = None"
| "raft_find_peer_in (p # ps) i = (if pr_id p = i then Some 0 else map_option Suc (raft_find_peer_in ps i))"

definition raft_find_peer :: "raft_ctx \<Rightarrow> int \<Rightarrow> nat option" where
  "raft_find_peer r i = raft_find_peer_in (ctx_peers r) i"

definition upd_peer :: "raft_ctx \<Rightarrow> nat \<Rightarrow> (raft_peer \<Rightarrow> raft_peer) \<Rightarrow> raft_ctx" where
  "upd_peer r k f = r\<lparr>ctx_peers := (ctx_peers r)[k := f (ctx_peers r ! k)]\<rparr>"

definition counts_in :: "bool \<Rightarrow> raft_peer \<Rightarrow> bool" where
  "counts_in old_config_only p =
    (\<not> pr_is_learner p \<and> (if old_config_only then pr_in_old_config p else pr_in_new_config p))"

definition raft_quorum_size_of :: "raft_ctx \<Rightarrow> bool \<Rightarrow> nat" where
  "raft_quorum_size_of r old_config_only =
    (let n = length (filter (counts_in old_config_only) (ctx_peers r));
         self_in = (if old_config_only then raft_mask_has (raft_set_view (config_old r)) (self_id r)
                    else raft_mask_has (raft_set_view (config_new r)) (self_id r));
         n = (if self_in then n + 1 else n)
     in n div 2 + 1)"

subsection \<open>The durability frontier\<close>

definition raft_durable_clamp :: "raft_ctx \<Rightarrow> int \<Rightarrow> raft_ctx" where
  "raft_durable_clamp r highest_valid =
     r\<lparr>durable_index := (if durable_index r > highest_valid then highest_valid else durable_index r),
       durable_confirm := (if durable_confirm r > highest_valid then highest_valid else durable_confirm r),
       persist_synced_index := (if persist_synced_index r > highest_valid then highest_valid else persist_synced_index r),
       deferred_append_last_index :=
         (if deferred_append_last_index r > highest_valid then highest_valid else deferred_append_last_index r)\<rparr>"

definition raft_log_cut :: "raft_ctx \<Rightarrow> int \<Rightarrow> int \<times> raft_ctx" where
  "raft_log_cut r idx =
    (case raft_log_truncate (ctx_log r) idx of
       (rc, l) \<Rightarrow> let r = r\<lparr>ctx_log := l\<rparr> in if rc = 0 then (rc, raft_durable_clamp r idx) else (rc, r))"

subsection \<open>Pending configuration\<close>

definition raft_config_pending_only_clear :: "raft_ctx \<Rightarrow> raft_ctx" where
  "raft_config_pending_only_clear r =
     r\<lparr>config_pending_old := [], config_pending_new := [], config_pending_learners := [],
       config_pending := False, config_index := 0\<rparr>"

definition catchup_clear :: "raft_ctx \<Rightarrow> raft_ctx" where
  "catchup_clear r =
     r\<lparr>config_catchup_new := [], config_catchup_cookie := 0, config_catchup_active := False,
       config_catchup_round := 0, config_catchup_start_index := 0, config_catchup_elapsed := 0,
       config_catchup_total_elapsed := 0\<rparr>"

definition raft_config_pending_clear :: "raft_ctx \<Rightarrow> raft_ctx" where
  "raft_config_pending_clear r = catchup_clear (raft_config_pending_only_clear r)"

definition raft_config_zombie_clear :: "raft_ctx \<Rightarrow> raft_ctx" where
  "raft_config_zombie_clear r =
    (if config_pending r \<and> config_index r > 0 \<and> commit_index r \<ge> config_index r
     then raft_config_pending_only_clear r else r)"

subsection \<open>Flushing clients and stepping down\<close>

definition raft_flush_client_results :: "raft_ctx \<Rightarrow> raft_client_status \<Rightarrow> raft_ctx" where
  "raft_flush_client_results r status =
    (let (ok, r) = raft_result_ensure r (length (result_buf r) + length (read_barriers r)
           + length (client_pending r) + length (follower_read_pending r))
     in if \<not> ok then r
        else
          let r = emit_all r (map rb_cookie (read_barriers r)) status;
              r = emit_all r (map cp_cookie (client_pending r)) status;
              r = emit_all r (follower_read_pending r) status
          in r\<lparr>read_barriers := [], client_pending := [], client_pending_head := 0, follower_read_pending := [],
               follower_read_frozen := 0, follower_read_waiting := False, follower_read_context := 0\<rparr>)"

definition raft_step_down :: "raft_ctx \<Rightarrow> int \<Rightarrow> int \<Rightarrow> raft_ctx" where
  "raft_step_down r term new_leader_id =
    (if term \<ge> RAFT_TERM_MAX + 1 then r
     else
       let r = r\<lparr>current_term := term, persist_needed := True, term_dirty_gen := persist_gen r + 1,
                 ctx_state := RAFT_FOLLOWER, voted_for := 0, ctx_leader_id := new_leader_id,
                 ready_leader_change := True, in_pre_vote := False, transfer_target := 0, transfer_elapsed := 0\<rparr>;
           tc = transfer_cookie r;
           r = r\<lparr>transfer_cookie := 0\<rparr>;
           cc = (if config_catchup_active r then config_catchup_cookie r else 0);
           r = r\<lparr>leader_contact_elapsed := 0, leadership_confirmed := False\<rparr>;
           r = raft_config_pending_clear r;
           r = r\<lparr>deferred_vote_response := False, deferred_vote_request := False, deferred_append_response := False,
                 snapshot_pending_dirty := False, snapshot_data_ready_flag := False, snapshot_install_pending := False,
                 snapshot_recv_expected_offset := 0, snapshot_recv := (snapshot_recv r)\<lparr>sm_last_index := 0\<rparr>,
                 follower_read_elapsed := 0, read_index_pending := [], read_index_heartbeat_sent := False,
                 election_elapsed := 0, joint_elapsed := 0,
                 ctx_peers := map (\<lambda>p. p\<lparr>pr_vote := False, pr_quorum_acked := False, pr_read_index_acked := False\<rparr>) (ctx_peers r)\<rparr>;
           r = raft_flush_client_results r RAFT_CLIENT_REDIRECT;
           r = r\<lparr>read_barrier_gen := 0\<rparr>;
           (ok, r) = raft_result_ensure r (length (result_buf r) + (if tc \<noteq> 0 then 1 else 0) + (if cc \<noteq> 0 then 1 else 0))
       in if ok then
            let r = (if tc \<noteq> 0 then raft_result_emit r tc RAFT_CLIENT_REDIRECT else r)
            in if cc \<noteq> 0 then raft_result_emit r cc RAFT_CLIENT_REDIRECT else r
          else r)"

subsection \<open>The election clock\<close>

definition raft_rng_step :: "raft_ctx \<Rightarrow> u32 \<times> raft_ctx" where
  "raft_rng_step r =
    (let x = ctx_rng r;
         x = (if x = 0 then 2463534242 else x);
         x = x XOR push_bit 13 x;
         x = x XOR drop_bit 17 x;
         x = x XOR push_bit 5 x
     in (x, r\<lparr>ctx_rng := x\<rparr>))"

definition raft_reset_election_deadline :: "raft_ctx \<Rightarrow> raft_ctx" where
  "raft_reset_election_deadline r =
    (let cfg = ctx_cfg r;
         range = (if cf_election_max_ms cfg \<le> cf_election_min_ms cfg then 0
                  else cf_election_max_ms cfg - cf_election_min_ms cfg);
         (x, r) = raft_rng_step r;
         x = x XOR (word_of_int (cf_id cfg) * 2654435761)
     in r\<lparr>election_deadline := cf_election_min_ms cfg + of_nat (unat x mod (unat range + 1))\<rparr>)"

definition raft_has_voter_peer :: "raft_ctx \<Rightarrow> bool" where
  "raft_has_voter_peer r = list_ex (\<lambda>p. \<not> pr_is_learner p) (ctx_peers r)"

end
