(* ===== verification/Raft_Config.thy ===== *)
theory Raft_Config
  imports Raft_Ctx
begin

section \<open>Membership: peer lists and the live configuration\<close>

text \<open>
  Rebuilding the peer list from a normal or a joint configuration, applying a configuration
  entry as soon as it is in the log (with the rollback on allocation failure), reverting to the
  base configuration, and appending the final entry of a committed joint change.
\<close>

subsection \<open>Peer rebuild\<close>

definition peer_zero :: raft_peer where
  "peer_zero = \<lparr> pr_id = 0, pr_is_learner = False, pr_next_index = 0, pr_match_index = 0,
     pr_pending_snapshot_offset = 0, pr_pending_snapshot_last_index = 0, pr_vote = False, pr_pre_vote_acked = False,
     pr_in_old_config = False, pr_in_new_config = False, pr_read_index_acked = False, pr_quorum_acked = False,
     pr_missed_rounds = 0, pr_catchup_round = 0, pr_catchup_round_start_index = 0, pr_catchup_round_elapsed = 0,
     pr_catchup_cookie = 0 \<rparr>"

fun raft_peer_carry :: "raft_peer \<Rightarrow> raft_peer list \<Rightarrow> int \<Rightarrow> bool \<Rightarrow> raft_peer" where
  "raft_peer_carry dst [] pid require_learner = dst"
| "raft_peer_carry dst (o' # old) pid require_learner =
    (if pr_id o' = pid \<and> (\<not> require_learner \<or> pr_is_learner o') then
       let dst = dst\<lparr>pr_next_index := pr_next_index o', pr_match_index := pr_match_index o',
                     pr_pending_snapshot_offset := pr_pending_snapshot_offset o',
                     pr_pending_snapshot_last_index := pr_pending_snapshot_last_index o'\<rparr>
       in if pr_is_learner dst then
            dst\<lparr>pr_catchup_round := pr_catchup_round o', pr_catchup_round_start_index := pr_catchup_round_start_index o',
                pr_catchup_round_elapsed := pr_catchup_round_elapsed o', pr_catchup_cookie := pr_catchup_cookie o'\<rparr>
          else dst
     else raft_peer_carry dst old pid require_learner)"

definition fresh_peer :: "raft_ctx \<Rightarrow> int \<Rightarrow> bool \<Rightarrow> bool \<Rightarrow> bool \<Rightarrow> raft_peer" where
  "fresh_peer r pid in_old in_new learner =
     raft_peer_carry (peer_zero\<lparr>pr_id := pid, pr_in_old_config := in_old, pr_in_new_config := in_new,
        pr_is_learner := learner, pr_next_index := last_index r + 1\<rparr>) (ctx_peers r) pid learner"

fun add_voters :: "raft_ctx \<Rightarrow> int list \<Rightarrow> raft_peer list \<Rightarrow> raft_peer list" where
  "add_voters r [] np = np"
| "add_voters r (pid # ids) np =
    (if pid = self_id r then add_voters r ids np
     else add_voters r ids (np @ [fresh_peer r pid True True False]))"

fun add_learners :: "raft_ctx \<Rightarrow> int list \<Rightarrow> raft_peer list \<Rightarrow> raft_peer list" where
  "add_learners r [] np = np"
| "add_learners r (pid # ids) np =
    (if pid = self_id r then add_learners r ids np
     else if raft_find_peer_in np pid \<noteq> None then add_learners r ids np
     else add_learners r ids (np @ [fresh_peer r pid False False True]))"

definition raft_rebuild_peers_normal :: "raft_ctx \<Rightarrow> int \<times> raft_ctx" where
  "raft_rebuild_peers_normal r =
    (let (ok, s) = alloc (ctx_script r); r = r\<lparr>ctx_script := s\<rparr>
     in if \<not> ok then (-1, r)
        else let np = add_voters r (config_new r) [];
                 np = add_learners r (config_learners r) np
             in (0, r\<lparr>ctx_peers := np\<rparr>))"

fun add_old :: "raft_ctx \<Rightarrow> int list \<Rightarrow> raft_peer list \<Rightarrow> raft_peer list" where
  "add_old r [] np = np"
| "add_old r (pid # ids) np =
    (if pid = self_id r then add_old r ids np
     else case raft_find_peer_in np pid of
            Some j \<Rightarrow> add_old r ids (np[j := (np ! j)\<lparr>pr_in_old_config := True\<rparr>])
          | None \<Rightarrow> add_old r ids (np @ [fresh_peer r pid True False False]))"

fun add_new :: "raft_ctx \<Rightarrow> int list \<Rightarrow> raft_peer list \<Rightarrow> raft_peer list" where
  "add_new r [] np = np"
| "add_new r (pid # ids) np =
    (if pid = self_id r then add_new r ids np
     else case raft_find_peer_in np pid of
            Some j \<Rightarrow> add_new r ids (np[j := (np ! j)\<lparr>pr_in_new_config := True\<rparr>])
          | None \<Rightarrow> add_new r ids (np @ [fresh_peer r pid False True False]))"

definition raft_rebuild_peers_joint :: "raft_ctx \<Rightarrow> int \<times> raft_ctx" where
  "raft_rebuild_peers_joint r =
    (let (ok, s) = alloc (ctx_script r); r = r\<lparr>ctx_script := s\<rparr>
     in if \<not> ok then (-1, r)
        else let np = add_old r (config_old r) [];
                 np = add_new r (config_new r) np;
                 np = add_learners r (config_learners r) np
             in (0, r\<lparr>ctx_peers := np\<rparr>))"

subsection \<open>Configuration entries in the log\<close>

text \<open>
  The scans over the log read the kind and the masks of an offset; a chunk past \<^verbatim>\<open>num_chunks\<close>
  ends the scan and a chunk without mask arrays holds no configuration.
\<close>

definition cfg_at :: "raft_log \<Rightarrow> nat \<Rightarrow> (raft_mask \<times> raft_mask \<times> raft_mask) option" where
  "cfg_at l off =
    (let c = lg_chunks l ! log_ci l off in
     if slot lc_kinds l off \<noteq> RAFT_ENTRY_CONFIG then None
     else if lc_cfg_old c = None then None
     else Some (slot lc_cfg_old l off, slot lc_cfg_new l off,
                if lc_cfg_learners c \<noteq> None then slot lc_cfg_learners l off else raft_mask_zero))"

fun find_final :: "raft_log \<Rightarrow> int list \<Rightarrow> int" where
  "find_final l [] = 0"
| "find_final l (idx # is) =
    (if idx \<le> lg_last_included_index l then find_final l is
     else let off = nat (idx - lg_last_included_index l - 1) in
       if log_ci l off \<ge> lg_num_chunks l then 0
       else case cfg_at l off of
              None \<Rightarrow> find_final l is
            | Some (cm_old, cm_new, _) \<Rightarrow> if raft_mask_eq cm_old cm_new then idx else find_final l is)"

definition raft_find_existing_final_config :: "raft_ctx \<Rightarrow> int \<Rightarrow> int" where
  "raft_find_existing_final_config r after_idx = find_final (ctx_log r) [after_idx + 1..last_index r]"

definition raft_assign_learners_filtered :: "raft_ctx \<Rightarrow> raft_mask \<Rightarrow> raft_mask \<Rightarrow> int \<times> raft_ctx" where
  "raft_assign_learners_filtered r cm_learners cm_voters =
    (let ids = filter (\<lambda>i. \<not> raft_mask_has cm_voters i) cm_learners
     in if length ids = 0 then (0, r\<lparr>config_learners := []\<rparr>)
        else let (ok, s) = alloc (ctx_script r); r = r\<lparr>ctx_script := s\<rparr>
             in if \<not> ok then (-1, r) else (0, r\<lparr>config_learners := ids\<rparr>))"

text \<open>One owned set of the context assigned through \<^verbatim>\<open>raft_set_assign\<close>.\<close>

definition assign_old :: "raft_ctx \<Rightarrow> int list \<Rightarrow> bool \<times> raft_ctx" where
  "assign_old r ids = (case raft_set_assign (ctx_script r) (config_old r) ids of
     (ok, s, v) \<Rightarrow> (ok, r\<lparr>ctx_script := s, config_old := v\<rparr>))"

definition assign_new :: "raft_ctx \<Rightarrow> int list \<Rightarrow> bool \<times> raft_ctx" where
  "assign_new r ids = (case raft_set_assign (ctx_script r) (config_new r) ids of
     (ok, s, v) \<Rightarrow> (ok, r\<lparr>ctx_script := s, config_new := v\<rparr>))"

definition assign_learners :: "raft_ctx \<Rightarrow> int list \<Rightarrow> bool \<times> raft_ctx" where
  "assign_learners r ids = (case raft_set_assign (ctx_script r) (config_learners r) ids of
     (ok, s, v) \<Rightarrow> (ok, r\<lparr>ctx_script := s, config_learners := v\<rparr>))"

definition save_set :: "raft_ctx \<Rightarrow> raft_set \<Rightarrow> bool \<times> raft_set \<times> raft_ctx" where
  "save_set r src = (case raft_set_copy (ctx_script r) [] src of (ok, s, v) \<Rightarrow> (ok, v, r\<lparr>ctx_script := s\<rparr>))"

text \<open>The mutation half of \<^verbatim>\<open>raft_apply_config_masks\<close>: \<open>rc\<close> short-circuits the later steps.\<close>

definition install_masks :: "raft_ctx \<Rightarrow> raft_mask \<Rightarrow> raft_mask \<Rightarrow> raft_mask \<Rightarrow> int \<times> raft_ctx" where
  "install_masks r cm_old cm_new cm_learners =
    (let joint = \<not> raft_mask_eq cm_old cm_new;
         (ok, r) = assign_old r (if joint then cm_old else cm_new)
     in if \<not> ok then (-1, r)
        else let (ok, r) = assign_new r cm_new
        in if \<not> ok then (-1, r)
        else let (rc, r) = raft_assign_learners_filtered r cm_learners cm_new
        in if rc < 0 then (rc, r)
        else let r = r\<lparr>config_joint := joint\<rparr>
        in if joint then raft_rebuild_peers_joint r else raft_rebuild_peers_normal r)"

definition raft_apply_config_masks :: "raft_ctx \<Rightarrow> raft_mask \<Rightarrow> raft_mask \<Rightarrow> raft_mask \<Rightarrow> int \<times> raft_ctx" where
  "raft_apply_config_masks r cm_old cm_new cm_learners =
    (let (ok1, saved_old, r1) = save_set r (config_old r) in
     if \<not> ok1 then (-1, r1\<lparr>config_apply_stale := True\<rparr>)
     else let (ok2, saved_new, r2) = save_set r1 (config_new r1) in
     if \<not> ok2 then (-1, r2\<lparr>config_apply_stale := True\<rparr>)
     else let (ok3, saved_learners, r3) = save_set r2 (config_learners r2) in
     if \<not> ok3 then (-1, r3\<lparr>config_apply_stale := True\<rparr>)
     else
       let saved_joint = config_joint r3;
           (rc, r) = install_masks r3 cm_old cm_new cm_learners
       in if rc < 0 then
            let r = r\<lparr>config_apply_stale := True\<rparr>;
                r = snd (assign_old r saved_old);
                r = snd (assign_new r saved_new);
                r = snd (assign_learners r saved_learners)
            in (-1, r\<lparr>config_joint := saved_joint\<rparr>)
          else (0, r\<lparr>config_apply_stale := False\<rparr>))"

text \<open>The newest configuration entry of the live log, scanning down from the tip.\<close>

fun latest_cfg :: "raft_log \<Rightarrow> nat \<Rightarrow> (raft_mask \<times> raft_mask \<times> raft_mask) option" where
  "latest_cfg l 0 = None"
| "latest_cfg l (Suc off) =
    (if log_ci l off \<ge> lg_num_chunks l then latest_cfg l off
     else case cfg_at l off of None \<Rightarrow> latest_cfg l off | Some c \<Rightarrow> Some c)"

definition base_cfg :: "raft_ctx \<Rightarrow> raft_mask \<times> raft_mask \<times> raft_mask" where
  "base_cfg r =
    (if lg_last_included_index (ctx_log r) > 0 \<and> raft_mask_any (raft_set_view (sm_cfg_old (ctx_snapshot r)))
     then (raft_set_view (sm_cfg_old (ctx_snapshot r)), raft_set_view (sm_cfg_new (ctx_snapshot r)),
           raft_set_view (sm_cfg_learners (ctx_snapshot r)))
     else (raft_set_view (config_bootstrap r), raft_set_view (config_bootstrap r), raft_mask_zero))"

definition raft_apply_config_from_log :: "raft_ctx \<Rightarrow> int \<times> raft_ctx" where
  "raft_apply_config_from_log r =
    (case latest_cfg (ctx_log r) (nat (last_index r - lg_last_included_index (ctx_log r))) of
       Some (cm_old, cm_new, cm_learners) \<Rightarrow> raft_apply_config_masks r cm_old cm_new cm_learners
     | None \<Rightarrow>
         (case base_cfg r of (b_old, b_new, b_learn) \<Rightarrow>
            if \<not> config_apply_stale r \<and> raft_mask_eq (raft_set_view (config_old r)) b_old
               \<and> raft_mask_eq (raft_set_view (config_new r)) b_new
               \<and> raft_mask_eq (raft_set_view (config_learners r)) b_learn
               \<and> config_joint r = (\<not> raft_mask_eq b_old b_new)
            then (0, r\<lparr>config_apply_stale := False\<rparr>)
            else raft_apply_config_masks r b_old b_new b_learn))"

subsection \<open>Finalizing a joint configuration\<close>

text \<open>\<^verbatim>\<open>raft_log_append\<close> on the context's log.\<close>

definition ctx_append :: "raft_ctx \<Rightarrow> int \<Rightarrow> u8 \<Rightarrow> bytes \<Rightarrow> raft_mask \<Rightarrow> raft_mask \<Rightarrow> raft_mask \<Rightarrow> bool \<times> raft_ctx" where
  "ctx_append r term kind data co cn cl =
    (case raft_log_append (ctx_script r) (ctx_log r) term kind data co cn cl of
       (ok, s, l) \<Rightarrow> (ok, r\<lparr>ctx_script := s, ctx_log := l\<rparr>))"

fun repoint :: "int \<Rightarrow> int \<Rightarrow> raft_client_pending list \<Rightarrow> raft_client_pending list" where
  "repoint from to [] = []"
| "repoint from to (c # cs) = (if cp_log_index c = from then c\<lparr>cp_log_index := to\<rparr> # cs else c # repoint from to cs)"

definition raft_finalize_joint :: "raft_ctx \<Rightarrow> int \<Rightarrow> raft_mask \<Rightarrow> int \<times> raft_ctx" where
  "raft_finalize_joint r joint_idx cm_new =
    (let existing = raft_find_existing_final_config r joint_idx
     in if existing > 0 then
          raft_apply_config_from_log (r\<lparr>config_pending := True, config_index := existing\<rparr>)
        else
          let r = r\<lparr>config_pending := True, config_index := last_index r + 1\<rparr>;
              (ok, r) = ctx_append r (current_term r) RAFT_ENTRY_CONFIG [] cm_new cm_new (raft_set_view (config_learners r))
          in if \<not> ok then (-1, r\<lparr>config_pending := False, config_index := 0\<rparr>)
             else let (rc, r) = raft_apply_config_from_log r
             in if rc < 0 then
                  let r = snd (raft_log_cut r (config_index r - 1))
                  in (-1, r\<lparr>config_pending := False, config_index := 0\<rparr>)
                else (0, r\<lparr>persist_needed := True, client_pending := repoint joint_idx (config_index r) (client_pending r)\<rparr>))"

definition raft_maybe_finalize_joint :: "raft_ctx \<Rightarrow> int \<times> raft_ctx" where
  "raft_maybe_finalize_joint r =
    (if ctx_state r \<noteq> RAFT_LEADER then (0, r)
     else if \<not> config_joint r \<or> \<not> config_pending r \<or> config_index r \<le> 0 then (0, r)
     else if commit_index r < config_index r then (0, r)
     else
       let l = ctx_log r; off = nat (config_index r - lg_last_included_index l - 1);
           c = lg_chunks l ! log_ci l off
       in if log_ci l off \<ge> lg_num_chunks l \<or> lc_cfg_old c = None then (0, r)
          else if slot lc_kinds l off \<noteq> RAFT_ENTRY_CONFIG then (0, r)
          else if raft_mask_eq (slot lc_cfg_old l off) (slot lc_cfg_new l off) then (0, r)
          else raft_finalize_joint r (config_index r) (slot lc_cfg_new l off))"

end
