(* ===== verification/Raft_Election.thy ===== *)
theory Raft_Election
  imports Raft_Config
begin

section \<open>Elections\<close>

text \<open>
  Vote requests, pre-votes, candidacy, the vote count, the transition to leader with the
  completion of an inherited joint configuration, and the handlers of the vote messages and of
  TimeoutNow.
\<close>

fun broadcast_loop :: "raft_ctx \<Rightarrow> bool \<Rightarrow> raft_peer list \<Rightarrow> bool \<times> raft_ctx" where
  "broadcast_loop r pre_vote [] = (True, r)"
| "broadcast_loop r pre_vote (p # ps) =
    (if pr_is_learner p then broadcast_loop r pre_vote ps
     else let (ok, r) = raft_msg_ensure r (length (msg_buf r) + 1)
          in if \<not> ok then (False, r)
             else let li = last_index r
                  in broadcast_loop (push_msg r (pr_id p) (RAFT_MSG_REQUEST_VOTE
                       \<lparr> rv_term = current_term r, rv_last_log_index = li, rv_last_log_term = term_at r li,
                         rv_candidate_id = self_id r, rv_pre_vote = pre_vote \<rparr>)) pre_vote ps)"

definition raft_broadcast_vote :: "raft_ctx \<Rightarrow> bool \<Rightarrow> int \<times> raft_ctx" where
  "raft_broadcast_vote r pre_vote =
    (let saved_msg = length (msg_buf r); (ok, r) = broadcast_loop r pre_vote (ctx_peers r)
     in if ok then (0, r) else (-1, r\<lparr>msg_buf := take saved_msg (msg_buf r)\<rparr>))"

definition raft_become_candidate :: "raft_ctx \<Rightarrow> int \<times> raft_ctx" where
  "raft_become_candidate r =
    (if raft_is_learner (config_learners r) (self_id r) then (-1, r)
     else if current_term r \<ge> RAFT_TERM_MAX then (-1, r)
     else
       let r = r\<lparr>ctx_state := RAFT_CANDIDATE, current_term := current_term r + 1, voted_for := self_id r,
                 deferred_vote_response := False, deferred_vote_to := 0, persist_needed := True,
                 term_dirty_gen := persist_gen r + 1, ctx_leader_id := 0, ready_leader_change := True,
                 in_pre_vote := False, election_elapsed := 0\<rparr>;
           r = raft_reset_election_deadline r;
           r = r\<lparr>ctx_peers := map (\<lambda>p. p\<lparr>pr_vote := False, pr_pre_vote_acked := False\<rparr>) (ctx_peers r)\<rparr>
       in if \<not> raft_has_voter_peer r then
            let (ok, r) = ctx_append r (current_term r) RAFT_ENTRY_NOOP [] raft_mask_zero raft_mask_zero raft_mask_zero
            in if \<not> ok then
                 (-1, r\<lparr>current_term := current_term r - 1, voted_for := 0, ctx_state := RAFT_FOLLOWER,
                        ready_leader_change := True\<rparr>)
               else
                 (0, r\<lparr>ctx_state := RAFT_LEADER, ctx_leader_id := self_id r, heartbeat_elapsed := 0,
                       leader_contact_elapsed := 0, persist_needed := True,
                       ctx_peers := map (\<lambda>p. p\<lparr>pr_next_index := last_index r + 1, pr_match_index := 0,
                          pr_missed_rounds := 0\<rparr>) (ctx_peers r)\<rparr>)
          else (0, r\<lparr>deferred_vote_request := True, deferred_vote_request_gen := persist_gen r + 1\<rparr>))"

definition raft_count_votes :: "raft_ctx \<Rightarrow> bool \<Rightarrow> bool \<Rightarrow> nat" where
  "raft_count_votes r old_config_only pre_vote =
     length (filter (\<lambda>p. counts_in old_config_only p \<and> (if pre_vote then pr_pre_vote_acked p else pr_vote p)) (ctx_peers r))"

definition raft_start_pre_vote :: "raft_ctx \<Rightarrow> int \<times> raft_ctx" where
  "raft_start_pre_vote r =
    (let r = r\<lparr>in_pre_vote := True, election_elapsed := 0\<rparr>;
         r = raft_reset_election_deadline r;
         r = r\<lparr>deferred_vote_request := False,
               ctx_peers := map (\<lambda>p. p\<lparr>pr_pre_vote_acked := False\<rparr>) (ctx_peers r)\<rparr>
     in if \<not> raft_has_voter_peer r then
          if raft_mask_has (raft_set_view (config_old r)) (self_id r) then raft_become_candidate r else (0, r)
        else let (rc, r) = raft_broadcast_vote r True
             in (0, if rc < 0 then r\<lparr>in_pre_vote := False\<rparr> else r))"

subsection \<open>Becoming leader\<close>

text \<open>The newest joint entry of the live log, scanning down from the tip; 0 when there is none.\<close>

fun last_joint_from :: "raft_log \<Rightarrow> nat \<Rightarrow> int" where
  "last_joint_from l 0 = 0"
| "last_joint_from l (Suc off) =
    (if log_ci l off \<ge> lg_num_chunks l then last_joint_from l off
     else case cfg_at l off of
            None \<Rightarrow> last_joint_from l off
          | Some (cm_old, cm_new, _) \<Rightarrow>
              if \<not> raft_mask_eq cm_old cm_new then lg_last_included_index l + int off + 1 else last_joint_from l off)"

text \<open>Appending the final configuration, with the rollback both finalizing branches share.\<close>

definition leader_append_final :: "raft_ctx \<Rightarrow> raft_mask \<Rightarrow> raft_ctx" where
  "leader_append_final r cm_new =
    (let r = r\<lparr>config_pending := True, config_index := last_index r + 1\<rparr>;
         (ok, r) = ctx_append r (current_term r) RAFT_ENTRY_CONFIG [] cm_new cm_new (raft_set_view (config_learners r))
     in if \<not> ok then r\<lparr>config_pending := False, config_index := 0\<rparr>
        else let (rc, r) = raft_apply_config_from_log r
        in if rc < 0 then (snd (raft_log_cut r (config_index r - 1)))\<lparr>config_pending := False, config_index := 0\<rparr>
           else r\<lparr>persist_needed := True\<rparr>)"

definition leader_resume_joint :: "raft_ctx \<Rightarrow> raft_ctx" where
  "leader_resume_joint r =
    (let l = ctx_log r; last_joint = last_joint_from l (nat (last_index r - lg_last_included_index l))
     in if last_joint \<le> 0 \<and> lg_last_included_index l > 0
           \<and> \<not> raft_mask_eq (raft_set_view (sm_cfg_old (ctx_snapshot r))) (raft_set_view (sm_cfg_new (ctx_snapshot r))) then
          if raft_find_existing_final_config r 0 = 0
          then leader_append_final r (raft_set_view (config_new r)) else r
        else if last_joint > 0 \<and> commit_index r \<ge> last_joint \<and> raft_find_existing_final_config r last_joint = 0 then
          leader_append_final r (slot lc_cfg_new l (nat (last_joint - lg_last_included_index l - 1)))
        else if last_joint > 0 \<and> commit_index r < last_joint \<and> \<not> config_pending r then
          r\<lparr>config_pending := True, config_index := last_joint, joint_elapsed := 0\<rparr>
        else r)"

definition raft_become_leader :: "raft_ctx \<Rightarrow> int \<times> raft_ctx" where
  "raft_become_leader r =
    (let (ok, r) = ctx_append r (current_term r) RAFT_ENTRY_NOOP [] raft_mask_zero raft_mask_zero raft_mask_zero
     in if \<not> ok then
          (-1, r\<lparr>ctx_state := RAFT_FOLLOWER, ready_leader_change := True, voted_for := 0, in_pre_vote := False,
                 ctx_peers := map (\<lambda>p. p\<lparr>pr_vote := False, pr_pre_vote_acked := False\<rparr>) (ctx_peers r)\<rparr>)
        else
          let r = r\<lparr>ctx_state := RAFT_LEADER, ctx_leader_id := self_id r, ready_leader_change := True,
                    heartbeat_elapsed := 0, election_elapsed := 0, leader_contact_elapsed := 0,
                    leadership_confirmed := False, in_pre_vote := False, persist_needed := True,
                    ctx_peers := map (\<lambda>p. p\<lparr>pr_next_index := last_index r + 1, pr_match_index := 0,
                       pr_missed_rounds := 0, pr_pending_snapshot_offset := 0, pr_pending_snapshot_last_index := 0,
                       pr_catchup_round := 0, pr_catchup_round_elapsed := 0\<rparr>) (ctx_peers r)\<rparr>
          in (0, if config_joint r then leader_resume_joint r else r))"

subsection \<open>Vote messages\<close>

definition raft_recv_request_vote :: "raft_ctx \<Rightarrow> int \<Rightarrow> raft_request_vote \<Rightarrow> int \<times> raft_ctx" where
  "raft_recv_request_vote r from rpc =
    (if \<not> raft_phase_ge r RAFT_PHASE_READY then (-1, r)
     else if \<not> raft_id_valid from \<or> \<not> raft_id_valid (rv_candidate_id rpc) then (0, r)
     else if rv_term rpc \<ge> RAFT_TERM_MAX + 1 then (0, r)
     else if rv_pre_vote rpc \<and> leader_contact_elapsed r < cf_election_min_ms (ctx_cfg r) then (0, r)
     else
       let r = (if rv_term rpc > current_term r then raft_step_down r (rv_term rpc) 0 else r)
       in if rv_term rpc < current_term r then (0, r)
          else if \<not> rv_pre_vote rpc \<and> voted_for r \<noteq> 0 \<and> voted_for r \<noteq> rv_candidate_id rpc then (0, r)
          else
            let last_idx = last_index r; last_term = term_at r last_idx;
                log_ok = (rv_last_log_term rpc > last_term
                          \<or> rv_last_log_term rpc = last_term \<and> rv_last_log_index rpc \<ge> last_idx)
            in if \<not> log_ok then (0, r)
               else if rv_pre_vote rpc then
                 let (ok, r) = raft_msg_ensure r (length (msg_buf r) + 1)
                 in if \<not> ok then (-1, r)
                    else (0, push_msg r from (RAFT_MSG_REQUEST_VOTE_RESULT
                            \<lparr> rvr_term = current_term r, rvr_vote_granted = True, rvr_pre_vote = True \<rparr>))
               else
                 (0, r\<lparr>voted_for := rv_candidate_id rpc, election_elapsed := 0, persist_needed := True,
                       deferred_vote_response := True, deferred_vote_to := from,
                       deferred_vote_gen := persist_gen r + 1\<rparr>))"

text \<open>The tally rule: a majority of the new configuration and, during a joint one, of the old too.\<close>

definition vote_quorum :: "raft_ctx \<Rightarrow> bool \<Rightarrow> bool" where
  "vote_quorum r pre_vote =
    (let s_old = (if raft_mask_has (raft_set_view (config_old r)) (self_id r) then 1 else 0);
         s_new = (if raft_mask_has (raft_set_view (config_new r)) (self_id r) then 1 else 0)
     in if config_joint r then
          s_old + raft_count_votes r True pre_vote \<ge> raft_quorum_size_of r True
          \<and> s_new + raft_count_votes r False pre_vote \<ge> raft_quorum_size_of r False
        else s_new + raft_count_votes r False pre_vote \<ge> raft_quorum_size_of r False)"

definition raft_recv_request_vote_result :: "raft_ctx \<Rightarrow> int \<Rightarrow> raft_request_vote_result \<Rightarrow> int \<times> raft_ctx" where
  "raft_recv_request_vote_result r from result =
    (if \<not> raft_id_valid from then (0, r)
     else if \<not> in_pre_vote r \<and> ctx_state r \<noteq> RAFT_CANDIDATE then (0, r)
     else if rvr_term result > current_term r then (0, raft_step_down r (rvr_term result) 0)
     else if rvr_term result < current_term r then (0, r)
     else case raft_find_peer r from of
        None \<Rightarrow> (0, r)
      | Some k \<Rightarrow>
         if rvr_pre_vote result then
           if \<not> in_pre_vote r then (0, r)
           else
             let r = (if rvr_vote_granted result then upd_peer r k (\<lambda>p. p\<lparr>pr_pre_vote_acked := True\<rparr>) else r)
             in if vote_quorum r True then (0, snd (raft_become_candidate (r\<lparr>in_pre_vote := False\<rparr>))) else (0, r)
         else if ctx_state r \<noteq> RAFT_CANDIDATE then (0, r)
         else
           let r = (if rvr_vote_granted result then upd_peer r k (\<lambda>p. p\<lparr>pr_vote := True\<rparr>) else r)
           in if vote_quorum r False then (0, snd (raft_become_leader r)) else (0, r))"

definition raft_recv_timeout_now :: "raft_ctx \<Rightarrow> int \<Rightarrow> raft_timeout_now \<Rightarrow> int \<times> raft_ctx" where
  "raft_recv_timeout_now r from rpc =
    (if \<not> raft_id_valid from then (0, r)
     else if \<not> raft_phase_ge r RAFT_PHASE_READY then (-1, r)
     else if tn_term rpc \<ge> RAFT_TERM_MAX + 1 then (0, r)
     else if tn_term rpc < current_term r then (0, r)
     else
       let r = (if tn_term rpc > current_term r then raft_step_down r (tn_term rpc) (tn_leader_id rpc) else r)
       in if ctx_state r = RAFT_FOLLOWER \<and> tn_leader_id rpc = ctx_leader_id r then
            let li = last_index r; lt = term_at r li
            in if li = tn_last_log_index rpc \<and> lt = tn_last_log_term rpc then raft_become_candidate r else (0, r)
          else (0, r))"

end
