(* ===== verification/Raft_Replication.thy ===== *)
theory Raft_Replication
  imports Raft_Election
begin

section \<open>Replication and commitment\<close>

text \<open>
  The commit rule, the AppendEntries messages a leader queues, the AppendEntries handler of a
  follower (consistency check, conflict overwrite, commit, the acknowledgement and its deferral
  until the state it reports is durable), the leader's handling of the answer with the conflict
  search, snapshot installation messages, and the persistence completions.
\<close>

subsection \<open>Commitment\<close>

definition raft_count_match :: "raft_ctx \<Rightarrow> int \<Rightarrow> bool \<Rightarrow> nat" where
  "raft_count_match r idx old_config_only =
     length (filter (\<lambda>p. counts_in old_config_only p \<and> pr_match_index p \<ge> idx) (ctx_peers r))"

definition commit_quorum :: "raft_ctx \<Rightarrow> int \<Rightarrow> bool" where
  "commit_quorum r idx =
    (let require_durable = raft_has_voter_peer r;
         si_old = raft_mask_has (raft_set_view (config_old r)) (self_id r);
         si_new = raft_mask_has (raft_set_view (config_new r)) (self_id r);
         si_old = (if require_durable \<and> si_old \<and> durable_index r < idx then False else si_old);
         si_new = (if require_durable \<and> si_new \<and> durable_index r < idx then False else si_new);
         ok_new = (of_bool si_new + raft_count_match r idx False \<ge> raft_quorum_size_of r False)
     in if config_joint r
        then of_bool si_old + raft_count_match r idx True \<ge> raft_quorum_size_of r True \<and> ok_new
        else ok_new)"

fun commit_loop :: "raft_ctx \<Rightarrow> int list \<Rightarrow> raft_ctx" where
  "commit_loop r [] = r"
| "commit_loop r (idx # is) =
    (if term_at r idx \<noteq> current_term r then commit_loop r is
     else if commit_quorum r idx then commit_loop (r\<lparr>commit_index := idx, leadership_confirmed := True\<rparr>) is
     else r)"

definition raft_advance_commit :: "raft_ctx \<Rightarrow> raft_ctx" where
  "raft_advance_commit r = commit_loop r [commit_index r + 1..last_index r]"

subsection \<open>Queueing AppendEntries\<close>

text \<open>The byte size of the entry at offset \<open>off\<close> as \<^verbatim>\<open>raft_queue_append_entries\<close> computes it.\<close>

definition queue_size :: "raft_log \<Rightarrow> nat \<Rightarrow> nat" where
  "queue_size l off =
    (let cj = log_ci l off; ck = log_co l off; cur_off = slot lc_data_offsets l off;
         next_off =
           (if lg_last_included_index l + int off + 1 = raft_log_last_index l then lg_data_size l
            else if cj < lg_num_chunks l - 1 \<or> ck + 1 < lg_chunk_size l then
              let (cj2, ck2) = (if ck + 1 \<ge> lg_chunk_size l then (cj + 1, 0) else (cj, ck + 1))
              in if cj2 < lg_num_chunks l \<and> lc_data_offsets (lg_chunks l ! cj2) \<noteq> None
                 then the (lc_data_offsets (lg_chunks l ! cj2)) ! ck2 else lg_data_size l
            else lg_data_size l)
     in if next_off > cur_off then next_off - cur_off else 0)"

fun upd_snap_read :: "raft_snapshot_read_req list \<Rightarrow> int \<Rightarrow> raft_snapshot_read_req \<Rightarrow> raft_snapshot_read_req list option" where
  "upd_snap_read [] fid q = None"
| "upd_snap_read (x # xs) fid q = (if sr_follower_id x = fid then Some (q # xs) else map_option ((#) x) (upd_snap_read xs fid q))"

definition queue_snapshot_read :: "raft_ctx \<Rightarrow> nat \<Rightarrow> raft_ctx" where
  "queue_snapshot_read r pi =
    (if sm_size (ctx_snapshot r) \<le> 0 then r
     else
       let r = (if pr_pending_snapshot_offset (ctx_peers r ! pi) \<ge> sm_size (ctx_snapshot r)
                then upd_peer r pi (\<lambda>p. p\<lparr>pr_pending_snapshot_offset := 0\<rparr>) else r);
           r = upd_peer r pi (\<lambda>p. p\<lparr>pr_pending_snapshot_last_index := sm_last_index (ctx_snapshot r)\<rparr>);
           pr = ctx_peers r ! pi;
           q = \<lparr> sr_follower_id = pr_id pr, sr_last_included_index = lg_last_included_index (ctx_log r),
                 sr_byte_offset = pr_pending_snapshot_offset pr, sr_byte_count = cf_snapshot_chunk_size (ctx_cfg r) \<rparr>
       in case upd_snap_read (snap_read_buf r) (pr_id pr) q of
            Some buf \<Rightarrow> r\<lparr>snap_read_buf := buf\<rparr>
          | None \<Rightarrow>
              let (ok, r) = raft_snap_read_ensure r (length (snap_read_buf r) + 1)
              in if \<not> ok then r else r\<lparr>snap_read_buf := snap_read_buf r @ [q]\<rparr>)"

text \<open>
  The body of the queued message for the peer's next index. The entry arrays are the tails of
  the chunk's arrays from the slot on; the sizes go to this peer's region of the size buffer,
  whose capacity degrades the message to a heartbeat when it is too small.
\<close>

definition append_body :: "raft_ctx \<Rightarrow> raft_peer \<Rightarrow> nat \<Rightarrow> raft_append_entries \<times> nat" where
  "append_body r pr offset =
    (let l = ctx_log r; last = raft_log_last_index l; prev_idx = pr_next_index pr - 1;
         off = nat (pr_next_index pr - lg_last_included_index l - 1); co = log_co l off;
         cnt = last - pr_next_index pr + 1; mc = int (lg_chunk_size l) - int co;
         cnt = (if cnt > mc then mc else cnt); cnt = (if cnt < 0 then 0 else cnt);
         cnt = (if cnt > 0 \<and> (entry_size_cap r = 0 \<or> int (entry_size_cap r) < int offset + cnt) then 0 else cnt);
         ae = \<lparr> ae_term = current_term r, ae_prev_log_index = prev_idx, ae_prev_log_term = term_at r prev_idx,
                ae_leader_commit = commit_index r, ae_read_context = read_context r, ae_entry_terms = None,
                ae_entry_kinds = None, ae_entry_data = None, ae_entry_data_sizes = None, ae_entry_cfg_old = None,
                ae_entry_cfg_new = None, ae_entry_cfg_learners = None, ae_leader_id = self_id r, ae_entry_count = cnt \<rparr>
     in if cnt > 0 then
          let c = lg_chunks l ! log_ci l off
          in (ae\<lparr>ae_entry_terms := Some (drop co (the (lc_terms c))), ae_entry_kinds := Some (drop co (the (lc_kinds c))),
                 ae_entry_data := Some (drop (the (lc_data_offsets c) ! co) (lg_data l)),
                 ae_entry_data_sizes := Some (map (queue_size l) [off..<off + nat cnt]),
                 ae_entry_cfg_old := map_option (drop co) (lc_cfg_old c),
                 ae_entry_cfg_new := map_option (drop co) (lc_cfg_new c),
                 ae_entry_cfg_learners := map_option (drop co) (lc_cfg_learners c)\<rparr>, offset + nat cnt)
        else (ae, offset))"

definition raft_queue_append_entries :: "raft_ctx \<Rightarrow> nat \<Rightarrow> nat \<Rightarrow> raft_ctx \<times> nat" where
  "raft_queue_append_entries r pi offset =
    (if pr_next_index (ctx_peers r ! pi) \<le> lg_last_included_index (ctx_log r) then (queue_snapshot_read r pi, offset)
     else
       let r = (if pr_pending_snapshot_offset (ctx_peers r ! pi) > 0
                then upd_peer r pi (\<lambda>p. p\<lparr>pr_pending_snapshot_offset := 0\<rparr>) else r);
           (ok, r) = raft_msg_ensure r (length (msg_buf r) + 1)
       in if \<not> ok then (r, offset)
          else case append_body r (ctx_peers r ! pi) offset of
                 (ae, offset) \<Rightarrow> (push_msg r (pr_id (ctx_peers r ! pi)) (RAFT_MSG_APPEND ae), offset))"

subsection \<open>Receiving AppendEntries\<close>

text \<open>One entry of the message: term, kind, bytes and masks, and the advanced data cursor.\<close>

definition ae_read :: "raft_append_entries \<Rightarrow> nat \<Rightarrow> nat \<Rightarrow> raft_entry \<times> nat" where
  "ae_read rpc i cur =
    (let eterm = (case ae_entry_terms rpc of None \<Rightarrow> ae_term rpc | Some ts \<Rightarrow> ts ! i);
         kind = (case ae_entry_kinds rpc of None \<Rightarrow> RAFT_ENTRY_COMMAND | Some ks \<Rightarrow> ks ! i);
         mask = (\<lambda>ms. case ms of None \<Rightarrow> raft_mask_zero | Some ms \<Rightarrow> ms ! i);
         (edata, cur) = (case (ae_entry_data rpc, ae_entry_data_sizes rpc) of
            (Some d, Some szs) \<Rightarrow> (take (szs ! i) (drop cur d), cur + szs ! i)
          | _ \<Rightarrow> ([], cur))
     in (\<lparr> en_term = eterm, en_kind = kind, en_data = edata, en_cfg_old = mask (ae_entry_cfg_old rpc),
           en_cfg_new = mask (ae_entry_cfg_new rpc), en_cfg_learners = mask (ae_entry_cfg_learners rpc) \<rparr>, cur))"

definition ae_term_bad :: "raft_append_entries \<Rightarrow> nat \<Rightarrow> bool" where
  "ae_term_bad rpc i = (case ae_entry_terms rpc of None \<Rightarrow> False | Some ts \<Rightarrow> ts ! i \<ge> RAFT_TERM_MAX + 1)"

text \<open>How the entry loop ends: a malformed entry, a rejection with a hint, or the end of the
  entries with \<^verbatim>\<open>log_changed\<close> and \<^verbatim>\<open>append_oom\<close>.\<close>

datatype ae_out = AE_Error | AE_Reject int | AE_Done bool bool

definition ctx_append_entry :: "raft_ctx \<Rightarrow> raft_entry \<Rightarrow> bool \<times> raft_ctx" where
  "ctx_append_entry r e =
     ctx_append r (en_term e) (en_kind e) (en_data e) (en_cfg_old e) (en_cfg_new e) (en_cfg_learners e)"

text \<open>The inner loop: append entry \<open>e\<close> of position \<open>i\<close> and then the rest of the message.\<close>

function ae_append_loop :: "raft_ctx \<Rightarrow> raft_append_entries \<Rightarrow> bool \<Rightarrow> nat \<Rightarrow> raft_entry \<Rightarrow> nat \<Rightarrow> ae_out \<times> raft_ctx" where
  "ae_append_loop r rpc changed i e cur =
    (case ctx_append_entry r e of
       (False, r) \<Rightarrow> (AE_Done changed True, r)
     | (True, r) \<Rightarrow>
         if int (i + 1) \<ge> ae_entry_count rpc then (AE_Done changed False, r)
         else if ae_term_bad rpc (i + 1) then (AE_Error, r)
         else case ae_read rpc (i + 1) cur of (e, cur) \<Rightarrow> ae_append_loop r rpc changed (i + 1) e cur)"
  by pat_completeness auto

termination ae_append_loop
  by (relation "measure (\<lambda>(r, rpc, changed, i, e, cur). nat (ae_entry_count rpc) - i)") auto

declare ae_append_loop.simps [simp del]

function ae_loop :: "raft_ctx \<Rightarrow> raft_append_entries \<Rightarrow> int \<Rightarrow> nat \<Rightarrow> nat \<Rightarrow> ae_out \<times> raft_ctx" where
  "ae_loop r rpc last_idx i cur =
    (if int i \<ge> ae_entry_count rpc then (AE_Done False False, r)
     else
       let eidx = ae_prev_log_index rpc + 1 + int i; (e, cur) = ae_read rpc i cur
       in if en_kind e > 2 then (AE_Error, r)
          else if ae_term_bad rpc i then (AE_Error, r)
          else if eidx \<le> last_idx \<and> eidx > lg_last_included_index (ctx_log r) \<and> term_at r eidx = en_term e
          then ae_loop r rpc last_idx (i + 1) cur
          else if eidx \<le> last_idx then
            if eidx - 1 < lg_last_included_index (ctx_log r) then (AE_Reject (lg_last_included_index (ctx_log r) + 1), r)
            else ae_append_loop (snd (raft_log_cut r (eidx - 1))) rpc True i e cur
          else ae_append_loop r rpc False i e cur)"
  by pat_completeness auto

termination ae_loop
  by (relation "measure (\<lambda>(r, rpc, last_idx, i, cur). nat (ae_entry_count rpc) - i)") auto

declare ae_loop.simps [simp del]

text \<open>The first index the follower stores for the term of the conflicting entry.\<close>

function conflict_first :: "raft_log \<Rightarrow> int \<Rightarrow> int \<Rightarrow> int" where
  "conflict_first l ct cfi =
    (if cfi > lg_last_included_index l + 1 \<and> raft_log_term_at l (cfi - 1) = ct then conflict_first l ct (cfi - 1) else cfi)"
  by pat_completeness auto

termination conflict_first
  by (relation "measure (\<lambda>(l, ct, cfi). nat (cfi - lg_last_included_index l))") auto

declare conflict_first.simps [simp del]

definition ae_conflict :: "raft_ctx \<Rightarrow> raft_append_entries \<Rightarrow> int \<times> int" where
  "ae_conflict r rpc =
    (let last = last_index r; prev = ae_prev_log_index rpc
     in if prev > 0 \<and> prev > lg_last_included_index (ctx_log r) \<and> prev \<le> last then
          let ct = term_at r prev in if ct > 0 then (ct, conflict_first (ctx_log r) ct prev) else (0, 0)
        else (0, 0))"

definition ae_reply_fail :: "raft_ctx \<Rightarrow> raft_append_entries \<Rightarrow> int \<Rightarrow> int \<times> raft_ctx" where
  "ae_reply_fail r rpc reject_hint =
    (let last = last_index r; prev = ae_prev_log_index rpc;
         hint = (if reject_hint > 0 then reject_hint else if prev > last then last + 1 else prev);
         (ct, cfi) = ae_conflict r rpc
     in if persist_needed r \<or> persist_gen r < term_dirty_gen r then
          (0, r\<lparr>deferred_reject_gen := persist_gen r + 1, deferred_reject_last_index := last,
                deferred_reject_to := ctx_leader_id r, deferred_reject_read_context := ae_read_context rpc,
                deferred_reject_hint := hint, deferred_reject_conflict_term := ct,
                deferred_reject_conflict_first_index := cfi, deferred_reject_pending := True\<rparr>)
        else
          let (ok, r) = raft_msg_ensure r (length (msg_buf r) + 1)
          in if \<not> ok then (-1, r)
             else (0, push_msg r (ctx_leader_id r) (RAFT_MSG_APPEND_RESULT
                    \<lparr> aer_term = current_term r, aer_rejected = hint, aer_last_log_index = last,
                      aer_conflict_term = ct, aer_conflict_first_index = cfi, aer_read_context = ae_read_context rpc,
                      aer_success = False \<rparr>)))"

definition ae_commit :: "raft_ctx \<Rightarrow> raft_append_entries \<Rightarrow> raft_ctx" where
  "ae_commit r rpc =
    (if ae_leader_commit rpc > commit_index r then
       let cap = ae_prev_log_index rpc + ae_entry_count rpc; last = last_index r;
           cap = (if cap > last then last else cap);
           cap = (if ae_leader_commit rpc < cap then ae_leader_commit rpc else cap)
       in if cap > commit_index r then r\<lparr>commit_index := cap\<rparr> else r
     else r)"

definition ae_reply_ok :: "raft_ctx \<Rightarrow> raft_append_entries \<Rightarrow> int \<times> raft_ctx" where
  "ae_reply_ok r rpc =
    (if ae_entry_count rpc = 0 \<and> \<not> persist_needed r \<and> persist_gen r \<ge> term_dirty_gen r then
       let (ok, r) = raft_msg_ensure r (length (msg_buf r) + 1)
       in if ok then
            (0, push_msg r (ctx_leader_id r) (RAFT_MSG_APPEND_RESULT
              \<lparr> aer_term = current_term r, aer_rejected = 0,
                aer_last_log_index = (if durable_confirm r < ae_prev_log_index rpc then durable_confirm r
                                      else ae_prev_log_index rpc),
                aer_conflict_term = 0, aer_conflict_first_index = 0, aer_read_context = ae_read_context rpc,
                aer_success = True \<rparr>))
          else (0, r)
     else if persist_needed r then
       let r = (if \<not> deferred_append_response r
                then r\<lparr>deferred_append_gen := persist_gen r + 1, deferred_append_last_index := -1,
                       deferred_append_confirmed := 0\<rparr> else r);
           r = (if ae_prev_log_index rpc + ae_entry_count rpc > deferred_append_confirmed r
                then r\<lparr>deferred_append_confirmed := ae_prev_log_index rpc + ae_entry_count rpc\<rparr> else r)
       in (0, r\<lparr>deferred_append_response := True, deferred_append_to := ctx_leader_id r,
                deferred_append_read_context := ae_read_context rpc\<rparr>)
     else (0, r))"

definition ae_follow :: "raft_ctx \<Rightarrow> int \<Rightarrow> raft_ctx" where
  "ae_follow r leader =
    (let r = r\<lparr>in_pre_vote := False\<rparr>;
         r = (if ctx_leader_id r \<noteq> leader then r\<lparr>ready_leader_change := True\<rparr> else r);
         r = r\<lparr>ctx_leader_id := leader, leader_contact_elapsed := 0, election_elapsed := 0\<rparr>
     in if ctx_state r \<noteq> RAFT_FOLLOWER then r\<lparr>ctx_state := RAFT_FOLLOWER, ready_leader_change := True\<rparr> else r)"

text \<open>The consistency check on the previous entry: \<open>None\<close> when it passes, else the reject hint.\<close>

definition ae_prev_check :: "raft_ctx \<Rightarrow> raft_append_entries \<Rightarrow> int option" where
  "ae_prev_check r rpc =
    (let prev = ae_prev_log_index rpc
     in if prev > 0 then
          if prev > last_index r then Some 0
          else if prev < lg_last_included_index (ctx_log r) then Some (lg_last_included_index (ctx_log r) + 1)
          else if term_at r prev \<noteq> ae_prev_log_term rpc then Some 0 else None
        else None)"

definition raft_recv_append_entries :: "raft_ctx \<Rightarrow> int \<Rightarrow> raft_append_entries \<Rightarrow> int \<times> raft_ctx" where
  "raft_recv_append_entries r from rpc =
    (if \<not> raft_phase_ge r RAFT_PHASE_READY then (-1, r)
     else if \<not> raft_id_valid from \<or> \<not> raft_id_valid (ae_leader_id rpc) then (0, r)
     else if ae_term rpc \<ge> RAFT_TERM_MAX + 1 then (0, r)
     else
       let r = (if ae_term rpc > current_term r then raft_step_down r (ae_term rpc) (ae_leader_id rpc) else r)
       in if ae_term rpc < current_term r then (0, r)
          else if ctx_state r = RAFT_LEADER then (0, r)
          else
            let r = ae_follow r (ae_leader_id rpc)
            in if ae_entry_count rpc < 0 then (-1, r)
               else case ae_prev_check r rpc of
                      Some hint \<Rightarrow> ae_reply_fail r rpc hint
                    | None \<Rightarrow>
                 (case ae_loop r rpc (last_index r) 0 0 of
                    (AE_Error, r) \<Rightarrow> (-1, r)
                  | (AE_Reject hint, r) \<Rightarrow> ae_reply_fail r rpc hint
                  | (AE_Done changed oom, r) \<Rightarrow>
                      let (rc, r) = (if ae_entry_count rpc > 0 \<or> changed \<or> config_apply_stale r
                                     then raft_apply_config_from_log r else (0, r))
                      in if rc < 0 then (-1, r)
                         else if oom then (-1, r)
                         else
                           let r = ae_commit r rpc;
                               r = (if ae_entry_count rpc > 0 \<or> changed then r\<lparr>persist_needed := True\<rparr> else r)
                           in ae_reply_ok r rpc))"

subsection \<open>The leader's side of an answer\<close>

text \<open>The binary search for the first index whose term exceeds \<open>t\<close>.\<close>

function conflict_search :: "raft_log \<Rightarrow> int \<Rightarrow> int \<Rightarrow> int \<Rightarrow> int" where
  "conflict_search l t a b =
    (if a < b then
       let mid = a + (b - a) div 2
       in if raft_log_term_at l mid > t then conflict_search l t a mid else conflict_search l t (mid + 1) b
     else a)"
  by pat_completeness auto

termination conflict_search
  by (relation "measure (\<lambda>(l, t, a, b). nat (b - a))") (auto simp: Let_def)

declare conflict_search.simps [simp del]

definition conflict_next :: "raft_log \<Rightarrow> int \<Rightarrow> int \<Rightarrow> int" where
  "conflict_next l t first =
    (let lo = lg_last_included_index l + 1; hi = raft_log_last_index l; a = conflict_search l t lo (hi + 1);
         nx = (if a > lo \<and> raft_log_term_at l (a - 1) = t then a else first)
     in if nx > hi + 1 then hi + 1 else nx)"

definition aer_progress :: "raft_ctx \<Rightarrow> raft_append_entries_result \<Rightarrow> raft_peer \<Rightarrow> raft_peer" where
  "aer_progress r result pr =
    (if aer_success result then
       let leader_last = last_index r;
           new_match = (if aer_last_log_index result < leader_last then aer_last_log_index result else leader_last)
       in if new_match \<ge> pr_match_index pr then pr\<lparr>pr_match_index := new_match, pr_next_index := new_match + 1\<rparr> else pr
     else if aer_conflict_term result > 0 \<and> aer_conflict_first_index result > 0 then
       pr\<lparr>pr_next_index := conflict_next (ctx_log r) (aer_conflict_term result) (aer_conflict_first_index result)\<rparr>
     else if aer_rejected result > 0 then pr\<lparr>pr_next_index := aer_rejected result\<rparr>
     else if pr_next_index pr > 1 then pr\<lparr>pr_next_index := pr_next_index pr - 1\<rparr>
     else pr)"

definition raft_recv_append_entries_result :: "raft_ctx \<Rightarrow> int \<Rightarrow> raft_append_entries_result \<Rightarrow> int \<times> raft_ctx" where
  "raft_recv_append_entries_result r from result =
    (if \<not> raft_id_valid from then (0, r)
     else if ctx_state r \<noteq> RAFT_LEADER then (0, r)
     else if aer_term result \<ge> RAFT_TERM_MAX + 1 then (0, r)
     else if aer_term result > current_term r then (0, raft_step_down r (aer_term result) 0)
     else if aer_term result < current_term r then (0, r)
     else case raft_find_peer r from of
        None \<Rightarrow> (0, r)
      | Some k \<Rightarrow>
          let pr = ctx_peers r ! k;
              pr = (if aer_success result \<and> aer_read_context result = read_context r
                       \<and> (read_index_pending r \<noteq> [] \<or> read_barriers r \<noteq> []) \<and> read_index_heartbeat_sent r
                       \<and> \<not> pr_read_index_acked pr \<and> \<not> pr_is_learner pr
                    then pr\<lparr>pr_read_index_acked := True\<rparr> else pr);
              pr = (if \<not> pr_is_learner pr then pr\<lparr>pr_quorum_acked := True, pr_missed_rounds := 0\<rparr> else pr);
              pr = aer_progress r result pr;
              r = upd_peer r k (\<lambda>_. pr)
          in if \<not> pr_is_learner pr then (0, raft_advance_commit r) else (0, r))"

subsection \<open>Snapshot installation messages\<close>

definition is_begin :: "raft_ctx \<Rightarrow> raft_install_snapshot \<Rightarrow> bool \<times> raft_ctx" where
  "is_begin r rpc =
    (if sm_last_index (snapshot_recv r) = is_snapshot_last_index rpc \<and> sm_size (snapshot_recv r) = is_snapshot_data_size rpc
     then (True, r)
     else
       let recv = \<lparr> sm_last_index = is_snapshot_last_index rpc, sm_last_term = is_snapshot_last_term rpc,
                    sm_size = is_snapshot_data_size rpc, sm_cfg_old = [], sm_cfg_new = [], sm_cfg_learners = [] \<rparr>;
           r = r\<lparr>snapshot_recv := recv, snapshot_recv_expected_offset := 0, snapshot_install_pending := False\<rparr>;
           (ok, r) =
             (if raft_mask_any (is_snapshot_cfg_old rpc) then
                case raft_set_assign (ctx_script r) [] (is_snapshot_cfg_old rpc) of
                  (False, s, v) \<Rightarrow> (False, r\<lparr>ctx_script := s\<rparr>)
                | (True, s, v) \<Rightarrow>
                    (case raft_set_assign s [] (is_snapshot_cfg_new rpc) of
                       (False, s, v') \<Rightarrow> (False, r\<lparr>ctx_script := s\<rparr>)
                     | (True, s, v') \<Rightarrow>
                         (True, r\<lparr>ctx_script := s, snapshot_recv := recv\<lparr>sm_cfg_old := v, sm_cfg_new := v'\<rparr>\<rparr>))
              else (True, r))
       in if \<not> ok then (False, r\<lparr>snapshot_recv := (snapshot_recv r)\<lparr>sm_last_index := 0\<rparr>\<rparr>)
          else if raft_mask_any (is_snapshot_cfg_learners rpc) then
            (case raft_set_assign (ctx_script r) [] (is_snapshot_cfg_learners rpc) of
               (False, s, v) \<Rightarrow> (False, r\<lparr>ctx_script := s, snapshot_recv := (snapshot_recv r)\<lparr>sm_last_index := 0\<rparr>\<rparr>)
             | (True, s, v) \<Rightarrow> (True, r\<lparr>ctx_script := s, snapshot_recv := (snapshot_recv r)\<lparr>sm_cfg_learners := v\<rparr>\<rparr>))
          else (True, r))"

definition raft_recv_install_snapshot :: "raft_ctx \<Rightarrow> int \<Rightarrow> raft_install_snapshot \<Rightarrow> int \<times> raft_ctx" where
  "raft_recv_install_snapshot r from rpc =
    (if \<not> raft_phase_ge r RAFT_PHASE_READY then (-1, r)
     else if \<not> raft_id_valid from \<or> \<not> raft_id_valid (is_leader_id rpc) then (0, r)
     else if is_term rpc \<ge> RAFT_TERM_MAX + 1 then (0, r)
     else if is_term rpc < current_term r \<or> is_snapshot_last_index rpc < lg_last_included_index (ctx_log r) then
       let (ok, r) = raft_msg_ensure r (length (msg_buf r) + 1)
       in if ok then
            (0, push_msg r from (RAFT_MSG_INSTALL_SNAPSHOT_RESULT
                  \<lparr> isr_term = current_term r, isr_last_included_index = lg_last_included_index (ctx_log r) \<rparr>))
          else (0, r)
     else
       let r = (if is_term rpc > current_term r then raft_step_down r (is_term rpc) (is_leader_id rpc) else r)
       in if ctx_state r = RAFT_LEADER then (0, r)
          else
            let r = ae_follow r (is_leader_id rpc);
                r = (case raft_find_peer r from of None \<Rightarrow> r
                     | Some k \<Rightarrow> upd_peer r k (\<lambda>p. p\<lparr>pr_match_index := is_snapshot_last_index rpc\<rparr>));
                (ok, r) = is_begin r rpc
            in if \<not> ok then (0, r)
               else if is_snapshot_offset rpc \<noteq> snapshot_recv_expected_offset r then (0, r)
               else if is_snapshot_done rpc \<and> is_snapshot_offset rpc + is_snapshot_chunk_size rpc \<noteq> is_snapshot_data_size rpc
               then (-1, r)
               else
                 let r = r\<lparr>snapshot_recv_expected_offset := is_snapshot_offset rpc + is_snapshot_chunk_size rpc\<rparr>
                 in if is_snapshot_done rpc then
                      (0, r\<lparr>snapshot_recv := (snapshot_recv r)\<lparr>sm_last_index := is_snapshot_last_index rpc,
                               sm_last_term := is_snapshot_last_term rpc, sm_size := is_snapshot_data_size rpc\<rparr>,
                            snapshot_install_pending := True, persist_needed := True\<rparr>)
                    else (0, r))"

definition raft_recv_install_snapshot_result :: "raft_ctx \<Rightarrow> int \<Rightarrow> raft_install_snapshot_result \<Rightarrow> int \<times> raft_ctx" where
  "raft_recv_install_snapshot_result r from result =
    (if \<not> raft_id_valid from then (0, r)
     else if ctx_state r \<noteq> RAFT_LEADER then (0, r)
     else if isr_term result \<ge> RAFT_TERM_MAX + 1 then (0, r)
     else if isr_term result > current_term r then (0, raft_step_down r (isr_term result) 0)
     else if isr_term result < current_term r then (0, r)
     else case raft_find_peer r from of
        None \<Rightarrow> (0, r)
      | Some k \<Rightarrow>
          let pr = ctx_peers r ! k;
              li = isr_last_included_index result;
              li = (if li \<le> 0 then pr_pending_snapshot_last_index pr else li);
              pr = (if li \<ge> pr_match_index pr then pr\<lparr>pr_match_index := li, pr_next_index := li + 1\<rparr> else pr);
              pr = pr\<lparr>pr_pending_snapshot_offset := 0\<rparr>
          in if \<not> pr_is_learner pr then
               (0, raft_advance_commit (upd_peer r k (\<lambda>_. pr\<lparr>pr_quorum_acked := True, pr_missed_rounds := 0\<rparr>)))
             else (0, upd_peer r k (\<lambda>_. pr)))"

subsection \<open>Persistence completions\<close>

definition raft_persist_complete :: "raft_ctx \<Rightarrow> int \<Rightarrow> int \<times> raft_ctx" where
  "raft_persist_complete r durable =
    (if ctx_phase r \<noteq> RAFT_PHASE_RUNNING \<and> ctx_phase r \<noteq> RAFT_PHASE_DRAINING then (-1, r)
     else
       let r = r\<lparr>persist_gen := persist_gen r + 1\<rparr>;
           r = (if durable > durable_index r then r\<lparr>durable_index := durable\<rparr> else r);
           tip = last_index r; conf = (if durable < tip then durable else tip);
           r = (if conf > durable_confirm r then r\<lparr>durable_confirm := conf\<rparr> else r);
           r = (if conf > persist_synced_index r then r\<lparr>persist_synced_index := conf\<rparr> else r)
       in (0, if ctx_state r = RAFT_LEADER then raft_advance_commit r else r))"

definition raft_snapshot_persist_complete :: "raft_ctx \<Rightarrow> int \<Rightarrow> int \<times> raft_ctx" where
  "raft_snapshot_persist_complete r durable =
    (if ctx_phase r \<noteq> RAFT_PHASE_RUNNING \<and> ctx_phase r \<noteq> RAFT_PHASE_DRAINING then (-1, r)
     else if snapshot_pending_dirty r \<and> snapshot_data_ready_flag r \<and> durable \<ge> sm_last_index (snapshot_pending r) then
       let sp = snapshot_pending r
       in case raft_set_copy (ctx_script r) [] (sm_cfg_old sp) of
            (False, s, _) \<Rightarrow> (-1, r\<lparr>ctx_script := s\<rparr>)
          | (True, s, co) \<Rightarrow>
         (case raft_set_copy s [] (sm_cfg_new sp) of
            (False, s, _) \<Rightarrow> (-1, r\<lparr>ctx_script := s\<rparr>)
          | (True, s, cn) \<Rightarrow>
         (case raft_set_copy s [] (sm_cfg_learners sp) of
            (False, s, _) \<Rightarrow> (-1, r\<lparr>ctx_script := s\<rparr>)
          | (True, s, cl) \<Rightarrow>
         (case raft_log_compact_prefix s (ctx_log r) (sm_last_index sp) (sm_last_term sp) of
            (False, s, l) \<Rightarrow> (-1, r\<lparr>ctx_script := s, ctx_log := l\<rparr>)
          | (True, s, l) \<Rightarrow>
              (0, r\<lparr>ctx_script := s, ctx_log := l,
                    ctx_snapshot := \<lparr> sm_last_index = sm_last_index sp, sm_last_term = sm_last_term sp, sm_size = sm_size sp,
                       sm_cfg_old = co, sm_cfg_new = cn, sm_cfg_learners = cl \<rparr>,
                    ctx_peers := map (\<lambda>p. p\<lparr>pr_pending_snapshot_offset := 0\<rparr>) (ctx_peers r),
                    snapshot_pending_dirty := False, snapshot_data_ready_flag := False,
                    snapshot_pending := sp\<lparr>sm_cfg_old := [], sm_cfg_new := [], sm_cfg_learners := []\<rparr>\<rparr>))))
     else (0, r))"

end
