(* ===== verification/Raft_Client.thy ===== *)
theory Raft_Client
  imports Raft_Replication
begin

section \<open>Client requests and membership changes\<close>

text \<open>
  Command submission, read barriers on the leader and through ReadIndex on a follower,
  reconfiguration with its deferred catch-up, learners, leadership transfer, local snapshots, and
  the two dispatchers.
\<close>

subsection \<open>Configuration changes\<close>

text \<open>\<open>CATCHUP_READY\<close> for every learner the pending configuration promotes; an emission that
  cannot be buffered ends the loop.\<close>

fun promote_loop :: "raft_ctx \<Rightarrow> int list \<Rightarrow> raft_ctx" where
  "promote_loop r [] = r"
| "promote_loop r (pid # ids) =
    (if pid = self_id r then promote_loop r ids
     else case raft_find_peer r pid of
        None \<Rightarrow> promote_loop r ids
      | Some k \<Rightarrow>
          let lp = ctx_peers r ! k
          in if pr_is_learner lp \<and> pr_catchup_cookie lp \<noteq> 0 \<and> pr_catchup_round lp \<ge> 0 then
               let (ok, r) = raft_result_ensure r (length (result_buf r) + 1)
               in if \<not> ok then r
                  else promote_loop (upd_peer (raft_result_emit r (pr_catchup_cookie lp) RAFT_CLIENT_CATCHUP_READY) k
                         (\<lambda>p. p\<lparr>pr_catchup_round := -1\<rparr>)) ids
             else promote_loop r ids)"

definition raft_commit_config_entry :: "raft_ctx \<Rightarrow> cookie \<Rightarrow> int \<times> raft_ctx" where
  "raft_commit_config_entry r cookie =
    (let r = raft_client_pending_compact r;
         (ok, r) = raft_client_pending_ensure r (client_pending_head r + length (client_pending r) + 1)
     in if \<not> ok then (-1, raft_config_pending_only_clear r)
        else
          let r = r\<lparr>config_index := last_index r + 1\<rparr>;
              (ok, r) = ctx_append r (current_term r) RAFT_ENTRY_CONFIG [] (raft_set_view (config_pending_old r))
                          (raft_set_view (config_pending_new r)) (raft_set_view (config_pending_learners r))
          in if \<not> ok then (-1, raft_config_pending_only_clear r)
             else
               let r = promote_loop r (config_pending_new r);
                   (rc, r) = raft_apply_config_from_log r
               in if rc < 0 then
                    let r = snd (raft_log_cut r (config_index r - 1)) in (-1, raft_config_pending_only_clear r)
                  else
                    (0, r\<lparr>persist_needed := True,
                          client_pending := client_pending r @ [\<lparr> cp_cookie = cookie, cp_log_index = config_index r \<rparr>]\<rparr>))"

definition raft_new_servers_caught_up :: "raft_ctx \<Rightarrow> raft_mask \<Rightarrow> raft_mask \<Rightarrow> int \<Rightarrow> bool" where
  "raft_new_servers_caught_up r old_mask new_mask target =
    (if \<not> raft_mask_any old_mask \<or> \<not> raft_mask_any new_mask then False
     else list_all (\<lambda>pid. raft_mask_has old_mask pid \<or> pid = self_id r \<or>
            (case raft_find_peer r pid of None \<Rightarrow> False | Some k \<Rightarrow> \<not> pr_match_index (ctx_peers r ! k) < target)) new_mask)"

fun add_catchup :: "raft_ctx \<Rightarrow> nat \<Rightarrow> int list \<Rightarrow> raft_ctx" where
  "add_catchup r old_count [] = r"
| "add_catchup r old_count (pid # ids) =
    (if pid = self_id r then add_catchup r old_count ids
     else if raft_find_peer_in (take old_count (ctx_peers r)) pid \<noteq> None then add_catchup r old_count ids
     else add_catchup (r\<lparr>ctx_peers := ctx_peers r @ [peer_zero\<lparr>pr_id := pid, pr_next_index := last_index r + 1\<rparr>]\<rparr>) old_count ids)"

definition raft_ensure_catchup_peers :: "raft_ctx \<Rightarrow> raft_mask \<Rightarrow> int \<times> raft_ctx" where
  "raft_ensure_catchup_peers r new_mask =
    (let need = length (filter (\<lambda>pid. pid \<noteq> self_id r \<and> raft_find_peer r pid = None) new_mask)
     in if need = 0 then (0, r)
        else let (ok, s) = alloc (ctx_script r); r = r\<lparr>ctx_script := s\<rparr>
             in if \<not> ok then (-1, r) else (0, add_catchup r (length (ctx_peers r)) new_mask))"

definition raft_deferred_catchup_abort :: "raft_ctx \<Rightarrow> raft_ctx" where
  "raft_deferred_catchup_abort r =
    (let (ok, r) = raft_result_ensure r (length (result_buf r) + 1);
         r = (if ok then raft_result_emit r (config_catchup_cookie r) RAFT_CLIENT_CATCHUP_FAILED else r)
     in catchup_clear r)"

text \<open>Filling the three pending sets: \<open>config_pending_old\<close> and the learners are copies, the new set is given.\<close>

definition copy_pending_old :: "raft_ctx \<Rightarrow> bool \<times> raft_ctx" where
  "copy_pending_old r = (case raft_set_copy (ctx_script r) (config_pending_old r) (config_old r) of
     (ok, s, v) \<Rightarrow> (ok, r\<lparr>ctx_script := s, config_pending_old := v\<rparr>))"

definition copy_pending_learners :: "raft_ctx \<Rightarrow> bool \<times> raft_ctx" where
  "copy_pending_learners r = (case raft_set_copy (ctx_script r) (config_pending_learners r) (config_learners r) of
     (ok, s, v) \<Rightarrow> (ok, r\<lparr>ctx_script := s, config_pending_learners := v\<rparr>))"

definition copy_pending_new :: "raft_ctx \<Rightarrow> bool \<times> raft_ctx" where
  "copy_pending_new r = (case raft_set_copy (ctx_script r) [] (config_old r) of
     (ok, s, v) \<Rightarrow> (ok, r\<lparr>ctx_script := s, config_pending_new := v\<rparr>))"

definition raft_maybe_advance_reconfig :: "raft_ctx \<Rightarrow> int \<times> raft_ctx" where
  "raft_maybe_advance_reconfig r =
    (if ctx_state r \<noteq> RAFT_LEADER then (0, r)
     else if \<not> config_catchup_active r then (0, r)
     else case raft_make_sorted_ids (ctx_script r) (config_catchup_new r) of
        (None, s) \<Rightarrow> (-1, r\<lparr>ctx_script := s\<rparr>)
      | (Some sids, s) \<Rightarrow>
          (let (ok, r) = copy_pending_old (r\<lparr>ctx_script := s\<rparr>)
           in if \<not> ok then (-1, r)
              else
                let r = r\<lparr>config_pending := True, config_pending_new := sids\<rparr>;
                    (ok, r) = copy_pending_learners r
                in if \<not> ok then (-1, r\<lparr>config_pending_old := [], config_pending_new := [], config_pending := False\<rparr>)
                   else
                     let (rc, r) = raft_commit_config_entry r (config_catchup_cookie r)
                     in if rc < 0 then (-1, r) else (0, catchup_clear r)))"

definition raft_reconfig :: "raft_ctx \<Rightarrow> cookie \<Rightarrow> int list \<Rightarrow> int \<times> raft_ctx" where
  "raft_reconfig r cookie ids =
    (if cookie = 0 then (-1, r)
     else if ctx_phase r \<noteq> RAFT_PHASE_RUNNING then (-1, r)
     else if ctx_state r \<noteq> RAFT_LEADER then (-1, r)
     else if raft_id_valid (transfer_target r) then (-1, r)
     else if config_joint r then (-1, r)
     else if config_catchup_active r then (-1, r)
     else case raft_make_sorted_ids (ctx_script r) ids of
        (None, s) \<Rightarrow> (-1, r\<lparr>ctx_script := s\<rparr>)
      | (Some sids, s) \<Rightarrow>
          (let r = r\<lparr>ctx_script := s\<rparr>
           in if raft_mask_eq sids (raft_set_view (config_old r)) then
                let (ok, r) = raft_result_ensure r (length (result_buf r) + 1)
                in if \<not> ok then (-1, r) else (0, raft_result_emit r cookie RAFT_CLIENT_COMMITTED)
              else
                let caught = raft_new_servers_caught_up r (raft_set_view (config_old r)) sids (last_index r);
                    r = (if config_pending r \<and> config_index r = 0 then raft_config_pending_clear r else r);
                    r = raft_config_zombie_clear r
                in if config_pending r \<and> config_index r > 0 then (-1, r)
                   else if caught then
                     let (ok, r) = copy_pending_old r
                     in if \<not> ok then (-1, r)
                        else
                          let r = r\<lparr>config_pending := True, config_pending_new := sids\<rparr>;
                              (ok, r) = copy_pending_learners r
                          in if \<not> ok then (-1, raft_config_pending_clear r) else raft_commit_config_entry r cookie
                   else
                     case raft_set_assign (ctx_script r) (config_catchup_new r) ids of
                       (False, s, v) \<Rightarrow> (-1, r\<lparr>ctx_script := s\<rparr>)
                     | (True, s, v) \<Rightarrow>
                         (let r = r\<lparr>ctx_script := s, config_catchup_new := v, config_catchup_cookie := cookie\<rparr>;
                              (rc, r) = raft_ensure_catchup_peers r (raft_set_view (config_catchup_new r))
                          in if rc < 0 then (-1, r\<lparr>config_catchup_new := [], config_catchup_cookie := 0\<rparr>)
                             else (0, r\<lparr>config_catchup_active := True, config_catchup_round := 0,
                                        config_catchup_start_index := 0, config_catchup_elapsed := 0,
                                        config_catchup_total_elapsed := 0, heartbeat_elapsed := cf_heartbeat_ms (ctx_cfg r)\<rparr>))))"

fun insert_sorted :: "int \<Rightarrow> int list \<Rightarrow> int list" where
  "insert_sorted v [] = [v]"
| "insert_sorted v (x # xs) = (if x < v then x # insert_sorted v xs else v # x # xs)"

text \<open>The learner operations share their guards and their use of the pending sets.\<close>

definition learner_guard :: "raft_ctx \<Rightarrow> cookie \<Rightarrow> int \<Rightarrow> bool" where
  "learner_guard r cookie learner_id \<longleftrightarrow>
     cookie \<noteq> 0 \<and> ctx_phase r = RAFT_PHASE_RUNNING \<and> ctx_state r = RAFT_LEADER \<and> \<not> raft_id_valid (transfer_target r)
     \<and> \<not> config_joint r \<and> \<not> config_catchup_active r \<and> raft_id_valid learner_id"

definition learner_commit :: "raft_ctx \<Rightarrow> cookie \<Rightarrow> int list \<Rightarrow> int \<times> raft_ctx" where
  "learner_commit r cookie sorted_learners =
    (let (ok, r) = copy_pending_old r
     in if \<not> ok then (-1, r)
        else
          let r = r\<lparr>config_pending := True, config_pending_new := []\<rparr>;
              (ok, r) = copy_pending_new r
          in if \<not> ok then (-1, r\<lparr>config_pending_old := [], config_pending := False\<rparr>)
             else raft_commit_config_entry (r\<lparr>config_pending_learners := sorted_learners\<rparr>) cookie)"

definition raft_add_learner :: "raft_ctx \<Rightarrow> cookie \<Rightarrow> int \<Rightarrow> int \<times> raft_ctx" where
  "raft_add_learner r cookie learner_id =
    (if \<not> learner_guard r cookie learner_id then (-1, r)
     else if raft_mask_has (raft_set_view (config_old r)) learner_id then (-1, r)
     else if raft_is_learner (config_learners r) learner_id then (-1, r)
     else
       let r = raft_config_zombie_clear r
       in if config_pending r \<and> config_index r > 0 then (-1, r)
          else
            let r = (if config_pending r \<and> config_index r = 0 then raft_config_pending_clear r else r);
                (ok, s) = alloc (ctx_script r); r = r\<lparr>ctx_script := s\<rparr>
            in if \<not> ok then (-1, r)
               else
                 let (rc, r) = learner_commit r cookie (insert_sorted learner_id (config_learners r))
                 in if rc = 0 then
                      case raft_find_peer r learner_id of
                        None \<Rightarrow> (rc, r)
                      | Some k \<Rightarrow> (rc, upd_peer r k (\<lambda>p. p\<lparr>pr_catchup_cookie := cookie\<rparr>))
                    else (rc, r))"

definition raft_remove_learner :: "raft_ctx \<Rightarrow> cookie \<Rightarrow> int \<Rightarrow> int \<times> raft_ctx" where
  "raft_remove_learner r cookie learner_id =
    (if \<not> learner_guard r cookie learner_id then (-1, r)
     else if \<not> raft_is_learner (config_learners r) learner_id then (-1, r)
     else
       let r = raft_config_zombie_clear r
       in if config_pending r \<and> config_index r > 0 then (-1, r)
          else
            let r = (if config_pending r \<and> config_index r = 0 then raft_config_pending_clear r else r);
                (ok, s) = (if length (config_learners r) - 1 > 0 then alloc (ctx_script r) else (True, ctx_script r));
                r = r\<lparr>ctx_script := s\<rparr>
            in if \<not> ok then (-1, r)
               else learner_commit r cookie (filter (\<lambda>i. i \<noteq> learner_id) (config_learners r)))"

subsection \<open>Commands, barriers, transfer\<close>

fun pend_commands :: "raft_client_pending list \<Rightarrow> raft_command list \<Rightarrow> int \<Rightarrow> raft_client_pending list" where
  "pend_commands cp [] idx = cp"
| "pend_commands cp (c # cs) idx = pend_commands (cp @ [\<lparr> cp_cookie = cmd_cookie c, cp_log_index = idx \<rparr>]) cs (idx + 1)"

definition raft_submit :: "raft_ctx \<Rightarrow> raft_command list \<Rightarrow> int \<times> raft_ctx" where
  "raft_submit r commands =
    (if length commands = 0 then (0, r)
     else if ctx_phase r \<noteq> RAFT_PHASE_RUNNING then (-1, r)
     else if ctx_state r \<noteq> RAFT_LEADER then (-1, r)
     else if raft_id_valid (transfer_target r) then (-1, r)
     else if list_ex (\<lambda>c. cmd_cookie c = 0 \<or> cmd_command_size c > 0 \<and> cmd_command c = None) commands then (-1, r)
     else
       let r = raft_client_pending_compact r;
           (ok, r) = raft_client_pending_ensure r (client_pending_head r + length (client_pending r) + length commands)
       in if \<not> ok then (-1, r)
          else
            let base_index = last_index r + 1
            in case raft_log_append_commands (ctx_script r) (ctx_log r) (current_term r) commands of
                 (False, s, l) \<Rightarrow> (-1, r\<lparr>ctx_script := s, ctx_log := l\<rparr>)
               | (True, s, l) \<Rightarrow>
                   (0, r\<lparr>ctx_script := s, ctx_log := l,
                         client_pending := pend_commands (client_pending r) commands base_index,
                         persist_needed := True, heartbeat_elapsed := cf_heartbeat_ms (ctx_cfg r)\<rparr>))"

definition raft_read_round_restart :: "raft_ctx \<Rightarrow> raft_ctx" where
  "raft_read_round_restart r =
    (let r = r\<lparr>read_context := read_context r + 1\<rparr>;
         r = (if read_context r = 0 then r\<lparr>read_context := 1\<rparr> else r)
     in r\<lparr>ctx_peers := map (\<lambda>p. p\<lparr>pr_read_index_acked := False\<rparr>) (ctx_peers r), read_index_heartbeat_sent := False\<rparr>)"

definition self_voter :: "raft_ctx \<Rightarrow> bool" where
  "self_voter r \<longleftrightarrow> raft_mask_has (raft_set_view (config_old r)) (self_id r)
     \<or> raft_mask_has (raft_set_view (config_new r)) (self_id r)"

definition raft_barrier :: "raft_ctx \<Rightarrow> cookie \<Rightarrow> int \<times> raft_ctx" where
  "raft_barrier r cookie =
    (if cookie = 0 then (-1, r)
     else if ctx_phase r \<noteq> RAFT_PHASE_RUNNING then (-1, r)
     else if ctx_state r = RAFT_LEADER then
       if raft_id_valid (transfer_target r) then (-1, r)
       else if \<not> self_voter r then (-1, r)
       else
         let (ok, r) = raft_read_barrier_ensure r (length (read_barriers r) + 1)
         in if \<not> ok then (-1, r)
            else
              let r = r\<lparr>read_barriers := read_barriers r @
                        [\<lparr> rb_cookie = cookie, rb_target_index = commit_index r, rb_needs_gen = read_barrier_gen r + 1 \<rparr>]\<rparr>;
                  r = (if length (read_barriers r) = 1 then raft_read_round_restart r else r)
              in (0, r\<lparr>heartbeat_elapsed := cf_heartbeat_ms (ctx_cfg r)\<rparr>)
     else if ctx_state r = RAFT_FOLLOWER then
       if \<not> raft_id_valid (ctx_leader_id r) then (-1, r)
       else
         let (ok, r) = raft_follower_read_ensure r (length (follower_read_pending r) + 1)
         in if \<not> ok then (-1, r)
            else
              let r = r\<lparr>follower_read_pending := follower_read_pending r @ [cookie]\<rparr>
              in (0, if follower_read_frozen r = 0 then r\<lparr>follower_read_waiting := True\<rparr> else r)
     else (-1, r))"

definition raft_transfer :: "raft_ctx \<Rightarrow> cookie \<Rightarrow> int \<Rightarrow> int \<times> raft_ctx" where
  "raft_transfer r cookie target_id =
    (if cookie = 0 then (-1, r)
     else if ctx_phase r \<noteq> RAFT_PHASE_RUNNING then (-1, r)
     else if ctx_state r \<noteq> RAFT_LEADER then (-1, r)
     else if raft_id_valid (transfer_target r) then (-1, r)
     else if \<not> raft_id_valid target_id then (-1, r)
     else if (case raft_find_peer r target_id of None \<Rightarrow> False | Some k \<Rightarrow> pr_is_learner (ctx_peers r ! k)) then (-1, r)
     else (0, r\<lparr>transfer_target := target_id, transfer_elapsed := 0, transfer_cookie := cookie\<rparr>))"

datatype raft_client_message = RAFT_CLIENT_SUBMIT "raft_command list"
  | RAFT_CLIENT_BARRIER cookie
  | RAFT_CLIENT_RECONFIG cookie "int list"
  | RAFT_CLIENT_ADD_LEARNER cookie int
  | RAFT_CLIENT_REMOVE_LEARNER cookie int
  | RAFT_CLIENT_TRANSFER cookie int
  | RAFT_CLIENT_OTHER int

fun raft_recvfrom_client :: "raft_ctx \<Rightarrow> raft_client_message \<Rightarrow> int \<times> raft_ctx" where
  "raft_recvfrom_client r (RAFT_CLIENT_SUBMIT cs) = raft_submit r cs"
| "raft_recvfrom_client r (RAFT_CLIENT_BARRIER c) = raft_barrier r c"
| "raft_recvfrom_client r (RAFT_CLIENT_RECONFIG c ids) = raft_reconfig r c ids"
| "raft_recvfrom_client r (RAFT_CLIENT_ADD_LEARNER c i) = raft_add_learner r c i"
| "raft_recvfrom_client r (RAFT_CLIENT_REMOVE_LEARNER c i) = raft_remove_learner r c i"
| "raft_recvfrom_client r (RAFT_CLIENT_TRANSFER c i) = raft_transfer r c i"
| "raft_recvfrom_client r (RAFT_CLIENT_OTHER t) = (-1, r)"

subsection \<open>ReadIndex\<close>

definition raft_recv_read_index :: "raft_ctx \<Rightarrow> int \<Rightarrow> raft_read_index_req \<Rightarrow> int \<times> raft_ctx" where
  "raft_recv_read_index r from rpc =
    (if \<not> raft_phase_ge r RAFT_PHASE_READY then (-1, r)
     else if \<not> raft_id_valid from then (0, r)
     else if ctx_state r \<noteq> RAFT_LEADER then (0, r)
     else if ri_term rpc < current_term r then (0, r)
     else if ri_term rpc > current_term r then
       if ri_term rpc \<ge> RAFT_TERM_MAX + 1 then (0, r) else (0, raft_step_down r (ri_term rpc) 0)
     else if \<not> self_voter r then (0, r)
     else
       let (ok, r) = raft_read_index_pending_ensure r (length (read_index_pending r) + 1)
       in if \<not> ok then (0, r)
          else
            let r = r\<lparr>read_index_pending := read_index_pending r @ [\<lparr> rip_from = from, rip_index = 0, rip_context = ri_context rpc \<rparr>]\<rparr>;
                r = (if length (read_index_pending r) = 1 then raft_read_round_restart r else r)
            in (0, r\<lparr>heartbeat_elapsed := cf_heartbeat_ms (ctx_cfg r)\<rparr>))"

definition raft_recv_read_index_result :: "raft_ctx \<Rightarrow> int \<Rightarrow> raft_read_index_result \<Rightarrow> int \<times> raft_ctx" where
  "raft_recv_read_index_result r from result =
    (if \<not> raft_phase_ge r RAFT_PHASE_READY then (-1, r)
     else if \<not> raft_id_valid from then (0, r)
     else if follower_read_frozen r = 0 then (0, r)
     else if rir_context result \<noteq> follower_read_context r then (0, r)
     else if rir_term result \<ge> RAFT_TERM_MAX + 1 then (0, r)
     else if rir_term result > current_term r then (0, raft_step_down r (rir_term result) 0)
     else if rir_term result < current_term r then (0, r)
     else
       let n = follower_read_frozen r; (ok, r) = raft_read_barrier_ensure r (length (read_barriers r) + n)
       in if \<not> ok then (-1, r)
          else
            let r = r\<lparr>read_barriers := read_barriers r @ map (\<lambda>c. \<lparr> rb_cookie = c, rb_target_index = rir_read_index result,
                        rb_needs_gen = 0 \<rparr>) (take n (follower_read_pending r)),
                      follower_read_pending := drop n (follower_read_pending r), follower_read_frozen := 0,
                      follower_read_elapsed := 0\<rparr>
            in (0, if length (follower_read_pending r) > 0 then r\<lparr>follower_read_waiting := True\<rparr> else r))"

fun raft_recv_body :: "raft_ctx \<Rightarrow> int \<Rightarrow> raft_msg_body \<Rightarrow> int \<times> raft_ctx" where
  "raft_recv_body r from (RAFT_MSG_REQUEST_VOTE m) = raft_recv_request_vote r from m"
| "raft_recv_body r from (RAFT_MSG_REQUEST_VOTE_RESULT m) = raft_recv_request_vote_result r from m"
| "raft_recv_body r from (RAFT_MSG_APPEND m) = raft_recv_append_entries r from m"
| "raft_recv_body r from (RAFT_MSG_APPEND_RESULT m) = raft_recv_append_entries_result r from m"
| "raft_recv_body r from (RAFT_MSG_INSTALL_SNAPSHOT m) = raft_recv_install_snapshot r from m"
| "raft_recv_body r from (RAFT_MSG_INSTALL_SNAPSHOT_RESULT m) = raft_recv_install_snapshot_result r from m"
| "raft_recv_body r from (RAFT_MSG_READ_INDEX m) = raft_recv_read_index r from m"
| "raft_recv_body r from (RAFT_MSG_READ_INDEX_RESULT m) = raft_recv_read_index_result r from m"
| "raft_recv_body r from (RAFT_MSG_TIMEOUT_NOW m) = raft_recv_timeout_now r from m"
| "raft_recv_body r from (RAFT_MSG_OTHER t) = (-1, r)"

definition raft_recvfrom_peer :: "raft_ctx \<Rightarrow> raft_peer_message \<Rightarrow> int \<times> raft_ctx" where
  "raft_recvfrom_peer r msg =
    (if ctx_phase r = RAFT_PHASE_STOPPED then (0, r) else raft_recv_body r (pm_from msg) (pm_body msg))"

subsection \<open>Local snapshots and shutdown\<close>

fun config_beyond :: "raft_log \<Rightarrow> int list \<Rightarrow> bool" where
  "config_beyond l [] = False"
| "config_beyond l (idx # is) =
    (let off = nat (idx - lg_last_included_index l - 1)
     in if log_ci l off \<ge> lg_num_chunks l then False
        else if slot lc_kinds l off = RAFT_ENTRY_CONFIG then True else config_beyond l is)"

definition raft_has_config_beyond :: "raft_ctx \<Rightarrow> int \<Rightarrow> bool" where
  "raft_has_config_beyond r applied =
    (let l = ctx_log r; start = applied + 1;
         start = (if start < lg_last_included_index l + 1 then lg_last_included_index l + 1 else start)
     in config_beyond l [start..last_index r])"

definition raft_snapshot :: "raft_ctx \<Rightarrow> int \<times> raft_ctx" where
  "raft_snapshot r =
    (if ctx_phase r \<noteq> RAFT_PHASE_RUNNING then (-1, r)
     else if ctx_state r \<noteq> RAFT_LEADER \<and> ctx_state r \<noteq> RAFT_FOLLOWER then (-1, r)
     else if snapshot_pending_dirty r then (-1, r)
     else if config_apply_stale r then (-1, r)
     else if raft_has_config_beyond r (last_applied r) then (-1, r)
     else
       let sp = \<lparr> sm_last_index = last_applied r, sm_last_term = term_at r (last_applied r), sm_size = 0,
                  sm_cfg_old = [], sm_cfg_new = [], sm_cfg_learners = [] \<rparr>;
           fail = (\<lambda>s. (-1, r\<lparr>ctx_script := s, snapshot_pending := sp, snapshot_pending_dirty := False\<rparr>))
       in case raft_set_copy (ctx_script r) [] (config_old r) of
            (False, s, _) \<Rightarrow> fail s
          | (True, s, co) \<Rightarrow>
         (case raft_set_copy s [] (config_new r) of
            (False, s, _) \<Rightarrow> fail s
          | (True, s, cn) \<Rightarrow>
         (case raft_set_copy s [] (config_learners r) of
            (False, s, _) \<Rightarrow> fail s
          | (True, s, cl) \<Rightarrow>
              (0, r\<lparr>ctx_script := s, snapshot_pending_dirty := True,
                    snapshot_pending := sp\<lparr>sm_cfg_old := co, sm_cfg_new := cn, sm_cfg_learners := cl\<rparr>\<rparr>))))"

definition raft_snapshot_data_provided :: "raft_ctx \<Rightarrow> int \<Rightarrow> int \<Rightarrow> bytes \<Rightarrow> nat \<Rightarrow> int \<times> raft_ctx" where
  "raft_snapshot_data_provided r follower_id byte_offset data sz =
    (if \<not> raft_id_valid follower_id then (-1, r)
     else if ctx_phase r \<noteq> RAFT_PHASE_RUNNING then (-1, r)
     else if ctx_state r \<noteq> RAFT_LEADER then (-1, r)
     else case raft_find_peer r follower_id of
        None \<Rightarrow> (-1, r)
      | Some k \<Rightarrow>
         if byte_offset \<noteq> pr_pending_snapshot_offset (ctx_peers r ! k) then (0, r)
         else
           let (ok, r) = raft_msg_ensure r (length (msg_buf r) + 1)
           in if \<not> ok then (-1, r)
              else
                let snap = ctx_snapshot r; remaining = sm_size snap - byte_offset;
                    remaining = (if remaining < 0 then 0 else remaining);
                    sz = (if int sz > remaining then nat remaining else sz);
                    r = push_msg r follower_id (RAFT_MSG_INSTALL_SNAPSHOT
                      \<lparr> is_term = current_term r, is_snapshot_last_index = sm_last_index snap,
                        is_snapshot_last_term = sm_last_term snap, is_snapshot_offset = byte_offset,
                        is_snapshot_data_size = sm_size snap, is_snapshot_chunk_size = int sz,
                        is_snapshot_cfg_old = raft_set_view (sm_cfg_old snap),
                        is_snapshot_cfg_new = raft_set_view (sm_cfg_new snap),
                        is_snapshot_cfg_learners = raft_set_view (sm_cfg_learners snap), is_snapshot_data = data,
                        is_snapshot_done = (byte_offset + int sz = sm_size snap), is_leader_id = self_id r \<rparr>)
                in (0, upd_peer r k (\<lambda>p. p\<lparr>pr_pending_snapshot_offset := byte_offset + int sz\<rparr>)))"

definition raft_snapshot_data_ready :: "raft_ctx \<Rightarrow> int \<Rightarrow> int \<times> raft_ctx" where
  "raft_snapshot_data_ready r total_size =
    (if ctx_phase r \<noteq> RAFT_PHASE_RUNNING then (-1, r)
     else (0, r\<lparr>snapshot_pending := (snapshot_pending r)\<lparr>sm_size := total_size\<rparr>, snapshot_data_ready_flag := True,
                persist_needed := True\<rparr>))"

definition raft_ready_consumed :: "raft_ctx \<Rightarrow> raft_ctx" where
  "raft_ready_consumed r = r\<lparr>apply_buf := [], result_buf := [], msg_buf := [], snap_read_buf := [],
     ready_persist_pending := False, ready_leader_change := False\<rparr>"

definition raft_stop :: "raft_ctx \<Rightarrow> raft_ctx" where
  "raft_stop r = (if ctx_phase r = RAFT_PHASE_READY \<or> ctx_phase r = RAFT_PHASE_RUNNING
     then r\<lparr>ctx_phase := RAFT_PHASE_STOPPING\<rparr> else r)"

definition raft_should_stop :: "raft_ctx \<Rightarrow> bool" where
  "raft_should_stop r \<longleftrightarrow> ctx_phase r \<ge> RAFT_PHASE_STOPPING"

end
