(* ===== verification/Raft_Tick.thy ===== *)
theory Raft_Tick
  imports Raft_Client
begin

section \<open>The leader tick and the apply queue\<close>

text \<open>
  The periodic work of \<^verbatim>\<open>raft.h\<close>: the deferred membership change and its deadline, the abort of a
  joint configuration nobody acknowledged, check-quorum, the read-barrier generation, the
  heartbeat with its superseded messages, the ReadIndex answers and the learner rounds
  (\<^verbatim>\<open>raft_leader_tick\<close>); then the queue of committed entries, the follower's read round, the
  barriers, and \<^verbatim>\<open>raft_advance_inner\<close>. A step that may leave the function early returns the
  flag \<open>True\<close> when the function goes on.
\<close>

subsection \<open>Membership deadlines\<close>

definition tick_round :: "raft_ctx \<Rightarrow> u32 \<Rightarrow> bool \<times> raft_ctx" where
  "tick_round r elapsed_ms =
    (if config_catchup_round r = 0 then
       (True, r\<lparr>config_catchup_round := 1, config_catchup_start_index := last_index r, config_catchup_elapsed := 0\<rparr>)
     else if raft_new_servers_caught_up r (raft_set_view (config_old r)) (raft_set_view (config_catchup_new r))
               (config_catchup_start_index r) then
       if config_catchup_round r \<ge> RAFT_CATCHUP_ROUNDS then
         if config_catchup_elapsed r < cf_election_min_ms (ctx_cfg r) then
           let (rc, r) = raft_maybe_advance_reconfig r in (\<not> rc < 0, r)
         else (True, raft_deferred_catchup_abort r)
       else
         (True, r\<lparr>config_catchup_round := config_catchup_round r + 1, config_catchup_start_index := last_index r,
                  config_catchup_elapsed := 0\<rparr>)
     else (True, r\<lparr>config_catchup_elapsed := raft_elapsed_add (config_catchup_elapsed r) elapsed_ms\<rparr>))"

definition tick_catchup :: "raft_ctx \<Rightarrow> u32 \<Rightarrow> bool \<times> raft_ctx" where
  "tick_catchup r elapsed_ms =
    (if \<not> config_catchup_active r then (True, r)
     else
       let r = r\<lparr>config_catchup_total_elapsed := raft_elapsed_add (config_catchup_total_elapsed r) elapsed_ms\<rparr>;
           (go, r) = tick_round r elapsed_ms
       in if \<not> go then (False, r)
          else if config_catchup_active r
                  \<and> unat (config_catchup_total_elapsed r) \<ge> unat (cf_election_min_ms (ctx_cfg r)) * 10
          then (True, raft_deferred_catchup_abort r)
          else (True, r))"

text \<open>The abort of a joint entry of this term that no peer acknowledged.\<close>

definition joint_abort :: "raft_ctx \<Rightarrow> raft_ctx" where
  "joint_abort r =
    (let joint_idx = config_index r;
         keep = takeWhile (\<lambda>c. \<not> cp_log_index c \<ge> joint_idx) (client_pending r);
         drp = drop (length keep) (client_pending r);
         r = emit_all r (map cp_cookie drp) RAFT_CLIENT_FAILED;
         r = r\<lparr>client_pending := keep\<rparr>;
         r = snd (raft_log_cut r (joint_idx - 1));
         r = r\<lparr>config_pending := False, config_index := 0\<rparr>;
         r = catchup_clear r;
         r = r\<lparr>joint_elapsed := 0, persist_needed := True\<rparr>;
         r = (if current_term r < RAFT_TERM_MAX then r\<lparr>current_term := current_term r + 1\<rparr> else r);
         r = r\<lparr>voted_for := 0\<rparr>;
         r = raft_step_down r (current_term r) 0
     in snd (raft_apply_config_from_log r))"

definition tick_joint :: "raft_ctx \<Rightarrow> u32 \<Rightarrow> bool \<times> raft_ctx" where
  "tick_joint r elapsed_ms =
    (if config_joint r \<and> config_pending r \<and> commit_index r < config_index r then
       let r = r\<lparr>joint_elapsed := raft_elapsed_add (joint_elapsed r) elapsed_ms\<rparr>
       in if unat (joint_elapsed r) \<ge> unat (cf_election_min_ms (ctx_cfg r)) * 10 then
            let replicated = list_ex (\<lambda>p. pr_match_index p \<ge> config_index r) (ctx_peers r)
            in if \<not> replicated \<and> term_at r (config_index r) = current_term r
               then (False, joint_abort r)
               else (True, r\<lparr>joint_elapsed := 0\<rparr>)
          else (True, r)
     else (True, r\<lparr>joint_elapsed := 0\<rparr>))"

subsection \<open>Contact quorums\<close>

definition peer_tally :: "raft_ctx \<Rightarrow> (raft_peer \<Rightarrow> bool) \<Rightarrow> bool \<Rightarrow> nat" where
  "peer_tally r acked old_config =
     of_bool (raft_mask_has (raft_set_view (if old_config then config_old r else config_new r)) (self_id r))
     + length (filter (\<lambda>p. acked p \<and> (if old_config then pr_in_old_config p else pr_in_new_config p)) (ctx_peers r))"

definition tally_quorum :: "raft_ctx \<Rightarrow> (raft_peer \<Rightarrow> bool) \<Rightarrow> bool" where
  "tally_quorum r acked =
    (if config_joint r
     then peer_tally r acked True \<ge> raft_quorum_size_of r True \<and> peer_tally r acked False \<ge> raft_quorum_size_of r False
     else peer_tally r acked False \<ge> raft_quorum_size_of r False)"

definition in_contact :: "raft_peer \<Rightarrow> bool" where
  "in_contact p \<longleftrightarrow> pr_quorum_acked p \<or> pr_pending_snapshot_offset p > 0"

definition read_acked :: "raft_peer \<Rightarrow> bool" where
  "read_acked p \<longleftrightarrow> pr_read_index_acked p \<and> \<not> pr_is_learner p"

definition tick_quorum :: "raft_ctx \<Rightarrow> raft_ctx" where
  "tick_quorum r =
    (let r = (if tally_quorum r in_contact then r\<lparr>election_elapsed := 0\<rparr> else r)
     in if length (read_barriers r) > 0 \<and> tally_quorum r read_acked
        then r\<lparr>read_barrier_gen := read_barrier_gen r + 1\<rparr> else r)"

subsection \<open>Heartbeat\<close>

definition entry_total :: "raft_ctx \<Rightarrow> int" where
  "entry_total r =
     sum_list (map (\<lambda>p. int (lg_chunk_size (ctx_log r))
          - int (log_co (ctx_log r) (nat (pr_next_index p - lg_last_included_index (ctx_log r) - 1))))
        (filter (\<lambda>p. \<not> pr_next_index p \<le> lg_last_included_index (ctx_log r)) (ctx_peers r)))"

definition entry_size_ensure :: "raft_ctx \<Rightarrow> raft_ctx" where
  "entry_size_ensure r =
    (let total = entry_total r
     in if total > int (entry_size_cap r) \<and> total \<le> 2147483647 then
          let (ok, s) = alloc (ctx_script r); r = r\<lparr>ctx_script := s\<rparr>
          in if ok then r\<lparr>entry_size_cap := nat total\<rparr> else r
        else r)"

definition queue_all :: "raft_ctx \<Rightarrow> raft_ctx" where
  "queue_all r = fst (foldl (\<lambda>(r, off) i. raft_queue_append_entries r i off) (r, 0) [0..<length (ctx_peers r)])"

definition is_append :: "raft_peer_message \<Rightarrow> bool" where
  "is_append m = (case pm_body m of RAFT_MSG_APPEND ae \<Rightarrow> True | _ \<Rightarrow> False)"

definition tick_heartbeat :: "raft_ctx \<Rightarrow> raft_ctx" where
  "tick_heartbeat r =
    (if heartbeat_elapsed r \<ge> cf_heartbeat_ms (ctx_cfg r) \<or> length (read_barriers r) > 0 \<and> \<not> leadership_confirmed r then
       let old_msg_count = length (msg_buf r);
           r = r\<lparr>heartbeat_elapsed := 0,
                 ctx_peers := map (\<lambda>p. p\<lparr>pr_missed_rounds := (if pr_quorum_acked p then 0 else pr_missed_rounds p + 1),
                                        pr_quorum_acked := False\<rparr>) (ctx_peers r)\<rparr>;
           r = entry_size_ensure r;
           r = queue_all r
       in r\<lparr>msg_buf := filter (\<lambda>m. \<not> is_append m) (take old_msg_count (msg_buf r)) @ drop old_msg_count (msg_buf r),
            read_index_heartbeat_sent := True\<rparr>
     else r)"

subsection \<open>ReadIndex answers and learner rounds\<close>

definition tick_read_index :: "raft_ctx \<Rightarrow> raft_ctx" where
  "tick_read_index r =
    (if length (read_index_pending r) > 0 \<and> tally_quorum r read_acked \<and> leadership_confirmed r then
       let (ok, r) = raft_msg_ensure r (length (msg_buf r) + length (read_index_pending r))
       in if ok then
            (foldl (\<lambda>r q. push_msg r (rip_from q) (RAFT_MSG_READ_INDEX_RESULT
               \<lparr> rir_term = current_term r, rir_read_index = commit_index r, rir_context = rip_context q \<rparr>))
               r (read_index_pending r))\<lparr>read_index_pending := [], read_index_heartbeat_sent := False\<rparr>
          else r
     else r)"

fun learner_rounds :: "raft_ctx \<Rightarrow> u32 \<Rightarrow> nat list \<Rightarrow> raft_ctx" where
  "learner_rounds r elapsed_ms [] = r"
| "learner_rounds r elapsed_ms (i # is) =
    (let pr = ctx_peers r ! i
     in if \<not> pr_is_learner pr \<or> pr_catchup_round pr < 0 then learner_rounds r elapsed_ms is
        else if pr_catchup_round pr = 0 then
          learner_rounds (upd_peer r i (\<lambda>p. p\<lparr>pr_catchup_round := 1, pr_catchup_round_start_index := last_index r,
             pr_catchup_round_elapsed := 0\<rparr>)) elapsed_ms is
        else if pr_match_index pr \<ge> pr_catchup_round_start_index pr then
          if pr_catchup_round pr \<ge> RAFT_CATCHUP_ROUNDS then
            let (ok, r) = raft_result_ensure r (length (result_buf r) + 1)
            in if \<not> ok then r
               else if pr_catchup_round_elapsed pr < cf_election_min_ms (ctx_cfg r) then
                 learner_rounds (upd_peer (raft_result_emit r (pr_catchup_cookie pr) RAFT_CLIENT_CATCHUP_READY) i
                    (\<lambda>p. p\<lparr>pr_catchup_round := -1\<rparr>)) elapsed_ms is
               else
                 learner_rounds (upd_peer (raft_result_emit r (pr_catchup_cookie pr) RAFT_CLIENT_CATCHUP_FAILED) i
                    (\<lambda>p. p\<lparr>pr_catchup_round := -2\<rparr>)) elapsed_ms is
          else
            learner_rounds (upd_peer r i (\<lambda>p. p\<lparr>pr_catchup_round := pr_catchup_round p + 1,
               pr_catchup_round_start_index := last_index r, pr_catchup_round_elapsed := 0\<rparr>)) elapsed_ms is
        else
          learner_rounds (upd_peer r i (\<lambda>p. p\<lparr>pr_catchup_round_elapsed :=
             raft_elapsed_add (pr_catchup_round_elapsed p) elapsed_ms\<rparr>)) elapsed_ms is)"

definition raft_leader_tick :: "raft_ctx \<Rightarrow> u32 \<Rightarrow> raft_ctx" where
  "raft_leader_tick r elapsed_ms =
    (let (go, r) = tick_catchup r elapsed_ms
     in if \<not> go then r
        else
          let (go, r) = tick_joint r elapsed_ms
          in if \<not> go then r
             else
               let r = tick_quorum r
               in if election_elapsed r \<ge> election_deadline r then raft_step_down r (current_term r) 0
                  else
                    let (rc, r) = raft_maybe_finalize_joint (raft_advance_commit r)
                    in if rc < 0 then r
                       else
                         let r = tick_read_index (tick_heartbeat r)
                         in learner_rounds r elapsed_ms [0..<length (ctx_peers r)])"

subsection \<open>The apply queue\<close>

definition raft_pending_cookie :: "raft_ctx \<Rightarrow> int \<Rightarrow> cookie" where
  "raft_pending_cookie r idx =
    (case find (\<lambda>c. cp_log_index c = idx) (client_pending r) of None \<Rightarrow> 0 | Some c \<Rightarrow> cp_cookie c)"

definition apply_size :: "raft_log \<Rightarrow> int \<Rightarrow> nat \<Rightarrow> nat" where
  "apply_size l idx off =
    (let ci = log_ci l off; co = log_co l off; a = slot lc_data_offsets l off
     in if idx \<le> raft_log_last_index l then
          let next_off =
            (if idx < raft_log_last_index l then
               if co + 1 < lg_chunk_size l then the (lc_data_offsets (lg_chunks l ! ci)) ! (co + 1)
               else if ci + 1 < lg_num_chunks l \<and> lc_data_offsets (lg_chunks l ! (ci + 1)) \<noteq> None
               then the (lc_data_offsets (lg_chunks l ! (ci + 1))) ! 0
               else lg_data_size l
             else lg_data_size l)
          in if next_off > a then next_off - a else 0
        else 0)"

definition apply_item :: "raft_ctx \<Rightarrow> int \<Rightarrow> raft_apply_entry" where
  "apply_item r idx =
    (let l = ctx_log r; off = nat (idx - lg_last_included_index l - 1); ci = log_ci l off; c = lg_chunks l ! ci;
         here = (ci < lg_num_chunks l \<and> lc_data_offsets c \<noteq> None);
         kind = (if here \<and> lc_kinds c \<noteq> None then slot lc_kinds l off else RAFT_ENTRY_COMMAND);
         masks = (kind = RAFT_ENTRY_CONFIG \<and> ci < lg_num_chunks l \<and> lc_cfg_old c \<noteq> None)
     in \<lparr> ap_index = idx, ap_term = raft_log_term_at l idx, ap_kind = kind,
          ap_command = (if here then take (apply_size l idx off) (drop (slot lc_data_offsets l off) (lg_data l)) else []),
          ap_cookie = raft_pending_cookie r idx,
          ap_cfg_old = (if masks then Some (slot lc_cfg_old l off) else None),
          ap_cfg_new = (if masks then Some (slot lc_cfg_new l off) else None),
          ap_cfg_learners = (if masks then Some (slot lc_cfg_learners l off) else None) \<rparr>)"

fun enqueue_loop :: "raft_ctx \<Rightarrow> int list \<Rightarrow> raft_ctx" where
  "enqueue_loop r [] = r"
| "enqueue_loop r (idx # is) =
    (if snapshot_install_pending r \<and> idx > sm_last_index (snapshot_recv r) then r
     else let (ok, r) = raft_apply_ensure r (length (apply_buf r) + 1)
          in if \<not> ok then r
             else enqueue_loop (r\<lparr>apply_buf := apply_buf r @ [apply_item r idx], apply_offered := idx\<rparr>) is)"

definition raft_enqueue_apply :: "raft_ctx \<Rightarrow> raft_ctx" where
  "raft_enqueue_apply r = enqueue_loop r [apply_offered r + 1..commit_index r]"

subsection \<open>Reads\<close>

definition raft_follower_read_materialize :: "raft_ctx \<Rightarrow> raft_ctx" where
  "raft_follower_read_materialize r =
    (let (ok, r) = raft_msg_ensure r (length (msg_buf r) + 1)
     in if \<not> ok then r
        else
          let r = r\<lparr>follower_read_context := follower_read_context r + 1\<rparr>;
              r = (if follower_read_context r = 0 then r\<lparr>follower_read_context := 1\<rparr> else r);
              r = push_msg r (ctx_leader_id r) (RAFT_MSG_READ_INDEX
                    \<lparr> ri_term = current_term r, ri_context = follower_read_context r \<rparr>)
          in r\<lparr>follower_read_frozen := length (follower_read_pending r), follower_read_elapsed := 0,
               follower_read_waiting := False\<rparr>)"

definition barrier_ready :: "raft_ctx \<Rightarrow> raft_read_barrier \<Rightarrow> bool" where
  "barrier_ready r b =
    (if ctx_state r = RAFT_LEADER then
       let effective_target = (if commit_index r > rb_target_index b then commit_index r else rb_target_index b)
       in leadership_confirmed r \<and> read_barrier_gen r \<ge> rb_needs_gen b \<and> last_applied r \<ge> effective_target
     else last_applied r \<ge> rb_target_index b)"

fun barrier_loop :: "raft_ctx \<Rightarrow> raft_read_barrier list \<Rightarrow> raft_ctx \<times> raft_read_barrier list" where
  "barrier_loop r [] = (r, [])"
| "barrier_loop r (b # bs) =
    (if barrier_ready r b then
       let (ok, r) = raft_result_ensure r (length (result_buf r) + 1)
       in if \<not> ok then (r, b # bs) else barrier_loop (raft_result_emit r (rb_cookie b) RAFT_CLIENT_READY) bs
     else case barrier_loop r bs of (r, kept) \<Rightarrow> (r, b # kept))"

definition raft_check_barriers :: "raft_ctx \<Rightarrow> raft_ctx" where
  "raft_check_barriers r = (case barrier_loop r (read_barriers r) of (r, kept) \<Rightarrow> r\<lparr>read_barriers := kept\<rparr>)"

definition raft_advance_inner :: "raft_ctx \<Rightarrow> u32 \<Rightarrow> int \<times> raft_ctx" where
  "raft_advance_inner r elapsed_ms =
    (let (rc, r) = (if config_apply_stale r then raft_apply_config_from_log r else (0, r))
     in if rc < 0 then (-1, r)
        else
          let (rc, r) = (if (ctx_state r = RAFT_FOLLOWER \<or> ctx_state r = RAFT_CANDIDATE)
                            \<and> election_elapsed r \<ge> election_deadline r then raft_start_pre_vote r else (0, r))
          in if rc < 0 then (-1, r)
             else
               let r = (if ctx_state r = RAFT_LEADER then raft_leader_tick r elapsed_ms else r)
               in (0, raft_check_barriers (raft_enqueue_apply r)))"

end
