(* ===== verification/Raft_Advance.thy ===== *)
theory Raft_Advance
  imports Raft_Tick
begin

section \<open>Lifecycle: create, advance, apply\<close>

text \<open>
  The entry points that drive a node: \<^verbatim>\<open>raft_create\<close> with the restore of a persisted state,
  \<^verbatim>\<open>raft_advance\<close> with its timeouts, the release of the deferred answers once the state they
  report is durable, and the assembly of the Ready bundle, \<^verbatim>\<open>raft_apply_complete\<close> with the
  installation of a received snapshot, and \<^verbatim>\<open>raft_inspect\<close>. The Ready bundle holds the values
  its pointers show.
\<close>

subsection \<open>Creation\<close>

definition meta_zero :: raft_snapshot_meta where
  "meta_zero = \<lparr> sm_last_index = 0, sm_last_term = 0, sm_size = 0, sm_cfg_old = [], sm_cfg_new = [], sm_cfg_learners = [] \<rparr>"

function bits_loop :: "nat \<Rightarrow> nat \<Rightarrow> nat" where
  "bits_loop sz b = (if 2 ^ b < sz then bits_loop sz (b + 1) else b)"
  by pat_completeness auto

termination bits_loop
  by (relation "measure (\<lambda>(sz, b). sz - 2 ^ b)") (auto simp: diff_less_mono2)

declare bits_loop.simps [simp del]

definition log_init :: "int \<Rightarrow> raft_log" where
  "log_init log_chunk_size =
    (let sz = (if log_chunk_size > 0 then log_chunk_size else 256);
         sz = (if sz > 1048576 then 1048576 else sz);
         bits = bits_loop (nat sz) 0
     in \<lparr> lg_chunks = [], lg_chunk_capacity = 0, lg_chunk_bits = bits, lg_chunk_mask = 2 ^ bits - 1,
          lg_chunk_size = 2 ^ bits, lg_data = [], lg_data_capacity = 0, lg_count = 0,
          lg_last_included_index = 0, lg_last_included_term = 0 \<rparr>)"

text \<open>The zeroed context in phase READY.\<close>

definition ctx_init :: "script \<Rightarrow> raft_config \<Rightarrow> raft_ctx" where
  "ctx_init s cfg = \<lparr> ctx_script = s, ctx_cfg = cfg, prev_leader_state = RAFT_FOLLOWER, ctx_phase = RAFT_PHASE_READY,
     ctx_state = RAFT_FOLLOWER, voted_for = 0, ctx_leader_id = 0, ready_persist_pending = False,
     ready_leader_change = False, current_term = 0, commit_index = 0, last_applied = 0, apply_offered = 0,
     ctx_rng = cf_seed cfg, heartbeat_elapsed = 0, election_elapsed = 0, election_deadline = 0,
     leader_contact_elapsed = 0, in_pre_vote = False, transfer_target = 0, transfer_elapsed = 0, transfer_cookie = 0,
     persist_needed = False, ctx_peers = [], ctx_log = log_init (cf_log_chunk_size cfg), config_old = [],
     config_new = [], config_learners = [], config_bootstrap = [], config_joint = False, config_pending_old = [],
     config_pending_new = [], config_pending_learners = [], config_pending = False, config_index = 0,
     config_applied_index = 0, config_apply_stale = False, ctx_snapshot = meta_zero, snapshot_pending = meta_zero,
     snapshot_pending_dirty = False, snapshot_data_ready_flag = False, snapshot_recv = meta_zero,
     snapshot_recv_expected_offset = 0, snapshot_install_pending = False, deferred_vote_response = False,
     deferred_vote_to = 0, deferred_vote_gen = 0, deferred_vote_request = False, deferred_vote_request_gen = 0,
     deferred_append_response = False, deferred_append_to = 0, deferred_reject_pending = False, deferred_reject_gen = 0,
     deferred_reject_hint = 0, deferred_reject_to = 0, deferred_reject_last_index = 0,
     deferred_reject_conflict_term = 0, deferred_reject_conflict_first_index = 0, deferred_reject_read_context = 0,
     deferred_append_last_index = 0, deferred_append_confirmed = 0, deferred_append_read_context = 0,
     deferred_append_gen = 0, persist_gen = 0, term_dirty_gen = 0, durable_index = 0, persist_synced_index = 0,
     durable_confirm = 0, read_barriers = [], read_barrier_capacity = 0, leadership_confirmed = False,
     read_barrier_gen = 0, follower_read_pending = [], follower_read_pending_capacity = 0, follower_read_frozen = 0,
     follower_read_waiting = False, follower_read_context = 0, follower_read_elapsed = 0,
     follower_read_barrier_elapsed = 0, follower_read_barrier_last_applied = 0, read_index_pending = [],
     read_index_pending_capacity = 0, read_context = 0, read_index_heartbeat_sent = False, client_pending = [],
     client_pending_capacity = 0, client_pending_head = 0, result_dropped = 0, msg_buf = [], msg_capacity = 0,
     apply_buf = [], apply_capacity = 0, peer_health_capacity = 0, result_buf = [], result_capacity = 0,
     snap_read_buf = [], snap_read_capacity = 0, persist_entry_capacity = 0, entry_size_cap = 0,
     config_catchup_new = [], config_catchup_cookie = 0, config_catchup_active = False, config_catchup_round = 0,
     config_catchup_start_index = 0, config_catchup_elapsed = 0, config_catchup_total_elapsed = 0, joint_elapsed = 0 \<rparr>"

text \<open>The initial configuration: the given peers, nothing for a joining node, or this node alone.\<close>

definition copy_new :: "raft_ctx \<Rightarrow> bool \<times> raft_ctx" where
  "copy_new r = (case raft_set_copy (ctx_script r) (config_new r) (config_old r) of
     (ok, s, v) \<Rightarrow> (ok, r\<lparr>ctx_script := s, config_new := v\<rparr>))"

definition create_config :: "raft_ctx \<Rightarrow> bool \<times> raft_ctx" where
  "create_config r =
    (let cfg = ctx_cfg r in
     if length (cf_peers cfg) > 0 then
       let (ok, r) = assign_old r (cf_peers cfg)
       in if \<not> ok then (False, r)
          else let (ok, r) = copy_new r
          in if \<not> ok then (False, r)
          else if \<not> raft_mask_has (raft_set_view (config_old r)) (cf_id cfg) then (False, r)
          else
            let others = filter (\<lambda>i. i \<noteq> cf_id cfg) (cf_peers cfg);
                (ok, s) = (if length others > 0 then alloc (ctx_script r) else (True, ctx_script r));
                r = r\<lparr>ctx_script := s\<rparr>
            in if \<not> ok then (False, r)
               else (True, r\<lparr>ctx_peers := map (\<lambda>i. peer_zero\<lparr>pr_id := i, pr_next_index :=
                       lg_last_included_index (ctx_log r) + 1, pr_in_old_config := True, pr_in_new_config := True\<rparr>) others\<rparr>)
     else if cf_bootstrap cfg then (True, r)
     else
       let (ok, r) = assign_old r [cf_id cfg]
       in if \<not> ok then (False, r) else copy_new r)"

definition restore_sets :: "raft_ctx \<Rightarrow> raft_persist \<Rightarrow> raft_ctx option" where
  "restore_sets r p =
    (if raft_mask_any (ps_snapshot_cfg_old p) then
       let (ok1, r) = assign_old r (ps_snapshot_cfg_old p) in if \<not> ok1 then None else
       let (ok2, r) = assign_new r (ps_snapshot_cfg_new p) in if \<not> ok2 then None else
       case raft_set_assign (ctx_script r) [] (ps_snapshot_cfg_old p) of
         (False, s, v) \<Rightarrow> None
       | (True, s, co) \<Rightarrow>
          (case raft_set_assign s [] (ps_snapshot_cfg_new p) of
             (False, s, v) \<Rightarrow> None
           | (True, s, cn) \<Rightarrow>
               Some (r\<lparr>ctx_script := s, ctx_snapshot := (ctx_snapshot r)\<lparr>sm_cfg_old := co, sm_cfg_new := cn\<rparr>,
                       config_joint := (if \<not> raft_mask_eq (ps_snapshot_cfg_old p) (ps_snapshot_cfg_new p)
                                        then True else config_joint r)\<rparr>))
     else Some r)"

definition restore_learners :: "raft_ctx \<Rightarrow> raft_persist \<Rightarrow> raft_ctx option" where
  "restore_learners r p =
    (if raft_mask_any (ps_snapshot_cfg_learners p) then
       let (ok, r) = assign_learners r (ps_snapshot_cfg_learners p) in if \<not> ok then None else
       case raft_set_assign (ctx_script r) [] (ps_snapshot_cfg_learners p) of
         (False, s, v) \<Rightarrow> None
       | (True, s, cl) \<Rightarrow> Some (r\<lparr>ctx_script := s, ctx_snapshot := (ctx_snapshot r)\<lparr>sm_cfg_learners := cl\<rparr>\<rparr>)
     else Some r)"

fun restore_loop :: "raft_ctx \<Rightarrow> raft_persist_entry list \<Rightarrow> raft_ctx option" where
  "restore_loop r [] = Some r"
| "restore_loop r (e # es) =
    (if pe_index e \<noteq> last_index r + 1 then None
     else if pe_term e < 0 \<or> pe_term e \<ge> RAFT_TERM_MAX + 1 \<or> pe_kind e > RAFT_ENTRY_CONFIG then None
     else case ctx_append r (pe_term e) (pe_kind e) (pe_data e) (pe_cfg_old e) (pe_cfg_new e) (pe_cfg_learners e) of
            (False, r) \<Rightarrow> None
          | (True, r) \<Rightarrow> restore_loop r es)"

definition create_restore :: "raft_ctx \<Rightarrow> raft_persist \<Rightarrow> raft_ctx option" where
  "create_restore r p =
    (if ps_term p < 0 \<or> ps_term p \<ge> RAFT_TERM_MAX + 1 then None
     else if ps_last_included_index p < 0 then None
     else if ps_last_included_term p < 0 \<or> ps_last_included_term p \<ge> RAFT_TERM_MAX + 1 then None
     else if ps_snapshot_size p < 0 then None
     else
       let lii = ps_last_included_index p;
           r = r\<lparr>current_term := ps_term p, voted_for := ps_voted_for p, commit_index := lii, last_applied := lii,
                 apply_offered := lii,
                 ctx_log := (ctx_log r)\<lparr>lg_last_included_index := lii, lg_last_included_term := ps_last_included_term p\<rparr>,
                 ctx_snapshot := (ctx_snapshot r)\<lparr>sm_last_index := lii, sm_last_term := ps_last_included_term p,
                    sm_size := ps_snapshot_size p\<rparr>\<rparr>
       in case restore_sets r p of None \<Rightarrow> None | Some r \<Rightarrow>
         (case restore_learners r p of None \<Rightarrow> None | Some r \<Rightarrow>
         (case restore_loop r (ps_log_entries p) of None \<Rightarrow> None | Some r \<Rightarrow>
            let r = r\<lparr>durable_index := last_index r, durable_confirm := last_index r, persist_synced_index := last_index r\<rparr>;
                (rc, r) = raft_apply_config_from_log r
            in if rc < 0 then None
               else
                 let (rc, r) = (if config_joint r then raft_rebuild_peers_joint r else raft_rebuild_peers_normal r)
                 in if rc < 0 then None else Some r)))"

definition raft_create :: "script \<Rightarrow> raft_config \<Rightarrow> raft_ctx option" where
  "raft_create s cfg =
    (let (ok, s) = alloc s
     in if \<not> ok then None
        else if cf_heartbeat_ms cfg = 0 \<or> cf_election_min_ms cfg = 0 then None
        else
          let r = raft_reset_election_deadline (ctx_init s cfg);
              (ok, r) = create_config r
          in if \<not> ok then None
             else case raft_set_copy (ctx_script r) (config_bootstrap r) (config_old r) of
               (False, s, v) \<Rightarrow> None
             | (True, s, v) \<Rightarrow>
                (let r = r\<lparr>ctx_script := s, config_bootstrap := v\<rparr>
                 in case (case cf_restore cfg of None \<Rightarrow> Some r | Some p \<Rightarrow> create_restore r p) of
                      None \<Rightarrow> None
                    | Some r \<Rightarrow> Some (r\<lparr>config_applied_index := last_applied r, ctx_cfg := (ctx_cfg r)\<lparr>cf_peers := []\<rparr>\<rparr>)))"

subsection \<open>The Ready bundle\<close>

record raft_ready =
  rd_has_work :: bool
  rd_phase_stopped :: bool
  rd_persist :: raft_persist
  rd_persist_needed :: bool
  rd_apply_entries :: "raft_apply_entry list"
  rd_client_results :: "raft_client_result list"
  rd_messages :: "raft_peer_message list"
  rd_snapshot_install_needed :: bool
  rd_snapshot_last_index :: int
  rd_snapshot_last_term :: int
  rd_snapshot_size :: int
  rd_commit_index :: int
  rd_leader_change :: bool
  rd_is_leader :: bool
  rd_config_joint :: bool
  rd_self_is_voter :: bool
  rd_self_is_learner :: bool
  rd_leader_id :: int
  rd_peer_health :: "raft_peer_health list"
  rd_snapshot_reads :: "raft_snapshot_read_req list"

definition persist_zero :: raft_persist where
  "persist_zero = \<lparr> ps_term = 0, ps_voted_for = 0, ps_last_included_index = 0, ps_last_included_term = 0,
     ps_snapshot_dirty = False, ps_snapshot_size = 0, ps_snapshot_cfg_old = [], ps_snapshot_cfg_new = [],
     ps_snapshot_cfg_learners = [], ps_log_entries = [] \<rparr>"

definition ready_zero :: raft_ready where
  "ready_zero = \<lparr> rd_has_work = False, rd_phase_stopped = False, rd_persist = persist_zero, rd_persist_needed = False,
     rd_apply_entries = [], rd_client_results = [], rd_messages = [], rd_snapshot_install_needed = False,
     rd_snapshot_last_index = 0, rd_snapshot_last_term = 0, rd_snapshot_size = 0, rd_commit_index = 0,
     rd_leader_change = False, rd_is_leader = False, rd_config_joint = False, rd_self_is_voter = False,
     rd_self_is_learner = False, rd_leader_id = 0, rd_peer_health = [], rd_snapshot_reads = [] \<rparr>"

definition persist_item :: "raft_log \<Rightarrow> int \<Rightarrow> raft_persist_entry" where
  "persist_item l idx =
    (let off = nat (idx - lg_last_included_index l - 1); c = lg_chunks l ! log_ci l off;
         kind = slot lc_kinds l off; masks = (kind = RAFT_ENTRY_CONFIG \<and> lc_cfg_old c \<noteq> None)
     in \<lparr> pe_index = idx, pe_term = slot lc_terms l off, pe_kind = kind, pe_data = entry_data l off,
          pe_cfg_old = (if masks then slot lc_cfg_old l off else raft_mask_zero),
          pe_cfg_new = (if masks then slot lc_cfg_new l off else raft_mask_zero),
          pe_cfg_learners = (if masks \<and> lc_cfg_learners c \<noteq> None then slot lc_cfg_learners l off else raft_mask_zero) \<rparr>)"

definition persist_meta :: "raft_persist \<Rightarrow> raft_snapshot_meta \<Rightarrow> raft_persist" where
  "persist_meta ps sm = ps\<lparr>ps_snapshot_dirty := True, ps_snapshot_size := sm_size sm, ps_last_included_index := sm_last_index sm,
     ps_last_included_term := sm_last_term sm, ps_snapshot_cfg_old := raft_set_view (sm_cfg_old sm),
     ps_snapshot_cfg_new := raft_set_view (sm_cfg_new sm), ps_snapshot_cfg_learners := raft_set_view (sm_cfg_learners sm)\<rparr>"

definition persist_start :: "raft_ctx \<Rightarrow> raft_persist \<Rightarrow> int" where
  "persist_start r ps =
    (let start = ps_last_included_index ps + 1;
         start = (if start < lg_last_included_index (ctx_log r) + 1 then lg_last_included_index (ctx_log r) + 1 else start)
     in if persist_synced_index r + 1 > start then persist_synced_index r + 1 else start)"

definition persist_view :: "raft_ctx \<Rightarrow> bool \<times> raft_persist \<times> raft_ctx" where
  "persist_view r =
    (let ps = persist_zero\<lparr>ps_term := current_term r, ps_voted_for := voted_for r,
               ps_last_included_index := lg_last_included_index (ctx_log r),
               ps_last_included_term := lg_last_included_term (ctx_log r)\<rparr>;
         ps = (if snapshot_install_pending r then persist_meta ps (snapshot_recv r)
               else if snapshot_pending_dirty r \<and> snapshot_data_ready_flag r then persist_meta ps (snapshot_pending r)
               else ps);
         start = persist_start r ps; entry_count = (if start \<le> last_index r then nat (last_index r - start + 1) else 0);
         (ok, r) = (if entry_count > 0 then raft_persist_entry_ensure r entry_count else (True, r))
     in if \<not> ok then (False, ps\<lparr>ps_snapshot_dirty := False\<rparr>, r)
        else (True, ps\<lparr>ps_log_entries := map (persist_item (ctx_log r)) [start..last_index r]\<rparr>, r\<lparr>persist_needed := False\<rparr>))"

definition peer_health_of :: "raft_peer \<Rightarrow> raft_peer_health" where
  "peer_health_of p = \<lparr> ph_id = pr_id p, ph_match_index = pr_match_index p, ph_next_index = pr_next_index p,
     ph_missed_rounds = pr_missed_rounds p \<rparr>"

definition ready_output :: "raft_ctx \<Rightarrow> bool \<Rightarrow> raft_ready \<times> raft_ctx" where
  "ready_output r stopped =
    (let ldr_id = (if ctx_state r = RAFT_LEADER then self_id r else ctx_leader_id r);
         r = (if prev_leader_state r \<noteq> ctx_state r then r\<lparr>ready_leader_change := True\<rparr> else r);
         r = (if persist_needed r then r\<lparr>ready_persist_pending := True\<rparr> else r);
         work = (length (apply_buf r) > 0 \<or> length (result_buf r) > 0 \<or> length (msg_buf r) > 0 \<or> length (snap_read_buf r) > 0
                 \<or> ready_persist_pending r \<or> ready_leader_change r
                 \<or> snapshot_pending_dirty r \<and> snapshot_data_ready_flag r \<or> snapshot_install_pending r \<or> stopped);
         rd = ready_zero\<lparr>rd_has_work := work, rd_phase_stopped := stopped, rd_config_joint := config_joint r,
                rd_self_is_voter := raft_set_has (config_new r) (self_id r),
                rd_self_is_learner := raft_set_has (config_learners r) (self_id r), rd_apply_entries := apply_buf r,
                rd_client_results := result_buf r, rd_messages := msg_buf r, rd_snapshot_reads := snap_read_buf r\<rparr>;
         (rd, r) = (if ready_persist_pending r
                    then case persist_view r of (ok, ps, r) \<Rightarrow> (rd\<lparr>rd_persist_needed := ok, rd_persist := ps\<rparr>, r)
                    else (rd, r));
         rd = (if snapshot_install_pending r \<and> \<not> persist_needed r
               then rd\<lparr>rd_snapshot_install_needed := True, rd_snapshot_last_index := sm_last_index (snapshot_recv r),
                       rd_snapshot_last_term := sm_last_term (snapshot_recv r), rd_snapshot_size := sm_size (snapshot_recv r)\<rparr>
               else rd);
         rd = rd\<lparr>rd_commit_index := commit_index r, rd_is_leader := (ctx_state r = RAFT_LEADER), rd_leader_id := ldr_id,
                 rd_leader_change := ready_leader_change r\<rparr>
     in if ctx_state r = RAFT_LEADER then
          let (ok, r) = raft_peer_health_ensure r (length (ctx_peers r))
          in (if ok then rd\<lparr>rd_peer_health := map peer_health_of (ctx_peers r)\<rparr> else rd, r)
        else (rd, r))"

subsection \<open>Advance: timeouts and deferred answers\<close>

definition emit_if_room :: "raft_ctx \<Rightarrow> cookie \<Rightarrow> raft_client_status \<Rightarrow> raft_ctx" where
  "emit_if_room r cookie status =
    (let (ok, r) = raft_result_ensure r (length (result_buf r) + 1)
     in if ok then raft_result_emit r cookie status else r)"

definition advance_drain :: "raft_ctx \<Rightarrow> u32 \<Rightarrow> bool \<times> raft_ctx" where
  "advance_drain r elapsed_ms =
    (let r = r\<lparr>heartbeat_elapsed := raft_elapsed_add (heartbeat_elapsed r) elapsed_ms,
               election_elapsed := raft_elapsed_add (election_elapsed r) elapsed_ms,
               leader_contact_elapsed := raft_elapsed_add (leader_contact_elapsed r) elapsed_ms\<rparr>;
         r = raft_check_barriers (raft_enqueue_apply r);
         drain_pending = (length (apply_buf r) > 0 \<or> length (result_buf r) > 0 \<or> length (msg_buf r) > 0
                          \<or> length (snap_read_buf r) > 0 \<or> persist_needed r \<or> snapshot_install_pending r)
     in if drain_pending then (False, r)
        else
          let r = raft_flush_client_results r RAFT_CLIENT_FAILED;
              r = r\<lparr>read_index_pending := [], read_index_heartbeat_sent := False\<rparr>;
              r = (if config_catchup_active r \<and> config_catchup_cookie r \<noteq> 0
                   then catchup_clear (emit_if_room r (config_catchup_cookie r) RAFT_CLIENT_FAILED) else r);
              r = (if transfer_cookie r \<noteq> 0
                   then (emit_if_room r (transfer_cookie r) RAFT_CLIENT_FAILED)\<lparr>transfer_cookie := 0\<rparr> else r)
          in (True, r\<lparr>transfer_target := 0, transfer_elapsed := 0, ctx_phase := RAFT_PHASE_STOPPED\<rparr>))"

definition advance_clocks :: "raft_ctx \<Rightarrow> u32 \<Rightarrow> raft_ctx" where
  "advance_clocks r elapsed_ms =
    (let r = r\<lparr>heartbeat_elapsed := raft_elapsed_add (heartbeat_elapsed r) elapsed_ms,
               election_elapsed := raft_elapsed_add (election_elapsed r) elapsed_ms\<rparr>
     in if ctx_state r \<noteq> RAFT_LEADER
        then r\<lparr>leader_contact_elapsed := raft_elapsed_add (leader_contact_elapsed r) elapsed_ms\<rparr> else r)"

definition advance_frozen :: "raft_ctx \<Rightarrow> u32 \<Rightarrow> raft_ctx" where
  "advance_frozen r elapsed_ms =
    (if follower_read_frozen r > 0 then
       let r = r\<lparr>follower_read_elapsed := raft_elapsed_add (follower_read_elapsed r) elapsed_ms\<rparr>
       in if unat (follower_read_elapsed r) > unat (cf_election_max_ms (ctx_cfg r)) * 2 then
            let n = follower_read_frozen r;
                (ok, r) = raft_result_ensure r (length (result_buf r) + n);
                r = (if ok then emit_all r (take n (follower_read_pending r)) RAFT_CLIENT_FAILED else r);
                r = r\<lparr>follower_read_pending := drop n (follower_read_pending r), follower_read_frozen := 0,
                      follower_read_elapsed := 0\<rparr>
            in if length (follower_read_pending r) > 0 then r\<lparr>follower_read_waiting := True\<rparr> else r
          else r
     else r)"

definition advance_stalled :: "raft_ctx \<Rightarrow> u32 \<Rightarrow> raft_ctx" where
  "advance_stalled r elapsed_ms =
    (let stalled = (\<lambda>b. rb_target_index b > last_applied r);
         settle = (\<lambda>r. r\<lparr>follower_read_barrier_elapsed := 0, follower_read_barrier_last_applied := last_applied r\<rparr>)
     in if ctx_state r \<noteq> RAFT_LEADER \<and> list_ex stalled (read_barriers r) then
          let r = (if follower_read_barrier_last_applied r \<noteq> last_applied r then settle r
                   else r\<lparr>follower_read_barrier_elapsed := raft_elapsed_add (follower_read_barrier_elapsed r) elapsed_ms\<rparr>)
          in if unat (follower_read_barrier_elapsed r) > unat (cf_election_max_ms (ctx_cfg r)) * 2 then
               let late = filter stalled (read_barriers r);
                   (ok, r) = raft_result_ensure r (length (result_buf r) + length late);
                   r = (if ok then emit_all r (map rb_cookie late) RAFT_CLIENT_FAILED else r)
               in settle (r\<lparr>read_barriers := filter (\<lambda>b. \<not> stalled b) (read_barriers r)\<rparr>)
             else r
        else settle r)"

definition transfer_done :: "raft_ctx \<Rightarrow> raft_client_status \<Rightarrow> raft_ctx" where
  "transfer_done r status =
    (let r = r\<lparr>transfer_target := 0, transfer_elapsed := 0\<rparr>
     in if transfer_cookie r \<noteq> 0 then (emit_if_room r (transfer_cookie r) status)\<lparr>transfer_cookie := 0\<rparr> else r)"

definition advance_transfer :: "raft_ctx \<Rightarrow> u32 \<Rightarrow> raft_ctx" where
  "advance_transfer r elapsed_ms =
    (if \<not> raft_id_valid (transfer_target r) then r
     else if (case raft_find_peer r (transfer_target r) of None \<Rightarrow> False
              | Some k \<Rightarrow> let tp = ctx_peers r ! k in \<not> pr_is_learner tp \<and> pr_in_new_config tp \<and> pr_match_index tp \<ge> last_index r)
     then
       let (ok, r) = raft_msg_ensure r (length (msg_buf r) + 1);
           r = (if ok then push_msg r (transfer_target r) (RAFT_MSG_TIMEOUT_NOW
                  \<lparr> tn_term = current_term r, tn_last_log_index = last_index r, tn_last_log_term = term_at r (last_index r),
                    tn_leader_id = self_id r \<rparr>) else r)
       in transfer_done r RAFT_CLIENT_COMMITTED
     else
       let r = r\<lparr>transfer_elapsed := raft_elapsed_add (transfer_elapsed r) elapsed_ms\<rparr>
       in if transfer_elapsed r \<ge> cf_election_min_ms (ctx_cfg r) then transfer_done r RAFT_CLIENT_FAILED else r)"

definition release_vote :: "raft_ctx \<Rightarrow> raft_ctx" where
  "release_vote r =
    (if deferred_vote_response r \<and> persist_gen r \<ge> deferred_vote_gen r then
       let (ok, r) = raft_msg_ensure r (length (msg_buf r) + 1);
           r = (if ok then push_msg r (deferred_vote_to r) (RAFT_MSG_REQUEST_VOTE_RESULT
                  \<lparr> rvr_term = current_term r, rvr_vote_granted = True, rvr_pre_vote = False \<rparr>) else r)
       in r\<lparr>deferred_vote_response := False\<rparr>
     else r)"

definition append_report :: "raft_ctx \<Rightarrow> int" where
  "append_report r =
    (let tip = last_index r;
         report = (if durable_confirm r < deferred_append_confirmed r then durable_confirm r else deferred_append_confirmed r)
     in if report > tip then tip else report)"

definition release_append :: "raft_ctx \<Rightarrow> raft_ctx" where
  "release_append r =
    (if deferred_append_response r \<and> persist_gen r \<ge> deferred_append_gen r then
       let report = append_report r;
           r = (if report > deferred_append_last_index r then
                  let (ok, r) = raft_msg_ensure r (length (msg_buf r) + 1)
                  in if ok then (push_msg r (deferred_append_to r) (RAFT_MSG_APPEND_RESULT
                       \<lparr> aer_term = current_term r, aer_rejected = 0, aer_last_log_index = report, aer_conflict_term = 0,
                         aer_conflict_first_index = 0, aer_read_context = deferred_append_read_context r,
                         aer_success = True \<rparr>))\<lparr>deferred_append_last_index := report\<rparr> else r
                else r)
       in if durable_confirm r \<ge> deferred_append_confirmed r then r\<lparr>deferred_append_response := False\<rparr> else r
     else r)"

definition release_reject :: "raft_ctx \<Rightarrow> raft_ctx" where
  "release_reject r =
    (if deferred_reject_pending r \<and> persist_gen r \<ge> deferred_reject_gen r then
       let (ok, r) = raft_msg_ensure r (length (msg_buf r) + 1);
           r = (if ok then push_msg r (deferred_reject_to r) (RAFT_MSG_APPEND_RESULT
                  \<lparr> aer_term = current_term r, aer_rejected = deferred_reject_hint r,
                    aer_last_log_index = deferred_reject_last_index r, aer_conflict_term = deferred_reject_conflict_term r,
                    aer_conflict_first_index = deferred_reject_conflict_first_index r,
                    aer_read_context = deferred_reject_read_context r, aer_success = False \<rparr>) else r)
       in r\<lparr>deferred_reject_pending := False\<rparr>
     else r)"

definition release_request :: "raft_ctx \<Rightarrow> raft_ctx" where
  "release_request r =
    (if deferred_vote_request r \<and> persist_gen r \<ge> deferred_vote_request_gen r \<and> ctx_state r = RAFT_CANDIDATE then
       let (rc, r) = raft_broadcast_vote r False in if rc = 0 then r\<lparr>deferred_vote_request := False\<rparr> else r
     else r)"

definition advance_running :: "raft_ctx \<Rightarrow> u32 \<Rightarrow> raft_ctx" where
  "advance_running r elapsed_ms =
    (let r = advance_clocks r elapsed_ms;
         r = advance_frozen r elapsed_ms;
         r = advance_stalled r elapsed_ms;
         r = (if follower_read_waiting r then raft_follower_read_materialize r else r);
         r = advance_transfer r elapsed_ms;
         r = release_request (release_reject (release_append (release_vote r)))
     in snd (raft_advance_inner r elapsed_ms))"

definition raft_advance :: "raft_ctx \<Rightarrow> u32 \<Rightarrow> int \<times> raft_ready \<times> raft_ctx" where
  "raft_advance r elapsed_ms =
    (if \<not> raft_phase_ge r RAFT_PHASE_READY then (-1, ready_zero, r)
     else
       let r = r\<lparr>prev_leader_state := ctx_state r\<rparr>;
           r = (if ctx_phase r = RAFT_PHASE_STOPPING
                then r\<lparr>ctx_state := RAFT_FOLLOWER, ctx_leader_id := 0, snapshot_data_ready_flag := False,
                       snapshot_pending_dirty := False, ctx_phase := RAFT_PHASE_DRAINING\<rparr> else r);
           r = (if ctx_phase r = RAFT_PHASE_READY then r\<lparr>ctx_phase := RAFT_PHASE_RUNNING\<rparr> else r)
       in if ctx_phase r = RAFT_PHASE_STOPPED then (0, ready_zero\<lparr>rd_phase_stopped := True\<rparr>, r)
          else
            let (stopped, r) = (if ctx_phase r = RAFT_PHASE_DRAINING then advance_drain r elapsed_ms
                                else (False, advance_running r elapsed_ms));
                (rd, r) = ready_output r stopped
            in (if rd_has_work rd then 1 else 0, rd, r))"

subsection \<open>Apply completion and snapshot installation\<close>

text \<open>The scan for configuration entries that are now applied; the flag records a committed
  removal of this node.\<close>

fun apply_scan :: "raft_ctx \<Rightarrow> bool \<Rightarrow> int list \<Rightarrow> int \<times> bool \<times> raft_ctx" where
  "apply_scan r removed [] = (0, removed, r)"
| "apply_scan r removed (idx # is) =
    (let l = ctx_log r; off = nat (idx - lg_last_included_index l - 1); c = lg_chunks l ! log_ci l off
     in if idx \<le> lg_last_included_index l then apply_scan r removed is
        else if log_ci l off \<ge> lg_num_chunks l then (0, removed, r)
        else if lc_kinds c = None then (0, removed, r)
        else if slot lc_kinds l off \<noteq> RAFT_ENTRY_CONFIG then apply_scan r removed is
        else if lc_cfg_old c = None then apply_scan r removed is
        else
          let cm_old = slot lc_cfg_old l off; cm_new = slot lc_cfg_new l off;
              r = (if config_pending r \<and> idx = config_index r then raft_config_pending_only_clear r else r)
          in if \<not> raft_mask_eq cm_old cm_new then
               if ctx_state r = RAFT_LEADER then
                 let (rc, r) = raft_finalize_joint r idx cm_new
                 in if rc < 0 then (-1, removed, r) else apply_scan r removed is
               else apply_scan r removed is
             else
               let (rc, r) = raft_apply_config_from_log r
               in if rc < 0 then (-1, removed, r)
                  else apply_scan r (if ctx_state r = RAFT_LEADER \<and> \<not> raft_mask_has cm_new (self_id r)
                                     then True else removed) is)"

text \<open>The installed configuration: the sets are detached, filled from the received snapshot, and
  put back on a failure.\<close>

definition install_sets :: "raft_ctx \<Rightarrow> bool \<times> raft_ctx" where
  "install_sets r =
    (let recv = snapshot_recv r;
         r0 = r\<lparr>config_old := [], config_new := [], config_learners := []\<rparr>;
         back = (\<lambda>s. r\<lparr>ctx_script := s\<rparr>);
         step1 = (if raft_mask_any (raft_set_view (sm_cfg_old recv)) then
                    case raft_set_copy (ctx_script r0) [] (sm_cfg_old recv) of
                      (False, s, v) \<Rightarrow> (False, back s)
                    | (True, s, co) \<Rightarrow>
                        (case raft_set_copy s [] (sm_cfg_new recv) of
                           (False, s, v) \<Rightarrow> (False, back s)
                         | (True, s, cn) \<Rightarrow> (True, r0\<lparr>ctx_script := s, config_old := co, config_new := cn\<rparr>))
                  else (True, r0))
     in case step1 of
          (False, r1) \<Rightarrow> (False, r1)
        | (True, r1) \<Rightarrow>
            (case (if raft_mask_any (raft_set_view (sm_cfg_learners recv))
                   then raft_set_copy (ctx_script r1) [] (sm_cfg_learners recv) else (True, ctx_script r1, [])) of
               (False, s, v) \<Rightarrow> (False, back s)
             | (True, s, cl) \<Rightarrow>
                 (let r1 = r1\<lparr>ctx_script := s, config_learners := cl\<rparr>
                  in (True, r1\<lparr>config_joint := (\<not> raft_mask_eq (raft_set_view (config_old r1)) (raft_set_view (config_new r1)))\<rparr>))))"

definition install_log :: "raft_ctx \<Rightarrow> bool \<times> raft_ctx" where
  "install_log r =
    (let recv = snapshot_recv r; l = ctx_log r
     in if raft_log_last_index l \<ge> sm_last_index recv \<and> raft_log_term_at l (sm_last_index recv) = sm_last_term recv then
          case raft_log_compact_prefix (ctx_script r) l (sm_last_index recv) (sm_last_term recv) of
            (ok, s, l) \<Rightarrow> (ok, r\<lparr>ctx_script := s, ctx_log := l\<rparr>)
        else
          (True, raft_durable_clamp (r\<lparr>ctx_log := l\<lparr>lg_last_included_index := sm_last_index recv,
             lg_last_included_term := sm_last_term recv, lg_count := 0, lg_chunks := [], lg_data := [],
             lg_data_capacity := 0\<rparr>\<rparr>) (sm_last_index recv)))"

definition install_finish :: "raft_ctx \<Rightarrow> int \<times> raft_ctx" where
  "install_finish r =
    (let recv = snapshot_recv r;
         r = (if last_applied r < sm_last_index recv then r\<lparr>last_applied := sm_last_index recv\<rparr> else r);
         r = (if apply_offered r < last_applied r then r\<lparr>apply_offered := last_applied r\<rparr> else r);
         r = (if commit_index r < lg_last_included_index (ctx_log r)
              then r\<lparr>commit_index := lg_last_included_index (ctx_log r)\<rparr> else r);
         (rr, r) = (if config_joint r then raft_rebuild_peers_joint r else raft_rebuild_peers_normal r);
         r = (if rr < 0 then r\<lparr>config_apply_stale := True\<rparr> else r);
         r = r\<lparr>ctx_snapshot := recv, snapshot_recv := meta_zero, snapshot_install_pending := False\<rparr>;
         (rc, r) = raft_apply_config_from_log r
     in if rc < 0 then (-1, r)
        else
          let r = (if sm_last_index (snapshot_pending r) < sm_last_index (ctx_snapshot r)
                   then r\<lparr>snapshot_pending_dirty := False, snapshot_data_ready_flag := False,
                          snapshot_pending := (snapshot_pending r)\<lparr>sm_cfg_old := [], sm_cfg_new := [], sm_cfg_learners := []\<rparr>\<rparr>
                   else r)
          in if raft_id_valid (ctx_leader_id r) then
               let (ok, r) = raft_msg_ensure r (length (msg_buf r) + 1)
               in (0, if ok then push_msg r (ctx_leader_id r) (RAFT_MSG_INSTALL_SNAPSHOT_RESULT
                     \<lparr> isr_term = current_term r, isr_last_included_index = sm_last_index (ctx_snapshot r) \<rparr>) else r)
             else (0, r))"

definition apply_install :: "raft_ctx \<Rightarrow> int \<times> raft_ctx" where
  "apply_install r =
    (if sm_last_index (snapshot_recv r) < lg_last_included_index (ctx_log r) then (0, r\<lparr>snapshot_install_pending := False\<rparr>)
     else
       let (ok, r1) = install_sets r
       in if \<not> ok then (-1, r1)
          else
            let (ok, r2) = install_log r1
            in if \<not> ok then
                 (-1, r2\<lparr>config_old := config_old r, config_new := config_new r, config_learners := config_learners r,
                         config_joint := config_joint r\<rparr>)
               else install_finish r2)"

definition deliver_committed :: "raft_ctx \<Rightarrow> raft_ctx" where
  "deliver_committed r =
    (let finished = takeWhile (\<lambda>c. cp_log_index c \<le> last_applied r) (client_pending r);
         r = emit_all r (map cp_cookie finished) RAFT_CLIENT_COMMITTED;
         r = r\<lparr>client_pending := drop (length finished) (client_pending r),
               client_pending_head := client_pending_head r + length finished\<rparr>;
         r = (if client_pending_head r > 0 \<and> length (client_pending r) = 0 then r\<lparr>client_pending_head := 0\<rparr> else r)
     in if length (client_pending r) = 0 then raft_client_pending_compact r else r)"

definition raft_apply_complete :: "raft_ctx \<Rightarrow> int \<Rightarrow> int \<times> raft_ctx" where
  "raft_apply_complete r applied_index =
    (if ctx_phase r \<noteq> RAFT_PHASE_RUNNING \<and> ctx_phase r \<noteq> RAFT_PHASE_DRAINING then (-1, r)
     else
       let r = (if \<not> (snapshot_install_pending r \<and> applied_index \<ge> sm_last_index (snapshot_recv r)) \<and> applied_index > last_applied r
                then r\<lparr>last_applied := applied_index\<rparr> else r);
           r = (if apply_offered r < last_applied r then r\<lparr>apply_offered := last_applied r\<rparr> else r);
           (rc, self_removed, r) = apply_scan r False [config_applied_index r + 1..last_applied r]
       in if rc < 0 then (-1, r)
          else
            let r = r\<lparr>config_applied_index := last_applied r\<rparr>;
                (rc, r) = (if snapshot_install_pending r \<and> applied_index \<ge> sm_last_index (snapshot_recv r)
                           then apply_install r else (0, r))
            in if rc < 0 then (-1, r)
               else
                 let r = deliver_committed r
                 in (0, if self_removed \<and> ctx_state r = RAFT_LEADER then raft_step_down r (current_term r) 0 else r))"

subsection \<open>Inspection\<close>

record raft_peer_info =
  pin_id :: int
  pin_is_learner :: bool
  pin_match_index :: int
  pin_next_index :: int
  pin_in_old_config :: bool
  pin_in_new_config :: bool
  pin_catchup_round :: int
  pin_catchup_round_elapsed :: u32

record raft_info =
  inf_id :: int
  inf_state :: raft_state
  inf_leader_id :: int
  inf_voted_for :: int
  inf_phase :: nat
  inf_term :: int
  inf_log_entry_count :: nat
  inf_commit_index :: int
  inf_last_applied :: int
  inf_last_included_index :: int
  inf_last_included_term :: int
  inf_peer_count :: nat
  inf_election_elapsed :: u32
  inf_election_deadline :: u32
  inf_in_pre_vote :: bool
  inf_config_joint :: bool
  inf_leadership_confirmed :: bool
  inf_quorum_acked :: nat
  inf_snapshot_install_pending :: bool
  inf_peers :: "raft_peer_info list"

definition raft_inspect :: "raft_ctx \<Rightarrow> raft_info" where
  "raft_inspect r = \<lparr> inf_id = self_id r, inf_state = ctx_state r, inf_leader_id = ctx_leader_id r,
     inf_voted_for = voted_for r, inf_phase = ctx_phase r, inf_term = current_term r,
     inf_log_entry_count = lg_count (ctx_log r), inf_commit_index = commit_index r, inf_last_applied = last_applied r,
     inf_last_included_index = lg_last_included_index (ctx_log r),
     inf_last_included_term = lg_last_included_term (ctx_log r), inf_peer_count = length (ctx_peers r),
     inf_election_elapsed = election_elapsed r, inf_election_deadline = election_deadline r,
     inf_in_pre_vote = in_pre_vote r, inf_config_joint = config_joint r, inf_leadership_confirmed = leadership_confirmed r,
     inf_quorum_acked = length (filter (\<lambda>p. pr_quorum_acked p \<and> \<not> pr_is_learner p \<and> pr_in_new_config p) (ctx_peers r)),
     inf_snapshot_install_pending = snapshot_install_pending r,
     inf_peers = map (\<lambda>p. \<lparr> pin_id = pr_id p, pin_is_learner = pr_is_learner p, pin_match_index = pr_match_index p,
        pin_next_index = pr_next_index p, pin_in_old_config = pr_in_old_config p, pin_in_new_config = pr_in_new_config p,
        pin_catchup_round = pr_catchup_round p, pin_catchup_round_elapsed = pr_catchup_round_elapsed p \<rparr>) (ctx_peers r) \<rparr>"

end
