(* ===== verification/Raft_Frame.thy ===== *)
theory Raft_Frame
  imports Raft_Advance
begin

section \<open>What the helpers leave alone\<close>

text \<open>
  Frame facts for the helpers the handlers call. \<open>keeps r r'\<close> says that a step changed none of
  the fields the protocol arguments speak of: the log, the term, the vote, the commit and apply
  positions, the durability frontier and generation, the role, the phase and the configuration
  record of the node. Buffering output, emitting results, rebuilding peers and applying a
  configuration all keep them.
\<close>

named_theorems frame

definition keeps :: "raft_ctx \<Rightarrow> raft_ctx \<Rightarrow> bool" where
  "keeps r r' \<longleftrightarrow> ctx_log r' = ctx_log r \<and> current_term r' = current_term r \<and> voted_for r' = voted_for r
     \<and> commit_index r' = commit_index r \<and> last_applied r' = last_applied r \<and> apply_offered r' = apply_offered r
     \<and> ctx_state r' = ctx_state r \<and> ctx_phase r' = ctx_phase r \<and> ctx_cfg r' = ctx_cfg r
     \<and> persist_gen r' = persist_gen r \<and> durable_index r' = durable_index r \<and> durable_confirm r' = durable_confirm r"

lemma keeps_refl [simp]: "keeps r r"
  by (simp add: keeps_def)

lemma keeps_trans: "keeps a b \<Longrightarrow> keeps b c \<Longrightarrow> keeps a c"
  by (simp add: keeps_def)

lemma keepsD:
  assumes "keeps r r'"
  shows "ctx_log r' = ctx_log r" "current_term r' = current_term r" "voted_for r' = voted_for r"
    "commit_index r' = commit_index r" "last_applied r' = last_applied r" "apply_offered r' = apply_offered r"
    "ctx_state r' = ctx_state r" "ctx_phase r' = ctx_phase r" "ctx_cfg r' = ctx_cfg r"
    "persist_gen r' = persist_gen r" "durable_index r' = durable_index r" "durable_confirm r' = durable_confirm r"
  using assms by (simp_all add: keeps_def)

subsection \<open>Output\<close>

lemma ensure_keeps [frame]:
  "raft_result_ensure r n = (b, r') \<Longrightarrow> keeps r r'" "raft_msg_ensure r n = (b, r') \<Longrightarrow> keeps r r'"
  "raft_apply_ensure r n = (b, r') \<Longrightarrow> keeps r r'" "raft_peer_health_ensure r n = (b, r') \<Longrightarrow> keeps r r'"
  "raft_persist_entry_ensure r n = (b, r') \<Longrightarrow> keeps r r'" "raft_client_pending_ensure r n = (b, r') \<Longrightarrow> keeps r r'"
  "raft_read_barrier_ensure r n = (b, r') \<Longrightarrow> keeps r r'" "raft_snap_read_ensure r n = (b, r') \<Longrightarrow> keeps r r'"
  "raft_read_index_pending_ensure r n = (b, r') \<Longrightarrow> keeps r r'" "raft_follower_read_ensure r n = (b, r') \<Longrightarrow> keeps r r'"
  by (auto simp: keeps_def raft_result_ensure_def raft_msg_ensure_def raft_apply_ensure_def raft_peer_health_ensure_def
      raft_persist_entry_ensure_def raft_client_pending_ensure_def raft_read_barrier_ensure_def raft_snap_read_ensure_def
      raft_read_index_pending_ensure_def raft_follower_read_ensure_def split: prod.splits)

lemma push_keeps [frame]: "keeps r (push_msg r to b)"
  by (simp add: keeps_def push_msg_def)

lemma upd_peer_keeps [frame]: "keeps r (upd_peer r k f)"
  by (simp add: keeps_def upd_peer_def)

lemmas push_frame [simp] = keepsD[OF push_keeps]
lemmas upd_peer_frame [simp] = keepsD[OF upd_peer_keeps]

lemma emit_keeps [frame]: "keeps r (raft_result_emit r c s)"
proof -
  obtain b r1 where e: "raft_result_ensure r (length (result_buf r) + 1) = (b, r1)" by fastforce
  then have "keeps r r1" by (rule frame)
  moreover have "keeps x (x\<lparr>result_dropped := d\<rparr>)" "keeps x (x\<lparr>result_buf := e\<rparr>)" for x d e by (simp_all add: keeps_def)
  ultimately show ?thesis using e keeps_trans by (auto simp: raft_result_emit_def Let_def)
qed

lemmas emit_frame [simp] = keepsD[OF emit_keeps]

lemma emit_all_keeps [frame]: "keeps r (emit_all r cs s)"
  unfolding emit_all_def by (induction cs arbitrary: r) (auto simp: keeps_def)

lemmas emit_all_frame [simp] = keepsD[OF emit_all_keeps]

lemma flush_keeps [frame]: "keeps r (raft_flush_client_results r s)"
proof -
  obtain b r1 where e: "raft_result_ensure r (length (result_buf r) + length (read_barriers r)
           + length (client_pending r) + length (follower_read_pending r)) = (b, r1)" by fastforce
  note k = keepsD[OF ensure_keeps(1)[OF e]]
  show ?thesis unfolding raft_flush_client_results_def e Let_def prod.case by (cases b) (simp_all add: keeps_def k)
qed

lemmas flush_frame [simp] = keepsD[OF flush_keeps]

lemma clear_keeps [frame]:
  "keeps r (raft_config_pending_only_clear r)" "keeps r (catchup_clear r)" "keeps r (raft_config_pending_clear r)"
  "keeps r (raft_config_zombie_clear r)" "keeps r (raft_client_pending_compact r)"
  by (auto simp: keeps_def raft_config_pending_only_clear_def catchup_clear_def raft_config_pending_clear_def
      raft_config_zombie_clear_def raft_client_pending_compact_def)

lemmas clear_frame [simp] = keepsD[OF clear_keeps(1)] keepsD[OF clear_keeps(2)] keepsD[OF clear_keeps(3)]
  keepsD[OF clear_keeps(4)] keepsD[OF clear_keeps(5)]

lemma deadline_keeps [frame]: "keeps r (raft_reset_election_deadline r)"
  by (simp add: keeps_def raft_reset_election_deadline_def raft_rng_step_def Let_def)

lemmas deadline_frame [simp] = keepsD[OF deadline_keeps]

lemma broadcast_loop_keeps: "broadcast_loop r pre ps = (b, r') \<Longrightarrow> keeps r r'"
proof (induction ps arbitrary: r)
  case (Cons p ps)
  obtain b1 r1 where e: "raft_msg_ensure r (length (msg_buf r) + 1) = (b1, r1)" by fastforce
  note k = keepsD[OF ensure_keeps(2)[OF e]]
  have "keeps (push_msg r1 t x) r' \<Longrightarrow> keeps r r'" for t x by (simp add: keeps_def k)
  then show ?case using Cons e ensure_keeps(2)[OF e] by (auto simp: Let_def split: if_splits)
qed simp

lemma broadcast_keeps [frame]: "raft_broadcast_vote r pre = (rc, r') \<Longrightarrow> keeps r r'"
proof -
  assume a: "raft_broadcast_vote r pre = (rc, r')"
  obtain b r1 where e: "broadcast_loop r pre (ctx_peers r) = (b, r1)" by fastforce
  have "keeps r r1" using broadcast_loop_keeps[OF e] .
  then show ?thesis using a e by (auto simp: raft_broadcast_vote_def keeps_def split: if_splits)
qed

subsection \<open>Configuration\<close>

lemma rebuild_keeps [frame]:
  "raft_rebuild_peers_normal r = (rc, r') \<Longrightarrow> keeps r r'" "raft_rebuild_peers_joint r = (rc, r') \<Longrightarrow> keeps r r'"
  by (auto simp: keeps_def raft_rebuild_peers_normal_def raft_rebuild_peers_joint_def Let_def split: prod.splits if_splits)

lemma assign_keeps [frame]:
  "assign_old r x = (b, r') \<Longrightarrow> keeps r r'" "assign_new r x = (b, r') \<Longrightarrow> keeps r r'" "assign_learners r x = (b, r') \<Longrightarrow> keeps r r'"
  "save_set r x = (b, v, r') \<Longrightarrow> keeps r r'" "raft_assign_learners_filtered r c d = (rc, r') \<Longrightarrow> keeps r r'"
  by (auto simp: keeps_def assign_old_def assign_new_def assign_learners_def save_set_def raft_assign_learners_filtered_def Let_def
      split: prod.splits if_splits)

lemma flag_keeps: "keeps r (r\<lparr>config_joint := b\<rparr>)" "keeps r (r\<lparr>config_apply_stale := b\<rparr>)"
  by (simp_all add: keeps_def)

lemma install_masks_keeps [frame]:
  assumes "install_masks r co cn cl = (rc, r')"
  shows "keeps r r'"
proof -
  define j where "j \<longleftrightarrow> co \<noteq> cn"
  obtain b1 r1 where a1: "assign_old r (if j then co else cn) = (b1, r1)" by fastforce
  obtain b2 r2 where a2: "assign_new r1 cn = (b2, r2)" by fastforce
  obtain rc3 r3 where a3: "raft_assign_learners_filtered r2 cl cn = (rc3, r3)" by fastforce
  define rr where "rr = r3\<lparr>config_joint := j\<rparr>"
  have "install_masks r co cn cl = (if \<not> b1 then (-1, r1) else if \<not> b2 then (-1, r2) else if rc3 < 0 then (rc3, r3)
      else if j then raft_rebuild_peers_joint rr else raft_rebuild_peers_normal rr)"
    unfolding install_masks_def Let_def raft_mask_eq_iff j_def[symmetric] a1 a2 a3 rr_def prod.case by simp
  moreover have k: "keeps r r1" "keeps r r2" "keeps r r3" "keeps r rr"
    using assign_keeps(1)[OF a1] assign_keeps(2)[OF a2] assign_keeps(5)[OF a3] by (simp_all add: rr_def keeps_def)
  ultimately show ?thesis using assms rebuild_keeps[of rr rc r'] keeps_trans[OF k(4)] by (auto split: if_splits)
qed

lemma apply_masks_keeps [frame]:
  assumes "raft_apply_config_masks r co cn cl = (rc, r')"
  shows "keeps r r'"
proof -
  obtain b1 v1 r1 where s1: "save_set r (config_old r) = (b1, v1, r1)" by (metis prod_cases3)
  obtain b2 v2 r2 where s2: "save_set r1 (config_new r1) = (b2, v2, r2)" by (metis prod_cases3)
  obtain b3 v3 r3 where s3: "save_set r2 (config_learners r2) = (b3, v3, r3)" by (metis prod_cases3)
  obtain rci ri where i: "install_masks r3 co cn cl = (rci, ri)" by fastforce
  obtain c4 r4 where o1: "assign_old (ri\<lparr>config_apply_stale := True\<rparr>) v1 = (c4, r4)" by fastforce
  obtain c5 r5 where o2: "assign_new r4 v2 = (c5, r5)" by fastforce
  obtain c6 r6 where o3: "assign_learners r5 v3 = (c6, r6)" by fastforce
  note k = keepsD[OF assign_keeps(4)[OF s1]] keepsD[OF assign_keeps(4)[OF s2]] keepsD[OF assign_keeps(4)[OF s3]]
    keepsD[OF install_masks_keeps[OF i]] keepsD[OF assign_keeps(1)[OF o1]] keepsD[OF assign_keeps(2)[OF o2]]
    keepsD[OF assign_keeps(3)[OF o3]]
  have "raft_apply_config_masks r co cn cl = (if \<not> b1 then (-1, r1\<lparr>config_apply_stale := True\<rparr>)
      else if \<not> b2 then (-1, r2\<lparr>config_apply_stale := True\<rparr>) else if \<not> b3 then (-1, r3\<lparr>config_apply_stale := True\<rparr>)
      else if rci < 0 then (-1, r6\<lparr>config_joint := config_joint r3\<rparr>) else (0, ri\<lparr>config_apply_stale := False\<rparr>))"
    unfolding raft_apply_config_masks_def Let_def s1 s2 s3 i o1 o2 o3 prod.case snd_conv by simp
  then show ?thesis using assms by (auto simp: keeps_def k split: if_splits)
qed

lemma apply_log_keeps [frame]:
  assumes "raft_apply_config_from_log r = (rc, r')"
  shows "keeps r r'"
  using assms flag_keeps(2)[of r False]
  by (auto simp: raft_apply_config_from_log_def split: option.splits prod.splits if_splits dest: apply_masks_keeps)

subsection \<open>Stepping down\<close>

text \<open>Stepping down moves to the given term, clears the vote and becomes follower; the log, the commit
  and apply positions and the durability frontier stay. A term out of range changes nothing.\<close>

definition stepped :: "raft_ctx \<Rightarrow> int \<Rightarrow> raft_ctx \<Rightarrow> bool" where
  "stepped r t r' \<longleftrightarrow> keeps (r\<lparr>current_term := t, voted_for := 0, ctx_state := RAFT_FOLLOWER\<rparr>) r'"

lemma step_down_stepped:
  assumes t: "t < RAFT_TERM_MAX + 1"
  shows "stepped r t (raft_step_down r t l)"
proof -
  have tail: "keeps x (let (ok, y) = raft_result_ensure x n
       in if ok then let z = (if p then raft_result_emit y c s else y) in if q then raft_result_emit z d s else z else y)"
    for x n p q c d s
  proof -
    obtain ok y where e: "raft_result_ensure x n = (ok, y)" by fastforce
    note k = keepsD[OF ensure_keeps(1)[OF e]]
    show ?thesis unfolding e Let_def prod.case by (cases ok; cases p; cases q) (simp_all add: keeps_def k)
  qed
  have "\<not> t \<ge> RAFT_TERM_MAX + 1" using t by simp
  then show ?thesis
    unfolding stepped_def raft_step_down_def
    apply (simp only: if_False Let_def)
    apply (rule keeps_trans[OF _ tail[unfolded Let_def]])
    apply (simp add: keeps_def)
    done
qed

lemma step_down_out: "t \<ge> RAFT_TERM_MAX + 1 \<Longrightarrow> raft_step_down r t l = r"
  by (simp only: raft_step_down_def if_True)

lemma step_down_frame:
  assumes "t < RAFT_TERM_MAX + 1"
  shows "current_term (raft_step_down r t l) = t" "voted_for (raft_step_down r t l) = 0" "ctx_state (raft_step_down r t l) = RAFT_FOLLOWER"
  using step_down_stepped[OF assms, of r l] by (simp_all add: stepped_def keeps_def)

lemma step_down_keeps [simp]:
  "ctx_log (raft_step_down r t l) = ctx_log r" "commit_index (raft_step_down r t l) = commit_index r"
  "last_applied (raft_step_down r t l) = last_applied r" "apply_offered (raft_step_down r t l) = apply_offered r"
  "ctx_phase (raft_step_down r t l) = ctx_phase r" "ctx_cfg (raft_step_down r t l) = ctx_cfg r"
  "persist_gen (raft_step_down r t l) = persist_gen r" "durable_index (raft_step_down r t l) = durable_index r"
  "durable_confirm (raft_step_down r t l) = durable_confirm r"
proof -
  consider "t < RAFT_TERM_MAX + 1" | "t \<ge> RAFT_TERM_MAX + 1" by linarith
  then have "keeps (r\<lparr>current_term := current_term (raft_step_down r t l), voted_for := voted_for (raft_step_down r t l),
      ctx_state := ctx_state (raft_step_down r t l)\<rparr>) (raft_step_down r t l)"
  proof cases
    case 1
    then show ?thesis using step_down_stepped[OF 1, of r l] step_down_frame[OF 1, of r l] by (simp add: stepped_def)
  next
    case 2
    then show ?thesis by (simp add: step_down_out)
  qed
  then show "ctx_log (raft_step_down r t l) = ctx_log r" "commit_index (raft_step_down r t l) = commit_index r"
    "last_applied (raft_step_down r t l) = last_applied r" "apply_offered (raft_step_down r t l) = apply_offered r"
    "ctx_phase (raft_step_down r t l) = ctx_phase r" "ctx_cfg (raft_step_down r t l) = ctx_cfg r"
    "persist_gen (raft_step_down r t l) = persist_gen r" "durable_index (raft_step_down r t l) = durable_index r"
    "durable_confirm (raft_step_down r t l) = durable_confirm r" by (simp_all add: keeps_def)
qed

subsection \<open>A sample cluster\<close>

definition sample_config :: "int \<Rightarrow> raft_config" where
  "sample_config i = \<lparr> cf_id = i, cf_peers = [1, 2, 3], cf_bootstrap = False, cf_heartbeat_ms = 50, cf_election_min_ms = 150,
     cf_election_max_ms = 300, cf_seed = 7, cf_snapshot_chunk_size = 1024, cf_log_chunk_size = 4, cf_restore = None \<rparr>"

definition sample_node :: "int \<Rightarrow> raft_ctx" where
  "sample_node i = (ctx_init [] (sample_config i))\<lparr>ctx_phase := RAFT_PHASE_RUNNING, config_old := [1, 2, 3],
     config_new := [1, 2, 3], config_bootstrap := [1, 2, 3],
     ctx_peers := map (\<lambda>j. peer_zero\<lparr>pr_id := j, pr_next_index := 1, pr_in_old_config := True, pr_in_new_config := True\<rparr>)
       (filter (\<lambda>j. j \<noteq> i) [1, 2, 3])\<rparr>"

end
