(* ===== verification/Raft_Match.thy ===== *)
theory Raft_Match
  imports Raft_Frame
begin

section \<open>AppendEntries and log matching\<close>

text \<open>
  The follower's side of replication against the list view of the log: what the entry loops of
  \<^verbatim>\<open>raft_recv_append_entries\<close> do to the list of entries under every allocation failure and every
  malformed message, and the preservation of the log matching relation with the log the message
  was taken from.
\<close>

subsection \<open>The entries of a message\<close>

fun msg_read :: "raft_append_entries \<Rightarrow> nat \<Rightarrow> nat \<Rightarrow> nat \<Rightarrow> raft_entry list" where
  "msg_read rpc i cur 0 = []"
| "msg_read rpc i cur (Suc n) = (case ae_read rpc i cur of (e, cur) \<Rightarrow> e # msg_read rpc (i + 1) cur n)"

definition msg_entries :: "raft_append_entries \<Rightarrow> raft_entry list" where
  "msg_entries rpc = msg_read rpc 0 0 (nat (ae_entry_count rpc))"

lemma length_msg_read [simp]: "length (msg_read rpc i cur n) = n"
  by (induction n arbitrary: i cur) (auto split: prod.splits)

lemma stored_entry_term [simp]: "en_term (stored_entry e) = en_term e"
  by (simp add: stored_entry_def mk_entry_def Let_def)

subsection \<open>The entry loops\<close>

text \<open>Only the log, its allocator script and the durability frontier differ.\<close>

definition relogged :: "raft_ctx \<Rightarrow> raft_ctx \<Rightarrow> bool" where
  "relogged r r' \<longleftrightarrow> keeps (r\<lparr>ctx_log := ctx_log r', durable_index := durable_index r', durable_confirm := durable_confirm r'\<rparr>) r'
     \<and> lg_last_included_index (ctx_log r') = lg_last_included_index (ctx_log r)
     \<and> lg_last_included_term (ctx_log r') = lg_last_included_term (ctx_log r)"

lemma relogged_refl [simp]: "relogged r r"
  by (simp add: relogged_def keeps_def)

lemma relogged_trans: "relogged a b \<Longrightarrow> relogged b c \<Longrightarrow> relogged a c"
  by (simp add: relogged_def keeps_def)

lemma append_entry_law:
  assumes wf: "log_wf (ctx_log r)" and e: "ctx_append_entry r x = (b, r')"
  shows "log_wf (ctx_log r') \<and> relogged r r' \<and> log_entries (ctx_log r') = log_entries (ctx_log r) @ (if b then [stored_entry x] else [])"
proof -
  obtain b1 s1 l1 where a: "raft_log_append (ctx_script r) (ctx_log r) (en_term x) (en_kind x) (en_data x) (en_cfg_old x)
      (en_cfg_new x) (en_cfg_learners x) = (b1, s1, l1)" by (metis prod_cases3)
  have r': "b = b1" "r' = r\<lparr>ctx_script := s1, ctx_log := l1\<rparr>" using e a by (auto simp: ctx_append_entry_def ctx_append_def)
  show ?thesis using append_law[OF wf a] by (simp add: r' grown_def relogged_def keeps_def stored_entry_def)
qed

lemma log_cut_law:
  assumes wf: "log_wf (ctx_log r)" and i: "lg_last_included_index (ctx_log r) \<le> idx"
  shows "log_wf (ctx_log (snd (raft_log_cut r idx))) \<and> relogged r (snd (raft_log_cut r idx))
    \<and> log_entries (ctx_log (snd (raft_log_cut r idx))) = take (nat (idx - lg_last_included_index (ctx_log r))) (log_entries (ctx_log r))"
proof -
  obtain rc l where t: "raft_log_truncate (ctx_log r) idx = (rc, l)" by fastforce
  show ?thesis using truncate_law[OF wf t] i
    by (simp add: raft_log_cut_def t Let_def relogged_def keeps_def raft_durable_clamp_def)
qed

lemma append_loop_law:
  assumes "log_wf (ctx_log r)" "ae_append_loop r rpc ch i e cur = (out, r')" "int i < ae_entry_count rpc"
    and "es = e # msg_read rpc (i + 1) cur (nat (ae_entry_count rpc) - (i + 1))"
  shows "log_wf (ctx_log r') \<and> relogged r r' \<and> out \<in> {AE_Done ch False, AE_Done ch True, AE_Error}
    \<and> (\<exists>n\<le>length es. log_entries (ctx_log r') = log_entries (ctx_log r) @ map stored_entry (take n es)
        \<and> (out = AE_Done ch False \<longrightarrow> n = length es))"
  using assms
proof (induction r rpc ch i e cur arbitrary: es rule: ae_append_loop.induct)
  case (1 r rpc ch i e cur)
  obtain b r1 where a: "ctx_append_entry r e = (b, r1)" by fastforce
  note law = append_entry_law[OF 1(2) a]
  have step: "ae_append_loop r rpc ch i e cur = (if \<not> b then (AE_Done ch True, r1)
      else if int (i + 1) \<ge> ae_entry_count rpc then (AE_Done ch False, r1)
      else if ae_term_bad rpc (i + 1) then (AE_Error, r1)
      else case ae_read rpc (i + 1) cur of (e, cur) \<Rightarrow> ae_append_loop r1 rpc ch (i + 1) e cur)"
    by (subst ae_append_loop.simps) (simp add: a split: bool.splits)
  consider (oom) "\<not> b" | (fin) b "int (i + 1) \<ge> ae_entry_count rpc" | (bad) b "int (i + 1) < ae_entry_count rpc" "ae_term_bad rpc (i + 1)"
    | (more) b "int (i + 1) < ae_entry_count rpc" "\<not> ae_term_bad rpc (i + 1)" by linarith
  then show ?case
  proof cases
    case oom
    then show ?thesis using step 1(3) law by (auto intro!: exI[of _ 0])
  next
    case fin
    then have n: "nat (ae_entry_count rpc) - (i + 1) = 0" by linarith
    show ?thesis using fin step 1(3,5) law by (auto simp: n intro!: exI[of _ 1])
  next
    case bad
    then show ?thesis using step 1(3,5) law by (auto intro!: exI[of _ 1])
  next
    case more
    obtain e2 cur2 where rd: "ae_read rpc (i + 1) cur = (e2, cur2)" by fastforce
    have n: "nat (ae_entry_count rpc) - (i + 1) = Suc (nat (ae_entry_count rpc) - (i + 2))" using more(2) by linarith
    let ?es = "e2 # msg_read rpc (i + 2) cur2 (nat (ae_entry_count rpc) - (i + 2))"
    have es: "es = e # ?es" using 1(5) rd n by simp
    have eq: "ae_append_loop r1 rpc ch (i + 1) e2 cur2 = (out, r')" using step 1(3) more rd by simp
    have "log_wf (ctx_log r') \<and> relogged r1 r' \<and> out \<in> {AE_Done ch False, AE_Done ch True, AE_Error}
      \<and> (\<exists>n\<le>length ?es. log_entries (ctx_log r') = log_entries (ctx_log r1) @ map stored_entry (take n ?es)
        \<and> (out = AE_Done ch False \<longrightarrow> n = length ?es))"
      using 1(1)[OF a[symmetric] _ _ more(3) rd[symmetric] _ eq more(2)] law more by simp
    then show ?thesis using law more(1) relogged_trans es
      by (auto intro: exI[of _ "Suc _"])
  qed
qed

text \<open>
  The effect of a message with entries \<open>es\<close> at position \<open>k\<close> of a list \<open>old\<close>: the entries that
  agree in term are skipped; at the first disagreement, or past the end, the rest of \<open>old\<close> is
  replaced by a prefix of the remaining entries, all of them when \<open>full\<close> holds.
\<close>

definition overwritten :: "raft_entry list \<Rightarrow> nat \<Rightarrow> raft_entry list \<Rightarrow> bool \<Rightarrow> raft_entry list \<Rightarrow> bool" where
  "overwritten old k es full new \<longleftrightarrow>
    (\<exists>es1 es2. es = es1 @ es2 \<and> k + length es1 \<le> length old
      \<and> (\<forall>j<length es1. en_term (old ! (k + j)) = en_term (es1 ! j))
      \<and> (es2 = [] \<and> new = old
         \<or> es2 \<noteq> [] \<and> (k + length es1 < length old \<longrightarrow> en_term (old ! (k + length es1)) \<noteq> en_term (hd es2))
           \<and> (\<exists>n\<le>length es2. new = take (k + length es1) old @ map stored_entry (take n es2) \<and> (full \<longrightarrow> n = length es2))))"

lemma overwritten_Nil: "k \<le> length old \<Longrightarrow> overwritten old k [] full old"
  by (simp add: overwritten_def)

lemma overwritten_here:
  assumes "k \<le> length old" "k < length old \<longrightarrow> en_term (old ! k) \<noteq> en_term e"
    and "n \<le> length (e # es)" "new = take k old @ map stored_entry (take n (e # es))" "full \<longrightarrow> n = length (e # es)"
  shows "overwritten old k (e # es) full new"
  unfolding overwritten_def using assms by (intro exI[of _ "[]"] exI[of _ "e # es"]) auto

lemma overwritten_skip:
  assumes "k < length old" "en_term (old ! k) = en_term e" "overwritten old (k + 1) es full new"
  shows "overwritten old k (e # es) full new"
proof -
  obtain es1 es2 where o: "es = es1 @ es2" "k + 1 + length es1 \<le> length old"
    "\<forall>j<length es1. en_term (old ! (k + 1 + j)) = en_term (es1 ! j)"
    "es2 = [] \<and> new = old \<or> es2 \<noteq> [] \<and> (k + 1 + length es1 < length old \<longrightarrow> en_term (old ! (k + 1 + length es1)) \<noteq> en_term (hd es2))
       \<and> (\<exists>n\<le>length es2. new = take (k + 1 + length es1) old @ map stored_entry (take n es2) \<and> (full \<longrightarrow> n = length es2))"
    using assms(3) unfolding overwritten_def by blast
  have "\<forall>j<length (e # es1). en_term (old ! (k + j)) = en_term ((e # es1) ! j)"
    using o(3) assms(2) by (auto simp: less_Suc_eq_0_disj)
  then show ?thesis unfolding overwritten_def using o by (intro exI[of _ "e # es1"] exI[of _ es2]) auto
qed

lemma ae_loop_law:
  assumes "log_wf (ctx_log r)" "ae_loop r rpc tip i cur = (out, r')" "tip = last_index r"
    and "lg_last_included_index (ctx_log r) \<le> ae_prev_log_index rpc + int i" "ae_prev_log_index rpc + int i \<le> tip"
    and "es = msg_read rpc i cur (nat (ae_entry_count rpc) - i)"
    and "k = nat (ae_prev_log_index rpc + int i - lg_last_included_index (ctx_log r))"
  shows "log_wf (ctx_log r') \<and> relogged r r'
    \<and> (if \<exists>ch. out = AE_Done ch False then overwritten (log_entries (ctx_log r)) k es True (log_entries (ctx_log r'))
       else log_entries (ctx_log r') = log_entries (ctx_log r) \<or> overwritten (log_entries (ctx_log r)) k es False (log_entries (ctx_log r')))"
  using assms
proof (induction r rpc tip i cur arbitrary: es k rule: ae_loop.induct)
  case (1 r rpc tip i cur)
  let ?old = "log_entries (ctx_log r)" and ?lii = "lg_last_included_index (ctx_log r)"
  define eidx where "eidx = ae_prev_log_index rpc + 1 + int i"
  obtain e cur2 where rd: "ae_read rpc i cur = (e, cur2)" by fastforce
  let ?fits = "eidx \<le> tip \<and> eidx > ?lii \<and> term_at r eidx = en_term e"
  have step: "ae_loop r rpc tip i cur = (if int i \<ge> ae_entry_count rpc then (AE_Done False False, r)
      else if en_kind e > 2 then (AE_Error, r) else if ae_term_bad rpc i then (AE_Error, r)
      else if ?fits then ae_loop r rpc tip (i + 1) cur2
      else if eidx \<le> tip then if eidx - 1 < ?lii then (AE_Reject (?lii + 1), r)
           else ae_append_loop (snd (raft_log_cut r (eidx - 1))) rpc True i e cur2
      else ae_append_loop r rpc False i e cur2)"
    unfolding eidx_def by (subst ae_loop.simps) (simp only: Let_def rd prod.case)
  have len: "int (length ?old) = tip - ?lii" using 1(4) by (simp add: last_index_entries)
  have k: "int k = eidx - 1 - ?lii" "k \<le> length ?old" using 1(5,6,8) len by (simp_all add: eidx_def)
  consider (fin) "int i \<ge> ae_entry_count rpc" | (bad) "int i < ae_entry_count rpc" "en_kind e > 2 \<or> ae_term_bad rpc i"
    | (go) "int i < ae_entry_count rpc" "\<not> en_kind e > 2" "\<not> ae_term_bad rpc i" by linarith
  then show ?case
  proof cases
    case fin
    then show ?thesis using step 1(2,3,7) k(2) overwritten_Nil[of k ?old True] by simp
  next
    case bad
    then show ?thesis using step 1(2,3) by (auto split: if_splits)
  next
    case go
    define rest where "rest = msg_read rpc (i + 1) cur2 (nat (ae_entry_count rpc) - (i + 1))"
    have "nat (ae_entry_count rpc) - i = Suc (nat (ae_entry_count rpc) - (i + 1))" using go(1) by linarith
    then have es: "es = e # rest" using 1(7) rd by (simp add: rest_def)
    have lt: "k < length ?old \<longleftrightarrow> eidx \<le> tip" using k(1) len by linarith
    have tm: "term_at r eidx = en_term (?old ! k)" if "eidx \<le> tip"
    proof -
      have "nat (eidx - ?lii - 1) = k" "\<not> eidx \<le> ?lii" "\<not> eidx > last_index r" using k(1) that 1(4) by linarith+
      then show ?thesis using term_at_entries[OF 1(2), of eidx] by simp
    qed
    show ?thesis
    proof (cases ?fits)
      case True
      have eq: "ae_loop r rpc tip (i + 1) cur2 = (out, r')" using step 1(3) go True by simp
      have kk: "k + 1 = nat (ae_prev_log_index rpc + int (i + 1) - ?lii)" using k(1) by (simp add: eidx_def)
      have "log_wf (ctx_log r') \<and> relogged r r'
        \<and> (if \<exists>ch. out = AE_Done ch False then overwritten ?old (k + 1) rest True (log_entries (ctx_log r'))
           else log_entries (ctx_log r') = ?old \<or> overwritten ?old (k + 1) rest False (log_entries (ctx_log r')))"
        using go True 1(5,6) by (intro 1(1)[OF _ eidx_def rd[symmetric] _ _ _ True 1(2) eq 1(4) _ _ rest_def kk]) (simp_all add: eidx_def)
      moreover have "overwritten ?old (k + 1) rest f n \<Longrightarrow> overwritten ?old k es f n" for f n
        using overwritten_skip[of k ?old e rest f n] True lt tm es by simp
      ultimately show ?thesis by (auto split: if_splits)
    next
      case False
      define r1 where "r1 = (if eidx \<le> tip then snd (raft_log_cut r (eidx - 1)) else r)"
      have ge: "\<not> eidx - 1 < ?lii" using k(1) by linarith
      have eq: "ae_append_loop r1 rpc (eidx \<le> tip) i e cur2 = (out, r')" using step 1(3) go False ge by (simp add: r1_def split: if_splits)
      have kn: "nat (eidx - 1 - ?lii) = k" using k(1) by linarith
      have r1: "log_wf (ctx_log r1)" "relogged r r1" "log_entries (ctx_log r1) = take k ?old"
        using log_cut_law[OF 1(2), of "eidx - 1", unfolded kn] 1(2) ge k(2) lt by (auto simp: r1_def)
      obtain n where n: "log_wf (ctx_log r')" "relogged r1 r'" "n \<le> length es"
        "log_entries (ctx_log r') = take k ?old @ map stored_entry (take n es)"
        "out = AE_Done (eidx \<le> tip) False \<longrightarrow> n = length es" "out \<in> {AE_Done (eidx \<le> tip) False, AE_Done (eidx \<le> tip) True, AE_Error}"
        using append_loop_law[OF r1(1) eq go(1), of es] es r1(3) by (auto simp: rest_def)
      have "k < length ?old \<longrightarrow> en_term (?old ! k) \<noteq> en_term e" using False lt tm k(1) by auto
      then have o: "(f \<longrightarrow> n = length es) \<Longrightarrow> overwritten ?old k es f (log_entries (ctx_log r'))" for f
        using overwritten_here[of k ?old e n rest "log_entries (ctx_log r')" f] k(2) n(3,4) unfolding es by blast
      have "(\<exists>ch. out = AE_Done ch False) \<Longrightarrow> n = length es" using n(5,6) by auto
      then show ?thesis using n(1) relogged_trans[OF r1(2) n(2)] o[of True] o[of False] by simp
    qed
  qed
qed

subsection \<open>Log matching\<close>

text \<open>Entries by absolute index, agreement up to an index, and the log matching relation: two logs
  that hold an entry of the same term at the same index agree on everything up to it.\<close>

definition has :: "raft_log \<Rightarrow> int \<Rightarrow> bool" where
  "has l i \<longleftrightarrow> lg_last_included_index l < i \<and> i \<le> raft_log_last_index l"

definition ent :: "raft_log \<Rightarrow> int \<Rightarrow> raft_entry" where
  "ent l i = log_entries l ! nat (i - lg_last_included_index l - 1)"

definition agree_upto :: "raft_log \<Rightarrow> raft_log \<Rightarrow> int \<Rightarrow> bool" where
  "agree_upto l m i \<longleftrightarrow> (\<forall>j\<le>i. has l j \<longrightarrow> has m j \<longrightarrow> ent l j = ent m j)"

definition matching :: "raft_log \<Rightarrow> raft_log \<Rightarrow> bool" where
  "matching l m \<longleftrightarrow> (\<forall>i. has l i \<longrightarrow> has m i \<longrightarrow> en_term (ent l i) = en_term (ent m i) \<longrightarrow> agree_upto l m i)"

text \<open>The message carries a slice of the log \<open>m\<close>.\<close>

definition carries :: "raft_append_entries \<Rightarrow> raft_log \<Rightarrow> bool" where
  "carries rpc m \<longleftrightarrow> ae_prev_log_index rpc \<le> raft_log_last_index m
     \<and> (has m (ae_prev_log_index rpc) \<longrightarrow> en_term (ent m (ae_prev_log_index rpc)) = ae_prev_log_term rpc)
     \<and> (\<forall>j<length (msg_entries rpc). has m (ae_prev_log_index rpc + 1 + int j)
          \<and> stored_entry (msg_entries rpc ! j) = ent m (ae_prev_log_index rpc + 1 + int j))"

lemma has_pos: "has l i \<longleftrightarrow> (\<exists>j<length (log_entries l). i = lg_last_included_index l + 1 + int j)"
proof
  assume "has l i"
  then show "\<exists>j<length (log_entries l). i = lg_last_included_index l + 1 + int j"
    by (intro exI[of _ "nat (i - lg_last_included_index l - 1)"]) (auto simp: has_def last_index_entries)
qed (auto simp: has_def last_index_entries)

lemma ent_pos: "i = lg_last_included_index l + 1 + int j \<Longrightarrow> ent l i = log_entries l ! j"
  by (simp add: ent_def)

lemma agree_all_matching: "(\<And>i. agree_upto l m i) \<Longrightarrow> matching l m"
  by (simp add: matching_def)

lemma agree_upto_mono: "agree_upto l m i \<Longrightarrow> j \<le> i \<Longrightarrow> agree_upto l m j"
  by (simp add: agree_upto_def)

text \<open>The list-level heart of the argument.\<close>

lemma overwritten_matching:
  assumes base: "lg_last_included_index l' = lg_last_included_index l" and mt: "matching l m"
    and prev: "agree_upto l m p" "p = lg_last_included_index l + int k"
    and car: "\<forall>j<length es. has m (p + 1 + int j) \<and> stored_entry (es ! j) = ent m (p + 1 + int j)"
    and ow: "overwritten (log_entries l) k es full (log_entries l')"
  shows "matching l' m \<and> (full \<longrightarrow> agree_upto l' m (p + int (length es)) \<and> p + int (length es) \<le> raft_log_last_index l')
    \<and> (\<forall>i. has l i \<longrightarrow> has m i \<longrightarrow> en_term (ent l i) = en_term (ent m i) \<longrightarrow> has l' i)"
proof -
  let ?old = "log_entries l" and ?new = "log_entries l'" and ?lii = "lg_last_included_index l"
  obtain es1 es2 where o: "es = es1 @ es2" "k + length es1 \<le> length ?old"
    "\<forall>j<length es1. en_term (?old ! (k + j)) = en_term (es1 ! j)"
    "es2 = [] \<and> ?new = ?old \<or> es2 \<noteq> [] \<and> (k + length es1 < length ?old \<longrightarrow> en_term (?old ! (k + length es1)) \<noteq> en_term (hd es2))
       \<and> (\<exists>n\<le>length es2. ?new = take (k + length es1) ?old @ map stored_entry (take n es2) \<and> (full \<longrightarrow> n = length es2))"
    using ow unfolding overwritten_def by blast
  let ?d = "k + length es1"
  have skipped: "agree_upto l m (p + int (length es1))"
  proof (cases "length es1")
    case 0
    then show ?thesis using prev(1) by simp
  next
    case (Suc c)
    let ?i = "p + 1 + int c"
    have c: "c < length es1" "c < length es" using Suc o(1) by auto
    have pos: "?i = ?lii + 1 + int (k + c)" using prev(2) by simp
    have "has l ?i" using has_pos pos o(2) Suc by (metis add_Suc_right less_le_trans lessI)
    moreover have "has m ?i" and se: "stored_entry (es ! c) = ent m ?i" using car c(2) by auto
    moreover have "en_term (ent l ?i) = en_term (ent m ?i)"
      using o(1,3) c(1) se ent_pos[OF pos] by (metis nth_append stored_entry_term)
    ultimately have "agree_upto l m ?i" using mt by (simp add: matching_def)
    then show ?thesis using Suc by (simp add: add.assoc)
  qed
  show ?thesis
  proof (cases "es2 = []")
    case True
    then have eq: "?new = ?old" using o(4) by blast
    then have same: "has l' i = has l i" "ent l' i = ent l i" for i
      by (simp_all add: has_def ent_def last_index_entries base)
    have "p + int (length es) \<le> raft_log_last_index l'" using o(1,2) True prev(2) eq by (simp add: last_index_entries base)
    then show ?thesis using mt skipped o(1) True by (simp add: matching_def agree_upto_def same)
  next
    case False
    then obtain n where n: "n \<le> length es2" "?new = take ?d ?old @ map stored_entry (take n es2)" "full \<longrightarrow> n = length es2"
      and ne: "?d < length ?old \<longrightarrow> en_term (?old ! ?d) \<noteq> en_term (hd es2)" using o(4) by blast
    have len: "length ?new = ?d + n" using n o(2) by simp
    have all: "agree_upto l' m i" for i
      unfolding agree_upto_def
    proof (intro allI impI)
      fix j assume "has l' j" and hm: "has m j"
      then obtain q where q: "q < ?d + n" "j = ?lii + 1 + int q" using has_pos[of l' j] len base by auto
      have e': "ent l' j = ?new ! q" using ent_pos[of j l' q] q(2) base by simp
      show "ent l' j = ent m j"
      proof (cases "q < ?d")
        case True
        have "q < length ?old" using True o(2) by linarith
        then have "has l j" using has_pos[of l j] q(2) by blast
        moreover have "ent l j = ?new ! q" using ent_pos[OF q(2)] True \<open>q < length ?old\<close> unfolding n(2) by (simp add: nth_append)
        moreover have "j \<le> p + int (length es1)" using True q(2) prev(2) by linarith
        ultimately show ?thesis using skipped hm e' unfolding agree_upto_def by simp
      next
        case False
        define c where "c = q - k"
        have c: "c < length es" "length es1 \<le> c" "q = k + c" using False q(1) n(1) o(1) by (auto simp: c_def)
        have "?new ! q = stored_entry (es2 ! (q - ?d))" unfolding n(2) using False q(1) n(1) o(2) by (simp add: nth_append)
        also have "es2 ! (q - ?d) = es ! c" using False o(1) c(2,3) by (simp add: nth_append)
        finally have "?new ! q = stored_entry (es ! c)" .
        moreover have "p + 1 + int c = j" using q(2) prev(2) c(3) by simp
        ultimately show ?thesis using car c(1) e' by auto
      qed
    qed
    have kept: "has l' i" if h: "has l i" "has m i" "en_term (ent l i) = en_term (ent m i)" for i
    proof (rule ccontr)
      assume no: "\<not> has l' i"
      obtain q where q: "q < length ?old" "i = ?lii + 1 + int q" using h(1) has_pos by blast
      have dq: "?d \<le> q" using no q(2) has_pos[of l' i] base len by (metis add.commute trans_less_add2 not_le)
      define D where "D = ?lii + 1 + int ?d"
      have hd: "hd es2 = es ! length es1" "length es1 < length es" using False o(1) by (simp_all add: hd_conv_nth nth_append)
      have pD: "p + 1 + int (length es1) = D" using prev(2) by (simp add: D_def)
      have hD: "has l D" using D_def le_less_trans[OF dq q(1)] unfolding has_pos by blast
      have sD: "has m D" "en_term (ent m D) = en_term (hd es2)" using car hd pD by (metis stored_entry_term)+
      have "agree_upto l m i" using mt h by (simp add: matching_def)
      moreover have "D \<le> i" using dq q(2) by (simp add: D_def)
      ultimately have "ent l D = ent m D" using hD sD(1) by (simp add: agree_upto_def)
      moreover have "ent l D = ?old ! ?d" using ent_pos[OF D_def] .
      ultimately show False using ne sD(2) dq q(1) by simp
    qed
    have "full \<longrightarrow> p + int (length es) \<le> raft_log_last_index l'" using n(3) len prev(2) o(1) by (simp add: last_index_entries base)
    then show ?thesis using all kept agree_all_matching[of l' m] by blast
  qed
qed

subsection \<open>The handler\<close>

lemma prev_check_agree:
  assumes wf: "log_wf (ctx_log r)" and mt: "matching (ctx_log r) m" and car: "carries rpc m" and ok: "ae_prev_check r rpc = None"
    and z: "0 \<le> lg_last_included_index (ctx_log r)"
  shows "agree_upto (ctx_log r) m (ae_prev_log_index rpc)"
proof (cases "has (ctx_log r) (ae_prev_log_index rpc) \<and> has m (ae_prev_log_index rpc)")
  case True
  let ?p = "ae_prev_log_index rpc" and ?l = "ctx_log r"
  have "?p > 0" using True z by (simp add: has_def)
  then have "raft_log_term_at ?l ?p = ae_prev_log_term rpc" using ok by (auto simp: ae_prev_check_def Let_def split: if_splits)
  moreover have "raft_log_term_at ?l ?p = en_term (ent ?l ?p)" using True term_at_entries[OF wf, of ?p] by (simp add: has_def ent_def)
  ultimately have "en_term (ent ?l ?p) = en_term (ent m ?p)" using car True by (simp add: carries_def)
  then show ?thesis using mt True by (simp add: matching_def)
next
  case False
  have "ae_prev_log_index rpc \<le> last_index r" if "ae_prev_log_index rpc > 0"
    using ok that by (auto simp: ae_prev_check_def Let_def split: if_splits)
  then have "ae_prev_log_index rpc \<le> lg_last_included_index (ctx_log r) \<or> ae_prev_log_index rpc \<le> lg_last_included_index m"
    using False car z by (force simp: has_def carries_def)
  then show ?thesis by (auto simp: agree_upto_def has_def)
qed

text \<open>What a step keeps and gives relative to a log \<open>m\<close>.\<close>

definition aligned :: "raft_log \<Rightarrow> raft_log \<Rightarrow> raft_log \<Rightarrow> bool" where
  "aligned m l l' \<longleftrightarrow> log_wf l' \<and> matching l' m
     \<and> (\<forall>i. has l i \<longrightarrow> has m i \<longrightarrow> en_term (ent l i) = en_term (ent m i) \<longrightarrow> has l' i)"

lemma aligned_same: "log_wf l \<Longrightarrow> matching l m \<Longrightarrow> aligned m l l"
  by (simp add: aligned_def)

lemma ae_loop_low:
  assumes "ae_prev_log_index rpc < lg_last_included_index (ctx_log r)" "ae_loop r rpc (last_index r) 0 0 = (out, r')"
  shows "r' = r \<and> (\<forall>ch oom. out = AE_Done ch oom \<longrightarrow> ae_entry_count rpc \<le> 0)"
proof -
  have "ae_prev_log_index rpc + 1 \<le> last_index r" using assms(1) by (simp add: raft_log_last_index_def)
  then show ?thesis using assms by (subst (asm) ae_loop.simps) (auto simp: Let_def split: prod.splits if_splits)
qed

lemma ae_loop_aligned:
  assumes wf: "log_wf (ctx_log r)" and mt: "matching (ctx_log r) m" and car: "carries rpc m" and ok: "ae_prev_check r rpc = None"
    and z: "0 \<le> lg_last_included_index (ctx_log r)" and c: "0 \<le> ae_entry_count rpc"
    and e: "ae_loop r rpc (last_index r) 0 0 = (out, r')"
  shows "aligned m (ctx_log r) (ctx_log r') \<and> relogged r r'
    \<and> ((\<exists>ch. out = AE_Done ch False) \<longrightarrow> agree_upto (ctx_log r') m (ae_prev_log_index rpc + ae_entry_count rpc))"
proof (cases "ae_prev_log_index rpc < lg_last_included_index (ctx_log r)")
  case True
  note low = ae_loop_low[OF True e]
  have "agree_upto (ctx_log r) m (ae_prev_log_index rpc + x)" if "x \<le> 0" for x using True that by (auto simp: agree_upto_def has_def)
  then show ?thesis using low aligned_same[OF wf mt] by auto
next
  case False
  let ?p = "ae_prev_log_index rpc" and ?l = "ctx_log r" and ?es = "msg_entries rpc"
  define k where "k = nat (?p - lg_last_included_index ?l)"
  have pk: "?p = lg_last_included_index ?l + int k" using False by (simp add: k_def)
  have "?p \<le> last_index r"
    using ok z False by (cases "?p > 0") (auto simp: ae_prev_check_def Let_def raft_log_last_index_def split: if_splits)
  then have law: "log_wf (ctx_log r') \<and> relogged r r'
    \<and> (if \<exists>ch. out = AE_Done ch False then overwritten (log_entries ?l) k ?es True (log_entries (ctx_log r'))
       else log_entries (ctx_log r') = log_entries ?l \<or> overwritten (log_entries ?l) k ?es False (log_entries (ctx_log r')))"
    using False by (intro ae_loop_law[OF wf e refl]) (simp_all add: msg_entries_def k_def)
  have base: "lg_last_included_index (ctx_log r') = lg_last_included_index ?l" using law by (simp add: relogged_def)
  have len: "int (length ?es) = ae_entry_count rpc" using c by (simp add: msg_entries_def)
  have car': "\<forall>j<length ?es. has m (?p + 1 + int j) \<and> stored_entry (?es ! j) = ent m (?p + 1 + int j)" using car by (simp add: carries_def)
  note om = overwritten_matching[OF base mt prev_check_agree[OF wf mt car ok z] pk car']
  have "matching (ctx_log r') m" if "log_entries (ctx_log r') = log_entries ?l"
    using mt that base by (simp add: matching_def agree_upto_def has_def ent_def last_index_entries)
  moreover have "has (ctx_log r') i = has ?l i" if "log_entries (ctx_log r') = log_entries ?l" for i
    using that base by (simp add: has_def last_index_entries)
  ultimately show ?thesis using law om[of True] om[of False] len unfolding aligned_def by (auto split: if_splits)
qed

lemma ae_follow_keeps [simp]:
  "ctx_log (ae_follow r l) = ctx_log r" "commit_index (ae_follow r l) = commit_index r" "current_term (ae_follow r l) = current_term r"
  "voted_for (ae_follow r l) = voted_for r" "persist_gen (ae_follow r l) = persist_gen r" "ctx_cfg (ae_follow r l) = ctx_cfg r"
  "durable_confirm (ae_follow r l) = durable_confirm r" "durable_index (ae_follow r l) = durable_index r"
  by (simp_all add: ae_follow_def Let_def)

lemma reply_fail_keeps [frame]: "ae_reply_fail r rpc h = (rc, r') \<Longrightarrow> keeps r r'"
proof -
  assume a: "ae_reply_fail r rpc h = (rc, r')"
  obtain b r1 where e: "raft_msg_ensure r (length (msg_buf r) + 1) = (b, r1)" by fastforce
  note k = keepsD[OF ensure_keeps(2)[OF e]]
  show ?thesis using a k unfolding ae_reply_fail_def Let_def e by (auto simp: keeps_def split: prod.splits if_splits)
qed

lemma reply_ok_keeps [frame]: "ae_reply_ok r rpc = (rc, r') \<Longrightarrow> keeps r r'"
proof -
  assume a: "ae_reply_ok r rpc = (rc, r')"
  obtain b r1 where e: "raft_msg_ensure r (length (msg_buf r) + 1) = (b, r1)" by fastforce
  note k = keepsD[OF ensure_keeps(2)[OF e]]
  show ?thesis using a k unfolding ae_reply_ok_def Let_def e by (auto simp: keeps_def split: if_splits)
qed

lemma ae_commit_law:
  "\<exists>c. ae_commit r rpc = r\<lparr>commit_index := c\<rparr>
     \<and> (c = commit_index r \<or> commit_index r < c \<and> c \<le> ae_leader_commit rpc \<and> c \<le> ae_prev_log_index rpc + ae_entry_count rpc \<and> c \<le> last_index r)"
proof -
  define cap where "cap = (let c = ae_prev_log_index rpc + ae_entry_count rpc; c = (if c > last_index r then last_index r else c)
     in if ae_leader_commit rpc < c then ae_leader_commit rpc else c)"
  have e: "ae_commit r rpc = (if ae_leader_commit rpc > commit_index r \<and> cap > commit_index r then r\<lparr>commit_index := cap\<rparr> else r)"
    unfolding ae_commit_def Let_def cap_def by simp
  have c: "cap \<le> ae_leader_commit rpc" "cap \<le> ae_prev_log_index rpc + ae_entry_count rpc" "cap \<le> last_index r"
    by (simp_all add: cap_def Let_def)
  show ?thesis
  proof (cases "ae_leader_commit rpc > commit_index r \<and> cap > commit_index r")
    case True
    then have "ae_commit r rpc = r\<lparr>commit_index := cap\<rparr>" using e by simp
    then show ?thesis using c True by blast
  next
    case False
    then have "ae_commit r rpc = r\<lparr>commit_index := commit_index r\<rparr>" using e by simp
    then show ?thesis by blast
  qed
qed

text \<open>The handler around the loop.\<close>

lemma recv_append_cases:
  assumes "raft_recv_append_entries r from rpc = (rc, r')"
  obtains (idle) "ctx_log r' = ctx_log r" "commit_index r' = commit_index r"
  | (run) r1 out r2 where "ctx_log r1 = ctx_log r" "commit_index r1 = commit_index r" "0 \<le> ae_entry_count rpc"
      "ae_prev_check r1 rpc = None" "ae_loop r1 rpc (last_index r1) 0 0 = (out, r2)" "ctx_log r' = ctx_log r2"
      "commit_index r' = commit_index r2 \<or> (\<exists>ch. out = AE_Done ch False) \<and> commit_index r2 < commit_index r' \<and> commit_index r' \<le> ae_leader_commit rpc
         \<and> commit_index r' \<le> ae_prev_log_index rpc + ae_entry_count rpc \<and> commit_index r' \<le> last_index r2"
proof -
  define ra where "ra = (if ae_term rpc > current_term r then raft_step_down r (ae_term rpc) (ae_leader_id rpc) else r)"
  define r1 where "r1 = ae_follow ra (ae_leader_id rpc)"
  have ra: "ctx_log ra = ctx_log r" "commit_index ra = commit_index r" by (simp_all add: ra_def)
  have r1: "ctx_log r1 = ctx_log r" "commit_index r1 = commit_index r" by (simp_all add: r1_def ra)
  obtain out r2 where lp: "ae_loop r1 rpc (last_index r1) 0 0 = (out, r2)" by fastforce
  define fin where "fin = (\<lambda>ch oom.
      let (rc, r) = (if ae_entry_count rpc > 0 \<or> ch \<or> config_apply_stale r2 then raft_apply_config_from_log r2 else (0, r2))
      in if rc < 0 then (-1, r) else if oom then (-1, r)
         else let r = ae_commit r rpc; r = (if ae_entry_count rpc > 0 \<or> ch then r\<lparr>persist_needed := True\<rparr> else r)
              in ae_reply_ok r rpc)"
  consider "ctx_log r' = ctx_log r" "commit_index r' = commit_index r"
    | "0 \<le> ae_entry_count rpc" "ae_prev_check r1 rpc = None"
      "(case out of AE_Error \<Rightarrow> (-1, r2) | AE_Reject h \<Rightarrow> ae_reply_fail r2 rpc h | AE_Done ch oom \<Rightarrow> fin ch oom) = (rc, r')"
    using assms ra r1 lp reply_fail_keeps[of r1 rpc _ rc r', THEN keepsD(1)] reply_fail_keeps[of r1 rpc _ rc r', THEN keepsD(4)]
    unfolding raft_recv_append_entries_def ra_def[symmetric] Let_def r1_def[symmetric] fin_def
    by (auto split: if_splits option.splits simp: not_less)
  then show thesis
  proof cases
    case 1
    then show ?thesis by (rule idle)
  next
    case 2
    show ?thesis
    proof (cases out)
      case AE_Error
      then show ?thesis using 2 by (intro run[OF r1 2(1,2) lp]) auto
    next
      case (AE_Reject h)
      then have "keeps r2 r'" using 2(3) by (auto dest: reply_fail_keeps)
      then show ?thesis by (intro run[OF r1 2(1,2) lp]) (simp_all add: keepsD)
    next
      case (AE_Done ch oom)
      obtain rc3 r3 where a: "(if ae_entry_count rpc > 0 \<or> ch \<or> config_apply_stale r2 then raft_apply_config_from_log r2 else (0, r2)) = (rc3, r3)"
        by fastforce
      have k3: "keeps r2 r3" using a by (auto split: if_splits dest: apply_log_keeps)
      have e: "(if rc3 < 0 then (-1, r3) else if oom then (-1, r3)
         else ae_reply_ok (if ae_entry_count rpc > 0 \<or> ch then (ae_commit r3 rpc)\<lparr>persist_needed := True\<rparr> else ae_commit r3 rpc) rpc) = (rc, r')"
      proof -
        have "fin ch oom = (rc, r')" using 2(3) AE_Done by simp
        then show ?thesis unfolding fin_def Let_def by (simp only: a prod.case)
      qed
      obtain c where c: "ae_commit r3 rpc = r3\<lparr>commit_index := c\<rparr>" "c = commit_index r3 \<or> commit_index r3 < c
          \<and> c \<le> ae_leader_commit rpc \<and> c \<le> ae_prev_log_index rpc + ae_entry_count rpc \<and> c \<le> last_index r3" using ae_commit_law by blast
      show ?thesis
      proof (cases "rc3 < 0 \<or> oom")
        case True
        then have "r' = r3" using e by (auto split: if_splits)
        then show ?thesis using k3 by (intro run[OF r1 2(1,2) lp]) (simp_all add: keepsD)
      next
        case False
        then have "ctx_log r' = ctx_log r3 \<and> commit_index r' = c" using e c(1) reply_ok_keeps by (auto split: if_splits dest!: reply_ok_keeps simp: keeps_def)
        then show ?thesis using k3 c(2) AE_Done False by (intro run[OF r1 2(1,2) lp]) (auto simp: keepsD)
      qed
    qed
  qed
qed

lemma recv_append_aligned:
  assumes "log_wf (ctx_log r)" "0 \<le> lg_last_included_index (ctx_log r)" "matching (ctx_log r) m" "carries rpc m"
    and "raft_recv_append_entries r from rpc = (rc, r')"
  shows "aligned m (ctx_log r) (ctx_log r') \<and> commit_index r \<le> commit_index r'
    \<and> (commit_index r < commit_index r' \<longrightarrow> commit_index r' \<le> ae_leader_commit rpc \<and> commit_index r' \<le> last_index r'
        \<and> agree_upto (ctx_log r') m (commit_index r'))"
  using assms(5)
proof (cases rule: recv_append_cases)
  case idle
  then show ?thesis using aligned_same[OF assms(1,3)] by simp
next
  case (run r1 out r2)
  have "aligned m (ctx_log r1) (ctx_log r2) \<and> relogged r1 r2
    \<and> ((\<exists>ch. out = AE_Done ch False) \<longrightarrow> agree_upto (ctx_log r2) m (ae_prev_log_index rpc + ae_entry_count rpc))"
    using ae_loop_aligned[of r1 m rpc out r2] run assms(1-4) by simp
  moreover from this have "commit_index r2 = commit_index r" using run(2) by (simp add: relogged_def keeps_def)
  ultimately show ?thesis using run agree_upto_mono by auto
qed

text \<open>C6. A follower keeps the log matching relation with the leader's log under every AppendEntries that
  carries a slice of that log, whatever the handler does (reject, run out of memory half way,
  stop at a malformed entry, or succeed): the store stays well-formed, the two logs still agree
  below any index where they hold the same term, no entry that already agreed is removed, the
  commit index never moves back, and when it moves it stays within the leader's commit index and
  the log, and every entry up to it is the leader's.\<close>

theorem append_entries_log_matching:
  assumes "log_wf (ctx_log r)" "0 \<le> lg_last_included_index (ctx_log r)" "matching (ctx_log r) m" "carries rpc m"
    and "raft_recv_append_entries r from rpc = (rc, r')"
  shows "aligned m (ctx_log r) (ctx_log r') \<and> commit_index r \<le> commit_index r'
    \<and> (commit_index r < commit_index r' \<longrightarrow> commit_index r' \<le> ae_leader_commit rpc \<and> commit_index r' \<le> last_index r'
        \<and> agree_upto (ctx_log r') m (commit_index r'))"
  by (rule recv_append_aligned[OF assms])

text \<open>A follower whose log is compacted up to index 4 takes entry 5 of a leader's log.\<close>

definition leader_log :: raft_log where
  "leader_log = snd (snd (raft_log_append [] sample_log 3 RAFT_ENTRY_COMMAND [7] [] [] []))"

definition follower_node :: raft_ctx where
  "follower_node = (sample_node 1)\<lparr>ctx_log := sample_log, commit_index := 4\<rparr>"

definition slice_rpc :: raft_append_entries where
  "slice_rpc = \<lparr> ae_term = 3, ae_prev_log_index = 4, ae_prev_log_term = 2, ae_leader_commit = 5, ae_read_context = 0,
     ae_entry_terms = Some [3], ae_entry_kinds = Some [RAFT_ENTRY_COMMAND], ae_entry_data = Some [7],
     ae_entry_data_sizes = Some [1], ae_entry_cfg_old = None, ae_entry_cfg_new = None, ae_entry_cfg_learners = None,
     ae_leader_id = 2, ae_entry_count = 1 \<rparr>"

lemma leader_log_law:
  "log_entries leader_log = [mk_entry 3 RAFT_ENTRY_COMMAND [7] [] [] []]" "lg_last_included_index leader_log = 4"
proof -
  have ok: "fst (raft_log_append [] sample_log 3 RAFT_ENTRY_COMMAND [7] [] [] [])"
    by (simp add: raft_log_append_def Let_def sample_log_def raft_log_last_index_def log_ci_def log_co_def
        raft_log_ensure_chunk_def raft_log_alloc_chunk_def chunk_zero_def raft_log_reserve_data_def)
  obtain s l where e: "raft_log_append [] sample_log 3 RAFT_ENTRY_COMMAND [7] [] [] [] = (True, s, l)" using ok by (metis prod.collapse)
  have "log_entries sample_log = []" by (simp add: sample_log_def log_entries_def ents_def)
  then show "log_entries leader_log = [mk_entry 3 RAFT_ENTRY_COMMAND [7] [] [] []]" "lg_last_included_index leader_log = 4"
    using append_law[OF sample_log_wf e] e by (simp_all add: leader_log_def grown_def sample_log_def)
qed

lemma slice_carried: "carries slice_rpc leader_log"
proof -
  have "msg_entries slice_rpc = [\<lparr> en_term = 3, en_kind = RAFT_ENTRY_COMMAND, en_data = [7], en_cfg_old = [], en_cfg_new = [], en_cfg_learners = [] \<rparr>]"
    by (simp add: msg_entries_def slice_rpc_def ae_read_def Let_def)
  then show ?thesis using leader_log_law
    by (simp add: carries_def has_def ent_def last_index_entries slice_rpc_def stored_entry_def mk_entry_def Let_def)
qed

lemma follower_matching: "matching sample_log leader_log"
proof -
  have "\<not> has sample_log i" for i by (simp add: has_def raft_log_last_index_def sample_log_def)
  then show ?thesis by (simp add: matching_def)
qed

theorem append_entries_log_matching_witness:
  "aligned leader_log sample_log (ctx_log (snd (raft_recv_append_entries follower_node 2 slice_rpc)))
   \<and> 4 \<le> commit_index (snd (raft_recv_append_entries follower_node 2 slice_rpc))"
proof -
  obtain rc r' where e: "raft_recv_append_entries follower_node 2 slice_rpc = (rc, r')" by fastforce
  have f: "ctx_log follower_node = sample_log" "commit_index follower_node = 4" by (simp_all add: follower_node_def)
  have "0 \<le> lg_last_included_index sample_log" by (simp add: sample_log_def)
  then show ?thesis
    using append_entries_log_matching[OF _ _ _ slice_carried e, unfolded f] sample_log_wf follower_matching unfolding e snd_conv by simp
qed

end
