(* ===== verification/Raft_Quorum.thy ===== *)
theory Raft_Quorum
  imports Raft_Tick
begin

section \<open>Quorums\<close>

text \<open>
  What the counting code of \<^verbatim>\<open>raft.h\<close> decides. An abstract interface of quorum systems whose
  configurations may be adjacent during a membership change, its instance on majorities of the
  old and new member sets, and the proof that \<open>vote_quorum\<close>, \<open>commit_quorum\<close> and
  \<open>tally_quorum\<close>, which count peer records, decide exactly this predicate when the peer list
  matches the configuration; the peer rebuild establishes that match.
\<close>

subsection \<open>Quorum systems\<close>

locale quorum_system =
  fixes quorum :: "'c \<Rightarrow> 'a set \<Rightarrow> bool" and adjacent :: "'c \<Rightarrow> 'c \<Rightarrow> bool"
  assumes meet: "adjacent c d \<Longrightarrow> quorum c A \<Longrightarrow> quorum d B \<Longrightarrow> \<exists>i. i \<in> A \<and> i \<in> B"
begin

text \<open>Members that choose once cannot support two values, and a quorum sees what another stored.\<close>

lemma one_choice:
  assumes "adjacent c d" "quorum c A" "quorum d B" "\<forall>i\<in>A. choice i = v" "\<forall>i\<in>B. choice i = w"
  shows "v = w"
  using meet[OF assms(1-3)] assms(4,5) by metis

lemma stored_seen:
  assumes "adjacent c d" "quorum c A" "quorum d B" "\<forall>i\<in>B. P i"
  shows "\<exists>i\<in>A. P i"
  using meet[OF assms(1-3)] assms(4) by blast

end

definition majority :: "'a set \<Rightarrow> 'a set \<Rightarrow> bool" where
  "majority C A \<longleftrightarrow> finite C \<and> 2 * card (A \<inter> C) > card C"

lemma majority_meet:
  assumes "majority C A" "majority C B"
  shows "\<exists>i. i \<in> A \<and> i \<in> B"
proof (rule ccontr)
  assume "\<nexists>i. i \<in> A \<and> i \<in> B"
  then have d: "(A \<inter> C) \<inter> (B \<inter> C) = {}" by blast
  have f: "finite C" using assms by (simp add: majority_def)
  have "card (A \<inter> C) + card (B \<inter> C) = card ((A \<inter> C) \<union> (B \<inter> C))" using d f by (simp add: card_Un_disjoint)
  also have "\<dots> \<le> card C" using f by (intro card_mono) auto
  finally show False using assms by (simp add: majority_def)
qed

text \<open>A membership: the old and the new member list, equal unless the configuration is joint.\<close>

record membership =
  mb_old :: "int list"
  mb_new :: "int list"
  mb_joint :: bool

definition mb_quorum :: "membership \<Rightarrow> int set \<Rightarrow> bool" where
  "mb_quorum m A \<longleftrightarrow> majority (set (mb_new m)) A \<and> (mb_joint m \<longrightarrow> majority (set (mb_old m)) A)"

text \<open>Two memberships that can be in force at the same time: they share a majority rule.\<close>

definition mb_adjacent :: "membership \<Rightarrow> membership \<Rightarrow> bool" where
  "mb_adjacent m n \<longleftrightarrow> mb_new m = mb_new n \<or> mb_joint m \<and> mb_old m = mb_new n
     \<or> mb_joint n \<and> mb_new m = mb_old n \<or> mb_joint m \<and> mb_joint n \<and> mb_old m = mb_old n"

interpretation members: quorum_system mb_quorum mb_adjacent
  by unfold_locales (auto simp: mb_quorum_def mb_adjacent_def dest: majority_meet)

definition members_of :: "raft_ctx \<Rightarrow> membership" where
  "members_of r = \<lparr> mb_old = config_old r, mb_new = config_new r, mb_joint = config_joint r \<rparr>"

subsection \<open>Counting peers is counting members\<close>

text \<open>The peer list matches the configuration: one record per other member, with the flags of the
  configurations it belongs to, and learners outside both.\<close>

definition peers_cover :: "raft_ctx \<Rightarrow> bool \<Rightarrow> bool" where
  "peers_cover r old \<longleftrightarrow> id_set (if old then config_old r else config_new r)
     \<and> pr_id ` {p \<in> set (ctx_peers r). counts_in old p} = set (if old then config_old r else config_new r) - {self_id r}"

definition peers_ok :: "raft_ctx \<Rightarrow> bool" where
  "peers_ok r \<longleftrightarrow> distinct (map pr_id (ctx_peers r)) \<and> peers_cover r True \<and> peers_cover r False
     \<and> (\<forall>p\<in>set (ctx_peers r). pr_is_learner p \<longrightarrow> \<not> pr_in_old_config p \<and> \<not> pr_in_new_config p)"

definition config_of :: "raft_ctx \<Rightarrow> bool \<Rightarrow> int list" where
  "config_of r old = (if old then config_old r else config_new r)"

text \<open>The members of one configuration that satisfy \<open>acked\<close>; this node counts when \<open>self\<close> holds.\<close>

definition backers :: "raft_ctx \<Rightarrow> bool \<Rightarrow> (raft_peer \<Rightarrow> bool) \<Rightarrow> int set" where
  "backers r self acked = {i. i = self_id r \<and> self \<or> (\<exists>p\<in>set (ctx_peers r). pr_id p = i \<and> i \<noteq> self_id r \<and> acked p)}"

lemma length_filter_card:
  assumes "distinct (map f xs)"
  shows "length (filter P xs) = card (f ` {x \<in> set xs. P x})"
proof -
  have i: "inj_on f (set xs)" and d: "distinct xs" using assms by (auto simp: distinct_map)
  have "length (filter P xs) = card (set (filter P xs))" using d by (metis distinct_card distinct_filter)
  also have "\<dots> = card (f ` {x \<in> set xs. P x})" using inj_on_subset[OF i] by (simp add: card_image)
  finally show ?thesis .
qed

lemma card_config:
  assumes ok: "peers_ok r"
  shows "raft_quorum_size_of r old = card (set (config_of r old)) div 2 + 1"
proof -
  let ?C = "set (config_of r old)"
  let ?n = "length (filter (counts_in old) (ctx_peers r))"
  have id: "id_set (config_of r old)" and cov: "pr_id ` {p \<in> set (ctx_peers r). counts_in old p} = ?C - {self_id r}"
    using ok by (cases old; simp add: peers_ok_def peers_cover_def config_of_def)+
  have n: "?n = card (?C - {self_id r})"
    using length_filter_card[of pr_id "ctx_peers r"] ok cov by (simp add: peers_ok_def)
  have h: "raft_mask_has (config_of r old) (self_id r) \<longleftrightarrow> self_id r \<in> ?C" by (rule raft_mask_has_iff[OF id])
  have "card ?C = (if self_id r \<in> ?C then ?n + 1 else ?n)"
    using card_Suc_Diff1[of ?C "self_id r"] n by auto
  moreover have "raft_quorum_size_of r old
      = (if raft_mask_has (config_of r old) (self_id r) then ?n + 1 else ?n) div 2 + 1"
    unfolding raft_quorum_size_of_def Let_def config_of_def raft_set_view_id by (cases old) simp_all
  ultimately show ?thesis using h by simp
qed

definition tallied :: "raft_ctx \<Rightarrow> bool \<Rightarrow> (raft_peer \<Rightarrow> bool) \<Rightarrow> bool \<Rightarrow> nat" where
  "tallied r self acked old = of_bool (self \<and> raft_mask_has (config_of r old) (self_id r))
     + length (filter (\<lambda>p. counts_in old p \<and> acked p) (ctx_peers r))"

lemma count_backers:
  assumes ok: "peers_ok r"
  shows "tallied r self acked old = card (backers r self acked \<inter> set (config_of r old))"
proof -
  let ?C = "set (config_of r old)" and ?B = "pr_id ` {p \<in> set (ctx_peers r). counts_in old p \<and> acked p}"
  have id: "id_set (config_of r old)" and cov: "pr_id ` {p \<in> set (ctx_peers r). counts_in old p} = ?C - {self_id r}"
    using ok by (cases old; simp add: peers_ok_def peers_cover_def config_of_def)+
  have inj: "inj_on pr_id (set (ctx_peers r))" using ok by (simp add: peers_ok_def distinct_map)
  have "length (filter (\<lambda>p. counts_in old p \<and> acked p) (ctx_peers r)) = card ?B"
    using length_filter_card[of pr_id "ctx_peers r"] ok by (simp add: peers_ok_def)
  moreover have "?B = (backers r self acked \<inter> ?C) - {self_id r}"
  proof (intro set_eqI iffI)
    fix i assume "i \<in> ?B"
    then obtain p where p: "p \<in> set (ctx_peers r)" "counts_in old p" "acked p" "i = pr_id p" by blast
    then have "i \<in> ?C - {self_id r}" using cov by blast
    then show "i \<in> (backers r self acked \<inter> ?C) - {self_id r}" using p by (auto simp: backers_def)
  next
    fix i assume i: "i \<in> (backers r self acked \<inter> ?C) - {self_id r}"
    then obtain p where p: "p \<in> set (ctx_peers r)" "pr_id p = i" "acked p" by (auto simp: backers_def)
    have "i \<in> pr_id ` {p \<in> set (ctx_peers r). counts_in old p}" using cov i by blast
    then obtain q where q: "q \<in> set (ctx_peers r)" "counts_in old q" "pr_id q = i" by blast
    then have "q = p" using inj p by (auto dest: inj_onD)
    then show "i \<in> ?B" using p q by blast
  qed
  moreover have "self_id r \<in> backers r self acked \<inter> ?C \<longleftrightarrow> self \<and> self_id r \<in> ?C" by (auto simp: backers_def)
  moreover have "finite (backers r self acked \<inter> ?C)" by simp
  moreover have "raft_mask_has (config_of r old) (self_id r) \<longleftrightarrow> self_id r \<in> ?C" by (rule raft_mask_has_iff[OF id])
  ultimately show ?thesis using card_Suc_Diff1[of "backers r self acked \<inter> ?C" "self_id r"]
    by (cases "self \<and> self_id r \<in> ?C") (auto simp: tallied_def)
qed

lemma tally_majority:
  "peers_ok r \<Longrightarrow> raft_quorum_size_of r old \<le> tallied r self acked old
    \<longleftrightarrow> majority (set (config_of r old)) (backers r self acked)"
  using count_backers[of r self acked old] card_config[of r old] by (auto simp: majority_def)

text \<open>Every quorum test of the code is this one.\<close>

definition reaches :: "raft_ctx \<Rightarrow> bool \<Rightarrow> (raft_peer \<Rightarrow> bool) \<Rightarrow> bool" where
  "reaches r self acked \<longleftrightarrow> (config_joint r \<longrightarrow> raft_quorum_size_of r True \<le> tallied r self acked True)
     \<and> raft_quorum_size_of r False \<le> tallied r self acked False"

lemma reaches_iff: "peers_ok r \<Longrightarrow> reaches r self acked \<longleftrightarrow> mb_quorum (members_of r) (backers r self acked)"
  by (auto simp: reaches_def tally_majority mb_quorum_def members_of_def config_of_def)

subsection \<open>The three quorum tests\<close>

definition vote_given :: "bool \<Rightarrow> raft_peer \<Rightarrow> bool" where
  "vote_given pre p = (if pre then pr_pre_vote_acked p else pr_vote p)"

definition granted :: "raft_ctx \<Rightarrow> bool \<Rightarrow> int set" where
  "granted r pre = backers r True (vote_given pre)"

definition self_durable :: "raft_ctx \<Rightarrow> int \<Rightarrow> bool" where
  "self_durable r idx \<longleftrightarrow> (raft_has_voter_peer r \<longrightarrow> durable_index r \<ge> idx)"

definition replicated :: "raft_ctx \<Rightarrow> int \<Rightarrow> int set" where
  "replicated r idx = backers r (self_durable r idx) (\<lambda>p. pr_match_index p \<ge> idx)"

lemma vote_quorum_reaches: "vote_quorum r pre \<longleftrightarrow> reaches r True (vote_given pre)"
  by (simp add: vote_quorum_def reaches_def tallied_def vote_given_def raft_count_votes_def config_of_def Let_def)

lemma commit_quorum_reaches: "commit_quorum r idx \<longleftrightarrow> reaches r (self_durable r idx) (\<lambda>p. pr_match_index p \<ge> idx)"
proof -
  have b: "(if raft_has_voter_peer r \<and> h \<and> durable_index r < idx then False else h) \<longleftrightarrow> self_durable r idx \<and> h" for h
    by (auto simp: self_durable_def)
  show ?thesis
    by (simp add: commit_quorum_def Let_def b reaches_def tallied_def raft_count_match_def config_of_def)
qed

lemma vote_quorum_iff: "peers_ok r \<Longrightarrow> vote_quorum r pre \<longleftrightarrow> mb_quorum (members_of r) (granted r pre)"
  by (simp add: vote_quorum_reaches reaches_iff granted_def)

lemma commit_quorum_iff: "peers_ok r \<Longrightarrow> commit_quorum r idx \<longleftrightarrow> mb_quorum (members_of r) (replicated r idx)"
  by (simp add: commit_quorum_reaches reaches_iff replicated_def)

lemma peer_tally_tallied:
  assumes "peers_ok r"
  shows "peer_tally r acked old = tallied r True acked old"
proof -
  have "filter (\<lambda>p. acked p \<and> (if old then pr_in_old_config p else pr_in_new_config p)) (ctx_peers r)
      = filter (\<lambda>p. counts_in old p \<and> acked p) (ctx_peers r)"
    using assms by (intro filter_cong) (auto simp: peers_ok_def counts_in_def)
  then show ?thesis by (simp add: peer_tally_def tallied_def config_of_def)
qed

lemma tally_quorum_iff: "peers_ok r \<Longrightarrow> tally_quorum r acked \<longleftrightarrow> mb_quorum (members_of r) (backers r True acked)"
  by (auto simp: tally_quorum_def peer_tally_tallied reaches_iff[symmetric] reaches_def)

subsection \<open>The rebuilt peer list matches the configuration\<close>

lemma find_peer_Some: "raft_find_peer_in ps i = Some k \<Longrightarrow> k < length ps \<and> pr_id (ps ! k) = i"
  by (induction ps arbitrary: k) (auto split: if_splits)

lemma find_peer_None: "raft_find_peer_in ps i = None \<longleftrightarrow> i \<notin> pr_id ` set ps"
  by (induction ps) auto

lemma peer_carry_keeps:
  "pr_id (raft_peer_carry d old pid q) = pr_id d \<and> pr_in_old_config (raft_peer_carry d old pid q) = pr_in_old_config d
   \<and> pr_in_new_config (raft_peer_carry d old pid q) = pr_in_new_config d \<and> pr_is_learner (raft_peer_carry d old pid q) = pr_is_learner d"
  by (induction d old pid q rule: raft_peer_carry.induct) (simp_all add: Let_def)

lemma fresh_peer_simps [simp]:
  "pr_id (fresh_peer r i a b c) = i" "pr_in_old_config (fresh_peer r i a b c) = a"
  "pr_in_new_config (fresh_peer r i a b c) = b" "pr_is_learner (fresh_peer r i a b c) = c"
  by (simp_all add: fresh_peer_def peer_carry_keeps)

text \<open>The voters built so far: one record per member of \<open>A\<close> or \<open>B\<close> other than this node.\<close>

definition voters_built :: "int \<Rightarrow> int set \<Rightarrow> int set \<Rightarrow> raft_peer list \<Rightarrow> bool" where
  "voters_built self A B np \<longleftrightarrow> distinct (map pr_id np) \<and> pr_id ` set np = (A \<union> B) - {self}
     \<and> (\<forall>p\<in>set np. \<not> pr_is_learner p \<and> (pr_in_old_config p \<longleftrightarrow> pr_id p \<in> A) \<and> (pr_in_new_config p \<longleftrightarrow> pr_id p \<in> B))"

lemma voters_built_self: "voters_built self A B np \<longleftrightarrow> voters_built self (A - {self}) (B - {self}) np"
proof -
  have "pr_id p \<noteq> self" if "p \<in> set np" "pr_id ` set np = (A \<union> B) - {self}" for p using that by blast
  then show ?thesis by (auto simp: voters_built_def)
qed

lemma voters_built_snoc:
  assumes "voters_built self A B np" "i \<notin> pr_id ` set np" "i \<noteq> self" "a \<or> b"
  shows "voters_built self (if a then insert i A else A) (if b then insert i B else B) (np @ [fresh_peer r i a b False])"
proof -
  have "i \<notin> A" "i \<notin> B" using assms by (auto simp: voters_built_def)
  then show ?thesis using assms by (auto simp: voters_built_def)
qed

lemma update_ids: "j < length np \<Longrightarrow> pr_id q = pr_id (np ! j) \<Longrightarrow> map pr_id (np[j := q]) = map pr_id np"
  by (metis list_update_id map_update nth_map length_map)

lemma update_others:
  assumes "distinct (map pr_id np)" "j < length np" "p \<in> set (np[j := q])" "pr_id q = pr_id (np ! j)"
  shows "p = q \<or> p \<in> set np \<and> pr_id p \<noteq> pr_id q"
proof -
  obtain k where k: "k < length np" "np[j := q] ! k = p" using assms(3) by (metis in_set_conv_nth length_list_update)
  show ?thesis
  proof (cases "k = j")
    case False
    then have "p = np ! k" using k by simp
    moreover have "pr_id (np ! k) \<noteq> pr_id (np ! j)" using assms(1,2) k(1) False by (auto simp: distinct_conv_nth)
    ultimately show ?thesis using k(1) assms(4) by auto
  qed (use k assms(2) in auto)
qed

lemma voters_built_flag:
  assumes v: "voters_built self A B np" and j: "j < length np" "pr_id (np ! j) = i"
  shows "voters_built self (insert i A) B (np[j := (np ! j)\<lparr>pr_in_old_config := True\<rparr>])"
    and "voters_built self A (insert i B) (np[j := (np ! j)\<lparr>pr_in_new_config := True\<rparr>])"
proof -
  have d: "distinct (map pr_id np)" and ids: "pr_id ` set np = (A \<union> B) - {self}" using v by (auto simp: voters_built_def)
  have i: "i \<in> (A \<union> B) - {self}" using j ids nth_mem by blast
  have mem: "np ! j \<in> set np" using j by simp
  let ?q = "(np ! j)\<lparr>pr_in_old_config := True\<rparr>" and ?q' = "(np ! j)\<lparr>pr_in_new_config := True\<rparr>"
  have u: "map pr_id (np[j := ?q]) = map pr_id np" "map pr_id (np[j := ?q']) = map pr_id np" using j by (simp_all add: update_ids)
  have flag: "voters_built self A' B' (np[j := x])" if x: "map pr_id (np[j := x]) = map pr_id np" "pr_id x = i" "\<not> pr_is_learner x"
      "pr_in_old_config x \<longleftrightarrow> i \<in> A'" "pr_in_new_config x \<longleftrightarrow> i \<in> B'"
      and ab: "A' \<union> B' = A \<union> B" "\<And>k. k \<noteq> i \<Longrightarrow> (k \<in> A' \<longleftrightarrow> k \<in> A) \<and> (k \<in> B' \<longleftrightarrow> k \<in> B)" for A' B' x
  proof -
    have "pr_id ` set (np[j := x]) = pr_id ` set np" using x(1) by (metis list.set_map)
    moreover have "\<not> pr_is_learner p \<and> (pr_in_old_config p \<longleftrightarrow> pr_id p \<in> A') \<and> (pr_in_new_config p \<longleftrightarrow> pr_id p \<in> B')"
      if "p \<in> set (np[j := x])" for p
      using update_others[OF d j(1) that] x j(2) v ab(2)[of "pr_id p"] by (auto simp: voters_built_def)
    ultimately show ?thesis using d ids x(1) ab(1) by (simp add: voters_built_def)
  qed
  show "voters_built self (insert i A) B (np[j := ?q])"
    using v i mem j by (intro flag) (auto simp: voters_built_def u(1))
  show "voters_built self A (insert i B) (np[j := ?q'])"
    using v i mem j by (intro flag) (auto simp: voters_built_def u(2))
qed

lemma voters_built_insert_self: "voters_built self A B np \<Longrightarrow> voters_built self (insert self A) B np \<and> voters_built self A (insert self B) np"
proof -
  assume v: "voters_built self A B np"
  then have "\<forall>p\<in>set np. pr_id p \<noteq> self" by (auto simp: voters_built_def)
  then show ?thesis using v by (auto simp: voters_built_def)
qed

lemma add_voters_built:
  "voters_built (self_id r) A A np \<Longrightarrow> distinct ids \<Longrightarrow> set ids \<inter> A = {} \<Longrightarrow>
    voters_built (self_id r) (A \<union> set ids) (A \<union> set ids) (add_voters r ids np)"
proof (induction ids arbitrary: np A)
  case (Cons i ids)
  show ?case
  proof (cases "i = self_id r")
    case True
    have "voters_built (self_id r) (insert i A) (insert i A) np" using voters_built_insert_self Cons.prems(1) True by blast
    then show ?thesis using Cons.IH[of "insert i A" np] Cons.prems True by simp
  next
    case False
    have "i \<notin> pr_id ` set np" using Cons.prems by (auto simp: voters_built_def)
    then have "voters_built (self_id r) (insert i A) (insert i A) (np @ [fresh_peer r i True True False])"
      using voters_built_snoc[OF Cons.prems(1) _ False, of True True r] by simp
    then show ?thesis using Cons.IH[of "insert i A"] Cons.prems False by simp
  qed
qed simp

lemma add_old_built: "voters_built (self_id r) A B np \<Longrightarrow> voters_built (self_id r) (A \<union> set ids) B (add_old r ids np)"
proof (induction ids arbitrary: np A)
  case (Cons i ids)
  show ?case
  proof (cases "i = self_id r")
    case True
    then show ?thesis using Cons.IH[of "insert i A" np] Cons.prems voters_built_insert_self by simp
  next
    case False
    show ?thesis
    proof (cases "raft_find_peer_in np i")
      case None
      then show ?thesis using False Cons.IH[of "insert i A"] voters_built_snoc[OF Cons.prems find_peer_None[THEN iffD1, OF None] False, of True False r]
        by simp
    next
      case (Some j)
      then show ?thesis using False Cons.IH[of "insert i A"] find_peer_Some[OF Some] voters_built_flag(1)[OF Cons.prems, of j i] by simp
    qed
  qed
qed simp

lemma add_new_built: "voters_built (self_id r) A B np \<Longrightarrow> voters_built (self_id r) A (B \<union> set ids) (add_new r ids np)"
proof (induction ids arbitrary: np B)
  case (Cons i ids)
  show ?case
  proof (cases "i = self_id r")
    case True
    then show ?thesis using Cons.IH[of "insert i B" np] Cons.prems voters_built_insert_self by simp
  next
    case False
    show ?thesis
    proof (cases "raft_find_peer_in np i")
      case None
      then show ?thesis using False Cons.IH[of "insert i B"] voters_built_snoc[OF Cons.prems find_peer_None[THEN iffD1, OF None] False, of False True r]
        by simp
    next
      case (Some j)
      then show ?thesis using False Cons.IH[of "insert i B"] find_peer_Some[OF Some] voters_built_flag(2)[OF Cons.prems, of j i] by simp
    qed
  qed
qed simp

text \<open>Learners are added after the voters, with new ids and no configuration flag.\<close>

lemma add_learners_shape:
  "\<exists>ls. add_learners r ids np = np @ ls \<and> (\<forall>p\<in>set ls. pr_is_learner p \<and> \<not> pr_in_old_config p \<and> \<not> pr_in_new_config p)
     \<and> distinct (map pr_id ls) \<and> pr_id ` set ls = set ids - {self_id r} - pr_id ` set np"
proof (induction ids arbitrary: np)
  case (Cons i ids)
  show ?case
  proof (cases "i = self_id r \<or> i \<in> pr_id ` set np")
    case True
    then have "add_learners r (i # ids) np = add_learners r ids np" by (auto simp: find_peer_None)
    moreover have "set (i # ids) - {self_id r} - pr_id ` set np = set ids - {self_id r} - pr_id ` set np" using True by auto
    ultimately show ?thesis using Cons.IH[of np] by simp
  next
    case False
    let ?f = "fresh_peer r i False False True"
    obtain ls where "add_learners r ids (np @ [?f]) = (np @ [?f]) @ ls"
      "\<forall>p\<in>set ls. pr_is_learner p \<and> \<not> pr_in_old_config p \<and> \<not> pr_in_new_config p" "distinct (map pr_id ls)"
      "pr_id ` set ls = set ids - {self_id r} - pr_id ` set (np @ [?f])" using Cons.IH by blast
    then show ?thesis using False by (intro exI[of _ "?f # ls"]) (auto simp: find_peer_None)
  qed
qed simp

lemma built_peers_ok:
  assumes v: "voters_built (self_id r) (set (config_old r)) (set (config_new r)) np"
    and id: "id_set (config_old r)" "id_set (config_new r)"
  shows "peers_ok (r\<lparr>ctx_peers := add_learners r ls np\<rparr>)"
proof -
  obtain q where q: "add_learners r ls np = np @ q" "\<forall>p\<in>set q. pr_is_learner p \<and> \<not> pr_in_old_config p \<and> \<not> pr_in_new_config p"
    "distinct (map pr_id q)" "pr_id ` set q = set ls - {self_id r} - pr_id ` set np" using add_learners_shape[of r ls np] by blast
  have c: "{p \<in> set (np @ q). counts_in old p} = {p \<in> set np. pr_id p \<in> set (if old then config_old r else config_new r)}" for old
    using v q(2) by (auto simp: voters_built_def counts_in_def)
  have "pr_id ` {p \<in> set np. pr_id p \<in> S} = S - {self_id r}" if "S \<subseteq> set (config_old r) \<union> set (config_new r)" for S
  proof -
    have "pr_id ` {p \<in> set np. pr_id p \<in> S} = pr_id ` set np \<inter> S" by blast
    then show ?thesis using v that by (auto simp: voters_built_def)
  qed
  then have "peers_cover (r\<lparr>ctx_peers := np @ q\<rparr>) old" for old using id c[of old] by (auto simp: peers_cover_def)
  moreover have "distinct (map pr_id (np @ q))" using v q(3,4) by (auto simp: voters_built_def)
  ultimately show ?thesis using v q(1,2) by (auto simp: peers_ok_def voters_built_def)
qed

lemma voters_built_Nil [simp]: "voters_built self {} {} []"
  by (simp add: voters_built_def)

lemma add_ctx_script [simp]:
  "add_learners (r\<lparr>ctx_script := s\<rparr>) ids np = add_learners r ids np"
  by (induction ids arbitrary: np) (auto simp: fresh_peer_def)

lemma peers_ok_script [simp]: "peers_ok (r\<lparr>ctx_script := s\<rparr>) = peers_ok r"
  by (simp add: peers_ok_def peers_cover_def)

lemma rebuild_normal_ok:
  assumes "raft_rebuild_peers_normal r = (0, r')" "config_old r = config_new r" "id_set (config_new r)"
  shows "peers_ok r' \<and> (\<exists>s ps. r' = r\<lparr>ctx_script := s, ctx_peers := ps\<rparr>)"
proof -
  obtain b s where a: "alloc (ctx_script r) = (b, s)" by fastforce
  let ?r = "r\<lparr>ctx_script := s\<rparr>"
  have e: "r' = ?r\<lparr>ctx_peers := add_learners ?r (config_learners ?r) (add_voters ?r (config_new ?r) [])\<rparr>"
    using assms(1) a by (auto simp: raft_rebuild_peers_normal_def Let_def split: if_splits)
  have "voters_built (self_id ?r) ({} \<union> set (config_new r)) ({} \<union> set (config_new r)) (add_voters ?r (config_new r) [])"
    using add_voters_built[of ?r "{}" "[]" "config_new r"] id_set_distinct[OF assms(3)] by simp
  then show ?thesis using built_peers_ok[of ?r "add_voters ?r (config_new r) []"] assms(2,3) unfolding e by auto
qed

lemma rebuild_joint_ok:
  assumes "raft_rebuild_peers_joint r = (0, r')" "id_set (config_old r)" "id_set (config_new r)"
  shows "peers_ok r' \<and> (\<exists>s ps. r' = r\<lparr>ctx_script := s, ctx_peers := ps\<rparr>)"
proof -
  obtain b s where a: "alloc (ctx_script r) = (b, s)" by fastforce
  let ?r = "r\<lparr>ctx_script := s\<rparr>"
  let ?np = "add_new ?r (config_new ?r) (add_old ?r (config_old ?r) [])"
  have e: "r' = ?r\<lparr>ctx_peers := add_learners ?r (config_learners ?r) ?np\<rparr>"
    using assms(1) a by (auto simp: raft_rebuild_peers_joint_def Let_def split: if_splits)
  have "voters_built (self_id ?r) ({} \<union> set (config_old r)) ({} \<union> set (config_new r)) ?np"
    using add_new_built[OF add_old_built[of ?r "{}" "{}" "[]" "config_old r"], of "config_new r"] by simp
  then show ?thesis using built_peers_ok[of ?r ?np] assms(2,3) unfolding e by auto
qed

text \<open>A configuration the code installed: its sets and a peer list that matches them.\<close>

definition config_installed :: "raft_ctx \<Rightarrow> raft_mask \<Rightarrow> raft_mask \<Rightarrow> raft_mask \<Rightarrow> bool" where
  "config_installed r co cn cl \<longleftrightarrow> config_old r = sort (if co = cn then cn else co) \<and> config_new r = sort cn
     \<and> config_learners r = filter (\<lambda>i. \<not> raft_mask_has cn i) cl \<and> config_joint r = (co \<noteq> cn) \<and> peers_ok r"

lemma rebuild_rc: "raft_rebuild_peers_normal r = (rc, r') \<Longrightarrow> rc = 0 \<or> rc = -1"
    "raft_rebuild_peers_joint r = (rc, r') \<Longrightarrow> rc = 0 \<or> rc = -1"
  by (auto simp: raft_rebuild_peers_normal_def raft_rebuild_peers_joint_def Let_def split: prod.splits if_splits)

lemma assign_old_ok: "assign_old r ids = (True, r') \<Longrightarrow> id_set (sort ids) \<and> (\<exists>s. r' = r\<lparr>ctx_script := s, config_old := sort ids\<rparr>)"
  by (auto simp: assign_old_def split: prod.splits dest!: set_assign_ok)

lemma assign_new_ok: "assign_new r ids = (True, r') \<Longrightarrow> id_set (sort ids) \<and> (\<exists>s. r' = r\<lparr>ctx_script := s, config_new := sort ids\<rparr>)"
  by (auto simp: assign_new_def split: prod.splits dest!: set_assign_ok)

lemma learners_filtered:
  "raft_assign_learners_filtered r cl cv = (rc, r') \<Longrightarrow> rc = -1 \<or> rc = 0
     \<and> (\<exists>s. r' = r\<lparr>ctx_script := s, config_learners := filter (\<lambda>i. \<not> raft_mask_has cv i) cl\<rparr>)"
proof (cases "filter (\<lambda>i. \<not> raft_mask_has cv i) cl = []")
  case True
  assume "raft_assign_learners_filtered r cl cv = (rc, r')"
  then have "rc = 0" "r' = r\<lparr>ctx_script := ctx_script r, config_learners := []\<rparr>"
    using True by (auto simp: raft_assign_learners_filtered_def Let_def)
  then show ?thesis using True by metis
next
  case False
  assume "raft_assign_learners_filtered r cl cv = (rc, r')"
  then show ?thesis using False
    by (cases "alloc (ctx_script r)") (auto simp: raft_assign_learners_filtered_def Let_def split: if_splits)
qed

lemma install_masks_law:
  assumes "install_masks r co cn cl = (rc, r')"
  shows "rc = -1 \<or> rc = 0 \<and> config_installed r' co cn cl"
proof (cases "rc = -1")
  case False
  define j where "j \<longleftrightarrow> co \<noteq> cn"
  obtain b1 r1 where a1: "assign_old r (if j then co else cn) = (b1, r1)" by fastforce
  obtain b2 r2 where a2: "assign_new r1 cn = (b2, r2)" by fastforce
  obtain rc3 r3 where a3: "raft_assign_learners_filtered r2 cl cn = (rc3, r3)" by fastforce
  define rr where "rr = r3\<lparr>config_joint := j\<rparr>"
  have "install_masks r co cn cl = (if \<not> b1 then (-1, r1) else if \<not> b2 then (-1, r2) else if rc3 < 0 then (rc3, r3)
      else if j then raft_rebuild_peers_joint rr else raft_rebuild_peers_normal rr)"
    unfolding install_masks_def Let_def raft_mask_eq_iff j_def[symmetric] a1 a2 a3 rr_def prod.case by simp
  then have e: "(if \<not> b1 then (-1, r1) else if \<not> b2 then (-1, r2) else if rc3 < 0 then (rc3, r3)
      else if j then raft_rebuild_peers_joint rr else raft_rebuild_peers_normal rr) = (rc, r')" using assms by simp
  have b: b1 b2 "rc3 \<noteq> -1" using e False by (auto split: if_splits)
  obtain s1 where r1: "r1 = r\<lparr>ctx_script := s1, config_old := sort (if j then co else cn)\<rparr>" "id_set (sort (if j then co else cn))"
    using assign_old_ok a1 b(1) by metis
  obtain s2 where r2: "r2 = r1\<lparr>ctx_script := s2, config_new := sort cn\<rparr>" "id_set (sort cn)"
    using assign_new_ok a2 b(2) by metis
  obtain s3 where r3: "rc3 = 0" "r3 = r2\<lparr>ctx_script := s3, config_learners := filter (\<lambda>i. \<not> raft_mask_has cn i) cl\<rparr>"
    using learners_filtered[OF a3] b(3) by blast
  have sets: "config_old rr = sort (if j then co else cn)" "config_new rr = sort cn"
    "config_learners rr = filter (\<lambda>i. \<not> raft_mask_has cn i) cl" "config_joint rr = j"
    by (simp_all add: rr_def r3(2) r2(1) r1(1))
  have e': "(if j then raft_rebuild_peers_joint rr else raft_rebuild_peers_normal rr) = (rc, r')"
    using e b r3(1) by simp
  have rc: "rc = 0" using e' False rebuild_rc[of rr] by (metis (full_types))
  have "peers_ok r' \<and> (\<exists>s ps. r' = rr\<lparr>ctx_script := s, ctx_peers := ps\<rparr>)"
  proof (cases j)
    case True
    then show ?thesis using e' rc rebuild_joint_ok[of rr r'] r1(2) r2(2) sets by simp
  next
    case False
    then show ?thesis using e' rc rebuild_normal_ok[of rr r'] r2(2) sets by simp
  qed
  then show ?thesis using rc sets by (auto simp: config_installed_def j_def)
qed simp

lemma peers_ok_stale [simp]: "peers_ok (r\<lparr>config_apply_stale := b\<rparr>) = peers_ok r"
  by (simp add: peers_ok_def peers_cover_def)

lemma config_installed_stale [simp]: "config_installed (r\<lparr>config_apply_stale := b\<rparr>) co cn cl = config_installed r co cn cl"
  by (simp add: config_installed_def)

lemma assign_stale [simp]:
  "config_apply_stale (snd (assign_old r x)) = config_apply_stale r" "config_apply_stale (snd (assign_new r x)) = config_apply_stale r"
  "config_apply_stale (snd (assign_learners r x)) = config_apply_stale r"
  by (simp_all add: assign_old_def assign_new_def assign_learners_def split: prod.splits)

lemma apply_masks_law:
  "case raft_apply_config_masks r co cn cl of (rc, r') \<Rightarrow>
     if rc = 0 then config_installed r' co cn cl \<and> \<not> config_apply_stale r' else rc = -1 \<and> config_apply_stale r'"
proof -
  obtain b1 v1 r1 where s1: "save_set r (config_old r) = (b1, v1, r1)" by (metis prod_cases3)
  obtain b2 v2 r2 where s2: "save_set r1 (config_new r1) = (b2, v2, r2)" by (metis prod_cases3)
  obtain b3 v3 r3 where s3: "save_set r2 (config_learners r2) = (b3, v3, r3)" by (metis prod_cases3)
  obtain rc ri where i: "install_masks r3 co cn cl = (rc, ri)" by fastforce
  show ?thesis using install_masks_law[OF i] s1 s2 s3 i by (auto simp: raft_apply_config_masks_def Let_def)
qed

end
