(* ===== verification/Raft_Safety.thy ===== *)
theory Raft_Safety
  imports Raft_Quorum Raft_Frame
begin

section \<open>Elections and commitment\<close>

text \<open>
  The safety arguments that rest on quorums: a configuration the code installs has a matching
  peer list, two successful elections share a voter, an election shares a voter with every
  commitment, and the commit rule of \<^verbatim>\<open>raft_advance_commit\<close>. Nodes of the sample cluster serve
  the witnesses.
\<close>

subsection \<open>The sample cluster\<close>

lemma id_set_123 [simp]: "id_set [1, 2, 3]"
  by (simp add: id_set_def raft_id_valid_def)

lemma mask_has_123 [simp]: "raft_mask_has [1, 2, 3] i \<longleftrightarrow> i = 1 \<or> i = 2 \<or> i = 3"
  by (simp add: raft_mask_has_iff)

lemma peers_cover_filter:
  "peers_cover r old \<longleftrightarrow> id_set (if old then config_old r else config_new r)
     \<and> set (map pr_id (filter (counts_in old) (ctx_peers r))) = set (if old then config_old r else config_new r) - {self_id r}"
  by (simp add: peers_cover_def)

lemmas sample_defs = sample_node_def ctx_init_def sample_config_def peer_zero_def counts_in_def

lemma sample_peers_ok: "peers_ok (sample_node 1)" "peers_ok (sample_node 2)"
  by (auto simp: peers_ok_def peers_cover_filter sample_defs)

lemma sample_members [simp]: "members_of (sample_node i) = \<lparr> mb_old = [1, 2, 3], mb_new = [1, 2, 3], mb_joint = False \<rparr>"
  by (simp add: members_of_def sample_node_def ctx_init_def)

subsection \<open>Installing a configuration\<close>

text \<open>Applying a configuration entry either installs exactly its old and new member sets, with the
  learners that are not voters, and a peer list that has one record per other member carrying
  the right configuration flags and no flag on a learner, or it reports failure and leaves the
  stale flag set, which makes the next advance retry.\<close>

theorem config_apply_installs:
  "case raft_apply_config_masks r co cn cl of (rc, r') \<Rightarrow>
     if rc = 0 then config_installed r' co cn cl \<and> \<not> config_apply_stale r' else rc = -1 \<and> config_apply_stale r'"
  by (rule apply_masks_law)

subsection \<open>Elections\<close>

text \<open>C8. At most one leader per term: when two candidates, whose configurations are equal or are
  adjacent during a joint change, both find a vote quorum among their peer records, they share a
  voter; so if every member granted its vote of the term to one candidate only, the two
  candidates are the same node.\<close>

theorem one_leader_per_term:
  assumes "peers_ok r1" "peers_ok r2" "mb_adjacent (members_of r1) (members_of r2)"
    and "vote_quorum r1 False" "vote_quorum r2 False"
    and "\<forall>i\<in>granted r1 False. vote_of i = self_id r1" "\<forall>i\<in>granted r2 False. vote_of i = self_id r2"
  shows "self_id r1 = self_id r2"
  using members.one_choice[OF assms(3)] assms(1,2,4-7) by (simp add: vote_quorum_iff)

definition voted_node :: "int \<Rightarrow> int list \<Rightarrow> raft_ctx" where
  "voted_node i voters = (sample_node i)\<lparr>ctx_peers := map (\<lambda>p. p\<lparr>pr_vote := pr_id p \<in> set voters\<rparr>) (ctx_peers (sample_node i))\<rparr>"

lemma voted_node_ok: "peers_ok (voted_node 1 vs)" "peers_ok (voted_node 2 vs)"
  by (auto simp: voted_node_def peers_ok_def peers_cover_filter sample_defs)

lemma voted_node_members [simp]: "members_of (voted_node i vs) = \<lparr> mb_old = [1, 2, 3], mb_new = [1, 2, 3], mb_joint = False \<rparr>"
  by (simp add: members_of_def voted_node_def sample_node_def ctx_init_def)

lemma voted_node_granted: "granted (voted_node 1 [2]) False = {1, 2}" "granted (voted_node 1 [3]) False = {1, 3}"
  by (auto simp: granted_def backers_def vote_given_def voted_node_def sample_node_def ctx_init_def sample_config_def peer_zero_def)

lemma voted_node_quorum: "vote_quorum (voted_node 1 [2]) False" "vote_quorum (voted_node 1 [3]) False"
  by (simp_all add: vote_quorum_iff voted_node_ok voted_node_granted mb_quorum_def majority_def)

lemma voted_node_self [simp]: "self_id (voted_node i vs) = i"
  by (simp add: voted_node_def sample_node_def ctx_init_def sample_config_def)

text \<open>Node 1 elected by itself and node 2, and by itself and node 3.\<close>

theorem one_leader_per_term_witness:
  "vote_quorum (voted_node 1 [2]) False \<and> vote_quorum (voted_node 1 [3]) False \<and> self_id (voted_node 1 [2]) = self_id (voted_node 1 [3])"
  using one_leader_per_term[OF voted_node_ok(1) voted_node_ok(1) _ voted_node_quorum, of "\<lambda>_. 1"] voted_node_quorum
  by (simp add: mb_adjacent_def)

text \<open>C9. Leader completeness rests on this: a candidate that finds a vote quorum has among its voters a
  member that stores every index a leader of an adjacent configuration found committed, so that
  voter compared the candidate's log with a log that holds the committed entry.\<close>

theorem election_meets_commitment:
  assumes "peers_ok r1" "peers_ok r2" "mb_adjacent (members_of r1) (members_of r2)"
    and "vote_quorum r1 False" "commit_quorum r2 idx"
  shows "\<exists>i\<in>granted r1 False. i \<in> replicated r2 idx"
  using members.stored_seen[OF assms(3), of "granted r1 False" "replicated r2 idx"] assms
  by (simp add: vote_quorum_iff commit_quorum_iff)

definition matched_node :: "int \<Rightarrow> int \<Rightarrow> raft_ctx" where
  "matched_node i m = (sample_node i)\<lparr>ctx_peers := map (\<lambda>p. p\<lparr>pr_match_index := m\<rparr>) (ctx_peers (sample_node i))\<rparr>"

lemma matched_node_ok: "peers_ok (matched_node 2 m)" "members_of (matched_node 2 m) = \<lparr> mb_old = [1, 2, 3], mb_new = [1, 2, 3], mb_joint = False \<rparr>"
  by (auto simp: matched_node_def members_of_def peers_ok_def peers_cover_filter sample_defs)

lemma matched_node_replicated: "replicated (matched_node 2 5) 5 = {1, 3}"
  by (auto simp: replicated_def self_durable_def backers_def matched_node_def sample_node_def ctx_init_def sample_config_def
      peer_zero_def raft_has_voter_peer_def)

lemma matched_node_quorum: "commit_quorum (matched_node 2 5) 5"
  by (simp add: commit_quorum_iff matched_node_ok matched_node_replicated mb_quorum_def majority_def)

theorem election_meets_commitment_witness:
  "vote_quorum (voted_node 1 [2]) False \<and> commit_quorum (matched_node 2 5) 5
   \<and> (\<exists>i\<in>granted (voted_node 1 [2]) False. i \<in> replicated (matched_node 2 5) 5)"
  using election_meets_commitment[OF voted_node_ok(1) matched_node_ok(1) _ voted_node_quorum(1) matched_node_quorum]
    voted_node_quorum matched_node_quorum
  by (simp add: mb_adjacent_def matched_node_ok)

subsection \<open>The commit rule\<close>

lemma commit_loop_frame:
  "\<exists>c b. commit_loop r is = r\<lparr>commit_index := c, leadership_confirmed := b\<rparr>"
proof (induction "is" arbitrary: r)
  case Nil
  have "commit_loop r [] = r\<lparr>commit_index := commit_index r, leadership_confirmed := leadership_confirmed r\<rparr>" by simp
  then show ?case by blast
next
  case (Cons i "is")
  define r1 where "r1 = r\<lparr>commit_index := i, leadership_confirmed := True\<rparr>"
  consider (skip) "commit_loop r (i # is) = commit_loop r is" | (step) "commit_loop r (i # is) = commit_loop r1 is"
    | (stop) "commit_loop r (i # is) = r\<lparr>commit_index := commit_index r, leadership_confirmed := leadership_confirmed r\<rparr>"
    unfolding commit_loop.simps r1_def by (cases "term_at r i \<noteq> current_term r"; cases "commit_quorum r i") simp_all
  then show ?case
  proof cases
    case step
    obtain c b where "commit_loop r1 is = r1\<lparr>commit_index := c, leadership_confirmed := b\<rparr>" using Cons by blast
    then have "commit_loop r (i # is) = r\<lparr>commit_index := c, leadership_confirmed := b\<rparr>" by (simp only: step) (simp add: r1_def)
    then show ?thesis by blast
  qed (use Cons[of r] in \<open>simp only:; blast\<close>)+
qed

lemma quorum_size_frame [simp]:
  "raft_quorum_size_of (r\<lparr>commit_index := c, leadership_confirmed := b\<rparr>) old = raft_quorum_size_of r old"
  unfolding raft_quorum_size_of_def Let_def by (cases old) simp_all

lemma commit_quorum_frame [simp]: "commit_quorum (r\<lparr>commit_index := c, leadership_confirmed := b\<rparr>) i = commit_quorum r i"
  unfolding commit_quorum_def raft_has_voter_peer_def raft_count_match_def quorum_size_frame by simp

lemma commit_loop_law:
  "commit_index (commit_loop r is) = commit_index r \<and> leadership_confirmed (commit_loop r is) = leadership_confirmed r
   \<or> commit_index (commit_loop r is) \<in> set is \<and> leadership_confirmed (commit_loop r is)
     \<and> term_at r (commit_index (commit_loop r is)) = current_term r \<and> commit_quorum r (commit_index (commit_loop r is))"
proof (induction "is" arbitrary: r)
  case (Cons i "is")
  then show ?case using Cons[of r] Cons[of "r\<lparr>commit_index := i, leadership_confirmed := True\<rparr>"] by auto
qed simp

end
