(* ===== verification/Raft_Vote.thy ===== *)
theory Raft_Vote
  imports Raft_Match Raft_Safety
begin

section \<open>Terms and votes\<close>

text \<open>
  How the term and the vote of a node change under every peer message. The pair of the two is
  the node's ballot; a handler moves it forward to a higher term, keeps it, or casts the first
  vote of the term. The one exception, a campaign that runs out of memory, withdraws the vote
  of the current term, and a second vote in the same term becomes possible.
\<close>

definition ballot :: "raft_ctx \<Rightarrow> int \<times> int" where
  "ballot r = (current_term r, voted_for r)"

lemma keeps_ballot: "keeps r r' \<Longrightarrow> ballot r' = ballot r"
  by (simp add: keeps_def ballot_def)

lemma relogged_ballot: "relogged r r' \<Longrightarrow> ballot r' = ballot r"
  by (simp add: relogged_def keeps_def ballot_def)

lemmas frame_ballot [simp] = keeps_ballot[OF push_keeps] keeps_ballot[OF upd_peer_keeps] keeps_ballot[OF emit_keeps]
  keeps_ballot[OF clear_keeps(1)] keeps_ballot[OF clear_keeps(2)] keeps_ballot[OF clear_keeps(3)] keeps_ballot[OF deadline_keeps]

lemma ae_follow_ballot [simp]: "ballot (ae_follow r l) = ballot r"
  by (simp add: ballot_def)

lemma ctx_append_ballot: "ctx_append r t k d a b c = (ok, r') \<Longrightarrow> ballot r' = ballot r"
  by (auto simp: ctx_append_def ballot_def split: prod.splits)

lemma log_cut_ballot [simp]: "ballot (snd (raft_log_cut r i)) = ballot r"
  by (simp add: raft_log_cut_def raft_durable_clamp_def ballot_def Let_def split: prod.splits)

lemma advance_commit_ballot [simp]: "ballot (raft_advance_commit r) = ballot r"
proof -
  obtain c b where "raft_advance_commit r = r\<lparr>commit_index := c, leadership_confirmed := b\<rparr>"
    using commit_loop_frame by (metis raft_advance_commit_def)
  then show ?thesis by (simp add: ballot_def)
qed

lemma ballot_update [simp]:
  "ballot (r\<lparr>config_pending := b, config_index := i\<rparr>) = ballot r" "ballot (r\<lparr>persist_needed := b\<rparr>) = ballot r"
  by (simp_all add: ballot_def)

lemma append_final_ballot [simp]: "ballot (leader_append_final r m) = ballot r"
proof -
  define r0 where "r0 = r\<lparr>config_pending := True, config_index := last_index r + 1\<rparr>"
  obtain ok r1 where a: "ctx_append r0 (current_term r0) RAFT_ENTRY_CONFIG [] m m (raft_set_view (config_learners r0)) = (ok, r1)" by fastforce
  obtain rc r2 where b: "raft_apply_config_from_log r1 = (rc, r2)" by fastforce
  have "ballot r0 = ballot r" by (simp add: r0_def)
  moreover have "ballot r1 = ballot r0" by (rule ctx_append_ballot[OF a])
  moreover have "ballot r2 = ballot r1" by (rule keeps_ballot[OF apply_log_keeps[OF b]])
  ultimately show ?thesis
    unfolding leader_append_final_def r0_def[symmetric] Let_def a b prod.case by (cases ok; cases "rc < 0") simp_all
qed

lemma resume_ballot [simp]: "ballot (leader_resume_joint r) = ballot r"
  unfolding leader_resume_joint_def Let_def by (simp add: ballot_def[of "_\<lparr>config_pending := True\<rparr>"]) (simp add: ballot_def)

text \<open>Campaigning and winning.\<close>

lemma memory_steps:
  "\<exists>l'. raft_log_ensure_chunk [] l ci = (True, [], l')" "\<exists>l'. raft_log_alloc_chunk [] l ci = (True, [], l')"
  "\<exists>l'. raft_log_reserve_data [] l n = (True, [], l')" "\<exists>l'. log_cfg_arrays [] l ci = (True, [], l')"
  by (simp_all add: raft_log_ensure_chunk_def raft_log_alloc_chunk_def raft_log_reserve_data_def log_cfg_arrays_def Let_def)

lemma memory_cfg: "\<exists>l'. log_store_cfg [] l ci mi sz a b c = (True, [], l')"
proof -
  obtain l1 where "log_cfg_arrays [] l ci = (True, [], l1)" using memory_steps(4) by blast
  then show ?thesis by (simp add: log_store_cfg_def mask_dup_def Let_def)
qed

lemma append_with_memory: "\<exists>l'. raft_log_append [] l t k d a b c = (True, [], l')"
proof -
  define n where "n = nat (raft_log_last_index l + 1 - lg_last_included_index l - 1)"
  let ?ci = "log_ci l n" and ?co = "log_co l n"
  obtain l1 where e1: "raft_log_ensure_chunk [] l ?ci = (True, [], l1)" using memory_steps(1) by blast
  obtain l2 where e2: "raft_log_alloc_chunk [] l1 ?ci = (True, [], l2)" using memory_steps(2) by blast
  define l3 where "l3 = set_chunk l2 ?ci (put_entry (lg_chunks l2 ! ?ci) ?co t k (lg_data_size l2))"
  obtain l4 where e4: "raft_log_reserve_data [] l3 (length d) = (True, [], l4)" using memory_steps(3) by blast
  define l5 where "l5 = (if length d > 0 then l4\<lparr>lg_data := lg_data l4 @ d\<rparr> else l3)"
  obtain l6 where e6: "log_store_cfg [] l5 ?ci ?co (lg_data_size l3) a b c = (True, [], l6)" using memory_cfg by blast
  have "(if length d > 0 then (case raft_log_reserve_data [] l3 (length d) of (False, s, l) \<Rightarrow> (False, s, l)
      | (True, s, l) \<Rightarrow> (True, s, l\<lparr>lg_data := lg_data l @ d\<rparr>)) else (True, [], l3)) = (True, [], l5)" by (simp add: e4 l5_def)
  then show ?thesis unfolding raft_log_append_def Let_def n_def[symmetric] e1 e2 prod.case bool.case l3_def[symmetric]
    by (simp add: e6)
qed

lemma ctx_append_memory: "ctx_append r t k d a b c = (ok, r') \<Longrightarrow> ctx_script r = [] \<Longrightarrow> ok"
  using append_with_memory[of "ctx_log r" t k d a b c] by (auto simp: ctx_append_def)

text \<open>The ballot after a step: forward to a higher term, or within the term unchanged, the first vote,
  or withdrawn by a campaign that ran out of memory.\<close>

definition ballot_step :: "raft_ctx \<Rightarrow> raft_ctx \<Rightarrow> bool" where
  "ballot_step r r' \<longleftrightarrow> current_term r \<le> current_term r' \<and> (current_term r \<le> RAFT_TERM_MAX \<longrightarrow> current_term r' \<le> RAFT_TERM_MAX)
     \<and> (current_term r' = current_term r \<longrightarrow> voted_for r = 0 \<or> voted_for r' = voted_for r \<or> voted_for r' = 0 \<and> ctx_script r \<noteq> [])"

lemma ballot_same: "ballot r' = ballot r \<Longrightarrow> ballot_step r r'"
  by (simp add: ballot_step_def ballot_def)

lemma ballot_up: "current_term r < current_term r' \<Longrightarrow> current_term r' \<le> RAFT_TERM_MAX \<Longrightarrow> ballot_step r r'"
  by (simp add: ballot_step_def)

lemma ballot_after: "ballot_step r r1 \<Longrightarrow> ballot r2 = ballot r1 \<Longrightarrow> ballot_step r r2"
  by (simp add: ballot_step_def ballot_def)

lemma step_down_higher: "t > current_term r \<Longrightarrow> ballot_step r (raft_step_down r t l)"
proof (cases "t < RAFT_TERM_MAX + 1")
  case True
  then show "t > current_term r \<Longrightarrow> ballot_step r (raft_step_down r t l)" using step_down_frame(1)[OF True, of r l] by (intro ballot_up) auto
next
  case False
  then show ?thesis using step_down_out[of t r l] by (simp add: ballot_step_def)
qed

lemma candidate_step: "raft_become_candidate r = (rc, r') \<Longrightarrow> ballot_step r r'"
proof -
  assume a: "raft_become_candidate r = (rc, r')"
  show ?thesis
  proof (cases "raft_is_learner (config_learners r) (self_id r) \<or> current_term r \<ge> RAFT_TERM_MAX")
    case True
    then have "r' = r" using a unfolding raft_become_candidate_def by (auto split: if_splits)
    then show ?thesis by (simp add: ballot_same)
  next
    case False
    define r0 where "r0 = r\<lparr>ctx_state := RAFT_CANDIDATE, current_term := current_term r + 1, voted_for := self_id r,
                 deferred_vote_response := False, deferred_vote_to := 0, persist_needed := True,
                 term_dirty_gen := persist_gen r + 1, ctx_leader_id := 0, ready_leader_change := True,
                 in_pre_vote := False, election_elapsed := 0\<rparr>"
    define r1 where "r1 = (raft_reset_election_deadline r0)\<lparr>ctx_peers :=
        map (\<lambda>p. p\<lparr>pr_vote := False, pr_pre_vote_acked := False\<rparr>) (ctx_peers (raft_reset_election_deadline r0))\<rparr>"
    have t1: "current_term r1 = current_term r + 1" by (simp add: r1_def r0_def)
    have s1: "ctx_script r1 = ctx_script r"
      by (simp add: r1_def r0_def raft_reset_election_deadline_def raft_rng_step_def Let_def)
    obtain ok r2 where ap: "ctx_append r1 (current_term r1) RAFT_ENTRY_NOOP [] raft_mask_zero raft_mask_zero raft_mask_zero = (ok, r2)" by fastforce
    have t2: "current_term r2 = current_term r + 1" using ctx_append_ballot[OF ap] t1 by (simp add: ballot_def)
    have m: "\<not> ok \<Longrightarrow> ctx_script r \<noteq> []" using ctx_append_memory[OF ap] s1 by auto
    have "raft_become_candidate r = (if \<not> raft_has_voter_peer r1 then
            if \<not> ok then (-1, r2\<lparr>current_term := current_term r2 - 1, voted_for := 0, ctx_state := RAFT_FOLLOWER, ready_leader_change := True\<rparr>)
            else (0, r2\<lparr>ctx_state := RAFT_LEADER, ctx_leader_id := self_id r2, heartbeat_elapsed := 0, leader_contact_elapsed := 0,
                       persist_needed := True, ctx_peers := map (\<lambda>p. p\<lparr>pr_next_index := last_index r2 + 1, pr_match_index := 0,
                          pr_missed_rounds := 0\<rparr>) (ctx_peers r2)\<rparr>)
          else (0, r1\<lparr>deferred_vote_request := True, deferred_vote_request_gen := persist_gen r1 + 1\<rparr>))"
      using False unfolding raft_become_candidate_def Let_def r0_def[symmetric] r1_def[symmetric] ap prod.case by simp
    then have e: "(rc, r') = (if \<not> raft_has_voter_peer r1 then
            if \<not> ok then (-1, r2\<lparr>current_term := current_term r2 - 1, voted_for := 0, ctx_state := RAFT_FOLLOWER, ready_leader_change := True\<rparr>)
            else (0, r2\<lparr>ctx_state := RAFT_LEADER, ctx_leader_id := self_id r2, heartbeat_elapsed := 0, leader_contact_elapsed := 0,
                       persist_needed := True, ctx_peers := map (\<lambda>p. p\<lparr>pr_next_index := last_index r2 + 1, pr_match_index := 0,
                          pr_missed_rounds := 0\<rparr>) (ctx_peers r2)\<rparr>)
          else (0, r1\<lparr>deferred_vote_request := True, deferred_vote_request_gen := persist_gen r1 + 1\<rparr>))" using a by simp
    have "current_term r' = current_term r + 1 \<or> current_term r' = current_term r \<and> voted_for r' = 0 \<and> \<not> ok"
      using e t1 t2 by (auto split: if_splits)
    then show ?thesis using False m by (auto simp: ballot_step_def)
  qed
qed

lemma leader_step: "raft_become_leader r = (rc, r') \<Longrightarrow> ballot_step r r'"
proof -
  assume a: "raft_become_leader r = (rc, r')"
  obtain ok r1 where ap: "ctx_append r (current_term r) RAFT_ENTRY_NOOP [] raft_mask_zero raft_mask_zero raft_mask_zero = (ok, r1)" by fastforce
  have b: "ballot r1 = ballot r" by (rule ctx_append_ballot[OF ap])
  have m: "\<not> ok \<Longrightarrow> ctx_script r \<noteq> []" using ctx_append_memory[OF ap] by auto
  show ?thesis
  proof (cases ok)
    case False
    then have "current_term r' = current_term r1 \<and> voted_for r' = 0" using a unfolding raft_become_leader_def ap by auto
    then show ?thesis using b m False by (simp add: ballot_step_def ballot_def)
  next
    case True
    then have "ballot r' = ballot r1" using a unfolding raft_become_leader_def ap Let_def prod.case by (auto simp: ballot_def[of "r1\<lparr>ctx_state := _\<rparr>"]) (simp_all add: ballot_def)
    then show ?thesis using b by (simp add: ballot_same)
  qed
qed

subsection \<open>The handlers\<close>

lemma vote_step: "raft_recv_request_vote r f rpc = (rc, r') \<Longrightarrow> ballot_step r r'"
proof -
  assume a: "raft_recv_request_vote r f rpc = (rc, r')"
  define r1 where "r1 = (if rv_term rpc > current_term r then raft_step_down r (rv_term rpc) 0 else r)"
  have s1: "ballot_step r r1" using step_down_higher[of r "rv_term rpc" 0] by (simp add: r1_def ballot_same)
  have z: "current_term r1 \<noteq> current_term r \<or> r1 = r"
  proof (cases "rv_term rpc > current_term r \<and> rv_term rpc < RAFT_TERM_MAX + 1")
    case True
    then show ?thesis using step_down_frame(1)[of "rv_term rpc" r 0] by (simp add: r1_def)
  next
    case False
    then show ?thesis using step_down_out[of "rv_term rpc" r 0] by (auto simp: r1_def)
  qed
  obtain ok r2 where e: "raft_msg_ensure r1 (length (msg_buf r1) + 1) = (ok, r2)" by fastforce
  have b2: "ballot r2 = ballot r1" by (rule keeps_ballot[OF ensure_keeps(2)[OF e]])
  have "ballot r' = ballot r1 \<or> r' = r \<or> current_term r' = current_term r1 \<and> (voted_for r1 = 0 \<or> voted_for r1 = voted_for r')"
    using a b2 unfolding raft_recv_request_vote_def r1_def[symmetric] Let_def e prod.case
    by (auto split: if_splits)
  then show ?thesis
  proof (elim disjE)
    assume "ballot r' = ballot r1"
    then show ?thesis using s1 by (rule ballot_after[rotated])
  next
    assume "current_term r' = current_term r1 \<and> (voted_for r1 = 0 \<or> voted_for r1 = voted_for r')"
    then show ?thesis using s1 z by (auto simp: ballot_step_def)
  qed (simp add: ballot_same)
qed

lemma vote_result_step: "raft_recv_request_vote_result r f res = (rc, r') \<Longrightarrow> ballot_step r r'"
proof -
  assume a: "raft_recv_request_vote_result r f res = (rc, r')"
  have same: "ballot_step x y \<Longrightarrow> ballot x = ballot r \<Longrightarrow> ctx_script x = ctx_script r \<Longrightarrow> ballot_step r y" for x y
    by (simp add: ballot_step_def ballot_def)
  have up: "ballot (upd_peer r k g\<lparr>in_pre_vote := b\<rparr>) = ballot r" "ctx_script (upd_peer r k g) = ctx_script r"
    "ballot (r\<lparr>in_pre_vote := b\<rparr>) = ballot r" for k g b by (simp_all add: ballot_def upd_peer_def)
  have c: "ballot_step x (snd (raft_become_candidate x))" "ballot_step x (snd (raft_become_leader x))" for x
    using candidate_step[of x] leader_step[of x] by (metis prod.collapse)+
  show ?thesis using a unfolding raft_recv_request_vote_result_def Let_def
    by (auto split: if_splits option.splits simp: ballot_same up intro: step_down_higher same[OF c(1)] same[OF c(2)])
qed

lemma timeout_now_step: "raft_recv_timeout_now r f rpc = (rc, r') \<Longrightarrow> ballot_step r r'"
proof -
  assume a: "raft_recv_timeout_now r f rpc = (rc, r')"
  show ?thesis
  proof (cases "tn_term rpc > current_term r")
    case True
    define r1 where "r1 = raft_step_down r (tn_term rpc) (tn_leader_id rpc)"
    consider "r' = r" | "tn_term rpc < RAFT_TERM_MAX + 1" "r' = r1" | rc' where "tn_term rpc < RAFT_TERM_MAX + 1" "raft_become_candidate r1 = (rc', r')"
      using a True unfolding raft_recv_timeout_now_def r1_def Let_def by (auto split: if_splits)
    then show ?thesis
    proof cases
      case 3
      have "current_term r1 = tn_term rpc" using step_down_frame(1)[OF 3(1)] by (simp add: r1_def)
      then show ?thesis using candidate_step[OF 3(2)] 3(1) True by (intro ballot_up) (auto simp: ballot_step_def)
    qed (use True step_down_higher in \<open>auto simp: ballot_same r1_def\<close>)
  next
    case False
    then have "r' = r \<or> (\<exists>rc'. raft_become_candidate r = (rc', r'))"
      using a unfolding raft_recv_timeout_now_def Let_def by (auto split: if_splits)
    then show ?thesis using candidate_step by (auto simp: ballot_same)
  qed
qed

lemma append_entry_ballot: "ctx_append_entry r e = (b, r') \<Longrightarrow> ballot r' = ballot r"
  unfolding ctx_append_entry_def by (rule ctx_append_ballot)

lemma append_loop_ballot: "ae_append_loop r rpc ch i e cur = (out, r') \<Longrightarrow> ballot r' = ballot r"
proof (induction r rpc ch i e cur rule: ae_append_loop.induct)
  case (1 r rpc ch i e cur)
  obtain b r1 where a: "ctx_append_entry r e = (b, r1)" by fastforce
  obtain e2 cur2 where rd: "ae_read rpc (i + 1) cur = (e2, cur2)" by fastforce
  have step: "ae_append_loop r rpc ch i e cur = (if \<not> b then (AE_Done ch True, r1)
      else if int (i + 1) \<ge> ae_entry_count rpc then (AE_Done ch False, r1)
      else if ae_term_bad rpc (i + 1) then (AE_Error, r1) else ae_append_loop r1 rpc ch (i + 1) e2 cur2)"
    by (subst ae_append_loop.simps) (simp only: a rd prod.case, simp split: bool.splits)
  have b: "ballot r1 = ballot r" by (rule append_entry_ballot[OF a])
  show ?case using 1(1)[OF a[symmetric] _ _ _ rd[symmetric]] 1(2) step b by (auto split: if_splits)
qed

lemma ae_loop_ballot: "ae_loop r rpc tip i cur = (out, r') \<Longrightarrow> ballot r' = ballot r"
proof (induction r rpc tip i cur rule: ae_loop.induct)
  case (1 r rpc tip i cur)
  obtain e cur2 where rd: "ae_read rpc i cur = (e, cur2)" by fastforce
  show ?case using 1(2) 1(1)[OF _ refl rd[symmetric]] append_loop_ballot[of "snd (raft_log_cut r _)"] append_loop_ballot[of r]
    by (subst (asm) ae_loop.simps) (auto simp: Let_def rd split: if_splits)
qed

lemma append_entries_step: "raft_recv_append_entries r f rpc = (rc, r') \<Longrightarrow> ballot_step r r'"
proof -
  assume a: "raft_recv_append_entries r f rpc = (rc, r')"
  define ra where "ra = (if ae_term rpc > current_term r then raft_step_down r (ae_term rpc) (ae_leader_id rpc) else r)"
  define r1 where "r1 = ae_follow ra (ae_leader_id rpc)"
  obtain out r2 where lp: "ae_loop r1 rpc (last_index r1) 0 0 = (out, r2)" by fastforce
  have ra: "ballot_step r ra" using step_down_higher by (simp add: ra_def ballot_same)
  have b: "ballot r1 = ballot ra" "ballot r2 = ballot ra" using ae_loop_ballot[OF lp] by (simp_all add: r1_def)
  have fail: "ae_reply_fail x rpc h = (rc, r') \<Longrightarrow> ballot r' = ballot x" for x h by (rule keeps_ballot[OF reply_fail_keeps])
  have done': "ballot r' = ballot r2" if ap: "(let (rc, r) = (if ae_entry_count rpc > 0 \<or> ch \<or> config_apply_stale r2 then raft_apply_config_from_log r2 else (0, r2))
      in if rc < 0 then (-1, r) else if oom then (-1, r)
         else let r = ae_commit r rpc; r = (if ae_entry_count rpc > 0 \<or> ch then r\<lparr>persist_needed := True\<rparr> else r)
              in ae_reply_ok r rpc) = (rc, r')" for ch oom
  proof -
    obtain rc3 r3 where e3: "(if ae_entry_count rpc > 0 \<or> ch \<or> config_apply_stale r2 then raft_apply_config_from_log r2 else (0, r2)) = (rc3, r3)"
      by fastforce
    have b3: "ballot r3 = ballot r2" using e3 by (auto split: if_splits dest: keeps_ballot[OF apply_log_keeps])
    obtain c where c: "ae_commit r3 rpc = r3\<lparr>commit_index := c\<rparr>" using ae_commit_law by blast
    have "ae_reply_ok x rpc = (rc, r') \<Longrightarrow> ballot r' = ballot x" for x by (rule keeps_ballot[OF reply_ok_keeps])
    then show ?thesis using ap b3 unfolding e3 Let_def prod.case c by (auto split: if_splits) (simp_all add: ballot_def)
  qed
  have "r' = r \<or> ballot r' = ballot ra"
    using a b fail[of r1] fail[of r2] done' unfolding raft_recv_append_entries_def ra_def[symmetric] Let_def[of "ra"] Let_def[of r1] r1_def[symmetric] lp
    by (auto split: if_splits option.splits ae_out.splits)
  then show ?thesis using ra ballot_after ballot_same by blast
qed

lemma append_result_step: "raft_recv_append_entries_result r f res = (rc, r') \<Longrightarrow> ballot_step r r'"
  unfolding raft_recv_append_entries_result_def Let_def
  by (auto split: if_splits option.splits simp: ballot_same intro: step_down_higher)

lemma install_result_step: "raft_recv_install_snapshot_result r f res = (rc, r') \<Longrightarrow> ballot_step r r'"
  unfolding raft_recv_install_snapshot_result_def Let_def
  by (auto split: if_splits option.splits simp: ballot_same intro: step_down_higher)

lemma read_restart_ballot [simp]: "ballot (raft_read_round_restart r) = ballot r"
  unfolding raft_read_round_restart_def Let_def by (simp add: ballot_def)

lemma read_index_step: "raft_recv_read_index r f rpc = (rc, r') \<Longrightarrow> ballot_step r r'"
proof -
  assume a: "raft_recv_read_index r f rpc = (rc, r')"
  obtain ok r1 where e: "raft_read_index_pending_ensure r (length (read_index_pending r) + 1) = (ok, r1)" by fastforce
  have b: "ballot r1 = ballot r" by (rule keeps_ballot[OF ensure_keeps(9)[OF e]])
  have u: "ballot (x\<lparr>heartbeat_elapsed := h\<rparr>) = ballot x" "ballot (x\<lparr>read_index_pending := q\<rparr>) = ballot x" for x h q by (simp_all add: ballot_def)
  show ?thesis using a b unfolding raft_recv_read_index_def e Let_def prod.case
    by (auto split: if_splits simp: ballot_same u intro: step_down_higher)
qed

lemma read_result_step: "raft_recv_read_index_result r f res = (rc, r') \<Longrightarrow> ballot_step r r'"
proof -
  assume a: "raft_recv_read_index_result r f res = (rc, r')"
  obtain ok r1 where e: "raft_read_barrier_ensure r (length (read_barriers r) + follower_read_frozen r) = (ok, r1)" by fastforce
  have b: "ballot r1 = ballot r" by (rule keeps_ballot[OF ensure_keeps(7)[OF e]])
  have u: "ballot (x\<lparr>follower_read_waiting := h\<rparr>) = ballot x"
    "ballot (x\<lparr>read_barriers := q, follower_read_pending := p, follower_read_frozen := n, follower_read_elapsed := t\<rparr>) = ballot x" for x h q p n t
    by (simp_all add: ballot_def)
  show ?thesis using a b unfolding raft_recv_read_index_result_def e Let_def prod.case
    by (auto split: if_splits simp: ballot_same u intro: step_down_higher)
qed

lemma is_begin_ballot: "is_begin r rpc = (ok, r') \<Longrightarrow> ballot r' = ballot r"
  unfolding is_begin_def Let_def by (auto split: if_splits prod.splits bool.splits simp: ballot_def)

lemma install_step: "raft_recv_install_snapshot r f rpc = (rc, r') \<Longrightarrow> ballot_step r r'"
proof -
  assume a: "raft_recv_install_snapshot r f rpc = (rc, r')"
  obtain okm rm where em: "raft_msg_ensure r (length (msg_buf r) + 1) = (okm, rm)" by fastforce
  define ra where "ra = (if is_term rpc > current_term r then raft_step_down r (is_term rpc) (is_leader_id rpc) else r)"
  define r1 where "r1 = ae_follow ra (is_leader_id rpc)"
  define r2 where "r2 = (case raft_find_peer r1 f of None \<Rightarrow> r1 | Some k \<Rightarrow> upd_peer r1 k (\<lambda>p. p\<lparr>pr_match_index := is_snapshot_last_index rpc\<rparr>))"
  obtain ok r3 where b3: "is_begin r2 rpc = (ok, r3)" by fastforce
  have ra: "ballot_step r ra" using step_down_higher by (simp add: ra_def ballot_same)
  have b: "ballot rm = ballot r" "ballot r3 = ballot ra"
    using keeps_ballot[OF ensure_keeps(2)[OF em]] is_begin_ballot[OF b3] by (simp_all add: r2_def r1_def split: option.splits)
  have u: "ballot (x\<lparr>snapshot_recv_expected_offset := o'\<rparr>) = ballot x" "ballot (x\<lparr>snapshot_recv := s\<rparr>) = ballot x"
    "ballot (x\<lparr>snapshot_install_pending := p\<rparr>) = ballot x" for x o' s p by (simp_all add: ballot_def)
  have "ballot r' = ballot r \<or> ballot r' = ballot ra"
    using a b unfolding raft_recv_install_snapshot_def em Let_def prod.case ra_def[symmetric] r1_def[symmetric] r2_def[symmetric] b3
    by (auto split: if_splits simp: u)
  then show ?thesis using ra ballot_after ballot_same by blast
qed

lemma recv_body_step: "raft_recv_body r f m = (rc, r') \<Longrightarrow> ballot_step r r'"
  by (cases m) (auto intro: vote_step vote_result_step append_entries_step append_result_step install_step install_result_step
      read_index_step read_result_step timeout_now_step simp: ballot_same)

text \<open>C7. Terms never go back and a vote is cast once: under every peer message the current term does not
  decrease and stays below the cap, and while the term stays the same a vote that was cast is
  not moved to another candidate; it can only be withdrawn, and only when an allocation fails
  (a campaign that cannot append its first entry).\<close>

theorem vote_once_per_term:
  assumes "raft_recvfrom_peer r msg = (rc, r')" "current_term r \<le> RAFT_TERM_MAX"
  shows "current_term r \<le> current_term r' \<and> current_term r' \<le> RAFT_TERM_MAX
    \<and> (current_term r' = current_term r \<and> voted_for r \<noteq> 0 \<longrightarrow> voted_for r' = voted_for r \<or> voted_for r' = 0 \<and> ctx_script r \<noteq> [])"
proof -
  have "ballot_step r r'" using assms(1) recv_body_step by (auto simp: raft_recvfrom_peer_def ballot_same split: if_splits)
  then show ?thesis using assms(2) by (auto simp: ballot_step_def)
qed

definition ask :: "int \<Rightarrow> int \<Rightarrow> raft_peer_message" where
  "ask c t = \<lparr> pm_from = c, pm_to = 1, pm_term = t, pm_body = RAFT_MSG_REQUEST_VOTE
     \<lparr> rv_term = t, rv_last_log_index = 0, rv_last_log_term = 0, rv_candidate_id = c, rv_pre_vote = False \<rparr>\<rparr>"

theorem vote_once_per_term_witness:
  "voted_for (snd (raft_recvfrom_peer ((sample_node 1)\<lparr>current_term := 4, voted_for := 2\<rparr>) (ask 3 4))) = 2"
proof -
  let ?r = "(sample_node 1)\<lparr>current_term := 4, voted_for := 2\<rparr>"
  obtain rc r' where e: "raft_recvfrom_peer ?r (ask 3 4) = (rc, r')" by fastforce
  have "voted_for r' = 2" and "current_term r' = 4"
    using e by (auto simp: raft_recvfrom_peer_def ask_def raft_recv_request_vote_def Let_def sample_node_def ctx_init_def
        raft_phase_ge_def raft_id_valid_def)
  then show ?thesis using vote_once_per_term[OF e] e by (simp add: sample_node_def ctx_init_def)
qed

text \<open>The withdrawn vote makes a second one possible. A candidate of term 1 that has voted for itself
  and wins, but cannot allocate its first entry, is a follower of term 1 without a vote.\<close>

definition grant :: "int \<Rightarrow> int \<Rightarrow> raft_peer_message" where
  "grant v t = \<lparr> pm_from = v, pm_to = 1, pm_term = t, pm_body = RAFT_MSG_REQUEST_VOTE_RESULT
     \<lparr> rvr_term = t, rvr_vote_granted = True, rvr_pre_vote = False \<rparr>\<rparr>"

definition campaigning :: "script \<Rightarrow> raft_ctx" where
  "campaigning s = (sample_node 1)\<lparr>ctx_script := s, ctx_state := RAFT_CANDIDATE, current_term := 1, voted_for := 1\<rparr>"

lemma failed_append_log:
  assumes "log_wf l" "raft_log_append s l t k d co cn cl = (False, s', l')"
  shows "raft_log_last_index l' = raft_log_last_index l \<and> raft_log_term_at l' i = raft_log_term_at l i"
proof -
  have "grown l [] l'" using append_law[OF assms] by simp
  then have g: "log_wf l'" "log_entries l' = log_entries l" "lg_last_included_index l' = lg_last_included_index l" "lg_last_included_term l' = lg_last_included_term l"
    by (simp_all add: grown_def)
  have last: "raft_log_last_index l' = raft_log_last_index l" using g by (simp only: last_index_entries)
  show ?thesis unfolding term_at_entries[OF assms(1)] term_at_entries[OF g(1)] last using g by simp
qed

lemma lost_campaign:
  assumes "ctx_state r = RAFT_CANDIDATE" "ctx_phase r = RAFT_PHASE_RUNNING" "log_wf (ctx_log r)" "raft_id_valid (pm_from m)"
    and "pm_body m = RAFT_MSG_REQUEST_VOTE_RESULT \<lparr>rvr_term = current_term r, rvr_vote_granted = True, rvr_pre_vote = False\<rparr>"
    and "raft_find_peer r (pm_from m) = Some k" "vote_quorum (upd_peer r k (\<lambda>p. p\<lparr>pr_vote := True\<rparr>)) False"
    and "raft_log_append (ctx_script r) (ctx_log r) (current_term r) RAFT_ENTRY_NOOP [] [] [] [] = (False, sc, l)"
  shows "\<exists>r1. raft_recvfrom_peer r m = (0, r1) \<and> current_term r1 = current_term r \<and> voted_for r1 = 0 \<and> ctx_phase r1 = RAFT_PHASE_RUNNING
    \<and> last_index r1 = last_index r \<and> term_at r1 i = term_at r i"
proof -
  define q where "q = upd_peer r k (\<lambda>p. p\<lparr>pr_vote := True\<rparr>)"
  have e: "raft_recvfrom_peer r m = (0, snd (raft_become_leader q))"
    using assms by (simp add: raft_recvfrom_peer_def raft_recv_request_vote_result_def Let_def q_def)
  have q: "ctx_script q = ctx_script r" "ctx_log q = ctx_log r" "current_term q = current_term r" "ctx_phase q = RAFT_PHASE_RUNNING"
    using assms(2) by (simp_all add: q_def upd_peer_def)
  have a: "ctx_append q (current_term q) RAFT_ENTRY_NOOP [] raft_mask_zero raft_mask_zero raft_mask_zero = (False, q\<lparr>ctx_script := sc, ctx_log := l\<rparr>)"
    using assms(8) by (simp add: ctx_append_def q)
  have "snd (raft_become_leader q) = q\<lparr>ctx_script := sc, ctx_log := l, ctx_state := RAFT_FOLLOWER, ready_leader_change := True, voted_for := 0, in_pre_vote := False,
      ctx_peers := map (\<lambda>p. p\<lparr>pr_vote := False, pr_pre_vote_acked := False\<rparr>) (ctx_peers q)\<rparr>"
    unfolding raft_become_leader_def a by simp
  then show ?thesis using e q failed_append_log[OF assms(3,8)] by simp
qed

text \<open>C36. A node can vote twice in one term: a candidate that voted for itself and is granted the vote that makes its
  quorum, but fails to append its first entry, clears its vote in the same term, and then grants the vote of that
  term to any other candidate whose log is at least as up to date as its own. The comment in the AppendEntries
  handler rules this out (a candidate must not cast a second vote in the same term, the vote is cleared only on a
  term change).\<close>

theorem second_vote_in_term:
  assumes "ctx_state r = RAFT_CANDIDATE" "voted_for r = self_id r" "ctx_phase r = RAFT_PHASE_RUNNING" "log_wf (ctx_log r)" "current_term r \<le> RAFT_TERM_MAX"
    and "raft_id_valid (pm_from m)" "pm_body m = RAFT_MSG_REQUEST_VOTE_RESULT \<lparr>rvr_term = current_term r, rvr_vote_granted = True, rvr_pre_vote = False\<rparr>"
    and "raft_find_peer r (pm_from m) = Some k" "vote_quorum (upd_peer r k (\<lambda>p. p\<lparr>pr_vote := True\<rparr>)) False"
    and "raft_log_append (ctx_script r) (ctx_log r) (current_term r) RAFT_ENTRY_NOOP [] [] [] [] = (False, sc, l)"
    and "raft_id_valid (pm_from n)" "pm_body n = RAFT_MSG_REQUEST_VOTE q" "raft_id_valid (rv_candidate_id q)" "rv_candidate_id q \<noteq> self_id r"
    and "rv_term q = current_term r" "\<not> rv_pre_vote q"
    and "rv_last_log_term q > term_at r (last_index r) \<or> rv_last_log_term q = term_at r (last_index r) \<and> rv_last_log_index q \<ge> last_index r"
  shows "\<exists>r1 r2. raft_recvfrom_peer r m = (0, r1) \<and> raft_recvfrom_peer r1 n = (0, r2) \<and> current_term r2 = current_term r
    \<and> voted_for r2 = rv_candidate_id q \<and> voted_for r2 \<noteq> voted_for r \<and> deferred_vote_response r2 \<and> deferred_vote_to r2 = pm_from n"
proof -
  obtain r1 where r1: "raft_recvfrom_peer r m = (0, r1)" "current_term r1 = current_term r" "voted_for r1 = 0" "ctx_phase r1 = RAFT_PHASE_RUNNING"
    "last_index r1 = last_index r" "term_at r1 (last_index r) = term_at r (last_index r)"
    using lost_campaign[OF assms(1,3,4,6-10), of "last_index r"] by blast
  have "raft_recvfrom_peer r1 n = raft_recv_request_vote r1 (pm_from n) q" using r1(4) assms(12) by (simp add: raft_recvfrom_peer_def)
  also have "\<dots> = (0, r1\<lparr>voted_for := rv_candidate_id q, election_elapsed := 0, persist_needed := True,
                       deferred_vote_response := True, deferred_vote_to := pm_from n, deferred_vote_gen := persist_gen r1 + 1\<rparr>)"
    using r1 assms(5,11,13,15-17) by (auto simp: raft_recv_request_vote_def raft_phase_ge_def Let_def)
  finally show ?thesis using r1(1,2) assms(2,14) by simp
qed

text \<open>A candidate of term 1 whose only allocation fails.\<close>

theorem second_vote_in_term_witness:
  "\<exists>r1 r2. raft_recvfrom_peer (campaigning [False]) (grant 2 1) = (0, r1) \<and> raft_recvfrom_peer r1 (ask 3 1) = (0, r2)
    \<and> voted_for (campaigning [False]) = 1 \<and> current_term r2 = 1 \<and> voted_for r2 = 3"
proof -
  let ?r = "campaigning [False]"
  have st: "ctx_state ?r = RAFT_CANDIDATE" "voted_for ?r = self_id ?r" "ctx_phase ?r = RAFT_PHASE_RUNNING" "current_term ?r = 1" "ctx_log ?r = log_init 4"
    "ctx_script ?r = [False]" "voted_for ?r = 1" "raft_find_peer ?r 2 = Some 0"
    by (simp_all add: campaigning_def sample_defs raft_find_peer_def)
  have q: "vote_quorum (upd_peer ?r 0 (\<lambda>p. p\<lparr>pr_vote := True\<rparr>)) False"
    by (simp add: upd_peer_def vote_quorum_def raft_quorum_size_of_def raft_count_votes_def Let_def campaigning_def sample_defs)
  have a: "raft_log_append [False] (log_init 4) 1 RAFT_ENTRY_NOOP [] [] [] [] = (False, [], log_init 4)"
    by (simp add: raft_log_append_def raft_log_ensure_chunk_def log_init_def Let_def)
  have id: "self_id (campaigning [False]) = 1" using st by simp
  have wf: "log_wf (log_init 4)" by (simp add: log_wf_def log_ok_def log_init_def geometry_def chunks_ok_def clean_def Let_def)
  have l: "raft_log_last_index (log_init 4) = 0" "raft_log_term_at (log_init 4) 0 = 0" by code_simp+
  let ?q = "\<lparr> rv_term = 1, rv_last_log_index = 0, rv_last_log_term = 0, rv_candidate_id = 3, rv_pre_vote = False \<rparr>"
  have "\<exists>r1 r2. raft_recvfrom_peer ?r (grant 2 1) = (0, r1) \<and> raft_recvfrom_peer r1 (ask 3 1) = (0, r2) \<and> current_term r2 = current_term ?r
    \<and> voted_for r2 = rv_candidate_id ?q \<and> voted_for r2 \<noteq> voted_for ?r \<and> deferred_vote_response r2 \<and> deferred_vote_to r2 = pm_from (ask 3 1)"
    by (rule second_vote_in_term[of ?r "grant 2 1" 0 "[]" "log_init 4" "ask 3 1" ?q]) (simp_all add: st q a wf l id grant_def ask_def raft_id_valid_def)
  then show ?thesis using st by auto
qed

end
