(* ===== verification/Raft_Durable.thy ===== *)
theory Raft_Durable
  imports Raft_Vote
begin

section \<open>Durability: what a node reports\<close>

text \<open>
  A node may report only what its disk holds. The frontier \<^verbatim>\<open>durable_confirm\<close> stays within the
  log through every AppendEntries and every persistence report, success acknowledgements stay
  within the frontier and the log, and a granted vote leaves the node only after the persist
  round that carries it.
\<close>

subsection \<open>The frontier\<close>

definition frontier_ok :: "raft_ctx \<Rightarrow> bool" where
  "frontier_ok r \<longleftrightarrow> durable_confirm r \<le> last_index r"

lemma frontier_keeps: "keeps r r' \<Longrightarrow> frontier_ok r' = frontier_ok r"
  by (simp add: frontier_ok_def keeps_def)

lemma frontier_cut:
  assumes "log_wf (ctx_log r)" "lg_last_included_index (ctx_log r) \<le> idx"
  shows "frontier_ok r \<Longrightarrow> frontier_ok (snd (raft_log_cut r idx))"
proof -
  assume f: "frontier_ok r"
  obtain rc l where t: "raft_log_truncate (ctx_log r) idx = (rc, l)" by fastforce
  have "rc = 0" "raft_log_last_index l = min idx (last_index r)"
    using truncate_law[OF assms(1) t] assms(2) by (auto simp: last_index_entries min_def nat_le_iff)
  then show ?thesis using f by (auto simp: frontier_ok_def raft_log_cut_def t Let_def raft_durable_clamp_def min_def)
qed

lemma frontier_append_entry:
  assumes "log_wf (ctx_log r)" "ctx_append_entry r e = (b, r')"
  shows "frontier_ok r \<Longrightarrow> frontier_ok r'"
proof -
  assume f: "frontier_ok r"
  note law = append_entry_law[OF assms]
  have "durable_confirm r' = durable_confirm r" using assms(2) by (auto simp: ctx_append_entry_def ctx_append_def split: prod.splits)
  moreover have "last_index r \<le> last_index r'" using law by (simp add: last_index_entries relogged_def del: length_log_entries)
  ultimately show ?thesis using f by (simp add: frontier_ok_def)
qed

lemma frontier_append_loop:
  "log_wf (ctx_log r) \<Longrightarrow> frontier_ok r \<Longrightarrow> ae_append_loop r rpc ch i e cur = (out, r') \<Longrightarrow> frontier_ok r'"
proof (induction r rpc ch i e cur rule: ae_append_loop.induct)
  case (1 r rpc ch i e cur)
  obtain b r1 where a: "ctx_append_entry r e = (b, r1)" by fastforce
  obtain e2 cur2 where rd: "ae_read rpc (i + 1) cur = (e2, cur2)" by fastforce
  have step: "ae_append_loop r rpc ch i e cur = (if \<not> b then (AE_Done ch True, r1)
      else if int (i + 1) \<ge> ae_entry_count rpc then (AE_Done ch False, r1)
      else if ae_term_bad rpc (i + 1) then (AE_Error, r1) else ae_append_loop r1 rpc ch (i + 1) e2 cur2)"
    by (subst ae_append_loop.simps) (simp only: a rd prod.case, simp split: bool.splits)
  have "frontier_ok r1" "log_wf (ctx_log r1)" using frontier_append_entry[OF 1(2) a 1(3)] append_entry_law[OF 1(2) a] by auto
  then show ?case using 1(1)[OF a[symmetric] _ _ _ rd[symmetric]] 1(4) step by (auto split: if_splits)
qed

lemma frontier_loop:
  "log_wf (ctx_log r) \<Longrightarrow> frontier_ok r \<Longrightarrow> ae_loop r rpc tip i cur = (out, r') \<Longrightarrow> frontier_ok r'"
proof (induction r rpc tip i cur rule: ae_loop.induct)
  case (1 r rpc tip i cur)
  obtain e cur2 where rd: "ae_read rpc i cur = (e, cur2)" by fastforce
  define eidx where "eidx = ae_prev_log_index rpc + 1 + int i"
  have cut: "frontier_ok (snd (raft_log_cut r (eidx - 1)))" "log_wf (ctx_log (snd (raft_log_cut r (eidx - 1))))"
    if "\<not> eidx - 1 < lg_last_included_index (ctx_log r)"
    using that frontier_cut[OF 1(2), of "eidx - 1"] 1(3) log_cut_law[OF 1(2), of "eidx - 1"] by auto
  have step: "ae_loop r rpc tip i cur = (if int i \<ge> ae_entry_count rpc then (AE_Done False False, r)
      else if en_kind e > 2 then (AE_Error, r) else if ae_term_bad rpc i then (AE_Error, r)
      else if eidx \<le> tip \<and> eidx > lg_last_included_index (ctx_log r) \<and> term_at r eidx = en_term e then ae_loop r rpc tip (i + 1) cur2
      else if eidx \<le> tip then if eidx - 1 < lg_last_included_index (ctx_log r) then (AE_Reject (lg_last_included_index (ctx_log r) + 1), r)
           else ae_append_loop (snd (raft_log_cut r (eidx - 1))) rpc True i e cur2
      else ae_append_loop r rpc False i e cur2)"
    unfolding eidx_def by (subst ae_loop.simps) (simp only: Let_def rd prod.case)
  show ?case
    using 1(2-4) step 1(1)[OF _ eidx_def rd[symmetric]] cut frontier_append_loop[OF cut(2) cut(1)] frontier_append_loop[OF 1(2,3)]
    by (auto split: if_splits)
qed

lemma frontier_recv:
  assumes wf: "log_wf (ctx_log r)" and f: "frontier_ok r" and a: "raft_recv_append_entries r sender rpc = (rc, r')"
  shows "frontier_ok r'"
proof -
  define ra where "ra = (if ae_term rpc > current_term r then raft_step_down r (ae_term rpc) (ae_leader_id rpc) else r)"
  define r1 where "r1 = ae_follow ra (ae_leader_id rpc)"
  obtain out r2 where lp: "ae_loop r1 rpc (last_index r1) 0 0 = (out, r2)" by fastforce
  have fa: "frontier_ok ra" "frontier_ok r1" "log_wf (ctx_log r1)" using f wf by (simp_all add: ra_def r1_def frontier_ok_def)
  have f2: "frontier_ok r2" by (rule frontier_loop[OF fa(3,2) lp])
  have fail: "ae_reply_fail x rpc h = (rc, r') \<Longrightarrow> frontier_ok r' = frontier_ok x" for x h by (rule frontier_keeps[OF reply_fail_keeps])
  have fin: "frontier_ok r'" if ap: "(let (rc, r) = (if ae_entry_count rpc > 0 \<or> ch \<or> config_apply_stale r2 then raft_apply_config_from_log r2 else (0, r2))
      in if rc < 0 then (-1, r) else if oom then (-1, r)
         else let r = ae_commit r rpc; r = (if ae_entry_count rpc > 0 \<or> ch then r\<lparr>persist_needed := True\<rparr> else r)
              in ae_reply_ok r rpc) = (rc, r')" for ch oom
  proof -
    obtain rc3 r3 where e3: "(if ae_entry_count rpc > 0 \<or> ch \<or> config_apply_stale r2 then raft_apply_config_from_log r2 else (0, r2)) = (rc3, r3)"
      by fastforce
    have f3: "frontier_ok r3" using e3 f2 frontier_keeps[OF apply_log_keeps] by (auto split: if_splits)
    obtain c where c: "ae_commit r3 rpc = r3\<lparr>commit_index := c\<rparr>" using ae_commit_law by blast
    have k: "ae_reply_ok x rpc = (rc, r') \<Longrightarrow> frontier_ok r' = frontier_ok x" for x by (rule frontier_keeps[OF reply_ok_keeps])
    have u: "frontier_ok (r3\<lparr>commit_index := c\<rparr>)" "frontier_ok (r3\<lparr>commit_index := c, persist_needed := True\<rparr>)" using f3 by (simp_all add: frontier_ok_def)
    show ?thesis using ap f3 k u unfolding e3 Let_def prod.case c by (auto split: if_splits)
  qed
  show ?thesis
    using a f fa f2 fail[of r1] fail[of r2] fin unfolding raft_recv_append_entries_def ra_def[symmetric] Let_def[of "ra"] Let_def[of r1] r1_def[symmetric] lp
    by (auto split: if_splits option.splits ae_out.splits)
qed

lemma frontier_persist: "frontier_ok r \<Longrightarrow> frontier_ok (snd (raft_persist_complete r d))"
proof -
  assume f: "frontier_ok r"
  have c: "frontier_ok (raft_advance_commit x) = frontier_ok x" for x
    using commit_loop_frame[of x "[commit_index x + 1..last_index x]"] by (auto simp: raft_advance_commit_def frontier_ok_def)
  define tip where "tip = last_index r"
  define conf where "conf = (if d < tip then d else tip)"
  define r1 where "r1 = r\<lparr>persist_gen := persist_gen r + 1\<rparr>"
  define r2 where "r2 = (if d > durable_index r1 then r1\<lparr>durable_index := d\<rparr> else r1)"
  define r3 where "r3 = (if conf > durable_confirm r2 then r2\<lparr>durable_confirm := conf\<rparr> else r2)"
  define r4 where "r4 = (if conf > persist_synced_index r3 then r3\<lparr>persist_synced_index := conf\<rparr> else r3)"
  have t: "last_index r2 = tip" by (simp add: r2_def r1_def tip_def)
  have r4: "frontier_ok r4" using f by (auto simp: r4_def r3_def r2_def r1_def frontier_ok_def conf_def tip_def)
  have "raft_persist_complete r d = (if ctx_phase r \<noteq> RAFT_PHASE_RUNNING \<and> ctx_phase r \<noteq> RAFT_PHASE_DRAINING then (-1, r)
      else (0, if ctx_state r4 = RAFT_LEADER then raft_advance_commit r4 else r4))"
    unfolding raft_persist_complete_def Let_def r1_def[symmetric] r2_def[symmetric] t conf_def[symmetric] r3_def[symmetric] r4_def[symmetric] ..
  then show ?thesis using r4 f c by simp
qed

text \<open>C16. The frontier a follower may report stays within its log: it holds after every AppendEntries,
  whatever is truncated, appended or fails, and after every persistence report, even one that
  was taken before a truncation and covers more than the log now has.\<close>

theorem durable_frontier_within_log:
  assumes "log_wf (ctx_log r)" "durable_confirm r \<le> last_index r"
  shows "(let r' = snd (raft_recv_append_entries r sender rpc) in durable_confirm r' \<le> last_index r')
    \<and> (let r' = snd (raft_persist_complete r d) in durable_confirm r' \<le> last_index r')"
  using frontier_recv[OF assms(1), of sender rpc "fst (raft_recv_append_entries r sender rpc)"] frontier_persist[of r d] assms(2)
  by (simp add: frontier_ok_def)

theorem durable_frontier_within_log_witness:
  "let r' = snd (raft_recv_append_entries follower_node 2 slice_rpc) in durable_confirm r' \<le> last_index r'"
proof -
  have "ctx_log follower_node = sample_log" "durable_confirm follower_node = 0" "last_index follower_node = 4"
    by (simp_all add: follower_node_def sample_defs sample_log_def raft_log_last_index_def)
  then show ?thesis using durable_frontier_within_log[of follower_node 2 slice_rpc 0] sample_log_wf by simp
qed

subsection \<open>Acknowledgements\<close>

definition durable_ack :: "raft_ctx \<Rightarrow> raft_peer_message \<Rightarrow> bool" where
  "durable_ack r m \<longleftrightarrow> (case pm_body m of RAFT_MSG_APPEND_RESULT a \<Rightarrow> aer_success a \<and> aer_term a = current_term r
      \<and> aer_last_log_index a \<le> durable_confirm r \<and> aer_last_log_index a \<le> last_index r | _ \<Rightarrow> False)"

lemma msg_ensure_buf [simp]: "raft_msg_ensure r n = (ok, r') \<Longrightarrow> msg_buf r' = msg_buf r"
  by (auto simp: raft_msg_ensure_def split: prod.splits)

lemma release_append_acks:
  assumes "m \<in> set (msg_buf (release_append r))" "m \<notin> set (msg_buf r)"
  shows "durable_ack r m"
proof -
  define report where "report = append_report r"
  obtain ok r1 where e: "raft_msg_ensure r (length (msg_buf r) + 1) = (ok, r1)" by fastforce
  note k = keepsD[OF ensure_keeps(2)[OF e]]
  define r2 where "r2 = (push_msg r1 (deferred_append_to r1) (RAFT_MSG_APPEND_RESULT
      \<lparr> aer_term = current_term r1, aer_rejected = 0, aer_last_log_index = report, aer_conflict_term = 0,
        aer_conflict_first_index = 0, aer_read_context = deferred_append_read_context r1, aer_success = True \<rparr>))\<lparr>deferred_append_last_index := report\<rparr>"
  define r3 where "r3 = (if report > deferred_append_last_index r then if ok then r2 else r1 else r)"
  have "msg_buf (release_append r) = msg_buf r \<or> msg_buf (release_append r) = msg_buf r3"
    unfolding release_append_def report_def[symmetric] Let_def e prod.case r2_def[symmetric] r3_def[symmetric] by simp
  then have "m \<in> set (msg_buf r2)" using assms msg_ensure_buf[OF e] by (auto simp: r3_def split: if_splits)
  then have "pm_body m = RAFT_MSG_APPEND_RESULT
      \<lparr> aer_term = current_term r, aer_rejected = 0, aer_last_log_index = report, aer_conflict_term = 0,
        aer_conflict_first_index = 0, aer_read_context = deferred_append_read_context r1, aer_success = True \<rparr>"
    using assms(2) msg_ensure_buf[OF e] k by (auto simp: r2_def push_msg_def)
  then show ?thesis by (auto simp: durable_ack_def report_def append_report_def Let_def)
qed

lemma reply_ok_acks:
  assumes "frontier_ok r" "m \<in> set (msg_buf (snd (ae_reply_ok r rpc)))" "m \<notin> set (msg_buf r)"
  shows "durable_ack r m"
proof -
  obtain ok r1 where e: "raft_msg_ensure r (length (msg_buf r) + 1) = (ok, r1)" by fastforce
  note k = keepsD[OF ensure_keeps(2)[OF e]]
  show ?thesis using assms k msg_ensure_buf[OF e] unfolding ae_reply_ok_def e Let_def prod.case
    by (auto simp: push_msg_def durable_ack_def frontier_ok_def split: if_splits)
qed

text \<open>C15. A node acknowledges only what its disk holds: every message that answering an AppendEntries or
  releasing a deferred answer adds is a success answer of the current term whose index is within
  the durable frontier and within the log.\<close>

theorem acks_stay_durable:
  assumes "durable_confirm r \<le> last_index r"
    and "m \<in> set (msg_buf (release_append r)) \<union> set (msg_buf (snd (ae_reply_ok r rpc)))" "m \<notin> set (msg_buf r)"
  shows "durable_ack r m"
  using assms release_append_acks reply_ok_acks by (auto simp: frontier_ok_def)

definition acking_node :: raft_ctx where
  "acking_node = (sample_node 1)\<lparr>ctx_log := sample_log, durable_confirm := 3, deferred_append_response := True,
     deferred_append_to := 2, deferred_append_confirmed := 4, deferred_append_last_index := -1\<rparr>"

lemma acking_node_sends:
  "msg_buf (release_append acking_node) = [\<lparr> pm_from = 1, pm_to = 2, pm_term = 0, pm_body = RAFT_MSG_APPEND_RESULT
      \<lparr> aer_term = 0, aer_rejected = 0, aer_last_log_index = 3, aer_conflict_term = 0, aer_conflict_first_index = 0,
        aer_read_context = 0, aer_success = True \<rparr> \<rparr>]"
  by code_simp

theorem acks_stay_durable_witness: "list_all (durable_ack acking_node) (msg_buf (release_append acking_node))"
proof -
  have "durable_confirm acking_node \<le> last_index acking_node" "msg_buf acking_node = []" by code_simp+
  then show ?thesis using acks_stay_durable[of acking_node] unfolding list_all_iff by auto
qed

subsection \<open>Commitment makes progress\<close>

lemma filter_length_mono: "(\<And>x. P x \<Longrightarrow> Q x) \<Longrightarrow> length (filter P xs) \<le> length (filter Q xs)"
  by (induction xs) auto

lemma count_match_down: "j \<le> i \<Longrightarrow> raft_count_match r i old \<le> raft_count_match r j old"
  unfolding raft_count_match_def by (rule filter_length_mono) auto

lemma commit_quorum_down:
  assumes "commit_quorum r i" "j \<le> i"
  shows "commit_quorum r j"
  using assms count_match_down[OF assms(2), of r True] count_match_down[OF assms(2), of r False]
  by (auto simp: commit_quorum_def Let_def split: if_splits)

lemma commit_loop_lower: "(\<forall>k\<in>set is. commit_index r \<le> k) \<Longrightarrow> commit_index r \<le> commit_index (commit_loop r is)"
  using commit_loop_law[of r "is"] by auto

lemma commit_loop_reaches:
  assumes "sorted is" "j \<in> set is" "term_at r j = current_term r" "commit_quorum r j"
  shows "j \<le> commit_index (commit_loop r is)"
  using assms
proof (induction "is" arbitrary: r)
  case (Cons i "is")
  define r1 where "r1 = r\<lparr>commit_index := i, leadership_confirmed := True\<rparr>"
  have ij: "i \<le> j" using Cons.prems(1,2) by auto
  have q: "commit_quorum r i" by (rule commit_quorum_down[OF Cons.prems(4) ij])
  show ?case
  proof (cases "term_at r i = current_term r")
    case False
    then show ?thesis using Cons.IH[of r] Cons.prems by auto
  next
    case True
    then have step: "commit_loop r (i # is) = commit_loop r1 is" using q by (simp add: r1_def)
    have r1: "commit_quorum r1 j" "term_at r1 j = current_term r1" using Cons.prems(3,4) by (simp_all add: r1_def)
    show ?thesis
    proof (cases "j = i")
      case True
      then show ?thesis unfolding step using commit_loop_lower[of "is" r1] Cons.prems(1) by (simp add: r1_def)
    next
      case False
      then show ?thesis unfolding step using Cons.IH[of r1] Cons.prems(1,2) r1 by simp
    qed
  qed
qed simp

text \<open>C14. Commitment makes progress: as soon as an entry of the leader's own term is stored by a quorum (the
  leader's own copy counting only when it is on its disk), the leader's next commit pass reaches it, also
  when the pass has to walk over entries of earlier terms below it.\<close>

theorem commit_makes_progress:
  assumes "commit_index r < j" "j \<le> last_index r" "term_at r j = current_term r" "commit_quorum r j"
  shows "j \<le> commit_index (raft_advance_commit r)"
  unfolding raft_advance_commit_def by (rule commit_loop_reaches) (use assms in auto)

definition committing_node :: raft_ctx where
  "committing_node = (matched_node 2 5)\<lparr>ctx_log := leader_log, current_term := 3, commit_index := 4\<rparr>"

lemma committing_node_quorum: "commit_quorum committing_node 5 \<and> commit_index committing_node = 4 \<and> last_index committing_node = 5
    \<and> term_at committing_node 5 = current_term committing_node"
  by code_simp

theorem commit_makes_progress_witness: "5 \<le> commit_index (raft_advance_commit committing_node)"
  using commit_makes_progress[of committing_node 5] committing_node_quorum by simp

text \<open>C10. The commit rule: advancing the commit index changes nothing else but the leadership flag, never lowers the index
  and never passes the log tip. When it moves, the new index carries an entry of the leader's own term that more than
  half of the members of the configuration store, and of the old one too while it is joint: a peer counts when it has
  acknowledged the index, the leader itself when the index is on its own disk. A leader that is the only voter
  counts itself without that, since its caller persists before it applies.\<close>

theorem advance_commit_rule:
  assumes "peers_ok r" "r' = raft_advance_commit r" "c = commit_index r'"
    and "stores = {i. i = self_id r \<and> (durable_index r \<ge> c \<or> (\<forall>p\<in>set (ctx_peers r). pr_is_learner p))
      \<or> i \<noteq> self_id r \<and> (\<exists>p\<in>set (ctx_peers r). pr_id p = i \<and> pr_match_index p \<ge> c)}"
  shows "r' = r\<lparr>commit_index := c, leadership_confirmed := leadership_confirmed r'\<rparr> \<and> commit_index r \<le> c
     \<and> (c = commit_index r \<and> leadership_confirmed r' = leadership_confirmed r
        \<or> c \<le> last_index r \<and> term_at r c = current_term r \<and> leadership_confirmed r'
          \<and> 2 * card (stores \<inter> set (config_new r)) > card (set (config_new r))
          \<and> (config_joint r \<longrightarrow> 2 * card (stores \<inter> set (config_old r)) > card (set (config_old r))))"
proof -
  obtain c' b where f: "raft_advance_commit r = r\<lparr>commit_index := c', leadership_confirmed := b\<rparr>"
    using commit_loop_frame by (metis raft_advance_commit_def)
  have "stores = replicated r c" unfolding assms(4) by (auto simp: replicated_def backers_def self_durable_def raft_has_voter_peer_def list_ex_iff)
  then have q: "commit_quorum r c \<longleftrightarrow> mb_quorum (members_of r) stores" using commit_quorum_iff[OF assms(1)] by simp
  then show ?thesis using commit_loop_law[of r "[commit_index r + 1..last_index r]"] f assms(2,3)
    unfolding raft_advance_commit_def by (auto simp: mb_quorum_def majority_def members_of_def)
qed

lemma committing_node_ok: "peers_ok committing_node"
  by (auto simp: committing_node_def matched_node_def peers_ok_def peers_cover_filter sample_defs)

text \<open>Node 2 commits index 5, which nodes 1 and 3 store and which is not on its own disk.\<close>

theorem advance_commit_rule_witness:
  "\<exists>stores. commit_index (raft_advance_commit committing_node) = 5 \<and> stores \<inter> {1, 2, 3} = {1, 3 :: int} \<and> 2 * card (stores \<inter> set (config_new committing_node)) > 3"
proof -
  have d: "commit_index (raft_advance_commit committing_node) = 5 \<and> commit_index committing_node = 4 \<and> durable_index committing_node = 0 \<and> self_id committing_node = 2
    \<and> config_new committing_node = [1, 2, 3] \<and> map (\<lambda>p. (pr_id p, pr_match_index p, pr_is_learner p)) (ctx_peers committing_node) = [(1, 5, False), (3, 5, False)]" by code_simp
  define stores where "stores = {i. i = self_id committing_node \<and> (durable_index committing_node \<ge> 5 \<or> (\<forall>p\<in>set (ctx_peers committing_node). pr_is_learner p))
      \<or> i \<noteq> self_id committing_node \<and> (\<exists>p\<in>set (ctx_peers committing_node). pr_id p = i \<and> pr_match_index p \<ge> 5)}"
  have "stores = {1, 3}" using d by (auto simp: stores_def)
  then show ?thesis using advance_commit_rule[OF committing_node_ok refl refl refl] d by (intro exI[of _ stores]) (simp add: stores_def)
qed

end
