(* ===== verification/Raft_Leader.thy ===== *)
theory Raft_Leader
  imports Raft_Match
begin

section \<open>What a leader sends\<close>

text \<open>
  The messages \<^verbatim>\<open>raft_queue_append_entries\<close> builds, read back the way a follower reads them, are
  the leader's own entries; so the hypothesis of the log matching theorem is met by real
  messages, and one round of replication through the two functions extends the follower's log.
\<close>

subsection \<open>Cells of one chunk\<close>

lemma same_chunk:
  assumes "sz > 0" "o' mod sz + j < (sz::nat)"
  shows "(o' + j) div sz = o' div sz" "(o' + j) mod sz = o' mod sz + j"
proof -
  have e: "o' + j = (o' mod sz + j) + o' div sz * sz" by (metis add.commute add.left_commute div_mult_mod_eq)
  have "(x + y * sz) div sz = y" "(x + y * sz) mod sz = x" if "x < sz" for x y using that by simp_all
  from this[OF assms(2), of "o' div sz"] show "(o' + j) div sz = o' div sz" "(o' + j) mod sz = o' mod sz + j"
    unfolding e[symmetric] by blast+
qed

lemma entry_fields:
  assumes "i < lg_count l"
  shows "log_entries l ! i = entry_of (lg_count l) (lg_data_size l) l i"
  using assms by (simp add: log_entries_def ents_def)

lemma stored_log_entry:
  assumes wf: "log_wf l" and i: "i < lg_count l"
  shows "stored_entry (log_entries l ! i) = log_entries l ! i"
proof -
  have ok: "chunks_ok (lg_count l) (lg_data_size l) (lg_chunk_size l) (lg_chunks l)" using wf by (simp add: log_wf_def log_ok_def)
  show ?thesis using cleanD[OF chunks_ok_clean[OF ok], of i] chunks_ok_alloc[OF ok i]
    by (auto simp: entry_fields[OF i] stored_entry_def mk_entry_def entry_of_def Let_def)
qed

text \<open>The size the leader computes is the distance to the next entry's bytes.\<close>

lemma queue_size_next:
  assumes wf: "log_wf l" and i: "i < lg_count l"
  defines "o' \<equiv> cell lc_data_offsets (lg_chunk_size l) (lg_chunks l)"
  shows "o' i + queue_size l i = (if i + 1 < lg_count l then o' (i + 1) else lg_data_size l)"
proof -
  have g: "geometry l" and ok: "chunks_ok (lg_count l) (lg_data_size l) (lg_chunk_size l) (lg_chunks l)"
    using wf by (simp_all add: log_wf_def log_ok_def)
  let ?sz = "lg_chunk_size l"
  have sz: "?sz > 0" by (rule geometry_pos[OF g])
  define nx where "nx = (if i + 1 < lg_count l then o' (i + 1) else lg_data_size l)"
  have le: "o' i \<le> nx" using chunks_ok_step[OF ok i] unfolding nx_def o'_def .
  have "queue_size l i = (if nx > o' i then nx - o' i else 0)"
  proof (cases "i + 1 < lg_count l")
    case True
    have ne: "lg_last_included_index l + int i + 1 \<noteq> raft_log_last_index l" using True by (simp add: raft_log_last_index_def)
    have al: "(i + 1) div ?sz < lg_num_chunks l" "lc_terms (lg_chunks l ! ((i + 1) div ?sz)) \<noteq> None"
      using chunks_ok_alloc[OF ok True] by auto
    moreover have "chunk_wf ?sz (lg_chunks l ! ((i + 1) div ?sz))" using ok al(1) by (simp add: chunks_ok_def)
    ultimately have off: "lc_data_offsets (lg_chunks l ! ((i + 1) div ?sz)) \<noteq> None" by (simp add: chunk_wf_def)
    have c: "i div ?sz < lg_num_chunks l - 1 \<or> i mod ?sz + 1 < ?sz"
      using al(1) sz by (metis Suc_eq_plus1 Suc_lessI add_diff_cancel_right' div_Suc less_diff_conv mod_Suc mod_less_divisor)
    show ?thesis
      unfolding queue_size_def Let_def log_ci_div[OF g] log_co_mod[OF g] slot_cell[OF g] next_slot[OF sz]
      using ne c al(1) off True by (simp add: nx_def o'_def cell_def)
  next
    case False
    then have "lg_last_included_index l + int i + 1 = raft_log_last_index l" using i by (simp add: raft_log_last_index_def)
    then show ?thesis using False by (simp add: queue_size_def Let_def slot_cell[OF g] nx_def o'_def)
  qed
  then show ?thesis using le by (auto simp: nx_def)
qed

lemma entry_bytes:
  assumes wf: "log_wf l" and i: "i < lg_count l"
  shows "en_data (log_entries l ! i) = take (queue_size l i) (drop (cell lc_data_offsets (lg_chunk_size l) (lg_chunks l) i) (lg_data l))"
proof -
  let ?o = "cell lc_data_offsets (lg_chunk_size l) (lg_chunks l)"
  have "(if i + 1 < lg_count l then ?o (i + 1) else lg_data_size l) - ?o i = queue_size l i" using queue_size_next[OF wf i] by linarith
  then show ?thesis unfolding entry_fields[OF i] entry_of_def Let_def by simp
qed

subsection \<open>Reading back a queued message\<close>

definition send_count :: "raft_ctx \<Rightarrow> raft_peer \<Rightarrow> nat \<Rightarrow> int" where
  "send_count r pr offset =
    (let l = ctx_log r; cnt = raft_log_last_index l - pr_next_index pr + 1;
         mc = int (lg_chunk_size l) - int (log_co l (nat (pr_next_index pr - lg_last_included_index l - 1)));
         cnt = (if cnt > mc then mc else cnt); cnt = (if cnt < 0 then 0 else cnt)
     in if cnt > 0 \<and> (entry_size_cap r = 0 \<or> int (entry_size_cap r) < int offset + cnt) then 0 else cnt)"

definition heartbeat_body :: "raft_ctx \<Rightarrow> raft_peer \<Rightarrow> int \<Rightarrow> raft_append_entries" where
  "heartbeat_body r pr cnt = \<lparr> ae_term = current_term r, ae_prev_log_index = pr_next_index pr - 1,
     ae_prev_log_term = term_at r (pr_next_index pr - 1), ae_leader_commit = commit_index r, ae_read_context = read_context r,
     ae_entry_terms = None, ae_entry_kinds = None, ae_entry_data = None, ae_entry_data_sizes = None, ae_entry_cfg_old = None,
     ae_entry_cfg_new = None, ae_entry_cfg_learners = None, ae_leader_id = self_id r, ae_entry_count = cnt \<rparr>"

definition entries_body :: "raft_ctx \<Rightarrow> raft_peer \<Rightarrow> int \<Rightarrow> raft_append_entries" where
  "entries_body r pr cnt =
    (let l = ctx_log r; i = nat (pr_next_index pr - lg_last_included_index l - 1); c = lg_chunks l ! log_ci l i; co = log_co l i
     in (heartbeat_body r pr cnt)\<lparr>ae_entry_terms := Some (drop co (the (lc_terms c))), ae_entry_kinds := Some (drop co (the (lc_kinds c))),
          ae_entry_data := Some (drop (the (lc_data_offsets c) ! co) (lg_data l)),
          ae_entry_data_sizes := Some (map (queue_size l) [i..<i + nat cnt]),
          ae_entry_cfg_old := map_option (drop co) (lc_cfg_old c), ae_entry_cfg_new := map_option (drop co) (lc_cfg_new c),
          ae_entry_cfg_learners := map_option (drop co) (lc_cfg_learners c)\<rparr>)"

lemma append_body_form:
  "fst (append_body r pr offset) =
    (if send_count r pr offset > 0 then entries_body r pr (send_count r pr offset) else heartbeat_body r pr 0)"
proof -
  have "0 \<le> send_count r pr offset" unfolding send_count_def Let_def by (auto split: if_splits)
  then have z: "\<not> send_count r pr offset > 0 \<Longrightarrow> send_count r pr offset = 0" by simp
  have "fst (append_body r pr offset) = (if send_count r pr offset > 0 then entries_body r pr (send_count r pr offset)
      else heartbeat_body r pr (send_count r pr offset))"
    unfolding append_body_def send_count_def Let_def heartbeat_body_def entries_body_def by (simp only: fst_conv if_distrib[of fst])
  then show ?thesis using z by (cases "send_count r pr offset > 0") simp_all
qed

lemma send_count_bounds:
  assumes "send_count r pr offset > 0"
  shows "send_count r pr offset \<le> last_index r - pr_next_index pr + 1"
    "send_count r pr offset \<le> int (lg_chunk_size (ctx_log r)) - int (log_co (ctx_log r) (nat (pr_next_index pr - lg_last_included_index (ctx_log r) - 1)))"
  using assms unfolding send_count_def Let_def by (auto split: if_splits)

text \<open>Reading entry \<open>j\<close> of the message gives entry \<open>i + j\<close> of the leader's log.\<close>

lemma body_read:
  assumes wf: "log_wf (ctx_log r)" and i: "i = nat (pr_next_index pr - lg_last_included_index (ctx_log r) - 1)"
    and j: "int j < cnt" and room: "i + j < lg_count (ctx_log r)" "log_co (ctx_log r) i + j < lg_chunk_size (ctx_log r)"
    and cur: "cur + cell lc_data_offsets (lg_chunk_size (ctx_log r)) (lg_chunks (ctx_log r)) i
        = cell lc_data_offsets (lg_chunk_size (ctx_log r)) (lg_chunks (ctx_log r)) (i + j)"
  shows "ae_read (entries_body r pr cnt) j cur = (log_entries (ctx_log r) ! (i + j), cur + queue_size (ctx_log r) (i + j))"
proof -
  let ?l = "ctx_log r" and ?sz = "lg_chunk_size (ctx_log r)" and ?cs = "lg_chunks (ctx_log r)"
  have g: "geometry ?l" and ok: "chunks_ok (lg_count ?l) (lg_data_size ?l) ?sz ?cs" using wf by (simp_all add: log_wf_def log_ok_def)
  have sz: "?sz > 0" by (rule geometry_pos[OF g])
  let ?c = "?cs ! (i div ?sz)" and ?co = "i mod ?sz"
  have co: "?co + j < ?sz" using room(2) log_co_mod[OF g] by simp
  have dm: "(i + j) div ?sz = i div ?sz" "(i + j) mod ?sz = ?co + j" using same_chunk[OF sz co] .
  have al: "i div ?sz < length ?cs" "lc_terms ?c \<noteq> None" using chunks_ok_alloc[OF ok, of "i + j"] room(1) dm(1) by auto
  then have cw: "chunk_wf ?sz ?c" using ok by (simp add: chunks_ok_def)
  have d: "drop ?co xs ! j = xs ! (?co + j)" if "length xs = ?sz" for xs :: "'b list" using that co by simp
  have c: "the (f ?c) ! (?co + j) = cell f ?sz ?cs (i + j)" for f :: "raft_log_chunk \<Rightarrow> 'b list option" by (simp add: cell_def dm)
  have m: "(case f ?c of None \<Rightarrow> raft_mask_zero | Some x \<Rightarrow> ((\<lambda>ms. ms ! j) \<circ> drop ?co) x) = mcell f ?sz ?cs (i + j)"
    if "arr_ok ?sz (f ?c)" for f using that co by (auto simp: mcell_def dm arr_ok_def split: option.splits)
  have arr: "length (the (lc_terms ?c)) = ?sz" "length (the (lc_kinds ?c)) = ?sz" "arr_ok ?sz (lc_cfg_old ?c)"
    "arr_ok ?sz (lc_cfg_new ?c)" "arr_ok ?sz (lc_cfg_learners ?c)" using cw al(2) by (auto simp: chunk_wf_def arr_ok_def)
  have q: "map (queue_size ?l) [i..<i + nat cnt] ! j = queue_size ?l (i + j)" using j by simp
  have dat: "take (queue_size ?l (i + j)) (drop (cur + the (lc_data_offsets ?c) ! ?co) (lg_data ?l)) = en_data (log_entries ?l ! (i + j))"
    using entry_bytes[OF wf room(1)] cur by (simp add: cell_def)
  have e: "log_entries ?l ! (i + j) = \<lparr> en_term = cell lc_terms ?sz ?cs (i + j), en_kind = cell lc_kinds ?sz ?cs (i + j),
      en_data = en_data (log_entries ?l ! (i + j)), en_cfg_old = mcell lc_cfg_old ?sz ?cs (i + j),
      en_cfg_new = mcell lc_cfg_new ?sz ?cs (i + j), en_cfg_learners = mcell lc_cfg_learners ?sz ?cs (i + j) \<rparr>"
    unfolding entry_fields[OF room(1)] entry_of_def Let_def by simp
  show ?thesis
    unfolding ae_read_def entries_body_def heartbeat_body_def Let_def i[symmetric] log_ci_div[OF g] log_co_mod[OF g]
    by (subst e) (simp add: d[OF arr(1)] d[OF arr(2)] c[of lc_terms] c[of lc_kinds]
        m[of lc_cfg_old, OF arr(3)] m[of lc_cfg_new, OF arr(4)] m[of lc_cfg_learners, OF arr(5)] q dat)
qed

lemma body_read_all:
  assumes wf: "log_wf (ctx_log r)" and i: "i = nat (pr_next_index pr - lg_last_included_index (ctx_log r) - 1)"
    and cnt: "cnt = int n" "i + n \<le> lg_count (ctx_log r)" "log_co (ctx_log r) i + n \<le> lg_chunk_size (ctx_log r)"
  shows "msg_entries (entries_body r pr cnt) = map ((!) (log_entries (ctx_log r))) [i..<i + n]"
proof -
  let ?o = "cell lc_data_offsets (lg_chunk_size (ctx_log r)) (lg_chunks (ctx_log r))"
  have "msg_read (entries_body r pr cnt) j cur k = map ((!) (log_entries (ctx_log r))) [i + j..<i + n]"
    if "j + k = n" "k > 0 \<Longrightarrow> cur + ?o i = ?o (i + j)" for j cur k
    using that
  proof (induction k arbitrary: j cur)
    case (Suc k)
    have rd: "ae_read (entries_body r pr cnt) j cur = (log_entries (ctx_log r) ! (i + j), cur + queue_size (ctx_log r) (i + j))"
      using Suc.prems cnt by (intro body_read[OF wf i]) auto
    have up: "[i + j..<i + n] = (i + j) # [i + (j + 1)..<i + n]" using Suc.prems(1) by (simp add: upt_conv_Cons)
    have "k > 0 \<Longrightarrow> cur + queue_size (ctx_log r) (i + j) + ?o i = ?o (i + (j + 1))"
      using queue_size_next[OF wf, of "i + j"] Suc.prems cnt(2) by simp
    then show ?case using Suc.IH[of "j + 1"] Suc.prems(1) by (simp add: rd up del: upt_Suc)
  qed simp
  from this[of 0 n 0] show ?thesis using cnt(1) by (simp add: msg_entries_def entries_body_def heartbeat_body_def Let_def)
qed

lemma queued_carries:
  assumes wf: "log_wf (ctx_log r)" and nx: "lg_last_included_index (ctx_log r) < pr_next_index pr" "pr_next_index pr \<le> last_index r + 1"
  shows "carries (fst (append_body r pr offset)) (ctx_log r)"
proof -
  let ?l = "ctx_log r" and ?n = "send_count r pr offset"
  define i where "i = nat (pr_next_index pr - lg_last_included_index ?l - 1)"
  have ii: "pr_next_index pr = lg_last_included_index ?l + 1 + int i" using nx(1) by (simp add: i_def)
  have prev: "has ?l (pr_next_index pr - 1) \<Longrightarrow> en_term (ent ?l (pr_next_index pr - 1)) = raft_log_term_at ?l (pr_next_index pr - 1)"
    using term_at_entries[OF wf] by (simp add: has_def ent_def)
  show ?thesis
  proof (cases "?n > 0")
    case False
    have "msg_entries (heartbeat_body r pr 0) = []" by (simp add: msg_entries_def heartbeat_body_def)
    then show ?thesis using False prev nx by (simp add: append_body_form carries_def) (simp add: heartbeat_body_def)
  next
    case True
    define k where "k = nat ?n"
    have k: "?n = int k" "i + k \<le> lg_count ?l" "log_co ?l i + k \<le> lg_chunk_size ?l"
      using True send_count_bounds[OF True] ii unfolding k_def i_def[symmetric] by (simp_all add: raft_log_last_index_def)
    note me = body_read_all[OF wf i_def k]
    have b: "ae_prev_log_index (entries_body r pr ?n) = pr_next_index pr - 1" "ae_prev_log_term (entries_body r pr ?n) = raft_log_term_at ?l (pr_next_index pr - 1)"
      by (simp_all add: entries_body_def heartbeat_body_def Let_def)
    have "has ?l (pr_next_index pr + int j) \<and> stored_entry (log_entries ?l ! (i + j)) = ent ?l (pr_next_index pr + int j)" if "j < k" for j
    proof -
      have "i + j < lg_count ?l" using that k(2) by simp
      moreover have "pr_next_index pr + int j = lg_last_included_index ?l + 1 + int (i + j)" using ii by simp
      ultimately show ?thesis using has_pos[of ?l "pr_next_index pr + int j"] ent_pos[of "pr_next_index pr + int j" ?l "i + j"] stored_log_entry[OF wf] by auto
    qed
    then show ?thesis using True prev nx(2) me by (simp add: append_body_form carries_def b)
  qed
qed

lemma leader_log_wf: "log_wf leader_log"
proof -
  obtain b s l where e: "raft_log_append [] sample_log 3 RAFT_ENTRY_COMMAND [7] [] [] [] = (b, s, l)" by (metis prod_cases3)
  then show ?thesis using append_law[OF sample_log_wf e] by (simp add: leader_log_def grown_def)
qed

definition leader_node :: raft_ctx where
  "leader_node = (sample_node 2)\<lparr>ctx_log := leader_log, ctx_state := RAFT_LEADER, current_term := 3, commit_index := 5, entry_size_cap := 4\<rparr>"

definition peer_at_5 :: raft_peer where
  "peer_at_5 = peer_zero\<lparr>pr_id := 1, pr_next_index := 5\<rparr>"

lemma leader_node_simps:
  "ctx_log leader_node = leader_log" "pr_next_index peer_at_5 = 5" "lg_last_included_index leader_log = 4"
  "raft_log_last_index leader_log = 5" "log_wf (ctx_log leader_node)" "entry_size_cap leader_node = 4"
  using leader_log_law leader_log_wf by (simp_all add: leader_node_def peer_at_5_def last_index_entries)

text \<open>The messages a leader queues read back as its own log: for a peer whose next index lies in the
  live part of the log, the entries a follower decodes from the arrays, sizes and byte cursor of
  the AppendEntries body are exactly the leader's entries from that index on, as many as the
  chunk and the size buffer allow.\<close>

theorem queued_entries_roundtrip:
  assumes "log_wf (ctx_log r)" "lg_last_included_index (ctx_log r) < pr_next_index pr" "pr_next_index pr \<le> last_index r + 1"
  shows "msg_entries (fst (append_body r pr offset))
    = take (nat (send_count r pr offset)) (drop (nat (pr_next_index pr - lg_last_included_index (ctx_log r) - 1)) (log_entries (ctx_log r)))"
proof (cases "send_count r pr offset > 0")
  case False
  then show ?thesis by (simp add: append_body_form msg_entries_def heartbeat_body_def)
next
  case True
  let ?l = "ctx_log r" and ?n = "send_count r pr offset"
  define i where "i = nat (pr_next_index pr - lg_last_included_index ?l - 1)"
  have ii: "pr_next_index pr = lg_last_included_index ?l + 1 + int i" using assms(2) by (simp add: i_def)
  have k: "?n = int (nat ?n)" "i + nat ?n \<le> lg_count ?l" "log_co ?l i + nat ?n \<le> lg_chunk_size ?l"
    using True send_count_bounds[OF True] ii unfolding i_def[symmetric] by (simp_all add: raft_log_last_index_def)
  have "map ((!) (log_entries ?l)) [i..<i + nat ?n] = take (nat ?n) (drop i (log_entries ?l))"
    using k(2) by (simp add: list_eq_iff_nth_eq)
  then show ?thesis using body_read_all[OF assms(1) i_def k] True by (simp add: append_body_form i_def)
qed

lemma send_one: "send_count leader_node peer_at_5 0 = 1"
proof -
  have "log_co leader_log 0 = 0" by (simp add: log_co_def)
  moreover have "lg_chunk_size leader_log = 2"
  proof -
    obtain b s l where e: "raft_log_append [] sample_log 3 RAFT_ENTRY_COMMAND [7] [] [] [] = (b, s, l)" by (metis prod_cases3)
    then show ?thesis using append_law[OF sample_log_wf e] by (simp add: leader_log_def grown_def sample_log_def)
  qed
  ultimately show ?thesis by (simp add: send_count_def Let_def leader_node_simps)
qed

theorem queued_entries_roundtrip_witness:
  "msg_entries (fst (append_body leader_node peer_at_5 0)) = [mk_entry 3 RAFT_ENTRY_COMMAND [7] [] [] []]"
  using queued_entries_roundtrip[of leader_node peer_at_5 0] leader_node_simps leader_log_law send_one by simp

text \<open>C5. One round of replication is safe end to end: when a follower handles the message the leader
  queued for it, whatever the outcome, its log stays well-formed and keeps matching the leader's,
  loses no entry it shared with the leader, and its commit index grows only over entries that are
  the leader's own and within the leader's commit index.\<close>

theorem replication_round:
  assumes "log_wf (ctx_log ldr)" "log_wf (ctx_log fol)" "0 \<le> lg_last_included_index (ctx_log fol)"
    and "matching (ctx_log fol) (ctx_log ldr)"
    and "lg_last_included_index (ctx_log ldr) < pr_next_index pr" "pr_next_index pr \<le> last_index ldr + 1"
    and "raft_recv_append_entries fol from (fst (append_body ldr pr offset)) = (rc, fol')"
  shows "aligned (ctx_log ldr) (ctx_log fol) (ctx_log fol') \<and> commit_index fol \<le> commit_index fol'
    \<and> (commit_index fol < commit_index fol' \<longrightarrow> commit_index fol' \<le> commit_index ldr \<and> agree_upto (ctx_log fol') (ctx_log ldr) (commit_index fol'))"
proof -
  have "ae_leader_commit (fst (append_body ldr pr offset)) = commit_index ldr"
    by (simp add: append_body_form entries_body_def heartbeat_body_def Let_def)
  then show ?thesis using recv_append_aligned[OF assms(2-4) queued_carries[OF assms(1,5,6)] assms(7)] by auto
qed

theorem replication_round_witness:
  "aligned leader_log sample_log (ctx_log (snd (raft_recv_append_entries follower_node 2 (fst (append_body leader_node peer_at_5 0)))))"
proof -
  obtain rc r' where e: "raft_recv_append_entries follower_node 2 (fst (append_body leader_node peer_at_5 0)) = (rc, r')" by fastforce
  have f: "ctx_log follower_node = sample_log" by (simp add: follower_node_def)
  have "0 \<le> lg_last_included_index sample_log" by (simp add: sample_log_def)
  then show ?thesis
    using replication_round[OF _ _ _ _ _ _ e, unfolded f leader_node_simps(1)] sample_log_wf follower_matching leader_node_simps
    unfolding e snd_conv by simp
qed

end
