(* ===== verification/Server_Codec.thy ===== *)
theory Server_Codec
  imports Kproto Raft_Leader
begin

section \<open>The peer message codec\<close>

text \<open>
  \<^verbatim>\<open>k_peer_encode\<close> and \<^verbatim>\<open>k_peer_decode\<close> of \<^verbatim>\<open>src/code/kserver.h\<close>: how a Raft message becomes the
  payload of a peer frame and comes back. An AppendEntries that does not fit one frame is cut to
  the entries that fit, so the round trip for it is a prefix of its entries; the codec is then
  composed with the leader's queueing and the follower's handler.
\<close>

subsection \<open>Writing\<close>

text \<open>One write to the output buffer, by the type of the value.\<close>

datatype field = FU8 u8 | FU16 u16 | FU32 u32 | FI32 int | FI64 int | FU64 u64 | FBytes bytes

fun put_field :: "script \<times> k_buf \<Rightarrow> field \<Rightarrow> script \<times> k_buf" where
  "put_field (s, b) (FU8 v) = k_buf_u8 s b v"
| "put_field (s, b) (FU16 v) = k_buf_u16 s b v"
| "put_field (s, b) (FU32 v) = k_buf_u32 s b v"
| "put_field (s, b) (FI32 v) = k_buf_i32 s b (word_of_int v)"
| "put_field (s, b) (FI64 v) = k_buf_i64 s b (word_of_int v)"
| "put_field (s, b) (FU64 v) = k_buf_i64 s b v"
| "put_field (s, b) (FBytes d) = k_buf_bytes s b d"

definition put_fields :: "script \<times> k_buf \<Rightarrow> field list \<Rightarrow> script \<times> k_buf" where
  "put_fields = foldl put_field"

definition put_error :: "script \<times> k_buf \<Rightarrow> script \<times> k_buf" where
  "put_error sb = (fst sb, (snd sb)\<lparr>buf_err := True\<rparr>)"

definition k_buf_mask :: "script \<times> k_buf \<Rightarrow> raft_mask \<Rightarrow> script \<times> k_buf" where
  "k_buf_mask sb m =
    (if length m > K_MAX_NODES then put_error sb
     else put_fields sb (FU32 (of_nat (length m)) # map FI32 m))"

definition k_response_payload :: "script \<Rightarrow> u32 \<Rightarrow> u8 \<Rightarrow> int \<Rightarrow> bytes option \<Rightarrow> u16 \<Rightarrow> bytes \<Rightarrow> script \<times> bytes option" where
  "k_response_payload s request_id status leader_id host port body =
    (let h = (case host of None \<Rightarrow> [] | Some h \<Rightarrow> h)
     in if length h > 65535 then (s, None)
        else payload_done (put_fields (s, k_buf_zero)
          [FU32 request_id, FU8 status, FI32 leader_id, FU16 (of_nat (length h)), FBytes h, FU16 port,
           FU32 (of_nat (length body)), FBytes body]))"

text \<open>The accessors of an AppendEntries body: a missing array stands for its default.\<close>

definition entry_mask :: "raft_mask list option \<Rightarrow> nat \<Rightarrow> raft_mask" where
  "entry_mask ms i = (case ms of None \<Rightarrow> [] | Some ms \<Rightarrow> ms ! i)"

definition entry_size :: "raft_append_entries \<Rightarrow> nat \<Rightarrow> nat" where
  "entry_size q i = (case ae_entry_data_sizes q of None \<Rightarrow> 0 | Some szs \<Rightarrow> szs ! i)"

definition entry_kind :: "raft_append_entries \<Rightarrow> nat \<Rightarrow> u8" where
  "entry_kind q i = (case ae_entry_kinds q of None \<Rightarrow> RAFT_ENTRY_COMMAND | Some ks \<Rightarrow> ks ! i)"

text \<open>The header loop; the result is the number of entries encoded.\<close>

fun encode_entries :: "raft_append_entries \<Rightarrow> nat \<Rightarrow> nat \<Rightarrow> nat \<Rightarrow> script \<times> k_buf \<Rightarrow> nat \<times> script \<times> k_buf" where
  "encode_entries q i 0 data_size sb = (i, sb)"
| "encode_entries q i (Suc n) data_size sb =
    (let om = entry_mask (ae_entry_cfg_old q) i; nm = entry_mask (ae_entry_cfg_new q) i;
         lm = entry_mask (ae_entry_cfg_learners q) i; sz = entry_size q i;
         wire_size = 13 + (12 + 4 * (length om + length nm + length lm))
     in if length om > K_MAX_NODES \<or> length nm > K_MAX_NODES \<or> length lm > K_MAX_NODES then (i, put_error sb)
        else if length (buf_data (snd sb)) + wire_size + data_size + sz > K_FRAME_MAX then (i, sb)
        else encode_entries q (i + 1) n (data_size + sz)
          (k_buf_mask (k_buf_mask (k_buf_mask
             (put_fields sb [FI64 (the (ae_entry_terms q) ! i), FU8 (entry_kind q i), FU32 (of_nat sz)]) om) nm) lm))"

text \<open>The data loop, with a cursor into the message's entry data.\<close>

fun encode_data :: "raft_append_entries \<Rightarrow> nat \<Rightarrow> nat \<Rightarrow> nat \<Rightarrow> script \<times> k_buf \<Rightarrow> script \<times> k_buf" where
  "encode_data q i 0 cur sb = sb"
| "encode_data q i (Suc n) cur sb =
    (let sz = entry_size q i
     in case ae_entry_data q of
          None \<Rightarrow> if sz > 0 then put_error sb else encode_data q (i + 1) n cur (put_field sb (FBytes []))
        | Some d \<Rightarrow> encode_data q (i + 1) n (cur + sz) (put_field sb (FBytes (take sz (drop cur d)))))"

text \<open>Storing the entry count over the placeholder written before the loop.\<close>

definition patch_u32 :: "nat \<Rightarrow> u32 \<Rightarrow> script \<times> k_buf \<Rightarrow> script \<times> k_buf" where
  "patch_u32 off v sb = (let d = buf_data (snd sb)
     in (fst sb, (snd sb)\<lparr>buf_data := take off d @ k_write_u32 v @ drop (off + 4) d\<rparr>))"

definition encode_append :: "script \<times> k_buf \<Rightarrow> raft_append_entries \<Rightarrow> script \<times> k_buf" where
  "encode_append sb q =
    (let count = ae_entry_count q
     in if count < 0 \<or> count > 65536 \<or> count \<noteq> 0 \<and> ae_entry_terms q = None then put_error sb
        else
          let sb = put_fields sb [FI64 (ae_term q), FI64 (ae_prev_log_index q), FI64 (ae_prev_log_term q),
                     FI64 (ae_leader_commit q), FI32 (ae_leader_id q), FU64 (ae_read_context q)];
              count_offset = length (buf_data (snd sb));
              sb = put_field sb (FU32 0);
              (encoded, sb) = encode_entries q 0 (nat count) 0 sb;
              sb = (if count > 0 \<and> encoded = 0 then put_error sb else sb);
              sb = (if buf_err (snd sb) then sb else patch_u32 count_offset (of_nat encoded) sb)
          in encode_data q 0 encoded 0 sb)"

definition encode_snapshot :: "script \<times> k_buf \<Rightarrow> raft_install_snapshot \<Rightarrow> script \<times> k_buf" where
  "encode_snapshot sb q =
    (let sb = put_fields sb [FI64 (is_term q), FI64 (is_snapshot_last_index q), FI64 (is_snapshot_last_term q),
                FI64 (is_snapshot_offset q), FI64 (is_snapshot_data_size q), FI64 (is_snapshot_chunk_size q)];
         sb = k_buf_mask (k_buf_mask (k_buf_mask sb (is_snapshot_cfg_old q)) (is_snapshot_cfg_new q)) (is_snapshot_cfg_learners q);
         sb = put_fields sb [FU8 (of_bool (is_snapshot_done q)), FI32 (is_leader_id q)]
     in if is_snapshot_chunk_size q < 0 \<or> is_snapshot_chunk_size q > int K_FRAME_MAX then put_error sb
        else put_field sb (FBytes (take (nat (is_snapshot_chunk_size q)) (is_snapshot_data q))))"

fun msg_type :: "raft_msg_body \<Rightarrow> int" where
  "msg_type (RAFT_MSG_REQUEST_VOTE _) = 1"
| "msg_type (RAFT_MSG_REQUEST_VOTE_RESULT _) = 2"
| "msg_type (RAFT_MSG_APPEND _) = 3"
| "msg_type (RAFT_MSG_APPEND_RESULT _) = 4"
| "msg_type (RAFT_MSG_INSTALL_SNAPSHOT _) = 5"
| "msg_type (RAFT_MSG_INSTALL_SNAPSHOT_RESULT _) = 6"
| "msg_type (RAFT_MSG_READ_INDEX _) = 7"
| "msg_type (RAFT_MSG_READ_INDEX_RESULT _) = 8"
| "msg_type (RAFT_MSG_TIMEOUT_NOW _) = 9"
| "msg_type (RAFT_MSG_OTHER t) = t"

fun encode_body :: "script \<times> k_buf \<Rightarrow> raft_msg_body \<Rightarrow> script \<times> k_buf" where
  "encode_body sb (RAFT_MSG_REQUEST_VOTE q) =
    put_fields sb [FI64 (rv_term q), FI64 (rv_last_log_index q), FI64 (rv_last_log_term q), FI32 (rv_candidate_id q),
      FU8 (of_bool (rv_pre_vote q))]"
| "encode_body sb (RAFT_MSG_REQUEST_VOTE_RESULT q) =
    put_fields sb [FI64 (rvr_term q), FU8 (of_bool (rvr_vote_granted q)), FU8 (of_bool (rvr_pre_vote q))]"
| "encode_body sb (RAFT_MSG_APPEND q) = encode_append sb q"
| "encode_body sb (RAFT_MSG_APPEND_RESULT q) =
    put_fields sb [FI64 (aer_term q), FI64 (aer_rejected q), FI64 (aer_last_log_index q), FI64 (aer_conflict_term q),
      FI64 (aer_conflict_first_index q), FU64 (aer_read_context q), FU8 (of_bool (aer_success q))]"
| "encode_body sb (RAFT_MSG_INSTALL_SNAPSHOT q) = encode_snapshot sb q"
| "encode_body sb (RAFT_MSG_INSTALL_SNAPSHOT_RESULT q) = put_fields sb [FI64 (isr_term q), FI64 (isr_last_included_index q)]"
| "encode_body sb (RAFT_MSG_READ_INDEX q) = put_fields sb [FI64 (ri_term q), FU64 (ri_context q)]"
| "encode_body sb (RAFT_MSG_READ_INDEX_RESULT q) = put_fields sb [FI64 (rir_term q), FI64 (rir_read_index q), FU64 (rir_context q)]"
| "encode_body sb (RAFT_MSG_TIMEOUT_NOW q) =
    put_fields sb [FI64 (tn_term q), FI64 (tn_last_log_index q), FI64 (tn_last_log_term q), FI32 (tn_leader_id q)]"
| "encode_body sb (RAFT_MSG_OTHER _) = put_error sb"

definition k_peer_encode :: "script \<Rightarrow> raft_peer_message \<Rightarrow> script \<times> bytes option" where
  "k_peer_encode s m =
     payload_done (encode_body (put_fields (s, k_buf_zero)
       [FU8 (word_of_int (msg_type (pm_body m))), FI32 (pm_from m), FI32 (pm_to m), FI64 (pm_term m)]) (pm_body m))"

subsection \<open>Reading\<close>

fun read_ids :: "nat \<Rightarrow> k_reader \<Rightarrow> int list \<times> k_reader" where
  "read_ids 0 r = ([], r)"
| "read_ids (Suc n) r = (let (v, r) = k_reader_i32 r; (vs, r) = read_ids n r in (sint v # vs, r))"

definition k_reader_mask :: "script \<Rightarrow> k_reader \<Rightarrow> script \<times> raft_mask option \<times> k_reader" where
  "k_reader_mask s r =
    (let (count, r) = k_reader_u32 r
     in if rd_err r \<or> unat count > K_MAX_NODES then (s, None, r)
        else if count = 0 then (s, Some [], r)
        else let (ok, s) = alloc s
             in if \<not> ok then (s, None, r)
                else let (ids, r) = read_ids (unat count) r in if rd_err r then (s, None, r) else (s, Some ids, r))"

text \<open>Three masks in a row; the first that fails stops the reading.\<close>

definition read_masks :: "script \<Rightarrow> k_reader \<Rightarrow> script \<times> (raft_mask \<times> raft_mask \<times> raft_mask) option \<times> k_reader" where
  "read_masks s r =
    (case k_reader_mask s r of
       (s, None, r) \<Rightarrow> (s, None, r)
     | (s, Some om, r) \<Rightarrow>
         (case k_reader_mask s r of
            (s, None, r) \<Rightarrow> (s, None, r)
          | (s, Some nm, r) \<Rightarrow>
              (case k_reader_mask s r of
                 (s, None, r) \<Rightarrow> (s, None, r)
               | (s, Some lm, r) \<Rightarrow> (s, Some (om, nm, lm), r))))"

record wire_entry =
  we_term :: int
  we_kind :: u8
  we_size :: nat
  we_cfg_old :: raft_mask
  we_cfg_new :: raft_mask
  we_cfg_learners :: raft_mask

text \<open>The decoder's header loop, with the running total of entry data.\<close>

fun decode_entries :: "script \<Rightarrow> nat \<Rightarrow> nat \<Rightarrow> k_reader \<Rightarrow> script \<times> (wire_entry list \<times> nat) option \<times> k_reader" where
  "decode_entries s 0 tot r = (s, Some ([], tot), r)"
| "decode_entries s (Suc n) tot r =
    (let (t, r) = k_reader_i64 r; (k, r) = k_reader_u8 r; (sz, r) = k_reader_u32 r
     in if unat sz > usub32 K_FRAME_MAX tot then (s, None, r)
        else case read_masks s r of
            (s, None, r) \<Rightarrow> (s, None, r)
          | (s, Some (om, nm, lm), r) \<Rightarrow>
              (case decode_entries s n (tot + unat sz) r of
                 (s, None, r) \<Rightarrow> (s, None, r)
               | (s, Some (es, tot), r) \<Rightarrow>
                   (s, Some (\<lparr> we_term = sint t, we_kind = k, we_size = unat sz, we_cfg_old = om, we_cfg_new = nm,
                               we_cfg_learners = lm \<rparr> # es, tot), r)))"

fun allocs :: "nat \<Rightarrow> script \<Rightarrow> bool \<times> script" where
  "allocs 0 s = (True, s)"
| "allocs (Suc n) s = (let (a, s) = alloc s; (b, s) = allocs n s in (a \<and> b, s))"

definition decode_append :: "script \<Rightarrow> k_reader \<Rightarrow> script \<times> raft_msg_body option \<times> k_reader" where
  "decode_append s r =
    (let (t, r) = k_reader_i64 r; (pi, r) = k_reader_i64 r; (pt, r) = k_reader_i64 r; (lc, r) = k_reader_i64 r;
         (lid, r) = k_reader_i32 r; (rcx, r) = k_reader_i64 r; (count, r) = k_reader_u32 r
     in if rd_err r \<or> unat count > 65536 then (s, None, r)
        else
          let (ok, s) = (if count \<noteq> 0 then allocs 6 s else (True, s))
          in if \<not> ok then (s, None, r)
             else case decode_entries s (unat count) 0 r of
                 (s, None, r) \<Rightarrow> (s, None, r)
               | (s, Some (es, tot), r) \<Rightarrow>
                   if rd_err r \<or> tot \<noteq> usub32 (length (rd_data r)) (rd_off r) then (s, None, r)
                   else
                     let (d, r) = k_reader_bytes r tot
                     in (s, Some (RAFT_MSG_APPEND
                          \<lparr> ae_term = sint t, ae_prev_log_index = sint pi, ae_prev_log_term = sint pt, ae_leader_commit = sint lc,
                            ae_read_context = rcx, ae_entry_terms = (if count = 0 then None else Some (map we_term es)),
                            ae_entry_kinds = (if count = 0 then None else Some (map we_kind es)), ae_entry_data = d,
                            ae_entry_data_sizes = (if count = 0 then None else Some (map we_size es)),
                            ae_entry_cfg_old = (if count = 0 then None else Some (map we_cfg_old es)),
                            ae_entry_cfg_new = (if count = 0 then None else Some (map we_cfg_new es)),
                            ae_entry_cfg_learners = (if count = 0 then None else Some (map we_cfg_learners es)),
                            ae_leader_id = sint lid, ae_entry_count = int (unat count) \<rparr>), r))"

definition decode_snapshot :: "script \<Rightarrow> k_reader \<Rightarrow> script \<times> raft_msg_body option \<times> k_reader" where
  "decode_snapshot s r =
    (let (t, r) = k_reader_i64 r; (li, r) = k_reader_i64 r; (lt, r) = k_reader_i64 r; (off, r) = k_reader_i64 r;
         (ds, r) = k_reader_i64 r; (cs, r) = k_reader_i64 r
     in case read_masks s r of
          (s, None, r) \<Rightarrow> (s, None, r)
        | (s, Some (om, nm, lm), r) \<Rightarrow>
            let (dn, r) = k_reader_u8 r; (lid, r) = k_reader_i32 r
            in if sint cs < 0 \<or> sint cs > int (usub32 (length (rd_data r)) (rd_off r)) then (s, None, r)
               else let (d, r) = k_reader_bytes r (nat (sint cs))
                    in (s, Some (RAFT_MSG_INSTALL_SNAPSHOT
                         \<lparr> is_term = sint t, is_snapshot_last_index = sint li, is_snapshot_last_term = sint lt,
                           is_snapshot_offset = sint off, is_snapshot_data_size = sint ds, is_snapshot_chunk_size = sint cs,
                           is_snapshot_cfg_old = om, is_snapshot_cfg_new = nm, is_snapshot_cfg_learners = lm,
                           is_snapshot_data = (case d of None \<Rightarrow> [] | Some d \<Rightarrow> d), is_snapshot_done = (dn \<noteq> 0), is_leader_id = sint lid \<rparr>), r))"

definition decode_body :: "script \<Rightarrow> u8 \<Rightarrow> k_reader \<Rightarrow> script \<times> raft_msg_body option \<times> k_reader" where
  "decode_body s ty r =
    (if ty = 1 then
       let (t, r) = k_reader_i64 r; (i, r) = k_reader_i64 r; (lt, r) = k_reader_i64 r; (c, r) = k_reader_i32 r; (p, r) = k_reader_u8 r
       in (s, Some (RAFT_MSG_REQUEST_VOTE \<lparr> rv_term = sint t, rv_last_log_index = sint i, rv_last_log_term = sint lt,
              rv_candidate_id = sint c, rv_pre_vote = (p \<noteq> 0) \<rparr>), r)
     else if ty = 2 then
       let (t, r) = k_reader_i64 r; (g, r) = k_reader_u8 r; (p, r) = k_reader_u8 r
       in (s, Some (RAFT_MSG_REQUEST_VOTE_RESULT \<lparr> rvr_term = sint t, rvr_vote_granted = (g \<noteq> 0), rvr_pre_vote = (p \<noteq> 0) \<rparr>), r)
     else if ty = 3 then decode_append s r
     else if ty = 4 then
       let (t, r) = k_reader_i64 r; (rj, r) = k_reader_i64 r; (li, r) = k_reader_i64 r; (ct, r) = k_reader_i64 r;
           (cf, r) = k_reader_i64 r; (rcx, r) = k_reader_i64 r; (su, r) = k_reader_u8 r
       in (s, Some (RAFT_MSG_APPEND_RESULT \<lparr> aer_term = sint t, aer_rejected = sint rj, aer_last_log_index = sint li,
              aer_conflict_term = sint ct, aer_conflict_first_index = sint cf, aer_read_context = rcx, aer_success = (su \<noteq> 0) \<rparr>), r)
     else if ty = 5 then decode_snapshot s r
     else if ty = 6 then
       let (t, r) = k_reader_i64 r; (li, r) = k_reader_i64 r
       in (s, Some (RAFT_MSG_INSTALL_SNAPSHOT_RESULT \<lparr> isr_term = sint t, isr_last_included_index = sint li \<rparr>), r)
     else if ty = 7 then
       let (t, r) = k_reader_i64 r; (c, r) = k_reader_i64 r
       in (s, Some (RAFT_MSG_READ_INDEX \<lparr> ri_term = sint t, ri_context = c \<rparr>), r)
     else if ty = 8 then
       let (t, r) = k_reader_i64 r; (i, r) = k_reader_i64 r; (c, r) = k_reader_i64 r
       in (s, Some (RAFT_MSG_READ_INDEX_RESULT \<lparr> rir_term = sint t, rir_read_index = sint i, rir_context = c \<rparr>), r)
     else if ty = 9 then
       let (t, r) = k_reader_i64 r; (i, r) = k_reader_i64 r; (lt, r) = k_reader_i64 r; (l, r) = k_reader_i32 r
       in (s, Some (RAFT_MSG_TIMEOUT_NOW \<lparr> tn_term = sint t, tn_last_log_index = sint i, tn_last_log_term = sint lt, tn_leader_id = sint l \<rparr>), r)
     else (s, None, r))"

definition k_peer_decode :: "script \<Rightarrow> bytes \<Rightarrow> script \<times> raft_peer_message option" where
  "k_peer_decode s data =
    (let r = k_reader_init data; (ty, r) = k_reader_u8 r; (f, r) = k_reader_i32 r; (t, r) = k_reader_i32 r; (tm, r) = k_reader_i64 r
     in case decode_body s ty r of
          (s, None, r) \<Rightarrow> (s, None)
        | (s, Some b, r) \<Rightarrow>
            if rd_err r \<or> rd_off r \<noteq> length (rd_data r) \<or> sint f \<le> 0 \<or> sint t \<le> 0 then (s, None)
            else (s, Some \<lparr> pm_from = sint f, pm_to = sint t, pm_term = sint tm, pm_body = b \<rparr>))"

section \<open>Laws of the codec\<close>

subsection \<open>Writing appends the wire form\<close>

fun wire :: "field \<Rightarrow> bytes" where
  "wire (FU8 v) = k_write_u8 v"
| "wire (FU16 v) = k_write_u16 v"
| "wire (FU32 v) = k_write_u32 v"
| "wire (FI32 v) = k_write_i32 (word_of_int v)"
| "wire (FI64 v) = k_write_i64 (word_of_int v)"
| "wire (FU64 v) = k_write_i64 v"
| "wire (FBytes d) = d"

text \<open>A step of the encoder either sets the sticky error or appends bytes.\<close>

definition appends :: "script \<times> k_buf \<Rightarrow> bytes \<Rightarrow> script \<times> k_buf \<Rightarrow> bool" where
  "appends sb d sb' \<longleftrightarrow> (buf_wf (snd sb) \<longrightarrow> buf_wf (snd sb') \<and> (buf_err (snd sb) \<longrightarrow> buf_err (snd sb'))
     \<and> (\<not> buf_err (snd sb') \<longrightarrow> buf_data (snd sb') = buf_data (snd sb) @ d))"

lemma appends_refl: "appends sb [] sb"
  by (simp add: appends_def)

lemma appends_trans: "appends a d b \<Longrightarrow> appends b e c \<Longrightarrow> appends a (d @ e) c"
  by (auto simp: appends_def)

lemma appends_error: "appends sb d (put_error sb)"
  by (simp add: appends_def put_error_def buf_wf_def)

lemma put_error_err [simp]: "buf_err (snd (put_error sb))"
  by (simp add: put_error_def)

lemma appends_field: "appends sb (wire f) (put_field sb f)"
proof -
  obtain s b where sb: "sb = (s, b)" by fastforce
  have "put_field sb f = k_buf_put s b (wire f)"
    unfolding sb by (cases f) (simp_all add: k_buf_u8_def k_buf_u16_def k_buf_u32_def k_buf_i32_def k_buf_i64_def k_buf_bytes_put)
  then show ?thesis using buf_put_spec[of b s "wire f"] unfolding sb appends_def by (metis snd_conv surj_pair)
qed

lemma appends_fields: "appends sb (concat (map wire fs)) (put_fields sb fs)"
  unfolding put_fields_def
proof (induction fs arbitrary: sb)
  case (Cons f fs)
  then show ?case using appends_trans[OF appends_field] by simp
qed (simp add: appends_refl)

definition mask_wire :: "raft_mask \<Rightarrow> bytes" where
  "mask_wire m = k_write_u32 (of_nat (length m)) @ concat (map (\<lambda>i. k_write_i32 (word_of_int i)) m)"

lemma appends_mask: "appends sb (mask_wire m) (k_buf_mask sb m)"
proof (cases "length m > K_MAX_NODES")
  case True
  then show ?thesis by (simp add: k_buf_mask_def appends_error)
next
  case False
  have "concat (map wire (FU32 (of_nat (length m)) # map FI32 m)) = mask_wire m" by (simp add: mask_wire_def comp_def)
  then show ?thesis using False appends_fields[of sb "FU32 (of_nat (length m)) # map FI32 m"] unfolding k_buf_mask_def by simp
qed

subsection \<open>Reading takes the wire form off\<close>

text \<open>A reader that has consumed \<open>pre\<close> and has \<open>bs\<close> ahead.\<close>

definition rdr :: "bytes \<Rightarrow> bytes \<Rightarrow> k_reader" where
  "rdr pre bs = \<lparr>rd_data = pre @ bs, rd_off = length pre, rd_err = False\<rparr>"

lemma rdr_init: "k_reader_init bs = rdr [] bs"
  by (simp add: rdr_def k_reader_init_def)

lemma rdr_simps [simp]:
  "\<not> rd_err (rdr pre bs)" "rd_off (rdr pre bs) = length pre" "length (rd_data (rdr pre bs)) = length pre + length bs"
  by (simp_all add: rdr_def)

context byte_codec
begin

lemma rdr_get: "k_reader_get (rdr pre (enc v @ rest)) width dec = (v, rdr (pre @ enc v) rest)"
  using reader_get[of "rdr pre (enc v @ rest)" v rest] by (simp add: rdr_def length_enc)

end

lemma rdr_last:
  "k_reader_u8 (rdr pre (k_write_u8 a)) = (a, rdr (pre @ k_write_u8 a) [])"
  "k_reader_i32 (rdr pre (k_write_i32 b)) = (b, rdr (pre @ k_write_i32 b) [])"
  "k_reader_i64 (rdr pre (k_write_i64 c)) = (c, rdr (pre @ k_write_i64 c) [])"
  using u8c.rdr_get[of pre a "[]"] i32c.rdr_get[of pre b "[]"] i64c.rdr_get[of pre c "[]"]
  by (simp_all add: k_reader_u8_def k_reader_i32_def k_reader_i64_def)

lemmas rdr_reads [simp] = u8c.rdr_get[folded k_reader_u8_def] u16c.rdr_get[folded k_reader_u16_def] u32c.rdr_get[folded k_reader_u32_def]
  i32c.rdr_get[folded k_reader_i32_def] i64c.rdr_get[folded k_reader_i64_def] rdr_last

lemma rdr_bytes [simp]: "n = length d \<Longrightarrow> k_reader_bytes (rdr pre (d @ rest)) n = (Some d, rdr (pre @ d) rest)"
  using reader_bytes_take[of "rdr pre (d @ rest)" d rest] by (simp add: rdr_def)

lemma rdr_bytes_all [simp]: "n = length d \<Longrightarrow> k_reader_bytes (rdr pre d) n = (Some d, rdr (pre @ d) [])"
  using rdr_bytes[of n d pre "[]"] by simp

text \<open>Values that fit the width of their field.\<close>

definition fits32 :: "int \<Rightarrow> bool" where
  "fits32 v \<longleftrightarrow> - 2147483648 \<le> v \<and> v < 2147483648"

definition fits64 :: "int \<Rightarrow> bool" where
  "fits64 v \<longleftrightarrow> - 9223372036854775808 \<le> v \<and> v < 9223372036854775808"

lemma sint_fits [simp]:
  "fits32 v \<Longrightarrow> sint (word_of_int v :: u32) = v" "fits64 v \<Longrightarrow> sint (word_of_int v :: u64) = v"
  by (simp_all add: fits32_def fits64_def sint_sbintrunc' signed_take_bit_int_eq_self)

lemma rdr_ids:
  "list_all fits32 m \<Longrightarrow> read_ids (length m) (rdr pre (concat (map (\<lambda>i. k_write_i32 (word_of_int i)) m) @ rest))
     = (m, rdr (pre @ concat (map (\<lambda>i. k_write_i32 (word_of_int i)) m)) rest)"
  by (induction m arbitrary: pre) simp_all

definition mask_ok :: "raft_mask \<Rightarrow> bool" where
  "mask_ok m \<longleftrightarrow> length m \<le> K_MAX_NODES \<and> list_all fits32 m"

lemma unat_small: "n < 2 ^ 32 \<Longrightarrow> unat (of_nat n :: u32) = n"
  by (simp add: unat_of_nat)

lemma rdr_mask [simp]:
  assumes "mask_ok m"
  shows "k_reader_mask [] (rdr pre (mask_wire m @ rest)) = ([], Some m, rdr (pre @ mask_wire m) rest)"
proof -
  have u: "unat (of_nat (length m) :: u32) = length m" using assms by (simp add: mask_ok_def unat_small)
  then have z: "(of_nat (length m) :: u32) = 0 \<longleftrightarrow> m = []" by (metis length_0_conv unat_0 unat_eq_zero)
  show ?thesis using assms rdr_ids[of m "pre @ k_write_u32 (of_nat (length m))" rest]
    by (auto simp: k_reader_mask_def mask_wire_def u z mask_ok_def)
qed

lemma rdr_masks [simp]:
  assumes "mask_ok om" "mask_ok nm" "mask_ok lm"
  shows "read_masks [] (rdr pre (mask_wire om @ mask_wire nm @ mask_wire lm @ rest))
    = ([], Some (om, nm, lm), rdr (pre @ mask_wire om @ mask_wire nm @ mask_wire lm) rest)"
  using assms by (simp add: read_masks_def)

subsection \<open>The entries of an AppendEntries on the wire\<close>

definition entry_wire :: "raft_append_entries \<Rightarrow> nat \<Rightarrow> bytes" where
  "entry_wire q i = k_write_i64 (word_of_int (the (ae_entry_terms q) ! i)) @ k_write_u8 (entry_kind q i)
     @ k_write_u32 (of_nat (entry_size q i)) @ mask_wire (entry_mask (ae_entry_cfg_old q) i)
     @ mask_wire (entry_mask (ae_entry_cfg_new q) i) @ mask_wire (entry_mask (ae_entry_cfg_learners q) i)"

definition read_entry :: "raft_append_entries \<Rightarrow> nat \<Rightarrow> wire_entry" where
  "read_entry q i = \<lparr> we_term = the (ae_entry_terms q) ! i, we_kind = entry_kind q i, we_size = entry_size q i,
     we_cfg_old = entry_mask (ae_entry_cfg_old q) i, we_cfg_new = entry_mask (ae_entry_cfg_new q) i,
     we_cfg_learners = entry_mask (ae_entry_cfg_learners q) i \<rparr>"

definition entry_fits :: "raft_append_entries \<Rightarrow> nat \<Rightarrow> bool" where
  "entry_fits q i \<longleftrightarrow> fits64 (the (ae_entry_terms q) ! i) \<and> list_all fits32 (entry_mask (ae_entry_cfg_old q) i)
     \<and> list_all fits32 (entry_mask (ae_entry_cfg_new q) i) \<and> list_all fits32 (entry_mask (ae_entry_cfg_learners q) i)"

definition masks_short :: "raft_append_entries \<Rightarrow> nat \<Rightarrow> bool" where
  "masks_short q i \<longleftrightarrow> length (entry_mask (ae_entry_cfg_old q) i) \<le> K_MAX_NODES
     \<and> length (entry_mask (ae_entry_cfg_new q) i) \<le> K_MAX_NODES \<and> length (entry_mask (ae_entry_cfg_learners q) i) \<le> K_MAX_NODES"

definition sizes_sum :: "raft_append_entries \<Rightarrow> nat \<Rightarrow> nat \<Rightarrow> nat" where
  "sizes_sum q i j = sum_list (map (entry_size q) [i..<j])"

lemma sizes_sum_none [simp]: "sizes_sum q i i = 0"
  by (simp add: sizes_sum_def)

lemma sizes_sum_step: "i < j \<Longrightarrow> sizes_sum q i j = entry_size q i + sizes_sum q (i + 1) j"
  by (simp add: sizes_sum_def upt_conv_Cons)

text \<open>What the header loop wrote: the entries \<open>i\<close> up to the one that did not fit.\<close>

lemma encode_entries_law:
  "encode_entries q i n ds sb = (j, sb') \<Longrightarrow> i \<le> j \<and> j \<le> i + n \<and> appends sb (concat (map (entry_wire q) [i..<j])) sb'
     \<and> (\<not> buf_err (snd sb') \<longrightarrow> (\<forall>k\<in>{i..<j}. masks_short q k)) \<and> (i < j \<longrightarrow> ds + sizes_sum q i j \<le> K_FRAME_MAX)"
proof (induction n arbitrary: i ds sb)
  case 0
  then show ?case by (simp add: appends_refl)
next
  case (Suc n)
  let ?om = "entry_mask (ae_entry_cfg_old q) i" and ?nm = "entry_mask (ae_entry_cfg_new q) i" and ?lm = "entry_mask (ae_entry_cfg_learners q) i"
  define sb1 where "sb1 = k_buf_mask (k_buf_mask (k_buf_mask (put_fields sb [FI64 (the (ae_entry_terms q) ! i),
      FU8 (entry_kind q i), FU32 (of_nat (entry_size q i))]) ?om) ?nm) ?lm"
  have w: "appends sb (entry_wire q i) sb1"
    unfolding sb1_def entry_wire_def using appends_trans[OF appends_trans[OF appends_trans[OF appends_fields appends_mask] appends_mask] appends_mask,
      of sb "[FI64 (the (ae_entry_terms q) ! i), FU8 (entry_kind q i), FU32 (of_nat (entry_size q i))]" ?om ?nm ?lm] by simp
  define over where "over \<longleftrightarrow> length (buf_data (snd sb)) + (13 + (12 + 4 * (length ?om + length ?nm + length ?lm))) + ds + entry_size q i > K_FRAME_MAX"
  have ms: "(length ?om > K_MAX_NODES \<or> length ?nm > K_MAX_NODES \<or> length ?lm > K_MAX_NODES) \<longleftrightarrow> \<not> masks_short q i"
    unfolding masks_short_def by linarith
  have step: "encode_entries q i (Suc n) ds sb = (if \<not> masks_short q i then (i, put_error sb) else if over then (i, sb)
      else encode_entries q (i + 1) n (ds + entry_size q i) sb1)"
    unfolding encode_entries.simps Let_def ms over_def[symmetric] sb1_def[symmetric] ..
  have ov: "\<not> over \<Longrightarrow> ds + entry_size q i \<le> K_FRAME_MAX" unfolding over_def by linarith
  consider (bad) "\<not> masks_short q i" "(j, sb') = (i, put_error sb)" | (full) "masks_short q i" "(j, sb') = (i, sb)"
    | (go) "masks_short q i" "encode_entries q (i + 1) n (ds + entry_size q i) sb1 = (j, sb')" "ds + entry_size q i \<le> K_FRAME_MAX"
    using Suc.prems unfolding step using ov by (metis (full_types))
  then show ?case
  proof cases
    case bad
    then show ?thesis using appends_error[of sb "[]"] by (simp add: put_error_def)
  next
    case full
    then show ?thesis using appends_refl[of sb] by simp
  next
    case go
    note ih = Suc.IH[OF go(2)]
    have ij: "i < j" using ih by simp
    have up: "[i..<j] = i # [i + 1..<j]" using ij by (simp add: upt_conv_Cons)
    have "ds + sizes_sum q i j \<le> K_FRAME_MAX"
    proof (cases "i + 1 < j")
      case True
      then show ?thesis using ih sizes_sum_step[OF ij] by simp
    next
      case False
      then have "j = i + 1" using ij by simp
      then show ?thesis using go(3) by (simp add: sizes_sum_def)
    qed
    moreover have "\<forall>k\<in>{i..<j}. masks_short q k" if "\<not> buf_err (snd sb')"
      using that ih go(1) by (metis Suc_eq_plus1 Suc_leI atLeastLessThan_iff le_neq_implies_less)
    ultimately show ?thesis using ih ij appends_trans[OF w] up by simp
  qed
qed

lemma decode_entries_law:
  assumes "\<forall>k\<in>{i..<j}. entry_fits q k \<and> masks_short q k" "i \<le> j" "tot + sizes_sum q i j \<le> K_FRAME_MAX"
  shows "decode_entries [] (j - i) tot (rdr pre (concat (map (entry_wire q) [i..<j]) @ rest))
    = ([], Some (map (read_entry q) [i..<j], tot + sizes_sum q i j), rdr (pre @ concat (map (entry_wire q) [i..<j])) rest)"
  using assms
proof (induction "j - i" arbitrary: i tot pre)
  case 0
  then show ?case by (simp add: sizes_sum_def)
next
  case (Suc n)
  have ij: "i < j" using Suc.hyps(2) by simp
  note st = sizes_sum_step[OF ij, of q]
  have up: "[i..<j] = i # [i + 1..<j]" using ij by (simp add: upt_conv_Cons)
  have ok: "entry_fits q i" "masks_short q i" using Suc.prems(1) ij by auto
  then have m: "mask_ok (entry_mask (ae_entry_cfg_old q) i)" "mask_ok (entry_mask (ae_entry_cfg_new q) i)" "mask_ok (entry_mask (ae_entry_cfg_learners q) i)"
    "fits64 (the (ae_entry_terms q) ! i)" by (simp_all add: entry_fits_def masks_short_def mask_ok_def)
  have sz: "unat (of_nat (entry_size q i) :: u32) = entry_size q i" using Suc.prems(3) st by (simp add: unat_small)
  have "j - (i + 1) = n" using Suc.hyps(2) by simp
  then have ih: "decode_entries [] n (tot + entry_size q i) (rdr (pre @ entry_wire q i) (concat (map (entry_wire q) [i + 1..<j]) @ rest))
    = ([], Some (map (read_entry q) [i + 1..<j], tot + entry_size q i + sizes_sum q (i + 1) j),
         rdr ((pre @ entry_wire q i) @ concat (map (entry_wire q) [i + 1..<j])) rest)"
    using Suc.hyps(1)[of "i + 1" "tot + entry_size q i" "pre @ entry_wire q i"] Suc.prems ij st by simp
  have n: "j - i = Suc n" using Suc.hyps(2) by simp
  have room: "entry_size q i \<le> usub32 K_FRAME_MAX tot" using Suc.prems(3) st by simp
  show ?case unfolding n up decode_entries.simps
    using ih m sz st room by (simp add: entry_wire_def read_entry_def)
qed

text \<open>The entry data, as one block.\<close>

definition entry_block :: "raft_append_entries \<Rightarrow> bytes" where
  "entry_block q = (case ae_entry_data q of None \<Rightarrow> [] | Some d \<Rightarrow> d)"

lemma encode_data_law:
  "appends sb (take (sizes_sum q i (i + n)) (drop cur (entry_block q))) (encode_data q i n cur sb)
   \<and> (ae_entry_data q = None \<longrightarrow> buf_err (snd (encode_data q i n cur sb)) \<or> sizes_sum q i (i + n) = 0)"
proof (induction n arbitrary: i cur sb)
  case 0
  then show ?case by (simp add: sizes_sum_def appends_refl)
next
  case (Suc n)
  have st: "sizes_sum q i (i + Suc n) = entry_size q i + sizes_sum q (i + 1) (i + 1 + n)" using sizes_sum_step[of i "i + Suc n" q] by simp
  show ?case
  proof (cases "ae_entry_data q")
    case None
    show ?thesis
    proof (cases "entry_size q i > 0")
      case True
      then show ?thesis using None appends_error by simp
    next
      case False
      then show ?thesis using None Suc.IH[where i = "i + 1" and cur = cur and sb = "put_field sb (FBytes [])"] appends_trans[OF appends_field, of sb "FBytes []"] st
        by (simp add: entry_block_def)
    qed
  next
    case (Some d)
    let ?c = "take (entry_size q i) (drop cur d)" and ?rest = "take (sizes_sum q (i + 1) (i + 1 + n)) (drop (cur + entry_size q i) d)"
    have j: "?c @ ?rest = take (sizes_sum q i (i + Suc n)) (drop cur d)" unfolding st take_add by (simp add: add.commute)
    have r: "appends (put_field sb (FBytes ?c)) ?rest (encode_data q (i + 1) n (cur + entry_size q i) (put_field sb (FBytes ?c)))"
      using Some Suc.IH[where i = "i + 1" and cur = "cur + entry_size q i" and sb = "put_field sb (FBytes ?c)"] by (simp add: entry_block_def)
    have "appends sb (?c @ ?rest) (encode_data q (i + 1) n (cur + entry_size q i) (put_field sb (FBytes ?c)))"
      using appends_trans[OF appends_field r] by simp
    then show ?thesis using Some unfolding j by (simp add: entry_block_def Let_def)
  qed
qed

definition append_wire :: "raft_append_entries \<Rightarrow> nat \<Rightarrow> bytes" where
  "append_wire q n = k_write_i64 (word_of_int (ae_term q)) @ k_write_i64 (word_of_int (ae_prev_log_index q))
     @ k_write_i64 (word_of_int (ae_prev_log_term q)) @ k_write_i64 (word_of_int (ae_leader_commit q))
     @ k_write_i32 (word_of_int (ae_leader_id q)) @ k_write_i64 (ae_read_context q) @ k_write_u32 (of_nat n)
     @ concat (map (entry_wire q) [0..<n]) @ take (sizes_sum q 0 n) (entry_block q)"

text \<open>How many entries the encoder keeps.\<close>

definition kept :: "raft_append_entries \<Rightarrow> nat \<Rightarrow> bool" where
  "kept q n \<longleftrightarrow> 0 \<le> ae_entry_count q \<and> ae_entry_count q \<le> 65536 \<and> n \<le> nat (ae_entry_count q) \<and> (0 < ae_entry_count q \<longrightarrow> 0 < n)
     \<and> (0 < n \<longrightarrow> ae_entry_terms q \<noteq> None) \<and> (\<forall>k<n. masks_short q k) \<and> sizes_sum q 0 n \<le> K_FRAME_MAX
     \<and> (ae_entry_data q = None \<longrightarrow> sizes_sum q 0 n = 0)"

lemma encode_append_law:
  assumes "buf_wf (snd sb)" "\<not> buf_err (snd (encode_append sb q))"
  shows "\<exists>n. kept q n \<and> buf_data (snd (encode_append sb q)) = buf_data (snd sb) @ append_wire q n \<and> \<not> buf_err (snd sb)"
proof -
  let ?c = "ae_entry_count q"
  define fs where "fs = [FI64 (ae_term q), FI64 (ae_prev_log_index q), FI64 (ae_prev_log_term q),
                     FI64 (ae_leader_commit q), FI32 (ae_leader_id q), FU64 (ae_read_context q)]"
  define sb1 where "sb1 = put_fields sb fs"
  define sb2 where "sb2 = put_field sb1 (FU32 0)"
  obtain n sb3 where e3: "encode_entries q 0 (nat ?c) 0 sb2 = (n, sb3)" by (metis surj_pair)
  define sb4 where "sb4 = (if ?c > 0 \<and> n = 0 then put_error sb3 else sb3)"
  define sb5 where "sb5 = (if buf_err (snd sb4) then sb4 else patch_u32 (length (buf_data (snd sb1))) (of_nat n) sb4)"
  define sb6 where "sb6 = encode_data q 0 n 0 sb5"
  have form: "encode_append sb q = (if ?c < 0 \<or> ?c > 65536 \<or> ?c \<noteq> 0 \<and> ae_entry_terms q = None then put_error sb else sb6)"
    unfolding encode_append_def Let_def fs_def[symmetric] sb1_def[symmetric] sb2_def[symmetric] e3 prod.case sb4_def[symmetric]
      sb5_def[symmetric] sb6_def ..
  have c: "0 \<le> ?c" "?c \<le> 65536" "?c \<noteq> 0 \<Longrightarrow> ae_entry_terms q \<noteq> None" and e: "encode_append sb q = sb6" and ne6: "\<not> buf_err (snd sb6)"
    using assms(2) form by (auto simp: put_error_def split: if_splits)
  note law = encode_entries_law[OF e3]
  have a1: "appends sb (concat (map wire fs)) sb1" unfolding sb1_def by (rule appends_fields)
  have a2: "appends sb1 (k_write_u32 0) sb2" unfolding sb2_def using appends_field[of sb1 "FU32 0"] by simp
  have a6: "appends sb5 (take (sizes_sum q 0 n) (entry_block q)) sb6" and d6: "ae_entry_data q = None \<longrightarrow> sizes_sum q 0 n = 0"
    using encode_data_law[of sb5 q 0 n 0] ne6 unfolding sb6_def by simp_all
  have wf3: "buf_wf (snd sb1)" "buf_wf (snd sb2)" "buf_wf (snd sb3)" using a1 a2 law assms(1) by (simp_all add: appends_def)
  have wf4: "buf_wf (snd sb4)" using wf3 by (simp add: sb4_def put_error_def buf_wf_def)
  have ne4: "\<not> buf_err (snd sb4)" if "\<not> buf_err (snd sb5)" using that by (auto simp: sb5_def split: if_splits)
  have ne3: "\<not> buf_err (snd sb3) \<and> sb4 = sb3 \<and> (0 < ?c \<longrightarrow> 0 < n)" if "\<not> buf_err (snd sb4)" using that by (auto simp: sb4_def put_error_def split: if_splits)
  have d3: "buf_data (snd sb3) = buf_data (snd sb1) @ k_write_u32 0 @ concat (map (entry_wire q) [0..<n]) \<and> \<not> buf_err (snd sb)
      \<and> buf_data (snd sb1) = buf_data (snd sb) @ concat (map wire fs)"
    if "\<not> buf_err (snd sb3)" using that law a1 a2 wf3 assms(1) by (auto simp: appends_def)
  have p: "buf_data (snd sb5) = buf_data (snd sb1) @ k_write_u32 (of_nat n) @ concat (map (entry_wire q) [0..<n]) \<and> buf_wf (snd sb5)"
    if "\<not> buf_err (snd sb4)"
  proof -
    have "buf_data (snd sb4) = buf_data (snd sb1) @ k_write_u32 0 @ concat (map (entry_wire q) [0..<n])" using ne3[OF that] d3 by simp
    then show ?thesis using that wf4 by (simp add: sb5_def patch_u32_def Let_def u32c.length_enc buf_wf_def)
  qed
  have ne5: "\<not> buf_err (snd sb5)"
  proof (cases "buf_err (snd sb4)")
    case True
    then show ?thesis using a6 wf4 ne6 by (auto simp: sb5_def appends_def)
  next
    case False
    then show ?thesis by (simp add: sb5_def patch_u32_def Let_def)
  qed
  have ok: "\<not> buf_err (snd sb4)" using ne4[OF ne5] .
  have sum: "sizes_sum q 0 n \<le> K_FRAME_MAX" using law by (cases n) (simp_all add: sizes_sum_def)
  have "kept q n" unfolding kept_def using c d6 sum law ne3[OF ok] by auto
  moreover have "buf_data (snd sb6) = buf_data (snd sb) @ append_wire q n"
    using a6 p[OF ok] d3 ne3[OF ok] ne6 by (simp add: appends_def append_wire_def fs_def)
  ultimately show ?thesis using e d3 ne3[OF ok] by auto
qed

subsection \<open>Reading an AppendEntries back\<close>

definition arr :: "nat \<Rightarrow> 'a list \<Rightarrow> 'a list option" where
  "arr n xs = (if n = 0 then None else Some xs)"

definition cut_append :: "raft_append_entries \<Rightarrow> nat \<Rightarrow> raft_append_entries" where
  "cut_append q n =
    (let es = map (read_entry q) [0..<n]
     in q\<lparr>ae_entry_terms := arr n (map we_term es), ae_entry_kinds := arr n (map we_kind es),
          ae_entry_data := Some (take (sizes_sum q 0 n) (entry_block q)), ae_entry_data_sizes := arr n (map we_size es),
          ae_entry_cfg_old := arr n (map we_cfg_old es), ae_entry_cfg_new := arr n (map we_cfg_new es),
          ae_entry_cfg_learners := arr n (map we_cfg_learners es), ae_entry_count := int n\<rparr>)"

definition append_fits :: "raft_append_entries \<Rightarrow> bool" where
  "append_fits q \<longleftrightarrow> fits64 (ae_term q) \<and> fits64 (ae_prev_log_index q) \<and> fits64 (ae_prev_log_term q) \<and> fits64 (ae_leader_commit q)
     \<and> fits32 (ae_leader_id q) \<and> list_all (entry_fits q) [0..<nat (ae_entry_count q)]
     \<and> (ae_entry_data q \<noteq> None \<longrightarrow> sizes_sum q 0 (nat (ae_entry_count q)) \<le> length (entry_block q))"

lemma sizes_sum_mono: "n \<le> m \<Longrightarrow> sizes_sum q 0 n \<le> sizes_sum q 0 m"
proof -
  assume "n \<le> m"
  then have "[0..<m] = [0..<n] @ [n..<m]" by (metis le0 le_iff_add upt_add_eq_append)
  then show ?thesis by (simp add: sizes_sum_def)
qed

lemma decode_append_law:
  assumes "kept q n" "append_fits q"
  shows "decode_append [] (rdr pre (append_wire q n)) = ([], Some (RAFT_MSG_APPEND (cut_append q n)), rdr (pre @ append_wire q n) [])"
proof -
  have n: "n \<le> 65536" "n \<le> nat (ae_entry_count q)" using assms(1) by (auto simp: kept_def)
  have u: "unat (of_nat n :: u32) = n" using n by (simp add: unat_small)
  then have z: "(of_nat n :: u32) = 0 \<longleftrightarrow> n = 0" by (metis unat_0 unat_eq_zero)
  have f: "\<forall>k\<in>{0..<n}. entry_fits q k \<and> masks_short q k" using assms n by (auto simp: kept_def append_fits_def list_all_iff)
  have len: "length (take (sizes_sum q 0 n) (entry_block q)) = sizes_sum q 0 n"
  proof (cases "ae_entry_data q")
    case None
    then show ?thesis using assms(1) by (simp add: kept_def)
  next
    case (Some d)
    then show ?thesis using assms(2) sizes_sum_mono[OF n(2), of q] by (simp add: append_fits_def)
  qed
  define blk where "blk = take (sizes_sum q 0 n) (entry_block q)"
  have d: "decode_entries [] n 0 (rdr p (concat (map (entry_wire q) [0..<n]) @ blk))
      = ([], Some (map (read_entry q) [0..<n], sizes_sum q 0 n), rdr (p @ concat (map (entry_wire q) [0..<n])) blk)" for p
    using decode_entries_law[OF f _ , of 0 p blk] assms(1) by (simp add: kept_def)
  have al: "allocs 6 [] = (True, [])" by (simp add: eval_nat_numeral)
  have lb: "length blk = sizes_sum q 0 n" using len by (simp add: blk_def)
  show ?thesis
    using assms(2) d lb n(1) unfolding decode_append_def append_wire_def blk_def[symmetric] append_fits_def
    by (simp add: u z al cut_append_def arr_def blk_def[symmetric])
qed

text \<open>The follower decodes a prefix of the entries that were sent.\<close>

definition sized :: "raft_append_entries \<Rightarrow> bool" where
  "sized q \<longleftrightarrow> ae_entry_data q \<noteq> None \<and> ae_entry_data_sizes q \<noteq> None"

lemma sizes_sum_snoc: "sizes_sum q 0 (Suc i) = sizes_sum q 0 i + entry_size q i"
  by (simp add: sizes_sum_def)

lemma cut_read:
  assumes "kept q n" "i < n" "sized q \<longrightarrow> cur = sizes_sum q 0 i"
  shows "\<exists>e c. ae_read (cut_append q n) i (sizes_sum q 0 i) = (e, sizes_sum q 0 (Suc i)) \<and> ae_read q i cur = (e, c)
    \<and> (sized q \<longrightarrow> c = sizes_sum q 0 (Suc i))"
proof -
  have t: "ae_entry_terms q \<noteq> None" using assms by (auto simp: kept_def)
  have le: "sizes_sum q 0 (Suc i) \<le> sizes_sum q 0 n" using assms(2) by (intro sizes_sum_mono) simp
  define blk where "blk = take (sizes_sum q 0 n) (entry_block q)"
  have cut: "ae_read (cut_append q n) i (sizes_sum q 0 i) = (\<lparr> en_term = the (ae_entry_terms q) ! i, en_kind = entry_kind q i,
      en_data = take (entry_size q i) (drop (sizes_sum q 0 i) blk), en_cfg_old = entry_mask (ae_entry_cfg_old q) i,
      en_cfg_new = entry_mask (ae_entry_cfg_new q) i, en_cfg_learners = entry_mask (ae_entry_cfg_learners q) i \<rparr>, sizes_sum q 0 (Suc i))"
    using assms(2) by (simp add: ae_read_def cut_append_def arr_def read_entry_def blk_def Let_def sizes_sum_snoc)
  have acc: "(case ae_entry_kinds q of None \<Rightarrow> RAFT_ENTRY_COMMAND | Some ks \<Rightarrow> ks ! i) = entry_kind q i"
    "(case ms of None \<Rightarrow> raft_mask_zero | Some ms \<Rightarrow> ms ! i) = entry_mask ms i" for ms
    by (simp_all add: entry_kind_def entry_mask_def split: option.splits)
  have own: "ae_read q i cur = (\<lparr> en_term = the (ae_entry_terms q) ! i, en_kind = entry_kind q i,
      en_data = (if sized q then take (entry_size q i) (drop (sizes_sum q 0 i) (entry_block q)) else []), en_cfg_old = entry_mask (ae_entry_cfg_old q) i,
      en_cfg_new = entry_mask (ae_entry_cfg_new q) i, en_cfg_learners = entry_mask (ae_entry_cfg_learners q) i \<rparr>,
      if sized q then sizes_sum q 0 (Suc i) else cur)"
    using t assms(3) unfolding ae_read_def Let_def acc
    by (cases "ae_entry_data q"; cases "ae_entry_data_sizes q") (auto simp: sized_def entry_block_def entry_size_def sizes_sum_snoc)
  have "take (entry_size q i) (drop (sizes_sum q 0 i) blk) = (if sized q then take (entry_size q i) (drop (sizes_sum q 0 i) (entry_block q)) else [])"
  proof (cases "sized q")
    case True
    have "entry_size q i \<le> sizes_sum q 0 n - sizes_sum q 0 i" using le by (simp add: sizes_sum_snoc)
    then show ?thesis using True by (simp add: blk_def drop_take take_take min_absorb1)
  next
    case False
    then have "entry_size q i = 0 \<or> entry_block q = []" by (auto simp: sized_def entry_size_def entry_block_def)
    then show ?thesis using False by (auto simp: blk_def)
  qed
  then show ?thesis using cut own by simp
qed

lemma cut_msg_read:
  assumes "kept q n"
  shows "i + m \<le> n \<Longrightarrow> (sized q \<longrightarrow> cur = sizes_sum q 0 i) \<Longrightarrow> msg_read (cut_append q n) i (sizes_sum q 0 i) m = msg_read q i cur m"
proof (induction m arbitrary: i cur)
  case (Suc m)
  obtain e c where ec: "ae_read (cut_append q n) i (sizes_sum q 0 i) = (e, sizes_sum q 0 (Suc i))" "ae_read q i cur = (e, c)"
    "sized q \<longrightarrow> c = sizes_sum q 0 (Suc i)" using cut_read[OF assms, of i cur] Suc.prems by auto
  then show ?case using Suc.IH[of "i + 1" c] Suc.prems by simp
qed simp

lemma msg_read_take: "k \<le> m \<Longrightarrow> msg_read q i cur k = take k (msg_read q i cur m)"
proof (induction m arbitrary: i cur k)
  case (Suc m)
  show ?case
  proof (cases k)
    case (Suc k')
    then show ?thesis using Suc.IH[of k'] Suc.prems by (simp split: prod.splits)
  qed simp
qed simp

lemma cut_entries: "kept q n \<Longrightarrow> msg_entries (cut_append q n) = take n (msg_entries q)"
  using cut_msg_read[of q n 0 n 0] msg_read_take[of n "nat (ae_entry_count q)" q 0 0]
  by (simp add: msg_entries_def kept_def) (simp add: cut_append_def Let_def)

subsection \<open>The round trip\<close>

definition body_fits :: "raft_msg_body \<Rightarrow> bool" where
  "body_fits b = (case b of
       RAFT_MSG_REQUEST_VOTE q \<Rightarrow> fits64 (rv_term q) \<and> fits64 (rv_last_log_index q) \<and> fits64 (rv_last_log_term q) \<and> fits32 (rv_candidate_id q)
     | RAFT_MSG_REQUEST_VOTE_RESULT q \<Rightarrow> fits64 (rvr_term q)
     | RAFT_MSG_APPEND q \<Rightarrow> append_fits q
     | RAFT_MSG_APPEND_RESULT q \<Rightarrow> fits64 (aer_term q) \<and> fits64 (aer_rejected q) \<and> fits64 (aer_last_log_index q)
         \<and> fits64 (aer_conflict_term q) \<and> fits64 (aer_conflict_first_index q)
     | RAFT_MSG_INSTALL_SNAPSHOT q \<Rightarrow> fits64 (is_term q) \<and> fits64 (is_snapshot_last_index q) \<and> fits64 (is_snapshot_last_term q)
         \<and> fits64 (is_snapshot_offset q) \<and> fits64 (is_snapshot_data_size q) \<and> list_all fits32 (is_snapshot_cfg_old q)
         \<and> list_all fits32 (is_snapshot_cfg_new q) \<and> list_all fits32 (is_snapshot_cfg_learners q) \<and> fits32 (is_leader_id q)
         \<and> is_snapshot_chunk_size q = int (length (is_snapshot_data q))
     | RAFT_MSG_INSTALL_SNAPSHOT_RESULT q \<Rightarrow> fits64 (isr_term q) \<and> fits64 (isr_last_included_index q)
     | RAFT_MSG_READ_INDEX q \<Rightarrow> fits64 (ri_term q)
     | RAFT_MSG_READ_INDEX_RESULT q \<Rightarrow> fits64 (rir_term q) \<and> fits64 (rir_read_index q)
     | RAFT_MSG_TIMEOUT_NOW q \<Rightarrow> fits64 (tn_term q) \<and> fits64 (tn_last_log_index q) \<and> fits64 (tn_last_log_term q) \<and> fits32 (tn_leader_id q)
     | RAFT_MSG_OTHER t \<Rightarrow> False)"

definition msg_fits :: "raft_peer_message \<Rightarrow> bool" where
  "msg_fits m \<longleftrightarrow> 0 < pm_from m \<and> fits32 (pm_from m) \<and> 0 < pm_to m \<and> fits32 (pm_to m) \<and> fits64 (pm_term m) \<and> body_fits (pm_body m)"

text \<open>What arrives for a body: itself, or an AppendEntries cut to a prefix of its entries that is empty only
  when the original was.\<close>

definition arrives :: "raft_msg_body \<Rightarrow> raft_msg_body \<Rightarrow> bool" where
  "arrives b b' \<longleftrightarrow> (case b of RAFT_MSG_APPEND q \<Rightarrow> (\<exists>n. kept q n \<and> b' = RAFT_MSG_APPEND (cut_append q n)) | _ \<Rightarrow> b' = b)"

definition snapshot_wire :: "raft_install_snapshot \<Rightarrow> bytes" where
  "snapshot_wire q = k_write_i64 (word_of_int (is_term q)) @ k_write_i64 (word_of_int (is_snapshot_last_index q))
     @ k_write_i64 (word_of_int (is_snapshot_last_term q)) @ k_write_i64 (word_of_int (is_snapshot_offset q))
     @ k_write_i64 (word_of_int (is_snapshot_data_size q)) @ k_write_i64 (word_of_int (is_snapshot_chunk_size q))
     @ mask_wire (is_snapshot_cfg_old q) @ mask_wire (is_snapshot_cfg_new q) @ mask_wire (is_snapshot_cfg_learners q)
     @ k_write_u8 (of_bool (is_snapshot_done q)) @ k_write_i32 (word_of_int (is_leader_id q)) @ is_snapshot_data q"

lemma mask_written:
  assumes "buf_wf (snd sb)" "\<not> buf_err (snd (k_buf_mask sb m))"
  shows "length m \<le> K_MAX_NODES \<and> \<not> buf_err (snd sb) \<and> buf_wf (snd (k_buf_mask sb m))
    \<and> buf_data (snd (k_buf_mask sb m)) = buf_data (snd sb) @ mask_wire m"
proof -
  have "length m \<le> K_MAX_NODES" using assms(2) unfolding k_buf_mask_def by (cases "length m > K_MAX_NODES") auto
  then show ?thesis using appends_mask[of sb m] assms by (auto simp: appends_def)
qed

lemma encode_snapshot_law:
  assumes "buf_wf (snd sb)" "\<not> buf_err (snd (encode_snapshot sb q))" "is_snapshot_chunk_size q = int (length (is_snapshot_data q))"
  shows "length (is_snapshot_cfg_old q) \<le> K_MAX_NODES \<and> length (is_snapshot_cfg_new q) \<le> K_MAX_NODES
    \<and> length (is_snapshot_cfg_learners q) \<le> K_MAX_NODES \<and> length (is_snapshot_data q) \<le> K_FRAME_MAX
    \<and> buf_data (snd (encode_snapshot sb q)) = buf_data (snd sb) @ snapshot_wire q \<and> \<not> buf_err (snd sb)"
proof -
  define fs where "fs = [FI64 (is_term q), FI64 (is_snapshot_last_index q), FI64 (is_snapshot_last_term q),
                FI64 (is_snapshot_offset q), FI64 (is_snapshot_data_size q), FI64 (is_snapshot_chunk_size q)]"
  define gs where "gs = [FU8 (of_bool (is_snapshot_done q)), FI32 (is_leader_id q)]"
  define sb1 where "sb1 = put_fields sb fs"
  define sb2 where "sb2 = k_buf_mask sb1 (is_snapshot_cfg_old q)"
  define sb3 where "sb3 = k_buf_mask sb2 (is_snapshot_cfg_new q)"
  define sb4 where "sb4 = k_buf_mask sb3 (is_snapshot_cfg_learners q)"
  define sb5 where "sb5 = put_fields sb4 gs"
  define sb6 where "sb6 = put_field sb5 (FBytes (is_snapshot_data q))"
  have form: "encode_snapshot sb q = (if length (is_snapshot_data q) > K_FRAME_MAX then put_error sb5 else sb6)"
    unfolding encode_snapshot_def Let_def fs_def[symmetric] gs_def[symmetric] sb1_def[symmetric] sb2_def[symmetric] sb3_def[symmetric]
      sb4_def[symmetric] sb5_def[symmetric] sb6_def using assms(3) by simp
  then have e: "encode_snapshot sb q = sb6" "length (is_snapshot_data q) \<le> K_FRAME_MAX" "\<not> buf_err (snd sb6)"
    using assms(2) by (auto split: if_splits)
  have a1: "appends sb (concat (map wire fs)) sb1" unfolding sb1_def by (rule appends_fields)
  have w1: "buf_wf (snd sb1)" using a1 assms(1) by (simp add: appends_def)
  have w: "buf_wf (snd sb2)" "buf_wf (snd sb3)" "buf_wf (snd sb4)"
    using w1 appends_mask[of sb1] appends_mask[of sb2] appends_mask[of sb3] by (simp_all add: sb2_def sb3_def sb4_def appends_def)
  have a5: "appends sb4 (concat (map wire gs)) sb5" unfolding sb5_def by (rule appends_fields)
  have a6: "appends sb5 (is_snapshot_data q) sb6" unfolding sb6_def using appends_field[of sb5 "FBytes (is_snapshot_data q)"] by simp
  have n4: "\<not> buf_err (snd sb4)" using a5 a6 w e(3) by (auto simp: appends_def)
  note m4 = mask_written[OF w(2) n4[unfolded sb4_def]]
  note m3 = mask_written[OF w(1) m4[THEN conjunct2, THEN conjunct1, unfolded sb3_def]]
  note m2 = mask_written[OF w1 m3[THEN conjunct2, THEN conjunct1, unfolded sb2_def]]
  have d5: "buf_data (snd sb6) = buf_data (snd sb4) @ concat (map wire gs) @ is_snapshot_data q" using a5 a6 w e(3) by (auto simp: appends_def)
  have d1: "buf_data (snd sb1) = buf_data (snd sb) @ concat (map wire fs)" using a1 m2 assms(1) by (simp add: appends_def)
  have "buf_data (snd sb4) = buf_data (snd sb) @ concat (map wire fs) @ mask_wire (is_snapshot_cfg_old q) @ mask_wire (is_snapshot_cfg_new q)
      @ mask_wire (is_snapshot_cfg_learners q)" using m4 m3 m2 d1 by (simp add: sb4_def sb3_def sb2_def)
  moreover have "\<not> buf_err (snd sb)" using a1 m2 assms(1) by (auto simp: appends_def)
  ultimately show ?thesis using e m4 m3 m2 d5 by (simp add: snapshot_wire_def fs_def gs_def)
qed

lemma decode_snapshot_law:
  assumes "body_fits (RAFT_MSG_INSTALL_SNAPSHOT q)" "length (is_snapshot_cfg_old q) \<le> K_MAX_NODES"
    "length (is_snapshot_cfg_new q) \<le> K_MAX_NODES" "length (is_snapshot_cfg_learners q) \<le> K_MAX_NODES" "length (is_snapshot_data q) \<le> K_FRAME_MAX"
  shows "decode_snapshot [] (rdr pre (snapshot_wire q)) = ([], Some (RAFT_MSG_INSTALL_SNAPSHOT q), rdr (pre @ snapshot_wire q) [])"
proof -
  have m: "mask_ok (is_snapshot_cfg_old q)" "mask_ok (is_snapshot_cfg_new q)" "mask_ok (is_snapshot_cfg_learners q)"
    and sz: "is_snapshot_chunk_size q = int (length (is_snapshot_data q))" and c: "fits64 (is_snapshot_chunk_size q)"
    and f: "fits64 (is_term q)" "fits64 (is_snapshot_last_index q)" "fits64 (is_snapshot_last_term q)" "fits64 (is_snapshot_offset q)"
      "fits64 (is_snapshot_data_size q)" "fits32 (is_leader_id q)"
    using assms by (simp_all add: body_fits_def mask_ok_def fits64_def)
  have n: "nat (is_snapshot_chunk_size q) = length (is_snapshot_data q)" "\<not> is_snapshot_chunk_size q < 0"
    "\<not> is_snapshot_chunk_size q > int (length (is_snapshot_data q))" using sz by simp_all
  show ?thesis unfolding decode_snapshot_def snapshot_wire_def using m f c n by simp
qed

lemma encode_start:
  "buf_wf (snd (put_fields (s, k_buf_zero) fs))"
  "\<not> buf_err (snd (put_fields (s, k_buf_zero) fs)) \<Longrightarrow> buf_data (snd (put_fields (s, k_buf_zero) fs)) = concat (map wire fs)"
  using appends_fields[of "(s, k_buf_zero)" fs] by (simp_all add: appends_def) (simp_all add: k_buf_zero_def)

text \<open>Every body but AppendEntries and InstallSnapshot is a fixed list of fields.\<close>

fun body_fields :: "raft_msg_body \<Rightarrow> field list" where
  "body_fields (RAFT_MSG_REQUEST_VOTE q) = [FI64 (rv_term q), FI64 (rv_last_log_index q), FI64 (rv_last_log_term q), FI32 (rv_candidate_id q),
      FU8 (of_bool (rv_pre_vote q))]"
| "body_fields (RAFT_MSG_REQUEST_VOTE_RESULT q) = [FI64 (rvr_term q), FU8 (of_bool (rvr_vote_granted q)), FU8 (of_bool (rvr_pre_vote q))]"
| "body_fields (RAFT_MSG_APPEND_RESULT q) = [FI64 (aer_term q), FI64 (aer_rejected q), FI64 (aer_last_log_index q), FI64 (aer_conflict_term q),
      FI64 (aer_conflict_first_index q), FU64 (aer_read_context q), FU8 (of_bool (aer_success q))]"
| "body_fields (RAFT_MSG_INSTALL_SNAPSHOT_RESULT q) = [FI64 (isr_term q), FI64 (isr_last_included_index q)]"
| "body_fields (RAFT_MSG_READ_INDEX q) = [FI64 (ri_term q), FU64 (ri_context q)]"
| "body_fields (RAFT_MSG_READ_INDEX_RESULT q) = [FI64 (rir_term q), FI64 (rir_read_index q), FU64 (rir_context q)]"
| "body_fields (RAFT_MSG_TIMEOUT_NOW q) = [FI64 (tn_term q), FI64 (tn_last_log_index q), FI64 (tn_last_log_term q), FI32 (tn_leader_id q)]"
| "body_fields b = []"

definition flat :: "raft_msg_body \<Rightarrow> bool" where
  "flat b \<longleftrightarrow> (case b of RAFT_MSG_APPEND _ \<Rightarrow> False | RAFT_MSG_INSTALL_SNAPSHOT _ \<Rightarrow> False | RAFT_MSG_OTHER _ \<Rightarrow> False | _ \<Rightarrow> True)"

lemma encode_flat: "flat b \<Longrightarrow> encode_body sb b = put_fields sb (body_fields b)"
  by (cases b) (simp_all add: flat_def)

lemma decode_flat:
  "flat b \<Longrightarrow> body_fits b \<Longrightarrow> decode_body [] (word_of_int (msg_type b)) (rdr pre (concat (map wire (body_fields b))))
    = ([], Some b, rdr (pre @ concat (map wire (body_fields b))) [])"
  by (cases b) (simp_all add: flat_def decode_body_def body_fits_def)

text \<open>The bytes of a body and what they decode to.\<close>

lemma body_roundtrip:
  assumes "buf_wf (snd sb)" "\<not> buf_err (snd (encode_body sb b))" "body_fits b"
  shows "\<exists>w b'. buf_data (snd (encode_body sb b)) = buf_data (snd sb) @ w \<and> \<not> buf_err (snd sb) \<and> arrives b b'
    \<and> (\<forall>pre. decode_body [] (word_of_int (msg_type b)) (rdr pre w) = ([], Some b', rdr (pre @ w) []))"
proof (cases "flat b")
  case True
  have a: "appends sb (concat (map wire (body_fields b))) (encode_body sb b)" using True encode_flat appends_fields by simp
  have "buf_data (snd (encode_body sb b)) = buf_data (snd sb) @ concat (map wire (body_fields b)) \<and> \<not> buf_err (snd sb)"
    using a assms by (auto simp: appends_def)
  moreover have "arrives b b" using True by (cases b) (simp_all add: arrives_def flat_def)
  ultimately show ?thesis using decode_flat[OF True assms(3)] by blast
next
  case False
  then consider (app) q where "b = RAFT_MSG_APPEND q" | (snap) q where "b = RAFT_MSG_INSTALL_SNAPSHOT q"
    using assms(3) by (cases b) (auto simp: flat_def body_fits_def)
  then show ?thesis
  proof cases
    case app
    obtain n where n: "kept q n" "buf_data (snd (encode_append sb q)) = buf_data (snd sb) @ append_wire q n" "\<not> buf_err (snd sb)"
      using encode_append_law[of sb q] assms app by auto
    have "decode_body [] 3 (rdr pre (append_wire q n)) = ([], Some (RAFT_MSG_APPEND (cut_append q n)), rdr (pre @ append_wire q n) [])" for pre
      using decode_append_law[OF n(1), of pre] assms(3) app by (simp add: decode_body_def body_fits_def)
    then show ?thesis using n app by (auto simp: arrives_def)
  next
    case snap
    have sz: "is_snapshot_chunk_size q = int (length (is_snapshot_data q))" using assms(3) snap by (simp add: body_fits_def)
    have e: "\<not> buf_err (snd (encode_snapshot sb q))" using assms(2) snap by simp
    note l = encode_snapshot_law[OF assms(1) e sz]
    show ?thesis using l snap decode_snapshot_law[of q] assms(3) by (auto simp: arrives_def decode_body_def)
  qed
qed

lemma peer_roundtrip:
  assumes "k_peer_encode s m = (s', Some data)" "msg_fits m"
  shows "\<exists>b. k_peer_decode [] data = ([], Some (m\<lparr>pm_body := b\<rparr>)) \<and> arrives (pm_body m) b"
proof -
  let ?fs = "[FU8 (word_of_int (msg_type (pm_body m))), FI32 (pm_from m), FI32 (pm_to m), FI64 (pm_term m)]"
  define sb where "sb = put_fields (s, k_buf_zero) ?fs"
  have sb: "buf_wf (snd sb)" "\<not> buf_err (snd sb) \<Longrightarrow> buf_data (snd sb) = concat (map wire ?fs)" unfolding sb_def by (rule encode_start)+
  obtain s2 b2 where e: "encode_body sb (pm_body m) = (s2, b2)" by fastforce
  have d: "\<not> buf_err b2" "data = buf_data b2"
    using assms(1) unfolding k_peer_encode_def sb_def[symmetric] e payload_done_def by (auto split: if_splits)
  obtain w b where w: "buf_data b2 = buf_data (snd sb) @ w" "\<not> buf_err (snd sb)" "arrives (pm_body m) b"
    "\<And>pre. decode_body [] (word_of_int (msg_type (pm_body m))) (rdr pre w) = ([], Some b, rdr (pre @ w) [])"
    using body_roundtrip[OF sb(1), of "pm_body m"] d e assms(2) unfolding msg_fits_def by auto
  have "data = concat (map wire ?fs) @ w" using d w(1) sb(2)[OF w(2)] by simp
  then have "k_peer_decode [] data = ([], Some (m\<lparr>pm_body := b\<rparr>))"
    unfolding k_peer_decode_def rdr_init using assms(2) w(4) by (simp add: msg_fits_def)
  then show ?thesis using w(3) by blast
qed

subsection \<open>With memory, what fits is sent whole\<close>

definition holds :: "script \<times> k_buf \<Rightarrow> bytes \<Rightarrow> bool" where
  "holds sb d \<longleftrightarrow> fst sb = [] \<and> buf_wf (snd sb) \<and> \<not> buf_err (snd sb) \<and> buf_data (snd sb) = d"

lemma holds_field: "holds sb d \<Longrightarrow> length d + length (wire f) \<le> 0xffffffff \<Longrightarrow> holds (put_field sb f) (d @ wire f)"
proof -
  assume h: "holds sb d" and l: "length d + length (wire f) \<le> 0xffffffff"
  obtain s b where sb: "sb = (s, b)" by fastforce
  have "put_field sb f = k_buf_put s b (wire f)"
    unfolding sb by (cases f) (simp_all add: k_buf_u8_def k_buf_u16_def k_buf_u32_def k_buf_i32_def k_buf_i64_def k_buf_bytes_put)
  then show ?thesis using buf_put_room[of b "wire f"] h l unfolding sb holds_def by auto
qed

lemma holds_fields: "holds sb d \<Longrightarrow> length d + length (concat (map wire fs)) \<le> 0xffffffff \<Longrightarrow> holds (put_fields sb fs) (d @ concat (map wire fs))"
  unfolding put_fields_def
proof (induction fs arbitrary: sb d)
  case (Cons f fs)
  then show ?case using Cons.IH[OF holds_field[OF Cons.prems(1)], of f] by simp
qed simp

lemma length_mask_wire [simp]: "length (mask_wire m) = 4 + 4 * length m"
  by (induction m) (simp_all add: mask_wire_def u32c.length_enc i32c.length_enc)

lemma holds_mask: "holds sb d \<Longrightarrow> length m \<le> K_MAX_NODES \<Longrightarrow> length d + length (mask_wire m) \<le> 0xffffffff \<Longrightarrow> holds (k_buf_mask sb m) (d @ mask_wire m)"
proof -
  assume a: "holds sb d" "length m \<le> K_MAX_NODES" "length d + length (mask_wire m) \<le> 0xffffffff"
  have w: "concat (map wire (FU32 (of_nat (length m)) # map FI32 m)) = mask_wire m" by (simp add: mask_wire_def comp_def)
  have "k_buf_mask sb m = put_fields sb (FU32 (of_nat (length m)) # map FI32 m)" using a(2) by (simp add: k_buf_mask_def)
  then show ?thesis using holds_fields[OF a(1), of "FU32 (of_nat (length m)) # map FI32 m", unfolded w] a(3) by simp
qed

definition entry_length :: "raft_append_entries \<Rightarrow> nat \<Rightarrow> nat" where
  "entry_length q i = 13 + (12 + 4 * (length (entry_mask (ae_entry_cfg_old q) i) + length (entry_mask (ae_entry_cfg_new q) i)
     + length (entry_mask (ae_entry_cfg_learners q) i)))"

lemma length_entry_wire [simp]: "length (entry_wire q i) = entry_length q i"
  by (simp add: entry_wire_def entry_length_def u32c.length_enc i64c.length_enc u8c.length_enc)

lemma encode_entries_whole:
  assumes "holds sb d" "\<forall>k\<in>{i..<i + n}. masks_short q k" "length d + sum_list (map (entry_length q) [i..<i + n]) + ds + sizes_sum q i (i + n) \<le> K_FRAME_MAX"
  shows "\<exists>sb'. encode_entries q i n ds sb = (i + n, sb') \<and> holds sb' (d @ concat (map (entry_wire q) [i..<i + n]))"
  using assms
proof (induction n arbitrary: i ds sb d)
  case (Suc n)
  let ?om = "entry_mask (ae_entry_cfg_old q) i" and ?nm = "entry_mask (ae_entry_cfg_new q) i" and ?lm = "entry_mask (ae_entry_cfg_learners q) i"
  let ?fs = "[FI64 (the (ae_entry_terms q) ! i), FU8 (entry_kind q i), FU32 (of_nat (entry_size q i))]"
  define sb1 where "sb1 = k_buf_mask (k_buf_mask (k_buf_mask (put_fields sb ?fs) ?om) ?nm) ?lm"
  have up: "[i..<i + Suc n] = i # [i + 1..<i + 1 + n]" by (simp add: upt_conv_Cons)
  have st: "sizes_sum q i (i + Suc n) = entry_size q i + sizes_sum q (i + 1) (i + 1 + n)" using sizes_sum_step[of i "i + Suc n" q] by simp
  have tot: "length d + entry_length q i + sum_list (map (entry_length q) [i + 1..<i + 1 + n]) + ds + entry_size q i
      + sizes_sum q (i + 1) (i + 1 + n) \<le> K_FRAME_MAX" using Suc.prems(3) unfolding up st by simp
  have sh: "length ?om \<le> K_MAX_NODES" "length ?nm \<le> K_MAX_NODES" "length ?lm \<le> K_MAX_NODES"
    using Suc.prems(2) by (simp_all add: masks_short_def)
  have small: "length d + entry_length q i \<le> 0xffffffff" using tot by linarith
  have h0: "holds (put_fields sb ?fs) (d @ concat (map wire ?fs))"
    by (rule holds_fields[OF Suc.prems(1)]) (use small in \<open>simp add: entry_length_def u32c.length_enc i64c.length_enc u8c.length_enc\<close>)
  have h1: "holds sb1 (d @ entry_wire q i)"
    using holds_mask[OF holds_mask[OF holds_mask[OF h0 sh(1)] sh(2)] sh(3)] small
    by (simp add: sb1_def entry_length_def u32c.length_enc i64c.length_enc u8c.length_enc entry_wire_def)
  have go: "encode_entries q i (Suc n) ds sb = encode_entries q (i + 1) n (ds + entry_size q i) sb1"
  proof -
    have "\<not> (length ?om > K_MAX_NODES \<or> length ?nm > K_MAX_NODES \<or> length ?lm > K_MAX_NODES)" using sh by linarith
    moreover have "\<not> length (buf_data (snd sb)) + (13 + (12 + 4 * (length ?om + length ?nm + length ?lm))) + ds + entry_size q i > K_FRAME_MAX"
      using tot Suc.prems(1) unfolding entry_length_def[symmetric] by (simp add: holds_def)
    ultimately show ?thesis unfolding encode_entries.simps Let_def sb1_def[symmetric] by (simp only: if_False)
  qed
  obtain sb' where "encode_entries q (i + 1) n (ds + entry_size q i) sb1 = (i + 1 + n, sb')"
    "holds sb' ((d @ entry_wire q i) @ concat (map (entry_wire q) [i + 1..<i + 1 + n]))"
    using Suc.IH[OF h1, of "i + 1" "ds + entry_size q i"] Suc.prems(2) tot by auto
  then show ?case unfolding go up by simp
qed simp

lemma encode_data_whole:
  assumes "holds sb d" "ae_entry_data q \<noteq> None \<or> sizes_sum q i (i + n) = 0" "length d + sizes_sum q i (i + n) \<le> 0xffffffff"
  shows "fst (encode_data q i n cur sb) = [] \<and> \<not> buf_err (snd (encode_data q i n cur sb)) \<and> length (buf_data (snd (encode_data q i n cur sb))) \<le> length d + sizes_sum q i (i + n)"
  using assms
proof (induction n arbitrary: i cur sb d)
  case (Suc n)
  have st: "sizes_sum q i (i + Suc n) = entry_size q i + sizes_sum q (i + 1) (i + 1 + n)" using sizes_sum_step[of i "i + Suc n" q] by simp
  define c where "c = (case ae_entry_data q of None \<Rightarrow> [] | Some b \<Rightarrow> take (entry_size q i) (drop cur b))"
  have go: "encode_data q i (Suc n) cur sb = encode_data q (i + 1) n (case ae_entry_data q of None \<Rightarrow> cur | Some _ \<Rightarrow> cur + entry_size q i) (put_field sb (FBytes c))"
    using Suc.prems(2) st by (auto simp: c_def Let_def split: option.splits)
  have lc: "length c \<le> entry_size q i" by (simp add: c_def split: option.splits)
  have h: "holds (put_field sb (FBytes c)) (d @ c)" using holds_field[OF Suc.prems(1), of "FBytes c"] lc Suc.prems(3) st by simp
  define c' where "c' = (case ae_entry_data q of None \<Rightarrow> cur | Some _ \<Rightarrow> cur + entry_size q i)"
  have "fst (encode_data q (i + 1) n c' (put_field sb (FBytes c))) = [] \<and> \<not> buf_err (snd (encode_data q (i + 1) n c' (put_field sb (FBytes c))))
    \<and> length (buf_data (snd (encode_data q (i + 1) n c' (put_field sb (FBytes c))))) \<le> length (d @ c) + sizes_sum q (i + 1) (i + 1 + n)"
    by (rule Suc.IH[OF h]) (use Suc.prems(2,3) st lc in auto)
  then show ?case unfolding go c'_def[symmetric] st using lc by (simp add: add.assoc)
qed (simp add: holds_def)

lemma encode_append_whole:
  assumes "holds sb d" "0 \<le> ae_entry_count q" "ae_entry_count q \<le> 65536" "0 < ae_entry_count q \<Longrightarrow> ae_entry_terms q \<noteq> None"
    and "\<forall>k<nat (ae_entry_count q). masks_short q k" "ae_entry_data q \<noteq> None \<or> sizes_sum q 0 (nat (ae_entry_count q)) = 0"
    and "length d + 48 + sum_list (map (entry_length q) [0..<nat (ae_entry_count q)]) + sizes_sum q 0 (nat (ae_entry_count q)) \<le> K_FRAME_MAX"
  shows "fst (encode_append sb q) = [] \<and> \<not> buf_err (snd (encode_append sb q)) \<and> length (buf_data (snd (encode_append sb q))) \<le> K_FRAME_MAX"
proof -
  let ?c = "ae_entry_count q" let ?n = "nat ?c"
  define fs where "fs = [FI64 (ae_term q), FI64 (ae_prev_log_index q), FI64 (ae_prev_log_term q),
                     FI64 (ae_leader_commit q), FI32 (ae_leader_id q), FU64 (ae_read_context q)]"
  define sb1 where "sb1 = put_fields sb fs"
  define sb2 where "sb2 = put_field sb1 (FU32 0)"
  define d1 where "d1 = d @ concat (map wire fs)"
  have lf: "length d1 = length d + 44" by (simp add: d1_def fs_def i64c.length_enc i32c.length_enc)
  have h1: "holds sb1 d1" unfolding sb1_def d1_def by (rule holds_fields[OF assms(1)]) (use lf assms(7) in \<open>simp add: d1_def\<close>)
  have h2: "holds sb2 (d1 @ k_write_u32 0)" unfolding sb2_def using holds_field[OF h1, of "FU32 0"] lf assms(7) by (simp add: u32c.length_enc)
  have ms: "\<forall>k\<in>{0..<0 + ?n}. masks_short q k" using assms(5) by auto
  have tt: "length (d1 @ k_write_u32 0) + sum_list (map (entry_length q) [0..<0 + ?n]) + 0 + sizes_sum q 0 (0 + ?n) \<le> K_FRAME_MAX"
    using assms(7) lf by (simp add: u32c.length_enc)
  obtain sb3 where e3: "encode_entries q 0 ?n 0 sb2 = (?n, sb3)" and h3: "holds sb3 ((d1 @ k_write_u32 0) @ concat (map (entry_wire q) [0..<?n]))"
    using encode_entries_whole[OF h2 ms tt] by auto
  define sb5 where "sb5 = patch_u32 (length (buf_data (snd sb1))) (of_nat ?n) sb3"
  have c: "\<not> (?c > 0 \<and> ?n = 0)" by simp
  have form: "encode_append sb q = encode_data q 0 ?n 0 sb5"
    unfolding encode_append_def Let_def fs_def[symmetric] sb1_def[symmetric] sb2_def[symmetric] e3 prod.case sb5_def
    using assms(2-4) c h3 by (auto simp: holds_def)
  have h5: "holds sb5 (d1 @ k_write_u32 (of_nat ?n) @ concat (map (entry_wire q) [0..<?n]))"
  proof -
    have b: "buf_data (snd sb3) = d1 @ k_write_u32 0 @ concat (map (entry_wire q) [0..<?n])" "buf_data (snd sb1) = d1"
      using h3 h1 by (simp_all add: holds_def)
    moreover have "length (buf_data (snd sb3)) \<le> buf_cap (snd sb3)" using h3 unfolding holds_def buf_wf_def by blast
    ultimately have "length d1 + (4 + length (concat (map (entry_wire q) [0..<?n]))) \<le> buf_cap (snd sb3)" by (simp add: u32c.length_enc)
    then show ?thesis using h3 b by (simp add: sb5_def patch_u32_def Let_def holds_def u32c.length_enc buf_wf_def)
  qed
  have "length (concat (map (entry_wire q) [0..<?n])) = sum_list (map (entry_length q) [0..<?n])" by (simp add: length_concat comp_def)
  then show ?thesis unfolding form using encode_data_whole[OF h5, of q 0 ?n 0] assms(6,7) lf by (auto simp: u32c.length_enc)
qed

text \<open>Peer messages survive the wire: a message of any kind whose numbers fit their fields and that the
  encoder accepts is decoded, with memory, to a message with the same sender, receiver and term
  and the same body; an AppendEntries keeps its header and arrives with a prefix of its entries,
  a non-empty one when it had entries.\<close>

theorem peer_codec_roundtrip:
  assumes "k_peer_encode s m = (s', Some data)" "msg_fits m"
  shows "\<exists>m'. k_peer_decode [] data = ([], Some m') \<and> pm_from m' = pm_from m \<and> pm_to m' = pm_to m \<and> pm_term m' = pm_term m
    \<and> (case pm_body m of
         RAFT_MSG_APPEND q \<Rightarrow> \<exists>q' n. pm_body m' = RAFT_MSG_APPEND q' \<and> msg_entries q' = take n (msg_entries q)
           \<and> (0 < ae_entry_count q \<longrightarrow> 0 < n) \<and> ae_entry_count q' = int n \<and> ae_term q' = ae_term q \<and> ae_leader_id q' = ae_leader_id q
           \<and> ae_prev_log_index q' = ae_prev_log_index q \<and> ae_prev_log_term q' = ae_prev_log_term q
           \<and> ae_leader_commit q' = ae_leader_commit q \<and> ae_read_context q' = ae_read_context q
       | b \<Rightarrow> pm_body m' = b)"
proof -
  obtain b where b: "k_peer_decode [] data = ([], Some (m\<lparr>pm_body := b\<rparr>))" "arrives (pm_body m) b"
    using peer_roundtrip[OF assms] by blast
  show ?thesis
  proof (cases "pm_body m")
    case (RAFT_MSG_APPEND q)
    then obtain n where n: "kept q n" "b = RAFT_MSG_APPEND (cut_append q n)" using b(2) by (auto simp: arrives_def)
    have "0 < ae_entry_count q \<longrightarrow> 0 < n" using n(1) by (simp add: kept_def)
    moreover have "ae_entry_count (cut_append q n) = int n" "ae_term (cut_append q n) = ae_term q" "ae_leader_id (cut_append q n) = ae_leader_id q"
      "ae_prev_log_index (cut_append q n) = ae_prev_log_index q" "ae_prev_log_term (cut_append q n) = ae_prev_log_term q"
      "ae_leader_commit (cut_append q n) = ae_leader_commit q" "ae_read_context (cut_append q n) = ae_read_context q"
      by (simp_all add: cut_append_def Let_def)
    ultimately show ?thesis using RAFT_MSG_APPEND b(1) n(2) cut_entries[OF n(1)] by (auto intro!: exI[of _ "cut_append q n"])
  qed (use b in \<open>auto simp: arrives_def\<close>)
qed

definition slice_message :: raft_peer_message where
  "slice_message = \<lparr> pm_from = 2, pm_to = 1, pm_term = 3, pm_body = RAFT_MSG_APPEND slice_rpc \<rparr>"

lemma slice_message_fits: "msg_fits slice_message"
  by code_simp

lemma one_entry_encoded:
  assumes "pm_body m = RAFT_MSG_APPEND q" "ae_entry_count q = 1" "ae_entry_terms q \<noteq> None" "ae_entry_data q \<noteq> None"
    and "masks_short q 0" "entry_length q 0 + entry_size q 0 \<le> 1000"
  shows "\<exists>data. k_peer_encode [] m = ([], Some data)"
proof -
  let ?fs = "[FU8 (word_of_int (msg_type (pm_body m))), FI32 (pm_from m), FI32 (pm_to m), FI64 (pm_term m)]"
  define sb where "sb = put_fields ([], k_buf_zero) ?fs"
  have l: "length (concat (map wire ?fs)) = 17" by (simp add: u8c.length_enc i32c.length_enc i64c.length_enc)
  have z: "holds ([], k_buf_zero) []" by (simp add: holds_def) (simp add: k_buf_zero_def)
  have h: "holds sb ([] @ concat (map wire ?fs))" unfolding sb_def by (rule holds_fields[OF z]) (use l in simp)
  have "sizes_sum q 0 1 = entry_size q 0" by (simp add: sizes_sum_def)
  then have "fst (encode_append sb q) = [] \<and> \<not> buf_err (snd (encode_append sb q)) \<and> length (buf_data (snd (encode_append sb q))) \<le> K_FRAME_MAX"
    using encode_append_whole[OF h, of q] assms l by simp
  moreover have "k_peer_encode [] m = payload_done (encode_append sb q)" unfolding k_peer_encode_def sb_def[symmetric] using assms(1) by simp
  ultimately show ?thesis by (auto simp: payload_done_def split: prod.splits)
qed

lemma slice_message_encoded: "\<exists>data. k_peer_encode [] slice_message = ([], Some data)"
  by (rule one_entry_encoded[of _ slice_rpc])
     (simp_all add: slice_message_def slice_rpc_def masks_short_def entry_length_def entry_size_def entry_mask_def)

theorem peer_codec_roundtrip_witness:
  "\<exists>data m' q'. k_peer_encode [] slice_message = ([], Some data) \<and> k_peer_decode [] data = ([], Some m')
     \<and> pm_body m' = RAFT_MSG_APPEND q' \<and> msg_entries q' = msg_entries slice_rpc"
proof -
  obtain data where d: "k_peer_encode [] slice_message = ([], Some data)" using slice_message_encoded by blast
  have l: "length (msg_entries slice_rpc) = 1" "ae_entry_count slice_rpc = 1" by (simp_all add: msg_entries_def) (simp_all add: slice_rpc_def)
  obtain m' q' n where m: "k_peer_decode [] data = ([], Some m')" "pm_body m' = RAFT_MSG_APPEND q'" "msg_entries q' = take n (msg_entries slice_rpc)" "0 < n"
    using peer_codec_roundtrip[OF d slice_message_fits] l by (auto simp: slice_message_def)
  then have "msg_entries q' = msg_entries slice_rpc" using l by simp
  then show ?thesis using d m by blast
qed

text \<open>A prefix of a slice is a slice.\<close>

lemma carries_cut: "kept q n \<Longrightarrow> carries q l \<Longrightarrow> carries (cut_append q n) l"
  using cut_entries[of q n] by (simp add: carries_def) (simp add: cut_append_def Let_def)

text \<open>C31. Replication through the wire: when the AppendEntries a leader queues is encoded into a peer frame,
  even cut to what fits the frame, and the follower decodes and handles it, the follower's log
  stays well-formed and keeps matching the leader's, loses no shared entry, and its commit index
  grows only over entries that are the leader's own and within the leader's commit index.\<close>

theorem replication_over_wire:
  assumes "log_wf (ctx_log ldr)" "log_wf (ctx_log fol)" "0 \<le> lg_last_included_index (ctx_log fol)"
    and "matching (ctx_log fol) (ctx_log ldr)"
    and "lg_last_included_index (ctx_log ldr) < pr_next_index pr" "pr_next_index pr \<le> last_index ldr + 1"
    and "pm_body m = RAFT_MSG_APPEND (fst (append_body ldr pr offset))" "msg_fits m"
    and "k_peer_encode s m = (s', Some data)" "k_peer_decode [] data = (s'', Some m')"
    and "raft_recv_body fol (pm_from m') (pm_body m') = (rc, fol')"
  shows "aligned (ctx_log ldr) (ctx_log fol) (ctx_log fol') \<and> commit_index fol \<le> commit_index fol'
    \<and> (commit_index fol < commit_index fol' \<longrightarrow> commit_index fol' \<le> commit_index ldr \<and> agree_upto (ctx_log fol') (ctx_log ldr) (commit_index fol'))"
proof -
  let ?q = "fst (append_body ldr pr offset)"
  obtain n where n: "kept ?q n" "pm_body m' = RAFT_MSG_APPEND (cut_append ?q n)"
    using peer_roundtrip[OF assms(9,8)] assms(7,10) by (auto simp: arrives_def)
  have c: "carries (cut_append ?q n) (ctx_log ldr)" by (rule carries_cut[OF n(1) queued_carries[OF assms(1,5,6)]])
  have "ae_leader_commit (cut_append ?q n) = commit_index ldr"
    by (simp add: append_body_form entries_body_def heartbeat_body_def cut_append_def Let_def)
  moreover have "raft_recv_append_entries fol (pm_from m') (cut_append ?q n) = (rc, fol')" using assms(11) n(2) by simp
  ultimately show ?thesis using recv_append_aligned[OF assms(2-4) c] by auto
qed

definition leader_message :: raft_peer_message where
  "leader_message = \<lparr> pm_from = 2, pm_to = 1, pm_term = 3, pm_body = RAFT_MSG_APPEND (fst (append_body leader_node peer_at_5 0)) \<rparr>"

lemma leader_message_fits: "msg_fits leader_message"
  by code_simp

lemma leader_message_encoded: "\<exists>data. k_peer_encode [] leader_message = ([], Some data)"
proof (rule one_entry_encoded)
  let ?q = "fst (append_body leader_node peer_at_5 0)"
  show "pm_body leader_message = RAFT_MSG_APPEND ?q" by (simp add: leader_message_def)
  show "ae_entry_count ?q = 1" "ae_entry_terms ?q \<noteq> None" "ae_entry_data ?q \<noteq> None" "masks_short ?q 0"
    "entry_length ?q 0 + entry_size ?q 0 \<le> 1000" by code_simp+
qed

theorem replication_over_wire_witness:
  "\<exists>data m'. k_peer_encode [] leader_message = ([], Some data) \<and> k_peer_decode [] data = ([], Some m')
     \<and> aligned leader_log sample_log (ctx_log (snd (raft_recv_body follower_node (pm_from m') (pm_body m'))))"
proof -
  obtain data where d: "k_peer_encode [] leader_message = ([], Some data)" using leader_message_encoded by blast
  obtain b where b: "k_peer_decode [] data = ([], Some (leader_message\<lparr>pm_body := b\<rparr>))" using peer_roundtrip[OF d leader_message_fits] by blast
  let ?m = "leader_message\<lparr>pm_body := b\<rparr>"
  obtain rc r' where e: "raft_recv_body follower_node (pm_from ?m) (pm_body ?m) = (rc, r')" by fastforce
  have f: "ctx_log follower_node = sample_log" by (simp add: follower_node_def)
  have z: "0 \<le> lg_last_included_index sample_log" by (simp add: sample_log_def)
  have q: "pm_body leader_message = RAFT_MSG_APPEND (fst (append_body leader_node peer_at_5 0))" by (simp add: leader_message_def)
  have "aligned leader_log sample_log (ctx_log r')"
    using replication_over_wire[OF _ _ _ _ _ _ q leader_message_fits d b e] f z sample_log_wf follower_matching leader_node_simps by simp
  then show ?thesis using d b e by auto
qed

subsection \<open>Client responses\<close>

text \<open>A response the server builds is what the client reads: request id, status, leader id, host, port
  and body come back, for every host name shorter than the client's host buffer.\<close>

theorem response_roundtrip:
  assumes "k_response_payload s request_id status leader_id host port body = (s', Some data)"
    and "length (case host of None \<Rightarrow> [] | Some h \<Rightarrow> h) < K_HOST_MAX"
  shows "k_response_decode [] data = ([], Some \<lparr> resp_id = request_id, resp_status = status, resp_leader = word_of_int leader_id,
     resp_host = (case host of None \<Rightarrow> [] | Some h \<Rightarrow> h), resp_port = port, resp_body = body \<rparr>)"
proof -
  define h where "h = (case host of None \<Rightarrow> [] | Some h \<Rightarrow> h)"
  let ?fs = "[FU32 request_id, FU8 status, FI32 leader_id, FU16 (of_nat (length h)), FBytes h, FU16 port,
           FU32 (of_nat (length body)), FBytes body]"
  have hl: "length h < K_HOST_MAX" using assms(2) unfolding h_def .
  define sb where "sb = put_fields (s, k_buf_zero) ?fs"
  have p: "payload_done sb = (s', Some data)" using assms(1) hl unfolding k_response_payload_def h_def[symmetric] Let_def sb_def by (simp split: if_splits)
  then have d: "\<not> buf_err (snd sb)" "data = buf_data (snd sb)" "length data \<le> K_FRAME_MAX" by (auto simp: payload_done_def split: prod.splits if_splits)
  have data: "data = concat (map wire ?fs)" using d encode_start(2)[of s ?fs] unfolding sb_def by simp
  have bl: "length body \<le> K_FRAME_MAX" using d(3) data by simp
  have u: "unat (of_nat (length body) :: u32) = length body" using bl by (simp add: unat_small)
  have uh: "unat (of_nat (length h) :: u16) = length h" using hl by (simp add: unat_of_nat)
  have z: "(of_nat (length body) :: u32) = 0 \<Longrightarrow> body = []" using u by (metis length_0_conv unat_0)
  show ?thesis using hl z unfolding k_response_decode_def rdr_init data h_def[symmetric] by (simp add: u uh Let_def)
qed

theorem response_roundtrip_witness:
  "\<exists>data. k_response_payload [] 7 0 2 (Some [104]) 9000 [1, 2] = ([], Some data)
     \<and> k_response_decode [] data = ([], Some \<lparr> resp_id = 7, resp_status = 0, resp_leader = 2, resp_host = [104], resp_port = 9000, resp_body = [1, 2] \<rparr>)"
proof -
  let ?fs = "[FU32 7, FU8 0, FI32 2, FU16 (of_nat (length [104 :: u8])), FBytes [104], FU16 9000, FU32 (of_nat (length [1 :: u8, 2])), FBytes [1, 2]]"
  have z: "holds ([], k_buf_zero) []" by (simp add: holds_def) (simp add: k_buf_zero_def)
  have l: "length (concat (map wire ?fs)) = 20" by (simp add: u8c.length_enc u16c.length_enc u32c.length_enc i32c.length_enc)
  have h: "holds (put_fields ([], k_buf_zero) ?fs) ([] @ concat (map wire ?fs))" by (rule holds_fields[OF z]) (use l in simp)
  have e: "k_response_payload [] 7 0 2 (Some [104]) 9000 [1, 2] = ([], Some (concat (map wire ?fs)))"
    using h l unfolding k_response_payload_def holds_def Let_def by (auto simp: payload_done_def split: prod.splits)
  show ?thesis using e response_roundtrip[OF e] by simp
qed

end
