(* ===== verification/Server_Wal.thy ===== *)
theory Server_Wal
  imports Server_Codec
begin

section \<open>The write-ahead log of the server\<close>

text \<open>
  The durable state of a server (\<^verbatim>\<open>src/code/kserver.h\<close>): the configuration file, the two-slot
  metadata file, WAL records in numbered segments, and recovery, which scans the segments,
  checks generations and checksums and rebuilds the persisted Raft state that \<^verbatim>\<open>raft_create\<close>
  restores. A file is its bytes, an absent file is empty (\<^verbatim>\<open>vfs_open\<close> creates what is missing).
  Reads depend on the contents only; opening, writing and syncing can fail, and a failed write may
  have stored any prefix of its data: the outcomes are scripted like allocations. Positions are
  64-bit words in the metadata and naturals while a segment is scanned.
\<close>

abbreviation K_STATE_MAX :: nat where "K_STATE_MAX \<equiv> 268435456"
abbreviation K_WAL_HEADER_SIZE :: nat where "K_WAL_HEADER_SIZE \<equiv> 24"
abbreviation K_WAL_META_SLOT_SIZE :: nat where "K_WAL_META_SLOT_SIZE \<equiv> 128"
abbreviation K_WAL_META_SLOT_GAP :: nat where "K_WAL_META_SLOT_GAP \<equiv> 4096"
abbreviation K_WAL_META_SIZE :: nat where "K_WAL_META_SIZE \<equiv> 8192"
abbreviation K_WAL_META_FSYNC_EVERY :: int where "K_WAL_META_FSYNC_EVERY \<equiv> 64"
abbreviation K_WAL_SCAN_EMPTY_PREFIX_MAX :: nat where "K_WAL_SCAN_EMPTY_PREFIX_MAX \<equiv> 64"
abbreviation K_WAL_SCAN_EMPTY_PREFIX_MAX_UNUSED_SLOT :: nat where "K_WAL_SCAN_EMPTY_PREFIX_MAX_UNUSED_SLOT \<equiv> 2"
abbreviation K_WAL_SCAN_TAIL_SEGMENTS :: nat where "K_WAL_SCAN_TAIL_SEGMENTS \<equiv> 8"
abbreviation K_WAL_MAGIC :: u32 where "K_WAL_MAGIC \<equiv> 0x314c574b"
abbreviation K_WAL_VERSION :: u32 where "K_WAL_VERSION \<equiv> 1"
abbreviation K_WAL_META_MAGIC :: u32 where "K_WAL_META_MAGIC \<equiv> 0x314d574b"
abbreviation K_WAL_META_VERSION :: u32 where "K_WAL_META_VERSION \<equiv> 2"
abbreviation K_CFG_MAGIC :: u32 where "K_CFG_MAGIC \<equiv> 0x3147464b"
abbreviation K_CFG_VERSION :: u32 where "K_CFG_VERSION \<equiv> 2"
abbreviation K_CFG_PAYLOAD_SIZE :: nat where "K_CFG_PAYLOAD_SIZE \<equiv> 40"

subsection \<open>Files\<close>

text \<open>The outcome of a file operation: \<open>None\<close> for success, \<open>Some k\<close> for a failure after \<open>k\<close> bytes.\<close>

type_synonym io_script = "nat option list"

definition io :: "io_script \<Rightarrow> nat option \<times> io_script" where
  "io s = (case s of [] \<Rightarrow> (None, []) | o1 # s \<Rightarrow> (o1, s))"

definition vfs_read :: "bytes \<Rightarrow> nat \<Rightarrow> nat \<Rightarrow> bytes option" where
  "vfs_read file off n = (if n = 0 \<or> off + n \<le> length file then Some (take n (drop off file)) else None)"

definition store_at :: "bytes \<Rightarrow> nat \<Rightarrow> bytes \<Rightarrow> bytes" where
  "store_at file off d = (if d = [] then file else take off (file @ replicate (off - length file) 0) @ d @ drop (off + length d) file)"

definition vfs_write :: "io_script \<Rightarrow> bytes \<Rightarrow> nat \<Rightarrow> bytes \<Rightarrow> bool \<times> io_script \<times> bytes" where
  "vfs_write s file off d =
    (case io s of (None, s) \<Rightarrow> (True, s, store_at file off d) | (Some k, s) \<Rightarrow> (False, s, store_at file off (take k d)))"

definition vfs_sync :: "io_script \<Rightarrow> bool \<times> io_script" where
  "vfs_sync s = (case io s of (o1, s) \<Rightarrow> (o1 = None, s))"

record wal_disk =
  wd_cfg :: bytes
  wd_meta :: bytes
  wd_segs :: "bytes list"
  wd_snaps :: "int \<Rightarrow> bytes"

definition seg_data :: "wal_disk \<Rightarrow> nat \<Rightarrow> bytes" where
  "seg_data d i = (if i < length (wd_segs d) then wd_segs d ! i else [])"

definition set_seg :: "wal_disk \<Rightarrow> nat \<Rightarrow> bytes \<Rightarrow> wal_disk" where
  "set_seg d i bs = d\<lparr>wd_segs := (wd_segs d @ replicate (Suc i - length (wd_segs d)) [])[i := bs]\<rparr>"

subsection \<open>Configuration file\<close>

record k_cfg =
  cfg_seed :: u64
  cfg_wal_seg_size :: u64
  cfg_flush_timeout_ms :: u32
  cfg_flush_item_limit :: u32
  cfg_flush_bytes_limit :: u32
  cfg_snapshot_segments :: u32
  cfg_snapshot_entries :: u32
  cfg_poll_ms :: u32

definition k_cfg_defaults :: k_cfg where
  "k_cfg_defaults = \<lparr> cfg_seed = 0, cfg_wal_seg_size = 67108864, cfg_flush_timeout_ms = 3, cfg_flush_item_limit = 32,
     cfg_flush_bytes_limit = 262144, cfg_snapshot_segments = 10, cfg_snapshot_entries = 64, cfg_poll_ms = 10 \<rparr>"

definition k_cfg_validate :: "k_cfg \<Rightarrow> bool" where
  "k_cfg_validate c \<longleftrightarrow> \<not> (cfg_wal_seg_size c = 0 \<or> cfg_flush_timeout_ms c = 0 \<or> cfg_flush_item_limit c = 0)
     \<and> \<not> (cfg_flush_item_limit c > 65536 \<or> cfg_flush_bytes_limit c > 268435456 \<or> cfg_snapshot_segments c = 0
         \<or> cfg_snapshot_entries c = 0 \<or> cfg_poll_ms c = 0 \<or> cfg_poll_ms c > 60000)"

definition cfg_payload :: "k_cfg \<Rightarrow> bytes" where
  "cfg_payload c = k_write_u64 (cfg_seed c) @ k_write_u64 (cfg_wal_seg_size c) @ k_write_u32 (cfg_flush_timeout_ms c)
     @ k_write_u32 (cfg_flush_item_limit c) @ k_write_u32 (cfg_snapshot_segments c) @ k_write_u32 (cfg_snapshot_entries c)
     @ k_write_u32 (cfg_poll_ms c) @ k_write_u32 (cfg_flush_bytes_limit c)"

definition k_cfg_store :: "io_script \<Rightarrow> wal_disk \<Rightarrow> k_cfg \<Rightarrow> bool \<times> io_script \<times> wal_disk" where
  "k_cfg_store s d c =
    (if \<not> k_cfg_validate c then (False, s, d)
     else
       let p = cfg_payload c;
           data = k_write_u32 K_CFG_MAGIC @ k_write_u32 K_CFG_VERSION @ k_write_u32 (of_nat K_CFG_PAYLOAD_SIZE) @ k_write_u32 (k_crc32 p) @ p;
           (o1, s) = io s
       in if o1 \<noteq> None then (False, s, d)
          else
            let (ok, s, f) = vfs_write s (wd_cfg d) 0 data; d = d\<lparr>wd_cfg := f\<rparr>
            in if \<not> ok then (False, s, d) else let (ok, s) = vfs_sync s in (ok, s, d))"

text \<open>\<open>Inl True\<close>: no file; \<open>Inl False\<close>: unusable; \<open>Inr c\<close>: loaded.\<close>

definition k_cfg_load :: "io_script \<Rightarrow> wal_disk \<Rightarrow> io_script \<times> (bool + k_cfg)" where
  "k_cfg_load s d =
    (let (o1, s) = io s
     in if o1 \<noteq> None then (s, Inl False)
        else case vfs_read (wd_cfg d) 0 56 of
            None \<Rightarrow> (s, Inl (vfs_read (wd_cfg d) 0 1 = None))
          | Some data \<Rightarrow>
              let p = drop 16 data;
                  c = \<lparr> cfg_seed = k_read_u64 p, cfg_wal_seg_size = k_read_u64 (drop 8 p), cfg_flush_timeout_ms = k_read_u32 (drop 16 p),
                        cfg_flush_item_limit = k_read_u32 (drop 20 p), cfg_flush_bytes_limit = k_read_u32 (drop 36 p),
                        cfg_snapshot_segments = k_read_u32 (drop 24 p), cfg_snapshot_entries = k_read_u32 (drop 28 p),
                        cfg_poll_ms = k_read_u32 (drop 32 p) \<rparr>
              in if k_read_u32 data \<noteq> K_CFG_MAGIC \<or> k_read_u32 (drop 4 data) \<noteq> K_CFG_VERSION
                    \<or> k_read_u32 (drop 8 data) \<noteq> of_nat K_CFG_PAYLOAD_SIZE then (s, Inl False)
                 else if k_crc32 p \<noteq> k_read_u32 (drop 12 data) then (s, Inl False)
                 else if k_cfg_validate c then (s, Inr c) else (s, Inl False))"

definition k_cfg_open :: "io_script \<Rightarrow> wal_disk \<Rightarrow> k_cfg option \<times> io_script \<times> wal_disk" where
  "k_cfg_open s d =
    (case k_cfg_load s d of
       (s, Inr c) \<Rightarrow> (Some c, s, d)
     | (s, Inl False) \<Rightarrow> (None, s, d)
     | (s, Inl True) \<Rightarrow>
         (case k_cfg_store s d k_cfg_defaults of (ok, s, d) \<Rightarrow> (if ok then Some k_cfg_defaults else None, s, d)))"

subsection \<open>Metadata slots\<close>

record k_wal_pos =
  wp_segment :: u64
  wp_offset :: u64

record k_wal_meta_state =
  wm_slot :: nat
  wm_generation :: u64
  wm_record :: k_wal_pos
  wm_record_size :: u64
  wm_next :: k_wal_pos

definition wal_meta_zero :: k_wal_meta_state where
  "wal_meta_zero = \<lparr> wm_slot = 0, wm_generation = 0, wm_record = \<lparr> wp_segment = 0, wp_offset = 0 \<rparr>, wm_record_size = 0,
     wm_next = \<lparr> wp_segment = 0, wp_offset = 0 \<rparr> \<rparr>"

definition k_wal_pos_cmp :: "k_wal_pos \<Rightarrow> k_wal_pos \<Rightarrow> int" where
  "k_wal_pos_cmp a b =
    (if wp_segment a < wp_segment b then -1 else if wp_segment a > wp_segment b then 1
     else if wp_offset a < wp_offset b then -1 else if wp_offset a > wp_offset b then 1 else 0)"

definition slot_head :: "k_wal_meta_state \<Rightarrow> bytes" where
  "slot_head st = k_write_u32 K_WAL_META_MAGIC @ k_write_u32 K_WAL_META_VERSION @ k_write_u64 (wm_generation st)
     @ k_write_u64 (wp_segment (wm_record st)) @ k_write_u64 (wp_offset (wm_record st)) @ k_write_u64 (wm_record_size st)
     @ k_write_u64 (wp_segment (wm_next st)) @ k_write_u64 (wp_offset (wm_next st))"

definition k_wal_meta_slot_encode :: "k_wal_meta_state \<Rightarrow> bytes" where
  "k_wal_meta_slot_encode st = slot_head st @ k_write_u32 (k_crc32 (slot_head st)) @ replicate (K_WAL_META_SLOT_SIZE - 60) 0"

definition k_wal_meta_slot_decode :: "bytes \<Rightarrow> k_wal_meta_state option" where
  "k_wal_meta_slot_decode sl =
    (if k_read_u32 sl \<noteq> K_WAL_META_MAGIC \<or> k_read_u32 (drop 4 sl) \<noteq> K_WAL_META_VERSION then None
     else if k_crc32 (take 56 sl) \<noteq> k_read_u32 (drop 56 sl) then None
     else
       let st = \<lparr> wm_slot = 0, wm_generation = k_read_u64 (drop 8 sl),
                  wm_record = \<lparr> wp_segment = k_read_u64 (drop 16 sl), wp_offset = k_read_u64 (drop 24 sl) \<rparr>,
                  wm_record_size = k_read_u64 (drop 32 sl),
                  wm_next = \<lparr> wp_segment = k_read_u64 (drop 40 sl), wp_offset = k_read_u64 (drop 48 sl) \<rparr> \<rparr>
       in if wm_generation st = 0 then
            if wp_segment (wm_record st) \<noteq> 0 \<or> wp_offset (wm_record st) \<noteq> 0 \<or> wm_record_size st \<noteq> 0
               \<or> wp_segment (wm_next st) \<noteq> 0 \<or> wp_offset (wm_next st) \<noteq> 0 then None else Some st
          else if wm_record_size st < of_nat K_WAL_HEADER_SIZE \<or> wm_record_size st > of_nat K_STATE_MAX + of_nat K_WAL_HEADER_SIZE then None
          else Some st)"

text \<open>\<open>Inl True\<close>: nothing was ever written; \<open>Inl False\<close>: damaged; \<open>Inr st\<close>: the newest valid slot.\<close>

definition k_wal_meta_load :: "io_script \<Rightarrow> wal_disk \<Rightarrow> io_script \<times> (bool + k_wal_meta_state)" where
  "k_wal_meta_load s d =
    (let (o1, s) = io s
     in if o1 \<noteq> None then (s, Inl False)
        else case vfs_read (wd_meta d) 0 K_WAL_META_SIZE of
            None \<Rightarrow> (s, Inl (vfs_read (wd_meta d) 0 1 = None))
          | Some data \<Rightarrow>
              (case (k_wal_meta_slot_decode data, k_wal_meta_slot_decode (drop K_WAL_META_SLOT_GAP data)) of
                 (None, None) \<Rightarrow> (s, Inl False)
               | (Some a, None) \<Rightarrow> (s, Inr (a\<lparr>wm_slot := 0\<rparr>))
               | (None, Some b) \<Rightarrow> (s, Inr (b\<lparr>wm_slot := 1\<rparr>))
               | (Some a, Some b) \<Rightarrow>
                   if wm_generation a > wm_generation b
                      \<or> wm_generation a = wm_generation b \<and> k_wal_pos_cmp (wm_next a) (wm_next b) > 0
                   then (s, Inr (a\<lparr>wm_slot := 0\<rparr>)) else (s, Inr (b\<lparr>wm_slot := 1\<rparr>))))"

definition k_wal_meta_init :: "io_script \<Rightarrow> wal_disk \<Rightarrow> bool \<times> io_script \<times> wal_disk" where
  "k_wal_meta_init s d =
    (let sl = k_wal_meta_slot_encode (wal_meta_zero\<lparr>wm_slot := 1\<rparr>);
         pad = replicate (K_WAL_META_SLOT_GAP - K_WAL_META_SLOT_SIZE) 0;
         (o1, s) = io s
     in if o1 \<noteq> None then (False, s, d)
        else
          let (ok, s, f) = vfs_write s (wd_meta d) 0 (sl @ pad @ sl @ pad); d = d\<lparr>wd_meta := f\<rparr>
          in if \<not> ok then (False, s, d) else let (ok, s) = vfs_sync s in (ok, s, d))"

subsection \<open>The restored view\<close>

record wal_entry =
  wn_index :: int
  wn_term :: int
  wn_kind :: u8
  wn_cfg_old :: raft_mask
  wn_cfg_new :: raft_mask
  wn_cfg_learners :: raft_mask
  wn_data :: "bytes option"
  wn_size :: nat

record k_restore =
  rs_term :: int
  rs_voted_for :: int
  rs_last_included_index :: int
  rs_last_included_term :: int
  rs_snapshot_size :: int
  rs_cfg_old :: raft_mask
  rs_cfg_new :: raft_mask
  rs_cfg_learners :: raft_mask
  rs_entries :: "wal_entry list"
  rs_entry_capacity :: nat
  rs_block_count :: nat
  rs_block_capacity :: nat
  rs_block_size :: nat
  rs_block_used :: nat
  rs_generation :: u64

definition restore_zero :: k_restore where
  "restore_zero = \<lparr> rs_term = 0, rs_voted_for = 0, rs_last_included_index = 0, rs_last_included_term = 0, rs_snapshot_size = 0,
     rs_cfg_old = [], rs_cfg_new = [], rs_cfg_learners = [], rs_entries = [], rs_entry_capacity = 0, rs_block_count = 0,
     rs_block_capacity = 0, rs_block_size = 0, rs_block_used = 0, rs_generation = 0 \<rparr>"

definition k_restore_blocks_reserve :: "script \<Rightarrow> k_restore \<Rightarrow> bool \<times> script \<times> k_restore" where
  "k_restore_blocks_reserve s rs =
    (if rs_block_count rs < rs_block_capacity rs then (True, s, rs)
     else
       let cap = (if rs_block_capacity rs = 0 then 8 else rs_block_capacity rs * 2); (ok, s) = alloc s
       in if ok then (True, s, rs\<lparr>rs_block_capacity := cap\<rparr>) else (False, s, rs))"

text \<open>The copy of the entry bytes, \<open>None\<close> for a null pointer. The blocks pointer is null until the first
  reservation, that is while the capacity is 0. After a reservation whose block could not be allocated the code
  indexes the blocks array at -1; the model takes the result for a null pointer.\<close>

definition k_restore_store :: "script \<Rightarrow> k_restore \<Rightarrow> bytes \<Rightarrow> bytes option \<times> script \<times> k_restore" where
  "k_restore_store s rs data =
    (if data = [] then (None, s, rs)
     else
       let rs = (if rs_block_size rs = 0 then rs\<lparr>rs_block_size := 262144\<rparr> else rs);
           size = length data
       in if rs_block_capacity rs = 0 \<or> rs_block_used rs + size > rs_block_size rs then
            let (ok, s, rs) = k_restore_blocks_reserve s rs
            in if \<not> ok then (None, s, rs)
               else
                 let want = (if size > rs_block_size rs then size else rs_block_size rs); (ok, s) = alloc s
                 in if \<not> ok then (None, s, rs)
                    else (Some data, s, rs\<lparr>rs_block_count := rs_block_count rs + 1,
                           rs_block_size := (if want > rs_block_size rs then want else rs_block_size rs), rs_block_used := size\<rparr>)
          else if rs_block_count rs = 0 then (None, s, rs)
          else (Some data, s, rs\<lparr>rs_block_used := rs_block_used rs + size\<rparr>))"

text \<open>A later record that re-states an index drops everything from that index on.\<close>

definition drop_from :: "int \<Rightarrow> wal_entry list \<Rightarrow> wal_entry list" where
  "drop_from index es =
    (if es \<noteq> [] \<and> wn_index (last es) < index then es else rev (dropWhile (\<lambda>e. wn_index e \<ge> index) (rev es)))"

definition k_restore_put_entry :: "script \<Rightarrow> k_restore \<Rightarrow> wal_entry \<Rightarrow> int \<Rightarrow> script \<times> k_restore option" where
  "k_restore_put_entry s rs e base_floor =
    (if wn_index e \<le> base_floor then (s, Some rs)
     else
       let es = drop_from (wn_index e) (rs_entries rs)
       in if length es \<ge> rs_entry_capacity rs then
            let cap = (if rs_entry_capacity rs = 0 then 64 else rs_entry_capacity rs * 2); (ok, s) = alloc s
            in if ok then (s, Some (rs\<lparr>rs_entries := es @ [e], rs_entry_capacity := cap\<rparr>)) else (s, None)
          else (s, Some (rs\<lparr>rs_entries := es @ [e]\<rparr>)))"

datatype header_mode = K_RESTORE_HDR_NONE | K_RESTORE_HDR_TERMVOTE | K_RESTORE_HDR_BASE

fun decode_wal_entries :: "script \<Rightarrow> nat \<Rightarrow> k_reader \<Rightarrow> k_restore \<Rightarrow> int \<Rightarrow> script \<times> (k_reader \<times> k_restore) option" where
  "decode_wal_entries s 0 r rs base_floor = (s, Some (r, rs))"
| "decode_wal_entries s (Suc n) r rs base_floor =
    (let (index, r) = k_reader_i64 r; (t, r) = k_reader_i64 r; (k, r) = k_reader_u8 r; (size, r) = k_reader_u32 r
     in case read_masks s r of
          (s, None, r) \<Rightarrow> (s, None)
        | (s, Some (om, nm, lm), r) \<Rightarrow>
            if rd_err r then (s, None)
            else
              let (bytes, r) = k_reader_bytes r (unat size)
              in if rd_err r then (s, None)
                 else
                   let (d, s, rs) = k_restore_store s rs (the bytes)
                   in case k_restore_put_entry s rs \<lparr> wn_index = sint index, wn_term = sint t, wn_kind = k, wn_cfg_old = om,
                             wn_cfg_new = nm, wn_cfg_learners = lm, wn_data = d, wn_size = unat size \<rparr> base_floor of
                        (s, None) \<Rightarrow> (s, None)
                      | (s, Some rs) \<Rightarrow> decode_wal_entries s n r rs base_floor)"

definition adopt_header :: "header_mode \<Rightarrow> k_restore \<Rightarrow> int \<Rightarrow> int \<Rightarrow> int \<Rightarrow> int \<Rightarrow> int \<Rightarrow> raft_mask \<times> raft_mask \<times> raft_mask \<Rightarrow> k_restore" where
  "adopt_header mode rs t v li lt sz ms =
    (case mode of
       K_RESTORE_HDR_NONE \<Rightarrow> rs
     | K_RESTORE_HDR_TERMVOTE \<Rightarrow>
         if t > rs_term rs then rs\<lparr>rs_term := t, rs_voted_for := v\<rparr> else if t = rs_term rs then rs\<lparr>rs_voted_for := v\<rparr> else rs
     | K_RESTORE_HDR_BASE \<Rightarrow>
         rs\<lparr>rs_last_included_index := li, rs_last_included_term := lt, rs_snapshot_size := sz, rs_cfg_old := fst ms,
            rs_cfg_new := fst (snd ms), rs_cfg_learners := snd (snd ms)\<rparr>)"

definition k_state_decode_record ::
  "script \<Rightarrow> k_restore \<Rightarrow> bytes \<Rightarrow> u64 \<Rightarrow> header_mode \<Rightarrow> int \<Rightarrow> script \<times> k_restore option" where
  "k_state_decode_record s rs payload gen mode base_floor =
    (if payload = [] then (s, None)
     else
       let r = k_reader_init payload; (t, r) = k_reader_i64 r; (v, r) = k_reader_i32 r; (li, r) = k_reader_i64 r;
           (lt, r) = k_reader_i64 r; (sz, r) = k_reader_i64 r
       in case read_masks s r of
            (s, None, r) \<Rightarrow> (s, None)
          | (s, Some ms, r) \<Rightarrow>
              let (count, r) = k_reader_u32 r
              in if rd_err r \<or> unat count > 2147483647 then (s, None)
                 else
                   case decode_wal_entries s (unat count) r (adopt_header mode rs (sint t) (sint v) (sint li) (sint lt) (sint sz) ms) base_floor of
                     (s, None) \<Rightarrow> (s, None)
                   | (s, Some (r, rs)) \<Rightarrow>
                       if rd_off r \<noteq> length (rd_data r) then (s, None)
                       else (s, Some (if gen > rs_generation rs then rs\<lparr>rs_generation := gen\<rparr> else rs)))"

subsection \<open>Recovery\<close>

text \<open>A snapshot file ends with the CRC of what precedes it; index 0 needs no file.\<close>

definition k_snapshot_verify_file :: "io_script \<Rightarrow> wal_disk \<Rightarrow> int \<Rightarrow> bool \<times> io_script" where
  "k_snapshot_verify_file s d index =
    (if index \<le> 0 then (True, s)
     else
       let (o1, s) = io s; f = wd_snaps d index; n = length f - 4
       in if o1 \<noteq> None then (False, s)
          else if length f < 4 then (False, s)
          else (k_crc32 (take n f) = k_read_u32 (drop n f), s))"

record wal_scan =
  sc_restore :: k_restore
  sc_records :: nat
  sc_gen :: u64
  sc_rec :: "nat \<times> nat \<times> nat"
  sc_base :: int
  sc_prev_base :: int
  sc_b :: "nat \<times> nat \<times> nat"
  sc_v :: "nat \<times> nat \<times> nat"
  sc_base_rec :: "nat \<times> nat \<times> nat"
  sc_prev_seg_gen :: u64
  sc_prev_seg_gen_known :: bool

definition scan_zero :: wal_scan where
  "scan_zero = \<lparr> sc_restore = restore_zero, sc_records = 0, sc_gen = 0, sc_rec = (0, 0, 0), sc_base = 0, sc_prev_base = 0,
     sc_b = (0, 0, 0), sc_v = (0, 0, 0), sc_base_rec = (0, 0, 0), sc_prev_seg_gen = 0, sc_prev_seg_gen_known = False \<rparr>"

text \<open>The bookkeeping for one complete record, before it is decoded.\<close>

definition scan_note :: "wal_scan \<Rightarrow> nat \<Rightarrow> nat \<Rightarrow> bytes \<Rightarrow> wal_scan" where
  "scan_note st seg off payload =
    (let here = (seg, off, K_WAL_HEADER_SIZE + length payload);
         base = sint (k_read_i64 (drop 12 payload));
         st = st\<lparr>sc_records := sc_records st + 1\<rparr>;
         st = (if length payload \<ge> 24 \<and> sc_base st \<noteq> base
               then st\<lparr>sc_prev_base := sc_base st, sc_v := sc_b st, sc_base := base, sc_base_rec := here\<rparr> else st)
     in st\<lparr>sc_b := here\<rparr>)"

text \<open>How the scan of a segment ends, other than by a refusal.\<close>

datatype seg_tail = Clean_End | Header_Torn | Payload_Torn

function wal_segment ::
  "script \<Rightarrow> nat \<Rightarrow> bytes \<Rightarrow> nat \<Rightarrow> bool \<Rightarrow> u64 \<Rightarrow> wal_scan \<Rightarrow> script \<times> (seg_tail \<times> bool \<times> u64 \<times> wal_scan) option" where
  "wal_segment s seg data off have_rec prev st =
    (case vfs_read data off K_WAL_HEADER_SIZE of
       None \<Rightarrow> (s, Some (if vfs_read data off 1 = None then Clean_End else Header_Torn, have_rec, prev, st))
     | Some h \<Rightarrow>
         if k_read_u32 h \<noteq> K_WAL_MAGIC \<or> k_read_u32 (drop 4 h) \<noteq> K_WAL_VERSION then (s, None)
         else
           let size = unat (k_read_u32 (drop 16 h)); gen = k_read_u64 (drop 8 h)
           in if size = 0 \<or> size > K_STATE_MAX \<or> gen = 0 then (s, None)
              else if \<not> have_rec \<and> sc_prev_seg_gen st \<noteq> 0
                   \<and> (gen \<le> sc_prev_seg_gen st \<or> sc_prev_seg_gen_known st \<and> gen \<noteq> sc_prev_seg_gen st + 1) then (s, None)
              else if have_rec \<and> gen \<noteq> prev + 1 then (s, None)
              else
                let (ok, s) = alloc s
                in if \<not> ok then (s, None)
                   else case vfs_read data (off + K_WAL_HEADER_SIZE) size of
                       None \<Rightarrow> (s, Some (Payload_Torn, have_rec, prev, st))
                     | Some p \<Rightarrow>
                         if k_crc32 p \<noteq> k_read_u32 (drop 20 h) then (s, None)
                         else
                           let st = scan_note st seg off p
                           in case k_state_decode_record s (sc_restore st) p gen K_RESTORE_HDR_TERMVOTE 0 of
                                (s, None) \<Rightarrow> (s, None)
                              | (s, Some rs) \<Rightarrow>
                                  wal_segment s seg data (off + (K_WAL_HEADER_SIZE + size)) True gen
                                    (st\<lparr>sc_restore := rs, sc_gen := gen, sc_rec := (seg, off, K_WAL_HEADER_SIZE + size)\<rparr>))"
  by pat_completeness auto
termination
  by (relation "measure (\<lambda>(s, seg, data, off, h, p, st). length data - off)") (auto simp: vfs_read_def split: if_splits)

declare wal_segment.simps [simp del]

text \<open>The segment loop. The jump to the tail happens at most once and only with metadata present.\<close>

function wal_segments ::
  "script \<Rightarrow> io_script \<Rightarrow> wal_disk \<Rightarrow> bool \<Rightarrow> nat \<Rightarrow> bool \<Rightarrow> nat \<Rightarrow> wal_scan \<Rightarrow> script \<times> io_script \<times> wal_scan option" where
  "wal_segments s ios d meta_absent last_seg jumped seg st =
    (if \<not> (seg \<le> last_seg \<or> meta_absent) then (s, ios, Some st)
     else if sc_records st = 0 \<and> (\<not> jumped \<or> meta_absent)
          \<and> seg \<ge> (if meta_absent then K_WAL_SCAN_EMPTY_PREFIX_MAX_UNUSED_SLOT else K_WAL_SCAN_EMPTY_PREFIX_MAX) then
       if meta_absent then (s, ios, Some st)
       else wal_segments s ios d meta_absent last_seg True
              ((if last_seg > K_WAL_SCAN_TAIL_SEGMENTS + 1 then last_seg - K_WAL_SCAN_TAIL_SEGMENTS - 1 else 0) + 1) st
     else
       let (o1, ios) = io ios
       in if o1 \<noteq> None \<or> seg_data d seg = [] then
            if sc_records st > 0 then (s, ios, Some st)
            else wal_segments s ios d meta_absent last_seg jumped (seg + 1) st
          else case wal_segment s seg (seg_data d seg) 0 False 0 st of
              (s, None) \<Rightarrow> (s, ios, None)
            | (s, Some (tail, have_rec, prev, st)) \<Rightarrow>
                wal_segments s ios d meta_absent last_seg jumped (seg + 1)
                  (if have_rec then st\<lparr>sc_prev_seg_gen := prev, sc_prev_seg_gen_known := (tail \<noteq> Header_Torn)\<rparr> else st))"
  by pat_completeness auto
termination
  by (relation "measures [\<lambda>(s, ios, d, ma, ls, j, seg, st). if j then 0 else 1,
        \<lambda>(s, ios, d, ma, ls, j, seg, st). max (max (length (wd_segs d)) 64) (Suc ls) - seg]")
     (auto simp: seg_data_def max_def split: if_splits)

declare wal_segments.simps [simp del]

datatype wal_loaded = Load_Error | Load_None | Load_Empty k_wal_meta_state | Load_Ok k_restore k_wal_meta_state

fun contiguous :: "int \<Rightarrow> wal_entry list \<Rightarrow> bool" where
  "contiguous want [] = True"
| "contiguous want (e # es) = (wn_index e = want \<and> contiguous (want + 1) es)"

text \<open>Which base recovery uses: the newest, or the one before it when its snapshot is not usable.\<close>

definition pick_base :: "io_script \<Rightarrow> wal_disk \<Rightarrow> wal_scan \<Rightarrow> io_script \<times> (int \<times> nat \<times> nat \<times> nat) option" where
  "pick_base ios d st =
    (let n_base = (if sc_base st < sc_prev_base st then sc_prev_base st else sc_base st);
         (ok, ios) = k_snapshot_verify_file ios d n_base
     in if ok then (ios, Some (n_base, sc_base_rec st))
        else if n_base > 0 \<and> sc_prev_base st > 0 then
          let (ok, ios) = k_snapshot_verify_file ios d (sc_prev_base st)
          in if ok then (ios, Some (sc_prev_base st, sc_v st)) else (ios, None)
        else if n_base > 0 then (ios, None)
        else (ios, Some (n_base, sc_base_rec st)))"

text \<open>Reading the snapshot metadata from the record that carries the base.\<close>

definition decode_base :: "script \<Rightarrow> io_script \<Rightarrow> wal_disk \<Rightarrow> wal_scan \<Rightarrow> int \<Rightarrow> nat \<times> nat \<times> nat \<Rightarrow> script \<times> io_script \<times> k_restore option" where
  "decode_base s ios d st base use_rec =
    (if base > 0 then
       let (seg, off, size) = use_rec
       in if size = 0 then (s, ios, None)
          else
            let (o1, ios) = io ios
            in if o1 \<noteq> None then (s, ios, None)
               else
                 let (ok, s) = alloc s
                 in if \<not> ok then (s, ios, None)
                    else case vfs_read (seg_data d seg) (off + K_WAL_HEADER_SIZE) (size - K_WAL_HEADER_SIZE) of
                        None \<Rightarrow> (s, ios, None)
                      | Some p \<Rightarrow> (case k_state_decode_record s (sc_restore st) p (sc_gen st) K_RESTORE_HDR_BASE 0 of (s, rs) \<Rightarrow> (s, ios, rs))
     else (s, ios, Some (sc_restore st)))"

definition finish_load :: "script \<Rightarrow> io_script \<Rightarrow> wal_disk \<Rightarrow> wal_scan \<Rightarrow> k_wal_meta_state \<Rightarrow> script \<times> io_script \<times> wal_loaded" where
  "finish_load s ios d st m =
    (case pick_base ios d st of
       (ios, None) \<Rightarrow> (s, ios, Load_Error)
     | (ios, Some (base, use_rec)) \<Rightarrow>
         (case decode_base s ios d st base use_rec of
            (s, ios, None) \<Rightarrow> (s, ios, Load_Error)
          | (s, ios, Some rs) \<Rightarrow>
              if rs_last_included_index rs \<noteq> base then (s, ios, Load_Error)
              else
                let es = filter (\<lambda>e. wn_index e > base) (rs_entries rs); (seg, off, size) = sc_rec st
                in if \<not> contiguous (base + 1) es then (s, ios, Load_Error)
                   else (s, ios, Load_Ok (rs\<lparr>rs_entries := es, rs_generation := sc_gen st\<rparr>)
                          (m\<lparr>wm_generation := sc_gen st, wm_record := \<lparr> wp_segment = of_nat seg, wp_offset = of_nat off \<rparr>,
                             wm_record_size := of_nat size, wm_next := \<lparr> wp_segment = of_nat seg, wp_offset = of_nat off + of_nat size \<rparr>\<rparr>))))"

text \<open>The log ends before a record that the metadata says was acknowledged.\<close>

definition behind_ack :: "wal_scan \<Rightarrow> k_wal_meta_state \<Rightarrow> bool" where
  "behind_ack st m =
    (let (seg, off, size) = sc_rec st; ack_seg = wp_segment (wm_record m); ack_off = wp_offset (wm_record m) + wm_record_size m
     in of_nat seg < ack_seg \<or> of_nat seg = ack_seg \<and> of_nat off + of_nat size < ack_off)"

definition k_wal_state_load :: "script \<Rightarrow> io_script \<Rightarrow> wal_disk \<Rightarrow> script \<times> io_script \<times> wal_loaded" where
  "k_wal_state_load s ios d =
    (case k_wal_meta_load ios d of
       (ios, Inl False) \<Rightarrow> (s, ios, Load_Error)
     | (ios, loaded) \<Rightarrow>
         let m = (case loaded of Inr m \<Rightarrow> m | Inl _ \<Rightarrow> wal_meta_zero);
             meta_absent = (case loaded of Inr m \<Rightarrow> wm_generation m = 0 | Inl _ \<Rightarrow> True)
         in case wal_segments s ios d meta_absent (unat (wp_segment (wm_next m))) False 0 scan_zero of
              (s, ios, None) \<Rightarrow> (s, ios, Load_Error)
            | (s, ios, Some st) \<Rightarrow>
                if sc_records st = 0 then
                  if \<not> meta_absent \<and> wm_record_size m > 0 then (s, ios, Load_Error)
                  else (s, ios, case loaded of Inl _ \<Rightarrow> Load_None | Inr m \<Rightarrow> Load_Empty m)
                else if \<not> meta_absent \<and> wm_record_size m > 0 \<and> behind_ack st m then (s, ios, Load_Error)
                else finish_load s ios d st m)"

text \<open>\<^verbatim>\<open>k_state_load\<close>: the restored view if there is one, the metadata, and whether a log exists.\<close>

definition k_state_load :: "script \<Rightarrow> io_script \<Rightarrow> wal_disk \<Rightarrow> script \<times> io_script \<times> (k_restore option \<times> k_wal_meta_state \<times> bool) option" where
  "k_state_load s ios d =
    (case k_wal_state_load s ios d of
       (s, ios, Load_Error) \<Rightarrow> (s, ios, None)
     | (s, ios, Load_None) \<Rightarrow> (s, ios, Some (None, wal_meta_zero, False))
     | (s, ios, Load_Empty m) \<Rightarrow> (s, ios, Some (None, m, True))
     | (s, ios, Load_Ok rs m) \<Rightarrow> (s, ios, Some (Some rs, m, True)))"

subsection \<open>Writing records\<close>

record k_snapshot_cache =
  kc_index :: int
  kc_term :: int
  kc_size :: int
  kc_old_ids :: raft_mask
  kc_new_ids :: raft_mask
  kc_learner_ids :: raft_mask

definition k_mask_copy :: "script \<Rightarrow> raft_mask \<Rightarrow> (raft_mask option) \<times> script" where
  "k_mask_copy s m = (if m = [] then (Some [], s) else let (ok, s) = alloc s in (if ok then Some m else None, s))"

definition k_snapshot_cache_set ::
  "script \<Rightarrow> int \<Rightarrow> int \<Rightarrow> int \<Rightarrow> raft_mask \<Rightarrow> raft_mask \<Rightarrow> raft_mask \<Rightarrow> script \<times> k_snapshot_cache option" where
  "k_snapshot_cache_set s index t sz om nm lm =
    (case k_mask_copy s om of
       (None, s) \<Rightarrow> (s, None)
     | (Some om, s) \<Rightarrow>
         (case k_mask_copy s nm of
            (None, s) \<Rightarrow> (s, None)
          | (Some nm, s) \<Rightarrow>
              (case k_mask_copy s lm of
                 (None, s) \<Rightarrow> (s, None)
               | (Some lm, s) \<Rightarrow> (s, Some \<lparr> kc_index = index, kc_term = t, kc_size = sz, kc_old_ids = om, kc_new_ids = nm, kc_learner_ids = lm \<rparr>))))"

record wal_bundle =
  wb_payload :: bytes
  wb_durable_index :: int
  wb_item_count :: nat
  wb_snapshot_after :: "k_snapshot_cache option"
  wb_old_snapshot_index :: int

definition put_persist_entry :: "script \<times> k_buf \<Rightarrow> raft_persist_entry \<Rightarrow> script \<times> k_buf" where
  "put_persist_entry sb e =
     put_field (k_buf_mask (k_buf_mask (k_buf_mask
       (put_fields sb [FI64 (pe_index e), FI64 (pe_term e), FU8 (pe_kind e), FU32 (of_nat (length (pe_data e)))])
       (pe_cfg_old e)) (pe_cfg_new e)) (pe_cfg_learners e)) (FBytes (pe_data e))"

definition state_payload :: "script \<Rightarrow> raft_persist \<Rightarrow> int \<Rightarrow> raft_mask \<Rightarrow> raft_mask \<Rightarrow> raft_mask \<Rightarrow> script \<times> k_buf" where
  "state_payload s p sz om nm lm =
     foldl put_persist_entry
       (put_field (k_buf_mask (k_buf_mask (k_buf_mask (put_fields (s, k_buf_zero)
          [FI64 (ps_term p), FI32 (ps_voted_for p), FI64 (ps_last_included_index p), FI64 (ps_last_included_term p), FI64 sz]) om) nm) lm)
          (FU32 (of_nat (length (ps_log_entries p))))) (ps_log_entries p)"

definition k_state_serialize :: "script \<Rightarrow> k_snapshot_cache \<Rightarrow> raft_persist \<Rightarrow> script \<times> wal_bundle option" where
  "k_state_serialize s cache p =
    (let (size, om, nm, lm) = (if ps_snapshot_dirty p
           then (ps_snapshot_size p, ps_snapshot_cfg_old p, ps_snapshot_cfg_new p, ps_snapshot_cfg_learners p)
           else (kc_size cache, kc_old_ids cache, kc_new_ids cache, kc_learner_ids cache));
         (s, b) = state_payload s p size om nm lm
     in if buf_err b \<or> length (buf_data b) > K_STATE_MAX then (s, None)
        else
          let w = \<lparr> wb_payload = buf_data b,
                    wb_durable_index = (if ps_log_entries p = [] then ps_last_included_index p else pe_index (last (ps_log_entries p))),
                    wb_item_count = length (ps_log_entries p), wb_snapshot_after = None, wb_old_snapshot_index = 0 \<rparr>
          in if ps_snapshot_dirty p then
               (case k_snapshot_cache_set s (ps_last_included_index p) (ps_last_included_term p) (ps_snapshot_size p)
                  (ps_snapshot_cfg_old p) (ps_snapshot_cfg_new p) (ps_snapshot_cfg_learners p) of
                  (s, None) \<Rightarrow> (s, None)
                | (s, Some c) \<Rightarrow> (s, Some (w\<lparr>wb_snapshot_after := Some c, wb_old_snapshot_index := kc_index cache\<rparr>)))
             else (s, Some w))"

record k_wal_worker =
  ww_meta_slot :: nat
  ww_generation :: u64
  ww_next :: k_wal_pos
  ww_seg_file :: "u64 option"
  ww_meta_file :: bool
  ww_open_files :: int
  ww_meta_since_sync :: int
  ww_meta_sync_segment :: u64

definition k_wal_files_close :: "k_wal_worker \<Rightarrow> k_wal_worker" where
  "k_wal_files_close w =
    (let w = (if ww_seg_file w \<noteq> None then w\<lparr>ww_seg_file := None, ww_open_files := (if ww_open_files w > 0 then ww_open_files w - 1 else ww_open_files w)\<rparr> else w)
     in if ww_meta_file w then w\<lparr>ww_meta_file := False, ww_open_files := (if ww_open_files w > 0 then ww_open_files w - 1 else ww_open_files w)\<rparr> else w)"

definition k_wal_seg_file :: "io_script \<Rightarrow> k_wal_worker \<Rightarrow> u64 \<Rightarrow> bool \<times> io_script \<times> k_wal_worker" where
  "k_wal_seg_file ios w seg =
    (if ww_seg_file w = Some seg then (True, ios, w)
     else
       let w = (if ww_seg_file w \<noteq> None then w\<lparr>ww_seg_file := None, ww_open_files := (if ww_open_files w > 0 then ww_open_files w - 1 else ww_open_files w)\<rparr> else w);
           (o1, ios) = io ios
       in if o1 \<noteq> None then (False, ios, w)
          else (True, ios, w\<lparr>ww_seg_file := Some seg, ww_open_files := ww_open_files w + 1\<rparr>))"

definition k_wal_meta_file :: "io_script \<Rightarrow> k_wal_worker \<Rightarrow> bool \<times> io_script \<times> k_wal_worker" where
  "k_wal_meta_file ios w =
    (if ww_meta_file w then (True, ios, w)
     else let (o1, ios) = io ios
          in if o1 \<noteq> None then (False, ios, w) else (True, ios, w\<lparr>ww_meta_file := True, ww_open_files := ww_open_files w + 1\<rparr>))"

definition k_wal_meta_store ::
  "io_script \<Rightarrow> wal_disk \<Rightarrow> k_wal_worker \<Rightarrow> k_wal_meta_state \<Rightarrow> bool \<Rightarrow> bool \<times> io_script \<times> wal_disk \<times> k_wal_worker" where
  "k_wal_meta_store ios d w m durable =
    (let w = w\<lparr>ww_generation := wm_generation m, ww_next := wm_next m\<rparr>
     in if \<not> durable then (True, ios, d, w)
        else
          let next_slot = (if ww_meta_slot w = 0 then 1 else 0);
              (ok, ios, w) = k_wal_meta_file ios w
          in if \<not> ok then (False, ios, d, w)
             else
               let (ok, ios, f) = vfs_write ios (wd_meta d) (next_slot * K_WAL_META_SLOT_GAP) (k_wal_meta_slot_encode m); d = d\<lparr>wd_meta := f\<rparr>;
                   (ok, ios) = (if ok then vfs_sync ios else (False, ios))
               in if \<not> ok then (False, ios, d, k_wal_files_close w) else (True, ios, d, w\<lparr>ww_meta_slot := next_slot\<rparr>))"

definition wal_header :: "u64 \<Rightarrow> bytes \<Rightarrow> bytes" where
  "wal_header gen payload = k_write_u32 K_WAL_MAGIC @ k_write_u32 K_WAL_VERSION @ k_write_u64 gen
     @ k_write_u32 (of_nat (length payload)) @ k_write_u32 (k_crc32 payload)"

text \<open>Writing the header and the payload of a record and syncing the segment.\<close>

definition write_record :: "io_script \<Rightarrow> wal_disk \<Rightarrow> k_wal_pos \<Rightarrow> bytes \<Rightarrow> bytes \<Rightarrow> bool \<times> io_script \<times> wal_disk" where
  "write_record ios d pos hdr payload =
    (let seg = unat (wp_segment pos); off = unat (wp_offset pos);
         (ok, ios, f) = vfs_write ios (seg_data d seg) off hdr; d = set_seg d seg f
     in if \<not> ok then (False, ios, d)
        else
          let (ok, ios, f) = vfs_write ios (seg_data d seg) (off + K_WAL_HEADER_SIZE) payload; d = set_seg d seg f
          in if \<not> ok then (False, ios, d) else let (ok, ios) = vfs_sync ios in (ok, ios, d))"

text \<open>The position the worker takes for a record of a given size.\<close>

definition take_pos :: "k_wal_worker \<Rightarrow> u64 \<Rightarrow> u64 \<Rightarrow> k_wal_pos" where
  "take_pos w segment_size n = (let pos = ww_next w in
     if wp_offset pos > 0 \<and> (n > segment_size \<or> wp_offset pos > segment_size - n) then \<lparr> wp_segment = wp_segment pos + 1, wp_offset = 0 \<rparr> else pos)"

text \<open>The metadata an append reports, and whether its slot is due to be synced.\<close>

definition rec_meta :: "u64 \<Rightarrow> k_wal_pos \<Rightarrow> u64 \<Rightarrow> u64 \<Rightarrow> k_wal_meta_state" where
  "rec_meta gen pos n segment_size = (let next = \<lparr> wp_segment = wp_segment pos, wp_offset = wp_offset pos + n \<rparr>;
      next = (if n \<ge> segment_size \<or> wp_offset next \<ge> segment_size then \<lparr> wp_segment = wp_segment next + 1, wp_offset = 0 \<rparr> else next)
    in \<lparr> wm_slot = 0, wm_generation = gen, wm_record = pos, wm_record_size = n, wm_next = next \<rparr>)"

definition count_sync :: "k_wal_worker \<Rightarrow> k_wal_pos \<Rightarrow> bool \<times> k_wal_worker" where
  "count_sync w pos = (let w = w\<lparr>ww_meta_since_sync := ww_meta_since_sync w + 1\<rparr>;
      durable = (wp_segment pos \<noteq> ww_meta_sync_segment w \<or> ww_meta_since_sync w \<ge> K_WAL_META_FSYNC_EVERY)
    in (durable, if durable then w\<lparr>ww_meta_since_sync := 0, ww_meta_sync_segment := wp_segment pos\<rparr> else w))"

definition k_wal_append_bundle ::
  "io_script \<Rightarrow> wal_disk \<Rightarrow> k_wal_worker \<Rightarrow> u64 \<Rightarrow> bytes \<Rightarrow> k_wal_meta_state option \<times> io_script \<times> wal_disk \<times> k_wal_worker" where
  "k_wal_append_bundle ios d w segment_size payload =
    (if payload = [] \<or> ww_generation w = 0xffffffffffffffff then (None, ios, d, w)
     else
       let gen = ww_generation w + 1;
           record_size = of_nat (K_WAL_HEADER_SIZE + length payload) :: u64;
           pos = take_pos w segment_size record_size;
           (ok, ios, w) = k_wal_seg_file ios w (wp_segment pos)
       in if \<not> ok then (None, ios, d, w)
          else
            let (ok, ios, d) = write_record ios d pos (wal_header gen payload) payload
            in if \<not> ok then (None, ios, d, k_wal_files_close w)
               else
                 let m = rec_meta gen pos record_size segment_size;
                     (durable, w) = count_sync w pos;
                     (ok, ios, d, w) = k_wal_meta_store ios d w m durable
                 in if \<not> ok then (None, ios, d, w) else (Some (m\<lparr>wm_slot := ww_meta_slot w\<rparr>), ios, d, w))"

end
