(* ===== verification/Server_Wal_Laws.thy ===== *)
theory Server_Wal_Laws
  imports Server_Wal
begin

section \<open>Laws of the write-ahead log\<close>

text \<open>
  What recovery reads is what was written: round trips of the configuration file, the metadata
  slots and the record payloads, the scan of a segment with complete records and a torn tail, and
  the replay of the records.
\<close>

subsection \<open>Reading fixed fields\<close>

lemmas write_lengths [simp] = u8c.length_enc u16c.length_enc u32c.length_enc u64c.length_enc i32c.length_enc i64c.length_enc

lemma write_nonempty [simp]: "k_write_i64 a \<noteq> []" "k_write_u32 b \<noteq> []"
  by (simp_all add: k_write_i64_def k_write_u32_def)

lemma read_write [simp]:
  "k_read_u32 (k_write_u32 a @ r) = a" "k_read_u64 (k_write_u64 b @ r) = b" "k_read_i64 (k_write_i64 c @ r) = c"
  by (simp_all add: u32c.dec_enc u64c.dec_enc i64c.dec_enc)

lemma read_write_last [simp]:
  "k_read_u32 (k_write_u32 a) = a" "k_read_u64 (k_write_u64 b) = b"
  using read_write(1)[of a "[]"] read_write(2)[of b "[]"] by simp_all

lemma length_slot_head [simp]: "length (slot_head st) = 56"
  by (simp add: slot_head_def u32c.length_enc u64c.length_enc)

definition meta_ok :: "k_wal_meta_state \<Rightarrow> bool" where
  "meta_ok st \<longleftrightarrow> (if wm_generation st = 0
     then wm_record st = \<lparr> wp_segment = 0, wp_offset = 0 \<rparr> \<and> wm_record_size st = 0 \<and> wm_next st = \<lparr> wp_segment = 0, wp_offset = 0 \<rparr>
     else of_nat K_WAL_HEADER_SIZE \<le> wm_record_size st \<and> wm_record_size st \<le> of_nat K_STATE_MAX + of_nat K_WAL_HEADER_SIZE)"

lemma slot_roundtrip: "meta_ok st \<Longrightarrow> k_wal_meta_slot_decode (k_wal_meta_slot_encode st @ rest) = Some (st\<lparr>wm_slot := 0\<rparr>)"
proof -
  assume ok: "meta_ok st"
  define sl where "sl = k_wal_meta_slot_encode st @ rest"
  define z where "z = replicate (K_WAL_META_SLOT_SIZE - 60) (0 :: u8) @ rest"
  have sl: "sl = slot_head st @ k_write_u32 (k_crc32 (slot_head st)) @ z" by (simp add: sl_def k_wal_meta_slot_encode_def z_def)
  have t: "take 56 sl = slot_head st" unfolding sl by simp
  have c: "k_read_u32 (drop 56 sl) = k_crc32 (slot_head st)" unfolding sl by simp
  have f: "k_read_u32 sl = K_WAL_META_MAGIC" "k_read_u32 (drop 4 sl) = K_WAL_META_VERSION" "k_read_u64 (drop 8 sl) = wm_generation st"
    "k_read_u64 (drop 16 sl) = wp_segment (wm_record st)" "k_read_u64 (drop 24 sl) = wp_offset (wm_record st)" "k_read_u64 (drop 32 sl) = wm_record_size st"
    "k_read_u64 (drop 40 sl) = wp_segment (wm_next st)" "k_read_u64 (drop 48 sl) = wp_offset (wm_next st)"
    unfolding sl slot_head_def by simp_all
  show ?thesis unfolding sl_def[symmetric] k_wal_meta_slot_decode_def Let_def t c f using ok by (auto simp: meta_ok_def split: if_splits)
qed

subsection \<open>Configuration file\<close>

lemma length_cfg_payload [simp]: "length (cfg_payload c) = 40"
  by (simp add: cfg_payload_def u32c.length_enc u64c.length_enc)

lemma cfg_load_stored:
  assumes "k_cfg_validate c" "wd_cfg d = k_write_u32 K_CFG_MAGIC @ k_write_u32 K_CFG_VERSION @ k_write_u32 40 @ k_write_u32 (k_crc32 (cfg_payload c)) @ cfg_payload c @ rest"
  shows "k_cfg_load [] d = ([], Inr c)"
proof -
  define data where "data = k_write_u32 K_CFG_MAGIC @ k_write_u32 K_CFG_VERSION @ k_write_u32 40 @ k_write_u32 (k_crc32 (cfg_payload c)) @ cfg_payload c"
  have r: "vfs_read (wd_cfg d) 0 56 = Some data" by (simp add: assms(2) data_def vfs_read_def u32c.length_enc)
  have p: "drop 16 data = cfg_payload c" by (simp add: data_def)
  have f: "k_read_u64 (cfg_payload c) = cfg_seed c" "k_read_u64 (drop 8 (cfg_payload c)) = cfg_wal_seg_size c" "k_read_u32 (drop 16 (cfg_payload c)) = cfg_flush_timeout_ms c"
    "k_read_u32 (drop 20 (cfg_payload c)) = cfg_flush_item_limit c" "k_read_u32 (drop 36 (cfg_payload c)) = cfg_flush_bytes_limit c"
    "k_read_u32 (drop 24 (cfg_payload c)) = cfg_snapshot_segments c" "k_read_u32 (drop 28 (cfg_payload c)) = cfg_snapshot_entries c" "k_read_u32 (drop 32 (cfg_payload c)) = cfg_poll_ms c"
    by (simp_all add: cfg_payload_def)
  have g: "k_read_u32 data = K_CFG_MAGIC" "k_read_u32 (drop 4 data) = K_CFG_VERSION" "k_read_u32 (drop 8 data) = 40" "k_read_u32 (drop 12 data) = k_crc32 (cfg_payload c)"
    by (simp_all add: data_def)
  have e: "\<lparr> cfg_seed = cfg_seed c, cfg_wal_seg_size = cfg_wal_seg_size c, cfg_flush_timeout_ms = cfg_flush_timeout_ms c,
      cfg_flush_item_limit = cfg_flush_item_limit c, cfg_flush_bytes_limit = cfg_flush_bytes_limit c, cfg_snapshot_segments = cfg_snapshot_segments c,
      cfg_snapshot_entries = cfg_snapshot_entries c, cfg_poll_ms = cfg_poll_ms c \<rparr> = c" by (cases c) simp
  show ?thesis unfolding k_cfg_load_def using assms(1) by (simp add: io_def r p f g e Let_def)
qed

subsection \<open>Record payloads\<close>

text \<open>The logical content of the restored view: its allocation bookkeeping is left out.\<close>

definition view :: "k_restore \<Rightarrow> k_restore" where
  "view rs = rs\<lparr>rs_entry_capacity := 0, rs_block_count := 0, rs_block_capacity := 0, rs_block_size := 0, rs_block_used := 0\<rparr>"

definition blocks_ok :: "k_restore \<Rightarrow> bool" where
  "blocks_ok rs \<longleftrightarrow> (rs_block_capacity rs \<noteq> 0 \<longrightarrow> rs_block_count rs \<noteq> 0)"

lemma view_fields:
  "rs_term (view rs) = rs_term rs" "rs_voted_for (view rs) = rs_voted_for rs" "rs_last_included_index (view rs) = rs_last_included_index rs"
  "rs_last_included_term (view rs) = rs_last_included_term rs" "rs_snapshot_size (view rs) = rs_snapshot_size rs" "rs_cfg_old (view rs) = rs_cfg_old rs"
  "rs_cfg_new (view rs) = rs_cfg_new rs" "rs_cfg_learners (view rs) = rs_cfg_learners rs" "rs_entries (view rs) = rs_entries rs"
  "rs_generation (view rs) = rs_generation rs"
  by (simp_all add: view_def)

lemma viewD:
  assumes "view a = view b"
  shows "rs_term a = rs_term b" "rs_voted_for a = rs_voted_for b" "rs_last_included_index a = rs_last_included_index b"
    "rs_last_included_term a = rs_last_included_term b" "rs_snapshot_size a = rs_snapshot_size b" "rs_cfg_old a = rs_cfg_old b"
    "rs_cfg_new a = rs_cfg_new b" "rs_cfg_learners a = rs_cfg_learners b" "rs_entries a = rs_entries b" "rs_generation a = rs_generation b"
  using view_fields[of a] view_fields[of b] assms by simp_all

lemma restore_store:
  assumes "blocks_ok rs" "k_restore_store [] rs data = (d, s, rs')"
  shows "d = (if data = [] then None else Some data) \<and> s = [] \<and> view rs' = view rs \<and> blocks_ok rs'"
proof -
  have r: "\<exists>y. k_restore_blocks_reserve [] x = (True, [], y) \<and> view y = view x" for x
    by (auto simp: k_restore_blocks_reserve_def view_def Let_def)
  define rs0 where "rs0 = (if rs_block_size rs = 0 then rs\<lparr>rs_block_size := 262144\<rparr> else rs)"
  have v0: "view rs0 = view rs" "blocks_ok rs0" "rs_block_capacity rs0 = rs_block_capacity rs" "rs_block_count rs0 = rs_block_count rs"
    using assms(1) by (simp_all add: rs0_def view_def blocks_ok_def)
  obtain y where y: "k_restore_blocks_reserve [] rs0 = (True, [], y)" "view y = view rs0" using r by blast
  show ?thesis
  proof (cases "data = []")
    case True
    then show ?thesis using assms by (simp add: k_restore_store_def)
  next
    case False
    show ?thesis
    proof (cases "rs_block_capacity rs0 = 0 \<or> rs_block_used rs0 + length data > rs_block_size rs0")
      case True
      then have "d = Some data" "s = []" "view rs' = view y" "blocks_ok rs'"
        using False assms(2) y(1) unfolding k_restore_store_def rs0_def[symmetric] Let_def by (auto simp: view_def blocks_ok_def)
      then show ?thesis using False y(2) v0 by simp
    next
      case nc: False
      then have "rs_block_count rs0 \<noteq> 0" using v0(2) by (simp add: blocks_ok_def)
      then have "d = Some data" "s = []" "view rs' = view rs0" "blocks_ok rs'"
        using False nc assms(2) unfolding k_restore_store_def rs0_def[symmetric] Let_def by (auto simp: view_def blocks_ok_def)
      then show ?thesis using False v0 by simp
    qed
  qed
qed

text \<open>Placing an entry in the replayed log.\<close>

definition place :: "wal_entry list \<Rightarrow> wal_entry \<Rightarrow> wal_entry list" where
  "place es e = (if wn_index e \<le> 0 then es else drop_from (wn_index e) es @ [e])"

lemma restore_put:
  assumes "blocks_ok rs"
  shows "\<exists>rs'. k_restore_put_entry [] rs e 0 = ([], Some rs') \<and> view rs' = (view rs)\<lparr>rs_entries := place (rs_entries rs) e\<rparr> \<and> blocks_ok rs'"
  using assms by (auto simp: k_restore_put_entry_def place_def view_def blocks_ok_def Let_def)

definition entry_view :: "raft_persist_entry \<Rightarrow> wal_entry" where
  "entry_view e = \<lparr> wn_index = pe_index e, wn_term = pe_term e, wn_kind = pe_kind e, wn_cfg_old = pe_cfg_old e, wn_cfg_new = pe_cfg_new e,
     wn_cfg_learners = pe_cfg_learners e, wn_data = (if pe_data e = [] then None else Some (pe_data e)), wn_size = length (pe_data e) \<rparr>"

definition pe_wire :: "raft_persist_entry \<Rightarrow> bytes" where
  "pe_wire e = k_write_i64 (word_of_int (pe_index e)) @ k_write_i64 (word_of_int (pe_term e)) @ k_write_u8 (pe_kind e)
     @ k_write_u32 (of_nat (length (pe_data e))) @ mask_wire (pe_cfg_old e) @ mask_wire (pe_cfg_new e) @ mask_wire (pe_cfg_learners e) @ pe_data e"

definition pe_fits :: "raft_persist_entry \<Rightarrow> bool" where
  "pe_fits e \<longleftrightarrow> fits64 (pe_index e) \<and> fits64 (pe_term e) \<and> list_all fits32 (pe_cfg_old e) \<and> list_all fits32 (pe_cfg_new e)
     \<and> list_all fits32 (pe_cfg_learners e)"

definition pe_ok :: "raft_persist_entry \<Rightarrow> bool" where
  "pe_ok e \<longleftrightarrow> fits64 (pe_index e) \<and> fits64 (pe_term e) \<and> mask_ok (pe_cfg_old e) \<and> mask_ok (pe_cfg_new e) \<and> mask_ok (pe_cfg_learners e)
     \<and> length (pe_data e) \<le> K_STATE_MAX"

lemma decode_wal_entries_law:
  assumes "list_all pe_ok es" "blocks_ok rs"
  shows "\<exists>rs'. decode_wal_entries [] (length es) (rdr pre (concat (map pe_wire es) @ rest)) rs 0
      = ([], Some (rdr (pre @ concat (map pe_wire es)) rest, rs'))
    \<and> view rs' = (view rs)\<lparr>rs_entries := foldl place (rs_entries rs) (map entry_view es)\<rparr> \<and> blocks_ok rs'"
  using assms
proof (induction es arbitrary: rs pre)
  case Nil
  then show ?case by (simp add: view_def)
next
  case (Cons e es)
  have ok: "fits64 (pe_index e)" "fits64 (pe_term e)" "mask_ok (pe_cfg_old e)" "mask_ok (pe_cfg_new e)" "mask_ok (pe_cfg_learners e)"
    "unat (of_nat (length (pe_data e)) :: u32) = length (pe_data e)" using Cons.prems(1) by (simp_all add: pe_ok_def unat_small)
  obtain d s rs1 where st: "k_restore_store [] rs (pe_data e) = (d, s, rs1)" by (metis prod_cases3)
  note sl = restore_store[OF Cons.prems(2) st]
  obtain rs2 where pt: "k_restore_put_entry [] rs1 (entry_view e) 0 = ([], Some rs2)"
    "view rs2 = (view rs1)\<lparr>rs_entries := place (rs_entries rs1) (entry_view e)\<rparr>" "blocks_ok rs2" using restore_put sl by blast
  have ev: "\<lparr> wn_index = pe_index e, wn_term = pe_term e, wn_kind = pe_kind e, wn_cfg_old = pe_cfg_old e, wn_cfg_new = pe_cfg_new e,
     wn_cfg_learners = pe_cfg_learners e, wn_data = d, wn_size = length (pe_data e) \<rparr> = entry_view e" using sl by (simp add: entry_view_def)
  have s: "s = []" using sl by simp
  have e1: "rs_entries rs1 = rs_entries rs" using viewD(9)[of rs1 rs] sl by simp
  have e2: "rs_entries rs2 = place (rs_entries rs) (entry_view e)" using arg_cong[OF pt(2), of rs_entries] e1 by (simp add: view_fields)
  obtain rs3 where ih: "decode_wal_entries [] (length es) (rdr (pre @ pe_wire e) (concat (map pe_wire es) @ rest)) rs2 0
      = ([], Some (rdr ((pre @ pe_wire e) @ concat (map pe_wire es)) rest, rs3))"
    "view rs3 = (view rs2)\<lparr>rs_entries := foldl place (rs_entries rs2) (map entry_view es)\<rparr>" "blocks_ok rs3"
    using Cons.IH[OF _ pt(3), of "pre @ pe_wire e"] Cons.prems(1) by auto
  have "decode_wal_entries [] (length (e # es)) (rdr pre (concat (map pe_wire (e # es)) @ rest)) rs 0
      = decode_wal_entries [] (length es) (rdr (pre @ pe_wire e) (concat (map pe_wire es) @ rest)) rs2 0"
    using ok st pt(1) ev s by (simp add: pe_wire_def)
  moreover have "view rs3 = (view rs)\<lparr>rs_entries := foldl place (rs_entries rs) (map entry_view (e # es))\<rparr>"
    using ih(2) pt(2) sl e1 e2 by simp
  ultimately show ?case using ih by auto
qed

text \<open>A record payload: the persisted state with the snapshot size and masks it is written with.\<close>

record wal_rec =
  wr_persist :: raft_persist
  wr_size :: int
  wr_old :: raft_mask
  wr_new :: raft_mask
  wr_learners :: raft_mask

definition rec_wire :: "wal_rec \<Rightarrow> bytes" where
  "rec_wire r = (let p = wr_persist r in k_write_i64 (word_of_int (ps_term p)) @ k_write_i32 (word_of_int (ps_voted_for p))
     @ k_write_i64 (word_of_int (ps_last_included_index p)) @ k_write_i64 (word_of_int (ps_last_included_term p)) @ k_write_i64 (word_of_int (wr_size r))
     @ mask_wire (wr_old r) @ mask_wire (wr_new r) @ mask_wire (wr_learners r) @ k_write_u32 (of_nat (length (ps_log_entries p)))
     @ concat (map pe_wire (ps_log_entries p)))"

definition rec_fits :: "wal_rec \<Rightarrow> bool" where
  "rec_fits r \<longleftrightarrow> (let p = wr_persist r in fits64 (ps_term p) \<and> fits32 (ps_voted_for p) \<and> fits64 (ps_last_included_index p)
     \<and> fits64 (ps_last_included_term p) \<and> fits64 (wr_size r) \<and> list_all fits32 (wr_old r) \<and> list_all fits32 (wr_new r) \<and> list_all fits32 (wr_learners r)
     \<and> list_all pe_fits (ps_log_entries p))"

definition rec_ok :: "wal_rec \<Rightarrow> bool" where
  "rec_ok r \<longleftrightarrow> rec_fits r \<and> length (wr_old r) \<le> K_MAX_NODES \<and> length (wr_new r) \<le> K_MAX_NODES \<and> length (wr_learners r) \<le> K_MAX_NODES
     \<and> list_all pe_ok (ps_log_entries (wr_persist r)) \<and> length (rec_wire r) \<le> K_STATE_MAX"

lemma masks_written:
  assumes "buf_wf (snd sb)" "\<not> buf_err (snd (k_buf_mask (k_buf_mask (k_buf_mask sb a) b) c))"
  shows "length a \<le> K_MAX_NODES \<and> length b \<le> K_MAX_NODES \<and> length c \<le> K_MAX_NODES \<and> \<not> buf_err (snd sb)
    \<and> buf_wf (snd (k_buf_mask (k_buf_mask (k_buf_mask sb a) b) c))
    \<and> buf_data (snd (k_buf_mask (k_buf_mask (k_buf_mask sb a) b) c)) = buf_data (snd sb) @ mask_wire a @ mask_wire b @ mask_wire c"
proof -
  have w1: "buf_wf (snd (k_buf_mask sb a))" using appends_mask[of sb a] assms(1) by (simp add: appends_def)
  have w2: "buf_wf (snd (k_buf_mask (k_buf_mask sb a) b))" using appends_mask[of "k_buf_mask sb a" b] w1 by (simp add: appends_def)
  note m3 = mask_written[OF w2 assms(2)]
  note m2 = mask_written[OF w1 m3[THEN conjunct2, THEN conjunct1]]
  note m1 = mask_written[OF assms(1) m2[THEN conjunct2, THEN conjunct1]]
  show ?thesis using m1 m2 m3 by simp
qed

lemma put_pe_law:
  assumes "buf_wf (snd sb)" "\<not> buf_err (snd (put_persist_entry sb e))" "pe_fits e" "length (buf_data (snd (put_persist_entry sb e))) \<le> K_STATE_MAX"
  shows "pe_ok e \<and> \<not> buf_err (snd sb) \<and> buf_wf (snd (put_persist_entry sb e))
    \<and> buf_data (snd (put_persist_entry sb e)) = buf_data (snd sb) @ pe_wire e"
proof -
  define fs where "fs = [FI64 (pe_index e), FI64 (pe_term e), FU8 (pe_kind e), FU32 (of_nat (length (pe_data e)))]"
  define sb1 where "sb1 = put_fields sb fs"
  define sb2 where "sb2 = k_buf_mask (k_buf_mask (k_buf_mask sb1 (pe_cfg_old e)) (pe_cfg_new e)) (pe_cfg_learners e)"
  define sb3 where "sb3 = put_field sb2 (FBytes (pe_data e))"
  have e3: "put_persist_entry sb e = sb3" unfolding put_persist_entry_def fs_def[symmetric] sb1_def[symmetric] sb2_def[symmetric] sb3_def ..
  have a1: "appends sb (concat (map wire fs)) sb1" unfolding sb1_def by (rule appends_fields)
  have w1: "buf_wf (snd sb1)" using a1 assms(1) by (simp add: appends_def)
  have a3: "appends sb2 (pe_data e) sb3" unfolding sb3_def using appends_field[of sb2 "FBytes (pe_data e)"] by simp
  have w2: "buf_wf (snd sb2)"
    using w1 appends_mask[of sb1 "pe_cfg_old e"] appends_mask[of "k_buf_mask sb1 (pe_cfg_old e)" "pe_cfg_new e"]
      appends_mask[of "k_buf_mask (k_buf_mask sb1 (pe_cfg_old e)) (pe_cfg_new e)" "pe_cfg_learners e"] by (simp add: sb2_def appends_def)
  have n2: "\<not> buf_err (snd sb2)" using a3 w2 assms(2) e3 by (auto simp: appends_def)
  note m = masks_written[OF w1 n2[unfolded sb2_def], folded sb2_def]
  have d: "buf_data (snd sb3) = buf_data (snd sb) @ pe_wire e" "\<not> buf_err (snd sb)" "buf_wf (snd sb3)"
    using a1 a3 m w2 assms(1,2) e3 by (auto simp: appends_def pe_wire_def fs_def)
  have "length (pe_data e) \<le> length (pe_wire e)" by (simp add: pe_wire_def)
  moreover have "length (pe_wire e) \<le> length (buf_data (snd sb3))" using d by simp
  ultimately have "length (pe_data e) \<le> K_STATE_MAX" using assms(4) unfolding e3 by linarith
  then show ?thesis using d m assms(3) e3 by (simp add: pe_ok_def pe_fits_def mask_ok_def)
qed

lemma put_pe_appends: "appends sb (pe_wire e) (put_persist_entry sb e)"
  unfolding put_persist_entry_def pe_wire_def
  using appends_trans[OF appends_trans[OF appends_trans[OF appends_trans[OF appends_fields appends_mask] appends_mask] appends_mask] appends_field,
    of sb "[FI64 (pe_index e), FI64 (pe_term e), FU8 (pe_kind e), FU32 (of_nat (length (pe_data e)))]" "pe_cfg_old e" "pe_cfg_new e" "pe_cfg_learners e" "FBytes (pe_data e)"] by simp

lemma put_pes_law:
  assumes "buf_wf (snd sb)" "\<not> buf_err (snd (foldl put_persist_entry sb es))" "list_all pe_fits es"
    "length (buf_data (snd (foldl put_persist_entry sb es))) \<le> K_STATE_MAX"
  shows "list_all pe_ok es \<and> \<not> buf_err (snd sb) \<and> buf_data (snd (foldl put_persist_entry sb es)) = buf_data (snd sb) @ concat (map pe_wire es)"
  using assms
proof (induction es arbitrary: sb)
  case (Cons e es)
  have w: "buf_wf (snd (put_persist_entry sb e))" using put_pe_appends[of sb e] Cons.prems(1) by (simp add: appends_def)
  note ih = Cons.IH[OF w]
  have r: "list_all pe_ok es" "\<not> buf_err (snd (put_persist_entry sb e))"
    "buf_data (snd (foldl put_persist_entry (put_persist_entry sb e) es)) = buf_data (snd (put_persist_entry sb e)) @ concat (map pe_wire es)"
    using ih Cons.prems by simp_all
  have l: "length (buf_data (snd (put_persist_entry sb e))) \<le> K_STATE_MAX" using Cons.prems(4) r(3) by simp
  show ?case using put_pe_law[OF Cons.prems(1) r(2) _ l] Cons.prems(3) r by simp
qed simp

lemma state_payload_law:
  assumes "\<not> buf_err (snd (state_payload s (wr_persist r) (wr_size r) (wr_old r) (wr_new r) (wr_learners r)))"
    and "length (buf_data (snd (state_payload s (wr_persist r) (wr_size r) (wr_old r) (wr_new r) (wr_learners r)))) \<le> K_STATE_MAX" "rec_fits r"
  shows "buf_data (snd (state_payload s (wr_persist r) (wr_size r) (wr_old r) (wr_new r) (wr_learners r))) = rec_wire r \<and> rec_ok r"
proof -
  let ?p = "wr_persist r"
  define fs where "fs = [FI64 (ps_term ?p), FI32 (ps_voted_for ?p), FI64 (ps_last_included_index ?p), FI64 (ps_last_included_term ?p), FI64 (wr_size r)]"
  define sb1 where "sb1 = put_fields (s, k_buf_zero) fs"
  define sb2 where "sb2 = k_buf_mask (k_buf_mask (k_buf_mask sb1 (wr_old r)) (wr_new r)) (wr_learners r)"
  define sb3 where "sb3 = put_field sb2 (FU32 (of_nat (length (ps_log_entries ?p))))"
  define sb4 where "sb4 = foldl put_persist_entry sb3 (ps_log_entries ?p)"
  have f: "state_payload s ?p (wr_size r) (wr_old r) (wr_new r) (wr_learners r) = sb4"
    unfolding state_payload_def fs_def[symmetric] sb1_def[symmetric] sb2_def[symmetric] sb3_def[symmetric] sb4_def ..
  note st = encode_start[of s fs, folded sb1_def]
  have w2: "buf_wf (snd sb2)"
    using st(1) appends_mask[of sb1 "wr_old r"] appends_mask[of "k_buf_mask sb1 (wr_old r)" "wr_new r"]
      appends_mask[of "k_buf_mask (k_buf_mask sb1 (wr_old r)) (wr_new r)" "wr_learners r"] by (simp add: sb2_def appends_def)
  have a3: "appends sb2 (k_write_u32 (of_nat (length (ps_log_entries ?p)))) sb3" unfolding sb3_def using appends_field[of sb2 "FU32 (of_nat (length (ps_log_entries ?p)))"] by simp
  have w3: "buf_wf (snd sb3)" using a3 w2 by (simp add: appends_def)
  have pf: "list_all pe_fits (ps_log_entries ?p)" using assms(3) by (simp add: rec_fits_def Let_def)
  have r4: "list_all pe_ok (ps_log_entries ?p)" "\<not> buf_err (snd sb3)" "buf_data (snd sb4) = buf_data (snd sb3) @ concat (map pe_wire (ps_log_entries ?p))"
    using put_pes_law[OF w3, of "ps_log_entries ?p"] assms(1,2) f pf by (simp_all add: sb4_def)
  have n2: "\<not> buf_err (snd sb2)" using a3 w2 r4(2) by (auto simp: appends_def)
  note m = masks_written[OF st(1) n2[unfolded sb2_def], folded sb2_def]
  have d: "buf_data (snd sb4) = rec_wire r"
    using r4(2,3) a3 w2 m st(2) by (simp add: appends_def rec_wire_def fs_def Let_def)
  show ?thesis unfolding f using d m r4(1) assms(2,3) f by (simp add: rec_ok_def)
qed

text \<open>Decoding a record in a given mode.\<close>

definition adopt :: "header_mode \<Rightarrow> k_restore \<Rightarrow> wal_rec \<Rightarrow> k_restore" where
  "adopt mode rs r = (let p = wr_persist r in adopt_header mode rs (ps_term p) (ps_voted_for p) (ps_last_included_index p)
     (ps_last_included_term p) (wr_size r) (wr_old r, wr_new r, wr_learners r))"

definition replay :: "header_mode \<Rightarrow> u64 \<Rightarrow> k_restore \<Rightarrow> wal_rec \<Rightarrow> k_restore" where
  "replay mode gen rs r = (adopt mode rs r)\<lparr>rs_entries := foldl place (rs_entries rs) (map entry_view (ps_log_entries (wr_persist r))),
     rs_generation := max gen (rs_generation rs)\<rparr>"

lemma view_adopt: "view (adopt mode rs r) = adopt mode (view rs) r" "rs_entries (adopt mode rs r) = rs_entries rs" "blocks_ok (adopt mode rs r) = blocks_ok rs"
  "rs_generation (adopt mode rs r) = rs_generation rs"
  by (auto simp: adopt_def adopt_header_def view_def blocks_ok_def Let_def split: header_mode.splits)

lemma pe_wire_count: "length es \<le> length (concat (map pe_wire es))"
  by (induction es) (simp_all add: pe_wire_def)

lemma decode_record_law:
  assumes "rec_ok r" "blocks_ok rs"
  shows "\<exists>rs'. k_state_decode_record [] rs (rec_wire r) gen mode 0 = ([], Some rs') \<and> view rs' = replay mode gen (view rs) r \<and> blocks_ok rs'"
proof -
  let ?p = "wr_persist r" let ?es = "ps_log_entries ?p"
  have f: "fits64 (ps_term ?p)" "fits32 (ps_voted_for ?p)" "fits64 (ps_last_included_index ?p)" "fits64 (ps_last_included_term ?p)" "fits64 (wr_size r)"
    "mask_ok (wr_old r)" "mask_ok (wr_new r)" "mask_ok (wr_learners r)" "list_all pe_ok ?es"
    using assms(1) by (simp_all add: rec_ok_def rec_fits_def mask_ok_def Let_def)
  have "length ?es \<le> length (rec_wire r)" using pe_wire_count[of ?es] by (simp add: rec_wire_def Let_def)
  then have le: "length ?es \<le> K_STATE_MAX" using assms(1) unfolding rec_ok_def by linarith
  have u: "unat (of_nat (length ?es) :: u32) = length ?es" using le by (simp add: unat_small)
  have ne: "rec_wire r \<noteq> []" unfolding rec_wire_def Let_def by (metis append_is_Nil_conv i64c.length_enc length_0_conv zero_neq_numeral)
  define pre where "pre = k_write_i64 (word_of_int (ps_term ?p)) @ k_write_i32 (word_of_int (ps_voted_for ?p))
     @ k_write_i64 (word_of_int (ps_last_included_index ?p)) @ k_write_i64 (word_of_int (ps_last_included_term ?p)) @ k_write_i64 (word_of_int (wr_size r))
     @ mask_wire (wr_old r) @ mask_wire (wr_new r) @ mask_wire (wr_learners r) @ k_write_u32 (of_nat (length ?es))"
  obtain rs1 where d: "decode_wal_entries [] (length ?es) (rdr pre (concat (map pe_wire ?es))) (adopt mode rs r) 0
      = ([], Some (rdr (pre @ concat (map pe_wire ?es)) [], rs1))"
    "view rs1 = (view (adopt mode rs r))\<lparr>rs_entries := foldl place (rs_entries (adopt mode rs r)) (map entry_view ?es)\<rparr>" "blocks_ok rs1"
    using decode_wal_entries_law[OF f(9), of "adopt mode rs r" pre "[]"] assms(2) view_adopt(3) by auto
  have "k_state_decode_record [] rs (rec_wire r) gen mode 0 = ([], Some (if gen > rs_generation rs1 then rs1\<lparr>rs_generation := gen\<rparr> else rs1))"
  proof -
    have "k_state_decode_record [] rs (rec_wire r) gen mode 0 = (case decode_wal_entries [] (length ?es) (rdr pre (concat (map pe_wire ?es))) (adopt mode rs r) 0 of
        (s, None) \<Rightarrow> (s, None)
      | (s, Some (r, rs)) \<Rightarrow> if rd_off r \<noteq> length (rd_data r) then (s, None) else (s, Some (if gen > rs_generation rs then rs\<lparr>rs_generation := gen\<rparr> else rs)))"
      using ne f(1-8) u le unfolding k_state_decode_record_def rdr_init adopt_def Let_def
      by (simp add: rec_wire_def pre_def Let_def)
    then show ?thesis using d(1) by simp
  qed
  moreover have "rs_generation rs1 = rs_generation rs" using arg_cong[OF d(2), of rs_generation] view_adopt(4)[of mode rs r] by (simp add: view_fields)
  ultimately have g: "rs_generation rs1 = rs_generation rs" and res: "k_state_decode_record [] rs (rec_wire r) gen mode 0
      = ([], Some (rs1\<lparr>rs_generation := max gen (rs_generation rs)\<rparr>))" by (simp_all add: max_def)
  have "view (rs1\<lparr>rs_generation := max gen (rs_generation rs)\<rparr>) = (view rs1)\<lparr>rs_generation := max gen (rs_generation rs)\<rparr>" by (simp add: view_def)
  then have "view (rs1\<lparr>rs_generation := max gen (rs_generation rs)\<rparr>) = replay mode gen (view rs) r"
    unfolding d(2) replay_def by (simp add: view_adopt view_fields)
  moreover have "blocks_ok (rs1\<lparr>rs_generation := max gen (rs_generation rs)\<rparr>)" using d(3) by (simp add: blocks_ok_def)
  ultimately show ?thesis using res by blast
qed

subsection \<open>Scanning a segment\<close>

text \<open>The bytes of records with consecutive generations, and a tail that a crash can leave: a strict prefix of
  the next record.\<close>

fun recs_bytes :: "u64 \<Rightarrow> wal_rec list \<Rightarrow> bytes" where
  "recs_bytes g [] = []"
| "recs_bytes g (r # rs) = wal_header g (rec_wire r) @ rec_wire r @ recs_bytes (g + 1) rs"

definition torn_tail :: "u64 \<Rightarrow> bytes \<Rightarrow> bool" where
  "torn_tail g t \<longleftrightarrow> (\<exists>q k. q \<noteq> [] \<and> length q \<le> K_STATE_MAX \<and> k < K_WAL_HEADER_SIZE + length q \<and> t = take k (wal_header g q @ q))"

definition tail_kind :: "bytes \<Rightarrow> seg_tail" where
  "tail_kind t = (if t = [] then Clean_End else if length t < K_WAL_HEADER_SIZE then Header_Torn else Payload_Torn)"

definition scan_step :: "nat \<Rightarrow> nat \<Rightarrow> u64 \<Rightarrow> wal_scan \<Rightarrow> wal_rec \<Rightarrow> wal_scan" where
  "scan_step seg off g st r = (scan_note st seg off (rec_wire r))\<lparr>sc_restore := replay K_RESTORE_HDR_TERMVOTE g (sc_restore st) r,
     sc_gen := g, sc_rec := (seg, off, K_WAL_HEADER_SIZE + length (rec_wire r))\<rparr>"

fun scan_run :: "nat \<Rightarrow> nat \<Rightarrow> u64 \<Rightarrow> wal_scan \<Rightarrow> wal_rec list \<Rightarrow> wal_scan" where
  "scan_run seg off g st [] = st"
| "scan_run seg off g st (r # rs) = scan_run seg (off + (K_WAL_HEADER_SIZE + length (rec_wire r))) (g + 1) (scan_step seg off g st r) rs"

definition sview :: "wal_scan \<Rightarrow> wal_scan" where
  "sview st = st\<lparr>sc_restore := view (sc_restore st)\<rparr>"

lemma length_wal_header [simp]: "length (wal_header g q) = 24"
  by (simp add: wal_header_def)

lemma wal_header_fields [simp]:
  "k_read_u32 (wal_header g q) = K_WAL_MAGIC" "k_read_u32 (drop 4 (wal_header g q)) = K_WAL_VERSION" "k_read_u64 (drop 8 (wal_header g q)) = g"
  "k_read_u32 (drop 16 (wal_header g q)) = of_nat (length q)" "k_read_u32 (drop 20 (wal_header g q)) = k_crc32 q"
  by (simp_all add: wal_header_def)

lemma note_fields:
  "sc_restore (scan_note st seg off p) = sc_restore st" "sc_prev_seg_gen (scan_note st seg off p) = sc_prev_seg_gen st"
  "sc_prev_seg_gen_known (scan_note st seg off p) = sc_prev_seg_gen_known st"
  "sview (scan_note st seg off p) = scan_note (sview st) seg off p"
  by (simp_all add: scan_note_def sview_def Let_def)

lemma read_at: "length pre = off \<Longrightarrow> n = length a \<Longrightarrow> vfs_read (pre @ a @ b) off n = Some a"
  by (simp add: vfs_read_def)

lemma rec_size:
  assumes "rec_ok r"
  shows "unat (of_nat (length (rec_wire r)) :: u32) = length (rec_wire r)" "rec_wire r \<noteq> []" "length (rec_wire r) \<le> K_STATE_MAX"
proof -
  show l: "length (rec_wire r) \<le> K_STATE_MAX" using assms by (simp add: rec_ok_def)
  then show "unat (of_nat (length (rec_wire r)) :: u32) = length (rec_wire r)" by (simp add: unat_small)
  show "rec_wire r \<noteq> []" by (simp add: rec_wire_def Let_def)
qed

text \<open>The generation a scan expects next.\<close>

definition gen_next :: "bool \<Rightarrow> u64 \<Rightarrow> wal_scan \<Rightarrow> u64 \<Rightarrow> bool" where
  "gen_next have_rec prev st g \<longleftrightarrow> g \<noteq> 0 \<and> (if have_rec then g = prev + 1 else sc_prev_seg_gen st = 0 \<or> g = sc_prev_seg_gen st + 1 \<and> sc_prev_seg_gen st < g)"

lemma segment_tail:
  assumes "torn_tail g t" "gen_next have_rec prev st g" "length pre = off"
  shows "wal_segment [] seg (pre @ t) off have_rec prev st = ([], Some (tail_kind t, have_rec, prev, st))"
proof -
  obtain q k where q: "q \<noteq> []" "length q \<le> K_STATE_MAX" "k < K_WAL_HEADER_SIZE + length q" "t = take k (wal_header g q @ q)"
    using assms(1) by (auto simp: torn_tail_def)
  show ?thesis
  proof (cases "k < K_WAL_HEADER_SIZE")
    case True
    then have l: "length t = k" using q(3,4) by simp
    have r: "vfs_read (pre @ t) off K_WAL_HEADER_SIZE = None" using True l assms(3) by (simp add: vfs_read_def)
    have o: "vfs_read (pre @ t) off (Suc 0) = None \<longleftrightarrow> t = []" using assms(3) by (cases t) (auto simp: vfs_read_def)
    show ?thesis using True l o by (subst wal_segment.simps) (auto simp: r tail_kind_def)
  next
    case False
    define u where "u = take (k - 24) q"
    have t: "t = wal_header g q @ u" using q(4) False by (simp add: u_def)
    have ne: "t \<noteq> []" "\<not> length t < K_WAL_HEADER_SIZE" unfolding t by (simp_all, metis length_0_conv length_wal_header zero_neq_numeral)
    have lu: "length u < length q" using q(3) False by (simp add: u_def)
    have h: "vfs_read (pre @ t) off K_WAL_HEADER_SIZE = Some (wal_header g q)" unfolding t by (rule read_at) (simp_all add: assms(3))
    have p: "vfs_read (pre @ t) (off + K_WAL_HEADER_SIZE) (length q) = None" unfolding t using lu assms(3) q(1) by (simp add: vfs_read_def)
    have sz: "unat (of_nat (length q) :: u32) = length q" using q(2) by (simp add: unat_small)
    have g: "g \<noteq> 0" "\<not> (\<not> have_rec \<and> sc_prev_seg_gen st \<noteq> 0 \<and> (g \<le> sc_prev_seg_gen st \<or> sc_prev_seg_gen_known st \<and> g \<noteq> sc_prev_seg_gen st + 1))"
      "\<not> (have_rec \<and> g \<noteq> prev + 1)" using assms(2) by (auto simp: gen_next_def split: if_splits)
    have tk: "tail_kind t = Payload_Torn" using ne by (simp add: tail_kind_def)
    show ?thesis using q(1,2) g by (subst wal_segment.simps) (auto simp: h p sz tk Let_def)
  qed
qed

lemma segment_record:
  assumes "rec_ok r" "gen_next have_rec prev st g" "length pre = off" "blocks_ok (sc_restore st)"
  shows "\<exists>st'. wal_segment [] seg (pre @ wal_header g (rec_wire r) @ rec_wire r @ rest) off have_rec prev st
      = wal_segment [] seg (pre @ wal_header g (rec_wire r) @ rec_wire r @ rest) (off + (K_WAL_HEADER_SIZE + length (rec_wire r))) True g st'
    \<and> sview st' = scan_step seg off g (sview st) r \<and> blocks_ok (sc_restore st') \<and> sc_prev_seg_gen st' = sc_prev_seg_gen st"
proof -
  let ?w = "rec_wire r" let ?data = "pre @ wal_header g ?w @ ?w @ rest"
  note sz = rec_size[OF assms(1)]
  have h: "vfs_read ?data off K_WAL_HEADER_SIZE = Some (wal_header g ?w)" by (rule read_at) (simp_all add: assms(3))
  have p: "vfs_read ?data (off + K_WAL_HEADER_SIZE) (length ?w) = Some ?w" using read_at[of "pre @ wal_header g ?w" "off + 24" "length ?w" ?w rest] assms(3) by simp
  have g: "g \<noteq> 0" "\<not> (\<not> have_rec \<and> sc_prev_seg_gen st \<noteq> 0 \<and> (g \<le> sc_prev_seg_gen st \<or> sc_prev_seg_gen_known st \<and> g \<noteq> sc_prev_seg_gen st + 1))"
    "\<not> (have_rec \<and> g \<noteq> prev + 1)" using assms(2) by (auto simp: gen_next_def split: if_splits)
  obtain rs' where d: "k_state_decode_record [] (sc_restore st) ?w g K_RESTORE_HDR_TERMVOTE 0 = ([], Some rs')"
    "view rs' = replay K_RESTORE_HDR_TERMVOTE g (view (sc_restore st)) r" "blocks_ok rs'" using decode_record_law[OF assms(1,4)] by blast
  define st' where "st' = (scan_note st seg off ?w)\<lparr>sc_restore := rs', sc_gen := g, sc_rec := (seg, off, K_WAL_HEADER_SIZE + length ?w)\<rparr>"
  have s: "wal_segment [] seg ?data off have_rec prev st = wal_segment [] seg ?data (off + (K_WAL_HEADER_SIZE + length ?w)) True g st'"
    using sz g unfolding st'_def by (subst wal_segment.simps, simp add: h p d(1) note_fields(1) Let_def, blast)
  have "sview st' = scan_step seg off g (sview st) r"
    unfolding scan_step_def st'_def note_fields(4)[symmetric] by (simp add: sview_def d(2))
  then show ?thesis using s d(3) note_fields(2) by (intro exI[of _ st']) (simp add: st'_def)
qed

text \<open>Complete records are read one after the other, whatever follows them.\<close>

lemma segment_recs:
  assumes "list_all rec_ok rs" "gen_next have_rec prev st g" "length pre = off" "blocks_ok (sc_restore st)" "unat g + length rs < 2 ^ 64"
  shows "\<exists>st'. wal_segment [] seg (pre @ recs_bytes g rs @ t) off have_rec prev st
      = wal_segment [] seg (pre @ recs_bytes g rs @ t) (off + length (recs_bytes g rs)) (have_rec \<or> rs \<noteq> []) (if rs = [] then prev else g + of_nat (length rs) - 1) st'
    \<and> sview st' = scan_run seg off g (sview st) rs \<and> blocks_ok (sc_restore st') \<and> sc_prev_seg_gen st' = sc_prev_seg_gen st
    \<and> gen_next (have_rec \<or> rs \<noteq> []) (if rs = [] then prev else g + of_nat (length rs) - 1) st' (g + of_nat (length rs))"
  using assms
proof (induction rs arbitrary: g have_rec prev st pre off)
  case Nil
  then show ?case by auto
next
  case (Cons r rs)
  have u1: "unat (g + 1) = unat g + 1" using Cons.prems(5) unat_add_lem[of g 1] by simp
  let ?w = "rec_wire r"
  obtain st1 where st1: "wal_segment [] seg (pre @ wal_header g ?w @ ?w @ recs_bytes (g + 1) rs @ t) off have_rec prev st
      = wal_segment [] seg (pre @ wal_header g ?w @ ?w @ recs_bytes (g + 1) rs @ t) (off + (K_WAL_HEADER_SIZE + length ?w)) True g st1"
    "sview st1 = scan_step seg off g (sview st) r" "blocks_ok (sc_restore st1)" "sc_prev_seg_gen st1 = sc_prev_seg_gen st"
    using segment_record[OF _ Cons.prems(2,3,4), of r seg "recs_bytes (g + 1) rs @ t"] Cons.prems(1) by auto
  have g1: "gen_next True g st1 (g + 1)" using u1 by (auto simp: gen_next_def unat_eq_zero[symmetric])
  define off2 where "off2 = off + (K_WAL_HEADER_SIZE + length ?w)"
  define pre2 where "pre2 = pre @ wal_header g ?w @ ?w"
  have p2: "length pre2 = off2" using Cons.prems(3) by (simp add: pre2_def off2_def)
  define D where "D = pre2 @ recs_bytes (g + 1) rs @ t"
  define n where "n = g + of_nat (length (r # rs)) - 1"
  have n: "(if rs = [] then g else g + 1 + of_nat (length rs) - 1) = n" by (cases rs) (simp_all add: n_def)
  have lr: "unat (g + 1) + length rs < 2 ^ 64" "list_all rec_ok rs" using Cons.prems(1,5) u1 by simp_all
  obtain st2 where ih: "wal_segment [] seg D off2 True g st1 = wal_segment [] seg D (off2 + length (recs_bytes (g + 1) rs)) True n st2"
    "sview st2 = scan_run seg off2 (g + 1) (sview st1) rs" "blocks_ok (sc_restore st2)" "sc_prev_seg_gen st2 = sc_prev_seg_gen st1"
    "gen_next True n st2 (g + 1 + of_nat (length rs))"
    using Cons.IH[OF lr(2) g1 p2 st1(3) lr(1), folded D_def, unfolded n simp_thms] by blast
  have e: "pre @ recs_bytes g (r # rs) @ t = D" "off + length (recs_bytes g (r # rs)) = off2 + length (recs_bytes (g + 1) rs)"
    "pre @ wal_header g ?w @ ?w @ recs_bytes (g + 1) rs @ t = D" "g + 1 + of_nat (length rs) = g + of_nat (length (r # rs))"
    by (simp_all add: D_def pre2_def off2_def)
  have "wal_segment [] seg D off have_rec prev st = wal_segment [] seg D (off2 + length (recs_bytes (g + 1) rs)) True n st2"
    using st1(1)[unfolded e(3), folded off2_def] ih(1) by (rule trans)
  then show ?case unfolding e(1,2) using st1(2,4) ih(2-5)[unfolded e(4)] by (intro exI[of _ st2]) (simp add: n_def off2_def)
qed

lemma segment_run:
  assumes "list_all rec_ok rs" "torn_tail (g + of_nat (length rs)) t" "gen_next have_rec prev st g" "length pre = off" "blocks_ok (sc_restore st)"
    and "unat g + length rs < 2 ^ 64"
  shows "\<exists>st'. wal_segment [] seg (pre @ recs_bytes g rs @ t) off have_rec prev st
      = ([], Some (tail_kind t, have_rec \<or> rs \<noteq> [], if rs = [] then prev else g + of_nat (length rs) - 1, st'))
    \<and> sview st' = scan_run seg off g (sview st) rs \<and> blocks_ok (sc_restore st') \<and> sc_prev_seg_gen st' = sc_prev_seg_gen st"
proof -
  obtain st' where st': "wal_segment [] seg (pre @ recs_bytes g rs @ t) off have_rec prev st
      = wal_segment [] seg (pre @ recs_bytes g rs @ t) (off + length (recs_bytes g rs)) (have_rec \<or> rs \<noteq> []) (if rs = [] then prev else g + of_nat (length rs) - 1) st'"
    "sview st' = scan_run seg off g (sview st) rs" "blocks_ok (sc_restore st')" "sc_prev_seg_gen st' = sc_prev_seg_gen st"
    "gen_next (have_rec \<or> rs \<noteq> []) (if rs = [] then prev else g + of_nat (length rs) - 1) st' (g + of_nat (length rs))"
    using segment_recs[OF assms(1,3,4,5,6)] by blast
  show ?thesis using st'(1-4) segment_tail[OF assms(2) st'(5), of "pre @ recs_bytes g rs"] assms(4) by auto
qed

end
