(* ===== verification/Server_Recovery.thy ===== *)
theory Server_Recovery
  imports Server_Wal_Laws
begin

section \<open>Crash recovery\<close>

text \<open>
  What \<^verbatim>\<open>k_wal_state_load\<close> rebuilds from segments that hold complete records, possibly followed
  by the torn tail of a crash: without snapshots, exactly the replay of the records; with a
  snapshot base, the replay is cut back by the record that carries the base.
\<close>

subsection \<open>Scanning all segments\<close>

fun segs_bytes :: "u64 \<Rightarrow> wal_rec list list \<Rightarrow> bytes \<Rightarrow> bytes list" where
  "segs_bytes g [] t = []"
| "segs_bytes g (rs # gs) t = (recs_bytes g rs @ (if gs = [] then t else [])) # segs_bytes (g + of_nat (length rs)) gs t"

text \<open>The part of the scan state that recovery uses at the end.\<close>

definition core :: "wal_scan \<Rightarrow> wal_scan" where
  "core st = (sview st)\<lparr>sc_prev_seg_gen := 0, sc_prev_seg_gen_known := False\<rparr>"

fun scan_all :: "nat \<Rightarrow> u64 \<Rightarrow> wal_scan \<Rightarrow> wal_rec list list \<Rightarrow> wal_scan" where
  "scan_all seg g st [] = st"
| "scan_all seg g st (rs # gs) = scan_all (seg + 1) (g + of_nat (length rs)) (scan_run seg 0 g st rs) gs"

lemma step_core: "scan_step seg off g (st\<lparr>sc_prev_seg_gen := a, sc_prev_seg_gen_known := b\<rparr>) r
    = (scan_step seg off g st r)\<lparr>sc_prev_seg_gen := a, sc_prev_seg_gen_known := b\<rparr>"
  by (simp add: scan_step_def scan_note_def Let_def)

lemma run_core: "scan_run seg off g (st\<lparr>sc_prev_seg_gen := a, sc_prev_seg_gen_known := b\<rparr>) rs
    = (scan_run seg off g st rs)\<lparr>sc_prev_seg_gen := a, sc_prev_seg_gen_known := b\<rparr>"
  by (induction rs arbitrary: off g st) (simp_all add: step_core)

lemma run_records: "sc_records (scan_run seg off g st rs) = sc_records st + length rs"
  by (induction rs arbitrary: off g st) (simp_all add: scan_step_def scan_note_def Let_def)

lemma core_records [simp]: "sc_records (core st) = sc_records st" "sc_records (sview st) = sc_records st"
  by (simp_all add: core_def sview_def)

lemma core_run: "sview st' = scan_run seg off g (sview st) rs \<Longrightarrow> core st' = scan_run seg off g (core st) rs"
  by (simp add: core_def run_core)

lemma core_prev [simp]: "core (st\<lparr>sc_prev_seg_gen := a, sc_prev_seg_gen_known := b\<rparr>) = core st"
  by (simp add: core_def sview_def)

text \<open>Past the last segment the loop stops, once a record was read.\<close>

lemma segments_end:
  assumes "sc_records st > 0" "seg_data d seg = []"
  shows "wal_segments [] [] d ma ls False seg st = ([], [], Some st)"
  using assms by (subst wal_segments.simps) (simp add: io_def)

lemma recs_bytes_Nil: "recs_bytes g rs = [] \<longleftrightarrow> rs = []"
proof (cases rs)
  case (Cons r rs')
  have "wal_header g (rec_wire r) \<noteq> []" by (metis length_0_conv length_wal_header zero_neq_numeral)
  then show ?thesis using Cons by simp
qed simp

lemma torn_none: "torn_tail g []"
  unfolding torn_tail_def by (rule exI[of _ "[0]"], rule exI[of _ 0]) simp

lemma drop_segs:
  assumes "drop seg (wd_segs d) = x # xs"
  shows "seg_data d seg = x" "drop (seg + 1) (wd_segs d) = xs" "seg < length (wd_segs d)"
proof -
  show sl: "seg < length (wd_segs d)" using assms by (metis drop_eq_Nil2 list.distinct(1) not_le)
  have "wd_segs d ! seg # drop (Suc seg) (wd_segs d) = x # xs" using assms Cons_nth_drop_Suc[OF sl] by simp
  then show "seg_data d seg = x" "drop (seg + 1) (wd_segs d) = xs" using sl by (simp_all add: seg_data_def)
qed

lemma segments_run:
  assumes "gs \<noteq> []" "\<forall>rs\<in>set gs. list_all rec_ok rs" "[] \<notin> set (butlast gs)" "torn_tail (g + of_nat (length (concat gs))) t"
    and "drop seg (wd_segs d) = segs_bytes g gs t" "ma \<or> length (wd_segs d) \<le> Suc ls"
    and "gen_next False 0 st g" "sc_records st > 0 \<or> seg = 0 \<and> hd gs \<noteq> []" "blocks_ok (sc_restore st)"
    and "unat g + length (concat gs) < 2 ^ 64"
  shows "\<exists>st'. wal_segments [] [] d ma ls False seg st = ([], [], Some st') \<and> core st' = scan_all seg g (core st) gs \<and> blocks_ok (sc_restore st')"
  using assms
proof (induction gs arbitrary: g seg st)
  case (Cons rs gs)
  define t1 where "t1 = (if gs = [] then t else [])"
  have bytes: "drop seg (wd_segs d) = (recs_bytes g rs @ t1) # segs_bytes (g + of_nat (length rs)) gs t" using Cons.prems(5) by (simp add: t1_def)
  note sl = drop_segs(3)[OF bytes] and sd = drop_segs(1)[OF bytes] and nx = drop_segs(2)[OF bytes]
  have tt: "torn_tail (g + of_nat (length rs)) t1" using Cons.prems(4) torn_none by (cases "gs = []") (simp_all add: t1_def)
  have lr: "unat g + length rs < 2 ^ 64" using Cons.prems(10) by simp
  show ?case
  proof (cases "rs = [] \<and> t1 = []")
    case True
    then have "gs = []" "sc_records st > 0" using Cons.prems(3,8) by (auto split: if_splits)
    then show ?thesis using segments_end[of st d seg ma ls] sd True Cons.prems(9) by simp
  next
    case False
    have ne: "seg_data d seg \<noteq> []" using False sd recs_bytes_Nil by auto
    obtain st1 where st1: "wal_segment [] seg ([] @ recs_bytes g rs @ t1) 0 False 0 st
        = ([], Some (tail_kind t1, False \<or> rs \<noteq> [], if rs = [] then 0 else g + of_nat (length rs) - 1, st1))"
      "sview st1 = scan_run seg 0 g (sview st) rs" "blocks_ok (sc_restore st1)" "sc_prev_seg_gen st1 = sc_prev_seg_gen st"
      using segment_run[OF _ tt Cons.prems(7) _ Cons.prems(9) lr, of "[]" 0 seg] Cons.prems(2) by auto
    define st2 where "st2 = (if rs \<noteq> [] then st1\<lparr>sc_prev_seg_gen := g + of_nat (length rs) - 1, sc_prev_seg_gen_known := (tail_kind t1 \<noteq> Header_Torn)\<rparr> else st1)"
    have step: "wal_segments [] [] d ma ls False seg st = wal_segments [] [] d ma ls False (seg + 1) st2"
      using Cons.prems(6,8) sl ne st1(1) sd unfolding st2_def by (subst wal_segments.simps) (auto simp: io_def)
    have c2: "core st2 = scan_run seg 0 g (core st) rs" using core_run[OF st1(2)] by (simp add: st2_def)
    have r2: "sc_records st2 = sc_records st + length rs" using arg_cong[OF c2, of sc_records] by (simp add: run_records)
    have rp: "sc_records st2 > 0" using r2 Cons.prems(8) by auto
    have b2: "blocks_ok (sc_restore st2)" using st1(3) by (simp add: st2_def)
    show ?thesis
    proof (cases "gs = []")
      case True
      have "seg_data d (seg + 1) = []" using nx True by (simp add: seg_data_def)
      then show ?thesis using step segments_end[OF rp] c2 b2 True by simp
    next
      case gn: False
      then have rn: "rs \<noteq> []" using Cons.prems(3) by auto
      have u: "unat (g + of_nat (length rs)) = unat g + length rs"
        using lr by (simp add: unat_word_ariths unat_of_nat)
      have p2: "sc_prev_seg_gen st2 = g + of_nat (length rs) - 1" using rn by (simp add: st2_def)
      have gz: "g + of_nat (length rs) \<noteq> 0" using u rn by (auto simp: unat_eq_zero[symmetric])
      have "unat (g + of_nat (length rs) - 1) < unat (g + of_nat (length rs))" using unat_minus_one[OF gz] u rn by (cases rs) simp_all
      then have gx: "gen_next False 0 st2 (g + of_nat (length rs))" using gz p2 by (simp add: gen_next_def word_less_nat_alt)
      have bt: "[] \<notin> set (butlast gs)" using Cons.prems(3) gn by simp
      have tl: "torn_tail (g + of_nat (length rs) + of_nat (length (concat gs))) t" using Cons.prems(4) by (simp add: add.assoc)
      have ln: "unat (g + of_nat (length rs)) + length (concat gs) < 2 ^ 64" using Cons.prems(10) u by simp
      show ?thesis using Cons.IH[OF gn _ bt tl nx Cons.prems(6) gx _ b2 ln] Cons.prems(2) rp step c2 by auto
    qed
  qed
qed simp

subsection \<open>What the scan collects\<close>

text \<open>Position and size of the newest record.\<close>

fun rec_at :: "nat \<Rightarrow> nat \<Rightarrow> nat \<times> nat \<times> nat \<Rightarrow> wal_rec list \<Rightarrow> nat \<times> nat \<times> nat" where
  "rec_at seg off p [] = p"
| "rec_at seg off p (r # rs) = rec_at seg (off + (K_WAL_HEADER_SIZE + length (rec_wire r))) (seg, off, K_WAL_HEADER_SIZE + length (rec_wire r)) rs"

fun newest :: "nat \<Rightarrow> nat \<times> nat \<times> nat \<Rightarrow> wal_rec list list \<Rightarrow> nat \<times> nat \<times> nat" where
  "newest seg p [] = p"
| "newest seg p (rs # gs) = newest (seg + 1) (rec_at seg 0 p rs) gs"

text \<open>The entries of all records in order, the merged term and vote, and the snapshot base with the record that
  first carried it (and the base before it).\<close>

definition rec_entries :: "wal_rec \<Rightarrow> wal_entry list" where
  "rec_entries r = map entry_view (ps_log_entries (wr_persist r))"

definition replayed :: "wal_rec list \<Rightarrow> wal_entry list" where
  "replayed rs = foldl place [] (concat (map rec_entries rs))"

definition merge_vote :: "int \<times> int \<Rightarrow> wal_rec \<Rightarrow> int \<times> int" where
  "merge_vote tv r = (if ps_term (wr_persist r) \<ge> fst tv then (ps_term (wr_persist r), ps_voted_for (wr_persist r)) else tv)"

definition rec_base :: "wal_rec \<Rightarrow> int" where
  "rec_base r = ps_last_included_index (wr_persist r)"

definition base_step :: "int \<times> int \<times> wal_rec option \<Rightarrow> wal_rec \<Rightarrow> int \<times> int \<times> wal_rec option" where
  "base_step b r = (if rec_base r = fst (snd b) then b else (fst (snd b), rec_base r, Some r))"

definition bases :: "wal_rec list \<Rightarrow> int \<times> int \<times> wal_rec option" where
  "bases rs = foldl base_step (0, 0, None) rs"

definition located :: "wal_disk \<Rightarrow> nat \<times> nat \<times> nat \<Rightarrow> wal_rec \<Rightarrow> bool" where
  "located d p r = (case p of (seg, off, n) \<Rightarrow> rec_ok r \<and> n = K_WAL_HEADER_SIZE + length (rec_wire r)
     \<and> vfs_read (seg_data d seg) (off + K_WAL_HEADER_SIZE) (n - K_WAL_HEADER_SIZE) = Some (rec_wire r))"

definition tracks :: "wal_disk \<Rightarrow> wal_scan \<Rightarrow> int \<times> int \<times> wal_rec option \<Rightarrow> bool" where
  "tracks d st b \<longleftrightarrow> sc_prev_base st = fst b \<and> sc_base st = fst (snd b)
     \<and> (fst (snd b) = 0 \<or> (\<exists>r. snd (snd b) = Some r \<and> rec_base r = fst (snd b) \<and> located d (sc_base_rec st) r))"

lemma read_base: "rec_ok r \<Longrightarrow> sint (k_read_i64 (drop 12 (rec_wire r))) = rec_base r"
proof -
  assume "rec_ok r"
  then have "fits64 (rec_base r)" by (simp add: rec_ok_def rec_fits_def rec_base_def Let_def)
  then show ?thesis by (simp add: rec_wire_def rec_base_def Let_def fits64_def)
qed

lemma long_rec: "K_WAL_HEADER_SIZE \<le> length (rec_wire r)"
  by (simp add: rec_wire_def Let_def)

lemma step_fields:
  "sc_rec (scan_step seg off g st r) = (seg, off, K_WAL_HEADER_SIZE + length (rec_wire r))" "sc_gen (scan_step seg off g st r) = g"
  "sc_restore (scan_step seg off g st r) = replay K_RESTORE_HDR_TERMVOTE g (sc_restore st) r"
  by (simp_all add: scan_step_def)

lemma step_tracks:
  assumes "rec_ok r" "tracks d st b" "seg_data d seg = pre @ wal_header g (rec_wire r) @ rec_wire r @ rest" "length pre = off"
  shows "tracks d (scan_step seg off g st r) (base_step b r)"
proof -
  have "vfs_read (seg_data d seg) (off + K_WAL_HEADER_SIZE) (length (rec_wire r)) = Some (rec_wire r)"
    unfolding assms(3) using read_at[of "pre @ wal_header g (rec_wire r)" "off + 24" "length (rec_wire r)" "rec_wire r" rest] assms(4) by simp
  then have "located d (seg, off, K_WAL_HEADER_SIZE + length (rec_wire r)) r" using assms(1) by (simp add: located_def)
  then show ?thesis using assms(2) long_rec[of r] by (auto simp: tracks_def base_step_def scan_step_def scan_note_def read_base[OF assms(1)] Let_def)
qed

lemma run_tracks:
  assumes "list_all rec_ok rs" "tracks d st b" "seg_data d seg = pre @ recs_bytes g rs @ t" "length pre = off"
  shows "tracks d (scan_run seg off g st rs) (foldl base_step b rs)"
  using assms
proof (induction rs arbitrary: st b pre g off)
  case (Cons r rs)
  have "tracks d (scan_step seg off g st r) (base_step b r)" using step_tracks[of r d st b seg pre g "recs_bytes (g + 1) rs @ t" off] Cons.prems by simp
  then show ?case using Cons.IH[of "scan_step seg off g st r" "base_step b r" "pre @ wal_header g (rec_wire r) @ rec_wire r" "g + 1"] Cons.prems by simp
qed simp

lemma all_tracks:
  assumes "\<forall>rs\<in>set gs. list_all rec_ok rs" "tracks d st b" "drop seg (wd_segs d) = segs_bytes g gs t"
  shows "tracks d (scan_all seg g st gs) (foldl base_step b (concat gs))"
  using assms
proof (induction gs arbitrary: st b g seg)
  case (Cons rs gs)
  define t1 where "t1 = (if gs = [] then t else [])"
  have bytes: "drop seg (wd_segs d) = (recs_bytes g rs @ t1) # segs_bytes (g + of_nat (length rs)) gs t" using Cons.prems(3) by (simp add: t1_def)
  note sd = drop_segs[OF bytes]
  have "tracks d (scan_run seg 0 g st rs) (foldl base_step b rs)" using run_tracks[OF _ Cons.prems(2), of rs seg "[]" g t1 0] sd(1) Cons.prems(1) by simp
  then show ?case using Cons.IH[OF _ _ sd(2)] Cons.prems(1) by simp
qed simp

lemma run_fields:
  "sc_rec (scan_run seg off g st rs) = rec_at seg off (sc_rec st) rs"
  "sc_gen (scan_run seg off g st rs) = (if rs = [] then sc_gen st else g + of_nat (length rs) - 1)"
  "rs_entries (sc_restore (scan_run seg off g st rs)) = foldl place (rs_entries (sc_restore st)) (concat (map rec_entries rs))"
  "(rs_term (sc_restore (scan_run seg off g st rs)), rs_voted_for (sc_restore (scan_run seg off g st rs)))
     = foldl merge_vote (rs_term (sc_restore st), rs_voted_for (sc_restore st)) rs"
  "rs_last_included_index (sc_restore (scan_run seg off g st rs)) = rs_last_included_index (sc_restore st)"
proof (induction rs arbitrary: off g st)
  case (Cons r rs)
  case 1 show ?case using Cons(1) by (simp add: step_fields)
  case 2 show ?case using Cons(2)[where g = "g + 1"] by (simp add: step_fields)
  case 3 show ?case using Cons(3) by (simp add: step_fields replay_def rec_entries_def)
  case 4 show ?case using Cons(4) by (simp add: step_fields replay_def adopt_def adopt_header_def merge_vote_def Let_def)
  case 5 show ?case using Cons(5) by (simp add: step_fields replay_def adopt_def adopt_header_def Let_def)
qed simp_all

lemma all_fields:
  "sc_rec (scan_all seg g st gs) = newest seg (sc_rec st) gs"
  "sc_gen (scan_all seg g st gs) = (if concat gs = [] then sc_gen st else g + of_nat (length (concat gs)) - 1)"
  "rs_entries (sc_restore (scan_all seg g st gs)) = foldl place (rs_entries (sc_restore st)) (concat (map rec_entries (concat gs)))"
  "(rs_term (sc_restore (scan_all seg g st gs)), rs_voted_for (sc_restore (scan_all seg g st gs)))
     = foldl merge_vote (rs_term (sc_restore st), rs_voted_for (sc_restore st)) (concat gs)"
  "rs_last_included_index (sc_restore (scan_all seg g st gs)) = rs_last_included_index (sc_restore st)"
  "sc_records (scan_all seg g st gs) = sc_records st + length (concat gs)"
proof (induction gs arbitrary: seg g st)
  case (Cons rs gs)
  case 1 show ?case using Cons(1) by (simp add: run_fields)
  case 2 show ?case using Cons(2)[where g = "g + of_nat (length rs)"] by (cases "concat gs = []") (simp_all add: run_fields add.assoc del: concat_eq_Nil_conv)
  case 3 show ?case using Cons(3) by (simp add: run_fields)
  case 4 show ?case using Cons(4) by (simp add: run_fields)
  case 5 show ?case using Cons(5) by (simp add: run_fields)
  case 6 show ?case using Cons(6) by (simp add: run_records)
qed simp_all

subsection \<open>Loading\<close>

text \<open>A store that a sequence of appends and possibly a crash left behind: segments of complete records with
  generations from 1, followed by a torn tail.\<close>

definition wal_layout :: "wal_disk \<Rightarrow> wal_rec list list \<Rightarrow> bytes \<Rightarrow> bool" where
  "wal_layout d gs t \<longleftrightarrow> gs \<noteq> [] \<and> hd gs \<noteq> [] \<and> [] \<notin> set (butlast gs) \<and> (\<forall>rs\<in>set gs. list_all rec_ok rs)
     \<and> length (concat gs) < 2 ^ 64 - 1 \<and> torn_tail (1 + of_nat (length (concat gs))) t \<and> wd_segs d = segs_bytes 1 gs t"

text \<open>The metadata is absent or unused, or does not name a record past the newest one.\<close>

definition end_pos :: "nat \<times> nat \<times> nat \<Rightarrow> k_wal_pos" where
  "end_pos p = (case p of (seg, off, n) \<Rightarrow> \<lparr> wp_segment = of_nat seg, wp_offset = of_nat off + of_nat n \<rparr>)"

definition meta_agrees :: "wal_disk \<Rightarrow> wal_rec list list \<Rightarrow> bool" where
  "meta_agrees d gs = (case snd (k_wal_meta_load [] d) of Inl absent \<Rightarrow> absent
     | Inr m \<Rightarrow> wm_generation m = 0 \<or> length gs \<le> Suc (unat (wp_segment (wm_next m)))
         \<and> k_wal_pos_cmp \<lparr> wp_segment = wp_segment (wm_record m), wp_offset = wp_offset (wm_record m) + wm_record_size m \<rparr> (end_pos (newest 0 (0, 0, 0) gs)) \<le> 0)"

text \<open>The base the records end with is usable.\<close>

definition base_usable :: "wal_disk \<Rightarrow> wal_rec list \<Rightarrow> bool" where
  "base_usable d rs = (case bases rs of (pb, b, ro) \<Rightarrow> 0 \<le> b \<and> pb \<le> b \<and> fst (k_snapshot_verify_file [] d b))"

definition recovered :: "wal_rec list \<Rightarrow> wal_entry list" where
  "recovered rs = (case bases rs of (pb, b, ro) \<Rightarrow>
     filter (\<lambda>e. wn_index e > b) (foldl place (replayed rs) (case ro of Some r \<Rightarrow> if b > 0 then rec_entries r else [] | None \<Rightarrow> [])))"

lemma verify_script: "k_snapshot_verify_file [] d b = (fst (k_snapshot_verify_file [] d b), [])"
  by (simp add: k_snapshot_verify_file_def io_def Let_def)

lemma meta_script: "\<exists>x. k_wal_meta_load [] d = ([], x)"
  unfolding k_wal_meta_load_def by (auto simp: io_def Let_def split: option.splits prod.splits)

lemma decode_base_law:
  assumes "tracks d st (pb, b, ro)" "0 \<le> b" "blocks_ok (sc_restore st)" "rs_last_included_index (sc_restore st) = 0"
  shows "\<exists>rs. decode_base [] [] d st b (sc_base_rec st) = ([], [], Some rs) \<and> rs_last_included_index rs = b
    \<and> rs_entries rs = foldl place (rs_entries (sc_restore st)) (case ro of Some r \<Rightarrow> if b > 0 then rec_entries r else [] | None \<Rightarrow> [])
    \<and> rs_term rs = rs_term (sc_restore st) \<and> rs_voted_for rs = rs_voted_for (sc_restore st)"
proof (cases "b = 0")
  case True
  then show ?thesis using assms(4) by (simp add: decode_base_def split: option.splits)
next
  case False
  obtain r seg off where r: "ro = Some r" "rec_base r = b" "rec_ok r" "sc_base_rec st = (seg, off, K_WAL_HEADER_SIZE + length (rec_wire r))"
    "vfs_read (seg_data d seg) (off + K_WAL_HEADER_SIZE) (length (rec_wire r)) = Some (rec_wire r)"
    using assms(1) False by (cases "sc_base_rec st") (auto simp: tracks_def located_def)
  obtain rs where rs: "k_state_decode_record [] (sc_restore st) (rec_wire r) (sc_gen st) K_RESTORE_HDR_BASE 0 = ([], Some rs)"
    "view rs = replay K_RESTORE_HDR_BASE (sc_gen st) (view (sc_restore st)) r" using decode_record_law[OF r(3) assms(3)] by blast
  have f: "rs_entries rs = foldl place (rs_entries (sc_restore st)) (rec_entries r)" "rs_last_included_index rs = b"
    "rs_term rs = rs_term (sc_restore st)" "rs_voted_for rs = rs_voted_for (sc_restore st)"
    using arg_cong[OF rs(2), of rs_entries] arg_cong[OF rs(2), of rs_last_included_index] arg_cong[OF rs(2), of rs_term] arg_cong[OF rs(2), of rs_voted_for] r(2)
    by (simp_all add: view_fields replay_def adopt_def adopt_header_def rec_entries_def rec_base_def Let_def)
  show ?thesis using assms(2) False r(1,4,5) rs(1) f by (simp add: decode_base_def io_def)
qed

lemma finish_law:
  assumes "tracks d st (bases rs)" "base_usable d rs" "blocks_ok (sc_restore st)" "rs_last_included_index (sc_restore st) = 0"
    and "rs_entries (sc_restore st) = replayed rs" "contiguous (fst (snd (bases rs)) + 1) (recovered rs)"
  shows "\<exists>rst. finish_load [] [] d st m = ([], [], Load_Ok rst (m\<lparr>wm_generation := sc_gen st, wm_record := \<lparr> wp_segment = of_nat (fst (sc_rec st)), wp_offset = of_nat (fst (snd (sc_rec st))) \<rparr>,
        wm_record_size := of_nat (snd (snd (sc_rec st))), wm_next := end_pos (sc_rec st)\<rparr>))
    \<and> rs_entries rst = recovered rs \<and> rs_last_included_index rst = fst (snd (bases rs)) \<and> rs_generation rst = sc_gen st
    \<and> rs_term rst = rs_term (sc_restore st) \<and> rs_voted_for rst = rs_voted_for (sc_restore st)"
proof -
  obtain pb b ro where b: "bases rs = (pb, b, ro)" by (metis prod_cases3)
  have u: "0 \<le> b" "pb \<le> b" "k_snapshot_verify_file [] d b = (True, [])" using assms(2) verify_script[of d b] by (simp_all add: base_usable_def b)
  have sb: "sc_base st = b" "sc_prev_base st = pb" using assms(1) by (simp_all add: tracks_def b)
  have pk: "pick_base [] d st = ([], Some (b, sc_base_rec st))" using u sb by (simp add: pick_base_def)
  obtain rst where rst: "decode_base [] [] d st b (sc_base_rec st) = ([], [], Some rst)" "rs_last_included_index rst = b"
    "rs_entries rst = foldl place (replayed rs) (case ro of Some r \<Rightarrow> if b > 0 then rec_entries r else [] | None \<Rightarrow> [])"
    "rs_term rst = rs_term (sc_restore st)" "rs_voted_for rst = rs_voted_for (sc_restore st)"
    using decode_base_law[of d st pb b ro] assms(1,3,4,5) u(1) b by auto
  have es: "filter (\<lambda>e. wn_index e > b) (rs_entries rst) = recovered rs" using rst(3) by (simp add: recovered_def b)
  obtain seg off n where sr: "sc_rec st = (seg, off, n)" by (metis prod_cases3)
  have ct: "contiguous (b + 1) (recovered rs)" using assms(6) b by simp
  show ?thesis using pk rst(1,2,4,5) es sr ct b by (simp add: finish_load_def end_pos_def)
qed

lemma segs_length: "length (segs_bytes g gs t) = length gs"
  by (induction g gs t rule: segs_bytes.induct) simp_all

lemma load_scan:
  assumes "wal_layout d gs t" "ma \<or> length gs \<le> Suc ls"
  shows "\<exists>st. wal_segments [] [] d ma ls False 0 scan_zero = ([], [], Some st) \<and> core st = scan_all 0 1 scan_zero gs \<and> blocks_ok (sc_restore st)"
proof -
  have l: "gs \<noteq> []" "\<forall>rs\<in>set gs. list_all rec_ok rs" "[] \<notin> set (butlast gs)" "torn_tail (1 + of_nat (length (concat gs))) t" "drop 0 (wd_segs d) = segs_bytes 1 gs t"
    "hd gs \<noteq> []" "unat (1 :: u64) + length (concat gs) < 2 ^ 64" using assms(1) by (simp_all add: wal_layout_def)
  have n: "ma \<or> length (wd_segs d) \<le> Suc ls" using assms(2) l(5) by (simp add: segs_length)
  have z: "gen_next False 0 scan_zero 1" "blocks_ok (sc_restore scan_zero)" "core scan_zero = scan_zero"
    by (simp_all add: gen_next_def scan_zero_def blocks_ok_def restore_zero_def core_def sview_def view_def)
  show ?thesis using segments_run[OF l(1-5) n z(1) _ z(2) l(7)] l(6) z(3) by simp
qed

lemma core_eq:
  assumes "core st = x"
  shows "sc_rec st = sc_rec x" "sc_gen st = sc_gen x" "sc_records st = sc_records x" "rs_entries (sc_restore st) = rs_entries (sc_restore x)"
    "rs_term (sc_restore st) = rs_term (sc_restore x)" "rs_voted_for (sc_restore st) = rs_voted_for (sc_restore x)"
    "rs_last_included_index (sc_restore st) = rs_last_included_index (sc_restore x)" "tracks d st b = tracks d x b"
  unfolding assms[symmetric] core_def sview_def tracks_def by (simp_all add: view_fields)

lemma behind_end: "behind_ack st m = (k_wal_pos_cmp \<lparr> wp_segment = wp_segment (wm_record m), wp_offset = wp_offset (wm_record m) + wm_record_size m \<rparr> (end_pos (sc_rec st)) > 0)"
  by (cases "sc_rec st") (auto simp: behind_ack_def end_pos_def k_wal_pos_cmp_def Let_def)

lemma load_law:
  assumes "wal_layout d gs t" "meta_agrees d gs" "base_usable d (concat gs)" "contiguous (fst (snd (bases (concat gs))) + 1) (recovered (concat gs))"
  shows "\<exists>rst m. k_wal_state_load [] [] d = ([], [], Load_Ok rst m) \<and> rs_entries rst = recovered (concat gs)
    \<and> (rs_term rst, rs_voted_for rst) = foldl merge_vote (0, 0) (concat gs) \<and> rs_last_included_index rst = fst (snd (bases (concat gs)))
    \<and> rs_generation rst = of_nat (length (concat gs)) \<and> wm_generation m = of_nat (length (concat gs)) \<and> wm_next m = end_pos (newest 0 (0, 0, 0) gs)"
proof -
  have ne: "concat gs \<noteq> []" and ok: "\<forall>rs\<in>set gs. list_all rec_ok rs" and sg: "drop 0 (wd_segs d) = segs_bytes 1 gs t"
    using assms(1) by (auto simp: wal_layout_def neq_Nil_conv)
  obtain l where l: "k_wal_meta_load [] d = ([], l)" using meta_script by blast
  define m0 where "m0 = (case l of Inr m \<Rightarrow> m | Inl _ \<Rightarrow> wal_meta_zero)"
  define ma where "ma = (case l of Inr m \<Rightarrow> wm_generation m = 0 | Inl _ \<Rightarrow> True)"
  have ag: "l \<noteq> Inl False" "ma \<or> length gs \<le> Suc (unat (wp_segment (wm_next m0)))"
    "ma \<or> \<not> k_wal_pos_cmp \<lparr> wp_segment = wp_segment (wm_record m0), wp_offset = wp_offset (wm_record m0) + wm_record_size m0 \<rparr> (end_pos (newest 0 (0, 0, 0) gs)) > 0"
    using assms(2) l by (auto simp: meta_agrees_def m0_def ma_def split: sum.splits)
  obtain st where st: "wal_segments [] [] d ma (unat (wp_segment (wm_next m0))) False 0 scan_zero = ([], [], Some st)"
    "core st = scan_all 0 1 scan_zero gs" "blocks_ok (sc_restore st)" using load_scan[OF assms(1) ag(2)] by blast
  note ce = core_eq[OF st(2)]
  have tr: "tracks d st (bases (concat gs))" unfolding ce(8) bases_def by (rule all_tracks[OF ok _ sg]) (simp add: tracks_def scan_zero_def)
  have z: "sc_rec scan_zero = (0, 0, 0)" "sc_restore scan_zero = restore_zero" "sc_records scan_zero = 0" by (simp_all add: scan_zero_def)
  have f: "sc_rec st = newest 0 (0, 0, 0) gs" "sc_gen st = of_nat (length (concat gs))" "rs_entries (sc_restore st) = replayed (concat gs)"
    "(rs_term (sc_restore st), rs_voted_for (sc_restore st)) = foldl merge_vote (0, 0) (concat gs)" "rs_last_included_index (sc_restore st) = 0" "sc_records st \<noteq> 0"
    unfolding ce(1-7) all_fields using ne by (simp_all add: z replayed_def restore_zero_def del: concat_eq_Nil_conv)
  have go: "k_wal_state_load [] [] d = finish_load [] [] d st m0"
    unfolding k_wal_state_load_def l using ag(1,3) st(1) f(1,6) by (cases l) (auto simp: m0_def ma_def behind_end split: bool.splits)
  show ?thesis unfolding go using finish_law[OF tr assms(3) st(3) f(5,3) assms(4), of m0] f(1,2,4) by auto
qed

subsection \<open>The replayed log\<close>

text \<open>The replayed log is strictly sorted by index, and placing an entry keeps exactly the entries below it.\<close>

definition ascending :: "wal_entry list \<Rightarrow> bool" where
  "ascending es \<longleftrightarrow> sorted_wrt (<) (map wn_index es)"

lemma drop_from_filter: "ascending es \<Longrightarrow> drop_from i es = filter (\<lambda>e. wn_index e < i) es"
proof (induction es rule: rev_induct)
  case (snoc x xs)
  have a: "ascending xs" "\<forall>y\<in>set xs. wn_index y < wn_index x" using snoc.prems by (auto simp: ascending_def sorted_wrt_append)
  show ?case
  proof (cases "wn_index x < i")
    case True
    then have "filter (\<lambda>e. wn_index e < i) xs = xs" using a(2) by (auto simp: filter_id_conv)
    then show ?thesis using True by (simp add: drop_from_def)
  next
    case False
    have "drop_from i xs = rev (dropWhile (\<lambda>e. wn_index e \<ge> i) (rev xs))"
    proof (cases "xs \<noteq> [] \<and> wn_index (last xs) < i")
      case True
      then show ?thesis by (cases xs rule: rev_cases) (simp_all add: drop_from_def)
    qed (auto simp: drop_from_def)
    then show ?thesis using False snoc.IH[OF a(1)] by (simp add: drop_from_def)
  qed
qed (simp add: drop_from_def)

lemma place_filter: "ascending es \<Longrightarrow> wn_index e > 0 \<Longrightarrow> place es e = filter (\<lambda>x. wn_index x < wn_index e) es @ [e]"
  by (simp add: place_def drop_from_filter)

lemma place_ascending: "ascending es \<Longrightarrow> ascending (place es e)"
proof (cases "wn_index e > 0")
  case True
  assume a: "ascending es"
  then have "ascending (filter (\<lambda>x. wn_index x < wn_index e) es)" unfolding ascending_def sorted_wrt_map by (rule sorted_wrt_filter)
  then show ?thesis using True place_filter[OF a] by (auto simp: ascending_def sorted_wrt_append)
qed (simp add: place_def)

lemma foldl_ascending: "ascending es \<Longrightarrow> ascending (foldl place es xs)"
  by (induction xs arbitrary: es) (simp_all add: place_ascending)

lemma replayed_ascending: "ascending (replayed rs)"
  unfolding replayed_def by (rule foldl_ascending) (simp add: ascending_def)

lemma placed_bound:
  assumes "ascending es" "xs \<noteq> []" "wn_index (last xs) > 0" "x \<in> set (foldl place es xs)"
  shows "wn_index x \<le> wn_index (last xs)"
proof -
  have xs: "xs = butlast xs @ [last xs]" using assms(2) by simp
  have "foldl place es xs = place (foldl place es (butlast xs)) (last xs)" by (subst xs) simp
  then show ?thesis using assms(3,4) place_filter[OF foldl_ascending[OF assms(1)], of "last xs"] by auto
qed

subsection \<open>Concrete stores\<close>

definition w_entry :: "int \<Rightarrow> raft_persist_entry" where
  "w_entry i = \<lparr> pe_index = i, pe_term = 1, pe_kind = 0, pe_data = [7], pe_cfg_old = [], pe_cfg_new = [], pe_cfg_learners = [] \<rparr>"

definition w_rec :: "int \<Rightarrow> int list \<Rightarrow> wal_rec" where
  "w_rec b js = \<lparr> wr_persist = \<lparr> ps_term = 1, ps_voted_for = 2, ps_last_included_index = b, ps_last_included_term = 1, ps_snapshot_dirty = False,
     ps_snapshot_size = 0, ps_snapshot_cfg_old = [], ps_snapshot_cfg_new = [], ps_snapshot_cfg_learners = [], ps_log_entries = map w_entry js \<rparr>,
     wr_size = 0, wr_old = [], wr_new = [], wr_learners = [] \<rparr>"

definition w_disk :: "wal_rec list list \<Rightarrow> bytes \<Rightarrow> wal_disk" where
  "w_disk gs t = \<lparr> wd_cfg = [], wd_meta = [], wd_segs = segs_bytes 1 gs t, wd_snaps = (\<lambda>_. k_write_u32 (k_crc32 [])) \<rparr>"

lemma w_length: "length (rec_wire (w_rec b js)) = 52 + 34 * length js"
  by (induction js) (simp_all add: rec_wire_def w_rec_def pe_wire_def w_entry_def mask_wire_def Let_def)

lemma w_ok: "fits64 b \<Longrightarrow> list_all fits64 js \<Longrightarrow> length js \<le> 1000 \<Longrightarrow> rec_ok (w_rec b js)"
  unfolding rec_ok_def w_length by (simp add: w_rec_def rec_fits_def pe_fits_def pe_ok_def mask_ok_def w_entry_def list_all_iff fits64_def fits32_def)

lemma w_meta: "meta_agrees (w_disk gs t) gs"
  by (simp add: meta_agrees_def k_wal_meta_load_def w_disk_def io_def vfs_read_def)

lemma w_snap: "k_snapshot_verify_file [] (w_disk gs t) b = (True, [])"
  by (simp add: k_snapshot_verify_file_def w_disk_def io_def)

lemma w_view: "wn_index (entry_view (w_entry i)) = i" "rec_base (w_rec b js) = b" "ps_term (wr_persist (w_rec b js)) = 1" "ps_voted_for (wr_persist (w_rec b js)) = 2"
  "ps_log_entries (wr_persist (w_rec b js)) = map w_entry js" "pe_index (w_entry i) = i"
  by (simp_all add: entry_view_def w_entry_def rec_base_def w_rec_def)

lemmas w_eval = w_view replayed_def rec_entries_def place_def drop_from_def bases_def base_step_def merge_vote_def base_usable_def w_snap recovered_def

subsection \<open>Recovery theorems\<close>

text \<open>C13. Crash recovery is exact unless the record that introduces the snapshot base carries entries: take segments of
  complete records followed by any torn tail, metadata that name nothing past the newest record, no snapshot base or a
  usable one that was introduced by a record without entries, and entries that follow the base without a gap. With
  memory and without file errors, recovery then succeeds, ignores the torn record and returns the replay of all
  records: the log entries past the base with the last version of each index, the highest term with its latest vote,
  the number of the newest generation, and the end of the newest complete record as the next append position.\<close>

theorem wal_recovery:
  assumes "wal_layout d gs t" "meta_agrees d gs" "base_usable d (concat gs)" "bases (concat gs) = (pb, b, ro)"
    and "b = 0 \<or> ro = Some r \<and> ps_log_entries (wr_persist r) = []" "contiguous (b + 1) (filter (\<lambda>e. wn_index e > b) (replayed (concat gs)))"
  shows "\<exists>rst m. k_wal_state_load [] [] d = ([], [], Load_Ok rst m) \<and> rs_entries rst = filter (\<lambda>e. wn_index e > b) (replayed (concat gs))
    \<and> (rs_term rst, rs_voted_for rst) = foldl merge_vote (0, 0) (concat gs) \<and> rs_last_included_index rst = b
    \<and> rs_generation rst = of_nat (length (concat gs)) \<and> wm_next m = end_pos (newest 0 (0, 0, 0) gs)"
proof -
  have r: "recovered (concat gs) = filter (\<lambda>e. wn_index e > b) (replayed (concat gs))"
    using assms(4,5) by (auto simp: recovered_def rec_entries_def split: option.splits)
  show ?thesis using load_law[OF assms(1-3)] assms(4,6) r by auto
qed

theorem wal_recovery_witness:
  "let gs = [[w_rec 0 [1, 2]], [w_rec 0 [2, 3]]] in \<exists>rst m. k_wal_state_load [] [] (w_disk gs [75, 87]) = ([], [], Load_Ok rst m)
     \<and> map wn_index (rs_entries rst) = [1, 2, 3] \<and> rs_term rst = 1 \<and> rs_voted_for rst = 2 \<and> rs_generation rst = 2"
proof -
  let ?gs = "[[w_rec 0 [1, 2]], [w_rec 0 [2, 3]]]"
  have h: "wal_header 3 [0] = k_write_u32 K_WAL_MAGIC @ drop 4 (wal_header 3 [0])" by (simp add: wal_header_def)
  have "torn_tail 3 [75, 87]" unfolding torn_tail_def
    by (rule exI[of _ "[0]"], rule exI[of _ 2], subst h) (simp add: k_write_u32_def)
  then have lay: "wal_layout (w_disk ?gs [75, 87]) ?gs [75, 87]" by (simp add: wal_layout_def w_ok fits64_def) (simp add: w_disk_def)
  show ?thesis using wal_recovery[OF lay w_meta, of 0 0 None "w_rec 0 []"] by (auto simp: w_eval)
qed

text \<open>C34. A durable log suffix is lost after a snapshot: when the record that first carries the snapshot base also
  carries log entries, recovery decodes that record a second time for its header and puts its entries again, which
  cuts the log behind them. Every record written later, though complete and synced, contributes no entry past the
  last entry of the base record.\<close>

theorem base_record_cuts_log:
  assumes "wal_layout d gs t" "meta_agrees d gs" "base_usable d (concat gs)" "bases (concat gs) = (pb, b, Some r)" "b > 0"
    and "ps_log_entries (wr_persist r) \<noteq> []" "pe_index (last (ps_log_entries (wr_persist r))) > 0" "contiguous (b + 1) (recovered (concat gs))"
  shows "\<exists>rst m. k_wal_state_load [] [] d = ([], [], Load_Ok rst m)
    \<and> (\<forall>e\<in>set (rs_entries rst). wn_index e \<le> pe_index (last (ps_log_entries (wr_persist r))))"
proof -
  have l: "rec_entries r \<noteq> []" "wn_index (last (rec_entries r)) = pe_index (last (ps_log_entries (wr_persist r)))"
    using assms(6) by (simp_all add: rec_entries_def last_map entry_view_def)
  have "wn_index e \<le> wn_index (last (rec_entries r))" if "e \<in> set (recovered (concat gs))" for e
    using that placed_bound[OF replayed_ascending l(1)] assms(4,5,7) l(2) by (auto simp: recovered_def)
  then show ?thesis using load_law[OF assms(1-3)] assms(4,8) l(2) by auto
qed

theorem base_record_cuts_log_witness:
  "let gs = [[w_rec 0 [1, 2], w_rec 2 [3], w_rec 2 [4]]] in map wn_index (replayed (concat gs)) = [1, 2, 3, 4]
     \<and> (\<exists>rst m. k_wal_state_load [] [] (w_disk gs []) = ([], [], Load_Ok rst m) \<and> (\<forall>e\<in>set (rs_entries rst). wn_index e \<le> 3))"
proof -
  let ?gs = "[[w_rec 0 [1, 2], w_rec 2 [3], w_rec 2 [4]]]"
  have lay: "wal_layout (w_disk ?gs []) ?gs []" by (simp add: wal_layout_def w_ok fits64_def torn_none) (simp add: w_disk_def)
  show ?thesis using base_record_cuts_log[OF lay w_meta, of 0 2 "w_rec 2 [3]"] by (simp add: w_eval)
qed

end
