(* ===== verification/Server_Append.thy ===== *)
theory Server_Append
  imports Server_Recovery
begin

section \<open>Appending to the write-ahead log\<close>

text \<open>
  What \<^verbatim>\<open>k_wal_append_bundle\<close> leaves on disk, whatever file operations fail: the segments always hold
  complete records and at most one torn tail, an acknowledged append is complete, and a store built
  from nothing by appends is recovered exactly.
\<close>

subsection \<open>Segments\<close>

lemma recs_bytes_snoc: "recs_bytes g (rs @ [q]) = recs_bytes g rs @ wal_header (g + of_nat (length rs)) (rec_wire q) @ rec_wire q"
  by (induction rs arbitrary: g) (simp_all add: add.assoc add.commute[of 1])

lemma segs_bytes_snoc: "segs_bytes g (gs @ [rs]) t = segs_bytes g gs [] @ [recs_bytes (g + of_nat (length (concat gs))) rs @ t]"
  by (induction gs arbitrary: g) (simp_all add: add.assoc)

lemma recs_length: "length (recs_bytes g rs) = sum_list (map (\<lambda>r. K_WAL_HEADER_SIZE + length (rec_wire r)) rs)"
  by (induction rs arbitrary: g) simp_all

lemma recs_concat: "length (recs_bytes g (concat gs)) = sum_list (map (\<lambda>rs. length (recs_bytes 1 rs)) gs)"
  by (induction gs) (simp_all add: recs_length)

text \<open>All positions and generations fit their 64-bit fields.\<close>

definition wal_bound :: "wal_rec list \<Rightarrow> bool" where
  "wal_bound rs \<longleftrightarrow> length (recs_bytes 1 rs) < 2 ^ 64"

lemma bound_records: "48 * length rs \<le> length (recs_bytes g rs)"
proof (induction rs arbitrary: g)
  case (Cons r rs)
  show ?case using Cons.IH[of "g + 1"] long_rec[of r] by simp
qed simp

lemma bound_last: "gs \<noteq> [] \<Longrightarrow> length (recs_bytes g (last gs)) \<le> length (recs_bytes 1 (concat gs))"
  using member_le_sum_list[of "length (recs_bytes 1 (last gs))" "map (\<lambda>rs. length (recs_bytes 1 rs)) gs"]
  by (simp add: recs_concat) (simp add: recs_length)

lemma segments_le: "[] \<notin> set gs \<Longrightarrow> length gs \<le> length (concat gs)"
proof (induction gs)
  case (Cons rs gs)
  then show ?case by (cases rs) simp_all
qed simp

subsection \<open>Writing a record\<close>

lemma store_at_end: "store_at a (length a) c = a @ c"
  by (simp add: store_at_def)

lemma store_at_over: "store_at (a @ b) (length a) c = a @ c @ drop (length c) b"
  by (simp add: store_at_def)

lemma seg_data_set [simp]: "seg_data (set_seg d i x) i = x"
  by (simp add: seg_data_def set_seg_def) arith

lemma set_seg_twice [simp]: "set_seg (set_seg d i x) i y = set_seg d i y"
  by (simp add: set_seg_def)

lemma set_seg_segs:
  "i < length (wd_segs d) \<Longrightarrow> wd_segs (set_seg d i x) = (wd_segs d)[i := x]"
  "i = length (wd_segs d) \<Longrightarrow> wd_segs (set_seg d i x) = wd_segs d @ [x]"
  by (simp_all add: set_seg_def)

lemma set_seg_rest [simp]: "wd_meta (set_seg d i x) = wd_meta d" "wd_snaps (set_seg d i x) = wd_snaps d" "wd_cfg (set_seg d i x) = wd_cfg d"
  by (simp_all add: set_seg_def)

lemma write_at_end:
  assumes "vfs_write ios a (length a) c = (ok, ios', f)"
  shows "(\<exists>k. f = a @ take k c) \<and> (ok \<longrightarrow> f = a @ c) \<and> (ios = [] \<longrightarrow> ok \<and> ios' = [])"
proof (cases "fst (io ios)")
  case None
  then have "ok \<and> f = a @ take (length c) c \<and> (ios = [] \<longrightarrow> ios' = [])"
    using assms by (auto simp: vfs_write_def store_at_end io_def split: list.splits)
  then show ?thesis by (metis take_all_iff order_refl)
next
  case (Some k)
  then have "\<not> ok \<and> f = a @ take k c \<and> ios \<noteq> []" using assms by (auto simp: vfs_write_def store_at_end io_def split: list.splits)
  then show ?thesis by blast
qed

lemma write_record_law:
  assumes "seg_data d (unat (wp_segment pos)) = a" "unat (wp_offset pos) = length a" "length hdr = 24"
  shows "\<exists>ok ios' k. write_record ios d pos hdr p = (ok, ios', set_seg d (unat (wp_segment pos)) (a @ take k (hdr @ p)))
    \<and> (ok \<longrightarrow> k = length (hdr @ p)) \<and> (ios = [] \<longrightarrow> ok \<and> ios' = [])"
proof -
  define i where "i = unat (wp_segment pos)"
  obtain ok1 s1 f1 where w1: "vfs_write ios a (length a) hdr = (ok1, s1, f1)" by (metis prod_cases3)
  note l1 = write_at_end[OF w1]
  obtain ok2 s2 f2 where w2: "vfs_write s1 (a @ hdr) (length (a @ hdr)) p = (ok2, s2, f2)" by (metis prod_cases3)
  note l2 = write_at_end[OF w2]
  obtain ok3 s3 where w3: "vfs_sync s2 = (ok3, s3)" by (metis prod.exhaust)
  have l3: "s2 = [] \<longrightarrow> ok3 \<and> s3 = []" using w3 by (auto simp: vfs_sync_def io_def)
  have w2': "vfs_write s1 (a @ hdr) (length a + K_WAL_HEADER_SIZE) p = (ok2, s2, f2)" using w2 assms(3) by simp
  show ?thesis
  proof (cases ok1)
    case False
    then obtain k where k: "f1 = a @ take k hdr" using l1 by blast
    have f: "f1 = a @ take (min k 24) (hdr @ p)" using k assms(3) by (cases "k \<le> 24") simp_all
    have "write_record ios d pos hdr p = (False, s1, set_seg d i (a @ take (min k 24) (hdr @ p)))"
      unfolding write_record_def Let_def assms(1,2) w1 f i_def using False by simp
    then show ?thesis using False l1 unfolding i_def by blast
  next
    case True
    then have f1: "f1 = a @ hdr" using l1 by blast
    have r: "write_record ios d pos hdr p = (if ok2 then (ok3, s3, set_seg d i f2) else (False, s2, set_seg d i f2))"
      unfolding write_record_def Let_def assms(1,2) w1 f1 i_def using True by (simp add: w2' w3)
    show ?thesis
    proof (cases ok2)
      case t2: True
      then have "f2 = a @ take (length (hdr @ p)) (hdr @ p)" using l2 by simp
      then have "write_record ios d pos hdr p = (ok3, s3, set_seg d i (a @ take (length (hdr @ p)) (hdr @ p)))" using r t2 by simp
      then show ?thesis using l1 l2 l3 unfolding i_def by blast
    next
      case False
      then obtain k where "f2 = (a @ hdr) @ take k p" using l2 by blast
      then have "f2 = a @ take (24 + k) (hdr @ p)" using assms(3) by simp
      then have "write_record ios d pos hdr p = (False, s2, set_seg d i (a @ take (24 + k) (hdr @ p)))" using r False by simp
      then show ?thesis using l1 l2 False unfolding i_def by blast
    qed
  qed
qed

subsection \<open>The worker at start\<close>

abbreviation NO_SEGMENT :: u64 where "NO_SEGMENT \<equiv> 0xffffffffffffffff"

text \<open>A worker as the server starts it.\<close>

definition start_worker :: "k_wal_meta_state \<Rightarrow> u64 \<Rightarrow> k_wal_worker" where
  "start_worker m gen = \<lparr> ww_meta_slot = wm_slot m, ww_generation = gen, ww_next = wm_next m, ww_seg_file = None, ww_meta_file = False, ww_open_files = 0,
     ww_meta_since_sync = K_WAL_META_FSYNC_EVERY, ww_meta_sync_segment = NO_SEGMENT \<rparr>"

subsection \<open>Where a record goes\<close>

text \<open>A store without a torn tail, and a worker that stands at its end: right behind the newest record, or at the
  start of the next segment.\<close>

definition intact :: "wal_disk \<Rightarrow> wal_rec list list \<Rightarrow> bool" where
  "intact d gs \<longleftrightarrow> [] \<notin> set gs \<and> (\<forall>rs\<in>set gs. list_all rec_ok rs) \<and> wal_bound (concat gs) \<and> wd_segs d = segs_bytes 1 gs []"

definition at_end :: "k_wal_worker \<Rightarrow> wal_rec list list \<Rightarrow> bool" where
  "at_end w gs \<longleftrightarrow> ww_generation w = of_nat (length (concat gs)) \<and> (ww_next w = \<lparr> wp_segment = of_nat (length gs), wp_offset = 0 \<rparr>
     \<or> gs \<noteq> [] \<and> ww_next w = \<lparr> wp_segment = of_nat (length gs - 1), wp_offset = of_nat (length (recs_bytes 1 (last gs))) \<rparr>)"

text \<open>A store in which the record after the given ones may have been torn.\<close>

definition torn_store :: "wal_disk \<Rightarrow> wal_rec list list \<Rightarrow> bytes \<Rightarrow> bool" where
  "torn_store d gs t \<longleftrightarrow> [] \<notin> set (butlast gs) \<and> (\<forall>rs\<in>set gs. list_all rec_ok rs) \<and> wal_bound (concat gs)
     \<and> torn_tail (1 + of_nat (length (concat gs))) t \<and> wd_segs d = segs_bytes 1 gs t"

lemma bound_count: "wal_bound rs \<Longrightarrow> length rs < 2 ^ 64 - 1"
  using bound_records[of rs 1] by (simp add: wal_bound_def)

lemma torn_layout: "torn_store d gs t \<Longrightarrow> concat gs \<noteq> [] \<Longrightarrow> wal_layout d gs t"
proof -
  assume s: "torn_store d gs t" "concat gs \<noteq> []"
  have "hd gs \<noteq> []" using s by (cases gs) (auto simp: torn_store_def split: if_splits)
  then show ?thesis using s bound_count[of "concat gs"] by (auto simp: torn_store_def wal_layout_def)
qed

lemma intact_torn: "intact d gs \<Longrightarrow> torn_store d gs []"
  by (auto simp: intact_def torn_store_def torn_none dest: in_set_butlastD)

lemma place_record:
  assumes "[] \<notin> set hs" "\<forall>rs\<in>set hs. list_all rec_ok rs" "list_all rec_ok rs" "rec_ok q" "wal_bound (concat hs @ rs @ [q])"
    and "wd_segs d = segs_bytes 1 hs [] @ (if rs = [] then [] else [recs_bytes (1 + of_nat (length (concat hs))) rs])"
    and "unat (wp_segment pos) = length hs" "unat (wp_offset pos) = length (recs_bytes 1 rs)" "g = 1 + of_nat (length (concat hs @ rs))"
  shows "\<exists>ok ios' d'. write_record ios d pos (wal_header g (rec_wire q)) (rec_wire q) = (ok, ios', d') \<and> wd_meta d' = wd_meta d \<and> wd_snaps d' = wd_snaps d
    \<and> (ios = [] \<longrightarrow> ok \<and> ios' = []) \<and> (intact d' (hs @ [rs @ [q]]) \<or> \<not> ok \<and> (\<exists>t. torn_store d' (hs @ [rs]) t))"
proof -
  define g0 where "g0 = 1 + of_nat (length (concat hs)) + (0 :: u64)"
  define a where "a = recs_bytes g0 rs"
  define p where "p = rec_wire q"
  define h where "h = wal_header g p"
  have la: "length a = length (recs_bytes 1 rs)" by (simp add: a_def recs_length)
  have gg: "g = g0 + of_nat (length rs)" using assms(9) by (simp add: g0_def add.assoc)
  have sl: "length (wd_segs d) = length hs + (if rs = [] then 0 else 1)" using assms(6) by (simp add: segs_length)
  have sd: "seg_data d (length hs) = a" using assms(6) by (simp add: seg_data_def segs_length nth_append a_def g0_def)
  have ws: "wd_segs (set_seg d (length hs) x) = segs_bytes 1 hs [] @ [x]" for x
  proof (cases "rs = []")
    case True
    then show ?thesis using set_seg_segs(2)[of "length hs" d x] assms(6) sl by simp
  next
    case False
    then show ?thesis using set_seg_segs(1)[of "length hs" d x] assms(6) sl by (simp add: segs_length list_update_append)
  qed
  obtain ok ios' k where w: "write_record ios d pos h p = (ok, ios', set_seg d (length hs) (a @ take k (h @ p)))" "ok \<longrightarrow> k = length (h @ p)" "ios = [] \<longrightarrow> ok \<and> ios' = []"
    using write_record_law[of d pos a h ios p] sd la assms(7,8) unfolding h_def by auto
  define d' where "d' = set_seg d (length hs) (a @ take k (h @ p))"
  have wb: "wal_bound (concat hs @ rs)" using assms(5) by (simp add: wal_bound_def recs_length)
  have "intact d' (hs @ [rs @ [q]]) \<or> \<not> ok \<and> (\<exists>t. torn_store d' (hs @ [rs]) t)"
  proof (cases "k \<ge> length (h @ p)")
    case True
    then have "wd_segs d' = segs_bytes 1 (hs @ [rs @ [q]]) []"
      unfolding d'_def ws segs_bytes_snoc by (simp add: recs_bytes_snoc a_def h_def p_def gg g0_def)
    then show ?thesis using assms(1-5) by (simp add: intact_def)
  next
    case False
    have "p \<noteq> []" "length p \<le> K_STATE_MAX" using rec_size[OF assms(4)] by (simp_all add: p_def)
    then have "torn_tail (1 + of_nat (length (concat (hs @ [rs])))) (take k (h @ p))"
      unfolding torn_tail_def using False assms(9) by (intro exI[of _ p] exI[of _ k]) (simp add: h_def)
    then show ?thesis using False w(2) assms(1-3) wb ws
      by (intro disjI2 conjI exI[of _ "take k (h @ p)"]) (auto simp: torn_store_def d'_def segs_bytes_snoc a_def g0_def)
  qed
  moreover have "write_record ios d pos (wal_header g (rec_wire q)) (rec_wire q) = (ok, ios', d')" using w(1) by (simp add: d'_def h_def p_def)
  moreover have "wd_meta d' = wd_meta d" "wd_snaps d' = wd_snaps d" by (simp_all add: d'_def)
  ultimately show ?thesis using w(3) by blast
qed

lemma take_pos_cases:
  assumes "at_end w gs" "[] \<notin> set gs" "wal_bound (concat gs)"
  shows "\<exists>hs rs. (gs = hs \<and> rs = [] \<or> gs = hs @ [rs] \<and> rs \<noteq> []) \<and> take_pos w sz n = \<lparr> wp_segment = of_nat (length hs), wp_offset = of_nat (length (recs_bytes 1 rs)) \<rparr>
    \<and> length hs < 2 ^ 64 - 1 \<and> length (recs_bytes 1 rs) < 2 ^ 64"
proof -
  have lg: "length gs < 2 ^ 64 - 1" using segments_le[OF assms(2)] bound_count[OF assms(3)] by linarith
  let ?new = "\<lparr> wp_segment = of_nat (length gs), wp_offset = 0 \<rparr> :: k_wal_pos"
  consider "take_pos w sz n = ?new" | "gs \<noteq> []" "take_pos w sz n = \<lparr> wp_segment = of_nat (length gs - 1), wp_offset = of_nat (length (recs_bytes 1 (last gs))) \<rparr>"
  proof -
    have t: "take_pos w sz n = ww_next w \<or> wp_offset (ww_next w) > 0 \<and> take_pos w sz n = \<lparr> wp_segment = wp_segment (ww_next w) + 1, wp_offset = 0 \<rparr>"
      by (simp add: take_pos_def Let_def)
    have "(of_nat (length gs - 1) :: u64) + 1 = of_nat (length gs)" if "gs \<noteq> []" using that by (cases gs) simp_all
    then show thesis using t assms(1) that unfolding at_end_def by auto
  qed
  then show ?thesis
  proof cases
    case 1
    then show ?thesis using lg by (intro exI[of _ gs] exI[of _ "[]"]) simp
  next
    case 2
    have "last gs \<noteq> []" using 2(1) assms(2) last_in_set by metis
    moreover have "length (recs_bytes 1 (last gs)) < 2 ^ 64" using bound_last[OF 2(1), of 1] assms(3) by (simp add: wal_bound_def)
    ultimately show ?thesis using 2 lg by (intro exI[of _ "butlast gs"] exI[of _ "last gs"]) simp
  qed
qed

lemma meta_store_rest: "k_wal_meta_store ios d w m du = (ok, ios', d', w') \<Longrightarrow> wd_segs d' = wd_segs d \<and> wd_snaps d' = wd_snaps d"
  unfolding k_wal_meta_store_def Let_def by (auto split: if_splits prod.splits)

lemma seg_file_worker:
  assumes "k_wal_seg_file ios w seg = (ok, ios', w')"
  shows "ww_generation w' = ww_generation w \<and> ww_next w' = ww_next w \<and> ww_meta_slot w' = ww_meta_slot w \<and> ww_meta_since_sync w' = ww_meta_since_sync w
    \<and> ww_meta_sync_segment w' = ww_meta_sync_segment w \<and> (ios = [] \<longrightarrow> ok \<and> ios' = [])"
  using assms by (auto simp: k_wal_seg_file_def io_def Let_def split: if_splits prod.splits list.splits)

lemma append_write:
  assumes "intact d gs" "at_end w gs" "rec_ok q" "wal_bound (concat gs @ [q])"
  shows "\<exists>hs rs ok ios' d'. concat (hs @ [rs]) = concat gs \<and> (gs = hs \<or> gs = hs @ [rs]) \<and> length hs < 2 ^ 64 - 1 \<and> length (recs_bytes 1 rs) < 2 ^ 64
    \<and> take_pos w sz n = \<lparr> wp_segment = of_nat (length hs), wp_offset = of_nat (length (recs_bytes 1 rs)) \<rparr>
    \<and> write_record ios d (take_pos w sz n) (wal_header (ww_generation w + 1) (rec_wire q)) (rec_wire q) = (ok, ios', d') \<and> wd_meta d' = wd_meta d \<and> wd_snaps d' = wd_snaps d
    \<and> (ios = [] \<longrightarrow> ok \<and> ios' = []) \<and> (intact d' (hs @ [rs @ [q]]) \<or> \<not> ok \<and> (\<exists>t. torn_store d' (hs @ [rs]) t))"
proof -
  have i: "[] \<notin> set gs" "\<forall>rs\<in>set gs. list_all rec_ok rs" "wal_bound (concat gs)" "wd_segs d = segs_bytes 1 gs []" using assms(1) by (simp_all add: intact_def)
  obtain hs rs where h: "gs = hs \<and> rs = [] \<or> gs = hs @ [rs] \<and> rs \<noteq> []" "take_pos w sz n = \<lparr> wp_segment = of_nat (length hs), wp_offset = of_nat (length (recs_bytes 1 rs)) \<rparr>"
    "length hs < 2 ^ 64 - 1" "length (recs_bytes 1 rs) < 2 ^ 64" using take_pos_cases[OF assms(2) i(1,3)] by blast
  have c: "concat hs @ rs = concat gs" using h(1) by auto
  have b: "wal_bound (concat hs @ rs @ [q])" using assms(4) c by (simp flip: append_assoc)
  have segs: "wd_segs d = segs_bytes 1 hs [] @ (if rs = [] then [] else [recs_bytes (1 + of_nat (length (concat hs))) rs])"
    using h(1) i(4) by (auto simp: segs_bytes_snoc)
  have u: "unat (wp_segment (take_pos w sz n)) = length hs" "unat (wp_offset (take_pos w sz n)) = length (recs_bytes 1 rs)"
    using h(2-4) by (simp_all add: unat_of_nat)
  have g: "ww_generation w + 1 = 1 + of_nat (length (concat hs @ rs))" using assms(2) c by (simp add: at_end_def)
  have hs: "[] \<notin> set hs" "\<forall>rs\<in>set hs. list_all rec_ok rs" "list_all rec_ok rs" using i h(1) by auto
  have cc: "concat (hs @ [rs]) = concat gs" "gs = hs \<or> gs = hs @ [rs]" using c h(1) by auto
  show ?thesis using place_record[OF hs assms(3) b segs u g, of ios] cc h(2-4) by blast
qed

text \<open>C12. Appending is crash safe: whatever file operations of an append fail, and whatever part of the data a failed
  write has stored, the segments hold either the old records with at most a torn tail, or the old records and the
  new one complete; an append that succeeds has stored the new record.\<close>

theorem append_crash_safe:
  assumes "intact d gs" "at_end w gs" "rec_ok q" "wal_bound (concat gs @ [q])"
  shows "case k_wal_append_bundle ios d w segment_size (rec_wire q) of (mo, ios', d', w') \<Rightarrow>
      wd_snaps d' = wd_snaps d \<and> ((\<exists>gs'. intact d' gs' \<and> concat gs' = concat gs @ [q]) \<or> mo = None \<and> (\<exists>gs' t. torn_store d' gs' t \<and> concat gs' = concat gs))"
proof -
  define n where "n = (of_nat (K_WAL_HEADER_SIZE + length (rec_wire q)) :: u64)"
  define pos where "pos = take_pos w segment_size n"
  note ne = rec_size(2)[OF assms(3)]
  have same: "\<exists>gs' t. torn_store d gs' t \<and> concat gs' = concat gs" using intact_torn[OF assms(1)] by blast
  show ?thesis
  proof (cases "ww_generation w = 0xffffffffffffffff")
    case True
    then show ?thesis using same by (simp add: k_wal_append_bundle_def)
  next
    case False
    obtain ok1 s1 w1 where f: "k_wal_seg_file ios w (wp_segment pos) = (ok1, s1, w1)" by (metis prod_cases3)
    obtain hs rs ok2 s2 d2 where a: "concat (hs @ [rs]) = concat gs" "write_record s1 d pos (wal_header (ww_generation w + 1) (rec_wire q)) (rec_wire q) = (ok2, s2, d2)"
      "wd_snaps d2 = wd_snaps d" "intact d2 (hs @ [rs @ [q]]) \<or> \<not> ok2 \<and> (\<exists>t. torn_store d2 (hs @ [rs]) t)"
      using append_write[OF assms, of segment_size n s1] unfolding pos_def by blast
    obtain du w2 where cs: "count_sync w1 pos = (du, w2)" by (metis prod.exhaust)
    obtain ok3 s3 d3 w3 where ms: "k_wal_meta_store s2 d2 w2 (rec_meta (ww_generation w + 1) pos n segment_size) du = (ok3, s3, d3, w3)" by (metis prod_cases4)
    have r: "k_wal_append_bundle ios d w segment_size (rec_wire q) = (if \<not> ok1 then (None, s1, d, w1) else if \<not> ok2 then (None, s2, d2, k_wal_files_close w1)
        else if \<not> ok3 then (None, s3, d3, w3) else (Some ((rec_meta (ww_generation w + 1) pos n segment_size)\<lparr>wm_slot := ww_meta_slot w3\<rparr>), s3, d3, w3))"
      unfolding k_wal_append_bundle_def Let_def n_def[symmetric] pos_def[symmetric] using False ne by (simp add: f a(2) cs ms)
    have c: "concat (hs @ [rs @ [q]]) = concat gs @ [q]" using a(1) by simp
    have i3: "intact d2 (hs @ [rs @ [q]]) \<Longrightarrow> intact d3 (hs @ [rs @ [q]])" "wd_snaps d3 = wd_snaps d2" using meta_store_rest[OF ms] by (simp_all add: intact_def)
    show ?thesis
    proof (cases "ok1 \<and> ok2")
      case True
      then have "intact d3 (hs @ [rs @ [q]])" using a(4) i3 by blast
      then show ?thesis unfolding r using True a(3) i3(2) c by (cases ok3) auto
    next
      case False
      then show ?thesis unfolding r using same a(1,3,4) c by (cases ok1) auto
    qed
  qed
qed

theorem append_crash_safe_witness:
  "let w = (start_worker wal_meta_zero 1)\<lparr>ww_next := \<lparr> wp_segment = 0, wp_offset = 110 \<rparr>\<rparr> in
     case k_wal_append_bundle [None, None, Some 5] (w_disk [[w_rec 0 [1]]] []) w 67108864 (rec_wire (w_rec 0 [2])) of (mo, ios', d', w') \<Rightarrow>
       (\<exists>gs'. intact d' gs' \<and> concat gs' = [w_rec 0 [1], w_rec 0 [2]]) \<or> mo = None \<and> (\<exists>gs' t. torn_store d' gs' t \<and> concat gs' = [w_rec 0 [1]])"
proof -
  have i: "intact (w_disk [[w_rec 0 [1]]] []) [[w_rec 0 [1]]]" by (simp add: intact_def w_ok fits64_def wal_bound_def w_length) (simp add: w_disk_def)
  have a: "at_end ((start_worker wal_meta_zero 1)\<lparr>ww_next := \<lparr> wp_segment = 0, wp_offset = 110 \<rparr>\<rparr>) [[w_rec 0 [1]]]"
    by (simp add: at_end_def start_worker_def w_length)
  have b: "wal_bound (concat [[w_rec 0 [1]]] @ [w_rec 0 [2]])" "rec_ok (w_rec 0 [2])" by (simp_all add: wal_bound_def w_length w_ok fits64_def)
  show ?thesis unfolding Let_def using append_crash_safe[OF i a b(2,1), of "[None, None, Some 5]" 67108864] by (auto split: prod.splits)
qed

subsection \<open>The metadata slots\<close>

lemma read_prefix:
  "i + 4 \<le> length a \<Longrightarrow> k_read_u32 (drop i (a @ b)) = k_read_u32 (drop i a)" "i + 8 \<le> length a \<Longrightarrow> k_read_u64 (drop i (a @ b)) = k_read_u64 (drop i a)"
  by (simp_all add: k_read_u32_def k_read_u64_def nth_append)

lemma decode_prefix:
  assumes "60 \<le> length a"
  shows "k_wal_meta_slot_decode (a @ b) = k_wal_meta_slot_decode a"
proof -
  have "k_read_u32 (a @ b) = k_read_u32 a" using read_prefix(1)[of 0 a b] assms by simp
  then show ?thesis using assms by (simp only: k_wal_meta_slot_decode_def read_prefix) (simp add: read_prefix)
qed

lemma length_slot [simp]: "length (k_wal_meta_slot_encode m) = 128"
  by (simp add: k_wal_meta_slot_encode_def)

lemma load_slots:
  assumes "length f = 4096" "length f' = 4096" "wd_meta d = f @ f'"
  shows "k_wal_meta_load [] d = ([], case (k_wal_meta_slot_decode f, k_wal_meta_slot_decode f') of
      (None, None) \<Rightarrow> Inl False | (Some a, None) \<Rightarrow> Inr (a\<lparr>wm_slot := 0\<rparr>) | (None, Some b) \<Rightarrow> Inr (b\<lparr>wm_slot := 1\<rparr>)
    | (Some a, Some b) \<Rightarrow> if wm_generation a > wm_generation b \<or> wm_generation a = wm_generation b \<and> k_wal_pos_cmp (wm_next a) (wm_next b) > 0
        then Inr (a\<lparr>wm_slot := 0\<rparr>) else Inr (b\<lparr>wm_slot := 1\<rparr>))"
proof -
  have r: "vfs_read (wd_meta d) 0 K_WAL_META_SIZE = Some (f @ f')" using assms by (simp add: vfs_read_def)
  have p: "k_wal_meta_slot_decode (f @ f') = k_wal_meta_slot_decode f" using decode_prefix[of f f'] assms(1) by simp
  show ?thesis unfolding k_wal_meta_load_def using assms(1) by (simp add: r p io_def split: option.splits)
qed

lemma loaded_slot:
  assumes "length f = 4096" "length f' = 4096" "wd_meta d = f @ f'" "k_wal_meta_load [] d = ([], Inr m)"
  shows "wm_slot m = 0 \<and> (\<exists>a. k_wal_meta_slot_decode f = Some a \<and> wm_generation a = wm_generation m)
    \<or> wm_slot m = 1 \<and> (\<exists>b. k_wal_meta_slot_decode f' = Some b \<and> wm_generation b = wm_generation m)"
  using assms(4) unfolding load_slots[OF assms(1-3)]
  by (cases "k_wal_meta_slot_decode f"; cases "k_wal_meta_slot_decode f'") (auto split: if_splits)

text \<open>A slot with a newer generation replaces the older of the two.\<close>

lemma load_replaced:
  assumes "length f = 4096" "length f' = 4096" "wd_meta d = f @ f'" "k_wal_meta_load [] d = ([], Inr m0)" "wm_generation m0 < wm_generation m"
    and "length g = 4096" "k_wal_meta_slot_decode g = Some (m\<lparr>wm_slot := 0\<rparr>)" "wd_meta d' = (if wm_slot m0 = 0 then f @ g else g @ f')"
  shows "k_wal_meta_load [] d' = ([], Inr (m\<lparr>wm_slot := (if wm_slot m0 = 0 then 1 else 0)\<rparr>))"
proof (cases "wm_slot m0 = 0")
  case True
  then obtain a where "wd_meta d' = f @ g" "k_wal_meta_slot_decode f = Some a" "wm_generation a = wm_generation m0"
    using assms(8) loaded_slot[OF assms(1-4)] by auto
  then show ?thesis using load_slots[OF assms(1,6), of d'] assms(5,7) True less_imp_neq[OF assms(5)] by simp
next
  case False
  then obtain b where "wd_meta d' = g @ f'" "k_wal_meta_slot_decode f' = Some b" "wm_generation b = wm_generation m0"
    using assms(8) loaded_slot[OF assms(1-4)] by auto
  then show ?thesis using load_slots[OF assms(6,2), of d'] assms(5,7) False by simp
qed

lemma meta_store_law:
  assumes "length (wd_meta d) = K_WAL_META_SIZE" "k_wal_meta_load [] d = ([], Inr m0)" "ww_meta_slot w = wm_slot m0" "wm_generation m0 < wm_generation m" "meta_ok m"
  shows "\<exists>d' w'. k_wal_meta_store [] d w m True = (True, [], d', w') \<and> wd_segs d' = wd_segs d \<and> wd_snaps d' = wd_snaps d \<and> length (wd_meta d') = K_WAL_META_SIZE
    \<and> k_wal_meta_load [] d' = ([], Inr (m\<lparr>wm_slot := ww_meta_slot w'\<rparr>)) \<and> ww_generation w' = wm_generation m \<and> ww_next w' = wm_next m
    \<and> ww_meta_sync_segment w' = ww_meta_sync_segment w"
proof -
  define f where "f = take 4096 (wd_meta d)" define f' where "f' = drop 4096 (wd_meta d)"
  have f: "length f = 4096" "length f' = 4096" "wd_meta d = f @ f'" using assms(1) by (simp_all add: f_def f'_def)
  define k where "k = (if wm_slot m0 = 0 then 1 else 0 :: nat)"
  define g where "g = k_wal_meta_slot_encode m @ drop 128 (if wm_slot m0 = 0 then f' else f)"
  define D where "D = d\<lparr>wd_meta := (if wm_slot m0 = 0 then f @ g else g @ f')\<rparr>"
  define w1 where "w1 = w\<lparr>ww_generation := wm_generation m, ww_next := wm_next m\<rparr>"
  define w2 where "w2 = (if ww_meta_file w1 then w1 else w1\<lparr>ww_meta_file := True, ww_open_files := ww_open_files w1 + 1\<rparr>)"
  have lg: "length g = 4096" using f by (simp add: g_def)
  have st: "store_at (wd_meta d) (k * K_WAL_META_SLOT_GAP) (k_wal_meta_slot_encode m) = wd_meta D"
  proof (cases "wm_slot m0 = 0")
    case True
    then show ?thesis using f store_at_over[of f f' "k_wal_meta_slot_encode m"] by (simp add: k_def g_def D_def)
  next
    case False
    then show ?thesis using f store_at_over[of "[]" "f @ f'" "k_wal_meta_slot_encode m"] by (simp add: k_def g_def D_def)
  qed
  have mf: "k_wal_meta_file [] w1 = (True, [], w2)" by (simp add: k_wal_meta_file_def w2_def io_def)
  have sl: "ww_meta_slot w1 = wm_slot m0" using assms(3) by (simp add: w1_def)
  have vw: "vfs_write [] (wd_meta d) (k * K_WAL_META_SLOT_GAP) (k_wal_meta_slot_encode m) = (True, [], wd_meta D)" by (simp add: vfs_write_def io_def st)
  have dd: "d\<lparr>wd_meta := wd_meta D\<rparr> = D" by (simp add: D_def)
  have s: "k_wal_meta_store [] d w m True = (True, [], D, w2\<lparr>ww_meta_slot := k\<rparr>)"
    unfolding k_wal_meta_store_def Let_def w1_def[symmetric] sl k_def[symmetric] mf by (simp add: vw dd vfs_sync_def io_def)
  have dm: "k_wal_meta_slot_decode g = Some (m\<lparr>wm_slot := 0\<rparr>)" unfolding g_def by (rule slot_roundtrip[OF assms(5)])
  have ld: "k_wal_meta_load [] D = ([], Inr (m\<lparr>wm_slot := k\<rparr>))" unfolding k_def by (rule load_replaced[OF f assms(2,4) lg dm]) (simp add: D_def)
  have "length (wd_meta D) = K_WAL_META_SIZE" "wd_segs D = wd_segs d" "wd_snaps D = wd_snaps d" using f lg by (simp_all add: D_def)
  moreover have "ww_generation w2 = wm_generation m" "ww_next w2 = wm_next m" "ww_meta_sync_segment w2 = ww_meta_sync_segment w" by (simp_all add: w2_def w1_def)
  ultimately show ?thesis using s ld by (intro exI[of _ D] exI[of _ "w2\<lparr>ww_meta_slot := k\<rparr>"]) simp
qed

subsection \<open>A run of appends\<close>

text \<open>The metadata names a record of the log and a segment from which a scan reaches the end.\<close>

definition acked :: "k_wal_meta_state \<Rightarrow> wal_rec list list \<Rightarrow> bool" where
  "acked m gs \<longleftrightarrow> unat (wp_segment (wm_record m)) + 1 < length gs
     \<or> unat (wp_segment (wm_record m)) + 1 = length gs \<and> unat (wp_offset (wm_record m) + wm_record_size m) \<le> length (recs_bytes 1 (last gs))"

definition meta_kept :: "wal_disk \<Rightarrow> k_wal_worker \<Rightarrow> wal_rec list list \<Rightarrow> bool" where
  "meta_kept d w gs \<longleftrightarrow> length (wd_meta d) = K_WAL_META_SIZE \<and> (\<exists>m. k_wal_meta_load [] d = ([], Inr m) \<and> wm_slot m = ww_meta_slot w
     \<and> unat (wm_generation m) \<le> length (concat gs) \<and> (wm_generation m = 0 \<and> ww_meta_sync_segment w = NO_SEGMENT
       \<or> acked m gs \<and> length gs \<le> Suc (unat (wp_segment (wm_next m))) \<and> (ww_meta_sync_segment w = NO_SEGMENT \<or> ww_meta_sync_segment w \<le> wp_segment (wm_next m))))"

lemma rec_at_end: "rs \<noteq> [] \<Longrightarrow> \<exists>o1 n. rec_at seg off p rs = (seg, o1, n) \<and> o1 + n = off + length (recs_bytes 1 rs)"
proof (induction rs arbitrary: off p)
  case (Cons r rs)
  show ?case
  proof (cases "rs = []")
    case False
    then show ?thesis using Cons.IH[of "off + (K_WAL_HEADER_SIZE + length (rec_wire r))"] by (fastforce simp: recs_length)
  qed simp
qed simp

lemma newest_snoc: "newest seg p (hs @ [rs]) = rec_at (seg + length hs) 0 (newest seg p hs) rs"
  by (induction hs arbitrary: seg p) simp_all

lemma newest_end:
  assumes "gs \<noteq> []" "[] \<notin> set gs"
  shows "end_pos (newest 0 p gs) = \<lparr> wp_segment = of_nat (length gs - 1), wp_offset = of_nat (length (recs_bytes 1 (last gs))) \<rparr>"
proof -
  have l: "last gs \<noteq> []" "gs = butlast gs @ [last gs]" using assms last_in_set[OF assms(1)] by force+
  obtain o1 n where r: "rec_at (length gs - 1) 0 (newest 0 p (butlast gs)) (last gs) = (length gs - 1, o1, n)" "o1 + n = length (recs_bytes 1 (last gs))"
    using rec_at_end[OF l(1)] by (metis add_0)
  have "newest 0 p gs = (length gs - 1, o1, n)" using newest_snoc[of 0 p "butlast gs" "last gs"] l(2) r(1) by simp
  then show ?thesis using r(2) by (simp add: end_pos_def flip: of_nat_add)
qed

lemma kept_agrees:
  assumes "meta_kept d w gs" "intact d gs" "gs \<noteq> []"
  shows "meta_agrees d gs"
proof -
  have i: "[] \<notin> set gs" "wal_bound (concat gs)" using assms(2) by (simp_all add: intact_def)
  obtain m where m: "k_wal_meta_load [] d = ([], Inr m)" "wm_generation m = 0 \<or> acked m gs \<and> length gs \<le> Suc (unat (wp_segment (wm_next m)))"
    using assms(1) by (auto simp: meta_kept_def)
  have u: "unat (of_nat (length gs - 1) :: u64) = length gs - 1" "unat (of_nat (length (recs_bytes 1 (last gs))) :: u64) = length (recs_bytes 1 (last gs))"
    using segments_le[OF i(1)] bound_count[OF i(2)] bound_last[OF assms(3), of 1] i(2) by (simp_all add: unat_of_nat wal_bound_def)
  have "acked m gs \<Longrightarrow> k_wal_pos_cmp \<lparr> wp_segment = wp_segment (wm_record m), wp_offset = wp_offset (wm_record m) + wm_record_size m \<rparr> (end_pos (newest 0 (0, 0, 0) gs)) \<le> 0"
    unfolding newest_end[OF assms(3) i(1)] acked_def k_wal_pos_cmp_def using u by (auto simp: word_less_nat_alt)
  then show ?thesis using m by (auto simp: meta_agrees_def)
qed

lemma acked_grows:
  assumes "acked m gs" "gs = hs \<or> gs = hs @ [rs]"
  shows "acked m (hs @ [rs @ [q]])"
  using assms by (auto simp: acked_def recs_bytes_snoc)

text \<open>What an append reports about a record it placed.\<close>

lemma rec_meta_law:
  assumes "length hs < 2 ^ 64 - 1" "rec_ok q" "g = of_nat N + 1" "N + 1 < 2 ^ 64"
    and "n = (of_nat (K_WAL_HEADER_SIZE + length (rec_wire q)) :: u64)" "pos = \<lparr> wp_segment = of_nat (length hs), wp_offset = of_nat (length (recs_bytes 1 rs)) \<rparr>"
  shows "meta_ok (rec_meta g pos n sz)" "acked (rec_meta g pos n sz) (hs @ [rs @ [q]])" "Suc (length hs) \<le> Suc (unat (wp_segment (wm_next (rec_meta g pos n sz))))"
    "wp_segment pos \<le> wp_segment (wm_next (rec_meta g pos n sz))" "unat (wm_generation (rec_meta g pos n sz)) = N + 1"
    "wm_next (rec_meta g pos n sz) = \<lparr> wp_segment = of_nat (length (hs @ [rs @ [q]])), wp_offset = 0 \<rparr>
      \<or> wm_next (rec_meta g pos n sz) = \<lparr> wp_segment = of_nat (length hs), wp_offset = of_nat (length (recs_bytes 1 (rs @ [q]))) \<rparr>"
proof -
  let ?m = "rec_meta g pos n sz"
  have uh: "unat (of_nat (length hs) :: u64) = length hs" "unat (of_nat (length hs) + 1 :: u64) = length hs + 1"
    using assms(1) by (simp_all add: unat_of_nat unat_word_ariths)
  have un: "unat n = K_WAL_HEADER_SIZE + length (rec_wire q)" "length (rec_wire q) \<le> K_STATE_MAX"
    unfolding assms(5) unat_of_nat using rec_size(3)[OF assms(2)] by simp_all
  show gg: "unat (wm_generation ?m) = N + 1" using assms(3,4) by (simp add: rec_meta_def Let_def unat_of_nat unat_word_ariths)
  then have "wm_generation ?m \<noteq> 0" by auto
  then show "meta_ok ?m" using un by (simp add: meta_ok_def rec_meta_def Let_def word_le_nat_alt)
  have f: "wm_record ?m = pos" "wm_record_size ?m = n" by (simp_all add: rec_meta_def Let_def)
  have l: "length (recs_bytes 1 (rs @ [q])) = length (recs_bytes 1 rs) + (K_WAL_HEADER_SIZE + length (rec_wire q))" by (simp add: recs_bytes_snoc)
  have e: "(of_nat (length (recs_bytes 1 rs)) + n :: u64) = of_nat (length (recs_bytes 1 (rs @ [q])))" unfolding l assms(5) by simp
  have "unat (of_nat x :: u64) \<le> x" for x by (simp add: unat_of_nat)
  then show "acked ?m (hs @ [rs @ [q]])" unfolding acked_def f using assms(6) uh e by simp
  show nx: "wm_next ?m = \<lparr> wp_segment = of_nat (length (hs @ [rs @ [q]])), wp_offset = 0 \<rparr>
      \<or> wm_next ?m = \<lparr> wp_segment = of_nat (length hs), wp_offset = of_nat (length (recs_bytes 1 (rs @ [q]))) \<rparr>"
    using e assms(6) by (simp add: rec_meta_def Let_def add.commute)
  have sg: "wp_segment (wm_next ?m) = of_nat (length hs) \<or> wp_segment (wm_next ?m) = of_nat (length hs) + 1" using nx by (auto simp: add.commute)
  then show "Suc (length hs) \<le> Suc (unat (wp_segment (wm_next ?m)))" using uh by auto
  show "wp_segment pos \<le> wp_segment (wm_next ?m)" using sg uh assms(6) by (auto simp: word_le_nat_alt)
qed

lemma meta_load_cong: "wd_meta d' = wd_meta d \<Longrightarrow> k_wal_meta_load ios d' = k_wal_meta_load ios d"
  unfolding k_wal_meta_load_def by (simp only:)

lemma meta_store_skip: "k_wal_meta_store ios d w m False = (True, ios, d, w\<lparr>ww_generation := wm_generation m, ww_next := wm_next m\<rparr>)"
  by (simp add: k_wal_meta_store_def)

text \<open>The slot is written when it is due, and otherwise the one on disk still reaches the new record.\<close>

lemma meta_step:
  assumes "meta_kept d w gs" "gs = hs \<or> gs = hs @ [rs]" "length hs < 2 ^ 64 - 1" "concat gs' = concat gs @ [q]" "gs' = hs @ [rs @ [q]]" "wd_meta d2 = wd_meta d"
    and "wp_segment pos = of_nat (length hs)" "meta_ok m" "acked m gs'" "length gs' \<le> Suc (unat (wp_segment (wm_next m)))" "wp_segment pos \<le> wp_segment (wm_next m)"
    and "unat (wm_generation m) = length (concat gs) + 1" "ww_meta_slot w2 = ww_meta_slot w" "du \<Longrightarrow> ww_meta_sync_segment w2 = wp_segment pos"
    and "\<not> du \<Longrightarrow> ww_meta_sync_segment w2 = ww_meta_sync_segment w \<and> wp_segment pos = ww_meta_sync_segment w"
  shows "\<exists>d3 w3. k_wal_meta_store [] d2 w2 m du = (True, [], d3, w3) \<and> wd_segs d3 = wd_segs d2 \<and> wd_snaps d3 = wd_snaps d2 \<and> ww_generation w3 = wm_generation m
    \<and> ww_next w3 = wm_next m \<and> meta_kept d3 w3 gs'"
proof -
  obtain m0 where m0: "length (wd_meta d2) = K_WAL_META_SIZE" "k_wal_meta_load [] d2 = ([], Inr m0)" "ww_meta_slot w2 = wm_slot m0" "unat (wm_generation m0) \<le> length (concat gs)"
    "wm_generation m0 = 0 \<and> ww_meta_sync_segment w = NO_SEGMENT
       \<or> acked m0 gs \<and> length gs \<le> Suc (unat (wp_segment (wm_next m0))) \<and> (ww_meta_sync_segment w = NO_SEGMENT \<or> ww_meta_sync_segment w \<le> wp_segment (wm_next m0))"
    using assms(1,6,13) meta_load_cong[OF assms(6)] by (auto simp: meta_kept_def)
  show ?thesis
  proof (cases du)
    case True
    have lt: "wm_generation m0 < wm_generation m" using m0(4) assms(12) by (simp add: word_less_nat_alt)
    obtain d3 w3 where s: "k_wal_meta_store [] d2 w2 m True = (True, [], d3, w3)" "wd_segs d3 = wd_segs d2" "wd_snaps d3 = wd_snaps d2" "length (wd_meta d3) = K_WAL_META_SIZE"
      "k_wal_meta_load [] d3 = ([], Inr (m\<lparr>wm_slot := ww_meta_slot w3\<rparr>))" "ww_generation w3 = wm_generation m" "ww_next w3 = wm_next m" "ww_meta_sync_segment w3 = ww_meta_sync_segment w2"
      using meta_store_law[OF m0(1-3) lt assms(8)] by blast
    have "acked (m\<lparr>wm_slot := ww_meta_slot w3\<rparr>) gs'" using assms(9) by (simp add: acked_def)
    then have "meta_kept d3 w3 gs'" unfolding meta_kept_def using s assms(4,10-12) assms(14)[OF True] by simp
    then show ?thesis using s True by simp
  next
    case False
    have us: "unat (wp_segment pos) = length hs" using assms(3,7) by (simp add: unat_of_nat)
    have sg: "wp_segment pos \<noteq> NO_SEGMENT" using us assms(3) by auto
    have ak: "acked m0 gs'" "wp_segment pos \<le> wp_segment (wm_next m0)" using m0(5) assms(15)[OF False] sg acked_grows[OF _ assms(2)] by (auto simp: assms(5))
    have "length gs' \<le> Suc (unat (wp_segment (wm_next m0)))" using ak(2) us assms(5) by (simp add: word_le_nat_alt)
    then have "meta_kept d2 (w2\<lparr>ww_generation := wm_generation m, ww_next := wm_next m\<rparr>) gs'"
      unfolding meta_kept_def using m0(1-4) assms(4) assms(15)[OF False] ak by simp
    then show ?thesis using False by (simp add: meta_store_skip)
  qed
qed

lemma append_keeps:
  assumes "intact d gs" "at_end w gs" "meta_kept d w gs" "rec_ok q" "wal_bound (concat gs @ [q])"
  shows "\<exists>m d' w' gs'. k_wal_append_bundle [] d w sz (rec_wire q) = (Some m, [], d', w') \<and> intact d' gs' \<and> at_end w' gs' \<and> meta_kept d' w' gs'
    \<and> concat gs' = concat gs @ [q] \<and> wd_snaps d' = wd_snaps d \<and> gs' \<noteq> []"
proof -
  define n where "n = (of_nat (K_WAL_HEADER_SIZE + length (rec_wire q)) :: u64)"
  define pos where "pos = take_pos w sz n"
  define N where "N = length (concat gs)"
  have gen: "ww_generation w = of_nat N" using assms(2) by (simp add: at_end_def N_def)
  have NB: "N + 1 < 2 ^ 64 - 1" using bound_count[OF assms(5)] by (simp add: N_def)
  have ng: "ww_generation w \<noteq> 0xffffffffffffffff"
  proof
    assume "ww_generation w = 0xffffffffffffffff"
    then have "unat (of_nat N :: u64) = 18446744073709551615" using gen by simp
    then show False using NB by (simp add: unat_of_nat)
  qed
  obtain ok1 s1 w1 where f0: "k_wal_seg_file [] w (wp_segment pos) = (ok1, s1, w1)" by (metis prod_cases3)
  note fw = seg_file_worker[OF f0]
  have f: "k_wal_seg_file [] w (wp_segment pos) = (True, [], w1)" using fw f0 by simp
  obtain hs rs ok s2 d2 where a: "concat (hs @ [rs]) = concat gs" "gs = hs \<or> gs = hs @ [rs]" "length hs < 2 ^ 64 - 1"
    "pos = \<lparr> wp_segment = of_nat (length hs), wp_offset = of_nat (length (recs_bytes 1 rs)) \<rparr>"
    "write_record [] d pos (wal_header (ww_generation w + 1) (rec_wire q)) (rec_wire q) = (ok, s2, d2)" "wd_meta d2 = wd_meta d" "wd_snaps d2 = wd_snaps d"
    "ok \<and> s2 = []" "intact d2 (hs @ [rs @ [q]]) \<or> \<not> ok"
    using append_write[OF assms(1,2,4,5), of sz n "[]"] unfolding pos_def by blast
  define gs' where "gs' = hs @ [rs @ [q]]"
  define m where "m = rec_meta (of_nat N + 1) pos n sz"
  have N1: "N + 1 < 2 ^ 64" using NB by simp
  note rm = rec_meta_law[OF a(3) assms(4) refl N1 n_def a(4), where sz = sz, folded m_def gs'_def]
  have i2: "intact d2 gs'" using a(8,9) by (simp add: gs'_def)
  have c: "concat gs' = concat gs @ [q]" "length gs' = Suc (length hs)" using a(1) by (simp_all add: gs'_def)
  obtain du w2 where cs: "count_sync w1 pos = (du, w2)" by (metis prod.exhaust)
  have w2: "ww_meta_slot w2 = ww_meta_slot w" "du \<Longrightarrow> ww_meta_sync_segment w2 = wp_segment pos"
    "\<not> du \<Longrightarrow> ww_meta_sync_segment w2 = ww_meta_sync_segment w \<and> wp_segment pos = ww_meta_sync_segment w"
    using cs fw by (auto simp: count_sync_def Let_def split: if_splits)
  have r: "k_wal_append_bundle [] d w sz (rec_wire q) = (case k_wal_meta_store [] d2 w2 m du of (ok, ios, d, w) \<Rightarrow>
      if \<not> ok then (None, ios, d, w) else (Some (m\<lparr>wm_slot := ww_meta_slot w\<rparr>), ios, d, w))"
    unfolding k_wal_append_bundle_def Let_def n_def[symmetric] pos_def[symmetric] gen m_def[symmetric] using ng[unfolded gen] rec_size(2)[OF assms(4)] a(5)[unfolded gen] a(8) by (simp add: f cs)
  obtain d3 w3 where s: "k_wal_meta_store [] d2 w2 m du = (True, [], d3, w3)" "wd_segs d3 = wd_segs d2" "wd_snaps d3 = wd_snaps d2" "ww_generation w3 = wm_generation m"
    "ww_next w3 = wm_next m" "meta_kept d3 w3 gs'"
    using meta_step[OF assms(3) a(2,3) c(1) gs'_def a(6) _ rm(1,2) _ rm(4) _ w2, where du = du] a(4) rm(3,5) c(2) by (auto simp: N_def)
  have "wm_generation m = of_nat (length (concat gs'))" unfolding c(1) by (simp add: m_def rec_meta_def N_def Let_def add.commute)
  moreover have "last gs' = rs @ [q]" "gs' \<noteq> []" "length gs' - 1 = length hs" by (simp_all add: gs'_def)
  ultimately have "at_end w3 gs'" unfolding at_end_def using s(4,5) rm(6) by metis
  moreover have "intact d3 gs'" using i2 s(2) by (simp add: intact_def)
  ultimately show ?thesis unfolding r s(1) using s(3,6) a(7) c by (auto simp: gs'_def)
qed

text \<open>A journal: a state holds a list of records, and a put that fits appends one. The run of many puts follows.\<close>

locale journal =
  fixes holds :: "'s \<Rightarrow> 'r list \<Rightarrow> bool" and put :: "'s \<Rightarrow> 'r \<Rightarrow> 's option" and fits :: "'r list \<Rightarrow> bool"
  assumes put_holds: "holds s rs \<Longrightarrow> fits (rs @ [r]) \<Longrightarrow> \<exists>s'. put s r = Some s' \<and> holds s' (rs @ [r])"
    and fits_prefix: "fits (rs @ qs) \<Longrightarrow> fits rs"
begin

lemma put_all:
  assumes "holds s rs" "fits (rs @ qs)"
  shows "\<exists>s'. foldl (\<lambda>o1 r. Option.bind o1 (\<lambda>s. put s r)) (Some s) qs = Some s' \<and> holds s' (rs @ qs)"
  using assms
proof (induction qs arbitrary: s rs)
  case (Cons q qs)
  have "fits (rs @ [q])" using fits_prefix[of "rs @ [q]" qs] Cons.prems(2) by simp
  then obtain s' where s': "put s q = Some s'" "holds s' (rs @ [q])" using put_holds[OF Cons.prems(1)] by blast
  then show ?case using Cons.IH[OF s'(2)] Cons.prems(2) by simp
qed simp

end

text \<open>The write-ahead log is a journal of record payloads.\<close>

definition append_step :: "u64 \<Rightarrow> wal_disk \<times> k_wal_worker \<Rightarrow> wal_rec \<Rightarrow> (wal_disk \<times> k_wal_worker) option" where
  "append_step sz dw q = (case k_wal_append_bundle [] (fst dw) (snd dw) sz (rec_wire q) of (None, ios, d, w) \<Rightarrow> None | (Some m, ios, d, w) \<Rightarrow> Some (d, w))"

definition append_all :: "wal_disk \<Rightarrow> k_wal_worker \<Rightarrow> u64 \<Rightarrow> wal_rec list \<Rightarrow> (wal_disk \<times> k_wal_worker) option" where
  "append_all d w sz qs = foldl (\<lambda>o1 q. Option.bind o1 (\<lambda>dw. append_step sz dw q)) (Some (d, w)) qs"

definition store_holds :: "wal_disk \<times> k_wal_worker \<Rightarrow> wal_rec list \<Rightarrow> bool" where
  "store_holds dw qs \<longleftrightarrow> (\<exists>gs. intact (fst dw) gs \<and> at_end (snd dw) gs \<and> meta_kept (fst dw) (snd dw) gs \<and> concat gs = qs)"

definition wal_fits :: "wal_rec list \<Rightarrow> bool" where
  "wal_fits qs \<longleftrightarrow> list_all rec_ok qs \<and> wal_bound qs"

interpretation wal_journal: journal store_holds "append_step sz" wal_fits for sz
proof
  fix s rs r
  assume h: "store_holds s rs" "wal_fits (rs @ [r])"
  then obtain gs where g: "intact (fst s) gs" "at_end (snd s) gs" "meta_kept (fst s) (snd s) gs" "concat gs = rs" by (auto simp: store_holds_def)
  have "rec_ok r" "wal_bound (concat gs @ [r])" using h(2) g(4) by (simp_all add: wal_fits_def)
  then show "\<exists>s'. append_step sz s r = Some s' \<and> store_holds s' (rs @ [r])"
    using append_keeps[OF g(1-3), of r sz] g(4) by (auto simp: append_step_def store_holds_def)
qed (simp add: wal_fits_def wal_bound_def recs_length)

definition fresh_disk :: "bytes \<Rightarrow> (int \<Rightarrow> bytes) \<Rightarrow> wal_disk" where
  "fresh_disk c snaps = \<lparr> wd_cfg = c, wd_meta = [], wd_segs = [], wd_snaps = snaps \<rparr>"

lemma fresh_start:
  "\<exists>d m. k_wal_meta_init [] (fresh_disk c sn) = (True, [], d) \<and> k_wal_meta_load [] d = ([], Inr m) \<and> wd_snaps d = sn
    \<and> intact d [] \<and> at_end (start_worker m 0) [] \<and> meta_kept d (start_worker m 0) []"
proof -
  define e where "e = k_wal_meta_slot_encode (wal_meta_zero\<lparr>wm_slot := 1\<rparr>) @ replicate 3968 0"
  define d where "d = (fresh_disk c sn)\<lparr>wd_meta := e @ e\<rparr>"
  have le: "length e = 4096" by (simp add: e_def)
  have i: "k_wal_meta_init [] (fresh_disk c sn) = (True, [], d)"
    using store_at_end[of "[]" "e @ e"] by (simp add: k_wal_meta_init_def io_def vfs_write_def vfs_sync_def d_def e_def fresh_disk_def Let_def)
  have "meta_ok (wal_meta_zero\<lparr>wm_slot := 1\<rparr>)" by (simp add: meta_ok_def wal_meta_zero_def)
  from slot_roundtrip[OF this] have dc: "k_wal_meta_slot_decode e = Some wal_meta_zero" unfolding e_def by (simp add: wal_meta_zero_def)
  have "wd_meta d = e @ e" by (simp add: d_def)
  then have l: "k_wal_meta_load [] d = ([], Inr (wal_meta_zero\<lparr>wm_slot := 1\<rparr>))" using load_slots[OF le le] dc by (simp add: k_wal_pos_cmp_def)
  have "meta_kept d (start_worker (wal_meta_zero\<lparr>wm_slot := 1\<rparr>) 0) []" using l le by (simp add: meta_kept_def d_def start_worker_def wal_meta_zero_def)
  then show ?thesis using i l by (intro exI[of _ d] exI[of _ "wal_meta_zero\<lparr>wm_slot := 1\<rparr>"])
      (simp add: d_def fresh_disk_def intact_def wal_bound_def at_end_def start_worker_def wal_meta_zero_def)
qed

lemma bases_zero: "list_all (\<lambda>q. rec_base q = 0) qs \<Longrightarrow> bases qs = (0, 0, None)"
  unfolding bases_def by (induction qs) (simp_all add: base_step_def)

text \<open>C11. Before the first snapshot, what is acknowledged is recovered: take a store initialised from nothing and any
  non-empty sequence of encodable records of less than \<open>2 ^ 64\<close> bytes in all that carry no snapshot base and whose
  replay numbers the entries from 1 without a gap, as the log of a node that has not compacted does. When no file
  operation and no allocation fails, every append succeeds, and recovery of the resulting store returns the replay
  of all of them with the merged term and vote, across segment changes and metadata updates. With a snapshot base
  this fails when the record that introduces the base carries entries, as the theorem on the base record shows.\<close>

theorem acknowledged_is_recovered:
  assumes "list_all rec_ok qs" "qs \<noteq> []" "wal_bound qs" "list_all (\<lambda>q. rec_base q = 0) qs" "contiguous 1 (replayed qs)"
  shows "\<exists>d m d' w' rst m'. k_wal_meta_init [] (fresh_disk c snaps) = (True, [], d) \<and> k_wal_meta_load [] d = ([], Inr m)
    \<and> append_all d (start_worker m 0) segment_size qs = Some (d', w')
    \<and> k_wal_state_load [] [] d' = ([], [], Load_Ok rst m') \<and> rs_entries rst = replayed qs
    \<and> (rs_term rst, rs_voted_for rst) = foldl merge_vote (0, 0) qs \<and> rs_generation rst = of_nat (length qs)"
proof -
  obtain d m where s: "k_wal_meta_init [] (fresh_disk c snaps) = (True, [], d)" "k_wal_meta_load [] d = ([], Inr m)" "intact d []"
    "at_end (start_worker m 0) []" "meta_kept d (start_worker m 0) []" using fresh_start by blast
  obtain d' w' gs where a: "append_all d (start_worker m 0) segment_size qs = Some (d', w')" "intact d' gs" "meta_kept d' w' gs" "concat gs = qs"
    using wal_journal.put_all[of "(d, start_worker m 0)" "[]" qs segment_size] s(3-5) assms(1,3) by (fastforce simp: append_all_def store_holds_def wal_fits_def)
  have g: "gs \<noteq> []" using a(4) assms(2) by auto
  have lay: "wal_layout d' gs []" using torn_layout[OF intact_torn[OF a(2)]] a(4) assms(2) by simp
  have b: "bases (concat gs) = (0, 0, None)" using bases_zero[OF assms(4)] a(4) by simp
  have rv: "recovered (concat gs) = filter (\<lambda>e. wn_index e > 0) (replayed qs)" using b a(4) by (simp add: recovered_def)
  have pos: "wn_index e > 0" if "e \<in> set es" "contiguous k es" "k > 0" for e k es using that by (induction k es rule: contiguous.induct) auto
  have rq: "recovered (concat gs) = replayed qs" unfolding rv using pos[OF _ assms(5)] by (simp add: filter_id_conv)
  have u: "base_usable d' (concat gs)" using b by (simp add: base_usable_def k_snapshot_verify_file_def)
  show ?thesis using load_law[OF lay kept_agrees[OF a(3,2) g] u] s(1,2) a(1,4) rq b assms(5) by auto
qed

theorem acknowledged_is_recovered_witness:
  "\<exists>d m d' w' rst m'. k_wal_meta_init [] (fresh_disk [] (\<lambda>_. [])) = (True, [], d) \<and> k_wal_meta_load [] d = ([], Inr m)
    \<and> append_all d (start_worker m 0) 150 [w_rec 0 [1, 2], w_rec 0 [2], w_rec 0 [3]] = Some (d', w')
    \<and> k_wal_state_load [] [] d' = ([], [], Load_Ok rst m') \<and> map wn_index (rs_entries rst) = [1, 2, 3] \<and> rs_voted_for rst = 2 \<and> rs_generation rst = 3"
proof -
  let ?qs = "[w_rec 0 [1, 2], w_rec 0 [2], w_rec 0 [3]]"
  have h: "list_all rec_ok ?qs" "wal_bound ?qs" "list_all (\<lambda>q. rec_base q = 0) ?qs" by (simp_all add: w_ok fits64_def wal_bound_def w_length w_view)
  have r: "map wn_index (replayed ?qs) = [1, 2, 3]" "contiguous 1 (replayed ?qs)" "foldl merge_vote (0, 0) ?qs = (1, 2)" by (simp_all add: w_eval)
  show ?thesis using acknowledged_is_recovered[OF h(1) _ h(2,3) r(2), of "[]" "\<lambda>_. []" 150] r by auto
qed

subsection \<open>Leftovers of a torn record\<close>

lemma segment_junk:
  assumes "K_WAL_HEADER_SIZE \<le> length t" "k_read_u32 t \<noteq> K_WAL_MAGIC" "length pre = off"
  shows "wal_segment [] seg (pre @ t) off hr prev st = ([], None)"
proof -
  have "vfs_read (pre @ t) off K_WAL_HEADER_SIZE = Some (take 24 t)" using assms(1,3) by (simp add: vfs_read_def)
  moreover have "k_read_u32 (take 24 t) = k_read_u32 t" by (simp add: k_read_u32_def)
  ultimately show ?thesis using assms(2) by (subst wal_segment.simps) simp
qed

lemma load_junk:
  assumes "wd_segs d = [recs_bytes 1 rs @ t]" "list_all rec_ok rs" "length rs < 2 ^ 64 - 1" "K_WAL_HEADER_SIZE \<le> length t" "k_read_u32 t \<noteq> K_WAL_MAGIC"
  shows "snd (snd (k_wal_state_load [] [] d)) = Load_Error"
proof -
  have z: "gen_next False 0 scan_zero 1" "blocks_ok (sc_restore scan_zero)" by (simp_all add: gen_next_def scan_zero_def blocks_ok_def restore_zero_def)
  have "unat (1 :: u64) + length rs < 2 ^ 64" using assms(3) by simp
  then obtain st hr pv where "wal_segment [] 0 ([] @ recs_bytes 1 rs @ t) 0 False 0 scan_zero = wal_segment [] 0 ([] @ recs_bytes 1 rs @ t) (0 + length (recs_bytes 1 rs)) hr pv st"
    using segment_recs[OF assms(2) z(1) _ z(2), of "[]" 0 0 t] by auto
  then have sg: "wal_segment [] 0 (recs_bytes 1 rs @ t) 0 False 0 scan_zero = ([], None)" using segment_junk[OF assms(4,5) refl] by simp
  have sd: "seg_data d 0 = recs_bytes 1 rs @ t" using assms(1) by (simp add: seg_data_def)
  have ne: "recs_bytes 1 rs @ t \<noteq> []" using assms(4) by auto
  have ws: "wal_segments [] [] d ma ls False 0 scan_zero = ([], [], None)" for ma ls
    using sg sd ne by (subst wal_segments.simps) (auto simp: io_def)
  obtain l where l: "k_wal_meta_load [] d = ([], l)" using meta_script by blast
  show ?thesis unfolding k_wal_state_load_def l by (cases l) (simp_all add: ws split: bool.splits)
qed

text \<open>C35. Recovery does not remove a torn tail, and the next append starts on top of it: in a log of one segment, when
  the torn bytes are longer than the new record by at least a record header (24 bytes) and what is left of them does
  not begin with the record magic, the append succeeds and is acknowledged, but the rest of the torn record stays
  behind it, and the next start refuses the whole store. A shorter rest is read as another torn header and tolerated.\<close>

theorem torn_tail_poisons_log:
  assumes "wal_layout d [rs] t" "rec_ok q" "ww_generation w = of_nat (length rs)" "ww_next w = \<lparr> wp_segment = 0, wp_offset = of_nat (length (recs_bytes 1 rs)) \<rparr>"
    and "length (recs_bytes 1 rs) + (K_WAL_HEADER_SIZE + length (rec_wire q)) \<le> unat segment_size" "length rs + 1 < 2 ^ 64 - 1"
    and "2 * K_WAL_HEADER_SIZE + length (rec_wire q) \<le> length t" "k_read_u32 (drop (K_WAL_HEADER_SIZE + length (rec_wire q)) t) \<noteq> K_WAL_MAGIC"
  shows "\<exists>m d' w'. k_wal_append_bundle [] d w segment_size (rec_wire q) = (Some m, [], d', w') \<and> snd (snd (k_wal_state_load [] [] d')) = Load_Error"
proof -
  define n where "n = (of_nat (K_WAL_HEADER_SIZE + length (rec_wire q)) :: u64)"
  define a where "a = recs_bytes 1 rs" define p where "p = rec_wire q" define h where "h = wal_header (of_nat (length rs) + 1) p"
  define D where "D = set_seg d 0 (a @ h @ p @ drop (24 + length p) t)"
  have lay: "wd_segs d = [a @ t]" "list_all rec_ok rs" using assms(1) by (simp_all add: wal_layout_def a_def)
  have un: "unat n = 24 + length p" unfolding n_def unat_of_nat using rec_size(3)[OF assms(2)] by (simp add: p_def)
  have "unat segment_size < 2 ^ 64" using unsigned_less[of segment_size] by simp
  then have la: "length a < 2 ^ 64" using assms(5) unfolding a_def by linarith
  have ua: "unat (of_nat (length a) :: u64) = length a" using la by (simp add: unat_of_nat)
  have nle: "n \<le> segment_size" using assms(5) un by (simp add: word_le_nat_alt p_def)
  have "of_nat (length a) \<le> segment_size - n" using assms(5) un ua unat_sub[OF nle] by (simp add: word_le_nat_alt a_def p_def)
  then have tp: "take_pos w segment_size n = ww_next w" using nle assms(4) by (simp add: take_pos_def a_def Let_def leD)
  have sd: "seg_data d 0 = a @ t" using lay(1) by (simp add: seg_data_def)
  have st: "store_at (a @ t) (length a) h = a @ h @ drop 24 t" "store_at (a @ h @ drop 24 t) (length a + 24) p = a @ h @ p @ drop (24 + length p) t"
    using store_at_over[of a t h] store_at_over[of "a @ h" "drop 24 t" p] by (simp_all add: h_def add.commute)
  have wr: "write_record [] d (ww_next w) h p = (True, [], D)"
    unfolding write_record_def assms(4) Let_def using ua sd st by (simp add: vfs_write_def vfs_sync_def io_def D_def flip: a_def)
  obtain ok1 s1 w1 where f: "k_wal_seg_file [] w (wp_segment (ww_next w)) = (ok1, s1, w1)" by (metis prod_cases3)
  obtain du w2 where cs: "count_sync w1 (ww_next w) = (du, w2)" by (metis prod.exhaust)
  obtain ok3 s3 d3 w3 where ms: "k_wal_meta_store [] D w2 (rec_meta (of_nat (length rs) + 1) (ww_next w) n segment_size) du = (ok3, s3, d3, w3)" by (metis prod_cases4)
  have ok: "ok1" "s1 = []" "ok3" "s3 = []" using seg_file_worker[OF f] ms
    by (auto simp: k_wal_meta_store_def k_wal_meta_file_def vfs_write_def vfs_sync_def io_def Let_def split: if_splits)
  have ng: "(of_nat (length rs) :: u64) \<noteq> 0xffffffffffffffff"
  proof
    assume "(of_nat (length rs) :: u64) = 0xffffffffffffffff"
    then have "unat (of_nat (length rs) :: u64) = 18446744073709551615" by simp
    then show False using assms(6) by (simp add: unat_of_nat)
  qed
  have ap: "\<exists>m. k_wal_append_bundle [] d w segment_size p = (Some m, [], d3, w3)"
    unfolding k_wal_append_bundle_def Let_def n_def[folded p_def, symmetric] tp assms(3) h_def[symmetric] using ng rec_size(2)[OF assms(2), folded p_def] f cs ms ok wr by simp
  have "wd_segs d3 = [a @ h @ p @ drop (24 + length p) t]" using meta_store_rest[OF ms] lay(1) by (simp add: D_def set_seg_def)
  then have "wd_segs d3 = [recs_bytes 1 (rs @ [q]) @ drop (24 + length p) t]" by (simp add: recs_bytes_snoc a_def h_def p_def add.commute)
  then have "snd (snd (k_wal_state_load [] [] d3)) = Load_Error"
    by (rule load_junk) (use lay(2) assms(2,6,7,8) in \<open>simp_all add: p_def\<close>)
  then show ?thesis using ap unfolding p_def by blast
qed

theorem torn_tail_poisons_log_witness:
  "let rs = [w_rec 0 [1]]; q = w_rec 0 [2]; z = replicate 200 0; t = wal_header 2 z @ replicate 199 0;
       w = (start_worker wal_meta_zero 1)\<lparr>ww_next := \<lparr> wp_segment = 0, wp_offset = 110 \<rparr>\<rparr>
   in \<exists>m d' w'. k_wal_append_bundle [] (w_disk [rs] t) w 67108864 (rec_wire q) = (Some m, [], d', w') \<and> snd (snd (k_wal_state_load [] [] d')) = Load_Error"
proof -
  define z where "z = replicate 200 (0 :: u8)"
  define t where "t = wal_header 2 z @ replicate 199 0"
  define w where "w = (start_worker wal_meta_zero 1)\<lparr>ww_next := \<lparr> wp_segment = 0, wp_offset = 110 \<rparr>\<rparr>"
  have "torn_tail 2 t" unfolding torn_tail_def by (rule exI[of _ z], rule exI[of _ 223]) (simp add: t_def z_def)
  then have lay: "wal_layout (w_disk [[w_rec 0 [1]]] t) [[w_rec 0 [1]]] t" by (simp add: wal_layout_def w_ok fits64_def) (simp add: w_disk_def)
  have l: "length (recs_bytes 1 [w_rec 0 [1]]) = 110" by (simp add: w_length)
  have "drop (24 + length (rec_wire (w_rec 0 [2]))) t = replicate 113 0" by (simp add: w_length t_def drop_replicate)
  then have k: "k_read_u32 (drop (K_WAL_HEADER_SIZE + length (rec_wire (w_rec 0 [2]))) t) \<noteq> K_WAL_MAGIC" by (simp add: k_read_u32_def)
  show ?thesis unfolding Let_def z_def[symmetric] t_def[symmetric] w_def[symmetric]
    by (rule torn_tail_poisons_log[OF lay _ _ _ _ _ _ k]) (simp_all add: w_ok fits64_def w_def start_worker_def l w_length t_def)
qed

end
