(* ===== verification/Treap_Node.thy ===== *)
theory Treap_Node
  imports Prelude "HOL-Library.Multiset"
begin

unbundle bit_operations_syntax

section \<open>treap.h: nodes, value blocks, copy-on-write operations\<close>

text \<open>
  The internals of \<^verbatim>\<open>src/code/treap.h\<close>: reference-counted value blocks, nodes, the record
  \<^verbatim>\<open>treap_op\<close> in which one operation collects the clones it made and the nodes it retired,
  key and priority order, split, merge and removal of the minimum.

  A node carries its address, so that sharing is visible: two trees that contain the same address
  share that node. The code writes only to nodes it allocated in the running operation (the hook
  pointers and the sizes of the clones), so a finished node is a value. A loop that follows a hook
  pointer is the recursion that builds the same path, with the sizes recomputed bottom-up on it as
  \<^verbatim>\<open>treap_op_fix_sizes\<close> does. \<open>mem_nodes\<close> holds the allocated nodes and the block each
  one holds; \<open>mem_blobs\<close> the allocated blocks. Sizes are those of an LP64 target.
\<close>

subsection \<open>Data\<close>

datatype treap_node = Null
  | Node (addr: nat) u64 u64 bytes "(nat \<times> bytes) option" treap_node treap_node

record treap_blob =
  blob_refs :: nat
  blob_bytes :: u64

record treap_mem =
  mem_script :: script
  mem_next :: nat
  mem_nodes :: "nat \<rightharpoonup> nat option"
  mem_blobs :: "nat \<rightharpoonup> treap_blob"

record treap_op =
  op_alloc :: "nat list"
  op_free :: "nat list"
  op_free_count :: u64
  op_alloc_bytes :: u64
  op_free_bytes :: u64

definition op_zero :: treap_op where
  "op_zero = \<lparr>op_alloc = [], op_free = [], op_free_count = 0, op_alloc_bytes = 0, op_free_bytes = 0\<rparr>"

text \<open>\<^verbatim>\<open>sizeof(treap_node)\<close> and \<^verbatim>\<open>sizeof(treap_blob)\<close>.\<close>

abbreviation NODE_SIZE :: nat where "NODE_SIZE \<equiv> 72"
abbreviation BLOB_SIZE :: nat where "BLOB_SIZE \<equiv> 24"

definition treap_malloc :: "treap_mem \<Rightarrow> nat option \<times> treap_mem" where
  "treap_malloc m = (let (ok, s) = alloc (mem_script m)
     in if ok then (Some (mem_next m), m\<lparr>mem_script := s, mem_next := Suc (mem_next m)\<rparr>)
        else (None, m\<lparr>mem_script := s\<rparr>))"

subsection \<open>Value blocks\<close>

definition treap_blob_create :: "treap_mem \<Rightarrow> bytes \<Rightarrow> nat option \<times> treap_mem" where
  "treap_blob_create m data =
     (if data = [] then (None, m)
      else case treap_malloc m of (None, m') \<Rightarrow> (None, m')
        | (Some b, m') \<Rightarrow> (Some b, m'\<lparr>mem_blobs := (mem_blobs m')(b \<mapsto>
             \<lparr>blob_refs = 1, blob_bytes = of_nat (BLOB_SIZE + length data)\<rparr>)\<rparr>))"

definition treap_blob_ref :: "treap_mem \<Rightarrow> nat option \<Rightarrow> treap_mem" where
  "treap_blob_ref m v = (case v of None \<Rightarrow> m
     | Some b \<Rightarrow> m\<lparr>mem_blobs := (mem_blobs m)(b := map_option (\<lambda>r. r\<lparr>blob_refs := blob_refs r + 1\<rparr>) (mem_blobs m b))\<rparr>)"

definition treap_blob_unref :: "treap_mem \<Rightarrow> nat option \<Rightarrow> u64 \<times> treap_mem" where
  "treap_blob_unref m v = (case v of None \<Rightarrow> (0, m)
     | Some b \<Rightarrow> (case mem_blobs m b of None \<Rightarrow> (0, m)
        | Some r \<Rightarrow> let refs = (if blob_refs r > 0 then blob_refs r - 1 else 0)
            in if refs \<noteq> 0 then (0, m\<lparr>mem_blobs := (mem_blobs m)(b \<mapsto> r\<lparr>blob_refs := refs\<rparr>)\<rparr>)
               else (blob_bytes r, m\<lparr>mem_blobs := (mem_blobs m)(b := None)\<rparr>)))"

text \<open>
  \<^verbatim>\<open>treap_node_release\<close>: the block is dereferenced only when the caller asks for the bytes
  it reclaims (\<open>counting\<close>); the node itself is always freed.
\<close>

definition treap_node_release :: "bool \<Rightarrow> treap_mem \<Rightarrow> nat \<Rightarrow> u64 \<times> treap_mem" where
  "treap_node_release counting m a =
     (let (bytes, m1) = (if counting then treap_blob_unref m (case mem_nodes m a of Some v \<Rightarrow> v | None \<Rightarrow> None) else (0, m))
      in (bytes, m1\<lparr>mem_nodes := (mem_nodes m1)(a := None)\<rparr>))"

fun treap_release_list :: "bool \<Rightarrow> treap_mem \<Rightarrow> nat list \<Rightarrow> u64 \<times> treap_mem" where
  "treap_release_list counting m [] = (0, m)"
| "treap_release_list counting m (a # as) =
     (let (r, m1) = treap_node_release counting m a; (rs, m2) = treap_release_list counting m1 as
      in (r + rs, m2))"

definition treap_free_chain :: "treap_mem \<Rightarrow> nat list \<Rightarrow> u64 \<times> treap_mem" where
  "treap_free_chain m head = treap_release_list True m head"

subsection \<open>The operation record\<close>

definition treap_op_push_alloc :: "treap_op \<Rightarrow> nat \<Rightarrow> treap_op" where
  "treap_op_push_alloc op n = op\<lparr>op_alloc := n # op_alloc op\<rparr>"

definition treap_op_push_free :: "treap_op \<Rightarrow> nat \<Rightarrow> treap_op" where
  "treap_op_push_free op n = op\<lparr>op_free := op_free op @ [n], op_free_count := op_free_count op + 1\<rparr>"

definition treap_op_discard :: "treap_mem \<Rightarrow> treap_op \<Rightarrow> treap_op \<times> treap_mem" where
  "treap_op_discard m op = (op_zero, snd (treap_release_list False m (op_alloc op)))"

definition treap_op_merge :: "treap_op \<Rightarrow> treap_op \<Rightarrow> treap_op \<times> treap_op" where
  "treap_op_merge dst src =
     (\<lparr>op_alloc = op_alloc src @ op_alloc dst, op_free = op_free dst @ op_free src,
       op_free_count = op_free_count dst + op_free_count src,
       op_alloc_bytes = op_alloc_bytes dst + op_alloc_bytes src,
       op_free_bytes = op_free_bytes dst + op_free_bytes src\<rparr>, op_zero)"

subsection \<open>Priorities, node creation, clones\<close>

definition treap_hash :: "u64 \<Rightarrow> bytes \<Rightarrow> u64" where
  "treap_hash seed data =
     (let h0 = foldl (\<lambda>h b. (h XOR ucast b) * 1099511628211) (seed XOR 14695981039346656037) data;
          h1 = h0 XOR drop_bit 33 h0;
          h2 = h1 * 0xff51afd7ed558ccd;
          h3 = h2 XOR drop_bit 33 h2;
          h4 = h3 * 0xc4ceb9fe1a85ec53
      in h4 XOR drop_bit 33 h4)"

definition treap_node_bytes :: "nat \<Rightarrow> nat" where
  "treap_node_bytes key_len = NODE_SIZE + key_len"

definition treap_node_init :: "nat \<Rightarrow> bytes \<Rightarrow> u64 \<Rightarrow> treap_node" where
  "treap_node_init a key priority = Node a priority 1 key None Null Null"

text \<open>Attaching a value: the node, whether it worked, the bytes to charge.\<close>

definition treap_node_attach_value ::
    "treap_mem \<Rightarrow> treap_node \<Rightarrow> bytes \<Rightarrow> bool \<times> treap_node \<times> u64 \<times> treap_mem" where
  "treap_node_attach_value m n value =
     (case n of Null \<Rightarrow> (False, n, 0, m)
      | Node a p s k _ l r \<Rightarrow>
          if value = [] then (True, Node a p s k None l r, 0, m)
          else case treap_blob_create m value of (None, m') \<Rightarrow> (False, n, 0, m')
            | (Some b, m') \<Rightarrow> (True, Node a p s k (Some (b, value)) l r, of_nat (BLOB_SIZE + length value),
                m'\<lparr>mem_nodes := (mem_nodes m')(a \<mapsto> Some b)\<rparr>))"

text \<open>
  The clone of a node, up to its address and the links the caller sets: it shares the block
  (one more reference), is charged and credited, and the source is retired.
\<close>

definition treap_clone_node ::
    "treap_mem \<Rightarrow> treap_op \<Rightarrow> nat \<Rightarrow> bytes \<Rightarrow> (nat \<times> bytes) option \<Rightarrow> nat option \<times> treap_op \<times> treap_mem" where
  "treap_clone_node m op src key val =
     (let sz = treap_node_bytes (length key)
      in if sz > 0xffffffff then (None, op, m)
         else case treap_malloc m of (None, m') \<Rightarrow> (None, op, m')
           | (Some a, m') \<Rightarrow>
               (Some a,
                treap_op_push_free (treap_op_push_alloc
                  (op\<lparr>op_alloc_bytes := op_alloc_bytes op + of_nat sz, op_free_bytes := op_free_bytes op + of_nat sz\<rparr>) a) src,
                treap_blob_ref (m'\<lparr>mem_nodes := (mem_nodes m')(a \<mapsto> map_option fst val)\<rparr>) (map_option fst val)))"

subsection \<open>Order\<close>

fun memcmp :: "bytes \<Rightarrow> bytes \<Rightarrow> int" where
  "memcmp (x # xs) (y # ys) = (if x < y then -1 else if y < x then 1 else memcmp xs ys)"
| "memcmp _ _ = 0"

definition treap_key_cmp :: "bytes \<Rightarrow> bytes \<Rightarrow> int" where
  "treap_key_cmp a b =
     (let n = min (length a) (length b); cmp = memcmp (take n a) (take n b)
      in if length a \<noteq> 0 \<and> length b \<noteq> 0 \<and> cmp \<noteq> 0 then cmp
         else if length a < length b then -1 else if length a > length b then 1 else 0)"

definition treap_priority_cmp :: "u64 \<Rightarrow> bytes \<Rightarrow> u64 \<Rightarrow> bytes \<Rightarrow> int" where
  "treap_priority_cmp pa ka pb kb =
     (if pa > pb then 1 else if pa < pb then -1 else treap_key_cmp ka kb)"

fun treap_find :: "treap_node \<Rightarrow> bytes \<Rightarrow> treap_node" where
  "treap_find Null key = Null"
| "treap_find (Node a p s k v l r) key =
     (let cmp = treap_key_cmp key k
      in if cmp = 0 then Node a p s k v l r else if cmp < 0 then treap_find l key else treap_find r key)"

fun node_size :: "treap_node \<Rightarrow> u64" where
  "node_size Null = 0"
| "node_size (Node a p s k v l r) = s"

text \<open>\<^verbatim>\<open>treap_node_fix_size\<close> on a node whose children are final.\<close>

definition fixed :: "nat \<Rightarrow> u64 \<Rightarrow> bytes \<Rightarrow> (nat \<times> bytes) option \<Rightarrow> treap_node \<Rightarrow> treap_node \<Rightarrow> treap_node" where
  "fixed a p k v l r = Node a p (1 + node_size l + node_size r) k v l r"

subsection \<open>Split, merge, remove the minimum\<close>

fun treap_split :: "treap_mem \<Rightarrow> treap_op \<Rightarrow> bytes \<Rightarrow> treap_node
    \<Rightarrow> (treap_node \<times> treap_node) option \<times> treap_op \<times> treap_mem" where
  "treap_split m op key Null = (Some (Null, Null), op, m)"
| "treap_split m op key (Node a p s k v l r) =
     (let cmp = treap_key_cmp key k
      in case treap_clone_node m op a k v of (None, op1, m1) \<Rightarrow> (None, op1, m1)
         | (Some a', op1, m1) \<Rightarrow>
             if cmp \<le> 0
             then (case treap_split m1 op1 key l of (None, op2, m2) \<Rightarrow> (None, op2, m2)
                   | (Some (L, R), op2, m2) \<Rightarrow> (Some (L, fixed a' p k v R r), op2, m2))
             else (case treap_split m1 op1 key r of (None, op2, m2) \<Rightarrow> (None, op2, m2)
                   | (Some (L, R), op2, m2) \<Rightarrow> (Some (fixed a' p k v l L, R), op2, m2)))"

fun merge_loop :: "treap_mem \<Rightarrow> treap_op \<Rightarrow> treap_node \<Rightarrow> treap_node
    \<Rightarrow> treap_node option \<times> treap_op \<times> treap_mem" where
  "merge_loop m op Null R = (Some R, op, m)"
| "merge_loop m op (Node a p s k v l r) Null = (Some (Node a p s k v l r), op, m)"
| "merge_loop m op (Node a p s k v l r) (Node a2 p2 s2 k2 v2 l2 r2) =
     (if treap_priority_cmp p k p2 k2 > 0
      then (case treap_clone_node m op a k v of (None, op1, m1) \<Rightarrow> (None, op1, m1)
            | (Some a', op1, m1) \<Rightarrow>
                (case merge_loop m1 op1 r (Node a2 p2 s2 k2 v2 l2 r2) of (None, op2, m2) \<Rightarrow> (None, op2, m2)
                 | (Some t, op2, m2) \<Rightarrow> (Some (fixed a' p k v l t), op2, m2)))
      else (case treap_clone_node m op a2 k2 v2 of (None, op1, m1) \<Rightarrow> (None, op1, m1)
            | (Some a', op1, m1) \<Rightarrow>
                (case merge_loop m1 op1 (Node a p s k v l r) l2 of (None, op2, m2) \<Rightarrow> (None, op2, m2)
                 | (Some t, op2, m2) \<Rightarrow> (Some (fixed a' p2 k2 v2 t r2), op2, m2))))"

text \<open>A failed clone makes \<^verbatim>\<open>treap_merge\<close> return NULL; so does merging two empty trees.\<close>

definition treap_merge :: "treap_mem \<Rightarrow> treap_op \<Rightarrow> treap_node \<Rightarrow> treap_node \<Rightarrow> treap_node \<times> treap_op \<times> treap_mem" where
  "treap_merge m op L R = (case merge_loop m op L R of
     (None, op', m') \<Rightarrow> (Null, op', m') | (Some t, op', m') \<Rightarrow> (t, op', m'))"

fun remove_min_loop :: "treap_mem \<Rightarrow> treap_op \<Rightarrow> treap_node
    \<Rightarrow> (treap_node \<times> treap_node) option \<times> treap_op \<times> treap_mem" where
  "remove_min_loop m op Null = (Some (Null, Null), op, m)"
| "remove_min_loop m op (Node a p s k v l r) =
     (if l = Null
      then (Some (r, Node a p s k v l r),
            op\<lparr>op_free_bytes := op_free_bytes op + of_nat (treap_node_bytes (length k))\<rparr>, m)
      else case treap_clone_node m op a k v of (None, op1, m1) \<Rightarrow> (None, op1, m1)
        | (Some a', op1, m1) \<Rightarrow>
            (case remove_min_loop m1 op1 l of (None, op2, m2) \<Rightarrow> (None, op2, m2)
             | (Some (t, mn), op2, m2) \<Rightarrow> (Some (fixed a' p k v t r, mn), op2, m2)))"

text \<open>The remaining tree and \<^verbatim>\<open>*out_min\<close>; both NULL when a clone failed.\<close>

definition treap_remove_min :: "treap_mem \<Rightarrow> treap_op \<Rightarrow> treap_node
    \<Rightarrow> treap_node \<times> treap_node \<times> treap_op \<times> treap_mem" where
  "treap_remove_min m op root = (case remove_min_loop m op root of
     (None, op', m') \<Rightarrow> (Null, Null, op', m') | (Some (t, mn), op', m') \<Rightarrow> (t, mn, op', m'))"

section \<open>Laws of the order\<close>

lemma treap_key_cmp_simps:
  "treap_key_cmp [] [] = 0" "treap_key_cmp [] (y # ys) = -1" "treap_key_cmp (x # xs) [] = 1"
  "treap_key_cmp (x # xs) (y # ys) = (if x < y then -1 else if y < x then 1 else treap_key_cmp xs ys)"
  by (simp_all add: treap_key_cmp_def Let_def min_Suc_Suc)

lemma treap_key_cmp_order:
  "(treap_key_cmp a b < 0 \<longleftrightarrow> a < b) \<and> (treap_key_cmp a b = 0 \<longleftrightarrow> a = b) \<and> (treap_key_cmp a b > 0 \<longleftrightarrow> b < a)"
proof (induction a arbitrary: b)
  case Nil
  then show ?case by (cases b) (auto simp: treap_key_cmp_simps)
next
  case (Cons x xs)
  show ?case
  proof (cases b)
    case (Cons y ys)
    from Cons.IH [of ys] show ?thesis
      by (cases x y rule: linorder_cases) (auto simp: Cons treap_key_cmp_simps)
  qed (simp add: treap_key_cmp_simps)
qed

lemma treap_key_cmp_iff [simp]:
  "treap_key_cmp a b < 0 \<longleftrightarrow> a < b" "treap_key_cmp a b = 0 \<longleftrightarrow> a = b" "0 < treap_key_cmp a b \<longleftrightarrow> b < a"
  "treap_key_cmp a b \<le> 0 \<longleftrightarrow> a \<le> b" "0 \<le> treap_key_cmp a b \<longleftrightarrow> b \<le> a"
  using treap_key_cmp_order [of a b] by auto

text \<open>The order of the heap: priority first, ties broken by key; total on distinct keys.\<close>

definition above :: "u64 \<times> bytes \<Rightarrow> u64 \<times> bytes \<Rightarrow> bool" where
  "above x y \<longleftrightarrow> fst y < fst x \<or> fst y = fst x \<and> snd y < snd x"

lemma treap_priority_cmp_iff [simp]:
  "0 < treap_priority_cmp pa ka pb kb \<longleftrightarrow> above (pa, ka) (pb, kb)"
  "treap_priority_cmp pa ka pb kb < 0 \<longleftrightarrow> above (pb, kb) (pa, ka)"
  by (auto simp: treap_priority_cmp_def above_def)

lemma above_trans: "above x y \<Longrightarrow> above y z \<Longrightarrow> above x z"
  by (auto simp: above_def)

lemma above_total: "snd x \<noteq> snd y \<Longrightarrow> above x y \<or> above y x"
  by (auto simp: above_def)

lemma above_asym: "above x y \<Longrightarrow> \<not> above y x"
  by (auto simp: above_def)

section \<open>Abstraction and invariants of trees\<close>

fun entries :: "treap_node \<Rightarrow> (bytes \<times> bytes) list" where
  "entries Null = []"
| "entries (Node a p s k v l r) = entries l @ (k, case v of None \<Rightarrow> [] | Some (b, d) \<Rightarrow> d) # entries r"

abbreviation keys :: "treap_node \<Rightarrow> bytes list" where
  "keys t \<equiv> map fst (entries t)"

text \<open>The nodes of a tree with the blocks they hold.\<close>

fun cells :: "treap_node \<Rightarrow> (nat \<times> nat option) list" where
  "cells Null = []"
| "cells (Node a p s k v l r) = cells l @ (a, map_option fst v) # cells r"

abbreviation addrs :: "treap_node \<Rightarrow> nat list" where
  "addrs t \<equiv> map fst (cells t)"

fun pkeys :: "treap_node \<Rightarrow> (u64 \<times> bytes) set" where
  "pkeys Null = {}"
| "pkeys (Node a p s k v l r) = insert (p, k) (pkeys l \<union> pkeys r)"

fun sized :: "treap_node \<Rightarrow> bool" where
  "sized Null = True"
| "sized (Node a p s k v l r) \<longleftrightarrow> s = 1 + node_size l + node_size r \<and> sized l \<and> sized r"

fun heaped :: "treap_node \<Rightarrow> bool" where
  "heaped Null = True"
| "heaped (Node a p s k v l r) \<longleftrightarrow> (\<forall>x\<in>pkeys l \<union> pkeys r. above (p, k) x) \<and> heaped l \<and> heaped r"

text \<open>A value block is never empty: an empty value is the absence of a block.\<close>

fun valued :: "treap_node \<Rightarrow> bool" where
  "valued Null = True"
| "valued (Node a p s k v l r) \<longleftrightarrow> (\<forall>b. v \<noteq> Some (b, [])) \<and> valued l \<and> valued r"

definition tree_ok :: "u64 \<Rightarrow> treap_node \<Rightarrow> bool" where
  "tree_ok seed t \<longleftrightarrow> sorted_wrt (<) (keys t) \<and> sized t \<and> heaped t \<and> valued t
     \<and> (\<forall>(p, k)\<in>pkeys t. p = treap_hash seed k \<and> k \<noteq> [] \<and> treap_node_bytes (length k) \<le> 0xffffffff)"

lemma sized_fixed [simp]: "sized (fixed a p k v l r) \<longleftrightarrow> sized l \<and> sized r"
  by (simp add: fixed_def)

lemma heaped_fixed [simp]:
  "heaped (fixed a p k v l r) \<longleftrightarrow> (\<forall>x\<in>pkeys l \<union> pkeys r. above (p, k) x) \<and> heaped l \<and> heaped r"
  by (simp add: fixed_def)

lemma fixed_simps [simp]:
  "entries (fixed a p k v l r) = entries l @ (k, case v of None \<Rightarrow> [] | Some (b, d) \<Rightarrow> d) # entries r"
  "cells (fixed a p k v l r) = cells l @ (a, map_option fst v) # cells r"
  "pkeys (fixed a p k v l r) = insert (p, k) (pkeys l \<union> pkeys r)"
  "valued (fixed a p k v l r) \<longleftrightarrow> (\<forall>b. v \<noteq> Some (b, [])) \<and> valued l \<and> valued r"
  "fixed a p k v l r \<noteq> Null" "Null \<noteq> fixed a p k v l r"
  by (simp_all add: fixed_def)

lemma snd_pkeys: "snd ` pkeys t = set (keys t)"
  by (induction t) (auto simp: image_Un)

lemma sized_size: "sized t \<Longrightarrow> node_size t = of_nat (length (entries t))"
  by (induction t) auto

lemma length_cells: "length (cells t) = length (entries t)"
  by (induction t) auto

lemma entries_Null [simp]: "entries t = [] \<longleftrightarrow> t = Null"
  by (cases t) auto

lemma cells_Null [simp]: "cells t = [] \<longleftrightarrow> t = Null"
  by (cases t) auto

section \<open>Memory\<close>

definition refs_of :: "treap_mem \<Rightarrow> nat \<Rightarrow> nat" where
  "refs_of m b = (case mem_blobs m b of None \<Rightarrow> 0 | Some r \<Rightarrow> blob_refs r)"

definition holders :: "treap_mem \<Rightarrow> nat \<Rightarrow> nat set" where
  "holders m b = {a. mem_nodes m a = Some (Some b)}"

text \<open>
  Addresses come from a counter, and every block has at least as many references as allocated
  nodes that hold it, so a block some node still holds is not freed.
\<close>

definition mem_wf :: "treap_mem \<Rightarrow> bool" where
  "mem_wf m \<longleftrightarrow> (\<forall>a v. mem_nodes m a = Some v \<longrightarrow> a < mem_next m) \<and> (\<forall>b r. mem_blobs m b = Some r \<longrightarrow> b < mem_next m)
     \<and> (\<forall>b. card (holders m b) \<le> refs_of m b)"

definition held :: "treap_mem \<Rightarrow> treap_node \<Rightarrow> bool" where
  "held m t \<longleftrightarrow> (\<forall>(a, v)\<in>set (cells t). mem_nodes m a = Some v)"

lemma held_simps [simp]:
  "held m Null"
  "held m (Node a p s k v l r) \<longleftrightarrow> mem_nodes m a = Some (map_option fst v) \<and> held m l \<and> held m r"
  "held m (fixed a p k v l r) \<longleftrightarrow> mem_nodes m a = Some (map_option fst v) \<and> held m l \<and> held m r"
  by (auto simp: held_def)

lemma mem_wf_node: "mem_wf m \<Longrightarrow> mem_nodes m a = Some v \<Longrightarrow> a < mem_next m"
  by (simp add: mem_wf_def)

lemma mem_finite: "mem_wf m \<Longrightarrow> finite (dom (mem_nodes m))"
  by (rule finite_subset [of _ "{..<mem_next m}"]) (auto simp: mem_wf_node)

lemma finite_holders: "mem_wf m \<Longrightarrow> finite (holders m b)"
  by (rule finite_subset [OF _ mem_finite [of m]]) (auto simp: holders_def)

lemma held_refs:
  assumes "mem_wf m" "mem_nodes m a = Some (Some b)"
  shows "0 < refs_of m b" "mem_blobs m b \<noteq> None" "b < mem_next m"
proof -
  have "card (holders m b) \<noteq> 0" using finite_holders [OF assms(1)] assms(2) by (auto simp: holders_def)
  with assms(1) show p: "0 < refs_of m b" by (metis gr0I le_zero_eq mem_wf_def)
  then show n: "mem_blobs m b \<noteq> None" by (auto simp: refs_of_def split: option.splits)
  then show "b < mem_next m" using assms(1) by (auto simp: mem_wf_def)
qed

text \<open>What an operation does to the memory: new nodes, and nothing else touches a node.\<close>

definition op_ext :: "treap_mem \<Rightarrow> treap_op \<Rightarrow> treap_mem \<Rightarrow> treap_op \<Rightarrow> bool" where
  "op_ext m op m' op' \<longleftrightarrow> mem_next m \<le> mem_next m' \<and> (\<forall>a<mem_next m. mem_nodes m' a = mem_nodes m a)
     \<and> (\<exists>new. op_alloc op' = new @ op_alloc op \<and> distinct new \<and> set new \<subseteq> {mem_next m..<mem_next m'}
          \<and> dom (mem_nodes m') = dom (mem_nodes m) \<union> set new)"

lemma op_ext_refl [simp]: "op_ext m op m op"
  by (simp add: op_ext_def)

lemma op_ext_trans:
  assumes "op_ext m op m1 op1" "op_ext m1 op1 m2 op2"
  shows "op_ext m op m2 op2"
proof -
  from assms(1) obtain n1 where 1: "op_alloc op1 = n1 @ op_alloc op" "distinct n1"
    "set n1 \<subseteq> {mem_next m..<mem_next m1}" "dom (mem_nodes m1) = dom (mem_nodes m) \<union> set n1"
    by (auto simp: op_ext_def)
  from assms(2) obtain n2 where 2: "op_alloc op2 = n2 @ op_alloc op1" "distinct n2"
    "set n2 \<subseteq> {mem_next m1..<mem_next m2}" "dom (mem_nodes m2) = dom (mem_nodes m1) \<union> set n2"
    by (auto simp: op_ext_def)
  have le: "mem_next m \<le> mem_next m1" "mem_next m1 \<le> mem_next m2" using assms by (auto simp: op_ext_def)
  have "distinct (n2 @ n1)" using 1(2,3) 2(2,3) by fastforce
  moreover have "set (n2 @ n1) \<subseteq> {mem_next m..<mem_next m2}" using 1(3) 2(3) le by fastforce
  moreover have "\<forall>a<mem_next m. mem_nodes m2 a = mem_nodes m a"
    using assms le by (auto simp: op_ext_def)
  ultimately show ?thesis using 1(1,4) 2(1,4) le unfolding op_ext_def
    by (intro conjI exI [of _ "n2 @ n1"]) auto
qed

lemma held_ext:
  assumes "op_ext m op m' op'" "held m t" "mem_wf m"
  shows "held m' t"
  unfolding held_def
proof (clarify)
  fix a v assume "(a, v) \<in> set (cells t)"
  with assms(2) have h: "mem_nodes m a = Some v" by (auto simp: held_def)
  with assms(3) have "a < mem_next m" by (simp add: mem_wf_node)
  with assms(1) h show "mem_nodes m' a = Some v" by (simp add: op_ext_def)
qed

end
