(* ===== verification/Treap_Ops.thy ===== *)
theory Treap_Ops
  imports Treap_Node
begin

section \<open>Laws of clone, split, merge and remove-minimum\<close>

text \<open>
  Each routine has a memory law and a tree law. The memory law: the routine only adds fresh nodes,
  keeps the reference counts sound, and balances its books, that is, the nodes of its input and
  the nodes it allocated are, as multisets, the nodes of its output and the nodes it retired. The
  tree law: what happens to the ordered entries, and that heap order, sizes and priorities survive.
\<close>

definition op_net :: "treap_op \<Rightarrow> u64" where
  "op_net op = op_alloc_bytes op - op_free_bytes op"

subsection \<open>Allocation and reference counts\<close>

lemma mem_wf_malloc:
  assumes "mem_wf m" "treap_malloc m = (r, m')"
  shows "mem_wf m'" "mem_nodes m' = mem_nodes m" "mem_blobs m' = mem_blobs m"
    "r = Some a \<Longrightarrow> a = mem_next m \<and> mem_next m' = Suc a" "r = None \<Longrightarrow> mem_next m' = mem_next m"
  using assms
  by (auto simp: treap_malloc_def Let_def mem_wf_def refs_of_def holders_def less_SucI split: prod.splits if_splits)

lemma mem_next_unheld: "mem_wf m \<Longrightarrow> mem_nodes m (mem_next m) = None \<and> mem_blobs m (mem_next m) = None"
  by (metis less_irrefl mem_wf_def not_Some_eq)

lemma fresh_unheld: "mem_wf m \<Longrightarrow> mem_blobs m b = None \<Longrightarrow> holders m b = {}"
  using finite_holders [of m b] by (auto simp: mem_wf_def refs_of_def dest!: spec [of _ b])

lemma clone_None:
  assumes "treap_clone_node m op src k v = (None, op', m')" "mem_wf m"
  shows "op' = op \<and> mem_wf m' \<and> op_ext m op m' op'"
  using assms mem_wf_malloc [OF assms(2)]
  by (auto simp: treap_clone_node_def Let_def op_ext_def split: if_splits prod.splits option.splits)

lemma card_insert_fresh: "finite A \<Longrightarrow> card (insert a A) \<le> Suc (card A)"
  by (simp add: card_insert_le_m1 card_insert_if)

lemma clone_Some:
  assumes "treap_clone_node m op src k v = (Some a, op', m')" "mem_wf m" "mem_nodes m src = Some (map_option fst v)"
  shows "mem_wf m'" "op_ext m op m' op'" "mem_nodes m' a = Some (map_option fst v)"
    "op_alloc op' = a # op_alloc op" "op_free op' = op_free op @ [src]" "op_net op' = op_net op"
    "op_free_count op' = op_free_count op + 1"
proof -
  from assms(1) obtain m1 where m1: "treap_malloc m = (Some a, m1)"
    and op': "op' = treap_op_push_free (treap_op_push_alloc
       (op\<lparr>op_alloc_bytes := op_alloc_bytes op + of_nat (treap_node_bytes (length k)),
          op_free_bytes := op_free_bytes op + of_nat (treap_node_bytes (length k))\<rparr>) a) src"
    and m': "m' = treap_blob_ref (m1\<lparr>mem_nodes := (mem_nodes m1)(a \<mapsto> map_option fst v)\<rparr>) (map_option fst v)"
    by (auto simp: treap_clone_node_def Let_def split: if_splits prod.splits option.splits)
  note ml = mem_wf_malloc [OF assms(2) m1]
  have a: "a = mem_next m" "mem_next m1 = Suc a" using ml(4) by auto
  have na: "mem_nodes m a = None" using mem_next_unheld [OF assms(2)] a by simp
  have nodes: "mem_nodes m' = (mem_nodes m)(a \<mapsto> map_option fst v)" "mem_next m' = Suc a"
    using ml(2) a by (auto simp: m' treap_blob_ref_def split: option.splits)
  have refs: "refs_of m' b = refs_of m b + (if map_option fst v = Some b then 1 else 0)" for b
  proof (cases "map_option fst v = Some b")
    case True
    then have "mem_blobs m b \<noteq> None" using held_refs(2) [OF assms(2)] assms(3) by auto
    with True ml(3) show ?thesis by (auto simp: m' treap_blob_ref_def refs_of_def)
  next
    case False
    with ml(3) show ?thesis by (auto simp: m' treap_blob_ref_def refs_of_def split: option.splits)
  qed
  have hold: "holders m' b = (if map_option fst v = Some b then insert a (holders m b) else holders m b)" for b
    using na by (auto simp: holders_def nodes)
  have "card (holders m' b) \<le> refs_of m' b" for b
    using assms(2) card_insert_fresh [OF finite_holders [OF assms(2)], of a b]
    by (auto simp: refs hold mem_wf_def dest!: spec [of _ b])
  moreover have "dom (mem_blobs m') = dom (mem_blobs m)"
    using ml(3) by (auto simp: m' treap_blob_ref_def split: option.splits if_splits)
  then have "mem_blobs m' b = Some r \<Longrightarrow> b < Suc a" for b r
    using assms(2) a by (auto simp: mem_wf_def less_SucI dest!: equalityD1 subsetD [OF _ domI])
  ultimately show "mem_wf m'" using assms(2) a by (auto simp: mem_wf_def nodes less_SucI)
  show "op_ext m op m' op'" using a by (auto simp: op_ext_def nodes op' treap_op_push_free_def treap_op_push_alloc_def)
  show "mem_nodes m' a = Some (map_option fst v)" by (simp add: nodes)
  show "op_alloc op' = a # op_alloc op" "op_free op' = op_free op @ [src]" "op_net op' = op_net op"
    "op_free_count op' = op_free_count op + 1"
    by (simp_all add: op' treap_op_push_free_def treap_op_push_alloc_def op_net_def)
qed

text \<open>
  The books of an operation: \<open>inp\<close> and what it allocated since \<open>op\<close> is \<open>out\<close> and what
  it retired since \<open>op\<close>; and the retirement counter moved with the list.
\<close>

definition balanced :: "treap_op \<Rightarrow> nat list \<Rightarrow> treap_op \<Rightarrow> nat list \<Rightarrow> bool" where
  "balanced op inp op' out \<longleftrightarrow>
     mset out + mset (op_free op') + mset (op_alloc op) = mset inp + mset (op_free op) + mset (op_alloc op')
     \<and> op_free_count op' - of_nat (length (op_free op')) = op_free_count op - of_nat (length (op_free op))"

text \<open>The invariant a routine maintains, from the state it starts in to the one it ends in.\<close>

definition op_run :: "treap_mem \<Rightarrow> treap_op \<Rightarrow> treap_mem \<Rightarrow> treap_op \<Rightarrow> bool" where
  "op_run m op m' op' \<longleftrightarrow> mem_wf m' \<and> op_ext m op m' op'"

lemma op_run_refl [simp]: "mem_wf m \<Longrightarrow> op_run m op m op"
  by (simp add: op_run_def)

lemma op_run_trans: "op_run m op m1 op1 \<Longrightarrow> op_run m1 op1 m2 op2 \<Longrightarrow> op_run m op m2 op2"
  by (auto simp: op_run_def intro: op_ext_trans)

lemma op_run_wf: "op_run m op m' op' \<Longrightarrow> mem_wf m'"
  by (simp add: op_run_def)

lemma op_run_held: "op_run m op m' op' \<Longrightarrow> mem_wf m \<Longrightarrow> held m t \<Longrightarrow> held m' t"
  by (auto simp: op_run_def intro: held_ext)

lemma op_run_node: "op_run m op m' op' \<Longrightarrow> mem_wf m \<Longrightarrow> mem_nodes m a = Some v \<Longrightarrow> mem_nodes m' a = Some v"
  by (simp add: op_run_def op_ext_def mem_wf_node)

lemma clone_run:
  assumes "treap_clone_node m op src k v = (res, op', m')" "mem_wf m" "mem_nodes m src = Some (map_option fst v)"
  shows "op_run m op m' op' \<and> (\<forall>a. res = Some a \<longrightarrow> mem_nodes m' a = Some (map_option fst v)
     \<and> op_alloc op' = a # op_alloc op \<and> op_free op' = op_free op @ [src] \<and> op_net op' = op_net op
     \<and> op_free_count op' = op_free_count op + 1)"
proof (cases res)
  case None
  with clone_None [of m op src k v op' m'] assms show ?thesis by (auto simp: op_run_def)
next
  case (Some a)
  with clone_Some [of m op src k v a op' m'] assms show ?thesis by (simp add: op_run_def)
qed

text \<open>The books after a clone of \<open>a\<close> as \<open>a'\<close> followed by a balanced routine, next to a part nobody touches.\<close>

lemma balanced_clone:
  assumes "op_alloc op1 = a' # op_alloc op \<and> op_free op1 = op_free op @ [a] \<and> op_free_count op1 = op_free_count op + 1"
    "balanced op1 inp op2 out" "mset inp2 = add_mset a (mset inp + x)" "mset out2 = add_mset a' (mset out + x)"
  shows "balanced op inp2 op2 out2"
proof -
  have "mset out + mset (op_free op2) + mset (op_alloc op) + {#a'#}
      = mset inp + mset (op_free op) + mset (op_alloc op2) + {#a#}"
    using assms(1,2) by (simp add: balanced_def)
  then have "mset out2 + mset (op_free op2) + mset (op_alloc op) = mset inp2 + mset (op_free op) + mset (op_alloc op2)"
    unfolding assms(3,4) by (metis add.assoc add.commute add_mset_add_single)
  then show ?thesis using assms(1,2) by (simp add: balanced_def)
qed

lemma balanced_refl [simp]: "mset inp = mset out \<Longrightarrow> balanced op inp op out"
  by (simp add: balanced_def)

subsection \<open>Split\<close>

lemma split_Node:
  assumes "treap_split m op key (Node a p s k v l r) = (res, op', m')"
  obtains (oom) "treap_clone_node m op a k v = (None, op', m')" "res = None"
  | (left) a' op1 m1 r2 where "treap_clone_node m op a k v = (Some a', op1, m1)" "key \<le> k"
      "treap_split m1 op1 key l = (r2, op', m')" "res = map_option (\<lambda>(L, R). (L, fixed a' p k v R r)) r2"
  | (right) a' op1 m1 r2 where "treap_clone_node m op a k v = (Some a', op1, m1)" "\<not> key \<le> k"
      "treap_split m1 op1 key r = (r2, op', m')" "res = map_option (\<lambda>(L, R). (fixed a' p k v l L, R)) r2"
  using assms by (auto split: prod.splits option.splits if_splits)

text \<open>What a clone of a node of a held tree leaves for the rest of the routine.\<close>

lemma clone_step:
  assumes "treap_clone_node m op a k v = (Some a', op1, m1)" "mem_wf m" "held m (Node a p s k v l r)"
    "op_run m1 op1 m2 op2"
  shows "op_run m op m2 op2" "mem_nodes m2 a' = Some (map_option fst v)" "held m2 l" "held m2 r" "held m1 l" "held m1 r"
    "mem_wf m1" "op_net op1 = op_net op"
    "op_alloc op1 = a' # op_alloc op \<and> op_free op1 = op_free op @ [a] \<and> op_free_count op1 = op_free_count op + 1"
proof -
  from clone_run [OF assms(1,2)] assms(3) have c: "op_run m op m1 op1" "mem_nodes m1 a' = Some (map_option fst v)"
    "op_net op1 = op_net op"
    "op_alloc op1 = a' # op_alloc op \<and> op_free op1 = op_free op @ [a] \<and> op_free_count op1 = op_free_count op + 1"
    by auto
  note wf1 = op_run_wf [OF c(1)]
  show "op_run m op m2 op2" by (rule op_run_trans [OF c(1) assms(4)])
  show "mem_nodes m2 a' = Some (map_option fst v)" by (rule op_run_node [OF assms(4) wf1 c(2)])
  show h: "held m1 l" "held m1 r" using op_run_held [OF c(1) assms(2)] assms(3) by auto
  show "held m2 l" "held m2 r" using op_run_held [OF assms(4) wf1] h by auto
qed (use clone_run [OF assms(1,2)] assms(3) op_run_wf in auto)

lemma clone_oom:
  assumes "treap_clone_node m op a k v = (None, op', m')" "mem_wf m" "held m (Node a p s k v l r)"
  shows "op_run m op m' op'"
  using clone_run [OF assms(1,2)] assms(3) by simp

lemma split_mem:
  assumes "treap_split m op key t = (res, op', m')" "mem_wf m" "held m t"
  shows "op_run m op m' op' \<and> (\<forall>L R. res = Some (L, R) \<longrightarrow>
     held m' L \<and> held m' R \<and> balanced op (addrs t) op' (addrs L @ addrs R) \<and> op_net op' = op_net op)"
  using assms
proof (induction t arbitrary: m op res op' m')
  case Null
  then show ?case by auto
next
  case (Node a p s k v l r)
  from Node.prems(1) show ?case
  proof (cases rule: split_Node)
    case oom
    then show ?thesis using clone_oom Node.prems by blast
  next
    case (left a' op1 m1 r2)
    note pre = clone_step [OF left(1) Node.prems(2,3)]
    have wf1: "op_run m1 op1 m1 op1" using clone_run [OF left(1)] Node.prems op_run_wf by auto
    note IH = Node.IH(1) [OF left(3) pre(7,5) [OF wf1]]
    note st = pre [OF IH [THEN conjunct1]]
    show ?thesis
    proof (cases r2)
      case (Some LR)
      then obtain L R where LR: "r2 = Some (L, R)" by (cases LR) auto
      have "balanced op (addrs (Node a p s k v l r)) op' (addrs L @ addrs (fixed a' p k v R r))"
        by (rule balanced_clone [OF st(9), of "addrs l" _ "addrs L @ addrs R" _ "mset (addrs r)"])
           (use IH LR in auto)
      then show ?thesis using st IH LR left(4) by simp
    qed (use st left(4) in simp)
  next
    case (right a' op1 m1 r2)
    note pre = clone_step [OF right(1) Node.prems(2,3)]
    have wf1: "op_run m1 op1 m1 op1" using clone_run [OF right(1)] Node.prems op_run_wf by auto
    note IH = Node.IH(2) [OF right(3) pre(7,6) [OF wf1]]
    note st = pre [OF IH [THEN conjunct1]]
    show ?thesis
    proof (cases r2)
      case (Some LR)
      then obtain L R where LR: "r2 = Some (L, R)" by (cases LR) auto
      have "balanced op (addrs (Node a p s k v l r)) op' (addrs (fixed a' p k v l L) @ addrs R)"
        by (rule balanced_clone [OF st(9), of "addrs r" _ "addrs L @ addrs R" _ "mset (addrs l)"])
           (use IH LR in auto)
      then show ?thesis using st IH LR right(4) by simp
    qed (use st right(4) in simp)
  qed
qed

lemma split_tree:
  assumes "treap_split m op key t = (Some (L, R), op', m')"
  shows "entries L @ entries R = entries t \<and> pkeys L \<union> pkeys R = pkeys t \<and> (sized t \<longrightarrow> sized L \<and> sized R)
     \<and> (heaped t \<longrightarrow> heaped L \<and> heaped R) \<and> (valued t \<longrightarrow> valued L \<and> valued R)"
  using assms
proof (induction t arbitrary: m op L R op' m')
  case (Node a p s k v l r)
  from Node.prems show ?case
  proof (cases rule: split_Node)
    case (left a' op1 m1 r2)
    then obtain R' where s: "treap_split m1 op1 key l = (Some (L, R'), op', m')" and R: "R = fixed a' p k v R' r"
      by (cases r2) auto
    from Node.IH(1) [OF s] show ?thesis by (auto simp: R)
  next
    case (right a' op1 m1 r2)
    then obtain L' where s: "treap_split m1 op1 key r = (Some (L', R), op', m')" and L: "L = fixed a' p k v l L'"
      by (cases r2) auto
    from Node.IH(2) [OF s] show ?thesis by (auto simp: L)
  qed simp
qed simp

lemma split_keys:
  assumes "treap_split m op key t = (Some (L, R), op', m')" "sorted_wrt (<) (keys t)"
  shows "(\<forall>k\<in>set (keys L). k < key) \<and> (\<forall>k\<in>set (keys R). key \<le> k)"
  using assms
proof (induction t arbitrary: m op L R op' m')
  case (Node a p s k v l r)
  have s: "sorted_wrt (<) (keys l)" "sorted_wrt (<) (keys r)" "\<forall>x\<in>set (keys l). x < k" "\<forall>x\<in>set (keys r). k < x"
    using Node.prems(2) by (auto simp: sorted_wrt_append)
  from Node.prems(1) show ?case
  proof (cases rule: split_Node)
    case (left a' op1 m1 r2)
    then obtain R' where R': "treap_split m1 op1 key l = (Some (L, R'), op', m')" and R: "R = fixed a' p k v R' r"
      by (cases r2) auto
    have "\<forall>x\<in>set (keys r). key \<le> x" using s(4) left(2) by (meson less_imp_le order_trans)
    with Node.IH(1) [OF R' s(1)] left(2) show ?thesis by (simp add: R ball_Un)
  next
    case (right a' op1 m1 r2)
    then obtain L' where L': "treap_split m1 op1 key r = (Some (L', R), op', m')" and L: "L = fixed a' p k v l L'"
      by (cases r2) auto
    have "\<forall>x\<in>set (keys l). x < key" "k < key" using s(3) right(2) by (auto simp: not_le intro: less_trans)
    with Node.IH(2) [OF L' s(2)] show ?thesis by (simp add: L ball_Un)
  qed simp
qed simp

lemma clone_net: "treap_clone_node m op src k v = (Some a, op', m') \<Longrightarrow> op_net op' = op_net op"
  by (auto simp: treap_clone_node_def Let_def op_net_def treap_op_push_free_def treap_op_push_alloc_def
      split: if_splits prod.splits option.splits)

lemma split_net: "treap_split m op key t = (Some LR, op', m') \<Longrightarrow> op_net op' = op_net op"
proof (induction t arbitrary: m op LR op' m')
  case (Node a p s k v l r)
  from Node.prems show ?case
  proof (cases rule: split_Node)
    case (left a' op1 m1 r2)
    then obtain z where "r2 = Some z" by (cases r2) auto
    then show ?thesis using Node.IH(1) left(3) clone_net [OF left(1)] by simp
  next
    case (right a' op1 m1 r2)
    then obtain z where "r2 = Some z" by (cases r2) auto
    then show ?thesis using Node.IH(2) right(3) clone_net [OF right(1)] by simp
  qed simp
qed simp

subsection \<open>Merge\<close>

lemma merge_Node:
  assumes "merge_loop m op (Node a p s k v l r) (Node a2 p2 s2 k2 v2 l2 r2) = (res, op', m')"
  obtains (oomL) "treap_clone_node m op a k v = (None, op', m')" "res = None"
  | (oomR) "treap_clone_node m op a2 k2 v2 = (None, op', m')" "res = None"
  | (left) a' op1 m1 t where "treap_clone_node m op a k v = (Some a', op1, m1)" "above (p, k) (p2, k2)"
      "merge_loop m1 op1 r (Node a2 p2 s2 k2 v2 l2 r2) = (t, op', m')" "res = map_option (fixed a' p k v l) t"
  | (right) a' op1 m1 t where "treap_clone_node m op a2 k2 v2 = (Some a', op1, m1)" "\<not> above (p, k) (p2, k2)"
      "merge_loop m1 op1 (Node a p s k v l r) l2 = (t, op', m')" "res = map_option (\<lambda>t. fixed a' p2 k2 v2 t r2) t"
  using assms by (auto split: prod.splits option.splits if_splits)

lemma merge_mem:
  assumes "merge_loop m op L R = (res, op', m')" "mem_wf m" "held m L" "held m R"
  shows "op_run m op m' op' \<and> (\<forall>t. res = Some t \<longrightarrow>
     held m' t \<and> balanced op (addrs L @ addrs R) op' (addrs t) \<and> op_net op' = op_net op)"
  using assms
proof (induction m op L R arbitrary: res op' m' rule: merge_loop.induct)
  case (3 m op a p s k v l r a2 p2 s2 k2 v2 l2 r2)
  let ?L = "Node a p s k v l r" and ?R = "Node a2 p2 s2 k2 v2 l2 r2"
  from 3(3) show ?case
  proof (cases rule: merge_Node)
    case oomL
    then show ?thesis using clone_oom 3 by blast
  next
    case oomR
    then show ?thesis using clone_oom 3 by blast
  next
    case (left a' op1 m1 t)
    note pre = clone_step [OF left(1) 3(4,5)]
    have run1: "op_run m op m1 op1" and wf1: "op_run m1 op1 m1 op1"
      using clone_run [OF left(1)] 3(4,5) op_run_wf by auto
    have hR: "held m1 ?R" using op_run_held [OF run1 3(4,6)] .
    have "0 < treap_priority_cmp p k p2 k2" using left(2) by simp
    note IH = 3(1) [OF this left(1) [symmetric] refl refl left(3) pre(7,6) [OF wf1] hR]
    note st = pre [OF IH [THEN conjunct1]]
    show ?thesis
    proof (cases t)
      case (Some u)
      have "balanced op (addrs ?L @ addrs ?R) op' (addrs (fixed a' p k v l u))"
        by (rule balanced_clone [OF st(9), of "addrs r @ addrs ?R" _ "addrs u" _ "mset (addrs l)"])
           (use IH Some in auto)
      then show ?thesis using st IH Some left(4) by simp
    qed (use st left(4) in simp)
  next
    case (right a' op1 m1 t)
    note pre = clone_step [OF right(1) 3(4,6)]
    have run1: "op_run m op m1 op1" and wf1: "op_run m1 op1 m1 op1"
      using clone_run [OF right(1)] 3(4,6) op_run_wf by auto
    have hL: "held m1 ?L" using op_run_held [OF run1 3(4,5)] .
    have "\<not> 0 < treap_priority_cmp p k p2 k2" using right(2) by simp
    note IH = 3(2) [OF this right(1) [symmetric] refl refl right(3) pre(7) [OF wf1] hL pre(5) [OF wf1]]
    note st = pre [OF IH [THEN conjunct1]]
    show ?thesis
    proof (cases t)
      case (Some u)
      have "balanced op (addrs ?L @ addrs ?R) op' (addrs (fixed a' p2 k2 v2 u r2))"
        by (rule balanced_clone [OF st(9), of "addrs ?L @ addrs l2" _ "addrs u" _ "mset (addrs r2)"])
           (use IH Some in auto)
      then show ?thesis using st IH Some right(4) by simp
    qed (use st right(4) in simp)
  qed
qed auto

lemma merge_tree:
  assumes "merge_loop m op L R = (Some t, op', m')"
  shows "entries t = entries L @ entries R \<and> pkeys t = pkeys L \<union> pkeys R \<and> (sized L \<and> sized R \<longrightarrow> sized t)
     \<and> (valued L \<and> valued R \<longrightarrow> valued t)"
  using assms
proof (induction m op L R arbitrary: t op' m' rule: merge_loop.induct)
  case (3 m op a p s k v l r a2 p2 s2 k2 v2 l2 r2)
  from 3(3) show ?case
  proof (cases rule: merge_Node)
    case (left a' op1 m1 u)
    then obtain u' where u: "u = Some u'" "t = fixed a' p k v l u'" by (cases u) auto
    have "0 < treap_priority_cmp p k p2 k2" using left(2) by simp
    from 3(1) [OF this left(1) [symmetric] refl refl left(3) [unfolded u]] show ?thesis by (auto simp: u)
  next
    case (right a' op1 m1 u)
    then obtain u' where u: "u = Some u'" "t = fixed a' p2 k2 v2 u' r2" by (cases u) auto
    have "\<not> 0 < treap_priority_cmp p k p2 k2" using right(2) by simp
    from 3(2) [OF this right(1) [symmetric] refl refl right(3) [unfolded u]] show ?thesis by (auto simp: u)
  qed simp_all
qed auto

lemma merge_heap:
  assumes "merge_loop m op L R = (Some t, op', m')" "heaped L" "heaped R" "snd ` pkeys L \<inter> snd ` pkeys R = {}"
  shows "heaped t"
  using assms
proof (induction m op L R arbitrary: t op' m' rule: merge_loop.induct)
  case (3 m op a p s k v l r a2 p2 s2 k2 v2 l2 r2)
  have hL: "\<forall>x\<in>pkeys l \<union> pkeys r. above (p, k) x" "heaped l" "heaped r"
    and hR: "\<forall>x\<in>pkeys l2 \<union> pkeys r2. above (p2, k2) x" "heaped l2" "heaped r2"
    using 3(4,5) by auto
  from 3(3) show ?case
  proof (cases rule: merge_Node)
    case (left a' op1 m1 u)
    then obtain u' where u: "u = Some u'" "t = fixed a' p k v l u'" by (cases u) auto
    have c: "0 < treap_priority_cmp p k p2 k2" using left(2) by simp
    have "heaped u'"
      by (rule 3(1) [OF c left(1) [symmetric] refl refl left(3) [unfolded u] hL(3) 3(5)]) (use 3(6) in auto)
    moreover have "\<forall>x\<in>pkeys (Node a2 p2 s2 k2 v2 l2 r2). above (p, k) x"
      using hR(1) left(2) by (auto intro: above_trans)
    ultimately show ?thesis using hL merge_tree [OF left(3) [unfolded u]] by (simp add: u ball_Un)
  next
    case (right a' op1 m1 u)
    then obtain u' where u: "u = Some u'" "t = fixed a' p2 k2 v2 u' r2" by (cases u) auto
    have c: "\<not> 0 < treap_priority_cmp p k p2 k2" using right(2) by simp
    have "heaped u'"
      by (rule 3(2) [OF c right(1) [symmetric] refl refl right(3) [unfolded u] 3(4) hR(2)]) (use 3(6) in auto)
    moreover have "above (p2, k2) (p, k)"
      using right(2) 3(6) above_total [of "(p, k)" "(p2, k2)"] by auto
    then have "\<forall>x\<in>pkeys (Node a p s k v l r). above (p2, k2) x"
      using hL(1) by (auto intro: above_trans)
    ultimately show ?thesis using hR merge_tree [OF right(3) [unfolded u]] by (simp add: u ball_Un)
  qed simp_all
qed auto

lemma merge_Null:
  assumes "merge_loop m op L R = (res, op', m')"
  shows "res = Some Null \<longleftrightarrow> L = Null \<and> R = Null"
proof -
  have "res = Some t \<Longrightarrow> (t = Null) = (L = Null \<and> R = Null)" for t
    using merge_tree [of m op L R t op' m'] assms by (metis append_is_Nil_conv entries_Null)
  then show ?thesis using assms by (cases L; cases R) auto
qed

subsection \<open>Removing the minimum\<close>

lemma remove_min_Node:
  assumes "remove_min_loop m op (Node a p s k v l r) = (res, op', m')"
  obtains (min) "l = Null" "res = Some (r, Node a p s k v l r)" "m' = m"
      "op' = op\<lparr>op_free_bytes := op_free_bytes op + of_nat (treap_node_bytes (length k))\<rparr>"
  | (oom) "treap_clone_node m op a k v = (None, op', m')" "res = None"
  | (left) a' op1 m1 r2 where "l \<noteq> Null" "treap_clone_node m op a k v = (Some a', op1, m1)"
      "remove_min_loop m1 op1 l = (r2, op', m')" "res = map_option (\<lambda>(t, mn). (fixed a' p k v t r, mn)) r2"
  using assms by (auto split: prod.splits option.splits if_splits)

lemma remove_min_mem:
  assumes "remove_min_loop m op t = (res, op', m')" "mem_wf m" "held m t" "t \<noteq> Null"
  shows "op_run m op m' op' \<and> (\<forall>t' mn. res = Some (t', mn) \<longrightarrow>
     held m' t' \<and> mn \<noteq> Null \<and> balanced op (addrs t) op' (addr mn # addrs t'))"
  using assms
proof (induction t arbitrary: m op res op' m')
  case (Node a p s k v l r)
  from Node.prems(1) show ?case
  proof (cases rule: remove_min_Node)
    case min
    then have "op_run m op m op'" using Node.prems(2) by (simp add: op_run_def op_ext_def)
    with min show ?thesis using Node.prems(2,3) by (auto simp: balanced_def op_run_def)
  next
    case oom
    then show ?thesis using clone_oom Node.prems by blast
  next
    case (left a' op1 m1 r2)
    note pre = clone_step [OF left(2) Node.prems(2,3)]
    have wf1: "op_run m1 op1 m1 op1" using clone_run [OF left(2)] Node.prems op_run_wf by auto
    note IH = Node.IH(1) [OF left(3) pre(7,5) [OF wf1] left(1)]
    note st = pre [OF IH [THEN conjunct1]]
    show ?thesis
    proof (cases r2)
      case (Some u)
      then obtain t' mn where u: "r2 = Some (t', mn)" by (cases u) auto
      have "balanced op (addrs (Node a p s k v l r)) op' (addr mn # addrs (fixed a' p k v t' r))"
        by (rule balanced_clone [OF st(9), of "addrs l" _ "addr mn # addrs t'" _ "mset (addrs r)"])
           (use IH u in auto)
      then show ?thesis using st IH u left(4) by simp
    qed (use st left(4) in simp)
  qed
qed simp

lemma remove_min_tree:
  assumes "remove_min_loop m op t = (Some (t', mn), op', m')" "t \<noteq> Null"
  shows "\<exists>p k d. entries t = (k, d) # entries t'
     \<and> pkeys t = insert (p, k) (pkeys t') \<and> op_net op' = op_net op - of_nat (treap_node_bytes (length k))
     \<and> (sized t \<longrightarrow> sized t') \<and> (heaped t \<longrightarrow> heaped t') \<and> (valued t \<longrightarrow> valued t')"
  using assms
proof (induction t arbitrary: m op t' op' m')
  case (Node a p s k v l r)
  from Node.prems(1) show ?case
  proof (cases rule: remove_min_Node)
    case min
    then show ?thesis by (auto simp: op_net_def)
  next
    case (left a' op1 m1 r2)
    then obtain u where u: "r2 = Some (u, mn)" "t' = fixed a' p k v u r" by (cases r2) auto
    have "op_net op1 = op_net op" using left(2) by (rule clone_net)
    with Node.IH(1) [OF left(3) [unfolded u] left(1)] show ?thesis by (auto simp: u)
  qed simp
qed simp

end
