(* ===== verification/Treap.thy ===== *)
theory Treap
  imports Treap_Ops
begin

section \<open>treap.h: the ordered store\<close>

text \<open>
  The public operations of \<^verbatim>\<open>src/code/treap.h\<close> on a store: set, delete, range delete, lookups,
  order statistics, snapshot capture and release, and the copy-on-write transactions
  (fork, commit, abort). The list \<open>st_pending\<close> is the chain of retired nodes from
  \<^verbatim>\<open>pending_free_head\<close> on. Every operation threads the memory and reads the allocator's
  script; return codes are those of the code.
\<close>

record treap_state =
  st_root :: treap_node
  st_count :: u64
  st_tree_bytes :: u64
  st_pending :: "nat list"
  st_pending_count :: u64
  st_pending_bytes :: u64

definition st_zero :: treap_state where
  "st_zero = \<lparr>st_root = Null, st_count = 0, st_tree_bytes = 0, st_pending = [], st_pending_count = 0,
     st_pending_bytes = 0\<rparr>"

text \<open>\<open>tr_id\<close> is the address of the store, which \<^verbatim>\<open>txn_owner\<close> of a fork points to.\<close>

record treap =
  tr_id :: nat
  tr_live :: treap_state
  tr_snap :: treap_state
  tr_seed :: u64
  tr_txn :: bool
  tr_owner :: "nat option"
  tr_op :: treap_op

abbreviation root :: "treap \<Rightarrow> treap_node" where
  "root t \<equiv> st_root (tr_live t)"

definition treap_create :: "treap_mem \<Rightarrow> u64 \<Rightarrow> treap option \<times> treap_mem" where
  "treap_create m seed = (case treap_malloc m of (None, m') \<Rightarrow> (None, m')
     | (Some i, m') \<Rightarrow> (Some \<lparr>tr_id = i, tr_live = st_zero, tr_snap = st_zero, tr_seed = seed, tr_txn = False,
          tr_owner = None, tr_op = op_zero\<rparr>, m'))"

subsection \<open>Updates\<close>

definition treap_publish_op :: "treap \<Rightarrow> treap_op \<Rightarrow> treap_node \<Rightarrow> int \<Rightarrow> treap" where
  "treap_publish_op t op result delta =
     (let lv = tr_live t;
          cnt = (if delta > 0 then st_count lv + 1 else if delta < 0 then st_count lv - 1 else st_count lv);
          lv1 = lv\<lparr>st_count := cnt, st_tree_bytes := st_tree_bytes lv + op_alloc_bytes op - op_free_bytes op,
                   st_root := result\<rparr>
      in if tr_txn t
         then t\<lparr>tr_op := fst (treap_op_merge (tr_op t) op), tr_live := lv1\<rparr>
         else t\<lparr>tr_live := lv1\<lparr>st_pending := op_free op @ st_pending lv,
                  st_pending_count := (if op_free op \<noteq> [] then st_pending_count lv + op_free_count op
                                       else st_pending_count lv),
                  st_pending_bytes := st_pending_bytes lv + op_free_bytes op\<rparr>\<rparr>)"

fun leftmost :: "treap_node \<Rightarrow> treap_node" where
  "leftmost Null = Null"
| "leftmost (Node a p s k v l r) = (if l = Null then Node a p s k v l r else leftmost l)"

fun node_key :: "treap_node \<Rightarrow> bytes" where
  "node_key Null = []"
| "node_key (Node a p s k v l r) = k"

text \<open>
  The common first half of set and delete: split at the key, see whether the minimum of the
  right part is the key, and if so take it out and retire it.
\<close>

definition treap_cut :: "treap_mem \<Rightarrow> treap_node \<Rightarrow> bytes
    \<Rightarrow> (treap_node \<times> bool \<times> treap_node) option \<times> treap_op \<times> treap_mem" where
  "treap_cut m rt key =
     (case treap_split m op_zero key rt of (None, op1, m1) \<Rightarrow> (None, op1, m1)
      | (Some (L, R), op1, m1) \<Rightarrow>
          if R \<noteq> Null \<and> treap_key_cmp (node_key (leftmost R)) key = 0
          then (case treap_remove_min m1 op1 R of (R_rest, old_node, op2, m2) \<Rightarrow>
                  if R_rest = Null \<and> old_node = Null then (None, op2, m2)
                  else (Some (L, True, R_rest),
                        if old_node \<noteq> Null then treap_op_push_free op2 (addr old_node) else op2, m2))
          else (Some (L, False, R), op1, m1))"

definition treap_fail :: "treap \<Rightarrow> treap_mem \<Rightarrow> treap_op \<Rightarrow> int \<times> treap \<times> treap_mem" where
  "treap_fail t m op = (-1, t, snd (treap_op_discard m op))"

definition treap_set :: "treap_mem \<Rightarrow> treap \<Rightarrow> bytes \<Rightarrow> bytes \<Rightarrow> int \<times> treap \<times> treap_mem" where
  "treap_set m t key value =
     (if key = [] then (-1, t, m)
      else case treap_cut m (root t) key of (None, op1, m1) \<Rightarrow> treap_fail t m1 op1
      | (Some (L, ex, R_rest), op1, m1) \<Rightarrow>
          let sz = treap_node_bytes (length key)
          in if sz > 0xffffffff then treap_fail t m1 op1
             else case treap_malloc m1 of (None, m2) \<Rightarrow> treap_fail t m2 op1
             | (Some a, m2) \<Rightarrow>
                 let m3 = m2\<lparr>mem_nodes := (mem_nodes m2)(a \<mapsto> None)\<rparr>;
                     op2 = treap_op_push_alloc (op1\<lparr>op_alloc_bytes := op_alloc_bytes op1 + of_nat sz\<rparr>) a
                 in case treap_node_attach_value m3 (treap_node_init a key (treap_hash (tr_seed t) key)) value of
                    (False, _, _, m4) \<Rightarrow> treap_fail t m4 op2
                  | (True, new_node, value_bytes, m4) \<Rightarrow>
                      (case treap_merge m4 (op2\<lparr>op_alloc_bytes := op_alloc_bytes op2 + value_bytes\<rparr>) new_node R_rest of
                         (mid, op3, m5) \<Rightarrow>
                           if mid = Null then treap_fail t m5 op3
                           else case treap_merge m5 op3 L mid of (result, op4, m6) \<Rightarrow>
                             if result = Null then treap_fail t m6 op4
                             else (0, treap_publish_op t op4 result (if ex then 0 else 1), m6)))"

definition treap_delete :: "treap_mem \<Rightarrow> treap \<Rightarrow> bytes \<Rightarrow> int \<times> treap \<times> treap_mem" where
  "treap_delete m t key =
     (if key = [] then (-1, t, m)
      else case treap_cut m (root t) key of (None, op1, m1) \<Rightarrow> treap_fail t m1 op1
      | (Some (L, ex, R_rest), op1, m1) \<Rightarrow>
          if \<not> ex then (0, t, snd (treap_op_discard m1 op1))
          else case treap_merge m1 op1 L R_rest of (result, op2, m2) \<Rightarrow>
            if result = Null \<and> L \<noteq> Null \<and> R_rest \<noteq> Null then treap_fail t m2 op2
            else (1, treap_publish_op t op2 result (-1), m2))"

text \<open>
  Retiring a subtree with an explicit stack (preorder, right child pushed first). The stack array
  grows by doubling from 64; \<open>(stack, cap)\<close> is its content, top first, and its capacity.
\<close>

definition stack_room :: "treap_mem \<Rightarrow> nat \<Rightarrow> nat \<Rightarrow> nat option \<times> treap_mem" where
  "stack_room m cap sp =
     (if sp < cap then (Some cap, m)
      else if cap > 0x7fffffff then (None, m)
      else let (ok, s) = alloc (mem_script m); m' = m\<lparr>mem_script := s\<rparr>
        in if ok then (Some (cap * 2), m') else (None, m'))"

definition stack_push :: "treap_mem \<Rightarrow> nat \<Rightarrow> 'a list \<Rightarrow> 'a \<Rightarrow> (nat \<times> 'a list) option \<times> treap_mem" where
  "stack_push m cap stack n = (case stack_room m cap (length stack) of
     (None, m') \<Rightarrow> (None, m') | (Some cap', m') \<Rightarrow> (Some (cap', n # stack), m'))"

abbreviation nodes :: "treap_node list \<Rightarrow> nat" where
  "nodes ts \<equiv> sum_list (map size ts)"

lemma stack_push_stack: "stack_push m cap stack n = (Some (cap', stack'), m') \<Longrightarrow> stack' = n # stack"
  by (auto simp: stack_push_def split: option.splits prod.splits)

function push_free_loop :: "treap_mem \<Rightarrow> treap_op \<Rightarrow> nat \<Rightarrow> treap_node list \<Rightarrow> u64
    \<Rightarrow> u64 option \<times> treap_op \<times> treap_mem" where
  "push_free_loop m op cap [] cnt = (Some cnt, op, m)"
| "push_free_loop m op cap (Null # stack) cnt = push_free_loop m op cap stack cnt"
| "push_free_loop m op cap (Node a p s k v l r # stack) cnt =
     (let op1 = treap_op_push_free (op\<lparr>op_free_bytes := op_free_bytes op + of_nat (treap_node_bytes (length k))\<rparr>) a;
          (r1, m1) = (if r \<noteq> Null then stack_push m cap stack r else (Some (cap, stack), m))
      in case r1 of None \<Rightarrow> (None, op1, m1)
         | Some (cap1, stack1) \<Rightarrow>
             (let (r2, m2) = (if l \<noteq> Null then stack_push m1 cap1 stack1 l else (Some (cap1, stack1), m1))
              in case r2 of None \<Rightarrow> (None, op1, m2)
                 | Some (cap2, stack2) \<Rightarrow> push_free_loop m2 op1 cap2 stack2 (cnt + 1)))"
  by pat_completeness auto
termination
  by (relation "measure (\<lambda>(m, op, cap, stack, cnt). 2 * nodes stack + length stack)")
     (auto dest!: stack_push_stack stack_push_stack [OF sym] split: if_splits)

definition treap_op_push_free_tree :: "treap_mem \<Rightarrow> treap_op \<Rightarrow> treap_node
    \<Rightarrow> u64 option \<times> treap_op \<times> treap_mem" where
  "treap_op_push_free_tree m op rt =
     (if rt = Null then (Some 0, op, m)
      else let (ok, s) = alloc (mem_script m); m' = m\<lparr>mem_script := s\<rparr>
        in if \<not> ok then (None, op, m') else push_free_loop m' op 64 [rt] 0)"

text \<open>The count is \<^verbatim>\<open>(treap_u64)-1\<close> on failure. Empty bounds are open.\<close>

definition treap_delete_range :: "treap_mem \<Rightarrow> treap \<Rightarrow> bytes \<Rightarrow> bytes \<Rightarrow> u64 \<times> treap \<times> treap_mem" where
  "treap_delete_range m t b e =
     (case (if b \<noteq> [] then treap_split m op_zero b (root t) else (Some (Null, root t), op_zero, m)) of
        (None, op1, m1) \<Rightarrow> (-1, snd (treap_fail t m1 op1))
      | (Some (L, M), op1, m1) \<Rightarrow>
     (case (if e \<noteq> [] then treap_split m1 op1 e M else (Some (M, Null), op1, m1)) of
        (None, op2, m2) \<Rightarrow> (-1, snd (treap_fail t m2 op2))
      | (Some (M', R), op2, m2) \<Rightarrow>
     (case treap_op_push_free_tree m2 op2 M' of
        (None, op3, m3) \<Rightarrow> (-1, snd (treap_fail t m3 op3))
      | (Some removed, op3, m3) \<Rightarrow>
     (case treap_merge m3 op3 L R of (merged, op4, m4) \<Rightarrow>
        if merged = Null \<and> (L \<noteq> Null \<or> R \<noteq> Null) then (-1, snd (treap_fail t m4 op4))
        else let t' = treap_publish_op t op4 merged 0
          in (removed, t'\<lparr>tr_live := (tr_live t')\<lparr>st_count := st_count (tr_live t') - removed\<rparr>\<rparr>, m4)))))"

subsection \<open>Queries\<close>

text \<open>Return codes: -1 for a bad argument, 0 for absence, 1 with the key and the value found.\<close>

fun node_value :: "treap_node \<Rightarrow> bytes" where
  "node_value Null = []"
| "node_value (Node a p s k v l r) = (case v of None \<Rightarrow> [] | Some (b, d) \<Rightarrow> d)"

definition treap_get :: "treap \<Rightarrow> bytes \<Rightarrow> int \<times> bytes" where
  "treap_get t key =
     (if key = [] then (-1, [])
      else let n = treap_find (root t) key in if n = Null then (0, []) else (1, node_value n))"

definition treap_exists :: "treap \<Rightarrow> bytes \<Rightarrow> int" where
  "treap_exists t key = (if key = [] then -1 else if treap_find (root t) key \<noteq> Null then 1 else 0)"

definition found :: "treap_node \<Rightarrow> (bytes \<times> bytes) option" where
  "found n = (if n = Null then None else Some (node_key n, node_value n))"

definition treap_min :: "treap \<Rightarrow> (bytes \<times> bytes) option" where
  "treap_min t = found (leftmost (root t))"

fun rightmost :: "treap_node \<Rightarrow> treap_node" where
  "rightmost Null = Null"
| "rightmost (Node a p s k v l r) = (if r = Null then Node a p s k v l r else rightmost r)"

definition treap_max :: "treap \<Rightarrow> (bytes \<times> bytes) option" where
  "treap_max t = found (rightmost (root t))"

definition treap_count :: "treap \<Rightarrow> u64" where
  "treap_count t = st_count (tr_live t)"

fun rank_loop :: "bytes \<Rightarrow> u64 \<Rightarrow> treap_node \<Rightarrow> u64" where
  "rank_loop key rank Null = rank"
| "rank_loop key rank (Node a p s k v l r) =
     (if treap_key_cmp k key < 0 then rank_loop key (rank + (node_size l + 1)) r else rank_loop key rank l)"

definition treap_rank :: "treap \<Rightarrow> bytes \<Rightarrow> u64" where
  "treap_rank t key = (if key = [] then 0 else rank_loop key 0 (root t))"

definition treap_count_range :: "treap \<Rightarrow> bytes \<Rightarrow> bytes \<Rightarrow> u64" where
  "treap_count_range t b e =
     (let rb = (if b \<noteq> [] then treap_rank t b else 0); re = (if e \<noteq> [] then treap_rank t e else st_count (tr_live t))
      in if re \<ge> rb then re - rb else 0)"

fun select_loop :: "u64 \<Rightarrow> treap_node \<Rightarrow> treap_node" where
  "select_loop index Null = Null"
| "select_loop index (Node a p s k v l r) =
     (let left_size = node_size l
      in if index < left_size then select_loop index l
         else if index = left_size then Node a p s k v l r
         else select_loop (index - (left_size + 1)) r)"

definition treap_select :: "treap \<Rightarrow> u64 \<Rightarrow> (bytes \<times> bytes) option" where
  "treap_select t index = found (select_loop index (root t))"

fun min_range_loop :: "bytes \<Rightarrow> treap_node \<Rightarrow> treap_node \<Rightarrow> treap_node" where
  "min_range_loop b best Null = best"
| "min_range_loop b best (Node a p s k v l r) =
     (if b \<noteq> [] \<and> treap_key_cmp k b < 0 then min_range_loop b best r
      else min_range_loop b (Node a p s k v l r) l)"

definition treap_min_range :: "treap \<Rightarrow> bytes \<Rightarrow> bytes \<Rightarrow> (bytes \<times> bytes) option" where
  "treap_min_range t b e =
     (let best = min_range_loop b Null (root t)
      in if best = Null then None
         else if e \<noteq> [] \<and> treap_key_cmp (node_key best) e \<ge> 0 then None else found best)"

fun max_range_loop :: "bytes \<Rightarrow> treap_node \<Rightarrow> treap_node \<Rightarrow> treap_node" where
  "max_range_loop e best Null = best"
| "max_range_loop e best (Node a p s k v l r) =
     (if e \<noteq> [] \<and> treap_key_cmp k e \<ge> 0 then max_range_loop e best l
      else max_range_loop e (Node a p s k v l r) r)"

definition treap_max_range :: "treap \<Rightarrow> bytes \<Rightarrow> bytes \<Rightarrow> (bytes \<times> bytes) option" where
  "treap_max_range t b e =
     (let best = max_range_loop e Null (root t)
      in if best = Null then None
         else if b \<noteq> [] \<and> treap_key_cmp (node_key best) b < 0 then None else found best)"

subsection \<open>Snapshots\<close>

definition treap_capture :: "treap \<Rightarrow> treap" where
  "treap_capture t =
     (let lv = tr_live t; sn = tr_snap t
      in t\<lparr>tr_snap := \<lparr>st_root = st_root lv, st_count = st_count lv, st_tree_bytes = st_tree_bytes lv,
              st_pending = st_pending sn @ st_pending lv,
              st_pending_count = st_pending_count sn + st_pending_count lv,
              st_pending_bytes = st_pending_bytes sn + st_pending_bytes lv\<rparr>,
           tr_live := lv\<lparr>st_pending := [], st_pending_count := 0, st_pending_bytes := 0\<rparr>\<rparr>)"

definition treap_save_finish :: "treap_mem \<Rightarrow> treap \<Rightarrow> treap \<times> treap_mem" where
  "treap_save_finish m t =
     (let (reclaimed, m') = treap_free_chain m (st_pending (tr_snap t)); lv = tr_live t;
          tb = (if reclaimed \<noteq> 0 then (if st_tree_bytes lv > reclaimed then st_tree_bytes lv - reclaimed else 0)
                else st_tree_bytes lv)
      in (t\<lparr>tr_live := lv\<lparr>st_tree_bytes := tb\<rparr>, tr_snap := st_zero\<rparr>, m'))"

subsection \<open>Transactions\<close>

definition treap_fork :: "treap_mem \<Rightarrow> treap \<Rightarrow> treap option \<times> treap_mem" where
  "treap_fork m t =
     (if tr_txn t then (None, m)
      else case treap_malloc m of (None, m') \<Rightarrow> (None, m')
        | (Some i, m') \<Rightarrow>
            (Some \<lparr>tr_id = i,
               tr_live = st_zero\<lparr>st_root := st_root (tr_live t), st_count := st_count (tr_live t),
                                 st_tree_bytes := st_tree_bytes (tr_live t)\<rparr>,
               tr_snap = st_zero, tr_seed = tr_seed t, tr_txn = True, tr_owner = Some (tr_id t), tr_op = op_zero\<rparr>, m'))"

definition treap_commit :: "treap \<Rightarrow> treap \<Rightarrow> int \<times> treap" where
  "treap_commit copy t =
     (if \<not> tr_txn copy \<or> tr_owner copy \<noteq> Some (tr_id t) then (-1, t)
      else let lv = tr_live t; op = tr_op copy;
               lv1 = (if op_free op \<noteq> []
                 then lv\<lparr>st_pending := op_free op @ st_pending lv,
                         st_pending_count := st_pending_count lv + op_free_count op,
                         st_pending_bytes := st_pending_bytes lv + op_free_bytes op\<rparr>
                 else lv)
        in (0, t\<lparr>tr_live := lv1\<lparr>st_root := st_root (tr_live copy), st_count := st_count (tr_live copy),
                                st_tree_bytes := st_tree_bytes (tr_live copy)\<rparr>\<rparr>))"

definition treap_abort :: "treap_mem \<Rightarrow> treap \<Rightarrow> treap_mem" where
  "treap_abort m copy = (if \<not> tr_txn copy then m else snd (treap_release_list False m (op_alloc (tr_op copy))))"

end
