(* ===== verification/Treap_Map.thy ===== *)
theory Treap_Map
  imports Treap
begin

section \<open>The store as an ordered map\<close>

text \<open>
  Laws of set, delete and range delete: on success the ordered entries change as a map would, the
  tree stays a search tree in heap order with correct sizes and hashed priorities, and the books
  of the operation balance; on failure nothing changed.
\<close>

subsection \<open>Composition of balanced steps\<close>

lemma op_run_cong:
  assumes "op_alloc op1 = op_alloc op2"
  shows "op_run m op m' op1 \<longleftrightarrow> op_run m op m' op2" "op_run m op1 m' op \<longleftrightarrow> op_run m op2 m' op"
  using assms by (simp_all add: op_run_def op_ext_def)

lemma balanced_trans:
  assumes "balanced op inp opm mid1" "balanced opm mid op2 out" "mset mid1 = x + mset mid" "mset out2 = x + mset out"
  shows "balanced op inp op2 out2"
proof -
  have a: "x + mset mid + mset (op_free opm) + mset (op_alloc op) = mset inp + mset (op_free op) + mset (op_alloc opm)"
    and b: "mset out + mset (op_free op2) + mset (op_alloc opm) = mset mid + mset (op_free opm) + mset (op_alloc op2)"
    using assms by (simp_all add: balanced_def)
  have "(x + mset out + mset (op_free op2) + mset (op_alloc op)) + mset (op_alloc opm)
      = x + mset (op_alloc op) + (mset out + mset (op_free op2) + mset (op_alloc opm))" by simp
  also have "\<dots> = (x + mset mid + mset (op_free opm) + mset (op_alloc op)) + mset (op_alloc op2)"
    by (simp add: b)
  also have "\<dots> = (mset inp + mset (op_free op) + mset (op_alloc op2)) + mset (op_alloc opm)"
    by (simp add: a)
  finally show ?thesis using assms by (simp add: balanced_def)
qed

lemma balanced_retire:
  assumes "balanced op inp op1 (a # out)"
  shows "balanced op inp (treap_op_push_free op1 a) out"
  using assms by (simp add: balanced_def treap_op_push_free_def algebra_simps)

lemma balanced_cong:
  assumes "op_alloc op1 = op_alloc op2" "op_free op1 = op_free op2" "op_free_count op1 = op_free_count op2"
  shows "balanced op inp op1 out \<longleftrightarrow> balanced op inp op2 out" "balanced op1 inp op out \<longleftrightarrow> balanced op2 inp op out"
  using assms by (simp_all add: balanced_def)

subsection \<open>Releasing without dereferencing\<close>

lemma release_list_plain: "snd (treap_release_list False m as) = m\<lparr>mem_nodes := mem_nodes m |` (- set as)\<rparr>"
proof (induction as arbitrary: m)
  case (Cons a as)
  have "mem_nodes m |` (- insert a (set as)) = ((mem_nodes m)(a := None)) |` (- set as)"
    by (rule ext) (simp add: restrict_map_def)
  with Cons show ?case by (simp add: treap_node_release_def Let_def case_prod_beta)
qed (simp add: restrict_map_def)

lemma mem_wf_fewer:
  assumes "mem_wf m" "\<And>a v. ns a = Some v \<Longrightarrow> mem_nodes m a = Some v"
  shows "mem_wf (m\<lparr>mem_nodes := ns\<rparr>)"
proof -
  have "holders (m\<lparr>mem_nodes := ns\<rparr>) b \<subseteq> holders m b" for b
    using assms(2) by (auto simp: holders_def)
  then have "card (holders (m\<lparr>mem_nodes := ns\<rparr>) b) \<le> card (holders m b)" for b
    by (rule card_mono [OF finite_holders [OF assms(1)]])
  moreover have "refs_of (m\<lparr>mem_nodes := ns\<rparr>) b = refs_of m b" for b by (simp add: refs_of_def)
  ultimately show ?thesis using assms by (fastforce simp: mem_wf_def intro: order_trans)
qed

text \<open>Discarding an operation gives back exactly the nodes there were; the blocks stay referenced.\<close>

lemma discard_restores:
  assumes "op_run m op_zero m' op" "mem_wf m"
  shows "mem_wf (snd (treap_op_discard m' op))" "mem_nodes (snd (treap_op_discard m' op)) = mem_nodes m"
    "mem_next m \<le> mem_next (snd (treap_op_discard m' op))"
proof -
  from assms(1) obtain new where n: "op_alloc op = new" "set new \<subseteq> {mem_next m..<mem_next m'}"
    "dom (mem_nodes m') = dom (mem_nodes m) \<union> set new"
    and keep: "\<forall>a<mem_next m. mem_nodes m' a = mem_nodes m a" and le: "mem_next m \<le> mem_next m'"
    by (auto simp: op_run_def op_ext_def op_zero_def)
  have eq: "mem_nodes m' |` (- set new) = mem_nodes m"
  proof (rule ext)
    fix a
    show "(mem_nodes m' |` (- set new)) a = mem_nodes m a"
    proof (cases "a < mem_next m")
      case True
      then show ?thesis using n(2) keep by (auto simp: restrict_map_def)
    next
      case False
      then have "mem_nodes m a = None" using assms(2) mem_wf_node by (metis not_Some_eq)
      moreover have "a \<notin> set new \<Longrightarrow> mem_nodes m' a = None" using n(3) calculation by (metis UnE domIff)
      ultimately show ?thesis by (simp add: restrict_map_def)
    qed
  qed
  have w: "mem_wf (m'\<lparr>mem_nodes := mem_nodes m' |` (- set new)\<rparr>)"
    by (rule mem_wf_fewer [OF op_run_wf [OF assms(1)]]) (simp add: restrict_map_def split: if_splits)
  show "mem_nodes (snd (treap_op_discard m' op)) = mem_nodes m"
    using eq n(1) by (simp add: treap_op_discard_def release_list_plain)
  show "mem_wf (snd (treap_op_discard m' op))" "mem_next m \<le> mem_next (snd (treap_op_discard m' op))"
    using w n(1) le by (simp_all add: treap_op_discard_def release_list_plain)
qed

subsection \<open>The first half of set and delete\<close>

lemma leftmost_key: "t \<noteq> Null \<Longrightarrow> node_key (leftmost t) = hd (keys t)"
  by (induction t) (auto split: if_splits)

lemma cut_mem:
  assumes "treap_cut m rt key = (res, op', m')" "mem_wf m" "held m rt"
  shows "op_run m op_zero m' op' \<and> (\<forall>L ex R. res = Some (L, ex, R) \<longrightarrow>
     held m' L \<and> held m' R \<and> balanced op_zero (addrs rt) op' (addrs L @ addrs R))"
proof -
  obtain sr op1 m1 where s: "treap_split m op_zero key rt = (sr, op1, m1)" by (metis prod_cases3)
  note sm = split_mem [OF s assms(2,3)]
  show ?thesis
  proof (cases sr)
    case None
    with assms(1) s sm show ?thesis by (simp add: treap_cut_def)
  next
    case (Some LR)
    then obtain L R where LR: "sr = Some (L, R)" by (cases LR) auto
    note sm = sm [THEN conjunct2, rule_format, OF LR] sm [THEN conjunct1]
    let ?ex = "R \<noteq> Null \<and> node_key (leftmost R) = key"
    show ?thesis
    proof (cases ?ex)
      case False
      with assms(1) s LR sm show ?thesis by (auto simp: treap_cut_def)
    next
      case True
      obtain rr op2 m2 where r: "remove_min_loop m1 op1 R = (rr, op2, m2)" by (metis prod_cases3)
      have rm: "op_run m1 op1 m2 op2 \<and> (\<forall>t' mn. rr = Some (t', mn) \<longrightarrow>
           held m2 t' \<and> mn \<noteq> Null \<and> balanced op1 (addrs R) op2 (addr mn # addrs t'))"
        by (rule remove_min_mem [OF r op_run_wf [OF sm(2)]]) (use sm True in auto)
      have run: "op_run m op_zero m2 op2" using op_run_trans [OF sm(2)] rm by blast
      show ?thesis
      proof (cases rr)
        case None
        with assms(1) s LR True r run show ?thesis by (auto simp: treap_cut_def treap_remove_min_def)
      next
        case (Some u)
        then obtain t' mn where u: "rr = Some (t', mn)" by (cases u) auto
        have "balanced op_zero (addrs rt) op2 (addr mn # addrs L @ addrs t')"
          by (rule balanced_trans [where opm = op1 and mid = "addrs R" and out = "addr mn # addrs t'" and x = "mset (addrs L)"])
             (use sm rm u in auto)
        then have "balanced op_zero (addrs rt) (treap_op_push_free op2 (addr mn)) (addrs L @ addrs t')"
          by (rule balanced_retire)
        moreover have "held m2 L" using op_run_held [of m1 op1 m2 op2 L] rm sm op_run_wf by blast
        moreover have "op_run m op_zero m2 (treap_op_push_free op2 (addr mn))"
          using run by (simp add: op_run_def op_ext_def treap_op_push_free_def)
        ultimately show ?thesis using assms(1) s LR True r u rm
          by (auto simp: treap_cut_def treap_remove_min_def)
      qed
    qed
  qed
qed


lemma sorted_hd: "sorted_wrt (<) (k # ks) \<Longrightarrow> x \<in> set ks \<Longrightarrow> k < x"
  by simp

definition part_ok :: "treap_node \<Rightarrow> bool" where
  "part_ok t \<longleftrightarrow> sized t \<and> heaped t \<and> valued t"

lemma tree_ok_part: "tree_ok seed t \<Longrightarrow> part_ok t"
  by (simp add: tree_ok_def part_ok_def)

lemma cut_cases:
  assumes "treap_cut m rt key = (Some (L, ex, R), op', m')"
  obtains (absent) "\<not> ex" "treap_split m op_zero key rt = (Some (L, R), op', m')"
      "R = Null \<or> node_key (leftmost R) \<noteq> key"
  | (present) R1 op1 m1 mn op2 where "ex" "treap_split m op_zero key rt = (Some (L, R1), op1, m1)"
      "R1 \<noteq> Null" "node_key (leftmost R1) = key" "remove_min_loop m1 op1 R1 = (Some (R, mn), op2, m')"
      "op_net op' = op_net op2"
  using assms
  by (auto simp: treap_cut_def treap_remove_min_def op_net_def treap_op_push_free_def
      split: prod.splits option.splits if_splits)

lemma cut_tree:
  assumes "treap_cut m rt key = (Some (L, ex, R), op', m')" "tree_ok seed rt"
  shows "\<exists>mid. entries rt = entries L @ mid @ entries R \<and> (if ex then map fst mid = [key] else mid = [])
      \<and> (\<forall>k\<in>set (keys L). k < key) \<and> (\<forall>k\<in>set (keys R). key < k) \<and> pkeys L \<union> pkeys R \<subseteq> pkeys rt
      \<and> part_ok L \<and> part_ok R \<and> op_net op' = (if ex then - of_nat (treap_node_bytes (length key)) else 0)"
proof -
  have sorted: "sorted_wrt (<) (keys rt)" using assms(2) by (simp add: tree_ok_def)
  have split: "entries L @ entries R1 = entries rt" "pkeys L \<union> pkeys R1 = pkeys rt" "part_ok L" "part_ok R1"
    "\<forall>k\<in>set (keys L). k < key" "\<forall>k\<in>set (keys R1). key \<le> k" "sorted_wrt (<) (keys R1)" "op_net op1 = 0"
    if s: "treap_split m op_zero key rt = (Some (L, R1), op1, m1)" for R1 op1 m1
  proof -
    note st = split_tree [OF s]
    show e: "entries L @ entries R1 = entries rt" "pkeys L \<union> pkeys R1 = pkeys rt" using st by simp_all
    show "part_ok L" "part_ok R1" using st assms(2) by (simp_all add: tree_ok_def part_ok_def)
    show "\<forall>k\<in>set (keys L). k < key" "\<forall>k\<in>set (keys R1). key \<le> k" using split_keys [OF s sorted] by simp_all
    show "sorted_wrt (<) (keys R1)" using sorted by (simp add: e(1) [symmetric] sorted_wrt_append)
    show "op_net op1 = 0" using split_net [OF s] by (simp add: op_net_def op_zero_def)
  qed
  from assms(1) show ?thesis
  proof (cases rule: cut_cases)
    case absent
    note sp = split [OF absent(2)]
    have "\<forall>k\<in>set (keys R). key < k"
    proof (cases "entries R")
      case (Cons e es)
      then have "R \<noteq> Null" by auto
      with absent(3) leftmost_key [of R] Cons have "fst e \<noteq> key" by simp
      with sp(6) Cons have k: "key < fst e" by (simp add: less_le)
      have "\<forall>k\<in>set (map fst es). fst e < k" using sp(7) Cons by simp
      with k show ?thesis unfolding Cons by (metis less_trans list.simps(9) set_ConsD)
    qed simp
    with sp absent(1) show ?thesis by (intro exI [of _ "[]"]) simp
  next
    case (present R1 op1 m1 mn op2)
    note sp = split [OF present(2)]
    from remove_min_tree [OF present(5,3)] obtain p k d where
      mn: "entries R1 = (k, d) # entries R" "pkeys R1 = insert (p, k) (pkeys R)"
      "op_net op2 = op_net op1 - of_nat (treap_node_bytes (length k))"
      "sized R1 \<longrightarrow> sized R" "heaped R1 \<longrightarrow> heaped R" "valued R1 \<longrightarrow> valued R"
      by blast
    have k: "k = key" using present(4) leftmost_key [OF present(3)] mn(1) by simp
    have "\<forall>x\<in>set (keys R). key < x" using sp(7) mn(1) k by simp
    moreover have "part_ok R" using mn(4-6) sp(4) by (simp add: part_ok_def)
    moreover have "entries rt = entries L @ [(key, d)] @ entries R"
      using sp(1) mn(1) k by simp
    moreover have "pkeys L \<union> pkeys R \<subseteq> pkeys rt" using sp(2) mn(2) by auto
    ultimately show ?thesis using sp(3,5,8) mn(3) present(1,6) k
      by (intro exI [of _ "[(key, d)]"]) simp
  qed
qed

subsection \<open>Set\<close>

lemma malloc_run:
  assumes "mem_wf m" "treap_malloc m = (r, m')"
  shows "op_run m op m' op"
  using mem_wf_malloc [OF assms] by (cases r) (auto simp: op_run_def op_ext_def)

lemma new_node_run:
  assumes "mem_wf m1" "treap_malloc m1 = (Some a, m2)"
    "treap_node_attach_value (m2\<lparr>mem_nodes := (mem_nodes m2)(a \<mapsto> None)\<rparr>) (treap_node_init a key pr) value = (ok, n, vb, m4)"
    "op_alloc op2 = a # op_alloc op1"
  shows "op_run m1 op1 m4 op2 \<and> (ok \<longrightarrow> held m4 n)"
proof -
  note ml = mem_wf_malloc [OF assms(1,2)]
  have a: "a = mem_next m1" "mem_next m2 = Suc a" using ml(4) by auto
  define m3 where "m3 = m2\<lparr>mem_nodes := (mem_nodes m2)(a \<mapsto> None)\<rparr>"
  have h3: "holders m3 b = holders m1 b" "refs_of m3 b = refs_of m1 b" for b
    using ml(2,3) mem_next_unheld [OF assms(1)] a by (auto simp: m3_def holders_def refs_of_def)
  have wf3: "mem_wf m3"
    using assms(1) ml(1-3) a h3 by (auto simp: mem_wf_def m3_def less_SucI)
  have ext3: "op_ext m1 op1 m3 op2" using a ml(2) assms(4) by (auto simp: op_ext_def m3_def)
  show ?thesis
  proof (cases "value = []")
    case True
    with assms(3) show ?thesis using wf3 ext3
      by (auto simp: treap_node_attach_value_def treap_node_init_def m3_def op_run_def)
  next
    case False
    obtain br m4' where mm: "treap_malloc m3 = (br, m4')" by (cases "treap_malloc m3") auto
    note m4 = mem_wf_malloc [OF wf3 mm]
    show ?thesis
    proof (cases br)
      case None
      have "m4 = m4'" "\<not> ok" using assms(3) False mm None
        by (auto simp: treap_node_attach_value_def treap_node_init_def m3_def [symmetric] treap_blob_create_def)
      moreover have "op_ext m1 op1 m4' op2" using ext3 m4(2,5) None by (simp add: op_ext_def)
      ultimately show ?thesis using m4(1) by (simp add: op_run_def)
    next
      case (Some b)
      have b: "b = mem_next m3" "mem_next m4' = Suc b" using m4(4) Some by auto
      let ?m = "m4'\<lparr>mem_blobs := (mem_blobs m4')(b \<mapsto> \<lparr>blob_refs = 1, blob_bytes = of_nat (BLOB_SIZE + length value)\<rparr>),
                 mem_nodes := (mem_nodes m4')(a \<mapsto> Some b)\<rparr>"
      have e: "m4 = ?m" "n = Node a pr 1 key (Some (b, value)) Null Null" using assms(3) False mm Some
        by (auto simp: treap_node_attach_value_def treap_node_init_def m3_def [symmetric] treap_blob_create_def)
      have "holders m3 b = {}" using fresh_unheld [OF wf3] mem_next_unheld [OF wf3] b(1) by simp
      then have "\<And>x. mem_nodes m3 x \<noteq> Some (Some b)" by (auto simp: holders_def)
      moreover have "mem_nodes m3 a = Some None" by (simp add: m3_def)
      ultimately have "holders ?m x = (if x = b then {a} else holders m3 x)" for x
        using m4(2) by (auto simp: holders_def)
      moreover have "refs_of ?m x = (if x = b then 1 else refs_of m3 x)" for x
        using m4(3) by (simp add: refs_of_def)
      ultimately have "card (holders ?m x) \<le> refs_of ?m x" for x using wf3 by (simp add: mem_wf_def)
      then have "mem_wf ?m" using wf3 m4(2,3) a b by (auto simp: mem_wf_def m3_def less_SucI)
      moreover have "op_ext m1 op1 ?m op2" using a b m4(2) ml(2) assms(4)
        by (auto simp: op_ext_def m3_def)
      ultimately show ?thesis by (simp add: e op_run_def)
    qed
  qed
qed

lemma fail_restores:
  assumes "treap_fail t m1 op = (rc, t', m')" "op_run m op_zero m1 op" "mem_wf m"
  shows "rc = -1 \<and> t' = t \<and> mem_wf m' \<and> mem_nodes m' = mem_nodes m \<and> mem_next m \<le> mem_next m'"
  using assms discard_restores [OF assms(2,3)] by (auto simp: treap_fail_def)

text \<open>A finished operation: the steps since \<open>m\<close>, the tree it built, and its balanced books.\<close>

definition op_result :: "treap_mem \<Rightarrow> treap_node \<Rightarrow> treap_mem \<Rightarrow> treap_op \<Rightarrow> treap_node \<Rightarrow> bool" where
  "op_result m rt m' op result \<longleftrightarrow> op_run m op_zero m' op \<and> held m' result \<and> balanced op_zero (addrs rt) op (addrs result)"

lemma treap_merge_loop:
  assumes "treap_merge m op L R = (t, op', m')"
  obtains (oom) "merge_loop m op L R = (None, op', m')" "t = Null" "L \<noteq> Null" "R \<noteq> Null"
  | (ok) "merge_loop m op L R = (Some t, op', m')"
  using assms by (cases L; cases R) (auto simp: treap_merge_def split: prod.splits option.splits)

lemma treap_merge_run:
  assumes "treap_merge m1 op1 L R = (t, op', m')" "op_run m op_zero m1 op1" "held m1 L" "held m1 R"
    "balanced op_zero inp op1 ((addrs L @ addrs R) @ x)"
  shows "op_run m op_zero m' op'"
    "t \<noteq> Null \<or> L = Null \<or> R = Null \<Longrightarrow> held m' t \<and> balanced op_zero inp op' (addrs t @ x)"
    "held m1 u \<Longrightarrow> held m' u"
proof -
  note wf1 = op_run_wf [OF assms(2)]
  obtain r where r: "merge_loop m1 op1 L R = (r, op', m')" using assms(1) by (cases rule: treap_merge_loop) auto
  note mm = merge_mem [OF r wf1 assms(3,4)]
  show "op_run m op_zero m' op'" using mm op_run_trans [OF assms(2)] by blast
  show "held m' u" if "held m1 u" using mm op_run_held wf1 that by blast
  assume nz: "t \<noteq> Null \<or> L = Null \<or> R = Null"
  from assms(1) show "held m' t \<and> balanced op_zero inp op' (addrs t @ x)"
  proof (cases rule: treap_merge_loop)
    case ok
    with r mm have "held m' t" "balanced op1 (addrs L @ addrs R) op' (addrs t)" by auto
    then show ?thesis using balanced_trans [OF assms(5), of "addrs L @ addrs R" op' "addrs t" "mset x" "addrs t @ x"] by simp
  qed (use nz in auto)
qed

text \<open>What every outcome of an update has: a failure left the store and the nodes alone.\<close>

definition untouched :: "treap_mem \<Rightarrow> treap \<Rightarrow> treap_mem \<Rightarrow> treap \<Rightarrow> bool" where
  "untouched m t m' t' \<longleftrightarrow> t' = t \<and> mem_wf m' \<and> mem_nodes m' = mem_nodes m \<and> mem_next m \<le> mem_next m'"

lemma fail_untouched:
  assumes "treap_fail t m1 op = (rc, t', m')" "op_run m op_zero m1 op" "mem_wf m"
  shows "rc = -1 \<and> untouched m t m' t'"
  using fail_restores [OF assms] by (simp add: untouched_def)

text \<open>The second half of set: two merges and the publication.\<close>

lemma set_tail_run:
  assumes "(case treap_merge m4 op2 n R of (mid, op3, m5) \<Rightarrow>
        if mid = Null then treap_fail t m5 op3
        else case treap_merge m5 op3 L mid of (result, op4, m6) \<Rightarrow>
          if result = Null then treap_fail t m6 op4
          else (0, treap_publish_op t op4 result d, m6)) = (rc, t', m')"
    "op_run m op_zero m4 op2" "mem_wf m" "held m4 n" "held m4 R" "held m4 L"
    "balanced op_zero (addrs (root t)) op2 ((addrs n @ addrs R) @ addrs L)"
  shows "(rc = -1 \<and> untouched m t m' t') \<or>
    (rc = 0 \<and> (\<exists>op result. t' = treap_publish_op t op result d \<and> op_result m (root t) m' op result))"
proof -
  obtain mid op3 m5 where g1: "treap_merge m4 op2 n R = (mid, op3, m5)" by (metis prod_cases3)
  note M1 = treap_merge_run [OF g1 assms(2,4,5,7)]
  obtain res op4 m6 where g2: "treap_merge m5 op3 L mid = (res, op4, m6)" by (metis prod_cases3)
  show ?thesis
  proof (cases "mid = Null")
    case True
    with g1 assms(1) fail_untouched [of t m5 op3 rc t' m', OF _ M1(1) assms(3)] show ?thesis by simp
  next
    case mid: False
    have h5: "held m5 mid" "balanced op_zero (addrs (root t)) op3 (addrs mid @ addrs L)" "held m5 L"
      using M1 mid assms(6) by auto
    have "balanced op_zero (addrs (root t)) op3 ((addrs L @ addrs mid) @ [])"
      using h5(2) by (simp add: balanced_def add.commute)
    note M2 = treap_merge_run [OF g2 M1(1) h5(3,1) this]
    show ?thesis
    proof (cases "res = Null")
      case True
      with g1 g2 assms(1) mid fail_untouched [of t m6 op4 rc t' m', OF _ M2(1) assms(3)] show ?thesis by simp
    next
      case False
      with g1 g2 assms(1) mid M2(1,2) show ?thesis by (auto simp: op_result_def)
    qed
  qed
qed

lemma attach_node:
  assumes "treap_node_attach_value m (treap_node_init a key pr) value = (ok, n, vb, m')" "ok"
  shows "\<exists>v. n = Node a pr 1 key v Null Null \<and> node_value n = value \<and> valued n"
  using assms by (auto simp: treap_node_attach_value_def treap_node_init_def split: if_splits option.splits prod.splits)

lemma set_run:
  assumes "treap_set m t key value = (rc, t', m')" "mem_wf m" "held m (root t)"
  shows "(rc = -1 \<and> untouched m t m' t') \<or>
    (rc = 0 \<and> (\<exists>op result d. t' = treap_publish_op t op result d \<and> op_result m (root t) m' op result))"
proof (cases "key = []")
  case True
  with assms show ?thesis by (simp add: treap_set_def untouched_def)
next
  case False
  obtain cr op1 m1 where c: "treap_cut m (root t) key = (cr, op1, m1)" by (metis prod_cases3)
  note cm = cut_mem [OF c assms(2,3)]
  note run1 = cm [THEN conjunct1] note wf1 = op_run_wf [OF run1]
  obtain ar m2 where ml: "treap_malloc m1 = (ar, m2)" by (cases "treap_malloc m1") auto
  note run2 = op_run_trans [OF run1 malloc_run [OF wf1 ml]]
  consider (oom) "treap_fail t m1 op1 = (rc, t', m') \<or> treap_fail t m2 op1 = (rc, t', m')"
    | (go) L ex R a where "cr = Some (L, ex, R)" "ar = Some a" "treap_node_bytes (length key) \<le> 0xffffffff"
    using assms(1) False c ml by (auto simp: treap_set_def Let_def not_less split: option.splits if_splits)
  then show ?thesis
  proof cases
    case oom
    then show ?thesis using fail_untouched run1 run2 assms(2) by blast
  next
    case (go L ex R a)
    with cm have h1: "held m1 L" "held m1 R" "balanced op_zero (addrs (root t)) op1 (addrs L @ addrs R)" by auto
    define op2 where "op2 = treap_op_push_alloc
        (op1\<lparr>op_alloc_bytes := op_alloc_bytes op1 + of_nat (treap_node_bytes (length key))\<rparr>) a"
    obtain ok n vb m4 where at: "treap_node_attach_value (m2\<lparr>mem_nodes := (mem_nodes m2)(a \<mapsto> None)\<rparr>)
          (treap_node_init a key (treap_hash (tr_seed t) key)) value = (ok, n, vb, m4)" by (metis prod_cases4)
    define op2' where "op2' = op2\<lparr>op_alloc_bytes := op_alloc_bytes op2 + vb\<rparr>"
    have al: "op_alloc op2 = a # op_alloc op1" "op_alloc op2' = a # op_alloc op1"
      by (simp_all add: op2_def op2'_def treap_op_push_alloc_def)
    have n4: "op_run m1 op1 m4 op2 \<and> (ok \<longrightarrow> held m4 n)" "op_run m1 op1 m4 op2'"
      using new_node_run [OF wf1 ml [unfolded go] at] al by auto
    then have run4: "op_run m op_zero m4 op2" "op_run m op_zero m4 op2'" using op_run_trans [OF run1] by auto
    have h4: "held m4 L" "held m4 R" using op_run_held n4(2) wf1 h1 by auto
    note unf = treap_set_def Let_def False c ml go(1,2) leD [OF go(3)] op2_def [symmetric] at
    show ?thesis
    proof (cases ok)
      case False
      with assms(1) go have "treap_fail t m4 op2 = (rc, t', m')" by (simp add: unf)
      with fail_untouched run4(1) assms(2) show ?thesis by blast
    next
      case True
      from attach_node [OF at True] True n4 have "addrs n = [a]" "held m4 n" by auto
      then have b2: "balanced op_zero (addrs (root t)) op2' ((addrs n @ addrs R) @ addrs L)"
        using h1(3) by (simp add: op2'_def op2_def treap_op_push_alloc_def balanced_def algebra_simps)
      have "(case treap_merge m4 op2' n R of (mid, op3, m5) \<Rightarrow> if mid = Null then treap_fail t m5 op3
        else case treap_merge m5 op3 L mid of (result, op4, m6) \<Rightarrow> if result = Null then treap_fail t m6 op4
          else (0, treap_publish_op t op4 result (if ex then 0 else 1), m6)) = (rc, t', m')"
        using assms(1) True by (simp add: unf op2'_def)
      from set_tail_run [OF this run4(2) assms(2) \<open>held m4 n\<close> h4(2,1) b2] show ?thesis by blast
    qed
  qed
qed

text \<open>A successful set in terms of the pieces it joined.\<close>

lemma set_pieces:
  assumes "treap_set m t key value = (rc, t', m')" "rc \<noteq> -1"
  obtains L ex R op1 m1 n m4 op2 mid op3 m5 result op4 a v where
    "key \<noteq> []" "treap_node_bytes (length key) \<le> 0xffffffff"
    "treap_cut m (root t) key = (Some (L, ex, R), op1, m1)"
    "n = Node a (treap_hash (tr_seed t) key) 1 key v Null Null" "node_value n = value" "valued n"
    "merge_loop m4 op2 n R = (Some mid, op3, m5)" "merge_loop m5 op3 L mid = (Some result, op4, m')"
    "t' = treap_publish_op t op4 result (if ex then 0 else 1)" "rc = 0"
proof -
  from assms obtain L ex R op1 m1 a m2 n vb m4 op2 mid op3 m5 res op4 m6 where
    p: "key \<noteq> []" "treap_node_bytes (length key) \<le> 0xffffffff"
    "treap_cut m (root t) key = (Some (L, ex, R), op1, m1)" "treap_malloc m1 = (Some a, m2)"
    "treap_node_attach_value (m2\<lparr>mem_nodes := (mem_nodes m2)(a \<mapsto> None)\<rparr>)
          (treap_node_init a key (treap_hash (tr_seed t) key)) value = (True, n, vb, m4)"
    "treap_merge m4 op2 n R = (mid, op3, m5)" "mid \<noteq> Null" "treap_merge m5 op3 L mid = (res, op4, m6)" "res \<noteq> Null"
    "rc = 0" "t' = treap_publish_op t op4 res (if ex then 0 else 1)" "m' = m6"
    by (auto simp: treap_set_def treap_fail_def Let_def not_less split: if_splits option.splits prod.splits bool.splits)
  have merged: "merge_loop ma opa A B = (Some x, opb, mb)" if "treap_merge ma opa A B = (x, opb, mb)" "x \<noteq> Null"
    for ma opa A B x opb mb
    using that by (cases rule: treap_merge_loop) auto
  from attach_node [OF p(5) TrueI] obtain v where "n = Node a (treap_hash (tr_seed t) key) 1 key v Null Null"
    "node_value n = value" "valued n" by blast
  with that p(1-3,10,11) merged [OF p(6,7)] merged [OF p(8,9)] p(12) show thesis by blast
qed

lemma publish_simps [simp]:
  "root (treap_publish_op t op rt d) = rt" "tr_seed (treap_publish_op t op rt d) = tr_seed t"
  "tr_txn (treap_publish_op t op rt d) = tr_txn t" "tr_snap (treap_publish_op t op rt d) = tr_snap t"
  "tr_owner (treap_publish_op t op rt d) = tr_owner t" "tr_id (treap_publish_op t op rt d) = tr_id t"
  "st_count (tr_live (treap_publish_op t op rt d)) = st_count (tr_live t) + (if d > 0 then 1 else if d < 0 then -1 else 0)"
  "st_tree_bytes (tr_live (treap_publish_op t op rt d)) = st_tree_bytes (tr_live t) + op_net op"
  by (simp_all add: treap_publish_op_def Let_def op_net_def)

subsection \<open>Entries as sorted lists\<close>

definition put :: "bytes \<Rightarrow> bytes \<Rightarrow> (bytes \<times> bytes) list \<Rightarrow> (bytes \<times> bytes) list" where
  "put k v es = filter (\<lambda>e. fst e < k) es @ (k, v) # filter (\<lambda>e. k < fst e) es"

definition in_range :: "bytes \<Rightarrow> bytes \<Rightarrow> bytes \<Rightarrow> bool" where
  "in_range b e k \<longleftrightarrow> (b = [] \<or> b \<le> k) \<and> (e = [] \<or> k < e)"

lemma filter_all: "(\<forall>x\<in>set xs. P x) \<Longrightarrow> filter P xs = xs"
  by simp

lemma filter_none: "(\<forall>x\<in>set xs. \<not> P x) \<Longrightarrow> filter P xs = []"
  by simp

lemma map_of_put: "map_of (put k v es) = (map_of es)(k \<mapsto> v)"
proof (rule ext)
  fix x
  have "map_of (filter (\<lambda>e. fst e < k) es) x = (if x < k then map_of es x else None)"
    "map_of (filter (\<lambda>e. k < fst e) es) x = (if k < x then map_of es x else None)"
    by (induction es) (auto split: if_splits)
  then show "map_of (put k v es) x = ((map_of es)(k \<mapsto> v)) x"
    by (auto simp: put_def map_add_def split: option.splits)
qed

lemma map_of_filter_key: "map_of (filter (\<lambda>e. P (fst e)) es) x = (if P x then map_of es x else None)"
  by (induction es) auto

text \<open>The pieces of a cut, as filters of the entries.\<close>

lemma cut_filters:
  assumes "entries rt = entries L @ mid @ entries R" "if ex then map fst mid = [key] else mid = []"
    "\<forall>k\<in>set (keys L). k < key" "\<forall>k\<in>set (keys R). key < k"
  shows "filter (\<lambda>e. fst e < key) (entries rt) = entries L" "filter (\<lambda>e. key < fst e) (entries rt) = entries R"
    "filter (\<lambda>e. fst e \<noteq> key) (entries rt) = entries L @ entries R" "ex \<longleftrightarrow> key \<in> set (keys rt)"
proof -
  have m: "\<forall>x\<in>set mid. fst x = key" using assms(2) by (auto split: if_splits simp: map_eq_Cons_conv)
  have L: "\<forall>x\<in>set (entries L). fst x < key" and R: "\<forall>x\<in>set (entries R). key < fst x" using assms(3,4) by auto
  show "filter (\<lambda>e. fst e < key) (entries rt) = entries L"
    using m L R by (auto simp: assms(1) intro!: filter_all filter_none dest!: bspec)
  show "filter (\<lambda>e. key < fst e) (entries rt) = entries R"
    using m L R by (auto simp: assms(1) intro!: filter_all filter_none dest!: bspec)
  show "filter (\<lambda>e. fst e \<noteq> key) (entries rt) = entries L @ entries R"
  proof -
    have "filter (\<lambda>e. fst e \<noteq> key) (entries L) = entries L" "filter (\<lambda>e. fst e \<noteq> key) (entries R) = entries R"
      using L R by (auto intro!: filter_all)
    then show ?thesis using m by (simp add: assms(1) filter_none)
  qed
  show "ex \<longleftrightarrow> key \<in> set (keys rt)"
    using assms(2-4) by (auto simp: assms(1) split: if_splits)
qed

subsection \<open>Joining parts\<close>

definition keyed :: "u64 \<Rightarrow> treap_node \<Rightarrow> bool" where
  "keyed seed t \<longleftrightarrow> (\<forall>(p, k)\<in>pkeys t. p = treap_hash seed k \<and> k \<noteq> [] \<and> treap_node_bytes (length k) \<le> 0xffffffff)"

lemma tree_ok_parts: "tree_ok seed t \<longleftrightarrow> sorted_wrt (<) (keys t) \<and> part_ok t \<and> keyed seed t"
  by (auto simp: tree_ok_def part_ok_def keyed_def)

lemma join_ok:
  assumes "merge_loop m op L R = (Some t, op', m')" "part_ok L" "part_ok R" "set (keys L) \<inter> set (keys R) = {}"
  shows "part_ok t" "entries t = entries L @ entries R" "pkeys t = pkeys L \<union> pkeys R"
  using merge_tree [OF assms(1)] merge_heap [OF assms(1)] assms(2-4) snd_pkeys [of L] snd_pkeys [of R]
  by (simp_all add: part_ok_def)

lemma merge_net: "merge_loop m op L R = (Some t, op', m') \<Longrightarrow> op_net op' = op_net op"
proof (induction m op L R arbitrary: t op' m' rule: merge_loop.induct)
  case (3 m op a p s k v l r a2 p2 s2 k2 v2 l2 r2)
  from 3(3) show ?case
  proof (cases rule: merge_Node)
    case (left a' op1 m1 u)
    then obtain u' where u: "u = Some u'" by (cases u) auto
    have "0 < treap_priority_cmp p k p2 k2" using left(2) by simp
    from 3(1) [OF this left(1) [symmetric] refl refl left(3) [unfolded u]] clone_net [OF left(1)] show ?thesis by simp
  next
    case (right a' op1 m1 u)
    then obtain u' where u: "u = Some u'" by (cases u) auto
    have "\<not> 0 < treap_priority_cmp p k p2 k2" using right(2) by simp
    from 3(2) [OF this right(1) [symmetric] refl refl right(3) [unfolded u]] clone_net [OF right(1)] show ?thesis by simp
  qed simp_all
qed auto

lemma set_tree:
  assumes "treap_set m t key value = (rc, t', m')" "rc \<noteq> -1" "tree_ok (tr_seed t) (root t)"
  shows "tree_ok (tr_seed t) (root t')" "entries (root t') = put key value (entries (root t))"
    "st_count (tr_live t') = st_count (tr_live t) + (if key \<in> set (keys (root t)) then 0 else 1)"
    "tr_seed t' = tr_seed t" "tr_snap t' = tr_snap t" "tr_txn t' = tr_txn t" "tr_owner t' = tr_owner t" "tr_id t' = tr_id t"
    "key \<noteq> []"
proof -
  from set_pieces [OF assms(1,2)] obtain L ex R op1 m1 n m4 op2 mid op3 m5 result op4 a v where
    p: "key \<noteq> []" "treap_node_bytes (length key) \<le> 0xffffffff"
    "treap_cut m (root t) key = (Some (L, ex, R), op1, m1)"
    and n: "n = Node a (treap_hash (tr_seed t) key) 1 key v Null Null" "node_value n = value" "valued n"
    and g: "merge_loop m4 op2 n R = (Some mid, op3, m5)" "merge_loop m5 op3 L mid = (Some result, op4, m')"
    and t': "t' = treap_publish_op t op4 result (if ex then 0 else 1)" "rc = 0" .
  from cut_tree [OF p(3) assms(3)] obtain m0 where c: "entries (root t) = entries L @ m0 @ entries R"
    "if ex then map fst m0 = [key] else m0 = []" "\<forall>k\<in>set (keys L). k < key" "\<forall>k\<in>set (keys R). key < k"
    "pkeys L \<union> pkeys R \<subseteq> pkeys (root t)" "part_ok L" "part_ok R" by blast
  note f = cut_filters [OF c(1-4)]
  have en: "entries n = [(key, value)]" "pkeys n = {(treap_hash (tr_seed t) key, key)}" "part_ok n"
    using n by (auto simp: part_ok_def split: option.splits)
  have "set (keys n) \<inter> set (keys R) = {}" using c(4) en by auto
  note j1 = join_ok [OF g(1) en(3) c(7) this]
  have "set (keys L) \<inter> set (keys mid) = {}" using c(3,4) j1(2) en(1) by fastforce
  note j2 = join_ok [OF g(2) c(6) j1(1) this]
  have e: "entries result = entries L @ (key, value) # entries R" using j2(2) j1(2) en(1) by simp
  show ent: "entries (root t') = put key value (entries (root t))" by (simp add: t' put_def f e)
  have "sorted_wrt (<) (keys (root t))" using assms(3) by (simp add: tree_ok_def)
  then have "sorted_wrt (<) (keys L)" "sorted_wrt (<) (keys R)" using c(1) by (simp_all add: sorted_wrt_append)
  then have "sorted_wrt (<) (keys result)"
    using c(3,4) less_trans by (fastforce simp: e sorted_wrt_append)
  moreover have "keyed (tr_seed t) result"
    using assms(3) c(5) j2(3) j1(3) en(2) p(1,2) by (auto simp: tree_ok_parts keyed_def)
  ultimately show "tree_ok (tr_seed t) (root t')" using j2(1) by (simp add: tree_ok_parts t')
  show "st_count (tr_live t') = st_count (tr_live t) + (if key \<in> set (keys (root t)) then 0 else 1)"
    using f(4) by (simp add: t')
  show "tr_seed t' = tr_seed t" "tr_snap t' = tr_snap t" "tr_txn t' = tr_txn t" "tr_owner t' = tr_owner t"
    "tr_id t' = tr_id t" by (simp_all add: t')
  show "key \<noteq> []" by (rule p(1))
qed

end
