(* ===== verification/Treap_Del.thy ===== *)
theory Treap_Del
  imports Treap_Map
begin

section \<open>Deletion and range deletion\<close>

text \<open>
  The laws of \<^verbatim>\<open>treap_delete\<close> and \<^verbatim>\<open>treap_delete_range\<close>, in the shape of those of
  \<^verbatim>\<open>treap_set\<close>: what happens to memory and books on every branch, and to the entries on success.
\<close>

subsection \<open>Delete\<close>

lemma delete_run:
  assumes "treap_delete m t key = (rc, t', m')" "mem_wf m" "held m (root t)"
  shows "(rc \<in> {-1, 0} \<and> untouched m t m' t') \<or>
    (rc = 1 \<and> (\<exists>op result. t' = treap_publish_op t op result (-1) \<and> op_result m (root t) m' op result))"
proof (cases "key = []")
  case True
  with assms show ?thesis by (simp add: treap_delete_def untouched_def)
next
  case False
  obtain cr op1 m1 where c: "treap_cut m (root t) key = (cr, op1, m1)" by (metis prod_cases3)
  note cm = cut_mem [OF c assms(2,3)]
  note run1 = cm [THEN conjunct1]
  show ?thesis
  proof (cases cr)
    case None
    with assms(1) c False fail_untouched [OF _ run1 assms(2), of t rc t' m'] show ?thesis by (simp add: treap_delete_def)
  next
    case (Some lr)
    then obtain L ex R where lr: "cr = Some (L, ex, R)" by (cases lr) auto
    with cm have h1: "held m1 L" "held m1 R" "balanced op_zero (addrs (root t)) op1 ((addrs L @ addrs R) @ [])" by auto
    obtain res op2 m2 where g: "treap_merge m1 op1 L R = (res, op2, m2)" by (metis prod_cases3)
    note M = treap_merge_run [OF g run1 h1]
    show ?thesis
    proof (cases ex)
      case False
      with assms(1) c lr \<open>key \<noteq> []\<close> discard_restores [OF run1 assms(2)] show ?thesis
        by (auto simp: treap_delete_def untouched_def)
    next
      case True
      show ?thesis
      proof (cases "res = Null \<and> L \<noteq> Null \<and> R \<noteq> Null")
        case True
        with assms(1) c lr \<open>key \<noteq> []\<close> \<open>ex\<close> g fail_untouched [OF _ M(1) assms(2), of t rc t' m'] show ?thesis
          by (simp add: treap_delete_def)
      next
        case False
        with assms(1) c lr \<open>key \<noteq> []\<close> \<open>ex\<close> g M(1,2) show ?thesis by (auto simp: treap_delete_def op_result_def)
      qed
    qed
  qed
qed

lemma delete_pieces:
  assumes "treap_delete m t key = (rc, t', m')" "rc \<noteq> -1"
  obtains (absent) L R op1 m1 where "key \<noteq> []" "treap_cut m (root t) key = (Some (L, False, R), op1, m1)" "rc = 0" "t' = t"
  | (present) L R op1 m1 result op2 where "key \<noteq> []" "treap_cut m (root t) key = (Some (L, True, R), op1, m1)"
      "merge_loop m1 op1 L R = (Some result, op2, m')" "rc = 1" "t' = treap_publish_op t op2 result (-1)"
proof -
  from assms obtain L ex R op1 m1 where p: "key \<noteq> []" "treap_cut m (root t) key = (Some (L, ex, R), op1, m1)"
    by (auto simp: treap_delete_def treap_fail_def split: if_splits option.splits prod.splits)
  obtain res op2 m2 where g: "treap_merge m1 op1 L R = (res, op2, m2)" by (metis prod_cases3)
  show thesis
  proof (cases ex)
    case False
    with that(1) p assms show ?thesis by (auto simp: treap_delete_def)
  next
    case True
    with p assms g have e: "\<not> (res = Null \<and> L \<noteq> Null \<and> R \<noteq> Null)" "rc = 1" "t' = treap_publish_op t op2 res (-1)" "m' = m2"
      by (auto simp: treap_delete_def treap_fail_def split: if_splits)
    from g e(1) have "merge_loop m1 op1 L R = (Some res, op2, m2)" by (cases rule: treap_merge_loop) auto
    with that(2) p e True show ?thesis by auto
  qed
qed

lemma delete_tree:
  assumes "treap_delete m t key = (rc, t', m')" "rc \<noteq> -1" "tree_ok (tr_seed t) (root t)"
  shows "tree_ok (tr_seed t) (root t')" "entries (root t') = filter (\<lambda>e. fst e \<noteq> key) (entries (root t))"
    "rc = (if key \<in> set (keys (root t)) then 1 else 0)"
    "st_count (tr_live t') = st_count (tr_live t) - (if key \<in> set (keys (root t)) then 1 else 0)"
    "tr_seed t' = tr_seed t" "tr_snap t' = tr_snap t" "tr_txn t' = tr_txn t" "tr_owner t' = tr_owner t" "tr_id t' = tr_id t"
    "key \<noteq> []"
proof -
  have "tree_ok (tr_seed t) (root t') \<and> entries (root t') = filter (\<lambda>e. fst e \<noteq> key) (entries (root t))
    \<and> rc = (if key \<in> set (keys (root t)) then 1 else 0)
    \<and> st_count (tr_live t') = st_count (tr_live t) - (if key \<in> set (keys (root t)) then 1 else 0)
    \<and> tr_seed t' = tr_seed t \<and> tr_snap t' = tr_snap t \<and> tr_txn t' = tr_txn t \<and> tr_owner t' = tr_owner t
    \<and> tr_id t' = tr_id t \<and> key \<noteq> []"
    using assms(1,2)
  proof (cases rule: delete_pieces)
    case (absent L R op1 m1)
    from cut_tree [OF absent(2) assms(3)] obtain m0 where "entries (root t) = entries L @ m0 @ entries R"
      "if False then map fst m0 = [key] else m0 = []" "\<forall>k\<in>set (keys L). k < key" "\<forall>k\<in>set (keys R). key < k" by blast
    from cut_filters(3,4) [OF this] this absent assms(3) show ?thesis by simp
  next
    case (present L R op1 m1 result op2)
    from cut_tree [OF present(2) assms(3)] obtain m0 where c: "entries (root t) = entries L @ m0 @ entries R"
      "if True then map fst m0 = [key] else m0 = []" "\<forall>k\<in>set (keys L). k < key" "\<forall>k\<in>set (keys R). key < k"
      "pkeys L \<union> pkeys R \<subseteq> pkeys (root t)" "part_ok L" "part_ok R" by blast
    note f = cut_filters [OF c(1-4)]
    have "set (keys L) \<inter> set (keys R) = {}" using c(3,4) by (meson disjoint_iff order.asym)
    note j = join_ok [OF present(3) c(6,7) this]
    have "sorted_wrt (<) (keys result)"
      using assms(3) c(1) j(2) by (simp add: tree_ok_def sorted_wrt_append)
    moreover have "keyed (tr_seed t) result" using assms(3) c(5) j(3) by (auto simp: tree_ok_parts keyed_def)
    ultimately show ?thesis using j(1,2) f(3,4) present by (simp add: tree_ok_parts)
  qed
  then show "tree_ok (tr_seed t) (root t')" "entries (root t') = filter (\<lambda>e. fst e \<noteq> key) (entries (root t))"
    "rc = (if key \<in> set (keys (root t)) then 1 else 0)"
    "st_count (tr_live t') = st_count (tr_live t) - (if key \<in> set (keys (root t)) then 1 else 0)"
    "tr_seed t' = tr_seed t" "tr_snap t' = tr_snap t" "tr_txn t' = tr_txn t" "tr_owner t' = tr_owner t" "tr_id t' = tr_id t"
    "key \<noteq> []" by blast+
qed

subsection \<open>Retiring a subtree\<close>

lemma stack_push_mem:
  assumes "stack_push m cap st n = (r, m')"
  shows "mem_nodes m' = mem_nodes m" "mem_blobs m' = mem_blobs m" "mem_next m' = mem_next m"
    "r = Some (cap', st') \<Longrightarrow> st' = n # st"
  using assms by (auto simp: stack_push_def stack_room_def Let_def split: if_splits option.splits prod.splits)

definition same_heap :: "treap_mem \<Rightarrow> treap_mem \<Rightarrow> bool" where
  "same_heap m m' \<longleftrightarrow> mem_nodes m' = mem_nodes m \<and> mem_blobs m' = mem_blobs m \<and> mem_next m' = mem_next m"

lemma same_heap_simps:
  "same_heap m m' \<Longrightarrow> mem_wf m' \<longleftrightarrow> mem_wf m" "same_heap m m' \<Longrightarrow> held m' t \<longleftrightarrow> held m t"
  "same_heap m m' \<Longrightarrow> op_run m0 op m' op' \<longleftrightarrow> op_run m0 op m op'"
  by (auto simp: same_heap_def mem_wf_def holders_def refs_of_def held_def op_run_def op_ext_def)

lemma same_heap_trans: "same_heap m m1 \<Longrightarrow> same_heap m1 m2 \<Longrightarrow> same_heap m m2"
  by (simp add: same_heap_def)

lemma push_free_Node:
  assumes "push_free_loop m op cap (Node a p s k v l r # stack) n = (res, op', m')"
  obtains (oom) "res = None" "op_alloc op' = op_alloc op" "same_heap m m'"
  | (go) cap2 m2 where "same_heap m m2"
     "push_free_loop m2 (treap_op_push_free (op\<lparr>op_free_bytes := op_free_bytes op + of_nat (treap_node_bytes (length k))\<rparr>) a)
        cap2 ((if l = Null then [] else [l]) @ (if r = Null then [] else [r]) @ stack) (n + 1) = (res, op', m')"
proof -
  let ?op = "treap_op_push_free (op\<lparr>op_free_bytes := op_free_bytes op + of_nat (treap_node_bytes (length k))\<rparr>) a"
  obtain r1 m1 where p1: "(if r \<noteq> Null then stack_push m cap stack r else (Some (cap, stack), m)) = (r1, m1)" by fastforce
  have s1: "same_heap m m1" "r1 = Some (c1, st1) \<Longrightarrow> st1 = (if r = Null then [] else [r]) @ stack" for c1 st1
    using p1 stack_push_mem(1-3) [of m cap stack r r1 m1] stack_push_mem(4) [of m cap stack r r1 m1 c1 st1] by (auto simp: same_heap_def split: if_splits)
  show thesis
  proof (cases r1)
    case None
    with assms p1 s1(1) show ?thesis by (intro that(1)) (auto simp: Let_def treap_op_push_free_def)
  next
    case (Some cs)
    then obtain c1 st1 where c1: "r1 = Some (c1, st1)" by (cases cs) auto
    obtain r2 m2 where p2: "(if l \<noteq> Null then stack_push m1 c1 st1 l else (Some (c1, st1), m1)) = (r2, m2)" by fastforce
    have s2: "same_heap m1 m2" "r2 = Some (c2, st2) \<Longrightarrow> st2 = (if l = Null then [] else [l]) @ st1" for c2 st2
      using p2 stack_push_mem(1-3) [of m1 c1 st1 l r2 m2] stack_push_mem(4) [of m1 c1 st1 l r2 m2 c2 st2] by (auto simp: same_heap_def split: if_splits)
    note sh = same_heap_trans [OF s1(1) s2(1)]
    show ?thesis
    proof (cases r2)
      case None
      with assms p1 c1 p2 sh show ?thesis by (intro that(1)) (auto simp: Let_def treap_op_push_free_def)
    next
      case (Some cs)
      then obtain c2 st2 where c2: "r2 = Some (c2, st2)" by (cases cs) auto
      with assms p1 c1 p2 have "push_free_loop m2 ?op c2 st2 (n + 1) = (res, op', m')" by (simp add: Let_def)
      with s1(2) [OF c1] s2(2) [OF c2] show ?thesis by (intro that(2) [OF sh]) simp
    qed
  qed
qed

definition nbytes :: "(bytes \<times> bytes) list \<Rightarrow> u64" where
  "nbytes es = sum_list (map (\<lambda>e. of_nat (treap_node_bytes (length (fst e)))) es)"

lemma nbytes_simps [simp]: "nbytes [] = 0" "nbytes (x # xs) = of_nat (treap_node_bytes (length (fst x))) + nbytes xs"
  "nbytes (xs @ ys) = nbytes xs + nbytes ys"
  by (simp_all add: nbytes_def)

lemma push_free_loop_spec:
  assumes "push_free_loop m op cap st n = (res, op', m')"
  shows "same_heap m m' \<and> op_alloc op' = op_alloc op \<and> (\<forall>c. res = Some c \<longrightarrow>
     balanced op (concat (map addrs st)) op' [] \<and> c = n + of_nat (length (concat (map entries st)))
     \<and> op_net op' = op_net op - nbytes (concat (map entries st)))"
  using assms
proof (induction "2 * nodes st + length st" arbitrary: m op cap st n rule: less_induct)
  case less
  show ?case
  proof (cases st)
    case Nil
    with less.prems show ?thesis by (auto simp: same_heap_def)
  next
    case (Cons t st')
    show ?thesis
    proof (cases t)
      case Null
      with less.prems Cons have "push_free_loop m op cap st' n = (res, op', m')" by simp
      from less.hyps [OF _ this] Cons Null show ?thesis by simp
    next
      case (Node a p s k v l r)
      let ?op = "treap_op_push_free (op\<lparr>op_free_bytes := op_free_bytes op + of_nat (treap_node_bytes (length k))\<rparr>) a"
      let ?st = "(if l = Null then [] else [l]) @ (if r = Null then [] else [r]) @ st'"
      from less.prems [unfolded Cons Node] show ?thesis
      proof (cases rule: push_free_Node)
        case oom
        then show ?thesis by simp
      next
        case (go cap2 m2)
        have lt: "2 * nodes ?st + length ?st < 2 * nodes st + length st" using Cons Node by simp
        note IH = less.hyps [OF lt go(2)]
        have c: "mset (concat (map addrs ?st)) = mset (addrs l) + mset (addrs r) + mset (concat (map addrs st'))"
          "length (concat (map entries ?st)) = length (entries l) + length (entries r) + length (concat (map entries st'))"
          "nbytes (concat (map entries ?st)) = nbytes (entries l) + nbytes (entries r) + nbytes (concat (map entries st'))"
          by auto
        have "balanced ?op (concat (map addrs ?st)) op' [] \<Longrightarrow> balanced op (concat (map addrs st)) op' []"
          unfolding balanced_def Cons Node c(1)
          by (simp add: treap_op_push_free_def algebra_simps)
        moreover have "op_net ?op = op_net op - of_nat (treap_node_bytes (length k))" "op_alloc ?op = op_alloc op"
          by (simp_all add: op_net_def treap_op_push_free_def)
        ultimately show ?thesis using IH c(2,3) same_heap_trans [OF go(1)]
          by (simp add: Cons Node) (auto simp: algebra_simps)
      qed
    qed
  qed
qed

lemma push_free_tree_spec:
  assumes "treap_op_push_free_tree m op t = (res, op', m')"
  shows "same_heap m m'" "op_alloc op' = op_alloc op"
    "res = Some c \<Longrightarrow> balanced op (addrs t) op' [] \<and> c = of_nat (length (entries t)) \<and> op_net op' = op_net op - nbytes (entries t)"
proof -
  have "same_heap m m' \<and> op_alloc op' = op_alloc op \<and> (\<forall>c. res = Some c \<longrightarrow>
    balanced op (addrs t) op' [] \<and> c = of_nat (length (entries t)) \<and> op_net op' = op_net op - nbytes (entries t))"
  proof (cases "t = Null \<or> \<not> fst (alloc (mem_script m))")
    case True
    with assms show ?thesis
      by (auto simp: treap_op_push_free_tree_def same_heap_def Let_def split: if_splits prod.splits)
  next
    case False
    then obtain m1 where "push_free_loop m1 op 64 [t] 0 = (res, op', m')" "same_heap m m1"
      using assms by (auto simp: treap_op_push_free_tree_def same_heap_def Let_def split: if_splits prod.splits)
    from push_free_loop_spec [OF this(1)] same_heap_trans [OF this(2)] show ?thesis by simp
  qed
  then show "same_heap m m'" "op_alloc op' = op_alloc op"
    "res = Some c \<Longrightarrow> balanced op (addrs t) op' [] \<and> c = of_nat (length (entries t)) \<and> op_net op' = op_net op - nbytes (entries t)"
    by auto
qed

subsection \<open>Range delete\<close>

text \<open>The optional splits at the two bounds, in the shape of a split.\<close>

definition split_low :: "treap_mem \<Rightarrow> treap_op \<Rightarrow> bytes \<Rightarrow> treap_node
    \<Rightarrow> (treap_node \<times> treap_node) option \<times> treap_op \<times> treap_mem" where
  "split_low m op b t = (if b \<noteq> [] then treap_split m op b t else (Some (Null, t), op, m))"

definition split_high :: "treap_mem \<Rightarrow> treap_op \<Rightarrow> bytes \<Rightarrow> treap_node
    \<Rightarrow> (treap_node \<times> treap_node) option \<times> treap_op \<times> treap_mem" where
  "split_high m op e t = (if e \<noteq> [] then treap_split m op e t else (Some (t, Null), op, m))"

lemma bound_split_mem:
  assumes "split_low m op b t = (res, op', m') \<or> split_high m op b t = (res, op', m')" "mem_wf m" "held m t"
  shows "op_run m op m' op' \<and> (\<forall>L R. res = Some (L, R) \<longrightarrow>
     held m' L \<and> held m' R \<and> balanced op (addrs t) op' (addrs L @ addrs R) \<and> op_net op' = op_net op)"
  using assms split_mem [of m op b t res op' m']
  by (auto simp: split_low_def split_high_def split: if_splits)

lemma bound_split_tree:
  assumes "split_low m op b t = (Some (L, R), op', m') \<or> split_high m op b t = (Some (L, R), op', m')"
  shows "entries L @ entries R = entries t \<and> pkeys L \<union> pkeys R = pkeys t \<and> (part_ok t \<longrightarrow> part_ok L \<and> part_ok R)"
  using assms split_tree [of m op b t L R op' m']
  by (auto simp: split_low_def split_high_def part_ok_def split: if_splits)

lemma split_low_keys:
  assumes "split_low m op b t = (Some (L, R), op', m')" "sorted_wrt (<) (keys t)"
  shows "\<forall>x\<in>set (entries L). b \<noteq> [] \<and> fst x < b" "\<forall>x\<in>set (entries R). b = [] \<or> b \<le> fst x"
  using assms split_keys [of m op b t L R op' m'] by (auto simp: split_low_def split: if_splits)

lemma split_high_keys:
  assumes "split_high m op e t = (Some (L, R), op', m')" "sorted_wrt (<) (keys t)"
  shows "\<forall>x\<in>set (entries L). e = [] \<or> fst x < e" "\<forall>x\<in>set (entries R). e \<noteq> [] \<and> e \<le> fst x"
  using assms split_keys [of m op e t L R op' m'] by (auto simp: split_high_def split: if_splits)

lemma delete_range_cases:
  assumes "treap_delete_range m t b e = (rc, t', m')"
  obtains (fail) "rc = -1"
  | (go) L M op1 m1 M' R op2 m2 op3 m3 merged op4 n where
      "split_low m op_zero b (root t) = (Some (L, M), op1, m1)" "split_high m1 op1 e M = (Some (M', R), op2, m2)"
      "treap_op_push_free_tree m2 op2 M' = (Some n, op3, m3)" "treap_merge m3 op3 L R = (merged, op4, m')"
      "merged \<noteq> Null \<or> L = Null \<and> R = Null" "rc = n"
      "t' = (treap_publish_op t op4 merged 0)\<lparr>tr_live := (tr_live (treap_publish_op t op4 merged 0))
         \<lparr>st_count := st_count (tr_live (treap_publish_op t op4 merged 0)) - n\<rparr>\<rparr>"
  using assms unfolding treap_delete_range_def split_low_def [symmetric] split_high_def [symmetric]
  by (auto simp: Let_def split: prod.splits option.splits if_splits)

text \<open>
  Failure is reported as \<open>-1\<close>; the store is then untouched. Otherwise the operation is a
  published result whose counter is then reduced by the number of keys removed.
\<close>

lemma delete_range_run:
  assumes "treap_delete_range m t b e = (rc, t', m')" "mem_wf m" "held m (root t)"
  shows "(rc = -1 \<and> untouched m t m' t') \<or>
    (\<exists>op result. t' = (treap_publish_op t op result 0)\<lparr>tr_live := (tr_live (treap_publish_op t op result 0))
         \<lparr>st_count := st_count (tr_live (treap_publish_op t op result 0)) - rc\<rparr>\<rparr> \<and> op_result m (root t) m' op result \<and> (\<exists>n\<le>length (entries (root t)). rc = of_nat n))"
proof -
  obtain r1 op1 m1 where s1: "split_low m op_zero b (root t) = (r1, op1, m1)" by (metis prod_cases3)
  note B1 = bound_split_mem [OF disjI1 [OF s1] assms(2,3)]
  note run1 = B1 [THEN conjunct1]
  note unf = treap_delete_range_def split_low_def [symmetric] split_high_def [symmetric] s1
  have failed: "rc = -1 \<and> untouched m t m' t'"
    if "(rc, t', m') = (-1, snd (treap_fail t mx op))" "op_run m op_zero mx op" for mx op
    using that fail_untouched [OF _ that(2) assms(2), of t _ t' m'] by (auto simp: treap_fail_def)
  show ?thesis
  proof (cases r1)
    case None
    with assms(1) failed [of m1 op1] run1 show ?thesis by (simp add: unf)
  next
    case (Some lm)
    then obtain L M where lm: "r1 = Some (L, M)" by (cases lm) auto
    with B1 have h1: "held m1 L" "held m1 M" "balanced op_zero (addrs (root t)) op1 (addrs L @ addrs M)" by auto
    obtain r2 op2 m2 where s2: "split_high m1 op1 e M = (r2, op2, m2)" by (metis prod_cases3)
    note B2 = bound_split_mem [OF disjI2 [OF s2] op_run_wf [OF run1] h1(2)]
    note run2 = op_run_trans [OF run1 B2 [THEN conjunct1]]
    show ?thesis
    proof (cases r2)
      case None
      with assms(1) lm s2 failed [of m2 op2] run2 show ?thesis by (simp add: unf)
    next
      case (Some mr)
      then obtain M' R where mr: "r2 = Some (M', R)" by (cases mr) auto
      with B2 have h2: "held m2 M'" "held m2 R" "balanced op1 (addrs M) op2 (addrs M' @ addrs R)" by auto
      have "held m2 L" using B2 op_run_held op_run_wf [OF run1] h1(1) by blast
      obtain r3 op3 m3 where s3: "treap_op_push_free_tree m2 op2 M' = (r3, op3, m3)" by (metis prod_cases3)
      note B3 = push_free_tree_spec [OF s3]
      have run3: "op_run m op_zero m3 op3"
        using run2 B3(1,2) by (simp add: same_heap_simps(3) op_run_cong [of op3 op2])
      show ?thesis
      proof (cases r3)
        case None
        with assms(1) lm s2 mr s3 failed [of m3 op3] run3 show ?thesis by (simp add: unf)
      next
        case (Some n)
        have b3: "balanced op_zero (addrs (root t)) op3 ((addrs L @ addrs R) @ [])"
          by (rule balanced_trans [OF balanced_trans [OF h1(3) h2(3), of "mset (addrs L)" "addrs M' @ addrs L @ addrs R"],
                of "addrs M'" op3 "[]" "mset (addrs L @ addrs R)"])
             (use B3(3) [OF Some] in auto)
        have h3: "held m3 L" "held m3 R" using same_heap_simps(2) [OF B3(1)] \<open>held m2 L\<close> h2(2) by auto
        obtain res op4 m4 where s4: "treap_merge m3 op3 L R = (res, op4, m4)" by (metis prod_cases3)
        note M4 = treap_merge_run [OF s4 run3 h3 b3]
        show ?thesis
        proof (cases "res = Null \<and> (L \<noteq> Null \<or> R \<noteq> Null)")
          case True
          with assms(1) lm s2 mr s3 Some s4 failed [of m4 op4] M4(1) show ?thesis by (simp add: unf)
        next
          case False
          have "length (entries M') \<le> length (entries (root t))"
            using bound_split_tree [OF disjI1 [OF s1 [unfolded lm]]] bound_split_tree [OF disjI2 [OF s2 [unfolded mr]]]
            by (metis length_append le_add1 le_add2 le_trans)
          moreover have "n = of_nat (length (entries M'))" using B3(3) [OF Some] by simp
          ultimately have k: "\<exists>k\<le>length (entries (root t)). n = of_nat k" by blast
          let ?p = "treap_publish_op t op4 res 0"
          have e: "rc = n" "m' = m4" "t' = ?p\<lparr>tr_live := (tr_live ?p)\<lparr>st_count := st_count (tr_live ?p) - n\<rparr>\<rparr>"
            using False assms(1) lm s2 mr s3 Some s4 by (auto simp: unf Let_def)
          have "op_result m (root t) m' op4 res" using False M4(1,2) unfolding e(2) by (auto simp: op_result_def)
          then show ?thesis using k e by blast
        qed
      qed
    qed
  qed
qed

lemma delete_range_tree:
  assumes "treap_delete_range m t b e = (rc, t', m')" "rc \<noteq> -1" "tree_ok (tr_seed t) (root t)"
  shows "tree_ok (tr_seed t) (root t') \<and> entries (root t') = filter (\<lambda>x. \<not> in_range b e (fst x)) (entries (root t))
    \<and> rc = of_nat (length (filter (\<lambda>x. in_range b e (fst x)) (entries (root t))))
    \<and> st_count (tr_live t') = st_count (tr_live t) - rc
    \<and> tr_seed t' = tr_seed t \<and> tr_snap t' = tr_snap t \<and> tr_txn t' = tr_txn t \<and> tr_owner t' = tr_owner t \<and> tr_id t' = tr_id t"
  using assms(1)
proof (cases rule: delete_range_cases)
  case (go L M op1 m1 M' R op2 m2 op3 m3 merged op4 n)
  note ok = assms(3) [unfolded tree_ok_parts]
  note T1 = bound_split_tree [OF disjI1 [OF go(1)]] and T2 = bound_split_tree [OF disjI2 [OF go(2)]]
  have e: "entries (root t) = entries L @ entries M' @ entries R" using T1 T2 by simp
  have parts: "part_ok L" "part_ok R" using T1 T2 ok by auto
  have sM: "sorted_wrt (<) (keys M)" using T1 ok by (metis map_append sorted_wrt_append)
  note K1 = split_low_keys [OF go(1) ok [THEN conjunct1]] and K2 = split_high_keys [OF go(2) sM]
  have EM: "entries M = entries M' @ entries R" using T2 by simp
  have L: "\<forall>x\<in>set (entries L). \<not> in_range b e (fst x)" using K1(1) by (auto simp: in_range_def not_le)
  have R: "\<forall>x\<in>set (entries R). \<not> in_range b e (fst x)" using K2(2) by (auto simp: in_range_def not_less)
  have M': "\<forall>x\<in>set (entries M'). in_range b e (fst x)" using K1(2) K2(1) EM by (auto simp: in_range_def)
  from go(4) have g: "merge_loop m3 op3 L R = (Some merged, op4, m')"
    by (cases rule: treap_merge_loop) (use go(5) in auto)
  have srt: "sorted_wrt (<) (keys L @ keys R)" using ok e by (simp add: sorted_wrt_append)
  then have "set (keys L) \<inter> set (keys R) = {}" by (fastforce simp: sorted_wrt_append)
  note j = join_ok [OF g parts this]
  have "keyed (tr_seed t) merged" using ok j(3) T1 T2 by (auto simp: keyed_def)
  then have "tree_ok (tr_seed t) merged" using j(1,2) srt by (simp add: tree_ok_parts)
  moreover have "n = of_nat (length (entries M'))" using push_free_tree_spec(3) [OF go(3) refl] by simp
  moreover have "filter (\<lambda>x. \<not> in_range b e (fst x)) (entries (root t)) = entries L @ entries R"
    "filter (\<lambda>x. in_range b e (fst x)) (entries (root t)) = entries M'"
    using L R M' by (simp_all add: e filter_all filter_none)
  ultimately show ?thesis using j(2) go(6,7) by simp
qed (use assms(2) in simp)

end
