(* ===== verification/Treap_Room.thy ===== *)
theory Treap_Room
  imports Treap_Del
begin

section \<open>With memory, every update succeeds\<close>

text \<open>
  When the allocator's script holds no failure, no branch of set, delete or range delete fails:
  the only failures of the store are those of the allocator and of its own argument checks.
\<close>

definition fits :: "treap_node \<Rightarrow> bool" where
  "fits t \<longleftrightarrow> (\<forall>k\<in>set (keys t). treap_node_bytes (length k) \<le> 0xffffffff)"

lemma fits_simps [simp]: "fits Null"
  "fits (Node a p s k v l r) \<longleftrightarrow> treap_node_bytes (length k) \<le> 0xffffffff \<and> fits l \<and> fits r"
  by (auto simp: fits_def)

lemma tree_ok_fits: "tree_ok seed t \<Longrightarrow> fits t"
  unfolding fits_def snd_pkeys [symmetric] by (auto simp: tree_ok_def)

lemma fits_entries: "set (entries t) \<subseteq> set (entries u) \<Longrightarrow> fits u \<Longrightarrow> fits t"
  by (force simp: fits_def)

lemma malloc_room: "mem_script m = [] \<Longrightarrow> \<exists>m'. treap_malloc m = (Some (mem_next m), m') \<and> mem_script m' = []"
  by (simp add: treap_malloc_def)

lemma clone_room:
  assumes "mem_script m = []" "treap_node_bytes (length k) \<le> 0xffffffff"
  shows "\<exists>a op' m'. treap_clone_node m op src k v = (Some a, op', m') \<and> mem_script m' = []"
  using assms by (auto simp: treap_clone_node_def treap_malloc_def Let_def treap_blob_ref_def split: option.splits)

lemma split_room:
  "mem_script m = [] \<Longrightarrow> fits t \<Longrightarrow> \<exists>LR op' m'. treap_split m op key t = (Some LR, op', m') \<and> mem_script m' = []"
proof (induction t arbitrary: m op)
  case (Node a p s k v l r)
  from clone_room [OF Node.prems(1)] Node.prems(2) obtain a' op1 m1 where
    c: "treap_clone_node m op a k v = (Some a', op1, m1)" "mem_script m1 = []" by fastforce
  from Node.IH(1) [OF c(2), of op1] Node.IH(2) [OF c(2), of op1] Node.prems(2) c(1) show ?case
    by (auto simp: Let_def)
qed simp

lemma merge_room:
  "mem_script m = [] \<Longrightarrow> fits L \<Longrightarrow> fits R \<Longrightarrow> \<exists>t op' m'. merge_loop m op L R = (Some t, op', m') \<and> mem_script m' = []"
proof (induction m op L R rule: merge_loop.induct)
  case (3 m op a p s k v l r a2 p2 s2 k2 v2 l2 r2)
  from clone_room [OF 3(3), of k op a v] clone_room [OF 3(3), of k2 op a2 v2] 3(4,5) obtain a' op1 m1 b' op2 m2 where
    c: "treap_clone_node m op a k v = (Some a', op1, m1)" "mem_script m1 = []"
       "treap_clone_node m op a2 k2 v2 = (Some b', op2, m2)" "mem_script m2 = []" by auto
  show ?case
  proof (cases "0 < treap_priority_cmp p k p2 k2")
    case True
    from 3(1) [OF this c(1) [symmetric] refl refl c(2)] 3(4,5) obtain t op' m' where
      "merge_loop m1 op1 r (Node a2 p2 s2 k2 v2 l2 r2) = (Some t, op', m')" "mem_script m' = []" by auto
    with True c show ?thesis by auto
  next
    case False
    from 3(2) [OF this c(3) [symmetric] refl refl c(4)] 3(4,5) obtain t op' m' where
      "merge_loop m2 op2 (Node a p s k v l r) l2 = (Some t, op', m')" "mem_script m' = []" by auto
    with False c show ?thesis by auto
  qed
qed auto

lemma remove_min_room:
  "mem_script m = [] \<Longrightarrow> fits t \<Longrightarrow> \<exists>r op' m'. remove_min_loop m op t = (Some r, op', m') \<and> mem_script m' = []"
proof (induction t arbitrary: m op)
  case (Node a p s k v l r)
  from clone_room [OF Node.prems(1)] Node.prems(2) obtain a' op1 m1 where
    c: "treap_clone_node m op a k v = (Some a', op1, m1)" "mem_script m1 = []" by fastforce
  from Node.IH(1) [OF c(2), of op1] Node.prems c(1) show ?case by auto
qed simp

lemma cut_room:
  assumes "mem_script m = []" "fits t"
  shows "\<exists>L ex R op' m'. treap_cut m t key = (Some (L, ex, R), op', m') \<and> mem_script m' = [] \<and> fits L \<and> fits R"
proof -
  from split_room [OF assms] obtain L R op1 m1 where
    s: "treap_split m op_zero key t = (Some (L, R), op1, m1)" "mem_script m1 = []" by fastforce
  have e: "entries L @ entries R = entries t" using split_tree [OF s(1)] by simp
  have f: "fits L" "fits R" by (rule fits_entries [OF _ assms(2)], simp add: e [symmetric])+
  show ?thesis
  proof (cases "R \<noteq> Null \<and> node_key (leftmost R) = key")
    case True
    from remove_min_room [OF s(2) f(2)] obtain R' mn op2 m2 where
      r: "remove_min_loop m1 op1 R = (Some (R', mn), op2, m2)" "mem_script m2 = []" by fastforce
    have "mn \<noteq> Null" using r(1) True
      by (induction R arbitrary: m1 op1 R') (auto split: if_splits prod.splits option.splits)
    moreover have "fits R'" using remove_min_tree [OF r(1)] True fits_entries [OF _ f(2), of R'] by fastforce
    ultimately show ?thesis using s r True f(1) by (auto simp: treap_cut_def treap_remove_min_def)
  qed (use s f in \<open>auto simp: treap_cut_def\<close>)
qed

lemma treap_merge_room:
  assumes "mem_script m = []" "fits L" "fits R"
  shows "\<exists>t op' m'. treap_merge m op L R = (t, op', m') \<and> mem_script m' = [] \<and> fits t \<and> (t = Null \<longleftrightarrow> L = Null \<and> R = Null)"
proof -
  from merge_room [OF assms] obtain t op' m' where g: "merge_loop m op L R = (Some t, op', m')" "mem_script m' = []" by blast
  have e: "entries t = entries L @ entries R" using merge_tree [OF g(1)] by simp
  then have "fits t" using assms(2,3) by (auto simp: fits_def)
  moreover have "t = Null \<longleftrightarrow> L = Null \<and> R = Null" using e by (metis append_is_Nil_conv entries_Null)
  ultimately show ?thesis using g by (auto simp: treap_merge_def)
qed

lemma set_room:
  assumes "mem_script m = []" "tree_ok seed (root t)" "key \<noteq> []" "treap_node_bytes (length key) \<le> 0xffffffff"
  shows "\<exists>t' m'. treap_set m t key value = (0, t', m') \<and> mem_script m' = []"
proof -
  from cut_room [OF assms(1) tree_ok_fits [OF assms(2)]] obtain L ex R op1 m1 where
    c: "treap_cut m (root t) key = (Some (L, ex, R), op1, m1)" "mem_script m1 = []" "fits L" "fits R" by blast
  from malloc_room [OF c(2)] obtain a m2 where ml: "treap_malloc m1 = (Some a, m2)" "mem_script m2 = []" by blast
  obtain n vb m4 where at: "treap_node_attach_value (m2\<lparr>mem_nodes := (mem_nodes m2)(a \<mapsto> None)\<rparr>)
      (treap_node_init a key (treap_hash (tr_seed t) key)) value = (True, n, vb, m4)" "mem_script m4 = []"
    using ml(2) by (cases "value = []")
      (simp_all add: treap_node_attach_value_def treap_node_init_def treap_blob_create_def treap_malloc_def)
  from attach_node [OF at(1) TrueI] assms(4) have n: "fits n" "n \<noteq> Null" by auto
  let ?op = "(treap_op_push_alloc (op1\<lparr>op_alloc_bytes := op_alloc_bytes op1 + of_nat (treap_node_bytes (length key))\<rparr>) a)"
  from treap_merge_room [OF at(2) n(1) c(4)] n(2) obtain mid op3 m5 where
    g1: "treap_merge m4 (?op\<lparr>op_alloc_bytes := op_alloc_bytes ?op + vb\<rparr>) n R = (mid, op3, m5)"
      "mem_script m5 = []" "fits mid" "mid \<noteq> Null" by blast
  from treap_merge_room [OF g1(2) c(3) g1(3)] g1(4) obtain res op4 m6 where
    g2: "treap_merge m5 op3 L mid = (res, op4, m6)" "mem_script m6 = []" "res \<noteq> Null" by blast
  show ?thesis
    using assms(3) leD [OF assms(4)] c(1) ml(1) at(1) g1(1,4) g2 by (simp add: treap_set_def Let_def)
qed

lemma delete_room:
  assumes "mem_script m = []" "tree_ok seed (root t)" "key \<noteq> []"
  shows "\<exists>rc t' m'. treap_delete m t key = (rc, t', m') \<and> rc \<noteq> -1 \<and> mem_script m' = []"
proof -
  from cut_room [OF assms(1) tree_ok_fits [OF assms(2)]] obtain L ex R op1 m1 where
    c: "treap_cut m (root t) key = (Some (L, ex, R), op1, m1)" "mem_script m1 = []" "fits L" "fits R" by blast
  have "mem_script (snd (treap_op_discard m1 op1)) = []" using c(2) by (simp add: treap_op_discard_def release_list_plain)
  moreover from treap_merge_room [OF c(2-4), of op1] obtain r op2 m2 where
    "treap_merge m1 op1 L R = (r, op2, m2)" "mem_script m2 = []" "r = Null \<longleftrightarrow> L = Null \<and> R = Null" by blast
  ultimately show ?thesis using c(1) assms(3) by (cases ex) (auto simp: treap_delete_def)
qed

end
