(* ===== verification/Treap_Store.thy ===== *)
theory Treap_Store
  imports Treap_Room
begin

section \<open>The store as a component\<close>

text \<open>
  The invariant of a store and its memory, its preservation by every update, by snapshot capture
  and by snapshot release, and the interface the server relies on (a locale of ordered key-value
  stores) with its interpretation on the treap.
\<close>

subsection \<open>The invariant\<close>

text \<open>
  The live tree is well formed and allocated; the live nodes, the nodes retired since the last
  capture and the nodes waiting for the snapshot to finish are pairwise distinct allocated nodes;
  every node of the captured tree is allocated and is live or retired after the capture.
\<close>

definition treap_inv :: "treap_mem \<Rightarrow> treap \<Rightarrow> bool" where
  "treap_inv m t \<longleftrightarrow> mem_wf m \<and> tree_ok (tr_seed t) (root t) \<and> held m (root t)
     \<and> st_count (tr_live t) = of_nat (length (entries (root t)))
     \<and> distinct (addrs (root t) @ st_pending (tr_live t) @ st_pending (tr_snap t))
     \<and> set (st_pending (tr_live t)) \<union> set (st_pending (tr_snap t)) \<subseteq> dom (mem_nodes m)
     \<and> held m (st_root (tr_snap t))
     \<and> set (addrs (st_root (tr_snap t))) \<subseteq> set (addrs (root t)) \<union> set (st_pending (tr_live t))
     \<and> \<not> tr_txn t"

lemma inv_parts:
  assumes "treap_inv m t"
  shows "mem_wf m" "held m (root t)" "tree_ok (tr_seed t) (root t)" "\<not> tr_txn t"
    "st_count (tr_live t) = of_nat (length (entries (root t)))"
  using assms by (simp_all add: treap_inv_def)

lemma held_same: "mem_nodes m' = mem_nodes m \<Longrightarrow> held m' t = held m t"
  by (simp add: held_def)

lemma inv_untouched: "untouched m t m' t' \<Longrightarrow> treap_inv m t \<Longrightarrow> treap_inv m' t'"
  using held_same [of m' m] by (auto simp: untouched_def treap_inv_def)

lemma held_addrs: "held m t \<Longrightarrow> set (addrs t) \<subseteq> dom (mem_nodes m)"
  by (auto simp: held_def)

text \<open>The nodes of a finished operation: the new tree and the retired nodes partition the old tree and the new nodes.\<close>

lemma op_result_nodes:
  assumes "op_result m rt m' op result" "mem_wf m" "held m rt" "distinct (addrs rt)"
  shows "distinct (addrs result @ op_free op)"
    "set (addrs result) \<union> set (op_free op) = set (addrs rt) \<union> set (op_alloc op)"
    "set (op_alloc op) \<subseteq> {mem_next m..<mem_next m'}" "dom (mem_nodes m') = dom (mem_nodes m) \<union> set (op_alloc op)"
    "mem_wf m'" "held m' result" "op_free_count op = of_nat (length (op_free op))"
proof -
  from assms(1) obtain new where new: "op_alloc op = new" "distinct new" "set new \<subseteq> {mem_next m..<mem_next m'}"
    "dom (mem_nodes m') = dom (mem_nodes m) \<union> set new"
    by (auto simp: op_result_def op_run_def op_ext_def op_zero_def)
  have b: "mset (addrs result @ op_free op) = mset (addrs rt @ op_alloc op)"
    "op_free_count op = of_nat (length (op_free op))"
    using assms(1) by (simp_all add: op_result_def balanced_def op_zero_def)
  have "set (addrs rt) \<subseteq> {..<mem_next m}" using held_addrs [OF assms(3)] mem_wf_node [OF assms(2)] by force
  then have "distinct (addrs rt @ op_alloc op)" using assms(4) new by fastforce
  then show "distinct (addrs result @ op_free op)" using mset_eq_imp_distinct_iff [OF b(1)] by simp
  show "set (addrs result) \<union> set (op_free op) = set (addrs rt) \<union> set (op_alloc op)"
    using mset_eq_setD [OF b(1)] by simp
  show "set (op_alloc op) \<subseteq> {mem_next m..<mem_next m'}" "dom (mem_nodes m') = dom (mem_nodes m) \<union> set (op_alloc op)"
    "mem_wf m'" "held m' result" "op_free_count op = of_nat (length (op_free op))"
    using new b(2) assms(1) by (simp_all add: op_result_def op_run_def)
qed

lemma inv_publish:
  assumes "treap_inv m t" "op_result m (root t) m' op result"
    "root t' = result" "st_count (tr_live t') = of_nat (length (entries result))"
    "st_pending (tr_live t') = op_free op @ st_pending (tr_live t)" "tr_snap t' = tr_snap t" "tr_seed t' = tr_seed t" "tr_txn t' = tr_txn t" "tree_ok (tr_seed t) result"
  shows "treap_inv m' t'"
proof -
  let ?A = "set (addrs (root t))" and ?P = "set (st_pending (tr_live t))" and ?S = "set (st_pending (tr_snap t))"
  from assms(1) have i: "mem_wf m" "held m (root t)" "distinct (addrs (root t) @ st_pending (tr_live t) @ st_pending (tr_snap t))"
    "?P \<union> ?S \<subseteq> dom (mem_nodes m)" "held m (st_root (tr_snap t))" "set (addrs (st_root (tr_snap t))) \<subseteq> ?A \<union> ?P"
    by (auto simp: treap_inv_def)
  note n = op_result_nodes [OF assms(2) i(1,2)]
  have d: "distinct (addrs (root t))" using i(3) by simp
  have low: "dom (mem_nodes m) \<subseteq> {..<mem_next m}" using mem_wf_node [OF i(1)] by auto
  have "(set (addrs result) \<union> set (op_free op)) \<inter> (?P \<union> ?S) = {}"
    unfolding n(2) [OF d] using i(3,4) n(3) [OF d] low by fastforce
  then have "distinct (addrs result @ (op_free op @ st_pending (tr_live t)) @ st_pending (tr_snap t))"
    using n(1) [OF d] i(3) by auto
  moreover have "set (op_free op) \<subseteq> dom (mem_nodes m')" using n(2,4) [OF d] held_addrs [OF i(2)] by blast
  moreover have "?P \<union> ?S \<subseteq> dom (mem_nodes m')" using i(4) n(4) [OF d] by blast
  moreover have "held m' (st_root (tr_snap t))"
    using assms(2) i(1,5) by (auto simp: op_result_def intro: op_run_held)
  moreover have "set (addrs (st_root (tr_snap t))) \<subseteq> set (addrs result) \<union> (set (op_free op) \<union> ?P)"
    using i(6) n(2) [OF d] by blast
  moreover have "\<not> tr_txn t" using assms(1) by (simp add: treap_inv_def)
  ultimately show ?thesis using n(5,6) [OF d] assms(3-9) by (simp add: treap_inv_def)
qed

lemma publish_live:
  assumes "\<not> tr_txn t"
  shows "tr_live (treap_publish_op t op rt d) = (tr_live t)\<lparr>st_root := rt,
     st_count := st_count (tr_live t) + (if d > 0 then 1 else if d < 0 then -1 else 0),
     st_tree_bytes := st_tree_bytes (tr_live t) + op_net op,
     st_pending := op_free op @ st_pending (tr_live t),
     st_pending_count := (if op_free op \<noteq> [] then st_pending_count (tr_live t) + op_free_count op else st_pending_count (tr_live t)),
     st_pending_bytes := st_pending_bytes (tr_live t) + op_free_bytes op\<rparr>"
  using assms by (simp add: treap_publish_op_def Let_def op_net_def)

subsection \<open>Updates preserve it\<close>

lemma distinct_keys: "tree_ok seed t \<Longrightarrow> distinct (keys t)"
  by (simp add: tree_ok_def strict_sorted_iff)

lemma length_put:
  assumes "sorted_wrt (<) (map fst es)"
  shows "length (put k v es) = length es + (if k \<in> set (map fst es) then 0 else 1)"
  using assms
proof (induction es)
  case (Cons e es)
  have "k < fst e \<Longrightarrow> filter (\<lambda>x. fst x < k) es = [] \<and> filter (\<lambda>x. k < fst x) es = es \<and> k \<notin> set (map fst es)"
    "k = fst e \<Longrightarrow> filter (\<lambda>x. fst x < k) es = [] \<and> filter (\<lambda>x. k < fst x) es = es"
    using Cons.prems by (auto simp: filter_empty_conv filter_id_conv)
  with Cons show ?case by (cases k "fst e" rule: linorder_cases) (auto simp: put_def)
qed (simp add: put_def)

lemma length_filter_key:
  assumes "distinct (map fst es)"
  shows "length es = length (filter (\<lambda>e. fst e \<noteq> k) es) + (if k \<in> set (map fst es) then 1 else 0)"
  using assms
proof (induction es)
  case (Cons e es)
  then show ?case by (cases "fst e = k") (auto simp: filter_id_conv)
qed simp

lemma set_count:
  assumes "treap_set m t key value = (rc, t', m')" "rc \<noteq> -1" "tree_ok (tr_seed t) (root t)"
    "st_count (tr_live t) = of_nat (length (entries (root t)))"
  shows "st_count (tr_live t') = of_nat (length (entries (root t')))"
proof -
  note s = set_tree [OF assms(1-3)]
  have "length (entries (root t')) = length (entries (root t)) + (if key \<in> set (keys (root t)) then 0 else 1)"
    unfolding s(2) by (rule length_put) (use assms(3) in \<open>simp add: tree_ok_def\<close>)
  then show ?thesis using s(3) assms(4) by simp
qed

lemma delete_count:
  assumes "treap_delete m t key = (rc, t', m')" "rc \<noteq> -1" "tree_ok (tr_seed t) (root t)"
    "st_count (tr_live t) = of_nat (length (entries (root t)))"
  shows "st_count (tr_live t') = of_nat (length (entries (root t')))"
  unfolding delete_tree(2,4) [OF assms(1-3)] assms(4)
  using length_filter_key [OF distinct_keys [OF assms(3)], of key] by simp

lemma set_inv:
  assumes "treap_inv m t" "treap_set m t key value = (rc, t', m')"
  shows "treap_inv m' t'"
proof -
  note i = inv_parts [OF assms(1)]
  from set_run [OF assms(2) i(1,2)] show ?thesis
  proof (elim disjE conjE exE)
    assume "untouched m t m' t'"
    then show ?thesis using assms(1) by (rule inv_untouched)
  next
    fix op result d assume rc: "rc = 0" and p: "t' = treap_publish_op t op result d" "op_result m (root t) m' op result"
    then have "rc \<noteq> -1" by simp
    from set_tree(1) [OF assms(2) this i(3)] set_count [OF assms(2) this i(3,5)] show ?thesis
      using publish_live [OF i(4), of op result d] p by (intro inv_publish [OF assms(1) p(2)]) auto
  qed
qed

lemma delete_inv:
  assumes "treap_inv m t" "treap_delete m t key = (rc, t', m')"
  shows "treap_inv m' t'"
proof -
  note i = inv_parts [OF assms(1)]
  from delete_run [OF assms(2) i(1,2)] show ?thesis
  proof (elim disjE conjE exE)
    assume "untouched m t m' t'"
    then show ?thesis using assms(1) by (rule inv_untouched)
  next
    fix op result assume rc: "rc = 1" and p: "t' = treap_publish_op t op result (-1)" "op_result m (root t) m' op result"
    then have "rc \<noteq> -1" by simp
    from delete_tree(1) [OF assms(2) this i(3)] delete_count [OF assms(2) this i(3,5)] show ?thesis
      using publish_live [OF i(4), of op result "-1"] p by (intro inv_publish [OF assms(1) p(2)]) auto
  qed
qed

lemma delete_range_inv:
  assumes "treap_inv m t" "treap_delete_range m t b e = (rc, t', m')" "rc \<noteq> -1"
  shows "treap_inv m' t'"
proof -
  note i = inv_parts [OF assms(1)]
  note s = delete_range_tree [OF assms(2,3) i(3)]
  from delete_range_run [OF assms(2) i(1,2)] assms(3) obtain op result where
    p: "t' = (treap_publish_op t op result 0)\<lparr>tr_live := (tr_live (treap_publish_op t op result 0))
         \<lparr>st_count := st_count (tr_live (treap_publish_op t op result 0)) - rc\<rparr>\<rparr>" "op_result m (root t) m' op result"
    by blast
  have "length (entries (root t)) = length (filter (\<lambda>x. \<not> in_range b e (fst x)) (entries (root t)))
      + length (filter (\<lambda>x. in_range b e (fst x)) (entries (root t)))"
    using sum_length_filter_compl [of "\<lambda>x. in_range b e (fst x)" "entries (root t)"] by simp
  then have "st_count (tr_live t') = of_nat (length (entries (root t')))"
    using s i(5) by simp
  then show ?thesis using s publish_live [OF i(4), of op result 0] p
    by (intro inv_publish [OF assms(1) p(2)]) auto
qed

subsection \<open>Lookup\<close>

lemma map_of_sorted_append:
  fixes k :: bytes
  assumes "sorted_wrt (<) (map fst (xs @ (k, v) # ys))"
  shows "map_of (xs @ (k, v) # ys) x = (if x = k then Some v else if x < k then map_of xs x else map_of ys x)"
proof -
  have lt: "\<forall>e\<in>set xs. fst e < k" "\<forall>e\<in>set ys. k < fst e" using assms by (auto simp: sorted_wrt_append)
  have "map_of xs x = None" if "k \<le> x" using lt(1) that by (fastforce simp: map_of_eq_None_iff)
  moreover have "map_of ys x = None" if "x \<le> k" using lt(2) that by (fastforce simp: map_of_eq_None_iff)
  ultimately show ?thesis
    by (cases x k rule: linorder_cases) (auto simp: map_add_def split: option.splits)
qed

lemma find_map_of:
  "sorted_wrt (<) (keys t) \<Longrightarrow>
    map_of (entries t) key = (if treap_find t key = Null then None else Some (node_value (treap_find t key)))"
proof (induction t)
  case (Node a p s k v l r)
  let ?v = "case v of None \<Rightarrow> [] | Some (b, d) \<Rightarrow> d"
  have srt: "sorted_wrt (<) (keys l)" "sorted_wrt (<) (keys r)" using Node.prems by (auto simp: sorted_wrt_append)
  have "map_of (entries (Node a p s k v l r)) key =
      (if key = k then Some ?v else if key < k then map_of (entries l) key else map_of (entries r) key)"
    using map_of_sorted_append [of "entries l" k ?v "entries r" key] Node.prems by simp
  with Node.IH(1) [OF srt(1)] Node.IH(2) [OF srt(2)] show ?case
    by (cases key k rule: linorder_cases) (simp_all add: Let_def)
qed simp

definition store_map :: "treap \<Rightarrow> bytes \<rightharpoonup> bytes" where
  "store_map t = map_of (entries (root t))"

lemma treap_get_spec:
  assumes "tree_ok seed (root t)"
  shows "treap_get t key = (if key = [] then (-1, []) else case store_map t key of None \<Rightarrow> (0, []) | Some v \<Rightarrow> (1, v))"
  using find_map_of [of "root t" key] assms
  by (auto simp: treap_get_def store_map_def tree_ok_def Let_def)

lemma dom_store_map: "dom (store_map t) = set (keys (root t))"
  by (simp add: store_map_def dom_map_of_conv_image_fst)

section \<open>The interface of an ordered key-value store\<close>

text \<open>
  What the clients of a store rely on: a successful set or delete is the map update, a failed one
  changes nothing, a get answers from the map. A state is the store with its memory.
\<close>

datatype kv_cmd = Set bytes bytes | Del bytes

fun cmd_effect :: "(bytes \<rightharpoonup> bytes) \<Rightarrow> kv_cmd \<Rightarrow> (bytes \<rightharpoonup> bytes)" where
  "cmd_effect f (Set k v) = f(k \<mapsto> v)"
| "cmd_effect f (Del k) = f(k := None)"

locale kv_store =
  fixes inv :: "'s \<Rightarrow> bool" and abs :: "'s \<Rightarrow> bytes \<rightharpoonup> bytes"
    and set :: "'s \<Rightarrow> bytes \<Rightarrow> bytes \<Rightarrow> int \<times> 's" and del :: "'s \<Rightarrow> bytes \<Rightarrow> int \<times> 's"
    and get :: "'s \<Rightarrow> bytes \<Rightarrow> int \<times> bytes"
  assumes set_law: "inv s \<Longrightarrow> set s k v = (rc, s') \<Longrightarrow>
      inv s' \<and> (rc = 0 \<and> abs s' = (abs s)(k \<mapsto> v) \<or> rc = -1 \<and> abs s' = abs s)"
    and del_law: "inv s \<Longrightarrow> del s k = (rc, s') \<Longrightarrow>
      inv s' \<and> (rc = (if k \<in> dom (abs s) then 1 else 0) \<and> abs s' = (abs s)(k := None) \<or> rc = -1 \<and> abs s' = abs s)"
    and get_law: "inv s \<Longrightarrow> k \<noteq> [] \<Longrightarrow> get s k = (case abs s k of None \<Rightarrow> (0, []) | Some v \<Rightarrow> (1, v))"
begin

fun run_cmd :: "'s \<Rightarrow> kv_cmd \<Rightarrow> int \<times> 's" where
  "run_cmd s (Set k v) = set s k v"
| "run_cmd s (Del k) = del s k"

fun run :: "'s \<Rightarrow> kv_cmd list \<Rightarrow> int list \<times> 's" where
  "run s [] = ([], s)"
| "run s (c # cs) = (let (rc, s1) = run_cmd s c; (rcs, s2) = run s1 cs in (rc # rcs, s2))"

lemma run_cmd_law:
  assumes "inv s" "run_cmd s c = (rc, s')"
  shows "inv s'" "abs s' = (if rc = -1 then abs s else cmd_effect (abs s) c)"
proof -
  have "inv s' \<and> abs s' = (if rc = -1 then abs s else cmd_effect (abs s) c)"
  proof (cases c)
    case (Set k v)
    with assms(2) set_law [OF assms(1), of k v rc s'] show ?thesis by auto
  next
    case (Del k)
    with assms(2) del_law [OF assms(1), of k rc s'] show ?thesis by (auto split: if_splits)
  qed
  then show "inv s'" "abs s' = (if rc = -1 then abs s else cmd_effect (abs s) c)" by auto
qed

lemma run_cmd_code:
  assumes "inv s" "run_cmd s c = (rc, s')" "rc \<noteq> -1"
  shows "rc = (case c of Set k v \<Rightarrow> 0 | Del k \<Rightarrow> if k \<in> dom (abs s) then 1 else 0)"
proof (cases c)
  case (Set k v)
  with assms set_law [OF assms(1), of k v rc s'] show ?thesis by auto
next
  case (Del k)
  with assms del_law [OF assms(1), of k rc s'] show ?thesis by auto
qed

text \<open>After any sequence of commands the map is the effect of the commands that did not fail.\<close>

lemma run_law:
  assumes "inv s" "run s cs = (rcs, s')"
  shows "inv s' \<and> abs s' = foldl cmd_effect (abs s) (map snd (filter (\<lambda>x. fst x \<noteq> -1) (zip rcs cs)))"
  using assms
proof (induction cs arbitrary: s rcs)
  case (Cons c cs)
  obtain rc s1 where c: "run_cmd s c = (rc, s1)" by fastforce
  with Cons.prems(2) obtain rcs' where r: "run s1 cs = (rcs', s')" "rcs = rc # rcs'"
    by (auto simp: Let_def split: prod.splits)
  from Cons.IH [OF run_cmd_law(1) [OF Cons.prems(1) c] r(1)] run_cmd_law(2) [OF Cons.prems(1) c] r(2)
  show ?case by simp
qed simp

text \<open>Replicas that start from equal maps and suffer no failure agree on maps and answers.\<close>

lemma replicas_agree:
  assumes "inv s" "inv u" "abs s = abs u" "run s cs = (rcs, s')" "run u cs = (rcu, u')"
    "-1 \<notin> List.set rcs" "-1 \<notin> List.set rcu"
  shows "rcs = rcu \<and> abs s' = abs u'"
  using assms
proof (induction cs arbitrary: s u rcs rcu)
  case (Cons c cs)
  obtain rc s1 ru u1 where c: "run_cmd s c = (rc, s1)" "run_cmd u c = (ru, u1)" by fastforce
  with Cons.prems(4,5) obtain r1 r2 where r: "run s1 cs = (r1, s')" "rcs = rc # r1" "run u1 cs = (r2, u')" "rcu = ru # r2"
    by (auto simp: Let_def split: prod.splits)
  note L = run_cmd_law [OF Cons.prems(1) c(1)] run_cmd_law [OF Cons.prems(2) c(2)]
  have "rc \<noteq> -1" "ru \<noteq> -1" using Cons.prems(6,7) r by auto
  then have e: "abs s1 = abs u1" using L Cons.prems(3) by simp
  have "rc = ru"
    using run_cmd_code [OF Cons.prems(1) c(1)] run_cmd_code [OF Cons.prems(2) c(2)] \<open>rc \<noteq> -1\<close> \<open>ru \<noteq> -1\<close>
      Cons.prems(3) by (cases c) simp_all
  with Cons.IH [OF L(1,3) e r(1,3)] Cons.prems(6,7) r show ?case by simp
qed simp

end

text \<open>The treap with its memory is such a store, whatever the allocator does.\<close>

abbreviation store_set :: "treap_mem \<times> treap \<Rightarrow> bytes \<Rightarrow> bytes \<Rightarrow> int \<times> treap_mem \<times> treap" where
  "store_set s k v \<equiv> (case treap_set (fst s) (snd s) k v of (rc, t, m) \<Rightarrow> (rc, m, t))"

abbreviation store_del :: "treap_mem \<times> treap \<Rightarrow> bytes \<Rightarrow> int \<times> treap_mem \<times> treap" where
  "store_del s k \<equiv> (case treap_delete (fst s) (snd s) k of (rc, t, m) \<Rightarrow> (rc, m, t))"

lemma set_map_law:
  assumes "mem_wf m" "held m (root t)" "tree_ok (tr_seed t) (root t)" "treap_set m t k v = (rc, t', m')"
  shows "rc = 0 \<and> store_map t' = (store_map t)(k \<mapsto> v) \<or> rc = -1 \<and> t' = t"
  using set_run [OF assms(4,1,2)] set_tree(2) [OF assms(4) _ assms(3)]
  by (auto simp: untouched_def store_map_def map_of_put)

lemma del_map_law:
  assumes "mem_wf m" "held m (root t)" "tree_ok (tr_seed t) (root t)" "treap_delete m t k = (rc, t', m')"
  shows "rc = (if k \<in> dom (store_map t) then 1 else 0) \<and> store_map t' = (store_map t)(k := None) \<or> rc = -1 \<and> t' = t"
proof (cases "rc = -1")
  case True
  with delete_run [OF assms(4,1,2)] show ?thesis by (simp add: untouched_def)
next
  case False
  note d = delete_tree(2,3) [OF assms(4) False assms(3)]
  have "store_map t' = (store_map t)(k := None)"
    by (rule ext) (simp add: store_map_def d(1) map_of_filter_key [where P = "\<lambda>x. x \<noteq> k"])
  with d(2) show ?thesis by (simp add: dom_store_map)
qed

interpretation store: kv_store "\<lambda>s. treap_inv (fst s) (snd s)" "\<lambda>s. store_map (snd s)" store_set store_del
  "\<lambda>s k. treap_get (snd s) k"
proof
  fix s :: "treap_mem \<times> treap" and k v rc s'
  assume i: "treap_inv (fst s) (snd s)"
  show "treap_inv (fst s') (snd s') \<and> (rc = 0 \<and> store_map (snd s') = (store_map (snd s))(k \<mapsto> v) \<or>
      rc = -1 \<and> store_map (snd s') = store_map (snd s))" if "store_set s k v = (rc, s')"
    using that set_inv [OF i, of k v rc "snd s'" "fst s'"] set_map_law [OF inv_parts(1-3) [OF i], of k v rc "snd s'" "fst s'"]
    by (auto split: prod.splits)
  show "treap_inv (fst s') (snd s') \<and> (rc = (if k \<in> dom (store_map (snd s)) then 1 else 0)
      \<and> store_map (snd s') = (store_map (snd s))(k := None) \<or> rc = -1 \<and> store_map (snd s') = store_map (snd s))"
    if "store_del s k = (rc, s')"
    using that delete_inv [OF i, of k rc "snd s'" "fst s'"] del_map_law [OF inv_parts(1-3) [OF i], of k rc "snd s'" "fst s'"]
    by (auto simp: fun_upd_idem split: prod.splits)
  show "treap_get (snd s) k = (case store_map (snd s) k of None \<Rightarrow> (0, []) | Some v \<Rightarrow> (1, v))" if "k \<noteq> []"
    using treap_get_spec [OF inv_parts(3) [OF i]] that by simp
qed

end
