(* ===== verification/Treap_Txn.thy ===== *)
theory Treap_Txn
  imports Treap_Store
begin

section \<open>Snapshots, reclamation and transactions\<close>

text \<open>
  Reclaiming retired nodes keeps the memory sound, capture and release of a snapshot preserve the
  invariant of the store, and a copy-on-write transaction either replaces the store by the copy
  (commit) or leaves it as it was (abort), whatever the copy did and whatever the allocator refused.
\<close>

subsection \<open>Releasing nodes\<close>

lemma unref_refs:
  assumes "treap_blob_unref m v = (n, m')" "mem_wf m" "mem_nodes m a = Some v"
  shows "mem_nodes m' = mem_nodes m \<and> mem_next m' = mem_next m \<and>
    (\<forall>b. refs_of m' b = (if v = Some b then refs_of m b - 1 else refs_of m b)) \<and>
    (\<forall>b r. mem_blobs m' b = Some r \<longrightarrow> mem_blobs m b \<noteq> None)"
proof (cases v)
  case (Some b)
  with assms(2,3) held_refs obtain r where "mem_blobs m b = Some r" by blast
  with Some assms(1) show ?thesis
    by (auto simp: treap_blob_unref_def Let_def refs_of_def split: if_splits)
qed (use assms(1) in \<open>auto simp: treap_blob_unref_def\<close>)

lemma release_counting:
  assumes "treap_node_release True m a = (n, m')" "mem_wf m" "a \<in> dom (mem_nodes m)"
  shows "mem_wf m' \<and> mem_nodes m' = (mem_nodes m)(a := None) \<and> mem_next m' = mem_next m"
proof -
  from assms(3) obtain v where v: "mem_nodes m a = Some v" by auto
  obtain n1 m1 where u: "treap_blob_unref m v = (n1, m1)" by fastforce
  note U = unref_refs [OF u assms(2) v]
  have m': "m' = m1\<lparr>mem_nodes := (mem_nodes m1)(a := None)\<rparr>"
    using assms(1) v u by (simp add: treap_node_release_def)
  have h: "holders m' b = holders m b - {a}" for b using U by (auto simp: holders_def m')
  have "card (holders m' b) \<le> refs_of m' b" for b
  proof (cases "v = Some b")
    case True
    then have "a \<in> holders m b" using v by (simp add: holders_def)
    then have "card (holders m' b) = card (holders m b) - 1"
      using h finite_holders [OF assms(2)] by (simp add: card_Diff_singleton)
    moreover have "refs_of m' b = refs_of m b - 1" using U True by (simp add: refs_of_def m')
    ultimately show ?thesis using assms(2) by (auto simp: mem_wf_def intro: diff_le_mono)
  next
    case False
    then have "a \<notin> holders m b" using v by (simp add: holders_def)
    then have "holders m' b = holders m b" using h by simp
    moreover have "refs_of m' b = refs_of m b" using U False by (simp add: refs_of_def m')
    ultimately show ?thesis using assms(2) by (simp add: mem_wf_def)
  qed
  then show ?thesis using U assms(2) by (fastforce simp: mem_wf_def m' split: if_splits)
qed

lemma release_list_counting:
  assumes "treap_release_list True m as = (n, m')" "mem_wf m" "distinct as" "set as \<subseteq> dom (mem_nodes m)"
  shows "mem_wf m' \<and> mem_nodes m' = mem_nodes m |` (- set as) \<and> mem_next m' = mem_next m"
  using assms
proof (induction as arbitrary: m n)
  case (Cons a as)
  obtain n1 m1 where 1: "treap_node_release True m a = (n1, m1)" by fastforce
  note R = release_counting [OF 1 Cons.prems(2)]
  obtain n2 where 2: "treap_release_list True m1 as = (n2, m')" using Cons.prems(1) 1 by (auto split: prod.splits)
  have "mem_wf m' \<and> mem_nodes m' = mem_nodes m1 |` (- set as) \<and> mem_next m' = mem_next m1"
    by (rule Cons.IH [OF 2]) (use R Cons.prems in auto)
  moreover have "(mem_nodes m)(a := None) |` (- set as) = mem_nodes m |` (- set (a # as))"
    by (rule ext) (simp add: restrict_map_def)
  ultimately show ?case using R Cons.prems by simp
qed (simp add: restrict_map_def)

lemma restrict_away [simp]: "m |` (- {}) = m"
  by (simp add: restrict_map_def)

lemma held_restrict: "held (m\<lparr>mem_nodes := ns\<rparr>) t = (\<forall>(a, v)\<in>set (cells t). ns a = Some v)"
  by (simp add: held_def)

lemma held_fewer:
  assumes "held m t" "mem_nodes m' = mem_nodes m |` (- B)" "set (addrs t) \<inter> B = {}"
  shows "held m' t"
proof -
  have "(a, v) \<in> set (cells t) \<Longrightarrow> a \<notin> B" for a v using assms(3) by force
  then show ?thesis using assms(1,2) by (auto simp: held_def restrict_map_def)
qed

subsection \<open>Snapshots\<close>

lemma capture_inv:
  assumes "treap_inv m t"
  shows "treap_inv m (treap_capture t)" "st_root (tr_snap (treap_capture t)) = root t" "root (treap_capture t) = root t"
  using assms by (auto simp: treap_inv_def treap_capture_def Let_def)

lemma save_finish_inv:
  assumes "treap_inv m t" "treap_save_finish m t = (t', m')"
  shows "treap_inv m' t' \<and> root t' = root t \<and> st_pending (tr_live t') = st_pending (tr_live t)
     \<and> dom (mem_nodes m') = dom (mem_nodes m) - set (st_pending (tr_snap t))"
proof -
  let ?S = "st_pending (tr_snap t)"
  from assms(1) have i: "mem_wf m" "distinct (addrs (root t) @ st_pending (tr_live t) @ ?S)"
    "set (st_pending (tr_live t)) \<union> set ?S \<subseteq> dom (mem_nodes m)" "held m (root t)" by (auto simp: treap_inv_def)
  obtain n where f: "treap_release_list True m ?S = (n, m')" and t': "tr_snap t' = st_zero" "root t' = root t"
    "st_pending (tr_live t') = st_pending (tr_live t)" "st_count (tr_live t') = st_count (tr_live t)"
    "tr_seed t' = tr_seed t" "tr_txn t' = tr_txn t"
    using assms(2) by (auto simp: treap_save_finish_def treap_free_chain_def Let_def split: prod.splits)
  from release_list_counting [OF f i(1)] i(2,3) have r: "mem_wf m'" "mem_nodes m' = mem_nodes m |` (- set ?S)" by auto
  have "held m' (root t)" by (rule held_fewer [OF i(4) r(2)]) (use i(2) in auto)
  moreover have d: "dom (mem_nodes m') = dom (mem_nodes m) - set ?S" using r(2) by (auto simp: restrict_map_def split: if_splits)
  moreover have "set (st_pending (tr_live t)) \<subseteq> dom (mem_nodes m')" unfolding d using i(2,3) by auto
  ultimately show ?thesis using assms(1) r(1) t' by (auto simp: treap_inv_def st_zero_def)
qed

subsection \<open>Transactions\<close>

definition txn_inv :: "treap_mem \<Rightarrow> treap \<Rightarrow> treap \<Rightarrow> bool" where
  "txn_inv m t c \<longleftrightarrow> treap_inv m t \<and> tr_txn c \<and> tr_owner c = Some (tr_id t) \<and> tr_seed c = tr_seed t
     \<and> tree_ok (tr_seed c) (root c) \<and> held m (root c) \<and> st_count (tr_live c) = of_nat (length (entries (root c)))
     \<and> balanced op_zero (addrs (root t)) (tr_op c) (addrs (root c))
     \<and> distinct (op_alloc (tr_op c)) \<and> set (op_alloc (tr_op c)) \<subseteq> dom (mem_nodes m)
     \<and> set (op_alloc (tr_op c)) \<inter> (set (addrs (root t)) \<union> set (st_pending (tr_live t)) \<union> set (st_pending (tr_snap t))) = {}"

lemma fork_txn:
  assumes "treap_inv m t" "treap_fork m t = (Some c, m')"
  shows "txn_inv m' t c \<and> root c = root t"
proof -
  from assms(2) inv_parts(4) [OF assms(1)] obtain i where ml: "treap_malloc m = (Some i, m')"
    and c: "tr_txn c" "tr_owner c = Some (tr_id t)" "tr_seed c = tr_seed t" "root c = root t"
      "st_count (tr_live c) = st_count (tr_live t)" "tr_op c = op_zero"
    by (auto simp: treap_fork_def split: option.splits prod.splits)
  note M = mem_wf_malloc [OF inv_parts(1) [OF assms(1)] ml]
  have i': "treap_inv m' t" using assms(1) M(1,2) by (auto simp: treap_inv_def held_def)
  then show ?thesis using c by (simp add: txn_inv_def treap_inv_def) (simp add: op_zero_def)
qed

text \<open>The owner does not notice what an operation on the copy adds to the memory.\<close>

lemma owner_frame:
  assumes "treap_inv m t" "mem_wf m'" "\<forall>a<mem_next m. mem_nodes m' a = mem_nodes m a"
  shows "treap_inv m' t"
proof -
  have keep: "mem_nodes m' a = Some v" if "mem_nodes m a = Some v" for a v
    using assms(3) that mem_wf_node [OF inv_parts(1) [OF assms(1)] that] by simp
  then have d: "dom (mem_nodes m) \<subseteq> dom (mem_nodes m')" by fastforce
  have h: "held m u \<Longrightarrow> held m' u" for u using keep by (auto simp: held_def)
  from assms(1) have "set (st_pending (tr_live t)) \<union> set (st_pending (tr_snap t)) \<subseteq> dom (mem_nodes m)"
    by (simp add: treap_inv_def)
  with d have "set (st_pending (tr_live t)) \<union> set (st_pending (tr_snap t)) \<subseteq> dom (mem_nodes m')" by (rule order_trans [rotated])
  with assms(1,2) h show ?thesis by (simp add: treap_inv_def)
qed

lemma inv_dom:
  assumes "treap_inv m t"
  shows "set (addrs (root t)) \<union> set (st_pending (tr_live t)) \<union> set (st_pending (tr_snap t)) \<subseteq> dom (mem_nodes m)"
  using assms held_addrs [OF inv_parts(2) [OF assms]] by (simp add: treap_inv_def)

lemma txn_untouched:
  assumes "txn_inv m t c" "untouched m c m' c'"
  shows "txn_inv m' t c'"
proof -
  from assms have "treap_inv m' t"
    by (intro owner_frame [of m t m']) (auto simp: txn_inv_def untouched_def)
  with assms show ?thesis by (auto simp: txn_inv_def untouched_def held_def)
qed

lemma balanced_merge:
  assumes "balanced op_zero a T b" "balanced op_zero b op c"
  shows "balanced op_zero a (fst (treap_op_merge T op)) c"
proof -
  have 1: "mset b + mset (op_free T) = mset a + mset (op_alloc T)"
    and 2: "mset c + mset (op_free op) = mset b + mset (op_alloc op)"
    using assms by (simp_all add: balanced_def op_zero_def)
  have "mset c + mset (op_free T @ op_free op) = (mset c + mset (op_free op)) + mset (op_free T)" by simp
  also have "\<dots> = (mset b + mset (op_free T)) + mset (op_alloc op)" unfolding 2 by simp
  also have "\<dots> = mset a + mset (op_alloc op @ op_alloc T)" unfolding 1 by simp
  finally show ?thesis using assms by (simp add: balanced_def op_zero_def treap_op_merge_def)
qed

lemma txn_publish:
  assumes "txn_inv m t c" "op_result m (root c) m' op result" "tree_ok (tr_seed c) result"
    "st_count (tr_live (treap_publish_op c op result d)) = of_nat (length (entries result))"
  shows "txn_inv m' t (treap_publish_op c op result d)"
proof -
  let ?c = "treap_publish_op c op result d" and ?T = "tr_op c"
  let ?X = "set (addrs (root t)) \<union> set (st_pending (tr_live t)) \<union> set (st_pending (tr_snap t))"
  have t: "treap_inv m t" "tr_txn c" and b1: "balanced op_zero (addrs (root t)) ?T (addrs (root c))"
    and al: "distinct (op_alloc ?T)" "set (op_alloc ?T) \<subseteq> dom (mem_nodes m)" "set (op_alloc ?T) \<inter> ?X = {}"
    using assms(1) by (auto simp: txn_inv_def)
  note wf = inv_parts(1) [OF t(1)]
  have op: "tr_op ?c = \<lparr>op_alloc = op_alloc op @ op_alloc ?T, op_free = op_free ?T @ op_free op,
      op_free_count = op_free_count ?T + op_free_count op, op_alloc_bytes = op_alloc_bytes ?T + op_alloc_bytes op,
      op_free_bytes = op_free_bytes ?T + op_free_bytes op\<rparr>"
    using t(2) by (simp add: treap_publish_op_def treap_op_merge_def Let_def)
  from assms(2) have b2: "balanced op_zero (addrs (root c)) op (addrs result)" and h: "held m' result" "mem_wf m'"
    and ext: "\<forall>a<mem_next m. mem_nodes m' a = mem_nodes m a" "distinct (op_alloc op)"
      "set (op_alloc op) \<subseteq> {mem_next m..<mem_next m'}" "dom (mem_nodes m') = dom (mem_nodes m) \<union> set (op_alloc op)"
    by (auto simp: op_result_def op_run_def op_ext_def op_zero_def)
  have low: "dom (mem_nodes m) \<subseteq> {..<mem_next m}" using mem_wf_node [OF wf] by auto
  note X = inv_dom [OF t(1)]
  have dj: "set (op_alloc op) \<inter> dom (mem_nodes m) = {}"
  proof -
    have "{mem_next m..<mem_next m'} \<inter> {..<mem_next m} = {}" by auto
    then show ?thesis using low ext(3) by blast
  qed
  then have "set (op_alloc op) \<inter> set (op_alloc ?T) = {}" "set (op_alloc op) \<inter> ?X = {}" using al(2) X by blast+
  then have "distinct (op_alloc op @ op_alloc ?T)" "set (op_alloc op @ op_alloc ?T) \<inter> ?X = {}"
    using al(1,3) ext(2) by (simp_all add: Int_Un_distrib2)
  moreover have "balanced op_zero (addrs (root t)) (tr_op ?c) (addrs result)"
    using balanced_merge [OF b1 b2] by (simp add: op treap_op_merge_def)
  moreover have "set (op_alloc op @ op_alloc ?T) \<subseteq> dom (mem_nodes m')" using al(2) ext(4) by auto
  ultimately show ?thesis
    using owner_frame [OF t(1) h(2) ext(1)] assms h t(2) op by (simp add: txn_inv_def)
qed

lemma txn_parts:
  assumes "txn_inv m t c"
  shows "mem_wf m" "held m (root c)" "tree_ok (tr_seed c) (root c)" "st_count (tr_live c) = of_nat (length (entries (root c)))"
  using assms inv_parts by (auto simp: txn_inv_def)

lemma txn_set:
  assumes "txn_inv m t c" "treap_set m c key value = (rc, c', m')"
  shows "txn_inv m' t c'"
proof -
  note i = txn_parts [OF assms(1)]
  from set_run [OF assms(2) i(1,2)] show ?thesis
  proof (elim disjE conjE exE)
    assume "untouched m c m' c'"
    then show ?thesis by (rule txn_untouched [OF assms(1)])
  next
    fix op result d assume "rc = 0" and p: "c' = treap_publish_op c op result d" "op_result m (root c) m' op result"
    then have rc: "rc \<noteq> -1" by simp
    from txn_publish [OF assms(1) p(2), of d] set_tree(1) [OF assms(2) rc i(3)] set_count [OF assms(2) rc i(3,4)]
    show ?thesis by (simp add: p(1))
  qed
qed

lemma txn_delete:
  assumes "txn_inv m t c" "treap_delete m c key = (rc, c', m')"
  shows "txn_inv m' t c'"
proof -
  note i = txn_parts [OF assms(1)]
  from delete_run [OF assms(2) i(1,2)] show ?thesis
  proof (elim disjE conjE exE)
    assume "untouched m c m' c'"
    then show ?thesis by (rule txn_untouched [OF assms(1)])
  next
    fix op result assume "rc = 1" and p: "c' = treap_publish_op c op result (-1)" "op_result m (root c) m' op result"
    then have rc: "rc \<noteq> -1" by simp
    from txn_publish [OF assms(1) p(2), of "-1"] delete_tree(1) [OF assms(2) rc i(3)] delete_count [OF assms(2) rc i(3,4)]
    show ?thesis by (simp add: p(1))
  qed
qed

text \<open>A working copy of any owner is a key-value store too: reads see the transaction's own writes.\<close>

interpretation txn: kv_store "\<lambda>s. txn_inv (fst s) t (snd s)" "\<lambda>s. store_map (snd s)" store_set store_del
  "\<lambda>s k. treap_get (snd s) k" for t
proof
  fix s :: "treap_mem \<times> treap" and k v rc s'
  assume i: "txn_inv (fst s) t (snd s)"
  show "txn_inv (fst s') t (snd s') \<and> (rc = 0 \<and> store_map (snd s') = (store_map (snd s))(k \<mapsto> v) \<or>
      rc = -1 \<and> store_map (snd s') = store_map (snd s))" if "store_set s k v = (rc, s')"
    using that txn_set [OF i, of k v rc "snd s'" "fst s'"] set_map_law [OF txn_parts(1-3) [OF i], of k v rc "snd s'" "fst s'"]
    by (auto split: prod.splits)
  show "txn_inv (fst s') t (snd s') \<and> (rc = (if k \<in> dom (store_map (snd s)) then 1 else 0)
      \<and> store_map (snd s') = (store_map (snd s))(k := None) \<or> rc = -1 \<and> store_map (snd s') = store_map (snd s))"
    if "store_del s k = (rc, s')"
    using that txn_delete [OF i, of k rc "snd s'" "fst s'"] del_map_law [OF txn_parts(1-3) [OF i], of k rc "snd s'" "fst s'"]
    by (auto simp: fun_upd_idem split: prod.splits)
  show "treap_get (snd s) k = (case store_map (snd s) k of None \<Rightarrow> (0, []) | Some v \<Rightarrow> (1, v))" if "k \<noteq> []"
    using treap_get_spec [OF txn_parts(3) [OF i]] that by simp
qed

lemma commit_inv:
  assumes "txn_inv m t c" "treap_commit c t = (rc, t')"
  shows "rc = 0 \<and> treap_inv m t' \<and> root t' = root c \<and> tr_snap t' = tr_snap t"
proof -
  let ?A = "set (addrs (root t))" and ?P = "set (st_pending (tr_live t))" and ?S = "set (st_pending (tr_snap t))"
  have t: "treap_inv m t" and c: "tr_txn c" "tr_owner c = Some (tr_id t)" "tr_seed c = tr_seed t"
    and al: "distinct (op_alloc (tr_op c))" "set (op_alloc (tr_op c)) \<subseteq> dom (mem_nodes m)"
      "set (op_alloc (tr_op c)) \<inter> (?A \<union> ?P \<union> ?S) = {}"
    using assms(1) by (auto simp: txn_inv_def)
  note cp = txn_parts [OF assms(1)]
  have b: "mset (addrs (root c) @ op_free (tr_op c)) = mset (addrs (root t) @ op_alloc (tr_op c))"
    using assms(1) by (simp add: txn_inv_def balanced_def op_zero_def)
  have i: "distinct (addrs (root t) @ st_pending (tr_live t) @ st_pending (tr_snap t))"
    "held m (st_root (tr_snap t))" "set (addrs (st_root (tr_snap t))) \<subseteq> ?A \<union> ?P" "\<not> tr_txn t"
    using t by (simp_all add: treap_inv_def)
  have e: "set (addrs (root c)) \<union> set (op_free (tr_op c)) = ?A \<union> set (op_alloc (tr_op c))"
    using mset_eq_setD [OF b] by simp
  have "distinct (addrs (root t) @ op_alloc (tr_op c))" using i(1) al(1,3) by auto
  then have d: "distinct (addrs (root c) @ op_free (tr_op c))" using mset_eq_imp_distinct_iff [OF b] by simp
  have "(set (addrs (root c)) \<union> set (op_free (tr_op c))) \<inter> (?P \<union> ?S) = {}"
    unfolding e using i(1) al(3) by auto
  with d i(1) have d': "distinct (addrs (root c) @ (op_free (tr_op c) @ st_pending (tr_live t)) @ st_pending (tr_snap t))" by auto
  have "set (op_free (tr_op c)) \<subseteq> dom (mem_nodes m)" using e al(2) inv_dom [OF t] by blast
  then have p: "set (op_free (tr_op c) @ st_pending (tr_live t)) \<union> ?S \<subseteq> dom (mem_nodes m)" using inv_dom [OF t] by auto
  have s: "set (addrs (st_root (tr_snap t))) \<subseteq> set (addrs (root c)) \<union> set (op_free (tr_op c) @ st_pending (tr_live t))"
    using i(3) e by auto
  have t': "rc = 0" "root t' = root c" "tr_snap t' = tr_snap t" "st_count (tr_live t') = st_count (tr_live c)"
    "st_pending (tr_live t') = op_free (tr_op c) @ st_pending (tr_live t)" "tr_seed t' = tr_seed t" "tr_txn t' = tr_txn t"
    using assms(2) c by (auto simp: treap_commit_def Let_def)
  show ?thesis unfolding treap_inv_def t' using cp c(3) d' p s i(2,4) by (intro conjI) simp_all
qed

lemma abort_inv:
  assumes "txn_inv m t c"
  shows "treap_inv (treap_abort m c) t"
proof -
  let ?B = "set (op_alloc (tr_op c))"
  have t: "treap_inv m t" "tr_txn c" "?B \<inter> (set (addrs (root t)) \<union> set (st_pending (tr_live t)) \<union> set (st_pending (tr_snap t))) = {}"
    using assms by (auto simp: txn_inv_def)
  let ?m = "m\<lparr>mem_nodes := mem_nodes m |` (- ?B)\<rparr>"
  have m: "treap_abort m c = ?m" using t(2) by (simp add: treap_abort_def release_list_plain)
  have wf: "mem_wf ?m"
    by (rule mem_wf_fewer [OF inv_parts(1) [OF t(1)]]) (simp add: restrict_map_def split: if_splits)
  have i: "held m (root t)" "held m (st_root (tr_snap t))"
    "set (addrs (st_root (tr_snap t))) \<subseteq> set (addrs (root t)) \<union> set (st_pending (tr_live t))"
    using t(1) by (simp_all add: treap_inv_def)
  have "held ?m (root t)" by (rule held_fewer [OF i(1), of _ ?B]) (use t(3) in auto)
  moreover have "held ?m (st_root (tr_snap t))" by (rule held_fewer [OF i(2), of _ ?B], simp) (use t(3) i(3) in blast)
  moreover have "set (st_pending (tr_live t)) \<union> set (st_pending (tr_snap t)) \<subseteq> dom (mem_nodes ?m)"
    using inv_dom [OF t(1)] t(3) by (auto simp: restrict_map_def)
  ultimately show ?thesis unfolding m using t(1) wf by (simp add: treap_inv_def)
qed

end
