(* ===== verification/Treap_Stream.thy ===== *)
theory Treap_Stream
  imports Treap_Txn Kbase
begin

section \<open>treap.h: scans, saved snapshots and loading\<close>

text \<open>
  The traversals of \<^verbatim>\<open>src/code/treap.h\<close> with an explicit stack: \<^verbatim>\<open>treap_scan\<close> with a visitor,
  \<^verbatim>\<open>treap_save\<close>, which streams the captured snapshot, and \<^verbatim>\<open>treap_load\<close>, which rebuilds a store
  from such a stream by keeping the right spine of the tree on its stack. A visitor returns whether
  to stop. A write may fail at any point (a script of outcomes); a read fails at the end of the
  stream. The stack is a list, top first.
\<close>

subsection \<open>Scanning\<close>

text \<open>The descent that pushes a node and goes to the near side, or goes to the far side: ascending or descending.\<close>

fun scan_seek :: "bool \<Rightarrow> treap_mem \<Rightarrow> nat \<Rightarrow> treap_node list \<Rightarrow> bytes \<Rightarrow> treap_node
    \<Rightarrow> (nat \<times> treap_node list) option \<times> treap_mem" where
  "scan_seek asc m cap stack bound Null = (Some (cap, stack), m)"
| "scan_seek asc m cap stack bound (Node a p s k v l r) =
     (if bound = [] \<or> (if asc then treap_key_cmp k bound \<ge> 0 else treap_key_cmp k bound < 0)
      then case stack_push m cap stack (Node a p s k v l r) of
             (None, m') \<Rightarrow> (None, m')
           | (Some (cap', stack'), m') \<Rightarrow> scan_seek asc m' cap' stack' bound (if asc then l else r)
      else scan_seek asc m cap stack bound (if asc then r else l))"

fun far_child :: "bool \<Rightarrow> treap_node \<Rightarrow> treap_node" where
  "far_child asc Null = Null"
| "far_child asc (Node a p s k v l r) = (if asc then r else l)"

abbreviation scan_weight :: "bool \<Rightarrow> treap_node list \<Rightarrow> nat" where
  "scan_weight asc stack \<equiv> sum_list (map (\<lambda>n. 1 + size (far_child asc n)) stack)"

lemma scan_seek_weight:
  "scan_seek asc m cap stack [] t = (Some (cap', stack'), m') \<Longrightarrow> scan_weight asc stack' = scan_weight asc stack + size t"
proof (induction t arbitrary: m cap stack)
  case (Node a p s k v l r)
  from Node.prems obtain c1 m1 where "stack_push m cap stack (Node a p s k v l r) = (Some (c1, Node a p s k v l r # stack), m1)"
    "scan_seek asc m1 c1 (Node a p s k v l r # stack) [] (if asc then l else r) = (Some (cap', stack'), m')"
    by (auto split: option.splits prod.splits dest: stack_push_stack)
  then show ?case using Node.IH by (cases asc) (auto simp: algebra_simps)
qed simp

function scan_loop :: "bool \<Rightarrow> (bytes \<Rightarrow> bytes \<Rightarrow> 'u \<Rightarrow> bool \<times> 'u) \<Rightarrow> treap_mem \<Rightarrow> nat \<Rightarrow> treap_node list \<Rightarrow> bytes \<Rightarrow> u64 \<Rightarrow> 'u
    \<Rightarrow> u64 \<times> 'u \<times> treap_mem" where
  "scan_loop asc fn m cap [] bound cnt ud = (cnt, ud, m)"
| "scan_loop asc fn m cap (cur # stack) bound cnt ud =
     (if bound \<noteq> [] \<and> (if asc then treap_key_cmp (node_key cur) bound \<ge> 0 else treap_key_cmp (node_key cur) bound < 0)
      then (cnt, ud, m)
      else let (stop, ud) = fn (node_key cur) (node_value cur) ud
        in if stop then (cnt + 1, ud, m)
           else case scan_seek asc m cap stack [] (far_child asc cur) of
               (None, m') \<Rightarrow> (-1, ud, m')
             | (Some (cap', stack'), m') \<Rightarrow> scan_loop asc fn m' cap' stack' bound (cnt + 1) ud)"
  by pat_completeness auto
termination
  by (relation "measure (\<lambda>(asc, fn, m, cap, stack, bound, cnt, ud). scan_weight asc stack)")
     (auto dest: scan_seek_weight [OF sym])

text \<open>An empty bound is open. The near bound is where the scan starts: the begin when ascending.\<close>

definition treap_scan :: "treap_mem \<Rightarrow> treap \<Rightarrow> bytes \<Rightarrow> bytes \<Rightarrow> bool \<Rightarrow> (bytes \<Rightarrow> bytes \<Rightarrow> 'u \<Rightarrow> bool \<times> 'u) \<Rightarrow> 'u
    \<Rightarrow> u64 \<times> 'u \<times> treap_mem" where
  "treap_scan m t b e asc fn ud =
     (if root t = Null then (0, ud, m)
      else let (ok, s) = alloc (mem_script m); m = m\<lparr>mem_script := s\<rparr>
        in if \<not> ok then (-1, ud, m)
           else case scan_seek asc m 64 [] (if asc then b else e) (root t) of
               (None, m) \<Rightarrow> (-1, ud, m)
             | (Some (cap, stack), m) \<Rightarrow> scan_loop asc fn m cap stack (if asc then e else b) 0 ud)"

subsection \<open>Saving\<close>

text \<open>The outcome of a write: the script of outcomes and what was written so far.\<close>

definition put_out :: "script \<times> bytes \<Rightarrow> bytes \<Rightarrow> bool \<times> script \<times> bytes" where
  "put_out w data = (case alloc (fst w) of (ok, s) \<Rightarrow> if ok then (True, s, snd w @ data) else (False, s, snd w))"

definition save_len :: "nat \<Rightarrow> bytes" where
  "save_len n = k_write_u32 (of_nat n)"

definition save_node :: "script \<times> bytes \<Rightarrow> bytes \<Rightarrow> bytes \<Rightarrow> bool \<times> script \<times> bytes" where
  "save_node w key value =
     (case put_out w (save_len (length key)) of (False, w) \<Rightarrow> (False, w) | (True, w) \<Rightarrow>
     (case (if key \<noteq> [] then put_out w key else (True, w)) of (False, w) \<Rightarrow> (False, w) | (True, w) \<Rightarrow>
     (case put_out w (save_len (length value)) of (False, w) \<Rightarrow> (False, w) | (True, w) \<Rightarrow>
      if value \<noteq> [] then put_out w value else (True, w))))"

function save_loop :: "treap_mem \<Rightarrow> nat \<Rightarrow> treap_node list \<Rightarrow> script \<times> bytes \<Rightarrow> bool \<times> (script \<times> bytes) \<times> treap_mem" where
  "save_loop m cap [] w = (True, w, m)"
| "save_loop m cap (cur # stack) w =
     (case save_node w (node_key cur) (node_value cur) of (False, w) \<Rightarrow> (False, w, m)
      | (True, w) \<Rightarrow> (case scan_seek True m cap stack [] (far_child True cur) of
            (None, m') \<Rightarrow> (False, w, m')
          | (Some (cap', stack'), m') \<Rightarrow> save_loop m' cap' stack' w))"
  by pat_completeness auto
termination
  by (relation "measure (\<lambda>(m, cap, stack, w). scan_weight True stack)") (auto dest: scan_seek_weight [OF sym])

definition treap_save :: "treap_mem \<Rightarrow> treap \<Rightarrow> script \<times> bytes \<Rightarrow> int \<times> (script \<times> bytes) \<times> treap_mem" where
  "treap_save m t w =
     (let sr = st_root (tr_snap t);
          (ok, w, m) = (if sr = Null then (True, w, m)
            else let (ok, s) = alloc (mem_script m); m = m\<lparr>mem_script := s\<rparr>
              in if \<not> ok then (False, w, m)
                 else case scan_seek True m 64 [] [] sr of (None, m) \<Rightarrow> (False, w, m)
                   | (Some (cap, stack), m) \<Rightarrow> save_loop m cap stack w)
      in if \<not> ok then (-1, w, m)
         else case put_out w (save_len 0) of (ok, w) \<Rightarrow> (if ok then 0 else -1, w, m))"

subsection \<open>Releasing a whole tree\<close>

text \<open>The tree is rotated to the right until its root has no left child, which is then released.\<close>

function treap_free_tree :: "treap_mem \<Rightarrow> treap_node \<Rightarrow> u64 \<times> treap_mem" where
  "treap_free_tree m Null = (0, m)"
| "treap_free_tree m (Node a p s k v Null r) =
     (let (n, m1) = treap_node_release True m a; (ns, m2) = treap_free_tree m1 r in (n + ns, m2))"
| "treap_free_tree m (Node a p s k v (Node a2 p2 s2 k2 v2 l2 r2) r) = treap_free_tree m (Node a2 p2 s2 k2 v2 l2 (Node a p s k v r2 r))"
  by pat_completeness auto
termination
  by (relation "measures [\<lambda>(m, t). size t, \<lambda>(m, t). case t of Null \<Rightarrow> 0 | Node a p s k v l r \<Rightarrow> size l]") auto

definition treap_free :: "treap_mem \<Rightarrow> treap \<Rightarrow> treap_mem" where
  "treap_free m t =
     (if tr_txn t then treap_abort m t
      else let m = snd (treap_free_chain m (st_pending (tr_snap t))); m = snd (treap_free_chain m (st_pending (tr_live t)))
        in snd (treap_free_tree m (root t)))"

subsection \<open>Loading\<close>

text \<open>The stack of \<^verbatim>\<open>treap_load\<close> is the right spine of the tree built so far, without the links between its nodes:
  the right child of every node on it is the next node towards the top.\<close>

type_synonym spine = "(nat \<times> u64 \<times> bytes \<times> (nat \<times> bytes) option \<times> treap_node) list"

fun close_spine :: "spine \<Rightarrow> treap_node \<Rightarrow> treap_node" where
  "close_spine [] t = t"
| "close_spine ((a, p, k, v, l) # st) t = close_spine st (fixed a p k v l t)"

fun load_pop :: "u64 \<Rightarrow> bytes \<Rightarrow> spine \<Rightarrow> treap_node \<Rightarrow> spine \<times> treap_node" where
  "load_pop p k [] prv = ([], prv)"
| "load_pop p k ((a, p1, k1, v1, l1) # st) prv =
     (if treap_priority_cmp p1 k1 p k < 0 then load_pop p k st (fixed a p1 k1 v1 l1 prv) else ((a, p1, k1, v1, l1) # st, prv))"

definition take_in :: "nat \<Rightarrow> bytes \<Rightarrow> (bytes \<times> bytes) option" where
  "take_in n inp = (if n \<le> length inp then Some (take n inp, drop n inp) else None)"

definition grow_buf :: "treap_mem \<Rightarrow> nat \<Rightarrow> nat \<Rightarrow> nat option \<times> treap_mem" where
  "grow_buf m cap n = (if n > cap then let (ok, s) = alloc (mem_script m) in (if ok then Some n else None, m\<lparr>mem_script := s\<rparr>) else (Some cap, m))"

text \<open>One key and value from the stream, with the buffers they are read into.\<close>

definition load_item :: "treap_mem \<Rightarrow> nat \<Rightarrow> nat \<Rightarrow> nat \<Rightarrow> bytes \<Rightarrow> (bytes \<times> bytes \<times> nat \<times> nat \<times> bytes) option \<times> treap_mem" where
  "load_item m kcap vcap klen inp =
     (case grow_buf m kcap klen of (None, m) \<Rightarrow> (None, m) | (Some kcap, m) \<Rightarrow>
     (case take_in klen inp of None \<Rightarrow> (None, m) | Some (key, inp) \<Rightarrow>
     (case take_in 4 inp of None \<Rightarrow> (None, m) | Some (b, inp) \<Rightarrow>
      let vlen = unat (k_read_u32 b)
      in case grow_buf m vcap vlen of (None, m) \<Rightarrow> (None, m) | (Some vcap, m) \<Rightarrow>
         (case take_in vlen inp of None \<Rightarrow> (None, m) | Some (value, inp) \<Rightarrow> (Some (key, value, kcap, vcap, inp), m)))))"

definition load_node :: "u64 \<Rightarrow> treap_mem \<Rightarrow> bytes \<Rightarrow> bytes \<Rightarrow> (nat \<times> (nat \<times> bytes) option \<times> u64) option \<times> treap_mem" where
  "load_node seed m key value =
     (let sz = treap_node_bytes (length key)
      in if sz > 0xffffffff then (None, m)
         else case treap_malloc m of (None, m) \<Rightarrow> (None, m)
           | (Some a, m) \<Rightarrow>
               (case treap_node_attach_value (m\<lparr>mem_nodes := (mem_nodes m)(a \<mapsto> None)\<rparr>) (treap_node_init a key (treap_hash seed key)) value of
                  (False, _, _, m) \<Rightarrow> (None, m\<lparr>mem_nodes := (mem_nodes m)(a := None)\<rparr>)
                | (True, Null, _, m) \<Rightarrow> (None, m)
                | (True, Node _ _ _ _ v _ _, vb, m) \<Rightarrow> (Some (a, v, ucast (of_nat sz + ucast vb :: u32)), m)))"

lemma take_in_less: "take_in n inp = Some (x, inp') \<Longrightarrow> length inp' = length inp - n \<and> n \<le> length inp"
  by (auto simp: take_in_def split: if_splits)

lemma load_item_less: "load_item m kcap vcap klen inp = (Some (key, value, kc, vc, inp'), m') \<Longrightarrow> length inp' \<le> length inp"
  by (auto simp: load_item_def Let_def dest!: take_in_less split: option.splits prod.splits)

text \<open>The stack at the end with the number of nodes and bytes, or the stack to release.\<close>

function load_loop :: "u64 \<Rightarrow> treap_mem \<Rightarrow> nat \<Rightarrow> spine \<Rightarrow> nat \<Rightarrow> nat \<Rightarrow> u64 \<Rightarrow> u64 \<Rightarrow> bytes
    \<Rightarrow> (spine + spine \<times> u64 \<times> u64) \<times> bytes \<times> treap_mem" where
  "load_loop seed m cap stack kcap vcap node_count loaded inp =
     (case take_in 4 inp of None \<Rightarrow> (Inl stack, inp, m)
      | Some (b, inp) \<Rightarrow>
          let klen = unat (k_read_u32 b)
          in if klen = 0 then (Inr (stack, node_count, loaded), inp, m)
             else case load_item m kcap vcap klen inp of (None, m) \<Rightarrow> (Inl stack, inp, m)
               | (Some (key, value, kcap, vcap, inp), m) \<Rightarrow>
                   (case load_node seed m key value of (None, m) \<Rightarrow> (Inl stack, inp, m)
                    | (Some (a, v, total_bytes), m) \<Rightarrow>
                        let (rest, prv) = load_pop (treap_hash seed key) key stack Null; n = (a, treap_hash seed key, key, v, prv)
                        in case stack_push m cap rest n of (None, m) \<Rightarrow> (Inl (n # rest), inp, m)
                           | (Some (cap, stack), m) \<Rightarrow>
                               load_loop seed m cap stack kcap vcap (node_count + 1) (loaded + total_bytes) inp))"
  by pat_completeness auto
termination
  by (relation "measure (\<lambda>(seed, m, cap, stack, kcap, vcap, n, l, inp). length inp)")
     (auto dest!: take_in_less load_item_less [OF sym])

declare load_loop.simps [simp del]

definition treap_load :: "treap_mem \<Rightarrow> treap \<Rightarrow> bytes \<Rightarrow> int \<times> treap \<times> treap_mem \<times> bytes" where
  "treap_load m t inp =
     (if tr_txn t then (-1, t, m, inp)
      else if st_root (tr_snap t) \<noteq> Null \<or> st_pending (tr_snap t) \<noteq> [] then (-1, t, m, inp)
      else let (ok, s) = alloc (mem_script m); m = m\<lparr>mem_script := s\<rparr>
        in if \<not> ok then (-1, t, m, inp)
           else case load_loop (tr_seed t) m 64 [] 0 0 0 0 inp of
               (Inl stack, inp, m) \<Rightarrow> (-1, t, snd (treap_free_tree m (close_spine stack Null)), inp)
             | (Inr (stack, node_count, loaded), inp, m) \<Rightarrow>
                 let m = snd (treap_free_chain m (st_pending (tr_snap t))); m = snd (treap_free_chain m (st_pending (tr_live t)));
                     m = snd (treap_free_tree m (root t))
                 in (0, t\<lparr>tr_snap := st_zero, tr_live := st_zero\<lparr>st_root := close_spine stack Null, st_count := node_count, st_tree_bytes := loaded\<rparr>\<rparr>, m, inp))"

end
