(* ===== verification/Treap_Props.thy ===== *)
theory Treap_Props
  imports Treap_Txn
begin

section \<open>Order statistics, canonical shape, and the properties of the store\<close>

text \<open>
  Rank, selection and range counts against the sorted list of entries; the shape of the tree as a
  function of its entries and the seed alone; then the properties of the component, each with a
  concrete instance.
\<close>

subsection \<open>Rank, selection, ranges\<close>

lemma rank_loop_spec:
  "sorted_wrt (<) (keys t) \<Longrightarrow> sized t \<Longrightarrow>
    rank_loop key n t = n + of_nat (length (filter (\<lambda>k. k < key) (keys t)))"
proof (induction t arbitrary: n)
  case (Node a p s k v l r)
  have s: "sorted_wrt (<) (keys l)" "sorted_wrt (<) (keys r)" "\<forall>x\<in>set (keys l). x < k" "\<forall>x\<in>set (keys r). k < x"
    "sized l" "sized r"
    using Node.prems by (auto simp: sorted_wrt_append)
  show ?case
  proof (cases "k < key")
    case True
    then have "filter (\<lambda>x. x < key) (keys l) = keys l" using s(3) by (meson filter_all less_trans)
    with True Node.IH(2) [OF s(2,6)] show ?thesis by (simp add: sized_size [OF s(5)] filter_map comp_def)
  next
    case False
    then have "filter (\<lambda>x. x < key) (keys r) = []" using s(4) by (meson filter_none less_trans)
    with False Node.IH(1) [OF s(1,5)] show ?thesis by (simp add: filter_map comp_def)
  qed
qed simp

lemma select_loop_spec:
  assumes "sized t" "length (entries t) < 2 ^ 64"
  shows "found (select_loop i t) = (if unat i < length (entries t) then Some (entries t ! unat i) else None)"
  using assms
proof (induction t arbitrary: i)
  case (Node a p s k v l r)
  have l: "sized l" "sized r" "length (entries l) < 2 ^ 64" "length (entries r) < 2 ^ 64"
    using Node.prems by auto
  have n: "node_size l = of_nat (length (entries l))" "unat (node_size l) = length (entries l)"
    using sized_size [OF l(1)] l(3) by (simp_all add: unat_of_nat take_bit_nat_eq_self)
  show ?case
  proof (cases "unat i" "length (entries l)" rule: linorder_cases)
    case less
    then have "i < node_size l" using n(2) by (simp add: word_less_nat_alt)
    then show ?thesis using Node.IH(1) [OF l(1,3)] less by (simp add: Let_def nth_append)
  next
    case equal
    then have "i = node_size l" using n(2) by (simp add: word_unat_eq_iff)
    then show ?thesis using equal by (simp add: Let_def found_def nth_append)
  next
    case greater
    then have i: "\<not> i < node_size l" "i \<noteq> node_size l" using n(2) by (auto simp: word_less_nat_alt)
    have "unat (i - (node_size l + 1)) = unat i - (length (entries l) + 1)"
    proof -
      have w: "node_size l + 1 = of_nat (length (entries l) + 1)" by (simp add: n(1))
      have u: "unat (node_size l + 1) = length (entries l) + 1"
        unfolding w by (rule unat_of_nat_less) (use Node.prems(2) in simp)
      have "node_size l + 1 \<le> i" using u greater by (simp add: word_le_nat_alt)
      then show ?thesis using u by (simp add: unat_sub)
    qed
    then show ?thesis using i greater Node.IH(2) [OF l(2,4), of "i - (node_size l + 1)"]
      by (auto simp: Let_def nth_append nth_Cons' diff_diff_left)
  qed
qed (simp add: found_def)

text \<open>Lengths of filters of a sorted list, as words: the ranks bound the range.\<close>

lemma unat_length: "length es < 2 ^ 64 \<Longrightarrow> unat (of_nat (length es) :: u64) = length es"
  by (rule unat_of_nat_less) simp

lemma filter_length_lt: "length es < 2 ^ 64 \<Longrightarrow> length (filter P es) < 2 ^ 64"
  by (rule le_less_trans [OF length_filter_le])

lemma rank_filter_length:
  "tree_ok seed (root t) \<Longrightarrow> key \<noteq> [] \<Longrightarrow>
    treap_rank t key = of_nat (length (filter (\<lambda>e. fst e < key) (entries (root t))))"
  using rank_loop_spec [of "root t" key 0] by (simp add: treap_rank_def tree_ok_def filter_map comp_def)

text \<open>The keys below both bounds plus the keys in the range are the keys below the upper bound.\<close>

definition below :: "bytes \<Rightarrow> bytes \<Rightarrow> bool" where
  "below e k \<longleftrightarrow> e = [] \<or> k < e"

lemma length_filter_split:
  "length (filter P xs) = length (filter (\<lambda>x. P x \<and> Q x) xs) + length (filter (\<lambda>x. P x \<and> \<not> Q x) xs)"
  by (induction xs) auto

lemma range_count:
  fixes es :: "(bytes \<times> bytes) list" and b e :: bytes
  assumes "length es < 2 ^ 64"
  defines "rb \<equiv> length (filter (\<lambda>x. b \<noteq> [] \<and> fst x < b) es)" and "re \<equiv> length (filter (\<lambda>x. below e (fst x)) es)"
  shows "(if (of_nat re :: u64) \<ge> of_nat rb then of_nat re - of_nat rb else 0 :: u64)
     = of_nat (length (filter (\<lambda>x. in_range b e (fst x)) es))"
proof -
  let ?in = "length (filter (\<lambda>x. in_range b e (fst x)) es)"
  let ?both = "length (filter (\<lambda>x. below e (fst x) \<and> (b \<noteq> [] \<and> fst x < b)) es)"
  have re: "re = ?both + ?in" unfolding re_def
    by (subst length_filter_split [where Q = "\<lambda>x. b \<noteq> [] \<and> fst x < b"])
       (auto simp: in_range_def below_def not_less intro!: arg_cong [where f = length] filter_cong)
  have rb: "rb = ?both + length (filter (\<lambda>x. (b \<noteq> [] \<and> fst x < b) \<and> \<not> below e (fst x)) es)" unfolding rb_def
    by (subst length_filter_split [where Q = "\<lambda>x. below e (fst x)"]) (simp add: conj_commute)
  have lt: "re < 2 ^ 64" "rb < 2 ^ 64" unfolding re_def rb_def by (rule filter_length_lt [OF assms(1)])+
  then have ge: "(of_nat re :: u64) \<ge> of_nat rb \<longleftrightarrow> rb \<le> re"
    by (simp add: word_le_nat_alt unat_of_nat_less)
  have one: "?both = rb \<or> ?in = 0"
  proof (rule ccontr)
    assume n: "\<not> (?both = rb \<or> ?in = 0)"
    then have "filter (\<lambda>x. (b \<noteq> [] \<and> fst x < b) \<and> \<not> below e (fst x)) es \<noteq> []"
      "filter (\<lambda>x. in_range b e (fst x)) es \<noteq> []" using rb by auto
    then obtain x y :: "bytes \<times> bytes" where x: "b \<noteq> []" "fst x < b" "\<not> below e (fst x)" and y: "in_range b e (fst y)"
      unfolding filter_empty_conv by blast
    then have "e \<le> fst x" "b \<le> fst y" "fst y < e" by (auto simp: below_def in_range_def not_less)
    with x(2) have "fst x < e" by (metis less_le_trans less_trans)
    with \<open>e \<le> fst x\<close> show False by simp
  qed
  show ?thesis
  proof (cases "rb \<le> re")
    case True
    then have "re - rb = ?in" using one re rb by auto
    then show ?thesis using ge True by (simp flip: of_nat_diff)
  next
    case False
    then have "?in = 0" using one re rb by auto
    then show ?thesis using ge False by simp
  qed
qed

subsection \<open>Canonical shape\<close>

text \<open>The tree without addresses: what two replicas can compare.\<close>

fun shape :: "treap_node \<Rightarrow> treap_node" where
  "shape Null = Null"
| "shape (Node a p s k v l r) = Node 0 p s k (map_option (\<lambda>(b, d). (0, d)) v) (shape l) (shape r)"

lemma pkeys_hash: "keyed seed t \<Longrightarrow> pkeys t = (\<lambda>k. (treap_hash seed k, k)) ` set (keys t)"
proof -
  assume k: "keyed seed t"
  have "(\<lambda>x. (treap_hash seed (snd x), snd x)) ` pkeys t = (\<lambda>x. x) ` pkeys t"
    by (rule image_cong) (use k in \<open>auto simp: keyed_def\<close>)
  then show ?thesis using image_image [of "\<lambda>k. (treap_hash seed k, k)" snd "pkeys t"] by (simp only: image_ident snd_pkeys)
qed

lemma tree_ok_Node:
  assumes "tree_ok seed (Node a p s k v l r)"
  shows "tree_ok seed l" "tree_ok seed r" "p = treap_hash seed k" "s = of_nat (length (entries (Node a p s k v l r)))"
    "k \<notin> set (keys l)" "\<forall>x\<in>set (keys l) \<union> set (keys r). above (p, k) (treap_hash seed x, x)"
proof -
  show ok: "tree_ok seed l" "tree_ok seed r" "p = treap_hash seed k" and "k \<notin> set (keys l)"
    using assms by (auto simp: tree_ok_def sorted_wrt_append)
  show "s = of_nat (length (entries (Node a p s k v l r)))"
    using assms sized_size [of l] sized_size [of r] by (simp add: tree_ok_def)
  have "keyed seed l" "keyed seed r" using ok by (simp_all add: tree_ok_parts)
  then have "(treap_hash seed x, x) \<in> pkeys l \<union> pkeys r" if "x \<in> set (keys l) \<union> set (keys r)" for x
    using that pkeys_hash [of seed l] pkeys_hash [of seed r] by blast
  moreover have "\<forall>x\<in>pkeys l \<union> pkeys r. above (p, k) x" using assms by (auto simp: tree_ok_def)
  ultimately show "\<forall>x\<in>set (keys l) \<union> set (keys r). above (p, k) (treap_hash seed x, x)" by blast
qed

lemma split_at_key:
  assumes "xs @ (k, d) # ys = xs' @ (k, d') # ys'" "k \<notin> set (map fst xs)" "k \<notin> set (map fst xs')"
  shows "xs = xs' \<and> d = d' \<and> ys = ys'"
  using assms
proof (induction xs arbitrary: xs')
  case Nil
  then show ?case by (cases xs') auto
next
  case (Cons x xs)
  then show ?case by (cases xs') auto
qed

lemma canonical_shape:
  assumes "tree_ok seed t" "tree_ok seed t'" "entries t = entries t'"
  shows "shape t = shape t'"
  using assms
proof (induction t arbitrary: t')
  case Null
  then show ?case by (metis entries.simps(1) entries_Null)
next
  case (Node a p s k v l r)
  then obtain a' p' s' k' v' l' r' where t': "t' = Node a' p' s' k' v' l' r'" by (cases t') auto
  note n = tree_ok_Node [OF Node.prems(1)] and n' = tree_ok_Node [OF Node.prems(2) [unfolded t']]
  have e: "entries l @ (k, node_value (Node a p s k v l r)) # entries r
      = entries l' @ (k', node_value (Node a' p' s' k' v' l' r')) # entries r'"
    using Node.prems(3) t' by simp
  have kk: "k = k'"
  proof (rule ccontr)
    assume ne: "k \<noteq> k'"
    have "set (keys l) \<union> {k} \<union> set (keys r) = set (keys l') \<union> {k'} \<union> set (keys r')"
      using arg_cong [OF e, of "\<lambda>es. set (map fst es)"] by auto
    then have "k' \<in> set (keys l) \<union> set (keys r)" "k \<in> set (keys l') \<union> set (keys r')" using ne by auto
    then have "above (p, k) (p', k')" "above (p', k') (p, k)" using n(3,6) n'(3,6) by auto
    then show False using above_asym by blast
  qed
  from split_at_key [OF e [unfolded kk]] n(5) n'(5) kk
  have p: "entries l = entries l'" "entries r = entries r'" "node_value (Node a p s k v l r) = node_value (Node a' p' s' k' v' l' r')"
    by auto
  have "map_option (\<lambda>(b, d). (0 :: nat, d)) v = map_option (\<lambda>(b, d). (0, d)) v'"
    using p(3) Node.prems(1,2) t' by (cases v; cases v') (auto simp: tree_ok_def split: prod.splits)
  moreover have "s = s'" using n(4) n'(4) p(1,2) by simp
  ultimately show ?case using Node.IH(1) [OF n(1) n'(1) p(1)] Node.IH(2) [OF n(2) n'(2) p(2)] n(3) n'(3) kk t' by simp
qed

section \<open>A concrete store\<close>

definition mem_empty :: treap_mem where
  "mem_empty = \<lparr>mem_script = [], mem_next = 0, mem_nodes = Map.empty, mem_blobs = Map.empty\<rparr>"

definition treap_empty :: treap where
  "treap_empty = \<lparr>tr_id = 0, tr_live = st_zero, tr_snap = st_zero, tr_seed = 42, tr_txn = False, tr_owner = None, tr_op = op_zero\<rparr>"

lemma empty_inv: "treap_inv mem_empty treap_empty"
  by (simp add: treap_inv_def mem_empty_def treap_empty_def st_zero_def mem_wf_def holders_def tree_ok_def)

lemma empty_entries: "entries (root treap_empty) = []" "mem_script mem_empty = []" "tr_seed treap_empty = 42"
  by (simp_all add: treap_empty_def st_zero_def mem_empty_def)

text \<open>Two commands on the empty store.\<close>

definition sample_run :: "int list \<times> treap_mem \<times> treap" where
  "sample_run = store.run (mem_empty, treap_empty) [Set [1] [7, 7], Set [2, 3] [8]]"

definition sample_mem :: treap_mem where
  "sample_mem = fst (snd sample_run)"

definition sample_store :: treap where
  "sample_store = snd (snd sample_run)"

lemma sample_facts:
  shows "treap_inv sample_mem sample_store" "fst sample_run = [0, 0]"
    "entries (root sample_store) = [([1], [7, 7]), ([2, 3], [8])]" "mem_script sample_mem = []" "tr_seed sample_store = 42"
proof -
  note e = inv_parts [OF empty_inv]
  have b: "treap_node_bytes (length ([1] :: bytes)) \<le> 0xffffffff" "treap_node_bytes (length ([2, 3] :: bytes)) \<le> 0xffffffff"
    by (simp_all add: treap_node_bytes_def)
  from set_room [OF empty_entries(2) e(3) _ b(1), of "[7, 7]"] obtain t1 m1 where
    s1: "treap_set mem_empty treap_empty [1] [7, 7] = (0, t1, m1)" "mem_script m1 = []" by auto
  note i1 = set_inv [OF empty_inv s1(1)] and t1 = set_tree [OF s1(1) _ e(3), simplified]
  from set_room [OF s1(2) inv_parts(3) [OF i1] _ b(2), of "[8]"] obtain t2 m2 where
    s2: "treap_set m1 t1 [2, 3] [8] = (0, t2, m2)" "mem_script m2 = []" by auto
  note i2 = set_inv [OF i1 s2(1)] and t2 = set_tree [OF s2(1) _ inv_parts(3) [OF i1], simplified]
  have run: "sample_run = ([0, 0], m2, t2)" by (simp add: sample_run_def s1(1) s2(1))
  show "treap_inv sample_mem sample_store" "fst sample_run = [0, 0]" "mem_script sample_mem = []"
    using i2 s2(2) by (simp_all add: sample_mem_def sample_store_def run)
  show "entries (root sample_store) = [([1], [7, 7]), ([2, 3], [8])]" "tr_seed sample_store = 42"
    using t2(2,4) t1(2,4) empty_entries by (simp_all add: sample_store_def run put_def)
qed

section \<open>First and last key of a range\<close>

lemma case_append: "(case xs @ y # ys of [] \<Rightarrow> z | x # _ \<Rightarrow> Some x) = (case xs of [] \<Rightarrow> Some y | x # _ \<Rightarrow> Some x)"
  by (cases xs) auto

lemma found_Null: "found Null = None"
  by (simp add: found_def)

lemma found_Node: "found (Node a p s k v l r) = Some (k, case v of None \<Rightarrow> [] | Some (b, d) \<Rightarrow> d)"
  by (simp add: found_def)

lemma min_range_loop_spec:
  "sorted_wrt (<) (keys t) \<Longrightarrow> found (min_range_loop b best t) =
    (case filter (\<lambda>x. b = [] \<or> b \<le> fst x) (entries t) of [] \<Rightarrow> found best | x # _ \<Rightarrow> Some x)"
proof (induction t arbitrary: best)
  case (Node a p s k v l r)
  have s: "sorted_wrt (<) (keys l)" "sorted_wrt (<) (keys r)" "\<forall>x\<in>set (entries l). fst x < k"
    using Node.prems by (auto simp: sorted_wrt_append)
  show ?case
  proof (cases "b \<noteq> [] \<and> k < b")
    case True
    have "filter (\<lambda>x. b = [] \<or> b \<le> fst x) (entries l) = []"
      by (rule filter_none) (use True s(3) in \<open>fastforce simp: not_le\<close>)
    with True Node.IH(2) [OF s(2)] show ?thesis by (auto simp: leD)
  next
    case False
    then have "b = [] \<or> b \<le> k" by auto
    with False Node.IH(1) [OF s(1)] show ?thesis
      by (auto simp: found_Node case_append split: list.split)
  qed
qed simp

lemma max_range_loop_spec:
  "sorted_wrt (<) (keys t) \<Longrightarrow> found (max_range_loop e best t) =
    (case rev (filter (\<lambda>x. e = [] \<or> fst x < e) (entries t)) of [] \<Rightarrow> found best | x # _ \<Rightarrow> Some x)"
proof (induction t arbitrary: best)
  case (Node a p s k v l r)
  have s: "sorted_wrt (<) (keys l)" "sorted_wrt (<) (keys r)" "\<forall>x\<in>set (entries r). k < fst x"
    using Node.prems by (auto simp: sorted_wrt_append)
  show ?case
  proof (cases "e \<noteq> [] \<and> e \<le> k")
    case True
    have "filter (\<lambda>x. e = [] \<or> fst x < e) (entries r) = []"
      by (rule filter_none) (use True s(3) in \<open>fastforce simp: not_less\<close>)
    with True Node.IH(1) [OF s(1)] show ?thesis by (auto simp: leD)
  next
    case False
    then have "e = [] \<or> k < e" by auto
    with False Node.IH(2) [OF s(2)] show ?thesis
      by (auto simp: found_Node case_append split: list.split)
  qed
qed simp

lemma filter_in_range:
  "filter (\<lambda>x. in_range b e (fst x)) es = filter (\<lambda>x. e = [] \<or> fst x < e) (filter (\<lambda>x. b = [] \<or> b \<le> fst x) es)"
  by (simp add: in_range_def conj_commute)

lemma sorted_first_above:
  fixes e :: bytes
  assumes "sorted_wrt (<) (map fst (x # xs))" "\<not> (e = [] \<or> fst x < e)"
  shows "filter (\<lambda>x. e = [] \<or> fst x < e) (x # xs) = []"
proof (rule filter_none, rule ballI)
  fix y assume "y \<in> set (x # xs)"
  then have "fst x \<le> fst y" using assms(1) by (auto simp: less_imp_le)
  then show "\<not> (e = [] \<or> fst y < e)" using assms(2) by (auto simp: not_less)
qed

lemma sorted_last_below:
  fixes b :: bytes
  assumes "sorted_wrt (<) (map fst (xs @ [x]))" "\<not> (b = [] \<or> b \<le> fst x)"
  shows "filter (\<lambda>x. b = [] \<or> b \<le> fst x) (xs @ [x]) = []"
proof (rule filter_none, rule ballI)
  fix y assume "y \<in> set (xs @ [x])"
  then have "fst y \<le> fst x" using assms(1) by (auto simp: less_imp_le sorted_wrt_append)
  then show "\<not> (b = [] \<or> b \<le> fst y)" using assms(2) by (auto simp: not_le)
qed

section \<open>Properties of the store\<close>

text \<open>C1. For every behaviour of the allocator, a store that satisfies its invariant still does after
  any sequence of sets and deletes; its contents are then the map obtained by applying, in order, the
  commands that did not report failure, and \<^verbatim>\<open>treap_get\<close> answers every key from that map.\<close>

theorem treap_run_refines_map:
  assumes "treap_inv m t" "store.run (m, t) cs = (rcs, m', t')"
  shows "treap_inv m' t' \<and> store_map t' = foldl cmd_effect (store_map t) (map snd (filter (\<lambda>x. fst x \<noteq> -1) (zip rcs cs)))
    \<and> (\<forall>k. k \<noteq> [] \<longrightarrow> treap_get t' k = (case store_map t' k of None \<Rightarrow> (0, []) | Some v \<Rightarrow> (1, v)))"
  using store.run_law [of "(m, t)" cs rcs "(m', t')"] store.get_law [of "(m', t')"] assms by simp

lemma treap_run_refines_map_witness:
  "treap_inv sample_mem sample_store \<and> store_map sample_store = [[1] \<mapsto> [7, 7], [2, 3] \<mapsto> [8]]
    \<and> treap_get sample_store [2, 3] = (1, [8])"
proof -
  have "store.run (mem_empty, treap_empty) [Set [1] [7, 7], Set [2, 3] [8]] = ([0, 0], sample_mem, sample_store)"
    unfolding sample_run_def [symmetric] using sample_facts(2)
    by (simp add: sample_mem_def sample_store_def prod_eq_iff)
  from treap_run_refines_map [OF empty_inv this] have
    r: "treap_inv sample_mem sample_store" "store_map sample_store = (store_map treap_empty)([1] \<mapsto> [7, 7], [2, 3] \<mapsto> [8])"
    "treap_get sample_store [2, 3] = (case store_map sample_store [2, 3] of None \<Rightarrow> (0, []) | Some v \<Rightarrow> (1, v))" by auto
  have "store_map treap_empty = Map.empty" by (simp add: store_map_def empty_entries)
  with r show ?thesis by simp
qed

text \<open>With memory available, a set of any key that is non-empty and fits a node succeeds, and a get
  of any key then returns the value just set, or what it returned before for another key; a delete
  succeeds too, reports whether the key was there, and the key is absent afterwards.\<close>

theorem treap_set_delete_get:
  assumes "treap_inv m t" "mem_script m = []" "k \<noteq> []" "treap_node_bytes (length k) \<le> 0xffffffff" "j \<noteq> []"
  shows "\<exists>t1 m1 rc t2 m2. treap_set m t k v = (0, t1, m1) \<and> treap_get t1 j = (if j = k then (1, v) else treap_get t j)
    \<and> treap_delete m1 t1 k = (1, t2, m2) \<and> treap_get t2 j = (if j = k then (0, []) else treap_get t j)
    \<and> treap_delete m t k = (rc, snd (treap_delete m t k)) \<and> rc = fst (treap_get t k)"
proof -
  note i = inv_parts [OF assms(1)]
  from set_room [OF assms(2) i(3) assms(3,4), of v] obtain t1 m1 where
    s: "treap_set m t k v = (0, t1, m1)" "mem_script m1 = []" by blast
  note i1 = set_inv [OF assms(1) s(1)]
  have 1: "store_map t1 = (store_map t)(k \<mapsto> v)" using set_map_law [OF i(1-3) s(1)] by simp
  from delete_room [OF s(2) inv_parts(3) [OF i1] assms(3)] obtain rc t2 m2 where
    d: "treap_delete m1 t1 k = (rc, t2, m2)" "rc \<noteq> -1" by blast
  note i2 = delete_inv [OF i1 d(1)]
  have 2: "rc = 1" "store_map t2 = (store_map t1)(k := None)" using del_map_law [OF inv_parts(1-3) [OF i1] d(1)] d(2) 1 by auto
  from delete_room [OF assms(2) i(3) assms(3)] obtain rd t3 m3 where d3: "treap_delete m t k = (rd, t3, m3)" "rd \<noteq> -1" by blast
  have 3: "rd = (if k \<in> dom (store_map t) then 1 else 0)" using del_map_law [OF i(1-3) d3(1)] d3(2) by auto
  note g = treap_get_spec [OF i(3)] treap_get_spec [OF inv_parts(3) [OF i1]] treap_get_spec [OF inv_parts(3) [OF i2]]
  show ?thesis using s d d3 1 2 3 assms(3,5) g
    by (intro exI [of _ t1] exI [of _ m1] exI [of _ rd] exI [of _ t2] exI [of _ m2]) (auto split: option.splits)
qed

lemma treap_set_delete_get_witness:
  "\<exists>t1 m1 rc t2 m2. treap_set sample_mem sample_store [9] [5] = (0, t1, m1) \<and> treap_get t1 [9] = (1, [5])
    \<and> treap_delete m1 t1 [9] = (1, t2, m2) \<and> treap_get t2 [9] = (0, [])
    \<and> treap_delete sample_mem sample_store [9] = (rc, snd (treap_delete sample_mem sample_store [9]))
    \<and> rc = fst (treap_get sample_store [9])"
  using treap_set_delete_get [OF sample_facts(1,4), of "[9]" "[9]" "[5]"] by (simp add: treap_node_bytes_def)

text \<open>Failure is atomic: when set or delete reports \<open>-1\<close>, whichever allocation failed, the store is
  unchanged and exactly the nodes that were allocated before are allocated after, none leaked, none freed.\<close>

theorem treap_failure_atomic:
  assumes "treap_inv m t" "treap_set m t k v = (-1, t', m') \<or> treap_delete m t k = (-1, t', m')"
  shows "t' = t \<and> mem_nodes m' = mem_nodes m \<and> treap_inv m' t'"
  using assms set_run [of m t k v "-1" t' m'] delete_run [of m t k "-1" t' m'] inv_parts(1,2) [OF assms(1)]
    inv_untouched [of m t m' t']
  by (auto simp: untouched_def)

lemma treap_failure_atomic_witness:
  "\<exists>m'. treap_set (mem_empty\<lparr>mem_script := [False]\<rparr>) treap_empty [1] [2] = (-1, treap_empty, m')
     \<and> treap_empty = treap_empty \<and> mem_nodes m' = mem_nodes (mem_empty\<lparr>mem_script := [False]\<rparr>) \<and> treap_inv m' treap_empty"
proof -
  let ?m = "mem_empty\<lparr>mem_script := [False]\<rparr>"
  have i: "treap_inv ?m treap_empty" using empty_inv
    by (simp add: treap_inv_def held_def mem_wf_def holders_def refs_of_def)
  have s: "treap_set ?m treap_empty [1] [2] = (-1, treap_empty, mem_empty)"
    by (simp add: treap_set_def treap_cut_def treap_empty_def st_zero_def treap_malloc_def treap_fail_def
        treap_node_bytes_def treap_op_discard_def op_zero_def mem_empty_def)
  show ?thesis using treap_failure_atomic [OF i disjI1 [OF s]] s by blast
qed

text \<open>Range deletion: unless it reports failure, it removes exactly the keys in \<open>[b, e)\<close> (an empty bound
  is open), returns how many they were, keeps every other entry in order, and keeps the invariant.\<close>

theorem treap_delete_range_correct:
  assumes "treap_inv m t" "treap_delete_range m t b e = (n, t', m')" "n \<noteq> -1"
  shows "treap_inv m' t' \<and> entries (root t') = filter (\<lambda>x. \<not> in_range b e (fst x)) (entries (root t))
    \<and> n = of_nat (length (filter (\<lambda>x. in_range b e (fst x)) (entries (root t))))"
  using delete_range_inv [OF assms] delete_range_tree [OF assms(2,3) inv_parts(3) [OF assms(1)]] by blast

lemma treap_delete_range_correct_witness:
  "\<exists>t' m'. treap_delete_range mem_empty treap_empty [1] [] = (0, t', m') \<and> treap_inv m' t' \<and> entries (root t') = []"
proof -
  have d: "treap_delete_range mem_empty treap_empty [1] [] = (0, treap_publish_op treap_empty op_zero Null 0, mem_empty)"
    by (simp add: treap_delete_range_def treap_empty_def st_zero_def treap_op_push_free_tree_def treap_merge_def
        treap_publish_op_def op_zero_def mem_empty_def Let_def)
  with treap_delete_range_correct [OF empty_inv d] show ?thesis by (simp add: empty_entries)
qed

text \<open>Order statistics: for a store below \<open>2^64\<close> keys, \<^verbatim>\<open>treap_count\<close> is the number of entries,
  \<^verbatim>\<open>treap_rank\<close> the number of keys below the given key, \<^verbatim>\<open>treap_count_range\<close> the number of keys in
  \<open>[b, e)\<close>, \<^verbatim>\<open>treap_select i\<close> the entry at position \<open>i\<close> of the sorted entries (none beyond
  the end), and the subtree sizes they use are never wrong.\<close>

theorem treap_order_statistics:
  assumes "treap_inv m t" "length (entries (root t)) < 2 ^ 64" "key \<noteq> []"
  shows "unat (treap_count t) = length (entries (root t))
    \<and> unat (treap_rank t key) = length (filter (\<lambda>x. fst x < key) (entries (root t)))
    \<and> unat (treap_count_range t b e) = length (filter (\<lambda>x. in_range b e (fst x)) (entries (root t)))
    \<and> treap_select t i = (if unat i < length (entries (root t)) then Some (entries (root t) ! unat i) else None)"
proof (intro conjI)
  note i = inv_parts [OF assms(1)]
  let ?es = "entries (root t)"
  show "unat (treap_count t) = length ?es" by (simp add: treap_count_def i(5) unat_length [OF assms(2)])
  show "unat (treap_rank t key) = length (filter (\<lambda>x. fst x < key) ?es)"
    using assms(3) by (simp add: rank_filter_length [OF i(3)] unat_length [OF filter_length_lt [OF assms(2)]])
  have rb: "(if b \<noteq> [] then treap_rank t b else 0) = of_nat (length (filter (\<lambda>x. b \<noteq> [] \<and> fst x < b) ?es))"
    by (simp add: rank_filter_length [OF i(3)])
  have re: "(if e \<noteq> [] then treap_rank t e else st_count (tr_live t)) = of_nat (length (filter (\<lambda>x. below e (fst x)) ?es))"
    by (simp add: rank_filter_length [OF i(3)] below_def i(5))
  have "treap_count_range t b e = of_nat (length (filter (\<lambda>x. in_range b e (fst x)) ?es))"
    unfolding treap_count_range_def Let_def rb re by (rule range_count [OF assms(2)])
  then show "unat (treap_count_range t b e) = length (filter (\<lambda>x. in_range b e (fst x)) ?es)"
    by (simp add: unat_length [OF filter_length_lt [OF assms(2)]])
  show "treap_select t i = (if unat i < length ?es then Some (?es ! unat i) else None)"
    unfolding treap_select_def by (rule select_loop_spec) (use i(3) assms(2) in \<open>simp_all add: tree_ok_def\<close>)
qed

lemma treap_order_statistics_witness:
  "unat (treap_count sample_store) = 2 \<and> unat (treap_rank sample_store [2]) = 1
    \<and> unat (treap_count_range sample_store [1, 0] []) = 1 \<and> treap_select sample_store 1 = Some ([2, 3], [8])"
  using treap_order_statistics [OF sample_facts(1), of "[2]" "[1, 0]" "[]" 1] by (simp add: sample_facts(3) in_range_def)

text \<open>\<^verbatim>\<open>treap_min_range\<close> and \<^verbatim>\<open>treap_max_range\<close> return the first and the last entry whose key lies
  in \<open>[b, e)\<close>, and nothing when there is none.\<close>

theorem treap_range_ends:
  assumes "treap_inv m t"
  shows "let es = filter (\<lambda>x. in_range b e (fst x)) (entries (root t))
    in treap_min_range t b e = (if es = [] then None else Some (hd es))
       \<and> treap_max_range t b e = (if es = [] then None else Some (last es))"
  unfolding Let_def
proof (intro conjI)
  define es where "es = filter (\<lambda>x. in_range b e (fst x)) (entries (root t))"
  have srt: "sorted_wrt (<) (keys (root t))" using inv_parts(3) [OF assms(1)] by (simp add: tree_ok_def)
  have key: "n \<noteq> Null \<Longrightarrow> found n = Some x \<Longrightarrow> node_key n = fst x" for n x by (auto simp: found_def)
  let ?lo = "filter (\<lambda>x. b = [] \<or> b \<le> fst x) (entries (root t))"
  let ?n = "min_range_loop b Null (root t)"
  have n: "found ?n = (case ?lo of [] \<Rightarrow> None | x # _ \<Rightarrow> Some x)"
    using min_range_loop_spec [OF srt, of b Null] unfolding found_Null .
  have slo: "sorted_wrt (<) (map fst ?lo)" using srt by (simp add: sorted_wrt_map sorted_wrt_filter)
  have es: "es = filter (\<lambda>x. e = [] \<or> fst x < e) ?lo" by (simp only: es_def filter_in_range)
  have "treap_min_range t b e = (if es = [] then None else Some (hd es))"
  proof (cases ?lo)
    case Nil
    then have "?n = Null" using n by (auto simp: found_def split: if_splits)
    then show ?thesis by (simp add: treap_min_range_def es Nil)
  next
    case (Cons x xs)
    then have "found ?n = Some x" using n by simp
    moreover from this have "?n \<noteq> Null" by (auto simp: found_def)
    ultimately show ?thesis using key [of ?n x] sorted_first_above [of x xs e] slo
      by (auto simp: treap_min_range_def Let_def es Cons not_less split: if_splits)
  qed
  then show "treap_min_range t b e = (if filter (\<lambda>x. in_range b e (fst x)) (entries (root t)) = [] then None
    else Some (hd (filter (\<lambda>x. in_range b e (fst x)) (entries (root t)))))" by (simp only: es_def)
  let ?hi = "filter (\<lambda>x. e = [] \<or> fst x < e) (entries (root t))"
  let ?k = "max_range_loop e Null (root t)"
  have k: "found ?k = (case rev ?hi of [] \<Rightarrow> None | x # _ \<Rightarrow> Some x)"
    using max_range_loop_spec [OF srt, of e Null] unfolding found_Null .
  have shi: "sorted_wrt (<) (map fst ?hi)" using srt by (simp add: sorted_wrt_map sorted_wrt_filter)
  have es2: "es = filter (\<lambda>x. b = [] \<or> b \<le> fst x) ?hi" by (simp add: es_def in_range_def conj_commute)
  have "treap_max_range t b e = (if es = [] then None else Some (last es))"
  proof (cases ?hi rule: rev_cases)
    case Nil
    then have "?k = Null" using k by (auto simp: found_def split: if_splits)
    then show ?thesis by (simp add: treap_max_range_def es2 Nil)
  next
    case (snoc xs x)
    then have "found ?k = Some x" using k by simp
    moreover from this have "?k \<noteq> Null" by (auto simp: found_def)
    ultimately show ?thesis using key [of ?k x] sorted_last_below [of xs x b] shi
      by (auto simp: treap_max_range_def Let_def es2 snoc not_less split: if_splits)
  qed
  then show "treap_max_range t b e = (if filter (\<lambda>x. in_range b e (fst x)) (entries (root t)) = [] then None
    else Some (last (filter (\<lambda>x. in_range b e (fst x)) (entries (root t)))))" by (simp only: es_def)
qed

lemma treap_range_ends_witness:
  "treap_min_range sample_store [1, 1] [3] = Some ([2, 3], [8]) \<and> treap_max_range sample_store [] [2] = Some ([1], [7, 7])"
  using treap_range_ends [OF sample_facts(1), of "[1, 1]" "[3]"] treap_range_ends [OF sample_facts(1), of "[]" "[2]"]
  by (simp add: sample_facts(3) in_range_def)

text \<open>Canonical shape: two stores with the same seed and the same contents are the same tree (keys,
  values, priorities and sizes at every node), whatever the two histories of updates were.\<close>

theorem treap_canonical:
  assumes "treap_inv m t" "treap_inv m' t'" "tr_seed t = tr_seed t'" "entries (root t) = entries (root t')"
  shows "shape (root t) = shape (root t')"
  using canonical_shape inv_parts(3) [OF assms(1)] inv_parts(3) [OF assms(2)] assms(3,4) by metis

lemma treap_canonical_witness:
  "\<exists>t' m'. treap_set sample_mem sample_store [1] [7, 7] = (0, t', m') \<and> shape (root t') = shape (root sample_store)"
proof -
  note i = inv_parts [OF sample_facts(1)]
  from set_room [OF sample_facts(4) i(3), of "[1]" "[7, 7]"] obtain t' m' where
    s: "treap_set sample_mem sample_store [1] [7, 7] = (0, t', m')" by (auto simp: treap_node_bytes_def)
  note st = set_tree [OF s _ i(3), simplified]
  have "shape (root t') = shape (root sample_store)"
    by (rule treap_canonical [OF set_inv [OF sample_facts(1) s] sample_facts(1)])
       (simp_all add: st(2,4) sample_facts(3) put_def)
  with s show ?thesis by blast
qed

end
