(* ===== verification/Treap_Stream_Laws.thy ===== *)
theory Treap_Stream_Laws
  imports Treap_Stream Treap_Props
begin

section \<open>Scans and snapshots of the store\<close>

text \<open>
  A scan visits exactly the entries of its range, in order, until the visitor stops; a saved
  snapshot is the stream of its entries; loading such a stream rebuilds the store, and a load that
  fails leaves the store as it was.
\<close>

subsection \<open>Stacks\<close>

definition ordered :: "bool \<Rightarrow> 'a list \<Rightarrow> 'a list" where
  "ordered asc xs = (if asc then xs else rev xs)"

definition near_ok :: "bool \<Rightarrow> bytes \<Rightarrow> bytes \<times> bytes \<Rightarrow> bool" where
  "near_ok asc bound x \<longleftrightarrow> bound = [] \<or> (if asc then bound \<le> fst x else fst x < bound)"

fun stack_list :: "bool \<Rightarrow> treap_node list \<Rightarrow> (bytes \<times> bytes) list" where
  "stack_list asc [] = []"
| "stack_list asc (n # st) = (node_key n, node_value n) # ordered asc (entries (far_child asc n)) @ stack_list asc st"

lemma push_same:
  assumes "stack_push m cap st n = (r, m')"
  shows "same_heap m m'" "r = Some (c, st') \<Longrightarrow> st' = n # st"
  using stack_push_mem[of m cap st n r m'] assms by (auto simp: same_heap_def)

lemma filter_key_none: "(\<And>x. x \<in> set xs \<Longrightarrow> \<not> P x) \<Longrightarrow> filter P xs = []"
  by (simp add: filter_empty_conv)

lemma filter_key_all: "(\<And>x. x \<in> set xs \<Longrightarrow> P x) \<Longrightarrow> filter P xs = xs"
  by (simp add: filter_id_conv)

lemma seek_law:
  assumes "scan_seek asc m cap st bound t = (res, m')" "sorted_wrt (<) (keys t)"
  shows "same_heap m m' \<and> (\<forall>cap' st'. res = Some (cap', st') \<longrightarrow>
    stack_list asc st' = filter (near_ok asc bound) (ordered asc (entries t)) @ stack_list asc st \<and> (Null \<notin> set st \<longrightarrow> Null \<notin> set st'))"
  using assms
proof (induction t arbitrary: m cap st)
  case Null
  then show ?case by (auto simp: ordered_def same_heap_def)
next
  case (Node a p s k v l r)
  let ?n = "Node a p s k v l r"
  have srt: "sorted_wrt (<) (keys l)" "sorted_wrt (<) (keys r)" "\<And>x. x \<in> set (entries l) \<Longrightarrow> fst x < k" "\<And>x. x \<in> set (entries r) \<Longrightarrow> k < fst x"
    using Node.prems(2) by (auto simp: sorted_wrt_append)
  show ?case
  proof (cases "near_ok asc bound (k, node_value ?n)")
    case True
    obtain pr m1 where push: "stack_push m cap st ?n = (pr, m1)" by fastforce
    note ps = push_same[OF push]
    have far: "filter (near_ok asc bound) (ordered asc (entries (far_child asc ?n))) = ordered asc (entries (far_child asc ?n))"
    proof (rule filter_key_all)
      fix x assume x: "x \<in> set (ordered asc (entries (far_child asc ?n)))"
      show "near_ok asc bound x"
      proof (cases asc)
        case asc: True
        then have "k < fst x" using x srt(4) by (simp add: ordered_def)
        then show ?thesis using True asc by (auto simp: near_ok_def)
      next
        case desc: False
        then have "fst x < k" using x srt(3) by (simp add: ordered_def)
        then show ?thesis using True desc by (auto simp: near_ok_def)
      qed
    qed
    show ?thesis
    proof (cases pr)
      case None
      then have "res = None" "m' = m1" using Node.prems(1) push True by (auto simp: near_ok_def split: if_splits)
      then show ?thesis using ps(1) by simp
    next
      case (Some cs)
      obtain c1 where cs: "pr = Some (c1, ?n # st)" using ps(2) Some by (cases cs) auto
      have sk: "scan_seek asc m1 c1 (?n # st) bound (if asc then l else r) = (res, m')"
        using Node.prems(1) push True cs by (auto simp: near_ok_def split: if_splits)
      have ih: "same_heap m1 m' \<and> (\<forall>cap' st'. res = Some (cap', st') \<longrightarrow> stack_list asc st' = filter (near_ok asc bound) (ordered asc (entries (if asc then l else r)))
          @ stack_list asc (?n # st) \<and> (Null \<notin> set (?n # st) \<longrightarrow> Null \<notin> set st'))"
        using Node.IH(1)[of m1 c1 "?n # st"] Node.IH(2)[of m1 c1 "?n # st"] sk srt(1,2) by (cases asc) simp_all
      show ?thesis using ih same_heap_trans[OF ps(1)] far True by (cases asc) (auto simp: ordered_def)
    qed
  next
    case False
    have near: "filter (near_ok asc bound) (ordered asc (entries (if asc then l else r))) = []"
    proof (rule filter_key_none)
      fix x assume x: "x \<in> set (ordered asc (entries (if asc then l else r)))"
      show "\<not> near_ok asc bound x"
      proof (cases asc)
        case asc: True
        then have "fst x < k" using x srt(3) by (simp add: ordered_def)
        then show ?thesis using False asc by (auto simp: near_ok_def)
      next
        case desc: False
        then have "k < fst x" using x srt(4) by (simp add: ordered_def)
        then show ?thesis using False desc by (auto simp: near_ok_def)
      qed
    qed
    have sk: "scan_seek asc m cap st bound (far_child asc ?n) = (res, m')" using Node.prems(1) False by (cases asc) (auto simp: near_ok_def)
    have ih: "same_heap m m' \<and> (\<forall>cap' st'. res = Some (cap', st') \<longrightarrow> stack_list asc st' = filter (near_ok asc bound) (ordered asc (entries (far_child asc ?n)))
        @ stack_list asc st \<and> (Null \<notin> set st \<longrightarrow> Null \<notin> set st'))"
      using Node.IH(1)[of m cap st] Node.IH(2)[of m cap st] sk srt(1,2) by (cases asc) simp_all
    show ?thesis using ih near False by (cases asc) (auto simp: ordered_def)
  qed
qed

lemma push_room:
  assumes "stack_push m cap st n = (r, m')" "mem_script m = []"
  shows "mem_script m' = []" "r = None \<Longrightarrow> 2 ^ 31 \<le> length st"
  using assms by (auto simp: stack_push_def stack_room_def Let_def split: if_splits)

lemma size_entries: "length (entries t) = size t"
  by (induction t) auto

lemma stack_length: "length st \<le> scan_weight asc st"
  by (induction st) auto

text \<open>A descent stops short only when an allocation fails or the stack would reach its limit.\<close>

definition seek_fits :: "bool \<Rightarrow> treap_mem \<Rightarrow> (nat \<times> treap_node list) option \<Rightarrow> nat \<Rightarrow> nat \<Rightarrow> bool" where
  "seek_fits asc m' res len w \<longleftrightarrow> mem_script m' = [] \<and> (case res of None \<Rightarrow> 2 ^ 31 \<le> len | Some (c, st') \<Rightarrow> scan_weight asc st' \<le> w)"

lemma seek_fits_mono: "seek_fits asc m' res len w \<Longrightarrow> len \<le> len' \<Longrightarrow> w \<le> w' \<Longrightarrow> seek_fits asc m' res len' w'"
  by (auto simp: seek_fits_def split: option.splits)

lemma seek_room:
  assumes "scan_seek asc m cap st bound t = (res, m')" "mem_script m = []"
  shows "seek_fits asc m' res (length st + size t) (scan_weight asc st + size t)"
  using assms
proof (induction t arbitrary: m cap st)
  case (Node a p s k v l r)
  let ?n = "Node a p s k v l r" let ?near = "if asc then l else r" let ?far = "if asc then r else l"
  have sz: "size ?n = 1 + size ?near + size ?far" "scan_weight asc (?n # st) = 1 + size ?far + scan_weight asc st" by simp_all
  have ih: "scan_seek asc mx cx sx bound x = (res, m') \<Longrightarrow> mem_script mx = [] \<Longrightarrow> x = ?near \<or> x = ?far \<Longrightarrow>
      seek_fits asc m' res (length sx + size x) (scan_weight asc sx + size x)" for mx cx sx x
    using Node.IH[of mx cx sx] by (cases asc) auto
  show ?case
  proof (cases "near_ok asc bound (k, node_value ?n)")
    case True
    obtain pr m1 where push: "stack_push m cap st ?n = (pr, m1)" by fastforce
    note room = push_room[OF push Node.prems(2)]
    show ?thesis
    proof (cases pr)
      case None
      then have "res = None \<and> m' = m1" using Node.prems(1) True push by (cases asc) (auto simp: near_ok_def)
      then show ?thesis using room None by (simp add: seek_fits_def)
    next
      case (Some cs)
      then obtain c1 where cs: "pr = Some (c1, ?n # st)" using push_same(2)[OF push] by (cases cs) auto
      have "scan_seek asc m1 c1 (?n # st) bound ?near = (res, m')" using Node.prems(1) True push cs by (cases asc) (auto simp: near_ok_def)
      from ih[OF this room(1) disjI1[OF refl]] show ?thesis by (rule seek_fits_mono) (use sz in simp_all)
    qed
  next
    case False
    then have "scan_seek asc m cap st bound ?far = (res, m')" using Node.prems(1) by (cases asc) (auto simp: near_ok_def)
    from ih[OF this Node.prems(2) disjI2[OF refl]] show ?thesis by (rule seek_fits_mono) (use sz in simp_all)
  qed
qed (auto simp: seek_fits_def)

lemma near_open [simp]: "filter (near_ok asc []) xs = xs"
  by (simp add: near_ok_def)

subsection \<open>Scans\<close>

fun visit :: "(bytes \<Rightarrow> bytes \<Rightarrow> 'u \<Rightarrow> bool \<times> 'u) \<Rightarrow> (bytes \<times> bytes) list \<Rightarrow> 'u \<Rightarrow> nat \<times> 'u" where
  "visit fn [] ud = (0, ud)"
| "visit fn (x # xs) ud = (case fn (fst x) (snd x) ud of (stop, ud) \<Rightarrow> if stop then (1, ud) else case visit fn xs ud of (n, ud) \<Rightarrow> (Suc n, ud))"

definition far_ok :: "bool \<Rightarrow> bytes \<Rightarrow> bytes \<times> bytes \<Rightarrow> bool" where
  "far_ok asc bound x \<longleftrightarrow> bound = [] \<or> (if asc then fst x < bound else bound \<le> fst x)"

text \<open>A sorted subtree hangs below every node on the stack.\<close>

definition stack_ok :: "bool \<Rightarrow> treap_node list \<Rightarrow> bool" where
  "stack_ok asc st \<longleftrightarrow> (\<forall>n\<in>set st. n \<noteq> Null \<and> sorted_wrt (<) (keys (far_child asc n)))"

lemma seek_stack_ok:
  assumes "scan_seek asc m cap st bound t = (Some (cap', st'), m')" "sorted_wrt (<) (keys t)" "stack_ok asc st"
  shows "stack_ok asc st'"
  using assms
proof (induction t arbitrary: m cap st)
  case (Node a p s k v l r)
  let ?n = "Node a p s k v l r"
  have srt: "sorted_wrt (<) (keys l)" "sorted_wrt (<) (keys r)" using Node.prems(2) by (auto simp: sorted_wrt_append)
  have ok: "stack_ok asc (?n # st)" using Node.prems(3) srt by (simp add: stack_ok_def)
  obtain m1 c1 st1 where "scan_seek asc m1 c1 st1 bound (if asc then l else r) = (Some (cap', st'), m') \<and> st1 = ?n # st
      \<or> scan_seek asc m1 c1 st1 bound (if asc then r else l) = (Some (cap', st'), m') \<and> st1 = st"
    using Node.prems(1) by (auto split: if_splits option.splits prod.splits dest: push_same(2))
  then show ?case using Node.IH srt ok Node.prems(3) by (cases asc) auto
qed simp

lemma scan_loop_law:
  assumes "scan_loop asc fn m cap st bound cnt ud = (c, ud', m')" "stack_ok asc st"
  shows "same_heap m m' \<and> (c = -1 \<and> (mem_script m = [] \<longrightarrow> 2 ^ 31 \<le> scan_weight asc st) \<or> (case visit fn (takeWhile (far_ok asc bound) (stack_list asc st)) ud of (n, u) \<Rightarrow> c = cnt + of_nat n \<and> ud' = u))"
  using assms
proof (induction asc fn m cap st bound cnt ud rule: scan_loop.induct)
  case (1 asc fn m cap bound cnt ud)
  then show ?case by (auto simp: same_heap_def)
next
  case (2 asc fn m cap cur st bound cnt ud)
  let ?x = "(node_key cur, node_value cur)"
  obtain stop u1 where fn: "fn (node_key cur) (node_value cur) ud = (stop, u1)" by fastforce
  have srt: "sorted_wrt (<) (keys (far_child asc cur))" "stack_ok asc st" using 2(3) by (simp_all add: stack_ok_def)
  have st: "stack_list asc (cur # st) = ?x # ordered asc (entries (far_child asc cur)) @ stack_list asc st" by simp
  show ?case
  proof (cases "far_ok asc bound ?x \<and> \<not> stop")
    case False
    then show ?thesis using 2(2) fn by (cases "far_ok asc bound ?x") (auto simp: far_ok_def same_heap_def not_less not_le split: if_splits)
  next
    case True
    obtain res m1 where sk: "scan_seek asc m cap st [] (far_child asc cur) = (res, m1)" by fastforce
    note sl = seek_law[OF sk srt(1)]
    have nb: "\<not> (bound \<noteq> [] \<and> (if asc then treap_key_cmp (node_key cur) bound \<ge> 0 else treap_key_cmp (node_key cur) bound < 0))"
      using True by (auto simp: far_ok_def)
    show ?thesis
    proof (cases res)
      case None
      then have "c = -1" "m' = m1" using 2(2) fn True sk nb by (simp_all split: if_splits)
      moreover have "mem_script m = [] \<longrightarrow> 2 ^ 31 \<le> scan_weight asc (cur # st)"
        using seek_room[OF sk] None stack_length[of st asc] by (auto simp: seek_fits_def)
      ultimately show ?thesis using sl by blast
    next
      case (Some cs)
      obtain c1 st1 where cs: "res = Some (c1, st1)" using Some by (cases cs) auto
      have room: "mem_script m = [] \<Longrightarrow> mem_script m1 = [] \<and> scan_weight asc st1 \<le> scan_weight asc (cur # st)"
        using seek_room[OF sk] cs by (simp add: seek_fits_def)
      have sc: "scan_loop asc fn m1 c1 st1 bound (cnt + 1) u1 = (c, ud', m')" using 2(2) fn True sk nb cs by (simp split: if_splits)
      have ok: "stack_ok asc st1" using seek_stack_ok[OF sk[unfolded cs] srt] .
      have sl1: "stack_list asc st1 = ordered asc (entries (far_child asc cur)) @ stack_list asc st" using sl cs by simp
      have ih: "same_heap m1 m' \<and> (c = -1 \<and> (mem_script m1 = [] \<longrightarrow> 2 ^ 31 \<le> scan_weight asc st1) \<or> (case visit fn (takeWhile (far_ok asc bound) (stack_list asc st1)) u1 of (n, u) \<Rightarrow> c = cnt + 1 + of_nat n \<and> ud' = u))"
        using 2(1)[OF nb fn[symmetric] refl _ sk[symmetric] cs refl sc ok] True by simp
      have h: "same_heap m m'" using ih same_heap_trans[OF sl[THEN conjunct1]] by blast
      show ?thesis
      proof (cases "c = -1 \<and> (mem_script m1 = [] \<longrightarrow> 2 ^ 31 \<le> scan_weight asc st1)")
        case True
        then have "mem_script m = [] \<longrightarrow> 2 ^ 31 \<le> scan_weight asc (cur # st)" using room order_trans by blast
        then show ?thesis using h True by blast
      next
        case False
        then show ?thesis using ih h fn \<open>far_ok asc bound ?x \<and> \<not> stop\<close> sl1 st by (auto simp: add.assoc split: prod.splits)
      qed
    qed
  qed
qed

lemma takeWhile_mono_filter:
  assumes "sorted_wrt (\<lambda>x y. P y \<longrightarrow> P x) xs"
  shows "takeWhile P xs = filter P xs"
  using assms by (induction xs) (auto simp: filter_empty_conv)

lemma far_sorted: "sorted_wrt (<) (map fst es) \<Longrightarrow> sorted_wrt (\<lambda>x y. far_ok asc bound y \<longrightarrow> far_ok asc bound x) (ordered asc es)"
proof (cases asc)
  case True
  assume "sorted_wrt (<) (map fst es)"
  then have "sorted_wrt (\<lambda>x y. fst x < fst y) es" by (simp add: sorted_wrt_map)
  then show ?thesis unfolding ordered_def using True by (auto simp: far_ok_def elim!: sorted_wrt_mono_rel[rotated])
next
  case False
  assume "sorted_wrt (<) (map fst es)"
  then have "sorted_wrt (\<lambda>x y. fst y < fst x) (rev es)" by (simp add: sorted_wrt_map sorted_wrt_rev)
  then show ?thesis unfolding ordered_def using False by (auto simp: far_ok_def elim!: sorted_wrt_mono_rel[rotated])
qed

lemma scan_law:
  assumes "treap_scan m t b e asc fn ud = (c, ud', m')" "sorted_wrt (<) (keys (root t))"
  shows "same_heap m m' \<and> (c = -1 \<and> (mem_script m = [] \<longrightarrow> 2 ^ 31 \<le> length (entries (root t))) \<or> (case visit fn (ordered asc (filter (\<lambda>x. in_range b e (fst x)) (entries (root t)))) ud of (n, u) \<Rightarrow> c = of_nat n \<and> ud' = u))"
proof -
  obtain ok0 s0 where al: "alloc (mem_script m) = (ok0, s0)" by (metis prod.exhaust)
  define m0 where "m0 = m\<lparr>mem_script := s0\<rparr>"
  define nb where "nb = (if asc then b else e)"
  define fb where "fb = (if asc then e else b)"
  have h0: "same_heap m m0" "same_heap m m" by (simp_all add: m0_def same_heap_def)
  obtain res m1 where sk: "scan_seek asc m0 64 [] nb (root t) = (res, m1)" by (metis prod.exhaust)
  note sl = seek_law[OF sk assms(2)]
  have u: "(c, ud', m') = (if root t = Null then (0, ud, m) else if \<not> ok0 then (-1, ud, m0) else case res of None \<Rightarrow> (-1, ud, m1)
      | Some (cap, st) \<Rightarrow> scan_loop asc fn m1 cap st fb 0 ud)"
    using assms(1) sk unfolding treap_scan_def nb_def[symmetric] fb_def[symmetric] by (cases "root t = Null"; cases ok0; cases res) (auto simp: al Let_def m0_def)
  have room: "mem_script m = [] \<Longrightarrow> ok0 \<and> mem_script m0 = []" using al by (auto simp: m0_def)
  note sr = seek_room[OF sk, unfolded list.map sum_list.Nil list.size(3) add_0 size_entries[symmetric]]
  consider (none) "root t = Null" | (oom) "c = -1" "m' = m0 \<or> m' = m1" "\<not> ok0 \<or> res = None"
    | (go) c1 st1 where "res = Some (c1, st1)" "scan_loop asc fn m1 c1 st1 fb 0 ud = (c, ud', m')"
    using u by (cases "root t = Null"; cases ok0; cases res) auto
  then show ?thesis
  proof cases
    case none
    then show ?thesis using u h0 by (simp add: ordered_def)
  next
    case oom
    have "same_heap m m'" using oom(2) sl h0(1) same_heap_trans[OF h0(1)] by blast
    moreover have "mem_script m = [] \<longrightarrow> 2 ^ 31 \<le> length (entries (root t))" using oom(3) room sr by (auto simp: seek_fits_def)
    ultimately show ?thesis using oom(1) by blast
  next
    case (go c1 st1)
    have ok: "stack_ok asc st1" using seek_stack_ok[OF sk[unfolded go(1)] assms(2)] by (simp add: stack_ok_def)
    have l1: "stack_list asc st1 = filter (near_ok asc nb) (ordered asc (entries (root t)))" using sl go(1) by simp
    have "takeWhile (far_ok asc fb) (stack_list asc st1) = filter (far_ok asc fb) (filter (near_ok asc nb) (ordered asc (entries (root t))))"
      unfolding l1 by (rule takeWhile_mono_filter, rule sorted_wrt_filter, rule far_sorted[OF assms(2)])
    also have "\<dots> = ordered asc (filter (\<lambda>x. in_range b e (fst x)) (entries (root t)))"
      by (auto simp: ordered_def near_ok_def far_ok_def nb_def fb_def in_range_def rev_filter intro!: filter_cong)
    finally have tw: "takeWhile (far_ok asc fb) (stack_list asc st1) = ordered asc (filter (\<lambda>x. in_range b e (fst x)) (entries (root t)))" .
    have "same_heap m m'" using scan_loop_law[OF go(2) ok] sl same_heap_trans[OF h0(1)] same_heap_trans by blast
    moreover have "2 ^ 31 \<le> length (entries (root t))" if "mem_script m1 = [] \<longrightarrow> 2 ^ 31 \<le> scan_weight asc st1" "mem_script m = []"
      using sr[OF room[OF that(2), THEN conjunct2]] go(1) that(1) by (simp add: seek_fits_def)
    ultimately show ?thesis using scan_loop_law[OF go(2) ok] unfolding tw add_0 by argo
  qed
qed

subsection \<open>Saved streams\<close>

definition stream_item :: "bytes \<times> bytes \<Rightarrow> bytes" where
  "stream_item x = save_len (length (fst x)) @ fst x @ save_len (length (snd x)) @ snd x"

definition stream_of :: "(bytes \<times> bytes) list \<Rightarrow> bytes" where
  "stream_of es = concat (map stream_item es) @ save_len 0"

lemma save_node_law: "save_node w k v = (True, w') \<Longrightarrow> snd w' = snd w @ stream_item (k, v)"
  by (auto simp: save_node_def put_out_def stream_item_def split: prod.splits bool.splits if_splits)

lemma save_node_room: "fst w = [] \<Longrightarrow> save_node w k v = (True, [], snd w @ stream_item (k, v))"
  by (simp add: save_node_def put_out_def stream_item_def)

text \<open>A write that fails or an allocation that fails is the only way a save stops, on a store below the limit of the stack.\<close>

lemma save_loop_law:
  assumes "save_loop m cap st w = (ok, w', m')" "stack_ok True st"
  shows "same_heap m m' \<and> (ok \<longrightarrow> snd w' = snd w @ concat (map stream_item (stack_list True st)))
    \<and> (fst w = [] \<longrightarrow> fst w' = [] \<and> (\<not> ok \<longrightarrow> mem_script m = [] \<longrightarrow> 2 ^ 31 \<le> scan_weight True st))"
  using assms
proof (induction m cap st w rule: save_loop.induct)
  case (1 m cap w)
  then show ?case by (auto simp: same_heap_def)
next
  case (2 m cap cur st w)
  obtain ok1 w1 where sn: "save_node w (node_key cur) (node_value cur) = (ok1, w1)" by (metis prod.exhaust)
  have wr: "fst w = [] \<Longrightarrow> ok1 \<and> fst w1 = []" using sn save_node_room[of w "node_key cur" "node_value cur"] by auto
  have srt: "sorted_wrt (<) (keys (far_child True cur))" "stack_ok True st" using 2(3) by (simp_all add: stack_ok_def)
  obtain res m1 where sk: "scan_seek True m cap st [] (far_child True cur) = (res, m1)" by fastforce
  note sl = seek_law[OF sk srt(1)] and room = seek_room[OF sk]
  show ?case
  proof (cases "ok1 \<and> res \<noteq> None")
    case False
    then have f: "\<not> ok \<and> w' = w1 \<and> (m' = m \<or> m' = m1)" using 2(2) sn sk by (cases ok1; cases res) auto
    have "2 ^ 31 \<le> scan_weight True (cur # st)" if "fst w = []" "mem_script m = []"
      using room[OF that(2)] False wr[OF that(1)] stack_length[of st True] by (cases res) (auto simp: seek_fits_def)
    then show ?thesis using f wr sl[THEN conjunct1] by (auto simp: same_heap_def)
  next
    case True
    then obtain c1 st1 where cs: "res = Some (c1, st1)" by (cases res) auto
    have lp: "save_loop m1 c1 st1 w1 = (ok, w', m')" using 2(2) sn sk True cs by simp
    have ok: "stack_ok True st1" using seek_stack_ok[OF sk[unfolded cs] srt] .
    have ih: "same_heap m1 m' \<and> (ok \<longrightarrow> snd w' = snd w1 @ concat (map stream_item (stack_list True st1)))
        \<and> (fst w1 = [] \<longrightarrow> fst w' = [] \<and> (\<not> ok \<longrightarrow> mem_script m1 = [] \<longrightarrow> 2 ^ 31 \<le> scan_weight True st1))"
      using 2(1)[OF sn[symmetric] _ sk[symmetric] cs refl lp ok] True by simp
    have "snd w1 = snd w @ stream_item (node_key cur, node_value cur)" using save_node_law[of w] sn True by simp
    moreover have "stack_list True st1 = entries (far_child True cur) @ stack_list True st" using sl cs by (simp add: ordered_def)
    moreover have "same_heap m m'" using same_heap_trans sl ih by blast
    moreover have "mem_script m = [] \<Longrightarrow> mem_script m1 = [] \<and> scan_weight True st1 \<le> scan_weight True (cur # st)"
      using room cs by (simp add: seek_fits_def)
    ultimately show ?thesis using ih wr by (auto simp: ordered_def)
  qed
qed

lemma save_law:
  assumes "treap_save m t w = (rc, w', m')" "sorted_wrt (<) (keys (st_root (tr_snap t)))"
  shows "same_heap m m' \<and> (rc = 0 \<longrightarrow> snd w' = snd w @ stream_of (entries (st_root (tr_snap t)))) \<and> rc \<in> {0, -1}
    \<and> (rc = -1 \<longrightarrow> mem_script m \<noteq> [] \<or> fst w \<noteq> [] \<or> 2 ^ 31 \<le> length (entries (st_root (tr_snap t))))"
proof -
  let ?sr = "st_root (tr_snap t)"
  obtain ok0 s0 where al: "alloc (mem_script m) = (ok0, s0)" by (metis prod.exhaust)
  define m0 where "m0 = m\<lparr>mem_script := s0\<rparr>"
  have h0: "same_heap m m0" "same_heap m m" "mem_script m = [] \<Longrightarrow> ok0 \<and> mem_script m0 = []" using al by (auto simp: m0_def same_heap_def)
  obtain res m1 where sk: "scan_seek True m0 64 [] [] ?sr = (res, m1)" by (metis prod.exhaust)
  note sl = seek_law[OF sk assms(2)] and sr = seek_room[OF sk, unfolded list.map sum_list.Nil list.size(3) add_0 size_entries[symmetric]]
  obtain ok2 w2 m2 where st: "(if ?sr = Null then (True, w, m) else if \<not> ok0 then (False, w, m0) else case res of None \<Rightarrow> (False, w, m1)
      | Some (cap, st) \<Rightarrow> save_loop m1 cap st w) = (ok2, w2, m2)" by (metis prod_cases3)
  have u: "(rc, w', m') = (if \<not> ok2 then (-1, w2, m2) else case put_out w2 (save_len 0) of (ok, w) \<Rightarrow> (if ok then 0 else -1, w, m2))"
    using assms(1) st unfolding treap_save_def by (simp add: al sk flip: m0_def split: if_splits option.splits)
  have body: "same_heap m m2 \<and> (ok2 \<longrightarrow> snd w2 = snd w @ concat (map stream_item (entries ?sr)))
      \<and> (mem_script m = [] \<longrightarrow> fst w = [] \<longrightarrow> fst w2 = [] \<and> (\<not> ok2 \<longrightarrow> 2 ^ 31 \<le> length (entries ?sr)))"
  proof (cases "?sr \<noteq> Null \<and> ok0 \<and> res \<noteq> None")
    case True
    then obtain c1 st1 where cs: "res = Some (c1, st1)" by auto
    have lp: "save_loop m1 c1 st1 w = (ok2, w2, m2)" using st True cs by simp
    have ok: "stack_ok True st1" using seek_stack_ok[OF sk[unfolded cs] assms(2)] by (simp add: stack_ok_def)
    note law = save_loop_law[OF lp ok]
    have h: "same_heap m m2" using law sl same_heap_trans[OF h0(1)] same_heap_trans by blast
    have "mem_script m = [] \<Longrightarrow> mem_script m1 = [] \<and> scan_weight True st1 \<le> length (entries ?sr)"
      using sr h0(3) cs by (simp add: seek_fits_def)
    then have "mem_script m = [] \<longrightarrow> fst w = [] \<longrightarrow> fst w2 = [] \<and> (\<not> ok2 \<longrightarrow> 2 ^ 31 \<le> length (entries ?sr))" using law order_trans by blast
    then show ?thesis using h law sl cs by (simp add: ordered_def)
  next
    case False
    then consider "?sr = Null" "ok2" "w2 = w" "m2 = m" | "\<not> ok2" "w2 = w" "m2 = m0 \<or> m2 = m1" "?sr \<noteq> Null" "\<not> ok0 \<or> res = None"
      using st by (cases res) (auto split: if_splits)
    then show ?thesis using h0 sl sr same_heap_trans[OF h0(1)] by cases (auto simp: seek_fits_def)
  qed
  show ?thesis using u body by (auto simp: put_out_def stream_of_def split: if_splits prod.splits)
qed

end
