(* ===== verification/Treap_Safety.thy ===== *)
theory Treap_Safety
  imports Treap_Props
begin

section \<open>Memory safety of snapshots and transactions\<close>

text \<open>
  Snapshot isolation and reclamation, transaction commit and abort, and the reference that a
  discarded operation keeps: the properties of \<^verbatim>\<open>src/code/treap.h\<close> that rest on who owns a node.
\<close>

text \<open>No dangling pointer in a tree: every node is allocated, holds the block the tree says, and the block is allocated.\<close>

definition no_dangling :: "treap_mem \<Rightarrow> treap_node \<Rightarrow> bool" where
  "no_dangling m t \<longleftrightarrow> (\<forall>(a, v)\<in>set (cells t). mem_nodes m a = Some v \<and> (\<forall>b. v = Some b \<longrightarrow> mem_blobs m b \<noteq> None))"

lemma held_no_dangling: "mem_wf m \<Longrightarrow> held m t \<Longrightarrow> no_dangling m t"
  using held_refs(2) by (fastforce simp: no_dangling_def held_def)

lemma set_snap:
  assumes "treap_inv m t" "treap_set m t k v = (rc, t', m')"
  shows "tr_snap t' = tr_snap t"
proof (cases "rc = -1")
  case True
  with set_run [OF assms(2) inv_parts(1,2) [OF assms(1)]] show ?thesis by (simp add: untouched_def)
qed (use set_tree(5) [OF assms(2) _ inv_parts(3) [OF assms(1)]] in simp)

lemma delete_snap:
  assumes "treap_inv m t" "treap_delete m t k = (rc, t', m')"
  shows "tr_snap t' = tr_snap t"
proof (cases "rc = -1")
  case True
  with delete_run [OF assms(2) inv_parts(1,2) [OF assms(1)]] show ?thesis by (simp add: untouched_def)
qed (use delete_tree(6) [OF assms(2) _ inv_parts(3) [OF assms(1)]] in simp)

lemma run_snap:
  assumes "treap_inv m t" "store.run (m, t) cs = (rcs, m', t')"
  shows "treap_inv m' t' \<and> tr_snap t' = tr_snap t"
  using assms
proof (induction cs arbitrary: m t rcs)
  case (Cons c cs)
  obtain rc m1 t1 where c: "store.run_cmd (m, t) c = (rc, m1, t1)" by (cases "store.run_cmd (m, t) c" rule: prod_cases3)
  with Cons.prems(2) obtain r where r: "store.run (m1, t1) cs = (r, m', t')" by (auto simp: Let_def split: prod.splits)
  have "treap_inv m1 t1 \<and> tr_snap t1 = tr_snap t"
  proof (cases c)
    case (Set k v)
    with c have "treap_set m t k v = (rc, t1, m1)" by (auto split: prod.splits)
    with set_inv [OF Cons.prems(1)] set_snap [OF Cons.prems(1)] show ?thesis by blast
  next
    case (Del k)
    with c have "treap_delete m t k = (rc, t1, m1)" by (auto split: prod.splits)
    with delete_inv [OF Cons.prems(1)] delete_snap [OF Cons.prems(1)] show ?thesis by blast
  qed
  with Cons.IH [OF _ r] show ?case by simp
qed simp

text \<open>C27. Snapshot isolation: capture the store, run any sets and deletes (with any allocation failures) on
  it, and the captured view is still the tree of the capture with no dangling pointer in it; releasing
  the snapshot then frees only nodes the live store does not use: its invariant, its tree and the blocks
  its values point to survive.\<close>

theorem treap_snapshot_isolation:
  assumes "treap_inv m t" "store.run (m, treap_capture t) cs = (rcs, m', t')" "treap_save_finish m' t' = (t'', m'')"
  shows "st_root (tr_snap t') = root t \<and> no_dangling m' (root t)
    \<and> treap_inv m'' t'' \<and> root t'' = root t' \<and> no_dangling m'' (root t')
    \<and> dom (mem_nodes m'') = dom (mem_nodes m') - set (st_pending (tr_snap t'))"
proof -
  note c = capture_inv [OF assms(1)]
  from run_snap [OF c(1) assms(2)] c(2) have r: "treap_inv m' t'" "st_root (tr_snap t') = root t" by auto
  then have "held m' (root t)" by (auto simp: treap_inv_def)
  moreover note s = save_finish_inv [OF r(1) assms(3)]
  moreover have "held m'' (root t')" "mem_wf m''" using s inv_parts(1,2) [of m'' t''] by auto
  ultimately show ?thesis using held_no_dangling inv_parts(1) [OF r(1)] r(2) by blast
qed

lemma treap_snapshot_isolation_witness:
  "\<exists>rcs m' t' t'' m''. store.run (sample_mem, treap_capture sample_store) [Del [1]] = (rcs, m', t')
    \<and> treap_save_finish m' t' = (t'', m'') \<and> no_dangling m' (root sample_store) \<and> treap_inv m'' t''"
proof -
  obtain rcs m' t' where r: "store.run (sample_mem, treap_capture sample_store) [Del [1]] = (rcs, m', t')"
    by (cases "store.run (sample_mem, treap_capture sample_store) [Del [1]]" rule: prod_cases3)
  obtain t'' m'' where f: "treap_save_finish m' t' = (t'', m'')" by fastforce
  from treap_snapshot_isolation [OF sample_facts(1) r f] r f show ?thesis by blast
qed

text \<open>C28. Transactions are atomic: fork a store, run any sets and deletes on the copy with any allocation
  failures. Committing gives the owner the copy's contents, that is, its own map with the successful
  commands applied, and a sound store; aborting leaves the owner exactly as it was, with a sound
  memory. In both cases the owner's captured snapshot is not disturbed.\<close>

theorem treap_transaction:
  assumes "treap_inv m t" "treap_fork m t = (Some c, m1)" "store.run (m1, c) cs = (rcs, m2, c')"
  shows "(\<exists>t'. treap_commit c' t = (0, t') \<and> treap_inv m2 t' \<and> tr_snap t' = tr_snap t
      \<and> store_map t' = foldl cmd_effect (store_map t) (map snd (filter (\<lambda>x. fst x \<noteq> -1) (zip rcs cs))))
    \<and> treap_inv (treap_abort m2 c') t"
proof -
  from fork_txn [OF assms(1,2)] have f: "txn_inv m1 t c" "store_map c = store_map t" by (auto simp: store_map_def)
  from txn.run_law [of "(m1, c)" t cs rcs "(m2, c')"] f assms(3) have
    r: "txn_inv m2 t c'" "store_map c' = foldl cmd_effect (store_map t) (map snd (filter (\<lambda>x. fst x \<noteq> -1) (zip rcs cs)))" by auto
  obtain rc t' where ct: "treap_commit c' t = (rc, t')" by fastforce
  from commit_inv [OF r(1) ct] have "rc = 0" "treap_inv m2 t'" "tr_snap t' = tr_snap t" "store_map t' = store_map c'"
    by (auto simp: store_map_def)
  with ct r(2) abort_inv [OF r(1)] show ?thesis by simp
qed

lemma treap_transaction_witness:
  "\<exists>c m1 rcs m2 c' t'. treap_fork sample_mem sample_store = (Some c, m1)
    \<and> store.run (m1, c) [Set [4] [4], Del [1]] = (rcs, m2, c') \<and> treap_commit c' sample_store = (0, t')
    \<and> treap_inv m2 t' \<and> treap_inv (treap_abort m2 c') sample_store"
proof -
  from malloc_room [OF sample_facts(4)] obtain m1 where "treap_malloc sample_mem = (Some (mem_next sample_mem), m1)" by blast
  then obtain c where f: "treap_fork sample_mem sample_store = (Some c, m1)"
    using inv_parts(4) [OF sample_facts(1)] by (simp add: treap_fork_def)
  obtain rcs m2 c' where r: "store.run (m1, c) [Set [4] [4], Del [1]] = (rcs, m2, c')"
    by (cases "store.run (m1, c) [Set [4] [4], Del [1]]" rule: prod_cases3)
  from treap_transaction [OF sample_facts(1) f r] f r show ?thesis by blast
qed

subsection \<open>References kept by a discarded operation\<close>

lemma clone_refs:
  assumes "treap_clone_node m op src k v = (Some a, op', m')" "mem_wf m" "mem_nodes m src = Some (map_option fst v)"
  shows "refs_of m' b = refs_of m b + (if map_option fst v = Some b then 1 else 0)"
proof -
  from assms(1) obtain m1 where m1: "treap_malloc m = (Some a, m1)"
    and m': "m' = treap_blob_ref (m1\<lparr>mem_nodes := (mem_nodes m1)(a \<mapsto> map_option fst v)\<rparr>) (map_option fst v)"
    by (auto simp: treap_clone_node_def Let_def split: if_splits prod.splits option.splits)
  note ml = mem_wf_malloc [OF assms(2) m1]
  show ?thesis
  proof (cases "map_option fst v = Some b")
    case True
    then have "mem_blobs m b \<noteq> None" using held_refs(2) [OF assms(2)] assms(3) by auto
    with True ml(3) show ?thesis by (auto simp: m' treap_blob_ref_def refs_of_def)
  next
    case False
    with ml(3) show ?thesis by (auto simp: m' treap_blob_ref_def refs_of_def split: option.splits)
  qed
qed

lemma split_refs:
  assumes "treap_split m op key t = (Some LR, op', m')" "mem_wf m" "held m t"
  shows "refs_of m b \<le> refs_of m' b"
  using assms
proof (induction t arbitrary: m op LR)
  case (Node a p s k v l r)
  from Node.prems(1) show ?case
  proof (cases rule: split_Node)
    case (left a' op1 m1 r2)
    then obtain z where z: "r2 = Some z" by (cases r2) auto
    note st = clone_step [OF left(1) Node.prems(2,3), of m1 op1]
    have run1: "op_run m1 op1 m1 op1" using clone_run [OF left(1)] Node.prems op_run_wf by auto
    from Node.IH(1) [OF left(3) [unfolded z] st(7,5) [OF run1]] clone_refs [OF left(1) Node.prems(2), of b] Node.prems(3)
    show ?thesis by simp
  next
    case (right a' op1 m1 r2)
    then obtain z where z: "r2 = Some z" by (cases r2) auto
    note st = clone_step [OF right(1) Node.prems(2,3), of m1 op1]
    have run1: "op_run m1 op1 m1 op1" using clone_run [OF right(1)] Node.prems op_run_wf by auto
    from Node.IH(2) [OF right(3) [unfolded z] st(7,6) [OF run1]] clone_refs [OF right(1) Node.prems(2), of b] Node.prems(3)
    show ?thesis by simp
  qed simp
qed simp

text \<open>The root's block gains a reference in every split.\<close>

lemma split_refs_root:
  assumes "treap_split m op key (Node a p s k (Some (b, d)) l r) = (Some LR, op', m')" "mem_wf m"
    "held m (Node a p s k (Some (b, d)) l r)"
  shows "refs_of m b < refs_of m' b"
  using assms(1)
proof (cases rule: split_Node)
  case (left a' op1 m1 r2)
  then obtain z where z: "r2 = Some z" by (cases r2) auto
  note st = clone_step [OF left(1) assms(2,3), of m1 op1]
  have run1: "op_run m1 op1 m1 op1" using clone_run [OF left(1)] assms op_run_wf by auto
  from split_refs [OF left(3) [unfolded z] st(7,5) [OF run1], of b] clone_refs [OF left(1) assms(2), of b] assms(3)
  show ?thesis by (simp add: Suc_le_eq [symmetric])
next
  case (right a' op1 m1 r2)
  then obtain z where z: "r2 = Some z" by (cases r2) auto
  note st = clone_step [OF right(1) assms(2,3), of m1 op1]
  have run1: "op_run m1 op1 m1 op1" using clone_run [OF right(1)] assms op_run_wf by auto
  from split_refs [OF right(3) [unfolded z] st(7,6) [OF run1], of b] clone_refs [OF right(1) assms(2), of b] assms(3)
  show ?thesis by (simp add: Suc_le_eq [symmetric])
qed simp

text \<open>A delete of an absent key changes neither the store nor the set of allocated nodes, but the block of
  the root's value has one reference more afterwards than before: the clones made on the way were
  released without giving their references back. No node holds that reference, so the block can never
  be freed again.\<close>

theorem treap_delete_absent_leaks:
  assumes "treap_inv m t" "root t = Node a p s k (Some (b, d)) l r" "treap_delete m t key = (0, t', m')"
  shows "t' = t \<and> mem_nodes m' = mem_nodes m \<and> holders m' b = holders m b \<and> refs_of m b < refs_of m' b"
proof -
  note i = inv_parts [OF assms(1)]
  have u: "untouched m t m' t'" using delete_run [OF assms(3) i(1,2)] by auto
  from assms(3) obtain L R op1 m1 where c: "treap_cut m (root t) key = (Some (L, False, R), op1, m1)"
    by (cases rule: delete_pieces) auto
  from c obtain LR where sp: "treap_split m op_zero key (root t) = (Some LR, op1, m1)" by (cases rule: cut_cases) auto
  have "key \<noteq> []" using assms(3) by (auto simp: treap_delete_def)
  with assms(3) c have "m' = snd (treap_op_discard m1 op1)" by (simp add: treap_delete_def)
  then have "refs_of m' b = refs_of m1 b" by (simp add: treap_op_discard_def release_list_plain refs_of_def)
  with split_refs_root [OF sp [unfolded assms(2)] i(1)] i(2) assms(2) u show ?thesis
    by (simp add: untouched_def holders_def)
qed

lemma sample_root: "\<exists>a p s k b d l r. root sample_store = Node a p s k (Some (b, d)) l r"
proof (cases "root sample_store")
  case Null
  then show ?thesis using sample_facts(3) by simp
next
  case (Node a p s k v l r)
  then have "(k, case v of None \<Rightarrow> [] | Some (b, d) \<Rightarrow> d) \<in> set [([1], [7, 7]), ([2, 3], [8])]"
    using sample_facts(3) by (metis entries.simps(2) in_set_conv_decomp)
  then have "v \<noteq> None" by (cases v) auto
  with Node show ?thesis by auto
qed

lemma treap_delete_absent_leaks_witness:
  "\<exists>b m'. treap_delete sample_mem sample_store [9] = (0, sample_store, m') \<and> mem_nodes m' = mem_nodes sample_mem
    \<and> holders m' b = holders sample_mem b \<and> refs_of sample_mem b < refs_of m' b"
proof -
  note i = inv_parts [OF sample_facts(1)]
  from sample_root obtain a p s k b d l r where rt: "root sample_store = Node a p s k (Some (b, d)) l r" by blast
  from delete_room [OF sample_facts(4) i(3), of "[9]"] obtain rc t' m' where
    d: "treap_delete sample_mem sample_store [9] = (rc, t', m')" "rc \<noteq> -1" by auto
  have "rc = 0" using del_map_law [OF i(1-3) d(1)] d(2) by (auto simp: dom_store_map sample_facts(3))
  with treap_delete_absent_leaks [OF sample_facts(1) rt, of "[9]" t' m'] d(1) show ?thesis by auto
qed

end
