(* ===== verification/Treap_Load.thy ===== *)
theory Treap_Load
  imports Treap_Stream_Laws Treap_Safety
begin

section \<open>Loading a saved store\<close>

text \<open>
  \<^verbatim>\<open>treap_load\<close> builds its tree on the right spine: the laws of a spine, the memory of a load on any
  input (a failed load gives every node back), the tree of a load on a saved stream, and the round
  trip of a captured snapshot through \<^verbatim>\<open>treap_save\<close> and \<^verbatim>\<open>treap_load\<close>.
\<close>

subsection \<open>Releasing a tree\<close>

lemma free_tree_list: "treap_free_tree m t = treap_release_list True m (addrs t)"
  by (induction m t rule: treap_free_tree.induct) (simp_all add: Let_def split: prod.splits)

lemma free_tree_law:
  assumes "treap_free_tree m t = (n, m')" "mem_wf m" "distinct (addrs t)" "set (addrs t) \<subseteq> dom (mem_nodes m)"
  shows "mem_wf m' \<and> mem_nodes m' = mem_nodes m |` (- set (addrs t)) \<and> mem_next m' = mem_next m"
  using release_list_counting[OF assms(1)[unfolded free_tree_list] assms(2-4)] .

subsection \<open>Spines\<close>

abbreviation spine_keys :: "spine \<Rightarrow> (u64 \<times> bytes) set" where
  "spine_keys st \<equiv> (\<lambda>(a, p, k, v, l). (p, k)) ` set st"

text \<open>A closed spine is what it holds with an empty tree at the end, and the tree at the end.\<close>

lemma close_parts:
  "entries (close_spine st t) = entries (close_spine st Null) @ entries t"
  "cells (close_spine st t) = cells (close_spine st Null) @ cells t"
  "pkeys (close_spine st t) = pkeys (close_spine st Null) \<union> pkeys t"
  "valued (close_spine st t) \<longleftrightarrow> valued (close_spine st Null) \<and> valued t"
  "sized (close_spine st t) \<longleftrightarrow> sized (close_spine st Null) \<and> sized t"
  "heaped (close_spine st t) \<longleftrightarrow> heaped (close_spine st Null) \<and> heaped t \<and> (\<forall>y\<in>spine_keys st. \<forall>x\<in>pkeys t. above y x)"
proof (induction st arbitrary: t)
  case (Cons n st)
  obtain a p k v l where n: "n = (a, p, k, v, l)" by (cases n) auto
  let ?f = "fixed a p k v l"
  { case 1 show ?case using Cons(1)[of "?f t"] Cons(1)[of "?f Null"] by (simp add: n) }
  { case 2 show ?case using Cons(2)[of "?f t"] Cons(2)[of "?f Null"] by (simp add: n) }
  { case 3 show ?case using Cons(3)[of "?f t"] Cons(3)[of "?f Null"] by (simp add: n Un_assoc) }
  { case 4 show ?case using Cons(4)[of "?f t"] Cons(4)[of "?f Null"] by (auto simp: n) }
  { case 5 show ?case using Cons(5)[of "?f t"] Cons(5)[of "?f Null"] by (auto simp: n) }
  { case 6 show ?case using Cons(6)[of "?f t"] Cons(6)[of "?f Null"] by (auto simp: n) }
qed simp_all

lemma spine_in: "spine_keys st \<subseteq> pkeys (close_spine st t)"
proof (induction st arbitrary: t)
  case (Cons n st)
  obtain a p k v l where n: "n = (a, p, k, v, l)" by (cases n) auto
  show ?case using Cons[of "fixed a p k v l t"] close_parts(3)[of st "fixed a p k v l t"] by (auto simp: n)
qed simp

lemma pop_close: "load_pop p k st prv = (rest, prv') \<Longrightarrow> close_spine rest prv' = close_spine st prv"
  by (induction p k st prv rule: load_pop.induct) (auto split: if_splits)

text \<open>What was popped lies below the new node; what is left lies above it, when its key is new.\<close>

lemma pop_below:
  assumes "load_pop p k st prv = (rest, prv')" "heaped (close_spine st prv)" "\<forall>x\<in>pkeys prv. above (p, k) x"
  shows "\<forall>x\<in>pkeys prv'. above (p, k) x"
  using assms
proof (induction p k st prv rule: load_pop.induct)
  case (2 p k a p1 k1 v1 l1 st prv)
  show ?case
  proof (cases "above (p, k) (p1, k1)")
    case True
    have "\<forall>x\<in>pkeys l1 \<union> pkeys prv. above (p1, k1) x"
      using 2(3) close_parts(6)[of st "fixed a p1 k1 v1 l1 prv"] by simp
    then have "\<forall>x\<in>pkeys (fixed a p1 k1 v1 l1 prv). above (p, k) x" using True above_trans by fastforce
    then show ?thesis using 2 True by simp
  next
    case False
    then show ?thesis using 2 by simp
  qed
qed simp

lemma pop_top: "load_pop p k st prv = ((a, p1, k1, v1, l1) # rest, prv') \<Longrightarrow> \<not> above (p, k) (p1, k1)"
  by (induction p k st prv rule: load_pop.induct) (auto split: if_splits)

lemma pop_above:
  assumes "load_pop p k st prv = (rest, prv')" "heaped (close_spine rest prv')" "\<forall>x\<in>spine_keys rest. snd x \<noteq> k"
  shows "\<forall>y\<in>spine_keys rest. above y (p, k)"
proof (cases rest)
  case (Cons n st)
  obtain a p1 k1 v1 l1 where n: "n = (a, p1, k1, v1, l1)" by (cases n) auto
  have "\<not> above (p, k) (p1, k1)" using pop_top assms(1) Cons n by blast
  moreover have "k1 \<noteq> k" using assms(3) Cons n by auto
  ultimately have top: "above (p1, k1) (p, k)" using above_total[of "(p1, k1)" "(p, k)"] by simp
  have "\<forall>y\<in>spine_keys st. above y (p1, k1)" using assms(2) close_parts(6)[of st "fixed a p1 k1 v1 l1 prv'"] Cons n by simp
  then show ?thesis using top above_trans Cons n by auto
qed simp

text \<open>Adding one node to the spine.\<close>

lemma spine_add:
  assumes "load_pop p k st Null = (rest, prv)"
  shows "entries (close_spine ((a, p, k, v, prv) # rest) Null) = entries (close_spine st Null) @ [(k, case v of None \<Rightarrow> [] | Some (b, d) \<Rightarrow> d)]"
    "cells (close_spine ((a, p, k, v, prv) # rest) Null) = cells (close_spine st Null) @ [(a, map_option fst v)]"
    "pkeys (close_spine ((a, p, k, v, prv) # rest) Null) = insert (p, k) (pkeys (close_spine st Null))"
  using close_parts(1-3)[of rest "fixed a p k v prv Null"] close_parts(1-3)[of rest prv] pop_close[OF assms] by simp_all

lemma spine_add_ok:
  assumes "load_pop p k st Null = (rest, prv)" "part_ok (close_spine st Null)" "k \<notin> set (keys (close_spine st Null))" "\<forall>b. v \<noteq> Some (b, [])"
  shows "part_ok (close_spine ((a, p, k, v, prv) # rest) Null)"
proof -
  note cl = pop_close[OF assms(1)]
  have ok: "part_ok (close_spine rest prv)" using assms(2) cl by simp
  have h: "heaped (close_spine rest prv)" "heaped (close_spine st Null)" using ok assms(2) by (simp_all add: part_ok_def)
  have below: "\<forall>x\<in>pkeys prv. above (p, k) x" using pop_below[OF assms(1) h(2)] by simp
  have sk: "snd ` spine_keys rest \<subseteq> set (keys (close_spine rest prv))"
    using image_mono[OF spine_in[of rest prv], of snd] by (simp only: snd_pkeys)
  have "\<forall>x\<in>spine_keys rest. snd x \<noteq> k"
  proof
    fix x assume "x \<in> spine_keys rest"
    then have "snd x \<in> set (keys (close_spine rest prv))" using sk by blast
    then show "snd x \<noteq> k" using assms(3) by (auto simp only: cl)
  qed
  then have abv: "\<forall>y\<in>spine_keys rest. above y (p, k)" using pop_above[OF assms(1) h(1)] by blast
  note o = ok[unfolded part_ok_def close_parts(4-6)[of rest prv]]
  show ?thesis unfolding part_ok_def close_spine.simps close_parts(4-6)[of rest "fixed a p k v prv Null"]
    using o below abv assms(4) by simp
qed

subsection \<open>The memory of a load\<close>

text \<open>Since \<open>m0\<close> exactly the nodes of \<open>t\<close> were added.\<close>

definition nodes_added :: "treap_mem \<Rightarrow> treap_mem \<Rightarrow> nat list \<Rightarrow> bool" where
  "nodes_added m0 m as \<longleftrightarrow> mem_wf m \<and> mem_next m0 \<le> mem_next m \<and> (\<forall>a<mem_next m0. mem_nodes m a = mem_nodes m0 a)
     \<and> distinct as \<and> set as \<subseteq> {mem_next m0..<mem_next m} \<and> dom (mem_nodes m) = dom (mem_nodes m0) \<union> set as"

lemma nodes_added_run: "op_run m op_zero m' op \<Longrightarrow> nodes_added m m' (op_alloc op)"
  by (auto simp: nodes_added_def op_run_def op_ext_def op_zero_def)

lemma nodes_added_refl: "mem_wf m \<Longrightarrow> nodes_added m m []"
  by (simp add: nodes_added_def)

lemma nodes_added_same: "nodes_added m0 m as \<Longrightarrow> mem_wf m' \<Longrightarrow> mem_nodes m' = mem_nodes m \<Longrightarrow> mem_next m \<le> mem_next m' \<Longrightarrow> nodes_added m0 m' as"
  by (auto simp: nodes_added_def)

lemma nodes_added_heap: "nodes_added m0 m as \<Longrightarrow> same_heap m m' \<Longrightarrow> nodes_added m0 m' as"
  using nodes_added_same[of m0 m as m'] same_heap_simps(1)[of m m'] by (auto simp: same_heap_def nodes_added_def)

lemma nodes_added_back:
  assumes "nodes_added m0 m as" "mem_wf m0" "mem_nodes m' = mem_nodes m |` (- set as)"
  shows "mem_nodes m' = mem_nodes m0"
proof
  fix x
  have g: "\<forall>a<mem_next m0. mem_nodes m a = mem_nodes m0 a" "set as \<subseteq> {mem_next m0..<mem_next m}"
    "dom (mem_nodes m) = dom (mem_nodes m0) \<union> set as" using assms(1) by (simp_all add: nodes_added_def)
  show "mem_nodes m' x = mem_nodes m0 x"
  proof (cases "x < mem_next m0")
    case True
    then have "x \<notin> set as" using g(2) by auto
    then show ?thesis using True g(1) assms(3) by simp
  next
    case False
    then have n: "mem_nodes m0 x = None" using mem_wf_node[OF assms(2)] by (cases "mem_nodes m0 x") auto
    show ?thesis using n g(3) assms(3) by (cases "x \<in> set as") (auto simp: restrict_map_def domIff)
  qed
qed

lemma nodes_added_trans:
  assumes "nodes_added m0 m as" "nodes_added m m' bs"
  shows "nodes_added m0 m' (as @ bs)"
proof -
  from assms(1) have a: "mem_next m0 \<le> mem_next m" "\<forall>a<mem_next m0. mem_nodes m a = mem_nodes m0 a" "distinct as"
    "set as \<subseteq> {mem_next m0..<mem_next m}" "dom (mem_nodes m) = dom (mem_nodes m0) \<union> set as" by (simp_all add: nodes_added_def)
  from assms(2) have b: "mem_wf m'" "mem_next m \<le> mem_next m'" "\<forall>a<mem_next m. mem_nodes m' a = mem_nodes m a" "distinct bs"
    "set bs \<subseteq> {mem_next m..<mem_next m'}" "dom (mem_nodes m') = dom (mem_nodes m) \<union> set bs" by (simp_all add: nodes_added_def)
  have "set as \<inter> set bs = {}" using a(4) b(5) by fastforce
  moreover have "\<forall>a<mem_next m0. mem_nodes m' a = mem_nodes m0 a" using a(1,2) b(3) by simp
  moreover have "set (as @ bs) \<subseteq> {mem_next m0..<mem_next m'}" using a(1,4) b(2,5) by fastforce
  ultimately show ?thesis using a b by (simp add: nodes_added_def Un_assoc)
qed

lemma load_node_law:
  assumes "load_node seed m key value = (r, m')" "mem_wf m"
  shows "(r = None \<longrightarrow> mem_wf m' \<and> mem_nodes m' = mem_nodes m \<and> mem_next m \<le> mem_next m') \<and>
    (\<forall>a v tb. r = Some (a, v, tb) \<longrightarrow> nodes_added m m' [a] \<and> mem_nodes m' a = Some (map_option fst v)
       \<and> (case v of None \<Rightarrow> [] | Some (b, d) \<Rightarrow> d) = value \<and> (\<forall>b. v \<noteq> Some (b, [])) \<and> treap_node_bytes (length key) \<le> 0xffffffff)"
proof (cases "treap_node_bytes (length key) > 0xffffffff")
  case True
  then show ?thesis using assms by (auto simp: load_node_def)
next
  case small: False
  obtain ar m1 where ml: "treap_malloc m = (ar, m1)" by fastforce
  note M = mem_wf_malloc[OF assms(2) ml]
  show ?thesis
  proof (cases ar)
    case None
    then show ?thesis using assms small ml M by (auto simp: load_node_def)
  next
    case (Some a)
    let ?op = "op_zero\<lparr>op_alloc := [a]\<rparr>"
    obtain ok n vb m4 where at: "treap_node_attach_value (m1\<lparr>mem_nodes := (mem_nodes m1)(a \<mapsto> None)\<rparr>) (treap_node_init a key (treap_hash seed key)) value = (ok, n, vb, m4)"
      by (metis prod_cases4)
    have R: "op_run m op_zero m4 ?op \<and> (ok \<longrightarrow> held m4 n)"
      by (rule new_node_run[OF assms(2) ml[unfolded Some] at]) (simp add: op_zero_def)
    have g: "nodes_added m m4 [a]" using nodes_added_run[of m m4 ?op] R by simp
    show ?thesis
    proof (cases ok)
      case True
      obtain v where v: "n = Node a (treap_hash seed key) 1 key v Null Null" "node_value n = value" "valued n"
        using attach_node[OF at True] by auto
      have "r = Some (a, v, ucast (of_nat (treap_node_bytes (length key)) + ucast vb :: u32)) \<and> m' = m4"
        using assms(1) small ml Some at True v by (simp add: load_node_def)
      then show ?thesis using g R True v small by auto
    next
      case False
      then have e: "r = None" "m' = m4\<lparr>mem_nodes := (mem_nodes m4)(a := None)\<rparr>" using assms(1) small ml Some at by (simp_all add: load_node_def)
      have n: "mem_nodes m' = mem_nodes m4 |` (- set [a])" using e(2) by (auto simp: restrict_map_def)
      have "mem_wf m'" unfolding e(2) using g by (intro mem_wf_fewer) (auto simp: nodes_added_def split: if_splits)
      then show ?thesis using nodes_added_back[OF g assms(2) n] e g by (simp add: nodes_added_def)
    qed
  qed
qed

definition spine_mem :: "treap_mem \<Rightarrow> treap_mem \<Rightarrow> spine \<Rightarrow> bool" where
  "spine_mem m0 m st \<longleftrightarrow> nodes_added m0 m (addrs (close_spine st Null)) \<and> held m (close_spine st Null)"

lemma spine_mem_nodes: "spine_mem m0 m st \<Longrightarrow> mem_wf m' \<Longrightarrow> mem_nodes m' = mem_nodes m \<Longrightarrow> mem_next m \<le> mem_next m' \<Longrightarrow> spine_mem m0 m' st"
  using nodes_added_same[of m0 m _ m'] by (auto simp: spine_mem_def held_def)

lemma spine_mem_heap: "spine_mem m0 m st \<Longrightarrow> same_heap m m' \<Longrightarrow> spine_mem m0 m' st"
  using nodes_added_heap[of m0 m _ m'] by (auto simp: spine_mem_def same_heap_simps(2))

lemma spine_mem_wf: "spine_mem m0 m st \<Longrightarrow> mem_wf m"
  by (simp add: spine_mem_def nodes_added_def)

lemma spine_mem_add:
  assumes "spine_mem m0 m st" "load_node seed m key value = (Some (a, v, tb), m')" "load_pop p key st Null = (rest, prv)"
  shows "spine_mem m0 m' ((a, p, key, v, prv) # rest)"
proof -
  note wf = spine_mem_wf[OF assms(1)]
  note N = load_node_law[OF assms(2) wf]
  have g: "nodes_added m m' [a]" "mem_nodes m' a = Some (map_option fst v)" using N by simp_all
  have "held m' (close_spine st Null)"
    using assms(1) g(1) mem_wf_node[OF wf] by (fastforce simp: spine_mem_def held_def nodes_added_def)
  then have "held m' (close_spine ((a, p, key, v, prv) # rest) Null)"
    using g(2) unfolding held_def spine_add(2)[OF assms(3)] by simp
  then show ?thesis using nodes_added_trans[OF assms(1)[unfolded spine_mem_def, THEN conjunct1] g(1)]
    by (simp only: spine_mem_def spine_add(2)[OF assms(3)] map_append list.map fst_conv)
qed

lemma load_item_heap: "load_item m kcap vcap klen inp = (r, m') \<Longrightarrow> same_heap m m'"
  by (auto simp: load_item_def grow_buf_def Let_def same_heap_def split: option.splits prod.splits if_splits)

lemma load_loop_mem:
  assumes "load_loop seed m cap st kcap vcap n lb inp = (res, rest, m')" "spine_mem m0 m st"
  shows "spine_mem m0 m' (case res of Inl st' \<Rightarrow> st' | Inr (st', n', l') \<Rightarrow> st')"
  using assms
proof (induction seed m cap st kcap vcap n lb inp rule: load_loop.induct)
  case (1 seed m cap st kcap vcap n lb inp)
  note step = 1(2)[unfolded load_loop.simps[of seed m cap st kcap vcap n lb inp]]
  show ?case
  proof (cases "take_in 4 inp")
    case None
    then show ?thesis using step 1(3) by auto
  next
    case (Some bi)
    obtain b in1 where bi: "take_in 4 inp = Some (b, in1)" using Some by (cases bi) auto
    let ?kl = "unat (k_read_u32 b)"
    obtain ir m1 where it: "load_item m kcap vcap ?kl in1 = (ir, m1)" by fastforce
    note s1 = spine_mem_heap[OF 1(3) load_item_heap[OF it]]
    show ?thesis
    proof (cases "?kl = 0 \<or> ir = None")
      case True
      then show ?thesis using step bi it 1(3) s1 by (cases "?kl = 0") (auto simp: Let_def)
    next
      case False
      then obtain key vl kc vc in2 where ir: "ir = Some (key, vl, kc, vc, in2)" by (cases ir) auto
      obtain nr m2 where nd: "load_node seed m1 key vl = (nr, m2)" by fastforce
      note N = load_node_law[OF nd spine_mem_wf[OF s1]]
      show ?thesis
      proof (cases nr)
        case None
        then have "spine_mem m0 m2 st" using N spine_mem_nodes[OF s1] by simp
        then show ?thesis using step bi it False ir nd None by (auto simp: Let_def)
      next
        case (Some avt)
        obtain a v tb where nr: "nr = Some (a, v, tb)" using Some by (cases avt) auto
        let ?p = "treap_hash seed key"
        obtain rs prv where pp: "load_pop ?p key st Null = (rs, prv)" by fastforce
        let ?n = "(a, ?p, key, v, prv)"
        obtain pr m3 where pu: "stack_push m2 cap rs ?n = (pr, m3)" by fastforce
        note s3 = spine_mem_heap[OF spine_mem_add[OF s1 nd[unfolded nr] pp] push_same(1)[OF pu]]
        show ?thesis
        proof (cases pr)
          case None
          then show ?thesis using step bi it False ir nd nr pp pu s3 by (auto simp: Let_def)
        next
          case (Some cs)
          obtain c1 where cs: "pr = Some (c1, ?n # rs)" using Some push_same(2)[OF pu] by (cases cs) auto
          have lp: "load_loop seed m3 c1 (?n # rs) kc vc (n + 1) (lb + tb) in2 = (res, rest, m')"
            using step bi it False ir nd nr pp pu cs by (auto simp: Let_def)
          show ?thesis
            by (rule 1(1)[OF bi refl refl _ it[symmetric] ir refl refl refl refl nd[symmetric] nr refl refl refl pp[symmetric] refl pu[symmetric] cs refl lp s3]) (use False in simp)
        qed
      qed
    qed
  qed
qed

subsection \<open>The tree of a load\<close>

definition item_ok :: "bytes \<times> bytes \<Rightarrow> bool" where
  "item_ok x \<longleftrightarrow> fst x \<noteq> [] \<and> treap_node_bytes (length (fst x)) \<le> 0xffffffff \<and> length (snd x) < 2 ^ 32"

lemma take_in_append [simp]: "take_in (length a) (a @ b) = Some (a, b)"
  by (simp add: take_in_def)

lemma length_save_len [simp]: "length (save_len n) = 4"
  by (simp add: save_len_def k_write_u32_def)

lemma take_in_len [simp]: "take_in 4 (save_len n @ b) = Some (save_len n, b)"
  using take_in_append[of "save_len n" b] by simp

lemma read_len: "n < 2 ^ 32 \<Longrightarrow> unat (k_read_u32 (save_len n)) = n"
  using u32c.dec_enc[of "of_nat n" "[]"] by (simp add: save_len_def unat_of_nat take_bit_nat_eq_self)

lemma load_item_stream:
  assumes "load_item m kcap vcap (length k) (k @ save_len (length v) @ v @ tail) = (r, m')" "length v < 2 ^ 32"
  shows "(r = None \<and> mem_script m \<noteq> []) \<or> (\<exists>kc vc. r = Some (k, v, kc, vc, tail) \<and> (mem_script m = [] \<longrightarrow> mem_script m' = []))"
  using assms by (auto simp: load_item_def grow_buf_def read_len Let_def split: if_splits prod.splits)

lemma load_node_room:
  assumes "load_node seed m key value = (r, m')" "mem_script m = []" "treap_node_bytes (length key) \<le> 0xffffffff"
  shows "r \<noteq> None \<and> mem_script m' = []"
  using assms by (auto simp: load_node_def treap_malloc_def treap_node_attach_value_def treap_node_init_def treap_blob_create_def Let_def split: if_splits)

lemma spine_length: "length st \<le> length (entries (close_spine st Null))"
proof (induction st)
  case (Cons n st)
  obtain a p k v l where n: "n = (a, p, k, v, l)" by (cases n) auto
  show ?case using Cons close_parts(1)[of st "fixed a p k v l Null"] by (simp add: n)
qed simp

lemma load_stream_law:
  assumes "load_loop seed m cap st kcap vcap n lb (concat (map stream_item es) @ save_len 0 @ tail) = (res, rest, m')"
    "list_all item_ok es" "sorted_wrt (<) (keys (close_spine st Null) @ map fst es)" "part_ok (close_spine st Null)"
    "keyed seed (close_spine st Null)" "n = of_nat (length (entries (close_spine st Null)))" "spine_mem m0 m st"
  shows "case res of Inl st' \<Rightarrow> mem_script m \<noteq> [] \<or> 2 ^ 31 \<le> length (entries (close_spine st Null)) + length es
    | Inr (st', n', l') \<Rightarrow> rest = tail \<and> part_ok (close_spine st' Null) \<and> keyed seed (close_spine st' Null)
        \<and> entries (close_spine st' Null) = entries (close_spine st Null) @ es \<and> n' = of_nat (length (entries (close_spine st' Null)))"
  using assms
proof (induction es arbitrary: m cap st kcap vcap n lb)
  case Nil
  have "(res, rest) = (Inr (st, n, lb), tail)"
    using Nil.prems(1) load_loop.simps[of seed m cap st kcap vcap n lb "save_len 0 @ tail"] by (simp add: read_len)
  then show ?case using Nil.prems by simp
next
  case (Cons x es)
  obtain k vl where x: "x = (k, vl)" by fastforce
  let ?T = "close_spine st Null" let ?p = "treap_hash seed k" let ?inp = "concat (map stream_item es) @ save_len 0 @ tail"
  have io: "k \<noteq> []" "treap_node_bytes (length k) \<le> 0xffffffff" "length k < 2 ^ 32" "length vl < 2 ^ 32" "list_all item_ok es"
    using Cons.prems(2) item_ok_def[of x] by (auto simp: x treap_node_bytes_def)
  obtain ir m1 where it: "load_item m kcap vcap (length k) (k @ save_len (length vl) @ vl @ ?inp) = (ir, m1)" by fastforce
  note s1 = spine_mem_heap[OF Cons.prems(7) load_item_heap[OF it]]
  have e: "concat (map stream_item (x # es)) @ save_len 0 @ tail = save_len (length k) @ k @ save_len (length vl) @ vl @ ?inp"
    using stream_item_def[of x] by (simp add: x)
  note step = Cons.prems(1)[unfolded e load_loop.simps[of seed m cap st kcap vcap n lb "save_len _ @ _"] take_in_len]
  from load_item_stream[OF it io(4)] consider (oom) "ir = None" "mem_script m \<noteq> []"
    | (ok) kc vc where "ir = Some (k, vl, kc, vc, ?inp)" "mem_script m = [] \<longrightarrow> mem_script m1 = []" by blast
  then show ?case
  proof cases
    case oom
    then show ?thesis using step it io by (auto simp: read_len)
  next
    case (ok kc vc)
    obtain nr m2 where nd: "load_node seed m1 k vl = (nr, m2)" by fastforce
    note room = load_node_room[OF nd _ io(2)]
    show ?thesis
    proof (cases nr)
      case None
      then have "mem_script m \<noteq> []" using room ok(2) by auto
      then show ?thesis using step it io ok(1) nd None by (auto simp: read_len)
    next
      case (Some avt)
      obtain a v tb where nr: "nr = Some (a, v, tb)" using Some by (cases avt) auto
      note N = load_node_law[OF nd spine_mem_wf[OF s1]]
      obtain rs prv where pp: "load_pop ?p k st Null = (rs, prv)" by fastforce
      let ?n = "(a, ?p, k, v, prv)" let ?T2 = "close_spine (?n # rs) Null"
      obtain pr m3 where pu: "stack_push m2 cap rs ?n = (pr, m3)" by fastforce
      note s3 = spine_mem_heap[OF spine_mem_add[OF s1 nd[unfolded nr] pp] push_same(1)[OF pu]]
      have v: "(case v of None \<Rightarrow> [] | Some (b, d) \<Rightarrow> d) = vl" "\<forall>b. v \<noteq> Some (b, [])" using N nr by simp_all
      note add = spine_add[OF pp, of a v, unfolded v(1)]
      have new: "k \<notin> set (keys ?T)" using Cons.prems(3) by (auto simp: x sorted_wrt_append)
      have ok2: "part_ok ?T2" using spine_add_ok[OF pp Cons.prems(4) new v(2)] .
      have key2: "keyed seed ?T2" using Cons.prems(5) io unfolding keyed_def add(3) by simp
      have sort2: "sorted_wrt (<) (keys ?T2 @ map fst es)" using Cons.prems(3) unfolding add(1) by (simp add: x)
      have n2: "n + 1 = of_nat (length (entries ?T2))" using Cons.prems(6) unfolding add(1) by simp
      have len: "length rs \<le> length (entries ?T)" using spine_length[of "?n # rs"] unfolding add(1) by simp
      show ?thesis
      proof (cases pr)
        case None
        have "mem_script m \<noteq> [] \<or> 2 ^ 31 \<le> length rs" using push_room(2)[OF pu _ None] room ok(2) by blast
        then have "mem_script m \<noteq> [] \<or> 2 ^ 31 \<le> length (entries ?T) + length (x # es)" using len by auto
        then show ?thesis using step it io ok(1) nd nr pp pu None by (auto simp: read_len)
      next
        case (Some cs)
        obtain c1 where cs: "pr = Some (c1, ?n # rs)" using Some push_same(2)[OF pu] by (cases cs) auto
        have lp: "load_loop seed m3 c1 (?n # rs) kc vc (n + 1) (lb + tb) ?inp = (res, rest, m')"
          using step it io ok(1) nd nr pp pu cs by (simp add: read_len)
        have sc: "mem_script m3 \<noteq> [] \<Longrightarrow> mem_script m \<noteq> []" using push_room(1)[OF pu] room ok(2) by blast
        show ?thesis using Cons.IH[OF lp io(5) sort2 ok2 key2 n2 s3] sc unfolding add(1) by (auto simp: x split: sum.splits)
      qed
    qed
  qed
qed

subsection \<open>The whole load\<close>

lemma spine_free:
  assumes "spine_mem m0 m st" "mem_wf m0"
  shows "mem_wf (snd (treap_free_tree m (close_spine st Null))) \<and> mem_nodes (snd (treap_free_tree m (close_spine st Null))) = mem_nodes m0
    \<and> mem_next m0 \<le> mem_next (snd (treap_free_tree m (close_spine st Null)))"
proof -
  let ?T = "close_spine st Null"
  have g: "nodes_added m0 m (addrs ?T)" using assms(1) by (simp add: spine_mem_def)
  then have "mem_wf m" "distinct (addrs ?T)" "set (addrs ?T) \<subseteq> dom (mem_nodes m)" "mem_next m0 \<le> mem_next m" by (auto simp: nodes_added_def)
  moreover obtain n m' where f: "treap_free_tree m ?T = (n, m')" by fastforce
  ultimately have "mem_wf m' \<and> mem_nodes m' = mem_nodes m |` (- set (addrs ?T)) \<and> mem_next m' = mem_next m" using free_tree_law by blast
  then show ?thesis using f nodes_added_back[OF g assms(2), of m'] \<open>mem_next m0 \<le> mem_next m\<close> by simp
qed

lemma load_cases:
  assumes "treap_load m t inp = (rc, t', m', rest)" "treap_inv m t"
  obtains (fail) "rc = -1" "untouched m t m' t'" "st_root (tr_snap t) = Null \<Longrightarrow> st_pending (tr_snap t) = [] \<Longrightarrow> mem_script m = [] \<Longrightarrow>
      \<exists>st in1 m1. load_loop (tr_seed t) m 64 [] 0 0 0 0 inp = (Inl st, in1, m1)"
  | (ok) m1 m2 m3 st n lb where "rc = 0" "same_heap m m1" "mem_script m = [] \<longrightarrow> m1 = m" "load_loop (tr_seed t) m1 64 [] 0 0 0 0 inp = (Inr (st, n, lb), rest, m2)"
      "spine_mem m m2 st" "m3 = snd (treap_free_chain m2 (st_pending (tr_live t)))" "m' = snd (treap_free_tree m3 (root t))"
      "t' = t\<lparr>tr_snap := st_zero, tr_live := st_zero\<lparr>st_root := close_spine st Null, st_count := n, st_tree_bytes := lb\<rparr>\<rparr>"
      "st_root (tr_snap t) = Null" "st_pending (tr_snap t) = []"
proof -
  note nt = inv_parts(4)[OF assms(2)] and wf = inv_parts(1)[OF assms(2)]
  have un: "same_heap m mx \<Longrightarrow> untouched m t mx t" for mx using same_heap_simps(1)[of m mx] wf by (simp add: untouched_def same_heap_def)
  obtain ok s where al: "alloc (mem_script m) = (ok, s)" by fastforce
  define m1 where "m1 = m\<lparr>mem_script := s\<rparr>"
  have h1: "same_heap m m1" "mem_script m = [] \<Longrightarrow> m1 = m \<and> ok" using al by (auto simp: m1_def same_heap_def)
  obtain res in2 m2 where lp: "load_loop (tr_seed t) m1 64 [] 0 0 0 0 inp = (res, in2, m2)" by (metis prod_cases3)
  have s0: "spine_mem m m1 []" using nodes_added_heap[OF nodes_added_refl[OF wf] h1(1)] by (simp add: spine_mem_def)
  note sm = load_loop_mem[OF lp s0]
  have u: "treap_load m t inp = (if st_root (tr_snap t) \<noteq> Null \<or> st_pending (tr_snap t) \<noteq> [] then (-1, t, m, inp) else if \<not> ok then (-1, t, m1, inp)
      else case res of Inl st \<Rightarrow> (-1, t, snd (treap_free_tree m2 (close_spine st Null)), in2)
        | Inr (st, n, lb) \<Rightarrow> (0, t\<lparr>tr_snap := st_zero, tr_live := st_zero\<lparr>st_root := close_spine st Null, st_count := n, st_tree_bytes := lb\<rparr>\<rparr>,
            snd (treap_free_tree (snd (treap_free_chain m2 (st_pending (tr_live t)))) (root t)), in2))"
    unfolding treap_load_def using nt lp by (cases "st_root (tr_snap t) \<noteq> Null \<or> st_pending (tr_snap t) \<noteq> []"; cases ok; cases res)
      (auto simp: al Let_def treap_free_chain_def simp flip: m1_def)
  consider "st_root (tr_snap t) \<noteq> Null \<or> st_pending (tr_snap t) \<noteq> []" | "st_root (tr_snap t) = Null" "st_pending (tr_snap t) = []" "\<not> ok"
    | (bad) st where "st_root (tr_snap t) = Null" "st_pending (tr_snap t) = []" "ok" "res = Inl st"
    | (good) st n lb where "st_root (tr_snap t) = Null" "st_pending (tr_snap t) = []" "ok" "res = Inr (st, n, lb)"
    by (cases res) auto
  then show thesis
  proof cases
    case 1
    then show thesis using fail u assms(1) un[of m] by (auto simp: same_heap_def)
  next
    case 2
    then show thesis using fail u assms(1) un[OF h1(1)] h1(2) by auto
  next
    case (bad st)
    have "untouched m t m' t'" using u assms(1) bad spine_free[OF _ wf, of m2 st] sm by (simp add: untouched_def)
    then show thesis using fail u assms(1) bad lp h1(2) by auto
  next
    case (good st n lb)
    show thesis by (rule ok[OF _ h1(1) _ _ _ refl, of st n lb m2]) (use u assms(1) good lp sm h1(2) in auto)
  qed
qed

lemma load_ok:
  assumes "treap_load m t (stream_of es @ tail) = (rc, t', m', rest)" "treap_inv m t" "list_all item_ok es" "sorted_wrt (<) (map fst es)"
  shows "(rc = 0 \<and> rest = tail \<and> treap_inv m' t' \<and> tr_seed t' = tr_seed t \<and> entries (root t') = es
      \<and> dom (mem_nodes m') = dom (mem_nodes m) - set (addrs (root t)) - set (st_pending (tr_live t)) \<union> set (addrs (root t')))
    \<or> (rc = -1 \<and> untouched m t m' t' \<and> (mem_script m \<noteq> [] \<or> st_root (tr_snap t) \<noteq> Null \<or> st_pending (tr_snap t) \<noteq> [] \<or> 2 ^ 31 \<le> length es))"
proof -
  have e: "stream_of es @ tail = concat (map stream_item es) @ save_len 0 @ tail" by (simp add: stream_of_def)
  note wf = inv_parts(1)[OF assms(2)]
  have z: "part_ok (close_spine [] Null)" "keyed s (close_spine [] Null)" "spine_mem m m []" for s
    using nodes_added_refl[OF wf] by (simp_all add: part_ok_def keyed_def spine_mem_def)
  show ?thesis using assms(1,2)
  proof (cases rule: load_cases)
    case fail
    have "2 ^ 31 \<le> length es" if "mem_script m = []" "st_root (tr_snap t) = Null" "st_pending (tr_snap t) = []"
    proof -
      note c = that
      obtain st in1 m1 where "load_loop (tr_seed t) m 64 [] 0 0 0 0 (concat (map stream_item es) @ save_len 0 @ tail) = (Inl st, in1, m1)"
        using fail(3)[OF c(2,3,1)] unfolding e by blast
      from load_stream_law[OF this assms(3) _ z(1,2) _ z(3)] show ?thesis using c assms(4) by simp
    qed
    then show ?thesis using fail(1,2) by blast
  next
    case (ok m1 m2 m3 st n lb)
    let ?T = "close_spine st Null" let ?P = "st_pending (tr_live t)" let ?A = "addrs (root t)"
    have L: "rest = tail" "part_ok ?T" "keyed (tr_seed t) ?T" "entries ?T = es" "n = of_nat (length (entries ?T))"
      using load_stream_law[OF ok(4)[unfolded e] assms(3) _ z(1,2) _ spine_mem_heap[OF z(3) ok(2)]] assms(4) by simp_all
    from ok(5) have g: "nodes_added m m2 (addrs ?T)" "held m2 ?T" by (simp_all add: spine_mem_def)
    then have g2: "mem_wf m2" "distinct (addrs ?T)" "set (addrs ?T) \<inter> dom (mem_nodes m) = {}" "dom (mem_nodes m2) = dom (mem_nodes m) \<union> set (addrs ?T)"
      using mem_wf_node[OF wf] by (auto simp: nodes_added_def) (force simp: nodes_added_def)
    have i: "distinct (?A @ ?P)" "set ?A \<union> set ?P \<subseteq> dom (mem_nodes m)" using assms(2) inv_dom[OF assms(2)] by (auto simp: treap_inv_def)
    have P: "mem_wf m3 \<and> mem_nodes m3 = mem_nodes m2 |` (- set ?P) \<and> mem_next m3 = mem_next m2"
      by (rule release_list_counting[of m2 ?P "fst (treap_free_chain m2 ?P)"]) (use g2 i ok(6) in \<open>auto simp: treap_free_chain_def\<close>)
    have dj: "set (addrs ?T) \<inter> set ?P = {}" "set (addrs ?T) \<inter> set ?A = {}" using g2(3) i(2) by blast+
    have d2: "dom (mem_nodes m3) = dom (mem_nodes m2) \<inter> - set ?P" using P by (simp only: dom_restrict)
    have d3: "set ?A \<subseteq> dom (mem_nodes m3)" unfolding d2 g2(4) using i by auto
    have A: "mem_wf m' \<and> mem_nodes m' = mem_nodes m3 |` (- set ?A) \<and> mem_next m' = mem_next m3"
      by (rule free_tree_law[of m3 "root t" "fst (treap_free_tree m3 (root t))"]) (use P i d3 ok(7) in auto)
    have "held m3 ?T" using held_fewer[OF g(2) P[THEN conjunct2, THEN conjunct1] dj(1)] .
    then have h: "held m' ?T" using held_fewer[OF _ A[THEN conjunct2, THEN conjunct1] dj(2)] by blast
    have d: "dom (mem_nodes m') = dom (mem_nodes m) - set ?A - set ?P \<union> set (addrs ?T)"
      unfolding A[THEN conjunct2, THEN conjunct1] dom_restrict d2 g2(4) using dj by blast
    have "tree_ok (tr_seed t) ?T" using L assms(4) by (simp add: tree_ok_parts)
    then have "treap_inv m' t'" using A h g2(2) L(5) inv_parts(4)[OF assms(2)] unfolding ok(8) by (simp add: treap_inv_def st_zero_def)
    then show ?thesis using L d ok(1) unfolding ok(8) by simp
  qed
qed

lemma entries_item_ok:
  assumes "tree_ok seed t" "\<forall>x\<in>set (entries t). length (snd x) < 2 ^ 32"
  shows "list_all item_ok (entries t)"
  unfolding list_all_iff
proof
  fix x assume x: "x \<in> set (entries t)"
  then have "fst x \<in> snd ` pkeys t" unfolding snd_pkeys by simp
  then obtain p where "(p, fst x) \<in> pkeys t" by auto
  then have "fst x \<noteq> [] \<and> treap_node_bytes (length (fst x)) \<le> 0xffffffff" using assms(1) by (auto simp: tree_ok_def)
  then show "item_ok x" using assms(2) x by (simp add: item_ok_def)
qed

subsection \<open>The properties\<close>

text \<open>C29. A captured snapshot survives the round trip to a file. Capture a store, run any sets and deletes on it
  (with any allocation failures) and save: the memory is untouched, and a save fails only through a failed write
  or allocation or on a store with 2^31 keys. Loading what was written, into any store, either restores exactly
  the entries there were at the capture, with the canonical tree when the seeds agree, consumes nothing behind
  the stream and frees every node of the store it replaces, or it fails and leaves that store as it was; the
  latter only when an allocation failed, a snapshot is active or there are 2^31 keys.\<close>

theorem snapshot_roundtrip:
  assumes "treap_inv m t" "\<forall>x\<in>set (entries (root t)). length (snd x) < 2 ^ 32"
    "store.run (m, treap_capture t) cs = (rcs, m1, t1)" "treap_save m1 t1 (ws, []) = (sc, (ws', out), m2)"
    "treap_inv m3 t3" "treap_load m3 t3 (out @ tail) = (rc, t4, m4, rest)"
  shows "same_heap m1 m2
    \<and> (sc = 0 \<or> sc = -1 \<and> (mem_script m1 \<noteq> [] \<or> ws \<noteq> [] \<or> 2 ^ 31 \<le> length (entries (root t))))
    \<and> (sc = 0 \<longrightarrow>
        rc = 0 \<and> rest = tail \<and> treap_inv m4 t4 \<and> entries (root t4) = entries (root t) \<and> (tr_seed t3 = tr_seed t \<longrightarrow> shape (root t4) = shape (root t))
          \<and> dom (mem_nodes m4) = dom (mem_nodes m3) - set (addrs (root t3)) - set (st_pending (tr_live t3)) \<union> set (addrs (root t4))
        \<or> rc = -1 \<and> untouched m3 t3 m4 t4
          \<and> (mem_script m3 \<noteq> [] \<or> st_root (tr_snap t3) \<noteq> Null \<or> st_pending (tr_snap t3) \<noteq> [] \<or> 2 ^ 31 \<le> length (entries (root t))))"
proof -
  note c = capture_inv[OF assms(1)] and ok = inv_parts(3)[OF assms(1)]
  from run_snap[OF c(1) assms(3)] c(2) have r: "st_root (tr_snap t1) = root t" by simp
  have srt: "sorted_wrt (<) (keys (root t))" using ok by (simp add: tree_ok_def)
  note S = save_law[OF assms(4), unfolded r, OF srt]
  have shp: "tree_ok (tr_seed t) (root t4) \<Longrightarrow> entries (root t4) = entries (root t) \<Longrightarrow> shape (root t4) = shape (root t)"
    using canonical_shape ok by metis
  show ?thesis
  proof (cases "sc = 0")
    case True
    then have o: "out = stream_of (entries (root t))" using S by simp
    note L = load_ok[OF assms(6)[unfolded o] assms(5) entries_item_ok[OF ok assms(2)] srt]
    have "treap_inv m4 t4 \<Longrightarrow> tr_seed t4 = tr_seed t3 \<Longrightarrow> tr_seed t3 = tr_seed t \<Longrightarrow> entries (root t4) = entries (root t) \<Longrightarrow> shape (root t4) = shape (root t)"
      using shp inv_parts(3)[of m4 t4] by simp
    then show ?thesis using S L True by blast
  next
    case False
    then show ?thesis using S by auto
  qed
qed

lemma snapshot_roundtrip_witness:
  "\<exists>rcs m1 t1 ws' out m2 t4 m4. store.run (sample_mem, treap_capture sample_store) [Del [1]] = (rcs, m1, t1)
    \<and> treap_save m1 t1 ([], []) = (0, (ws', out), m2) \<and> treap_load mem_empty treap_empty (out @ [9]) = (0, t4, m4, [9])
    \<and> entries (root t4) = [([1], [7, 7]), ([2, 3], [8])] \<and> shape (root t4) = shape (root sample_store)"
proof -
  note c = capture_inv[OF sample_facts(1)]
  obtain rc0 t1 m1 where d: "treap_delete sample_mem (treap_capture sample_store) [1] = (rc0, t1, m1)" "mem_script m1 = []"
    using delete_room[OF sample_facts(4) inv_parts(3)[OF c(1)], of "[1]"] by auto
  have r: "store.run (sample_mem, treap_capture sample_store) [Del [1]] = ([rc0], m1, t1)" using d by simp
  obtain sc ws' out m2 where s: "treap_save m1 t1 ([], []) = (sc, (ws', out), m2)" by (metis prod.exhaust)
  obtain rc t4 m4 rest where l: "treap_load mem_empty treap_empty (out @ [9]) = (rc, t4, m4, rest)" by (metis prod.exhaust)
  have v: "\<forall>x\<in>set (entries (root sample_store)). length (snd x) < 2 ^ 32" by (simp add: sample_facts(3))
  have e: "st_root (tr_snap treap_empty) = Null" "st_pending (tr_snap treap_empty) = []" "tr_seed treap_empty = tr_seed sample_store"
    using sample_facts(5) by (simp_all add: treap_empty_def st_zero_def)
  note R = snapshot_roundtrip[OF sample_facts(1) v r s empty_inv l, unfolded sample_facts(3) empty_entries(2)]
  have "sc = 0" using R d(2) by auto
  moreover have "rc = 0 \<and> rest = [9] \<and> entries (root t4) = [([1], [7, 7]), ([2, 3], [8])] \<and> shape (root t4) = shape (root sample_store)"
    using R \<open>sc = 0\<close> e by auto
  ultimately show ?thesis using r s l by blast
qed

text \<open>A scan visits exactly the keys of its range, an empty bound being open, in ascending or descending
  order and until the visitor stops; it returns the number of visits and the visitor's final state and changes
  no memory. The error value comes only from a failed allocation or a store with 2^31 keys.\<close>

theorem treap_scan_visits:
  assumes "treap_inv m t" "treap_scan m t b e asc fn ud = (c, ud', m')"
  shows "same_heap m m' \<and> (c = -1 \<and> (mem_script m = [] \<longrightarrow> 2 ^ 31 \<le> length (entries (root t)))
    \<or> (case visit fn (ordered asc (filter (\<lambda>x. in_range b e (fst x)) (entries (root t)))) ud of (n, u) \<Rightarrow> c = of_nat n \<and> ud' = u))"
  using scan_law[OF assms(2)] inv_parts(3)[OF assms(1)] by (simp add: tree_ok_def)

lemma treap_scan_visits_witness:
  "(let r = treap_scan sample_mem sample_store [] [] False (\<lambda>k v ks. (False, ks @ [k])) [] in fst r = 2 \<and> fst (snd r) = [[2, 3], [1]])
    \<and> (let r = treap_scan sample_mem sample_store [1] [2] True (\<lambda>k v ks. (True, ks @ [k])) [] in fst r = 1 \<and> fst (snd r) = [[1]])"
proof -
  obtain c1 u1 m1 where 1: "treap_scan sample_mem sample_store [] [] False (\<lambda>k v ks. (False, ks @ [k])) [] = (c1, u1, m1)" by (metis prod_cases3)
  obtain c2 u2 m2 where 2: "treap_scan sample_mem sample_store [1] [2] True (\<lambda>k v ks. (True, ks @ [k])) [] = (c2, u2, m2)" by (metis prod_cases3)
  show ?thesis using treap_scan_visits[OF sample_facts(1) 1] treap_scan_visits[OF sample_facts(1) 2] 1 2
    by (auto simp: sample_facts(3,4) ordered_def in_range_def)
qed

end
