(* ===== verification/Server_Apply.thy ===== *)
theory Server_Apply
  imports Server_Codec Cluster Treap_Load
begin

section \<open>Applying committed commands\<close>

text \<open>
  The state machine of \<^verbatim>\<open>src/code/kserver.h\<close>: the commands the server submits to Raft
  (\<^verbatim>\<open>k_server_build_write_command\<close>, \<^verbatim>\<open>k_server_build_addr_command\<close>) and their execution on the applied
  state (\<^verbatim>\<open>k_server_apply_command\<close>, \<^verbatim>\<open>k_server_apply_exec\<close>), with the address book and the membership
  the commands maintain. Requests waiting for a result are found by their cookie, so the request table
  is a map. Buffers draw their allocations from a script of their own.
\<close>

abbreviation K_OP_SET :: u8 where "K_OP_SET \<equiv> 1"
abbreviation K_OP_MSET :: u8 where "K_OP_MSET \<equiv> 2"
abbreviation K_OP_RSET :: u8 where "K_OP_RSET \<equiv> 3"
abbreviation K_OP_DEL :: u8 where "K_OP_DEL \<equiv> 4"
abbreviation K_OP_MDEL :: u8 where "K_OP_MDEL \<equiv> 5"
abbreviation K_OP_RDEL :: u8 where "K_OP_RDEL \<equiv> 6"
abbreviation K_OP_CAS :: u8 where "K_OP_CAS \<equiv> 7"
abbreviation K_OP_FCALL :: u8 where "K_OP_FCALL \<equiv> 8"
abbreviation K_OP_ADDR :: u8 where "K_OP_ADDR \<equiv> 9"
abbreviation K_CAS_SETNX :: u8 where "K_CAS_SETNX \<equiv> 0"
abbreviation K_CAS_CMP :: u8 where "K_CAS_CMP \<equiv> 1"
abbreviation K_RAFT_COMMAND_MAX :: nat where "K_RAFT_COMMAND_MAX \<equiv> K_FRAME_MAX - 256"

subsection \<open>State\<close>

text \<open>The part of a request that applying a command fills in.\<close>

record k_answer =
  an_conflict :: bool
  an_result :: k_buf

text \<open>
  The applied store with its memory, the address book, the member sets, the nodes still catching up
  (three parallel arrays, of which the time stamps are a fixed array), the targets of a refused
  change, the number of nodes that caught up, the clock and the requests waiting for an answer.
\<close>

record k_applied =
  ap_mem :: treap_mem
  ap_tree :: treap
  ap_script :: script
  ap_cluster :: k_cluster
  ap_voters :: "nat list"
  ap_learners :: "nat list"
  ap_pending :: "nat list"
  ap_source :: "int list"
  ap_since :: "u64 list"
  ap_refused :: "nat list"
  ap_graduated :: u32
  ap_elapsed :: u64
  ap_requests :: "nat \<rightharpoonup> k_answer"

subsection \<open>Address book and members\<close>

text \<open>The host is kept as a C string.\<close>

definition k_server_add_address :: "k_cluster \<Rightarrow> int \<Rightarrow> bytes \<Rightarrow> u16 \<Rightarrow> u16 \<Rightarrow> k_cluster option" where
  "k_server_add_address c i host client_port peer_port =
     (if i \<le> 0 \<or> length host < 1 \<or> length host \<ge> K_HOST_MAX then None
      else let node = \<lparr>node_id = nat i, node_host = takeWhile (\<lambda>b. b \<noteq> 0) host, node_client_port = unat client_port, node_peer_port = unat peer_port\<rparr>
        in case k_cluster_index c (nat i) of Some j \<Rightarrow> Some (c[j := node])
           | None \<Rightarrow> (case k_cluster_index c 0 of Some j \<Rightarrow> Some (c[j := node])
              | None \<Rightarrow> if length c \<ge> K_MAX_NODES then None else Some (c @ [node])))"

definition k_membership_has :: "nat list \<Rightarrow> nat \<Rightarrow> bool" where
  "k_membership_has ids i = List.member ids i"

definition k_membership_contains :: "k_applied \<Rightarrow> nat \<Rightarrow> bool" where
  "k_membership_contains s i \<longleftrightarrow> k_membership_has (ap_voters s) i \<or> k_membership_has (ap_learners s) i \<or> k_membership_has (ap_pending s) i"

definition k_server_refused_contains :: "k_applied \<Rightarrow> nat \<Rightarrow> bool" where
  "k_server_refused_contains s i = List.member (ap_refused s) i"

text \<open>The two loops that collect the union of two voter sets, up to the size of the array.\<close>

fun collect_voters :: "nat list \<Rightarrow> nat list \<Rightarrow> nat list" where
  "collect_voters acc [] = acc"
| "collect_voters acc (i # ids) =
     (if length acc < K_MAX_NODES then collect_voters (if k_membership_has acc i then acc else acc @ [i]) ids else acc)"

text \<open>Entries that graduated are overwritten by the last one; the time stamps are not moved.\<close>

function graduate :: "(nat \<Rightarrow> bool) \<Rightarrow> nat \<Rightarrow> nat list \<Rightarrow> int list \<Rightarrow> nat list \<times> int list" where
  "graduate done i pend src =
     (if i < length pend
      then if done (pend ! i) then graduate done i (butlast (pend[i := last pend])) (butlast (src[i := last src]))
           else graduate done (i + 1) pend src
      else (pend, src))"
  by pat_completeness auto
termination
  by (relation "measures [\<lambda>(d, i, p, s). length p, \<lambda>(d, i, p, s). length p - i]") auto

declare graduate.simps [simp del]

definition k_membership_update :: "k_applied \<Rightarrow> nat list \<Rightarrow> nat list \<Rightarrow> nat list \<Rightarrow> k_applied" where
  "k_membership_update s old_ids new_ids learner_ids =
     (let voters = collect_voters (collect_voters [] old_ids) new_ids;
          (p, src) = graduate (\<lambda>i. k_membership_has voters i \<or> k_membership_has learner_ids i) 0 (ap_pending s) (ap_source s)
      in s\<lparr>ap_voters := voters, ap_learners := learner_ids, ap_pending := p, ap_source := src,
            ap_graduated := ap_graduated s + of_nat (length (ap_pending s) - length p)\<rparr>)"

subsection \<open>Reading a command\<close>

definition rd_u32 :: "k_reader \<Rightarrow> nat \<times> k_reader" where
  "rd_u32 r = (case k_reader_u32 r of (w, r) \<Rightarrow> (unat w, r))"

text \<open>A key, refused when its length is 0 or too large, and a byte string with a limit. The bytes are \<open>None\<close> (NULL) when the data ends.\<close>

definition read_key :: "k_reader \<Rightarrow> (bytes option \<times> k_reader) option" where
  "read_key r = (case rd_u32 r of (n, r) \<Rightarrow> if n = 0 \<or> n > K_KEY_MAX then None else Some (k_reader_bytes r n))"

definition read_upto :: "nat \<Rightarrow> k_reader \<Rightarrow> (nat \<times> bytes option \<times> k_reader) option" where
  "read_upto limit r = (case rd_u32 r of (n, r) \<Rightarrow> if n > limit then None else Some (n, k_reader_bytes r n))"

definition rd_end :: "k_reader \<Rightarrow> bool" where
  "rd_end r \<longleftrightarrow> \<not> rd_err r \<and> rd_off r = length (rd_data r)"

text \<open>The store refuses a NULL key and a NULL value of positive length.\<close>

abbreviation key_of :: "bytes option \<Rightarrow> bytes" where
  "key_of k \<equiv> (case k of None \<Rightarrow> [] | Some k \<Rightarrow> k)"

definition set_at :: "treap_mem \<Rightarrow> treap \<Rightarrow> bytes option \<Rightarrow> nat \<Rightarrow> bytes option \<Rightarrow> int \<times> treap \<times> treap_mem" where
  "set_at m t key n v = (case v of None \<Rightarrow> if n > 0 then (-1, t, m) else treap_set m t (key_of key) [] | Some v \<Rightarrow> treap_set m t (key_of key) v)"

lemma get_moves: "k_reader_get r w f = (v, r') \<Longrightarrow> rd_data r' = rd_data r \<and> rd_off r \<le> rd_off r' \<and> (v \<noteq> 0 \<longrightarrow> rd_off r' = rd_off r + w)"
  by (auto simp: k_reader_get_def k_reader_need_def split: if_splits)

lemma bytes_moves: "k_reader_bytes r n = (v, r') \<Longrightarrow> rd_data r' = rd_data r \<and> rd_off r \<le> rd_off r'"
  by (auto simp: k_reader_bytes_def k_reader_need_def split: if_splits)

lemma key_moves: "read_key r = Some (k, r') \<Longrightarrow> rd_data r' = rd_data r \<and> rd_off r < rd_off r'"
  using get_moves[of r 4 k_read_u32] bytes_moves by (fastforce simp: read_key_def rd_u32_def k_reader_u32_def split: prod.splits if_splits)

lemma upto_moves: "read_upto l r = Some (n, v, r') \<Longrightarrow> rd_data r' = rd_data r \<and> rd_off r \<le> rd_off r'"
  using get_moves[of r 4 k_read_u32] bytes_moves by (fastforce simp: read_upto_def rd_u32_def k_reader_u32_def split: prod.splits if_splits)

lemma u8_moves: "k_reader_u8 r = (v, r') \<Longrightarrow> rd_data r' = rd_data r \<and> rd_off r \<le> rd_off r'"
  using get_moves[of r 1 k_read_u8 v r'] by (simp add: k_reader_u8_def)

lemma pair_moves: "rd_u32 r = (n, r1) \<Longrightarrow> k_reader_bytes r1 n = (v, r2) \<Longrightarrow> \<not> rd_err r2 \<Longrightarrow> rd_data r2 = rd_data r \<and> rd_off r + 4 \<le> rd_off r2"
  by (auto simp: rd_u32_def k_reader_u32_def k_reader_get_def k_reader_bytes_def k_reader_need_def split: prod.splits if_splits)

subsection \<open>Transactions\<close>

text \<open>Fork, run, and commit; abort when the body fails.\<close>

definition in_txn :: "k_applied \<Rightarrow> (treap_mem \<Rightarrow> treap \<Rightarrow> 'a option \<times> treap_mem \<times> treap) \<Rightarrow> 'a option \<times> k_applied" where
  "in_txn s body =
     (case treap_fork (ap_mem s) (ap_tree s) of (None, m) \<Rightarrow> (None, s\<lparr>ap_mem := m\<rparr>)
      | (Some f, m) \<Rightarrow> (case body m f of (None, m, f) \<Rightarrow> (None, s\<lparr>ap_mem := treap_abort m f\<rparr>)
         | (Some x, m, f) \<Rightarrow> (case treap_commit f (ap_tree s) of (rc, t) \<Rightarrow>
             if rc \<noteq> 0 then (None, s\<lparr>ap_mem := treap_abort m f\<rparr>) else (Some x, s\<lparr>ap_mem := m, ap_tree := t\<rparr>))))"

text \<open>The write set of an FCALL.\<close>

function exec_loop :: "treap_mem \<Rightarrow> treap \<Rightarrow> k_reader \<Rightarrow> unit option \<times> treap_mem \<times> treap" where
  "exec_loop m f r =
     (if rd_off r < length (rd_data r)
      then case k_reader_u8 r of (opc, r) \<Rightarrow>
        (case read_key r of None \<Rightarrow> (None, m, f)
         | Some (key, r) \<Rightarrow>
             if opc = K_OP_SET
             then (case read_upto K_VALUE_MAX r of None \<Rightarrow> (None, m, f)
                   | Some (n, v, r) \<Rightarrow> (case set_at m f key n v of (rc, f, m) \<Rightarrow> if rc \<noteq> 0 then (None, m, f) else exec_loop m f r))
             else if opc = K_OP_DEL
             then (case treap_delete m f (key_of key) of (rc, f, m) \<Rightarrow> if rc < 0 then (None, m, f) else exec_loop m f r)
             else (None, m, f))
      else (if rd_end r then Some () else None, m, f))"
  by pat_completeness auto
termination
  by (relation "measure (\<lambda>(m, f, r). length (rd_data r) - rd_off r)") (auto dest!: u8_moves[OF sym] key_moves upto_moves)

declare exec_loop.simps [simp del]

definition k_server_apply_exec :: "k_applied \<Rightarrow> bytes \<Rightarrow> int \<times> k_applied" where
  "k_server_apply_exec s command =
     (case in_txn s (\<lambda>m f. exec_loop m f (snd (k_reader_u8 (k_reader_init command)))) of (ok, s) \<Rightarrow> (if ok = None then -1 else 0, s))"

text \<open>The commands on several keys: the number of keys they affected.\<close>

fun batch_loop :: "bool \<Rightarrow> nat \<Rightarrow> treap_mem \<Rightarrow> treap \<Rightarrow> k_reader \<Rightarrow> nat \<Rightarrow> nat option \<times> treap_mem \<times> treap" where
  "batch_loop sets 0 m f r affected = (if rd_end r then Some affected else None, m, f)"
| "batch_loop sets (Suc i) m f r affected =
     (case read_key r of None \<Rightarrow> (None, m, f)
      | Some (key, r) \<Rightarrow>
          if sets
          then (case read_upto K_VALUE_MAX r of None \<Rightarrow> (None, m, f)
                | Some (n, v, r) \<Rightarrow> (case set_at m f key n v of (rc, f, m) \<Rightarrow>
                    if rc \<noteq> 0 then (None, m, f) else batch_loop sets i m f r (affected + 1)))
          else (case treap_delete m f (key_of key) of (rc, f, m) \<Rightarrow>
                  if rc < 0 then (None, m, f) else batch_loop sets i m f r (if rc = 1 then affected + 1 else affected)))"

text \<open>The keys of a range, and the loop that overwrites them.\<close>

definition k_rset_collect :: "bytes \<Rightarrow> bytes \<Rightarrow> script \<times> k_buf \<Rightarrow> bool \<times> script \<times> k_buf" where
  "k_rset_collect key v sb = (let sb = put_fields sb [FU32 (of_nat (length key)), FBytes key] in (buf_err (snd sb), sb))"

function rset_loop :: "bytes \<Rightarrow> treap_mem \<Rightarrow> treap \<Rightarrow> k_reader \<Rightarrow> nat \<Rightarrow> nat option \<times> treap_mem \<times> treap" where
  "rset_loop newval m f r affected =
     (if rd_off r < length (rd_data r)
      then case rd_u32 r of (klen, r) \<Rightarrow>
        (case k_reader_bytes r klen of (k, r) \<Rightarrow>
           if rd_err r then (None, m, f)
           else case treap_set m f (key_of k) newval of (rc, f, m) \<Rightarrow>
             if rc \<noteq> 0 then (None, m, f) else rset_loop newval m f r (affected + 1))
      else (Some affected, m, f))"
  by pat_completeness auto
termination
  by (relation "measure (\<lambda>(v, m, f, r, a). length (rd_data r) - rd_off r)") (auto dest!: pair_moves[OF sym sym])

declare rset_loop.simps [simp del]

subsection \<open>Answers and commands\<close>

text \<open>Filling in the result of the request with this cookie, if it is still there.\<close>

definition answer :: "k_applied \<Rightarrow> nat option \<Rightarrow> bool option \<Rightarrow> bytes option \<Rightarrow> int \<times> k_applied" where
  "answer s cookie conflict body =
     (case cookie of None \<Rightarrow> (0, s) | Some c \<Rightarrow> (case ap_requests s c of None \<Rightarrow> (0, s)
      | Some rq \<Rightarrow>
          let (sc, b) = (case body of None \<Rightarrow> (ap_script s, k_buf_free (an_result rq))
                | Some d \<Rightarrow> k_buf_bytes (ap_script s) (k_buf_free (an_result rq)) d);
              rq' = rq\<lparr>an_conflict := (case conflict of None \<Rightarrow> an_conflict rq | Some x \<Rightarrow> x), an_result := b\<rparr>
          in (if buf_err b then -1 else 0, s\<lparr>ap_script := sc, ap_requests := (ap_requests s)(c \<mapsto> rq')\<rparr>)))"

definition apply_batch :: "bool \<Rightarrow> k_applied \<Rightarrow> k_reader \<Rightarrow> nat option \<Rightarrow> int \<times> k_applied" where
  "apply_batch sets s r cookie =
     (case rd_u32 r of (cnt, r) \<Rightarrow>
        if cnt < 1 then (-1, s)
        else case in_txn s (\<lambda>m f. batch_loop sets cnt m f r 0) of (None, s) \<Rightarrow> (-1, s)
          | (Some n, s) \<Rightarrow> answer s cookie None (Some (dec_bytes n)))"

definition overwrite_range :: "k_applied \<Rightarrow> bytes \<Rightarrow> bytes \<Rightarrow> bytes \<Rightarrow> nat option \<Rightarrow> int \<times> k_applied" where
  "overwrite_range s b e v cookie =
     (case treap_scan (ap_mem s) (ap_tree s) b e True k_rset_collect (ap_script s, k_buf_zero) of
        (scanned, (sc, lst), m) \<Rightarrow>
          let s = s\<lparr>ap_mem := m, ap_script := sc\<rparr>
          in if scanned = -1 \<or> buf_err lst then (-1, s)
             else case in_txn s (\<lambda>m f. rset_loop v m f (k_reader_init (buf_data lst)) 0) of (None, s) \<Rightarrow> (-1, s)
               | (Some n, s) \<Rightarrow> answer s cookie None (Some (dec_bytes n)))"

definition apply_rset :: "k_applied \<Rightarrow> k_reader \<Rightarrow> nat option \<Rightarrow> int \<times> k_applied" where
  "apply_rset s r cookie =
     (case read_upto K_KEY_MAX r of None \<Rightarrow> (-1, s) | Some (bl, b, r) \<Rightarrow>
     (case read_upto K_KEY_MAX r of None \<Rightarrow> (-1, s) | Some (el, e, r) \<Rightarrow>
     (case read_upto K_VALUE_MAX r of None \<Rightarrow> (-1, s) | Some (vl, v, r) \<Rightarrow>
        if \<not> rd_end r then (-1, s) else overwrite_range s (key_of b) (key_of e) (key_of v) cookie)))"

definition apply_rdel :: "k_applied \<Rightarrow> k_reader \<Rightarrow> nat option \<Rightarrow> int \<times> k_applied" where
  "apply_rdel s r cookie =
     (case read_upto K_KEY_MAX r of None \<Rightarrow> (-1, s) | Some (bl, b, r) \<Rightarrow>
     (case read_upto K_KEY_MAX r of None \<Rightarrow> (-1, s) | Some (el, e, r) \<Rightarrow>
        if \<not> rd_end r then (-1, s)
        else case treap_delete_range (ap_mem s) (ap_tree s) (key_of b) (key_of e) of (removed, t, m) \<Rightarrow>
          let s = s\<lparr>ap_mem := m, ap_tree := t\<rparr>
          in if removed = -1 then (-1, s) else answer s cookie None (Some (dec_bytes (unat removed)))))"

text \<open>The packed value of a conditional write: the new value, and the value it expects in mode \<open>K_CAS_CMP\<close>.\<close>

definition cas_parts :: "bytes \<Rightarrow> (bytes \<times> bytes option) option" where
  "cas_parts packed =
     (case k_reader_u8 (k_reader_init packed) of (mode, r) \<Rightarrow>
     (case read_upto K_VALUE_MAX r of None \<Rightarrow> None | Some (nl, newval, r) \<Rightarrow>
        if mode = K_CAS_CMP
        then (case read_upto K_VALUE_MAX r of None \<Rightarrow> None
              | Some (ol, old, r) \<Rightarrow> if rd_end r then Some (key_of newval, Some (key_of old)) else None)
        else if mode \<noteq> K_CAS_SETNX then None
        else if rd_end r then Some (key_of newval, None) else None))"

definition apply_cas :: "k_applied \<Rightarrow> k_reader \<Rightarrow> nat option \<Rightarrow> int \<times> k_applied" where
  "apply_cas s r cookie =
     (case read_key r of None \<Rightarrow> (-1, s) | Some (key, r) \<Rightarrow>
     (case read_upto K_CAS_PACKED_MAX r of None \<Rightarrow> (-1, s) | Some (n, packed, r) \<Rightarrow>
        if \<not> rd_end r then (-1, s)
        else case cas_parts (key_of packed) of None \<Rightarrow> (-1, s)
        | Some (newval, old) \<Rightarrow>
            (case treap_get (ap_tree s) (key_of key) of (ex, cur) \<Rightarrow>
               if ex < 0 then (-1, s)
               else let conflict = (case old of None \<Rightarrow> ex = 1 | Some ov \<Rightarrow> \<not> (ex = 1 \<and> cur = ov))
                 in case (if conflict then (0, ap_tree s, ap_mem s) else treap_set (ap_mem s) (ap_tree s) (key_of key) newval) of (rc, t, m) \<Rightarrow>
                   let s = s\<lparr>ap_mem := m, ap_tree := t\<rparr>
                   in if rc \<noteq> 0 then (-1, s) else answer s cookie (Some conflict) (if ex = 1 then Some cur else None))))"

definition add_pending :: "k_applied \<Rightarrow> nat \<Rightarrow> k_applied" where
  "add_pending s i =
     (if \<not> k_membership_contains s i \<and> length (ap_pending s) < K_MAX_NODES
      then s\<lparr>ap_pending := ap_pending s @ [i], ap_source := ap_source s @ [if k_server_refused_contains s i then -1 else 0],
             ap_since := (ap_since s)[length (ap_pending s) := ap_elapsed s]\<rparr>
      else s)"

fun addr_loop :: "nat \<Rightarrow> k_applied \<Rightarrow> k_reader \<Rightarrow> int \<times> k_applied" where
  "addr_loop 0 s r = (if rd_end r then 0 else -1, s)"
| "addr_loop (Suc j) s r =
     (let (w, r) = k_reader_i32 r; (hl, r) = rd_u32 r
      in if hl < 1 \<or> hl \<ge> K_HOST_MAX then (-1, s)
         else let (host, r) = k_reader_bytes r hl; (cp, r) = k_reader_u16 r; (pp, r) = k_reader_u16 r
           in if rd_err r then (-1, s)
              else case k_server_add_address (ap_cluster s) (sint w) (key_of host) cp pp of None \<Rightarrow> (-1, s)
                | Some c \<Rightarrow> addr_loop j (add_pending (s\<lparr>ap_cluster := c\<rparr>) (nat (sint w))) r)"

definition apply_addr :: "k_applied \<Rightarrow> k_reader \<Rightarrow> int \<times> k_applied" where
  "apply_addr s r = (case rd_u32 r of (cnt, r) \<Rightarrow> if cnt > K_MAX_NODES then (-1, s) else addr_loop cnt s r)"

definition apply_single :: "u8 \<Rightarrow> k_applied \<Rightarrow> k_reader \<Rightarrow> int \<times> k_applied" where
  "apply_single opc s r =
     (case read_key r of None \<Rightarrow> (-1, s)
      | Some (key, r) \<Rightarrow>
          if opc = K_OP_SET
          then (case read_upto K_VALUE_MAX r of None \<Rightarrow> (-1, s)
                | Some (n, v, r) \<Rightarrow>
                    if \<not> rd_end r then (-1, s)
                    else case treap_set (ap_mem s) (ap_tree s) (key_of key) (key_of v) of (rc, t, m) \<Rightarrow> (rc, s\<lparr>ap_mem := m, ap_tree := t\<rparr>))
          else if opc = K_OP_DEL
          then (if \<not> rd_end r then (-1, s)
                else case treap_delete (ap_mem s) (ap_tree s) (key_of key) of (rc, t, m) \<Rightarrow>
                  (if rc < 0 then -1 else 0, s\<lparr>ap_mem := m, ap_tree := t\<rparr>))
          else (-1, s))"

definition k_server_apply_command :: "k_applied \<Rightarrow> bytes \<Rightarrow> nat option \<Rightarrow> int \<times> k_applied" where
  "k_server_apply_command s command cookie =
     (if command = [] then (-1, s)
      else case k_reader_u8 (k_reader_init command) of (opc, r) \<Rightarrow>
        if opc = K_OP_MSET \<or> opc = K_OP_MDEL then apply_batch (opc = K_OP_MSET) s r cookie
        else if opc = K_OP_RSET then apply_rset s r cookie
        else if opc = K_OP_FCALL then k_server_apply_exec s command
        else if opc = K_OP_RDEL then apply_rdel s r cookie
        else if opc = K_OP_CAS then apply_cas s r cookie
        else if opc = K_OP_ADDR then apply_addr s r
        else apply_single opc s r)"

subsection \<open>Building commands\<close>

definition k_server_build_write_command :: "script \<times> k_buf \<Rightarrow> u8 \<Rightarrow> bytes \<Rightarrow> bytes \<Rightarrow> bool \<times> script \<times> k_buf" where
  "k_server_build_write_command sb ty key v =
     (let kl = FU32 (of_nat (length key)); vl = FU32 (of_nat (length v));
          sb = put_fields sb
            (if ty = K_REQ_MSET \<or> ty = K_REQ_MDEL then [FU8 (if ty = K_REQ_MSET then K_OP_MSET else K_OP_MDEL), FBytes key]
             else if ty = K_REQ_RSET then [FU8 K_OP_RSET, FBytes key, vl, FBytes v]
             else if ty = K_REQ_RDEL then [FU8 K_OP_RDEL, kl, FBytes key, vl, FBytes v]
             else if ty = K_REQ_CAS then [FU8 K_OP_CAS, kl, FBytes key, vl, FBytes v]
             else [FU8 (if ty = K_REQ_SET then K_OP_SET else K_OP_DEL), kl, FBytes key] @ (if ty = K_REQ_SET then [vl, FBytes v] else []))
      in (\<not> (buf_err (snd sb) \<or> length (buf_data (snd sb)) > K_RAFT_COMMAND_MAX), sb))"

text \<open>The addresses of the given members, those that are in the book.\<close>

definition addr_fields :: "k_node_spec \<Rightarrow> field list" where
  "addr_fields n = [FI32 (int (node_id n)), FU32 (of_nat (length (node_host n))), FBytes (node_host n),
     FU16 (of_nat (node_client_port n)), FU16 (of_nat (node_peer_port n))]"

definition book_entries :: "k_cluster \<Rightarrow> nat list \<Rightarrow> k_node_spec list" where
  "book_entries c ids = map (\<lambda>i. c ! the (k_cluster_index c i)) (filter (\<lambda>i. k_cluster_index c i \<noteq> None) ids)"

definition k_server_build_addr_command :: "script \<times> k_buf \<Rightarrow> k_cluster \<Rightarrow> nat list \<Rightarrow> bool \<times> script \<times> k_buf" where
  "k_server_build_addr_command sb c ids =
     (let ns = book_entries c ids;
          sb = put_fields sb (FU8 K_OP_ADDR # FU32 (of_nat (length ns)) # concat (map addr_fields ns))
      in (\<not> buf_err (snd sb), sb))"

end
