(* ===== verification/Treap_Range.thy ===== *)
theory Treap_Range
  imports Treap_Load
begin

section \<open>Range deletion with memory\<close>

text \<open>
  With memory available and fewer keys than the limit of the explicit stack, \<^verbatim>\<open>treap_delete_range\<close>
  succeeds; and whenever it fails, the store is as it was.
\<close>

lemma opt_push:
  assumes "(if x \<noteq> Null then stack_push m cap st x else (Some (cap, st), m)) = (r, m')" "mem_script m = []" "length st < 2 ^ 31"
  shows "\<exists>c. r = Some (c, (if x = Null then [] else [x]) @ st) \<and> mem_script m' = []"
proof (cases "x = Null")
  case False
  then have p: "stack_push m cap st x = (r, m')" using assms(1) by simp
  have "r \<noteq> None" using push_room(2)[OF p assms(2)] assms(3) by (metis not_le)
  then obtain c st' where "r = Some (c, st')" by fastforce
  then show ?thesis using push_room(1)[OF p assms(2)] push_same(2)[OF p] False by auto
qed (use assms in auto)

lemma nodes_length: "Null \<notin> set st \<Longrightarrow> length st \<le> nodes st"
proof (induction st)
  case (Cons t st)
  then show ?case by (cases t) auto
qed simp

lemma push_free_room:
  assumes "push_free_loop m op cap st n = (res, op', m')" "mem_script m = []" "Null \<notin> set st" "nodes st < 2 ^ 31"
  shows "res \<noteq> None \<and> mem_script m' = []"
  using assms
proof (induction "nodes st" arbitrary: m op cap st n rule: less_induct)
  case less
  show ?case
  proof (cases st)
    case Nil
    then show ?thesis using less.prems by auto
  next
    case (Cons t st')
    obtain a p s k v l r where t: "t = Node a p s k v l r" using less.prems(3) Cons by (cases t) auto
    have len: "Suc (length st') < 2 ^ 31" using nodes_length[of st] less.prems(3,4) Cons by simp
    obtain r1 m1 where p1: "(if r \<noteq> Null then stack_push m cap st' r else (Some (cap, st'), m)) = (r1, m1)" by fastforce
    obtain c1 where q1: "r1 = Some (c1, (if r = Null then [] else [r]) @ st')" "mem_script m1 = []" using opt_push[OF p1 less.prems(2)] len by auto
    let ?st1 = "(if r = Null then [] else [r]) @ st'"
    obtain r2 m2 where p2: "(if l \<noteq> Null then stack_push m1 c1 ?st1 l else (Some (c1, ?st1), m1)) = (r2, m2)" by fastforce
    obtain c2 where q2: "r2 = Some (c2, (if l = Null then [] else [l]) @ ?st1)" "mem_script m2 = []" using opt_push[OF p2 q1(2)] len by (cases "r = Null") auto
    let ?op = "treap_op_push_free (op\<lparr>op_free_bytes := op_free_bytes op + of_nat (treap_node_bytes (length k))\<rparr>) a"
    let ?st = "(if l = Null then [] else [l]) @ ?st1"
    have go: "push_free_loop m2 ?op c2 ?st (n + 1) = (res, op', m')"
      using less.prems(1) p1 q1(1) p2 q2(1) unfolding Cons t by (simp add: Let_def)
    have "nodes ?st < nodes st" using Cons t by simp
    then show ?thesis using less.hyps[OF _ go q2(2)] less.prems(3,4) Cons by auto
  qed
qed

lemma push_free_tree_room:
  assumes "treap_op_push_free_tree m op t = (res, op', m')" "mem_script m = []" "length (entries t) < 2 ^ 31"
  shows "res \<noteq> None \<and> mem_script m' = []"
proof (cases "t = Null")
  case False
  then have "push_free_loop (m\<lparr>mem_script := []\<rparr>) op 64 [t] 0 = (res, op', m')" using assms(1,2) by (simp add: treap_op_push_free_tree_def)
  then show ?thesis using push_free_room[of "m\<lparr>mem_script := []\<rparr>" op 64 "[t]" 0 res op' m'] assms(3) False by (simp add: size_entries)
qed (use assms in \<open>auto simp: treap_op_push_free_tree_def\<close>)

lemma bound_split_room:
  assumes "mem_script m = []" "fits t"
  shows "\<exists>L R op' m'. split_low m op b t = (Some (L, R), op', m') \<and> mem_script m' = [] \<and> fits L \<and> fits R \<and> entries L @ entries R = entries t"
    "\<exists>L R op' m'. split_high m op b t = (Some (L, R), op', m') \<and> mem_script m' = [] \<and> fits L \<and> fits R \<and> entries L @ entries R = entries t"
proof -
  obtain LR op' m' where s: "treap_split m op b t = (Some LR, op', m')" "mem_script m' = []" using split_room[OF assms] by blast
  obtain L R where lr: "LR = (L, R)" by fastforce
  have e: "entries L @ entries R = entries t" using split_tree[of m op b t L R op' m'] s lr by simp
  have f: "fits L" "fits R" using fits_entries[OF _ assms(2)] e[symmetric] by auto
  show "\<exists>L R op' m'. split_low m op b t = (Some (L, R), op', m') \<and> mem_script m' = [] \<and> fits L \<and> fits R \<and> entries L @ entries R = entries t"
    "\<exists>L R op' m'. split_high m op b t = (Some (L, R), op', m') \<and> mem_script m' = [] \<and> fits L \<and> fits R \<and> entries L @ entries R = entries t"
    using s lr e f assms by (auto simp: split_low_def split_high_def)
qed

lemma delete_range_room:
  assumes "mem_script m = []" "tree_ok seed (root t)" "length (entries (root t)) < 2 ^ 31"
  shows "\<exists>n t' m'. treap_delete_range m t b e = (of_nat n, t', m') \<and> n \<le> length (entries (root t))"
proof -
  obtain L M op1 m1 where 1: "split_low m op_zero b (root t) = (Some (L, M), op1, m1)" "mem_script m1 = []" "fits L" "fits M" "entries L @ entries M = entries (root t)"
    using bound_split_room(1)[OF assms(1) tree_ok_fits[OF assms(2)]] by blast
  obtain M' R op2 m2 where 2: "split_high m1 op1 e M = (Some (M', R), op2, m2)" "mem_script m2 = []" "fits M'" "fits R" "entries M' @ entries R = entries M"
    using bound_split_room(2)[OF 1(2,4)] by blast
  have len: "length (entries M') \<le> length (entries (root t))" unfolding 1(5)[symmetric] 2(5)[symmetric] by simp
  obtain res op3 m3 where 3: "treap_op_push_free_tree m2 op2 M' = (res, op3, m3)" by (metis prod_cases3)
  have r: "res \<noteq> None" "mem_script m3 = []" using push_free_tree_room[OF 3 2(2)] len assms(3) by auto
  then obtain c where c: "res = Some c" by auto
  have n: "c = of_nat (length (entries M'))" using push_free_tree_spec(3)[OF 3 c] by simp
  obtain g op4 m4 where 4: "treap_merge m3 op3 L R = (g, op4, m4)" "g = Null \<longleftrightarrow> L = Null \<and> R = Null"
    using treap_merge_room[OF r(2) 1(3) 2(4)] by blast
  have g: "\<not> (g = Null \<and> (L \<noteq> Null \<or> R \<noteq> Null))" using 4(2) by blast
  have "\<exists>t' m'. treap_delete_range m t b e = (c, t', m')"
    unfolding treap_delete_range_def split_low_def[symmetric] split_high_def[symmetric] using 1(1) 2(1) 3 c 4(1) g by (auto simp: Let_def)
  then show ?thesis using n len by blast
qed

lemma small_count:
  assumes "n < 2 ^ 64 - 1"
  shows "of_nat n \<noteq> (-1 :: u64)"
proof
  assume "of_nat n = (-1 :: u64)"
  then have "unat (of_nat n :: u64) = 2 ^ 64 - 1" by (simp add: unsigned_minus_1_eq_mask mask_eq_exp_minus_1)
  then show False using assms by (simp add: unat_of_nat take_bit_nat_eq_self)
qed

lemma range_untouched:
  assumes "treap_delete_range m t b e = (-1, t', m')" "treap_inv m t" "length (entries (root t)) < 2 ^ 64 - 1"
  shows "treap_inv m' t' \<and> t' = t"
proof -
  have "of_nat n \<noteq> (-1 :: u64)" if "n \<le> length (entries (root t))" for n using small_count[of n] that assms(3) by simp
  then have "untouched m t m' t'" using delete_range_run[OF assms(1) inv_parts(1,2)[OF assms(2)]] by metis
  then show ?thesis using inv_untouched assms(2) by (auto simp: untouched_def)
qed

text \<open>A scan that had memory still has it.\<close>

lemma scan_loop_script: "scan_loop asc fn m cap st bound cnt ud = (c, ud', m') \<Longrightarrow> mem_script m = [] \<Longrightarrow> mem_script m' = []"
proof (induction asc fn m cap st bound cnt ud rule: scan_loop.induct)
  case (2 asc fn m cap cur st bound cnt ud)
  obtain res m1 where sk: "scan_seek asc m cap st [] (far_child asc cur) = (res, m1)" by fastforce
  have m1: "mem_script m1 = []" using seek_room[OF sk 2(3)] by (simp add: seek_fits_def)
  show ?case using 2(2,3) m1 sk 2(1)[OF _ _ _ _ sk[symmetric] _ _ _ m1]
    by (auto simp: Let_def split: if_splits prod.splits option.splits)
qed simp

lemma scan_script:
  assumes "treap_scan m t b e asc fn ud = (c, ud', m')" "mem_script m = []"
  shows "mem_script m' = []"
proof -
  let ?m = "m\<lparr>mem_script := []\<rparr>"
  obtain res m1 where sk: "scan_seek asc ?m 64 [] (if asc then b else e) (root t) = (res, m1)" by fastforce
  have m1: "mem_script m1 = []" using seek_room[OF sk] by (simp add: seek_fits_def)
  show ?thesis
  proof (cases "root t = Null \<or> res = None")
    case True
    then show ?thesis using assms sk m1 by (auto simp: treap_scan_def Let_def split: if_splits)
  next
    case False
    then obtain c1 st where "res = Some (c1, st)" by auto
    then have "scan_loop asc fn m1 c1 st (if asc then e else b) 0 ud = (c, ud', m')" using assms sk False by (simp add: treap_scan_def)
    then show ?thesis by (rule scan_loop_script[OF _ m1])
  qed
qed

end
