(* ===== verification/Server_Apply_Laws.thy ===== *)
theory Server_Apply_Laws
  imports Server_Apply Treap_Range
begin

section \<open>What applying a command does to the store\<close>

text \<open>
  The loops of \<^verbatim>\<open>k_server_apply_command\<close> run single updates on a working copy. On any input they keep the
  invariant of the copy, so a command that fails leaves the applied store as it was; on the commands the
  server builds they have the effect of the abstract writes below, all of it or nothing.
\<close>

subsection \<open>Abstract writes\<close>

datatype kv_write = WSet bytes bytes | WDel bytes | WMset "(bytes \<times> bytes) list" | WMdel "bytes list"
  | WRset bytes bytes bytes | WRdel bytes bytes | WCas bytes bytes "bytes option" | WExec "kv_cmd list"

fun write_effect :: "(bytes \<rightharpoonup> bytes) \<Rightarrow> kv_write \<Rightarrow> (bytes \<rightharpoonup> bytes)" where
  "write_effect f (WSet k v) = f(k \<mapsto> v)"
| "write_effect f (WDel k) = f(k := None)"
| "write_effect f (WMset kvs) = f ++ map_of (rev kvs)"
| "write_effect f (WMdel ks) = f |` (- set ks)"
| "write_effect f (WRset b e v) = (\<lambda>k. if in_range b e k \<and> f k \<noteq> None then Some v else f k)"
| "write_effect f (WRdel b e) = (\<lambda>k. if in_range b e k then None else f k)"
| "write_effect f (WCas k v old) = (if f k = old then f(k \<mapsto> v) else f)"
| "write_effect f (WExec cs) = foldl cmd_effect f cs"

text \<open>What the waiting request is told: the number of keys affected, or the value a conditional write found.\<close>

fun write_answer :: "(bytes \<rightharpoonup> bytes) \<Rightarrow> kv_write \<Rightarrow> bytes" where
  "write_answer f (WMset kvs) = dec_bytes (length kvs)"
| "write_answer f (WMdel ks) = dec_bytes (card (set ks \<inter> dom f))"
| "write_answer f (WRset b e v) = dec_bytes (card {k \<in> dom f. in_range b e k})"
| "write_answer f (WRdel b e) = dec_bytes (card {k \<in> dom f. in_range b e k})"
| "write_answer f (WCas k v old) = (case f k of None \<Rightarrow> [] | Some cur \<Rightarrow> cur)"
| "write_answer f _ = []"

abbreviation key_ok :: "bytes \<Rightarrow> bool" where "key_ok k \<equiv> k \<noteq> [] \<and> length k \<le> K_KEY_MAX"
abbreviation val_ok :: "bytes \<Rightarrow> bool" where "val_ok v \<equiv> length v \<le> K_VALUE_MAX"

fun cmd_ok :: "kv_cmd \<Rightarrow> bool" where
  "cmd_ok (Set k v) \<longleftrightarrow> key_ok k \<and> val_ok v"
| "cmd_ok (Del k) \<longleftrightarrow> key_ok k"

fun write_ok :: "kv_write \<Rightarrow> bool" where
  "write_ok (WSet k v) \<longleftrightarrow> key_ok k \<and> val_ok v"
| "write_ok (WDel k) \<longleftrightarrow> key_ok k"
| "write_ok (WMset kvs) \<longleftrightarrow> kvs \<noteq> [] \<and> length kvs < 2 ^ 32 \<and> (\<forall>(k, v)\<in>set kvs. key_ok k \<and> val_ok v)"
| "write_ok (WMdel ks) \<longleftrightarrow> ks \<noteq> [] \<and> length ks < 2 ^ 32 \<and> (\<forall>k\<in>set ks. key_ok k)"
| "write_ok (WRset b e v) \<longleftrightarrow> length b \<le> K_KEY_MAX \<and> length e \<le> K_KEY_MAX \<and> val_ok v"
| "write_ok (WRdel b e) \<longleftrightarrow> length b \<le> K_KEY_MAX \<and> length e \<le> K_KEY_MAX"
| "write_ok (WCas k v old) \<longleftrightarrow> key_ok k \<and> val_ok v \<and> (case old of None \<Rightarrow> True | Some o' \<Rightarrow> val_ok o')"
| "write_ok (WExec cs) \<longleftrightarrow> list_all cmd_ok cs"

text \<open>The bytes of a write. A length prefix and the bytes are a block.\<close>

definition block :: "bytes \<Rightarrow> bytes" where
  "block d = k_write_u32 (of_nat (length d)) @ d"

fun cmd_wire :: "kv_cmd \<Rightarrow> bytes" where
  "cmd_wire (Set k v) = k_write_u8 K_OP_SET @ block k @ block v"
| "cmd_wire (Del k) = k_write_u8 K_OP_DEL @ block k"

fun cas_packed :: "bytes \<Rightarrow> bytes option \<Rightarrow> bytes" where
  "cas_packed v None = k_write_u8 K_CAS_SETNX @ block v"
| "cas_packed v (Some old) = k_write_u8 K_CAS_CMP @ block v @ block old"

fun write_wire :: "kv_write \<Rightarrow> bytes" where
  "write_wire (WSet k v) = k_write_u8 K_OP_SET @ block k @ block v"
| "write_wire (WDel k) = k_write_u8 K_OP_DEL @ block k"
| "write_wire (WMset kvs) = k_write_u8 K_OP_MSET @ k_write_u32 (of_nat (length kvs)) @ concat (map (\<lambda>(k, v). block k @ block v) kvs)"
| "write_wire (WMdel ks) = k_write_u8 K_OP_MDEL @ k_write_u32 (of_nat (length ks)) @ concat (map block ks)"
| "write_wire (WRset b e v) = k_write_u8 K_OP_RSET @ block b @ block e @ block v"
| "write_wire (WRdel b e) = k_write_u8 K_OP_RDEL @ block b @ block e"
| "write_wire (WCas k v old) = k_write_u8 K_OP_CAS @ block k @ block (cas_packed v old)"
| "write_wire (WExec cs) = k_write_u8 K_OP_FCALL @ concat (map cmd_wire cs)"

subsection \<open>Single updates on a working copy\<close>

lemma key_fits: "key_ok k \<Longrightarrow> treap_node_bytes (length k) \<le> 0xffffffff"
  by (simp add: treap_node_bytes_def)

lemma set_step:
  assumes "txn_inv m t f" "treap_set m f k v = (rc, f', m')"
  shows "txn_inv m' t f'" "rc = 0 \<and> store_map f' = (store_map f)(k \<mapsto> v) \<or> rc = -1"
    "mem_script m = [] \<Longrightarrow> key_ok k \<Longrightarrow> rc = 0 \<and> mem_script m' = []"
    "mem_script m = [] \<Longrightarrow> k \<noteq> [] \<Longrightarrow> treap_node_bytes (length k) \<le> 0xffffffff \<Longrightarrow> rc = 0 \<and> mem_script m' = []"
proof -
  note p = txn_parts[OF assms(1)]
  show "txn_inv m' t f'" using txn_set[OF assms] .
  show "rc = 0 \<and> store_map f' = (store_map f)(k \<mapsto> v) \<or> rc = -1" using set_map_law[OF p(1-3) assms(2)] by blast
  show "rc = 0 \<and> mem_script m' = []" if "mem_script m = []" "key_ok k"
    using set_room[OF that(1) p(3), of k v] key_fits[OF that(2)] that(2) assms(2) by simp
  show "rc = 0 \<and> mem_script m' = []" if "mem_script m = []" "k \<noteq> []" "treap_node_bytes (length k) \<le> 0xffffffff"
    using set_room[OF that(1) p(3), of k v] that(2,3) assms(2) by simp
qed

lemma delete_step:
  assumes "txn_inv m t f" "treap_delete m f k = (rc, f', m')"
  shows "txn_inv m' t f'" "rc = (if k \<in> dom (store_map f) then 1 else 0) \<and> store_map f' = (store_map f)(k := None) \<or> rc = -1"
    "mem_script m = [] \<Longrightarrow> key_ok k \<Longrightarrow> rc \<noteq> -1 \<and> mem_script m' = []"
proof -
  note p = txn_parts[OF assms(1)]
  show "txn_inv m' t f'" using txn_delete[OF assms] .
  show "rc = (if k \<in> dom (store_map f) then 1 else 0) \<and> store_map f' = (store_map f)(k := None) \<or> rc = -1"
    using del_map_law[OF p(1-3) assms(2)] by blast
  show "rc \<noteq> -1 \<and> mem_script m' = []" if "mem_script m = []" "key_ok k"
    using delete_room[OF that(1) p(3), of k] that(2) assms(2) by auto
qed

lemma set_at_step: "txn_inv m t f \<Longrightarrow> set_at m f key n v = (rc, f', m') \<Longrightarrow> txn_inv m' t f'"
  by (auto simp: set_at_def dest: txn_set split: option.splits if_splits)

subsection \<open>The loops on any input\<close>

lemma exec_loop_inv: "exec_loop m f r = (res, m', f') \<Longrightarrow> txn_inv m t f \<Longrightarrow> txn_inv m' t f'"
proof (induction m f r rule: exec_loop.induct)
  case (1 m f r)
  show ?case
  proof (cases "rd_off r < length (rd_data r)")
    case False
    then show ?thesis using 1(3,4) by (simp add: exec_loop.simps)
  next
    case off: True
    obtain opc r1 where u: "k_reader_u8 r = (opc, r1)" by fastforce
    note step = 1(3)[unfolded exec_loop.simps[of m f r]]
    show ?thesis
    proof (cases "read_key r1")
      case None
      then show ?thesis using step off u 1(4) by simp
    next
      case (Some kr)
      obtain key r2 where kr: "read_key r1 = Some (key, r2)" using Some by (cases kr) auto
      consider "opc = K_OP_SET" "read_upto K_VALUE_MAX r2 = None"
        | (set) n v r3 rc f1 m1 where "opc = K_OP_SET" "read_upto K_VALUE_MAX r2 = Some (n, v, r3)" "set_at m f key n v = (rc, f1, m1)"
        | (del) rc f1 m1 where "opc = K_OP_DEL" "treap_delete m f (key_of key) = (rc, f1, m1)"
        | "opc \<noteq> K_OP_SET" "opc \<noteq> K_OP_DEL" by (metis option.exhaust prod_cases3)
      then show ?thesis
      proof cases
        case set
        note i = set_at_step[OF 1(4) set(3)]
        show ?thesis using step off u kr set 1(1)[OF off u[symmetric] kr refl set(1) set(2) refl refl set(3)[symmetric] refl _ _ i] i
          by (simp split: if_splits)
      next
        case del
        note i = txn_delete[OF 1(4) del(2)]
        show ?thesis using step off u kr del 1(2)[OF off u[symmetric] kr refl _ del(1) del(2)[symmetric] refl _ _ i] i
          by (simp split: if_splits)
      qed (use step off u kr 1(4) in simp_all)
    qed
  qed
qed

lemma batch_loop_inv: "batch_loop sets n m f r a = (res, m', f') \<Longrightarrow> txn_inv m t f \<Longrightarrow> txn_inv m' t f'"
proof (induction n arbitrary: m f r a)
  case (Suc n)
  show ?case
  proof (cases "read_key r")
    case None
    then show ?thesis using Suc.prems by simp
  next
    case (Some kr)
    obtain key r2 where kr: "read_key r = Some (key, r2)" using Some by (cases kr) auto
    obtain rc f1 m1 where d: "treap_delete m f (key_of key) = (rc, f1, m1)" by (metis prod_cases3)
    note di = txn_delete[OF Suc.prems(2) d]
    show ?thesis
    proof (cases sets)
      case False
      then show ?thesis using Suc.prems kr d di Suc.IH[of m1 f1 r2] by (auto split: if_splits)
    next
      case True
      show ?thesis
      proof (cases "read_upto K_VALUE_MAX r2")
        case None
        then show ?thesis using Suc.prems kr True by simp
      next
        case (Some nvr)
        obtain l v r3 where nvr: "read_upto K_VALUE_MAX r2 = Some (l, v, r3)" using Some by (cases nvr) auto
        obtain rc f1 m1 where s: "set_at m f key l v = (rc, f1, m1)" by (metis prod_cases3)
        show ?thesis using Suc.prems kr True nvr s set_at_step[OF Suc.prems(2) s] Suc.IH[of m1 f1 r3] by (auto split: if_splits)
      qed
    qed
  qed
qed simp

lemma rset_loop_inv: "rset_loop nv m f r a = (res, m', f') \<Longrightarrow> txn_inv m t f \<Longrightarrow> txn_inv m' t f'"
proof (induction nv m f r a rule: rset_loop.induct)
  case (1 nv m f r a)
  obtain n r1 where u: "rd_u32 r = (n, r1)" by fastforce
  obtain k r2 where b: "k_reader_bytes r1 n = (k, r2)" by fastforce
  obtain rc f1 m1 where s: "treap_set m f (key_of k) nv = (rc, f1, m1)" by (metis prod_cases3)
  note i = txn_set[OF 1(3) s]
  show ?case
  proof (cases "rd_off r < length (rd_data r) \<and> \<not> rd_err r2 \<and> rc = 0")
    case True
    then have "rset_loop nv m1 f1 r2 (a + 1) = (res, m', f')" using 1(2) u b s by (simp add: rset_loop.simps[of nv m f r a])
    then show ?thesis using 1(1)[OF _ u[symmetric] b[symmetric] _ s[symmetric] refl _ _ i] True by simp
  next
    case False
    then show ?thesis using 1(2,3) u b s i by (auto simp: rset_loop.simps[of nv m f r a] split: if_splits)
  qed
qed

subsection \<open>Transactions and answers\<close>

abbreviation store_ok :: "k_applied \<Rightarrow> bool" where "store_ok s \<equiv> treap_inv (ap_mem s) (ap_tree s)"
abbreviation contents :: "k_applied \<Rightarrow> bytes \<rightharpoonup> bytes" where "contents s \<equiv> store_map (ap_tree s)"

text \<open>Only the store, its memory, the buffer script and the requests may differ.\<close>

definition store_step :: "k_applied \<Rightarrow> k_applied \<Rightarrow> bool" where
  "store_step s s' \<longleftrightarrow> ap_cluster s' = ap_cluster s \<and> ap_voters s' = ap_voters s \<and> ap_learners s' = ap_learners s \<and> ap_pending s' = ap_pending s
     \<and> ap_source s' = ap_source s \<and> ap_since s' = ap_since s \<and> ap_refused s' = ap_refused s \<and> ap_graduated s' = ap_graduated s \<and> ap_elapsed s' = ap_elapsed s"

definition same_tree :: "k_applied \<Rightarrow> k_applied \<Rightarrow> bool" where
  "same_tree s s' \<longleftrightarrow> store_step s s' \<and> ap_mem s' = ap_mem s \<and> ap_tree s' = ap_tree s"

text \<open>A body that keeps the invariant of the working copy, whatever its outcome.\<close>

definition keeps_txn :: "treap \<Rightarrow> (treap_mem \<Rightarrow> treap \<Rightarrow> 'a option \<times> treap_mem \<times> treap) \<Rightarrow> bool" where
  "keeps_txn t body \<longleftrightarrow> (\<forall>m f r m' f'. txn_inv m t f \<longrightarrow> body m f = (r, m', f') \<longrightarrow> txn_inv m' t f')"

lemma loops_keep:
  "keeps_txn t (\<lambda>m f. exec_loop m f r)" "keeps_txn t (\<lambda>m f. batch_loop sets n m f r a)" "keeps_txn t (\<lambda>m f. rset_loop v m f r a)"
  by (auto simp: keeps_txn_def dest: exec_loop_inv batch_loop_inv rset_loop_inv)

lemma fork_failed: "store_ok s \<Longrightarrow> treap_fork (ap_mem s) (ap_tree s) = (None, m) \<Longrightarrow> treap_inv m (ap_tree s)"
  using inv_parts(4)[of "ap_mem s" "ap_tree s"] malloc_run[OF inv_parts(1)[of "ap_mem s" "ap_tree s"]] owner_frame[of "ap_mem s" "ap_tree s" m]
  by (auto simp: treap_fork_def op_run_def op_ext_def split: prod.splits option.splits)

lemma in_txn_law:
  assumes "in_txn s body = (res, s')" "store_ok s" and body: "keeps_txn (ap_tree s) body"
  shows "store_ok s'" "store_step s s'" "ap_requests s' = ap_requests s" "ap_script s' = ap_script s" "res = None \<Longrightarrow> ap_tree s' = ap_tree s"
    "res = Some x \<Longrightarrow> \<exists>m f m' f'. treap_fork (ap_mem s) (ap_tree s) = (Some f, m) \<and> txn_inv m (ap_tree s) f \<and> store_map f = contents s
      \<and> body m f = (Some x, m', f') \<and> txn_inv m' (ap_tree s) f' \<and> contents s' = store_map f' \<and> ap_mem s' = m'"
proof -
  let ?t = "ap_tree s"
  obtain fo m where fk: "treap_fork (ap_mem s) ?t = (fo, m)" by fastforce
  have "store_ok s' \<and> store_step s s' \<and> ap_requests s' = ap_requests s \<and> ap_script s' = ap_script s \<and> (res = None \<longrightarrow> ap_tree s' = ?t) \<and> (res = Some x \<longrightarrow> (\<exists>m f m' f'. treap_fork (ap_mem s) ?t = (Some f, m)
      \<and> txn_inv m ?t f \<and> store_map f = contents s \<and> body m f = (Some x, m', f') \<and> txn_inv m' ?t f' \<and> contents s' = store_map f' \<and> ap_mem s' = m'))"
  proof (cases fo)
    case None
    have "treap_inv m ?t" using fork_failed[OF assms(2)] fk None by simp
    then show ?thesis using assms(1) fk None by (auto simp: in_txn_def store_step_def)
  next
    case (Some f)
    note F = fork_txn[OF assms(2) fk[unfolded Some]]
    obtain r m1 f1 where b: "body m f = (r, m1, f1)" by (metis prod_cases3)
    have i: "txn_inv m1 ?t f1" using body F b by (auto simp: keeps_txn_def)
    obtain rc t' where c: "treap_commit f1 ?t = (rc, t')" by fastforce
    note C = commit_inv[OF i c]
    show ?thesis
    proof (cases r)
      case None
      then show ?thesis using assms(1) fk Some b abort_inv[OF i] by (auto simp: in_txn_def store_step_def)
    next
      case (Some y)
      then have s': "s' = s\<lparr>ap_mem := m1, ap_tree := t'\<rparr>" "res = Some y" using assms(1) fk \<open>fo = Some f\<close> b c C by (auto simp: in_txn_def)
      have "store_map f = contents s" "contents s' = store_map f1" using F C s' by (simp_all add: store_map_def)
      then show ?thesis using s' C F i b fk \<open>fo = Some f\<close> Some by (auto simp: store_step_def)
    qed
  qed
  then show "store_ok s'" "store_step s s'" "ap_requests s' = ap_requests s" "ap_script s' = ap_script s" "res = None \<Longrightarrow> ap_tree s' = ap_tree s"
    "res = Some x \<Longrightarrow> \<exists>m f m' f'. treap_fork (ap_mem s) (ap_tree s) = (Some f, m) \<and> txn_inv m (ap_tree s) f \<and> store_map f = contents s
      \<and> body m f = (Some x, m', f') \<and> txn_inv m' (ap_tree s) f' \<and> contents s' = store_map f' \<and> ap_mem s' = m'" by blast+
qed

text \<open>The request with this cookie got this answer.\<close>

definition answered :: "k_applied \<Rightarrow> nat option \<Rightarrow> bool option \<Rightarrow> bytes \<Rightarrow> k_applied \<Rightarrow> bool" where
  "answered s cookie conflict d s' \<longleftrightarrow> (\<forall>c rq. cookie = Some c \<longrightarrow> ap_requests s c = Some rq \<longrightarrow>
     (\<exists>b. ap_requests s' c = Some (rq\<lparr>an_conflict := (case conflict of None \<Rightarrow> an_conflict rq | Some x \<Rightarrow> x), an_result := b\<rparr>) \<and> buf_data b = d \<and> \<not> buf_err b))"

definition answer_lost :: "nat option \<Rightarrow> k_applied \<Rightarrow> bool" where
  "answer_lost cookie s' \<longleftrightarrow> (\<exists>c rq. cookie = Some c \<and> ap_requests s' c = Some rq \<and> buf_err (an_result rq))"

lemma answer_law:
  assumes "answer s cookie cf body = (rc, s')"
  shows "same_tree s s'" "rc = 0 \<and> answered s cookie cf (key_of body) s' \<or> rc = -1 \<and> answer_lost cookie s'"
    "ap_script s = [] \<Longrightarrow> length (key_of body) \<le> 0xffffffff \<Longrightarrow> rc = 0"
proof -
  have z: "buf_wf k_buf_zero" "\<not> buf_err k_buf_zero" "buf_data k_buf_zero = []" "k_buf_free b = k_buf_zero" for b
    by (simp_all add: k_buf_zero_def buf_wf_def k_buf_free_def)
  have "same_tree s s' \<and> (rc = 0 \<and> answered s cookie cf (key_of body) s' \<or> rc = -1 \<and> answer_lost cookie s')
      \<and> (ap_script s = [] \<longrightarrow> length (key_of body) \<le> 0xffffffff \<longrightarrow> rc = 0)"
  proof (cases "\<exists>c rq. cookie = Some c \<and> ap_requests s c = Some rq")
    case False
    then show ?thesis using assms by (auto simp: answer_def same_tree_def store_step_def answered_def split: option.splits)
  next
    case True
    then obtain c rq where c: "cookie = Some c" "ap_requests s c = Some rq" by blast
    obtain sc b where kb: "(case body of None \<Rightarrow> (ap_script s, k_buf_zero) | Some d \<Rightarrow> k_buf_bytes (ap_script s) k_buf_zero d) = (sc, b)" by fastforce
    have bd: "\<not> buf_err b \<Longrightarrow> buf_data b = key_of body" using kb buf_bytes_spec[OF z(1)] z by (auto split: option.splits)
    have rm: "ap_script s = [] \<Longrightarrow> length (key_of body) \<le> 0xffffffff \<Longrightarrow> \<not> buf_err b"
      using kb buf_bytes_room[OF z(1,2), of "key_of body"] z by (auto split: option.splits)
    let ?rq = "rq\<lparr>an_conflict := (case cf of None \<Rightarrow> an_conflict rq | Some x \<Rightarrow> x), an_result := b\<rparr>"
    have "rc = (if buf_err b then -1 else 0)" "s' = s\<lparr>ap_script := sc, ap_requests := (ap_requests s)(c \<mapsto> ?rq)\<rparr>"
      using assms c kb by (cases body; simp add: answer_def z)+
    then show ?thesis using c bd rm by (auto simp: same_tree_def store_step_def answered_def answer_lost_def)
  qed
  then show "same_tree s s'" "rc = 0 \<and> answered s cookie cf (key_of body) s' \<or> rc = -1 \<and> answer_lost cookie s'"
    "ap_script s = [] \<Longrightarrow> length (key_of body) \<le> 0xffffffff \<Longrightarrow> rc = 0" by blast+
qed

subsection \<open>Any command leaves a sound store\<close>

text \<open>A command succeeds, or it leaves the contents as they were, or only the answer to its request was lost.\<close>

definition sound_outcome :: "k_applied \<Rightarrow> nat option \<Rightarrow> int \<Rightarrow> k_applied \<Rightarrow> bool" where
  "sound_outcome s cookie rc s' \<longleftrightarrow> store_ok s' \<and> (rc = 0 \<or> rc = -1 \<and> (contents s' = contents s \<or> answer_lost cookie s'))"

lemma refused [intro]: "store_ok s \<Longrightarrow> sound_outcome s cookie (-1) s"
  by (simp add: sound_outcome_def)

lemma answer_out: "answer s1 cookie cf body = (rc, s') \<Longrightarrow> store_ok s1 \<Longrightarrow> sound_outcome s cookie rc s'"
  using answer_law(1,2)[of s1 cookie cf body rc s'] by (auto simp: sound_outcome_def same_tree_def)

lemma txn_out:
  assumes "store_ok s" "keeps_txn (ap_tree s) body"
    "(case in_txn s body of (None, s) \<Rightarrow> (-1, s) | (Some n, s) \<Rightarrow> answer s cookie None (Some (d n))) = (rc, s')"
  shows "sound_outcome s cookie rc s'"
proof -
  obtain res s1 where t: "in_txn s body = (res, s1)" by fastforce
  note T = in_txn_law(1,2,5)[OF t assms(1,2)]
  show ?thesis using assms(3) t T answer_out[of s1 cookie None _ rc s' s] by (cases res) (auto simp: sound_outcome_def)
qed

lemma batch_out: "apply_batch sets s r cookie = (rc, s') \<Longrightarrow> store_ok s \<Longrightarrow> sound_outcome s cookie rc s'"
  unfolding apply_batch_def
  using txn_out[of s "\<lambda>m f. batch_loop sets (fst (rd_u32 r)) m f (snd (rd_u32 r)) 0" cookie dec_bytes rc s'] loops_keep(2)
  by (cases "fst (rd_u32 r) < 1") (auto simp: case_prod_beta sound_outcome_def)

lemma exec_out:
  assumes "k_server_apply_exec s command = (rc, s')" "store_ok s"
  shows "sound_outcome s cookie rc s'"
proof -
  let ?b = "\<lambda>m f. exec_loop m f (snd (k_reader_u8 (k_reader_init command)))"
  obtain res s1 where t: "in_txn s ?b = (res, s1)" by fastforce
  show ?thesis using assms(1) t in_txn_law(1,5)[OF t assms(2) loops_keep(1)] by (cases res) (auto simp: k_server_apply_exec_def sound_outcome_def)
qed

lemma heap_inv: "same_heap m m' \<Longrightarrow> treap_inv m t \<Longrightarrow> treap_inv m' t"
  using inv_untouched[of m t m' t] same_heap_simps(1)[of m m'] inv_parts(1)[of m t] by (auto simp: untouched_def same_heap_def)

lemma overwrite_out:
  assumes "overwrite_range s b e v cookie = (rc, s')" "store_ok s"
  shows "sound_outcome s cookie rc s'"
proof -
  obtain scanned sc lst m where sn: "treap_scan (ap_mem s) (ap_tree s) b e True k_rset_collect (ap_script s, k_buf_zero) = (scanned, (sc, lst), m)"
    by (metis prod.exhaust)
  have "sorted_wrt (<) (keys (root (ap_tree s)))" using inv_parts(3)[OF assms(2)] by (simp add: tree_ok_def)
  from scan_law[OF sn this] have h: "same_heap (ap_mem s) m" by blast
  let ?s = "s\<lparr>ap_mem := m, ap_script := sc\<rparr>" let ?b = "\<lambda>m f. rset_loop v m f (k_reader_init (buf_data lst)) 0"
  have ok: "store_ok ?s" using heap_inv[OF h assms(2)] by simp
  show ?thesis
  proof (cases "scanned = -1 \<or> buf_err lst")
    case True
    then have "rc = -1" "s' = ?s" using assms(1) sn by (auto simp: overwrite_range_def Let_def)
    then show ?thesis using ok by (simp add: sound_outcome_def)
  next
    case False
    have "sound_outcome ?s cookie rc s'"
      by (rule txn_out[OF ok loops_keep(3)]) (use assms(1) sn False in \<open>simp add: overwrite_range_def Let_def\<close>)
    then show ?thesis by (simp add: sound_outcome_def)
  qed
qed

lemma rset_out: "apply_rset s r cookie = (rc, s') \<Longrightarrow> store_ok s \<Longrightarrow> sound_outcome s cookie rc s'"
  by (auto simp: apply_rset_def intro: overwrite_out split: option.splits prod.splits if_splits)

lemma rdel_out:
  assumes "apply_rdel s r cookie = (rc, s')" "store_ok s" "length (entries (root (ap_tree s))) < 2 ^ 64 - 1"
  shows "sound_outcome s cookie rc s'"
proof (cases "rc = -1 \<and> s' = s")
  case True
  then show ?thesis using assms(2) by auto
next
  case False
  then obtain b e where "(case treap_delete_range (ap_mem s) (ap_tree s) b e of (removed, t, m) \<Rightarrow>
      if removed = -1 then (-1, s\<lparr>ap_mem := m, ap_tree := t\<rparr>) else answer (s\<lparr>ap_mem := m, ap_tree := t\<rparr>) cookie None (Some (dec_bytes (unat removed)))) = (rc, s')"
    using assms(1) by (auto simp: apply_rdel_def Let_def case_prod_beta split: option.splits if_splits)
  moreover obtain n t m where d: "treap_delete_range (ap_mem s) (ap_tree s) b e = (n, t, m)" by (metis prod_cases3)
  ultimately have u: "(if n = -1 then (-1, s\<lparr>ap_mem := m, ap_tree := t\<rparr>) else answer (s\<lparr>ap_mem := m, ap_tree := t\<rparr>) cookie None (Some (dec_bytes (unat n)))) = (rc, s')" by simp
  show ?thesis
  proof (cases "n = -1")
    case True
    then show ?thesis using u range_untouched[OF d[unfolded True] assms(2,3)] by (auto simp: sound_outcome_def)
  next
    case False
    then show ?thesis using u answer_out[of "s\<lparr>ap_mem := m, ap_tree := t\<rparr>" cookie None _ rc s' s] delete_range_inv[OF assms(2) d False] by simp
  qed
qed

lemma live_set:
  assumes "treap_inv m t" "treap_set m t k v = (rc, t', m')"
  shows "treap_inv m' t'" "rc = 0 \<and> store_map t' = (store_map t)(k \<mapsto> v) \<or> rc = -1 \<and> t' = t"
    "mem_script m = [] \<Longrightarrow> key_ok k \<Longrightarrow> rc = 0"
  using set_inv[OF assms] set_map_law[OF inv_parts(1-3)[OF assms(1)] assms(2)] set_room[OF _ inv_parts(3)[OF assms(1)] _ key_fits, of m k v] assms(2)
  by auto

lemma live_delete:
  assumes "treap_inv m t" "treap_delete m t k = (rc, t', m')"
  shows "treap_inv m' t'" "rc \<ge> 0 \<and> store_map t' = (store_map t)(k := None) \<or> rc = -1 \<and> t' = t" "mem_script m = [] \<Longrightarrow> k \<noteq> [] \<Longrightarrow> rc \<noteq> -1"
  using delete_inv[OF assms] del_map_law[OF inv_parts(1-3)[OF assms(1)] assms(2)] delete_room[OF _ inv_parts(3)[OF assms(1)], of m k] assms(2)
  by auto

lemma single_out:
  assumes "apply_single opc s r = (rc, s')" "store_ok s"
  shows "sound_outcome s cookie rc s'"
proof (cases "rc = -1 \<and> s' = s")
  case False
  then consider (set) k v where "(case treap_set (ap_mem s) (ap_tree s) k v of (rc, t, m) \<Rightarrow> (rc, s\<lparr>ap_mem := m, ap_tree := t\<rparr>)) = (rc, s')"
    | (del) k where "(case treap_delete (ap_mem s) (ap_tree s) k of (rc, t, m) \<Rightarrow> (if rc < 0 then -1 else 0, s\<lparr>ap_mem := m, ap_tree := t\<rparr>)) = (rc, s')"
    using assms(1) by (auto simp: apply_single_def case_prod_beta split: option.splits if_splits)
  then show ?thesis
  proof cases
    case (set k v)
    obtain rc1 t m where e: "treap_set (ap_mem s) (ap_tree s) k v = (rc1, t, m)" by (metis prod_cases3)
    show ?thesis using set e live_set[OF assms(2) e] by (auto simp: sound_outcome_def)
  next
    case (del k)
    obtain rc1 t m where e: "treap_delete (ap_mem s) (ap_tree s) k = (rc1, t, m)" by (metis prod_cases3)
    show ?thesis using del e live_delete[OF assms(2) e] by (auto simp: sound_outcome_def split: if_splits)
  qed
qed (use assms(2) in auto)

text \<open>The conditional write on a store: when its condition holds it is a set.\<close>

definition cas_write :: "k_applied \<Rightarrow> bytes \<Rightarrow> bytes \<Rightarrow> bytes option \<Rightarrow> nat option \<Rightarrow> int \<times> k_applied" where
  "cas_write s key newval old cookie =
     (case treap_get (ap_tree s) key of (ex, cur) \<Rightarrow>
        if ex < 0 then (-1, s)
        else let conflict = (case old of None \<Rightarrow> ex = 1 | Some ov \<Rightarrow> \<not> (ex = 1 \<and> cur = ov))
          in case (if conflict then (0, ap_tree s, ap_mem s) else treap_set (ap_mem s) (ap_tree s) key newval) of (rc, t, m) \<Rightarrow>
            let s = s\<lparr>ap_mem := m, ap_tree := t\<rparr>
            in if rc \<noteq> 0 then (-1, s) else answer s cookie (Some conflict) (if ex = 1 then Some cur else None))"

lemma apply_cas_write:
  "apply_cas s r cookie =
     (case read_key r of None \<Rightarrow> (-1, s) | Some (key, r) \<Rightarrow>
     (case read_upto K_CAS_PACKED_MAX r of None \<Rightarrow> (-1, s) | Some (n, packed, r) \<Rightarrow>
        if \<not> rd_end r then (-1, s)
        else case cas_parts (key_of packed) of None \<Rightarrow> (-1, s) | Some (newval, old) \<Rightarrow> cas_write s (key_of key) newval old cookie))"
  unfolding apply_cas_def cas_write_def ..

lemma cas_law:
  assumes "cas_write s key v old cookie = (rc, s')" "store_ok s" "key \<noteq> []"
  shows "store_ok s' \<and> store_step s s' \<and>
    (rc = 0 \<and> contents s' = write_effect (contents s) (WCas key v old) \<and> answered s cookie (Some (contents s key \<noteq> old)) (write_answer (contents s) (WCas key v old)) s'
     \<or> rc = -1 \<and> (contents s' = contents s \<or> contents s' = write_effect (contents s) (WCas key v old) \<and> answer_lost cookie s'))
    \<and> (mem_script (ap_mem s) = [] \<longrightarrow> ap_script s = [] \<longrightarrow> key_ok key \<longrightarrow> length (key_of (contents s key)) \<le> 0xffffffff \<longrightarrow> rc = 0)"
proof -
  note g = treap_get_spec[OF inv_parts(3)[OF assms(2)], of key]
  let ?c = "contents s key \<noteq> old" let ?ex = "if contents s key = None then 0 else 1 :: int"
  have g1: "treap_get (ap_tree s) key = (?ex, key_of (contents s key))" using g assms(3) by (cases "contents s key") simp_all
  have c: "(case old of None \<Rightarrow> ?ex = 1 | Some ov \<Rightarrow> \<not> (?ex = 1 \<and> key_of (contents s key) = ov)) \<longleftrightarrow> ?c" by (cases old) auto
  obtain rc1 t m where st: "(if ?c then (0, ap_tree s, ap_mem s) else treap_set (ap_mem s) (ap_tree s) key v) = (rc1, t, m)" by (metis prod_cases3)
  let ?s = "s\<lparr>ap_mem := m, ap_tree := t\<rparr>"
  have a: "(if rc1 \<noteq> 0 then (-1, ?s) else answer ?s cookie (Some ?c) (contents s key)) = (rc, s')"
    using assms(1) g1 st by (cases "contents s key"; cases old) (auto simp: cas_write_def Let_def split: if_splits)
  have S: "treap_inv m t \<and> (rc1 = 0 \<and> store_map t = write_effect (contents s) (WCas key v old) \<or> rc1 = -1 \<and> t = ap_tree s)"
    and room: "mem_script (ap_mem s) = [] \<Longrightarrow> key_ok key \<Longrightarrow> rc1 = 0"
    using st live_set[OF assms(2), of key v rc1 t m] assms(2) by (auto split: if_splits)
  show ?thesis
  proof (cases "rc1 = 0")
    case False
    then show ?thesis using a S room by (auto simp: store_step_def)
  next
    case True
    then have an: "answer ?s cookie (Some ?c) (contents s key) = (rc, s')" using a by simp
    note A = answer_law[OF an]
    have same: "ap_mem s' = m" "ap_tree s' = t" "store_step s s'" using A(1) by (auto simp: same_tree_def store_step_def)
    have eff: "contents s' = write_effect (contents s) (WCas key v old)" "store_ok s'" using S True same by auto
    have "answered ?s cookie (Some ?c) (key_of (contents s key)) s' \<Longrightarrow> answered s cookie (Some ?c) (write_answer (contents s) (WCas key v old)) s'"
      by (simp add: answered_def)
    then show ?thesis using A(2,3) eff same(3) by auto
  qed
qed

lemma cas_out:
  assumes "apply_cas s r cookie = (rc, s')" "store_ok s"
  shows "sound_outcome s cookie rc s'"
proof (cases "rc = -1 \<and> s' = s")
  case False
  then obtain key r2 v old where k: "read_key r = Some (key, r2)" "cas_write s (key_of key) v old cookie = (rc, s')"
    using assms(1) unfolding apply_cas_write by (auto split: option.splits if_splits)
  show ?thesis
  proof (cases "key_of key = []")
    case True
    then have "rc = -1 \<and> s' = s" using k(2) by (simp add: cas_write_def treap_get_def)
    then show ?thesis using False by blast
  next
    case ne: False
    show ?thesis using cas_law[OF k(2) assms(2) ne] by (auto simp: sound_outcome_def)
  qed
qed (use assms(2) in auto)

lemma addr_loop_keeps: "addr_loop n s r = (rc, s') \<Longrightarrow> ap_mem s' = ap_mem s \<and> ap_tree s' = ap_tree s \<and> (rc = 0 \<or> rc = -1)"
proof (induction n arbitrary: s r)
  case (Suc n)
  have p: "ap_mem (add_pending s i) = ap_mem s" "ap_tree (add_pending s i) = ap_tree s" for s i by (simp_all add: add_pending_def)
  show ?case using Suc.prems Suc.IH by (fastforce simp: p Let_def split: prod.splits if_splits option.splits)
qed (auto split: if_splits)

lemma addr_out: "apply_addr s r = (rc, s') \<Longrightarrow> store_ok s \<Longrightarrow> sound_outcome s cookie rc s'"
  using addr_loop_keeps[of "fst (rd_u32 r)" s "snd (rd_u32 r)" rc s'] by (auto simp: apply_addr_def sound_outcome_def split: prod.splits if_splits)

lemma apply_out:
  assumes "k_server_apply_command s command cookie = (rc, s')" "store_ok s" "length (entries (root (ap_tree s))) < 2 ^ 64 - 1"
  shows "sound_outcome s cookie rc s'"
proof -
  obtain opc r where u: "k_reader_u8 (k_reader_init command) = (opc, r)" by fastforce
  show ?thesis using assms u batch_out exec_out rset_out rdel_out cas_out addr_out single_out
    by (auto simp: k_server_apply_command_def split: if_splits)
qed

end
