(* ===== verification/Server_Effect.thy ===== *)
theory Server_Effect
  imports Server_Apply_Laws
begin

section \<open>Applied commands refine abstract writes\<close>

text \<open>
  The bytes the server builds for a write are read back field by field, so applying them has the
  effect and the answer of the abstract write, and with memory available it succeeds.
\<close>

subsection \<open>Reading blocks\<close>

lemma rd_end_rdr [simp]: "rd_end (rdr pre bs) \<longleftrightarrow> bs = []"
  by (simp add: rd_end_def)

lemma rd_u32_rdr [simp]: "rd_u32 (rdr pre (k_write_u32 w @ rest)) = (unat w, rdr (pre @ k_write_u32 w) rest)"
  by (simp add: rd_u32_def)

lemma block_parts:
  assumes "length d < 2 ^ 32"
  shows "rd_u32 (rdr pre (block d @ rest)) = (length d, rdr (pre @ k_write_u32 (of_nat (length d))) (d @ rest))"
    "k_reader_bytes (rdr (pre @ k_write_u32 (of_nat (length d))) (d @ rest)) (length d) = (Some d, rdr (pre @ block d) rest)"
  using assms by (simp_all add: block_def unat_small)

lemma read_key_block [simp]: "key_ok k \<Longrightarrow> read_key (rdr pre (block k @ rest)) = Some (Some k, rdr (pre @ block k) rest)"
  by (simp add: read_key_def block_def unat_small)

lemma read_upto_block [simp]:
  "length d \<le> l \<Longrightarrow> l < 2 ^ 32 \<Longrightarrow> read_upto l (rdr pre (block d @ rest)) = Some (length d, Some d, rdr (pre @ block d) rest)"
  by (simp add: read_upto_def block_def unat_small)

lemma read_last_block [simp]:
  "key_ok k \<Longrightarrow> read_key (rdr pre (block k)) = Some (Some k, rdr (pre @ block k) [])"
  "length d \<le> l \<Longrightarrow> l < 2 ^ 32 \<Longrightarrow> read_upto l (rdr pre (block d)) = Some (length d, Some d, rdr (pre @ block d) [])"
  using read_key_block[of k pre "[]"] read_upto_block[of d l pre "[]"] by simp_all

lemma set_at_Some [simp]: "set_at m f key n (Some v) = treap_set m f (key_of key) v"
  by (simp add: set_at_def)

subsection \<open>The loops on their own input\<close>

text \<open>A loop on a working copy: its result, the map it leaves, and that with memory it comes to an end.\<close>

definition loop_law :: "treap_mem \<Rightarrow> 'a option \<Rightarrow> treap_mem \<Rightarrow> treap \<Rightarrow> 'a \<Rightarrow> (bytes \<rightharpoonup> bytes) \<Rightarrow> bool" where
  "loop_law m res m' f' x g \<longleftrightarrow> (res = None \<or> res = Some x \<and> store_map f' = g) \<and> (mem_script m = [] \<longrightarrow> res \<noteq> None)"

lemma loop_fail: "mem_script m \<noteq> [] \<Longrightarrow> loop_law m None m' f' x g"
  by (simp add: loop_law_def)

lemma loop_done: "store_map f' = g \<Longrightarrow> loop_law m (Some x) m' f' x g"
  by (simp add: loop_law_def)

lemma loop_next:
  assumes "loop_law m1 res m' f' x g" "mem_script m = [] \<Longrightarrow> mem_script m1 = []"
  shows "loop_law m res m' f' x g"
  using assms by (auto simp: loop_law_def)

lemma exec_wire:
  assumes "exec_loop m f (rdr pre (concat (map cmd_wire cs))) = (res, m', f')" "txn_inv m t f" "list_all cmd_ok cs"
  shows "loop_law m res m' f' () (foldl cmd_effect (store_map f) cs)"
  using assms
proof (induction cs arbitrary: m f pre)
  case Nil
  then show ?case by (auto simp: exec_loop.simps[of m f] intro: loop_done)
next
  case (Cons c cs)
  let ?rest = "concat (map cmd_wire cs)"
  have ok: "cmd_ok c" "list_all cmd_ok cs" using Cons.prems(3) by simp_all
  show ?case
  proof (cases c)
    case (Set k v)
    obtain rc f1 m1 where st: "treap_set m f k v = (rc, f1, m1)" by (metis prod_cases3)
    note S = set_step[OF Cons.prems(2) st]
    have e: "exec_loop m f (rdr pre (cmd_wire c @ ?rest)) = (if rc \<noteq> 0 then (None, m1, f1) else exec_loop m1 f1 (rdr (((pre @ k_write_u8 K_OP_SET) @ block k) @ block v) ?rest))"
      using ok st Set by (simp add: exec_loop.simps[of m f] u8c.length_enc)
    show ?thesis
    proof (cases "rc = 0")
      case True
      have "loop_law m1 res m' f' () (foldl cmd_effect (store_map f1) cs)" using Cons.IH[OF _ S(1) ok(2)] Cons.prems(1) e True by simp
      moreover have "store_map f1 = cmd_effect (store_map f) c" using S(2) True Set by auto
      ultimately have "loop_law m1 res m' f' () (foldl cmd_effect (store_map f) (c # cs))" by simp
      then show ?thesis by (rule loop_next) (use S(3) ok(1) Set in auto)
    next
      case False
      then show ?thesis using S(3) ok(1) Set Cons.prems(1) e by (auto intro: loop_fail)
    qed
  next
    case (Del k)
    obtain rc f1 m1 where st: "treap_delete m f k = (rc, f1, m1)" by (metis prod_cases3)
    note S = delete_step[OF Cons.prems(2) st]
    have e: "exec_loop m f (rdr pre (cmd_wire c @ ?rest)) = (if rc < 0 then (None, m1, f1) else exec_loop m1 f1 (rdr ((pre @ k_write_u8 K_OP_DEL) @ block k) ?rest))"
      using ok st Del by (simp add: exec_loop.simps[of m f] u8c.length_enc)
    show ?thesis
    proof (cases "rc < 0")
      case False
      have "loop_law m1 res m' f' () (foldl cmd_effect (store_map f1) cs)" using Cons.IH[OF _ S(1) ok(2)] Cons.prems(1) e False by simp
      moreover have "store_map f1 = cmd_effect (store_map f) c" using S(2) False Del by auto
      ultimately have "loop_law m1 res m' f' () (foldl cmd_effect (store_map f) (c # cs))" by simp
      then show ?thesis by (rule loop_next) (use S(3) ok(1) Del in auto)
    next
      case True
      then have "rc = -1" using S(2) by (auto split: if_splits)
      then show ?thesis using S(3) ok(1) Del Cons.prems(1) e True by (auto intro: loop_fail)
    qed
  qed
qed

lemma mset_wire:
  assumes "batch_loop True (length kvs) m f (rdr pre (concat (map (\<lambda>(k, v). block k @ block v) kvs))) a = (res, m', f')" "txn_inv m t f"
    "\<forall>(k, v)\<in>set kvs. key_ok k \<and> val_ok v"
  shows "loop_law m res m' f' (a + length kvs) (store_map f ++ map_of (rev kvs))"
  using assms
proof (induction kvs arbitrary: m f pre a)
  case (Cons kv kvs)
  obtain k v where kv: "kv = (k, v)" by fastforce
  let ?rest = "concat (map (\<lambda>(k, v). block k @ block v) kvs)"
  have ok: "key_ok k" "val_ok v" "\<forall>(k, v)\<in>set kvs. key_ok k \<and> val_ok v" using Cons.prems(3) kv by auto
  obtain rc f1 m1 where st: "treap_set m f k v = (rc, f1, m1)" by (metis prod_cases3)
  note S = set_step[OF Cons.prems(2) st]
  have e: "(res, m', f') = (if rc \<noteq> 0 then (None, m1, f1) else batch_loop True (length kvs) m1 f1 (rdr ((pre @ block k) @ block v) ?rest) (Suc a))"
    using Cons.prems(1) ok st kv by (auto split: if_splits)
  show ?case
  proof (cases "rc = 0")
    case True
    have lp: "batch_loop True (length kvs) m1 f1 (rdr ((pre @ block k) @ block v) ?rest) (Suc a) = (res, m', f')" using e True by simp
    note Cons.IH[OF lp S(1) ok(3)]
    moreover have "store_map f1 ++ map_of (rev kvs) = store_map f ++ map_of (rev (kv # kvs))"
      using S(2) True kv by (simp add: map_add_assoc)
    ultimately have "loop_law m1 res m' f' (a + length (kv # kvs)) (store_map f ++ map_of (rev (kv # kvs)))" by simp
    then show ?thesis by (rule loop_next) (use S(3) ok(1) in auto)
  next
    case False
    then show ?thesis using S(3) ok(1) e by (auto intro: loop_fail)
  qed
qed (auto intro: loop_done)

lemma mdel_wire:
  assumes "batch_loop False (length ks) m f (rdr pre (concat (map block ks))) a = (res, m', f')" "txn_inv m t f" "\<forall>k\<in>set ks. key_ok k"
  shows "loop_law m res m' f' (a + card (set ks \<inter> dom (store_map f))) (store_map f |` (- set ks))"
  using assms
proof (induction ks arbitrary: m f pre a)
  case (Cons k ks)
  let ?rest = "concat (map block ks)" and ?M = "store_map f"
  have ok: "key_ok k" "\<forall>k\<in>set ks. key_ok k" using Cons.prems(3) by auto
  obtain rc f1 m1 where st: "treap_delete m f k = (rc, f1, m1)" by (metis prod_cases3)
  note S = delete_step[OF Cons.prems(2) st]
  have e: "(res, m', f') = (if rc < 0 then (None, m1, f1) else batch_loop False (length ks) m1 f1 (rdr (pre @ block k) ?rest) (if rc = 1 then a + 1 else a))"
    using Cons.prems(1) ok st by (auto split: if_splits)
  show ?case
  proof (cases "rc < 0")
    case False
    then have rc: "rc = (if k \<in> dom ?M then 1 else 0)" "store_map f1 = ?M(k := None)" using S(2) by auto
    have lp: "batch_loop False (length ks) m1 f1 (rdr (pre @ block k) ?rest) (if rc = 1 then a + 1 else a) = (res, m', f')" using e False by simp
    note ih = Cons.IH[OF lp S(1) ok(2)]
    have d: "set ks \<inter> dom (?M(k := None)) = set ks \<inter> dom ?M - {k}" by auto
    have c: "(if rc = 1 then a + 1 else a) + card (set ks \<inter> dom (?M(k := None))) = a + card (set (k # ks) \<inter> dom ?M)"
    proof (cases "k \<in> dom ?M")
      case True
      then have "set (k # ks) \<inter> dom ?M = insert k (set ks \<inter> dom ?M - {k})" by auto
      then have "card (set (k # ks) \<inter> dom ?M) = Suc (card (set ks \<inter> dom ?M - {k}))" by (simp add: card.insert_remove)
      then show ?thesis using True rc(1) unfolding d by simp
    next
      case False
      then have "set (k # ks) \<inter> dom ?M = set ks \<inter> dom ?M - {k}" by auto
      then show ?thesis using False rc(1) d by simp
    qed
    have r: "(?M(k := None)) |` (- set ks) = ?M |` (- set (k # ks))" by (auto simp: restrict_map_def fun_eq_iff)
    have "loop_law m1 res m' f' (a + card (set (k # ks) \<inter> dom ?M)) (?M |` (- set (k # ks)))" using ih unfolding rc(2) c r .
    then show ?thesis by (rule loop_next) (use S(3) ok(1) in auto)
  next
    case True
    then have "rc = -1" using S(2) by (auto split: if_splits)
    then show ?thesis using S(3) ok(1) e True by (auto intro: loop_fail)
  qed
qed (auto simp: restrict_map_def intro: loop_done)

definition stored_key :: "bytes \<Rightarrow> bool" where
  "stored_key k \<longleftrightarrow> k \<noteq> [] \<and> treap_node_bytes (length k) \<le> 0xffffffff"

lemma rset_wire:
  assumes "rset_loop nv m f (rdr pre (concat (map block ks))) a = (res, m', f')" "txn_inv m t f" "\<forall>k\<in>set ks. stored_key k"
  shows "loop_law m res m' f' (a + length ks) (\<lambda>k. if k \<in> set ks then Some nv else store_map f k)"
  using assms
proof (induction ks arbitrary: m f pre a)
  case Nil
  then show ?case by (auto simp: rset_loop.simps[of nv m f] intro: loop_done)
next
  case (Cons k ks)
  let ?rest = "concat (map block ks)" and ?g = "\<lambda>x. if x \<in> set (k # ks) then Some nv else store_map f x"
  have ok: "stored_key k" "\<forall>k\<in>set ks. stored_key k" using Cons.prems(3) by auto
  then have len: "length k < 2 ^ 32" by (simp add: stored_key_def treap_node_bytes_def)
  obtain rc f1 m1 where st: "treap_set m f k nv = (rc, f1, m1)" by (metis prod_cases3)
  note S = set_step[OF Cons.prems(2) st]
  have "length (block k) > 0" by (simp add: block_def u32c.length_enc)
  then have e: "(res, m', f') = (if rc \<noteq> 0 then (None, m1, f1) else rset_loop nv m1 f1 (rdr (pre @ block k) ?rest) (a + 1))"
    using Cons.prems(1) st block_parts[OF len, of pre ?rest] by (simp add: rset_loop.simps[of nv m f] split: if_splits)
  show ?case
  proof (cases "rc = 0")
    case True
    have lp: "rset_loop nv m1 f1 (rdr (pre @ block k) ?rest) (a + 1) = (res, m', f')" using e True by simp
    note ih = Cons.IH[OF lp S(1) ok(2)]
    have "(\<lambda>x. if x \<in> set ks then Some nv else store_map f1 x) = ?g" using S(2) True by auto
    then have "loop_law m1 res m' f' (a + length (k # ks)) ?g" using ih by simp
    then show ?thesis by (rule loop_next) (use S(4) ok(1) in \<open>auto simp: stored_key_def\<close>)
  next
    case False
    then show ?thesis using S(4) ok(1) e by (auto simp: stored_key_def intro: loop_fail)
  qed
qed

text \<open>Collecting the keys of a range.\<close>

lemma collect_step: "k_rset_collect k v sb = (stop, sb') \<Longrightarrow> appends sb (block k) sb' \<and> (stop \<longleftrightarrow> buf_err (snd sb'))"
  using appends_fields[of sb "[FU32 (of_nat (length k)), FBytes k]"] by (auto simp: k_rset_collect_def Let_def block_def)

lemma collect_law:
  assumes "visit k_rset_collect es sb = (n, sb')" "buf_wf (snd sb)" "\<not> buf_err (snd sb')"
  shows "buf_data (snd sb') = buf_data (snd sb) @ concat (map (\<lambda>x. block (fst x)) es)"
  using assms
proof (induction es arbitrary: sb n)
  case (Cons x es)
  obtain stop sb1 where c: "k_rset_collect (fst x) (snd x) sb = (stop, sb1)" by (metis prod.exhaust)
  note C = collect_step[OF c]
  have ns: "\<not> stop" using Cons.prems(1,3) c C by (auto split: if_splits)
  obtain n1 where v: "visit k_rset_collect es sb1 = (n1, sb')" using Cons.prems(1) c ns by (auto split: prod.splits)
  have "buf_wf (snd sb1)" "buf_data (snd sb1) = buf_data (snd sb) @ block (fst x)" using C Cons.prems(2) ns by (auto simp: appends_def)
  then show ?case using Cons.IH[OF v _ Cons.prems(3)] by simp
qed simp

lemma collect_room:
  assumes "visit k_rset_collect es sb = (n, sb')" "holds sb d" "length d + sum_list (map (\<lambda>x. 4 + length (fst x)) es) \<le> 0xffffffff"
  shows "fst sb' = [] \<and> \<not> buf_err (snd sb')"
  using assms
proof (induction es arbitrary: sb n d)
  case Nil
  then show ?case by (auto simp: holds_def)
next
  case (Cons x es)
  obtain stop sb1 where c: "k_rset_collect (fst x) (snd x) sb = (stop, sb1)" by (metis prod.exhaust)
  have "length (k_write_u32 (of_nat (length (fst x))) @ fst x) = 4 + length (fst x)" by (simp add: u32c.length_enc)
  then have h: "holds sb1 (d @ k_write_u32 (of_nat (length (fst x))) @ fst x)"
    using holds_fields[OF Cons.prems(2), of "[FU32 (of_nat (length (fst x))), FBytes (fst x)]"] Cons.prems(3) c by (auto simp: k_rset_collect_def Let_def)
  have ns: "\<not> stop" using h c by (auto simp: k_rset_collect_def Let_def holds_def)
  obtain n1 where v: "visit k_rset_collect es sb1 = (n1, sb')" using Cons.prems(1) c ns by (auto split: prod.splits)
  show ?case using Cons.IH[OF v h] Cons.prems(3) by (simp add: u32c.length_enc)
qed

subsection \<open>Commands as writes\<close>

text \<open>What a waiting request is told; the single writes and the function call leave the requests alone.\<close>

fun told :: "k_applied \<Rightarrow> nat option \<Rightarrow> kv_write \<Rightarrow> k_applied \<Rightarrow> bool" where
  "told s cookie (WSet k v) s' \<longleftrightarrow> ap_requests s' = ap_requests s"
| "told s cookie (WDel k) s' \<longleftrightarrow> ap_requests s' = ap_requests s"
| "told s cookie (WExec cs) s' \<longleftrightarrow> ap_requests s' = ap_requests s"
| "told s cookie (WCas k v old) s' \<longleftrightarrow> answered s cookie (Some (contents s k \<noteq> old)) (write_answer (contents s) (WCas k v old)) s'"
| "told s cookie c s' \<longleftrightarrow> answered s cookie None (write_answer (contents s) c) s'"

text \<open>The write happened and was answered; or it did not happen; or only its answer was lost.\<close>

definition applied_as :: "k_applied \<Rightarrow> nat option \<Rightarrow> kv_write \<Rightarrow> int \<Rightarrow> k_applied \<Rightarrow> bool" where
  "applied_as s cookie c rc s' \<longleftrightarrow> store_ok s' \<and> store_step s s'
     \<and> (rc = 0 \<and> contents s' = write_effect (contents s) c \<and> told s cookie c s'
       \<or> rc = -1 \<and> (contents s' = contents s \<or> contents s' = write_effect (contents s) c \<and> answer_lost cookie s'))"

text \<open>Memory for the store and for the buffers, and a store within the limits of a scan and of one buffer.\<close>

definition roomy :: "k_applied \<Rightarrow> bool" where
  "roomy s \<longleftrightarrow> mem_script (ap_mem s) = [] \<and> ap_script s = [] \<and> length (entries (root (ap_tree s))) < 2 ^ 31
     \<and> sum_list (map (\<lambda>x. 4 + length (fst x)) (entries (root (ap_tree s)))) \<le> 0xffffffff
     \<and> (\<forall>x\<in>set (entries (root (ap_tree s))). length (snd x) \<le> 0xffffffff)"

lemma txn_effect:
  assumes "in_txn s body = (res, s1)" "store_ok s" "keeps_txn (ap_tree s) body"
    and law: "\<And>m f r m' f'. txn_inv m (ap_tree s) f \<Longrightarrow> store_map f = contents s \<Longrightarrow> body m f = (r, m', f') \<Longrightarrow> loop_law m r m' f' x g"
  shows "res = None \<and> contents s1 = contents s \<or> res = Some x \<and> contents s1 = g"
    "mem_script (ap_mem s) = [] \<Longrightarrow> res \<noteq> None"
proof -
  note T = in_txn_law[OF assms(1-3)]
  show "res = None \<and> contents s1 = contents s \<or> res = Some x \<and> contents s1 = g"
  proof (cases res)
    case (Some y)
    obtain m f m' f' where f: "txn_inv m (ap_tree s) f" "store_map f = contents s" "body m f = (Some y, m', f')" "contents s1 = store_map f'"
      using T(6)[OF Some] by blast
    show ?thesis using law[OF f(1-3)] Some f(4) by (auto simp: loop_law_def)
  qed (use T(5) in simp)
  show "res \<noteq> None" if room: "mem_script (ap_mem s) = []"
  proof -
    have "\<not> tr_txn (ap_tree s)" using inv_parts(4)[OF assms(2)] by simp
    then obtain f m where fk: "treap_fork (ap_mem s) (ap_tree s) = (Some f, m)" "mem_script m = []"
      using malloc_room[OF room] by (auto simp: treap_fork_def)
    note F = fork_txn[OF assms(2) fk(1)]
    have sm: "store_map f = contents s" using F by (simp add: store_map_def)
    obtain r m1 f1 where b: "body m f = (r, m1, f1)" by (metis prod_cases3)
    have i: "txn_inv m1 (ap_tree s) f1" using assms(3) F b by (auto simp: keeps_txn_def)
    have "r \<noteq> None" using law[OF _ sm b] F fk(2) by (simp add: loop_law_def)
    then show ?thesis using assms(1) fk(1) b commit_inv[OF i] by (auto simp: in_txn_def split: prod.splits option.splits if_splits)
  qed
qed

text \<open>A transaction whose result is answered to the request.\<close>

lemma txn_answered:
  assumes "(case in_txn s body of (None, s) \<Rightarrow> (-1, s) | (Some n, s) \<Rightarrow> answer s cookie None (Some (dec_bytes n))) = (rc, s')"
    "store_ok s" "keeps_txn (ap_tree s) body"
    and law: "\<And>m f r m' f'. txn_inv m (ap_tree s) f \<Longrightarrow> store_map f = contents s \<Longrightarrow> body m f = (r, m', f') \<Longrightarrow> loop_law m r m' f' x (write_effect (contents s) c)"
    and c: "\<And>s'. told s cookie c s' \<longleftrightarrow> answered s cookie None (dec_bytes x) s'"
  shows "applied_as s cookie c rc s'" "mem_script (ap_mem s) = [] \<Longrightarrow> ap_script s = [] \<Longrightarrow> length (dec_bytes x) \<le> 0xffffffff \<Longrightarrow> rc = 0"
proof -
  obtain res s1 where t: "in_txn s body = (res, s1)" by fastforce
  note T = in_txn_law[OF t assms(2,3)] and E = txn_effect[OF t assms(2,3) law]
  have "applied_as s cookie c rc s' \<and> (mem_script (ap_mem s) = [] \<longrightarrow> ap_script s = [] \<longrightarrow> length (dec_bytes x) \<le> 0xffffffff \<longrightarrow> rc = 0)"
  proof (cases res)
    case None
    then show ?thesis using assms(1) t T(1,2) E by (auto simp: applied_as_def)
  next
    case (Some y)
    then have y: "res = Some x" "contents s1 = write_effect (contents s) c" using E(1) by auto
    have an: "answer s1 cookie None (Some (dec_bytes x)) = (rc, s')" using assms(1) t y(1) by simp
    note A = answer_law[OF an]
    have st: "store_ok s'" "store_step s s'" "contents s' = write_effect (contents s) c" using A(1) T(1,2) y(2) by (auto simp: same_tree_def store_step_def)
    have "answered s1 cookie None (dec_bytes x) s' \<Longrightarrow> told s cookie c s'" unfolding c by (simp add: answered_def T(3))
    then show ?thesis using st A(2,3) T(4) by (auto simp: applied_as_def)
  qed
  then show "applied_as s cookie c rc s'" "mem_script (ap_mem s) = [] \<Longrightarrow> ap_script s = [] \<Longrightarrow> length (dec_bytes x) \<le> 0xffffffff \<Longrightarrow> rc = 0" by blast+
qed

lemma few_digits: "n < 2 ^ 64 \<Longrightarrow> length (dec_bytes n) \<le> 0xffffffff"
  using dec_bytes_length[of n 20] by simp

lemma first_byte [simp]:
  "k_reader_u8 (k_reader_init (k_write_u8 x @ rest)) = (x, rdr (k_write_u8 x) rest)" "k_write_u8 x \<noteq> []"
  by (simp add: rdr_init) (simp add: k_write_u8_def)

text \<open>The dispatch on the first byte.\<close>

lemma dispatch:
  "k_server_apply_command s (k_write_u8 x @ rest) cookie =
     (let r = rdr (k_write_u8 x) rest
      in if x = K_OP_MSET \<or> x = K_OP_MDEL then apply_batch (x = K_OP_MSET) s r cookie
         else if x = K_OP_RSET then apply_rset s r cookie
         else if x = K_OP_FCALL then k_server_apply_exec s (k_write_u8 x @ rest)
         else if x = K_OP_RDEL then apply_rdel s r cookie
         else if x = K_OP_CAS then apply_cas s r cookie
         else if x = K_OP_ADDR then apply_addr s r
         else apply_single x s r)"
  by (simp add: k_server_apply_command_def Let_def)

lemma exec_effect:
  assumes "k_server_apply_command s (write_wire (WExec cs)) cookie = (rc, s')" "store_ok s" "write_ok (WExec cs)"
  shows "applied_as s cookie (WExec cs) rc s'" "mem_script (ap_mem s) = [] \<Longrightarrow> rc = 0"
proof -
  let ?b = "\<lambda>m f. exec_loop m f (rdr (k_write_u8 K_OP_FCALL) (concat (map cmd_wire cs)))"
  obtain res s1 where t: "in_txn s ?b = (res, s1)" by fastforce
  have u: "rc = (if res = None then -1 else 0)" "s' = s1" using assms(1) t by (auto simp: dispatch k_server_apply_exec_def)
  have law: "loop_law m r m' f' () (foldl cmd_effect (contents s) cs)" if "txn_inv m (ap_tree s) f" "store_map f = contents s" "?b m f = (r, m', f')" for m f r m' f'
    using exec_wire[OF that(3,1)] assms(3) that(2) by simp
  note T = in_txn_law[OF t assms(2) loops_keep(1)] and E = txn_effect[OF t assms(2) loops_keep(1) law]
  show "applied_as s cookie (WExec cs) rc s'" using u E(1) T(1-3) by (auto simp: applied_as_def)
  show "mem_script (ap_mem s) = [] \<Longrightarrow> rc = 0" using u E(2) by simp
qed

lemma mset_effect:
  assumes "k_server_apply_command s (write_wire (WMset kvs)) cookie = (rc, s')" "store_ok s" "write_ok (WMset kvs)"
  shows "applied_as s cookie (WMset kvs) rc s'" "roomy s \<Longrightarrow> rc = 0"
proof -
  let ?pre = "k_write_u8 K_OP_MSET @ k_write_u32 (of_nat (length kvs))"
  let ?b = "\<lambda>m f. batch_loop True (length kvs) m f (rdr ?pre (concat (map (\<lambda>(k, v). block k @ block v) kvs))) 0"
  have n: "length kvs < 2 ^ 32" "\<not> length kvs < 1" using assms(3) by (auto simp: Suc_le_eq)
  have u: "(case in_txn s ?b of (None, s) \<Rightarrow> (-1, s) | (Some n, s) \<Rightarrow> answer s cookie None (Some (dec_bytes n))) = (rc, s')"
    using assms(1) n by (simp add: dispatch apply_batch_def unat_small)
  have law: "loop_law m r m' f' (length kvs) (write_effect (contents s) (WMset kvs))"
    if "txn_inv m (ap_tree s) f" "store_map f = contents s" "?b m f = (r, m', f')" for m f r m' f'
    using mset_wire[OF that(3,1)] assms(3) that(2) by simp
  note E = txn_answered[OF u assms(2) loops_keep(2) law]
  show "applied_as s cookie (WMset kvs) rc s'" by (rule E(1)) simp_all
  show "rc = 0" if "roomy s" by (rule E(2)) (use that n(1) in \<open>simp_all add: roomy_def few_digits\<close>)
qed

lemma mdel_effect:
  assumes "k_server_apply_command s (write_wire (WMdel ks)) cookie = (rc, s')" "store_ok s" "write_ok (WMdel ks)"
  shows "applied_as s cookie (WMdel ks) rc s'" "roomy s \<Longrightarrow> rc = 0"
proof -
  let ?pre = "k_write_u8 K_OP_MDEL @ k_write_u32 (of_nat (length ks))"
  let ?b = "\<lambda>m f. batch_loop False (length ks) m f (rdr ?pre (concat (map block ks))) 0" let ?n = "card (set ks \<inter> dom (contents s))"
  have n: "length ks < 2 ^ 32" "\<not> length ks < 1" using assms(3) by (auto simp: Suc_le_eq)
  have u: "(case in_txn s ?b of (None, s) \<Rightarrow> (-1, s) | (Some n, s) \<Rightarrow> answer s cookie None (Some (dec_bytes n))) = (rc, s')"
    using assms(1) n by (simp add: dispatch apply_batch_def unat_small)
  have law: "loop_law m r m' f' ?n (write_effect (contents s) (WMdel ks))"
    if "txn_inv m (ap_tree s) f" "store_map f = contents s" "?b m f = (r, m', f')" for m f r m' f'
    using mdel_wire[OF that(3,1)] assms(3) that(2) by simp
  note E = txn_answered[OF u assms(2) loops_keep(2) law]
  have "?n \<le> length ks" using card_mono[of "set ks" "set ks \<inter> dom (contents s)"] card_length[of ks] by simp
  then have d: "length (dec_bytes ?n) \<le> 0xffffffff" using n(1) few_digits[of ?n] by simp
  show "rc = 0" if "roomy s" by (rule E(2)) (use that d in \<open>simp_all add: roomy_def\<close>)
  show "applied_as s cookie (WMdel ks) rc s'" by (rule E(1)) simp_all
qed

text \<open>The entries of a range.\<close>

abbreviation hits :: "bytes \<Rightarrow> bytes \<Rightarrow> k_applied \<Rightarrow> (bytes \<times> bytes) list" where
  "hits b e s \<equiv> filter (\<lambda>x. in_range b e (fst x)) (entries (root (ap_tree s)))"

lemma map_of_outside: "map_of (filter (\<lambda>x. \<not> P (fst x)) es) = (\<lambda>k. if P k then None else map_of es k)"
  by (induction es) auto

lemma hits_facts:
  assumes "store_ok s"
  shows "set (map fst (hits b e s)) = {k \<in> dom (contents s). in_range b e k}" "card {k \<in> dom (contents s). in_range b e k} = length (hits b e s)"
    "\<forall>k\<in>set (map fst (hits b e s)). stored_key k"
proof -
  have ok: "tree_ok (tr_seed (ap_tree s)) (root (ap_tree s))" using inv_parts(3)[OF assms] .
  show d: "set (map fst (hits b e s)) = {k \<in> dom (contents s). in_range b e k}"
    unfolding store_map_def dom_map_of_conv_image_fst by auto
  have "distinct (keys (root (ap_tree s)))" using ok by (simp add: tree_ok_def strict_sorted_iff)
  then have "distinct (map fst (hits b e s))" by (simp add: distinct_map_filter)
  then have "card (set (map fst (hits b e s))) = length (map fst (hits b e s))" by (rule distinct_card)
  then show "card {k \<in> dom (contents s). in_range b e k} = length (hits b e s)" unfolding d by simp
  show "\<forall>k\<in>set (map fst (hits b e s)). stored_key k"
  proof
    fix k assume "k \<in> set (map fst (hits b e s))"
    then have "k \<in> snd ` pkeys (root (ap_tree s))" unfolding snd_pkeys by auto
    then obtain p where "(p, k) \<in> pkeys (root (ap_tree s))" by auto
    then show "stored_key k" using ok by (auto simp: tree_ok_def stored_key_def)
  qed
qed

lemma hits_few: "length (entries (root (ap_tree s))) < n \<Longrightarrow> length (hits b e s) < n"
  by (rule le_less_trans[OF length_filter_le])

lemma visit_bound: "visit fn es ud = (n, ud') \<Longrightarrow> n \<le> length es"
  by (induction es arbitrary: ud n) (auto split: prod.splits if_splits)

lemma rdel_effect:
  assumes "k_server_apply_command s (write_wire (WRdel b e)) cookie = (rc, s')" "store_ok s" "write_ok (WRdel b e)"
    "length (entries (root (ap_tree s))) < 2 ^ 64 - 1"
  shows "applied_as s cookie (WRdel b e) rc s'" "roomy s \<Longrightarrow> rc = 0"
proof -
  let ?t = "ap_tree s" let ?n = "length (hits b e s)"
  obtain n t m where d: "treap_delete_range (ap_mem s) ?t b e = (n, t, m)" by (metis prod_cases3)
  let ?s = "s\<lparr>ap_mem := m, ap_tree := t\<rparr>"
  have u: "(if n = -1 then (-1, ?s) else answer ?s cookie None (Some (dec_bytes (unat n)))) = (rc, s')"
    using assms(1,3) d by (simp add: dispatch apply_rdel_def Let_def)
  have lt: "?n < 2 ^ 64" using hits_few[OF assms(4)] by (rule less_trans) simp
  have "applied_as s cookie (WRdel b e) rc s' \<and> (roomy s \<longrightarrow> rc = 0)"
  proof (cases "n = -1")
    case True
    have "\<not> roomy s"
    proof
      assume "roomy s"
      then obtain c where "n = of_nat c" "c \<le> length (entries (root ?t))" using delete_range_room[OF _ inv_parts(3)[OF assms(2)], of "ap_mem s" b e] d by (auto simp: roomy_def)
      then show False using small_count[of c] assms(4) True by simp
    qed
    then show ?thesis using u True range_untouched[OF d[unfolded True] assms(2,4)] by (auto simp: applied_as_def store_step_def)
  next
    case False
    note D = delete_range_tree[OF d False inv_parts(3)[OF assms(2)]]
    have n: "unat n = ?n" using D lt by (simp add: unat_of_nat take_bit_nat_eq_self)
    have eff: "store_map t = write_effect (contents s) (WRdel b e)" using D by (simp add: store_map_def map_of_outside)
    have an: "answer ?s cookie None (Some (dec_bytes ?n)) = (rc, s')" using u False n by simp
    note A = answer_law[OF an]
    have st: "store_ok s'" "store_step s s'" "contents s' = write_effect (contents s) (WRdel b e)"
      using A(1) delete_range_inv[OF assms(2) d False] eff by (auto simp: same_tree_def store_step_def)
    have "answered ?s cookie None (dec_bytes ?n) s' \<Longrightarrow> told s cookie (WRdel b e) s'" by (simp add: answered_def hits_facts(2)[OF assms(2)])
    then show ?thesis using st A(2,3) few_digits[OF lt] by (auto simp: applied_as_def roomy_def)
  qed
  then show "applied_as s cookie (WRdel b e) rc s'" "roomy s \<Longrightarrow> rc = 0" by blast+
qed

lemma single_effect:
  assumes "k_server_apply_command s (write_wire c) cookie = (rc, s')" "store_ok s" "write_ok c" "c = WSet k v \<or> c = WDel k"
  shows "applied_as s cookie c rc s'" "roomy s \<Longrightarrow> rc = 0"
proof -
  obtain rc1 t1 m1 where a: "treap_set (ap_mem s) (ap_tree s) k v = (rc1, t1, m1)" by (metis prod_cases3)
  obtain rc2 t2 m2 where d: "treap_delete (ap_mem s) (ap_tree s) k = (rc2, t2, m2)" by (metis prod_cases3)
  note S = live_set[OF assms(2) a] and D = live_delete[OF assms(2) d]
  have "applied_as s cookie c rc s' \<and> (roomy s \<longrightarrow> rc = 0)" using assms(4)
  proof
    assume c: "c = WSet k v"
    then have "rc = rc1" "s' = s\<lparr>ap_mem := m1, ap_tree := t1\<rparr>" using assms(1,3) a by (auto simp: dispatch apply_single_def)
    then show ?thesis using c S assms(3) by (auto simp: applied_as_def store_step_def roomy_def)
  next
    assume c: "c = WDel k"
    then have "rc = (if rc2 < 0 then -1 else 0)" "s' = s\<lparr>ap_mem := m2, ap_tree := t2\<rparr>" using assms(1,3) d by (auto simp: dispatch apply_single_def)
    then show ?thesis using c D assms(3) by (auto simp: applied_as_def store_step_def roomy_def)
  qed
  then show "applied_as s cookie c rc s'" "roomy s \<Longrightarrow> rc = 0" by blast+
qed

lemma cas_packed_parts:
  assumes "val_ok v" "case old of None \<Rightarrow> True | Some w \<Rightarrow> val_ok w"
  shows "cas_parts (cas_packed v old) = Some (v, old)" "length (cas_packed v old) \<le> K_CAS_PACKED_MAX"
proof -
  show "cas_parts (cas_packed v old) = Some (v, old)"
    using assms by (cases old) (simp_all add: cas_parts_def)
  show "length (cas_packed v old) \<le> K_CAS_PACKED_MAX"
    using assms by (cases old) (simp_all add: block_def u8c.length_enc u32c.length_enc)
qed

lemma cas_effect:
  assumes "k_server_apply_command s (write_wire (WCas k v old)) cookie = (rc, s')" "store_ok s" "write_ok (WCas k v old)"
  shows "applied_as s cookie (WCas k v old) rc s'" "roomy s \<Longrightarrow> rc = 0"
proof -
  have ok: "key_ok k" "val_ok v" "case old of None \<Rightarrow> True | Some w \<Rightarrow> val_ok w" using assms(3) by auto
  have "cas_write s k v old cookie = (rc, s')"
    using assms(1) ok(1) cas_packed_parts[OF ok(2,3)] by (simp add: dispatch apply_cas_write)
  note C = cas_law[OF this assms(2)]
  have "length (key_of (contents s k)) \<le> 0xffffffff" if "roomy s"
    using that map_of_SomeD[of "entries (root (ap_tree s))" k] by (fastforce simp: roomy_def store_map_def split: option.splits)
  then show "roomy s \<Longrightarrow> rc = 0" using C ok(1) by (auto simp: roomy_def)
  show "applied_as s cookie (WCas k v old) rc s'" using C ok(1) by (auto simp: applied_as_def)
qed

lemma rset_effect:
  assumes "k_server_apply_command s (write_wire (WRset b e v)) cookie = (rc, s')" "store_ok s" "write_ok (WRset b e v)"
  shows "applied_as s cookie (WRset b e v) rc s'" "roomy s \<Longrightarrow> rc = 0"
proof -
  let ?es = "hits b e s" let ?c = "WRset b e v"
  have o: "overwrite_range s b e v cookie = (rc, s')" using assms(1,3) by (simp add: dispatch apply_rset_def)
  obtain scanned sc lst m where sn: "treap_scan (ap_mem s) (ap_tree s) b e True k_rset_collect (ap_script s, k_buf_zero) = (scanned, (sc, lst), m)"
    by (metis prod.exhaust)
  obtain n sb where vs: "visit k_rset_collect ?es (ap_script s, k_buf_zero) = (n, sb)" by (metis prod.exhaust)
  have "sorted_wrt (<) (keys (root (ap_tree s)))" using inv_parts(3)[OF assms(2)] by (simp add: tree_ok_def)
  note L = scan_law[OF sn this, unfolded ordered_def if_True vs case_prod_conv]
  let ?s = "s\<lparr>ap_mem := m, ap_script := sc\<rparr>" let ?b = "\<lambda>m f. rset_loop v m f (k_reader_init (buf_data lst)) 0"
  have ok: "store_ok ?s" using heap_inv[OF L[THEN conjunct1] assms(2)] by simp
  have room: "\<not> (scanned = -1 \<or> buf_err lst) \<and> sc = [] \<and> mem_script m = []" if r: "roomy s"
  proof -
    have s: "scanned = of_nat n" "sb = (sc, lst)" using L r by (auto simp: roomy_def)
    have z: "holds (ap_script s, k_buf_zero) []" using r by (simp add: roomy_def holds_def k_buf_zero_def buf_wf_def)
    have "sum_list (map (\<lambda>x. 4 + length (fst x)) ?es) \<le> sum_list (map (\<lambda>x. 4 + length (fst x)) (entries (root (ap_tree s))))"
      by (rule sum_list_filter_le_nat)
    then have "fst sb = [] \<and> \<not> buf_err (snd sb)" using collect_room[OF vs z] r by (simp add: roomy_def)
    moreover have "n < 2 ^ 64 - 1" using visit_bound[OF vs] hits_few[of s "2 ^ 64 - 1" b e] r by (simp add: roomy_def)
    ultimately show ?thesis using s small_count[of n] scan_script[OF sn] r by (simp add: roomy_def)
  qed
  have "applied_as s cookie ?c rc s' \<and> (roomy s \<longrightarrow> rc = 0)"
  proof (cases "scanned = -1 \<or> buf_err lst")
    case True
    then have "rc = -1" "s' = ?s" using o sn by (auto simp: overwrite_range_def Let_def)
    then show ?thesis using ok room True by (auto simp: applied_as_def store_step_def)
  next
    case False
    then have s: "sb = (sc, lst)" using L by auto
    have d: "buf_data lst = concat (map block (map fst ?es))"
      using collect_law[OF vs] False s by (simp add: k_buf_zero_def buf_wf_def comp_def)
    have u: "(case in_txn ?s ?b of (None, s) \<Rightarrow> (-1, s) | (Some n, s) \<Rightarrow> answer s cookie None (Some (dec_bytes n))) = (rc, s')"
      using o sn False by (simp add: overwrite_range_def Let_def)
    have g: "(\<lambda>k. if k \<in> set (map fst ?es) then Some v else contents s k) = write_effect (contents s) ?c"
      unfolding hits_facts(1)[OF assms(2)] by (auto simp: dom_def)
    have law: "loop_law m1 r m' f' (length ?es) (write_effect (contents ?s) ?c)"
      if "txn_inv m1 (ap_tree ?s) f" "store_map f = contents ?s" "?b m1 f = (r, m', f')" for m1 f r m' f'
    proof -
      have "store_map f = contents s" using that(2) by simp
      then have "loop_law m1 r m' f' (length ?es) (write_effect (contents s) ?c)"
        using rset_wire[OF that(3)[unfolded d rdr_init] that(1) hits_facts(3)[OF assms(2)]] g by (simp only: length_map add_0)
      then show ?thesis by simp
    qed
    note E = txn_answered[OF u ok loops_keep(3) law]
    have "applied_as ?s cookie ?c rc s'" by (rule E(1)) (simp_all add: hits_facts(2)[OF assms(2)])
    then have "applied_as s cookie ?c rc s'" by (simp add: applied_as_def store_step_def answered_def)
    moreover have d: "length (dec_bytes (length ?es)) \<le> 0xffffffff" if "roomy s" using hits_few[of s "2 ^ 64" b e] that by (simp add: few_digits roomy_def)
    have "rc = 0" if "roomy s" by (rule E(2)) (use d[OF that] room[OF that] in \<open>simp_all add: hits_facts(2)[OF assms(2)]\<close>)
    ultimately show ?thesis by blast
  qed
  then show "applied_as s cookie ?c rc s'" "roomy s \<Longrightarrow> rc = 0" by blast+
qed

text \<open>The effect of a write that succeeded does not depend on the size of the store.\<close>

lemma rdel_contents:
  assumes "k_server_apply_command s (write_wire (WRdel b e)) cookie = (0, s')" "store_ok s" "write_ok (WRdel b e)"
  shows "store_ok s' \<and> store_step s s' \<and> contents s' = write_effect (contents s) (WRdel b e)"
proof -
  obtain n t m where d: "treap_delete_range (ap_mem s) (ap_tree s) b e = (n, t, m)" by (metis prod_cases3)
  let ?s = "s\<lparr>ap_mem := m, ap_tree := t\<rparr>"
  have n: "n \<noteq> -1" and an: "answer ?s cookie None (Some (dec_bytes (unat n))) = (0, s')"
    using assms(1,3) d by (auto simp: dispatch apply_rdel_def Let_def split: if_splits)
  have "store_map t = write_effect (contents s) (WRdel b e)"
    using delete_range_tree[OF d n inv_parts(3)[OF assms(2)]] by (simp add: store_map_def map_of_outside)
  then show ?thesis using answer_law(1)[OF an] delete_range_inv[OF assms(2) d n] by (auto simp: same_tree_def store_step_def)
qed

lemma write_contents:
  assumes "k_server_apply_command s (write_wire c) cookie = (0, s')" "store_ok s" "write_ok c"
  shows "store_ok s' \<and> store_step s s' \<and> contents s' = write_effect (contents s) c"
proof -
  have "applied_as s cookie c 0 s'" if other: "\<forall>b e. c \<noteq> WRdel b e"
  proof (cases c)
    case (WSet k v)
    then show ?thesis using single_effect(1)[OF assms] by blast
  next
    case (WDel k)
    then show ?thesis using single_effect(1)[OF assms] by blast
  next
    case (WRdel b e)
    then show ?thesis using other by blast
  next
    case (WMset kvs)
    show ?thesis using mset_effect(1)[OF assms(1)[unfolded WMset] assms(2) assms(3)[unfolded WMset]] WMset by simp
  next
    case (WMdel ks)
    show ?thesis using mdel_effect(1)[OF assms(1)[unfolded WMdel] assms(2) assms(3)[unfolded WMdel]] WMdel by simp
  next
    case (WRset b e v)
    show ?thesis using rset_effect(1)[OF assms(1)[unfolded WRset] assms(2) assms(3)[unfolded WRset]] WRset by simp
  next
    case (WCas k v old)
    show ?thesis using cas_effect(1)[OF assms(1)[unfolded WCas] assms(2) assms(3)[unfolded WCas]] WCas by simp
  next
    case (WExec cs)
    show ?thesis using exec_effect(1)[OF assms(1)[unfolded WExec] assms(2) assms(3)[unfolded WExec]] WExec by simp
  qed
  moreover have "applied_as s cookie c 0 s' \<Longrightarrow> ?thesis" by (simp add: applied_as_def)
  ultimately show ?thesis using rdel_contents[of s _ _ cookie s'] assms by blast
qed

lemma write_effect_law:
  assumes "k_server_apply_command s (write_wire c) cookie = (rc, s')" "store_ok s" "write_ok c" "length (entries (root (ap_tree s))) < 2 ^ 64 - 1"
  shows "applied_as s cookie c rc s' \<and> (roomy s \<longrightarrow> rc = 0)"
proof (cases c)
  case (WSet k v)
  then show ?thesis using single_effect[OF assms(1-3)] by blast
next
  case (WDel k)
  then show ?thesis using single_effect[OF assms(1-3)] by blast
next
  case (WMset kvs)
  then show ?thesis using mset_effect assms by blast
next
  case (WMdel ks)
  then show ?thesis using mdel_effect assms by blast
next
  case (WRset b e v)
  then show ?thesis using rset_effect assms by blast
next
  case (WRdel b e)
  then show ?thesis using rdel_effect assms by blast
next
  case (WCas k v old)
  then show ?thesis using cas_effect assms by blast
next
  case (WExec cs)
  then show ?thesis using exec_effect assms by (auto simp: roomy_def)
qed

end
