(* ===== verification/Server_Replica.thy ===== *)
theory Server_Replica
  imports Server_Effect
begin

section \<open>Replicas\<close>

text \<open>
  The apply loop of \<^verbatim>\<open>k_server_process_bundle_live\<close>, and the properties of applied commands: what
  the server submits is what every replica applies, and replicas that apply the same entries agree on the
  contents, the address book and the members.
\<close>

subsection \<open>The apply loop\<close>

text \<open>An entry of a Ready bundle: a configuration with its id lists, or a command with the cookie of its request.\<close>

datatype k_ready_apply = ApplyConfig int "nat list" "nat list" "nat list" | ApplyCommand int bytes "nat option"

fun apply_index :: "k_ready_apply \<Rightarrow> int" where
  "apply_index (ApplyConfig i old_ids new_ids learner_ids) = i"
| "apply_index (ApplyCommand i command cookie) = i"

text \<open>A command that fails makes the server fail-stop, but the loop goes on; an empty command is skipped.\<close>

fun apply_entry :: "k_ready_apply \<Rightarrow> k_applied \<times> bool \<Rightarrow> k_applied \<times> bool" where
  "apply_entry (ApplyConfig i old_ids new_ids learner_ids) (s, fatal) = (k_membership_update s old_ids new_ids learner_ids, fatal)"
| "apply_entry (ApplyCommand i command cookie) (s, fatal) =
     (if command = [] then (s, fatal)
      else case k_server_apply_command s command cookie of (rc, s') \<Rightarrow> (s', fatal \<or> rc \<noteq> 0))"

definition apply_entries :: "k_ready_apply list \<Rightarrow> k_applied \<times> bool \<Rightarrow> int \<Rightarrow> (k_applied \<times> bool) \<times> int" where
  "apply_entries es s applied = (fold apply_entry es s, if es = [] then applied else apply_index (last es))"

subsection \<open>Agreement\<close>

definition agree :: "k_applied \<Rightarrow> k_applied \<Rightarrow> bool" where
  "agree s t \<longleftrightarrow> contents s = contents t \<and> ap_cluster s = ap_cluster t \<and> ap_voters s = ap_voters t
     \<and> ap_learners s = ap_learners t \<and> ap_pending s = ap_pending t"

lemma graduate_pending: "fst (graduate d i p src) = fst (graduate d i p src')"
proof (induction d i p src arbitrary: src' rule: graduate.induct)
  case (1 d i p src)
  show ?case
  proof (cases "i < length p")
    case True
    then show ?thesis using 1 by (cases "d (p ! i)") (simp_all add: graduate.simps[of d i p])
  next
    case False
    then show ?thesis by (simp add: graduate.simps[of d i p])
  qed
qed

lemma membership_agree: "agree s t \<Longrightarrow> agree (k_membership_update s old new ls) (k_membership_update t old new ls)"
  using graduate_pending[of _ 0 "ap_pending s" "ap_source s" "ap_source t"]
  by (auto simp: agree_def k_membership_update_def case_prod_beta Let_def)

lemma membership_keeps [simp]:
  "ap_mem (k_membership_update s old new ls) = ap_mem s" "ap_tree (k_membership_update s old new ls) = ap_tree s"
  by (simp_all add: k_membership_update_def case_prod_beta Let_def)

lemma pending_agree: "agree s t \<Longrightarrow> agree (add_pending s i) (add_pending t i)"
  by (auto simp: agree_def add_pending_def k_membership_contains_def)

lemma addr_loop_agree:
  "addr_loop n s r = (rc, s') \<Longrightarrow> addr_loop n t r = (rc', t') \<Longrightarrow> agree s t \<Longrightarrow> agree s' t'"
proof (induction n arbitrary: s t r)
  case (Suc n)
  obtain w r1 where 1: "k_reader_i32 r = (w, r1)" by fastforce
  obtain hl r2 where 2: "rd_u32 r1 = (hl, r2)" by fastforce
  obtain host r3 where 3: "k_reader_bytes r2 hl = (host, r3)" by fastforce
  obtain cp r4 where 4: "k_reader_u16 r3 = (cp, r4)" by fastforce
  obtain pp r5 where 5: "k_reader_u16 r4 = (pp, r5)" by fastforce
  have c: "ap_cluster t = ap_cluster s" using Suc.prems(3) by (simp add: agree_def)
  show ?case
  proof (cases "hl < 1 \<or> hl \<ge> K_HOST_MAX \<or> rd_err r5 \<or> k_server_add_address (ap_cluster s) (sint w) (key_of host) cp pp = None")
    case True
    then show ?thesis using Suc.prems 1 2 3 4 5 c by (auto split: if_splits)
  next
    case False
    then obtain c' where c': "k_server_add_address (ap_cluster s) (sint w) (key_of host) cp pp = Some c'" by blast
    let ?f = "\<lambda>s. add_pending (s\<lparr>ap_cluster := c'\<rparr>) (nat (sint w))"
    have "addr_loop n (?f s) r5 = (rc, s')" "addr_loop n (?f t) r5 = (rc', t')" using Suc.prems(1,2) 1 2 3 4 5 c c' False by simp_all
    moreover have "agree (s\<lparr>ap_cluster := c'\<rparr>) (t\<lparr>ap_cluster := c'\<rparr>)" using Suc.prems(3) by (simp add: agree_def)
    ultimately show ?thesis using Suc.IH pending_agree by blast
  qed
qed auto

text \<open>The entries a server submits: writes, address commands with any content, and configurations.\<close>

datatype log_item = LWrite kv_write | LAddr bytes | LConfig "nat list" "nat list" "nat list"

fun log_ok :: "log_item \<Rightarrow> bool" where
  "log_ok (LWrite c) \<longleftrightarrow> write_ok c"
| "log_ok _ \<longleftrightarrow> True"

text \<open>The entry of an item on one server: the index is common, the cookie is that of the server.\<close>

fun item_entry :: "log_item \<Rightarrow> int \<Rightarrow> nat option \<Rightarrow> k_ready_apply" where
  "item_entry (LWrite c) i cookie = ApplyCommand i (write_wire c) cookie"
| "item_entry (LAddr d) i cookie = ApplyCommand i (k_write_u8 K_OP_ADDR @ d) cookie"
| "item_entry (LConfig old new ls) i cookie = ApplyConfig i old new ls"

fun item_effect :: "(bytes \<rightharpoonup> bytes) \<Rightarrow> log_item \<Rightarrow> (bytes \<rightharpoonup> bytes)" where
  "item_effect f (LWrite c) = write_effect f c"
| "item_effect f _ = f"

lemma write_wire_nonempty: "write_wire c \<noteq> []"
  by (cases c) simp_all

lemma fatal_stays: "snd st \<Longrightarrow> snd (apply_entry x st)"
  by (cases x; cases st) (auto split: prod.splits)

lemma fatal_fold: "snd st \<Longrightarrow> snd (fold apply_entry xs st)"
proof (induction xs arbitrary: st)
  case (Cons x xs)
  show ?case using Cons.IH[OF fatal_stays[OF Cons.prems]] by simp
qed simp

lemma entry_effect:
  assumes "apply_entry (item_entry x i ck) (s, False) = (s', False)" "store_ok s" "log_ok x"
  shows "store_ok s' \<and> contents s' = item_effect (contents s) x"
proof (cases x)
  case (LWrite c)
  then have "k_server_apply_command s (write_wire c) ck = (0, s')" using assms(1) write_wire_nonempty[of c] by (auto split: prod.splits)
  then show ?thesis using write_contents[of s c ck s'] assms(2,3) LWrite by simp
next
  case (LAddr d)
  then have "apply_addr s (rdr (k_write_u8 K_OP_ADDR) d) = (0, s')" using assms(1) by (auto simp: dispatch split: prod.splits)
  then show ?thesis using addr_loop_keeps LAddr assms(2) by (fastforce simp: apply_addr_def split: prod.splits if_splits)
next
  case (LConfig old new ls)
  then show ?thesis using assms by auto
qed

lemma entry_agree:
  assumes "apply_entry (item_entry x i ck) (s, False) = (s', False)" "apply_entry (item_entry x i ck') (t, False) = (t', False)"
    "store_ok s" "store_ok t" "log_ok x" "agree s t"
  shows "agree s' t'"
proof (cases x)
  case (LWrite c)
  then have "k_server_apply_command s (write_wire c) ck = (0, s')" "k_server_apply_command t (write_wire c) ck' = (0, t')"
    using assms(1,2) write_wire_nonempty[of c] by (auto split: prod.splits)
  then show ?thesis using write_contents[of s c ck s'] write_contents[of t c ck' t'] assms(3-6) LWrite by (simp add: agree_def store_step_def)
next
  case (LAddr d)
  then have "apply_addr s (rdr (k_write_u8 K_OP_ADDR) d) = (0, s')" "apply_addr t (rdr (k_write_u8 K_OP_ADDR) d) = (0, t')"
    using assms(1,2) by (auto simp: dispatch split: prod.splits)
  then show ?thesis using addr_loop_agree[OF _ _ assms(6)] by (auto simp: apply_addr_def split: prod.splits if_splits)
next
  case (LConfig old new ls)
  then show ?thesis using assms(1,2) membership_agree[OF assms(6)] by auto
qed

text \<open>The entries of a log from an index on, with the cookies of one server.\<close>

definition log_entries :: "nat \<Rightarrow> log_item list \<Rightarrow> (nat \<Rightarrow> nat option) \<Rightarrow> k_ready_apply list" where
  "log_entries k items ck = map (\<lambda>(i, x). item_entry x (int i) (ck i)) (enumerate k items)"

lemma log_agree:
  assumes "fold apply_entry (log_entries k items ca) (s, False) = (s', False)" "fold apply_entry (log_entries k items cb) (t, False) = (t', False)"
    "list_all log_ok items" "store_ok s" "store_ok t" "agree s t"
  shows "agree s' t' \<and> store_ok s' \<and> store_ok t' \<and> contents s' = foldl item_effect (contents s) items"
  using assms
proof (induction items arbitrary: k s t)
  case (Cons x items)
  let ?e = "\<lambda>c. item_entry x (int k) (c k)"
  obtain s1 fs where 1: "apply_entry (?e ca) (s, False) = (s1, fs)" by fastforce
  obtain t1 ft where 2: "apply_entry (?e cb) (t, False) = (t1, ft)" by fastforce
  have r: "fold apply_entry (log_entries (Suc k) items ca) (s1, fs) = (s', False)" "fold apply_entry (log_entries (Suc k) items cb) (t1, ft) = (t', False)"
    using Cons.prems(1,2) 1 2 by (simp_all add: log_entries_def)
  have nf: "\<not> fs" "\<not> ft" using fatal_fold[of "(s1, fs)" "log_entries (Suc k) items ca"] fatal_fold[of "(t1, ft)" "log_entries (Suc k) items cb"] r by auto
  have ok: "log_ok x" "list_all log_ok items" using Cons.prems(3) by simp_all
  have e: "apply_entry (?e ca) (s, False) = (s1, False)" "apply_entry (?e cb) (t, False) = (t1, False)" using 1 2 nf by simp_all
  note E1 = entry_effect[OF e(1) Cons.prems(4) ok(1)] and E2 = entry_effect[OF e(2) Cons.prems(5) ok(1)]
  show ?case using Cons.IH[of "Suc k" s1 t1] r nf ok(2) E1 E2 entry_agree[OF e Cons.prems(4,5) ok(1) Cons.prems(6)] by simp
qed (simp add: log_entries_def)

subsection \<open>Building commands\<close>

text \<open>The request a client sends for a write: its type, its key part and its value part.\<close>

fun request_parts :: "kv_write \<Rightarrow> (u8 \<times> bytes \<times> bytes) option" where
  "request_parts (WSet k v) = Some (K_REQ_SET, k, v)"
| "request_parts (WDel k) = Some (K_REQ_DEL, k, [])"
| "request_parts (WMset kvs) = Some (K_REQ_MSET, k_write_u32 (of_nat (length kvs)) @ concat (map (\<lambda>(k, v). block k @ block v) kvs), [])"
| "request_parts (WMdel ks) = Some (K_REQ_MDEL, k_write_u32 (of_nat (length ks)) @ concat (map block ks), [])"
| "request_parts (WRset b e v) = Some (K_REQ_RSET, block b @ block e, v)"
| "request_parts (WRdel b e) = Some (K_REQ_RDEL, b, e)"
| "request_parts (WCas k v old) = Some (K_REQ_CAS, k, cas_packed v old)"
| "request_parts (WExec cs) = None"

lemma build_fields:
  assumes "request_parts c = Some (ty, key, v)"
  shows "\<exists>fs. k_server_build_write_command sb ty key v =
      (let sb = put_fields sb fs in (\<not> (buf_err (snd sb) \<or> length (buf_data (snd sb)) > K_RAFT_COMMAND_MAX), sb))
    \<and> concat (map wire fs) = write_wire c"
  unfolding k_server_build_write_command_def Let_def
  by (intro exI conjI, rule refl) (use assms in \<open>cases c; auto simp: block_def\<close>)

subsection \<open>The properties\<close>

text \<open>A server with two keys in its store and one request that waits.\<close>

definition sample_server :: k_applied where
  "sample_server = \<lparr>ap_mem = sample_mem, ap_tree = sample_store, ap_script = [], ap_cluster = [], ap_voters = [1], ap_learners = [],
     ap_pending = [], ap_source = [], ap_since = [0, 0, 0], ap_refused = [], ap_graduated = 0, ap_elapsed = 9, ap_requests = [7 \<mapsto> \<lparr>an_conflict = False, an_result = k_buf_zero\<rparr>]\<rparr>"

lemma sample_server_facts:
  "store_ok sample_server" "roomy sample_server" "contents sample_server = [[1] \<mapsto> [7, 7], [2, 3] \<mapsto> [8]]" "length (entries (root (ap_tree sample_server))) < 2 ^ 64 - 1"
  "ap_requests sample_server 7 = Some \<lparr>an_conflict = False, an_result = k_buf_zero\<rparr>"
  using sample_facts by (auto simp: sample_server_def roomy_def store_map_def fun_eq_iff)

text \<open>C3. Every write the server submits has, when it is applied, exactly the effect and the answer of the
  abstract write on the map of keys to values, and the store stays sound; or it fails and leaves the contents
  as they were; or only its answer was lost for lack of memory. With memory and a store within the limits of one
  buffer it succeeds. Nothing but the store, its memory and the requests changes.\<close>

theorem apply_refines_write:
  assumes "k_server_apply_command s (write_wire c) cookie = (rc, s')" "store_ok s" "write_ok c" "length (entries (root (ap_tree s))) < 2 ^ 64 - 1"
  shows "store_ok s' \<and> store_step s s'
    \<and> (rc = 0 \<and> contents s' = write_effect (contents s) c \<and> told s cookie c s'
      \<or> rc = -1 \<and> (contents s' = contents s \<or> contents s' = write_effect (contents s) c \<and> answer_lost cookie s'))
    \<and> (roomy s \<longrightarrow> rc = 0)"
  using write_effect_law[OF assms] by (simp add: applied_as_def)

lemma apply_refines_write_witness:
  "\<exists>s' rq. k_server_apply_command sample_server (write_wire (WMdel [[1], [9], [1]])) (Some 7) = (0, s')
    \<and> contents s' = [[2, 3] \<mapsto> [8]] \<and> ap_requests s' 7 = Some rq \<and> buf_data (an_result rq) = dec_bytes 1"
proof -
  let ?c = "WMdel [[1], [9], [1]]"
  obtain rc s' where a: "k_server_apply_command sample_server (write_wire ?c) (Some 7) = (rc, s')" by fastforce
  have ok: "write_ok ?c" by simp
  note R = apply_refines_write[OF a sample_server_facts(1) ok sample_server_facts(4)]
  have i: "set [[1], [9], [1]] \<inter> dom (contents sample_server) = {[1]}" by (auto simp: sample_server_facts(3))
  have e: "contents sample_server |` (- set [[1], [9], [1]]) = [[2, 3] \<mapsto> [8]]" by (auto simp: sample_server_facts(3) restrict_map_def fun_eq_iff)
  have w: "write_effect (contents sample_server) ?c = [[2, 3] \<mapsto> [8]]" "write_answer (contents sample_server) ?c = dec_bytes 1"
    unfolding write_effect.simps write_answer.simps e i by simp_all
  have rc: "rc = 0" using R sample_server_facts(2) by blast
  then have "contents s' = write_effect (contents sample_server) ?c" "told sample_server (Some 7) ?c s'" using R by simp_all
  then have "contents s' = [[2, 3] \<mapsto> [8]]" "answered sample_server (Some 7) None (dec_bytes 1) s'" unfolding told.simps w by blast+
  then show ?thesis using a rc sample_server_facts(5) by (auto simp: answered_def)
qed

text \<open>C17. Whatever bytes a committed command holds, applying it leaves a sound store, and a failure that is not the
  mere loss of an answer leaves the contents as they were.\<close>

theorem apply_any_command:
  assumes "k_server_apply_command s command cookie = (rc, s')" "store_ok s" "length (entries (root (ap_tree s))) < 2 ^ 64 - 1"
  shows "store_ok s' \<and> (rc = 0 \<or> rc = -1 \<and> (contents s' = contents s \<or> answer_lost cookie s'))"
  using apply_out[OF assms] by (simp add: sound_outcome_def)

lemma apply_any_command_witness:
  "\<exists>s'. k_server_apply_command sample_server [K_OP_SET, 1, 2, 3] (Some 7) = (-1, s') \<and> store_ok s' \<and> contents s' = [[1] \<mapsto> [7, 7], [2, 3] \<mapsto> [8]]"
proof -
  have e: "k_server_apply_command sample_server [K_OP_SET, 1, 2, 3] (Some 7) = (-1, sample_server)"
    by (simp add: k_server_apply_command_def k_reader_init_def k_reader_u8_def k_reader_get_def k_reader_need_def k_read_u8_def apply_single_def read_key_def
        rd_u32_def k_reader_u32_def)
  show ?thesis using apply_any_command[OF e sample_server_facts(1,4)] e sample_server_facts(3) by simp
qed

text \<open>C4. Replicas converge: two servers with equal contents, address books and members that apply the same entries
  from any index on, each with cookies of its own and whatever the shapes of their trees and the state of their memory,
  and that do not fail, again agree. The contents are the abstract effects of the writes in log order, both stores are
  sound, and both report the index of the last entry.\<close>

theorem replicas_converge:
  assumes "list_all log_ok items" "store_ok s" "store_ok t" "agree s t"
    "apply_entries (log_entries k items ca) (s, False) a = ((s', False), i)" "apply_entries (log_entries k items cb) (t, False) b = ((t', False), j)"
  shows "agree s' t' \<and> store_ok s' \<and> store_ok t' \<and> contents s' = foldl item_effect (contents s) items
    \<and> (items \<noteq> [] \<longrightarrow> i = int (k + length items - 1) \<and> j = i)"
proof -
  have "apply_index (item_entry x n c) = n" for x n c by (cases x) simp_all
  then have l: "apply_index (last (log_entries k items c)) = int (k + length items - 1)" if "items \<noteq> []" for c
    using that by (cases items) (simp_all add: log_entries_def last_conv_nth nth_enumerate_eq case_prod_beta enumerate_eq_zip nth_append)
  have "log_entries k items c = [] \<longleftrightarrow> items = []" for c by (auto simp: log_entries_def enumerate_eq_zip)
  then show ?thesis using log_agree[of k items ca s s' cb t t'] assms l by (auto simp: apply_entries_def)
qed

lemma replicas_converge_witness:
  "\<exists>s' t'. apply_entries (log_entries 4 [LWrite (WSet [5] [6]), LConfig [1] [1, 2] []] (\<lambda>i. Some 7)) (sample_server, False) 3 = ((s', False), 5)
    \<and> apply_entries (log_entries 4 [LWrite (WSet [5] [6]), LConfig [1] [1, 2] []] (\<lambda>i. None)) (sample_server\<lparr>ap_requests := Map.empty\<rparr>, False) 0 = ((t', False), 5)
    \<and> agree s' t' \<and> contents s' = [[1] \<mapsto> [7, 7], [2, 3] \<mapsto> [8], [5] \<mapsto> [6]]"
proof -
  let ?t = "sample_server\<lparr>ap_requests := Map.empty\<rparr>" let ?w = "WSet [5] [6]" let ?items = "[LWrite ?w, LConfig [1] [1, 2] []]"
  have ok: "write_ok ?w" by simp
  obtain rc s1 where a: "k_server_apply_command sample_server (write_wire ?w) (Some 7) = (rc, s1)" by fastforce
  obtain rd t1 where b: "k_server_apply_command ?t (write_wire ?w) None = (rd, t1)" by fastforce
  have t: "store_ok ?t" "roomy ?t" "length (entries (root (ap_tree ?t))) < 2 ^ 64 - 1" using sample_server_facts by (simp_all add: roomy_def)
  have rc: "rc = 0" using write_effect_law[OF a sample_server_facts(1) ok sample_server_facts(4)] sample_server_facts(2) by blast
  have rd: "rd = 0" using write_effect_law[OF b t(1) ok t(3)] t(2) by blast
  let ?s' = "k_membership_update s1 [1] [1, 2] []" let ?t' = "k_membership_update t1 [1] [1, 2] []"
  have 1: "apply_entries (log_entries 4 ?items (\<lambda>i. Some 7)) (sample_server, False) 3 = ((?s', False), 5)"
    using a rc write_wire_nonempty[of ?w] by (simp add: apply_entries_def log_entries_def del: write_wire.simps)
  have 2: "apply_entries (log_entries 4 ?items (\<lambda>i. None)) (?t, False) 0 = ((?t', False), 5)"
    using b rd write_wire_nonempty[of ?w] by (simp add: apply_entries_def log_entries_def del: write_wire.simps)
  have g: "list_all log_ok ?items" "agree sample_server ?t" by (simp_all add: agree_def)
  note R = replicas_converge[OF g(1) sample_server_facts(1) t(1) g(2) 1 2]
  have "contents ?s' = [[1] \<mapsto> [7, 7], [2, 3] \<mapsto> [8], [5] \<mapsto> [6]]" using R by (simp add: sample_server_facts(3))
  then show ?thesis using 1 2 R by blast
qed

text \<open>A client write becomes the command that the replicas apply: what \<^verbatim>\<open>k_server_build_write_command\<close>
  appends to an empty buffer from the parts of the request is the wire form of the write, within the limit of a Raft
  command; with memory it succeeds for every write within that limit.\<close>

theorem build_write_correct:
  assumes "request_parts c = Some (ty, key, v)" "k_server_build_write_command (sc, k_buf_zero) ty key v = (ok, sb)"
  shows "(ok \<longrightarrow> buf_data (snd sb) = write_wire c \<and> length (write_wire c) \<le> K_RAFT_COMMAND_MAX)
    \<and> (sc = [] \<longrightarrow> (ok \<longleftrightarrow> length (write_wire c) \<le> K_RAFT_COMMAND_MAX) \<or> length (write_wire c) > 0xffffffff)"
proof -
  obtain fs where fs: "sb = put_fields (sc, k_buf_zero) fs" "ok \<longleftrightarrow> \<not> (buf_err (snd sb) \<or> length (buf_data (snd sb)) > K_RAFT_COMMAND_MAX)"
    "concat (map wire fs) = write_wire c" using build_fields[OF assms(1), of "(sc, k_buf_zero)"] assms(2) by (auto simp: Let_def)
  have z: "buf_wf k_buf_zero" "buf_data k_buf_zero = []" "sc = [] \<Longrightarrow> holds (sc, k_buf_zero) []"
    by (simp_all add: k_buf_zero_def buf_wf_def holds_def)
  have a: "\<not> buf_err (snd sb) \<Longrightarrow> buf_data (snd sb) = write_wire c"
    using appends_fields[of "(sc, k_buf_zero)" fs] z fs(1,3) by (simp add: appends_def)
  have "sc = [] \<Longrightarrow> length (write_wire c) \<le> 0xffffffff \<Longrightarrow> \<not> buf_err (snd sb)"
    using holds_fields[OF z(3), of fs] fs(1,3) by (simp add: holds_def)
  then show ?thesis using a fs(2) by auto
qed

lemma build_write_correct_witness:
  "\<exists>sb. k_server_build_write_command ([], k_buf_zero) K_REQ_CAS [1] (cas_packed [2] (Some [3])) = (True, sb)
    \<and> buf_data (snd sb) = write_wire (WCas [1] [2] (Some [3]))"
proof -
  obtain ok sb where b: "k_server_build_write_command ([], k_buf_zero) K_REQ_CAS [1] (cas_packed [2] (Some [3])) = (ok, sb)" by (metis prod.exhaust)
  have "length (write_wire (WCas [1] [2] (Some [3]))) \<le> 100" by (simp add: block_def k_write_u8_def u32c.length_enc)
  then show ?thesis using build_write_correct[of "WCas [1] [2] (Some [3])", OF _ b] b by (auto simp del: write_wire.simps)
qed

lemma graduate_pass:
  "\<forall>x\<in>set q. \<not> d x \<Longrightarrow> graduate d (length p) (p @ q) src = (p @ q, src)"
proof (induction q arbitrary: p)
  case (Cons x q)
  show ?case using Cons.IH[of "p @ [x]"] Cons.prems by (simp add: graduate.simps[of d "length p"])
qed (simp add: graduate.simps)

lemma graduate_skip:
  "\<forall>x\<in>set q. \<not> d x \<Longrightarrow> graduate d (length p) (p @ q @ r) src = graduate d (length (p @ q)) (p @ q @ r) src"
proof (induction q arbitrary: p)
  case (Cons x q)
  have "graduate d (length p) (p @ (x # q) @ r) src = graduate d (length (p @ [x])) ((p @ [x]) @ q @ r) src"
    using Cons.prems by (simp add: graduate.simps[of d "length p"])
  then show ?case using Cons.IH[of "p @ [x]"] Cons.prems by simp
qed simp

text \<open>When one of several pending nodes graduates, the last pending node takes its place in the list, but the
  list of time stamps is not changed: the age that is then reported for that node counts from the time at which the
  graduated node was added.\<close>

theorem graduation_keeps_stamp:
  assumes "ap_pending s = p @ [i] @ q @ [j]" "i \<in> set new_ids" "length new_ids \<le> K_MAX_NODES"
    "\<forall>x\<in>set (p @ q @ [j]). x \<notin> set new_ids \<and> x \<notin> set learner_ids"
  shows "ap_pending (k_membership_update s [] new_ids learner_ids) = p @ [j] @ q
    \<and> ap_since (k_membership_update s [] new_ids learner_ids) ! length p = ap_since s ! length p"
proof -
  let ?v = "collect_voters [] new_ids"
  let ?d = "\<lambda>i. k_membership_has ?v i \<or> k_membership_has learner_ids i"
  have v: "length acc + length ids \<le> K_MAX_NODES \<Longrightarrow> set (collect_voters acc ids) = set acc \<union> set ids" for acc ids
    by (induction ids arbitrary: acc) (auto simp: k_membership_has_def)
  have d: "?d i" "\<forall>x\<in>set (p @ q @ [j]). \<not> ?d x"
    using assms(2-4) v[of "[]" new_ids] by (auto simp: k_membership_has_def)
  have "graduate ?d 0 (p @ [i] @ q @ [j]) src = graduate ?d (length p) (p @ [i] @ q @ [j]) src" for src
    using graduate_skip[of p ?d "[]" "[i] @ q @ [j]" src] d(2) by simp
  also have "\<dots> src = graduate ?d (length p) (p @ [j] @ q) (butlast (src[length p := last src]))" for src
    using d(1) by (subst graduate.simps) (simp add: butlast_append)
  also have "\<dots> src = (p @ [j] @ q, butlast (src[length p := last src]))" for src
    using graduate_pass[of "[j] @ q" ?d p] d(2) by simp
  finally have g: "graduate ?d 0 (p @ [i] @ q @ [j]) src = (p @ [j] @ q, butlast (src[length p := last src]))" for src .
  show ?thesis using g[of "ap_source s"] assms(1) by (simp add: k_membership_update_def Let_def)
qed

lemma graduation_keeps_stamp_witness:
  "let s = sample_server\<lparr>ap_pending := [2, 3], ap_source := [1, 1], ap_since := [10, 500, 0]\<rparr>; s' = k_membership_update s [] [1, 2] []
    in ap_pending s' = [3] \<and> ap_since s' ! 0 = 10"
  using graduation_keeps_stamp[of "sample_server\<lparr>ap_pending := [2, 3], ap_source := [1, 1], ap_since := [10, 500, 0]\<rparr>" "[]" 2 "[]" 3 "[1, 2]" "[]"]
  by simp

end
