(* ===== verification/Server_Exec.thy ===== *)
theory Server_Exec
  imports Server_Replica
begin

section \<open>Custom commands\<close>

text \<open>
  The function calls of \<^verbatim>\<open>src/code/kserver.h\<close>: the command registry, the context a command runs in, the
  built-in \<^verbatim>\<open>transfer\<close> and \<^verbatim>\<open>k_server_exec_cmd\<close> up to the entry it submits. A command runs once on the
  leader, on a fork that is thrown away; what is replicated is the write set it recorded. A locale states
  what a command must do for the replay to have its effect, and it is interpreted on \<^verbatim>\<open>transfer\<close>.
\<close>

subsection \<open>Numbers\<close>

definition digit_of :: "u8 \<Rightarrow> nat option" where
  "digit_of c = (if 48 \<le> c \<and> c \<le> 57 then Some (unat c - 48)
     else if 97 \<le> c \<and> c \<le> 122 then Some (unat c - 97 + 10)
     else if 65 \<le> c \<and> c \<le> 90 then Some (unat c - 65 + 10) else None)"

text \<open>The digit loop: the value, whether there was a digit, whether it overflowed, and the rest of the text.\<close>

fun num_loop :: "nat \<Rightarrow> bytes \<Rightarrow> u64 \<Rightarrow> bool \<Rightarrow> bool \<Rightarrow> u64 \<times> bool \<times> bool \<times> bytes" where
  "num_loop base [] v any overflow = (v, any, overflow, [])"
| "num_loop base (c # cs) v any overflow =
     (case digit_of c of None \<Rightarrow> (v, any, overflow, c # cs)
      | Some d \<Rightarrow>
          if d \<ge> base then (v, any, overflow, c # cs)
          else if v > (-1) div of_nat base \<or> v = (-1) div of_nat base \<and> of_nat d > (-1 :: u64) mod of_nat base
          then num_loop base cs v True True
          else num_loop base cs (v * of_nat base + of_nat d) True overflow)"

definition hex_mark :: "bytes \<Rightarrow> bool" where
  "hex_mark p \<longleftrightarrow> (case p of c # q \<Rightarrow> c = 120 \<or> c = 88 | [] \<Rightarrow> False)"

text \<open>The text is a C string without its terminator; the second component is where the number ends.\<close>

definition k_strtou64 :: "bytes \<Rightarrow> int \<Rightarrow> u64 \<times> bytes" where
  "k_strtou64 s base =
     (let p = dropWhile (\<lambda>c. List.member [32, 9, 10, 13, 12, 11] c) s;
          (neg, p) = (case p of c # q \<Rightarrow> if c = 43 then (False, q) else if c = 45 then (True, q) else (False, p) | [] \<Rightarrow> (False, p))
      in if base < 0 \<or> base = 1 \<or> base > 36 then (0, s)
         else let (base, p) =
             (if base = 0 then (case p of c # q \<Rightarrow> if c = 48 then if hex_mark q then (16, tl q) else (8, q) else (10, p) | [] \<Rightarrow> (10, p))
              else if base = 16 \<and> (case p of c # q \<Rightarrow> c = 48 \<and> hex_mark q | [] \<Rightarrow> False) then (base, drop 2 p) else (base, p));
           (v, any, overflow, rest) = num_loop (nat base) p 0 False False
         in if overflow then (-1, rest) else if \<not> any then (0, s) else (if neg then - v else v, rest))"

abbreviation c_string :: "bytes \<Rightarrow> bytes" where "c_string d \<equiv> takeWhile (\<lambda>b. b \<noteq> 0) d"

text \<open>The number a stored text stands for.\<close>

definition amount_of :: "bytes \<Rightarrow> u64" where
  "amount_of d = fst (k_strtou64 (c_string d) 10)"

subsection \<open>The context of a command\<close>

record k_cmd_ctx =
  cx_mem :: treap_mem
  cx_txn :: treap
  cx_script :: script
  cx_writes :: k_buf
  cx_result :: k_buf
  cx_args :: bytes
  cx_count :: u32

type_synonym k_cmd_fn = "k_cmd_ctx \<Rightarrow> int \<times> k_cmd_ctx"
type_synonym k_cmd = "bytes \<times> k_cmd_fn"

definition k_cmd_find :: "k_cmd list \<Rightarrow> bytes \<Rightarrow> k_cmd_fn option" where
  "k_cmd_find regs name = map_option snd (find (\<lambda>r. fst r = name) regs)"

definition k_cmd_register :: "script \<Rightarrow> k_cmd list \<Rightarrow> bytes \<Rightarrow> k_cmd_fn \<Rightarrow> int \<times> script \<times> k_cmd list" where
  "k_cmd_register sc regs name fn =
     (if k_cmd_find regs name \<noteq> None then (0, sc, regs)
      else case alloc sc of (ok, sc) \<Rightarrow> if \<not> ok then (-1, sc, regs) else (0, sc, (name, fn) # regs))"

definition k_cmd_get :: "k_cmd_ctx \<Rightarrow> bytes \<Rightarrow> int \<times> bytes" where
  "k_cmd_get c key = treap_get (cx_txn c) key"

definition k_cmd_put :: "k_cmd_ctx \<Rightarrow> bytes \<Rightarrow> bytes \<Rightarrow> int \<times> k_cmd_ctx" where
  "k_cmd_put c key v =
     (if key = [] \<or> length key > K_KEY_MAX \<or> length v > K_VALUE_MAX then (-1, c)
      else case treap_set (cx_mem c) (cx_txn c) key v of (rc, t, m) \<Rightarrow>
        let c = c\<lparr>cx_mem := m, cx_txn := t\<rparr>
        in if rc < 0 then (rc, c)
           else case put_fields (cx_script c, cx_writes c) [FU8 K_OP_SET, FU32 (of_nat (length key)), FBytes key, FU32 (of_nat (length v)), FBytes v] of
             (sc, w) \<Rightarrow> (0, c\<lparr>cx_script := sc, cx_writes := w, cx_count := cx_count c + 1\<rparr>))"

text \<open>The three arguments of \<^verbatim>\<open>transfer\<close>.\<close>

definition transfer_args :: "bytes \<Rightarrow> (bytes \<times> bytes \<times> bytes) option" where
  "transfer_args args =
     (if length args < 12 then None
      else case read_key (k_reader_init args) of None \<Rightarrow> None | Some (from, r) \<Rightarrow>
        (case read_key r of None \<Rightarrow> None | Some (to, r) \<Rightarrow>
        (case rd_u32 r of (n, r) \<Rightarrow>
           if n = 0 \<or> n \<ge> 32 then None
           else case k_reader_bytes r n of (amt, r) \<Rightarrow> if rd_end r then Some (key_of from, key_of to, key_of amt) else None)))"

definition k_cmd_transfer :: k_cmd_fn where
  "k_cmd_transfer c =
     (case transfer_args (cx_args c) of None \<Rightarrow> (-1, c)
      | Some (from, to, amt) \<Rightarrow>
          let amount = amount_of amt; (fe, fv) = k_cmd_get c from
          in if fe \<noteq> 1 \<or> length fv \<ge> 32 then (-1, c)
             else let fval = amount_of fv; (te, tv) = k_cmd_get c to
               in if te \<noteq> 1 \<or> length tv \<ge> 32 then (-1, c)
                  else let tval = amount_of tv
                    in if fval < amount \<or> tval > (-1) - amount then (-1, c)
                       else case k_cmd_put c from (dec_bytes (unat (fval - amount))) of (rc, c) \<Rightarrow>
                         if rc \<noteq> 0 then (-1, c)
                         else case k_cmd_put c to (dec_bytes (unat (tval + amount))) of (rc, c) \<Rightarrow>
                           if rc \<noteq> 0 then (-1, c)
                           else case k_buf_bytes (cx_script c) (cx_result c) [111, 107] of (sc, b) \<Rightarrow>
                             (if buf_err b then -1 else 0, c\<lparr>cx_script := sc, cx_result := b\<rparr>))"

subsection \<open>Running a command on the leader\<close>

text \<open>What becomes of the request: an error message, or the entry to submit with the result to return later.\<close>

datatype k_exec = ExecError string | ExecEntry bytes k_buf

definition run_command :: "k_cmd_fn \<Rightarrow> k_applied \<Rightarrow> bytes \<Rightarrow> k_exec \<times> k_applied" where
  "run_command fn s args =
     (case treap_fork (ap_mem s) (ap_tree s) of (None, m) \<Rightarrow> (ExecError ''out of memory'', s\<lparr>ap_mem := m\<rparr>)
      | (Some f, m) \<Rightarrow>
          (case fn \<lparr>cx_mem = m, cx_txn = f, cx_script = ap_script s, cx_writes = k_buf_zero, cx_result = k_buf_zero, cx_args = args, cx_count = 0\<rparr> of (rc, c) \<Rightarrow>
             let done = s\<lparr>ap_mem := treap_abort (cx_mem c) (cx_txn c), ap_script := cx_script c\<rparr>
             in if rc \<noteq> 0 \<or> buf_err (cx_writes c) \<or> buf_err (cx_result c) then (ExecError ''command failed'', done)
                else case put_fields (cx_script c, k_buf_zero) [FU8 K_OP_FCALL, FBytes (buf_data (cx_writes c))] of (sc, entry) \<Rightarrow>
                  (if buf_err entry \<or> length (buf_data entry) > K_RAFT_COMMAND_MAX then ExecError ''out of memory''
                   else ExecEntry (buf_data entry) (cx_result c), done\<lparr>ap_script := sc\<rparr>)))"

definition k_server_exec_cmd :: "k_cmd list \<Rightarrow> k_applied \<Rightarrow> bytes \<Rightarrow> bytes \<Rightarrow> k_exec \<times> k_applied" where
  "k_server_exec_cmd regs s name args =
     (case k_cmd_find regs name of None \<Rightarrow> (ExecError ''unknown command'', s) | Some fn \<Rightarrow> run_command fn s args)"

subsection \<open>Commands that record what they do\<close>

text \<open>The write set of a command that succeeded is the wire form of updates whose effect its fork shows.\<close>

definition recorded :: "treap \<Rightarrow> kv_cmd list \<Rightarrow> int \<Rightarrow> k_cmd_ctx \<Rightarrow> k_cmd_ctx \<Rightarrow> bool" where
  "recorded t ws rc c c' \<longleftrightarrow> (txn_inv (cx_mem c) t (cx_txn c) \<and> buf_wf (cx_writes c) \<longrightarrow>
     txn_inv (cx_mem c') t (cx_txn c') \<and> buf_wf (cx_writes c') \<and> (buf_err (cx_writes c) \<longrightarrow> buf_err (cx_writes c'))
     \<and> (rc = 0 \<and> \<not> buf_err (cx_writes c') \<longrightarrow> list_all cmd_ok ws \<and> buf_data (cx_writes c') = buf_data (cx_writes c) @ concat (map cmd_wire ws)
         \<and> store_map (cx_txn c') = foldl cmd_effect (store_map (cx_txn c)) ws))"

lemma recorded_fail: "rc \<noteq> 0 \<Longrightarrow> recorded t ws rc c c"
  by (simp add: recorded_def)

lemma recorded_trans: "recorded t ws 0 c c1 \<Longrightarrow> recorded t ws' rc c1 c2 \<Longrightarrow> recorded t (ws @ ws') rc c c2"
  by (auto simp: recorded_def)

lemma recorded_failed: "recorded t ws rc c c1 \<Longrightarrow> rc' \<noteq> 0 \<Longrightarrow> recorded t ws' rc' c c1"
  by (auto simp: recorded_def)

lemma put_recorded: "k_cmd_put c key v = (rc, c') \<Longrightarrow> recorded t [Set key v] rc c c'"
proof (cases "key = [] \<or> length key > K_KEY_MAX \<or> length v > K_VALUE_MAX")
  case True
  moreover assume "k_cmd_put c key v = (rc, c')"
  ultimately show ?thesis by (auto simp: k_cmd_put_def intro: recorded_fail)
next
  case False
  assume p: "k_cmd_put c key v = (rc, c')"
  obtain rc1 t1 m1 where st: "treap_set (cx_mem c) (cx_txn c) key v = (rc1, t1, m1)" by (metis prod_cases3)
  let ?fs = "[FU8 K_OP_SET, FU32 (of_nat (length key)), FBytes key, FU32 (of_nat (length v)), FBytes v]"
  obtain sc w where pf: "put_fields (cx_script c, cx_writes c) ?fs = (sc, w)" by (metis prod.exhaust)
  have a: "appends (cx_script c, cx_writes c) (cmd_wire (Set key v)) (sc, w)" using appends_fields[of "(cx_script c, cx_writes c)" ?fs] pf by (simp add: block_def)
  show ?thesis unfolding recorded_def
  proof (intro impI, elim conjE)
    assume i: "txn_inv (cx_mem c) t (cx_txn c)" "buf_wf (cx_writes c)"
    note S = set_step(1,2)[OF i(1) st]
    show "txn_inv (cx_mem c') t (cx_txn c') \<and> buf_wf (cx_writes c') \<and> (buf_err (cx_writes c) \<longrightarrow> buf_err (cx_writes c'))
     \<and> (rc = 0 \<and> \<not> buf_err (cx_writes c') \<longrightarrow> list_all cmd_ok [Set key v] \<and> buf_data (cx_writes c') = buf_data (cx_writes c) @ concat (map cmd_wire [Set key v])
         \<and> store_map (cx_txn c') = foldl cmd_effect (store_map (cx_txn c)) [Set key v])"
      using p False st pf S a i(2) by (auto simp: k_cmd_put_def Let_def appends_def split: if_splits)
  qed
qed

locale command =
  fixes fn :: k_cmd_fn and eff :: "(bytes \<rightharpoonup> bytes) \<Rightarrow> bytes \<Rightarrow> kv_cmd list option"
  assumes records: "fn c = (rc, c') \<Longrightarrow> recorded t (the (eff (store_map (cx_txn c)) (cx_args c))) rc c c'"
    and accepts: "fn c = (0, c') \<Longrightarrow> txn_inv (cx_mem c) t (cx_txn c) \<Longrightarrow> eff (store_map (cx_txn c)) (cx_args c) \<noteq> None"
begin

text \<open>The leader's store is as before, and an entry is the write set of the command on its contents.\<close>

lemma run_recorded:
  assumes "run_command fn s args = (out, s')" "store_ok s"
  shows "store_ok s' \<and> ap_tree s' = ap_tree s \<and> store_step s s' \<and> ap_requests s' = ap_requests s"
    "out = ExecEntry e b \<Longrightarrow> \<exists>ws. eff (contents s) args = Some ws \<and> write_ok (WExec ws) \<and> e = write_wire (WExec ws) \<and> length e \<le> K_RAFT_COMMAND_MAX"
proof -
  let ?t = "ap_tree s"
  obtain fo m where fk: "treap_fork (ap_mem s) ?t = (fo, m)" by fastforce
  have "(store_ok s' \<and> ap_tree s' = ?t \<and> store_step s s' \<and> ap_requests s' = ap_requests s)
    \<and> (out = ExecEntry e b \<longrightarrow> (\<exists>ws. eff (contents s) args = Some ws \<and> write_ok (WExec ws) \<and> e = write_wire (WExec ws) \<and> length e \<le> K_RAFT_COMMAND_MAX))"
  proof (cases fo)
    case None
    then show ?thesis using assms(1) fk fork_failed[OF assms(2)] by (auto simp: run_command_def store_step_def)
  next
    case (Some f)
    note F = fork_txn[OF assms(2) fk[unfolded Some]]
    let ?c = "\<lparr>cx_mem = m, cx_txn = f, cx_script = ap_script s, cx_writes = k_buf_zero, cx_result = k_buf_zero, cx_args = args, cx_count = 0\<rparr>"
    obtain rc c where c: "fn ?c = (rc, c)" by fastforce
    have sm: "store_map f = contents s" using F by (simp add: store_map_def)
    note R = records[OF c, of ?t, unfolded recorded_def, simplified, rule_format, OF F[THEN conjunct1]]
    have ab: "treap_inv (treap_abort (cx_mem c) (cx_txn c)) ?t" using abort_inv R by blast
    obtain sc entry where pf: "put_fields (cx_script c, k_buf_zero) [FU8 K_OP_FCALL, FBytes (buf_data (cx_writes c))] = (sc, entry)" by (metis prod.exhaust)
    have en: "\<not> buf_err entry \<Longrightarrow> buf_data entry = k_write_u8 K_OP_FCALL @ buf_data (cx_writes c)"
      using appends_fields[of "(cx_script c, k_buf_zero)" "[FU8 K_OP_FCALL, FBytes (buf_data (cx_writes c))]"] pf by (simp add: appends_def k_buf_zero_def buf_wf_def)
    show ?thesis
    proof (cases "out = ExecEntry e b")
      case False
      then show ?thesis using assms(1) fk Some c ab pf by (auto simp: run_command_def Let_def store_step_def split: if_splits)
    next
      case True
      then have o: "rc = 0" "\<not> buf_err (cx_writes c)" "\<not> buf_err entry" "e = buf_data entry" "length e \<le> K_RAFT_COMMAND_MAX"
        using assms(1) fk Some c pf by (auto simp: run_command_def Let_def split: if_splits)
      obtain ws where ws: "eff (contents s) args = Some ws" using accepts[OF c[unfolded o(1)], of ?t] F sm by auto
      then have "list_all cmd_ok ws" "buf_data (cx_writes c) = concat (map cmd_wire ws)" using R o(1,2) sm by (auto simp: k_buf_zero_def)
      then show ?thesis using assms(1) fk Some c ab pf o ws en by (auto simp: run_command_def Let_def store_step_def split: if_splits)
    qed
  qed
  then show "store_ok s' \<and> ap_tree s' = ap_tree s \<and> store_step s s' \<and> ap_requests s' = ap_requests s"
    "out = ExecEntry e b \<Longrightarrow> \<exists>ws. eff (contents s) args = Some ws \<and> write_ok (WExec ws) \<and> e = write_wire (WExec ws) \<and> length e \<le> K_RAFT_COMMAND_MAX" by blast+
qed

text \<open>Every replica with the leader's contents that applies the entry has the effect of the command.\<close>

lemma replayed:
  assumes "run_command fn s args = (ExecEntry e b, s')" "store_ok s" "k_server_apply_command r e cookie = (0, r')" "store_ok r" "contents r = contents s"
  shows "\<exists>ws. eff (contents s) args = Some ws \<and> contents r' = foldl cmd_effect (contents s) ws \<and> store_ok r'"
proof -
  obtain ws where ws: "eff (contents s) args = Some ws" "write_ok (WExec ws)" "e = write_wire (WExec ws)" using run_recorded(2)[OF assms(1,2)] by blast
  show ?thesis using write_contents[OF assms(3)[unfolded ws(3)] assms(4) ws(2)] assms(5) ws(1) by auto
qed

end

subsection \<open>The transfer\<close>

definition transfer_effect :: "(bytes \<rightharpoonup> bytes) \<Rightarrow> bytes \<Rightarrow> kv_cmd list option" where
  "transfer_effect g args =
     (case transfer_args args of None \<Rightarrow> None
      | Some (from, to, amt) \<Rightarrow>
          (case (g from, g to) of (Some fv, Some tv) \<Rightarrow>
             if length fv \<ge> 32 \<or> length tv \<ge> 32 \<or> amount_of fv < amount_of amt \<or> amount_of tv > (-1) - amount_of amt then None
             else Some [Set from (dec_bytes (unat (amount_of fv - amount_of amt))), Set to (dec_bytes (unat (amount_of tv + amount_of amt)))]
           | _ \<Rightarrow> None))"

lemma transfer_steps:
  assumes "k_cmd_transfer c = (rc, c')" "tree_ok seed (root (cx_txn c))"
  shows "rc \<noteq> 0 \<and> c' = c \<or> (\<exists>src dst v w rc1 c1 rc2 c2. transfer_effect (store_map (cx_txn c)) (cx_args c) = Some [Set src v, Set dst w]
    \<and> k_cmd_put c src v = (rc1, c1) \<and> (rc1 \<noteq> 0 \<and> rc = -1 \<and> c' = c1
      \<or> rc1 = 0 \<and> k_cmd_put c1 dst w = (rc2, c2) \<and> (rc2 \<noteq> 0 \<and> rc = -1 \<and> c' = c2 \<or> rc2 = 0 \<and> (\<exists>sc b. c' = c2\<lparr>cx_script := sc, cx_result := b\<rparr>))))"
proof (cases "transfer_effect (store_map (cx_txn c)) (cx_args c)")
  case None
  then show ?thesis using assms(1) treap_get_spec[OF assms(2)]
    by (auto simp: k_cmd_transfer_def transfer_effect_def k_cmd_get_def Let_def split: option.splits if_splits prod.splits)
next
  case (Some ws)
  then obtain src dst amt fv tv where a: "transfer_args (cx_args c) = Some (src, dst, amt)" "store_map (cx_txn c) src = Some fv" "store_map (cx_txn c) dst = Some tv"
    and g: "length fv < 32" "length tv < 32" "\<not> amount_of fv < amount_of amt" "\<not> amount_of tv > (-1) - amount_of amt"
    and ws: "ws = [Set src (dec_bytes (unat (amount_of fv - amount_of amt))), Set dst (dec_bytes (unat (amount_of tv + amount_of amt)))]"
    by (auto simp: transfer_effect_def split: option.splits if_splits)
  obtain rc1 c1 where p1: "k_cmd_put c src (dec_bytes (unat (amount_of fv - amount_of amt))) = (rc1, c1)" by fastforce
  obtain rc2 c2 where p2: "k_cmd_put c1 dst (dec_bytes (unat (amount_of tv + amount_of amt))) = (rc2, c2)" by fastforce
  show ?thesis
  proof (cases "src = [] \<or> dst = []")
    case True
    then show ?thesis using assms(1) treap_get_spec[OF assms(2)] a g
      by (auto simp: k_cmd_transfer_def k_cmd_get_def Let_def split: if_splits prod.splits)
  next
    case False
    then have get: "k_cmd_get c src = (1, fv)" "k_cmd_get c dst = (1, tv)" using treap_get_spec[OF assms(2)] a by (simp_all add: k_cmd_get_def)
    obtain sc b where kb: "k_buf_bytes (cx_script c2) (cx_result c2) [111, 107] = (sc, b)" by fastforce
    have u: "(rc, c') = (if rc1 \<noteq> 0 then (-1, c1) else if rc2 \<noteq> 0 then (-1, c2) else (if buf_err b then -1 else 0, c2\<lparr>cx_script := sc, cx_result := b\<rparr>))"
      using assms(1) a(1) get g p1 p2 kb by (cases "rc1 = 0"; cases "rc2 = 0"; simp add: k_cmd_transfer_def)
    show ?thesis unfolding Some ws using p1 p2 u by (cases "rc1 = 0"; cases "rc2 = 0") auto
  qed
qed

lemma recorded_rest [simp]: "recorded t ws rc c (c'\<lparr>cx_script := sc, cx_result := b\<rparr>) \<longleftrightarrow> recorded t ws rc c c'"
  by (simp add: recorded_def)

interpretation transfer: command k_cmd_transfer transfer_effect
proof unfold_locales
  fix c rc c' t
  assume k: "k_cmd_transfer c = (rc, c')"
  let ?ws = "transfer_effect (store_map (cx_txn c)) (cx_args c)"
  show "recorded t (the ?ws) rc c c'"
  proof (cases "txn_inv (cx_mem c) t (cx_txn c)")
    case True
    have "tree_ok (tr_seed (cx_txn c)) (root (cx_txn c))" using txn_parts(3)[OF True] .
    note T = transfer_steps[OF k this]
    show ?thesis
    proof (cases "rc \<noteq> 0 \<and> c' = c")
      case False
      then obtain src dst v w rc1 c1 rc2 c2 where ws: "?ws = Some [Set src v, Set dst w]" and p1: "k_cmd_put c src v = (rc1, c1)"
        and o: "rc1 \<noteq> 0 \<and> rc = -1 \<and> c' = c1 \<or> rc1 = 0 \<and> k_cmd_put c1 dst w = (rc2, c2) \<and> (rc2 \<noteq> 0 \<and> rc = -1 \<and> c' = c2 \<or> rc2 = 0 \<and> (\<exists>sc b. c' = c2\<lparr>cx_script := sc, cx_result := b\<rparr>))"
        using T by blast
      note R1 = put_recorded[OF p1, of t]
      from o show ?thesis
      proof (elim disjE conjE exE)
        assume "rc1 \<noteq> 0" "rc = -1" "c' = c1"
        then show ?thesis using recorded_failed[OF R1, of rc] by simp
      next
        assume 1: "rc1 = 0" "k_cmd_put c1 dst w = (rc2, c2)"
        note R = recorded_trans[OF R1[unfolded 1(1)] put_recorded[OF 1(2)]]
        show "rc2 \<noteq> 0 \<Longrightarrow> rc = -1 \<Longrightarrow> c' = c2 \<Longrightarrow> ?thesis" using recorded_failed[OF R, of rc] by simp
        show ?thesis if "rc2 = 0" "c' = c2\<lparr>cx_script := sc, cx_result := b\<rparr>" for sc b
          using R that ws recorded_failed[OF R, of rc] by (cases "rc = 0") simp_all
      qed
    qed (simp add: recorded_fail)
  qed (simp add: recorded_def)
  show "k_cmd_transfer c = (0, c') \<Longrightarrow> txn_inv (cx_mem c) t (cx_txn c) \<Longrightarrow> ?ws \<noteq> None"
    using transfer_steps[of c 0 c' "tr_seed (cx_txn c)"] txn_parts(3)[of "cx_mem c" t "cx_txn c"] by auto
qed

subsection \<open>Printed numbers are read back\<close>

lemma foldl_grows: "a \<le> foldl (\<lambda>a c. a * 10 + f c) (a :: nat) ds"
proof (induction ds arbitrary: a)
  case (Cons d ds)
  have "a \<le> a * 10 + f d" by simp
  also have "\<dots> \<le> foldl (\<lambda>a c. a * 10 + f c) (a * 10 + f d) ds" by (rule Cons.IH)
  finally show ?case by simp
qed simp

lemma digit_of_digit: "is_digit c \<Longrightarrow> digit_of c = Some (unat c - 48)"
  by (simp add: is_digit_def digit_of_def word_le_nat_alt)

lemma num_loop_digits:
  assumes "list_all is_digit ds" "foldl (\<lambda>a c. a * 10 + (unat c - 48)) (unat v) ds < 2 ^ 64"
  shows "num_loop 10 ds v any ov = (of_nat (foldl (\<lambda>a c. a * 10 + (unat c - 48)) (unat v) ds), any \<or> ds \<noteq> [], ov, [])"
  using assms
proof (induction ds arbitrary: v any)
  case (Cons c ds)
  let ?d = "unat c - 48"
  have c: "is_digit c" "?d < 10" using Cons.prems(1) by (auto simp: is_digit_def)
  have lt: "unat v * 10 + ?d < 2 ^ 64"
    using foldl_grows[of "unat v * 10 + ?d" "\<lambda>c. unat c - 48" ds] Cons.prems(2) by simp
  have q: "unat ((-1 :: u64) div 10) = 1844674407370955161" "unat ((-1 :: u64) mod 10) = 5" by simp_all
  have "\<not> (v > (-1) div 10 \<or> v = (-1) div 10 \<and> of_nat ?d > (-1 :: u64) mod 10)"
    using lt c(2) by (auto simp: word_less_nat_alt q unat_of_nat)
  moreover have "unat (v * 10 + of_nat ?d) = unat v * 10 + ?d" using lt by (simp add: unat_word_ariths unat_of_nat)
  ultimately show ?case using Cons.IH[of "v * 10 + of_nat ?d" True] Cons.prems c by (auto simp: digit_of_digit)
qed simp

lemma amount_printed: "amount_of (dec_bytes (unat n)) = n"
proof -
  let ?t = "dec_bytes (unat n)"
  have d: "list_all is_digit ?t" "?t \<noteq> []" "digits_value ?t = unat n" using dec_bytes_digits by blast+
  obtain c cs where t: "?t = c # cs" using d(2) by (cases ?t) auto
  have c: "unat c \<ge> 48" using d(1) t by (simp add: is_digit_def)
  then have p: "c \<noteq> 32" "c \<noteq> 9" "c \<noteq> 10" "c \<noteq> 13" "c \<noteq> 12" "c \<noteq> 11" "c \<noteq> 43" "c \<noteq> 45" by auto
  have "c_string ?t = ?t" using d(1) by (auto simp: takeWhile_eq_all_conv list_all_iff is_digit_def)
  moreover have "num_loop 10 ?t 0 False False = (n, True, False, [])"
    using num_loop_digits[OF d(1), of 0 False False] d(2,3) unsigned_less[of n] by (simp add: digits_value_def)
  ultimately show ?thesis using p t by (simp add: amount_of_def k_strtou64_def)
qed

subsection \<open>With memory a transfer is accepted\<close>

lemma put_room:
  assumes "txn_inv (cx_mem c) t (cx_txn c)" "mem_script (cx_mem c) = []" "holds (cx_script c, cx_writes c) d" "key_ok key" "val_ok v"
    "length d + length key + length v \<le> 0xfffffff0"
  shows "\<exists>c'. k_cmd_put c key v = (0, c') \<and> txn_inv (cx_mem c') t (cx_txn c') \<and> mem_script (cx_mem c') = []
    \<and> holds (cx_script c', cx_writes c') (d @ cmd_wire (Set key v)) \<and> cx_result c' = cx_result c"
proof -
  obtain rc t1 m1 where st: "treap_set (cx_mem c) (cx_txn c) key v = (rc, t1, m1)" by (metis prod_cases3)
  note S = set_step(1)[OF assms(1) st] set_step(3)[OF assms(1) st assms(2,4)]
  let ?fs = "[FU8 K_OP_SET, FU32 (of_nat (length key)), FBytes key, FU32 (of_nat (length v)), FBytes v]"
  obtain sc w where pf: "put_fields (cx_script c, cx_writes c) ?fs = (sc, w)" by (metis prod.exhaust)
  have "holds (sc, w) (d @ cmd_wire (Set key v))"
    using holds_fields[OF assms(3), of ?fs] pf assms(6) by (simp add: block_def u8c.length_enc u32c.length_enc)
  then show ?thesis using st S pf assms(4,5) by (simp add: k_cmd_put_def)
qed

lemma transfer_accepted:
  assumes "store_ok s" "mem_script (ap_mem s) = []" "ap_script s = []" "transfer_effect (contents s) args = Some [Set src v, Set dst w]"
    "key_ok src" "key_ok dst" "length v \<le> 32" "length w \<le> 32"
  shows "\<exists>e b s'. run_command k_cmd_transfer s args = (ExecEntry e b, s')"
proof -
  have "\<not> tr_txn (ap_tree s)" using inv_parts(4)[OF assms(1)] by simp
  then obtain f m where fk: "treap_fork (ap_mem s) (ap_tree s) = (Some f, m)" "mem_script m = []" using malloc_room[OF assms(2)] by (auto simp: treap_fork_def)
  note F = fork_txn[OF assms(1) fk(1)]
  have sm: "store_map f = contents s" using F by (simp add: store_map_def)
  let ?c = "\<lparr>cx_mem = m, cx_txn = f, cx_script = ap_script s, cx_writes = k_buf_zero, cx_result = k_buf_zero, cx_args = args, cx_count = 0\<rparr>"
  have z: "holds (cx_script ?c, cx_writes ?c) []" using assms(3) by (simp add: holds_def k_buf_zero_def buf_wf_def)
  obtain c1 where 1: "k_cmd_put ?c src v = (0, c1)" "txn_inv (cx_mem c1) (ap_tree s) (cx_txn c1)" "mem_script (cx_mem c1) = []"
    "holds (cx_script c1, cx_writes c1) ([] @ cmd_wire (Set src v))" "cx_result c1 = k_buf_zero"
    using put_room[of ?c "ap_tree s" "[]" src v] F fk(2) z assms(5,7) by auto
  have l: "length (cmd_wire (Set a b)) = 9 + length a + length b" for a b by (simp add: block_def u8c.length_enc u32c.length_enc)
  obtain c2 where 2: "k_cmd_put c1 dst w = (0, c2)" "holds (cx_script c2, cx_writes c2) (([] @ cmd_wire (Set src v)) @ cmd_wire (Set dst w))" "cx_result c2 = k_buf_zero"
    using put_room[OF 1(2,3,4), of dst w] assms(5-8) 1(5) by (auto simp del: cmd_wire.simps simp: l)
  have kb: "fst (k_buf_bytes (cx_script c2) k_buf_zero [111, 107]) = [] \<and> \<not> buf_err (snd (k_buf_bytes (cx_script c2) k_buf_zero [111, 107]))"
    using holds_field[of "(cx_script c2, k_buf_zero)" "[]" "FBytes [111, 107]"] 2(2) by (auto simp: holds_def k_buf_zero_def buf_wf_def)
  let ?k = "k_buf_bytes (cx_script c2) k_buf_zero [111, 107]"
  have T: "k_cmd_transfer ?c = (0, c2\<lparr>cx_script := fst ?k, cx_result := snd ?k\<rparr>)"
    using assms(4) 1(1) 2(1,3) kb treap_get_spec[OF txn_parts(3)[OF F[THEN conjunct1]]] sm assms(5,6)
    by (auto simp: transfer_effect_def k_cmd_transfer_def k_cmd_get_def case_prod_beta split: option.splits if_splits)
  let ?d = "buf_data (cx_writes c2)"
  have "length ?d \<le> 0x1000000" using 2(2) assms(5-8) by (simp add: holds_def l del: cmd_wire.simps)
  moreover have "holds (fst ?k, k_buf_zero) []" using kb by (simp add: holds_def k_buf_zero_def buf_wf_def)
  ultimately have "holds (put_fields (fst ?k, k_buf_zero) [FU8 K_OP_FCALL, FBytes ?d]) (k_write_u8 K_OP_FCALL @ ?d)"
    using holds_fields[of "(fst ?k, k_buf_zero)" "[]" "[FU8 K_OP_FCALL, FBytes ?d]"] by (simp add: u8c.length_enc)
  then show ?thesis using fk(1) T kb 2(2) assms(5-8)
    by (auto simp: run_command_def holds_def l u8c.length_enc split: prod.splits simp del: cmd_wire.simps)
qed

subsection \<open>The properties\<close>

lemma exec_effect_of:
  assumes "k_server_exec_cmd regs s name args = (ExecEntry e b, s')" "k_cmd_find regs name = Some k_cmd_transfer" "transfer_args args = Some (src, dst, amt)"
    "store_ok s" "store_ok r" "contents r = contents s" "k_server_apply_command r e cookie = (0, r')"
  obtains fv tv where "contents s src = Some fv" "contents s dst = Some tv" "amount_of amt \<le> amount_of fv" "amount_of tv \<le> -1 - amount_of amt" "store_ok r'"
    "contents r' = ((contents s)(src \<mapsto> dec_bytes (unat (amount_of fv - amount_of amt))))(dst \<mapsto> dec_bytes (unat (amount_of tv + amount_of amt)))"
proof -
  have "run_command k_cmd_transfer s args = (ExecEntry e b, s')" using assms(1,2) by (simp add: k_server_exec_cmd_def)
  from transfer.replayed[OF this assms(4,7,5,6)] assms(3) show thesis
    by (auto simp: transfer_effect_def not_less split: option.splits if_splits intro: that)
qed

text \<open>C22. A transfer moves exactly the amount: when the leader accepted it and a replica with the same contents has
  applied the entry, the source account has the amount less and the target account the amount more, without
  wrap-around, and no other key has changed. The leader's own store is untouched until it applies the entry.\<close>

theorem transfer_conserves:
  assumes "k_server_exec_cmd regs s name args = (ExecEntry e b, s')" "k_cmd_find regs name = Some k_cmd_transfer" "transfer_args args = Some (src, dst, amt)"
    "store_ok s" "store_ok r" "contents r = contents s" "k_server_apply_command r e cookie = (0, r')" "src \<noteq> dst"
  shows "store_ok s' \<and> ap_tree s' = ap_tree s \<and> store_ok r'
    \<and> (\<exists>fv tv fv' tv'. contents s src = Some fv \<and> contents s dst = Some tv \<and> contents r' = (contents r)(src \<mapsto> fv', dst \<mapsto> tv')
      \<and> unat (amount_of fv') + unat (amount_of amt) = unat (amount_of fv) \<and> unat (amount_of tv') = unat (amount_of tv) + unat (amount_of amt))"
proof -
  obtain fv tv where e: "contents s src = Some fv" "contents s dst = Some tv" and g: "amount_of amt \<le> amount_of fv" "amount_of tv \<le> -1 - amount_of amt" and ok: "store_ok r'"
    and c: "contents r' = ((contents s)(src \<mapsto> dec_bytes (unat (amount_of fv - amount_of amt))))(dst \<mapsto> dec_bytes (unat (amount_of tv + amount_of amt)))"
    by (rule exec_effect_of[OF assms(1-7)])
  have "run_command k_cmd_transfer s args = (ExecEntry e b, s')" using assms(1,2) by (simp add: k_server_exec_cmd_def)
  note L = transfer.run_recorded(1)[OF this assms(4)]
  let ?fv = "dec_bytes (unat (amount_of fv - amount_of amt))" and ?tv = "dec_bytes (unat (amount_of tv + amount_of amt))"
  have le: "unat (amount_of amt) \<le> unat (amount_of fv)" using g(1) by (simp add: word_le_nat_alt)
  have 1: "unat (amount_of ?fv) + unat (amount_of amt) = unat (amount_of fv)" unfolding amount_printed using le by (simp add: unat_sub[OF g(1)])
  have "unat (-1 - amount_of amt) = 2 ^ 64 - 1 - unat (amount_of amt)" by (simp add: unat_sub unsigned_minus_1_eq_mask mask_eq_exp_minus_1)
  moreover have "unat (amount_of amt) < 2 ^ 64" by (rule order_less_le_trans[OF unsigned_less]) simp
  ultimately have "unat (amount_of tv) + unat (amount_of amt) < 2 ^ 64" using g(2) by (simp add: word_le_nat_alt)
  then have 2: "unat (amount_of ?tv) = unat (amount_of tv) + unat (amount_of amt)" unfolding amount_printed by (simp add: unat_word_ariths)
  have "contents r' = (contents r)(src \<mapsto> ?fv, dst \<mapsto> ?tv)" using c assms(6) by simp
  then show ?thesis using L ok e 1 2 by blast
qed

text \<open>A transfer from an account to itself creates money: it is accepted, and once the entry is applied the
  account holds the amount more than before.\<close>

theorem transfer_to_self_mints:
  assumes "k_server_exec_cmd regs s name args = (ExecEntry e b, s')" "k_cmd_find regs name = Some k_cmd_transfer" "transfer_args args = Some (src, src, amt)"
    "store_ok s" "store_ok r" "contents r = contents s" "k_server_apply_command r e cookie = (0, r')"
  shows "\<exists>v v'. contents s src = Some v \<and> contents r' = (contents r)(src \<mapsto> v') \<and> amount_of v' = amount_of v + amount_of amt"
  by (rule exec_effect_of[OF assms]) (auto simp: amount_printed assms(6))

text \<open>A server with two accounts, 50 and 7, and memory.\<close>

lemma bank_exists:
  obtains s where "store_ok s" "roomy s" "contents s = [[1] \<mapsto> dec_bytes 50, [2, 3] \<mapsto> dec_bytes 7]" "length (entries (root (ap_tree s))) = 2"
proof -
  note i0 = sample_facts(1)
  have k: "[1] \<noteq> ([] :: bytes)" "[2, 3] \<noteq> ([] :: bytes)" "treap_node_bytes (length ([1] :: bytes)) \<le> 0xffffffff" "treap_node_bytes (length ([2, 3] :: bytes)) \<le> 0xffffffff"
    by (simp_all add: treap_node_bytes_def)
  obtain t1 m1 where s1: "treap_set sample_mem sample_store [1] (dec_bytes 50) = (0, t1, m1)" "mem_script m1 = []"
    using set_room[OF sample_facts(4) inv_parts(3)[OF i0] k(1,3), of "dec_bytes 50"] by auto
  note i1 = set_inv[OF i0 s1(1)]
  obtain t2 m2 where s2: "treap_set m1 t1 [2, 3] (dec_bytes 7) = (0, t2, m2)" "mem_script m2 = []"
    using set_room[OF s1(2) inv_parts(3)[OF i1] k(2,4), of "dec_bytes 7"] by auto
  note i2 = set_inv[OF i1 s2(1)]
  have m: "store_map t2 = [[1] \<mapsto> dec_bytes 50, [2, 3] \<mapsto> dec_bytes 7]"
    using live_set(2)[OF i0 s1(1)] live_set(2)[OF i1 s2(1)] sample_facts(3) by (auto simp: store_map_def fun_eq_iff)
  let ?es = "entries (root t2)"
  have srt: "sorted_wrt (<) (keys (root t2))" using inv_parts(3)[OF i2] by (simp add: tree_ok_def)
  have "set (keys (root t2)) = {[1], [2, 3]}" unfolding dom_store_map[symmetric] m by auto
  moreover have "sorted_wrt (<) [[1], [2, 3] :: bytes]" by simp
  ultimately have ks: "keys (root t2) = [[1], [2, 3]]" using strict_sorted_equal[of "[[1], [2, 3]]" "keys (root t2)"] srt by simp
  have len: "length ?es = 2" using arg_cong[OF ks, of length] by simp
  have v: "length (snd x) \<le> 2" if "x \<in> set ?es" for x
  proof -
    have "map_of ?es (fst x) = Some (snd x)" using that srt by (intro map_of_is_SomeI) (auto simp: strict_sorted_iff)
    then have "snd x = dec_bytes 50 \<or> snd x = dec_bytes 7" using m by (auto simp: store_map_def split: if_splits)
    then show ?thesis using dec_bytes_length[of 50 2] dec_bytes_length[of 7 2] by auto
  qed
  have "sum_list (map (\<lambda>x. 4 + length (fst x)) ?es) = sum_list (map (\<lambda>k. 4 + length k) (keys (root t2)))" by (simp add: comp_def)
  then have sl: "sum_list (map (\<lambda>x. 4 + length (fst x)) ?es) = 11" unfolding ks by simp
  have "length (snd x) \<le> 0xffffffff" if "x \<in> set ?es" for x using v[OF that] by simp
  then have "roomy (sample_server\<lparr>ap_mem := m2, ap_tree := t2\<rparr>)" using s2(2) len sl by (simp add: roomy_def sample_server_def)
  then show thesis using that[of "sample_server\<lparr>ap_mem := m2, ap_tree := t2\<rparr>"] i2 m len by simp
qed

definition transfer_request :: "bytes \<Rightarrow> bytes \<Rightarrow> bytes \<Rightarrow> bytes" where
  "transfer_request src dst amt = block src @ block dst @ block amt"

lemma transfer_request_args:
  "key_ok src \<Longrightarrow> key_ok dst \<Longrightarrow> amt \<noteq> [] \<Longrightarrow> length amt < 32 \<Longrightarrow> transfer_args (transfer_request src dst amt) = Some (src, dst, amt)"
  using block_parts[of amt "block src @ block dst" "[]"]
  by (simp add: transfer_args_def transfer_request_def rdr_init) (simp add: block_def u32c.length_enc)

text \<open>A run of a transfer of 8 from the first account: accepted by the leader and applied.\<close>

lemma transfer_run:
  assumes "store_ok s" "roomy s" "contents s = [[1] \<mapsto> dec_bytes 50, [2, 3] \<mapsto> dec_bytes 7]" "length (entries (root (ap_tree s))) = 2" "dst \<in> {[1], [2, 3]}"
  obtains e b s' r' where "k_server_exec_cmd [([116], k_cmd_transfer)] s [116] (transfer_request [1] dst (dec_bytes 8)) = (ExecEntry e b, s')"
    "transfer_args (transfer_request [1] dst (dec_bytes 8)) = Some ([1], dst, dec_bytes 8)" "k_server_apply_command s e None = (0, r')"
proof -
  let ?args = "transfer_request [1] dst (dec_bytes 8)"
  have d: "amount_of (dec_bytes 50) = 50" "amount_of (dec_bytes 7) = 7" "amount_of (dec_bytes 8) = 8"
    using amount_printed[of 50] amount_printed[of 7] amount_printed[of 8] by simp_all
  have l: "length (dec_bytes n) \<le> 3" if "n < 1000" for n using dec_bytes_length[of n 3] that by simp
  have l3: "length (dec_bytes 50) \<le> 3" "length (dec_bytes 7) \<le> 3" "length (dec_bytes 8) \<le> 3" "length (dec_bytes 42) \<le> 3" "length (dec_bytes 58) \<le> 3" "length (dec_bytes 15) \<le> 3"
    using l by simp_all
  have ta: "transfer_args ?args = Some ([1], dst, dec_bytes 8)"
    using transfer_request_args[of "[1]" dst "dec_bytes 8"] assms(5) l3(3) dec_bytes_digits[of 8] by auto
  obtain w where w: "transfer_effect (contents s) ?args = Some [Set [1] (dec_bytes 42), Set dst w]" "length w \<le> 3"
    using assms(5) l3 by (auto simp: transfer_effect_def ta assms(3) d)
  have "\<exists>e b s'. run_command k_cmd_transfer s ?args = (ExecEntry e b, s')"
    by (rule transfer_accepted[OF assms(1) _ _ w(1)]) (use assms(2,5) w(2) l3 in \<open>auto simp: roomy_def\<close>)
  then obtain e b s' where e: "run_command k_cmd_transfer s ?args = (ExecEntry e b, s')" by blast
  obtain ws where ws: "write_ok (WExec ws)" "e = write_wire (WExec ws)" using transfer.run_recorded(2)[OF e assms(1)] by blast
  obtain rc r' where r: "k_server_apply_command s e None = (rc, r')" by fastforce
  have "rc = 0" using write_effect_law[OF r[unfolded ws(2)] assms(1) ws(1)] assms(2,4) by simp
  then show thesis using that e ta r by (simp add: k_server_exec_cmd_def k_cmd_find_def)
qed

lemma transfer_conserves_witness:
  "\<exists>s e b s' r'. k_server_exec_cmd [([116], k_cmd_transfer)] s [116] (transfer_request [1] [2, 3] (dec_bytes 8)) = (ExecEntry e b, s')
    \<and> k_server_apply_command s e None = (0, r') \<and> store_ok r'
    \<and> (\<exists>fv tv. contents r' = (contents s)([1] \<mapsto> fv, [2, 3] \<mapsto> tv) \<and> unat (amount_of fv) = 42 \<and> unat (amount_of tv) = 15)"
proof -
  obtain s where s: "store_ok s" "roomy s" "contents s = [[1] \<mapsto> dec_bytes 50, [2, 3] \<mapsto> dec_bytes 7]" "length (entries (root (ap_tree s))) = 2" by (rule bank_exists)
  obtain e b s' r' where r: "k_server_exec_cmd [([116], k_cmd_transfer)] s [116] (transfer_request [1] [2, 3] (dec_bytes 8)) = (ExecEntry e b, s')"
    "transfer_args (transfer_request [1] [2, 3] (dec_bytes 8)) = Some ([1], [2, 3], dec_bytes 8)" "k_server_apply_command s e None = (0, r')"
    using transfer_run[OF s, of "[2, 3]"] by blast
  have f: "k_cmd_find [([116], k_cmd_transfer)] [116] = Some k_cmd_transfer" by (simp add: k_cmd_find_def)
  have d: "unat (amount_of (dec_bytes 50)) = 50" "unat (amount_of (dec_bytes 7)) = 7" "unat (amount_of (dec_bytes 8)) = 8"
    using amount_printed[of 50] amount_printed[of 7] amount_printed[of 8] by simp_all
  have n: "[1] \<noteq> ([2, 3] :: bytes)" by simp
  obtain fv tv where "store_ok r'" "contents r' = (contents s)([1] \<mapsto> fv, [2, 3] \<mapsto> tv)" "unat (amount_of fv) = 42" "unat (amount_of tv) = 15"
    using transfer_conserves[OF r(1) f r(2) s(1,1) refl r(3) n] s(3) d by auto
  then show ?thesis using r(1,3) by blast
qed

lemma transfer_to_self_mints_witness:
  "\<exists>s e b s' r' v. k_server_exec_cmd [([116], k_cmd_transfer)] s [116] (transfer_request [1] [1] (dec_bytes 8)) = (ExecEntry e b, s')
    \<and> contents s [1] = Some (dec_bytes 50) \<and> k_server_apply_command s e None = (0, r') \<and> contents r' [1] = Some v \<and> amount_of v = 58"
proof -
  obtain s where s: "store_ok s" "roomy s" "contents s = [[1] \<mapsto> dec_bytes 50, [2, 3] \<mapsto> dec_bytes 7]" "length (entries (root (ap_tree s))) = 2" by (rule bank_exists)
  obtain e b s' r' where r: "k_server_exec_cmd [([116], k_cmd_transfer)] s [116] (transfer_request [1] [1] (dec_bytes 8)) = (ExecEntry e b, s')"
    "transfer_args (transfer_request [1] [1] (dec_bytes 8)) = Some ([1], [1], dec_bytes 8)" "k_server_apply_command s e None = (0, r')"
    using transfer_run[OF s, of "[1]"] by blast
  have f: "k_cmd_find [([116], k_cmd_transfer)] [116] = Some k_cmd_transfer" by (simp add: k_cmd_find_def)
  have d: "amount_of (dec_bytes 50) = 50" "amount_of (dec_bytes 8) = 8" using amount_printed[of 50] amount_printed[of 8] by simp_all
  obtain v where "contents r' [1] = Some v" "amount_of v = 58" using transfer_to_self_mints[OF r(1) f r(2) s(1,1) refl r(3)] s(3) d by auto
  moreover have "contents s [1] = Some (dec_bytes 50)" using s(3) by simp
  ultimately show ?thesis using r(1,3) by blast
qed

end
