(* ===== verification/Server_Read.thy ===== *)
theory Server_Read
  imports Server_Replica
begin

section \<open>Answers to reads\<close>

text \<open>
  What \<^verbatim>\<open>k_server_handle_client_result\<close> of \<^verbatim>\<open>src/code/kserver.h\<close> answers to a read whose barrier has
  resolved: point reads, counts, the ends of a range and range scans in pages. A reply is a status with a
  body; sending it is not modelled. Reads do not change the store.
\<close>

abbreviation K_STATUS_OK :: u8 where "K_STATUS_OK \<equiv> 0"
abbreviation K_STATUS_NOT_FOUND :: u8 where "K_STATUS_NOT_FOUND \<equiv> 1"
abbreviation K_STATUS_ERROR :: u8 where "K_STATUS_ERROR \<equiv> 2"
abbreviation K_RESPONSE_BODY_MAX :: nat where "K_RESPONSE_BODY_MAX \<equiv> K_FRAME_MAX - 256"

type_synonym k_reply = "u8 \<times> bytes"

definition ascii :: "string \<Rightarrow> bytes" where
  "ascii t = map of_char t"

definition get_reply :: "k_applied \<Rightarrow> bytes \<Rightarrow> k_reply" where
  "get_reply s key =
     (case treap_get (ap_tree s) key of (rc, v) \<Rightarrow>
        if rc > 0 then (K_STATUS_OK, v) else if rc = 0 then (K_STATUS_NOT_FOUND, []) else (K_STATUS_ERROR, ascii ''read failed''))"

text \<open>Several point reads: the lines of the keys that were found. The flag tells that the body would be too large.\<close>

fun mget_loop :: "treap \<Rightarrow> nat \<Rightarrow> k_reader \<Rightarrow> script \<times> k_buf \<Rightarrow> bool \<times> k_reader \<times> script \<times> k_buf" where
  "mget_loop t 0 r sb = (False, r, sb)"
| "mget_loop t (Suc i) r sb =
     (case rd_u32 r of (n, r) \<Rightarrow>
     (case k_reader_bytes r n of (key, r) \<Rightarrow>
        if rd_err r then (False, r, sb)
        else case treap_get t (key_of key) of (rc, v) \<Rightarrow>
          if rc = 1
          then if (of_nat (n + length v + 2) :: u32) > of_nat K_RESPONSE_BODY_MAX - of_nat (length (buf_data (snd sb))) then (True, r, sb)
               else mget_loop t i r (put_fields sb [FBytes (key_of key), FU8 61, FBytes v, FU8 10])
          else mget_loop t i r sb))"

definition mget_reply :: "k_applied \<Rightarrow> bytes \<Rightarrow> k_reply \<times> k_applied" where
  "mget_reply s ks =
     (case rd_u32 (k_reader_init ks) of (cnt, r) \<Rightarrow>
        case mget_loop (ap_tree s) cnt r (ap_script s, k_buf_zero) of (too_large, r, sc, body) \<Rightarrow>
          (if rd_err r \<or> buf_err body then (K_STATUS_ERROR, ascii ''mget failed'')
           else if too_large then (K_STATUS_ERROR, ascii ''result too large'')
           else (K_STATUS_OK, buf_data body), s\<lparr>ap_script := sc\<rparr>))"

definition count_reply :: "k_applied \<Rightarrow> bytes \<Rightarrow> bytes \<Rightarrow> k_reply" where
  "count_reply s b e =
     (K_STATUS_OK, dec_bytes (unat (if b \<noteq> [] \<or> e \<noteq> [] then treap_count_range (ap_tree s) b e else treap_count (ap_tree s))))"

text \<open>The smallest or the largest entry, of a range or of the whole store.\<close>

definition end_reply :: "bool \<Rightarrow> k_applied \<Rightarrow> bytes \<Rightarrow> bytes \<Rightarrow> k_reply \<times> k_applied" where
  "end_reply low s b e =
     (let x = (if b \<noteq> [] \<or> e \<noteq> [] then if low then treap_min_range (ap_tree s) b e else treap_max_range (ap_tree s) b e
               else if low then treap_min (ap_tree s) else treap_max (ap_tree s))
      in case x of None \<Rightarrow> ((K_STATUS_OK, ascii ''(empty)''), s)
         | Some (key, v) \<Rightarrow>
             (case put_fields (ap_script s, k_buf_zero) [FBytes key, FU8 61, FBytes v] of (sc, body) \<Rightarrow>
                (if buf_err body \<or> length (buf_data body) > K_RESPONSE_BODY_MAX then (K_STATUS_ERROR, ascii ''result too large'')
                 else (K_STATUS_OK, buf_data body), s\<lparr>ap_script := sc\<rparr>)))"

subsection \<open>Range scans\<close>

text \<open>The visitor's state; the next key is there when the page is full and more entries remain.\<close>

record k_net_scan =
  sn_out :: "script \<times> k_buf"
  sn_too_large :: bool
  sn_limit :: nat
  sn_count :: nat
  sn_next :: "bytes option"

definition k_net_scan_visit :: "bytes \<Rightarrow> bytes \<Rightarrow> k_net_scan \<Rightarrow> bool \<times> k_net_scan" where
  "k_net_scan_visit key v scan =
     (let body = buf_data (snd (sn_out scan))
      in if sn_limit scan \<noteq> 0 \<and> sn_count scan \<ge> sn_limit scan then (True, scan\<lparr>sn_next := Some key\<rparr>)
         else if (of_nat (length key + length v + 1 + (if body \<noteq> [] then 1 else 0)) :: u32) > of_nat K_RESPONSE_BODY_MAX - of_nat (length body)
         then (True, scan\<lparr>sn_too_large := True\<rparr>)
         else let out = put_fields (sn_out scan) ((if body \<noteq> [] then [FU8 10] else []) @ [FBytes key, FU8 61, FBytes v])
           in (buf_err (snd out), scan\<lparr>sn_out := out, sn_count := sn_count scan + 1\<rparr>))"

definition visit_zero :: "script \<Rightarrow> nat \<Rightarrow> k_net_scan" where
  "visit_zero sc limit = \<lparr>sn_out = (sc, k_buf_zero), sn_too_large = False, sn_limit = limit, sn_count = 0, sn_next = None\<rparr>"

text \<open>The scan with the direction byte of the request: 0 ascending, 1 descending, others refused.\<close>

definition rget_scan :: "k_applied \<Rightarrow> bytes \<Rightarrow> bytes \<Rightarrow> u8 \<Rightarrow> nat \<Rightarrow> k_reply \<times> k_applied" where
  "rget_scan s b e direction limit =
     (case (if root (ap_tree s) \<noteq> Null \<and> direction > 1 then (-1, visit_zero (ap_script s) limit, ap_mem s)
            else treap_scan (ap_mem s) (ap_tree s) b e (direction = 0) k_net_scan_visit (visit_zero (ap_script s) limit)) of (n, scan, m) \<Rightarrow>
        let (sc, body) = sn_out scan; s = s\<lparr>ap_mem := m, ap_script := sc\<rparr>
        in if n = -1 \<or> buf_err body then ((K_STATUS_ERROR, ascii ''scan failed''), s)
           else if sn_too_large scan then ((K_STATUS_ERROR, ascii ''scan result too large''), s)
           else if limit > 0
           then (case put_fields (sc, k_buf_zero)
                     ((case sn_next scan of None \<Rightarrow> [FU8 0] | Some k \<Rightarrow> [FU8 1, FU32 (of_nat (length k)), FBytes k]) @ [FBytes (buf_data body)]) of
                   (sc, resp) \<Rightarrow>
                     (if buf_err resp \<or> length (buf_data resp) > K_RESPONSE_BODY_MAX then (K_STATUS_ERROR, ascii ''scan result too large'')
                      else (K_STATUS_OK, buf_data resp), s\<lparr>ap_script := sc\<rparr>))
           else ((K_STATUS_OK, buf_data body), s))"

definition rget_reply :: "k_applied \<Rightarrow> bytes \<Rightarrow> k_reply \<times> k_applied" where
  "rget_reply s command =
     (let (bl, r) = rd_u32 (k_reader_init command); (b, r) = k_reader_bytes r bl; (el, r) = rd_u32 r; (e, r) = k_reader_bytes r el;
          (direction, r) = k_reader_u8 r; (limit, r) = (if rd_off r < length (rd_data r) then rd_u32 r else (0, r))
      in if \<not> rd_end r then ((K_STATUS_ERROR, ascii ''scan failed''), s)
         else rget_scan s (key_of b) (key_of e) direction limit)"

definition members_reply :: "k_applied \<Rightarrow> k_reply \<times> k_applied" where
  "members_reply s =
     (case k_server_members_build (ap_cluster s) (ap_script s, k_buf_zero) of (sc, body) \<Rightarrow>
        (if buf_err body \<or> length (buf_data body) > K_RESPONSE_BODY_MAX then (K_STATUS_ERROR, ascii ''result too large'')
         else (K_STATUS_OK, buf_data body), s\<lparr>ap_script := sc\<rparr>))"

text \<open>The dispatch on the request type. The request holds a key part, an end part and, for a range scan, its command.\<close>

definition read_reply :: "k_applied \<Rightarrow> u8 \<Rightarrow> bytes \<Rightarrow> bytes \<Rightarrow> bytes \<Rightarrow> k_reply \<times> k_applied" where
  "read_reply s ty key en command =
     (if ty = K_REQ_GET then (get_reply s key, s)
      else if ty = K_REQ_MGET then mget_reply s key
      else if ty = K_REQ_COUNT then (count_reply s key en, s)
      else if ty = K_REQ_MIN \<or> ty = K_REQ_MAX then end_reply (ty = K_REQ_MIN) s key en
      else if ty = K_REQ_MEMBERS then members_reply s
      else if ty = K_REQ_RGET then rget_reply s command
      else ((K_STATUS_ERROR, ascii ''unexpected raft result''), s))"

subsection \<open>Pages\<close>

text \<open>The text of a page: a line per entry.\<close>

definition put_line :: "bytes \<Rightarrow> bytes \<times> bytes \<Rightarrow> bytes" where
  "put_line d x = d @ (if d \<noteq> [] then [10] else []) @ fst x @ [61] @ snd x"

definition page_text :: "(bytes \<times> bytes) list \<Rightarrow> bytes" where
  "page_text es = foldl put_line [] es"

text \<open>With a limit the text follows a flag and, when entries remain, the key of the next one.\<close>

definition page_of :: "nat \<Rightarrow> (bytes \<times> bytes) list \<Rightarrow> bytes" where
  "page_of limit es =
     (if limit = 0 then page_text es
      else (if limit < length es then k_write_u8 1 @ block (fst (es ! limit)) else k_write_u8 0) @ page_text (take limit es))"

lemma lines_grow: "length d \<le> length (foldl put_line d es)"
proof (induction es arbitrary: d)
  case (Cons x es)
  have "length d \<le> length (put_line d x)" by (simp add: put_line_def)
  also have "\<dots> \<le> length (foldl put_line (put_line d x) es)" by (rule Cons.IH)
  finally show ?case by simp
qed simp

text \<open>The entries the visitor takes from here on, and the first one it leaves.\<close>

definition taken :: "k_net_scan \<Rightarrow> (bytes \<times> bytes) list \<Rightarrow> (bytes \<times> bytes) list" where
  "taken sc es = (if sn_limit sc = 0 then es else take (sn_limit sc - sn_count sc) es)"

definition left_key :: "k_net_scan \<Rightarrow> (bytes \<times> bytes) list \<Rightarrow> bytes option" where
  "left_key sc es = (if sn_limit sc \<noteq> 0 \<and> sn_limit sc - sn_count sc < length es then Some (fst (es ! (sn_limit sc - sn_count sc))) else None)"

lemma visit_full: "sn_limit sc \<noteq> 0 \<and> sn_count sc \<ge> sn_limit sc \<Longrightarrow> k_net_scan_visit k v sc = (True, sc\<lparr>sn_next := Some k\<rparr>)"
  by (simp add: k_net_scan_visit_def)

definition line_fields :: "k_net_scan \<Rightarrow> bytes \<Rightarrow> bytes \<Rightarrow> field list" where
  "line_fields sc k v = (if buf_data (snd (sn_out sc)) \<noteq> [] then [FU8 10] else []) @ [FBytes k, FU8 61, FBytes v]"

lemma line_wire: "buf_data (snd (sn_out sc)) @ concat (map wire (line_fields sc k v)) = put_line (buf_data (snd (sn_out sc))) (k, v)"
  by (simp add: line_fields_def put_line_def k_write_u8_def)

lemma visit_more:
  assumes "\<not> (sn_limit sc \<noteq> 0 \<and> sn_count sc \<ge> sn_limit sc)" "k_net_scan_visit k v sc = (stop, sc1)"
  shows "sn_too_large sc1 \<and> stop \<or> sc1 = sc\<lparr>sn_out := put_fields (sn_out sc) (line_fields sc k v), sn_count := sn_count sc + 1\<rparr> \<and> (stop \<longleftrightarrow> buf_err (snd (sn_out sc1)))"
  using assms by (auto simp: k_net_scan_visit_def line_fields_def Let_def split: if_splits)

lemma taken_step:
  assumes "\<not> (sn_limit sc \<noteq> 0 \<and> sn_count sc \<ge> sn_limit sc)"
  shows "taken sc (x # es) = x # taken (sc\<lparr>sn_out := out, sn_count := sn_count sc + 1\<rparr>) es"
    "left_key sc (x # es) = left_key (sc\<lparr>sn_out := out, sn_count := sn_count sc + 1\<rparr>) es"
proof -
  have e: "sn_limit sc - sn_count sc = Suc (sn_limit sc - (sn_count sc + 1))" if "sn_limit sc \<noteq> 0" using that assms by simp
  show "taken sc (x # es) = x # taken (sc\<lparr>sn_out := out, sn_count := sn_count sc + 1\<rparr>) es"
    by (cases "sn_limit sc = 0") (simp_all add: taken_def e)
  show "left_key sc (x # es) = left_key (sc\<lparr>sn_out := out, sn_count := sn_count sc + 1\<rparr>) es"
    by (cases "sn_limit sc = 0") (simp_all add: left_key_def e)
qed

lemma net_visit_law:
  assumes "visit k_net_scan_visit es sc = (n, sc')" "buf_wf (snd (sn_out sc))" "\<not> sn_too_large sc'" "\<not> buf_err (snd (sn_out sc'))"
    "sn_limit sc = 0 \<or> sn_count sc \<le> sn_limit sc" "sn_next sc = None"
  shows "buf_data (snd (sn_out sc')) = foldl put_line (buf_data (snd (sn_out sc))) (taken sc es) \<and> sn_next sc' = left_key sc es"
  using assms
proof (induction es arbitrary: sc n)
  case Nil
  then show ?case by (auto simp: taken_def left_key_def)
next
  case (Cons x es)
  obtain stop sc1 where c: "k_net_scan_visit (fst x) (snd x) sc = (stop, sc1)" by fastforce
  show ?case
  proof (cases "sn_limit sc \<noteq> 0 \<and> sn_count sc \<ge> sn_limit sc")
    case True
    then show ?thesis using Cons.prems visit_full[OF True, of "fst x" "snd x"] by (auto simp: taken_def left_key_def)
  next
    case False
    note V = visit_more[OF False c]
    have ns: "\<not> stop" using Cons.prems(1,3,4) c V by (cases stop) auto
    obtain n1 where v: "visit k_net_scan_visit es sc1 = (n1, sc')" using Cons.prems(1) c ns by (auto split: prod.splits)
    have s1: "sc1 = sc\<lparr>sn_out := put_fields (sn_out sc) (line_fields sc (fst x) (snd x)), sn_count := sn_count sc + 1\<rparr>" and ne: "\<not> buf_err (snd (sn_out sc1))" using V ns by auto
    have a: "buf_wf (snd (sn_out sc1))" "buf_data (snd (sn_out sc1)) = put_line (buf_data (snd (sn_out sc))) x"
      using appends_fields[of "sn_out sc" "line_fields sc (fst x) (snd x)"] Cons.prems(2) ne s1 line_wire[of sc "fst x" "snd x"] by (auto simp: appends_def)
    have l: "sn_limit sc1 = 0 \<or> sn_count sc1 \<le> sn_limit sc1" "sn_next sc1 = None" using s1 False Cons.prems(6) by auto
    have t: "taken sc (x # es) = x # taken sc1 es" "left_key sc (x # es) = left_key sc1 es" unfolding s1 by (rule taken_step[OF False])+
    show ?thesis using Cons.IH[OF v a(1) Cons.prems(3,4) l] a(2) t by simp
  qed
qed

lemma fits_body: "a + b \<le> K_RESPONSE_BODY_MAX \<Longrightarrow> \<not> (of_nat a :: u32) > of_nat K_RESPONSE_BODY_MAX - of_nat b"
  by (simp add: not_less word_le_nat_alt unat_sub_if_size unat_of_nat word_size)

lemma net_visit_room:
  assumes "visit k_net_scan_visit es sc = (n, sc')" "holds (sn_out sc) d" "length (foldl put_line d (taken sc es)) \<le> K_RESPONSE_BODY_MAX"
    "sn_limit sc = 0 \<or> sn_count sc \<le> sn_limit sc" "\<not> sn_too_large sc"
  shows "\<not> sn_too_large sc' \<and> fst (sn_out sc') = [] \<and> \<not> buf_err (snd (sn_out sc'))"
  using assms
proof (induction es arbitrary: sc n d)
  case Nil
  then show ?case by (auto simp: holds_def)
next
  case (Cons x es)
  obtain stop sc1 where c: "k_net_scan_visit (fst x) (snd x) sc = (stop, sc1)" by fastforce
  show ?case
  proof (cases "sn_limit sc \<noteq> 0 \<and> sn_count sc \<ge> sn_limit sc")
    case True
    then show ?thesis using Cons.prems visit_full[OF True, of "fst x" "snd x"] by (auto simp: holds_def)
  next
    case False
    have d: "buf_data (snd (sn_out sc)) = d" using Cons.prems(2) by (simp add: holds_def)
    note t = taken_step(1)[OF False, of x es]
    have le: "length (put_line d x) \<le> K_RESPONSE_BODY_MAX" using Cons.prems(3) lines_grow[of "put_line d x"] unfolding t[of "sn_out sc"] foldl_Cons by (meson order_trans)
    let ?out = "put_fields (sn_out sc) (line_fields sc (fst x) (snd x))"
    have w: "d @ concat (map wire (line_fields sc (fst x) (snd x))) = put_line d x" using line_wire[of sc "fst x" "snd x"] d by simp
    have lw: "length d + length (concat (map wire (line_fields sc (fst x) (snd x)))) = length (put_line d x)" using arg_cong[OF w, of length] by (simp only: length_append)
    have "holds ?out (d @ concat (map wire (line_fields sc (fst x) (snd x))))" by (rule holds_fields[OF Cons.prems(2)]) (use lw le in simp)
    then have h: "holds ?out (put_line d x)" unfolding w .
    have "(length (fst x) + length (snd x) + 1 + (if d \<noteq> [] then 1 else 0)) + length d \<le> K_RESPONSE_BODY_MAX" using le by (cases "d = []") (simp_all add: put_line_def)
    note ok = fits_body[OF this]
    have s1: "stop = False" "sc1 = sc\<lparr>sn_out := ?out, sn_count := sn_count sc + 1\<rparr>"
      using c ok h False unfolding k_net_scan_visit_def Let_def d line_fields_def[symmetric, unfolded d] by (auto simp: holds_def line_fields_def d)
    obtain n1 where v: "visit k_net_scan_visit es sc1 = (n1, sc')" using Cons.prems(1) c s1(1) by (auto split: prod.splits)
    have t1: "taken sc (x # es) = x # taken sc1 es" unfolding s1(2) by (rule t)
    have "length (foldl put_line (put_line d x) (taken sc1 es)) \<le> K_RESPONSE_BODY_MAX" using Cons.prems(3) unfolding t1 by simp
    then show ?thesis by (rule Cons.IH[OF v, rotated]) (use h s1(2) Cons.prems(5) False in auto)
  qed
qed

subsection \<open>Continuing a scan\<close>

lemma sorted_cut:
  fixes L :: "(bytes \<times> bytes) list"
  assumes "sorted_wrt (<) (map fst L)" "i < length L"
  shows "filter (\<lambda>x. fst (L ! i) \<le> fst x) L = drop i L" "filter (\<lambda>x. fst x \<le> fst (L ! i)) L = take (Suc i) L"
proof -
  have lt: "fst (L ! a) < fst (L ! b)" if "a < b" "b < length L" for a b using sorted_wrt_nth_less[OF assms(1), of a b] that by simp
  have L: "L = take i L @ drop i L" "L = take (Suc i) L @ drop (Suc i) L" by simp_all
  have 1: "\<not> fst (L ! i) \<le> fst x" if "x \<in> set (take i L)" for x
  proof -
    obtain a where a: "x = L ! a" "a < i" using \<open>x \<in> set (take i L)\<close> by (auto simp: in_set_conv_nth)
    show ?thesis using lt[OF a(2) assms(2)] a(1) by (simp add: not_le)
  qed
  have 2: "fst (L ! i) \<le> fst x" if "x \<in> set (drop i L)" for x
  proof -
    obtain j where j: "x = L ! (i + j)" "i + j < length L" using \<open>x \<in> set (drop i L)\<close> by (auto simp: in_set_conv_nth)
    show ?thesis using lt[of i "i + j"] j by (cases "j = 0") auto
  qed
  have 3: "fst x \<le> fst (L ! i)" if "x \<in> set (take (Suc i) L)" for x
  proof -
    obtain j where j: "x = L ! j" "j < Suc i" using \<open>x \<in> set (take (Suc i) L)\<close> by (auto simp: in_set_conv_nth)
    show ?thesis using lt[of j i] j assms(2) by (cases "j = i") auto
  qed
  have 4: "\<not> fst x \<le> fst (L ! i)" if "x \<in> set (drop (Suc i) L)" for x
  proof -
    obtain j where j: "x = L ! (Suc i + j)" "Suc i + j < length L" using \<open>x \<in> set (drop (Suc i) L)\<close> by (auto simp: in_set_conv_nth)
    show ?thesis using lt[of i "Suc i + j"] j by (simp add: not_le)
  qed
  show "filter (\<lambda>x. fst (L ! i) \<le> fst x) L = drop i L" by (subst L(1), subst filter_append) (use 1 2 in \<open>simp add: filter_empty_conv\<close>)
  show "filter (\<lambda>x. fst x \<le> fst (L ! i)) L = take (Suc i) L" by (subst L(2), subst filter_append) (use 3 4 in \<open>simp add: filter_empty_conv\<close>)
qed

lemma below_successor: "(x :: bytes) < k @ [0] \<longleftrightarrow> x \<le> k"
proof (induction k arbitrary: x)
  case Nil
  show ?case by (cases x) auto
next
  case (Cons a k)
  show ?case using Cons.IH by (cases x) auto
qed

lemma hits_next:
  assumes "store_ok s" "limit < length (hits b e s)"
  shows "hits (fst (hits b e s ! limit)) e s = drop limit (hits b e s)"
    "hits b (fst (rev (hits b e s) ! limit) @ [0]) s = rev (drop limit (rev (hits b e s)))"
proof -
  let ?L = "hits b e s" and ?E = "entries (root (ap_tree s))"
  have srt: "sorted_wrt (<) (map fst ?L)"
    using inv_parts(3)[OF assms(1)] by (simp add: tree_ok_def sorted_wrt_map sorted_wrt_filter)
  have mem: "in_range b e (fst (?L ! i)) \<and> fst (?L ! i) \<noteq> []" if "i < length ?L" for i
  proof -
    have "fst (?L ! i) \<in> set (map fst ?L)" using nth_mem[OF that] unfolding set_map by (rule imageI)
    then have "stored_key (fst (?L ! i))" using hits_facts(3)[OF assms(1), of b e] by blast
    then show ?thesis using nth_mem[OF that] by (simp add: stored_key_def)
  qed
  note m = mem[OF assms(2)]
  let ?k = "fst (?L ! limit)"
  have "in_range ?k e x \<longleftrightarrow> ?k \<le> x \<and> in_range b e x" for x using m by (auto simp: in_range_def)
  then have "hits ?k e s = filter (\<lambda>x. ?k \<le> fst x) ?L" by (auto intro!: filter_cong)
  then show "hits ?k e s = drop limit ?L" using sorted_cut(1)[OF srt assms(2)] by simp
  let ?j = "length ?L - Suc limit" let ?q = "fst (?L ! ?j)"
  have j: "?j < length ?L" "Suc ?j = length ?L - limit" using assms(2) by auto
  have "in_range b (?q @ [0]) x \<longleftrightarrow> x \<le> ?q \<and> in_range b e x" for x using mem[OF j(1)] by (auto simp: in_range_def below_successor)
  then have "hits b (?q @ [0]) s = filter (\<lambda>x. fst x \<le> ?q) ?L" by (auto intro!: filter_cong)
  also have "\<dots> = take (length ?L - limit) ?L" using sorted_cut(2)[OF srt j(1)] j(2) by simp
  also have "\<dots> = rev (drop limit (rev ?L))" by (simp add: drop_rev)
  finally show "hits b (fst (rev ?L ! limit) @ [0]) s = rev (drop limit (rev ?L))" using assms(2) by (simp add: rev_nth)
qed

lemma rget_law:
  assumes "rget_scan s b e (if asc then 0 else 1) limit = ((st, body), s')" "store_ok s"
  defines "es \<equiv> ordered asc (hits b e s)"
  shows "store_ok s' \<and> ap_tree s' = ap_tree s \<and> (st = K_STATUS_OK \<and> body = page_of limit es \<or> st = K_STATUS_ERROR)"
    "roomy s \<Longrightarrow> length (page_of limit es) \<le> K_RESPONSE_BODY_MAX \<Longrightarrow> st = K_STATUS_OK"
proof -
  let ?z = "visit_zero (ap_script s) limit"
  obtain n scan m where sn: "treap_scan (ap_mem s) (ap_tree s) b e asc k_net_scan_visit ?z = (n, scan, m)" by (metis prod_cases3)
  obtain vn vs where vi: "visit k_net_scan_visit es ?z = (vn, vs)" by fastforce
  have "sorted_wrt (<) (keys (root (ap_tree s)))" using inv_parts(3)[OF assms(2)] by (simp add: tree_ok_def)
  note L = scan_law[OF sn this, folded es_def, unfolded vi case_prod_conv]
  obtain sc bd where o: "sn_out scan = (sc, bd)" by fastforce
  let ?s = "s\<lparr>ap_mem := m, ap_script := sc\<rparr>"
  have ok: "treap_inv m (ap_tree s)" using heap_inv[OF L[THEN conjunct1] assms(2)] .
  let ?fs = "(case sn_next scan of None \<Rightarrow> [FU8 0] | Some k \<Rightarrow> [FU8 1, FU32 (of_nat (length k)), FBytes k]) @ [FBytes (buf_data bd)]"
  obtain sc2 resp where pf: "put_fields (sc, k_buf_zero) ?fs = (sc2, resp)" by (rule prod.exhaust)
  have u: "((st, body), s') = (if n = -1 \<or> buf_err bd then ((K_STATUS_ERROR, ascii ''scan failed''), ?s)
      else if sn_too_large scan then ((K_STATUS_ERROR, ascii ''scan result too large''), ?s)
      else if limit > 0 then (if buf_err resp \<or> length (buf_data resp) > K_RESPONSE_BODY_MAX then (K_STATUS_ERROR, ascii ''scan result too large'') else (K_STATUS_OK, buf_data resp), ?s\<lparr>ap_script := sc2\<rparr>)
      else ((K_STATUS_OK, buf_data bd), ?s))"
  proof -
    have e: "(if root (ap_tree s) \<noteq> Null \<and> (if asc then 0 else 1 :: u8) > 1 then (-1, ?z, ap_mem s)
        else treap_scan (ap_mem s) (ap_tree s) b e ((if asc then 0 else 1 :: u8) = 0) k_net_scan_visit ?z) = (n, scan, m)" using sn by (cases asc) simp_all
    show ?thesis using assms(1) unfolding rget_scan_def e Let_def case_prod_conv o pf by (rule sym)
  qed
  have z: "buf_wf (snd (sn_out ?z))" "sn_limit ?z = 0 \<or> sn_count ?z \<le> sn_limit ?z" "sn_next ?z = None" "\<not> sn_too_large ?z" "buf_data (snd (sn_out ?z)) = []"
    by (simp_all add: visit_zero_def k_buf_zero_def buf_wf_def)
  have tk: "taken ?z es = (if limit = 0 then es else take limit es)" "left_key ?z es = (if limit \<noteq> 0 \<and> limit < length es then Some (fst (es ! limit)) else None)"
    by (simp_all add: taken_def left_key_def visit_zero_def)
  have good: "buf_data bd = page_text (taken ?z es) \<and> sn_next scan = left_key ?z es" if "n \<noteq> -1" "\<not> buf_err bd" "\<not> sn_too_large scan"
  proof -
    have "scan = vs" using L that(1) by blast
    then show ?thesis using net_visit_law[OF vi z(1) _ _ z(2,3)] that o z(5) by (simp add: page_text_def)
  qed
  have pg: "concat (map wire ?fs) = page_of limit es" if "n \<noteq> -1" "\<not> buf_err bd" "\<not> sn_too_large scan" "limit > 0"
    using good[OF that(1-3)] that(4) by (auto simp: tk page_of_def block_def)
  have re: "\<not> buf_err resp \<Longrightarrow> buf_data resp = concat (map wire ?fs)"
    using appends_fields[of "(sc, k_buf_zero)" ?fs] pf by (simp add: appends_def k_buf_zero_def buf_wf_def)
  show "store_ok s' \<and> ap_tree s' = ap_tree s \<and> (st = K_STATUS_OK \<and> body = page_of limit es \<or> st = K_STATUS_ERROR)"
  proof (cases "n = -1 \<or> buf_err bd \<or> sn_too_large scan")
    case True
    then show ?thesis using u ok by (auto split: if_splits)
  next
    case False
    then have f: "n \<noteq> -1" "\<not> buf_err bd" "\<not> sn_too_large scan" by simp_all
    show ?thesis
    proof (cases "limit > 0")
      case True
      then show ?thesis using u f ok re pg[OF f True] by (auto split: if_splits)
    next
      case False
      then show ?thesis using u f ok good[OF f] tk by (auto simp: page_of_def)
    qed
  qed
  show "st = K_STATUS_OK" if r: "roomy s" and len: "length (page_of limit es) \<le> K_RESPONSE_BODY_MAX"
  proof -
    have "length es < 2 ^ 31" using r hits_few[of s "2 ^ 31" b e] by (simp add: es_def ordered_def roomy_def)
    then have vn: "of_nat vn \<noteq> (-1 :: u64)" using small_count[of vn] visit_bound[OF vi] by simp
    have sc: "n = of_nat vn" "scan = vs" using L r by (auto simp: roomy_def)
    have h: "holds (sn_out ?z) []" using r by (simp add: roomy_def visit_zero_def holds_def k_buf_zero_def buf_wf_def)
    have "length (page_text (taken ?z es)) \<le> length (page_of limit es)" by (simp add: page_of_def tk)
    then have R: "\<not> sn_too_large vs \<and> fst (sn_out vs) = [] \<and> \<not> buf_err (snd (sn_out vs))"
      using net_visit_room[OF vi h _ z(2,4)] len by (simp add: page_text_def)
    then have f: "n \<noteq> -1" "\<not> buf_err bd" "\<not> sn_too_large scan" "sc = []" using sc vn o by auto
    have ne: "\<not> buf_err resp" if "limit > 0"
    proof -
      have "holds (sc, k_buf_zero) []" using f(4) by (simp add: holds_def k_buf_zero_def buf_wf_def)
      moreover have "length ([] :: bytes) + length (concat (map wire ?fs)) \<le> 0xffffffff" unfolding pg[OF f(1-3) that] using len by simp
      ultimately show ?thesis using holds_fields[of "(sc, k_buf_zero)" "[]" ?fs] unfolding pf by (simp add: holds_def)
    qed
    show ?thesis
    proof (cases "limit > 0")
      case True
      have "buf_data resp = page_of limit es" using re[OF ne[OF True]] unfolding pg[OF f(1-3) True] .
      then show ?thesis using u f(1-3) ne[OF True] True len by simp
    next
      case False
      then show ?thesis using u f(1-3) by simp
    qed
  qed
qed

lemma ends_spec:
  "found (leftmost t) = (if entries t = [] then None else Some (hd (entries t)))"
  "found (rightmost t) = (if entries t = [] then None else Some (last (entries t)))"
proof -
  have n: "entries u = [] \<longleftrightarrow> u = Null" for u by (cases u) auto
  show "found (leftmost t) = (if entries t = [] then None else Some (hd (entries t)))"
    by (induction t) (auto simp: found_def n)
  show "found (rightmost t) = (if entries t = [] then None else Some (last (entries t)))"
    by (induction t) (auto simp: found_def n)
qed

lemma end_entry:
  assumes "store_ok s"
  shows "(if b \<noteq> [] \<or> e \<noteq> [] then if low then treap_min_range (ap_tree s) b e else treap_max_range (ap_tree s) b e
      else if low then treap_min (ap_tree s) else treap_max (ap_tree s))
    = (if hits b e s = [] then None else Some (if low then hd (hits b e s) else last (hits b e s)))"
proof (cases "b \<noteq> [] \<or> e \<noteq> []")
  case True
  then show ?thesis using treap_range_ends[OF assms, of b e] by (simp add: Let_def)
next
  case False
  then have "hits b e s = entries (root (ap_tree s))" by (simp add: in_range_def)
  then show ?thesis using False by (simp add: treap_min_def treap_max_def ends_spec) (simp add: found_def)
qed

subsection \<open>Several point reads\<close>

definition found_line :: "(bytes \<rightharpoonup> bytes) \<Rightarrow> bytes \<Rightarrow> bytes" where
  "found_line g k = (case g k of None \<Rightarrow> [] | Some v \<Rightarrow> k @ [61] @ v @ [10])"

lemma mget_sticky: "mget_loop t n r sb = (big, r', sb') \<Longrightarrow> buf_wf (snd sb) \<Longrightarrow> buf_err (snd sb) \<Longrightarrow> buf_err (snd sb')"
proof (induction n arbitrary: r sb)
  case (Suc n)
  have "buf_wf (snd (put_fields sb fs)) \<and> buf_err (snd (put_fields sb fs))" for fs using appends_fields[of sb fs] Suc.prems(2,3) by (simp add: appends_def)
  note put = this
  obtain a r1 where 1: "rd_u32 r = (a, r1)" by fastforce
  obtain key r2 where 2: "k_reader_bytes r1 a = (key, r2)" by fastforce
  obtain rc v where 3: "treap_get t (key_of key) = (rc, v)" by fastforce
  have "sb' = sb \<or> mget_loop t n r2 (put_fields sb [FBytes (key_of key), FU8 61, FBytes v, FU8 10]) = (big, r', sb') \<or> mget_loop t n r2 sb = (big, r', sb')"
    using Suc.prems(1) 1 2 3 by (simp split: if_splits)
  then show ?case using Suc.IH put Suc.prems(2,3) by blast
qed simp

lemma mget_wire:
  assumes "mget_loop t (length ks) (rdr pre (concat (map block ks))) sb = (big, r, sb')" "tree_ok seed (root t)" "\<forall>k\<in>set ks. key_ok k"
    "buf_wf (snd sb)" "\<not> big" "\<not> buf_err (snd sb')"
  shows "buf_data (snd sb') = buf_data (snd sb) @ concat (map (found_line (store_map t)) ks) \<and> \<not> rd_err r"
  using assms
proof (induction ks arbitrary: pre sb)
  case (Cons k ks)
  have ok: "key_ok k" "\<forall>k\<in>set ks. key_ok k" and len: "length k < 2 ^ 32" using Cons.prems(3) by auto
  let ?rest = "concat (map block ks)"
  note bp = block_parts[OF len, of pre ?rest]
  note g = treap_get_spec[OF Cons.prems(2), of k]
  show ?case
  proof (cases "store_map t k")
    case None
    then have "mget_loop t (length ks) (rdr (pre @ block k) ?rest) sb = (big, r, sb')" using Cons.prems(1) bp g ok(1) by simp
    from Cons.IH[OF this Cons.prems(2) ok(2) Cons.prems(4-6)] show ?thesis using None by (simp add: found_line_def)
  next
    case (Some v)
    let ?sb = "put_fields sb [FBytes k, FU8 61, FBytes v, FU8 10]"
    have m: "mget_loop t (length ks) (rdr (pre @ block k) ?rest) ?sb = (big, r, sb')" using Cons.prems(1,5) bp g ok(1) Some by (simp split: if_splits)
    have a: "appends sb (k @ [61] @ v @ [10]) ?sb" using appends_fields[of sb "[FBytes k, FU8 61, FBytes v, FU8 10]"] by (simp add: k_write_u8_def)
    have wf: "buf_wf (snd ?sb)" using a Cons.prems(4) by (simp add: appends_def)
    note I = Cons.IH[OF m Cons.prems(2) ok(2) wf Cons.prems(5,6)]
    have "\<not> buf_err (snd ?sb)" using mget_sticky[OF m] wf Cons.prems(6) by blast
    then show ?thesis using I a Cons.prems(4) Some by (simp add: appends_def found_line_def)
  qed
qed (auto simp: rdr_def)

text \<open>The answer to a request for several keys holds a line for each key that exists, in the order of the request.\<close>

lemma mget_reply_correct:
  assumes "mget_reply s (k_write_u32 (of_nat (length ks)) @ concat (map block ks)) = ((st, body), s')" "store_ok s" "\<forall>k\<in>set ks. key_ok k" "length ks < 2 ^ 32"
  shows "ap_tree s' = ap_tree s \<and> (st = K_STATUS_OK \<and> body = concat (map (found_line (contents s)) ks) \<or> st = K_STATUS_ERROR)"
proof -
  obtain big r sc bd where m: "mget_loop (ap_tree s) (length ks) (rdr (k_write_u32 (of_nat (length ks))) (concat (map block ks))) (ap_script s, k_buf_zero) = (big, r, sc, bd)"
    by (metis prod_cases4)
  have u: "(if rd_err r \<or> buf_err bd then (K_STATUS_ERROR, ascii ''mget failed'') else if big then (K_STATUS_ERROR, ascii ''result too large'') else (K_STATUS_OK, buf_data bd)) = (st, body)"
    "ap_tree s' = ap_tree s" using assms(1,4) m by (auto simp: mget_reply_def rdr_init unat_small)
  have "\<not> big \<Longrightarrow> \<not> buf_err bd \<Longrightarrow> buf_data bd = concat (map (found_line (contents s)) ks)"
    using mget_wire[OF m inv_parts(3)[OF assms(2)] assms(3)] by (simp add: k_buf_zero_def buf_wf_def)
  then show ?thesis using u by (auto split: if_splits)
qed

subsection \<open>The properties\<close>

text \<open>C23. Reads answer from the abstract map: a point read returns the value of its key or says that there is none, a
  count is the number of keys in the range (an empty bound being open), and the smallest or largest entry of a range
  is the first or last of the sorted entries in it; with memory it is returned whenever its line fits in a response.\<close>

theorem read_replies_correct:
  assumes "store_ok s" "length (entries (root (ap_tree s))) < 2 ^ 64" "end_reply low s b e = ((st, body), s')"
  shows "get_reply s key = (if key = [] then (K_STATUS_ERROR, ascii ''read failed'')
      else case contents s key of Some v \<Rightarrow> (K_STATUS_OK, v) | None \<Rightarrow> (K_STATUS_NOT_FOUND, []))
    \<and> count_reply s b e = (K_STATUS_OK, dec_bytes (card {k \<in> dom (contents s). in_range b e k}))
    \<and> (let es = hits b e s; text = put_line [] (if low then hd es else last es)
       in if es = [] then st = K_STATUS_OK \<and> body = ascii ''(empty)''
          else (st = K_STATUS_OK \<and> body = text \<or> st = K_STATUS_ERROR) \<and> (ap_script s = [] \<longrightarrow> length text \<le> K_RESPONSE_BODY_MAX \<longrightarrow> st = K_STATUS_OK))"
proof (intro conjI)
  show "get_reply s key = (if key = [] then (K_STATUS_ERROR, ascii ''read failed'') else case contents s key of Some v \<Rightarrow> (K_STATUS_OK, v) | None \<Rightarrow> (K_STATUS_NOT_FOUND, []))"
    using treap_get_spec[OF inv_parts(3)[OF assms(1)], of key] by (cases "contents s key") (simp_all add: get_reply_def)
  have c: "unat (treap_count (ap_tree s)) = length (entries (root (ap_tree s)))" "unat (treap_count_range (ap_tree s) b e) = length (hits b e s)"
    using treap_order_statistics[OF assms(1,2), of "[0]" b e 0] by simp_all
  show "count_reply s b e = (K_STATUS_OK, dec_bytes (card {k \<in> dom (contents s). in_range b e k}))"
    unfolding hits_facts(2)[OF assms(1)] using c by (auto simp: count_reply_def in_range_def)
  let ?x = "if low then hd (hits b e s) else last (hits b e s)"
  obtain sc bd where pf: "put_fields (ap_script s, k_buf_zero) [FBytes (fst ?x), FU8 61, FBytes (snd ?x)] = (sc, bd)" by (rule prod.exhaust)
  have w: "concat (map wire [FBytes (fst ?x), FU8 61, FBytes (snd ?x)]) = put_line [] ?x" by (simp add: put_line_def k_write_u8_def)
  have bd: "\<not> buf_err bd \<Longrightarrow> buf_data bd = put_line [] ?x"
    using appends_fields[of "(ap_script s, k_buf_zero)" "[FBytes (fst ?x), FU8 61, FBytes (snd ?x)]"] unfolding pf w by (simp add: appends_def k_buf_zero_def buf_wf_def)
  have room: "\<not> buf_err bd" if "ap_script s = []" "length (put_line [] ?x) \<le> K_RESPONSE_BODY_MAX"
  proof -
    have "holds (ap_script s, k_buf_zero) []" using that(1) by (simp add: holds_def k_buf_zero_def buf_wf_def)
    from holds_fields[OF this, of "[FBytes (fst ?x), FU8 61, FBytes (snd ?x)]"] show ?thesis unfolding pf w using that(2) by (simp add: holds_def)
  qed
  show "let es = hits b e s; text = put_line [] (if low then hd es else last es)
       in if es = [] then st = K_STATUS_OK \<and> body = ascii ''(empty)''
          else (st = K_STATUS_OK \<and> body = text \<or> st = K_STATUS_ERROR) \<and> (ap_script s = [] \<longrightarrow> length text \<le> K_RESPONSE_BODY_MAX \<longrightarrow> st = K_STATUS_OK)"
  proof (cases "hits b e s = []")
    case True
    then show ?thesis using assms(3) unfolding end_reply_def end_entry[OF assms(1)] Let_def by simp
  next
    case False
    have "(if buf_err bd \<or> length (buf_data bd) > K_RESPONSE_BODY_MAX then (K_STATUS_ERROR, ascii ''result too large'') else (K_STATUS_OK, buf_data bd)) = (st, body)"
    proof -
      obtain k v where x: "?x = (k, v)" by fastforce
      show ?thesis using assms(3) False pf[unfolded x fst_conv snd_conv] unfolding end_reply_def end_entry[OF assms(1)] Let_def x by simp
    qed
    then show ?thesis unfolding Let_def using False bd room by (auto split: if_splits)
  qed
qed

lemma read_replies_correct_witness:
  "\<exists>s'. end_reply False sample_server [] [] = ((K_STATUS_OK, [2, 3, 61, 8]), s')
    \<and> get_reply sample_server [1] = (K_STATUS_OK, [7, 7]) \<and> count_reply sample_server [2] [] = (K_STATUS_OK, dec_bytes 1)"
proof -
  obtain st body s' where e: "end_reply False sample_server [] [] = ((st, body), s')" by (metis prod.exhaust)
  have h: "hits [] [] sample_server = [([1], [7, 7]), ([2, 3], [8])]" "hits [2] [] sample_server = [([2, 3], [8])]"
    by (simp_all add: sample_server_def sample_facts(3) in_range_def)
  have l: "length (entries (root (ap_tree sample_server))) < 2 ^ 64" using sample_server_facts(4) by simp
  obtain st2 b2 s2 where e2: "end_reply False sample_server [2] [] = ((st2, b2), s2)" by (metis prod.exhaust)
  have c: "card {k \<in> dom (contents sample_server). in_range [2] [] k} = 1" using hits_facts(2)[OF sample_server_facts(1), of "[2]" "[]"] h(2) by simp
  note R = read_replies_correct[OF sample_server_facts(1) l e, of "[1]"] and R2 = read_replies_correct[OF sample_server_facts(1) l e2, of "[1]"]
  have "ap_script sample_server = []" by (simp add: sample_server_def)
  then have "st = K_STATUS_OK" "body = [2, 3, 61, 8]" using R unfolding h Let_def by (auto simp: put_line_def)
  then show ?thesis using e R R2 unfolding c by (simp add: sample_server_facts(3))
qed

text \<open>C24. A range scan returns exactly a page of its range in order: all entries without a limit, else the first ones up
  to the limit behind a flag that tells whether entries remain, with the key of the next entry. Continuing an
  ascending scan at that key, or a descending one below that key followed by a zero byte, yields exactly the remaining
  entries, so that pages neither skip nor repeat. The store is unchanged, and with memory every page that fits in a
  response is returned.\<close>

theorem rget_page_correct:
  assumes "rget_scan s b e (if asc then 0 else 1) limit = ((st, body), s')" "store_ok s"
  defines "es \<equiv> ordered asc (hits b e s)"
  shows "store_ok s' \<and> ap_tree s' = ap_tree s \<and> (st = K_STATUS_OK \<and> body = page_of limit es \<or> st = K_STATUS_ERROR)
    \<and> (roomy s \<longrightarrow> length (page_of limit es) \<le> K_RESPONSE_BODY_MAX \<longrightarrow> st = K_STATUS_OK)
    \<and> (limit < length es \<longrightarrow> (let k = fst (es ! limit) in if asc then hits k e s = drop limit es else rev (hits b (k @ [0]) s) = drop limit es))"
proof -
  have "let k = fst (es ! limit) in if asc then hits k e s = drop limit es else rev (hits b (k @ [0]) s) = drop limit es" if "limit < length es"
    using that hits_next[OF assms(2), of limit b e] by (cases asc) (simp_all add: es_def ordered_def Let_def)
  then show ?thesis using rget_law[OF assms(1,2), folded es_def] by blast
qed

lemma rget_page_correct_witness:
  "\<exists>s'. rget_scan sample_server [] [] 1 1 = ((K_STATUS_OK, [1] @ block [1] @ [2, 3, 61, 8]), s') \<and> rev (hits [] [1, 0] sample_server) = [([1], [7, 7])]"
proof -
  obtain st body s' where r: "rget_scan sample_server [] [] (if False then 0 else 1) 1 = ((st, body), s')" by (metis prod.exhaust)
  have h: "ordered False (hits [] [] sample_server) = [([2, 3], [8]), ([1], [7, 7])]" by (simp add: sample_server_def sample_facts(3) in_range_def ordered_def)
  have p: "page_of 1 [([2, 3], [8]), ([1], [7, 7])] = [1] @ block [1] @ [2, 3, 61, 8]" by (simp add: page_of_def page_text_def put_line_def k_write_u8_def)
  have l: "length ([1] @ block [1] @ [2, 3, 61, 8]) \<le> K_RESPONSE_BODY_MAX" by (simp add: block_def u32c.length_enc)
  note R = rget_page_correct[OF r sample_server_facts(1), unfolded h p]
  have "st = K_STATUS_OK" "body = [1] @ block [1] @ [2, 3, 61, 8]" using R l sample_server_facts(2) by auto
  then show ?thesis using r R by (auto simp: Let_def)
qed

end
