(* ===== verification/Server_Clock.thy ===== *)
theory Server_Clock
  imports Server_Codec Server_Wal
begin

section \<open>Time, batching and admission\<close>

text \<open>
  The driver's clock and the policies of \<^verbatim>\<open>src/code/kserver.h\<close> that keep the server within bounds:
  \<^verbatim>\<open>k_server_elapsed_step\<close> turns samples of the wall clock into whole milliseconds, the group-commit policy
  decides when a batch of writes is submitted, and \<^verbatim>\<open>k_request_create_server\<close> with \<^verbatim>\<open>k_request_free\<close> accounts
  for the requests in flight.
\<close>

subsection \<open>The clock\<close>

text \<open>The milliseconds to advance and the new origin.\<close>

definition k_server_elapsed_step :: "u64 \<Rightarrow> u64 \<Rightarrow> u32 \<Rightarrow> u32 \<times> u64" where
  "k_server_elapsed_step now_us last_us cap_ms =
     (if last_us = 0 then (0, now_us)
      else if now_us \<le> last_us then (0, last_us)
      else let ms = (now_us - last_us) div 1000
        in if cap_ms \<noteq> 0 \<and> ms > ucast cap_ms then (cap_ms, now_us)
           else if ms = 0 then (0, last_us)
           else (ucast ms, last_us + ms * 1000))"

text \<open>A run of samples: the total of milliseconds and the final origin.\<close>

fun clock_run :: "u32 \<Rightarrow> u64 list \<Rightarrow> u64 \<Rightarrow> nat \<times> u64" where
  "clock_run cap [] org = (0, org)"
| "clock_run cap (now # samples) org =
     (case k_server_elapsed_step now org cap of (ms, org) \<Rightarrow> case clock_run cap samples org of (n, org) \<Rightarrow> (unat ms + n, org))"

lemma elapsed_step_law:
  assumes "k_server_elapsed_step now org cap = (ms, org')" "org \<noteq> 0"
  shows "unat org \<le> unat org'" "unat org' \<le> max (unat org) (unat now)" "unat ms * 1000 \<le> unat org' - unat org"
    "cap \<noteq> 0 \<Longrightarrow> ms \<le> cap" "org' \<noteq> 0"
    "unat now < unat org' + 1000"
    "unat now - unat org < unat cap * 1000 + 1000 \<Longrightarrow> unat org' = unat org + unat ms * 1000"
proof -
  have "unat org \<le> unat org' \<and> unat org' \<le> max (unat org) (unat now) \<and> unat ms * 1000 \<le> unat org' - unat org \<and> (cap \<noteq> 0 \<longrightarrow> ms \<le> cap)
    \<and> unat now < unat org' + 1000 \<and> (unat now - unat org < unat cap * 1000 + 1000 \<longrightarrow> unat org' = unat org + unat ms * 1000)"
  proof (cases "now \<le> org")
    case True
    then show ?thesis using assms by (auto simp: k_server_elapsed_step_def word_le_nat_alt)
  next
    case False
    then have lt: "unat org < unat now" by (simp add: word_le_nat_alt)
    define D where "D = (unat now - unat org) div 1000"
    define q where "q = (now - org) div 1000"
    have d: "unat q = D" using False by (simp add: q_def D_def unat_div unat_sub word_le_nat_alt)
    have m: "D * 1000 \<le> unat now - unat org" "unat now - unat org < D * 1000 + 1000" unfolding D_def by (simp_all add: div_times_less_eq_dividend)
    have nb: "unat now < 2 ^ 64" by (rule order_less_le_trans[OF unsigned_less]) simp
    have s: "unat (org + q * 1000) = unat org + D * 1000"
      using m(1) nb lt by (simp add: unat_word_ariths d)
    have cb: "unat cap < 2 ^ 32" by (rule order_less_le_trans[OF unsigned_less]) simp
    then have c: "unat (ucast cap :: u64) = unat cap" by (simp add: unsigned_ucast_eq take_bit_nat_eq_self)
    show ?thesis
    proof (cases "cap \<noteq> 0 \<and> q > ucast cap")
      case True
      then have "ms = cap" "org' = now" "unat cap < D" using assms False c d by (auto simp: k_server_elapsed_step_def Let_def q_def word_less_nat_alt)
      then show ?thesis using m lt by auto
    next
      case no: False
      show ?thesis
      proof (cases "D = 0")
        case True
        then have "q = 0" using d by (simp add: unat_eq_zero)
        then have "ms = 0" "org' = org" using assms False no by (auto simp: k_server_elapsed_step_def Let_def q_def split: if_splits)
        then show ?thesis using lt m True by auto
      next
        case pos: False
        then have "q \<noteq> 0" using d by (metis unat_0)
        then have e: "ms = ucast (q)" "org' = org + q * 1000"
          using assms False no by (auto simp: k_server_elapsed_step_def Let_def q_def split: if_splits)
        have ms: "unat ms = D mod 2 ^ 32" unfolding e(1) by (simp add: unsigned_ucast_eq d take_bit_eq_mod)
        have "cap \<noteq> 0 \<Longrightarrow> D \<le> unat cap" using no c d by (auto simp: word_less_nat_alt not_less)
        then show ?thesis using cb ms s e(2) m lt pos by (cases "cap = 0") (auto simp: word_le_nat_alt)
      qed
    qed
  qed
  then show "unat org \<le> unat org'" "unat org' \<le> max (unat org) (unat now)" "unat ms * 1000 \<le> unat org' - unat org"
    "cap \<noteq> 0 \<Longrightarrow> ms \<le> cap" "unat now < unat org' + 1000" "unat now - unat org < unat cap * 1000 + 1000 \<Longrightarrow> unat org' = unat org + unat ms * 1000" by blast+
  then show "org' \<noteq> 0" using assms(2) by (metis le_zero_eq unat_0 unat_eq_zero)
qed

lemma clock_run_law:
  assumes "clock_run cap samples org = (n, org')" "org \<noteq> 0" "\<forall>x\<in>set samples. unat x \<le> T" "unat org \<le> T"
  shows "unat org \<le> unat org' \<and> unat org' \<le> T \<and> n * 1000 \<le> unat org' - unat org \<and> (\<forall>x\<in>set samples. unat x < unat org' + 1000)"
  using assms
proof (induction samples arbitrary: org n)
  case (Cons now samples)
  obtain ms o1 where st: "k_server_elapsed_step now org cap = (ms, o1)" by fastforce
  obtain n1 where r: "clock_run cap samples o1 = (n1, org')" "n = unat ms + n1" using Cons.prems(1) st by (auto split: prod.splits)
  note E = elapsed_step_law[OF st Cons.prems(2)]
  have o1: "unat o1 \<le> T" using E(2) Cons.prems(3,4) by (simp add: max_def split: if_splits)
  note I = Cons.IH[OF r(1) E(5) _ o1]
  show ?case using I Cons.prems(3) E(1,3,6) r(2) by (auto simp: add_mult_distrib)
qed simp

text \<open>
  Without a stall nothing is lost: each sample is within the cap of the one before it. The origin lags less than a
  millisecond behind the last sample, so the cap is never exceeded.
\<close>

lemma clock_run_exact:
  assumes "clock_run cap samples org = (n, org')" "org \<noteq> 0" "unat prev < unat org + 1000"
    and "\<forall>i<length samples. unat (samples ! i) \<le> unat ((prev # samples) ! i) + unat cap * 1000"
  shows "unat org' = unat org + n * 1000"
  using assms
proof (induction samples arbitrary: org n prev)
  case (Cons now samples)
  obtain ms o1 where st: "k_server_elapsed_step now org cap = (ms, o1)" by fastforce
  obtain n1 where r: "clock_run cap samples o1 = (n1, org')" "n = unat ms + n1" using Cons.prems(1) st by (auto split: prod.splits)
  note E = elapsed_step_law[OF st Cons.prems(2)]
  have g: "unat now \<le> unat prev + unat cap * 1000" "\<forall>i<length samples. unat (samples ! i) \<le> unat ((now # samples) ! i) + unat cap * 1000"
    using Cons.prems(4) by (auto simp: All_less_Suc2)
  have "unat o1 = unat org + unat ms * 1000" by (rule E(7)) (use g(1) Cons.prems(3) in linarith)
  then show ?case using Cons.IH[OF r(1) E(5) E(6) g(2)] r(2) by (simp add: add_mult_distrib)
qed simp

subsection \<open>Batching\<close>

text \<open>The write queue as the policy sees it: how many writes and bytes wait, how old the batch is, and how many were submitted.\<close>

record k_batch =
  bt_count :: u32
  bt_bytes :: u64
  bt_elapsed :: u32
  bt_batches :: u64
  bt_cfg :: k_cfg

datatype k_flush_reason = FlushNoReason | FlushTarget | FlushBytes | FlushWindow | FlushDrain | FlushBarrier | FlushStop

text \<open>Why the queue would be submitted now, if it is.\<close>

definition flush_choice :: "k_batch \<Rightarrow> bool \<Rightarrow> k_flush_reason option" where
  "flush_choice b new_writes_arrived =
     (if bt_count b = 0 then None
      else if bt_count b \<ge> cfg_flush_item_limit (bt_cfg b) then Some FlushTarget
      else if cfg_flush_bytes_limit (bt_cfg b) \<noteq> 0 \<and> bt_bytes b \<ge> ucast (cfg_flush_bytes_limit (bt_cfg b)) then Some FlushBytes
      else if \<not> new_writes_arrived then Some FlushDrain else None)"

definition k_server_batch_start :: "k_batch \<Rightarrow> k_batch" where
  "k_server_batch_start b = (if bt_count b \<noteq> 0 then b\<lparr>bt_elapsed := 0\<rparr> else b)"

definition k_server_batch_elapsed_ms :: "k_batch \<Rightarrow> u32 \<Rightarrow> u32 \<Rightarrow> u64 \<Rightarrow> u32 \<times> k_batch" where
  "k_server_batch_elapsed_ms b elapsed_ms pending_before flushes_before =
     (if bt_count b \<noteq> 0 \<and> (pending_before = 0 \<or> bt_batches b \<noteq> flushes_before) then (0, k_server_batch_start b) else (elapsed_ms, b))"

definition k_server_flush_deadline_ms :: "k_batch \<Rightarrow> int" where
  "k_server_flush_deadline_ms b =
     (if bt_count b = 0 then -1
      else if bt_elapsed b \<ge> cfg_flush_timeout_ms (bt_cfg b) then 0
      else sint (cfg_flush_timeout_ms (bt_cfg b) - bt_elapsed b))"

text \<open>A held batch is below both limits and writes are still arriving: a queue is never held once its input has drained.\<close>

lemma flush_held:
  "flush_choice b arrived = None \<longleftrightarrow> bt_count b = 0 \<or> arrived \<and> bt_count b < cfg_flush_item_limit (bt_cfg b)
     \<and> (cfg_flush_bytes_limit (bt_cfg b) = 0 \<or> bt_bytes b < ucast (cfg_flush_bytes_limit (bt_cfg b)))"
  by (auto simp: flush_choice_def not_le)

text \<open>Waiting for the deadline makes the batch exactly as old as the window allows, and an expired window is not waited for.\<close>

lemma flush_deadline_exact:
  assumes "bt_count b \<noteq> 0" "unat (cfg_flush_timeout_ms (bt_cfg b)) < 2 ^ 31"
  shows "0 \<le> k_server_flush_deadline_ms b"
    "unat (bt_elapsed b) + nat (k_server_flush_deadline_ms b) = max (unat (bt_elapsed b)) (unat (cfg_flush_timeout_ms (bt_cfg b)))"
proof -
  let ?t = "cfg_flush_timeout_ms (bt_cfg b)" let ?e = "bt_elapsed b"
  have "k_server_flush_deadline_ms b = int (unat ?t - unat ?e)"
  proof (cases "?e \<ge> ?t")
    case True
    then show ?thesis using assms(1) by (simp add: k_server_flush_deadline_ms_def word_le_nat_alt)
  next
    case False
    then have d: "unat (?t - ?e) = unat ?t - unat ?e" by (simp add: unat_sub)
    then have "sint (?t - ?e) = int (unat (?t - ?e))" using assms(2) by (simp add: sint_uint signed_take_bit_int_eq_self uint_nat)
    then show ?thesis using False assms(1) d by (simp add: k_server_flush_deadline_ms_def)
  qed
  then show "0 \<le> k_server_flush_deadline_ms b" "unat ?e + nat (k_server_flush_deadline_ms b) = max (unat ?e) (unat ?t)" by simp_all
qed

text \<open>A batch that is new in this round starts at age zero and is charged nothing; any other batch keeps its age.\<close>

lemma batch_age:
  assumes "k_server_batch_elapsed_ms b ms pending flushes = (charge, b')"
  shows "b' = b\<lparr>bt_elapsed := bt_elapsed b'\<rparr>"
    "bt_count b \<noteq> 0 \<and> (pending = 0 \<or> bt_batches b \<noteq> flushes) \<Longrightarrow> charge = 0 \<and> bt_elapsed b' = 0"
    "\<not> (bt_count b \<noteq> 0 \<and> (pending = 0 \<or> bt_batches b \<noteq> flushes)) \<Longrightarrow> charge = ms \<and> b' = b"
  using assms by (auto simp: k_server_batch_elapsed_ms_def k_server_batch_start_def split: if_splits)

subsection \<open>Requests in flight\<close>

abbreviation K_REQUEST_INFLIGHT_MAX :: u32 where "K_REQUEST_INFLIGHT_MAX \<equiv> 16384"
abbreviation K_REQUEST_BYTES_MAX :: u64 where "K_REQUEST_BYTES_MAX \<equiv> 268435456"
abbreviation K_REQUEST_HASH_BUCKETS :: u64 where "K_REQUEST_HASH_BUCKETS \<equiv> 1024"

text \<open>A request is named by its address, which is its cookie.\<close>

definition k_request_bucket :: "u64 \<Rightarrow> u32" where
  "k_request_bucket cookie =
     (let v = cookie XOR drop_bit 17 cookie; v = v * 0x9e3779b97f4a7c15; v = v XOR drop_bit 29 v
      in ucast (v AND (K_REQUEST_HASH_BUCKETS - 1)))"

text \<open>The list of requests with the memory charged to each, newest first; the chains of the hash table; the totals.\<close>

record k_admission =
  ad_requests :: "(u64 \<times> u64) list"
  ad_hash :: "u32 \<Rightarrow> u64 list"
  ad_count :: u32
  ad_bytes :: u64
  ad_total :: u64

text \<open>\<open>sz\<close> is \<^verbatim>\<open>sizeof(k_request)\<close> and \<open>cookie\<close> the address the allocator returns, when it returns one. The list of a
  connection's own requests and the copied key and range end are not part of the table.\<close>

definition k_request_create_server :: "u64 \<Rightarrow> script \<Rightarrow> k_admission \<Rightarrow> u64 \<Rightarrow> u32 \<Rightarrow> u32 \<Rightarrow> u64 \<Rightarrow> u64 option \<times> script \<times> k_admission" where
  "k_request_create_server sz sc a cookie key_len end_len payload_size =
     (if payload_size > (K_REQUEST_BYTES_MAX - sz) div 2 then (None, sc, a)
      else let charge = sz + payload_size * 2
        in if ad_count a \<ge> K_REQUEST_INFLIGHT_MAX \<or> ad_bytes a > K_REQUEST_BYTES_MAX - charge then (None, sc, a)
           else let a = a\<lparr>ad_total := ad_total a + 1\<rparr>; (ok, sc) = alloc sc
             in if \<not> ok then (None, sc, a)
                else let (ok, sc) = (if key_len \<noteq> 0 then alloc sc else (True, sc))
                  in if \<not> ok then (None, sc, a)
                     else let (ok, sc) = (if end_len \<noteq> 0 then alloc sc else (True, sc))
                       in if \<not> ok then (None, sc, a)
                          else (Some cookie, sc, a\<lparr>ad_requests := (cookie, charge) # ad_requests a,
                                 ad_hash := (ad_hash a)(k_request_bucket cookie := cookie # ad_hash a (k_request_bucket cookie)),
                                 ad_count := ad_count a + 1, ad_bytes := ad_bytes a + charge\<rparr>))"

definition k_request_unlink :: "k_admission \<Rightarrow> u64 \<Rightarrow> k_admission" where
  "k_request_unlink a cookie =
     a\<lparr>ad_requests := filter (\<lambda>r. fst r \<noteq> cookie) (ad_requests a),
       ad_hash := (ad_hash a)(k_request_bucket cookie := remove1 cookie (ad_hash a (k_request_bucket cookie)))\<rparr>"

text \<open>The accounting at the end of \<^verbatim>\<open>k_request_free\<close>, for a request that charged \<open>tracked\<close> bytes, and the release of a request
  that does not hold the write gate.\<close>

definition request_uncharge :: "k_admission \<Rightarrow> u64 \<Rightarrow> k_admission" where
  "request_uncharge a tracked =
     a\<lparr>ad_count := (if ad_count a > 0 then ad_count a - 1 else ad_count a),
       ad_bytes := (if tracked \<le> ad_bytes a then ad_bytes a - tracked else 0)\<rparr>"

definition request_release :: "k_admission \<Rightarrow> u64 \<Rightarrow> u64 \<Rightarrow> k_admission" where
  "request_release a cookie tracked = request_uncharge (k_request_unlink a cookie) tracked"

definition k_request_find :: "k_admission \<Rightarrow> u64 \<Rightarrow> u64 option" where
  "k_request_find a cookie = (if cookie = 0 then None else find (\<lambda>c. c = cookie) (ad_hash a (k_request_bucket cookie)))"

subsection \<open>Invariant of the request table\<close>

text \<open>The totals are those of the list, they are within the limits, and every chain holds the requests of its bucket.\<close>

definition admission_inv :: "k_admission \<Rightarrow> bool" where
  "admission_inv a \<longleftrightarrow> distinct (map fst (ad_requests a)) \<and> unat (ad_count a) = length (ad_requests a) \<and> unat (ad_bytes a) = sum_list (map (unat \<circ> snd) (ad_requests a))
     \<and> ad_count a \<le> K_REQUEST_INFLIGHT_MAX \<and> ad_bytes a \<le> K_REQUEST_BYTES_MAX
     \<and> (\<forall>b. distinct (ad_hash a b) \<and> set (ad_hash a b) = {c \<in> set (map fst (ad_requests a)). k_request_bucket c = b})"

definition admission_empty :: k_admission where
  "admission_empty = \<lparr>ad_requests = [], ad_hash = (\<lambda>b. []), ad_count = 0, ad_bytes = 0, ad_total = 0\<rparr>"

lemma admission_empty_inv: "admission_inv admission_empty"
  by (simp add: admission_inv_def admission_empty_def)

lemma create_inv:
  assumes "k_request_create_server sz sc a cookie kl el payload = (res, sc', a')" "admission_inv a" "cookie \<notin> set (map fst (ad_requests a))" "sz \<le> K_REQUEST_BYTES_MAX"
  shows "admission_inv a'" "res = None \<Longrightarrow> ad_requests a' = ad_requests a" "res \<noteq> None \<Longrightarrow> res = Some cookie \<and> ad_requests a' = (cookie, sz + payload * 2) # ad_requests a"
proof -
  let ?ch = "sz + payload * 2"
  let ?new = "a\<lparr>ad_total := ad_total a + 1, ad_requests := (cookie, ?ch) # ad_requests a,
    ad_hash := (ad_hash a)(k_request_bucket cookie := cookie # ad_hash a (k_request_bucket cookie)), ad_count := ad_count a + 1, ad_bytes := ad_bytes a + ?ch\<rparr>"
  have cases: "res = None \<and> (a' = a \<or> a' = a\<lparr>ad_total := ad_total a + 1\<rparr>)
    \<or> res = Some cookie \<and> a' = ?new \<and> payload \<le> (K_REQUEST_BYTES_MAX - sz) div 2 \<and> ad_count a < K_REQUEST_INFLIGHT_MAX \<and> ad_bytes a \<le> K_REQUEST_BYTES_MAX - ?ch"
    using assms(1) by (auto simp: k_request_create_server_def Let_def not_less not_le split: if_splits prod.splits)
  then show "res = None \<Longrightarrow> ad_requests a' = ad_requests a" "res \<noteq> None \<Longrightarrow> res = Some cookie \<and> ad_requests a' = (cookie, ?ch) # ad_requests a" by auto
  have t: "admission_inv (a\<lparr>ad_total := ad_total a + 1\<rparr>)" using assms(2) by (simp add: admission_inv_def)
  have n: "admission_inv ?new" if p: "payload \<le> (K_REQUEST_BYTES_MAX - sz) div 2" "ad_count a < K_REQUEST_INFLIGHT_MAX" "ad_bytes a \<le> K_REQUEST_BYTES_MAX - ?ch"
  proof -
    have sz: "unat sz \<le> 268435456" using assms(4) by (simp add: word_le_nat_alt)
    have "unat (K_REQUEST_BYTES_MAX - sz) = 268435456 - unat sz" using assms(4) by (simp add: unat_sub)
    then have pl: "unat payload \<le> (268435456 - unat sz) div 2" using p(1) by (simp add: word_le_nat_alt unat_div)
    have ch: "unat ?ch = unat sz + unat payload * 2" using pl sz by (simp add: unat_word_ariths)
    have chl: "unat ?ch \<le> 268435456" using ch pl sz by linarith
    have "unat (K_REQUEST_BYTES_MAX - ?ch) = 268435456 - unat ?ch" using chl by (simp add: unat_sub word_le_nat_alt)
    then have b: "unat (ad_bytes a) + unat ?ch \<le> 268435456" using p(3) chl by (simp add: word_le_nat_alt)
    have bs: "unat (ad_bytes a + ?ch) = unat (ad_bytes a) + unat ?ch" using b by (simp add: unat_word_ariths)
    have c: "unat (ad_count a + 1) = unat (ad_count a) + 1" "unat (ad_count a) < 16384" using p(2) by (simp_all add: unat_word_ariths word_less_nat_alt)
    show ?thesis using assms(2,3) b bs c unfolding admission_inv_def by (auto simp: word_le_nat_alt)
  qed
  show "admission_inv a'" using cases t n assms(2) by blast
qed

lemma remove_charged:
  "distinct (map fst rs) \<Longrightarrow> (c, t) \<in> set rs \<Longrightarrow>
    length rs = Suc (length (filter (\<lambda>r. fst r \<noteq> c) rs)) \<and> sum_list (map (unat \<circ> snd) rs) = unat t + sum_list (map (unat \<circ> snd) (filter (\<lambda>r. fst r \<noteq> c) rs))"
proof (induction rs)
  case (Cons r rs)
  show ?case
  proof (cases "fst r = c")
    case True
    then have "c \<notin> fst ` set rs" using Cons.prems(1) by simp
    then have "\<forall>x\<in>set rs. fst x \<noteq> c" by (metis image_eqI)
    then have "filter (\<lambda>r. fst r \<noteq> c) rs = rs" "(c, t) \<notin> set rs" by auto
    then show ?thesis using True Cons.prems(2) by (cases r) auto
  next
    case False
    then show ?thesis using Cons by auto
  qed
qed simp

lemma free_inv:
  assumes "admission_inv a" "(cookie, tracked) \<in> set (ad_requests a)"
  shows "admission_inv (request_release a cookie tracked)" "ad_requests (request_release a cookie tracked) = filter (\<lambda>r. fst r \<noteq> cookie) (ad_requests a)"
proof -
  let ?rs = "ad_requests a" let ?fs = "filter (\<lambda>r. fst r \<noteq> cookie) ?rs"
  show "ad_requests (request_release a cookie tracked) = ?fs" by (simp add: request_release_def request_uncharge_def k_request_unlink_def Let_def)
  have i: "distinct (map fst ?rs)" "unat (ad_count a) = length ?rs" "unat (ad_bytes a) = sum_list (map (unat \<circ> snd) ?rs)" "ad_count a \<le> K_REQUEST_INFLIGHT_MAX"
    "ad_bytes a \<le> K_REQUEST_BYTES_MAX" and h: "\<And>b. distinct (ad_hash a b) \<and> set (ad_hash a b) = {c \<in> set (map fst ?rs). k_request_bucket c = b}"
    using assms(1) by (auto simp: admission_inv_def)
  note P = remove_charged[OF i(1) assms(2)]
  have pos: "ad_count a > 0" "tracked \<le> ad_bytes a" using P i(2,3) by (simp_all add: word_less_nat_alt word_le_nat_alt)
  have u: "unat (ad_count a - 1) = length ?fs" "unat (ad_bytes a - tracked) = sum_list (map (unat \<circ> snd) ?fs)"
    using P i(2,3) pos by (simp_all add: unat_sub word_le_nat_alt word_less_nat_alt)
  have l: "ad_count a - 1 \<le> K_REQUEST_INFLIGHT_MAX" "ad_bytes a - tracked \<le> K_REQUEST_BYTES_MAX"
    using i(4,5) u P i(2,3) by (simp_all add: word_le_nat_alt)
  have d: "distinct (map fst ?fs)" using i(1) by (simp add: distinct_map_filter)
  let ?b = "k_request_bucket cookie"
  have "set (remove1 cookie (ad_hash a ?b)) = set (ad_hash a ?b) - {cookie}" using h by (simp add: set_remove1_eq)
  then have hh: "distinct (((ad_hash a)(?b := remove1 cookie (ad_hash a ?b))) b) \<and> set (((ad_hash a)(?b := remove1 cookie (ad_hash a ?b))) b)
      = {c \<in> set (map fst ?fs). k_request_bucket c = b}" for b
    using h[of ?b] h[of b] by auto
  show "admission_inv (request_release a cookie tracked)"
    using u l d hh pos by (simp add: admission_inv_def request_release_def request_uncharge_def k_request_unlink_def Let_def)
qed

lemma find_self: "find (\<lambda>x. x = c) xs = (if c \<in> set xs then Some c else None)"
  by (induction xs) auto

text \<open>Runs of admissions and releases; a release names a live request, an admission gets an address that is not in use.\<close>

datatype admission_op = Admit u64 u32 u32 u64 | Release u64

fun admission_step :: "u64 \<Rightarrow> admission_op \<Rightarrow> script \<times> k_admission \<Rightarrow> script \<times> k_admission" where
  "admission_step sz (Admit cookie kl el payload) (sc, a) =
     (if cookie = 0 \<or> cookie \<in> set (map fst (ad_requests a)) then (sc, a) else snd (k_request_create_server sz sc a cookie kl el payload))"
| "admission_step sz (Release cookie) (sc, a) =
     (sc, case map_of (ad_requests a) cookie of None \<Rightarrow> a | Some tracked \<Rightarrow> request_release a cookie tracked)"

lemma step_inv:
  assumes "admission_inv a" "0 \<notin> set (map fst (ad_requests a))" "sz \<le> K_REQUEST_BYTES_MAX" "admission_step sz op (sc, a) = (sc', a')"
  shows "admission_inv a' \<and> 0 \<notin> set (map fst (ad_requests a'))"
proof (cases op)
  case (Admit cookie kl el payload)
  show ?thesis
  proof (cases "cookie = 0 \<or> cookie \<in> set (map fst (ad_requests a))")
    case False
    obtain res where c: "k_request_create_server sz sc a cookie kl el payload = (res, sc', a')" using assms(4) Admit False by (auto simp: prod_eq_iff)
    show ?thesis using create_inv[OF c assms(1) _ assms(3)] False assms(2) by (cases res) auto
  qed (use assms Admit in auto)
next
  case (Release cookie)
  show ?thesis
  proof (cases "map_of (ad_requests a) cookie")
    case (Some t)
    note F = free_inv[OF assms(1) map_of_SomeD[OF Some]]
    have "a' = request_release a cookie t" using assms(4) Release Some by simp
    then show ?thesis using F assms(2) by auto
  qed (use assms Release in auto)
qed

lemma run_inv:
  assumes "admission_inv (snd st)" "0 \<notin> set (map fst (ad_requests (snd st)))" "sz \<le> K_REQUEST_BYTES_MAX"
  shows "admission_inv (snd (fold (admission_step sz) ops st)) \<and> 0 \<notin> set (map fst (ad_requests (snd (fold (admission_step sz) ops st))))"
  using assms
proof (induction ops arbitrary: st)
  case (Cons op ops)
  obtain sc' a' where s: "admission_step sz op (fst st, snd st) = (sc', a')" by fastforce
  show ?case using Cons.IH[of "(sc', a')"] step_inv[OF Cons.prems s] s Cons.prems(3) by simp
qed simp

subsection \<open>The properties\<close>

text \<open>C26. The logical clock never runs faster than the wall clock: over any samples up to a time \<open>T\<close>, in any order, the
  milliseconds handed out do not exceed the time since the origin. When there is no stall, that is each sample lies at
  most the cap after the one before it, they are exact for a run of any length: the origin has moved by just that
  much, and less than one millisecond is carried over to the next sample.\<close>

theorem clock_bounds:
  assumes "clock_run cap samples org = (n, org')" "org \<noteq> 0" "\<forall>x\<in>set samples. unat x \<le> T" "unat org \<le> T"
  shows "n * 1000 \<le> T - unat org \<and> unat org' \<le> T
    \<and> ((\<forall>i<length samples. unat (samples ! i) \<le> unat ((org # samples) ! i) + unat cap * 1000)
       \<longrightarrow> unat org' = unat org + n * 1000 \<and> (\<forall>x\<in>set samples. unat x - unat org < n * 1000 + 1000))"
  using clock_run_law[OF assms] clock_run_exact[OF assms(1,2), of org] by fastforce

text \<open>Samples over four seconds, each within the cap of one second of the one before.\<close>

lemma clock_bounds_witness:
  "clock_run 1000 [905400, 1805900, 2805900, 3800700] 5000 = (3795, 3800000) \<and> unat (3800000 :: u64) = unat (5000 :: u64) + 3795 * 1000"
proof -
  let ?xs = "[905400, 1805900, 2805900, 3800700] :: u64 list"
  have r: "clock_run 1000 ?xs 5000 = (3795, 3800000)" by (simp add: k_server_elapsed_step_def)
  have g: "\<forall>i<length ?xs. unat (?xs ! i) \<le> unat ((5000 # ?xs) ! i) + unat (1000 :: u32) * 1000" by (simp add: All_less_Suc2)
  show ?thesis using clock_bounds[OF r, of 3800700] g r by simp
qed

text \<open>C25. Whatever requests are admitted and released, with whatever allocation failures, the number of requests and the
  memory charged to them stay within their limits and equal the totals of the live requests, and the lookup by cookie
  finds exactly the live requests.\<close>

theorem admission_bounds:
  assumes "sz \<le> K_REQUEST_BYTES_MAX"
  shows "let a = snd (fold (admission_step sz) ops (sc, admission_empty))
    in length (ad_requests a) \<le> 16384 \<and> unat (ad_count a) = length (ad_requests a)
      \<and> unat (ad_bytes a) = sum_list (map (unat \<circ> snd) (ad_requests a)) \<and> unat (ad_bytes a) \<le> 268435456
      \<and> (\<forall>c. k_request_find a c = (if c \<in> set (map fst (ad_requests a)) then Some c else None))"
proof -
  define a where "a = snd (fold (admission_step sz) ops (sc, admission_empty))"
  have i: "admission_inv a" "0 \<notin> set (map fst (ad_requests a))"
    using run_inv[of "(sc, admission_empty)" sz ops] admission_empty_inv assms by (simp_all add: a_def admission_empty_def)
  have "k_request_find a c = (if c \<in> set (map fst (ad_requests a)) then Some c else None)" for c
  proof -
    have "set (ad_hash a (k_request_bucket c)) = {x \<in> set (map fst (ad_requests a)). k_request_bucket x = k_request_bucket c}" using i(1) by (auto simp: admission_inv_def)
    then have "c \<in> set (ad_hash a (k_request_bucket c)) \<longleftrightarrow> c \<in> set (map fst (ad_requests a))" by auto
    then show ?thesis using i(2) by (auto simp: k_request_find_def find_self)
  qed
  then show ?thesis using i(1) unfolding a_def[symmetric] Let_def by (auto simp: admission_inv_def word_le_nat_alt)
qed

lemma admission_bounds_witness:
  "let a = snd (fold (admission_step 300) [Admit 4096 3 0 3, Admit 8192 1 5 6, Release 4096] ([], admission_empty))
    in ad_requests a = [(8192, 312)] \<and> unat (ad_bytes a) = 312 \<and> k_request_find a 4096 = None"
proof -
  let ?ops = "[Admit 4096 3 0 3, Admit 8192 1 5 6, Release 4096]"
  let ?a = "snd (fold (admission_step 300) ?ops ([], admission_empty))"
  have r: "ad_requests ?a = [(8192, 312)]"
    by (simp add: admission_empty_def k_request_create_server_def request_release_def request_uncharge_def k_request_unlink_def Let_def word_le_nat_alt)
  have sz: "(300 :: u64) \<le> K_REQUEST_BYTES_MAX" by simp
  note B = admission_bounds[OF sz, of ?ops "[]", unfolded Let_def]
  have "unat (ad_bytes ?a) = sum_list (map (unat \<circ> snd) (ad_requests ?a))" "k_request_find ?a 4096 = (if 4096 \<in> set (map fst (ad_requests ?a)) then Some 4096 else None)"
    using B by blast+
  then show ?thesis unfolding Let_def r by simp
qed

end
