(* ===== verification/Server_Dispatch.thy ===== *)
theory Server_Dispatch
  imports Server_Replica
begin

section \<open>Client frames\<close>

text \<open>
  What \<^verbatim>\<open>k_server_client_frame\<close> of \<^verbatim>\<open>src/code/kserver.h\<close> makes of the payload of a client frame: the checks on the
  lengths and the batch lists, and the call it ends in. Writes that it accepts are applied by every replica, except
  that it does not look into the packed arguments of \<^verbatim>\<open>RSET\<close> and \<^verbatim>\<open>CAS\<close>.
\<close>

subsection \<open>The dispatcher\<close>

abbreviation K_MEMBER_ADD :: u8 where "K_MEMBER_ADD \<equiv> 1"
abbreviation K_MEMBER_REMOVE :: u8 where "K_MEMBER_REMOVE \<equiv> 2"
abbreviation K_MEMBER_RECONFIG :: u8 where "K_MEMBER_RECONFIG \<equiv> 3"

text \<open>
  The call a frame leads to: a submission of a request with its key and value, of a range read with its arguments,
  of a membership change, an answer from the server's own state, a shutdown, or a refusal while the server stops.
\<close>

datatype k_action = Submit u8 bytes bytes | SubmitRget bytes | SubmitMember u8 "int list" | Inspect u8 | Shutdown | Stopping

text \<open>A length between two limits and that many bytes.\<close>

definition read_block :: "nat \<Rightarrow> nat \<Rightarrow> k_reader \<Rightarrow> (bytes \<times> k_reader) option" where
  "read_block low high r =
     (case rd_u32 r of (n, r) \<Rightarrow> if n < low \<or> n > high then None else case k_reader_bytes r n of (d, r) \<Rightarrow> Some (key_of d, r))"

definition one_block :: "k_reader \<Rightarrow> bytes option" where
  "one_block r = (case read_block 1 K_KEY_MAX r of None \<Rightarrow> None | Some (key, r) \<Rightarrow> if rd_end r then Some key else None)"

definition two_blocks :: "nat \<Rightarrow> nat \<Rightarrow> nat \<Rightarrow> k_reader \<Rightarrow> (bytes \<times> bytes) option" where
  "two_blocks low high limit r =
     (case read_block low high r of None \<Rightarrow> None | Some (key, r) \<Rightarrow>
     (case read_block 0 limit r of None \<Rightarrow> None | Some (v, r) \<Rightarrow> if rd_end r then Some (key, v) else None))"

text \<open>The walk over the keys, and for \<^verbatim>\<open>MSET\<close> the values, of a batch.\<close>

definition walk_item :: "nat \<Rightarrow> nat \<Rightarrow> k_reader \<Rightarrow> k_reader option" where
  "walk_item low high r =
     (case rd_u32 r of (n, r) \<Rightarrow>
        if rd_err r \<or> n < low \<or> n > high then None
        else case k_reader_bytes r n of (d, r) \<Rightarrow> if d = None then None else Some r)"

fun list_walk :: "bool \<Rightarrow> nat \<Rightarrow> k_reader \<Rightarrow> bool" where
  "list_walk sets 0 r = rd_end r"
| "list_walk sets (Suc i) r =
     (case walk_item 1 K_KEY_MAX r of None \<Rightarrow> False
      | Some r \<Rightarrow> if sets then (case walk_item 0 K_VALUE_MAX r of None \<Rightarrow> False | Some r \<Rightarrow> list_walk sets i r) else list_walk sets i r)"

definition batch_list :: "bool \<Rightarrow> k_reader \<Rightarrow> bytes option" where
  "batch_list sets r =
     (let lst = drop (rd_off r) (rd_data r)
      in if length lst < 4 then None
         else case rd_u32 (k_reader_init lst) of (cnt, r) \<Rightarrow>
           if cnt < 1 \<or> cnt > length lst then None
           else if list_walk sets cnt r then Some lst else None)"

text \<open>The arguments of a range read, packed again for the request.\<close>

definition rget_args :: "script \<Rightarrow> k_reader \<Rightarrow> bytes option \<times> script" where
  "rget_args sc r =
     (case read_block 0 K_KEY_MAX r of None \<Rightarrow> (None, sc) | Some (b, r) \<Rightarrow>
     (case read_block 0 K_KEY_MAX r of None \<Rightarrow> (None, sc) | Some (e, r) \<Rightarrow>
     (case k_reader_u8 r of (direction, r) \<Rightarrow>
     (case (if rd_off r < length (rd_data r) then k_reader_u32 r else (0, r)) of (limit, r) \<Rightarrow>
        if \<not> rd_end r \<or> direction \<noteq> 0 \<and> direction \<noteq> 1 then (None, sc)
        else case put_fields (sc, k_buf_zero) [FU32 (of_nat (length b)), FBytes b, FU32 (of_nat (length e)), FBytes e, FU8 direction, FU32 limit] of
          (sc, cmd) \<Rightarrow> (if buf_err cmd then None else Some (buf_data cmd), sc)))))"

text \<open>The members of a change; the nodes of an addition carry their addresses, which enter the address book one by one.\<close>

fun member_ids :: "nat \<Rightarrow> k_reader \<Rightarrow> int list \<times> k_reader" where
  "member_ids 0 r = ([], r)"
| "member_ids (Suc j) r = (case k_reader_u32 r of (w, r) \<Rightarrow> case member_ids j r of (ids, r) \<Rightarrow> (sint w # ids, r))"

fun member_adds :: "nat \<Rightarrow> k_cluster \<Rightarrow> k_reader \<Rightarrow> (int list \<times> k_reader) option \<times> k_cluster" where
  "member_adds 0 c r = (Some ([], r), c)"
| "member_adds (Suc j) c r =
     (let (w, r) = k_reader_u32 r; (hl, r) = rd_u32 r
      in if hl < 1 \<or> hl \<ge> K_HOST_MAX then (None, c)
         else case k_reader_bytes r hl of (None, r) \<Rightarrow> (None, c)
         | (Some host, r) \<Rightarrow>
             let (cp, r) = k_reader_u16 r; (pp, r) = k_reader_u16 r
             in case k_server_add_address c (sint w) host cp pp of None \<Rightarrow> (None, c)
                | Some c \<Rightarrow> (case member_adds j c r of (None, c) \<Rightarrow> (None, c) | (Some (ids, r), c) \<Rightarrow> (Some (sint w # ids, r), c)))"

definition member_args :: "k_cluster \<Rightarrow> k_reader \<Rightarrow> k_action option \<times> k_cluster" where
  "member_args c r =
     (let (sub, r) = k_reader_u8 r; (n, r) = rd_u32 r
      in if n < 1 \<or> n > K_MAX_NODES then (None, c)
         else case (if sub = K_MEMBER_ADD then member_adds n c r else (Some (member_ids n r), c)) of (None, c) \<Rightarrow> (None, c)
         | (Some (ids, r), c) \<Rightarrow>
             (if \<not> rd_end r \<or> sub \<noteq> K_MEMBER_ADD \<and> sub \<noteq> K_MEMBER_REMOVE \<and> sub \<noteq> K_MEMBER_RECONFIG then None
              else Some (SubmitMember sub ids), c))"

text \<open>
  The dispatcher. \<open>None\<close> refuses the frame, which closes the connection; else the identifier of the request and the
  call. The other results are the state of the allocator and the address book.
\<close>

definition submit_pair :: "u8 \<Rightarrow> (bytes \<times> bytes) option \<Rightarrow> k_action option" where
  "submit_pair ty args = map_option (\<lambda>(key, v). Submit ty key v) args"

definition frame_action :: "script \<Rightarrow> k_cluster \<Rightarrow> u8 \<Rightarrow> k_reader \<Rightarrow> k_action option \<times> script \<times> k_cluster" where
  "frame_action sc c ty r =
     (if ty = K_REQ_SET then (submit_pair ty (two_blocks 1 K_KEY_MAX K_VALUE_MAX r), sc, c)
      else if ty = K_REQ_CAS then (submit_pair ty (two_blocks 1 K_KEY_MAX K_CAS_PACKED_MAX r), sc, c)
      else if ty = K_REQ_GET \<or> ty = K_REQ_DEL then (map_option (\<lambda>key. Submit ty key []) (one_block r), sc, c)
      else if ty = K_REQ_RSET then (submit_pair ty (two_blocks 1 (2 * K_KEY_MAX + 8) K_VALUE_MAX r), sc, c)
      else if ty = K_REQ_RDEL then (submit_pair ty (two_blocks 0 K_KEY_MAX K_KEY_MAX r), sc, c)
      else if ty = K_REQ_MSET \<or> ty = K_REQ_MDEL \<or> ty = K_REQ_MGET
      then (map_option (\<lambda>l. Submit ty l []) (batch_list (ty = K_REQ_MSET) r), sc, c)
      else if ty = K_REQ_FCALL then (submit_pair ty (two_blocks 1 64 K_FRAME_MAX r), sc, c)
      else if ty = K_REQ_RGET then (case rget_args sc r of (cmd, sc) \<Rightarrow> (map_option SubmitRget cmd, sc, c))
      else if ty = K_REQ_MEMBER then (case member_args c r of (a, c) \<Rightarrow> (a, sc, c))
      else if ty = K_REQ_COUNT \<or> ty = K_REQ_MIN \<or> ty = K_REQ_MAX then (submit_pair ty (two_blocks 0 K_KEY_MAX K_KEY_MAX r), sc, c)
      else if rd_off r \<noteq> length (rd_data r) then (None, sc, c)
      else if ty = K_REQ_MEMBERS then (Some (Submit ty [] []), sc, c)
      else if ty = K_REQ_HELP \<or> ty = K_REQ_INFO \<or> ty = K_REQ_STATS \<or> ty = K_REQ_TOPOLOGY then (Some (Inspect ty), sc, c)
      else if ty = K_REQ_SHUTDOWN then (Some Shutdown, sc, c)
      else (None, sc, c))"

definition k_server_client_frame :: "bool \<Rightarrow> script \<Rightarrow> k_cluster \<Rightarrow> u8 \<Rightarrow> bytes \<Rightarrow> (u32 \<times> k_action) option \<times> script \<times> k_cluster" where
  "k_server_client_frame admission sc c ty payload =
     (case k_reader_u32 (k_reader_init payload) of (rid, r) \<Rightarrow>
        if rd_err r then (None, sc, c)
        else if \<not> admission \<and> ty \<noteq> K_REQ_INFO \<and> ty \<noteq> K_REQ_STATS \<and> ty \<noteq> K_REQ_HELP \<and> ty \<noteq> K_REQ_TOPOLOGY then (Some (rid, Stopping), sc, c)
        else case frame_action sc c ty r of (a, sc, c) \<Rightarrow> (map_option (Pair rid) a, sc, c))"

subsection \<open>What a successful read tells of the data\<close>

lemma u32_inverse: "4 \<le> length d \<Longrightarrow> k_write_u32 (k_read_u32 d) = take 4 d"
proof -
  assume "4 \<le> length d"
  then obtain a b c e rest where d: "d = a # b # c # e # rest" by (auto simp: numeral_eq_Suc Suc_le_length_iff)
  show ?thesis unfolding d codec_defs by (simp, intro conjI; rule bit_word_eqI) (auto simp: bit_simps dest: bit_imp_le_length)
qed

lemma u32_inv:
  assumes "k_reader_u32 (rdr pre bs) = (w, r)" "\<not> rd_err r"
  obtains rest where "bs = k_write_u32 w @ rest" "r = rdr (pre @ k_write_u32 w) rest"
proof -
  have l: "4 \<le> length bs" "w = k_read_u32 bs" using assms by (auto simp: k_reader_u32_def k_reader_get_def k_reader_need_def rdr_def split: if_splits)
  have bs: "bs = k_write_u32 w @ drop 4 bs" unfolding l(2) u32_inverse[OF l(1)] by simp
  then have "k_reader_u32 (rdr pre bs) = (w, rdr (pre @ k_write_u32 w) (drop 4 bs))" by (metis rdr_reads(3))
  then have "r = rdr (pre @ k_write_u32 w) (drop 4 bs)" using assms(1) by simp
  then show thesis by (rule that[OF bs])
qed

lemma bytes_inv:
  assumes "k_reader_bytes (rdr pre bs) n = (d, r)" "d \<noteq> None \<or> \<not> rd_err r"
  obtains x rest where "bs = x @ rest" "length x = n" "d = Some x" "r = rdr (pre @ x) rest"
proof -
  have l: "n \<le> length bs" using assms by (auto simp: k_reader_bytes_def k_reader_need_def rdr_def split: if_splits)
  then have "k_reader_bytes (rdr pre bs) n = (Some (take n bs), rdr (pre @ take n bs) (drop n bs))"
    using rdr_bytes[of n "take n bs" pre "drop n bs"] by simp
  then show thesis using that[of "take n bs" "drop n bs"] l assms(1) by auto
qed

lemma rd_u32_inv:
  assumes "rd_u32 (rdr pre bs) = (n, r)" "\<not> rd_err r"
  obtains w rest where "bs = k_write_u32 w @ rest" "n = unat w" "r = rdr (pre @ k_write_u32 w) rest"
  using assms u32_inv[of pre bs] by (auto simp: rd_u32_def split: prod.splits)

lemma block_whole: "length x = unat (w :: u32) \<Longrightarrow> k_write_u32 w @ x = block x"
  by (simp add: block_def)

lemma err_sticks:
  "rd_err r \<Longrightarrow> rd_u32 r = (n, r') \<Longrightarrow> rd_err r'" "rd_err r \<Longrightarrow> k_reader_bytes r n = (d, r') \<Longrightarrow> rd_err r'"
  by (auto simp: rd_u32_def k_reader_u32_def k_reader_get_def k_reader_bytes_def k_reader_need_def split: prod.splits if_splits)

lemma read_block_err: "rd_err r \<Longrightarrow> read_block low high r = Some (d, r') \<Longrightarrow> rd_err r'"
  by (auto simp: read_block_def split: prod.splits if_splits dest: err_sticks)

lemma read_block_inv:
  assumes "read_block low high (rdr pre bs) = Some (d, r)" "\<not> rd_err r"
  obtains rest where "bs = block d @ rest" "low \<le> length d" "length d \<le> high" "r = rdr (pre @ block d) rest"
proof -
  obtain n r1 where 1: "rd_u32 (rdr pre bs) = (n, r1)" by fastforce
  obtain x r2 where 2: "k_reader_bytes r1 n = (x, r2)" by fastforce
  have e: "low \<le> n" "n \<le> high" "r = r2" "d = key_of x" using assms(1) 1 2 by (auto simp: read_block_def split: if_splits)
  then have "\<not> rd_err r1" using assms(2) err_sticks(2)[OF _ 2] by blast
  then obtain w rest where w: "bs = k_write_u32 w @ rest" "n = unat w" "r1 = rdr (pre @ k_write_u32 w) rest" using rd_u32_inv[OF 1] by blast
  obtain y rest' where y: "rest = y @ rest'" "length y = n" "x = Some y" "r2 = rdr ((pre @ k_write_u32 w) @ y) rest'"
    using bytes_inv[OF 2[unfolded w(3)]] assms(2) e(3) by blast
  show thesis using that[of rest'] w y e block_whole[of y w] by simp
qed

lemma walk_item_inv:
  assumes "walk_item low high (rdr pre bs) = Some r"
  obtains d rest where "bs = block d @ rest" "low \<le> length d" "length d \<le> high" "r = rdr (pre @ block d) rest"
proof -
  obtain n r1 where 1: "rd_u32 (rdr pre bs) = (n, r1)" by fastforce
  obtain x r2 where 2: "k_reader_bytes r1 n = (x, r2)" by fastforce
  have e: "low \<le> n" "n \<le> high" "r = r2" "x \<noteq> None" "\<not> rd_err r1" using assms 1 2 by (auto simp: walk_item_def split: if_splits)
  then obtain w rest where w: "bs = k_write_u32 w @ rest" "n = unat w" "r1 = rdr (pre @ k_write_u32 w) rest" using rd_u32_inv[OF 1] by blast
  obtain y rest' where y: "rest = y @ rest'" "length y = n" "r2 = rdr ((pre @ k_write_u32 w) @ y) rest'"
    using bytes_inv[OF 2[unfolded w(3)]] e(4) by blast
  show thesis using that[of y rest'] w y e block_whole[of y w] by simp
qed

lemma two_blocks_inv:
  assumes "two_blocks low high limit (rdr pre bs) = Some (key, v)"
  shows "bs = block key @ block v \<and> low \<le> length key \<and> length key \<le> high \<and> length v \<le> limit"
proof -
  obtain r1 r2 where r: "read_block low high (rdr pre bs) = Some (key, r1)" "read_block 0 limit r1 = Some (v, r2)" "rd_end r2"
    using assms by (auto simp: two_blocks_def split: option.splits if_splits)
  have "\<not> rd_err r2" using r(3) by (simp add: rd_end_def)
  then have "\<not> rd_err r1" using read_block_err[OF _ r(2)] by blast
  then obtain rest where 1: "bs = block key @ rest" "low \<le> length key" "length key \<le> high" "r1 = rdr (pre @ block key) rest" using read_block_inv[OF r(1)] by blast
  obtain rest' where "rest = block v @ rest'" "length v \<le> limit" "r2 = rdr ((pre @ block key) @ block v) rest'"
    using read_block_inv[OF r(2)[unfolded 1(4)] \<open>\<not> rd_err r2\<close>] by blast
  then show ?thesis using 1 r(3) by simp
qed

lemma one_block_inv:
  assumes "one_block (rdr pre bs) = Some key"
  shows "bs = block key \<and> key_ok key"
proof -
  obtain r where r: "read_block 1 K_KEY_MAX (rdr pre bs) = Some (key, r)" "rd_end r" using assms by (auto simp: one_block_def split: option.splits if_splits)
  then have "\<not> rd_err r" by (simp add: rd_end_def)
  then obtain rest where "bs = block key @ rest" "1 \<le> length key" "length key \<le> K_KEY_MAX" "r = rdr (pre @ block key) rest" using read_block_inv[OF r(1)] by blast
  then show ?thesis using r(2) by (auto simp del: One_nat_def)
qed

lemma list_walk_sets:
  "list_walk True n (rdr pre bs) \<Longrightarrow> \<exists>kvs. length kvs = n \<and> bs = concat (map (\<lambda>(k, v). block k @ block v) kvs) \<and> (\<forall>(k, v)\<in>set kvs. key_ok k \<and> val_ok v)"
proof (induction n arbitrary: pre bs)
  case 0
  then show ?case by simp
next
  case (Suc n)
  obtain r1 r2 where r: "walk_item 1 K_KEY_MAX (rdr pre bs) = Some r1" "walk_item 0 K_VALUE_MAX r1 = Some r2" "list_walk True n r2"
    using Suc.prems by (auto split: option.splits)
  obtain k rest where k: "bs = block k @ rest" "1 \<le> length k" "length k \<le> K_KEY_MAX" "r1 = rdr (pre @ block k) rest" using walk_item_inv[OF r(1)] by blast
  obtain v rest' where v: "rest = block v @ rest'" "length v \<le> K_VALUE_MAX" "r2 = rdr ((pre @ block k) @ block v) rest'" using walk_item_inv[OF r(2)[unfolded k(4)]] by blast
  obtain kvs where "length kvs = n" "rest' = concat (map (\<lambda>(k, v). block k @ block v) kvs)" "\<forall>(k, v)\<in>set kvs. key_ok k \<and> val_ok v"
    using Suc.IH[OF r(3)[unfolded v(3)]] by blast
  then show ?case using k v by (intro exI[of _ "(k, v) # kvs"]) auto
qed

lemma list_walk_keys:
  "list_walk False n (rdr pre bs) \<Longrightarrow> \<exists>ks. length ks = n \<and> bs = concat (map block ks) \<and> (\<forall>k\<in>set ks. key_ok k)"
proof (induction n arbitrary: pre bs)
  case 0
  then show ?case by simp
next
  case (Suc n)
  obtain r1 where r: "walk_item 1 K_KEY_MAX (rdr pre bs) = Some r1" "list_walk False n r1" using Suc.prems by (auto split: option.splits)
  obtain k rest where k: "bs = block k @ rest" "1 \<le> length k" "length k \<le> K_KEY_MAX" "r1 = rdr (pre @ block k) rest" using walk_item_inv[OF r(1)] by blast
  obtain ks where "length ks = n" "rest = concat (map block ks)" "\<forall>k\<in>set ks. key_ok k" using Suc.IH[OF r(2)[unfolded k(4)]] by blast
  then show ?case using k by (intro exI[of _ "k # ks"]) auto
qed

subsection \<open>Accepted writes\<close>

text \<open>The frame of an accepted request starts with its identifier.\<close>

lemma frame_submits:
  assumes "k_server_client_frame admission sc c ty payload = (Some (rid, Submit ty' key v), sc', c')"
  obtains rest where "payload = k_write_u32 rid @ rest" "frame_action sc c ty (rdr (k_write_u32 rid) rest) = (Some (Submit ty' key v), sc', c')"
proof -
  obtain w r where w: "k_reader_u32 (rdr [] payload) = (w, r)" by fastforce
  have a: "\<not> rd_err r" "w = rid" "frame_action sc c ty r = (Some (Submit ty' key v), sc', c')"
    using assms w by (auto simp: k_server_client_frame_def rdr_init split: if_splits prod.splits)
  then show thesis using u32_inv[OF w a(1)] that by auto
qed

lemma batch_list_inv:
  assumes "batch_list sets (rdr pre bs) = Some lst"
  obtains w rest where "lst = bs" "bs = k_write_u32 w @ rest" "0 < unat w" "list_walk sets (unat w) (rdr (k_write_u32 w) rest)"
proof -
  obtain n r where n: "rd_u32 (rdr [] bs) = (n, r)" by fastforce
  have d: "rd_data (rdr pre bs) = pre @ bs" by (simp add: rdr_def)
  have "batch_list sets (rdr pre bs) = (if length bs < 4 then None else if n < 1 \<or> n > length bs then None else if list_walk sets n r then Some bs else None)"
    unfolding batch_list_def d rdr_simps Let_def rdr_init by (simp add: n)
  then have a: "lst = bs" "1 \<le> n" "list_walk sets n r" "4 \<le> length bs" using assms by (auto split: if_splits)
  have e: "\<not> rd_err r" using n a(4) by (auto simp: rd_u32_def k_reader_u32_def k_reader_get_def k_reader_need_def rdr_def split: if_splits)
  obtain w rest where "bs = k_write_u32 w @ rest" "n = unat w" "r = rdr ([] @ k_write_u32 w) rest" using rd_u32_inv[OF n e] by blast
  then show thesis using a(1-3) by (intro that[of w rest]) simp_all
qed

lemma accepted_is_write:
  assumes "frame_action sc c ty (rdr pre bs) = (Some (Submit ty' key v), sc', c')" "ty \<in> {K_REQ_SET, K_REQ_DEL, K_REQ_MSET, K_REQ_MDEL, K_REQ_RDEL}"
  shows "ty' = ty" "\<exists>w. write_ok w \<and> request_parts w = Some (ty, key, v)"
proof -
  show "ty' = ty" using assms by (auto simp: frame_action_def submit_pair_def split: if_splits)
  consider (set) "ty = K_REQ_SET" | (del) "ty = K_REQ_DEL" | (mset) "ty = K_REQ_MSET" | (mdel) "ty = K_REQ_MDEL" | (rdel) "ty = K_REQ_RDEL" using assms(2) by blast
  then show "\<exists>w. write_ok w \<and> request_parts w = Some (ty, key, v)"
  proof cases
    case set
    then have "two_blocks 1 K_KEY_MAX K_VALUE_MAX (rdr pre bs) = Some (key, v)" using assms(1) by (auto simp: frame_action_def submit_pair_def)
    then show ?thesis using two_blocks_inv set by (intro exI[of _ "WSet key v"]) fastforce
  next
    case del
    then have "one_block (rdr pre bs) = Some key" "v = []" using assms(1) by (auto simp: frame_action_def)
    then show ?thesis using one_block_inv del by (intro exI[of _ "WDel key"]) auto
  next
    case rdel
    then have "two_blocks 0 K_KEY_MAX K_KEY_MAX (rdr pre bs) = Some (key, v)" using assms(1) by (auto simp: frame_action_def submit_pair_def)
    then show ?thesis using two_blocks_inv rdel by (intro exI[of _ "WRdel key v"]) fastforce
  next
    case mset
    then have l: "batch_list True (rdr pre bs) = Some key" "v = []" using assms(1) by (auto simp: frame_action_def)
    obtain w rest where w: "key = k_write_u32 w @ rest" "0 < unat w" "list_walk True (unat w) (rdr (k_write_u32 w) rest)" using batch_list_inv[OF l(1)] by metis
    obtain kvs where kvs: "length kvs = unat w" "rest = concat (map (\<lambda>(k, v). block k @ block v) kvs)" "\<forall>(k, v)\<in>set kvs. key_ok k \<and> val_ok v" using list_walk_sets[OF w(3)] by blast
    have "length kvs < 2 ^ 32" unfolding kvs(1) by (rule order_less_le_trans[OF unsigned_less]) simp
    then show ?thesis using mset w kvs l(2) by (intro exI[of _ "WMset kvs"]) auto
  next
    case mdel
    then have l: "batch_list False (rdr pre bs) = Some key" "v = []" using assms(1) by (auto simp: frame_action_def)
    obtain w rest where w: "key = k_write_u32 w @ rest" "0 < unat w" "list_walk False (unat w) (rdr (k_write_u32 w) rest)" using batch_list_inv[OF l(1)] by metis
    obtain ks where ks: "length ks = unat w" "rest = concat (map block ks)" "\<forall>k\<in>set ks. key_ok k" using list_walk_keys[OF w(3)] by blast
    have "length ks < 2 ^ 32" unfolding ks(1) by (rule order_less_le_trans[OF unsigned_less]) simp
    then show ?thesis using mdel w ks l(2) by (intro exI[of _ "WMdel ks"]) auto
  qed
qed

subsection \<open>Requests of the client library\<close>

lemma put_field_parts: "put_field sb (FU32 x) = k_buf_u32 (fst sb) (snd sb) x" "put_field sb (FBytes d) = k_buf_bytes (fst sb) (snd sb) d"
  by (cases sb; simp)+

lemma put_lv_fields: "put_lv sb d = put_fields sb [FU32 (of_nat (length d)), FBytes d]"
  by (simp add: put_lv_def put_fields_def put_field_parts case_prod_beta)

text \<open>The bytes of a write request, and that the dispatcher reads them.\<close>

definition request_wire :: "u32 \<Rightarrow> u8 \<Rightarrow> bytes \<Rightarrow> bytes \<Rightarrow> bytes" where
  "request_wire rid ty key v = k_write_u32 rid @
     (if ty = K_REQ_MSET \<or> ty = K_REQ_MDEL then key else if ty = K_REQ_DEL then block key else block key @ block v)"

lemma payload_wire:
  assumes "k_request_payload s rid ty key v = (s', Some payload)" "request_parts w = Some (ty, key, v)"
  shows "payload = request_wire rid ty key v"
proof -
  define fs where "fs = (if ty = K_REQ_MSET \<or> ty = K_REQ_MDEL then [FBytes key] else if ty = K_REQ_DEL then [FU32 (of_nat (length key)), FBytes key]
    else [FU32 (of_nat (length key)), FBytes key, FU32 (of_nat (length v)), FBytes v])"
  define e where "e = (ty \<noteq> K_REQ_RDEL \<and> key = [])"
  let ?sb = "k_buf_u32 s k_buf_zero rid"
  have ty: "ty \<in> {K_REQ_SET, K_REQ_DEL, K_REQ_MSET, K_REQ_MDEL, K_REQ_RSET, K_REQ_RDEL, K_REQ_CAS}" using assms(2) by (cases w) auto
  have p: "payload_done (put_fields (fst ?sb, set_err e (snd ?sb)) fs) = (s', Some payload)"
    using assms(1) ty unfolding k_request_payload_def put_lv_fields
    by (auto simp: fs_def e_def set_err_def put_fields_def put_field_parts case_prod_beta split: if_splits)
  have z: "appends (s, k_buf_zero) (k_write_u32 rid) ?sb" using appends_field[of "(s, k_buf_zero)" "FU32 rid"] by simp
  have a: "appends (fst ?sb, set_err e (snd ?sb)) (concat (map wire fs)) (put_fields (fst ?sb, set_err e (snd ?sb)) fs)" by (rule appends_fields)
  have "\<not> buf_err (snd (put_fields (fst ?sb, set_err e (snd ?sb)) fs))" "payload = buf_data (snd (put_fields (fst ?sb, set_err e (snd ?sb)) fs))"
    using p by (auto simp: payload_done_def case_prod_beta split: if_splits)
  then have "payload = k_write_u32 rid @ concat (map wire fs)" using a z by (auto simp: appends_def set_err_def k_buf_zero_def buf_wf_def split: if_splits)
  then show ?thesis by (auto simp: request_wire_def fs_def block_def)
qed

lemma read_block_block: "low \<le> length d \<Longrightarrow> length d \<le> high \<Longrightarrow> high < 2 ^ 32 \<Longrightarrow> read_block low high (rdr pre (block d @ rest)) = Some (d, rdr (pre @ block d) rest)"
  using block_parts[of d pre rest] by (simp add: read_block_def)

lemma walk_item_block: "low \<le> length d \<Longrightarrow> length d \<le> high \<Longrightarrow> high < 2 ^ 32 \<Longrightarrow> walk_item low high (rdr pre (block d @ rest)) = Some (rdr (pre @ block d) rest)"
  using block_parts[of d pre rest] by (simp add: walk_item_def)

lemma two_blocks_block:
  "low \<le> length d \<Longrightarrow> length d \<le> high \<Longrightarrow> high < 2 ^ 32 \<Longrightarrow> length v \<le> limit \<Longrightarrow> limit < 2 ^ 32 \<Longrightarrow> two_blocks low high limit (rdr pre (block d @ block v)) = Some (d, v)"
  using read_block_block[of low d high pre "block v"] read_block_block[of 0 v limit "pre @ block d" "[]"] by (simp add: two_blocks_def)

lemma walk_sets: "\<forall>(k, v)\<in>set kvs. key_ok k \<and> val_ok v \<Longrightarrow> list_walk True (length kvs) (rdr pre (concat (map (\<lambda>(k, v). block k @ block v) kvs)))"
proof (induction kvs arbitrary: pre)
  case (Cons kv kvs)
  obtain k v where kv: "kv = (k, v)" by fastforce
  show ?case using Cons kv walk_item_block[of 1 k K_KEY_MAX pre] walk_item_block[of 0 v K_VALUE_MAX "pre @ block k"] by (simp add: Suc_le_eq)
qed simp

lemma walk_keys: "\<forall>k\<in>set ks. key_ok k \<Longrightarrow> list_walk False (length ks) (rdr pre (concat (map block ks)))"
proof (induction ks arbitrary: pre)
  case (Cons k ks)
  show ?case using Cons walk_item_block[of 1 k K_KEY_MAX pre] by (simp add: Suc_le_eq)
qed simp

lemma batch_list_block:
  assumes "0 < n" "n < 2 ^ 32" "n \<le> 4 + length bs" "list_walk sets n (rdr (k_write_u32 (of_nat n)) bs)"
  shows "batch_list sets (rdr pre (k_write_u32 (of_nat n) @ bs)) = Some (k_write_u32 (of_nat n) @ bs)"
proof -
  let ?l = "k_write_u32 (of_nat n) @ bs"
  have d: "rd_data (rdr pre ?l) = pre @ ?l" by (simp add: rdr_def)
  have "rd_u32 (rdr [] ?l) = (n, rdr (k_write_u32 (of_nat n)) bs)" using assms(2) by (simp add: rd_u32_def unat_small)
  then show ?thesis unfolding batch_list_def d rdr_simps Let_def rdr_init using assms(1,3,4) by (simp add: u32c.length_enc)
qed

lemma blocks_long: "length xs \<le> length (concat (map block xs))"
  by (induction xs) (auto simp: block_def u32c.length_enc)

lemma pairs_long: "length xs \<le> length (concat (map (\<lambda>(k, v). block k @ block v) xs))"
  by (induction xs) (auto simp: block_def u32c.length_enc)

lemma action_of_write:
  assumes "request_parts w = Some (ty, key, v)" "write_ok w" "request_wire rid ty key v = k_write_u32 rid @ bs"
  shows "frame_action sc c ty (rdr pre bs) = (Some (Submit ty key v), sc, c)"
proof (cases w)
  case (WSet k x)
  then show ?thesis using assms two_blocks_block[of 1 key K_KEY_MAX v K_VALUE_MAX pre] by (auto simp: frame_action_def submit_pair_def request_wire_def Suc_le_eq)
next
  case (WDel k)
  then have "one_block (rdr pre (block key)) = Some key" using assms read_block_block[of 1 key K_KEY_MAX pre "[]"] by (auto simp: one_block_def Suc_le_eq)
  then show ?thesis using assms WDel by (auto simp: frame_action_def request_wire_def)
next
  case (WMset kvs)
  then have bs: "bs = k_write_u32 (of_nat (length kvs)) @ concat (map (\<lambda>(k, v). block k @ block v) kvs)" "key = bs" "v = []" "ty = K_REQ_MSET"
    using assms(1,3) by (auto simp: request_wire_def)
  have "batch_list True (rdr pre bs) = Some bs" unfolding bs(1) using assms(2) WMset walk_sets[of kvs] pairs_long[of kvs]
    by (intro batch_list_block) auto
  then show ?thesis using bs(2-4) by (simp add: frame_action_def)
next
  case (WMdel ks)
  then have bs: "bs = k_write_u32 (of_nat (length ks)) @ concat (map block ks)" "key = bs" "v = []" "ty = K_REQ_MDEL"
    using assms(1,3) by (auto simp: request_wire_def)
  have "batch_list False (rdr pre bs) = Some bs" unfolding bs(1) using assms(2) WMdel walk_keys[of ks] blocks_long[of ks]
    by (intro batch_list_block) auto
  then show ?thesis using bs(2-4) by (simp add: frame_action_def)
next
  case (WRset b e x)
  have bs: "bs = block key @ block v" "ty = K_REQ_RSET" using assms(1,3) WRset by (auto simp: request_wire_def)
  have "1 \<le> length key \<and> length key \<le> 2 * K_KEY_MAX + 8 \<and> val_ok v" using assms(1,2) WRset by (auto simp: block_def u32c.length_enc)
  then show ?thesis using bs two_blocks_block[of 1 key "2 * K_KEY_MAX + 8" v K_VALUE_MAX pre] by (simp add: frame_action_def submit_pair_def)
next
  case (WRdel b e)
  then show ?thesis using assms two_blocks_block[of 0 key K_KEY_MAX v K_KEY_MAX pre] by (auto simp: frame_action_def submit_pair_def request_wire_def)
next
  case (WCas k x old)
  have "length v \<le> K_CAS_PACKED_MAX" using assms(1,2) WCas by (cases old) (auto simp: block_def u32c.length_enc k_write_u8_def)
  then show ?thesis using assms WCas two_blocks_block[of 1 key K_KEY_MAX v K_CAS_PACKED_MAX pre] by (auto simp: frame_action_def submit_pair_def request_wire_def Suc_le_eq)
next
  case (WExec cs)
  then show ?thesis using assms(1) by simp
qed

subsection \<open>The properties\<close>

text \<open>C20. Every well-formed write reaches the server: the payload that the client library builds for it is accepted by the
  dispatcher and submitted with the same type, key and value, and without a change of the address book.\<close>

theorem client_write_dispatched:
  assumes "k_request_payload s rid ty key v = (s', Some payload)" "request_parts w = Some (ty, key, v)" "write_ok w"
  shows "k_server_client_frame True sc c ty payload = (Some (rid, Submit ty key v), sc, c)"
proof -
  have "payload = request_wire rid ty key v" by (rule payload_wire[OF assms(1,2)])
  then obtain bs where bs: "payload = k_write_u32 rid @ bs" "request_wire rid ty key v = k_write_u32 rid @ bs" by (auto simp: request_wire_def)
  show ?thesis unfolding k_server_client_frame_def rdr_init bs(1) using action_of_write[OF assms(2,3) bs(2)] by simp
qed

lemma client_write_dispatched_witness:
  "\<exists>s' payload. k_request_payload [] 7 K_REQ_CAS [1] (cas_packed [2] None) = (s', Some payload)
    \<and> k_server_client_frame True [] [] K_REQ_CAS payload = (Some (7, Submit K_REQ_CAS [1] (cas_packed [2] None)), [], [])"
proof -
  obtain s' p where p: "k_request_payload [] 7 K_REQ_CAS [1] (cas_packed [2] None) = (s', p)" by fastforce
  have "p \<noteq> None" using p by (auto simp: k_request_payload_def put_lv_def payload_done_def set_err_def k_buf_zero_def k_buf_u32_def k_buf_bytes_def k_buf_put_def
      k_buf_reserve_def Let_def block_def codec_defs split: prod.splits if_splits)
  then obtain payload where "p = Some payload" by blast
  then show ?thesis using p client_write_dispatched[of "[]" 7 K_REQ_CAS "[1]" "cas_packed [2] None" s' payload "WCas [1] [2] None" "[]" "[]"] by auto
qed

text \<open>C21. A frame cannot stop the replicas with a single write, a batch or a range deletion: whatever its bytes, when the
  dispatcher accepts it as such a request then the command that is built from it is a well-formed write, and every
  replica with memory applies it with the effect of that write.\<close>

theorem accepted_writes_apply:
  assumes "k_server_client_frame admission sc c ty payload = (Some (rid, Submit ty' key v), sc', c')" "ty \<in> {K_REQ_SET, K_REQ_DEL, K_REQ_MSET, K_REQ_MDEL, K_REQ_RDEL}"
    "k_server_build_write_command (sc1, k_buf_zero) ty' key v = (True, sb)" "store_ok s" "roomy s" "k_server_apply_command s (buf_data (snd sb)) cookie = (rc, s')"
  shows "\<exists>w. write_ok w \<and> request_parts w = Some (ty, key, v) \<and> rc = 0 \<and> contents s' = write_effect (contents s) w"
proof -
  obtain rest where f: "frame_action sc c ty (rdr (k_write_u32 rid) rest) = (Some (Submit ty' key v), sc', c')" by (rule frame_submits[OF assms(1)])
  note A = accepted_is_write[OF f assms(2)]
  obtain w where w: "write_ok w" "request_parts w = Some (ty, key, v)" using A(2) by blast
  obtain fs where fs: "sb = put_fields (sc1, k_buf_zero) fs" "\<not> buf_err (snd sb)" "concat (map wire fs) = write_wire w"
    using build_fields[OF w(2), of "(sc1, k_buf_zero)"] assms(3) A(1) by (auto simp: Let_def)
  have d: "buf_data (snd sb) = write_wire w" using appends_fields[of "(sc1, k_buf_zero)" fs] fs by (simp add: appends_def k_buf_zero_def buf_wf_def)
  have l: "length (entries (root (ap_tree s))) < 2 ^ 64 - 1" using assms(5) by (simp add: roomy_def)
  show ?thesis using write_effect_law[OF assms(6)[unfolded d] assms(4) w(1) l] assms(5) w by (auto simp: applied_as_def)
qed

lemma accepted_writes_apply_witness:
  "\<exists>sb s'. k_server_client_frame True [] [] K_REQ_DEL (k_write_u32 9 @ block [1]) = (Some (9, Submit K_REQ_DEL [1] []), [], [])
    \<and> k_server_build_write_command ([], k_buf_zero) K_REQ_DEL [1] [] = (True, sb)
    \<and> k_server_apply_command sample_server (buf_data (snd sb)) (Some 7) = (0, s') \<and> contents s' = [[2, 3] \<mapsto> [8]]"
proof -
  have f: "k_server_client_frame True [] [] K_REQ_DEL (k_write_u32 9 @ block [1]) = (Some (9, Submit K_REQ_DEL [1] []), [], [])"
    using read_block_block[of 1 "[1]" K_KEY_MAX "k_write_u32 9" "[]"] unfolding k_server_client_frame_def rdr_init by (simp add: frame_action_def one_block_def)
  obtain ok sb where b: "k_server_build_write_command ([], k_buf_zero) K_REQ_DEL [1] [] = (ok, sb)" by (metis prod.exhaust)
  obtain fs where fs: "sb = put_fields ([], k_buf_zero) fs" "ok \<longleftrightarrow> \<not> (buf_err (snd sb) \<or> length (buf_data (snd sb)) > K_RAFT_COMMAND_MAX)" "concat (map wire fs) = write_wire (WDel [1])"
    using build_fields[of "WDel [1]" K_REQ_DEL "[1]" "[]" "([], k_buf_zero)"] b by (auto simp: Let_def)
  have "holds ([], k_buf_zero) []" by (simp add: holds_def k_buf_zero_def buf_wf_def)
  then have "holds sb (write_wire (WDel [1]))" using holds_fields[of "([], k_buf_zero)" "[]" fs] fs(1,3) by (simp add: block_def u32c.length_enc k_write_u8_def)
  then have ok: "ok" using fs(2) by (simp add: holds_def block_def u32c.length_enc k_write_u8_def)
  obtain rc s' where a: "k_server_apply_command sample_server (buf_data (snd sb)) (Some 7) = (rc, s')" by fastforce
  obtain w where w: "request_parts w = Some (K_REQ_DEL, [1], [])" "rc = 0" "contents s' = write_effect (contents sample_server) w"
    using accepted_writes_apply[OF f _ b[unfolded ok[THEN eqTrueI]] sample_server_facts(1,2) a] by auto
  have "w = WDel [1]" using w(1) by (cases w) auto
  then have "contents s' = [[2, 3] \<mapsto> [8]]" using w(3) by (auto simp: sample_server_facts(3) fun_eq_iff)
  then show ?thesis using f b ok a w(2) by auto
qed

text \<open>C40. One frame can stop every replica: the dispatcher accepts a conditional write whatever its packed value is, and once
  the command is committed every replica that applies it fails and stops itself. The comment on the batch lists says
  that malformed arguments are refused for this very reason.\<close>

theorem malformed_cas_stops_replicas:
  assumes "key_ok key" "cas_parts v = None" "length key + length v + 9 \<le> K_RAFT_COMMAND_MAX"
  shows "k_server_client_frame True sc c K_REQ_CAS (k_write_u32 rid @ block key @ block v) = (Some (rid, Submit K_REQ_CAS key v), sc, c)
    \<and> (\<exists>sb. k_server_build_write_command ([], k_buf_zero) K_REQ_CAS key v = (True, sb)
        \<and> (\<forall>s fatal i cookie. apply_entry (ApplyCommand i (buf_data (snd sb)) cookie) (s, fatal) = (s, True)))"
proof
  have v: "length v \<le> K_CAS_PACKED_MAX" using assms(3) by simp
  show "k_server_client_frame True sc c K_REQ_CAS (k_write_u32 rid @ block key @ block v) = (Some (rid, Submit K_REQ_CAS key v), sc, c)"
    unfolding k_server_client_frame_def rdr_init using two_blocks_block[of 1 key K_KEY_MAX v K_CAS_PACKED_MAX "k_write_u32 rid"] assms(1) v
    by (simp add: frame_action_def submit_pair_def Suc_le_eq)
  let ?fs = "[FU8 K_OP_CAS, FU32 (of_nat (length key)), FBytes key, FU32 (of_nat (length v)), FBytes v]"
  let ?sb = "put_fields ([], k_buf_zero) ?fs" and ?e = "k_write_u8 K_OP_CAS @ block key @ block v"
  have w: "concat (map wire ?fs) = ?e" by (simp add: block_def)
  have l: "length ?e = length key + length v + 9" by (simp add: block_def u32c.length_enc u8c.length_enc)
  have "holds ([], k_buf_zero) []" by (simp add: holds_def k_buf_zero_def buf_wf_def)
  then have h: "holds ?sb ?e" using holds_fields[of "([], k_buf_zero)" "[]" ?fs] unfolding w l using assms(3) by simp
  then have b: "k_server_build_write_command ([], k_buf_zero) K_REQ_CAS key v = (True, ?sb)" using l assms(3) by (simp add: k_server_build_write_command_def holds_def Let_def)
  have "k_server_apply_command s ?e cookie = (-1, s)" for s cookie
    unfolding k_server_apply_command_def rdr_init using assms(1,2) v by (simp add: apply_cas_def)
  moreover have "?e \<noteq> []" by (simp add: k_write_u8_def)
  ultimately have "\<forall>s fatal i cookie. apply_entry (ApplyCommand i (buf_data (snd ?sb)) cookie) (s, fatal) = (s, True)" using h by (simp add: holds_def)
  then show "\<exists>sb. k_server_build_write_command ([], k_buf_zero) K_REQ_CAS key v = (True, sb)
        \<and> (\<forall>s fatal i cookie. apply_entry (ApplyCommand i (buf_data (snd sb)) cookie) (s, fatal) = (s, True))" using b by blast
qed

lemma malformed_cas_stops_replicas_witness:
  "k_server_client_frame True [] [] K_REQ_CAS (k_write_u32 3 @ block [1] @ block []) = (Some (3, Submit K_REQ_CAS [1] []), [], [])
    \<and> (\<exists>sb. k_server_build_write_command ([], k_buf_zero) K_REQ_CAS [1] [] = (True, sb)
        \<and> apply_entry (ApplyCommand 4 (buf_data (snd sb)) None) (sample_server, False) = (sample_server, True))"
proof -
  have c: "cas_parts [] = None" by (simp add: cas_parts_def k_reader_u8_def k_reader_get_def k_reader_need_def k_reader_init_def read_upto_def rd_u32_def k_reader_u32_def k_reader_bytes_def rd_end_def)
  show ?thesis using malformed_cas_stops_replicas[OF _ c, of "[1]" "[]" "[]" 3] by (auto simp del: apply_entry.simps)
qed

end
