(* ===== verification/Server_Queue.thy ===== *)
theory Server_Queue
  imports Server_Exec Server_Read Server_Clock Server_Dispatch "HOL-Library.Multiset"
begin

section \<open>The write queue and the gate\<close>

text \<open>
  How requests reach Raft in \<^verbatim>\<open>src/code/kserver.h\<close>: \<^verbatim>\<open>k_server_submit\<close>, the queue of writes that
  \<^verbatim>\<open>k_server_flush_writes\<close> hands over as one batch, and the gate that holds writes back while a custom command is in
  flight. Freeing a request can reopen the gate, which submits and frees other requests in turn, so the functions are
  defined over the operation that opens the gate, and the gate's own loop by recursion on fuel. The fuel is one more
  than the number of requests held back; it always suffices.
\<close>

subsection \<open>State\<close>

abbreviation K_STATUS_REDIRECT :: u8 where "K_STATUS_REDIRECT \<equiv> 3"
abbreviation K_STATUS_CONFLICT :: u8 where "K_STATUS_CONFLICT \<equiv> 4"

text \<open>A request; connection 0 stands for none.\<close>

record k_request =
  rq_cookie :: u64
  rq_conn :: nat
  rq_id :: u32
  rq_type :: u8
  rq_key :: bytes
  rq_end :: bytes
  rq_command :: bytes
  rq_tracked :: u64

text \<open>
  The part of the server that submits: the Raft node, the store, the request table, the queues, the requests whose
  cookie Raft holds, the results of the next sends of the transport (\<open>False\<close> for one that fails), and the connections
  that are closed; the requests of a closed connection are detached from it.

  How a request ended is recorded beside the state of the server: an answer was handed to the transport, the answer
  could not be built, or its client was gone, since the connection was closed before or by the failed send.
\<close>

datatype k_outcome = Delivered u8 bytes | Unbuilt u8 bytes | Gone

record k_submitter =
  sv_id :: int
  sv_raft :: raft_ctx
  sv_store :: k_applied
  sv_script :: script
  sv_size :: u64
  sv_table :: k_admission
  sv_batch :: k_batch
  sv_writes :: "k_request list"
  sv_arrived :: u64
  sv_total :: u64
  sv_by :: "k_flush_reason \<Rightarrow> u64"
  sv_gate :: "k_request list"
  sv_gate_closed :: bool
  sv_leader :: bool
  sv_leader_id :: int
  sv_admission :: bool
  sv_stopping :: bool
  sv_fatal :: bool
  sv_waiting :: "k_request list"
  sv_sends :: script
  sv_closed :: "nat list"
  sv_ended :: "(nat \<times> u32 \<times> k_outcome) list"

text \<open>A connection is closed: its socket is gone and its requests are detached.\<close>

definition k_conn_closed :: "k_submitter \<Rightarrow> nat \<Rightarrow> k_submitter" where
  "k_conn_closed s conn = s\<lparr>sv_closed := conn # sv_closed s\<rparr>"

definition ends :: "k_submitter \<Rightarrow> nat \<Rightarrow> u32 \<Rightarrow> k_outcome \<Rightarrow> k_submitter" where
  "ends s conn rid out = (if conn = 0 then s else s\<lparr>sv_ended := sv_ended s @ [(conn, rid, out)]\<rparr>)"

text \<open>An answer. A redirect carries the address of the leader; a send that fails closes the connection.\<close>

definition leader_hint :: "k_cluster \<Rightarrow> u8 \<Rightarrow> int \<Rightarrow> bytes option \<times> u16" where
  "leader_hint c status leader_id =
     (case (if status = K_STATUS_REDIRECT \<and> leader_id \<ge> 0 then k_cluster_index c (nat leader_id) else None) of
        None \<Rightarrow> (None, 0) | Some i \<Rightarrow> (Some (node_host (c ! i)), of_nat (node_client_port (c ! i))))"

definition k_server_send_response :: "k_submitter \<Rightarrow> nat \<Rightarrow> u32 \<Rightarrow> u8 \<Rightarrow> int \<Rightarrow> bytes \<Rightarrow> int \<times> k_submitter" where
  "k_server_send_response s conn rid status leader_id body =
     (if conn = 0 \<or> conn \<in> set (sv_closed s) then (-1, ends s conn rid Gone)
      else case leader_hint (ap_cluster (sv_store s)) status leader_id of (host, port) \<Rightarrow>
        case k_response_payload (sv_script s) rid status leader_id host port body of
          (sc, None) \<Rightarrow> (-1, ends (s\<lparr>sv_script := sc\<rparr>) conn rid (Unbuilt status body))
        | (sc, Some payload) \<Rightarrow>
            (case alloc (sv_sends s) of (sent, sends) \<Rightarrow>
               if sent then (0, ends (s\<lparr>sv_script := sc, sv_sends := sends\<rparr>) conn rid (Delivered status body))
               else (-1, ends (k_conn_closed (s\<lparr>sv_script := sc, sv_sends := sends\<rparr>) conn) conn rid Gone)))"

definition k_server_redirect :: "k_submitter \<Rightarrow> nat \<Rightarrow> u32 \<Rightarrow> int \<times> k_submitter" where
  "k_server_redirect s conn rid = k_server_send_response s conn rid K_STATUS_REDIRECT (sv_leader_id s) []"

definition send_error :: "k_submitter \<Rightarrow> nat \<Rightarrow> u32 \<Rightarrow> int \<Rightarrow> string \<Rightarrow> int \<times> k_submitter" where
  "send_error s conn rid leader_id msg = k_server_send_response s conn rid K_STATUS_ERROR leader_id (ascii msg)"

definition k_request_is_read :: "u8 \<Rightarrow> bool" where
  "k_request_is_read ty \<longleftrightarrow> ty = K_REQ_GET \<or> ty = K_REQ_COUNT \<or> ty = K_REQ_MIN \<or> ty = K_REQ_MAX \<or> ty = K_REQ_RGET \<or> ty = K_REQ_MEMBERS \<or> ty = K_REQ_MGET"

text \<open>Creating a request at the address \<open>adr\<close>; the store side of it is the entry that will hold its answer.\<close>

definition new_request :: "k_submitter \<Rightarrow> u64 \<Rightarrow> nat \<Rightarrow> u32 \<Rightarrow> u8 \<Rightarrow> bytes \<Rightarrow> bytes \<Rightarrow> u64 \<Rightarrow> k_request option \<times> k_submitter" where
  "new_request s adr conn rid ty key en payload_size =
     (case k_request_create_server (sv_size s) (sv_script s) (sv_table s) adr (of_nat (length key)) (of_nat (length en)) payload_size of
        (None, sc, a) \<Rightarrow> (None, s\<lparr>sv_script := sc, sv_table := a\<rparr>)
      | (Some c, sc, a) \<Rightarrow>
          (Some \<lparr>rq_cookie = c, rq_conn = conn, rq_id = rid, rq_type = ty, rq_key = key, rq_end = en, rq_command = [], rq_tracked = sv_size s + payload_size * 2\<rparr>,
           s\<lparr>sv_script := sc, sv_table := a,
             sv_store := (sv_store s)\<lparr>ap_requests := (ap_requests (sv_store s))(unat c \<mapsto> \<lparr>an_conflict = False, an_result = k_buf_zero\<rparr>)\<rparr>\<rparr>))"

subsection \<open>Freeing, flushing and starting a command\<close>

definition request_free :: "(k_submitter \<Rightarrow> k_submitter option) \<Rightarrow> k_submitter \<Rightarrow> k_request \<Rightarrow> k_submitter option" where
  "request_free opens s rq =
     (let s = s\<lparr>sv_table := k_request_unlink (sv_table s) (rq_cookie rq),
                sv_store := (sv_store s)\<lparr>ap_requests := (ap_requests (sv_store s))(unat (rq_cookie rq) := None)\<rparr>\<rparr>
      in case (if sv_gate_closed s \<and> rq_type rq = K_REQ_FCALL then opens s else Some s) of None \<Rightarrow> None
         | Some s \<Rightarrow> Some (s\<lparr>sv_table := request_uncharge (sv_table s) (rq_tracked rq)\<rparr>))"

text \<open>A batch that was not submitted: every client is redirected.\<close>

fun refuse_all :: "(k_submitter \<Rightarrow> k_submitter option) \<Rightarrow> k_submitter \<Rightarrow> k_request list \<Rightarrow> k_submitter option" where
  "refuse_all opens s [] = Some s"
| "refuse_all opens s (rq # rqs) =
     (case request_free opens (snd (k_server_redirect s (rq_conn rq) (rq_id rq))) rq of None \<Rightarrow> None | Some s \<Rightarrow> refuse_all opens s rqs)"

definition command_of :: "k_request \<Rightarrow> raft_command" where
  "command_of rq = \<lparr>cmd_cookie = unat (rq_cookie rq), cmd_command = Some (rq_command rq), cmd_command_size = length (rq_command rq)\<rparr>"

definition submit_batch :: "raft_ctx \<Rightarrow> u32 \<Rightarrow> k_request list \<Rightarrow> int \<times> raft_ctx" where
  "submit_batch r cnt batch = (if unat cnt = length batch then raft_recvfrom_client r (RAFT_CLIENT_SUBMIT (map command_of batch)) else (-1, r))"

definition flush_writes :: "(k_submitter \<Rightarrow> k_submitter option) \<Rightarrow> k_submitter \<Rightarrow> (int \<times> k_submitter) option" where
  "flush_writes opens s =
     (if sv_writes s = [] then Some (0, s)
      else let batch = sv_writes s; cnt = bt_count (sv_batch s); (ok, sc) = alloc (sv_script s);
               s = s\<lparr>sv_writes := [], sv_batch := (sv_batch s)\<lparr>bt_count := 0, bt_bytes := 0, bt_elapsed := 0\<rparr>, sv_script := sc\<rparr>
        in if \<not> ok then map_option (Pair (-1)) (refuse_all opens s batch)
           else case submit_batch (sv_raft s) cnt batch of (rc, r) \<Rightarrow>
             let s = s\<lparr>sv_raft := r\<rparr>
             in if rc = 0
                then Some (0, s\<lparr>sv_batch := (sv_batch s)\<lparr>bt_batches := bt_batches (sv_batch s) + 1, bt_elapsed := 0\<rparr>,
                                sv_total := sv_total s + ucast cnt, sv_waiting := sv_waiting s @ batch\<rparr>)
                else map_option (Pair 0) (refuse_all opens s batch))"

definition count_reason :: "k_submitter \<Rightarrow> k_flush_reason \<Rightarrow> k_submitter" where
  "count_reason s why = (if why = FlushNoReason then s else s\<lparr>sv_by := (sv_by s)(why := sv_by s why + 1)\<rparr>)"

definition flush_reason :: "(k_submitter \<Rightarrow> k_submitter option) \<Rightarrow> k_submitter \<Rightarrow> k_flush_reason \<Rightarrow> (int \<times> k_submitter) option" where
  "flush_reason opens s why =
     (case flush_writes opens s of None \<Rightarrow> None
      | Some (rc, s') \<Rightarrow>
          if rc \<noteq> 0 then Some (rc, s')
          else if bt_batches (sv_batch s') = bt_batches (sv_batch s) then Some (0, s')
          else Some (0, count_reason s' why))"

definition barrier_reason :: "k_submitter \<Rightarrow> k_flush_reason" where
  "barrier_reason s = (if bt_count (sv_batch s) \<noteq> 0 then FlushBarrier else FlushNoReason)"

text \<open>A read barrier for a request.\<close>

definition raft_barrier_for :: "k_submitter \<Rightarrow> k_request \<Rightarrow> int \<times> k_submitter" where
  "raft_barrier_for s rq =
     (case raft_recvfrom_client (sv_raft s) (RAFT_CLIENT_BARRIER (unat (rq_cookie rq))) of
        (rc, r) \<Rightarrow> (rc, s\<lparr>sv_raft := r, sv_waiting := (if rc = 0 then sv_waiting s @ [rq] else sv_waiting s)\<rparr>))"

definition start_fcall :: "(k_submitter \<Rightarrow> k_submitter option) \<Rightarrow> k_submitter \<Rightarrow> k_request \<Rightarrow> (int \<times> k_submitter) option" where
  "start_fcall opens s rq =
     (case flush_reason opens (s\<lparr>sv_gate_closed := True\<rparr>) (barrier_reason s) of None \<Rightarrow> None
      | Some (rc, s) \<Rightarrow> if rc \<noteq> 0 then Some (-1, s) else Some (raft_barrier_for s rq))"

subsection \<open>Opening the gate\<close>

definition queue_write :: "k_submitter \<Rightarrow> k_request \<Rightarrow> bytes \<Rightarrow> k_submitter" where
  "queue_write s rq cmd =
     s\<lparr>sv_writes := sv_writes s @ [rq\<lparr>rq_command := cmd\<rparr>], sv_arrived := sv_arrived s + 1,
       sv_batch := (sv_batch s)\<lparr>bt_count := bt_count (sv_batch s) + 1, bt_bytes := bt_bytes (sv_batch s) + of_nat (length cmd)\<rparr>\<rparr>"

definition limit_reason :: "k_batch \<Rightarrow> k_flush_reason option" where
  "limit_reason b =
     (if bt_count b \<ge> cfg_flush_item_limit (bt_cfg b) then Some FlushTarget
      else if cfg_flush_bytes_limit (bt_cfg b) \<noteq> 0 \<and> bt_bytes b \<ge> ucast (cfg_flush_bytes_limit (bt_cfg b)) then Some FlushBytes else None)"

primrec gate_loop :: "nat \<Rightarrow> k_submitter \<Rightarrow> k_submitter option" where
  "gate_loop 0 s = None"
| "gate_loop (Suc n) s =
     (case sv_gate s of
        [] \<Rightarrow> (case limit_reason (sv_batch s) of None \<Rightarrow> Some s
              | Some why \<Rightarrow> map_option snd (flush_reason (\<lambda>s. gate_loop n (s\<lparr>sv_gate_closed := False\<rparr>)) s why))
      | rq # rest \<Rightarrow>
          let s = s\<lparr>sv_gate := rest\<rparr>
          in if rq_type rq = K_REQ_FCALL
             then (case start_fcall (\<lambda>s. gate_loop n (s\<lparr>sv_gate_closed := False\<rparr>)) s rq of None \<Rightarrow> None
                   | Some (rc, s) \<Rightarrow>
                       if rc \<noteq> 0 then request_free (\<lambda>s. gate_loop n (s\<lparr>sv_gate_closed := False\<rparr>)) (snd (k_server_redirect s (rq_conn rq) (rq_id rq))) rq
                       else Some s)
             else (case k_server_build_write_command (sv_script s, k_buf_zero) (rq_type rq) (rq_key rq) (rq_end rq) of (ok, sc, b) \<Rightarrow>
                     let s = s\<lparr>sv_script := sc\<rparr>
                     in if \<not> ok
                        then (case request_free (\<lambda>s. gate_loop n (s\<lparr>sv_gate_closed := False\<rparr>)) (snd (k_server_redirect s (rq_conn rq) (rq_id rq))) rq of
                                None \<Rightarrow> None | Some s \<Rightarrow> gate_loop n s)
                        else gate_loop n (queue_write s rq (buf_data b))))"

definition k_server_open_gate :: "k_submitter \<Rightarrow> k_submitter option" where
  "k_server_open_gate s = gate_loop (Suc (length (sv_gate s))) (s\<lparr>sv_gate_closed := False\<rparr>)"

definition k_request_free :: "k_submitter \<Rightarrow> k_request \<Rightarrow> k_submitter option" where
  "k_request_free = request_free k_server_open_gate"

definition k_server_flush_writes :: "k_submitter \<Rightarrow> (int \<times> k_submitter) option" where
  "k_server_flush_writes = flush_writes k_server_open_gate"

definition k_server_flush_reason :: "k_submitter \<Rightarrow> k_flush_reason \<Rightarrow> (int \<times> k_submitter) option" where
  "k_server_flush_reason = flush_reason k_server_open_gate"

definition k_server_start_fcall :: "k_submitter \<Rightarrow> k_request \<Rightarrow> (int \<times> k_submitter) option" where
  "k_server_start_fcall = start_fcall k_server_open_gate"

definition k_server_clear_gate :: "k_submitter \<Rightarrow> k_submitter option" where
  "k_server_clear_gate s =
     (case refuse_all k_server_open_gate (s\<lparr>sv_gate_closed := False\<rparr>) (sv_gate s) of None \<Rightarrow> None | Some s \<Rightarrow> Some (s\<lparr>sv_gate := []\<rparr>))"

subsection \<open>Submitting requests\<close>

definition k_server_queue_gated :: "k_submitter \<Rightarrow> u64 \<Rightarrow> nat \<Rightarrow> u32 \<Rightarrow> u8 \<Rightarrow> bytes \<Rightarrow> bytes \<Rightarrow> int \<times> k_submitter" where
  "k_server_queue_gated s adr conn rid ty key v =
     (case new_request s adr conn rid ty key v (of_nat (length key) + of_nat (length v)) of
        (None, s) \<Rightarrow> send_error s conn rid 0 ''out of memory''
      | (Some rq, s) \<Rightarrow> (0, s\<lparr>sv_gate := sv_gate s @ [rq]\<rparr>))"

text \<open>The three ways of a submission: a custom command, a read, and a write.\<close>

definition submit_fcall :: "k_submitter \<Rightarrow> u64 \<Rightarrow> nat \<Rightarrow> u32 \<Rightarrow> bytes \<Rightarrow> bytes \<Rightarrow> (int \<times> k_submitter) option" where
  "submit_fcall s adr conn rid key v =
     (case new_request s adr conn rid K_REQ_FCALL key v (of_nat (length key) + of_nat (length v)) of
        (None, s) \<Rightarrow> Some (send_error s conn rid 0 ''out of memory'')
      | (Some rq, s) \<Rightarrow>
          (case k_server_start_fcall s rq of None \<Rightarrow> None
           | Some (rc, s) \<Rightarrow>
               if rc \<noteq> 0 then (case k_request_free s rq of None \<Rightarrow> None | Some s \<Rightarrow> Some (k_server_redirect s conn rid)) else Some (0, s)))"

definition submit_read :: "k_submitter \<Rightarrow> u64 \<Rightarrow> nat \<Rightarrow> u32 \<Rightarrow> u8 \<Rightarrow> bytes \<Rightarrow> bytes \<Rightarrow> (int \<times> k_submitter) option" where
  "submit_read s adr conn rid ty key v =
     (case new_request s adr conn rid ty key (if ty = K_REQ_RGET \<or> ty = K_REQ_COUNT \<or> ty = K_REQ_MIN \<or> ty = K_REQ_MAX then v else [])
             (of_nat (length key) + of_nat (length v)) of
        (None, s) \<Rightarrow> Some (send_error s conn rid 0 ''out of memory'')
      | (Some rq, s) \<Rightarrow>
          (case k_server_flush_reason s (barrier_reason s) of None \<Rightarrow> None
           | Some (rc, s) \<Rightarrow>
               if rc \<noteq> 0 then (case k_request_free s rq of None \<Rightarrow> None | Some s \<Rightarrow> Some (send_error s conn rid 0 ''flush failed''))
               else case raft_barrier_for s rq of (rc, s) \<Rightarrow>
                 if rc \<noteq> 0 then (case k_request_free (s\<lparr>sv_leader := False\<rparr>) rq of None \<Rightarrow> None | Some s \<Rightarrow> Some (k_server_redirect s conn rid))
                 else Some (0, s)))"

definition submit_write :: "k_submitter \<Rightarrow> u64 \<Rightarrow> nat \<Rightarrow> u32 \<Rightarrow> u8 \<Rightarrow> bytes \<Rightarrow> bytes \<Rightarrow> (int \<times> k_submitter) option" where
  "submit_write s adr conn rid ty key v =
     (case new_request s adr conn rid ty [] [] (of_nat (length key) + of_nat (length v)) of
        (None, s) \<Rightarrow> Some (send_error s conn rid 0 ''out of memory'')
      | (Some rq, s) \<Rightarrow>
          (case k_server_build_write_command (sv_script s, k_buf_zero) ty key v of (ok, sc, b) \<Rightarrow>
             let s = s\<lparr>sv_script := sc\<rparr>
             in if \<not> ok then (case k_request_free s rq of None \<Rightarrow> None | Some s \<Rightarrow> Some (send_error s conn rid 0 ''out of memory''))
                else let s = queue_write s rq (buf_data b)
                  in case limit_reason (sv_batch s) of None \<Rightarrow> Some (0, s) | Some why \<Rightarrow> map_option (\<lambda>(rc, s). (0, s)) (k_server_flush_reason s why)))"

definition k_server_submit :: "k_submitter \<Rightarrow> u64 \<Rightarrow> nat \<Rightarrow> u32 \<Rightarrow> u8 \<Rightarrow> bytes \<Rightarrow> bytes \<Rightarrow> (int \<times> k_submitter) option" where
  "k_server_submit s adr conn rid ty key v =
     (if \<not> sv_leader s \<and> \<not> k_request_is_read ty then Some (k_server_redirect s conn rid)
      else if sv_gate_closed s \<and> \<not> k_request_is_read ty then Some (k_server_queue_gated s adr conn rid ty key v)
      else if ty = K_REQ_FCALL then submit_fcall s adr conn rid key v
      else if k_request_is_read ty then submit_read s adr conn rid ty key v
      else submit_write s adr conn rid ty key v)"

text \<open>A range read carries its arguments as the command of the request.\<close>

definition k_server_submit_rget :: "k_submitter \<Rightarrow> u64 \<Rightarrow> nat \<Rightarrow> u32 \<Rightarrow> bytes \<Rightarrow> (int \<times> k_submitter) option" where
  "k_server_submit_rget s adr conn rid cmd =
     (case new_request s adr conn rid K_REQ_RGET [] [] (of_nat (length cmd)) of
        (None, s) \<Rightarrow> Some (send_error s conn rid 0 ''out of memory'')
      | (Some rq, s) \<Rightarrow>
          let rq = rq\<lparr>rq_command := cmd\<rparr>
          in case k_server_flush_reason s (barrier_reason s) of None \<Rightarrow> None
             | Some (rc, s) \<Rightarrow>
                 if rc \<noteq> 0 then (case k_request_free s rq of None \<Rightarrow> None | Some s \<Rightarrow> Some (send_error s conn rid 0 ''flush failed''))
                 else case raft_barrier_for s rq of (rc, s) \<Rightarrow>
                   if rc \<noteq> 0 then (case k_request_free s rq of None \<Rightarrow> None | Some s \<Rightarrow> Some (k_server_redirect s conn rid)) else Some (0, s))"

subsection \<open>Time and stopping\<close>

definition k_server_flush_if_ready :: "k_submitter \<Rightarrow> bool \<Rightarrow> (int \<times> k_submitter) option" where
  "k_server_flush_if_ready s new_writes_arrived =
     (case flush_choice (sv_batch s) new_writes_arrived of None \<Rightarrow> Some (0, s)
      | Some why \<Rightarrow> (case k_server_flush_reason s why of None \<Rightarrow> None | Some (rc, s) \<Rightarrow> Some (if rc = 0 then 1 else -1, s)))"

definition k_server_begin_stop :: "k_submitter \<Rightarrow> k_submitter option" where
  "k_server_begin_stop s =
     (if sv_stopping s then Some s
      else case k_server_flush_reason (s\<lparr>sv_admission := False\<rparr>) (if bt_count (sv_batch s) \<noteq> 0 then FlushStop else FlushNoReason) of None \<Rightarrow> None
        | Some (rc, s) \<Rightarrow> Some (s\<lparr>sv_fatal := (if rc \<noteq> 0 then True else sv_fatal s), sv_stopping := True, sv_raft := raft_stop (sv_raft s)\<rparr>))"

text \<open>The age of the batch in \<^verbatim>\<open>k_server_advance_at\<close>.\<close>

definition batch_tick :: "k_submitter \<Rightarrow> u32 \<Rightarrow> k_submitter option" where
  "batch_tick s ms =
     (if bt_count (sv_batch s) = 0 then Some s
      else let e = bt_elapsed (sv_batch s); e = (if e \<le> 0xffffffff - ms then e + ms else 0xffffffff);
               s = s\<lparr>sv_batch := (sv_batch s)\<lparr>bt_elapsed := e\<rparr>\<rparr>
        in if e < cfg_flush_timeout_ms (bt_cfg (sv_batch s)) then Some s
           else case k_server_flush_reason s FlushWindow of None \<Rightarrow> None
             | Some (rc, s) \<Rightarrow> if rc \<noteq> 0 then k_server_begin_stop (s\<lparr>sv_fatal := True\<rparr>) else Some s)"

subsection \<open>Results\<close>

definition k_server_fcall_fail :: "k_submitter \<Rightarrow> k_request \<Rightarrow> k_submitter option" where
  "k_server_fcall_fail s rq = (case k_request_free s rq of None \<Rightarrow> None | Some s \<Rightarrow> k_server_open_gate s)"

text \<open>Running a command once its barrier is ready: its entry joins the queue and the gate opens.\<close>

definition exec_fcall :: "k_cmd list \<Rightarrow> k_submitter \<Rightarrow> k_request \<Rightarrow> k_submitter option" where
  "exec_fcall regs s rq =
     (case k_server_exec_cmd regs (sv_store s) (rq_key rq) (rq_end rq) of
        (ExecError msg, st) \<Rightarrow> k_server_fcall_fail (snd (send_error (s\<lparr>sv_store := st\<rparr>) (rq_conn rq) (rq_id rq) (sv_id s) msg)) rq
      | (ExecEntry e b, st) \<Rightarrow>
          k_server_open_gate (queue_write (s\<lparr>sv_store := st\<lparr>ap_requests := (ap_requests st)(unat (rq_cookie rq) \<mapsto> \<lparr>an_conflict = False, an_result = b\<rparr>)\<rparr>\<rparr>) rq e))"

text \<open>The answer to a committed write, which the application of its entry prepared.\<close>

definition commit_reply :: "k_submitter \<Rightarrow> k_request \<Rightarrow> int \<Rightarrow> int \<times> k_submitter" where
  "commit_reply s rq leader_id =
     (let an = (case ap_requests (sv_store s) (unat (rq_cookie rq)) of None \<Rightarrow> \<lparr>an_conflict = False, an_result = k_buf_zero\<rparr> | Some an \<Rightarrow> an);
          body = buf_data (an_result an)
      in if rq_type rq \<in> {K_REQ_FCALL, K_REQ_RDEL, K_REQ_MSET, K_REQ_MDEL, K_REQ_RSET}
         then k_server_send_response s (rq_conn rq) (rq_id rq) K_STATUS_OK leader_id body
         else if rq_type rq = K_REQ_CAS
         then k_server_send_response s (rq_conn rq) (rq_id rq) (if an_conflict an then K_STATUS_CONFLICT else K_STATUS_OK) leader_id body
         else k_server_send_response s (rq_conn rq) (rq_id rq) K_STATUS_OK leader_id [])"

text \<open>
  The terminal result of a request of a client; the notes of membership changes and the requests of the server itself
  are not among them. A request whose client is gone is only freed. Raft reports the cookies it was handed, so a
  request is looked up among those that wait for a result. What the sends of the answers return is ignored.
\<close>

definition client_result :: "k_cmd list \<Rightarrow> k_submitter \<Rightarrow> k_request \<Rightarrow> raft_client_result \<Rightarrow> k_submitter option" where
  "client_result regs s rq res =
     (let conn = rq_conn rq; rid = rq_id rq; status = cr_status res; leader_id = cr_leader_id res
      in if conn = 0 \<or> conn \<in> set (sv_closed s) then k_request_free (ends s conn rid Gone) rq
         else if status = RAFT_CLIENT_CATCHUP_FAILED
         then k_request_free (snd (k_server_send_response (s\<lparr>sv_store := (sv_store s)\<lparr>ap_pending := [], ap_source := []\<rparr>\<rparr>) conn rid
                K_STATUS_ERROR leader_id (ascii ''catch-up failed'' @ [0]))) rq
         else if status = RAFT_CLIENT_REDIRECT \<or> status = RAFT_CLIENT_FAILED
         then (let s = snd (if status = RAFT_CLIENT_REDIRECT then k_server_send_response s conn rid K_STATUS_REDIRECT leader_id []
                            else send_error s conn rid leader_id ''raft request failed'')
               in if rq_type rq = K_REQ_FCALL then k_server_fcall_fail s rq else k_request_free s rq)
         else if status = RAFT_CLIENT_COMMITTED then k_request_free (snd (commit_reply s rq leader_id)) rq
         else if status = RAFT_CLIENT_READY \<and> k_request_is_read (rq_type rq)
         then (case read_reply (sv_store s) (rq_type rq) (rq_key rq) (rq_end rq) (rq_command rq) of ((st, body), ap) \<Rightarrow>
                 k_request_free (snd (k_server_send_response (s\<lparr>sv_store := ap\<rparr>) conn rid st leader_id body)) rq)
         else if status = RAFT_CLIENT_READY \<and> rq_type rq = K_REQ_FCALL then exec_fcall regs s rq
         else k_request_free (snd (send_error s conn rid leader_id ''unexpected raft result'')) rq)"

definition k_server_handle_client_result :: "k_cmd list \<Rightarrow> k_submitter \<Rightarrow> raft_client_result \<Rightarrow> k_submitter option" where
  "k_server_handle_client_result regs s res =
     (case find (\<lambda>rq. unat (rq_cookie rq) = cr_cookie res) (sv_waiting s) of None \<Rightarrow> Some s
      | Some rq \<Rightarrow> if cr_status res = RAFT_CLIENT_CATCHUP_READY then Some s
                   else client_result regs (s\<lparr>sv_waiting := remove1 rq (sv_waiting s)\<rparr>) rq res)"

text \<open>A report of Raft that the leader has changed: a leader that loses its office abandons the gate and the catch-up.\<close>

definition leader_change :: "k_submitter \<Rightarrow> bool \<Rightarrow> int \<Rightarrow> k_submitter option" where
  "leader_change s is_leader leader_id =
     (let lost = sv_leader s \<and> \<not> is_leader; s = s\<lparr>sv_leader := is_leader, sv_leader_id := leader_id\<rparr>
      in if lost then map_option (\<lambda>s. s\<lparr>sv_store := (sv_store s)\<lparr>ap_pending := [], ap_source := []\<rparr>\<rparr>) (k_server_clear_gate s) else Some s)"

text \<open>
  What the reader of a connection does with a submission that returns an error, as when its answer could not be sent:
  it closes the connection (\<^verbatim>\<open>k_server_client_received\<close> feeds the frames and closes on a failure).
\<close>

definition hang_up :: "nat \<Rightarrow> int \<times> k_submitter \<Rightarrow> k_submitter" where
  "hang_up conn out = (if fst out \<noteq> 0 then k_conn_closed (snd out) conn else snd out)"

end
