(* ===== verification/Server_Gate.thy ===== *)
theory Server_Gate
  imports Server_Queue
begin

section \<open>Laws of the write queue and the gate\<close>

text \<open>
  The invariant of the queues and a ledger of requests: what the server holds for its clients and how the other requests ended.
  A locale states what an operation that opens the gate has to keep; the operations that may open the gate are verified
  in it once, for the gate's loop at any fuel and for \<^verbatim>\<open>k_server_open_gate\<close> itself.
\<close>

subsection \<open>Invariant and ledger\<close>

text \<open>With memory every answer that fits a frame can be built.\<close>

lemma response_built:
  assumes "snd (k_response_payload sc rid st l h p body) = None" "length (key_of h) \<le> 65535" "17 + length (key_of h) + length body \<le> K_FRAME_MAX"
  shows "sc \<noteq> []"
proof
  assume sc: "sc = []"
  let ?fs = "[FU32 rid, FU8 st, FI32 l, FU16 (of_nat (length (key_of h))), FBytes (key_of h), FU16 p, FU32 (of_nat (length body)), FBytes body]"
  have z: "holds ([], k_buf_zero) []" by (simp add: holds_def k_buf_zero_def buf_wf_def)
  have len: "length (concat (map wire ?fs)) = 17 + length (key_of h) + length body" by (simp add: u8c.length_enc u16c.length_enc u32c.length_enc i32c.length_enc)
  have "holds (put_fields ([], k_buf_zero) ?fs) ([] @ concat (map wire ?fs))" by (rule holds_fields[OF z]) (use assms(3) len in simp)
  then have "\<exists>b. put_fields ([], k_buf_zero) ?fs = ([], b) \<and> \<not> buf_err b \<and> length (buf_data b) \<le> K_FRAME_MAX" using assms(3) len by (auto simp: holds_def prod_eq_iff)
  then show False using assms(1,2) by (auto simp: k_response_payload_def Let_def sc payload_done_def)
qed

text \<open>
  The counters of the queue are right, and every request that ended without an answer has a reason: the answer could
  not be built, for lack of memory or because it does not fit a frame, or the connection is closed.
\<close>

fun accounted :: "nat list \<Rightarrow> nat \<times> u32 \<times> k_outcome \<Rightarrow> bool" where
  "accounted gone (conn, rid, Delivered st body) \<longleftrightarrow> True"
| "accounted gone (conn, rid, Unbuilt st body) \<longleftrightarrow> (\<exists>sc l h p. snd (k_response_payload sc rid st l h p body) = None
     \<and> (sc \<noteq> [] \<or> length (key_of h) > 65535 \<or> 17 + length (key_of h) + length body > K_FRAME_MAX))"
| "accounted gone (conn, rid, Gone) \<longleftrightarrow> conn \<in> set gone"

definition queue_ok :: "k_submitter \<Rightarrow> bool" where
  "queue_ok s \<longleftrightarrow> bt_count (sv_batch s) = of_nat (length (sv_writes s))
     \<and> bt_bytes (sv_batch s) = of_nat (sum_list (map (length \<circ> rq_command) (sv_writes s))) \<and> list_all (accounted (sv_closed s)) (sv_ended s)"

text \<open>Nothing is held back while the gate is open.\<close>

definition gate_ok :: "k_submitter \<Rightarrow> bool" where
  "gate_ok s \<longleftrightarrow> (\<not> sv_gate_closed s \<longrightarrow> sv_gate s = [])"

text \<open>The client of a request, if there is one, and the requests of clients that are held or have ended.\<close>

definition client_of :: "k_request \<Rightarrow> (nat \<times> u32) multiset" where
  "client_of rq = (if rq_conn rq = 0 then {#} else {#(rq_conn rq, rq_id rq)#})"

definition clients :: "k_request list \<Rightarrow> (nat \<times> u32) multiset" where
  "clients rqs = sum_list (map client_of rqs)"

definition ledger :: "k_submitter \<Rightarrow> (nat \<times> u32) multiset" where
  "ledger s = clients (sv_writes s) + clients (sv_gate s) + clients (sv_waiting s) + mset (map (\<lambda>(conn, rid, out). (conn, rid)) (sv_ended s))"

definition settled :: "k_submitter \<Rightarrow> (nat \<times> u32) multiset \<Rightarrow> k_submitter \<Rightarrow> bool" where
  "settled s new s' \<longleftrightarrow> queue_ok s' \<and> gate_ok s' \<and> length (sv_gate s') \<le> length (sv_gate s) \<and> ledger s' = ledger s + new"

lemma clients_simps [simp]: "clients [] = {#}" "clients (rq # rqs) = client_of rq + clients rqs" "clients (xs @ ys) = clients xs + clients ys"
  by (simp_all add: clients_def)

lemma client_of_command [simp]: "client_of (rq\<lparr>rq_command := c\<rparr>) = client_of rq"
  by (simp add: client_of_def)

lemma settled_trans: "settled s a s1 \<Longrightarrow> settled s1 b s2 \<Longrightarrow> settled s (a + b) s2"
  by (auto simp: settled_def)

lemma accounted_more: "accounted gone x \<Longrightarrow> accounted (c # gone) x"
  by (induction gone x rule: accounted.induct) auto

text \<open>Fields that the invariant and the ledger do not read.\<close>

lemma invariant_frame [simp]:
  "queue_ok (s\<lparr>sv_table := t\<rparr>) = queue_ok s" "gate_ok (s\<lparr>sv_table := t\<rparr>) = gate_ok s" "ledger (s\<lparr>sv_table := t\<rparr>) = ledger s"
  "queue_ok (s\<lparr>sv_store := st\<rparr>) = queue_ok s" "gate_ok (s\<lparr>sv_store := st\<rparr>) = gate_ok s" "ledger (s\<lparr>sv_store := st\<rparr>) = ledger s"
  "queue_ok (s\<lparr>sv_script := sc\<rparr>) = queue_ok s" "gate_ok (s\<lparr>sv_script := sc\<rparr>) = gate_ok s" "ledger (s\<lparr>sv_script := sc\<rparr>) = ledger s"
  "queue_ok (s\<lparr>sv_sends := sc\<rparr>) = queue_ok s" "gate_ok (s\<lparr>sv_sends := sc\<rparr>) = gate_ok s" "ledger (s\<lparr>sv_sends := sc\<rparr>) = ledger s"
  "queue_ok (s\<lparr>sv_raft := r\<rparr>) = queue_ok s" "gate_ok (s\<lparr>sv_raft := r\<rparr>) = gate_ok s" "ledger (s\<lparr>sv_raft := r\<rparr>) = ledger s"
  "queue_ok (s\<lparr>sv_by := b\<rparr>) = queue_ok s" "gate_ok (s\<lparr>sv_by := b\<rparr>) = gate_ok s" "ledger (s\<lparr>sv_by := b\<rparr>) = ledger s"
  "queue_ok (s\<lparr>sv_leader := l\<rparr>) = queue_ok s" "gate_ok (s\<lparr>sv_leader := l\<rparr>) = gate_ok s" "ledger (s\<lparr>sv_leader := l\<rparr>) = ledger s"
  "queue_ok (s\<lparr>sv_leader_id := i\<rparr>) = queue_ok s" "gate_ok (s\<lparr>sv_leader_id := i\<rparr>) = gate_ok s" "ledger (s\<lparr>sv_leader_id := i\<rparr>) = ledger s"
  "queue_ok (s\<lparr>sv_gate_closed := g\<rparr>) = queue_ok s" "ledger (s\<lparr>sv_gate_closed := g\<rparr>) = ledger s"
  "gate_ok (s\<lparr>sv_closed := x\<rparr>) = gate_ok s" "ledger (s\<lparr>sv_closed := x\<rparr>) = ledger s"
  "queue_ok (s\<lparr>sv_gate := q\<rparr>) = queue_ok s" "queue_ok (s\<lparr>sv_waiting := w\<rparr>) = queue_ok s" "gate_ok (s\<lparr>sv_waiting := w\<rparr>) = gate_ok s"
  "queue_ok (s\<lparr>sv_admission := a\<rparr>) = queue_ok s" "gate_ok (s\<lparr>sv_admission := a\<rparr>) = gate_ok s" "ledger (s\<lparr>sv_admission := a\<rparr>) = ledger s"
  "queue_ok (s\<lparr>sv_stopping := a\<rparr>) = queue_ok s" "gate_ok (s\<lparr>sv_stopping := a\<rparr>) = gate_ok s" "ledger (s\<lparr>sv_stopping := a\<rparr>) = ledger s"
  "queue_ok (s\<lparr>sv_fatal := a\<rparr>) = queue_ok s" "gate_ok (s\<lparr>sv_fatal := a\<rparr>) = gate_ok s" "ledger (s\<lparr>sv_fatal := a\<rparr>) = ledger s"
  by (simp_all add: queue_ok_def gate_ok_def ledger_def)

lemma closed_ok: "queue_ok s \<Longrightarrow> queue_ok (k_conn_closed s conn)"
  by (auto simp: queue_ok_def k_conn_closed_def list_all_iff intro: accounted_more)

lemma closed_frame [simp]: "gate_ok (k_conn_closed s conn) = gate_ok s" "ledger (k_conn_closed s conn) = ledger s" "sv_gate (k_conn_closed s conn) = sv_gate s"
  by (simp_all add: k_conn_closed_def)

text \<open>The end of a request, and sending an answer.\<close>

definition answer_to :: "nat \<Rightarrow> u32 \<Rightarrow> (nat \<times> u32) multiset" where
  "answer_to conn rid = (if conn = 0 then {#} else {#(conn, rid)#})"

lemma client_answer: "answer_to (rq_conn rq) (rq_id rq) = client_of rq"
  by (simp add: answer_to_def client_of_def)

text \<open>What an answer leaves alone.\<close>

definition queues :: "k_submitter \<Rightarrow> raft_ctx \<times> k_batch \<times> k_request list \<times> k_request list \<times> bool \<times> k_request list" where
  "queues s = (sv_raft s, sv_batch s, sv_writes s, sv_gate s, sv_gate_closed s, sv_waiting s)"

lemma ends_frame: "queue_ok s \<Longrightarrow> conn = 0 \<or> accounted (sv_closed s) (conn, rid, out) \<Longrightarrow> queue_ok (ends s conn rid out)"
  "gate_ok (ends s conn rid out) = gate_ok s" "ledger (ends s conn rid out) = ledger s + answer_to conn rid" "queues (ends s conn rid out) = queues s"
  by (auto simp: ends_def queue_ok_def gate_ok_def ledger_def answer_to_def queues_def)

lemma send_cases:
  obtains (gone) "conn = 0 \<or> conn \<in> set (sv_closed s)" "snd (k_server_send_response s conn rid st l body) = ends s conn rid Gone"
  | (unbuilt) sc h p where "snd (k_response_payload (sv_script s) rid st l h p body) = None"
      "snd (k_server_send_response s conn rid st l body) = ends (s\<lparr>sv_script := sc\<rparr>) conn rid (Unbuilt st body)"
  | (sent) sc sends where "snd (k_server_send_response s conn rid st l body) = ends (s\<lparr>sv_script := sc, sv_sends := sends\<rparr>) conn rid (Delivered st body)"
  | (broken) sc sends where "snd (k_server_send_response s conn rid st l body) = ends (k_conn_closed (s\<lparr>sv_script := sc, sv_sends := sends\<rparr>) conn) conn rid Gone"
proof (cases "conn = 0 \<or> conn \<in> set (sv_closed s)")
  case True
  then show thesis using gone by (simp add: k_server_send_response_def)
next
  case False
  obtain h p where h: "leader_hint (ap_cluster (sv_store s)) st l = (h, p)" by fastforce
  obtain sc out where o: "k_response_payload (sv_script s) rid st l h p body = (sc, out)" by fastforce
  obtain ok sends where a: "alloc (sv_sends s) = (ok, sends)" by fastforce
  show thesis using False h o a unbuilt[of h p sc] sent[of sends sc] broken[of sends sc] by (cases out; cases ok) (simp_all add: k_server_send_response_def)
qed

lemma send_frame [simp]:
  "queue_ok s \<Longrightarrow> queue_ok (snd (k_server_send_response s conn rid st l body))" "gate_ok (snd (k_server_send_response s conn rid st l body)) = gate_ok s"
  "ledger (snd (k_server_send_response s conn rid st l body)) = ledger s + answer_to conn rid"
  "queues (snd (k_server_send_response s conn rid st l body)) = queues s"
proof -
  let ?r = "snd (k_server_send_response s conn rid st l body)"
  have "(queue_ok s \<longrightarrow> queue_ok ?r) \<and> gate_ok ?r = gate_ok s \<and> ledger ?r = ledger s + answer_to conn rid \<and> queues ?r = queues s"
  proof (cases rule: send_cases[where s = s and conn = conn and rid = rid and st = st and l = l and body = body])
    case (unbuilt sc h p)
    then have "accounted (sv_closed s) (conn, rid, Unbuilt st body)" using response_built[OF unbuilt(1)] unfolding accounted.simps not_le[symmetric] by metis
    then show ?thesis unfolding unbuilt(2) by (simp add: ends_frame) (simp add: queues_def)
  next
    case (broken sc sends)
    have "queue_ok s \<Longrightarrow> queue_ok (k_conn_closed (s\<lparr>sv_script := sc, sv_sends := sends\<rparr>) conn)" by (rule closed_ok) simp
    then show ?thesis unfolding broken by (simp add: ends_frame k_conn_closed_def) (simp add: queues_def)
  qed (auto simp: ends_frame, simp_all add: queues_def)
  then show "queue_ok s \<Longrightarrow> queue_ok ?r" "gate_ok ?r = gate_ok s" "ledger ?r = ledger s + answer_to conn rid" "queues ?r = queues s" by blast+
qed

lemma send_gate [simp]: "sv_gate (snd (k_server_send_response s conn rid st l body)) = sv_gate s"
  "sv_gate_closed (snd (k_server_send_response s conn rid st l body)) = sv_gate_closed s"
  using send_frame(4)[of s conn rid st l body] by (simp_all add: queues_def del: send_frame)

lemma barrier_frame:
  assumes "raft_barrier_for s rq = (rc, s')"
  shows "queue_ok s' = queue_ok s" "gate_ok s' = gate_ok s" "sv_gate s' = sv_gate s" "ledger s' = ledger s + (if rc = 0 then client_of rq else {#})"
  using assms by (auto simp: raft_barrier_for_def queue_ok_def gate_ok_def ledger_def simp del: raft_recvfrom_client.simps split: prod.splits)

lemmas send_defs = k_server_redirect_def send_error_def

subsection \<open>With the gate open, or without commands\<close>

lemma free_shut:
  assumes "\<not> sv_gate_closed s \<or> rq_type rq \<noteq> K_REQ_FCALL"
  shows "\<exists>t st. request_free opens s rq = Some (s\<lparr>sv_table := t, sv_store := st\<rparr>)"
  by (rule exI[of _ "request_uncharge (k_request_unlink (sv_table s) (rq_cookie rq)) (rq_tracked rq)"],
      rule exI[of _ "(sv_store s)\<lparr>ap_requests := (ap_requests (sv_store s))(unat (rq_cookie rq) := None)\<rparr>"])
    (use assms in \<open>auto simp: request_free_def Let_def\<close>)

text \<open>Each client is redirected once, in order, unless the redirect cannot be built or its connection is closed.\<close>

definition redirected :: "k_request list \<Rightarrow> (nat \<times> u32 \<times> k_outcome) list \<Rightarrow> bool" where
  "redirected rqs xs \<longleftrightarrow> map (\<lambda>(conn, rid, out). (conn, rid)) xs = map (\<lambda>rq. (rq_conn rq, rq_id rq)) (filter (\<lambda>rq. rq_conn rq \<noteq> 0) rqs)
     \<and> (\<forall>(conn, rid, out)\<in>set xs. out \<in> {Delivered K_STATUS_REDIRECT [], Unbuilt K_STATUS_REDIRECT [], Gone})"


lemma redirect_ends: "\<exists>xs. sv_ended (snd (k_server_redirect s (rq_conn rq) (rq_id rq))) = sv_ended s @ xs \<and> redirected [rq] xs"
  by (cases rule: send_cases[where s = s and conn = "rq_conn rq" and rid = "rq_id rq" and st = K_STATUS_REDIRECT and l = "sv_leader_id s" and body = "[]"])
    (auto simp: k_server_redirect_def ends_def redirected_def k_conn_closed_def)

lemma redirected_append: "redirected a xs \<Longrightarrow> redirected b ys \<Longrightarrow> redirected (a @ b) (xs @ ys)"
  by (auto simp: redirected_def)

lemma refuse_shut:
  "\<not> sv_gate_closed s \<or> (\<forall>rq\<in>set rqs. rq_type rq \<noteq> K_REQ_FCALL) \<Longrightarrow> \<exists>s' xs. refuse_all opens s rqs = Some s' \<and> queues s' = queues s
    \<and> sv_ended s' = sv_ended s @ xs \<and> redirected rqs xs \<and> (queue_ok s \<longrightarrow> queue_ok s')"
proof (induction rqs arbitrary: s)
  case Nil
  show ?case by (simp add: redirected_def)
next
  case (Cons rq rqs)
  let ?s = "snd (k_server_redirect s (rq_conn rq) (rq_id rq))"
  have g: "sv_gate_closed ?s = sv_gate_closed s" "queues ?s = queues s" "queue_ok s \<Longrightarrow> queue_ok ?s" by (simp_all add: k_server_redirect_def)
  obtain xs where xs: "sv_ended ?s = sv_ended s @ xs" "redirected [rq] xs" using redirect_ends by blast
  obtain t st where f: "request_free opens ?s rq = Some (?s\<lparr>sv_table := t, sv_store := st\<rparr>)" using free_shut[of ?s rq opens] Cons.prems g(1) by (metis list.set_intros(1))
  let ?q = "?s\<lparr>sv_table := t, sv_store := st\<rparr>"
  have q: "queues ?q = queues s" "sv_gate_closed ?q = sv_gate_closed s" using g by (simp_all add: queues_def)
  obtain s' ys where "refuse_all opens ?q rqs = Some s'" "queues s' = queues ?q" "sv_ended s' = sv_ended ?q @ ys" "redirected rqs ys" "queue_ok ?q \<longrightarrow> queue_ok s'"
    using Cons.IH[of ?q] Cons.prems q by (auto simp del: k_submitter.simps)
  then show ?case using f xs q g(3) redirected_append[OF xs(2)] by auto
qed

text \<open>The operation that opens the gate is not used.\<close>

lemma refuse_any: "\<not> sv_gate_closed s \<Longrightarrow> refuse_all opens s rqs = refuse_all opens' s rqs"
proof (induction rqs arbitrary: s)
  case (Cons rq rqs)
  let ?s = "snd (k_server_redirect s (rq_conn rq) (rq_id rq))"
  have c: "\<not> sv_gate_closed ?s" using Cons.prems by (simp add: send_defs)
  then have e: "request_free opens ?s rq = request_free opens' ?s rq" by (simp add: request_free_def Let_def)
  obtain t st where "request_free opens' ?s rq = Some (?s\<lparr>sv_table := t, sv_store := st\<rparr>)" using free_shut[of ?s rq] c by blast
  then show ?case using Cons.IH[of "?s\<lparr>sv_table := t, sv_store := st\<rparr>"] c e by simp
qed simp

lemma flush_any: "\<not> sv_gate_closed s \<Longrightarrow> flush_reason opens s why = flush_reason opens' s why"
  using refuse_any[of _ opens _ opens'] by (simp add: flush_reason_def flush_writes_def Let_def split: prod.splits)

subsection \<open>Operations that may open the gate\<close>

locale gate_opener =
  fixes opens :: "k_submitter \<Rightarrow> k_submitter option" and fits :: "nat \<Rightarrow> bool"
  assumes opens_settle: "fits (length (sv_gate s)) \<Longrightarrow> queue_ok s \<Longrightarrow> \<exists>s'. opens s = Some s' \<and> settled s {#} s'"
    and fits_down: "fits m \<Longrightarrow> k \<le> m \<Longrightarrow> fits k"
begin

lemma free_settles:
  assumes "fits (length (sv_gate s))" "queue_ok s" "gate_ok s"
  shows "\<exists>s'. request_free opens s rq = Some s' \<and> settled s {#} s'"
proof -
  let ?t = "k_request_unlink (sv_table s) (rq_cookie rq)"
  let ?st = "(sv_store s)\<lparr>ap_requests := (ap_requests (sv_store s))(unat (rq_cookie rq) := None)\<rparr>"
  let ?s = "s\<lparr>sv_table := ?t, sv_store := ?st\<rparr>"
  obtain s' where "opens ?s = Some s'" "settled ?s {#} s'" using opens_settle[of ?s] assms by auto
  then show ?thesis using assms by (auto simp: request_free_def Let_def settled_def)
qed

lemma refuse_settles:
  "fits (length (sv_gate s)) \<Longrightarrow> queue_ok s \<Longrightarrow> gate_ok s \<Longrightarrow> \<exists>s'. refuse_all opens s rqs = Some s' \<and> settled s (clients rqs) s'"
proof (induction rqs arbitrary: s)
  case Nil
  then show ?case by (simp add: settled_def)
next
  case (Cons rq rqs)
  let ?s = "snd (k_server_redirect s (rq_conn rq) (rq_id rq))"
  obtain s1 where s1: "request_free opens ?s rq = Some s1" "settled ?s {#} s1" using free_settles[of ?s rq] Cons.prems by (auto simp: send_defs)
  have "fits (length (sv_gate s1))" using s1(2) Cons.prems(1) by (auto simp: settled_def send_defs intro: fits_down)
  then obtain s2 where "refuse_all opens s1 rqs = Some s2" "settled s1 (clients rqs) s2" using Cons.IH[of s1] s1(2) by (auto simp: settled_def)
  then show ?case using s1 by (auto simp: settled_def send_defs client_answer)
qed

lemma flush_settles:
  assumes "fits (length (sv_gate s))" "queue_ok s" "gate_ok s"
  shows "\<exists>rc s'. flush_writes opens s = Some (rc, s') \<and> settled s {#} s'"
proof (cases "sv_writes s = []")
  case True
  then show ?thesis using assms by (simp add: flush_writes_def settled_def)
next
  case False
  obtain ok sc where a: "alloc (sv_script s) = (ok, sc)" by fastforce
  define s1 where "s1 = s\<lparr>sv_writes := [], sv_batch := (sv_batch s)\<lparr>bt_count := 0, bt_bytes := 0, bt_elapsed := 0\<rparr>, sv_script := sc\<rparr>"
  let ?w = "sv_writes s"
  have q: "queue_ok s1" "gate_ok s1" "sv_gate s1 = sv_gate s" "ledger s = ledger s1 + clients ?w" using assms(2,3) by (auto simp: s1_def queue_ok_def gate_ok_def ledger_def)
  have ref: "\<exists>s'. refuse_all opens (s1\<lparr>sv_raft := r\<rparr>) ?w = Some s' \<and> settled s {#} s'" for r
  proof -
    obtain s' where "refuse_all opens (s1\<lparr>sv_raft := r\<rparr>) ?w = Some s'" "settled (s1\<lparr>sv_raft := r\<rparr>) (clients ?w) s'"
      using refuse_settles[of "s1\<lparr>sv_raft := r\<rparr>" ?w] assms(1) q by auto
    then show ?thesis using q by (auto simp: settled_def)
  qed
  show ?thesis
  proof (cases ok)
    case no: False
    then show ?thesis using ref[of "sv_raft s1"] a \<open>?w \<noteq> []\<close> by (auto simp: flush_writes_def Let_def s1_def)
  next
    case True
    obtain rc r where r: "submit_batch (sv_raft s) (bt_count (sv_batch s)) ?w = (rc, r)" by fastforce
    show ?thesis
    proof (cases "rc = 0")
      case z: True
      let ?s' = "s1\<lparr>sv_raft := r, sv_batch := (sv_batch s1)\<lparr>bt_batches := bt_batches (sv_batch s1) + 1, bt_elapsed := 0\<rparr>,
        sv_total := sv_total s1 + ucast (bt_count (sv_batch s)), sv_waiting := sv_waiting s1 @ ?w\<rparr>"
      have "flush_writes opens s = Some (0, ?s')"
        using a True \<open>?w \<noteq> []\<close> r z by (simp add: flush_writes_def Let_def s1_def)
      moreover have "settled s {#} ?s'" using q by (simp add: settled_def queue_ok_def gate_ok_def ledger_def)
      ultimately show ?thesis by blast
    next
      case nz: False
      have "flush_writes opens s = map_option (Pair 0) (refuse_all opens (s1\<lparr>sv_raft := r\<rparr>) ?w)"
        using a True \<open>?w \<noteq> []\<close> r nz by (simp add: flush_writes_def Let_def s1_def)
      then show ?thesis using ref[of r] by auto
    qed
  qed
qed

lemma reason_settles:
  assumes "fits (length (sv_gate s))" "queue_ok s" "gate_ok s"
  shows "\<exists>rc s'. flush_reason opens s why = Some (rc, s') \<and> settled s {#} s'"
  using flush_settles[OF assms] by (auto simp: flush_reason_def count_reason_def settled_def)

lemma start_settles:
  assumes "fits (length (sv_gate s))" "queue_ok s"
  shows "\<exists>rc s'. start_fcall opens s rq = Some (rc, s') \<and> settled s (if rc = 0 then client_of rq else {#}) s'"
proof -
  let ?s = "s\<lparr>sv_gate_closed := True\<rparr>"
  have g: "gate_ok ?s" by (simp add: gate_ok_def)
  obtain rc s1 where f: "flush_reason opens ?s (barrier_reason s) = Some (rc, s1)" "settled ?s {#} s1" using reason_settles[of ?s "barrier_reason s"] assms g by auto
  obtain rb s2 where b: "raft_barrier_for s1 rq = (rb, s2)" by fastforce
  show ?thesis using f barrier_frame[OF b] by (auto simp: start_fcall_def b settled_def)
qed

end

subsection \<open>The loop of the gate\<close>

text \<open>Opened with more fuel than requests held back, the loop returns with the gate open and empty, or closed by the next command.\<close>

lemma flush_shut:
  assumes "\<not> sv_gate_closed s" "queue_ok s" "sv_gate s = []"
  shows "\<exists>rc s'. flush_reason opens s why = Some (rc, s') \<and> settled s {#} s'"
proof -
  have "gate_opener Some (\<lambda>m. m = 0)" by unfold_locales (auto simp: settled_def gate_ok_def)
  from gate_opener.reason_settles[OF this, of s why] show ?thesis unfolding flush_any[OF assms(1), of opens why Some] using assms by (simp add: gate_ok_def)
qed

lemma queue_write_ok: "queue_ok s \<Longrightarrow> queue_ok (queue_write s rq cmd)" "ledger (queue_write s rq cmd) = ledger s + client_of rq"
  "sv_gate (queue_write s rq cmd) = sv_gate s" "sv_gate_closed (queue_write s rq cmd) = sv_gate_closed s"
  by (simp_all add: queue_ok_def queue_write_def ledger_def)

lemma gate_loop_settles:
  "length (sv_gate s) < n \<Longrightarrow> queue_ok s \<Longrightarrow> \<not> sv_gate_closed s \<Longrightarrow> \<exists>s'. gate_loop n s = Some s' \<and> settled s {#} s'"
proof (induction n arbitrary: s)
  case (Suc n)
  let ?opens = "\<lambda>s. gate_loop n (s\<lparr>sv_gate_closed := False\<rparr>)"
  have O: "gate_opener ?opens (\<lambda>m. m < n)"
  proof
    fix s :: k_submitter
    assume "length (sv_gate s) < n" "queue_ok s"
    then show "\<exists>s'. ?opens s = Some s' \<and> settled s {#} s'" using Suc.IH[of "s\<lparr>sv_gate_closed := False\<rparr>"] by (auto simp: settled_def)
  qed auto
  note start = gate_opener.start_settles[OF O] and free = gate_opener.free_settles[OF O]
  show ?case
  proof (cases "sv_gate s")
    case Nil
    have "settled s {#} s" using Nil Suc.prems by (simp add: settled_def gate_ok_def)
    moreover obtain rc s' where "flush_reason ?opens s (the (limit_reason (sv_batch s))) = Some (rc, s')" "settled s {#} s'"
      using flush_shut[OF Suc.prems(3,2) Nil, of ?opens "the (limit_reason (sv_batch s))"] by blast
    ultimately show ?thesis using Nil by (cases "limit_reason (sv_batch s)") auto
  next
    case (Cons rq rest)
    let ?s = "s\<lparr>sv_gate := rest\<rparr>"
    have l: "length (sv_gate ?s) < n" "queue_ok ?s" "ledger s = ledger ?s + client_of rq" using Suc.prems Cons by (auto simp: ledger_def)
    show ?thesis
    proof (cases "rq_type rq = K_REQ_FCALL")
      case True
      obtain rc s1 where s1: "start_fcall ?opens ?s rq = Some (rc, s1)" "settled ?s (if rc = 0 then client_of rq else {#}) s1" using start[OF l(1,2)] by blast
      let ?r = "snd (k_server_redirect s1 (rq_conn rq) (rq_id rq))"
      show ?thesis
      proof (cases "rc = 0")
        case z: True
        then show ?thesis using s1 True Cons l(3) by (auto simp: settled_def)
      next
        case nz: False
        have "length (sv_gate ?r) < n" "queue_ok ?r" "gate_ok ?r" using s1(2) l(1) by (auto simp: settled_def send_defs)
        from free[OF this, of rq] obtain s2 where "request_free ?opens ?r rq = Some s2" "settled ?r {#} s2" by blast
        then show ?thesis using s1 True nz Cons l(3) by (auto simp: settled_def send_defs client_answer)
      qed
    next
      case False
      obtain ok sc b where b: "k_server_build_write_command (sv_script ?s, k_buf_zero) (rq_type rq) (rq_key rq) (rq_end rq) = (ok, sc, b)" by (metis prod_cases3)
      let ?s1 = "?s\<lparr>sv_script := sc\<rparr>" let ?r = "snd (k_server_redirect ?s1 (rq_conn rq) (rq_id rq))"
      show ?thesis
      proof (cases ok)
        case True
        let ?q = "queue_write ?s1 rq (buf_data b)"
        obtain s2 where "gate_loop n ?q = Some s2" "settled ?q {#} s2"
          using Suc.IH[of ?q] l Suc.prems(3) queue_write_ok(1)[of ?s1 rq "buf_data b"] by (auto simp: queue_write_ok(3,4))
        then show ?thesis using True False Cons b l(3) by (auto simp: settled_def queue_write_ok(2-4))
      next
        case no: False
        have "\<not> sv_gate_closed ?r" using Suc.prems(3) by (simp add: send_defs)
        then obtain t st where f: "request_free ?opens ?r rq = Some (?r\<lparr>sv_table := t, sv_store := st\<rparr>)" using free_shut by blast
        let ?q = "?r\<lparr>sv_table := t, sv_store := st\<rparr>"
        obtain s2 where "gate_loop n ?q = Some s2" "settled ?q {#} s2" using Suc.IH[of ?q] l Suc.prems(3) by (auto simp: send_defs)
        then show ?thesis using no False Cons b f l(3) by (auto simp: settled_def send_defs client_answer)
      qed
    qed
  qed
qed simp

interpretation og: gate_opener k_server_open_gate "\<lambda>m. True"
proof
  fix s :: k_submitter
  assume "queue_ok s"
  then show "\<exists>s'. k_server_open_gate s = Some s' \<and> settled s {#} s'"
    unfolding k_server_open_gate_def using gate_loop_settles[of "s\<lparr>sv_gate_closed := False\<rparr>" "Suc (length (sv_gate s))"] by (auto simp: settled_def)
qed simp

subsection \<open>The operations of the server\<close>

definition sound :: "k_submitter \<Rightarrow> bool" where
  "sound s \<longleftrightarrow> queue_ok s \<and> gate_ok s"

definition keeps_ledger :: "k_submitter \<Rightarrow> (nat \<times> u32) multiset \<Rightarrow> k_submitter option \<Rightarrow> bool" where
  "keeps_ledger s new out \<longleftrightarrow> (case out of None \<Rightarrow> False | Some s' \<Rightarrow> sound s' \<and> ledger s' = ledger s + new)"

lemma keeps_some [simp]: "keeps_ledger s new (Some s') \<longleftrightarrow> sound s' \<and> ledger s' = ledger s + new"
  by (simp add: keeps_ledger_def)





lemma sound_frame [simp]:
  "sound (s\<lparr>sv_store := st\<rparr>) = sound s" "sound (s\<lparr>sv_script := sc\<rparr>) = sound s" "sound (s\<lparr>sv_leader := l\<rparr>) = sound s" "sound (s\<lparr>sv_fatal := b\<rparr>) = sound s"
  "sound (s\<lparr>sv_admission := b\<rparr>) = sound s" "sound (s\<lparr>sv_stopping := b\<rparr>) = sound s" "sound (s\<lparr>sv_raft := r\<rparr>) = sound s" "sound (s\<lparr>sv_waiting := w\<rparr>) = sound s"
  "sound s \<Longrightarrow> sound (snd (k_server_send_response s conn rid st' l' body))" "sound s \<Longrightarrow> sound (k_conn_closed s conn)"
  "sound (s\<lparr>sv_sends := sc\<rparr>) = sound s"
  by (simp_all add: sound_def closed_ok)



























subsection \<open>Runs of the server\<close>







subsection \<open>Handing a batch to Raft\<close>

lemma submit_log:
  assumes "raft_submit r cs = (rc, r')" "log_wf (ctx_log r)" "cs \<noteq> []"
  shows "Raft_Log_Laws.log_entries (ctx_log r') = Raft_Log_Laws.log_entries (ctx_log r)
    @ (if rc = 0 then map (\<lambda>c. mk_entry (current_term r) RAFT_ENTRY_COMMAND (cmd_bytes c) [] [] []) cs else [])"
proof -
  let ?r = "raft_client_pending_compact r"
  obtain ok r1 where e: "raft_client_pending_ensure ?r (client_pending_head ?r + length (client_pending ?r) + length cs) = (ok, r1)" by fastforce
  have r1: "ctx_log r1 = ctx_log r" "current_term r1 = current_term r"
    using e by (auto simp: raft_client_pending_ensure_def raft_client_pending_compact_def split: prod.splits if_splits)
  obtain b sc l where a: "raft_log_append_commands (ctx_script r1) (ctx_log r1) (current_term r1) cs = (b, sc, l)" by (metis prod_cases3)
  have "grown (ctx_log r) (if b then map (\<lambda>c. mk_entry (current_term r) RAFT_ENTRY_COMMAND (cmd_bytes c) [] [] []) cs else []) l"
    using append_commands_law[OF _ a, unfolded r1, OF assms(2)] .
  then have g: "Raft_Log_Laws.log_entries l = Raft_Log_Laws.log_entries (ctx_log r) @ (if b then map (\<lambda>c. mk_entry (current_term r) RAFT_ENTRY_COMMAND (cmd_bytes c) [] [] []) cs else [])"
    by (simp add: grown_def)
  show ?thesis using assms(1,3) e a g r1 by (cases b; cases ok) (auto simp: raft_submit_def Let_def split: if_splits)
qed

lemma batch_bytes: "map (\<lambda>c. mk_entry t k (cmd_bytes c) [] [] []) (map command_of rqs) = map (\<lambda>rq. mk_entry t k (rq_command rq) [] [] []) rqs"
  by (induction rqs) (simp_all add: command_of_def cmd_bytes_def)

lemma submit_batch_log:
  assumes "submit_batch r cnt batch = (rc, r')" "log_wf (ctx_log r)" "batch \<noteq> []"
  shows "Raft_Log_Laws.log_entries (ctx_log r') = Raft_Log_Laws.log_entries (ctx_log r) @ (if rc = 0 then map (\<lambda>rq. mk_entry (current_term r) RAFT_ENTRY_COMMAND (rq_command rq) [] [] []) batch else [])"
  using assms submit_log[of r "map command_of batch" rc r'] unfolding batch_bytes by (auto simp: submit_batch_def split: if_splits)

subsection \<open>The properties\<close>


text \<open>A leader without queued requests.\<close>

definition sample_submitter :: "raft_ctx \<Rightarrow> k_request list \<Rightarrow> k_submitter" where
  "sample_submitter r ws = \<lparr>sv_id = 1, sv_raft = r, sv_store = sample_server, sv_script = [], sv_size = 300, sv_table = admission_empty,
     sv_batch = \<lparr>bt_count = of_nat (length ws), bt_bytes = of_nat (sum_list (map (length \<circ> rq_command) ws)), bt_elapsed = 0, bt_batches = 0, bt_cfg = k_cfg_defaults\<rparr>,
     sv_writes = ws, sv_arrived = 0, sv_total = 0, sv_by = (\<lambda>why. 0), sv_gate = [], sv_gate_closed = False, sv_leader = True, sv_leader_id = 1,
     sv_admission = True, sv_stopping = False, sv_fatal = False, sv_waiting = [], sv_sends = [], sv_closed = [], sv_ended = []\<rparr>"

lemma sample_submitter_sound: "sound (sample_submitter r ws)" "ledger (sample_submitter r ws) = clients ws"
  by (simp_all add: sound_def queue_ok_def gate_ok_def sample_submitter_def ledger_def)


text \<open>C19. A flush hands the whole queue over or refuses all of it, when the gate is open or no custom command waits in the
  queue: either the log of Raft grows by exactly the commands of the queue in the order of their arrival and all of them
  wait for their result, or the log is unchanged and every client is redirected once, in order, but for those whose
  redirect could not be built or whose connection is closed. The queue is empty afterwards. (With the gate closed, the
  refusal of a queued command opens the gate, which submits what it holds back.)\<close>

theorem flush_hands_over:
  assumes "k_server_flush_writes s = Some (rc, s')" "log_wf (ctx_log (sv_raft s))" "\<not> sv_gate_closed s \<or> (\<forall>rq\<in>set (sv_writes s). rq_type rq \<noteq> K_REQ_FCALL)"
  shows "sv_writes s' = [] \<and>
     (Raft_Log_Laws.log_entries (ctx_log (sv_raft s')) = Raft_Log_Laws.log_entries (ctx_log (sv_raft s))
           @ map (\<lambda>rq. mk_entry (current_term (sv_raft s)) RAFT_ENTRY_COMMAND (rq_command rq) [] [] []) (sv_writes s)
        \<and> sv_waiting s' = sv_waiting s @ sv_writes s \<and> sv_ended s' = sv_ended s
      \<or> Raft_Log_Laws.log_entries (ctx_log (sv_raft s')) = Raft_Log_Laws.log_entries (ctx_log (sv_raft s))
        \<and> sv_waiting s' = sv_waiting s \<and> (\<exists>xs. sv_ended s' = sv_ended s @ xs \<and> redirected (sv_writes s) xs))"
proof (cases "sv_writes s = []")
  case True
  then show ?thesis using assms(1) by (auto simp: k_server_flush_writes_def flush_writes_def)
next
  case False
  let ?w = "sv_writes s"
  obtain ok sc where a: "alloc (sv_script s) = (ok, sc)" by fastforce
  define s1 where "s1 = s\<lparr>sv_writes := [], sv_batch := (sv_batch s)\<lparr>bt_count := 0, bt_bytes := 0, bt_elapsed := 0\<rparr>, sv_script := sc\<rparr>"
  obtain c r where r: "submit_batch (sv_raft s) (bt_count (sv_batch s)) ?w = (c, r)" by fastforce
  note L = submit_batch_log[OF r assms(2) False]
  have ref: "sv_raft s' = r' \<and> sv_writes s' = [] \<and> sv_waiting s' = sv_waiting s \<and> (\<exists>xs. sv_ended s' = sv_ended s @ xs \<and> redirected ?w xs)"
    if "k_server_flush_writes s = map_option (Pair c') (refuse_all k_server_open_gate (s1\<lparr>sv_raft := r'\<rparr>) ?w)" for r' c'
  proof -
    obtain s2 xs where "refuse_all k_server_open_gate (s1\<lparr>sv_raft := r'\<rparr>) ?w = Some s2" "queues s2 = queues (s1\<lparr>sv_raft := r'\<rparr>)" "sv_ended s2 = sv_ended s @ xs" "redirected ?w xs"
      using refuse_shut[of "s1\<lparr>sv_raft := r'\<rparr>" ?w k_server_open_gate] assms(3) by (auto simp: s1_def)
    then show ?thesis using that assms(1) by (auto simp: queues_def s1_def)
  qed
  show ?thesis
  proof (cases ok)
    case no: False
    have "k_server_flush_writes s = map_option (Pair (-1)) (refuse_all k_server_open_gate (s1\<lparr>sv_raft := sv_raft s\<rparr>) ?w)"
      using a no False by (simp add: k_server_flush_writes_def flush_writes_def Let_def s1_def)
    from ref[OF this] show ?thesis by simp
  next
    case ok: True
    show ?thesis
    proof (cases "c = 0")
      case True
      then show ?thesis using a ok False r L assms(1) by (auto simp: k_server_flush_writes_def flush_writes_def Let_def)
    next
      case nz: False
      have "k_server_flush_writes s = map_option (Pair 0) (refuse_all k_server_open_gate (s1\<lparr>sv_raft := r\<rparr>) ?w)"
        using a ok nz False r by (simp add: k_server_flush_writes_def flush_writes_def Let_def s1_def)
      from ref[OF this] show ?thesis using L nz by simp
    qed
  qed
qed

text \<open>A leader with an empty log and a request of a client.\<close>

definition sample_leader :: raft_ctx where
  "sample_leader = (sample_node 1)\<lparr>ctx_state := RAFT_LEADER, ctx_log := sample_log\<rparr>"

definition sample_request :: "u64 \<Rightarrow> u8 \<Rightarrow> bytes \<Rightarrow> k_request" where
  "sample_request c ty cmd = \<lparr>rq_cookie = c, rq_conn = 1, rq_id = 9, rq_type = ty, rq_key = [], rq_end = [], rq_command = cmd, rq_tracked = 300\<rparr>"

lemma sample_accepts: "fst (raft_submit sample_leader [\<lparr>cmd_cookie = 5, cmd_command = Some [7], cmd_command_size = 1\<rparr>]) = 0"
  by code_simp

lemma flush_hands_over_witness:
  "\<exists>rc s'. k_server_flush_writes (sample_submitter sample_leader [sample_request 5 K_REQ_SET [7]]) = Some (rc, s') \<and> sv_writes s' = []
    \<and> Raft_Log_Laws.log_entries (ctx_log (sv_raft s')) = [mk_entry 0 RAFT_ENTRY_COMMAND [7] [] [] []]"
proof -
  let ?s = "sample_submitter sample_leader [sample_request 5 K_REQ_SET [7]]"
  obtain rc s' where f: "k_server_flush_writes ?s = Some (rc, s')"
    using og.flush_settles[of ?s] sample_submitter_sound(1)[of sample_leader "[sample_request 5 K_REQ_SET [7]]"] by (auto simp: k_server_flush_writes_def sound_def)
  have r: "ctx_log (sv_raft ?s) = sample_log" "sv_raft ?s = sample_leader" "current_term sample_leader = 0" "\<not> sv_gate_closed ?s" "sv_writes ?s = [sample_request 5 K_REQ_SET [7]]"
    by (simp_all add: sample_submitter_def sample_leader_def sample_node_def ctx_init_def)
  obtain r' where b: "raft_submit sample_leader [\<lparr>cmd_cookie = 5, cmd_command = Some [7], cmd_command_size = 1\<rparr>] = (0, r')" using sample_accepts by (metis prod.collapse)
  have w: "sv_waiting s' = [sample_request 5 K_REQ_SET [7]]" using f b
    by (auto simp: k_server_flush_writes_def flush_writes_def sample_submitter_def submit_batch_def command_of_def sample_request_def Let_def)
  have wf: "log_wf (ctx_log (sv_raft ?s))" unfolding r(1) by (rule sample_log_wf)
  have e: "Raft_Log_Laws.log_entries sample_log = []" by (simp add: Raft_Log_Laws.log_entries_def ents_def sample_log_def)
  show ?thesis using flush_hands_over[OF f wf disjI1[OF r(4)]] f w r e by (auto simp: sample_submitter_def sample_request_def)
qed

text \<open>C39. Custom commands do not exclude each other: when a command that has finished is freed while another command holds the
  gate, the gate is opened all the same, and the next command that waits behind it is started. The comments say that
  the gate stays closed from the fork of a command until its writes are in the log.\<close>

theorem commands_overlap:
  assumes "sv_gate_closed s" "sv_gate s = waiter # rest" "rq_type finished = K_REQ_FCALL" "rq_type waiter = K_REQ_FCALL" "sv_writes s = []"
    "raft_recvfrom_client (sv_raft s) (RAFT_CLIENT_BARRIER (unat (rq_cookie waiter))) = (0, r)" "holder \<in> set (sv_waiting s)" "rq_type holder = K_REQ_FCALL"
  shows "\<exists>s'. k_request_free s finished = Some s' \<and> sv_raft s' = r \<and> sv_gate s' = rest \<and> sv_waiting s' = sv_waiting s @ [waiter]
    \<and> {holder, waiter} \<subseteq> set (sv_waiting s')"
  using assms by (simp add: k_request_free_def request_free_def Let_def k_server_open_gate_def start_fcall_def flush_reason_def flush_writes_def raft_barrier_for_def
      del: raft_recvfrom_client.simps)

lemma sample_barrier: "fst (raft_recvfrom_client sample_leader (RAFT_CLIENT_BARRIER 12)) = 0"
  by code_simp

lemma commands_overlap_witness:
  "\<exists>s'. k_request_free ((sample_submitter sample_leader [])\<lparr>sv_gate_closed := True, sv_gate := [sample_request 12 K_REQ_FCALL []], sv_waiting := [sample_request 8 K_REQ_FCALL []]\<rparr>)
      (sample_request 4 K_REQ_FCALL []) = Some s'
    \<and> sv_waiting s' = [sample_request 8 K_REQ_FCALL [], sample_request 12 K_REQ_FCALL []]"
proof -
  let ?s = "(sample_submitter sample_leader [])\<lparr>sv_gate_closed := True, sv_gate := [sample_request 12 K_REQ_FCALL []], sv_waiting := [sample_request 8 K_REQ_FCALL []]\<rparr>"
  obtain r where r: "raft_recvfrom_client sample_leader (RAFT_CLIENT_BARRIER 12) = (0, r)" using sample_barrier by (metis prod.collapse)
  show ?thesis using commands_overlap[of ?s "sample_request 12 K_REQ_FCALL []" "[]" "sample_request 4 K_REQ_FCALL []" r "sample_request 8 K_REQ_FCALL []"] r
    by (auto simp: sample_submitter_def sample_request_def simp del: raft_recvfrom_client.simps)
qed

end
