(* ===== verification/Server_Race.thy ===== *)
theory Server_Race
  imports Server_Gate
begin

section \<open>Custom commands and the log\<close>

text \<open>
  A custom command must see every write that precedes its own entry in the log. Two facts show that this is not
  ensured: a read barrier of Raft becomes ready before the writes submitted just ahead of it are committed, and the
  entry of a command that did not see a write undoes it.
\<close>

subsection \<open>The barrier\<close>

lemma submit_effect:
  assumes "raft_submit r cs = (0, r1)" "log_wf (ctx_log r)" "cs \<noteq> []"
  shows "last_index r1 = last_index r + int (length cs)" "ctx_state r1 = ctx_state r" "commit_index r1 = commit_index r"
    "read_barriers r1 = read_barriers r" "read_barrier_gen r1 = read_barrier_gen r"
proof -
  let ?r = "raft_client_pending_compact r"
  obtain ok r0 where e: "raft_client_pending_ensure ?r (client_pending_head ?r + length (client_pending ?r) + length cs) = (ok, r0)" by fastforce
  have r0: "ctx_log r0 = ctx_log r" "ctx_state r0 = ctx_state r" "commit_index r0 = commit_index r" "read_barriers r0 = read_barriers r" "read_barrier_gen r0 = read_barrier_gen r"
    using e by (auto simp: raft_client_pending_ensure_def raft_client_pending_compact_def split: prod.splits if_splits)
  obtain b sc l where a: "raft_log_append_commands (ctx_script r0) (ctx_log r0) (current_term r0) cs = (b, sc, l)" by (metis prod_cases3)
  have f: "b" "ctx_log r1 = l" "ctx_state r1 = ctx_state r0" "commit_index r1 = commit_index r0" "read_barriers r1 = read_barriers r0" "read_barrier_gen r1 = read_barrier_gen r0"
    using assms(1,3) e a by (auto simp: raft_submit_def Let_def split: if_splits bool.splits)
  have "grown (ctx_log r) (map (\<lambda>c. mk_entry (current_term r0) RAFT_ENTRY_COMMAND (cmd_bytes c) [] [] []) cs) l"
    using append_commands_law[OF _ a, unfolded r0, OF assms(2)] f(1) by simp
  then have "Raft_Log_Laws.log_entries l = Raft_Log_Laws.log_entries (ctx_log r) @ map (\<lambda>c. mk_entry (current_term r0) RAFT_ENTRY_COMMAND (cmd_bytes c) [] [] []) cs"
    "lg_last_included_index l = lg_last_included_index (ctx_log r)" by (simp_all add: grown_def)
  then show "last_index r1 = last_index r + int (length cs)" by (simp only: f(2) last_index_entries length_append length_map of_nat_add)
  show "ctx_state r1 = ctx_state r" "commit_index r1 = commit_index r" "read_barriers r1 = read_barriers r" "read_barrier_gen r1 = read_barrier_gen r"
    using f r0 by simp_all
qed

lemma barrier_effect:
  assumes "raft_barrier r k = (0, r1)" "ctx_state r = RAFT_LEADER"
  shows "read_barriers r1 = read_barriers r @ [\<lparr>rb_cookie = k, rb_target_index = commit_index r, rb_needs_gen = read_barrier_gen r + 1\<rparr>]" "ctx_log r1 = ctx_log r"
  using assms by (auto simp: raft_barrier_def raft_read_barrier_ensure_def raft_read_round_restart_def Let_def split: prod.splits if_splits)

text \<open>While memory lasts, the loop reports every barrier that is ready and forgets no earlier result.\<close>

lemma result_ensure_room:
  assumes "ctx_script r = []"
  shows "\<exists>c. raft_result_ensure r n = (True, r\<lparr>ctx_script := [], result_capacity := c\<rparr>)"
proof -
  have "\<exists>c. raft_buf_ensure [] m n 8 = (True, [], c)" for m by (simp add: raft_buf_ensure_def Let_def)
  then show ?thesis using assms by (metis raft_result_ensure_def old.prod.case)
qed

lemma result_emit_room:
  assumes "ctx_script r = []"
  shows "ctx_script (raft_result_emit r k st) = []" "barrier_ready (raft_result_emit r k st) = barrier_ready r"
    "\<exists>x. result_buf (raft_result_emit r k st) = result_buf r @ [x] \<and> cr_cookie x = k \<and> cr_status x = st"
proof -
  obtain c where c: "raft_result_ensure r (length (result_buf r) + 1) = (True, r\<lparr>ctx_script := [], result_capacity := c\<rparr>)" using result_ensure_room[OF assms] by blast
  then show "ctx_script (raft_result_emit r k st) = []" "barrier_ready (raft_result_emit r k st) = barrier_ready r"
    "\<exists>x. result_buf (raft_result_emit r k st) = result_buf r @ [x] \<and> cr_cookie x = k \<and> cr_status x = st"
    using assms by (simp_all add: raft_result_emit_def barrier_ready_def fun_eq_iff)
qed

lemma barrier_loop_reports:
  assumes "ctx_script r = []"
  shows "set (result_buf r) \<subseteq> set (result_buf (fst (barrier_loop r bs)))
    \<and> (\<forall>b \<in> set bs. barrier_ready r b \<longrightarrow> (\<exists>c \<in> set (result_buf (fst (barrier_loop r bs))). cr_cookie c = rb_cookie b \<and> cr_status c = RAFT_CLIENT_READY))"
  using assms
proof (induction bs arbitrary: r)
  case (Cons b bs)
  show ?case
  proof (cases "barrier_ready r b")
    case True
    obtain c where c: "raft_result_ensure r (length (result_buf r) + 1) = (True, r\<lparr>ctx_script := [], result_capacity := c\<rparr>)" using result_ensure_room[OF Cons.prems] by blast
    let ?r = "raft_result_emit (r\<lparr>ctx_script := [], result_capacity := c\<rparr>) (rb_cookie b) RAFT_CLIENT_READY"
    have e: "barrier_loop r (b # bs) = barrier_loop ?r bs" using True c by simp
    have s: "ctx_script ?r = []" "barrier_ready ?r = barrier_ready r" "\<exists>x. result_buf ?r = result_buf r @ [x] \<and> cr_cookie x = rb_cookie b \<and> cr_status x = RAFT_CLIENT_READY"
      using result_emit_room[of "r\<lparr>ctx_script := [], result_capacity := c\<rparr>"] by (simp_all add: barrier_ready_def fun_eq_iff)
    show ?thesis unfolding e using Cons.IH[OF s(1)] s(2,3) by fastforce
  next
    case False
    then show ?thesis using Cons.IH[OF Cons.prems] by (cases "barrier_loop r bs") auto
  qed
qed simp

text \<open>C37. A command can start before a write that was submitted ahead of it is committed: when writes and then a barrier are
  submitted, as a flush and the start of a command do, the barrier is reported ready in every later state of the leader in
  which its round is confirmed and the commit index of the submission is applied, although the entries of the writes
  lie beyond the commit index. The comment on the gate says that nothing can slip between the read and the write set.\<close>

theorem barrier_overtakes_write:
  assumes "raft_recvfrom_client r (RAFT_CLIENT_SUBMIT cs) = (0, r1)" "cs \<noteq> []" "raft_recvfrom_client r1 (RAFT_CLIENT_BARRIER k) = (0, r2)"
    and "ctx_state r = RAFT_LEADER" "log_wf (ctx_log r)" "commit_index r \<le> last_index r"
    and "ctx_state r3 = RAFT_LEADER" "read_barriers r3 = read_barriers r2" "last_index r3 = last_index r2" "commit_index r3 = commit_index r" "last_applied r3 = commit_index r"
    and "leadership_confirmed r3" "read_barrier_gen r3 \<ge> read_barrier_gen r + 1" "ctx_script r3 = []"
  shows "(\<exists>c \<in> set (result_buf (raft_check_barriers r3)). cr_cookie c = k \<and> cr_status c = RAFT_CLIENT_READY)
    \<and> commit_index (raft_check_barriers r3) + int (length cs) \<le> last_index r3"
proof -
  have s: "raft_submit r cs = (0, r1)" and b: "raft_barrier r1 k = (0, r2)" using assms(1,3) by simp_all
  note e = submit_effect[OF s assms(5,2)]
  note g = barrier_effect[OF b e(2)[unfolded assms(4)]]
  let ?b = "\<lparr>rb_cookie = k, rb_target_index = commit_index r, rb_needs_gen = read_barrier_gen r + 1\<rparr>"
  have "?b \<in> set (read_barriers r3)" using g(1) assms(8) e(3,5) by simp
  moreover have "barrier_ready r3 ?b" using assms(7,10-13) by (simp add: barrier_ready_def)
  ultimately have r: "\<exists>c \<in> set (result_buf (fst (barrier_loop r3 (read_barriers r3)))). cr_cookie c = k \<and> cr_status c = RAFT_CLIENT_READY"
    using barrier_loop_reports[OF assms(14), of "read_barriers r3"] by fastforce
  have "commit_index (fst (barrier_loop r3 bs)) = commit_index r3" for bs
    by (induction r3 bs rule: barrier_loop.induct) (auto simp: raft_result_ensure_def raft_result_emit_def Let_def split: prod.splits)
  then have "commit_index (fst (barrier_loop r3 (read_barriers r3))) = commit_index r" using assms(10) by simp
  then show ?thesis using r e(1) g(2) assms(6,9) by (auto simp: raft_check_barriers_def split: prod.splits)
qed

text \<open>A leader of three nodes accepts a write and a barrier; its round is confirmed by the other nodes.\<close>

lemma sample_submits:
  "\<exists>r1 r2. raft_recvfrom_client sample_leader (RAFT_CLIENT_SUBMIT [\<lparr>cmd_cookie = 5, cmd_command = Some [7], cmd_command_size = 1\<rparr>]) = (0, r1)
    \<and> raft_recvfrom_client r1 (RAFT_CLIENT_BARRIER 12) = (0, r2) \<and> read_barrier_gen r2 = 0 \<and> ctx_state r2 = RAFT_LEADER \<and> last_applied r2 = 0 \<and> commit_index r2 = 0"
proof -
  let ?c = "[\<lparr>cmd_cookie = 5, cmd_command = Some [7], cmd_command_size = 1\<rparr>]"
  have "case raft_recvfrom_client sample_leader (RAFT_CLIENT_SUBMIT ?c) of (c, r1) \<Rightarrow> case raft_recvfrom_client r1 (RAFT_CLIENT_BARRIER 12) of (d, r2) \<Rightarrow>
      c = 0 \<and> d = 0 \<and> read_barrier_gen r2 = 0 \<and> ctx_state r2 = RAFT_LEADER \<and> last_applied r2 = 0 \<and> commit_index r2 = 0" by code_simp
  then show ?thesis by (auto split: prod.splits)
qed

lemma barrier_overtakes_write_witness:
  "\<exists>r1 r2 r3. raft_recvfrom_client sample_leader (RAFT_CLIENT_SUBMIT [\<lparr>cmd_cookie = 5, cmd_command = Some [7], cmd_command_size = 1\<rparr>]) = (0, r1)
    \<and> raft_recvfrom_client r1 (RAFT_CLIENT_BARRIER 12) = (0, r2) \<and> r3 = r2\<lparr>leadership_confirmed := True, read_barrier_gen := 1, ctx_script := []\<rparr>
    \<and> (\<exists>c \<in> set (result_buf (raft_check_barriers r3)). cr_cookie c = 12 \<and> cr_status c = RAFT_CLIENT_READY)
    \<and> commit_index (raft_check_barriers r3) + 1 \<le> last_index r3"
proof -
  obtain r1 r2 where r: "raft_recvfrom_client sample_leader (RAFT_CLIENT_SUBMIT [\<lparr>cmd_cookie = 5, cmd_command = Some [7], cmd_command_size = 1\<rparr>]) = (0, r1)"
    "raft_recvfrom_client r1 (RAFT_CLIENT_BARRIER 12) = (0, r2)" "read_barrier_gen r2 = 0" "ctx_state r2 = RAFT_LEADER" "last_applied r2 = 0" "commit_index r2 = 0"
    using sample_submits by blast
  have l: "ctx_state sample_leader = RAFT_LEADER" "log_wf (ctx_log sample_leader)" "commit_index sample_leader = 0" "0 \<le> last_index sample_leader" "read_barrier_gen sample_leader = 0"
    using sample_log_wf by (simp_all add: sample_leader_def sample_node_def ctx_init_def) (simp add: sample_log_def raft_log_last_index_def)
  show ?thesis using barrier_overtakes_write[OF r(1) _ r(2) l(1,2), of "r2\<lparr>leadership_confirmed := True, read_barrier_gen := 1, ctx_script := []\<rparr>"] r l
    by (simp del: raft_recvfrom_client.simps)
qed

subsection \<open>The write set\<close>

lemma exec_writes:
  assumes "k_server_exec_cmd regs s name args = (ExecEntry e b, s')" "k_cmd_find regs name = Some k_cmd_transfer" "transfer_args args = Some (src, dst, amt)" "store_ok s"
  obtains fv tv where "contents s src = Some fv" "contents s dst = Some tv" "amount_of amt \<le> amount_of fv"
    "write_ok (WExec [Set src (dec_bytes (unat (amount_of fv - amount_of amt))), Set dst (dec_bytes (unat (amount_of tv + amount_of amt)))])"
    "e = write_wire (WExec [Set src (dec_bytes (unat (amount_of fv - amount_of amt))), Set dst (dec_bytes (unat (amount_of tv + amount_of amt)))])"
proof -
  have "run_command k_cmd_transfer s args = (ExecEntry e b, s')" using assms(1,2) by (simp add: k_server_exec_cmd_def)
  from transfer.run_recorded(2)[OF this assms(4) refl] obtain ws where "transfer_effect (contents s) args = Some ws" "write_ok (WExec ws)" "e = write_wire (WExec ws)" by blast
  then show thesis using assms(3) that by (auto simp: transfer_effect_def not_less simp del: write_ok.simps write_wire.simps split: option.splits if_splits)
qed

text \<open>C38. A write that a command did not see is lost: the balance that a transfer leaves on a replica is computed from the
  leader's store at the time of the run, whatever the replica holds for the account when it applies the entry. So a
  deposit between the two, or the withdrawal of another transfer that ran on the same store, is undone although it
  was acknowledged.\<close>

theorem stale_transfer_loses_update:
  assumes "k_server_exec_cmd regs s name args = (ExecEntry e b, s')" "k_cmd_find regs name = Some k_cmd_transfer" "transfer_args args = Some (src, dst, amt)"
    "store_ok s" "src \<noteq> dst" "store_ok r" "k_server_apply_command r e cookie = (0, r')"
  shows "\<exists>fv v. contents s src = Some fv \<and> contents r' src = Some v \<and> unat (amount_of v) + unat (amount_of amt) = unat (amount_of fv)"
proof -
  obtain fv tv where w: "contents s src = Some fv" "amount_of amt \<le> amount_of fv"
    "write_ok (WExec [Set src (dec_bytes (unat (amount_of fv - amount_of amt))), Set dst (dec_bytes (unat (amount_of tv + amount_of amt)))])"
    "e = write_wire (WExec [Set src (dec_bytes (unat (amount_of fv - amount_of amt))), Set dst (dec_bytes (unat (amount_of tv + amount_of amt)))])"
    using exec_writes[OF assms(1-4)] by metis
  let ?v = "dec_bytes (unat (amount_of fv - amount_of amt))"
  have "contents r' src = Some ?v" using write_contents[OF assms(7)[unfolded w(4)] assms(6) w(3)] assms(5) by simp
  moreover have "unat (amount_of ?v) + unat (amount_of amt) = unat (amount_of fv)"
    unfolding amount_printed using w(2) by (simp add: unat_sub[OF w(2)] word_le_nat_alt)
  ultimately show ?thesis using w(1) by blast
qed

text \<open>Eight are transferred from an account of 50; a replica on which the account has been set to something else in
  the meantime has 42 there again.\<close>

lemma stale_transfer_loses_update_witness:
  "\<exists>s r r' v. contents s [1] = Some (dec_bytes 50) \<and> contents r [1] = Some [7, 7] \<and> contents r' [1] = Some v \<and> unat (amount_of v) = 42
    \<and> (\<exists>e b s'. k_server_exec_cmd [([116], k_cmd_transfer)] s [116] (transfer_request [1] [2, 3] (dec_bytes 8)) = (ExecEntry e b, s') \<and> k_server_apply_command r e None = (0, r'))"
proof -
  let ?args = "transfer_request [1] [2, 3] (dec_bytes 8)"
  obtain s where s: "store_ok s" "roomy s" "contents s = [[1] \<mapsto> dec_bytes 50, [2, 3] \<mapsto> dec_bytes 7]" "length (entries (root (ap_tree s))) = 2" by (rule bank_exists)
  obtain e b s' where x: "k_server_exec_cmd [([116], k_cmd_transfer)] s [116] ?args = (ExecEntry e b, s')" "transfer_args ?args = Some ([1], [2, 3], dec_bytes 8)"
    using transfer_run[OF s, of "[2, 3]"] by blast
  have f: "k_cmd_find [([116], k_cmd_transfer)] [116] = Some k_cmd_transfer" by (simp add: k_cmd_find_def)
  obtain w where w: "write_ok w" "e = write_wire w" using exec_writes[OF x(1) f x(2) s(1)] by metis
  obtain rc r' where a: "k_server_apply_command sample_server e None = (rc, r')" by fastforce
  have z: "rc = 0" using write_effect_law[OF a[unfolded w(2)] sample_server_facts(1) w(1)] sample_server_facts(2,4) by simp
  have n: "unat (amount_of (dec_bytes 50)) = 50" "unat (amount_of (dec_bytes 8)) = 8" using amount_printed[of 50] amount_printed[of 8] by simp_all
  have ne: "[1] \<noteq> ([2, 3] :: bytes)" by simp
  obtain fv v where v: "contents s [1] = Some fv" "contents r' [1] = Some v" "unat (amount_of v) + unat (amount_of (dec_bytes 8)) = unat (amount_of fv)"
    using stale_transfer_loses_update[OF x(1) f x(2) s(1) ne sample_server_facts(1) a[unfolded z]] by blast
  have "contents s [1] = Some (dec_bytes 50)" "contents sample_server [1] = Some [7, 7]" using s(3) sample_server_facts(3) by simp_all
  moreover from this(1) have "unat (amount_of v) = 42" using v(1,3) n by simp
  ultimately show ?thesis using v(2) x(1) a z by blast
qed

end
