(* ===== verification/Spec2Isabelle.thy ===== *)
theory Spec2Isabelle
  imports Cluster Crc32 Raft_Durable Server_Append Server_Race
begin

text \<open>
  \<^bold>\<open>kynovo: a verification development.\<close>

  kynovo is a replicated key-value store in C. A server process keeps an ordered store (a
  persistent treap, \<^verbatim>\<open>src/code/treap.h\<close>), replicates the commands on it with Raft
  (\<^verbatim>\<open>src/code/raft.h\<close>), writes Raft's state to a write-ahead log and talks to clients and peers in
  length-prefixed frames (\<^verbatim>\<open>src/code/kproto.h\<close>, \<^verbatim>\<open>src/code/kserver.h\<close>) on top of a small base
  library of byte codecs, buffers and checksums (\<^verbatim>\<open>src/code/kbase.h\<close>). The Raft node is a pure
  state machine: the server feeds it messages, client requests, elapsed time and completion
  reports, and takes from \<^verbatim>\<open>raft_advance\<close> a bundle of messages to send, entries to persist, entries
  to apply and results to deliver.

  \<^bold>\<open>Conventions.\<close> Fixed-width unsigned integers whose wrap-around matters are words (\<open>u8\<close>, \<open>u32\<close>,
  \<open>u64\<close>); terms, log indices and ids are \<open>int\<close>, with the caps the code tests (\<^verbatim>\<open>RAFT_TERM_MAX\<close>)
  written out; sizes and positions in arrays are \<open>nat\<close>. A C function that returns a status and
  changes its argument returns the status and the new value. Memory is scripted: a function that
  allocates takes a list of booleans (\<open>script\<close>), one per allocation, \<open>False\<close> for one that fails;
  an exhausted script means that memory is available, so a theorem over all scripts covers every
  placement of failures. File operations are scripted the same way, with the number of bytes a
  failed write has stored; a file is its bytes. Loops are recursive functions with termination proofs. Only
  the loop of the gate (\<^verbatim>\<open>gate_loop\<close>) uses fuel, since freeing a request reenters it: one more than the
  number of requests held back, which is proved to be enough for every run of the server. Data blocks freed by the code disappear from the model where their absence is
  observable (the treap heap) and are ignored elsewhere.

  \<^bold>\<open>Theories.\<close>
  \<^item> \<^verbatim>\<open>Prelude\<close>: types, collections and lemmas shared by all theories.
  \<^item> \<^verbatim>\<open>Kbase\<close>, \<^verbatim>\<open>Crc32\<close>: the integer codecs, the growable buffer, the bounds-checked reader and
    CRC-32 of \<^verbatim>\<open>kbase.h\<close>; the table-driven CRC equals the bit-serial one and detects a corrupted byte.
  \<^item> \<^verbatim>\<open>Kproto\<close>, \<^verbatim>\<open>Cluster\<close>: frames, the receive buffer, requests, responses and the membership text
    of \<^verbatim>\<open>kproto.h\<close>; a stream of frames cut into arbitrary chunks is delivered frame by frame.
  \<^item> \<^verbatim>\<open>Treap_Node\<close>, \<^verbatim>\<open>Treap_Ops\<close>, \<^verbatim>\<open>Treap\<close>: the store of \<^verbatim>\<open>treap.h\<close> on an explicit heap of nodes and
    reference-counted value blocks: \<^verbatim>\<open>treap_split\<close>, \<^verbatim>\<open>treap_merge\<close>, \<^verbatim>\<open>treap_set\<close>, \<^verbatim>\<open>treap_delete\<close>, range
    deletion, queries, snapshots and transactions. \<^verbatim>\<open>Treap_Map\<close>, \<^verbatim>\<open>Treap_Del\<close>, \<^verbatim>\<open>Treap_Room\<close>,
    \<^verbatim>\<open>Treap_Store\<close>, \<^verbatim>\<open>Treap_Txn\<close>, \<^verbatim>\<open>Treap_Props\<close>, \<^verbatim>\<open>Treap_Safety\<close>: the ordering, heap and reference-count
    invariants, the refinement to a map, canonical shape, order statistics, snapshot isolation
    and transactions. \<^verbatim>\<open>Treap_Stream\<close>, \<^verbatim>\<open>Treap_Stream_Laws\<close>, \<^verbatim>\<open>Treap_Load\<close>: \<^verbatim>\<open>treap_scan\<close>, \<^verbatim>\<open>treap_save\<close>,
    \<^verbatim>\<open>treap_load\<close> and \<^verbatim>\<open>treap_free_tree\<close>; what a scan visits, and the round trip of a captured snapshot.
  \<^item> \<^verbatim>\<open>Raft_Set\<close>, \<^verbatim>\<open>Raft_Log\<close>, \<^verbatim>\<open>Raft_Log_Laws\<close>, \<^verbatim>\<open>Raft_Log_Refine\<close>: id sets and the chunked log; the
    log interface is a locale of list laws, interpreted on the chunked implementation.
  \<^item> \<^verbatim>\<open>Raft_Ctx\<close>, \<^verbatim>\<open>Raft_Config\<close>, \<^verbatim>\<open>Raft_Election\<close>, \<^verbatim>\<open>Raft_Replication\<close>, \<^verbatim>\<open>Raft_Client\<close>, \<^verbatim>\<open>Raft_Tick\<close>,
    \<^verbatim>\<open>Raft_Advance\<close>: the Raft node, in the order of \<^verbatim>\<open>raft.h\<close>: the node record and its buffers,
    membership, elections, replication and snapshots, client requests, the leader's tick and the
    apply queue, creation, \<^verbatim>\<open>raft_advance\<close> and \<^verbatim>\<open>raft_apply_complete\<close>.
  \<^item> \<^verbatim>\<open>Raft_Frame\<close>: what each helper leaves alone. \<^verbatim>\<open>Raft_Quorum\<close>, \<^verbatim>\<open>Raft_Safety\<close>: quorums as a locale
    interpreted on the memberships the code tallies; one leader per term, elections meet
    commitments, the commit rule, configuration changes. \<^verbatim>\<open>Raft_Match\<close>, \<^verbatim>\<open>Raft_Leader\<close>: log matching
    through AppendEntries, from the message the leader builds to the log the follower keeps.
    \<^verbatim>\<open>Raft_Vote\<close>: terms and votes under every peer message. \<^verbatim>\<open>Raft_Durable\<close>: the durable frontier,
    what a node acknowledges, and progress of commitment.
  \<^item> \<^verbatim>\<open>Server_Codec\<close>: the peer messages and client responses of \<^verbatim>\<open>kserver.h\<close> on the wire
    (\<^verbatim>\<open>k_peer_encode\<close>, \<^verbatim>\<open>k_peer_decode\<close>, \<^verbatim>\<open>k_response_payload\<close>): round trips, and replication through the
    encoded message.
  \<^item> \<^verbatim>\<open>Server_Wal\<close>: the configuration file, the two metadata slots, record serialization, appending
    (\<^verbatim>\<open>k_wal_append_bundle\<close>) and recovery (\<^verbatim>\<open>k_wal_state_load\<close>) of the write-ahead log.
    \<^verbatim>\<open>Server_Wal_Laws\<close>: round trips of slots, configuration and records, and the scan of a segment.
    \<^verbatim>\<open>Server_Recovery\<close>: recovery of any layout of complete records with a torn tail, and the log suffix
    it drops after a snapshot. \<^verbatim>\<open>Server_Append\<close>: appends are crash safe, a journal locale interpreted on
    the log shows that what was acknowledged is recovered, and the leftovers of a torn record.
  \<^item> \<^verbatim>\<open>Server_Apply\<close>: the commands the server submits and their execution on the applied state
    (\<^verbatim>\<open>k_server_build_write_command\<close>, \<^verbatim>\<open>k_server_apply_command\<close>, \<^verbatim>\<open>k_server_apply_exec\<close>), the address
    book and the member sets (\<^verbatim>\<open>k_server_add_address\<close>, \<^verbatim>\<open>k_membership_update\<close>). \<^verbatim>\<open>Treap_Range\<close>: range
    deletion and scans with memory. \<^verbatim>\<open>Server_Apply_Laws\<close>: abstract writes on the key-value map, and that
    any command leaves a sound store. \<^verbatim>\<open>Server_Effect\<close>: each command has the effect and the answer of its
    abstract write. \<^verbatim>\<open>Server_Replica\<close>: the apply loop of \<^verbatim>\<open>k_server_process_bundle_live\<close>; replicas that
    apply the same entries agree.
  \<^item> \<^verbatim>\<open>Server_Exec\<close>: custom commands, the built-in \<^verbatim>\<open>transfer\<close>, and that the replay of the recorded
    write set has the effect the command had on the leader. \<^verbatim>\<open>Server_Read\<close>: the answers to reads and the
    pages of range reads. \<^verbatim>\<open>Server_Clock\<close>: the millisecond clock, when a batch of writes is submitted, and
    the table of requests in flight.
  \<^item> \<^verbatim>\<open>Server_Dispatch\<close>: what \<^verbatim>\<open>k_server_client_frame\<close> makes of a client frame; what the client library
    builds is submitted unchanged, and what is accepted can be applied, but for a malformed \<^verbatim>\<open>CAS\<close>.
    \<^verbatim>\<open>Server_Queue\<close>: the path of a request to Raft and back (\<^verbatim>\<open>k_server_submit\<close>, \<^verbatim>\<open>k_server_flush_writes\<close>,
    \<^verbatim>\<open>k_server_open_gate\<close>, \<^verbatim>\<open>k_server_handle_client_result\<close>). \<^verbatim>\<open>Server_Gate\<close>: a ledger of the requests; its
    laws for freeing and flushing are proved once in a locale over the operation that opens the gate and
    interpreted on the gate itself, and in any run each request is held or ended once, with an answer or a reason. \<^verbatim>\<open>Server_Race\<close>: a command can start
    before a write submitted ahead of it is committed, and its write set then undoes that write.

  \<^bold>\<open>Not modelled.\<close> The event loop (\<^verbatim>\<open>cemon.h\<close>), threads, files and the terminal (\<^verbatim>\<open>runtime.h\<close>,
  \<^verbatim>\<open>vfs.h\<close>, \<^verbatim>\<open>cli.h\<close>), the client library and the programs: operating-system calls and glue. Of the
  server (\<^verbatim>\<open>kserver.h\<close>) the connections, the submission of membership changes and the automatic replacement
  of nodes, the texts of \<^verbatim>\<open>INFO\<close> and \<^verbatim>\<open>STATS\<close>, the worker threads and the release of old segments. Of the store, the read-only inspector; of Raft,
  \<^verbatim>\<open>raft_destroy\<close> and the helpers that only free memory.
\<close>

end
